(* ===== verification/Prelude.thy ===== *)
theory Prelude
  imports Main "HOL-Library.Word" "HOL-Library.Sublist"
begin

text \<open>
  What the component theories share: the model of JavaScript strings as lists of UTF-16 code
  units, the string operations of the language the sources use (\<open>indexOf\<close>, \<open>split\<close>,
  \<open>join\<close>, \<open>trim\<close>, decimal printing), the model of JSON values with
  \<open>JSON.stringify\<close>, and generic lemmas on lists, declared so that \<open>simp\<close> and \<open>auto\<close> carry
  the component proofs.
\<close>

named_theorems js_eval \<open>equations that evaluate the string operations on literals\<close>

section \<open>Strings as UTF-16 code units\<close>

type_synonym jchar = "16 word"
type_synonym jstring = "jchar list"

text \<open>An ASCII literal of the source: \<open>js ''read''\<close> is the string \<open>"read"\<close>.\<close>

definition js :: "string \<Rightarrow> jstring" where
  [js_eval]: "js s = map of_char s"

abbreviation newline :: jchar where
  "newline \<equiv> 10"

lemma js_Nil [simp]: "js '''' = []"
  by (simp add: js_def)

lemma js_eq_Nil_iff [simp]: "js s = [] \<longleftrightarrow> s = []"
  by (simp add: js_def)

lemma length_js [simp]: "length (js s) = length s"
  by (simp add: js_def)

text \<open>The two halves of a surrogate pair.\<close>

definition is_high :: "jchar \<Rightarrow> bool" where
  "is_high c \<longleftrightarrow> 0xd800 \<le> c \<and> c \<le> 0xdbff"

definition is_low :: "jchar \<Rightarrow> bool" where
  "is_low c \<longleftrightarrow> 0xdc00 \<le> c \<and> c \<le> 0xdfff"

lemma high_not_low [simp]: "is_high c \<Longrightarrow> \<not> is_low c"
  by (simp add: is_high_def is_low_def word_le_nat_alt)

lemma low_not_high: "is_low c \<Longrightarrow> \<not> is_high c"
  by (metis high_not_low)

section \<open>Splitting and joining\<close>

text \<open>\<open>s.split(c)\<close> for a separator of one code unit.\<close>

fun split_on :: "'a \<Rightarrow> 'a list \<Rightarrow> 'a list list" where
  "split_on c [] = [[]]"
| "split_on c (x # xs) =
     (if x = c then [] # split_on c xs
      else (case split_on c xs of [] \<Rightarrow> [[x]] | l # ls \<Rightarrow> (x # l) # ls))"

text \<open>\<open>parts.join(sep)\<close>.\<close>

fun join :: "'a list \<Rightarrow> 'a list list \<Rightarrow> 'a list" where
  "join sep [] = []"
| "join sep [p] = p"
| "join sep (p # q # ps) = p @ sep @ join sep (q # ps)"

lemma split_on_not_Nil [simp]: "split_on c xs \<noteq> []"
  by (induction xs) (auto split: list.splits)

lemma length_split_on_pos [simp]: "0 < length (split_on c xs)"
  by simp

lemma join_Cons: "ps \<noteq> [] \<Longrightarrow> join sep (p # ps) = p @ sep @ join sep ps"
  by (cases ps) auto

lemma join_split_on [simp]: "join [c] (split_on c xs) = xs"
proof (induction xs)
  case Nil
  then show ?case by simp
next
  case (Cons x xs)
  obtain l ls where s: "split_on c xs = l # ls"
    by (cases "split_on c xs") auto
  have "join [c] ((x # l) # ls) = x # join [c] (l # ls)"
    by (cases ls) auto
  with Cons s show ?case by (simp add: join_Cons)
qed

lemma split_on_sep_free: "l \<in> set (split_on c xs) \<Longrightarrow> c \<notin> set l"
proof (induction xs arbitrary: l)
  case Nil
  then show ?case by simp
next
  case (Cons x xs)
  then show ?case
    by (cases "split_on c xs") (auto split: if_splits)
qed

lemma split_on_free: "c \<notin> set p \<Longrightarrow> split_on c p = [p]"
  by (induction p) auto

lemma split_on_append_sep: "c \<notin> set p \<Longrightarrow> split_on c (p @ c # ys) = p # split_on c ys"
  by (induction p) auto

lemma split_on_lines: "\<forall>l \<in> set ls. c \<notin> set l \<Longrightarrow> split_on c (concat (map (\<lambda>l. l @ [c]) ls)) = ls @ [[]]"
  by (induction ls) (simp_all add: split_on_append_sep)

lemma split_on_join:
  "ls \<noteq> [] \<Longrightarrow> \<forall>l \<in> set ls. c \<notin> set l \<Longrightarrow> split_on c (join [c] ls) = ls"
proof (induction ls)
  case Nil
  then show ?case by simp
next
  case (Cons p ps)
  show ?case
  proof (cases "ps = []")
    case True
    with Cons.prems show ?thesis by (simp add: split_on_free)
  next
    case False
    with Cons show ?thesis by (simp add: join_Cons split_on_append_sep)
  qed
qed

lemma join_append:
  "ps \<noteq> [] \<Longrightarrow> qs \<noteq> [] \<Longrightarrow> join sep (ps @ qs) = join sep ps @ sep @ join sep qs"
proof (induction ps)
  case Nil
  then show ?case by simp
next
  case (Cons p ps)
  then show ?case by (cases "ps = []") (simp_all add: join_Cons)
qed

lemma join_snoc: "ps \<noteq> [] \<Longrightarrow> join sep (ps @ [q]) = join sep ps @ sep @ q"
  by (simp add: join_append)

lemma join_prefix: "prefix (join sep (take k ps)) (join sep ps)"
proof (cases "k < length ps \<and> 0 < k")
  case True
  then have "join sep (take k ps @ drop k ps) = join sep (take k ps) @ sep @ join sep (drop k ps)"
    by (intro join_append) auto
  then show ?thesis by (metis append_take_drop_id prefixI)
next
  case False
  then show ?thesis by (cases "k = 0") auto
qed

section \<open>Searching\<close>

text \<open>\<open>s.indexOf(pat)\<close>, with \<open>None\<close> for the result \<open>-1\<close>.\<close>

fun index_of :: "'a list \<Rightarrow> 'a list \<Rightarrow> nat option" where
  "index_of pat [] = (if pat = [] then Some 0 else None)"
| "index_of pat (x # xs) =
     (if prefix pat (x # xs) then Some 0 else map_option Suc (index_of pat xs))"

lemma index_of_Some_prefix: "index_of pat s = Some i \<Longrightarrow> prefix pat (drop i s)"
  by (induction pat s arbitrary: i rule: index_of.induct) (auto split: if_splits)

lemma index_of_Some_le: "index_of pat s = Some i \<Longrightarrow> i + length pat \<le> length s"
proof (induction pat s arbitrary: i rule: index_of.induct)
  case (1 pat)
  then show ?case by (auto split: if_splits)
next
  case (2 pat x xs)
  then show ?case
    by (auto split: if_splits dest: prefix_length_le)
qed

lemma index_of_decomp:
  assumes "index_of pat s = Some i"
  shows "s = take i s @ pat @ drop (i + length pat) s"
proof -
  obtain zs where zs: "drop i s = pat @ zs"
    using index_of_Some_prefix [OF assms] by (auto simp: prefix_def)
  then have "drop (length pat) (drop i s) = zs" by simp
  then have "zs = drop (i + length pat) s" by (simp add: add.commute)
  with zs show ?thesis by (metis append_take_drop_id)
qed

lemma index_of_least: "index_of pat s = Some i \<Longrightarrow> j < i \<Longrightarrow> \<not> prefix pat (drop j s)"
proof (induction pat s arbitrary: i j rule: index_of.induct)
  case (1 pat)
  then show ?case by (auto split: if_splits)
next
  case (2 pat x xs)
  then show ?case by (cases j) (auto split: if_splits)
qed

lemma index_of_None: "index_of pat s = None \<Longrightarrow> \<not> prefix pat (drop j s)"
proof (induction pat s arbitrary: j rule: index_of.induct)
  case (1 pat)
  then show ?case by (auto split: if_splits)
next
  case (2 pat x xs)
  then show ?case by (cases j) (auto split: if_splits)
qed

lemma index_of_None_sublist: "index_of pat s = None \<Longrightarrow> \<not> sublist pat s"
proof
  assume none: "index_of pat s = None" and "sublist pat s"
  then obtain ps ss where "s = ps @ pat @ ss" by (auto simp: sublist_def)
  then have "prefix pat (drop (length ps) s)" by simp
  with index_of_None [OF none] show False by blast
qed

lemma index_of_exists: "prefix pat (drop j s) \<Longrightarrow> \<exists>i \<le> j. index_of pat s = Some i"
proof -
  assume p: "prefix pat (drop j s)"
  then obtain i where i: "index_of pat s = Some i"
    using index_of_None by (cases "index_of pat s") auto
  with p index_of_least have "i \<le> j" by (meson not_le)
  with i show ?thesis by blast
qed

text \<open>\<open>xs.findIndex(p)\<close>.\<close>

fun find_index :: "('a \<Rightarrow> bool) \<Rightarrow> 'a list \<Rightarrow> nat option" where
  "find_index p [] = None"
| "find_index p (x # xs) = (if p x then Some 0 else map_option Suc (find_index p xs))"

lemma find_index_Some:
  "find_index p xs = Some i \<Longrightarrow> i < length xs \<and> p (xs ! i) \<and> (\<forall>j < i. \<not> p (xs ! j))"
proof (induction xs arbitrary: i)
  case Nil
  then show ?case by simp
next
  case (Cons x xs)
  then show ?case by (auto split: if_splits simp: less_Suc_eq_0_disj)
qed

lemma find_index_None: "find_index p xs = None \<longleftrightarrow> (\<forall>x \<in> set xs. \<not> p x)"
  by (induction xs) auto

lemma find_index_append:
  "find_index p (xs @ ys) =
     (case find_index p xs of Some i \<Rightarrow> Some i
      | None \<Rightarrow> map_option (\<lambda>i. length xs + i) (find_index p ys))"
proof (induction xs)
  case Nil
  then show ?case by (cases "find_index p ys") auto
next
  case (Cons x xs)
  then show ?case
    by (cases "find_index p ys") (auto split: option.splits)
qed

section \<open>White space\<close>

text \<open>The code units \<open>String.prototype.trim\<close> removes: WhiteSpace and LineTerminator.\<close>

definition is_js_space :: "jchar \<Rightarrow> bool" where
  "is_js_space c \<longleftrightarrow>
     9 \<le> c \<and> c \<le> 13 \<or> c = 0x20 \<or> c = 0xA0 \<or> c = 0x1680 \<or> 0x2000 \<le> c \<and> c \<le> 0x200A \<or>
     c = 0x2028 \<or> c = 0x2029 \<or> c = 0x202F \<or> c = 0x205F \<or> c = 0x3000 \<or> c = 0xFEFF"

definition trim_start :: "jstring \<Rightarrow> jstring" where
  "trim_start s = dropWhile is_js_space s"

definition trim_end :: "jstring \<Rightarrow> jstring" where
  "trim_end s = rev (dropWhile is_js_space (rev s))"

definition trim :: "jstring \<Rightarrow> jstring" where
  "trim s = trim_end (trim_start s)"

lemma trim_Cons: "\<not> is_js_space c \<Longrightarrow> trim (c # s) \<noteq> []"
  by (auto simp: trim_def trim_start_def trim_end_def)

lemma trim_Nil [simp]: "trim [] = []"
  by (simp add: trim_def trim_end_def trim_start_def)

lemma prefix_trim_end: "prefix (trim_end s) s"
  unfolding trim_end_def
  by (metis rev_rev_ident suffix_dropWhile suffix_to_prefix)

lemma hd_trim_start: "trim_start s \<noteq> [] \<Longrightarrow> \<not> is_js_space (hd (trim_start s))"
  unfolding trim_start_def by (rule hd_dropWhile)

lemma trim_end_id: "s = [] \<or> \<not> is_js_space (last s) \<Longrightarrow> trim_end s = s"
  unfolding trim_end_def
  by (metis (no_types, lifting) dropWhile_eq_self_iff hd_rev rev_is_Nil_conv rev_rev_ident)

lemma last_trim_end: "trim_end s \<noteq> [] \<Longrightarrow> \<not> is_js_space (last (trim_end s))"
  unfolding trim_end_def by (simp add: last_rev hd_dropWhile)

lemma trim_end_idem [simp]: "trim_end (trim_end s) = trim_end s"
  using last_trim_end trim_end_id by blast

lemma trim_idem [simp]: "trim (trim s) = trim s"
proof (cases "trim s = []")
  case False
  have "hd (trim s) = hd (trim_start s)"
    using prefix_trim_end [of "trim_start s"] False
    by (metis hd_append2 prefix_def trim_def)
  moreover have "trim_start s \<noteq> []"
    using False by (auto simp: trim_def trim_end_def)
  ultimately have "trim_start (trim s) = trim s"
    using hd_trim_start [of s] False by (simp add: trim_start_def dropWhile_eq_self_iff)
  then show ?thesis by (simp add: trim_def)
qed simp

section \<open>Decimal numbers\<close>

text \<open>\<open>String(n)\<close> and template literals on a non-negative integer.\<close>

fun nat_digits :: "nat \<Rightarrow> nat list" where
  "nat_digits n = (if n < 10 then [n] else nat_digits (n div 10) @ [n mod 10])"

declare nat_digits.simps [simp del]

definition show_nat :: "nat \<Rightarrow> jstring" where
  "show_nat n = map (\<lambda>d. of_nat (48 + d)) (nat_digits n)"

definition show_int :: "int \<Rightarrow> jstring" where
  "show_int i = (if i < 0 then js ''-'' @ show_nat (nat (- i)) else show_nat (nat i))"

lemma nat_digits_not_Nil [simp]: "nat_digits n \<noteq> []"
  by (subst nat_digits.simps) simp

lemma show_nat_not_Nil [simp]: "show_nat n \<noteq> []"
  by (simp add: show_nat_def)

section \<open>Lists\<close>

lemma take_Suc_snoc: "k < length xs \<Longrightarrow> take (Suc k) xs = take k xs @ [xs ! k]"
  by (rule take_Suc_conv_app_nth)

lemma drop_nth_Cons: "k < length xs \<Longrightarrow> drop k xs = xs ! k # drop (Suc k) xs"
  by (rule Cons_nth_drop_Suc [symmetric])

end
