(* ===== verification/Uuid.thy ===== *)
theory Uuid
  imports Prelude
begin

text \<open>
  Identifiers: \<open>packages/agent/src/harness/session/uuid.ts\<close> (UUID version 7 with a monotonic
  sequence) and \<open>generateEntryId\<close> of the session storages. The clock and the random source are
  the environment; the module variables \<open>lastTimestamp\<close> and \<open>sequence\<close> are the world's state.
\<close>

unbundle bit_operations_syntax

section \<open>The environment and the module state\<close>

text \<open>
  The \<open>n\<close>-th reading of \<open>Date.now()\<close>, byte \<open>i\<close> of the \<open>n\<close>-th random fill, and the ISO text
  of a time. \<open>w_lastTimestamp = None\<close> stands for the initial \<open>-Infinity\<close>.
\<close>

type_synonym byte = "8 word"

record env =
  env_clock :: "nat \<Rightarrow> nat"
  env_random :: "nat \<Rightarrow> nat \<Rightarrow> byte"
  env_iso :: "nat \<Rightarrow> jstring"

record world =
  w_ticks :: nat
  w_lastTimestamp :: "nat option"
  w_sequence :: "32 word"

definition init_world :: world where
  "init_world = \<lparr>w_ticks = 0, w_lastTimestamp = None, w_sequence = 0\<rparr>"

definition date_now :: "env \<Rightarrow> world \<Rightarrow> nat \<times> world" where
  "date_now e w = (env_clock e (w_ticks w), w\<lparr>w_ticks := Suc (w_ticks w)\<rparr>)"

text \<open>\<open>new Date().toISOString()\<close>\<close>

definition iso_now :: "env \<Rightarrow> world \<Rightarrow> jstring \<times> world" where
  "iso_now e w = (case date_now e w of (t, w') \<Rightarrow> (env_iso e t, w'))"

section \<open>Formatting\<close>

definition hex_digit :: "nat \<Rightarrow> jchar" where
  "hex_digit d = (if d < 10 then of_nat (48 + d) else of_nat (87 + d))"

text \<open>\<open>byte.toString(16).padStart(2, "0")\<close>\<close>

definition hex_byte :: "byte \<Rightarrow> jstring" where
  "hex_byte b = [hex_digit (unat b div 16), hex_digit (unat b mod 16)]"

definition formatUuid :: "byte list \<Rightarrow> jstring" where
  "formatUuid bytes =
     (let hex = map hex_byte bytes
      in concat (take 4 hex) @ js ''-'' @ concat (take 2 (drop 4 hex)) @ js ''-'' @
         concat (take 2 (drop 6 hex)) @ js ''-'' @ concat (take 2 (drop 8 hex)) @ js ''-'' @
         concat (take 6 (drop 10 hex)))"

section \<open>Generation\<close>

text \<open>The update of \<open>lastTimestamp\<close> and \<open>sequence\<close> for one identifier.\<close>

definition uuid_advance ::
    "nat option \<times> 32 word \<Rightarrow> nat \<Rightarrow> (nat \<Rightarrow> byte) \<Rightarrow> nat \<times> 32 word" where
  "uuid_advance st timestamp random =
     (case st of (lastTimestamp, sequence) \<Rightarrow>
        (case lastTimestamp of
           None \<Rightarrow>
             (timestamp, of_nat (unat (random 6) * 0x1000000 + unat (random 7) * 0x10000 +
                unat (random 8) * 0x100 + unat (random 9)))
         | Some t \<Rightarrow>
             (if timestamp > t then
                (timestamp, of_nat (unat (random 6) * 0x1000000 + unat (random 7) * 0x10000 +
                   unat (random 8) * 0x100 + unat (random 9)))
              else
                (let sequence' = sequence + 1
                 in if sequence' = 0 then (t + 1, sequence') else (t, sequence')))))"

definition uuid_bytes :: "nat \<Rightarrow> 32 word \<Rightarrow> (nat \<Rightarrow> byte) \<Rightarrow> byte list" where
  "uuid_bytes timestamp sequence random =
     [of_nat (timestamp div 0x10000000000), of_nat (timestamp div 0x100000000),
      of_nat (timestamp div 0x1000000), of_nat (timestamp div 0x10000),
      of_nat (timestamp div 0x100), of_nat timestamp,
      0x70 OR (ucast (drop_bit 28 sequence) AND 0x0f),
      ucast (drop_bit 20 sequence),
      0x80 OR (ucast (drop_bit 14 sequence) AND 0x3f),
      ucast (drop_bit 6 sequence),
      push_bit 2 (ucast (sequence AND 0x3f)) OR (random 10 AND 0x03),
      random 11, random 12, random 13, random 14, random 15]"

definition uuidv7 :: "env \<Rightarrow> world \<Rightarrow> jstring \<times> world" where
  "uuidv7 e w =
     (let random = env_random e (w_ticks w);
          (timestamp, w1) = date_now e w;
          (lastTimestamp, sequence) =
            uuid_advance (w_lastTimestamp w1, w_sequence w1) timestamp random
      in (formatUuid (uuid_bytes lastTimestamp sequence random),
          w1\<lparr>w_lastTimestamp := Some lastTimestamp, w_sequence := sequence\<rparr>))"

text \<open>
  \<open>generateEntryId\<close>: up to \<open>n\<close> attempts at an unused eight-character prefix, then a full
  identifier. The code's \<open>n\<close> is 100.
\<close>

fun try_entry_id :: "env \<Rightarrow> (jstring \<Rightarrow> bool) \<Rightarrow> nat \<Rightarrow> world \<Rightarrow> jstring \<times> world" where
  "try_entry_id e has 0 w = uuidv7 e w"
| "try_entry_id e has (Suc n) w =
     (case uuidv7 e w of (uuid, w') \<Rightarrow>
        (let eid = take 8 uuid in if \<not> has eid then (eid, w') else try_entry_id e has n w'))"

definition generateEntryId :: "env \<Rightarrow> (jstring \<Rightarrow> bool) \<Rightarrow> world \<Rightarrow> jstring \<times> world" where
  "generateEntryId e has w = try_entry_id e has 100 w"

section \<open>Decoding: what an identifier records\<close>

text \<open>The time and the sequence number back from the bytes.\<close>

definition decode_time :: "byte list \<Rightarrow> nat" where
  "decode_time b =
     unat (b ! 0) * 0x10000000000 + unat (b ! 1) * 0x100000000 + unat (b ! 2) * 0x1000000 +
     unat (b ! 3) * 0x10000 + unat (b ! 4) * 0x100 + unat (b ! 5)"

definition decode_sequence :: "byte list \<Rightarrow> nat" where
  "decode_sequence b =
     (unat (b ! 6) mod 16) * 0x10000000 + unat (b ! 7) * 0x100000 +
     (unat (b ! 8) mod 64) * 0x4000 + unat (b ! 9) * 0x40 + unat (b ! 10) div 4"

lemma unat_byte_of_nat: "unat (of_nat n :: byte) = n mod 256"
  by (simp add: unat_of_nat)

lemma byte_step: "(t::nat) mod (m * 256) = m * (t div m mod 256) + t mod m"
  by (rule mod_mult2_eq)

lemma decode_time_uuid_bytes: "decode_time (uuid_bytes t s r) = t mod 2 ^ 48"
  using byte_step [of t "0x10000000000"] byte_step [of t "0x100000000"] byte_step [of t "0x1000000"]
    byte_step [of t "0x10000"] byte_step [of t "0x100"]
  by (simp add: decode_time_def uuid_bytes_def unat_byte_of_nat)

lemma unat_take_bit: "unat (take_bit k (u :: byte)) = unat u mod 2 ^ k"
  by (rule trans [OF unsigned_take_bit_eq take_bit_eq_mod])

lemma and_15: "unat (u AND 0x0f :: byte) = unat u mod 16"
proof -
  have "u AND 0x0f = take_bit 4 u" by (simp add: take_bit_eq_mask mask_eq_exp_minus_1)
  then show ?thesis using unat_take_bit [of 4 u] by simp
qed

lemma and_63: "unat (u AND 0x3f :: byte) = unat u mod 64"
proof -
  have "u AND 0x3f = take_bit 6 u" by (simp add: take_bit_eq_mask mask_eq_exp_minus_1)
  then show ?thesis using unat_take_bit [of 6 u] by simp
qed

lemma or_70: "unat (0x70 OR (u AND 0x0f) :: byte) = 0x70 + unat u mod 16"
proof -
  have "(0x70 :: byte) OR (u AND 0x0f) = 0x70 + (u AND 0x0f)"
    by (rule disjunctive_add_eq_or [symmetric]) (simp add: and.left_commute)
  then show ?thesis by (simp add: unat_word_ariths and_15)
qed

lemma or_80: "unat (0x80 OR (u AND 0x3f) :: byte) = 0x80 + unat u mod 64"
proof -
  have "(0x80 :: byte) OR (u AND 0x3f) = 0x80 + (u AND 0x3f)"
    by (rule disjunctive_add_eq_or [symmetric]) (simp add: and.left_commute)
  then show ?thesis by (simp add: unat_word_ariths and_63)
qed

lemma unat_ucast_byte: "unat (ucast (x :: 32 word) :: byte) = unat x mod 256"
  by (simp add: unsigned_ucast_eq take_bit_eq_mod)

lemma unat_drop32: "unat (drop_bit k (x :: 32 word)) = unat x div 2 ^ k"
  by (rule trans [OF unat_drop_bit_eq drop_bit_eq_div])

lemma unat_low6: "unat (push_bit 2 (ucast (s AND 0x3f :: 32 word)) OR (r AND 0x03) :: byte) div 4 =
    unat s mod 64"
proof -
  have s: "s AND 0x3f = take_bit 6 s" and r: "r AND 0x03 = take_bit 2 r"
    by (simp_all add: take_bit_eq_mask mask_eq_exp_minus_1)
  have "push_bit 2 (ucast (s AND 0x3f)) OR (r AND 0x03) =
      push_bit 2 (ucast (take_bit 6 s)) OR (take_bit 2 r :: byte)"
    by (simp only: s r)
  moreover have "drop_bit 2 (push_bit 2 (ucast (take_bit 6 s)) OR take_bit 2 r :: byte) =
      ucast (take_bit 6 s)"
    by (rule bit_word_eqI) (auto simp: bit_simps)
  moreover have "unat (ucast (take_bit 6 s) :: byte) = unat s mod 64"
  proof -
    have "unat (take_bit 6 s) = unat s mod 2 ^ 6"
      by (rule trans [OF unsigned_take_bit_eq take_bit_eq_mod])
    then have "unat (ucast (take_bit 6 s) :: byte) = unat s mod 2 ^ 6 mod 256"
      by (simp only: unat_ucast_byte)
    then show ?thesis by simp
  qed
  moreover have "unat (drop_bit 2 u) = unat u div 4" for u :: byte
    using trans [OF unat_drop_bit_eq drop_bit_eq_div, of 2 u] by simp
  ultimately show ?thesis by metis
qed

lemma nibble_field: "(q::nat) < 16 \<Longrightarrow> (112 + q) mod 16 = q"
proof -
  assume q: "q < 16"
  have "112 + q = q + 7 * 16" by simp
  then have "(112 + q) mod 16 = q mod 16" by (simp only: mod_mult_self1)
  with q show ?thesis by simp
qed

lemma variant_field: "(128 + (x::nat) mod 256 mod 64) mod 64 = x mod 64"
proof -
  have "128 + y = y + 2 * 64" for y :: nat by simp
  then have "(128 + x mod 256 mod 64) mod 64 = x mod 256 mod 64 mod 64"
    by (simp only: mod_mult_self1)
  also have "\<dots> = x mod 64" by (simp add: mod_mod_cancel)
  finally show ?thesis .
qed

lemma decode_sequence_uuid_bytes: "decode_sequence (uuid_bytes t s r) = unat s"
proof -
  let ?n = "unat s"
  have "?n < 2 ^ 32" using unsigned_less [of s] by simp
  then have q: "?n div 0x10000000 < 16" by simp
  have "decode_sequence (uuid_bytes t s r) =
      (112 + ?n div 2 ^ 28 mod 256 mod 16) mod 16 * 0x10000000 + ?n div 2 ^ 20 mod 256 * 0x100000 +
      (128 + ?n div 2 ^ 14 mod 256 mod 64) mod 64 * 0x4000 + ?n div 2 ^ 6 mod 256 * 0x40 +
      ?n mod 64"
    by (simp add: decode_sequence_def uuid_bytes_def or_70 or_80 unat_ucast_byte unat_drop32 unat_low6)
  also have "\<dots> = ?n div 0x10000000 * 0x10000000 + ?n div 0x100000 mod 256 * 0x100000 +
      ?n div 0x4000 mod 64 * 0x4000 + ?n div 0x40 mod 256 * 0x40 + ?n mod 64"
    unfolding variant_field using nibble_field [OF q] q by simp
  also have "\<dots> = ?n"
  proof -
    have "?n mod (0x100000 * 256) = 0x100000 * (?n div 0x100000 mod 256) + ?n mod 0x100000"
      "?n mod (0x4000 * 64) = 0x4000 * (?n div 0x4000 mod 64) + ?n mod 0x4000"
      "?n mod (0x40 * 256) = 0x40 * (?n div 0x40 mod 256) + ?n mod 0x40"
      by (rule mod_mult2_eq)+
    moreover have "0x10000000 * (?n div 0x10000000) + ?n mod 0x10000000 = ?n"
      by (rule mult_div_mod_eq)
    ultimately show ?thesis by simp
  qed
  finally show ?thesis .
qed

section \<open>The text determines the bytes\<close>

lemma hex_digit_inj: "d < 16 \<Longrightarrow> d' < 16 \<Longrightarrow> hex_digit d = hex_digit d' \<longleftrightarrow> d = d'"
proof -
  assume d: "d < 16" "d' < 16"
  have "unat (hex_digit n) = (if n < 10 then 48 + n else 87 + n)" if "n < 16" for n
    using that by (simp add: hex_digit_def unat_of_nat del: of_nat_add)
  with d have "hex_digit d = hex_digit d' \<Longrightarrow>
      (if d < 10 then 48 + d else 87 + d) = (if d' < 10 then 48 + d' else 87 + d')"
    by metis
  then show ?thesis by (auto split: if_splits)
qed

lemma hex_byte_inj: "hex_byte a = hex_byte b \<longleftrightarrow> a = b"
proof
  assume "hex_byte a = hex_byte b"
  then have h: "hex_digit (unat a div 16) = hex_digit (unat b div 16)"
    "hex_digit (unat a mod 16) = hex_digit (unat b mod 16)"
    by (simp_all add: hex_byte_def)
  have "unat a < 256" "unat b < 256" using unsigned_less [of a] unsigned_less [of b] by simp_all
  then have "unat a div 16 < 16" "unat b div 16 < 16" by simp_all
  with h have "unat a div 16 = unat b div 16" "unat a mod 16 = unat b mod 16"
    using hex_digit_inj by simp_all
  then have "unat a = unat b" by (metis div_mult_mod_eq)
  then show "a = b" by (simp add: word_unat_eq_iff)
qed simp

lemma length_hex_byte [simp]: "length (hex_byte b) = 2"
  by (simp add: hex_byte_def)

lemma hex_byte_append: "hex_byte a @ xs = hex_byte b @ ys \<longleftrightarrow> a = b \<and> xs = ys"
  using hex_byte_inj by (metis append_eq_append_conv length_hex_byte)

lemma formatUuid_inj:
  "formatUuid (uuid_bytes t s r) = formatUuid (uuid_bytes t' s' r') \<Longrightarrow>
   uuid_bytes t s r = uuid_bytes t' s' r'"
  by (simp add: formatUuid_def uuid_bytes_def Let_def hex_byte_append hex_byte_inj js_def)

lemma length_formatUuid: "length (formatUuid (uuid_bytes t s r)) = 36"
  by (simp add: formatUuid_def uuid_bytes_def Let_def)

lemma formatUuid_key:
  assumes "formatUuid (uuid_bytes t s r) = formatUuid (uuid_bytes t' s' r')"
    and "t < 2 ^ 48" and "t' < 2 ^ 48"
  shows "t = t' \<and> s = s'"
proof -
  note eq = formatUuid_inj [OF assms(1)]
  have "t mod 2 ^ 48 = t' mod 2 ^ 48" by (metis eq decode_time_uuid_bytes)
  moreover have "unat s = unat s'" by (metis eq decode_sequence_uuid_bytes)
  ultimately show ?thesis using assms(2,3) by (simp add: word_unat_eq_iff)
qed

section \<open>Monotone generation\<close>

definition uuid_key :: "nat \<Rightarrow> 32 word \<Rightarrow> nat" where
  "uuid_key t s = t * 2 ^ 32 + unat s"

lemma uuid_advance_increases:
  assumes "uuid_advance (Some t, s) now r = (t', s')"
  shows "uuid_key t s < uuid_key t' s' \<and> t \<le> t' \<and> t' \<le> max (Suc t) now"
proof -
  have sb: "unat s < 2 ^ 32" using unsigned_less [of s] by simp
  show ?thesis
  proof (cases "now > t")
    case True
    then have "t * 2 ^ 32 + 2 ^ 32 \<le> now * 2 ^ 32" by (metis Suc_leI mult_Suc mult_le_mono1 add.commute)
    with True assms sb show ?thesis by (auto simp: uuid_advance_def uuid_key_def)
  next
    case now: False
    show ?thesis
    proof (cases "s + 1 = 0")
      case True
      with now assms sb show ?thesis by (auto simp: uuid_advance_def uuid_key_def Let_def)
    next
      case False
      then have "unat (s + 1) = Suc (unat s)"
        by (metis add.commute unatSuc)
      with False now assms show ?thesis by (auto simp: uuid_advance_def uuid_key_def Let_def)
    qed
  qed
qed

lemma uuid_advance_first: "uuid_advance (None, s) now r = (t', s') \<Longrightarrow> t' = now"
  by (simp add: uuid_advance_def)

text \<open>
  The clock stays below \<open>2 ^ 47\<close> milliseconds (the year 6429), so the 48-bit field never wraps:
  each overflow of the sequence moves the recorded time at most one ahead of the clock.
\<close>

definition clock_ok :: "env \<Rightarrow> bool" where
  "clock_ok e \<longleftrightarrow> (\<forall>k. env_clock e k < 2 ^ 47)"

definition world_ok :: "world \<Rightarrow> bool" where
  "world_ok w \<longleftrightarrow> (\<forall>t. w_lastTimestamp w = Some t \<longrightarrow> t < 2 ^ 47 + w_ticks w)"

text \<open>An identifier of full length was issued by this generator, at or before its present state.\<close>

definition past_id :: "world \<Rightarrow> jstring \<Rightarrow> bool" where
  "past_id w eid \<longleftrightarrow>
     (length eid = 36 \<longrightarrow>
       (\<exists>t s r t0. eid = formatUuid (uuid_bytes t s r) \<and> w_lastTimestamp w = Some t0 \<and> t \<le> t0 \<and>
          uuid_key t s \<le> uuid_key t0 (w_sequence w)))"

lemma uuidv7_cases:
  assumes "uuidv7 e w = (eid, w')"
  obtains t s where "uuid_advance (w_lastTimestamp w, w_sequence w) (env_clock e (w_ticks w))
      (env_random e (w_ticks w)) = (t, s)"
    and "eid = formatUuid (uuid_bytes t s (env_random e (w_ticks w)))"
    and "w' = w\<lparr>w_ticks := Suc (w_ticks w), w_lastTimestamp := Some t, w_sequence := s\<rparr>"
  using assms by (auto simp: uuidv7_def date_now_def Let_def split: prod.splits)

lemma world_ok_init [simp]: "world_ok init_world"
  by (simp add: world_ok_def init_world_def)

lemma uuidv7_world_ok:
  assumes "uuidv7 e w = (eid, w')" and "clock_ok e" and "world_ok w"
  shows "world_ok w' \<and> w_ticks w' = Suc (w_ticks w)"
proof -
  obtain t s where adv: "uuid_advance (w_lastTimestamp w, w_sequence w) (env_clock e (w_ticks w))
      (env_random e (w_ticks w)) = (t, s)"
    and w': "w' = w\<lparr>w_ticks := Suc (w_ticks w), w_lastTimestamp := Some t, w_sequence := s\<rparr>"
    using assms(1) by (rule uuidv7_cases)
  have now: "env_clock e (w_ticks w) < 2 ^ 47" using assms(2) by (simp add: clock_ok_def)
  have "t < 2 ^ 47 + Suc (w_ticks w)"
  proof (cases "w_lastTimestamp w")
    case None
    with adv now show ?thesis by (simp add: uuid_advance_def)
  next
    case (Some t0)
    with assms(3) have "t0 < 2 ^ 47 + w_ticks w" by (simp add: world_ok_def)
    with uuid_advance_increases [of t0] adv now Some show ?thesis by fastforce
  qed
  with w' show ?thesis by (simp add: world_ok_def)
qed

lemma uuidv7_fresh:
  assumes u: "uuidv7 e w = (eid, w')" and "clock_ok e" and "world_ok w" and ticks: "w_ticks w < 2 ^ 47"
    and old: "past_id w old"
  shows "eid \<noteq> old \<and> past_id w' old \<and> past_id w' eid \<and> length eid = 36"
proof -
  obtain t s where adv: "uuid_advance (w_lastTimestamp w, w_sequence w) (env_clock e (w_ticks w))
      (env_random e (w_ticks w)) = (t, s)"
    and eid: "eid = formatUuid (uuid_bytes t s (env_random e (w_ticks w)))"
    and w': "w' = w\<lparr>w_ticks := Suc (w_ticks w), w_lastTimestamp := Some t, w_sequence := s\<rparr>"
    using u by (rule uuidv7_cases)
  have "t < 2 ^ 47 + Suc (w_ticks w)"
    using uuidv7_world_ok [OF u assms(2,3)] w' by (simp add: world_ok_def)
  with ticks have t48: "t < 2 ^ 48" by simp
  have len: "length eid = 36" using eid length_formatUuid by simp
  have self: "past_id w' eid" using eid w' by (auto simp: past_id_def)
  show ?thesis
  proof (cases "length old = 36")
    case False
    with len self show ?thesis by (auto simp: past_id_def)
  next
    case True
    then obtain t1 s1 r1 t0 where old': "old = formatUuid (uuid_bytes t1 s1 r1)"
      "w_lastTimestamp w = Some t0" "t1 \<le> t0" "uuid_key t1 s1 \<le> uuid_key t0 (w_sequence w)"
      using old by (auto simp: past_id_def)
    then have inc: "uuid_key t0 (w_sequence w) < uuid_key t s" "t0 \<le> t"
      using uuid_advance_increases adv by auto
    have "eid \<noteq> old"
    proof
      assume "eid = old"
      then have "t = t1 \<and> s = s1"
        using formatUuid_key [of t s _ t1 s1] eid old' t48 inc(2) by fastforce
      with old'(4) inc(1) show False by simp
    qed
    moreover have "past_id w' old"
    proof -
      have "t1 \<le> t" "uuid_key t1 s1 \<le> uuid_key t s" using old' inc by linarith+
      with old'(1) w' show ?thesis by (auto simp: past_id_def)
    qed
    ultimately show ?thesis using self len by simp
  qed
qed

text \<open>\<open>n\<close> identifiers in a row.\<close>

fun uuid_run :: "env \<Rightarrow> nat \<Rightarrow> world \<Rightarrow> jstring list \<times> world" where
  "uuid_run e 0 w = ([], w)"
| "uuid_run e (Suc n) w =
     (case uuidv7 e w of (eid, w1) \<Rightarrow>
        (case uuid_run e n w1 of (ids, w2) \<Rightarrow> (eid # ids, w2)))"

lemma uuid_run_fresh:
  assumes "clock_ok e" and "world_ok w" and "w_ticks w + n \<le> 2 ^ 47" and "past_id w old"
  shows "old \<notin> set (fst (uuid_run e n w))"
  using assms(2-)
proof (induction n arbitrary: w)
  case 0
  then show ?case by simp
next
  case (Suc n)
  obtain eid w1 where u: "uuidv7 e w = (eid, w1)" by (cases "uuidv7 e w")
  with Suc.prems have "eid \<noteq> old" "past_id w1 old"
    using uuidv7_fresh [OF u assms(1)] by auto
  moreover have "world_ok w1" "w_ticks w1 = Suc (w_ticks w)"
    using uuidv7_world_ok [OF u assms(1) Suc.prems(1)] by simp_all
  ultimately have "old \<notin> set (fst (uuid_run e n w1))"
    using Suc.IH [of w1] Suc.prems by simp
  with u \<open>eid \<noteq> old\<close> show ?case by (auto split: prod.splits)
qed

lemma uuid_run_distinct_from:
  assumes "clock_ok e" and "world_ok w" and "w_ticks w + n \<le> 2 ^ 47"
  shows "distinct (fst (uuid_run e n w))"
  using assms(2-)
proof (induction n arbitrary: w)
  case 0
  then show ?case by simp
next
  case (Suc n)
  obtain eid w1 where u: "uuidv7 e w = (eid, w1)" by (cases "uuidv7 e w")
  obtain ids w2 where r: "uuid_run e n w1 = (ids, w2)" by (cases "uuid_run e n w1")
  have "past_id w []" by (simp add: past_id_def)
  then have "past_id w1 eid" using uuidv7_fresh [OF u assms(1), of "[]"] Suc.prems by simp
  moreover have w1: "world_ok w1" "w_ticks w1 = Suc (w_ticks w)"
    using uuidv7_world_ok [OF u assms(1) Suc.prems(1)] by simp_all
  ultimately have "eid \<notin> set ids"
    using uuid_run_fresh [OF assms(1), of w1 n eid] Suc.prems r by simp
  moreover have "distinct ids" using Suc.IH [of w1] w1 Suc.prems r by simp
  ultimately show ?case using u r by simp
qed

text \<open>
  However the clock behaves (it may stand still or go back), the identifiers one process
  generates are pairwise different.
\<close>

theorem uuid_run_distinct:
  assumes "clock_ok e" and "n \<le> 2 ^ 47"
  shows "distinct (fst (uuid_run e n init_world))"
  using uuid_run_distinct_from [OF assms(1) world_ok_init] assms(2) by (simp add: init_world_def)

definition still_clock :: env where
  "still_clock = \<lparr>env_clock = (\<lambda>_. 1700000000000), env_random = (\<lambda>_ _. 7), env_iso = (\<lambda>_. [])\<rparr>"

lemma clock_ok_still [simp]: "clock_ok still_clock"
  by (simp add: clock_ok_def still_clock_def)

lemma uuid_run_distinct_witness: "distinct (fst (uuid_run still_clock 5 init_world))"
  by (rule uuid_run_distinct) simp_all

section \<open>Entry identifiers\<close>

lemma try_entry_id_fresh:
  assumes "clock_ok e" and "world_ok w" and "w_ticks w + n < 2 ^ 47"
    and "\<forall>old. has old \<longrightarrow> past_id w old" and "try_entry_id e has n w = (eid, w')"
  shows "\<not> has eid \<and> past_id w' eid \<and> world_ok w' \<and> w_ticks w < w_ticks w' \<and>
         w_ticks w' \<le> Suc (w_ticks w + n) \<and> (\<forall>old. past_id w old \<longrightarrow> past_id w' old)"
  using assms(2-)
proof (induction n arbitrary: w)
  case 0
  obtain u w1 where u: "uuidv7 e w = (u, w1)" by (cases "uuidv7 e w")
  with 0 have eq: "eid = u" "w' = w1" by simp_all
  have "past_id w1 old \<and> u \<noteq> old" if "past_id w old" for old
    using uuidv7_fresh [OF u assms(1) 0(1) _ that] 0 by simp
  moreover have "past_id w []" by (simp add: past_id_def)
  then have "past_id w1 u" using uuidv7_fresh [OF u assms(1) 0(1)] 0 by simp
  ultimately show ?case
    using eq 0 uuidv7_world_ok [OF u assms(1) 0(1)] by auto
next
  case (Suc n)
  obtain u w1 where u: "uuidv7 e w = (u, w1)" by (cases "uuidv7 e w")
  note w1 = uuidv7_world_ok [OF u assms(1) Suc.prems(1)]
  have keep: "past_id w1 old" if "past_id w old" for old
    using uuidv7_fresh [OF u assms(1) Suc.prems(1) _ that] Suc.prems by simp
  show ?case
  proof (cases "has (take 8 u)")
    case True
    then have "try_entry_id e has n w1 = (eid, w')" using u Suc.prems by (simp add: Let_def)
    then show ?thesis using Suc.IH [of w1] w1 keep Suc.prems by auto
  next
    case False
    then have "eid = take 8 u" "w' = w1" using u Suc.prems by (simp_all add: Let_def)
    with False w1 keep show ?thesis by (auto simp: past_id_def)
  qed
qed

text \<open>
  \<open>generateEntryId\<close> never returns an identifier the store already holds, as long as the
  store's full-length identifiers came from this generator; this covers the fallback that the
  code does not check.
\<close>

theorem generateEntryId_fresh:
  assumes "clock_ok e" and "world_ok w" and "w_ticks w + 100 < 2 ^ 47"
    and "\<forall>old. has old \<longrightarrow> past_id w old" and "generateEntryId e has w = (eid, w')"
  shows "\<not> has eid \<and> past_id w' eid \<and> world_ok w' \<and> (\<forall>old. has old \<longrightarrow> past_id w' old)"
  using try_entry_id_fresh [OF assms(1,2,3,4)] assms(4,5) unfolding generateEntryId_def by blast

text \<open>The first eight characters are the top 32 of the 48 time bits.\<close>

definition window_prefix :: "nat \<Rightarrow> jstring" where
  "window_prefix q =
     concat (map hex_byte [of_nat (q div 0x1000000), of_nat (q div 0x10000), of_nat (q div 0x100), of_nat q])"

lemma take_8_uuid: "take 8 (formatUuid (uuid_bytes t s r)) = window_prefix (t div 65536)"
  by (simp add: formatUuid_def uuid_bytes_def window_prefix_def hex_byte_def Let_def div_mult2_eq [symmetric])

lemma div_between: "(a::nat) \<le> b \<Longrightarrow> b \<le> c \<Longrightarrow> a div k = q \<Longrightarrow> c div k = q \<Longrightarrow> b div k = q"
  by (metis div_le_mono le_antisym)

lemma try_entry_id_window:
  assumes "w_lastTimestamp w = Some t" and "t \<le> m" and "t div 65536 = q"
    and "(m + n + 1) div 65536 = q"
    and "\<forall>k \<le> n. env_clock e (w_ticks w + k) \<le> m" and "has (window_prefix q)"
  shows "length (fst (try_entry_id e has n w)) = 36"
  using assms(1-5)
proof (induction n arbitrary: w t m)
  case 0
  obtain u w1 where u: "uuidv7 e w = (u, w1)" by (cases "uuidv7 e w")
  then show ?case
    by (metis fst_conv length_formatUuid try_entry_id.simps(1) uuidv7_cases)
next
  case (Suc n)
  obtain u w1 where u: "uuidv7 e w = (u, w1)" by (cases "uuidv7 e w")
  then obtain t1 s1 where adv: "uuid_advance (w_lastTimestamp w, w_sequence w)
      (env_clock e (w_ticks w)) (env_random e (w_ticks w)) = (t1, s1)"
    and ub: "u = formatUuid (uuid_bytes t1 s1 (env_random e (w_ticks w)))"
    and w1: "w1 = w\<lparr>w_ticks := Suc (w_ticks w), w_lastTimestamp := Some t1, w_sequence := s1\<rparr>"
    by (rule uuidv7_cases)
  have inc: "t \<le> t1" "t1 \<le> max (Suc t) (env_clock e (w_ticks w))"
    using uuid_advance_increases [of t] adv Suc.prems(1) by auto
  have "env_clock e (w_ticks w) \<le> m" using Suc.prems(5) by (metis add.right_neutral le0)
  with inc Suc.prems(2) have t1: "t1 \<le> Suc m" by simp
  have q1: "t1 div 65536 = q"
    by (rule div_between [OF inc(1) _ Suc.prems(3,4)]) (use t1 in simp)
  have "has (take 8 u)" using q1 ub assms(6) by (simp add: take_8_uuid)
  then have step: "try_entry_id e has (Suc n) w = try_entry_id e has n w1"
    using u by (simp add: Let_def)
  have "env_clock e (w_ticks w1 + k) \<le> Suc m" if "k \<le> n" for k
    using Suc.prems(5) [rule_format, of "Suc k"] that w1 by simp
  with step Suc.IH [of w1 t1 "Suc m"] w1 t1 q1 Suc.prems(4) show ?case by simp
qed

text \<open>
  Once a store holds an entry whose eight-character identifier was made in the current
  window of 65536 ms, none of the hundred attempts at a short identifier can succeed: every
  further identifier of that window is a full one.
\<close>

theorem generateEntryId_same_window:
  assumes "w_lastTimestamp w = Some t" and "t \<le> m" and "t div 65536 = q" and "(m + 101) div 65536 = q"
    and "\<forall>k \<le> 100. env_clock e (w_ticks w + k) \<le> m" and "has (window_prefix q)"
  shows "length (fst (generateEntryId e has w)) = 36"
  unfolding generateEntryId_def
  by (rule try_entry_id_window [where m = m and t = t and q = q]) (use assms in simp_all)

lemma generateEntryId_fresh_witness:
  "\<not> (\<lambda>old. old = js ''0123abcd'') (fst (generateEntryId still_clock (\<lambda>old. old = js ''0123abcd'') init_world))"
proof -
  let ?has = "\<lambda>old. old = js ''0123abcd''"
  obtain eid w' where g: "generateEntryId still_clock ?has init_world = (eid, w')"
    by (cases "generateEntryId still_clock ?has init_world")
  have "\<forall>old. ?has old \<longrightarrow> past_id init_world old" by (simp add: past_id_def)
  moreover have "w_ticks init_world + 100 < 2 ^ 47" by (simp add: init_world_def)
  ultimately show ?thesis
    using generateEntryId_fresh [OF clock_ok_still world_ok_init _ _ g] g by simp
qed

lemma generateEntryId_same_window_witness:
  "length (fst (generateEntryId still_clock (\<lambda>old. old = window_prefix (1700000000000 div 65536))
      \<lparr>w_ticks = 3, w_lastTimestamp = Some 1700000000000, w_sequence = 9\<rparr>)) = 36"
  by (rule generateEntryId_same_window [where m = 1700000000000 and t = 1700000000000
        and q = "1700000000000 div 65536"]) (simp_all add: still_clock_def)

lemma try_entry_id_nonempty: "fst (try_entry_id e has n w) \<noteq> []"
proof (induction n arbitrary: w)
  case 0
  obtain u w1 where u: "uuidv7 e w = (u, w1)" by (cases "uuidv7 e w")
  then have "length u = 36" by (metis length_formatUuid uuidv7_cases)
  with u show ?case by auto
next
  case (Suc n)
  obtain u w1 where u: "uuidv7 e w = (u, w1)" by (cases "uuidv7 e w")
  then have "length u = 36" by (metis length_formatUuid uuidv7_cases)
  then have "take 8 u \<noteq> []" by auto
  with u Suc show ?case by (simp add: Let_def)
qed

lemma generateEntryId_nonempty: "generateEntryId e has w = (eid, w') \<Longrightarrow> eid \<noteq> []"
  unfolding generateEntryId_def by (metis fst_conv try_entry_id_nonempty)

lemma past_id_ticks [simp]: "past_id (w\<lparr>w_ticks := n\<rparr>) i \<longleftrightarrow> past_id w i"
  by (simp add: past_id_def)

lemma generateEntryId_spec:
  assumes "clock_ok e" and "world_ok w" and "w_ticks w + 100 < 2 ^ 47"
    and "\<forall>old. has old \<longrightarrow> past_id w old" and "generateEntryId e has w = (eid, w')"
  shows "\<not> has eid \<and> eid \<noteq> [] \<and> past_id w' eid \<and> world_ok w' \<and> w_ticks w' \<le> w_ticks w + 101 \<and>
         (\<forall>old. has old \<longrightarrow> past_id w' old)"
  using try_entry_id_fresh [OF assms(1,2,3,4)] assms(4,5) generateEntryId_nonempty [OF assms(5)]
  unfolding generateEntryId_def by fastforce

end
