(* ===== verification/Json.thy ===== *)
theory Json
  imports Prelude
begin

text \<open>
  JSON values, for the places where the code keeps values of type \<open>unknown\<close> (tool arguments,
  the details of tool results and of session entries), and \<open>JSON.stringify\<close> on them. Numbers are
  decimal fractions, which is what their text gives; an object is the list of its properties in
  enumeration order.
\<close>

text \<open>\<open>Dec m k\<close> is \<open>m / 10 ^ k\<close>; in canonical form \<open>k\<close> is as small as possible.\<close>

datatype decimal = Dec int nat

datatype json =
  JNull | JBool bool | JNum decimal | JStr jstring | JArr "json list" | JObj "(jstring \<times> json) list"

definition hex4 :: "jchar \<Rightarrow> jstring" where
  "hex4 c =
     map (\<lambda>k. let d = unat c div 16 ^ k mod 16 in if d < 10 then of_nat (48 + d) else of_nat (87 + d))
       [3, 2, 1, 0]"

definition escape_char :: "jchar \<Rightarrow> jstring" where
  "escape_char c =
     (if c = 0x22 then [0x5C, 0x22] else if c = 0x5C then [0x5C, 0x5C]
      else if c = 8 then ([0x5C] @ js ''b'') else if c = 9 then ([0x5C] @ js ''t'') else if c = 10 then ([0x5C] @ js ''n'')
      else if c = 12 then ([0x5C] @ js ''f'') else if c = 13 then ([0x5C] @ js ''r'')
      else if c < 0x20 then [0x5C] @ js ''u'' @ hex4 c else [c])"

fun escape_json :: "jstring \<Rightarrow> jstring" where
  "escape_json [] = []"
| "escape_json [c] = (if is_high c \<or> is_low c then [0x5C] @ js ''u'' @ hex4 c else escape_char c)"
| "escape_json (c # d # cs) =
     (if is_high c \<and> is_low d then c # d # escape_json cs
      else (if is_high c \<or> is_low c then [0x5C] @ js ''u'' @ hex4 c else escape_char c) @
           escape_json (d # cs))"

definition quote_json :: "jstring \<Rightarrow> jstring" where
  "quote_json s = [0x22] @ escape_json s @ [0x22]"

text \<open>
  \<open>String(x)\<close>, for integers below \<open>10 ^ 21\<close> and for fractions; fractions below one millionth have
  an exponent.
\<close>

fun show_decimal :: "decimal \<Rightarrow> jstring" where
  "show_decimal (Dec m k) =
     (let ds = show_nat (nat \<bar>m\<bar>); n = length ds; sign = (if m < 0 then js ''-'' else [])
      in if k = 0 then show_int m
         else if k < n then sign @ take (n - k) ds @ js ''.'' @ drop (n - k) ds
         else if k < n + 6 then sign @ js ''0.'' @ replicate (k - n) 48 @ ds
         else sign @ [hd ds] @ (if 1 < n then js ''.'' @ tl ds else []) @ js ''e-'' @ show_nat (k + 1 - n))"

declare show_decimal.simps [simp del]

fun stringify :: "json \<Rightarrow> jstring" where
  "stringify JNull = js ''null''"
| "stringify (JBool b) = (if b then js ''true'' else js ''false'')"
| "stringify (JNum d) = show_decimal d"
| "stringify (JStr s) = quote_json s"
| "stringify (JArr vs) = js ''['' @ join (js '','') (map stringify vs) @ js '']''"
| "stringify (JObj kvs) =
     js ''{'' @ join (js '','') (map (\<lambda>(k, v). quote_json k @ js '':'' @ stringify v) kvs) @ js ''}''"

text \<open>
  \<open>safeJsonStringify\<close> of a value that may be \<open>undefined\<close> (\<open>None\<close>); the values of the model have no
  cycles, so \<open>JSON.stringify\<close> does not throw on them.
\<close>

definition safeJsonStringify :: "json option \<Rightarrow> jstring" where
  "safeJsonStringify v = (case v of None \<Rightarrow> js ''undefined'' | Some j \<Rightarrow> stringify j)"

text \<open>The property \<open>k\<close> of an object, \<open>None\<close> when it is missing.\<close>

definition get_prop :: "jstring \<Rightarrow> (jstring \<times> json) list \<Rightarrow> json option" where
  "get_prop k kvs = map_of kvs k"

end
