(* ===== verification/Messages.thy ===== *)
theory Messages
  imports Json Complex_Main
begin

text \<open>
  The messages of a conversation: the LLM messages of \<open>packages/ai/src/types.ts\<close>, the additional
  message kinds and their conversion of \<open>packages/agent/src/harness/messages.ts\<close>.
\<close>

section \<open>LLM messages\<close>

record ToolCall =
  tc_id :: jstring
  tc_name :: jstring
  tc_arguments :: "(jstring \<times> json) list"
  tc_thoughtSignature :: "jstring option"

text \<open>\<open>TextContent | ImageContent\<close>\<close>

datatype user_block =
    TextBlock jstring "jstring option"
  | ImageBlock jstring jstring

text \<open>\<open>TextContent | ThinkingContent | ToolCall\<close>\<close>

datatype assistant_block =
    AText jstring "jstring option"
  | AThinking jstring "jstring option" "bool option"
  | AToolCall ToolCall

text \<open>\<open>string | (TextContent | ImageContent)[]\<close>\<close>

datatype user_content = CString jstring | CBlocks "user_block list"

record UsageCost =
  cost_input :: decimal
  cost_output :: decimal
  cost_cacheRead :: decimal
  cost_cacheWrite :: decimal
  cost_total :: decimal

record Usage =
  u_input :: nat
  u_output :: nat
  u_cacheRead :: nat
  u_cacheWrite :: nat
  u_totalTokens :: nat
  u_cost :: UsageCost

datatype StopReason = Stop | Length | ToolUse | Error | Aborted

record UserMessage =
  um_content :: user_content
  um_timestamp :: int

text \<open>The code checks that \<open>usage\<close> is there before it reads it, hence the option.\<close>

record AssistantMessage =
  am_content :: "assistant_block list"
  am_api :: jstring
  am_provider :: jstring
  am_model :: jstring
  am_responseModel :: "jstring option"
  am_responseId :: "jstring option"
  am_diagnostics :: "json list option"
  am_usage :: "Usage option"
  am_stopReason :: StopReason
  am_errorMessage :: "jstring option"
  am_timestamp :: int

record ToolResultMessage =
  trm_toolCallId :: jstring
  trm_toolName :: jstring
  trm_content :: "user_block list"
  trm_details :: "json option"
  trm_isError :: bool
  trm_timestamp :: int

datatype message =
    User UserMessage
  | Assistant AssistantMessage
  | ToolResult ToolResultMessage

section \<open>Models\<close>

text \<open>The fields of a model that the code reads.\<close>

datatype input_kind = TextInput | ImageInput

record Model =
  mo_id :: jstring
  mo_api :: jstring
  mo_provider :: jstring
  mo_reasoning :: bool
  mo_input :: "input_kind list"
  mo_contextWindow :: nat
  mo_maxTokens :: nat

section \<open>Harness messages\<close>

record BashExecutionMessage =
  bem_command :: jstring
  bem_output :: jstring
  bem_exitCode :: "int option"
  bem_cancelled :: bool
  bem_truncated :: bool
  bem_fullOutputPath :: "jstring option"
  bem_timestamp :: int
  bem_excludeFromContext :: bool

record CustomMessage =
  cm_customType :: jstring
  cm_content :: user_content
  cm_display :: bool
  cm_details :: "json option"
  cm_timestamp :: int

record BranchSummaryMessage =
  bsm_summary :: jstring
  bsm_fromId :: jstring
  bsm_timestamp :: int

record CompactionSummaryMessage =
  csm_summary :: jstring
  csm_tokensBefore :: nat
  csm_timestamp :: int

text \<open>\<open>OtherMessage\<close> stands for the roles an application adds by declaration merging.\<close>

datatype agent_message =
    Msg message
  | BashExecution BashExecutionMessage
  | Custom CustomMessage
  | BranchSummary BranchSummaryMessage
  | CompactionSummary CompactionSummaryMessage
  | OtherMessage jstring

fun is_assistant :: "agent_message \<Rightarrow> bool" where
  "is_assistant (Msg (Assistant _)) = True"
| "is_assistant _ = False"

fun is_user :: "agent_message \<Rightarrow> bool" where
  "is_user (Msg (User _)) = True"
| "is_user _ = False"

fun is_tool_result :: "agent_message \<Rightarrow> bool" where
  "is_tool_result (Msg (ToolResult _)) = True"
| "is_tool_result _ = False"

text \<open>\<open>message.content.filter((c) => c.type === "toolCall")\<close>\<close>

fun tool_calls_of :: "assistant_block list \<Rightarrow> ToolCall list" where
  "tool_calls_of [] = []"
| "tool_calls_of (AToolCall c # bs) = c # tool_calls_of bs"
| "tool_calls_of (_ # bs) = tool_calls_of bs"

text \<open>\<open>content.filter((c) => c.type === "text").map((c) => c.text)\<close>\<close>

fun texts_of :: "user_block list \<Rightarrow> jstring list" where
  "texts_of [] = []"
| "texts_of (TextBlock t _ # bs) = t # texts_of bs"
| "texts_of (_ # bs) = texts_of bs"

section \<open>Construction and conversion\<close>

definition COMPACTION_SUMMARY_PREFIX :: jstring where
  "COMPACTION_SUMMARY_PREFIX =
     js ''The conversation history before this point was compacted into the following summary:'' @
     [newline, newline] @ js ''<summary>'' @ [newline]"

definition COMPACTION_SUMMARY_SUFFIX :: jstring where
  "COMPACTION_SUMMARY_SUFFIX = [newline] @ js ''</summary>''"

definition BRANCH_SUMMARY_PREFIX :: jstring where
  "BRANCH_SUMMARY_PREFIX =
     js ''The following is a summary of a branch that this conversation came back from:'' @
     [newline, newline] @ js ''<summary>'' @ [newline]"

definition BRANCH_SUMMARY_SUFFIX :: jstring where
  "BRANCH_SUMMARY_SUFFIX = js ''</summary>''"

definition bashExecutionToText :: "BashExecutionMessage \<Rightarrow> jstring" where
  "bashExecutionToText m =
     js ''Ran `'' @ bem_command m @ js ''`'' @ [newline] @
     (if bem_output m \<noteq> [] then js ''```'' @ [newline] @ bem_output m @ [newline] @ js ''```''
      else js ''(no output)'') @
     (if bem_cancelled m then [newline, newline] @ js ''(command cancelled)''
      else (case bem_exitCode m of
              Some c \<Rightarrow> if c \<noteq> 0 then [newline, newline] @ js ''Command exited with code '' @ show_int c
                        else []
            | None \<Rightarrow> [])) @
     (case bem_fullOutputPath m of
        Some p \<Rightarrow> if bem_truncated m \<and> p \<noteq> [] then
                    [newline, newline] @ js ''[Output truncated. Full output: '' @ p @ js '']''
                  else []
      | None \<Rightarrow> [])"

text \<open>\<open>new Date(timestamp).getTime()\<close> is the parameter \<open>date_ms\<close>.\<close>

definition createBranchSummaryMessage ::
    "(jstring \<Rightarrow> int) \<Rightarrow> jstring \<Rightarrow> jstring \<Rightarrow> jstring \<Rightarrow> BranchSummaryMessage" where
  "createBranchSummaryMessage date_ms summary fromId timestamp =
     \<lparr>bsm_summary = summary, bsm_fromId = fromId, bsm_timestamp = date_ms timestamp\<rparr>"

definition createCompactionSummaryMessage ::
    "(jstring \<Rightarrow> int) \<Rightarrow> jstring \<Rightarrow> nat \<Rightarrow> jstring \<Rightarrow> CompactionSummaryMessage" where
  "createCompactionSummaryMessage date_ms summary tokensBefore timestamp =
     \<lparr>csm_summary = summary, csm_tokensBefore = tokensBefore, csm_timestamp = date_ms timestamp\<rparr>"

definition createCustomMessage ::
    "(jstring \<Rightarrow> int) \<Rightarrow> jstring \<Rightarrow> user_content \<Rightarrow> bool \<Rightarrow> json option \<Rightarrow> jstring \<Rightarrow> CustomMessage" where
  "createCustomMessage date_ms customType content display details timestamp =
     \<lparr>cm_customType = customType, cm_content = content, cm_display = display,
      cm_details = details, cm_timestamp = date_ms timestamp\<rparr>"

definition user_text :: "jstring \<Rightarrow> int \<Rightarrow> message" where
  "user_text t ts = User \<lparr>um_content = CBlocks [TextBlock t None], um_timestamp = ts\<rparr>"

fun convert_one :: "agent_message \<Rightarrow> message option" where
  "convert_one (BashExecution m) =
     (if bem_excludeFromContext m then None
      else Some (user_text (bashExecutionToText m) (bem_timestamp m)))"
| "convert_one (Custom m) =
     Some (User \<lparr>um_content =
             (case cm_content m of CString t \<Rightarrow> CBlocks [TextBlock t None] | CBlocks bs \<Rightarrow> CBlocks bs),
           um_timestamp = cm_timestamp m\<rparr>)"
| "convert_one (BranchSummary m) =
     Some (user_text (BRANCH_SUMMARY_PREFIX @ bsm_summary m @ BRANCH_SUMMARY_SUFFIX) (bsm_timestamp m))"
| "convert_one (CompactionSummary m) =
     Some (user_text (COMPACTION_SUMMARY_PREFIX @ csm_summary m @ COMPACTION_SUMMARY_SUFFIX)
       (csm_timestamp m))"
| "convert_one (Msg m) = Some m"
| "convert_one (OtherMessage _) = None"

definition convertToLlm :: "agent_message list \<Rightarrow> message list" where
  "convertToLlm messages = List.map_filter convert_one messages"

lemma convertToLlm_Nil [simp]: "convertToLlm [] = []"
  by (simp add: convertToLlm_def List.map_filter_def)

lemma convertToLlm_append [simp]: "convertToLlm (xs @ ys) = convertToLlm xs @ convertToLlm ys"
  by (simp add: convertToLlm_def List.map_filter_def)

lemma convertToLlm_Msg [simp]: "convertToLlm (map Msg ms) = ms"
  by (simp add: convertToLlm_def List.map_filter_def o_def)

end
