(* ===== verification/SessionTree.thy ===== *)
theory SessionTree
  imports Uuid Messages
begin

text \<open>
  The session tree: its entries (\<open>packages/agent/src/harness/types.ts\<close>), the errors, the storage
  interface \<open>SessionStorage\<close> as a record of operations on an explicit state, and the abstract
  specification of a storage: an append-only list of entries in which every parent comes before
  its children. The locale \<open>session_storage\<close> states what a storage promises over its entries.
\<close>

section \<open>Entries\<close>

record CompactionEntry =
  ce_summary :: jstring
  ce_firstKeptEntryId :: jstring
  ce_tokensBefore :: nat
  ce_details :: "json option"
  ce_fromHook :: "bool option"

record BranchSummaryEntry =
  be_fromId :: jstring
  be_summary :: jstring
  be_details :: "json option"
  be_fromHook :: "bool option"

record CustomMessageEntry =
  cme_customType :: jstring
  cme_content :: user_content
  cme_details :: "json option"
  cme_display :: bool

datatype entry_body =
    MessageE agent_message
  | ThinkingLevelChangeE jstring
  | ModelChangeE jstring jstring
  | ActiveToolsChangeE "jstring list"
  | CompactionE CompactionEntry
  | BranchSummaryE BranchSummaryEntry
  | CustomE jstring "json option"
  | CustomMessageE CustomMessageEntry
  | LabelE jstring "jstring option"
  | SessionInfoE "jstring option"
  | LeafE "jstring option"

record entry =
  e_id :: jstring
  e_parentId :: "jstring option"
  e_timestamp :: jstring
  e_body :: entry_body

datatype entry_type =
    TMessage | TThinkingLevelChange | TModelChange | TActiveToolsChange | TCompaction
  | TBranchSummary | TCustom | TCustomMessage | TLabel | TSessionInfo | TLeaf

fun body_type :: "entry_body \<Rightarrow> entry_type" where
  "body_type (MessageE _) = TMessage"
| "body_type (ThinkingLevelChangeE _) = TThinkingLevelChange"
| "body_type (ModelChangeE _ _) = TModelChange"
| "body_type (ActiveToolsChangeE _) = TActiveToolsChange"
| "body_type (CompactionE _) = TCompaction"
| "body_type (BranchSummaryE _) = TBranchSummary"
| "body_type (CustomE _ _) = TCustom"
| "body_type (CustomMessageE _) = TCustomMessage"
| "body_type (LabelE _ _) = TLabel"
| "body_type (SessionInfoE _) = TSessionInfo"
| "body_type (LeafE _) = TLeaf"

abbreviation e_type :: "entry \<Rightarrow> entry_type" where
  "e_type e \<equiv> body_type (e_body e)"

section \<open>Errors and the state of an operation\<close>

datatype SessionErrorCode =
  NotFound | InvalidSession | InvalidEntry | InvalidForkTarget | StorageFailure | UnknownFailure

text \<open>What an operation can fail with: a thrown \<open>SessionError\<close>, or not returning at all.\<close>

datatype failure = SessionError SessionErrorCode jstring | NonTermination

text \<open>An operation on a storage of type \<open>'s\<close>; the world holds the clock and identifier state.\<close>

type_synonym ('s, 'a) op = "'s \<times> world \<Rightarrow> (failure + 'a) \<times> 's \<times> world"

definition returnS :: "'a \<Rightarrow> ('s, 'a) op" where
  "returnS x = (\<lambda>\<sigma>. (Inr x, \<sigma>))"

definition throwS :: "failure \<Rightarrow> ('s, 'a) op" where
  "throwS err = (\<lambda>\<sigma>. (Inl err, \<sigma>))"

definition bindS :: "('s, 'a) op \<Rightarrow> ('a \<Rightarrow> ('s, 'b) op) \<Rightarrow> ('s, 'b) op" where
  "bindS m f =
     (\<lambda>\<sigma>. case m \<sigma> of (Inl err, \<sigma>') \<Rightarrow> (Inl err, \<sigma>') | (Inr x, \<sigma>') \<Rightarrow> f x \<sigma>')"

text \<open>\<open>new Date().toISOString()\<close> inside an operation\<close>

definition timestampS :: "env \<Rightarrow> ('s, jstring) op" where
  "timestampS e = (\<lambda>(s, w). case iso_now e w of (t, w') \<Rightarrow> (Inr t, s, w'))"

named_theorems op_simps \<open>equations that run storage operations\<close>

lemma bindS_Inr [op_simps]: "m \<sigma> = (Inr x, \<sigma>') \<Longrightarrow> bindS m f \<sigma> = f x \<sigma>'"
  by (simp add: bindS_def)

lemma bindS_Inl [op_simps]: "m \<sigma> = (Inl err, \<sigma>') \<Longrightarrow> bindS m f \<sigma> = (Inl err, \<sigma>')"
  by (simp add: bindS_def)

lemma returnS_apply [op_simps]: "returnS x \<sigma> = (Inr x, \<sigma>)"
  by (simp add: returnS_def)

lemma throwS_apply [op_simps]: "throwS err \<sigma> = (Inl err, \<sigma>)"
  by (simp add: throwS_def)

lemma timestampS_apply [op_simps]:
  "timestampS e (s, w) =
     (Inr (env_iso e (env_clock e (w_ticks w))), s, w\<lparr>w_ticks := Suc (w_ticks w)\<rparr>)"
  by (simp add: timestampS_def iso_now_def date_now_def)

section \<open>The storage interface\<close>

text \<open>\<open>interface SessionStorage\<close>: one field per method.\<close>

record 's SessionStorage =
  so_getLeafId :: "('s, jstring option) op"
  so_setLeafId :: "jstring option \<Rightarrow> ('s, unit) op"
  so_createEntryId :: "('s, jstring) op"
  so_appendEntry :: "entry \<Rightarrow> ('s, unit) op"
  so_getEntry :: "jstring \<Rightarrow> ('s, entry option) op"
  so_findEntries :: "entry_type \<Rightarrow> ('s, entry list) op"
  so_getLabel :: "jstring \<Rightarrow> ('s, jstring option) op"
  so_getPathToRoot :: "jstring option \<Rightarrow> ('s, entry list) op"
  so_getEntries :: "('s, entry list) op"

text \<open>\<open>leafIdAfterEntry\<close>: the active leaf after an entry was appended.\<close>

definition leafIdAfterEntry :: "entry \<Rightarrow> jstring option" where
  "leafIdAfterEntry en = (case e_body en of LeafE targetId \<Rightarrow> targetId | _ \<Rightarrow> Some (e_id en))"

text \<open>\<open>updateLabelCache\<close>: a blank or missing label removes the label.\<close>

definition updateLabelCache :: "(jstring \<rightharpoonup> jstring) \<Rightarrow> entry \<Rightarrow> (jstring \<rightharpoonup> jstring)" where
  "updateLabelCache labelsById en =
     (case e_body en of
        LabelE targetId label \<Rightarrow>
          (case map_option trim label of
             Some l \<Rightarrow> (if l \<noteq> [] then labelsById(targetId \<mapsto> l) else labelsById(targetId := None))
           | None \<Rightarrow> labelsById(targetId := None))
      | _ \<Rightarrow> labelsById)"

section \<open>The abstract specification: a list of entries\<close>

definition log_ids :: "entry list \<Rightarrow> jstring set" where
  "log_ids ents = e_id ` set ents"

definition find_entry :: "entry list \<Rightarrow> jstring \<Rightarrow> entry option" where
  "find_entry ents i = map_of (rev (map (\<lambda>en. (e_id en, en)) ents)) i"

definition leaf_of :: "entry list \<Rightarrow> jstring option" where
  "leaf_of ents = (if ents = [] then None else leafIdAfterEntry (last ents))"

definition labels_of :: "entry list \<Rightarrow> (jstring \<rightharpoonup> jstring)" where
  "labels_of ents = foldl updateLabelCache Map.empty ents"

text \<open>An entry can follow a ents: its identifier is new, what it refers to is already there.\<close>

definition appendable :: "entry list \<Rightarrow> entry \<Rightarrow> bool" where
  "appendable ents en \<longleftrightarrow>
     e_id en \<noteq> [] \<and> e_id en \<notin> log_ids ents \<and>
     (\<forall>p. e_parentId en = Some p \<longrightarrow> p \<in> log_ids ents) \<and>
     (\<forall>t. e_body en = LeafE (Some t) \<longrightarrow> t \<in> log_ids ents)"

fun log_ok_rev :: "entry list \<Rightarrow> bool" where
  "log_ok_rev [] = True"
| "log_ok_rev (en # ens) = (log_ok_rev ens \<and> appendable (rev ens) en)"

definition log_ok :: "entry list \<Rightarrow> bool" where
  "log_ok ents = log_ok_rev (rev ents)"

text \<open>The path from the root to an entry, read off the ents from its newest entry back.\<close>

fun path_rev :: "entry list \<Rightarrow> jstring option \<Rightarrow> entry list" where
  "path_rev [] t = []"
| "path_rev (en # ens) t =
     (if t = Some (e_id en) then path_rev ens (e_parentId en) @ [en] else path_rev ens t)"

definition path_of :: "entry list \<Rightarrow> jstring option \<Rightarrow> entry list" where
  "path_of ents t = path_rev (rev ents) t"

lemma log_ok_Nil [simp]: "log_ok []"
  by (simp add: log_ok_def)

lemma log_ok_snoc [simp]: "log_ok (ents @ [en]) \<longleftrightarrow> log_ok ents \<and> appendable ents en"
  by (simp add: log_ok_def)

lemma log_ids_Nil [simp]: "log_ids [] = {}"
  by (simp add: log_ids_def)

lemma log_ids_snoc [simp]: "log_ids (ents @ [en]) = insert (e_id en) (log_ids ents)"
  by (auto simp: log_ids_def)

lemma find_entry_Nil [simp]: "find_entry [] = Map.empty"
  by (simp add: find_entry_def fun_eq_iff)

lemma find_entry_snoc [simp]: "find_entry (ents @ [en]) = (find_entry ents)(e_id en \<mapsto> en)"
  by (auto simp: find_entry_def fun_eq_iff)

lemma dom_find_entry: "dom (find_entry ents) = log_ids ents"
proof -
  have "dom (find_entry ents) = fst ` set (rev (map (\<lambda>en. (e_id en, en)) ents))"
    unfolding find_entry_def by (rule dom_map_of_conv_image_fst)
  then show ?thesis by (simp add: log_ids_def image_image)
qed

lemma find_entry_None_iff: "find_entry ents i = None \<longleftrightarrow> i \<notin> log_ids ents"
  by (metis dom_find_entry domIff)

lemma find_entry_id: "find_entry ents i = Some en \<Longrightarrow> e_id en = i \<and> en \<in> set ents"
  by (induction ents rule: rev_induct) (auto split: if_splits)

lemma leaf_of_Nil [simp]: "leaf_of [] = None"
  by (simp add: leaf_of_def)

lemma leaf_of_snoc [simp]: "leaf_of (ents @ [en]) = leafIdAfterEntry en"
  by (simp add: leaf_of_def)

lemma labels_of_Nil [simp]: "labels_of [] = Map.empty"
  by (simp add: labels_of_def)

lemma labels_of_snoc [simp]: "labels_of (ents @ [en]) = updateLabelCache (labels_of ents) en"
  by (simp add: labels_of_def)

lemma log_ok_leaf: "log_ok ents \<Longrightarrow> leaf_of ents = Some i \<Longrightarrow> i \<in> log_ids ents"
proof (induction ents rule: rev_induct)
  case (snoc en ents)
  then show ?case
    by (cases "e_body en") (auto simp: leafIdAfterEntry_def appendable_def)
qed simp

lemma log_ok_nonempty_ids: "log_ok ents \<Longrightarrow> [] \<notin> log_ids ents"
  by (induction ents rule: rev_induct) (auto simp: appendable_def)

lemma log_ok_distinct: "log_ok ents \<Longrightarrow> distinct (map e_id ents)"
  by (induction ents rule: rev_induct) (auto simp: appendable_def log_ids_def)

lemma path_of_Nil [simp]: "path_of [] t = []"
  by (simp add: path_of_def)

lemma path_of_snoc:
  "path_of (ents @ [en]) t =
     (if t = Some (e_id en) then path_of ents (e_parentId en) @ [en] else path_of ents t)"
  by (simp add: path_of_def)

lemma path_of_None [simp]: "path_of ents None = []"
  by (induction ents rule: rev_induct) (auto simp: path_of_snoc)

lemma path_of_same: "path_of (ents @ [en]) (Some (e_id en)) = path_of ents (e_parentId en) @ [en]"
  by (simp add: path_of_snoc)

lemma path_of_old: "appendable ents en \<Longrightarrow> i \<in> log_ids ents \<Longrightarrow> path_of (ents @ [en]) (Some i) = path_of ents (Some i)"
  by (auto simp: path_of_snoc appendable_def)

text \<open>The path follows the parents: the equation the implementations' loops unfold.\<close>

lemma path_of_step:
  "log_ok ents \<Longrightarrow> find_entry ents i = Some en \<Longrightarrow>
   path_of ents (Some i) = path_of ents (e_parentId en) @ [en]"
proof (induction ents rule: rev_induct)
  case (snoc x ents)
  then have ok: "log_ok ents" "appendable ents x" by simp_all
  show ?case
  proof (cases "i = e_id x")
    case True
    with snoc.prems have "en = x" by simp
    moreover have "path_of (ents @ [x]) (e_parentId x) = path_of ents (e_parentId x)"
      using ok(2) by (cases "e_parentId x") (auto simp: path_of_old appendable_def)
    ultimately show ?thesis using True by (simp add: path_of_same)
  next
    case False
    with snoc.prems(2) have f: "find_entry ents i = Some en" by simp
    then have "i \<in> log_ids ents" using find_entry_None_iff [of ents i] by auto
    moreover have "path_of (ents @ [x]) (e_parentId en) = path_of ents (e_parentId en)"
    proof (cases "e_parentId en")
      case (Some p)
      have "p \<noteq> e_id x"
      proof -
        have "\<forall>p. e_parentId en = Some p \<longrightarrow> p \<in> log_ids ents"
          using ok(1) f
        proof (induction ents rule: rev_induct)
          case (snoc y ys)
          then show ?case by (auto simp: appendable_def split: if_splits)
        qed simp
        with Some ok(2) show ?thesis by (auto simp: appendable_def)
      qed
      with Some show ?thesis by (simp add: path_of_snoc)
    qed simp
    ultimately show ?thesis
      using snoc.IH [OF ok(1) f] path_of_old [OF ok(2)] by simp
  qed
qed simp

lemma path_of_last: "log_ok ents \<Longrightarrow> i \<in> log_ids ents \<Longrightarrow> path_of ents (Some i) \<noteq> [] \<and> e_id (last (path_of ents (Some i))) = i"
  by (metis find_entry_None_iff find_entry_id last_snoc not_None_eq path_of_step snoc_eq_iff_butlast)

section \<open>What a storage promises\<close>

text \<open>The identifier source is in a state in which it issues fresh identifiers for a log.\<close>

definition fresh_source :: "env \<Rightarrow> world \<Rightarrow> entry list \<Rightarrow> bool" where
  "fresh_source e w ents \<longleftrightarrow> clock_ok e \<and> world_ok w \<and> (\<forall>i \<in> log_ids ents. past_id w i)"

definition new_entry :: "jstring \<Rightarrow> jstring option \<Rightarrow> jstring \<Rightarrow> entry_body \<Rightarrow> entry" where
  "new_entry i parentId timestamp body =
     \<lparr>e_id = i, e_parentId = parentId, e_timestamp = timestamp, e_body = body\<rparr>"

lemma new_entry_sel [simp]:
  "e_id (new_entry i p ts b) = i" "e_parentId (new_entry i p ts b) = p"
  "e_timestamp (new_entry i p ts b) = ts" "e_body (new_entry i p ts b) = b"
  by (simp_all add: new_entry_def)

definition valid_target :: "entry list \<Rightarrow> jstring option \<Rightarrow> bool" where
  "valid_target ents t \<longleftrightarrow> (\<forall>i. t = Some i \<longrightarrow> i \<in> log_ids ents)"

text \<open>
  The contract of \<open>SessionStorage\<close>: \<open>logS\<close> is the log a storage stands for and \<open>good\<close> its
  invariant; every method is determined by the log.
\<close>

locale session_storage =
  fixes ops :: "env \<Rightarrow> 's SessionStorage"
    and logS :: "'s \<Rightarrow> entry list"
    and good :: "'s \<Rightarrow> bool"
  assumes good_log: "good s \<Longrightarrow> log_ok (logS s)"
    and getLeafId: "good s \<Longrightarrow> so_getLeafId (ops e) (s, w) = (Inr (leaf_of (logS s)), s, w)"
    and getEntry: "good s \<Longrightarrow> so_getEntry (ops e) i (s, w) = (Inr (find_entry (logS s) i), s, w)"
    and getEntries: "good s \<Longrightarrow> so_getEntries (ops e) (s, w) = (Inr (logS s), s, w)"
    and findEntries: "good s \<Longrightarrow>
      so_findEntries (ops e) ty (s, w) = (Inr (filter (\<lambda>en. e_type en = ty) (logS s)), s, w)"
    and getLabel: "good s \<Longrightarrow> so_getLabel (ops e) i (s, w) = (Inr (labels_of (logS s) i), s, w)"
    and getPathToRoot: "good s \<Longrightarrow> valid_target (logS s) t \<Longrightarrow>
      so_getPathToRoot (ops e) t (s, w) = (Inr (path_of (logS s) t), s, w)"
    and getPathToRoot_missing: "good s \<Longrightarrow> \<not> valid_target (logS s) t \<Longrightarrow>
      \<exists>msg. so_getPathToRoot (ops e) t (s, w) = (Inl (SessionError NotFound msg), s, w)"
    and createEntryId: "good s \<Longrightarrow>
      so_createEntryId (ops e) (s, w) =
        (Inr (fst (generateEntryId e (\<lambda>i. i \<in> log_ids (logS s)) w)), s,
         snd (generateEntryId e (\<lambda>i. i \<in> log_ids (logS s)) w))"
    and appendEntry: "good s \<Longrightarrow> appendable (logS s) en \<Longrightarrow>
      \<exists>s'. so_appendEntry (ops e) en (s, w) = (Inr (), s', w) \<and> good s' \<and> logS s' = logS s @ [en]"
    and setLeafId: "good s \<Longrightarrow> valid_target (logS s) t \<Longrightarrow>
      generateEntryId e (\<lambda>i. i \<in> log_ids (logS s)) w = (i, w') \<Longrightarrow> i \<noteq> [] \<Longrightarrow> i \<notin> log_ids (logS s) \<Longrightarrow>
      \<exists>s'. so_setLeafId (ops e) t (s, w) =
             (Inr (), s', w'\<lparr>w_ticks := Suc (w_ticks w')\<rparr>) \<and> good s' \<and>
           logS s' = logS s @
             [new_entry i (leaf_of (logS s)) (env_iso e (env_clock e (w_ticks w'))) (LeafE t)]"
    and setLeafId_missing: "good s \<Longrightarrow> \<not> valid_target (logS s) t \<Longrightarrow>
      \<exists>msg. so_setLeafId (ops e) t (s, w) = (Inl (SessionError NotFound msg), s, w)"

end
