(* ===== verification/MemoryStorage.thy ===== *)
theory MemoryStorage
  imports SessionTree
begin

text \<open>
  \<open>InMemorySessionStorage\<close> of \<open>packages/agent/src/harness/session/memory-storage.ts\<close>: the class
  with its caches, every method as an operation, and the interpretation of the storage contract
  on it.
\<close>

section \<open>State\<close>

record SessionMetadata =
  md_id :: jstring
  md_createdAt :: jstring

record InMemorySessionStorage =
  ms_metadata :: SessionMetadata
  ms_entries :: "entry list"
  ms_byId :: "jstring \<rightharpoonup> entry"
  ms_labelsById :: "jstring \<rightharpoonup> jstring"
  ms_leafId :: "jstring option"

type_synonym 'a mem_op = "(InMemorySessionStorage, 'a) op"

definition entry_not_found :: "jstring \<Rightarrow> jstring" where
  "entry_not_found i = js ''Entry '' @ i @ js '' not found''"

definition buildLabelsById :: "entry list \<Rightarrow> (jstring \<rightharpoonup> jstring)" where
  "buildLabelsById entries = foldl updateLabelCache Map.empty entries"

text \<open>\<open>leafId !== null && !byId.has(leafId)\<close>\<close>

definition leaf_missing :: "(jstring \<rightharpoonup> entry) \<Rightarrow> jstring option \<Rightarrow> bool" where
  "leaf_missing byId leafId = (case leafId of Some i \<Rightarrow> byId i = None | None \<Rightarrow> False)"

text \<open>The metadata are generated when none are given.\<close>

definition mem_default_metadata :: "env \<Rightarrow> world \<Rightarrow> SessionMetadata option \<Rightarrow> SessionMetadata \<times> world" where
  "mem_default_metadata e w metadataOpt =
     (case metadataOpt of
        Some md \<Rightarrow> (md, w)
      | None \<Rightarrow> (case uuidv7 e w of (uid, w1) \<Rightarrow>
          (case iso_now e w1 of (ts, w2) \<Rightarrow> (\<lparr>md_id = uid, md_createdAt = ts\<rparr>, w2))))"

definition mem_construct ::
    "env \<Rightarrow> world \<Rightarrow> entry list option \<Rightarrow> SessionMetadata option \<Rightarrow>
     (failure + InMemorySessionStorage) \<times> world" where
  "mem_construct e w entriesOpt metadataOpt =
     (let entries = (case entriesOpt of Some es \<Rightarrow> es | None \<Rightarrow> []);
          byId = foldl (\<lambda>m en. m(e_id en \<mapsto> en)) Map.empty entries;
          labelsById = buildLabelsById entries;
          leafId = foldl (\<lambda>_ en. leafIdAfterEntry en) None entries
      in if leaf_missing byId leafId
         then (Inl (SessionError InvalidSession (entry_not_found (the leafId))), w)
         else (case mem_default_metadata e w metadataOpt of (md, w1) \<Rightarrow>
           (Inr \<lparr>ms_metadata = md, ms_entries = entries, ms_byId = byId,
                 ms_labelsById = labelsById, ms_leafId = leafId\<rparr>, w1)))"

section \<open>Methods\<close>

definition mem_getMetadata :: "SessionMetadata mem_op" where
  "mem_getMetadata = (\<lambda>(s, w). (Inr (ms_metadata s), s, w))"

definition mem_getLeafId :: "jstring option mem_op" where
  "mem_getLeafId = (\<lambda>(s, w).
     if leaf_missing (ms_byId s) (ms_leafId s)
     then (Inl (SessionError InvalidSession (entry_not_found (the (ms_leafId s)))), s, w)
     else (Inr (ms_leafId s), s, w))"

definition mem_setLeafId :: "env \<Rightarrow> jstring option \<Rightarrow> unit mem_op" where
  "mem_setLeafId e leafId = (\<lambda>(s, w).
     if leaf_missing (ms_byId s) leafId
     then (Inl (SessionError NotFound (entry_not_found (the leafId))), s, w)
     else (case generateEntryId e (\<lambda>i. ms_byId s i \<noteq> None) w of (i, w1) \<Rightarrow>
            (case iso_now e w1 of (ts, w2) \<Rightarrow>
              (let en = new_entry i (ms_leafId s) ts (LeafE leafId)
               in (Inr (), s\<lparr>ms_entries := ms_entries s @ [en],
                             ms_byId := (ms_byId s)(e_id en \<mapsto> en),
                             ms_leafId := leafId\<rparr>, w2)))))"

definition mem_createEntryId :: "env \<Rightarrow> jstring mem_op" where
  "mem_createEntryId e = (\<lambda>(s, w).
     (case generateEntryId e (\<lambda>i. ms_byId s i \<noteq> None) w of (i, w1) \<Rightarrow> (Inr i, s, w1)))"

definition mem_appendEntry :: "entry \<Rightarrow> unit mem_op" where
  "mem_appendEntry en = (\<lambda>(s, w).
     (Inr (), s\<lparr>ms_entries := ms_entries s @ [en],
                ms_byId := (ms_byId s)(e_id en \<mapsto> en),
                ms_labelsById := updateLabelCache (ms_labelsById s) en,
                ms_leafId := leafIdAfterEntry en\<rparr>, w))"

definition mem_getEntry :: "jstring \<Rightarrow> entry option mem_op" where
  "mem_getEntry i = (\<lambda>(s, w). (Inr (ms_byId s i), s, w))"

definition mem_findEntries :: "entry_type \<Rightarrow> entry list mem_op" where
  "mem_findEntries ty = (\<lambda>(s, w). (Inr (filter (\<lambda>en. e_type en = ty) (ms_entries s)), s, w))"

definition mem_getLabel :: "jstring \<Rightarrow> jstring option mem_op" where
  "mem_getLabel i = (\<lambda>(s, w). (Inr (ms_labelsById s i), s, w))"

text \<open>
  The walk of \<open>getPathToRoot\<close> from an entry up to the root. Nothing in the code bounds it (a
  cycle of parents would keep it running), so the result is an option: \<open>None\<close> is "does not
  return".
\<close>

partial_function (option) path_loop ::
    "(jstring \<rightharpoonup> entry) \<Rightarrow> entry \<Rightarrow> entry list \<Rightarrow> (failure + entry list) option" where
  "path_loop byId current path =
     (case e_parentId current of
        None \<Rightarrow> Some (Inr (current # path))
      | Some p \<Rightarrow>
          (if p = [] then Some (Inr (current # path))
           else (case byId p of
                   None \<Rightarrow> Some (Inl (SessionError InvalidSession (entry_not_found p)))
                 | Some parent \<Rightarrow> path_loop byId parent (current # path))))"

definition getPathToRoot :: "(jstring \<rightharpoonup> entry) \<Rightarrow> jstring option \<Rightarrow> failure + entry list" where
  "getPathToRoot byId leafId =
     (case leafId of
        None \<Rightarrow> Inr []
      | Some i \<Rightarrow>
          (case byId i of
             None \<Rightarrow> Inl (SessionError NotFound (entry_not_found i))
           | Some current \<Rightarrow>
               (case path_loop byId current [] of None \<Rightarrow> Inl NonTermination | Some r \<Rightarrow> r)))"

definition mem_getPathToRoot :: "jstring option \<Rightarrow> entry list mem_op" where
  "mem_getPathToRoot leafId = (\<lambda>(s, w). (getPathToRoot (ms_byId s) leafId, s, w))"

definition mem_getEntries :: "entry list mem_op" where
  "mem_getEntries = (\<lambda>(s, w). (Inr (ms_entries s), s, w))"

definition memory_ops :: "env \<Rightarrow> InMemorySessionStorage SessionStorage" where
  "memory_ops e =
     \<lparr>so_getLeafId = mem_getLeafId, so_setLeafId = mem_setLeafId e,
      so_createEntryId = mem_createEntryId e, so_appendEntry = mem_appendEntry,
      so_getEntry = mem_getEntry, so_findEntries = mem_findEntries, so_getLabel = mem_getLabel,
      so_getPathToRoot = mem_getPathToRoot, so_getEntries = mem_getEntries\<rparr>"

section \<open>The caches agree with the entries\<close>

definition mem_good :: "InMemorySessionStorage \<Rightarrow> bool" where
  "mem_good s \<longleftrightarrow>
     log_ok (ms_entries s) \<and> ms_byId s = find_entry (ms_entries s) \<and>
     ms_labelsById s = labels_of (ms_entries s) \<and> ms_leafId s = leaf_of (ms_entries s)"

lemma not_leaf_missing: "\<not> leaf_missing (find_entry ents) t \<longleftrightarrow> valid_target ents t"
  by (cases t) (auto simp: leaf_missing_def valid_target_def find_entry_None_iff)

lemma valid_leaf: "log_ok ents \<Longrightarrow> valid_target ents (leaf_of ents)"
  by (auto simp: valid_target_def log_ok_leaf)

text \<open>The walk returns, and it returns the path of the log.\<close>

lemma find_entry_parent:
  "log_ok ents \<Longrightarrow> find_entry ents i = Some en \<Longrightarrow> e_parentId en = Some p \<Longrightarrow> p \<in> log_ids ents"
  by (induction ents rule: rev_induct) (auto simp: appendable_def split: if_splits)

lemma path_loop_path_of:
  assumes "log_ok ents" and "find_entry ents i = Some en"
  shows "path_loop (find_entry ents) en acc = Some (Inr (path_of ents (Some i) @ acc))"
proof -
  define n where "n = length (path_of ents (Some i))"
  then show ?thesis using assms(2)
  proof (induction n arbitrary: i en acc rule: less_induct)
    case (less n)
    note step = path_of_step [OF assms(1) less.prems(2)]
    show ?case
    proof (cases "e_parentId en")
      case None
      with step show ?thesis by (simp add: path_loop.simps)
    next
      case (Some p)
      then have p: "p \<in> log_ids ents" using find_entry_parent assms(1) less.prems(2) by blast
      then have "p \<noteq> []" using log_ok_nonempty_ids [OF assms(1)] by auto
      moreover obtain parent where f: "find_entry ents p = Some parent"
        using p find_entry_None_iff [of ents p] by auto
      moreover have "length (path_of ents (Some p)) < n"
        using less.prems(1) step Some by simp
      then have "path_loop (find_entry ents) parent (en # acc) =
          Some (Inr (path_of ents (Some p) @ en # acc))"
        using less.IH f by blast
      ultimately show ?thesis using Some step by (simp add: path_loop.simps [of _ en])
    qed
  qed
qed

lemma getPathToRoot_path_of:
  assumes "log_ok ents" and "valid_target ents t"
  shows "getPathToRoot (find_entry ents) t = Inr (path_of ents t)"
proof (cases t)
  case None
  then show ?thesis by (simp add: getPathToRoot_def)
next
  case (Some i)
  with assms(2) obtain en where f: "find_entry ents i = Some en"
    using find_entry_None_iff [of ents i] by (auto simp: valid_target_def)
  with Some path_loop_path_of [OF assms(1) f, of "[]"] show ?thesis
    by (simp add: getPathToRoot_def)
qed

lemma getPathToRoot_missing:
  "\<not> valid_target ents t \<Longrightarrow>
   \<exists>msg. getPathToRoot (find_entry ents) t = Inl (SessionError NotFound msg)"
  by (cases t)
    (auto simp: getPathToRoot_def valid_target_def find_entry_None_iff [THEN iffD2])

interpretation memory: session_storage memory_ops ms_entries mem_good
proof
  fix s w e en t i w' ty
  assume good: "mem_good s"
  then have log: "log_ok (ms_entries s)" and byId: "ms_byId s = find_entry (ms_entries s)"
    and leaf: "ms_leafId s = leaf_of (ms_entries s)"
    by (simp_all add: mem_good_def)
  have has: "(\<lambda>i. \<exists>y. find_entry (ms_entries s) i = Some y) = (\<lambda>i. i \<in> log_ids (ms_entries s))"
    using find_entry_None_iff [of "ms_entries s"] by (metis not_None_eq)
  show "log_ok (ms_entries s)" by (rule log)
  show "so_getLeafId (memory_ops e) (s, w) = (Inr (leaf_of (ms_entries s)), s, w)"
    using valid_leaf [OF log] not_leaf_missing
    by (simp add: memory_ops_def mem_getLeafId_def byId leaf)
  show "so_getEntry (memory_ops e) i (s, w) = (Inr (find_entry (ms_entries s) i), s, w)"
    by (simp add: memory_ops_def mem_getEntry_def byId)
  show "so_getEntries (memory_ops e) (s, w) = (Inr (ms_entries s), s, w)"
    by (simp add: memory_ops_def mem_getEntries_def)
  show "so_findEntries (memory_ops e) ty (s, w) =
      (Inr (filter (\<lambda>en. e_type en = ty) (ms_entries s)), s, w)"
    by (simp add: memory_ops_def mem_findEntries_def)
  show "so_getLabel (memory_ops e) i (s, w) = (Inr (labels_of (ms_entries s) i), s, w)"
    using good by (simp add: memory_ops_def mem_getLabel_def mem_good_def)
  show "so_createEntryId (memory_ops e) (s, w) =
      (Inr (fst (generateEntryId e (\<lambda>i. i \<in> log_ids (ms_entries s)) w)), s,
       snd (generateEntryId e (\<lambda>i. i \<in> log_ids (ms_entries s)) w))"
    by (simp add: memory_ops_def mem_createEntryId_def byId has case_prod_beta)
  show "so_getPathToRoot (memory_ops e) t (s, w) = (Inr (path_of (ms_entries s) t), s, w)"
    if "valid_target (ms_entries s) t"
    using getPathToRoot_path_of [OF log that] by (simp add: memory_ops_def mem_getPathToRoot_def byId)
  show "\<exists>msg. so_getPathToRoot (memory_ops e) t (s, w) = (Inl (SessionError NotFound msg), s, w)"
    if "\<not> valid_target (ms_entries s) t"
    using getPathToRoot_missing [OF that] by (auto simp: memory_ops_def mem_getPathToRoot_def byId)
  show "\<exists>s'. so_appendEntry (memory_ops e) en (s, w) = (Inr (), s', w) \<and> mem_good s' \<and>
      ms_entries s' = ms_entries s @ [en]" if "appendable (ms_entries s) en"
    using that good by (simp add: memory_ops_def mem_appendEntry_def mem_good_def)
  show "\<exists>s'. so_setLeafId (memory_ops e) t (s, w) = (Inr (), s', w'\<lparr>w_ticks := Suc (w_ticks w')\<rparr>) \<and>
      mem_good s' \<and> ms_entries s' = ms_entries s @
        [new_entry i (leaf_of (ms_entries s)) (env_iso e (env_clock e (w_ticks w'))) (LeafE t)]"
    if "valid_target (ms_entries s) t" and g: "generateEntryId e (\<lambda>i. i \<in> log_ids (ms_entries s)) w = (i, w')"
      and "i \<noteq> []" and "i \<notin> log_ids (ms_entries s)"
    using that good not_leaf_missing [of "ms_entries s" t] log_ok_leaf [OF log]
    by (simp add: memory_ops_def mem_setLeafId_def byId has iso_now_def date_now_def mem_good_def Let_def
        appendable_def valid_target_def leafIdAfterEntry_def updateLabelCache_def)
  show "\<exists>msg. so_setLeafId (memory_ops e) t (s, w) = (Inl (SessionError NotFound msg), s, w)"
    if "\<not> valid_target (ms_entries s) t"
    using that not_leaf_missing [of "ms_entries s" t]
    by (simp add: memory_ops_def mem_setLeafId_def byId)
qed

lemma mem_construct_good:
  assumes "log_ok ents" and "mem_construct e w (Some ents) md = (r, w')"
  shows "\<exists>s. r = Inr s \<and> mem_good s \<and> ms_entries s = ents"
proof -
  have byId: "foldl (\<lambda>m en. m(e_id en \<mapsto> en)) Map.empty ents = find_entry ents"
    by (induction ents rule: rev_induct) simp_all
  moreover have "foldl (\<lambda>_ en. leafIdAfterEntry en) None ents = leaf_of ents"
    by (induction ents rule: rev_induct) simp_all
  ultimately show ?thesis
    using assms valid_leaf [OF assms(1)] not_leaf_missing [of ents "leaf_of ents"]
    by (auto simp: mem_construct_def Let_def mem_good_def buildLabelsById_def labels_of_def
        split: prod.splits)
qed

end
