(* ===== verification/Session.thy ===== *)
theory Session
  imports MemoryStorage
begin

text \<open>
  \<open>packages/agent/src/harness/session/session.ts\<close>: the \<open>Session\<close> class over any storage, and
  \<open>buildSessionContext\<close>; \<open>getEntriesToFork\<close> of \<open>repo-utils.ts\<close>. What follows from the storage
  contract alone is proved in the context of the locale \<open>session_storage\<close>; the theorems are its
  instances for the in-memory storage.
\<close>

section \<open>The class Session\<close>

definition appendTypedEntry :: "'s SessionStorage \<Rightarrow> entry \<Rightarrow> ('s, jstring) op" where
  "appendTypedEntry so en = bindS (so_appendEntry so en) (\<lambda>_. returnS (e_id en))"

text \<open>
  The shape all the append methods share: a new identifier, the current leaf as the parent, the
  current time, and the body the method builds.
\<close>

definition appendBody :: "'s SessionStorage \<Rightarrow> env \<Rightarrow> entry_body \<Rightarrow> ('s, jstring) op" where
  "appendBody so e body =
     bindS (so_createEntryId so) (\<lambda>i.
     bindS (so_getLeafId so) (\<lambda>parentId.
     bindS (timestampS e) (\<lambda>timestamp.
     appendTypedEntry so (new_entry i parentId timestamp body))))"

definition appendMessage :: "'s SessionStorage \<Rightarrow> env \<Rightarrow> agent_message \<Rightarrow> ('s, jstring) op" where
  "appendMessage so e m = appendBody so e (MessageE m)"

definition appendThinkingLevelChange :: "'s SessionStorage \<Rightarrow> env \<Rightarrow> jstring \<Rightarrow> ('s, jstring) op" where
  "appendThinkingLevelChange so e level = appendBody so e (ThinkingLevelChangeE level)"

definition appendModelChange :: "'s SessionStorage \<Rightarrow> env \<Rightarrow> jstring \<Rightarrow> jstring \<Rightarrow> ('s, jstring) op" where
  "appendModelChange so e provider modelId = appendBody so e (ModelChangeE provider modelId)"

definition appendActiveToolsChange :: "'s SessionStorage \<Rightarrow> env \<Rightarrow> jstring list \<Rightarrow> ('s, jstring) op" where
  "appendActiveToolsChange so e names = appendBody so e (ActiveToolsChangeE names)"

definition appendCompaction :: "'s SessionStorage \<Rightarrow> env \<Rightarrow> jstring \<Rightarrow> jstring \<Rightarrow> nat \<Rightarrow>
    json option \<Rightarrow> bool option \<Rightarrow> ('s, jstring) op" where
  "appendCompaction so e summary firstKeptEntryId tokensBefore details fromHook =
     appendBody so e (CompactionE
       \<lparr>ce_summary = summary, ce_firstKeptEntryId = firstKeptEntryId,
        ce_tokensBefore = tokensBefore, ce_details = details, ce_fromHook = fromHook\<rparr>)"

definition appendCustomEntry :: "'s SessionStorage \<Rightarrow> env \<Rightarrow> jstring \<Rightarrow> json option \<Rightarrow> ('s, jstring) op" where
  "appendCustomEntry so e customType data = appendBody so e (CustomE customType data)"

definition appendCustomMessageEntry :: "'s SessionStorage \<Rightarrow> env \<Rightarrow> jstring \<Rightarrow> user_content \<Rightarrow> bool \<Rightarrow>
    json option \<Rightarrow> ('s, jstring) op" where
  "appendCustomMessageEntry so e customType content display details =
     appendBody so e (CustomMessageE
       \<lparr>cme_customType = customType, cme_content = content, cme_details = details,
        cme_display = display\<rparr>)"

definition appendLabel :: "'s SessionStorage \<Rightarrow> env \<Rightarrow> jstring \<Rightarrow> jstring option \<Rightarrow> ('s, jstring) op" where
  "appendLabel so e targetId label =
     bindS (so_getEntry so targetId) (\<lambda>found.
       if found = None then throwS (SessionError NotFound (entry_not_found targetId))
       else appendBody so e (LabelE targetId label))"

definition appendSessionName :: "'s SessionStorage \<Rightarrow> env \<Rightarrow> jstring \<Rightarrow> ('s, jstring) op" where
  "appendSessionName so e name = appendBody so e (SessionInfoE (Some (trim name)))"

text \<open>\<open>entryId !== null && !(await getEntry(entryId))\<close>\<close>

definition target_missing :: "'s SessionStorage \<Rightarrow> jstring option \<Rightarrow> ('s, bool) op" where
  "target_missing so entryId =
     (case entryId of
        None \<Rightarrow> returnS False
      | Some i \<Rightarrow> bindS (so_getEntry so i) (\<lambda>found. returnS (found = None)))"

text \<open>The optional branch summary: its text, details and origin.\<close>

definition moveTo :: "'s SessionStorage \<Rightarrow> env \<Rightarrow> jstring option \<Rightarrow>
    (jstring \<times> json option \<times> bool option) option \<Rightarrow> ('s, jstring option) op" where
  "moveTo so e entryId summary =
     bindS (target_missing so entryId) (\<lambda>missing.
       if missing then throwS (SessionError NotFound (entry_not_found (the entryId)))
       else bindS (so_setLeafId so entryId) (\<lambda>_.
         (case summary of
            None \<Rightarrow> returnS None
          | Some (text, details, fromHook) \<Rightarrow>
              bindS (so_createEntryId so) (\<lambda>i.
              bindS (timestampS e) (\<lambda>timestamp.
              bindS (appendTypedEntry so (new_entry i entryId timestamp (BranchSummaryE
                \<lparr>be_fromId = (case entryId of Some f \<Rightarrow> f | None \<Rightarrow> js ''root''),
                 be_summary = text, be_details = details, be_fromHook = fromHook\<rparr>)))
                (\<lambda>r. returnS (Some r)))))))"

definition getBranch :: "'s SessionStorage \<Rightarrow> jstring option \<Rightarrow> ('s, entry list) op" where
  "getBranch so fromId =
     (case fromId of
        Some i \<Rightarrow> so_getPathToRoot so (Some i)
      | None \<Rightarrow> bindS (so_getLeafId so) (so_getPathToRoot so))"

definition getSessionName :: "'s SessionStorage \<Rightarrow> ('s, jstring option) op" where
  "getSessionName so =
     bindS (so_findEntries so TSessionInfo) (\<lambda>entries.
       returnS (if entries = [] then None
                else (case e_body (last entries) of
                        SessionInfoE (Some name) \<Rightarrow> (if trim name \<noteq> [] then Some (trim name) else None)
                      | _ \<Rightarrow> None)))"

section \<open>The context of a path\<close>

record SessionContext =
  sc_messages :: "agent_message list"
  sc_thinkingLevel :: jstring
  sc_model :: "(jstring \<times> jstring) option"
  sc_activeToolNames :: "jstring list option"

text \<open>What the first loop keeps of one entry: level, model, tools, and the last compaction.\<close>

record scan_state =
  scan_thinkingLevel :: jstring
  scan_model :: "(jstring \<times> jstring) option"
  scan_activeToolNames :: "jstring list option"
  scan_compaction :: "(entry \<times> CompactionEntry) option"

definition scan_entry :: "scan_state \<Rightarrow> entry \<Rightarrow> scan_state" where
  "scan_entry st en =
     (case e_body en of
        ThinkingLevelChangeE level \<Rightarrow> st\<lparr>scan_thinkingLevel := level\<rparr>
      | ModelChangeE provider modelId \<Rightarrow> st\<lparr>scan_model := Some (provider, modelId)\<rparr>
      | MessageE (Msg (Assistant m)) \<Rightarrow> st\<lparr>scan_model := Some (am_provider m, am_model m)\<rparr>
      | ActiveToolsChangeE names \<Rightarrow> st\<lparr>scan_activeToolNames := Some names\<rparr>
      | CompactionE c \<Rightarrow> st\<lparr>scan_compaction := Some (en, c)\<rparr>
      | _ \<Rightarrow> st)"

definition scan_path :: "entry list \<Rightarrow> scan_state" where
  "scan_path pathEntries =
     foldl scan_entry
       \<lparr>scan_thinkingLevel = js ''off'', scan_model = None, scan_activeToolNames = None,
        scan_compaction = None\<rparr> pathEntries"

text \<open>\<open>appendMessage\<close> inside \<open>buildSessionContext\<close>: the messages one entry contributes.\<close>

definition entry_messages :: "(jstring \<Rightarrow> int) \<Rightarrow> entry \<Rightarrow> agent_message list" where
  "entry_messages date_ms en =
     (case e_body en of
        MessageE m \<Rightarrow> [m]
      | CustomMessageE c \<Rightarrow>
          [Custom (createCustomMessage date_ms (cme_customType c) (cme_content c) (cme_display c)
             (cme_details c) (e_timestamp en))]
      | BranchSummaryE b \<Rightarrow>
          (if be_summary b \<noteq> [] then
             [BranchSummary (createBranchSummaryMessage date_ms (be_summary b) (be_fromId b) (e_timestamp en))]
           else [])
      | _ \<Rightarrow> [])"

text \<open>The loop over the entries before the compaction.\<close>

fun kept_messages :: "(jstring \<Rightarrow> int) \<Rightarrow> jstring \<Rightarrow> bool \<Rightarrow> entry list \<Rightarrow> agent_message list" where
  "kept_messages date_ms firstKept found [] = []"
| "kept_messages date_ms firstKept found (en # ens) =
     (let found' = (found \<or> e_id en = firstKept)
      in (if found' then entry_messages date_ms en else []) @
         kept_messages date_ms firstKept found' ens)"

definition is_compaction :: "entry \<Rightarrow> bool" where
  "is_compaction en = (e_type en = TCompaction)"

definition context_messages :: "(jstring \<Rightarrow> int) \<Rightarrow> entry list \<Rightarrow> agent_message list" where
  "context_messages date_ms pathEntries =
     (case scan_compaction (scan_path pathEntries) of
        None \<Rightarrow> concat (map (entry_messages date_ms) pathEntries)
      | Some (cen, c) \<Rightarrow>
          (let idx = find_index (\<lambda>en. is_compaction en \<and> e_id en = e_id cen) pathEntries;
               (before, after) =
                 (case idx of Some i \<Rightarrow> (take i pathEntries, drop (Suc i) pathEntries)
                  | None \<Rightarrow> ([], pathEntries))
           in [CompactionSummary (createCompactionSummaryMessage date_ms (ce_summary c)
                 (ce_tokensBefore c) (e_timestamp cen))] @
              kept_messages date_ms (ce_firstKeptEntryId c) False before @
              concat (map (entry_messages date_ms) after)))"

definition buildSessionContext :: "(jstring \<Rightarrow> int) \<Rightarrow> entry list \<Rightarrow> SessionContext" where
  "buildSessionContext date_ms pathEntries =
     (let st = scan_path pathEntries
      in \<lparr>sc_messages = context_messages date_ms pathEntries,
          sc_thinkingLevel = scan_thinkingLevel st, sc_model = scan_model st,
          sc_activeToolNames = scan_activeToolNames st\<rparr>)"

definition buildContext :: "'s SessionStorage \<Rightarrow> (jstring \<Rightarrow> int) \<Rightarrow> ('s, SessionContext) op" where
  "buildContext so date_ms =
     bindS (getBranch so None) (\<lambda>path. returnS (buildSessionContext date_ms path))"

section \<open>Forking\<close>

datatype fork_position = Before | At

text \<open>\<open>getEntriesToFork\<close>; a missing or empty \<open>entryId\<close> forks everything.\<close>

definition getEntriesToFork :: "'s SessionStorage \<Rightarrow> jstring option \<Rightarrow> fork_position option \<Rightarrow>
    ('s, entry list) op" where
  "getEntriesToFork so entryId position =
     (case entryId of
        None \<Rightarrow> so_getEntries so
      | Some i \<Rightarrow>
          (if i = [] then so_getEntries so
           else bindS (so_getEntry so i) (\<lambda>target.
             (case target of
                None \<Rightarrow> throwS (SessionError InvalidForkTarget (entry_not_found i))
              | Some t \<Rightarrow>
                  (case (case position of None \<Rightarrow> Before | Some p \<Rightarrow> p) of
                     At \<Rightarrow> so_getPathToRoot so (Some (e_id t))
                   | Before \<Rightarrow>
                       (case e_body t of
                          MessageE (Msg (User _)) \<Rightarrow> so_getPathToRoot so (e_parentId t)
                        | _ \<Rightarrow> throwS (SessionError InvalidForkTarget
                                 (js ''Entry '' @ i @ js '' is not a user message''))))))))"

section \<open>What follows from the storage contract\<close>

text \<open>The identifier source is fresh and stays so for \<open>k\<close> more steps of the clock.\<close>

definition ticks_left :: "nat \<Rightarrow> world \<Rightarrow> bool" where
  "ticks_left k w \<longleftrightarrow> w_ticks w + k < 2 ^ 47"

lemma fresh_source_tick [simp]:
  "fresh_source e w ents \<Longrightarrow> fresh_source e (w\<lparr>w_ticks := Suc (w_ticks w)\<rparr>) ents"
  by (auto simp: fresh_source_def world_ok_def)

lemma generateEntryId_log:
  assumes "fresh_source e w ents" and "ticks_left 100 w"
  obtains i w' where "generateEntryId e (\<lambda>i. i \<in> log_ids ents) w = (i, w')"
    and "i \<notin> log_ids ents" and "i \<noteq> []" and "w_ticks w' \<le> w_ticks w + 101"
    and "\<And>en. e_id en = i \<Longrightarrow> fresh_source e w' (ents @ [en])"
proof -
  obtain i w' where g: "generateEntryId e (\<lambda>i. i \<in> log_ids ents) w = (i, w')"
    by (cases "generateEntryId e (\<lambda>i. i \<in> log_ids ents) w")
  have "clock_ok e" "world_ok w" "w_ticks w + 100 < 2 ^ 47" "\<forall>old. old \<in> log_ids ents \<longrightarrow> past_id w old"
    using assms by (auto simp: fresh_source_def ticks_left_def)
  from generateEntryId_spec [OF this g] that [OF g] assms(1) show thesis
    by (auto simp: fresh_source_def)
qed

context session_storage begin

lemma appendBody_run:
  assumes "good s" and "fresh_source e w (logS s)" and "ticks_left 100 w"
    and "\<forall>t. body \<noteq> LeafE t"
  obtains en s' w' where "appendBody (ops e) e body (s, w) = (Inr (e_id en), s', w')"
    and "good s'" and "logS s' = logS s @ [en]" and "e_body en = body"
    and "e_parentId en = leaf_of (logS s)" and "e_timestamp en \<in> range (env_iso e)"
    and "appendable (logS s) en"
    and "fresh_source e w' (logS s')" and "w_ticks w' \<le> w_ticks w + 102"
proof -
  obtain i w1 where g: "generateEntryId e (\<lambda>i. i \<in> log_ids (logS s)) w = (i, w1)"
    and new: "i \<notin> log_ids (logS s)" "i \<noteq> []" and t1: "w_ticks w1 \<le> w_ticks w + 101"
    and fr: "\<And>en. e_id en = i \<Longrightarrow> fresh_source e w1 (logS s @ [en])"
    using generateEntryId_log [OF assms(2,3)] by metis
  let ?ts = "env_iso e (env_clock e (w_ticks w1))"
  let ?en = "new_entry i (leaf_of (logS s)) ?ts body"
  let ?w' = "w1\<lparr>w_ticks := Suc (w_ticks w1)\<rparr>"
  have app: "appendable (logS s) ?en"
    using new log_ok_leaf [OF good_log [OF assms(1)]] assms(4) by (auto simp: appendable_def)
  obtain s' where s': "so_appendEntry (ops e) ?en (s, ?w') = (Inr (), s', ?w')" "good s'"
    "logS s' = logS s @ [?en]"
    using appendEntry [OF assms(1) app] by blast
  have "appendBody (ops e) e body (s, w) = (Inr (e_id ?en), s', ?w')"
    using createEntryId [OF assms(1), of e w] getLeafId [OF assms(1), of e w1] g s'(1)
    by (simp add: appendBody_def appendTypedEntry_def op_simps)
  moreover have "fresh_source e ?w' (logS s')" using fr [of ?en] s'(3) by simp
  ultimately show thesis
    by - (rule that [of ?en s' ?w'], use s' app t1 in simp_all)
qed

lemma moveTo_missing:
  assumes "good s" and "\<not> valid_target (logS s) t"
  shows "\<exists>msg. moveTo (ops e) e t summary (s, w) = (Inl (SessionError NotFound msg), s, w)"
proof -
  obtain i where t: "t = Some i" "i \<notin> log_ids (logS s)"
    using assms(2) by (auto simp: valid_target_def)
  then have "find_entry (logS s) i = None" by (simp add: find_entry_None_iff)
  with t getEntry [OF assms(1)] show ?thesis
    by (simp add: moveTo_def target_missing_def op_simps)
qed

lemma target_found:
  assumes "good s" and "valid_target (logS s) t"
  shows "target_missing (ops e) t (s, w) = (Inr False, s, w)"
proof (cases t)
  case (Some i)
  then have "find_entry (logS s) i \<noteq> None"
    using assms(2) by (simp add: find_entry_None_iff valid_target_def)
  with Some getEntry [OF assms(1)] show ?thesis by (simp add: target_missing_def op_simps)
qed (simp add: target_missing_def op_simps)

lemma setLeafId_run:
  assumes "good s" and "fresh_source e w (logS s)" and "ticks_left 100 w"
    and "valid_target (logS s) t"
  obtains en s' w' where "so_setLeafId (ops e) t (s, w) = (Inr (), s', w')"
    and "good s'" and "logS s' = logS s @ [en]" and "e_body en = LeafE t"
    and "e_parentId en = leaf_of (logS s)" and "e_timestamp en \<in> range (env_iso e)"
    and "appendable (logS s) en"
    and "fresh_source e w' (logS s')" and "w_ticks w' \<le> w_ticks w + 102"
proof -
  obtain i w1 where g: "generateEntryId e (\<lambda>i. i \<in> log_ids (logS s)) w = (i, w1)"
    and new: "i \<notin> log_ids (logS s)" "i \<noteq> []" and t1: "w_ticks w1 \<le> w_ticks w + 101"
    and fr: "\<And>en. e_id en = i \<Longrightarrow> fresh_source e w1 (logS s @ [en])"
    using generateEntryId_log [OF assms(2,3)] by metis
  let ?en = "new_entry i (leaf_of (logS s)) (env_iso e (env_clock e (w_ticks w1))) (LeafE t)"
  let ?w' = "w1\<lparr>w_ticks := Suc (w_ticks w1)\<rparr>"
  obtain s' where s': "so_setLeafId (ops e) t (s, w) = (Inr (), s', ?w')" "good s'"
    "logS s' = logS s @ [?en]"
    using setLeafId [OF assms(1,4) g new(2,1)] by blast
  have "appendable (logS s) ?en"
    using new log_ok_leaf [OF good_log [OF assms(1)]] assms(4) by (auto simp: appendable_def valid_target_def)
  moreover have "fresh_source e ?w' (logS s')" using fr [of ?en] s'(3) by simp
  ultimately show thesis
    by - (rule that [of s' ?w' ?en], use s' t1 in simp_all)
qed

lemma getBranch_run:
  assumes "good s"
  shows "getBranch (ops e) None (s, w) = (Inr (path_of (logS s) (leaf_of (logS s))), s, w)"
proof -
  have "valid_target (logS s) (leaf_of (logS s))"
    using log_ok_leaf [OF good_log [OF assms]] by (simp add: valid_target_def)
  with getLeafId [OF assms] getPathToRoot [OF assms] show ?thesis
    by (simp add: getBranch_def op_simps)
qed

lemma buildContext_run:
  "good s \<Longrightarrow> buildContext (ops e) date_ms (s, w) =
     (Inr (buildSessionContext date_ms (path_of (logS s) (leaf_of (logS s)))), s, w)"
  using getBranch_run [of s e w] by (simp add: buildContext_def op_simps)

lemma moveTo_plain:
  assumes "good s" and "fresh_source e w (logS s)" and "ticks_left 100 w"
    and "valid_target (logS s) t"
  obtains en s' w' where "moveTo (ops e) e t None (s, w) = (Inr None, s', w')"
    and "good s'" and "logS s' = logS s @ [en]" and "e_body en = LeafE t"
    and "e_timestamp en \<in> range (env_iso e)" and "appendable (logS s) en"
    and "fresh_source e w' (logS s')" and "w_ticks w' \<le> w_ticks w + 102"
proof -
  obtain en s' w' where r: "so_setLeafId (ops e) t (s, w) = (Inr (), s', w')"
    and "good s'" "logS s' = logS s @ [en]" "e_body en = LeafE t" "e_timestamp en \<in> range (env_iso e)" "appendable (logS s) en"
    "fresh_source e w' (logS s')" "w_ticks w' \<le> w_ticks w + 102"
    using setLeafId_run [OF assms] by metis
  moreover have "moveTo (ops e) e t None (s, w) = (Inr None, s', w')"
    using target_found [OF assms(1,4), of e w] r by (simp add: moveTo_def bindS_def returnS_def)
  ultimately show thesis using that by blast
qed

lemma moveTo_summary:
  assumes "good s" and "fresh_source e w (logS s)" and "ticks_left 202 w"
    and "valid_target (logS s) t"
  obtains lf en s' w' where
    "moveTo (ops e) e t (Some (text, details, fromHook)) (s, w) = (Inr (Some (e_id en)), s', w')"
    and "good s'" and "logS s' = logS s @ [lf, en]" and "e_body lf = LeafE t"
    and "e_body en = BranchSummaryE
      \<lparr>be_fromId = (case t of Some f \<Rightarrow> f | None \<Rightarrow> js ''root''), be_summary = text,
       be_details = details, be_fromHook = fromHook\<rparr>"
    and "e_parentId en = t" and "e_timestamp lf \<in> range (env_iso e)" and "e_timestamp en \<in> range (env_iso e)"
    and "appendable (logS s) lf" and "appendable (logS s @ [lf]) en"
    and "fresh_source e w' (logS s')" and "w_ticks w' \<le> w_ticks w + 204"
proof -
  let ?b = "BranchSummaryE
      \<lparr>be_fromId = (case t of Some f \<Rightarrow> f | None \<Rightarrow> js ''root''), be_summary = text,
       be_details = details, be_fromHook = fromHook\<rparr>"
  have "ticks_left 100 w" using assms(3) by (simp add: ticks_left_def)
  then obtain lf s1 w1 where r: "so_setLeafId (ops e) t (s, w) = (Inr (), s1, w1)"
    and 1: "good s1" "logS s1 = logS s @ [lf]" "e_body lf = LeafE t" "e_timestamp lf \<in> range (env_iso e)" "appendable (logS s) lf"
    "fresh_source e w1 (logS s1)" "w_ticks w1 \<le> w_ticks w + 102"
    using setLeafId_run [OF assms(1,2) _ assms(4)] by metis
  have "ticks_left 100 w1" using assms(3) 1(7) by (simp add: ticks_left_def)
  then obtain i w2 where g: "generateEntryId e (\<lambda>i. i \<in> log_ids (logS s1)) w1 = (i, w2)"
    and new: "i \<notin> log_ids (logS s1)" "i \<noteq> []" and t2: "w_ticks w2 \<le> w_ticks w1 + 101"
    and fr: "\<And>en. e_id en = i \<Longrightarrow> fresh_source e w2 (logS s1 @ [en])"
    using generateEntryId_log [OF 1(6)] by metis
  let ?en = "new_entry i t (env_iso e (env_clock e (w_ticks w2))) ?b"
  let ?w' = "w2\<lparr>w_ticks := Suc (w_ticks w2)\<rparr>"
  have app: "appendable (logS s1) ?en"
    using new assms(4) 1(2) by (auto simp: appendable_def valid_target_def)
  obtain s' where s': "so_appendEntry (ops e) ?en (s1, ?w') = (Inr (), s', ?w')" "good s'"
    "logS s' = logS s1 @ [?en]"
    using appendEntry [OF 1(1) app] by blast
  have run: "moveTo (ops e) e t (Some (text, details, fromHook)) (s, w) = (Inr (Some (e_id ?en)), s', ?w')"
    using target_found [OF assms(1,4), of e w] r createEntryId [OF 1(1), of e w1] g s'(1)
    by (simp add: moveTo_def appendTypedEntry_def bindS_def returnS_apply timestampS_apply)
  show thesis
  proof (rule that [OF run s'(2)])
    show "fresh_source e ?w' (logS s')" using fr [of ?en] s'(3) by simp
    show "w_ticks ?w' \<le> w_ticks w + 204" using t2 1(7) by simp
  qed (use s' 1 app in simp_all)
qed

end


section \<open>Paths are chains\<close>

text \<open>Every entry's parent is the entry before it; the first one has no parent.\<close>

fun chain_from :: "jstring option \<Rightarrow> entry list \<Rightarrow> bool" where
  "chain_from p [] = True"
| "chain_from p (en # ens) = (e_parentId en = p \<and> chain_from (Some (e_id en)) ens)"

definition last_id :: "jstring option \<Rightarrow> entry list \<Rightarrow> jstring option" where
  "last_id p ens = (if ens = [] then p else Some (e_id (last ens)))"

lemma last_id_simps [simp]: "last_id p [] = p" "last_id p (ens @ [en]) = Some (e_id en)"
  "last_id p (en # ens) = last_id (Some (e_id en)) ens"
  by (simp_all add: last_id_def)

lemma chain_from_append:
  "chain_from p (xs @ ys) \<longleftrightarrow> chain_from p xs \<and> chain_from (last_id p xs) ys"
  by (induction xs arbitrary: p) auto

lemma path_of_chain:
  "log_ok ents \<Longrightarrow> valid_target ents t \<Longrightarrow>
   chain_from None (path_of ents t) \<and> last_id None (path_of ents t) = t \<and>
   set (path_of ents t) \<subseteq> set ents \<and> distinct (map e_id (path_of ents t))"
proof (induction ents arbitrary: t rule: rev_induct)
  case Nil
  then show ?case by (cases t) (auto simp: valid_target_def)
next
  case (snoc en ents)
  then have ok: "log_ok ents" "appendable ents en" by simp_all
  show ?case
  proof (cases "t = Some (e_id en)")
    case True
    have v: "valid_target ents (e_parentId en)"
      using ok(2) by (simp add: appendable_def valid_target_def)
    have "e_id en \<notin> e_id ` set (path_of ents (e_parentId en))"
      using snoc.IH [OF ok(1) v] ok(2) by (auto simp: appendable_def log_ids_def)
    with True snoc.IH [OF ok(1) v] show ?thesis
      by (auto simp: path_of_same chain_from_append)
  next
    case False
    with snoc.prems(2) have "valid_target ents t" by (auto simp: valid_target_def)
    with False snoc.IH [OF ok(1)] show ?thesis by (auto simp: path_of_snoc)
  qed
qed

text \<open>A chain without leaf entries is itself a log, and its own branch.\<close>

lemma chain_is_log:
  assumes "chain_from None ens" and "distinct (map e_id ens)" and "[] \<notin> e_id ` set ens"
    and "\<forall>en \<in> set ens. e_type en \<noteq> TLeaf"
  shows "log_ok ens \<and> leaf_of ens = last_id None ens \<and> path_of ens (leaf_of ens) = ens"
  using assms
proof (induction ens rule: rev_induct)
  case (snoc en ens)
  then have IH: "log_ok ens" "leaf_of ens = last_id None ens" "path_of ens (leaf_of ens) = ens"
    and par: "e_parentId en = last_id None ens"
    by (auto simp: chain_from_append)
  have "e_type en \<noteq> TLeaf" using snoc.prems(4) by simp
  then have leaf: "leafIdAfterEntry en = Some (e_id en)" and nl: "\<And>t. e_body en \<noteq> LeafE t"
    by (auto simp: leafIdAfterEntry_def split: entry_body.splits)
  have "appendable ens en"
    using snoc.prems(2,3) par nl by (auto simp: appendable_def log_ids_def last_id_def)
  with IH par leaf show ?case by (simp add: path_of_same)
qed simp

section \<open>The context of a path\<close>

lemma scan_path_Nil [simp]:
  "scan_path [] = \<lparr>scan_thinkingLevel = js ''off'', scan_model = None, scan_activeToolNames = None,
     scan_compaction = None\<rparr>"
  by (simp add: scan_path_def)

lemma scan_path_snoc [simp]: "scan_path (path @ [en]) = scan_entry (scan_path path) en"
  by (simp add: scan_path_def)

lemma scan_compaction_entry:
  "scan_compaction (scan_entry st en) =
     (case e_body en of CompactionE c \<Rightarrow> Some (en, c) | _ \<Rightarrow> scan_compaction st)"
  by (auto simp: scan_entry_def split: entry_body.splits agent_message.splits message.splits)

lemma scan_compaction_Some:
  "scan_compaction (scan_path path) = Some (cen, c) \<Longrightarrow>
   cen \<in> set path \<and> e_body cen = CompactionE c"
  by (induction path rule: rev_induct)
    (auto simp: scan_compaction_entry split: entry_body.splits)

lemma scan_compaction_append:
  "\<forall>en \<in> set post. \<not> is_compaction en \<Longrightarrow>
   scan_compaction (scan_path (path @ post)) = scan_compaction (scan_path path)"
proof (induction post rule: rev_induct)
  case (snoc en post)
  then show ?case
    by (auto simp: append_assoc [symmetric] scan_compaction_entry is_compaction_def
        simp del: append_assoc split: entry_body.splits)
qed simp

text \<open>The loop with the flag keeps everything from the first kept entry on.\<close>

lemma kept_messages_True:
  "kept_messages date_ms fk True ens = concat (map (entry_messages date_ms) ens)"
  by (induction ens) (simp_all add: Let_def)

lemma kept_messages_dropWhile:
  "kept_messages date_ms fk False ens =
     concat (map (entry_messages date_ms) (dropWhile (\<lambda>en. e_id en \<noteq> fk) ens))"
  by (induction ens) (simp_all add: Let_def kept_messages_True)

lemma context_messages_compacted:
  assumes "e_body cen = CompactionE c" and "\<forall>en \<in> set post. \<not> is_compaction en"
    and "e_id cen \<notin> e_id ` set pre"
  shows "context_messages date_ms (pre @ cen # post) =
     CompactionSummary (createCompactionSummaryMessage date_ms (ce_summary c) (ce_tokensBefore c)
       (e_timestamp cen)) #
     concat (map (entry_messages date_ms) (dropWhile (\<lambda>en. e_id en \<noteq> ce_firstKeptEntryId c) pre)) @
     concat (map (entry_messages date_ms) post)"
proof -
  have "scan_compaction (scan_path ((pre @ [cen]) @ post)) = Some (cen, c)"
    using assms(1) by (subst scan_compaction_append [OF assms(2)]) (simp add: scan_compaction_entry)
  moreover have "find_index (\<lambda>en. is_compaction en \<and> e_id en = e_id cen) pre = None"
    unfolding find_index_None using assms(3) by (metis imageI)
  then have "find_index (\<lambda>en. is_compaction en \<and> e_id en = e_id cen) (pre @ cen # post) =
      Some (length pre)"
    using assms(1) by (simp add: find_index_append is_compaction_def)
  ultimately show ?thesis
    by (simp add: context_messages_def kept_messages_dropWhile)
qed

lemma context_messages_uncompacted:
  assumes "\<forall>en \<in> set path. \<not> is_compaction en"
  shows "context_messages date_ms path = concat (map (entry_messages date_ms) path)"
  using scan_compaction_append [OF assms, of "[]"] by (simp add: context_messages_def)

text \<open>Extending a branch extends its context.\<close>

lemma split_last_compaction:
  "(\<forall>en \<in> set path. \<not> is_compaction en) \<or>
   (\<exists>pre cen c post. path = pre @ cen # post \<and> e_body cen = CompactionE c \<and>
      (\<forall>en \<in> set post. \<not> is_compaction en))"
proof (cases "\<exists>en \<in> set path. is_compaction en")
  case True
  then obtain pre cen post where "path = pre @ cen # post" "is_compaction cen"
    "\<forall>en \<in> set post. \<not> is_compaction en"
    using split_list_last_prop [of path is_compaction] by blast
  moreover then obtain c where "e_body cen = CompactionE c"
    by (cases "e_body cen") (auto simp: is_compaction_def)
  ultimately show ?thesis by blast
qed blast

lemma context_messages_snoc:
  assumes "distinct (map e_id path)" and "\<not> is_compaction en"
  shows "context_messages date_ms (path @ [en]) =
     context_messages date_ms path @ entry_messages date_ms en"
  using split_last_compaction [of path]
proof (elim disjE exE conjE)
  assume "\<forall>en \<in> set path. \<not> is_compaction en"
  with assms(2) show ?thesis
    using context_messages_uncompacted [of path] context_messages_uncompacted [of "path @ [en]"] by simp
next
  fix pre cen c post
  assume "path = pre @ cen # post" "e_body cen = CompactionE c" "\<forall>en \<in> set post. \<not> is_compaction en"
  with assms show ?thesis
    using context_messages_compacted [of cen c post pre] context_messages_compacted [of cen c "post @ [en]" pre]
    by simp
qed


section \<open>Sequences of operations\<close>

text \<open>One call of a method of \<open>Session\<close> that changes the session.\<close>

datatype session_command =
    CMessage agent_message
  | CThinkingLevel jstring
  | CModel jstring jstring
  | CActiveTools "jstring list"
  | CCompaction jstring jstring nat "json option" "bool option"
  | CCustom jstring "json option"
  | CCustomMessage jstring user_content bool "json option"
  | CLabel jstring "jstring option"
  | CName jstring
  | CMove "jstring option" "(jstring \<times> json option \<times> bool option) option"

fun perform :: "'s SessionStorage \<Rightarrow> env \<Rightarrow> session_command \<Rightarrow> ('s, jstring option) op" where
  "perform so e (CMessage m) = bindS (appendMessage so e m) (\<lambda>i. returnS (Some i))"
| "perform so e (CThinkingLevel l) = bindS (appendThinkingLevelChange so e l) (\<lambda>i. returnS (Some i))"
| "perform so e (CModel p m) = bindS (appendModelChange so e p m) (\<lambda>i. returnS (Some i))"
| "perform so e (CActiveTools ns) = bindS (appendActiveToolsChange so e ns) (\<lambda>i. returnS (Some i))"
| "perform so e (CCompaction s f t d h) = bindS (appendCompaction so e s f t d h) (\<lambda>i. returnS (Some i))"
| "perform so e (CCustom c d) = bindS (appendCustomEntry so e c d) (\<lambda>i. returnS (Some i))"
| "perform so e (CCustomMessage c m d x) =
     bindS (appendCustomMessageEntry so e c m d x) (\<lambda>i. returnS (Some i))"
| "perform so e (CLabel t l) = bindS (appendLabel so e t l) (\<lambda>i. returnS (Some i))"
| "perform so e (CName n) = bindS (appendSessionName so e n) (\<lambda>i. returnS (Some i))"
| "perform so e (CMove t s) = moveTo so e t s"

text \<open>A caller that carries on after an error.\<close>

fun perform_all :: "'s SessionStorage \<Rightarrow> env \<Rightarrow> session_command list \<Rightarrow> 's \<times> world \<Rightarrow> 's \<times> world" where
  "perform_all so e [] \<sigma> = \<sigma>"
| "perform_all so e (c # cs) \<sigma> = perform_all so e cs (snd (perform so e c \<sigma>))"

text \<open>The body of the entry a command appends, for all but the two that first look a target up.\<close>

fun plain_body :: "session_command \<Rightarrow> entry_body option" where
  "plain_body (CMessage m) = Some (MessageE m)"
| "plain_body (CThinkingLevel l) = Some (ThinkingLevelChangeE l)"
| "plain_body (CModel p m) = Some (ModelChangeE p m)"
| "plain_body (CActiveTools ns) = Some (ActiveToolsChangeE ns)"
| "plain_body (CCompaction s f t d h) =
     Some (CompactionE \<lparr>ce_summary = s, ce_firstKeptEntryId = f, ce_tokensBefore = t,
       ce_details = d, ce_fromHook = h\<rparr>)"
| "plain_body (CCustom c d) = Some (CustomE c d)"
| "plain_body (CCustomMessage c m d x) =
     Some (CustomMessageE \<lparr>cme_customType = c, cme_content = m, cme_details = x, cme_display = d\<rparr>)"
| "plain_body (CName n) = Some (SessionInfoE (Some (trim n)))"
| "plain_body (CLabel t l) = None"
| "plain_body (CMove t s) = None"

lemmas append_defs = appendMessage_def appendThinkingLevelChange_def appendModelChange_def
  appendActiveToolsChange_def appendCompaction_def appendCustomEntry_def
  appendCustomMessageEntry_def appendSessionName_def

lemma perform_plain:
  "plain_body c = Some b \<Longrightarrow> perform so e c = bindS (appendBody so e b) (\<lambda>i. returnS (Some i))"
  by (cases c) (auto simp: append_defs)

lemma plain_body_no_leaf: "plain_body c = Some b \<Longrightarrow> b \<noteq> LeafE t"
  by (cases c) auto

lemma strict_prefix_extend [simp]: "strict_prefix xs (xs @ y # ys)"
  by (simp add: strict_prefix_def)

context session_storage begin

lemma perform_append:
  assumes "good s" and "fresh_source e w (logS s)" and "ticks_left 100 w"
    and "plain_body c = Some body"
  obtains en s' w' where "perform (ops e) e c (s, w) = (Inr (Some (e_id en)), s', w')"
    and "good s'" and "logS s' = logS s @ [en]"
    and "fresh_source e w' (logS s')" and "w_ticks w' \<le> w_ticks w + 204"
proof -
  obtain en s' w' where r: "appendBody (ops e) e body (s, w) = (Inr (e_id en), s', w')"
    and "good s'" "logS s' = logS s @ [en]" "fresh_source e w' (logS s')" "w_ticks w' \<le> w_ticks w + 102"
    using appendBody_run [OF assms(1-3), of body] plain_body_no_leaf [OF assms(4)] by metis
  moreover have "perform (ops e) e c (s, w) = (Inr (Some (e_id en)), s', w')"
    using r by (simp add: perform_plain [OF assms(4)] op_simps)
  ultimately show thesis using that by fastforce
qed

lemma appendLabel_missing:
  "good s \<Longrightarrow> i \<notin> log_ids (logS s) \<Longrightarrow>
   appendLabel (ops e) e i label (s, w) = (Inl (SessionError NotFound (entry_not_found i)), s, w)"
  using getEntry [of s e i w] find_entry_None_iff [of "logS s" i]
  by (simp add: appendLabel_def op_simps)

lemma appendLabel_found:
  "good s \<Longrightarrow> i \<in> log_ids (logS s) \<Longrightarrow>
   appendLabel (ops e) e i label (s, w) = appendBody (ops e) e (LabelE i label) (s, w)"
  using getEntry [of s e i w] find_entry_None_iff [of "logS s" i]
  by (auto simp: appendLabel_def op_simps)

text \<open>
  One operation: it appends to the log or fails with \<open>NotFound\<close> and changes nothing.
\<close>

lemma perform_step:
  assumes "good s" and "fresh_source e w (logS s)" and "ticks_left 202 w"
    and "perform (ops e) e c (s, w) = (r, s', w')"
  shows "good s' \<and> fresh_source e w' (logS s') \<and> w_ticks w' \<le> w_ticks w + 204 \<and>
         (case r of Inr _ \<Rightarrow> strict_prefix (logS s) (logS s')
          | Inl err \<Rightarrow> (\<exists>msg. err = SessionError NotFound msg) \<and> s' = s \<and> w' = w)"
proof -
  have t: "ticks_left 100 w" using assms(3) by (simp add: ticks_left_def)
  have app: ?thesis if plain: "plain_body c = Some body" for body
  proof -
    obtain en s1 w1 where "perform (ops e) e c (s, w) = (Inr (Some (e_id en)), s1, w1)"
      "good s1" "logS s1 = logS s @ [en]" "fresh_source e w1 (logS s1)" "w_ticks w1 \<le> w_ticks w + 204"
      using perform_append [OF assms(1,2) t plain] by metis
    with assms(4) show ?thesis by auto
  qed
  show ?thesis
  proof (cases c)
    case (CLabel i l)
    show ?thesis
    proof (cases "i \<in> log_ids (logS s)")
      case True
      obtain en s1 w1 where "appendBody (ops e) e (LabelE i l) (s, w) = (Inr (e_id en), s1, w1)"
        and 1: "good s1" "logS s1 = logS s @ [en]" "fresh_source e w1 (logS s1)" "w_ticks w1 \<le> w_ticks w + 102"
        by (rule appendBody_run [OF assms(1,2) t, of "LabelE i l"]) auto
      then have "perform (ops e) e c (s, w) = (Inr (Some (e_id en)), s1, w1)"
        using CLabel appendLabel_found [OF assms(1) True] by (simp add: op_simps)
      with assms(4) 1 show ?thesis by auto
    next
      case False
      with CLabel appendLabel_missing [OF assms(1) False, of e l w] assms show ?thesis
        by (auto simp: op_simps)
    qed
  next
    case (CMove t' summary)
    show ?thesis
    proof (cases "valid_target (logS s) t'")
      case True
      show ?thesis
      proof (cases summary)
        case None
        then obtain en s1 w1 where "moveTo (ops e) e t' summary (s, w) = (Inr None, s1, w1)"
          "good s1" "logS s1 = logS s @ [en]" "fresh_source e w1 (logS s1)" "w_ticks w1 \<le> w_ticks w + 102"
          using moveTo_plain [OF assms(1,2) t True] by metis
        with CMove assms(4) show ?thesis by auto
      next
        case (Some x)
        then obtain u details fromHook where x: "summary = Some (u, details, fromHook)"
          by (cases x) auto
        obtain lf en s1 w1 where "moveTo (ops e) e t' summary (s, w) = (Inr (Some (e_id en)), s1, w1)"
          "good s1" "logS s1 = logS s @ [lf, en]" "fresh_source e w1 (logS s1)" "w_ticks w1 \<le> w_ticks w + 204"
          using moveTo_summary [OF assms(1-3) True] unfolding x by metis
        with CMove assms(4) show ?thesis by auto
      qed
    next
      case False
      with CMove moveTo_missing [OF assms(1) False, of e summary w] assms show ?thesis by auto
    qed
  qed ((rule app, simp)+)
qed

lemma perform_all_run:
  assumes "good s" and "fresh_source e w (logS s)" and "ticks_left (204 * length cs + 202) w"
    and "perform_all (ops e) e cs (s, w) = (s', w')"
  shows "good s' \<and> fresh_source e w' (logS s') \<and> prefix (logS s) (logS s') \<and>
         w_ticks w' \<le> w_ticks w + 204 * length cs"
  using assms
proof (induction cs arbitrary: s w)
  case (Cons c cs)
  obtain r s1 w1 where p: "perform (ops e) e c (s, w) = (r, s1, w1)" by (metis prod_cases3)
  have "ticks_left 202 w" using Cons.prems(3) by (simp add: ticks_left_def)
  note step = perform_step [OF Cons.prems(1,2) this p]
  then have pre: "prefix (logS s) (logS s1)" by (auto simp: strict_prefix_def split: sum.splits)
  have "ticks_left (204 * length cs + 202) w1"
    using Cons.prems(3) step by (simp add: ticks_left_def)
  with Cons.IH [of s1 w1] step p Cons.prems(4)
  have "good s' \<and> fresh_source e w' (logS s') \<and> prefix (logS s1) (logS s') \<and>
        w_ticks w' \<le> w_ticks w1 + 204 * length cs" by simp
  with pre step show ?case by auto
qed simp

end


section \<open>The session over the in-memory storage\<close>

lemma mem_construct_empty:
  assumes "mem_construct e w0 None md = (Inr s, w)" and "clock_ok e" and "world_ok w0"
    and "ticks_left 1 w0"
  shows "mem_good s \<and> ms_entries s = [] \<and> fresh_source e w [] \<and> w_ticks w \<le> w_ticks w0 + 2"
proof -
  have s: "mem_good s \<and> ms_entries s = []"
    using assms(1) by (auto simp: mem_construct_def Let_def leaf_missing_def buildLabelsById_def
        mem_good_def split: prod.splits)
  moreover have "world_ok w \<and> w_ticks w \<le> w_ticks w0 + 2"
  proof (cases md)
    case None
    obtain u w1 where u: "uuidv7 e w0 = (u, w1)" by (cases "uuidv7 e w0")
    from uuidv7_world_ok [OF u assms(2,3)] None u assms(1,4) show ?thesis
      by (auto simp: mem_construct_def Let_def leaf_missing_def mem_default_metadata_def
          iso_now_def date_now_def ticks_left_def world_ok_def)
  next
    case (Some x)
    with assms(1,3) show ?thesis
      by (auto simp: mem_construct_def Let_def leaf_missing_def mem_default_metadata_def)
  qed
  ultimately show ?thesis using assms(2) by (simp add: fresh_source_def)
qed

lemma path_of_leaf:
  assumes "log_ok ents"
  shows "chain_from None (path_of ents (leaf_of ents))"
    "last_id None (path_of ents (leaf_of ents)) = leaf_of ents"
    "set (path_of ents (leaf_of ents)) \<subseteq> set ents"
    "distinct (map e_id (path_of ents (leaf_of ents)))"
  using path_of_chain [OF assms, of "leaf_of ents"] log_ok_leaf [OF assms]
  by (auto simp: valid_target_def)

text \<open>
  Claim C5. Whatever sequence of session operations runs on a new in-memory session, failing
  calls included: entries are only ever appended, their identifiers are pairwise different, and
  reading the branch always succeeds, with a chain of parents from a root entry to the leaf.
\<close>

theorem session_commands_safe:
  assumes "mem_construct e w0 None md = (Inr s, w)" and "clock_ok e" and "world_ok w0"
    and "ticks_left (204 * length (cs @ ds) + 204) w0"
    and "perform_all (memory_ops e) e cs (s, w) = (s1, w1)"
    and "perform_all (memory_ops e) e ds (s1, w1) = (s2, w2)"
  shows "prefix (ms_entries s1) (ms_entries s2) \<and> distinct (map e_id (ms_entries s2)) \<and>
         (\<exists>path. getBranch (memory_ops e) None (s2, w2) = (Inr path, s2, w2) \<and>
            chain_from None path \<and> last_id None path = ms_leafId s2 \<and>
            set path \<subseteq> set (ms_entries s2))"
proof -
  have "ticks_left 1 w0" using assms(4) by (simp add: ticks_left_def)
  note s = mem_construct_empty [OF assms(1-3) this]
  then have 0: "mem_good s" "fresh_source e w (ms_entries s)" by simp_all
  have "ticks_left (204 * length cs + 202) w" using s assms(4) by (simp add: ticks_left_def)
  note 1 = memory.perform_all_run [OF 0 this assms(5)]
  then have "ticks_left (204 * length ds + 202) w1" using s assms(4) by (simp add: ticks_left_def)
  with 1 memory.perform_all_run [OF _ _ _ assms(6)]
  have 2: "mem_good s2" "prefix (ms_entries s1) (ms_entries s2)" by simp_all
  have log: "log_ok (ms_entries s2)" and leaf: "ms_leafId s2 = leaf_of (ms_entries s2)"
    using 2 by (simp_all add: mem_good_def)
  show ?thesis
    using 2(2) log_ok_distinct [OF log] memory.getBranch_run [OF 2(1)] path_of_leaf [OF log] leaf
    by auto
qed

lemma leaf_after_append:
  "\<forall>t. e_body en \<noteq> LeafE t \<Longrightarrow> leafIdAfterEntry en = Some (e_id en)"
  by (cases "e_body en") (simp_all add: leafIdAfterEntry_def)

lemma branch_after_append:
  assumes "\<forall>t. e_body en \<noteq> LeafE t" and "e_parentId en = leaf_of ents"
  shows "path_of (ents @ [en]) (leaf_of (ents @ [en])) = path_of ents (leaf_of ents) @ [en]"
  using assms by (simp add: leaf_after_append path_of_same)

text \<open>
  Appending a message succeeds, extends the branch by one entry and the context by
  exactly that message, whether or not the branch was compacted; an assistant message also sets
  the model, and nothing else of the context changes.
\<close>

theorem appendMessage_extends_context:
  assumes "mem_good s" and "fresh_source e w (ms_entries s)" and "ticks_left 100 w"
    and "buildContext (memory_ops e) date_ms (s, w) = (Inr ctx, s, w)"
  shows "\<exists>i s' w'. appendMessage (memory_ops e) e m (s, w) = (Inr i, s', w') \<and>
           buildContext (memory_ops e) date_ms (s', w') =
             (Inr (ctx\<lparr>sc_messages := sc_messages ctx @ [m],
                       sc_model := (case m of Msg (Assistant a) \<Rightarrow> Some (am_provider a, am_model a)
                                    | _ \<Rightarrow> sc_model ctx)\<rparr>), s', w')"
proof -
  obtain en s' w' where r: "appendMessage (memory_ops e) e m (s, w) = (Inr (e_id en), s', w')"
    and s': "mem_good s'" "ms_entries s' = ms_entries s @ [en]" "e_body en = MessageE m"
    "e_parentId en = leaf_of (ms_entries s)"
    unfolding appendMessage_def
    by (rule memory.appendBody_run [OF assms(1-3), of "MessageE m"]) auto
  let ?p = "path_of (ms_entries s) (leaf_of (ms_entries s))"
  have ctx: "ctx = buildSessionContext date_ms ?p"
    using assms(4) memory.buildContext_run [OF assms(1)] by simp
  have "path_of (ms_entries s') (leaf_of (ms_entries s')) = ?p @ [en]"
    using s' branch_after_append [of en] by simp
  then have "buildContext (memory_ops e) date_ms (s', w') =
      (Inr (buildSessionContext date_ms (?p @ [en])), s', w')"
    using memory.buildContext_run [OF s'(1)] by simp
  moreover have "context_messages date_ms (?p @ [en]) = context_messages date_ms ?p @ [m]"
    using context_messages_snoc [of ?p en] path_of_leaf [OF memory.good_log [OF assms(1)]] s'(3)
    by (simp add: is_compaction_def entry_messages_def)
  ultimately show ?thesis
    using r s'(3) unfolding ctx
    by (auto simp: buildSessionContext_def Let_def scan_entry_def
        split: agent_message.splits message.splits)
qed

text \<open>
  Compacting a branch at one of its entries replaces what comes before that entry, and
  only that, by the summary: the context afterwards is the summary followed by the messages of
  the kept entries in order. Level, model and tools stay.
\<close>

theorem appendCompaction_context:
  assumes "mem_good s" and "fresh_source e w (ms_entries s)" and "ticks_left 100 w"
    and "getBranch (memory_ops e) None (s, w) = (Inr (pre @ first # rest), s, w)"
    and "buildContext (memory_ops e) date_ms (s, w) = (Inr ctx, s, w)"
  shows "\<exists>i s' w' ts.
           appendCompaction (memory_ops e) e summary (e_id first) tokens details fromHook (s, w) =
             (Inr i, s', w') \<and>
           buildContext (memory_ops e) date_ms (s', w') =
             (Inr (ctx\<lparr>sc_messages :=
                CompactionSummary (createCompactionSummaryMessage date_ms summary tokens ts) #
                concat (map (entry_messages date_ms) (first # rest))\<rparr>), s', w')"
proof -
  let ?c = "\<lparr>ce_summary = summary, ce_firstKeptEntryId = e_id first, ce_tokensBefore = tokens,
     ce_details = details, ce_fromHook = fromHook\<rparr>"
  let ?p = "path_of (ms_entries s) (leaf_of (ms_entries s))"
  have p: "?p = pre @ first # rest" using assms(4) memory.getBranch_run [OF assms(1)] by simp
  have log: "log_ok (ms_entries s)" using assms(1) by (simp add: mem_good_def)
  obtain en s' w' where r: "appendCompaction (memory_ops e) e summary (e_id first) tokens details
      fromHook (s, w) = (Inr (e_id en), s', w')"
    and s': "mem_good s'" "ms_entries s' = ms_entries s @ [en]" "e_body en = CompactionE ?c"
    "e_parentId en = leaf_of (ms_entries s)" "appendable (ms_entries s) en"
    unfolding appendCompaction_def
    by (rule memory.appendBody_run [OF assms(1-3), of "CompactionE ?c"]) auto
  have ctx: "ctx = buildSessionContext date_ms ?p"
    using assms(5) memory.buildContext_run [OF assms(1)] by simp
  have "path_of (ms_entries s') (leaf_of (ms_entries s')) = ?p @ [en]"
    using s' branch_after_append [of en] by simp
  then have bc: "buildContext (memory_ops e) date_ms (s', w') =
      (Inr (buildSessionContext date_ms (?p @ [en])), s', w')"
    using memory.buildContext_run [OF s'(1)] by simp
  have new: "e_id en \<notin> e_id ` set ?p"
    using path_of_leaf(3) [OF log] s'(5) by (auto simp: appendable_def log_ids_def)
  have "e_id first \<notin> e_id ` set pre" using path_of_leaf(4) [OF log] unfolding p by auto
  then have "\<forall>x \<in> set pre. e_id x \<noteq> e_id first" by (metis imageI)
  then have "dropWhile (\<lambda>x. e_id x \<noteq> e_id first) (pre @ first # rest) = first # rest"
    by (subst dropWhile_append2) auto
  then have "context_messages date_ms (?p @ [en]) =
      CompactionSummary (createCompactionSummaryMessage date_ms summary tokens (e_timestamp en)) #
      concat (map (entry_messages date_ms) (first # rest))"
    using context_messages_compacted [OF s'(3), of "[]" ?p date_ms] new by (simp add: p)
  with r bc s'(3) show ?thesis
    unfolding ctx by (auto simp: buildSessionContext_def Let_def scan_entry_def)
qed

lemma find_entry_grows:
  "e_id en \<notin> log_ids ents \<Longrightarrow> find_entry ents \<subseteq>\<^sub>m find_entry (ents @ [en])"
  using find_entry_None_iff [of ents "e_id en"] by (auto simp: map_le_def)

text \<open>
  Moving to an entry makes the path to that entry the branch (followed by the summary
  of the branch left, when one is given) and loses nothing: every entry stays reachable by its
  identifier. Moving to an unknown entry fails with \<open>NotFound\<close> and changes nothing.
\<close>

theorem moveTo_branch:
  assumes "mem_good s" and "fresh_source e w (ms_entries s)" and "ticks_left 202 w"
  shows "case ms_byId s t of
      None \<Rightarrow> (\<exists>msg. moveTo (memory_ops e) e (Some t) summary (s, w) =
                 (Inl (SessionError NotFound msg), s, w))
    | Some _ \<Rightarrow> (\<exists>p r s' w' tail.
         getBranch (memory_ops e) (Some t) (s, w) = (Inr p, s, w) \<and>
         moveTo (memory_ops e) e (Some t) summary (s, w) = (Inr r, s', w') \<and>
         getBranch (memory_ops e) None (s', w') = (Inr (p @ tail), s', w') \<and>
         (case summary of None \<Rightarrow> tail = []
          | Some (u, details, fromHook) \<Rightarrow> \<exists>en. tail = [en] \<and> e_body en =
              BranchSummaryE \<lparr>be_fromId = t, be_summary = u, be_details = details, be_fromHook = fromHook\<rparr>) \<and>
         ms_byId s \<subseteq>\<^sub>m ms_byId s')"
proof (cases "ms_byId s t")
  case None
  then have "\<not> valid_target (ms_entries s) (Some t)"
    using assms(1) by (simp add: mem_good_def valid_target_def find_entry_None_iff)
  with None memory.moveTo_missing [OF assms(1) this] show ?thesis by simp
next
  case (Some x)
  have v: "valid_target (ms_entries s) (Some t)" and log: "log_ok (ms_entries s)"
    using assms(1) Some find_entry_None_iff [of "ms_entries s" t]
    by (auto simp: mem_good_def valid_target_def)
  then have t: "t \<in> log_ids (ms_entries s)" by (simp add: valid_target_def)
  let ?p = "path_of (ms_entries s) (Some t)"
  have b: "getBranch (memory_ops e) (Some t) (s, w) = (Inr ?p, s, w)"
    using memory.getPathToRoot [OF assms(1) v] by (simp add: getBranch_def)
  have t100: "ticks_left 100 w" using assms(3) by (simp add: ticks_left_def)
  show ?thesis
  proof (cases summary)
    case None
    obtain en s' w' where m: "moveTo (memory_ops e) e (Some t) None (s, w) = (Inr None, s', w')"
      and s': "mem_good s'" "ms_entries s' = ms_entries s @ [en]" "e_body en = LeafE (Some t)"
      "appendable (ms_entries s) en"
      using memory.moveTo_plain [OF assms(1,2) t100 v] by metis
    have "path_of (ms_entries s') (leaf_of (ms_entries s')) = ?p"
      using s' t by (simp add: leafIdAfterEntry_def path_of_old)
    then have "getBranch (memory_ops e) None (s', w') = (Inr (?p @ []), s', w')"
      using memory.getBranch_run [OF s'(1)] by simp
    moreover have "ms_byId s \<subseteq>\<^sub>m ms_byId s'"
      using assms(1) s' find_entry_grows [of en "ms_entries s"] by (simp add: mem_good_def appendable_def)
    ultimately show ?thesis using Some None b m by auto
  next
    case sm: (Some z)
    then obtain u details fromHook where z: "summary = Some (u, details, fromHook)"
      by (cases z) auto
    obtain lf en s' w' where m: "moveTo (memory_ops e) e (Some t) summary (s, w) = (Inr (Some (e_id en)), s', w')"
      and s': "mem_good s'" "ms_entries s' = ms_entries s @ [lf, en]" "e_body lf = LeafE (Some t)"
      "e_body en = BranchSummaryE \<lparr>be_fromId = t, be_summary = u, be_details = details, be_fromHook = fromHook\<rparr>"
      "e_parentId en = Some t" "appendable (ms_entries s) lf" "appendable (ms_entries s @ [lf]) en"
      unfolding z by (rule memory.moveTo_summary [OF assms v]) auto
    have log': "ms_entries s' = (ms_entries s @ [lf]) @ [en]" using s'(2) by simp
    have "path_of (ms_entries s') (leaf_of (ms_entries s')) = ?p @ [en]"
      unfolding log' using s'(4-6) t
      by (simp add: leafIdAfterEntry_def path_of_same path_of_old del: append_assoc)
    then have "getBranch (memory_ops e) None (s', w') = (Inr (?p @ [en]), s', w')"
      using memory.getBranch_run [OF s'(1)] by simp
    moreover have "ms_byId s \<subseteq>\<^sub>m ms_byId s'"
      using assms(1) s'(1,6,7) map_le_trans [OF find_entry_grows find_entry_grows]
      unfolding mem_good_def log' appendable_def by metis
    ultimately show ?thesis using Some z b m s'(4) by fastforce
  qed
qed

text \<open>
  Labelling an entry gives it exactly the trimmed label (a blank or missing one
  removes it), leaves every other entry's label alone, and fails for an unknown entry.
\<close>

theorem appendLabel_getLabel:
  assumes "mem_good s" and "fresh_source e w (ms_entries s)" and "ticks_left 100 w"
  shows "case ms_byId s t of
      None \<Rightarrow> (\<exists>msg. appendLabel (memory_ops e) e t label (s, w) = (Inl (SessionError NotFound msg), s, w))
    | Some _ \<Rightarrow> (\<exists>i s' w'. appendLabel (memory_ops e) e t label (s, w) = (Inr i, s', w') \<and>
         so_getLabel (memory_ops e) t (s', w') =
           (Inr (case label of None \<Rightarrow> None | Some l \<Rightarrow> if trim l = [] then None else Some (trim l)), s', w') \<and>
         (\<forall>u. u \<noteq> t \<longrightarrow> fst (so_getLabel (memory_ops e) u (s', w')) = fst (so_getLabel (memory_ops e) u (s, w))))"
proof (cases "ms_byId s t")
  case None
  then have "t \<notin> log_ids (ms_entries s)"
    using assms(1) by (simp add: mem_good_def find_entry_None_iff)
  with None memory.appendLabel_missing [OF assms(1)] show ?thesis by simp
next
  case (Some x)
  then have t: "t \<in> log_ids (ms_entries s)"
    using assms(1) find_entry_None_iff [of "ms_entries s" t] by (auto simp: mem_good_def)
  obtain en s' w' where r: "appendBody (memory_ops e) e (LabelE t label) (s, w) = (Inr (e_id en), s', w')"
    and s': "mem_good s'" "ms_entries s' = ms_entries s @ [en]" "e_body en = LabelE t label"
    by (rule memory.appendBody_run [OF assms, of "LabelE t label"]) auto
  have "so_getLabel (memory_ops e) u (s', w') =
      (Inr (updateLabelCache (labels_of (ms_entries s)) en u), s', w')" for u
    using memory.getLabel [OF s'(1)] s'(2) by simp
  with r s'(3) Some memory.appendLabel_found [OF assms(1) t] memory.getLabel [OF assms(1)]
  show ?thesis by (auto simp: updateLabelCache_def split: option.splits)
qed


section \<open>Witnesses\<close>

text \<open>A session with one user message.\<close>

definition demo_entry :: entry where
  "demo_entry = new_entry (js ''a'') None [] (MessageE (Msg (user_text (js ''hi'') 0)))"

definition demo_session :: InMemorySessionStorage where
  "demo_session = \<lparr>ms_metadata = \<lparr>md_id = js ''s'', md_createdAt = []\<rparr>, ms_entries = [demo_entry],
     ms_byId = [js ''a'' \<mapsto> demo_entry], ms_labelsById = Map.empty, ms_leafId = Some (js ''a'')\<rparr>"

lemma demo_good: "mem_good demo_session"
  using log_ok_snoc [of "[]" demo_entry] find_entry_snoc [of "[]" demo_entry]
    labels_of_snoc [of "[]" demo_entry] leaf_of_snoc [of "[]" demo_entry]
  by (simp add: mem_good_def demo_session_def demo_entry_def appendable_def js_eval
      updateLabelCache_def leafIdAfterEntry_def)

lemma demo_fresh: "fresh_source still_clock init_world (ms_entries demo_session)"
  by (simp add: fresh_source_def demo_session_def demo_entry_def log_ids_def past_id_def js_eval)

lemma demo_ticks: "k < 1000 \<Longrightarrow> ticks_left k init_world"
  by (simp add: ticks_left_def init_world_def)

lemma demo_branch:
  "getBranch (memory_ops still_clock) None (demo_session, init_world) =
     (Inr [demo_entry], demo_session, init_world)"
  using memory.getBranch_run [OF demo_good] path_of_snoc [of "[]" demo_entry]
    leaf_of_snoc [of "[]" demo_entry]
  by (simp add: demo_session_def demo_entry_def leafIdAfterEntry_def)

lemma demo_context:
  "buildContext (memory_ops still_clock) (\<lambda>_. 0) (demo_session, init_world) =
     (Inr (buildSessionContext (\<lambda>_. 0) [demo_entry]), demo_session, init_world)"
  using demo_branch by (simp add: buildContext_def bindS_def returnS_def)

lemma session_commands_safe_witness:
  "let md = \<lparr>md_id = js ''s'', md_createdAt = []\<rparr>;
       s0 = \<lparr>ms_metadata = md, ms_entries = [], ms_byId = Map.empty, ms_labelsById = Map.empty,
             ms_leafId = None\<rparr>;
       (s1, w1) = perform_all (memory_ops still_clock) still_clock
         [CMessage (OtherMessage []), CLabel (js ''zz'') None] (s0, init_world);
       (s2, w2) = perform_all (memory_ops still_clock) still_clock [CMove None None] (s1, w1)
   in prefix (ms_entries s1) (ms_entries s2) \<and> distinct (map e_id (ms_entries s2))"
proof -
  let ?md = "\<lparr>md_id = js ''s'', md_createdAt = []\<rparr>"
  let ?s0 = "\<lparr>ms_metadata = ?md, ms_entries = [], ms_byId = Map.empty, ms_labelsById = Map.empty,
             ms_leafId = None\<rparr> :: InMemorySessionStorage"
  let ?cs = "[CMessage (OtherMessage []), CLabel (js ''zz'') None]"
  have c: "mem_construct still_clock init_world None (Some ?md) = (Inr ?s0, init_world)"
    by (simp add: mem_construct_def leaf_missing_def mem_default_metadata_def buildLabelsById_def)
  obtain s1 w1 where r1: "perform_all (memory_ops still_clock) still_clock ?cs (?s0, init_world) = (s1, w1)"
    by fastforce
  obtain s2 w2 where r2: "perform_all (memory_ops still_clock) still_clock [CMove None None] (s1, w1) = (s2, w2)"
    by fastforce
  have "ticks_left (204 * length (?cs @ [CMove None None]) + 204) init_world"
    by (rule demo_ticks) simp
  from session_commands_safe [OF c clock_ok_still world_ok_init this r1 r2] show ?thesis
    unfolding Let_def r1 case_prod_conv r2 by blast
qed

lemma appendMessage_extends_context_witness:
  "\<exists>i s' w'. appendMessage (memory_ops still_clock) still_clock (OtherMessage []) (demo_session, init_world) =
       (Inr i, s', w')"
  using appendMessage_extends_context [OF demo_good demo_fresh _ demo_context] demo_ticks by fastforce

lemma appendCompaction_context_witness:
  "\<exists>i s' w'. appendCompaction (memory_ops still_clock) still_clock (js ''sum'') (e_id demo_entry) 7 None None
       (demo_session, init_world) = (Inr i, s', w')"
  using appendCompaction_context [OF demo_good demo_fresh _ _ demo_context, of "[]" demo_entry "[]"]
    demo_branch demo_ticks by fastforce

lemma moveTo_branch_witness:
  "\<exists>r s' w'. moveTo (memory_ops still_clock) still_clock (Some (js ''a'')) None (demo_session, init_world) =
       (Inr r, s', w')"
proof -
  have "ms_byId demo_session (js ''a'') = Some demo_entry" by (simp add: demo_session_def)
  with moveTo_branch [OF demo_good demo_fresh, of "js ''a''" None] demo_ticks show ?thesis
    by fastforce
qed

lemma appendLabel_getLabel_witness:
  "\<exists>msg. appendLabel (memory_ops still_clock) still_clock (js ''b'') None (demo_session, init_world) =
       (Inl (SessionError NotFound msg), demo_session, init_world)"
proof -
  have "ms_byId demo_session (js ''b'') = None" by (simp add: demo_session_def js_eval)
  with appendLabel_getLabel [OF demo_good demo_fresh, of "js ''b''" None] demo_ticks show ?thesis
    by simp
qed

end
