(* ===== verification/MemoryRepo.thy ===== *)
theory MemoryRepo
  imports Session "HOL-Library.AList"
begin

text \<open>
  \<open>InMemorySessionRepo\<close> of \<open>packages/agent/src/harness/session/memory-repo.ts\<close>: the sessions by
  identifier, in insertion order as a JavaScript \<open>Map\<close> keeps them. A session object handed out is
  referred to by its key.
\<close>

section \<open>State and operations\<close>

type_synonym repo = "(jstring \<times> InMemorySessionStorage) list"

type_synonym 'a repo_op = "(repo, 'a) op"

definition createSessionId :: "env \<Rightarrow> world \<Rightarrow> jstring \<times> world" where
  "createSessionId e w = uuidv7 e w"

definition createTimestamp :: "env \<Rightarrow> world \<Rightarrow> jstring \<times> world" where
  "createTimestamp e w = iso_now e w"

text \<open>\<open>{ id: options.id ?? createSessionId(), createdAt: createTimestamp() }\<close>\<close>

definition new_metadata :: "env \<Rightarrow> world \<Rightarrow> jstring option \<Rightarrow> SessionMetadata \<times> world" where
  "new_metadata e w idOpt =
     (case (case idOpt of Some i \<Rightarrow> (i, w) | None \<Rightarrow> createSessionId e w) of (i, w1) \<Rightarrow>
       (case createTimestamp e w1 of (ts, w2) \<Rightarrow> (\<lparr>md_id = i, md_createdAt = ts\<rparr>, w2)))"

text \<open>The storage is constructed and the session stored under its identifier.\<close>

definition store_session :: "env \<Rightarrow> entry list option \<Rightarrow> SessionMetadata \<Rightarrow> jstring repo_op" where
  "store_session e entries md = (\<lambda>(sessions, w).
     (case mem_construct e w entries (Some md) of
        (Inl err, w1) \<Rightarrow> (Inl err, sessions, w1)
      | (Inr storage, w1) \<Rightarrow> (Inr (md_id md), AList.update (md_id md) storage sessions, w1)))"

definition repo_create :: "env \<Rightarrow> jstring option \<Rightarrow> jstring repo_op" where
  "repo_create e idOpt = (\<lambda>(sessions, w).
     (case new_metadata e w idOpt of (md, w1) \<Rightarrow> store_session e None md (sessions, w1)))"

definition repo_open :: "SessionMetadata \<Rightarrow> InMemorySessionStorage repo_op" where
  "repo_open md = (\<lambda>(sessions, w).
     (case map_of sessions (md_id md) of
        None \<Rightarrow> (Inl (SessionError NotFound (js ''Session not found: '' @ md_id md)), sessions, w)
      | Some session \<Rightarrow> (Inr session, sessions, w)))"

definition repo_list :: "SessionMetadata list repo_op" where
  "repo_list = (\<lambda>(sessions, w). (Inr (map (\<lambda>(_, session). ms_metadata session) sessions), sessions, w))"

definition repo_delete :: "SessionMetadata \<Rightarrow> unit repo_op" where
  "repo_delete md = (\<lambda>(sessions, w). (Inr (), AList.delete (md_id md) sessions, w))"

text \<open>An operation on the storage that a session of the repository holds, such as
  \<open>getEntriesToFork (source.getStorage(), options)\<close>; the object is shared, so its new state is
  the repository's.\<close>

definition on_session :: "jstring \<Rightarrow> InMemorySessionStorage \<Rightarrow> (InMemorySessionStorage, 'a) op \<Rightarrow> 'a repo_op" where
  "on_session k source m = (\<lambda>(sessions, w).
     (case m (source, w) of (r, source', w') \<Rightarrow> (r, AList.update k source' sessions, w')))"

definition repo_fork :: "env \<Rightarrow> SessionMetadata \<Rightarrow> jstring option \<Rightarrow> fork_position option \<Rightarrow>
    jstring option \<Rightarrow> jstring repo_op" where
  "repo_fork e sourceMetadata entryId position idOpt =
     bindS (repo_open sourceMetadata) (\<lambda>source.
     bindS (on_session (md_id sourceMetadata) source
              (getEntriesToFork (memory_ops e) entryId position)) (\<lambda>forkedEntries.
       (\<lambda>(sessions, w).
         (case new_metadata e w idOpt of (md, w1) \<Rightarrow>
            store_session e (Some forkedEntries) md (sessions, w1)))))"

section \<open>The interface of a repository\<close>

text \<open>
  What a client of \<open>SessionRepo\<close> relies on: sessions are found under the identifier they were
  created with until they are deleted, operations on one session do not touch another, and the
  list names exactly the sessions there are.
\<close>

locale session_repo =
  fixes create :: "env \<Rightarrow> jstring option \<Rightarrow> ('r, jstring) op"
    and opens :: "SessionMetadata \<Rightarrow> ('r, 'x) op"
    and lists :: "('r, SessionMetadata list) op"
    and deletes :: "SessionMetadata \<Rightarrow> ('r, unit) op"
    and view :: "'r \<Rightarrow> jstring \<Rightarrow> 'x option"
    and good :: "'r \<Rightarrow> bool"
  assumes open_found: "good r \<Longrightarrow> view r (md_id md) = Some x \<Longrightarrow> opens md (r, w) = (Inr x, r, w)"
    and open_missing: "good r \<Longrightarrow> view r (md_id md) = None \<Longrightarrow>
      \<exists>msg. opens md (r, w) = (Inl (SessionError NotFound msg), r, w)"
    and create_view: "good r \<Longrightarrow> create e (Some i) (r, w) = (Inr j, r', w') \<Longrightarrow>
      j = i \<and> good r' \<and> (\<exists>x. view r' = (view r)(i \<mapsto> x))"
    and delete_view: "good r \<Longrightarrow> \<exists>r'. deletes md (r, w) = (Inr (), r', w) \<and> good r' \<and>
      view r' = (view r)(md_id md := None)"
    and list_view: "good r \<Longrightarrow>
      \<exists>mds. lists (r, w) = (Inr mds, r, w) \<and> distinct (map md_id mds) \<and> md_id ` set mds = dom (view r)"
begin

lemma create_then_open:
  assumes "good r" and "create e (Some i) (r, w) = (Inr j, r', w')" and "md_id md = i"
  shows "\<exists>x. opens md (r', w') = (Inr x, r', w')"
  using create_view [OF assms(1,2)] open_found [of r' md] assms(3) by auto

lemma delete_then_open:
  assumes "good r" and "deletes md (r, w) = (Inr (), r', w')"
  shows "(\<exists>msg. opens md (r', w') = (Inl (SessionError NotFound msg), r', w')) \<and>
         (\<forall>md' x. md_id md' \<noteq> md_id md \<longrightarrow> opens md' (r, w) = (Inr x, r, w) \<longrightarrow>
            opens md' (r', w') = (Inr x, r', w'))"
proof -
  obtain r1 where "deletes md (r, w) = (Inr (), r1, w)" "good r1" "view r1 = (view r)(md_id md := None)"
    using delete_view [OF assms(1)] by blast
  with assms(2) have r': "good r'" "view r' = (view r)(md_id md := None)" "w' = w" by auto
  have "opens md' (r', w') = (Inr x, r', w')"
    if "md_id md' \<noteq> md_id md" "opens md' (r, w) = (Inr x, r, w)" for md' x
  proof (cases "view r (md_id md')")
    case None
    with that(2) open_missing [OF assms(1) None, of w] show ?thesis by auto
  next
    case (Some y)
    with that r' open_found [OF assms(1) Some, of w] open_found [OF r'(1), of md' y w'] show ?thesis
      by auto
  qed
  with open_missing [OF r'(1), of md w'] r'(2) show ?thesis by auto
qed

lemma list_after_delete:
  assumes "good r" and "deletes md (r, w) = (Inr (), r', w')"
  shows "\<exists>mds. lists (r', w') = (Inr mds, r', w') \<and> md_id md \<notin> md_id ` set mds"
proof -
  obtain r1 where "deletes md (r, w) = (Inr (), r1, w)" "good r1" "view r1 = (view r)(md_id md := None)"
    using delete_view [OF assms(1)] by blast
  with assms(2) have r': "good r'" "view r' = (view r)(md_id md := None)" by auto
  with list_view [OF r'(1), of w'] show ?thesis by auto
qed

end

definition repo_good :: "repo \<Rightarrow> bool" where
  "repo_good sessions \<longleftrightarrow> distinct (map fst sessions) \<and>
     (\<forall>(k, s) \<in> set sessions. md_id (ms_metadata s) = k \<and> mem_good s)"

lemma mem_construct_metadata:
  "mem_construct e w ents (Some md) = (Inr s, w') \<Longrightarrow> ms_metadata s = md \<and> w' = w"
  by (auto simp: mem_construct_def Let_def mem_default_metadata_def split: if_splits)

lemma mem_construct_None_good: "\<exists>s. mem_construct e w None (Some md) = (Inr s, w) \<and> mem_good s"
  by (simp add: mem_construct_def leaf_missing_def buildLabelsById_def mem_default_metadata_def mem_good_def)

lemma repo_good_update:
  assumes "repo_good sessions" and "md_id (ms_metadata s) = k" and "mem_good s"
  shows "repo_good (AList.update k s sessions)"
proof -
  have "set (AList.update k s sessions) \<subseteq> insert (k, s) (set sessions)"
    by (induction sessions) auto
  with assms show ?thesis by (auto simp: repo_good_def distinct_update)
qed

lemma set_delete_subset: "set (AList.delete k al) \<subseteq> set al"
  by (induction al) auto

interpretation memrepo: session_repo repo_create repo_open repo_list repo_delete map_of repo_good
proof
  fix r md x w e i j r' w'
  assume good: "repo_good r"
  show "repo_open md (r, w) = (Inr x, r, w)" if "map_of r (md_id md) = Some x"
    using that by (simp add: repo_open_def)
  show "\<exists>msg. repo_open md (r, w) = (Inl (SessionError NotFound msg), r, w)"
    if "map_of r (md_id md) = None"
    using that by (simp add: repo_open_def)
  show "j = i \<and> repo_good r' \<and> (\<exists>x. map_of r' = (map_of r)(i \<mapsto> x))"
    if "repo_create e (Some i) (r, w) = (Inr j, r', w')"
  proof -
    obtain md w1 where md: "new_metadata e w (Some i) = (md, w1)" "md_id md = i"
      by (cases "createTimestamp e w") (simp add: new_metadata_def)
    obtain s where s: "mem_construct e w1 None (Some md) = (Inr s, w1)" "mem_good s"
      using mem_construct_None_good by blast
    with that md mem_construct_metadata [OF s(1)] repo_good_update [OF good, of s i] show ?thesis
      by (auto simp: repo_create_def store_session_def update_conv')
  qed
  show "\<exists>r'. repo_delete md (r, w) = (Inr (), r', w) \<and> repo_good r' \<and>
      map_of r' = (map_of r)(md_id md := None)"
    using good set_delete_subset [of "md_id md" r]
    by (auto simp: repo_delete_def repo_good_def delete_conv' distinct_delete)
  show "\<exists>mds. repo_list (r, w) = (Inr mds, r, w) \<and> distinct (map md_id mds) \<and>
      md_id ` set mds = dom (map_of r)"
  proof -
    have "map md_id (map (\<lambda>(_, session). ms_metadata session) r) = map fst r"
      using good by (auto simp: repo_good_def)
    then show ?thesis
      using good unfolding repo_list_def repo_good_def
      by (metis (no_types, lifting) case_prod_conv dom_map_of_conv_image_fst list.set_map)
  qed
qed

section \<open>Forking\<close>

definition is_user_entry :: "entry \<Rightarrow> bool" where
  "is_user_entry en = (case e_body en of MessageE m \<Rightarrow> is_user m | _ \<Rightarrow> False)"

context session_storage begin

lemma getEntriesToFork_missing:
  "good s \<Longrightarrow> i \<noteq> [] \<Longrightarrow> find_entry (logS s) i = None \<Longrightarrow>
   getEntriesToFork (ops e) (Some i) pos (s, w) =
     (Inl (SessionError InvalidForkTarget (entry_not_found i)), s, w)"
  using getEntry [of s e i w] by (simp add: getEntriesToFork_def op_simps)

lemma getEntriesToFork_At:
  assumes "good s" and "i \<noteq> []" and "find_entry (logS s) i = Some t"
  shows "getEntriesToFork (ops e) (Some i) (Some At) (s, w) = (Inr (path_of (logS s) (Some i)), s, w)"
proof -
  have "valid_target (logS s) (Some i)" and "e_id t = i"
    using assms(3) find_entry_None_iff [of "logS s" i] find_entry_id [of "logS s" i]
    by (auto simp: valid_target_def)
  with getEntry [OF assms(1), of e i w] getPathToRoot [OF assms(1)] assms(2,3) show ?thesis
    by (simp add: getEntriesToFork_def op_simps)
qed

lemma getEntriesToFork_Before:
  assumes "good s" and "i \<noteq> []" and "find_entry (logS s) i = Some t" and "pos \<noteq> Some At"
  shows "getEntriesToFork (ops e) (Some i) pos (s, w) =
    (if is_user_entry t then (Inr (path_of (logS s) (e_parentId t)), s, w)
     else (Inl (SessionError InvalidForkTarget (js ''Entry '' @ i @ js '' is not a user message'')), s, w))"
proof -
  have "valid_target (logS s) (e_parentId t)"
    using find_entry_parent [OF good_log [OF assms(1)] assms(3)] by (auto simp: valid_target_def)
  moreover have "(case pos of None \<Rightarrow> Before | Some p \<Rightarrow> p) = Before"
    using assms(4) by (cases pos) (auto intro: fork_position.exhaust)
  ultimately show ?thesis
    using getEntry [OF assms(1), of e i w] getPathToRoot [OF assms(1)] assms(2,3)
    by (auto simp: getEntriesToFork_def op_simps is_user_entry_def throwS_def
        split: entry_body.splits agent_message.splits message.splits)
qed

end

lemma repo_fork_stores:
  assumes "repo_good R" and "map_of R (md_id src) = Some s"
    and "getEntriesToFork (memory_ops e) entryId pos (s, w) = (Inr forked, s, w)"
    and "log_ok forked"
  shows "\<exists>R' w' f. repo_fork e src entryId pos (Some newId) (R, w) = (Inr newId, R', w') \<and>
           repo_good R' \<and> map_of R' = (map_of R)(newId \<mapsto> f) \<and> mem_good f \<and> ms_entries f = forked"
proof -
  obtain md w1 where md: "new_metadata e w (Some newId) = (md, w1)" "md_id md = newId"
    by (cases "createTimestamp e w") (simp add: new_metadata_def)
  obtain r w2 where c: "mem_construct e w1 (Some forked) (Some md) = (r, w2)" by fastforce
  then obtain f where f: "r = Inr f" "mem_good f" "ms_entries f = forked"
    using mem_construct_good [OF assms(4)] by blast
  have src: "md_id (ms_metadata s) = md_id src" "mem_good s"
    using assms(1,2) map_of_SomeD by (force simp: repo_good_def)+
  let ?R = "AList.update (md_id src) s R"
  have same: "map_of ?R = map_of R" using assms(2) by (auto simp: update_conv')
  have "repo_good (AList.update newId f ?R)"
    using repo_good_update [OF repo_good_update [OF assms(1) src] _ f(2)] md(2)
      mem_construct_metadata [of e w1 _ md f w2] c f(1) by simp
  moreover have "repo_fork e src entryId pos (Some newId) (R, w) =
      (Inr newId, AList.update newId f ?R, w2)"
    using assms(2,3) c f(1) md
    by (simp add: repo_fork_def bindS_def repo_open_def on_session_def store_session_def)
  ultimately show ?thesis using f same by (auto simp: update_conv')
qed

text \<open>
  Forking a session at an entry gives a new session whose branch is the source's path
  to that entry, or, by default and for a user message, the path before it; the source and every
  other session stay as they are.
\<close>

theorem repo_fork_branch:
  assumes "repo_good R" and "map_of R (md_id src) = Some s"
    and "getBranch (memory_ops e) (Some i) (s, w) = (Inr (pre @ [t]), s, w)"
    and "\<forall>en \<in> set (pre @ [t]). e_type en \<noteq> TLeaf" and "pos = Some At \<or> is_user_entry t"
  shows "\<exists>R' w' f. repo_fork e src (Some i) pos (Some newId) (R, w) = (Inr newId, R', w') \<and>
           repo_good R' \<and> map_of R' = (map_of R)(newId \<mapsto> f) \<and>
           getBranch (memory_ops e) None (f, w') =
             (Inr (if pos = Some At then pre @ [t] else pre), f, w')"
proof -
  have s: "mem_good s" using assms(1,2) map_of_SomeD by (force simp: repo_good_def)
  then have log: "log_ok (ms_entries s)" by (simp add: mem_good_def)
  have v: "valid_target (ms_entries s) (Some i)"
    using memory.getPathToRoot_missing [OF s, of "Some i" e w] assms(3) by (auto simp: getBranch_def)
  then have p: "path_of (ms_entries s) (Some i) = pre @ [t]"
    using memory.getPathToRoot [OF s v, of e w] assms(3) by (simp add: getBranch_def)
  obtain x where x: "find_entry (ms_entries s) i = Some x"
    using v find_entry_None_iff [of "ms_entries s" i] by (auto simp: valid_target_def)
  with path_of_step [OF log x] p have xt: "x = t" and pre: "path_of (ms_entries s) (e_parentId t) = pre"
    by auto
  have i: "i \<noteq> []" using v log_ok_nonempty_ids [OF log] by (auto simp: valid_target_def)
  have pt: "chain_from None (pre @ [t])" "set (pre @ [t]) \<subseteq> set (ms_entries s)"
    "distinct (map e_id (pre @ [t]))"
    using path_of_chain [OF log v] p by auto
  have ne: "[] \<notin> e_id ` set (pre @ [t])"
    using pt(2) log_ok_nonempty_ids [OF log] by (auto simp: log_ids_def)
  let ?forked = "if pos = Some At then pre @ [t] else pre"
  have g: "getEntriesToFork (memory_ops e) (Some i) pos (s, w) = (Inr ?forked, s, w)"
    using memory.getEntriesToFork_At [OF s i x, of e w]
      memory.getEntriesToFork_Before [OF s i x, of pos e w] assms(5) p xt pre by auto
  have forked: "log_ok ?forked \<and> leaf_of ?forked = last_id None ?forked \<and>
      path_of ?forked (leaf_of ?forked) = ?forked"
    by (rule chain_is_log) (use pt ne assms(4) in \<open>auto simp: chain_from_append split: if_splits\<close>)
  then obtain R' w' f where "repo_fork e src (Some i) pos (Some newId) (R, w) = (Inr newId, R', w')"
    "repo_good R'" "map_of R' = (map_of R)(newId \<mapsto> f)" and f: "mem_good f" "ms_entries f = ?forked"
    using repo_fork_stores [OF assms(1,2) g] by blast
  moreover have "getBranch (memory_ops e) None (f, w') = (Inr ?forked, f, w')"
    by (simp only: memory.getBranch_run [OF f(1)] f(2) conjunct2 [OF conjunct2 [OF forked]])
  ultimately show ?thesis by blast
qed

text \<open>
  Forking fails, and leaves every session alone, when the source is unknown
  (\<open>NotFound\<close>), when the entry is unknown, and when a fork before an entry names one that is not
  a user message (\<open>InvalidForkTarget\<close>).
\<close>

theorem repo_fork_errors:
  assumes "repo_good R" and "i \<noteq> []"
    and "case map_of R (md_id src) of None \<Rightarrow> code = NotFound
         | Some s \<Rightarrow> code = InvalidForkTarget \<and>
             (case ms_byId s i of None \<Rightarrow> True | Some t \<Rightarrow> pos \<noteq> Some At \<and> \<not> is_user_entry t)"
  shows "\<exists>msg R' w'. repo_fork e src (Some i) pos newId (R, w) = (Inl (SessionError code msg), R', w') \<and>
           map_of R' = map_of R"
proof (cases "map_of R (md_id src)")
  case None
  with assms(3) show ?thesis by (simp add: repo_fork_def bindS_def repo_open_def)
next
  case (Some s)
  then have s: "mem_good s" using assms(1) map_of_SomeD by (force simp: repo_good_def)
  then have byId: "ms_byId s = find_entry (ms_entries s)" by (simp add: mem_good_def)
  have "\<exists>msg. getEntriesToFork (memory_ops e) (Some i) pos (s, w) =
      (Inl (SessionError InvalidForkTarget msg), s, w)"
    using Some assms(2,3) memory.getEntriesToFork_missing [OF s assms(2), of e pos w]
      memory.getEntriesToFork_Before [OF s assms(2), of _ pos e w]
    by (auto simp: byId split: option.splits)
  with Some assms(3) show ?thesis
    by (auto simp: repo_fork_def bindS_def repo_open_def on_session_def update_conv' fun_upd_idem)
qed


section \<open>Witnesses\<close>

definition demo_repo :: repo where
  "demo_repo = [(js ''s'', demo_session)]"

lemma demo_repo_good: "repo_good demo_repo"
  using demo_good by (simp add: repo_good_def demo_repo_def demo_session_def)

lemma demo_repo_source: "map_of demo_repo (md_id (ms_metadata demo_session)) = Some demo_session"
  by (simp add: demo_repo_def demo_session_def)

lemma repo_fork_branch_witness:
  "\<exists>R' w' f. repo_fork still_clock (ms_metadata demo_session) (Some (js ''a'')) (Some At) (Some (js ''n''))
      (demo_repo, init_world) = (Inr (js ''n''), R', w') \<and> repo_good R' \<and>
      map_of R' = (map_of demo_repo)(js ''n'' \<mapsto> f) \<and>
      getBranch (memory_ops still_clock) None (f, w') = (Inr [demo_entry], f, w')"
proof -
  have "valid_target (ms_entries demo_session) (Some (js ''a''))"
    by (simp add: valid_target_def demo_session_def demo_entry_def log_ids_def)
  moreover have "path_of (ms_entries demo_session) (Some (js ''a'')) = [] @ [demo_entry]"
    using path_of_snoc [of "[]" demo_entry] by (simp add: demo_session_def demo_entry_def)
  ultimately have "getBranch (memory_ops still_clock) (Some (js ''a'')) (demo_session, init_world) =
      (Inr ([] @ [demo_entry]), demo_session, init_world)"
    using memory.getPathToRoot [OF demo_good, of _ still_clock init_world] by (simp add: getBranch_def)
  moreover have "\<forall>en \<in> set ([] @ [demo_entry]). e_type en \<noteq> TLeaf" by (simp add: demo_entry_def)
  ultimately show ?thesis
    using repo_fork_branch [OF demo_repo_good demo_repo_source, of still_clock "js ''a''" init_world
        "[]" demo_entry "Some At" "js ''n''"] by simp
qed

lemma repo_fork_errors_witness:
  "\<exists>msg R' w'. repo_fork still_clock (ms_metadata demo_session) (Some (js ''b'')) None None
      (demo_repo, init_world) = (Inl (SessionError InvalidForkTarget msg), R', w') \<and>
      map_of R' = map_of demo_repo"
  by (rule repo_fork_errors [OF demo_repo_good])
    (simp_all add: demo_repo_source demo_repo_def demo_session_def js_eval)

section \<open>The lifecycle of a session\<close>

text \<open>
  A created session can be opened; after it is deleted, opening it fails with
  \<open>NotFound\<close>, it is not listed, and every other session opens exactly as before.
\<close>

theorem memory_repo_lifecycle:
  assumes "repo_good R" and "repo_create e (Some i) (R, w) = (Inr j, R1, w1)" and "md_id md = i"
    and "repo_delete md (R1, w1) = (Inr (), R2, w2)"
  shows "(\<exists>x. repo_open md (R1, w1) = (Inr x, R1, w1)) \<and>
         (\<exists>msg. repo_open md (R2, w2) = (Inl (SessionError NotFound msg), R2, w2)) \<and>
         (\<exists>mds. repo_list (R2, w2) = (Inr mds, R2, w2) \<and> i \<notin> md_id ` set mds) \<and>
         (\<forall>md' x. md_id md' \<noteq> i \<longrightarrow> repo_open md' (R, w) = (Inr x, R, w) \<longrightarrow>
            repo_open md' (R2, w2) = (Inr x, R2, w2))"
proof -
  obtain x where good1: "repo_good R1" and v1: "map_of R1 = (map_of R)(i \<mapsto> x)"
    using memrepo.create_view [OF assms(1,2)] by blast
  have other: "repo_open md' (R1, w1) = (Inr y, R1, w1)"
    if "md_id md' \<noteq> i" "repo_open md' (R, w) = (Inr y, R, w)" for md' y
  proof (cases "map_of R (md_id md')")
    case None
    with that(2) show ?thesis by (simp add: repo_open_def)
  next
    case (Some z)
    with that v1 memrepo.open_found [OF good1, of md' y w1] show ?thesis by (simp add: repo_open_def)
  qed
  show ?thesis
    using memrepo.create_then_open [OF assms(1-3)] memrepo.delete_then_open [OF good1 assms(4)]
      memrepo.list_after_delete [OF good1 assms(4)] other assms(3) by auto
qed

lemma memory_repo_lifecycle_witness:
  "\<exists>R1 w1 R2 w2. repo_create still_clock (Some (js ''n'')) (demo_repo, init_world) = (Inr (js ''n''), R1, w1) \<and>
     repo_delete \<lparr>md_id = js ''n'', md_createdAt = []\<rparr> (R1, w1) = (Inr (), R2, w2) \<and>
     (\<exists>x. repo_open \<lparr>md_id = js ''n'', md_createdAt = []\<rparr> (R1, w1) = (Inr x, R1, w1))"
proof -
  let ?md = "\<lparr>md_id = js ''n'', md_createdAt = []\<rparr>"
  obtain R1 w1 where c: "repo_create still_clock (Some (js ''n'')) (demo_repo, init_world) = (Inr (js ''n''), R1, w1)"
    by (simp add: repo_create_def new_metadata_def createTimestamp_def iso_now_def date_now_def
        store_session_def mem_construct_def leaf_missing_def mem_default_metadata_def)
  moreover obtain R2 w2 where d: "repo_delete ?md (R1, w1) = (Inr (), R2, w2)"
    by (simp add: repo_delete_def)
  moreover have "\<exists>x. repo_open ?md (R1, w1) = (Inr x, R1, w1)"
    using memory_repo_lifecycle [OF demo_repo_good c _ d] by simp
  ultimately show ?thesis by blast
qed

end
