(* ===== verification/AgentTypes.thy ===== *)
theory AgentTypes
  imports Messages "HOL-Library.Multiset"
begin

text \<open>
  The types of the agent runtime (\<open>packages/agent/src/types.ts\<close>, the model and stream protocol of
  \<open>packages/ai/src/types.ts\<close>) and the programs that run on them: a program reads and changes a
  world of type \<open>'w\<close>, emits events, and returns, throws, or does not return. Everything the
  runtime is given (the stream function, tools, hooks, queues, the abort signal, the clock) is a
  function on the world.
\<close>

section \<open>Streams\<close>

datatype update_kind =
    TextStart nat | TextDelta nat jstring | TextEnd nat jstring
  | ThinkingStart nat | ThinkingDelta nat jstring | ThinkingEnd nat jstring
  | ToolcallStart nat | ToolcallDelta nat jstring | ToolcallEnd nat ToolCall

text \<open>\<open>AssistantMessageEvent\<close>: the nine update events carry the message built so far.\<close>

datatype AssistantMessageEvent =
    StreamStart AssistantMessage
  | StreamUpdate update_kind AssistantMessage
  | StreamDone StopReason AssistantMessage
  | StreamError StopReason AssistantMessage

section \<open>Tool results and events\<close>

record AgentToolResult =
  atr_content :: "user_block list"
  atr_details :: "json option"
  atr_terminate :: "bool option"

type_synonym arguments = "(jstring \<times> json) list"

datatype AgentEvent =
    AgentStart
  | AgentEnd "agent_message list"
  | TurnStart
  | TurnEnd agent_message "ToolResultMessage list"
  | MessageStart agent_message
  | MessageUpdate agent_message AssistantMessageEvent
  | MessageEnd agent_message
  | ToolExecutionStart jstring jstring arguments
  | ToolExecutionUpdate jstring jstring arguments AgentToolResult
  | ToolExecutionEnd jstring jstring AgentToolResult bool

datatype ToolExecutionMode = Sequential | Parallel

datatype QueueMode = QueueAll | OneAtATime

section \<open>Programs\<close>

text \<open>\<open>Hangs\<close>: the call does not return, within the fuel where there is fuel.\<close>

datatype 'a outcome = Done 'a | Threw jstring | Hangs

text \<open>A function of the environment, such as a hook: it may change the world and may throw.\<close>

type_synonym ('w, 'a) callback = "'w \<Rightarrow> 'a outcome \<times> 'w"

text \<open>A program: the world and the events emitted so far.\<close>

type_synonym ('w, 'a) prog = "'w \<times> AgentEvent list \<Rightarrow> 'a outcome \<times> 'w \<times> AgentEvent list"

definition retP :: "'a \<Rightarrow> ('w, 'a) prog" where
  "retP x = (\<lambda>\<sigma>. (Done x, \<sigma>))"

definition hangP :: "('w, 'a) prog" where
  "hangP = (\<lambda>\<sigma>. (Hangs, \<sigma>))"

definition throwP :: "jstring \<Rightarrow> ('w, 'a) prog" where
  "throwP msg = (\<lambda>\<sigma>. (Threw msg, \<sigma>))"

definition bindP :: "('w, 'a) prog \<Rightarrow> ('a \<Rightarrow> ('w, 'b) prog) \<Rightarrow> ('w, 'b) prog" where
  "bindP m f =
     (\<lambda>\<sigma>. case m \<sigma> of
        (Done x, \<sigma>') \<Rightarrow> f x \<sigma>' | (Threw msg, \<sigma>') \<Rightarrow> (Threw msg, \<sigma>') | (Hangs, \<sigma>') \<Rightarrow> (Hangs, \<sigma>'))"

text \<open>\<open>try { m } catch (error) { h }\<close>\<close>

definition tryP :: "('w, 'a) prog \<Rightarrow> (jstring \<Rightarrow> ('w, 'a) prog) \<Rightarrow> ('w, 'a) prog" where
  "tryP m h = (\<lambda>\<sigma>. case m \<sigma> of (Threw msg, \<sigma>') \<Rightarrow> h msg \<sigma>' | r \<Rightarrow> r)"

definition callP :: "('w, 'a) callback \<Rightarrow> ('w, 'a) prog" where
  "callP c = (\<lambda>(w, tr). case c w of (r, w') \<Rightarrow> (r, w', tr))"

definition sumP :: "jstring + 'a \<Rightarrow> ('w, 'a) prog" where
  "sumP r = (case r of Inl msg \<Rightarrow> throwP msg | Inr x \<Rightarrow> retP x)"

text \<open>\<open>await emit(event)\<close>: the event is recorded and handed to the sink.\<close>

definition emitP :: "(AgentEvent \<Rightarrow> ('w, unit) callback) \<Rightarrow> AgentEvent \<Rightarrow> ('w, unit) prog" where
  "emitP sink ev = (\<lambda>(w, tr). case sink ev w of (r, w') \<Rightarrow> (r, w', tr @ [ev]))"

text \<open>\<open>for (const x of xs) await f(x)\<close>\<close>

fun forP :: "('a \<Rightarrow> ('w, unit) prog) \<Rightarrow> 'a list \<Rightarrow> ('w, unit) prog" where
  "forP f [] = retP ()"
| "forP f (x # xs) = bindP (f x) (\<lambda>_. forP f xs)"

text \<open>The same, collecting the results.\<close>

fun mapP :: "('a \<Rightarrow> ('w, 'b) prog) \<Rightarrow> 'a list \<Rightarrow> ('w, 'b list) prog" where
  "mapP f [] = retP []"
| "mapP f (x # xs) = bindP (f x) (\<lambda>y. bindP (mapP f xs) (\<lambda>ys. retP (y # ys)))"

section \<open>Reasoning about the events of a program\<close>

text \<open>
  \<open>yields m P\<close>: from any world, the outcome of \<open>m\<close> and the events it emits satisfy \<open>P\<close>. The rules
  follow the program, so a proof splits at each \<open>bindP\<close>.
\<close>

definition yields :: "('w, 'a) prog \<Rightarrow> ('a outcome \<Rightarrow> AgentEvent list \<Rightarrow> bool) \<Rightarrow> bool" where
  "yields m P \<longleftrightarrow>
     (\<forall>w tr r w' tr'. m (w, tr) = (r, w', tr') \<longrightarrow> (\<exists>evs. tr' = tr @ evs \<and> P r evs))"

lemma yieldsI:
  "(\<And>w tr r w' tr'. m (w, tr) = (r, w', tr') \<Longrightarrow> \<exists>evs. tr' = tr @ evs \<and> P r evs) \<Longrightarrow> yields m P"
  unfolding yields_def by blast

lemma yieldsD: "yields m P \<Longrightarrow> m (w, tr) = (r, w', tr') \<Longrightarrow> \<exists>evs. tr' = tr @ evs \<and> P r evs"
  unfolding yields_def by blast

lemma yields_mono: "yields m P \<Longrightarrow> (\<And>r evs. P r evs \<Longrightarrow> Q r evs) \<Longrightarrow> yields m Q"
  unfolding yields_def by meson

lemma yields_ret: "P (Done x) [] \<Longrightarrow> yields (retP x) P"
  by (auto simp: yields_def retP_def)

lemma yields_hang: "P Hangs [] \<Longrightarrow> yields hangP P"
  by (auto simp: yields_def hangP_def)

lemma yields_throw: "P (Threw msg) [] \<Longrightarrow> yields (throwP msg) P"
  by (auto simp: yields_def throwP_def)

lemma yields_call: "(\<And>r. P r []) \<Longrightarrow> yields (callP c) P"
  by (auto simp: yields_def callP_def split: prod.splits)

text \<open>A callback that is known to return only certain values\<close>

lemma yields_call_when:
  "(\<And>w r w'. c w = (r, w') \<Longrightarrow> P r []) \<Longrightarrow> yields (callP c) P"
  by (auto simp: yields_def callP_def split: prod.splits)

lemma yields_emit: "(\<And>r. P r [ev]) \<Longrightarrow> yields (emitP sink ev) P"
  by (auto simp: yields_def emitP_def split: prod.splits)

lemma yields_sum: "(\<And>msg. P (Threw msg) []) \<Longrightarrow> (\<And>x. r = Inr x \<Longrightarrow> P (Done x) []) \<Longrightarrow> yields (sumP r) P"
  by (auto simp: sumP_def intro: yields_ret yields_throw split: sum.split)

lemma yields_bind:
  assumes "yields m P" and "\<And>x. yields (f x) (Q x)"
    and "\<And>x evs r evs'. P (Done x) evs \<Longrightarrow> Q x r evs' \<Longrightarrow> R r (evs @ evs')"
    and "\<And>msg evs. P (Threw msg) evs \<Longrightarrow> R (Threw msg) evs"
    and "\<And>evs. P Hangs evs \<Longrightarrow> R Hangs evs"
  shows "yields (bindP m f) R"
proof (rule yieldsI)
  fix w tr r w' tr'
  assume b: "bindP m f (w, tr) = (r, w', tr')"
  obtain r1 w1 tr1 where m: "m (w, tr) = (r1, w1, tr1)" by (metis prod_cases3)
  obtain evs where evs: "tr1 = tr @ evs" "P r1 evs" using yieldsD [OF assms(1) m] by blast
  show "\<exists>evs. tr' = tr @ evs \<and> R r evs"
  proof (cases r1)
    case (Done x)
    with b m have "f x (w1, tr1) = (r, w', tr')" by (simp add: bindP_def)
    then obtain evs' where "tr' = tr1 @ evs'" "Q x r evs'" using yieldsD [OF assms(2)] by blast
    with evs Done assms(3) show ?thesis by (intro exI [of _ "evs @ evs'"]) auto
  next
    case (Threw msg)
    with b m evs assms(4) show ?thesis by (auto simp: bindP_def)
  next
    case Hangs
    with b m evs assms(5) show ?thesis by (auto simp: bindP_def)
  qed
qed

lemma yields_try:
  assumes "yields m P" and "\<And>msg. yields (h msg) (Q msg)"
    and "\<And>x evs. P (Done x) evs \<Longrightarrow> R (Done x) evs" and "\<And>evs. P Hangs evs \<Longrightarrow> R Hangs evs"
    and "\<And>msg evs r evs'. P (Threw msg) evs \<Longrightarrow> Q msg r evs' \<Longrightarrow> R r (evs @ evs')"
  shows "yields (tryP m h) R"
proof (rule yieldsI)
  fix w tr r w' tr'
  assume b: "tryP m h (w, tr) = (r, w', tr')"
  obtain r1 w1 tr1 where m: "m (w, tr) = (r1, w1, tr1)" by (metis prod_cases3)
  obtain evs where evs: "tr1 = tr @ evs" "P r1 evs" using yieldsD [OF assms(1) m] by blast
  show "\<exists>evs. tr' = tr @ evs \<and> R r evs"
  proof (cases r1)
    case (Threw msg)
    with b m have "h msg (w1, tr1) = (r, w', tr')" by (simp add: tryP_def)
    then obtain evs' where "tr' = tr1 @ evs'" "Q msg r evs'" using yieldsD [OF assms(2)] by blast
    with evs Threw assms(5) show ?thesis by (intro exI [of _ "evs @ evs'"]) auto
  next
    case (Done x)
    with b m evs assms(3) show ?thesis by (auto simp: tryP_def)
  next
    case Hangs
    with b m evs assms(4) show ?thesis by (auto simp: tryP_def)
  qed
qed

end
