(* ===== verification/AgentLoop.thy ===== *)
theory AgentLoop
  imports AgentTypes
begin

text \<open>
  \<open>packages/agent/src/agent-loop.ts\<close>: the loop that alternates model responses and tool calls. The
  whole control flow is modelled: streaming, sequential and parallel tool execution with every
  interleaving of the running tools, hooks, steering and follow-up messages, errors and aborts.
\<close>

section \<open>What the loop is given\<close>

text \<open>
  A tool. The schema validation (\<open>validateToolArguments\<close>, on a third-party compiler) and the tool's
  own code are functions; \<open>at_execute\<close> gives the partial results it reports and how it ends.
\<close>

record 'w AgentTool =
  at_name :: jstring
  at_executionMode :: "ToolExecutionMode option"
  at_prepareArguments :: "(arguments \<Rightarrow> jstring + arguments) option"
  at_validate :: "arguments \<Rightarrow> jstring + json"
  at_execute :: "jstring \<Rightarrow> json \<Rightarrow> 'w \<Rightarrow> (AgentToolResult list \<times> AgentToolResult outcome) \<times> 'w"

record 'w AgentContext =
  ctx_systemPrompt :: jstring
  ctx_messages :: "agent_message list"
  ctx_tools :: "'w AgentTool list"

record BeforeToolCallResult =
  btr_block :: bool
  btr_reason :: "jstring option"

record AfterToolCallResult =
  afr_content :: "user_block list option"
  afr_details :: "json option"
  afr_isError :: "bool option"
  afr_terminate :: "bool option"

text \<open>Passed to \<open>shouldStopAfterTurn\<close> and \<open>prepareNextTurn\<close>\<close>

record 'w TurnContext =
  tcx_message :: AssistantMessage
  tcx_toolResults :: "ToolResultMessage list"
  tcx_context :: "'w AgentContext"
  tcx_newMessages :: "agent_message list"

record 'w AgentLoopTurnUpdate =
  atu_context :: "'w AgentContext option"
  atu_model :: "Model option"
  atu_thinkingLevel :: "jstring option"

record 'w LlmContext =
  lc_systemPrompt :: jstring
  lc_messages :: "message list"
  lc_tools :: "'w AgentTool list"

text \<open>
  \<open>AgentLoopConfig\<close>, together with what the loop reads from its surroundings: the stream function
  and the stream it returns (\<open>next\<close> event and final \<open>result\<close>), the abort signal, the clock, the
  event sink, and the order in which concurrently running tools make progress.
\<close>

record 'w AgentLoopConfig =
  cfg_model :: Model
  cfg_reasoning :: "jstring option"
  cfg_apiKey :: "jstring option"
  cfg_convertToLlm :: "agent_message list \<Rightarrow> ('w, message list) callback"
  cfg_transformContext :: "(agent_message list \<Rightarrow> ('w, agent_message list) callback) option"
  cfg_getApiKey :: "(jstring \<Rightarrow> ('w, jstring option) callback) option"
  cfg_getSteeringMessages :: "('w, agent_message list) callback option"
  cfg_getFollowUpMessages :: "('w, agent_message list) callback option"
  cfg_shouldStopAfterTurn :: "('w TurnContext \<Rightarrow> ('w, bool) callback) option"
  cfg_prepareNextTurn :: "('w TurnContext \<Rightarrow> ('w, 'w AgentLoopTurnUpdate option) callback) option"
  cfg_toolExecution :: "ToolExecutionMode option"
  cfg_beforeToolCall ::
    "(AssistantMessage \<Rightarrow> ToolCall \<Rightarrow> json \<Rightarrow> 'w AgentContext \<Rightarrow> ('w, BeforeToolCallResult option \<times> json) callback) option"
  cfg_afterToolCall ::
    "(AssistantMessage \<Rightarrow> ToolCall \<Rightarrow> json \<Rightarrow> AgentToolResult \<Rightarrow> bool \<Rightarrow> 'w AgentContext \<Rightarrow>
      ('w, AfterToolCallResult option) callback) option"
  cfg_stream :: "Model \<Rightarrow> 'w LlmContext \<Rightarrow> jstring option \<Rightarrow> jstring option \<Rightarrow> ('w, unit) callback"
  cfg_nextEvent :: "('w, AssistantMessageEvent option) callback"
  cfg_result :: "('w, AssistantMessage) callback"
  cfg_aborted :: "'w \<Rightarrow> bool"
  cfg_now :: "'w \<Rightarrow> int \<times> 'w"
  cfg_schedule :: "'w \<Rightarrow> nat list"
  cfg_sink :: "AgentEvent \<Rightarrow> ('w, unit) callback"

definition emit :: "'w AgentLoopConfig \<Rightarrow> AgentEvent \<Rightarrow> ('w, unit) prog" where
  "emit cfg ev = emitP (cfg_sink cfg) ev"

definition abortedP :: "'w AgentLoopConfig \<Rightarrow> ('w, bool) prog" where
  "abortedP cfg = callP (\<lambda>w. (Done (cfg_aborted cfg w), w))"

definition nowP :: "'w AgentLoopConfig \<Rightarrow> ('w, int) prog" where
  "nowP cfg = callP (\<lambda>w. case cfg_now cfg w of (t, w') \<Rightarrow> (Done t, w'))"

section \<open>Streaming a response\<close>

definition assistant_msg :: "AssistantMessage \<Rightarrow> agent_message" where
  "assistant_msg m = Msg (Assistant m)"

text \<open>The end of a stream: the final message replaces the partial one or is added.\<close>

definition finish_stream ::
    "'w AgentLoopConfig \<Rightarrow> agent_message list \<Rightarrow> bool \<Rightarrow> ('w, AssistantMessage \<times> agent_message list) prog" where
  "finish_stream cfg messages addedPartial =
     bindP (callP (cfg_result cfg)) (\<lambda>final.
       if addedPartial then
         bindP (emit cfg (MessageEnd (assistant_msg final)))
           (\<lambda>_. retP (final, messages[length messages - 1 := assistant_msg final]))
       else
         bindP (emit cfg (MessageStart (assistant_msg final))) (\<lambda>_.
         bindP (emit cfg (MessageEnd (assistant_msg final)))
           (\<lambda>_. retP (final, messages @ [assistant_msg final]))))"

text \<open>The \<open>for await\<close> loop over the events; the fuel bounds their number.\<close>

fun stream_loop ::
    "'w AgentLoopConfig \<Rightarrow> nat \<Rightarrow> agent_message list \<Rightarrow> bool \<Rightarrow>
     ('w, AssistantMessage \<times> agent_message list) prog" where
  "stream_loop cfg 0 messages addedPartial = hangP"
| "stream_loop cfg (Suc fuel) messages addedPartial =
     bindP (callP (cfg_nextEvent cfg)) (\<lambda>next.
       (case next of
          None \<Rightarrow> finish_stream cfg messages addedPartial
        | Some (StreamStart partial) \<Rightarrow>
            bindP (emit cfg (MessageStart (assistant_msg partial)))
              (\<lambda>_. stream_loop cfg fuel (messages @ [assistant_msg partial]) True)
        | Some (StreamUpdate k partial) \<Rightarrow>
            (if addedPartial then
               bindP (emit cfg (MessageUpdate (assistant_msg partial) (StreamUpdate k partial)))
                 (\<lambda>_. stream_loop cfg fuel (messages[length messages - 1 := assistant_msg partial]) True)
             else stream_loop cfg fuel messages False)
        | Some (StreamDone _ _) \<Rightarrow> finish_stream cfg messages addedPartial
        | Some (StreamError _ _) \<Rightarrow> finish_stream cfg messages addedPartial))"

definition resolve_key :: "'w AgentLoopConfig \<Rightarrow> ('w, jstring option) prog" where
  "resolve_key cfg =
     (case cfg_getApiKey cfg of
        None \<Rightarrow> retP (cfg_apiKey cfg)
      | Some f \<Rightarrow>
          bindP (callP (f (mo_provider (cfg_model cfg)))) (\<lambda>k.
            retP (case k of Some key \<Rightarrow> (if key \<noteq> [] then Some key else cfg_apiKey cfg)
                  | None \<Rightarrow> cfg_apiKey cfg)))"

definition streamAssistantResponse ::
    "'w AgentLoopConfig \<Rightarrow> nat \<Rightarrow> 'w AgentContext \<Rightarrow> ('w, AssistantMessage \<times> 'w AgentContext) prog" where
  "streamAssistantResponse cfg fuel ctx =
     bindP (case cfg_transformContext cfg of
              None \<Rightarrow> retP (ctx_messages ctx) | Some f \<Rightarrow> callP (f (ctx_messages ctx))) (\<lambda>messages.
     bindP (callP (cfg_convertToLlm cfg messages)) (\<lambda>llmMessages.
     bindP (resolve_key cfg) (\<lambda>key.
     bindP (callP (cfg_stream cfg (cfg_model cfg)
              \<lparr>lc_systemPrompt = ctx_systemPrompt ctx, lc_messages = llmMessages,
               lc_tools = ctx_tools ctx\<rparr> key (cfg_reasoning cfg))) (\<lambda>_.
     bindP (stream_loop cfg fuel (ctx_messages ctx) False) (\<lambda>(final, messages').
       retP (final, ctx\<lparr>ctx_messages := messages'\<rparr>))))))"

section \<open>Tool calls\<close>

text \<open>\<open>details: {}\<close> is an empty object.\<close>

definition createErrorToolResult :: "jstring \<Rightarrow> AgentToolResult" where
  "createErrorToolResult msg =
     \<lparr>atr_content = [TextBlock msg None], atr_details = Some (JObj []), atr_terminate = None\<rparr>"

text \<open>\<open>PreparedToolCall | ImmediateToolCallOutcome\<close>\<close>

datatype 'w preparation =
    Prepared ToolCall "'w AgentTool" json
  | Immediate AgentToolResult bool

record FinalizedToolCallOutcome =
  fin_toolCall :: ToolCall
  fin_result :: AgentToolResult
  fin_isError :: bool

definition find_tool :: "'w AgentContext \<Rightarrow> jstring \<Rightarrow> 'w AgentTool option" where
  "find_tool ctx name = find (\<lambda>t. at_name t = name) (ctx_tools ctx)"

definition shouldTerminateToolBatch :: "FinalizedToolCallOutcome list \<Rightarrow> bool" where
  "shouldTerminateToolBatch finalized \<longleftrightarrow>
     finalized \<noteq> [] \<and> (\<forall>f \<in> set finalized. atr_terminate (fin_result f) = Some True)"

definition prepareToolCallArguments :: "'w AgentTool \<Rightarrow> ToolCall \<Rightarrow> jstring + ToolCall" where
  "prepareToolCallArguments tool tc =
     (case at_prepareArguments tool of
        None \<Rightarrow> Inr tc
      | Some f \<Rightarrow> (case f (tc_arguments tc) of Inl msg \<Rightarrow> Inl msg | Inr a \<Rightarrow> Inr (tc\<lparr>tc_arguments := a\<rparr>)))"

definition abort_check :: "'w AgentLoopConfig \<Rightarrow> 'w preparation \<Rightarrow> ('w, 'w preparation) prog" where
  "abort_check cfg p =
     bindP (abortedP cfg) (\<lambda>aborted.
       retP (if aborted then Immediate (createErrorToolResult (js ''Operation aborted'')) True else p))"

text \<open>
  The hook gets the validated arguments by reference and may change them: its answer holds the
  arguments as it left them, which are not validated again.
\<close>

definition prepareToolCall ::
    "'w AgentLoopConfig \<Rightarrow> 'w AgentContext \<Rightarrow> AssistantMessage \<Rightarrow> ToolCall \<Rightarrow> ('w, 'w preparation) prog" where
  "prepareToolCall cfg ctx am tc =
     (case find_tool ctx (tc_name tc) of
        None \<Rightarrow> retP (Immediate (createErrorToolResult (js ''Tool '' @ tc_name tc @ js '' not found'')) True)
      | Some tool \<Rightarrow>
          tryP
            (bindP (sumP (prepareToolCallArguments tool tc)) (\<lambda>prepared.
             bindP (sumP (at_validate tool (tc_arguments prepared))) (\<lambda>args.
               (case cfg_beforeToolCall cfg of
                  None \<Rightarrow> abort_check cfg (Prepared tc tool args)
                | Some hook \<Rightarrow>
                    bindP (callP (hook am tc args ctx)) (\<lambda>(before, changedArgs).
                      (case before of
                         None \<Rightarrow> abort_check cfg (Prepared tc tool changedArgs)
                       | Some b \<Rightarrow>
                           (if btr_block b
                            then abort_check cfg (Immediate (createErrorToolResult
                                   (case btr_reason b of
                                      Some r \<Rightarrow> if r \<noteq> [] then r else js ''Tool execution was blocked''
                                    | None \<Rightarrow> js ''Tool execution was blocked'')) True)
                            else abort_check cfg (Prepared tc tool changedArgs))))))))
            (\<lambda>msg. retP (Immediate (createErrorToolResult msg) True)))"

text \<open>Calling \<open>tool.execute\<close>\<close>

definition start_call ::
    "ToolCall \<Rightarrow> 'w AgentTool \<Rightarrow> json \<Rightarrow> ('w, AgentToolResult list \<times> AgentToolResult outcome) prog" where
  "start_call tc tool args =
     callP (\<lambda>w. case at_execute tool (tc_id tc) args w of (r, w') \<Rightarrow> (Done r, w'))"

definition emit_update :: "'w AgentLoopConfig \<Rightarrow> ToolCall \<Rightarrow> AgentToolResult \<Rightarrow> ('w, unit) prog" where
  "emit_update cfg tc partial =
     emit cfg (ToolExecutionUpdate (tc_id tc) (tc_name tc) (tc_arguments tc) partial)"

text \<open>The result of an execution: a thrown error becomes an error result.\<close>

definition settle :: "AgentToolResult outcome \<Rightarrow> ('w, AgentToolResult \<times> bool) prog" where
  "settle out =
     (case out of
        Done r \<Rightarrow> retP (r, False)
      | Threw msg \<Rightarrow> retP (createErrorToolResult msg, True)
      | Hangs \<Rightarrow> hangP)"

definition executePreparedToolCall ::
    "'w AgentLoopConfig \<Rightarrow> ToolCall \<Rightarrow> 'w AgentTool \<Rightarrow> json \<Rightarrow> ('w, AgentToolResult \<times> bool) prog" where
  "executePreparedToolCall cfg tc tool args =
     bindP (start_call tc tool args) (\<lambda>(updates, out).
     bindP (forP (emit_update cfg tc) updates) (\<lambda>_. settle out))"

definition finalizeExecutedToolCall ::
    "'w AgentLoopConfig \<Rightarrow> 'w AgentContext \<Rightarrow> AssistantMessage \<Rightarrow> ToolCall \<Rightarrow> json \<Rightarrow>
     AgentToolResult \<times> bool \<Rightarrow> ('w, FinalizedToolCallOutcome) prog" where
  "finalizeExecutedToolCall cfg ctx am tc args executed =
     (case executed of (result, isError) \<Rightarrow>
       (case cfg_afterToolCall cfg of
          None \<Rightarrow> retP \<lparr>fin_toolCall = tc, fin_result = result, fin_isError = isError\<rparr>
        | Some hook \<Rightarrow>
            tryP
              (bindP (callP (hook am tc args result isError ctx)) (\<lambda>after.
                 (case after of
                    None \<Rightarrow> retP \<lparr>fin_toolCall = tc, fin_result = result, fin_isError = isError\<rparr>
                  | Some a \<Rightarrow>
                      retP \<lparr>fin_toolCall = tc,
                        fin_result =
                          \<lparr>atr_content = (case afr_content a of Some c \<Rightarrow> c | None \<Rightarrow> atr_content result),
                           atr_details = (case afr_details a of
                              Some d \<Rightarrow> (if d = JNull then atr_details result else Some d)
                            | None \<Rightarrow> atr_details result),
                           atr_terminate =
                             (case afr_terminate a of Some t \<Rightarrow> Some t | None \<Rightarrow> atr_terminate result)\<rparr>,
                        fin_isError = (case afr_isError a of Some x \<Rightarrow> x | None \<Rightarrow> isError)\<rparr>)))
              (\<lambda>msg. retP \<lparr>fin_toolCall = tc, fin_result = createErrorToolResult msg, fin_isError = True\<rparr>)))"

definition emitToolExecutionEnd :: "'w AgentLoopConfig \<Rightarrow> FinalizedToolCallOutcome \<Rightarrow> ('w, unit) prog" where
  "emitToolExecutionEnd cfg f =
     emit cfg (ToolExecutionEnd (tc_id (fin_toolCall f)) (tc_name (fin_toolCall f)) (fin_result f) (fin_isError f))"

definition createToolResultMessage ::
    "'w AgentLoopConfig \<Rightarrow> FinalizedToolCallOutcome \<Rightarrow> ('w, ToolResultMessage) prog" where
  "createToolResultMessage cfg f =
     bindP (nowP cfg) (\<lambda>now.
       retP \<lparr>trm_toolCallId = tc_id (fin_toolCall f), trm_toolName = tc_name (fin_toolCall f),
             trm_content = atr_content (fin_result f), trm_details = atr_details (fin_result f),
             trm_isError = fin_isError f, trm_timestamp = now\<rparr>)"

definition emit_message :: "'w AgentLoopConfig \<Rightarrow> agent_message \<Rightarrow> ('w, unit) prog" where
  "emit_message cfg m = bindP (emit cfg (MessageStart m)) (\<lambda>_. emit cfg (MessageEnd m))"

definition emitToolResultMessage :: "'w AgentLoopConfig \<Rightarrow> ToolResultMessage \<Rightarrow> ('w, unit) prog" where
  "emitToolResultMessage cfg m = emit_message cfg (Msg (ToolResult m))"

definition emit_start :: "'w AgentLoopConfig \<Rightarrow> ToolCall \<Rightarrow> ('w, unit) prog" where
  "emit_start cfg tc = emit cfg (ToolExecutionStart (tc_id tc) (tc_name tc) (tc_arguments tc))"

section \<open>Sequential execution\<close>

text \<open>One call from its start event to its result message.\<close>

definition run_call ::
    "'w AgentLoopConfig \<Rightarrow> 'w AgentContext \<Rightarrow> AssistantMessage \<Rightarrow> ToolCall \<Rightarrow>
     ('w, FinalizedToolCallOutcome \<times> ToolResultMessage) prog" where
  "run_call cfg ctx am tc =
     bindP (emit_start cfg tc) (\<lambda>_.
     bindP (prepareToolCall cfg ctx am tc) (\<lambda>p.
     bindP (case p of
              Immediate result isError \<Rightarrow>
                retP \<lparr>fin_toolCall = tc, fin_result = result, fin_isError = isError\<rparr>
            | Prepared tc' tool args \<Rightarrow>
                bindP (executePreparedToolCall cfg tc' tool args)
                  (finalizeExecutedToolCall cfg ctx am tc' args)) (\<lambda>finalized.
     bindP (emitToolExecutionEnd cfg finalized) (\<lambda>_.
     bindP (createToolResultMessage cfg finalized) (\<lambda>m.
     bindP (emitToolResultMessage cfg m) (\<lambda>_. retP (finalized, m)))))))"

text \<open>The loop over the calls, left when the run was aborted.\<close>

fun sequential_loop ::
    "'w AgentLoopConfig \<Rightarrow> 'w AgentContext \<Rightarrow> AssistantMessage \<Rightarrow> ToolCall list \<Rightarrow>
     ('w, (FinalizedToolCallOutcome \<times> ToolResultMessage) list) prog" where
  "sequential_loop cfg ctx am [] = retP []"
| "sequential_loop cfg ctx am (tc # tcs) =
     bindP (run_call cfg ctx am tc) (\<lambda>r.
     bindP (abortedP cfg) (\<lambda>aborted.
       if aborted then retP [r]
       else bindP (sequential_loop cfg ctx am tcs) (\<lambda>rs. retP (r # rs))))"

text \<open>\<open>ExecutedToolCallBatch\<close> as a pair: the messages and \<open>terminate\<close>.\<close>

definition executeToolCallsSequential ::
    "'w AgentLoopConfig \<Rightarrow> 'w AgentContext \<Rightarrow> AssistantMessage \<Rightarrow> ToolCall list \<Rightarrow>
     ('w, ToolResultMessage list \<times> bool) prog" where
  "executeToolCallsSequential cfg ctx am tcs =
     bindP (sequential_loop cfg ctx am tcs) (\<lambda>rs.
       retP (map snd rs, shouldTerminateToolBatch (map fst rs)))"

section \<open>Parallel execution\<close>

text \<open>
  A call of the batch: finished, not started, or running with the partial results it has still
  to report and the outcome it will have.
\<close>

datatype 'w call_state =
    Finished FinalizedToolCallOutcome
  | NotStarted ToolCall "'w AgentTool" json
  | Running ToolCall json "AgentToolResult list" "AgentToolResult outcome"

text \<open>The first loop: start events, preparations, and the outcomes that need no execution.\<close>

fun parallel_prepare ::
    "'w AgentLoopConfig \<Rightarrow> 'w AgentContext \<Rightarrow> AssistantMessage \<Rightarrow> ToolCall list \<Rightarrow> ('w, 'w call_state list) prog" where
  "parallel_prepare cfg ctx am [] = retP []"
| "parallel_prepare cfg ctx am (tc # tcs) =
     bindP (emit_start cfg tc) (\<lambda>_.
     bindP (prepareToolCall cfg ctx am tc) (\<lambda>p.
     bindP (case p of
              Immediate result isError \<Rightarrow>
                (let finalized = \<lparr>fin_toolCall = tc, fin_result = result, fin_isError = isError\<rparr>
                 in bindP (emitToolExecutionEnd cfg finalized) (\<lambda>_. retP (Finished finalized)))
            | Prepared tc' tool args \<Rightarrow> retP (NotStarted tc' tool args)) (\<lambda>entry.
     bindP (abortedP cfg) (\<lambda>aborted.
       if aborted then retP [entry]
       else bindP (parallel_prepare cfg ctx am tcs) (\<lambda>entries. retP (entry # entries))))))"

definition finish_call ::
    "'w AgentLoopConfig \<Rightarrow> 'w AgentContext \<Rightarrow> AssistantMessage \<Rightarrow> ToolCall \<Rightarrow> json \<Rightarrow>
     AgentToolResult outcome \<Rightarrow> ('w, FinalizedToolCallOutcome) prog" where
  "finish_call cfg ctx am tc args out =
     bindP (settle out) (\<lambda>executed.
     bindP (finalizeExecutedToolCall cfg ctx am tc args executed) (\<lambda>finalized.
     bindP (emitToolExecutionEnd cfg finalized) (\<lambda>_. retP finalized)))"

text \<open>One step of one call: it starts, reports a partial result, or ends.\<close>

definition step_call ::
    "'w AgentLoopConfig \<Rightarrow> 'w AgentContext \<Rightarrow> AssistantMessage \<Rightarrow> 'w call_state \<Rightarrow> ('w, 'w call_state) prog" where
  "step_call cfg ctx am c =
     (case c of
        Finished f \<Rightarrow> retP (Finished f)
      | NotStarted tc tool args \<Rightarrow>
          bindP (start_call tc tool args) (\<lambda>(updates, out). retP (Running tc args updates out))
      | Running tc args [] out \<Rightarrow> bindP (finish_call cfg ctx am tc args out) (\<lambda>f. retP (Finished f))
      | Running tc args (u # us) out \<Rightarrow> bindP (emit_update cfg tc u) (\<lambda>_. retP (Running tc args us out)))"

text \<open>The steps in the order of the schedule, which names the call that moves.\<close>

fun run_schedule ::
    "'w AgentLoopConfig \<Rightarrow> 'w AgentContext \<Rightarrow> AssistantMessage \<Rightarrow> nat list \<Rightarrow> 'w call_state list \<Rightarrow>
     ('w, 'w call_state list) prog" where
  "run_schedule cfg ctx am [] cs = retP cs"
| "run_schedule cfg ctx am (i # is) cs =
     (if i < length cs then
        bindP (step_call cfg ctx am (cs ! i)) (\<lambda>c. run_schedule cfg ctx am is (cs[i := c]))
      else run_schedule cfg ctx am is cs)"

text \<open>What is left after the schedule runs to its end, in order: every tool gets its turn.\<close>

definition complete_call ::
    "'w AgentLoopConfig \<Rightarrow> 'w AgentContext \<Rightarrow> AssistantMessage \<Rightarrow> 'w call_state \<Rightarrow>
     ('w, FinalizedToolCallOutcome) prog" where
  "complete_call cfg ctx am c =
     (case c of
        Finished f \<Rightarrow> retP f
      | NotStarted tc tool args \<Rightarrow>
          bindP (start_call tc tool args) (\<lambda>(updates, out).
          bindP (forP (emit_update cfg tc) updates) (\<lambda>_. finish_call cfg ctx am tc args out))
      | Running tc args updates out \<Rightarrow>
          bindP (forP (emit_update cfg tc) updates) (\<lambda>_. finish_call cfg ctx am tc args out))"

definition result_message ::
    "'w AgentLoopConfig \<Rightarrow> FinalizedToolCallOutcome \<Rightarrow> ('w, ToolResultMessage) prog" where
  "result_message cfg f =
     bindP (createToolResultMessage cfg f) (\<lambda>m.
     bindP (emitToolResultMessage cfg m) (\<lambda>_. retP m))"

definition executeToolCallsParallel ::
    "'w AgentLoopConfig \<Rightarrow> 'w AgentContext \<Rightarrow> AssistantMessage \<Rightarrow> ToolCall list \<Rightarrow>
     ('w, ToolResultMessage list \<times> bool) prog" where
  "executeToolCallsParallel cfg ctx am tcs =
     bindP (parallel_prepare cfg ctx am tcs) (\<lambda>entries.
     bindP (callP (\<lambda>w. (Done (cfg_schedule cfg w), w))) (\<lambda>schedule.
     bindP (run_schedule cfg ctx am schedule entries) (\<lambda>calls.
     bindP (mapP (complete_call cfg ctx am) calls) (\<lambda>finalized.
     bindP (mapP (result_message cfg) finalized) (\<lambda>messages.
       retP (messages, shouldTerminateToolBatch finalized))))))"

definition executeToolCalls ::
    "'w AgentLoopConfig \<Rightarrow> 'w AgentContext \<Rightarrow> AssistantMessage \<Rightarrow> ('w, ToolResultMessage list \<times> bool) prog" where
  "executeToolCalls cfg ctx am =
     (let toolCalls = tool_calls_of (am_content am);
          hasSequentialToolCall =
            (\<exists>tc \<in> set toolCalls.
               case find_tool ctx (tc_name tc) of
                 Some t \<Rightarrow> at_executionMode t = Some Sequential | None \<Rightarrow> False)
      in if cfg_toolExecution cfg = Some Sequential \<or> hasSequentialToolCall
         then executeToolCallsSequential cfg ctx am toolCalls
         else executeToolCallsParallel cfg ctx am toolCalls)"

section \<open>The loop\<close>

record 'w loop_state =
  ls_context :: "'w AgentContext"
  ls_config :: "'w AgentLoopConfig"
  ls_firstTurn :: bool
  ls_pending :: "agent_message list"
  ls_hasMoreToolCalls :: bool
  ls_newMessages :: "agent_message list"

text \<open>The loop either returns after a turn or goes on.\<close>

datatype 'w turn_result = TurnStop "agent_message list" | TurnNext "'w loop_state"

definition optional_call :: "('w, 'a) callback option \<Rightarrow> 'a \<Rightarrow> ('w, 'a) prog" where
  "optional_call f fallback = (case f of None \<Rightarrow> retP fallback | Some c \<Rightarrow> callP c)"

definition add_messages :: "agent_message list \<Rightarrow> 'w loop_state \<Rightarrow> 'w loop_state" where
  "add_messages ms st =
     st\<lparr>ls_context := (ls_context st)\<lparr>ctx_messages := ctx_messages (ls_context st) @ ms\<rparr>,
        ls_newMessages := ls_newMessages st @ ms\<rparr>"

text \<open>The start of a turn: \<open>turn_start\<close> but for the first, then the pending messages.\<close>

definition inject_pending :: "'w loop_state \<Rightarrow> ('w, 'w loop_state) prog" where
  "inject_pending st =
     bindP (if ls_firstTurn st then retP () else emit (ls_config st) TurnStart) (\<lambda>_.
     bindP (forP (emit_message (ls_config st)) (ls_pending st)) (\<lambda>_.
       retP ((add_messages (ls_pending st) st)\<lparr>ls_firstTurn := False, ls_pending := []\<rparr>)))"

definition end_run :: "'w AgentLoopConfig \<Rightarrow> agent_message list \<Rightarrow> ('w, agent_message list) prog" where
  "end_run cfg newMessages = bindP (emit cfg (AgentEnd newMessages)) (\<lambda>_. retP newMessages)"

text \<open>\<open>prepareNextTurn\<close> may replace the context, the model and the thinking level.\<close>

definition apply_update :: "'w AgentLoopTurnUpdate option \<Rightarrow> 'w loop_state \<Rightarrow> 'w loop_state" where
  "apply_update u st =
     (case u of
        None \<Rightarrow> st
      | Some a \<Rightarrow>
          st\<lparr>ls_context := (case atu_context a of Some c \<Rightarrow> c | None \<Rightarrow> ls_context st),
             ls_config := (ls_config st)
               \<lparr>cfg_model := (case atu_model a of Some m \<Rightarrow> m | None \<Rightarrow> cfg_model (ls_config st)),
                cfg_reasoning :=
                  (case atu_thinkingLevel a of
                     None \<Rightarrow> cfg_reasoning (ls_config st)
                   | Some l \<Rightarrow> if l = js ''off'' then None else Some l)\<rparr>\<rparr>)"

definition turn_context :: "'w loop_state \<Rightarrow> AssistantMessage \<Rightarrow> ToolResultMessage list \<Rightarrow> 'w TurnContext" where
  "turn_context st am results =
     \<lparr>tcx_message = am, tcx_toolResults = results, tcx_context = ls_context st,
      tcx_newMessages = ls_newMessages st\<rparr>"

text \<open>After a response that is neither an error nor aborted: tool calls and the end of the turn.\<close>

definition after_response :: "'w loop_state \<Rightarrow> AssistantMessage \<Rightarrow> ('w, 'w turn_result) prog" where
  "after_response st am =
     bindP (if tool_calls_of (am_content am) = [] then retP ([], True)
            else executeToolCalls (ls_config st) (ls_context st) am) (\<lambda>(toolResults, terminate).
     let st1 = (add_messages (map (\<lambda>r. Msg (ToolResult r)) toolResults) st)\<lparr>ls_hasMoreToolCalls := \<not> terminate\<rparr>
     in bindP (emit (ls_config st1) (TurnEnd (assistant_msg am) toolResults)) (\<lambda>_.
        bindP (optional_call (map_option (\<lambda>f. f (turn_context st1 am toolResults))
                 (cfg_prepareNextTurn (ls_config st1))) None) (\<lambda>update.
        let st2 = apply_update update st1
        in bindP (optional_call (map_option (\<lambda>f. f (turn_context st2 am toolResults))
                    (cfg_shouldStopAfterTurn (ls_config st2))) False) (\<lambda>stop.
           if stop then bindP (end_run (ls_config st2) (ls_newMessages st2)) (\<lambda>ms. retP (TurnStop ms))
           else bindP (optional_call (cfg_getSteeringMessages (ls_config st2)) []) (\<lambda>steering.
             retP (TurnNext (st2\<lparr>ls_pending := steering\<rparr>)))))))"

text \<open>One iteration of the inner loop.\<close>

definition run_turn :: "nat \<Rightarrow> 'w loop_state \<Rightarrow> ('w, 'w turn_result) prog" where
  "run_turn fuel st0 =
     bindP (inject_pending st0) (\<lambda>st.
     bindP (streamAssistantResponse (ls_config st) fuel (ls_context st)) (\<lambda>(am, ctx).
     let st1 = st\<lparr>ls_context := ctx, ls_newMessages := ls_newMessages st @ [assistant_msg am]\<rparr>
     in if am_stopReason am = Error \<or> am_stopReason am = Aborted then
          bindP (emit (ls_config st1) (TurnEnd (assistant_msg am) [])) (\<lambda>_.
          bindP (end_run (ls_config st1) (ls_newMessages st1)) (\<lambda>ms. retP (TurnStop ms)))
        else after_response st1 am))"

text \<open>
  Both loops: a turn while there are tool calls or pending messages, else the follow-up
  messages; the fuel bounds the turns, and the events of one response.
\<close>

fun loop_turns :: "nat \<Rightarrow> 'w loop_state \<Rightarrow> ('w, agent_message list) prog" where
  "loop_turns 0 st = hangP"
| "loop_turns (Suc fuel) st =
     (if ls_hasMoreToolCalls st \<or> ls_pending st \<noteq> [] then
        bindP (run_turn fuel st) (\<lambda>r.
          case r of TurnStop ms \<Rightarrow> retP ms | TurnNext st' \<Rightarrow> loop_turns fuel st')
      else
        bindP (optional_call (cfg_getFollowUpMessages (ls_config st)) []) (\<lambda>followUp.
          if followUp \<noteq> [] then
            loop_turns fuel (st\<lparr>ls_pending := followUp, ls_hasMoreToolCalls := True\<rparr>)
          else end_run (ls_config st) (ls_newMessages st)))"

definition runLoop ::
    "nat \<Rightarrow> 'w AgentLoopConfig \<Rightarrow> 'w AgentContext \<Rightarrow> agent_message list \<Rightarrow> ('w, agent_message list) prog" where
  "runLoop fuel cfg ctx newMessages =
     bindP (optional_call (cfg_getSteeringMessages cfg) []) (\<lambda>pending.
       loop_turns fuel
         \<lparr>ls_context = ctx, ls_config = cfg, ls_firstTurn = True, ls_pending = pending,
          ls_hasMoreToolCalls = True, ls_newMessages = newMessages\<rparr>)"

definition runAgentLoop ::
    "nat \<Rightarrow> agent_message list \<Rightarrow> 'w AgentContext \<Rightarrow> 'w AgentLoopConfig \<Rightarrow> ('w, agent_message list) prog" where
  "runAgentLoop fuel prompts ctx cfg =
     bindP (emit cfg AgentStart) (\<lambda>_.
     bindP (emit cfg TurnStart) (\<lambda>_.
     bindP (forP (emit_message cfg) prompts) (\<lambda>_.
       runLoop fuel cfg (ctx\<lparr>ctx_messages := ctx_messages ctx @ prompts\<rparr>) prompts)))"

definition runAgentLoopContinue ::
    "nat \<Rightarrow> 'w AgentContext \<Rightarrow> 'w AgentLoopConfig \<Rightarrow> ('w, agent_message list) prog" where
  "runAgentLoopContinue fuel ctx cfg =
     (if ctx_messages ctx = [] then throwP (js ''Cannot continue: no messages in context'')
      else if is_assistant (last (ctx_messages ctx))
      then throwP (js ''Cannot continue from message role: assistant'')
      else
        bindP (emit cfg AgentStart) (\<lambda>_.
        bindP (emit cfg TurnStart) (\<lambda>_. runLoop fuel cfg ctx [])))"

end
