(* ===== verification/AgentTrace.thy ===== *)
theory AgentTrace
  imports AgentLoop "HOL-Library.Sublist"
begin

text \<open>
  The protocol of the agent's events as an automaton, triples that relate a program to it, and the
  theorems on the loop: every run keeps the protocol, its transcript consists of whole turns, and
  every tool call is answered in order, whatever the interleaving of the running tools.
\<close>

section \<open>The event protocol\<close>

text \<open>
  Where a consumer of the events stands: before the run, between turns, inside a turn with the
  identifiers of the running tools, inside a message, after the run. A message may start again,
  since a provider may send a second \<open>start\<close> event.
\<close>

datatype phase =
    PStart
  | PBetween
  | PTurn "jstring multiset"
  | PMessage "jstring multiset"
  | PEnd "agent_message list"

fun phase_step :: "phase \<Rightarrow> AgentEvent \<Rightarrow> phase option" where
  "phase_step PStart AgentStart = Some PBetween"
| "phase_step PBetween TurnStart = Some (PTurn {#})"
| "phase_step PBetween (AgentEnd ms) = Some (PEnd ms)"
| "phase_step (PTurn ts) (MessageStart m) = Some (PMessage ts)"
| "phase_step (PMessage ts) (MessageStart m) = Some (PMessage ts)"
| "phase_step (PMessage ts) (MessageUpdate m e) = Some (PMessage ts)"
| "phase_step (PMessage ts) (MessageEnd m) = Some (PTurn ts)"
| "phase_step (PTurn ts) (ToolExecutionStart i n a) = Some (PTurn (add_mset i ts))"
| "phase_step (PTurn ts) (ToolExecutionUpdate i n a r) = (if i \<in># ts then Some (PTurn ts) else None)"
| "phase_step (PTurn ts) (ToolExecutionEnd i n r e) = (if i \<in># ts then Some (PTurn (ts - {#i#})) else None)"
| "phase_step (PTurn ts) (TurnEnd m rs) = (if ts = {#} then Some PBetween else None)"
| "phase_step _ _ = None"

fun run_phase :: "phase \<Rightarrow> AgentEvent list \<Rightarrow> phase option" where
  "run_phase ph [] = Some ph"
| "run_phase ph (ev # evs) = (case phase_step ph ev of None \<Rightarrow> None | Some ph' \<Rightarrow> run_phase ph' evs)"

text \<open>The messages that ended, in order.\<close>

fun ends :: "AgentEvent list \<Rightarrow> agent_message list" where
  "ends [] = []"
| "ends (MessageEnd m # evs) = m # ends evs"
| "ends (_ # evs) = ends evs"

lemma run_phase_append:
  "run_phase ph (xs @ ys) = (case run_phase ph xs of None \<Rightarrow> None | Some ph' \<Rightarrow> run_phase ph' ys)"
  by (induction xs arbitrary: ph) (auto split: option.splits)

lemma ends_append [simp]: "ends (xs @ ys) = ends xs @ ends ys"
  by (induction xs rule: ends.induct) auto

section \<open>Triples\<close>

text \<open>
  \<open>traces m ph Q\<close>: started in phase \<open>ph\<close>, the events of \<open>m\<close> keep the protocol whatever its outcome,
  and when it returns \<open>x\<close> in phase \<open>ph'\<close> with ended messages \<open>ms\<close>, then \<open>Q x ph' ms\<close>.
\<close>

definition traces :: "('w, 'a) prog \<Rightarrow> phase \<Rightarrow> ('a \<Rightarrow> phase \<Rightarrow> agent_message list \<Rightarrow> bool) \<Rightarrow> bool" where
  "traces m ph Q \<longleftrightarrow>
     yields m (\<lambda>r evs. \<exists>ph'. run_phase ph evs = Some ph' \<and> (\<forall>x. r = Done x \<longrightarrow> Q x ph' (ends evs)))"

lemma traces_mono:
  assumes "traces m ph Q" and "\<And>x ph' ms. Q x ph' ms \<Longrightarrow> R x ph' ms"
  shows "traces m ph R"
  unfolding traces_def
  by (rule yields_mono [OF assms(1) [unfolded traces_def]]) (metis assms(2))

lemma traces_ret: "Q x ph [] \<Longrightarrow> traces (retP x) ph Q"
  by (auto simp: traces_def intro: yields_ret)

lemma traces_hang: "traces hangP ph Q"
  by (auto simp: traces_def intro: yields_hang)

lemma traces_throw: "traces (throwP msg) ph Q"
  by (auto simp: traces_def intro: yields_throw)

lemma traces_call: "(\<And>x. Q x ph []) \<Longrightarrow> traces (callP c) ph Q"
  by (auto simp: traces_def intro: yields_call)

lemma traces_call_when: "(\<And>w x w'. c w = (Done x, w') \<Longrightarrow> Q x ph []) \<Longrightarrow> traces (callP c) ph Q"
  unfolding traces_def by (rule yields_call_when) auto

lemma traces_emit:
  "(case phase_step ph ev of None \<Rightarrow> False | Some ph' \<Rightarrow> Q () ph' (ends [ev])) \<Longrightarrow> traces (emitP sink ev) ph Q"
  by (auto simp: traces_def intro!: yields_emit split: option.splits)

lemma traces_bind:
  assumes "traces m ph Q" and "\<And>x ph' ms. Q x ph' ms \<Longrightarrow> traces (f x) ph' (\<lambda>y ph'' ms'. R y ph'' (ms @ ms'))"
  shows "traces (bindP m f) ph R"
  unfolding traces_def
proof (rule yieldsI)
  fix w tr r w' tr'
  assume b: "bindP m f (w, tr) = (r, w', tr')"
  obtain r1 w1 tr1 where m: "m (w, tr) = (r1, w1, tr1)" by (metis prod_cases3)
  obtain evs ph1 where evs: "tr1 = tr @ evs" "run_phase ph evs = Some ph1"
    "\<forall>x. r1 = Done x \<longrightarrow> Q x ph1 (ends evs)"
    using yieldsD [OF assms(1) [unfolded traces_def] m] by blast
  show "\<exists>evs. tr' = tr @ evs \<and>
      (\<exists>ph'. run_phase ph evs = Some ph' \<and> (\<forall>x. r = Done x \<longrightarrow> R x ph' (ends evs)))"
  proof (cases r1)
    case (Done x)
    with b m have f: "f x (w1, tr1) = (r, w', tr')" by (simp add: bindP_def)
    have "traces (f x) ph1 (\<lambda>y ph'' ms'. R y ph'' (ends evs @ ms'))" using assms(2) evs(3) Done by blast
    from yieldsD [OF this [unfolded traces_def] f] obtain evs' ph' where
      "tr' = tr1 @ evs'" "run_phase ph1 evs' = Some ph'" "\<forall>y. r = Done y \<longrightarrow> R y ph' (ends evs @ ends evs')"
      by blast
    with evs show ?thesis by (intro exI [of _ "evs @ evs'"]) (simp add: run_phase_append)
  qed (use b m evs in \<open>auto simp: bindP_def\<close>)
qed

text \<open>The same as a weakest precondition: the middle assertion is what the rest needs.\<close>

lemma traces_seq:
  "traces m ph (\<lambda>x ph' ms. traces (f x) ph' (\<lambda>y ph'' ms'. R y ph'' (ms @ ms'))) \<Longrightarrow> traces (bindP m f) ph R"
  by (erule traces_bind)

lemmas traces_rules = traces_seq traces_ret traces_hang traces_throw traces_call traces_emit

text \<open>A program that emits nothing, such as a hook\<close>

definition silent :: "('w, 'a) prog \<Rightarrow> ('a \<Rightarrow> bool) \<Rightarrow> bool" where
  "silent m Q \<longleftrightarrow> yields m (\<lambda>r evs. evs = [] \<and> (\<forall>x. r = Done x \<longrightarrow> Q x))"

lemma silent_ret: "Q x \<Longrightarrow> silent (retP x) Q"
  by (auto simp: silent_def intro: yields_ret)

lemma silent_call: "(\<And>x. Q x) \<Longrightarrow> silent (callP c) Q"
  by (auto simp: silent_def intro: yields_call)

lemma silent_sum: "(\<And>x. r = Inr x \<Longrightarrow> Q x) \<Longrightarrow> silent (sumP r) Q"
  by (auto simp: silent_def intro: yields_sum)

lemma silent_bind:
  assumes "silent m P" and "\<And>x. P x \<Longrightarrow> silent (f x) Q"
  shows "silent (bindP m f) Q"
  unfolding silent_def
proof (rule yieldsI)
  fix w tr r w' tr'
  assume b: "bindP m f (w, tr) = (r, w', tr')"
  note m = assms(1) [unfolded silent_def] and f = assms(2) [unfolded silent_def]
  obtain r1 w1 tr1 where m1: "m (w, tr) = (r1, w1, tr1)" by (metis prod_cases3)
  have 1: "tr1 = tr" "\<forall>x. r1 = Done x \<longrightarrow> P x" using yieldsD [OF m m1] by auto
  show "\<exists>evs. tr' = tr @ evs \<and> evs = [] \<and> (\<forall>x. r = Done x \<longrightarrow> Q x)"
  proof (cases r1)
    case (Done x)
    with b m1 1 have "f x (w1, tr) = (r, w', tr')" by (simp add: bindP_def)
    moreover have "P x" using 1(2) Done by simp
    ultimately show ?thesis using yieldsD [OF f] by simp
  qed (use b m1 1 in \<open>auto simp: bindP_def\<close>)
qed

lemma silent_try: "silent m Q \<Longrightarrow> (\<And>msg. silent (h msg) Q) \<Longrightarrow> silent (tryP m h) Q"
  unfolding silent_def by (rule yields_try [where P = "\<lambda>r evs. evs = [] \<and> (\<forall>x. r = Done x \<longrightarrow> Q x)"]) auto

lemma traces_silent: "silent m P \<Longrightarrow> (\<And>x. P x \<Longrightarrow> Q x ph []) \<Longrightarrow> traces m ph Q"
  unfolding silent_def traces_def by (erule yields_mono) auto

lemma silent_triple: "silent m P \<Longrightarrow> traces m ph (\<lambda>x ph' ms. P x \<and> ph' = ph \<and> ms = [])"
  by (erule traces_silent) simp

lemma traces_for:
  assumes "\<And>x. x \<in> set xs \<Longrightarrow> traces (f x) ph (\<lambda>_ ph' ms. ph' = ph \<and> ms = g x)"
  shows "traces (forP f xs) ph (\<lambda>_ ph' ms. ph' = ph \<and> ms = concat (map g xs))"
  using assms
proof (induction xs)
  case (Cons x xs)
  have 1: "traces (f x) ph (\<lambda>_ ph' ms. ph' = ph \<and> ms = g x)" by (rule Cons.prems) simp
  have 2: "traces (forP f xs) ph (\<lambda>_ ph' ms. ph' = ph \<and> ms = concat (map g xs))"
    by (rule Cons.IH, rule Cons.prems) simp
  show ?case
    unfolding forP.simps by (rule traces_bind [OF 1], clarify, rule traces_mono [OF 2]) simp
qed (simp add: traces_ret)

section \<open>Messages and responses\<close>

lemma emit_message_traces:
  "traces (emit_message cfg m) (PTurn ts) (\<lambda>_ ph ms. ph = PTurn ts \<and> ms = [m])"
  unfolding emit_message_def emit_def by (intro traces_rules) (simp, intro traces_rules, simp)

lemma emit_messages_traces:
  "traces (forP (emit_message cfg) ms) (PTurn ts) (\<lambda>_ ph ms'. ph = PTurn ts \<and> ms' = ms)"
  by (rule traces_mono [OF traces_for [OF emit_message_traces]]) auto

text \<open>Inside a response: a message has started exactly when a partial message was added.\<close>

definition stream_phase :: "jstring multiset \<Rightarrow> bool \<Rightarrow> phase" where
  "stream_phase ts addedPartial = (if addedPartial then PMessage ts else PTurn ts)"

lemma finish_stream_traces:
  "traces (finish_stream cfg messages addedPartial) (stream_phase ts addedPartial)
     (\<lambda>fm ph ms. ph = PTurn ts \<and> ms = [assistant_msg (fst fm)])"
  unfolding finish_stream_def emit_def stream_phase_def
  by (cases addedPartial) (auto intro!: traces_rules)

lemma stream_loop_traces:
  "traces (stream_loop cfg fuel messages addedPartial) (stream_phase ts addedPartial)
     (\<lambda>fm ph ms. ph = PTurn ts \<and> ms = [assistant_msg (fst fm)])"
proof (induction fuel arbitrary: messages addedPartial)
  case (Suc fuel)
  note 1 = finish_stream_traces [of cfg messages addedPartial ts]
  note 2 = Suc.IH [of _ True, unfolded stream_phase_def if_True]
  note 3 = Suc.IH [of _ False, unfolded stream_phase_def if_False]
  show ?case
    unfolding stream_loop.simps emit_def
    by (intro traces_seq traces_call)
      (cases addedPartial; use 1 2 3 in \<open>auto simp: stream_phase_def intro!: traces_seq traces_emit
        split: option.split AssistantMessageEvent.split\<close>)
qed (simp add: traces_hang)

lemma resolve_key_silent: "silent (resolve_key cfg) (\<lambda>_. True)"
  unfolding resolve_key_def by (auto intro!: silent_ret silent_bind [OF silent_call] split: option.split)

lemma streamAssistantResponse_traces:
  "traces (streamAssistantResponse cfg fuel ctx) (PTurn ts)
     (\<lambda>fc ph ms. ph = PTurn ts \<and> ms = [assistant_msg (fst fc)])"
proof -
  note 1 = stream_loop_traces [of cfg fuel "ctx_messages ctx" False ts, unfolded stream_phase_def if_False]
  show ?thesis
    unfolding streamAssistantResponse_def
    by (auto intro!: traces_seq traces_call traces_ret traces_silent [OF resolve_key_silent]
        traces_mono [OF 1] split: option.split)
qed

section \<open>Tool calls\<close>

lemma abort_check_silent:
  "silent (abort_check cfg p) (\<lambda>p'. p' = p \<or> (\<exists>r. p' = Immediate r True))"
  unfolding abort_check_def abortedP_def by (intro silent_bind [OF silent_call] silent_ret) auto

text \<open>A call that is prepared for execution is the call of the response itself.\<close>

fun prepares :: "ToolCall \<Rightarrow> 'w preparation \<Rightarrow> bool" where
  "prepares tc (Prepared tc' tool args) = (tc' = tc)"
| "prepares tc (Immediate r e) = True"

lemma prepareToolCall_silent: "silent (prepareToolCall cfg ctx am tc) (prepares tc)"
proof -
  have ac: "prepares tc p \<Longrightarrow> silent (abort_check cfg p) (prepares tc)" for p :: "'a preparation"
    using abort_check_silent unfolding silent_def by (rule yields_mono) auto
  show ?thesis
    unfolding prepareToolCall_def
    by (auto split: option.split prod.split intro!: silent_ret silent_try
        silent_bind [OF silent_sum [where Q = "\<lambda>_. True"]]
        silent_bind [OF silent_call [where Q = "\<lambda>_. True"]] ac)
qed

lemma settle_silent: "silent (settle out) (\<lambda>_. True)"
  by (cases out) (auto simp: settle_def silent_def intro: yields_ret yields_hang)

lemma start_call_silent: "silent (start_call tc tool args) (\<lambda>_. True)"
  by (simp add: start_call_def silent_call)

lemma finalizeExecutedToolCall_silent:
  "silent (finalizeExecutedToolCall cfg ctx am tc args executed) (\<lambda>f. fin_toolCall f = tc)"
  unfolding finalizeExecutedToolCall_def
  by (cases executed)
    (auto split: option.split intro!: silent_ret silent_try silent_bind [OF silent_call [where Q = "\<lambda>_. True"]])

definition call_key :: "ToolCall \<Rightarrow> jstring \<times> jstring" where
  "call_key tc = (tc_id tc, tc_name tc)"

definition result_key :: "ToolResultMessage \<Rightarrow> jstring \<times> jstring" where
  "result_key m = (trm_toolCallId m, trm_toolName m)"

lemma createToolResultMessage_silent:
  "silent (createToolResultMessage cfg f) (\<lambda>m. result_key m = call_key (fin_toolCall f))"
  unfolding createToolResultMessage_def nowP_def
  by (rule silent_bind [OF silent_call [where Q = "\<lambda>_. True"]], simp)
    (auto intro!: silent_ret simp: result_key_def call_key_def)

lemma emit_update_traces:
  "tc_id tc \<in># ts \<Longrightarrow> traces (emit_update cfg tc u) (PTurn ts) (\<lambda>_ ph ms. ph = PTurn ts \<and> ms = [])"
  by (simp add: emit_update_def emit_def traces_emit)

lemma emit_updates_traces:
  "tc_id tc \<in># ts \<Longrightarrow>
   traces (forP (emit_update cfg tc) us) (PTurn ts) (\<lambda>_ ph ms. ph = PTurn ts \<and> ms = [])"
  by (rule traces_mono [OF traces_for [OF emit_update_traces]]) auto

lemma emit_start_traces:
  "traces (emit_start cfg tc) (PTurn ts) (\<lambda>_ ph ms. ph = PTurn (add_mset (tc_id tc) ts) \<and> ms = [])"
  by (simp add: emit_start_def emit_def traces_emit)

lemma emitToolExecutionEnd_traces:
  "traces (emitToolExecutionEnd cfg f) (PTurn (add_mset (tc_id (fin_toolCall f)) ts))
     (\<lambda>_ ph ms. ph = PTurn ts \<and> ms = [])"
  by (simp add: emitToolExecutionEnd_def emit_def traces_emit)

lemma executePreparedToolCall_traces:
  "tc_id tc \<in># ts \<Longrightarrow> traces (executePreparedToolCall cfg tc tool args) (PTurn ts) (\<lambda>_ ph ms. ph = PTurn ts \<and> ms = [])"
  unfolding executePreparedToolCall_def
  by (rule traces_bind [OF silent_triple [OF start_call_silent]])
    (auto split: prod.split intro!: traces_bind [OF emit_updates_traces] traces_mono [OF silent_triple [OF settle_silent]])

lemma result_message_traces:
  "traces (result_message cfg f) (PTurn ts)
     (\<lambda>m ph ms. ph = PTurn ts \<and> ms = [Msg (ToolResult m)] \<and> result_key m = call_key (fin_toolCall f))"
  unfolding result_message_def emitToolResultMessage_def
  by (rule traces_bind [OF silent_triple [OF createToolResultMessage_silent]])
    (auto intro!: traces_bind [OF emit_message_traces] traces_ret)

lemma run_call_traces:
  "traces (run_call cfg ctx am tc) (PTurn ts)
     (\<lambda>r ph ms. ph = PTurn ts \<and> ms = [Msg (ToolResult (snd r))] \<and> result_key (snd r) = call_key tc \<and>
       fin_toolCall (fst r) = tc)"
proof -
  let ?Q = "\<lambda>f ph ms. ph = PTurn (add_mset (tc_id tc) ts) \<and> ms = [] \<and> fin_toolCall f = tc"
  have ex: "traces (bindP (executePreparedToolCall cfg tc tool args) (finalizeExecutedToolCall cfg ctx am tc args))
      (PTurn (add_mset (tc_id tc) ts)) ?Q" for tool args
    by (rule traces_bind [OF executePreparedToolCall_traces])
      (auto intro!: traces_mono [OF silent_triple [OF finalizeExecutedToolCall_silent]])
  have prep: "prepares tc p \<Longrightarrow> traces (case p of
       Immediate result isError \<Rightarrow> retP \<lparr>fin_toolCall = tc, fin_result = result, fin_isError = isError\<rparr>
     | Prepared tc' tool args \<Rightarrow>
         bindP (executePreparedToolCall cfg tc' tool args) (finalizeExecutedToolCall cfg ctx am tc' args))
      (PTurn (add_mset (tc_id tc) ts)) ?Q" for p
    by (cases p) (auto intro: ex traces_ret)
  show ?thesis
    unfolding run_call_def
    apply (rule traces_bind [OF emit_start_traces], clarify)
    apply (rule traces_bind [OF silent_triple [OF prepareToolCall_silent]], clarify)
    apply (rule traces_bind [OF prep], assumption, clarify)
    apply (rule traces_bind [OF emitToolExecutionEnd_traces], clarify)
    apply (rule traces_bind [OF silent_triple [OF createToolResultMessage_silent]], clarify)
    unfolding emitToolResultMessage_def
    by (rule traces_bind [OF emit_message_traces]) (simp add: traces_ret)
qed

text \<open>
  \<open>answers cfg tcs ms\<close>: the result messages answer the calls in order, from the first on; all of
  them when the run is never aborted.
\<close>

definition answers :: "'w AgentLoopConfig \<Rightarrow> ToolCall list \<Rightarrow> ToolResultMessage list \<Rightarrow> bool" where
  "answers cfg tcs ms \<longleftrightarrow>
     prefix (map result_key ms) (map call_key tcs) \<and> (tcs \<noteq> [] \<longrightarrow> ms \<noteq> []) \<and>
     ((\<forall>w. \<not> cfg_aborted cfg w) \<longrightarrow> length ms = length tcs)"

abbreviation tool_result_msg :: "ToolResultMessage \<Rightarrow> agent_message" where
  "tool_result_msg m \<equiv> Msg (ToolResult m)"

lemma traces_abortedP:
  "traces (abortedP cfg) ph (\<lambda>a ph' ms. ph' = ph \<and> ms = [] \<and> (a \<longrightarrow> (\<exists>w. cfg_aborted cfg w)))"
  unfolding abortedP_def by (rule traces_call_when) auto

lemma sequential_loop_traces:
  "traces (sequential_loop cfg ctx am tcs) (PTurn ts)
     (\<lambda>rs ph ms. ph = PTurn ts \<and> ms = map (tool_result_msg \<circ> snd) rs \<and> answers cfg tcs (map snd rs))"
proof (induction tcs)
  case (Cons tc tcs)
  show ?case
    unfolding sequential_loop.simps
    apply (rule traces_bind [OF run_call_traces], clarify)
    apply (rule traces_bind [OF traces_abortedP], clarify)
    subgoal for r ma aborted
      by (cases aborted) (auto simp: answers_def intro!: traces_ret traces_bind [OF Cons.IH])
    done
qed (simp add: traces_ret answers_def)

text \<open>The call a state of the parallel batch is about, and its identifier while it is running.\<close>

fun state_call :: "'w call_state \<Rightarrow> ToolCall" where
  "state_call (Finished f) = fin_toolCall f"
| "state_call (NotStarted tc tool args) = tc"
| "state_call (Running tc args us out) = tc"

fun open_call :: "'w call_state \<Rightarrow> jstring multiset" where
  "open_call (Finished f) = {#}"
| "open_call (NotStarted tc tool args) = {#tc_id tc#}"
| "open_call (Running tc args us out) = {#tc_id tc#}"

definition open_calls :: "'w call_state list \<Rightarrow> jstring multiset" where
  "open_calls cs = sum_list (map open_call cs)"

lemma open_calls_Cons [simp]: "open_calls [] = {#}" "open_calls (c # cs) = open_call c + open_calls cs"
  by (simp_all add: open_calls_def)

lemma open_calls_split:
  assumes "i < length cs"
  shows "open_calls (cs[i := c]) = open_calls (take i cs @ drop (Suc i) cs) + open_call c"
    and "open_calls cs = open_calls (take i cs @ drop (Suc i) cs) + open_call (cs ! i)"
proof -
  show "open_calls (cs[i := c]) = open_calls (take i cs @ drop (Suc i) cs) + open_call c"
    using assms by (simp add: upd_conv_take_nth_drop open_calls_def ac_simps)
  show "open_calls cs = open_calls (take i cs @ drop (Suc i) cs) + open_call (cs ! i)"
    by (subst id_take_nth_drop [OF assms]) (simp add: open_calls_def ac_simps)
qed

lemma parallel_prepare_traces:
  "traces (parallel_prepare cfg ctx am tcs) (PTurn ts)
     (\<lambda>cs ph ms. ph = PTurn (ts + open_calls cs) \<and> ms = [] \<and> prefix (map state_call cs) tcs \<and>
       (tcs \<noteq> [] \<longrightarrow> cs \<noteq> []) \<and> ((\<forall>w. \<not> cfg_aborted cfg w) \<longrightarrow> length cs = length tcs))"
proof (induction tcs arbitrary: ts)
  case (Cons tc tcs)
  have ee: "fin_toolCall f = tc \<Longrightarrow>
      traces (emitToolExecutionEnd cfg f) (PTurn (add_mset (tc_id tc) ts)) (\<lambda>_ ph ms. ph = PTurn ts \<and> ms = [])" for f
    using emitToolExecutionEnd_traces by metis
  have prep: "prepares tc p \<Longrightarrow> traces (case p of
       Immediate result isError \<Rightarrow>
         (let finalized = \<lparr>fin_toolCall = tc, fin_result = result, fin_isError = isError\<rparr>
          in bindP (emitToolExecutionEnd cfg finalized) (\<lambda>_. retP (Finished finalized)))
     | Prepared tc' tool args \<Rightarrow> retP (NotStarted tc' tool args))
      (PTurn (add_mset (tc_id tc) ts))
      (\<lambda>c ph ms. ph = PTurn (ts + open_call c) \<and> ms = [] \<and> state_call c = tc)" for p
    by (cases p) (auto simp: Let_def intro!: traces_ret traces_bind [OF ee])
  show ?case
    unfolding parallel_prepare.simps
    apply (rule traces_bind [OF emit_start_traces], clarify)
    apply (rule traces_bind [OF silent_triple [OF prepareToolCall_silent]], clarify)
    apply (rule traces_bind [OF prep], assumption, clarify)
    apply (rule traces_bind [OF traces_abortedP], clarify)
    subgoal for p c aborted
      by (cases aborted) (auto intro!: traces_ret traces_bind [OF Cons.IH] simp: ac_simps)
    done
qed (simp add: traces_ret)

lemma finish_call_traces:
  "traces (finish_call cfg ctx am tc args out) (PTurn (add_mset (tc_id tc) ts))
     (\<lambda>f ph ms. ph = PTurn ts \<and> ms = [] \<and> fin_toolCall f = tc)"
  unfolding finish_call_def
  apply (rule traces_bind [OF silent_triple [OF settle_silent]], clarify)
  apply (rule traces_bind [OF silent_triple [OF finalizeExecutedToolCall_silent]], clarify)
  by (rule traces_bind [OF emitToolExecutionEnd_traces]) (simp add: traces_ret)

lemma step_call_traces:
  "traces (step_call cfg ctx am c) (PTurn (ts + open_call c))
     (\<lambda>c' ph ms. ph = PTurn (ts + open_call c') \<and> ms = [] \<and> state_call c' = state_call c)"
proof (cases c)
  case (NotStarted tc tool args)
  then show ?thesis unfolding step_call_def
    by (auto split: prod.split intro!: traces_bind [OF silent_triple [OF start_call_silent]] traces_ret)
next
  case (Running tc args us out)
  then show ?thesis unfolding step_call_def
    by (cases us) (auto intro!: traces_bind [OF finish_call_traces] traces_bind [OF emit_update_traces] traces_ret)
qed (simp add: step_call_def traces_ret)

lemma run_schedule_traces:
  "traces (run_schedule cfg ctx am is cs) (PTurn (ts + open_calls cs))
     (\<lambda>cs' ph ms. ph = PTurn (ts + open_calls cs') \<and> ms = [] \<and> map state_call cs' = map state_call cs)"
proof (induction "is" arbitrary: cs)
  case (Cons i "is")
  show ?case
  proof (cases "i < length cs")
    case True
    let ?ts = "ts + open_calls (take i cs @ drop (Suc i) cs)"
    have s: "traces (step_call cfg ctx am (cs ! i)) (PTurn (ts + open_calls cs))
        (\<lambda>c' ph ms. ph = PTurn (ts + open_calls (cs[i := c'])) \<and> ms = [] \<and> state_call c' = state_call (cs ! i))"
      using step_call_traces [of cfg ctx am "cs ! i" ?ts] True
      by (simp add: open_calls_split ac_simps)
    show ?thesis
      unfolding run_schedule.simps if_P [OF True]
      apply (rule traces_bind [OF s], clarify)
      apply (rule traces_mono [OF Cons.IH])
      using True by (simp add: map_update) (metis list_update_id map_update nth_map)
  next
    case False
    then show ?thesis using Cons.IH by simp
  qed
qed (simp add: traces_ret)

lemma complete_call_traces:
  "traces (complete_call cfg ctx am c) (PTurn (ts + open_call c))
     (\<lambda>f ph ms. ph = PTurn ts \<and> ms = [] \<and> fin_toolCall f = state_call c)"
proof -
  have u: "traces (bindP (forP (emit_update cfg tc) us) (\<lambda>_. finish_call cfg ctx am tc args out))
      (PTurn (add_mset (tc_id tc) ts)) (\<lambda>f ph ms. ph = PTurn ts \<and> ms = [] \<and> fin_toolCall f = tc)"
    for tc us args out
    by (rule traces_bind [OF emit_updates_traces]) (auto intro: finish_call_traces)
  show ?thesis
    by (cases c) (auto simp: complete_call_def split: prod.split
        intro!: u traces_ret traces_bind [OF silent_triple [OF start_call_silent]])
qed

lemma complete_calls_traces:
  "traces (mapP (complete_call cfg ctx am) cs) (PTurn (ts + open_calls cs))
     (\<lambda>fs ph ms. ph = PTurn ts \<and> ms = [] \<and> map fin_toolCall fs = map state_call cs)"
proof (induction cs)
  case (Cons c cs)
  have 1: "traces (complete_call cfg ctx am c) (PTurn (ts + open_calls (c # cs)))
     (\<lambda>f ph ms. ph = PTurn (ts + open_calls cs) \<and> ms = [] \<and> fin_toolCall f = state_call c)"
    using complete_call_traces [of cfg ctx am c "ts + open_calls cs"] by (simp add: ac_simps)
  show ?case
    unfolding mapP.simps
    by (rule traces_bind [OF 1], clarify, rule traces_bind [OF Cons.IH]) (simp add: traces_ret)
qed (simp add: traces_ret)

lemma result_messages_traces:
  "traces (mapP (result_message cfg) fs) (PTurn ts)
     (\<lambda>rs ph ms. ph = PTurn ts \<and> ms = map tool_result_msg rs \<and> map result_key rs = map (call_key \<circ> fin_toolCall) fs)"
proof (induction fs)
  case (Cons f fs)
  show ?case
    unfolding mapP.simps
    by (rule traces_bind [OF result_message_traces], clarify, rule traces_bind [OF Cons.IH]) (simp add: traces_ret)
qed (simp add: traces_ret)

lemma executeToolCallsParallel_traces:
  "traces (executeToolCallsParallel cfg ctx am tcs) (PTurn {#})
     (\<lambda>r ph ms. ph = PTurn {#} \<and> ms = map tool_result_msg (fst r) \<and> answers cfg tcs (fst r))"
proof -
  note pp = parallel_prepare_traces [of cfg ctx am tcs "{#}", unfolded add_0]
  have rs: "traces (run_schedule cfg ctx am is cs) (PTurn (open_calls cs))
     (\<lambda>cs' ph ms. ph = PTurn (open_calls cs') \<and> ms = [] \<and> map state_call cs' = map state_call cs)" for "is" cs
    using run_schedule_traces [of cfg ctx am "is" cs "{#}"] by simp
  have cc: "traces (mapP (complete_call cfg ctx am) cs) (PTurn (open_calls cs))
     (\<lambda>fs ph ms. ph = PTurn {#} \<and> ms = [] \<and> map fin_toolCall fs = map state_call cs)" for cs
    using complete_calls_traces [of cfg ctx am cs "{#}"] by simp
  have ans: "answers cfg tcs ms"
    if "prefix (map state_call cs) tcs" "tcs \<noteq> [] \<longrightarrow> cs \<noteq> []" "(\<forall>w. \<not> cfg_aborted cfg w) \<longrightarrow> length cs = length tcs"
      "map state_call cs' = map state_call cs" "map fin_toolCall fs = map state_call cs'"
      "map result_key ms = map (call_key \<circ> fin_toolCall) fs" for cs cs' :: "'a call_state list" and fs ms
  proof -
    have k: "map result_key ms = map call_key (map state_call cs)"
      using that(4-6) by (metis map_map)
    moreover have "length ms = length cs" using arg_cong [OF k, of length] by simp
    ultimately show ?thesis
      using that(1-3) map_mono_prefix [OF that(1), of call_key] unfolding answers_def by auto
  qed
  show ?thesis
    unfolding executeToolCallsParallel_def
    apply (rule traces_bind [OF pp], clarify)
    apply (rule traces_seq, rule traces_call)
    apply (simp only: append_Nil)
    apply (rule traces_bind [OF rs], clarify)
    apply (rule traces_bind [OF cc], clarify)
    apply (rule traces_bind [OF result_messages_traces], clarify)
    apply (rule traces_ret)
    by (simp, rule ans) simp_all
qed

lemma executeToolCalls_traces:
  "traces (executeToolCalls cfg ctx am) (PTurn {#})
     (\<lambda>r ph ms. ph = PTurn {#} \<and> ms = map tool_result_msg (fst r) \<and>
       answers cfg (tool_calls_of (am_content am)) (fst r))"
  unfolding executeToolCalls_def executeToolCallsSequential_def Let_def
  by (auto intro!: executeToolCallsParallel_traces traces_bind [OF sequential_loop_traces] traces_ret)

section \<open>Turns\<close>

text \<open>A turn: the messages that were pending, the response, the results of its tool calls.\<close>

record turn =
  tn_pending :: "agent_message list"
  tn_response :: AssistantMessage
  tn_results :: "ToolResultMessage list"

definition turn_messages :: "turn \<Rightarrow> agent_message list" where
  "turn_messages t = tn_pending t @ [assistant_msg (tn_response t)] @ map tool_result_msg (tn_results t)"

definition failed_response :: "AssistantMessage \<Rightarrow> bool" where
  "failed_response m \<longleftrightarrow> am_stopReason m = Error \<or> am_stopReason m = Aborted"

text \<open>A turn that was carried out; a turn whose response failed has no results.\<close>

definition completed_turn :: "'w AgentLoopConfig \<Rightarrow> turn \<Rightarrow> bool" where
  "completed_turn cfg t \<longleftrightarrow>
     \<not> failed_response (tn_response t) \<and>
     answers cfg (tool_calls_of (am_content (tn_response t))) (tn_results t)"

definition failed_turn :: "turn \<Rightarrow> bool" where
  "failed_turn t \<longleftrightarrow> failed_response (tn_response t) \<and> tn_results t = []"

text \<open>
  The turns of a run: only the last may have failed, and a turn follows another only to hand in
  its tool results or to bring a pending message.
\<close>

fun turns_ok :: "'w AgentLoopConfig \<Rightarrow> turn list \<Rightarrow> bool" where
  "turns_ok cfg [] = True"
| "turns_ok cfg [t] = (completed_turn cfg t \<or> failed_turn t)"
| "turns_ok cfg (t # t' # ts) =
     (completed_turn cfg t \<and> (tn_results t \<noteq> [] \<or> tn_pending t' \<noteq> []) \<and> turns_ok cfg (t' # ts))"

definition run_messages :: "turn list \<Rightarrow> agent_message list" where
  "run_messages ts = concat (map turn_messages ts)"

lemma run_messages_simps [simp]:
  "run_messages [] = []" "run_messages (t # ts) = turn_messages t @ run_messages ts"
  by (simp_all add: run_messages_def)

lemma completed_turn_cong:
  "cfg_aborted cfg = cfg_aborted cfg' \<Longrightarrow> completed_turn cfg = completed_turn cfg'"
  by (rule ext) (simp add: completed_turn_def answers_def)

lemma turns_ok_cong: "cfg_aborted cfg = cfg_aborted cfg' \<Longrightarrow> turns_ok cfg ts = turns_ok cfg' ts"
  by (induction cfg ts rule: turns_ok.induct) (auto dest: completed_turn_cong)

definition loop_phase :: "'w loop_state \<Rightarrow> phase" where
  "loop_phase st = (if ls_firstTurn st then PTurn {#} else PBetween)"

definition turn_post ::
    "'w loop_state \<Rightarrow> 'w turn_result \<Rightarrow> phase \<Rightarrow> agent_message list \<Rightarrow> turn \<Rightarrow> bool" where
  "turn_post st r ph ms t \<longleftrightarrow>
     ms = turn_messages t \<and>
     (case r of
        TurnStop new \<Rightarrow>
          ph = PEnd new \<and> new = ls_newMessages st @ ms \<and>
          (completed_turn (ls_config st) t \<or> failed_turn t)
      | TurnNext st' \<Rightarrow>
          ph = PBetween \<and> ls_newMessages st' = ls_newMessages st @ ms \<and> \<not> ls_firstTurn st' \<and>
          cfg_aborted (ls_config st') = cfg_aborted (ls_config st) \<and>
          completed_turn (ls_config st) t \<and> (ls_hasMoreToolCalls st' \<longrightarrow> tn_results t \<noteq> []))"

lemma inject_pending_traces:
  "traces (inject_pending st) (loop_phase st)
     (\<lambda>st' ph ms. ph = PTurn {#} \<and> ms = ls_pending st \<and>
        st' = (add_messages (ls_pending st) st)\<lparr>ls_firstTurn := False, ls_pending := []\<rparr>)"
proof -
  have 1: "traces (if ls_firstTurn st then retP () else emit (ls_config st) TurnStart) (loop_phase st)
      (\<lambda>_ ph ms. ph = PTurn {#} \<and> ms = [])"
    by (auto simp: loop_phase_def emit_def intro!: traces_ret traces_emit)
  show ?thesis
    unfolding inject_pending_def
    by (rule traces_bind [OF 1], clarify, rule traces_bind [OF emit_messages_traces], clarify)
      (simp add: traces_ret)
qed

lemma end_run_traces:
  "traces (end_run cfg new) PBetween (\<lambda>r ph ms. r = new \<and> ph = PEnd new \<and> ms = [])"
  unfolding end_run_def emit_def by (auto intro!: traces_seq traces_emit traces_ret)

lemma optional_call_traces:
  "traces (optional_call f y) ph (\<lambda>_ ph' ms. ph' = ph \<and> ms = [])"
  by (auto simp: optional_call_def intro!: traces_ret traces_call split: option.split)

lemma apply_update_simps [simp]:
  "ls_newMessages (apply_update u st) = ls_newMessages st"
  "ls_firstTurn (apply_update u st) = ls_firstTurn st"
  "ls_hasMoreToolCalls (apply_update u st) = ls_hasMoreToolCalls st"
  "cfg_aborted (ls_config (apply_update u st)) = cfg_aborted (ls_config st)"
  by (simp_all add: apply_update_def split: option.split)

lemma after_response_traces:
  assumes ok: "\<not> failed_response am" and first: "\<not> ls_firstTurn st"
  shows "traces (after_response st am) (PTurn {#})
     (\<lambda>r ph ms. \<exists>results. ms = map tool_result_msg results \<and>
        answers (ls_config st) (tool_calls_of (am_content am)) results \<and>
        (case r of
           TurnStop new \<Rightarrow> ph = PEnd new \<and> new = ls_newMessages st @ ms
         | TurnNext st' \<Rightarrow>
             ph = PBetween \<and> ls_newMessages st' = ls_newMessages st @ ms \<and> \<not> ls_firstTurn st' \<and>
             cfg_aborted (ls_config st') = cfg_aborted (ls_config st) \<and>
             (ls_hasMoreToolCalls st' \<longrightarrow> results \<noteq> [])))"
proof -
  have calls: "traces (if tool_calls_of (am_content am) = [] then retP ([], True)
        else executeToolCalls (ls_config st) (ls_context st) am) (PTurn {#})
      (\<lambda>r ph ms. ph = PTurn {#} \<and> ms = map tool_result_msg (fst r) \<and>
        answers (ls_config st) (tool_calls_of (am_content am)) (fst r) \<and> (\<not> snd r \<longrightarrow> fst r \<noteq> []))"
  proof (cases "tool_calls_of (am_content am) = []")
    case True
    then show ?thesis by (simp add: traces_ret answers_def)
  next
    case False
    show ?thesis
      unfolding if_not_P [OF False]
      by (rule traces_mono [OF executeToolCalls_traces]) (use False in \<open>auto simp: answers_def\<close>)
  qed
  have te: "traces (emit cfg (TurnEnd m rs)) (PTurn {#}) (\<lambda>_ ph ms. ph = PBetween \<and> ms = [])" for cfg m rs
    by (simp add: emit_def traces_emit)
  show ?thesis
    unfolding after_response_def Let_def
    apply (rule traces_bind [OF calls], clarify)
    apply (rule traces_bind [OF te], clarify)
    apply (rule traces_bind [OF optional_call_traces], clarify)
    apply (rule traces_bind [OF optional_call_traces], clarify)
    apply (split if_split, intro conjI impI)
     apply (rule traces_bind [OF end_run_traces], clarify, rule traces_ret)
     apply (force simp: add_messages_def)
    apply (rule traces_bind [OF optional_call_traces], clarify, rule traces_ret)
    using first by (force simp: add_messages_def)
qed

lemma run_turn_traces:
  "traces (run_turn fuel st) (loop_phase st)
     (\<lambda>r ph ms. \<exists>t. tn_pending t = ls_pending st \<and> turn_post st r ph ms t)"
proof -
  have te: "traces (emit cfg (TurnEnd m [])) (PTurn {#}) (\<lambda>_ ph ms. ph = PBetween \<and> ms = [])" for cfg m
    by (simp add: emit_def traces_emit)
  show ?thesis
    unfolding run_turn_def Let_def
    apply (rule traces_bind [OF inject_pending_traces], clarify)
    apply (rule traces_bind [OF streamAssistantResponse_traces], clarify)
    subgoal for _ _ _ am ctx
    proof (cases "failed_response am")
      case True
      then have f: "am_stopReason am = Error \<or> am_stopReason am = Aborted" by (simp add: failed_response_def)
      show ?thesis
        apply (simp only: prod.case if_P [OF f])
        apply (rule traces_bind [OF te], clarify)
        apply (rule traces_bind [OF end_run_traces], clarify, rule traces_ret)
        apply (rule exI [of _ "\<lparr>tn_pending = ls_pending st, tn_response = am, tn_results = []\<rparr>"])
        using True by (simp add: turn_post_def turn_messages_def add_messages_def failed_turn_def)
    next
      case False
      then have f: "\<not> (am_stopReason am = Error \<or> am_stopReason am = Aborted)" by (simp add: failed_response_def)
      show ?thesis
        apply (simp only: prod.case if_not_P [OF f])
        apply (rule traces_mono [OF after_response_traces [OF False]], simp)
        apply clarify
        subgoal for r ph ms results
          apply (rule exI [of _ "\<lparr>tn_pending = ls_pending st, tn_response = am, tn_results = results\<rparr>"])
          using False by (auto simp: turn_post_def turn_messages_def add_messages_def completed_turn_def
              answers_def split: turn_result.splits)
        done
    qed
    done
qed

text \<open>How a list of turns starts from a state of the loop.\<close>

definition starts_from :: "'w loop_state \<Rightarrow> turn list \<Rightarrow> bool" where
  "starts_from st ts \<longleftrightarrow>
     (if ls_hasMoreToolCalls st \<or> ls_pending st \<noteq> [] then ts \<noteq> [] \<and> tn_pending (hd ts) = ls_pending st
      else ts = [] \<or> tn_pending (hd ts) \<noteq> [])"

lemma turns_ok_Cons:
  assumes "completed_turn cfg t" "turns_ok cfg ts" "starts_from st ts"
    and "ls_hasMoreToolCalls st \<longrightarrow> tn_results t \<noteq> []"
  shows "turns_ok cfg (t # ts)"
  using assms by (cases ts) (auto simp: starts_from_def split: if_splits)

lemma loop_turns_traces:
  assumes "ls_firstTurn st \<longrightarrow> ls_hasMoreToolCalls st"
  shows "traces (loop_turns fuel st) (loop_phase st)
     (\<lambda>new ph ms. ph = PEnd new \<and> new = ls_newMessages st @ ms \<and>
        (\<exists>ts. ms = run_messages ts \<and> turns_ok (ls_config st) ts \<and> starts_from st ts))"
  using assms
proof (induction fuel arbitrary: st)
  case (Suc fuel)
  show ?case
  proof (cases "ls_hasMoreToolCalls st \<or> ls_pending st \<noteq> []")
    case True
    show ?thesis
      unfolding loop_turns.simps if_P [OF True]
      apply (rule traces_bind [OF run_turn_traces], elim exE conjE)
      subgoal for r ph ms t
      proof (cases r)
        case (TurnStop new)
        assume p: "tn_pending t = ls_pending st" "turn_post st r ph ms t"
        with TurnStop True show ?thesis
          by (auto simp: turn_post_def starts_from_def intro!: traces_ret exI [of _ "[t]"])
      next
        case (TurnNext st')
        assume p: "tn_pending t = ls_pending st" "turn_post st r ph ms t"
        with TurnNext have q: "ph = loop_phase st'" "\<not> ls_firstTurn st'"
            "ls_newMessages st' = ls_newMessages st @ ms" "ms = turn_messages t"
            "cfg_aborted (ls_config st') = cfg_aborted (ls_config st)"
            "completed_turn (ls_config st) t" "ls_hasMoreToolCalls st' \<longrightarrow> tn_results t \<noteq> []"
          by (auto simp: turn_post_def loop_phase_def)
        have "traces (loop_turns fuel st') (loop_phase st')
          (\<lambda>new ph ms'. ph = PEnd new \<and> new = ls_newMessages st @ ms @ ms' \<and>
             (\<exists>ts. ms @ ms' = run_messages ts \<and> turns_ok (ls_config st) ts \<and> starts_from st ts))"
        proof (rule traces_mono [OF Suc.IH], use q in simp, elim conjE exE)
          fix new ph' ms' ts
          assume ts: "ph' = PEnd new" "new = ls_newMessages st' @ ms'" "ms' = run_messages ts"
            "turns_ok (ls_config st') ts" "starts_from st' ts"
          have "turns_ok (ls_config st) (t # ts)"
            using turns_ok_Cons [of "ls_config st" t ts st'] ts turns_ok_cong q by metis
          then show "ph' = PEnd new \<and> new = ls_newMessages st @ ms @ ms' \<and>
             (\<exists>ts. ms @ ms' = run_messages ts \<and> turns_ok (ls_config st) ts \<and> starts_from st ts)"
            using ts q p(1) True by (auto simp: starts_from_def intro!: exI [of _ "t # ts"])
        qed
        then show ?thesis using TurnNext q(1) by simp
      qed
      done
  next
    case False
    with Suc.prems have ph: "loop_phase st = PBetween" by (auto simp: loop_phase_def)
    show ?thesis
      unfolding loop_turns.simps if_not_P [OF False] ph
      apply (rule traces_bind [OF optional_call_traces], clarify)
      subgoal for followUp
      proof (cases "followUp = []")
        case True
        with False show ?thesis
          by (auto simp: starts_from_def intro!: traces_mono [OF end_run_traces] exI [of _ "[]"])
      next
        case fu: False
        let ?st = "st\<lparr>ls_pending := followUp, ls_hasMoreToolCalls := True\<rparr>"
        have "loop_phase ?st = PBetween" using ph by (simp add: loop_phase_def split: if_splits)
        then have "traces (loop_turns fuel ?st) PBetween
          (\<lambda>new ph ms. ph = PEnd new \<and> new = ls_newMessages st @ ms \<and>
             (\<exists>ts. ms = run_messages ts \<and> turns_ok (ls_config st) ts \<and> starts_from ?st ts))"
          using Suc.IH [of ?st] by simp
        then show ?thesis
          unfolding if_P [OF fu]
          by (rule traces_mono) (use False fu in \<open>auto simp: starts_from_def\<close>)
      qed
      done
  qed
qed (simp add: traces_hang)

lemma runLoop_traces:
  "traces (runLoop fuel cfg ctx new0) (PTurn {#})
     (\<lambda>new ph ms. ph = PEnd new \<and> new = new0 @ ms \<and>
        (\<exists>ts. ms = run_messages ts \<and> turns_ok cfg ts \<and> ts \<noteq> []))"
  unfolding runLoop_def
  apply (rule traces_bind [OF optional_call_traces], clarify)
  subgoal for pending
    using loop_turns_traces [of "\<lparr>ls_context = ctx, ls_config = cfg, ls_firstTurn = True, ls_pending = pending,
        ls_hasMoreToolCalls = True, ls_newMessages = new0\<rparr>" fuel]
    by (simp add: loop_phase_def) (erule traces_mono, auto simp: starts_from_def)
  done

lemma runAgentLoop_traces:
  "traces (runAgentLoop fuel prompts ctx cfg) PStart
     (\<lambda>new ph ms. ph = PEnd new \<and> new = ms \<and>
        (\<exists>ts. ms = prompts @ run_messages ts \<and> turns_ok cfg ts \<and> ts \<noteq> []))"
  unfolding runAgentLoop_def emit_def
  apply (rule traces_seq, rule traces_emit, simp)
  apply (rule traces_seq, rule traces_emit, simp)
  apply (rule traces_bind [OF emit_messages_traces], clarify)
  apply (rule traces_mono [OF runLoop_traces])
  by auto

lemma runAgentLoopContinue_traces:
  "traces (runAgentLoopContinue fuel ctx cfg) PStart
     (\<lambda>new ph ms. ph = PEnd new \<and> new = ms \<and>
        (\<exists>ts. ms = run_messages ts \<and> turns_ok cfg ts \<and> ts \<noteq> []))"
proof (cases "ctx_messages ctx = [] \<or> is_assistant (last (ctx_messages ctx))")
  case True
  then show ?thesis by (auto simp: runAgentLoopContinue_def intro: traces_throw)
next
  case False
  then show ?thesis
    unfolding runAgentLoopContinue_def emit_def
    by (simp, intro traces_seq traces_emit)
      (simp, intro traces_seq traces_emit, simp, rule traces_mono [OF runLoop_traces], simp)
qed

end
