(* ===== verification/AgentRelation.thy ===== *)
theory AgentRelation
  imports AgentLoop
begin

text \<open>
  Relations between the world before and after a program of the agent loop. If every function the
  loop is given respects a relation, so does every run: proved once, in the locale, for any
  relation that composes, and used for the size of the world (termination) and for the state of
  the agent (its transcript is the reduction of the events).
\<close>

section \<open>Programs and relations\<close>

text \<open>The relation also sees whether the program hangs and which events it emitted.\<close>

type_synonym 'w run_rel = "'w \<Rightarrow> bool \<Rightarrow> AgentEvent list \<Rightarrow> 'w \<Rightarrow> bool"

definition relates :: "'w run_rel \<Rightarrow> ('w, 'a) prog \<Rightarrow> ('a \<Rightarrow> bool) \<Rightarrow> bool" where
  "relates R m P \<longleftrightarrow>
     (\<forall>w tr r w' tr'. m (w, tr) = (r, w', tr') \<longrightarrow>
        (\<exists>evs. tr' = tr @ evs \<and> R w (r = Hangs) evs w') \<and> (\<forall>x. r = Done x \<longrightarrow> P x))"

lemma relatesI:
  "(\<And>w tr r w' tr'. m (w, tr) = (r, w', tr') \<Longrightarrow>
      (\<exists>evs. tr' = tr @ evs \<and> R w (r = Hangs) evs w') \<and> (\<forall>x. r = Done x \<longrightarrow> P x)) \<Longrightarrow> relates R m P"
  unfolding relates_def by blast

lemma relatesD:
  assumes "relates R m P" and "m (w, tr) = (r, w', tr')"
  obtains evs where "tr' = tr @ evs" "R w (r = Hangs) evs w'" "\<And>x. r = Done x \<Longrightarrow> P x"
proof -
  have "(\<exists>evs. tr' = tr @ evs \<and> R w (r = Hangs) evs w') \<and> (\<forall>x. r = Done x \<longrightarrow> P x)"
    using assms unfolding relates_def by blast
  then show thesis using that by blast
qed

lemma relates_weaken: "relates R m P \<Longrightarrow> (\<And>x. P x \<Longrightarrow> Q x) \<Longrightarrow> relates R m Q"
  unfolding relates_def by blast

text \<open>What the functions of the environment are asked to keep.\<close>

definition respects_call :: "'w run_rel \<Rightarrow> ('w, 'a) callback \<Rightarrow> bool" where
  "respects_call R c \<longleftrightarrow> (\<forall>w r w'. c w = (r, w') \<longrightarrow> R w (r = Hangs) [] w')"

definition respects_tool :: "'w run_rel \<Rightarrow> 'w AgentTool \<Rightarrow> bool" where
  "respects_tool R t \<longleftrightarrow>
     (\<forall>i args w us out w'. at_execute t i args w = ((us, out), w') \<longrightarrow>
        R w False [] w' \<and> (out = Hangs \<longrightarrow> (\<forall>v. R v True [] v)))"

definition respects_tools :: "'w run_rel \<Rightarrow> 'w AgentContext \<Rightarrow> bool" where
  "respects_tools R ctx \<longleftrightarrow> (\<forall>t \<in> set (ctx_tools ctx). respects_tool R t)"

definition respects_hooks :: "'w run_rel \<Rightarrow> 'w AgentLoopConfig \<Rightarrow> bool" where
  "respects_hooks R cfg \<longleftrightarrow>
     (\<forall>f ms. cfg_transformContext cfg = Some f \<longrightarrow> respects_call R (f ms)) \<and>
     (\<forall>ms. respects_call R (cfg_convertToLlm cfg ms)) \<and>
     (\<forall>f p. cfg_getApiKey cfg = Some f \<longrightarrow> respects_call R (f p)) \<and>
     (\<forall>f. cfg_getSteeringMessages cfg = Some f \<longrightarrow> respects_call R f) \<and>
     (\<forall>f. cfg_getFollowUpMessages cfg = Some f \<longrightarrow> respects_call R f) \<and>
     (\<forall>f c. cfg_shouldStopAfterTurn cfg = Some f \<longrightarrow> respects_call R (f c)) \<and>
     (\<forall>f am tc args ctx. cfg_beforeToolCall cfg = Some f \<longrightarrow> respects_call R (f am tc args ctx)) \<and>
     (\<forall>f am tc args res e ctx. cfg_afterToolCall cfg = Some f \<longrightarrow> respects_call R (f am tc args res e ctx)) \<and>
     (\<forall>w t w'. cfg_now cfg w = (t, w') \<longrightarrow> R w False [] w') \<and>
     respects_call R (cfg_result cfg) \<and>
     (\<forall>ev w r w'. cfg_sink cfg ev w = (r, w') \<longrightarrow> R w (r = Hangs) [ev] w')"

definition respects_updates :: "'w run_rel \<Rightarrow> 'w AgentLoopConfig \<Rightarrow> bool" where
  "respects_updates R cfg \<longleftrightarrow>
     (\<forall>f c. cfg_prepareNextTurn cfg = Some f \<longrightarrow>
        respects_call R (f c) \<and>
        (\<forall>w u w' ctx. f c w = (Done (Some u), w') \<longrightarrow> atu_context u = Some ctx \<longrightarrow> respects_tools R ctx))"

definition respects_streams :: "'w run_rel \<Rightarrow> 'w AgentLoopConfig \<Rightarrow> bool" where
  "respects_streams R cfg \<longleftrightarrow>
     (\<forall>m lc key r. respects_call R (cfg_stream cfg m lc key r)) \<and> respects_call R (cfg_nextEvent cfg)"

lemma respects_hooksD:
  assumes "respects_hooks R cfg"
  shows "cfg_transformContext cfg = Some f1 \<Longrightarrow> respects_call R (f1 ms)"
    "respects_call R (cfg_convertToLlm cfg ms)"
    "cfg_getApiKey cfg = Some f2 \<Longrightarrow> respects_call R (f2 p)"
    "cfg_getSteeringMessages cfg = Some f3 \<Longrightarrow> respects_call R f3"
    "cfg_getFollowUpMessages cfg = Some f3 \<Longrightarrow> respects_call R f3"
    "cfg_shouldStopAfterTurn cfg = Some f4 \<Longrightarrow> respects_call R (f4 c)"
    "cfg_beforeToolCall cfg = Some f5 \<Longrightarrow> respects_call R (f5 am tc args ctx)"
    "cfg_afterToolCall cfg = Some f6 \<Longrightarrow> respects_call R (f6 am tc args res e ctx)"
    "cfg_now cfg w = (t, w') \<Longrightarrow> R w False [] w'"
    "respects_call R (cfg_result cfg)"
    "cfg_sink cfg ev w = (r, w') \<Longrightarrow> R w (r = Hangs) [ev] w'"
  using assms unfolding respects_hooks_def by (elim conjE; simp)+

lemma find_tool_respects:
  "respects_tools R ctx \<Longrightarrow> find_tool ctx n = Some t \<Longrightarrow> respects_tool R t"
  unfolding respects_tools_def find_tool_def by (auto simp: find_Some_iff)

lemma respects_tools_messages [simp]:
  "respects_tools R (ctx\<lparr>ctx_messages := ms\<rparr>) = respects_tools R ctx"
  by (simp add: respects_tools_def)

text \<open>A call that runs, or has run, a tool that respects the relation.\<close>

fun respects_state :: "'w run_rel \<Rightarrow> 'w call_state \<Rightarrow> bool" where
  "respects_state R (Finished f) = True"
| "respects_state R (NotStarted tc tool args) = respects_tool R tool"
| "respects_state R (Running tc args us out) = (out = Hangs \<longrightarrow> (\<forall>v. R v True [] v))"

fun respects_preparation :: "'w run_rel \<Rightarrow> 'w preparation \<Rightarrow> bool" where
  "respects_preparation R (Immediate r e) = True"
| "respects_preparation R (Prepared tc tool args) = respects_tool R tool"

section \<open>Relations that compose\<close>

locale run_relation =
  fixes R :: "'w run_rel"
  assumes R_refl: "R w False [] w"
    and R_trans: "R w False es w' \<Longrightarrow> R w' h es' w'' \<Longrightarrow> R w h (es @ es') w''"
begin

lemma rel_ret: "P x \<Longrightarrow> relates R (retP x) P"
  by (auto simp: relates_def retP_def R_refl)

lemma rel_sum: "relates R (sumP r) (\<lambda>_. True)"
  by (cases r) (auto simp: relates_def sumP_def retP_def throwP_def R_refl)

lemma rel_call: "respects_call R c \<Longrightarrow> relates R (callP c) (\<lambda>_. True)"
  unfolding relates_def respects_call_def callP_def by (auto split: prod.splits)

lemma rel_bind:
  assumes "relates R m P" and "\<And>x. P x \<Longrightarrow> relates R (f x) Q"
  shows "relates R (bindP m f) Q"
proof (rule relatesI)
  fix w tr r w' tr'
  assume b: "bindP m f (w, tr) = (r, w', tr')"
  obtain r1 w1 tr1 where m: "m (w, tr) = (r1, w1, tr1)" by (metis prod_cases3)
  obtain evs where e: "tr1 = tr @ evs" "R w (r1 = Hangs) evs w1" "\<And>x. r1 = Done x \<Longrightarrow> P x"
    using relatesD [OF assms(1) m] by blast
  show "(\<exists>evs. tr' = tr @ evs \<and> R w (r = Hangs) evs w') \<and> (\<forall>x. r = Done x \<longrightarrow> Q x)"
  proof (cases r1)
    case (Done x)
    with b m have f: "f x (w1, tr1) = (r, w', tr')" by (simp add: bindP_def)
    obtain evs' where "tr' = tr1 @ evs'" "R w1 (r = Hangs) evs' w'" "\<And>y. r = Done y \<Longrightarrow> Q y"
      using relatesD [OF assms(2) f] e(3) Done by blast
    with e Done show ?thesis using R_trans [of w evs w1 "r = Hangs" evs' w'] by auto
  qed (use b m e in \<open>auto simp: bindP_def\<close>)
qed

lemma rel_seq:
  "relates R m (\<lambda>_. True) \<Longrightarrow> (\<And>x. relates R (f x) Q) \<Longrightarrow> relates R (bindP m f) Q"
  by (rule rel_bind)

lemma rel_try:
  assumes "relates R m P" and "\<And>msg. relates R (h msg) P"
  shows "relates R (tryP m h) P"
proof (rule relatesI)
  fix w tr r w' tr'
  assume b: "tryP m h (w, tr) = (r, w', tr')"
  obtain r1 w1 tr1 where m: "m (w, tr) = (r1, w1, tr1)" by (metis prod_cases3)
  obtain evs where e: "tr1 = tr @ evs" "R w (r1 = Hangs) evs w1" "\<And>x. r1 = Done x \<Longrightarrow> P x"
    using relatesD [OF assms(1) m] by blast
  show "(\<exists>evs. tr' = tr @ evs \<and> R w (r = Hangs) evs w') \<and> (\<forall>x. r = Done x \<longrightarrow> P x)"
  proof (cases r1)
    case (Threw msg)
    with b m have f: "h msg (w1, tr1) = (r, w', tr')" by (simp add: tryP_def)
    obtain evs' where "tr' = tr1 @ evs'" "R w1 (r = Hangs) evs' w'" "\<And>y. r = Done y \<Longrightarrow> P y"
      using relatesD [OF assms(2) f] by blast
    with e Threw show ?thesis using R_trans [of w evs w1 "r = Hangs" evs' w'] by auto
  qed (use b m e in \<open>auto simp: tryP_def\<close>)
qed

lemma rel_for: "(\<And>x. relates R (f x) (\<lambda>_. True)) \<Longrightarrow> relates R (forP f xs) (\<lambda>_. True)"
  by (induction xs) (auto intro!: rel_seq rel_ret)

lemma rel_map: "(\<And>x. x \<in> set xs \<Longrightarrow> relates R (f x) (\<lambda>_. True)) \<Longrightarrow> relates R (mapP f xs) (\<lambda>_. True)"
  by (induction xs) (auto intro!: rel_seq rel_ret)

lemma rel_optional:
  "(\<And>c. f = Some c \<Longrightarrow> respects_call R c) \<Longrightarrow> relates R (optional_call f y) (\<lambda>_. True)"
  by (auto simp: optional_call_def intro!: rel_ret rel_call split: option.split)

lemma rel_aborted: "relates R (abortedP cfg) (\<lambda>_. True)"
  unfolding abortedP_def by (rule rel_call) (simp add: respects_call_def R_refl)

end

text \<open>A state of the loop whose hooks and tools respect the relation.\<close>

definition respects_loop :: "'w run_rel \<Rightarrow> 'w loop_state \<Rightarrow> bool" where
  "respects_loop R st \<longleftrightarrow>
     respects_hooks R (ls_config st) \<and> respects_updates R (ls_config st) \<and> respects_tools R (ls_context st)"

lemma respects_loopD:
  assumes "respects_loop R st"
  shows "respects_hooks R (ls_config st)" "respects_updates R (ls_config st)" "respects_tools R (ls_context st)"
  using assms unfolding respects_loop_def by simp_all

lemma respects_loop_fields [simp]:
  "respects_loop R (st\<lparr>ls_firstTurn := b\<rparr>) = respects_loop R st"
  "respects_loop R (st\<lparr>ls_pending := ms\<rparr>) = respects_loop R st"
  "respects_loop R (st\<lparr>ls_hasMoreToolCalls := b\<rparr>) = respects_loop R st"
  "respects_loop R (st\<lparr>ls_newMessages := ms\<rparr>) = respects_loop R st"
  "respects_loop R (add_messages ms st) = respects_loop R st"
  by (simp_all add: respects_loop_def add_messages_def)

lemma respects_settings [simp]:
  "respects_hooks R (cfg\<lparr>cfg_model := m, cfg_reasoning := r\<rparr>) = respects_hooks R cfg"
  "respects_updates R (cfg\<lparr>cfg_model := m, cfg_reasoning := r\<rparr>) = respects_updates R cfg"
  "respects_streams R (cfg\<lparr>cfg_model := m, cfg_reasoning := r\<rparr>) = respects_streams R cfg"
  by (simp_all add: respects_hooks_def respects_updates_def respects_streams_def)

lemma respects_loop_update:
  "respects_loop R st \<Longrightarrow> (\<And>a ctx. u = Some a \<Longrightarrow> atu_context a = Some ctx \<Longrightarrow> respects_tools R ctx) \<Longrightarrow>
   respects_loop R (apply_update u st)"
  unfolding apply_update_def
  by (cases u) (auto simp: respects_loop_def split: option.split)

section \<open>Tool calls\<close>

context run_relation
begin

lemma rel_tool_programs:
  assumes h: "respects_hooks R cfg"
  shows rel_emit: "relates R (emit cfg ev) (\<lambda>_. True)"
    and rel_emit_message: "relates R (emit_message cfg m) (\<lambda>_. True)"
    and rel_result_message: "relates R (result_message cfg fin) (\<lambda>_. True)"
    and rel_execution_end: "relates R (emitToolExecutionEnd cfg fin) (\<lambda>_. True)"
    and rel_emit_update: "relates R (emit_update cfg tc u) (\<lambda>_. True)"
    and rel_emit_start: "relates R (emit_start cfg tc) (\<lambda>_. True)"
    and rel_finalize: "relates R (finalizeExecutedToolCall cfg ctx am tc args ex) (\<lambda>_. True)"
    and rel_create_message: "relates R (createToolResultMessage cfg fin) (\<lambda>_. True)"
proof -
  note hd = respects_hooksD [OF h]
  show e: "relates R (emit cfg ev) (\<lambda>_. True)" for ev
    unfolding emit_def emitP_def relates_def using hd(11) by (auto split: prod.splits)
  show m: "relates R (emit_message cfg m) (\<lambda>_. True)" for m
    unfolding emit_message_def by (intro rel_seq e)
  have n: "relates R (nowP cfg) (\<lambda>_. True)"
    unfolding nowP_def by (rule rel_call) (auto simp: respects_call_def dest: hd(9) split: prod.splits)
  show c: "relates R (createToolResultMessage cfg fin) (\<lambda>_. True)"
    unfolding createToolResultMessage_def by (intro rel_seq n rel_ret TrueI)
  show "relates R (result_message cfg fin) (\<lambda>_. True)"
    unfolding result_message_def emitToolResultMessage_def by (intro rel_seq c m rel_ret TrueI)
  show "relates R (emitToolExecutionEnd cfg fin) (\<lambda>_. True)" "relates R (emit_update cfg tc u) (\<lambda>_. True)"
    "relates R (emit_start cfg tc) (\<lambda>_. True)"
    unfolding emitToolExecutionEnd_def emit_update_def emit_start_def by (intro e)+
  show "relates R (finalizeExecutedToolCall cfg ctx am tc args ex) (\<lambda>_. True)"
    unfolding finalizeExecutedToolCall_def
    by (auto intro!: rel_try rel_seq rel_call rel_ret hd split: option.split prod.split)
qed

lemma rel_prepare:
  assumes h: "respects_hooks R cfg" and c: "respects_tools R ctx"
  shows "relates R (prepareToolCall cfg ctx am tc) (respects_preparation R)"
proof -
  have ac: "respects_preparation R p \<Longrightarrow> relates R (abort_check cfg p) (respects_preparation R)" for p
    unfolding abort_check_def by (auto intro!: rel_seq rel_aborted rel_ret)
  show ?thesis
    unfolding prepareToolCall_def
    by (auto split: option.split prod.split intro!: rel_ret rel_try rel_seq [OF rel_sum] rel_seq [OF rel_call] ac
        respects_hooksD(7) [OF h] find_tool_respects [OF c])
qed

lemma rel_start:
  "respects_tool R tool \<Longrightarrow>
   relates R (start_call tc tool args) (\<lambda>r. snd r = Hangs \<longrightarrow> (\<forall>v. R v True [] v))"
  unfolding relates_def start_call_def callP_def respects_tool_def by (auto split: prod.splits)

lemma rel_settle: "(out = Hangs \<Longrightarrow> \<forall>v. R v True [] v) \<Longrightarrow> relates R (settle out) (\<lambda>_. True)"
  by (cases out) (auto simp: settle_def hangP_def relates_def retP_def R_refl)

lemma rel_execute:
  assumes "respects_hooks R cfg" "respects_tool R tool"
  shows "relates R (executePreparedToolCall cfg tc tool args) (\<lambda>_. True)"
  unfolding executePreparedToolCall_def
  by (rule rel_bind [OF rel_start [OF assms(2)]])
    (auto split: prod.split intro!: rel_seq rel_for rel_settle rel_emit_update assms(1))

lemma rel_finish:
  assumes "respects_hooks R cfg" "out = Hangs \<longrightarrow> (\<forall>v. R v True [] v)"
  shows "relates R (finish_call cfg ctx am tc args out) (\<lambda>_. True)"
  unfolding finish_call_def
  by (intro rel_seq rel_settle rel_tool_programs [OF assms(1)] rel_ret TrueI) (use assms(2) in auto)

lemma rel_run_call:
  assumes h: "respects_hooks R cfg" and c: "respects_tools R ctx"
  shows "relates R (run_call cfg ctx am tc) (\<lambda>_. True)"
proof -
  have prep: "respects_preparation R p \<Longrightarrow> relates R (case p of
       Immediate result isError \<Rightarrow> retP \<lparr>fin_toolCall = tc, fin_result = result, fin_isError = isError\<rparr>
     | Prepared tc' tool args \<Rightarrow>
         bindP (executePreparedToolCall cfg tc' tool args) (finalizeExecutedToolCall cfg ctx am tc' args))
      (\<lambda>_. True)" for p
    by (cases p) (auto intro!: rel_ret rel_seq rel_execute rel_finalize h)
  show ?thesis
    unfolding run_call_def emitToolResultMessage_def
    by (intro rel_seq [OF rel_emit_start [OF h]] rel_bind [OF rel_prepare [OF h c]] rel_seq [OF prep]
        rel_seq [OF rel_execution_end [OF h]] rel_seq [OF rel_create_message [OF h]]
        rel_seq [OF rel_emit_message [OF h]] rel_ret TrueI)
qed

lemma rel_sequential:
  assumes "respects_hooks R cfg" "respects_tools R ctx"
  shows "relates R (sequential_loop cfg ctx am tcs) (\<lambda>_. True)"
  by (induction tcs) (auto intro!: rel_seq rel_ret rel_run_call rel_aborted assms)

lemma rel_parallel_prepare:
  assumes h: "respects_hooks R cfg" and c: "respects_tools R ctx"
  shows "relates R (parallel_prepare cfg ctx am tcs) (\<lambda>cs. \<forall>c \<in> set cs. respects_state R c)"
proof (induction tcs)
  case (Cons tc tcs)
  have prep: "respects_preparation R p \<Longrightarrow> relates R (case p of
       Immediate result isError \<Rightarrow>
         (let finalized = \<lparr>fin_toolCall = tc, fin_result = result, fin_isError = isError\<rparr>
          in bindP (emitToolExecutionEnd cfg finalized) (\<lambda>_. retP (Finished finalized)))
     | Prepared tc' tool args \<Rightarrow> retP (NotStarted tc' tool args)) (respects_state R)" for p
    by (cases p) (auto simp: Let_def intro!: rel_ret rel_seq rel_execution_end h)
  show ?case
    unfolding parallel_prepare.simps
    by (intro rel_seq [OF rel_emit_start [OF h]] rel_bind [OF rel_prepare [OF h c]] rel_bind [OF prep]
        rel_seq [OF rel_aborted])
      (auto intro!: rel_ret rel_bind [OF Cons.IH])
qed (simp add: rel_ret)

lemma rel_step:
  assumes "respects_hooks R cfg" "respects_state R c"
  shows "relates R (step_call cfg ctx am c) (respects_state R)"
proof (cases c)
  case (NotStarted tc tool args)
  with assms have "respects_tool R tool" by simp
  then show ?thesis
    unfolding step_call_def NotStarted call_state.case
    by (rule rel_bind [OF rel_start]) (auto split: prod.split intro!: rel_ret)
next
  case (Running tc args us out)
  with assms show ?thesis
    by (cases us) (auto simp: step_call_def intro!: rel_seq [OF rel_finish] rel_seq [OF rel_emit_update] rel_ret)
qed (auto simp: step_call_def intro: rel_ret)

lemma rel_schedule:
  assumes h: "respects_hooks R cfg"
  shows "\<forall>c \<in> set cs. respects_state R c \<Longrightarrow>
    relates R (run_schedule cfg ctx am is cs) (\<lambda>cs. \<forall>c \<in> set cs. respects_state R c)"
proof (induction "is" arbitrary: cs)
  case (Cons i "is")
  show ?case
  proof (cases "i < length cs")
    case True
    then have "respects_state R (cs ! i)" using Cons.prems by simp
    then show ?thesis
      unfolding run_schedule.simps if_P [OF True]
      by (rule rel_bind [OF rel_step [OF h]])
        (rule Cons.IH, use Cons.prems in \<open>auto dest!: subsetD [OF set_update_subset_insert]\<close>)
  next
    case False
    then show ?thesis using Cons by simp
  qed
qed (simp add: rel_ret)

lemma rel_complete:
  assumes h: "respects_hooks R cfg" and c: "respects_state R c"
  shows "relates R (complete_call cfg ctx am c) (\<lambda>_. True)"
proof -
  have f: "out = Hangs \<longrightarrow> (\<forall>v. R v True [] v) \<Longrightarrow>
      relates R (bindP (forP (emit_update cfg tc) us) (\<lambda>_. finish_call cfg ctx am tc args out)) (\<lambda>_. True)"
    for tc us args out
    by (intro rel_seq rel_for rel_emit_update rel_finish h)
  show ?thesis
  proof (cases c)
    case (NotStarted tc tool args)
    with c have "respects_tool R tool" by simp
    then show ?thesis
      unfolding complete_call_def NotStarted call_state.case
      by (rule rel_bind [OF rel_start]) (auto split: prod.split intro!: f)
  qed (use assms in \<open>auto simp: complete_call_def intro!: f rel_ret\<close>)
qed

lemma rel_executeToolCalls:
  assumes h: "respects_hooks R cfg" and c: "respects_tools R ctx"
  shows "relates R (executeToolCalls cfg ctx am) (\<lambda>_. True)"
proof -
  have sch: "relates R (callP (\<lambda>w. (Done (cfg_schedule cfg w), w))) (\<lambda>_. True)"
    by (rule rel_call) (simp add: respects_call_def R_refl)
  have par: "relates R (executeToolCallsParallel cfg ctx am tcs) (\<lambda>_. True)" for tcs
    unfolding executeToolCallsParallel_def
    apply (rule rel_bind [OF rel_parallel_prepare [OF h c]])
    apply (rule rel_seq [OF sch])
    apply (rule rel_bind [OF rel_schedule [OF h]], assumption)
    apply (rule rel_seq [OF rel_map], rule rel_complete [OF h], blast)
    apply (intro rel_seq [OF rel_map] rel_result_message h rel_ret TrueI)
    done
  show ?thesis
    unfolding executeToolCalls_def executeToolCallsSequential_def Let_def
    by (auto intro!: par rel_seq [OF rel_sequential] rel_ret assms)
qed

end

section \<open>Turns\<close>

context run_relation
begin

lemma rel_finish_stream: "respects_hooks R cfg \<Longrightarrow> relates R (finish_stream cfg ms b) (\<lambda>_. True)"
  unfolding finish_stream_def
  by (auto intro!: rel_seq rel_call rel_emit rel_ret respects_hooksD(10))

lemma rel_resolve_key: "respects_hooks R cfg \<Longrightarrow> relates R (resolve_key cfg) (\<lambda>_. True)"
  unfolding resolve_key_def by (auto intro!: rel_seq rel_call rel_ret respects_hooksD(3) split: option.split)

lemma rel_transform:
  "respects_hooks R cfg \<Longrightarrow>
   relates R (case cfg_transformContext cfg of None \<Rightarrow> retP (ctx_messages ctx) | Some f \<Rightarrow> callP (f (ctx_messages ctx))) (\<lambda>_. True)"
  by (auto intro!: rel_call rel_ret respects_hooksD(1) split: option.split)

lemma rel_inject:
  "respects_loop R st \<Longrightarrow>
   relates R (inject_pending st) (\<lambda>st'. respects_loop R st' \<and> ls_config st' = ls_config st)"
  unfolding inject_pending_def
  by (auto intro!: rel_seq rel_for rel_emit rel_emit_message rel_ret respects_loopD simp: add_messages_def
      respects_loop_def)

lemma rel_end_run: "respects_hooks R cfg \<Longrightarrow> relates R (end_run cfg ms) (\<lambda>_. True)"
  unfolding end_run_def by (intro rel_seq rel_emit rel_ret TrueI)

lemma rel_after_response:
  assumes ok: "respects_loop R st"
  shows "relates R (after_response st am)
    (\<lambda>r. \<forall>st'. r = TurnNext st' \<longrightarrow> respects_loop R st' \<and> (respects_streams R (ls_config st) \<longrightarrow> respects_streams R (ls_config st')))"
proof -
  note d = respects_loopD [OF ok]
  have calls: "relates R (if tool_calls_of (am_content am) = [] then retP ([], True)
      else executeToolCalls (ls_config st) (ls_context st) am) (\<lambda>_. True)"
    by (simp add: rel_ret rel_executeToolCalls d)
  have update: "relates R (optional_call (map_option (\<lambda>f. f c) (cfg_prepareNextTurn cfg)) None)
      (\<lambda>u. \<forall>a ctx. u = Some a \<longrightarrow> atu_context a = Some ctx \<longrightarrow> respects_tools R ctx)"
    if "respects_updates R cfg" for c cfg
  proof (cases "cfg_prepareNextTurn cfg")
    case (Some f)
    with that have "respects_call R (f c)"
      "\<And>w u w' ctx. f c w = (Done (Some u), w') \<Longrightarrow> atu_context u = Some ctx \<Longrightarrow> respects_tools R ctx"
      unfolding respects_updates_def by blast+
    then have "relates R (callP (f c)) (\<lambda>u. \<forall>a ctx. u = Some a \<longrightarrow> atu_context a = Some ctx \<longrightarrow> respects_tools R ctx)"
      unfolding relates_def respects_call_def callP_def by (auto split: prod.splits)
    with Some show ?thesis by (simp add: optional_call_def)
  qed (simp add: optional_call_def rel_ret)
  show ?thesis
    unfolding after_response_def Let_def
    apply (rule rel_seq [OF calls])
    apply (clarsimp split: prod.split)
    apply (rule rel_seq)
    subgoal by (rule rel_emit) (simp add: add_messages_def d)
    apply (rule rel_bind [OF update])
    subgoal by (simp add: add_messages_def d)
    subgoal premises p for results terminate v u
    proof -
      let ?st1 = "add_messages (map (\<lambda>r. Msg (ToolResult r)) results) st\<lparr>ls_hasMoreToolCalls := \<not> terminate\<rparr>"
      have ok2: "respects_loop R (apply_update u ?st1)"
        by (rule respects_loop_update) (use ok p in simp_all)
      have str: "respects_streams R (ls_config st) \<Longrightarrow> respects_streams R (ls_config (apply_update u ?st1))"
        by (cases u) (simp_all add: apply_update_def add_messages_def)
      note d2 = respects_loopD [OF ok2] and hk = respects_hooksD [OF respects_loopD(1) [OF ok2]]
      show ?thesis
        apply (rule rel_seq)
         apply (rule rel_optional, use hk(6) in force)
        apply (split if_split, intro conjI impI)
         apply (rule rel_seq [OF rel_end_run [OF d2(1)]], rule rel_ret, simp)
        apply (rule rel_seq)
         apply (rule rel_optional, use hk(4) in force)
        apply (rule rel_ret)
        using ok2 str by simp
    qed
    done
qed

end

section \<open>Whole runs\<close>

text \<open>A relation that also tolerates a run that does not return.\<close>

locale hanging_run_relation = run_relation +
  assumes R_hang: "R w True [] w"
begin

lemma rel_hang: "relates R hangP P"
  by (auto simp: relates_def hangP_def R_hang)

lemma rel_stream_loop:
  assumes h: "respects_hooks R cfg" and s: "respects_streams R cfg"
  shows "relates R (stream_loop cfg fuel ms b) (\<lambda>_. True)"
proof (induction fuel arbitrary: ms b)
  case (Suc fuel)
  have "relates R (callP (cfg_nextEvent cfg)) (\<lambda>_. True)"
    using s by (auto simp: respects_streams_def intro: rel_call)
  then show ?case
    unfolding stream_loop.simps
    by (rule rel_seq) (auto intro!: rel_finish_stream rel_seq [OF rel_emit] Suc.IH h
        split: option.split AssistantMessageEvent.split)
qed (simp add: rel_hang)

lemma rel_streamAssistantResponse:
  assumes h: "respects_hooks R cfg" and s: "respects_streams R cfg"
  shows "relates R (streamAssistantResponse cfg fuel ctx) (\<lambda>r. respects_tools R (snd r) = respects_tools R ctx)"
proof -
  have req: "relates R (callP (cfg_stream cfg m lc k r)) (\<lambda>_. True)" for m lc k r
    using s by (auto simp: respects_streams_def intro: rel_call)
  show ?thesis
    unfolding streamAssistantResponse_def
    by (intro rel_seq [OF rel_transform [OF h]] rel_seq [OF rel_call [OF respects_hooksD(2) [OF h]]]
        rel_seq [OF rel_resolve_key [OF h]] rel_seq [OF req] rel_seq [OF rel_stream_loop [OF h s]])
      (auto intro!: rel_ret split: prod.split)
qed

lemma rel_run_turn:
  assumes ok: "respects_loop R st" and s: "respects_streams R (ls_config st)"
  shows "relates R (run_turn fuel st)
    (\<lambda>r. \<forall>st'. r = TurnNext st' \<longrightarrow> respects_loop R st' \<and> respects_streams R (ls_config st'))"
  unfolding run_turn_def Let_def
  apply (rule rel_bind [OF rel_inject [OF ok]])
  subgoal for st'
    apply (rule rel_bind [OF rel_streamAssistantResponse])
    subgoal by (simp add: respects_loopD(1) [OF ok])
    subgoal using s by simp
    subgoal premises p for r
    proof (cases r)
      case (Pair am ctx)
      have stop: "relates R (bindP (emit (ls_config st) e) (\<lambda>_. bindP (end_run (ls_config st) ms) (\<lambda>ms. retP (TurnStop ms))))
          (\<lambda>r. \<forall>st'. r = TurnNext st' \<longrightarrow> respects_loop R st' \<and> respects_streams R (ls_config st'))" for e ms
        by (intro rel_seq [OF rel_emit] rel_seq [OF rel_end_run] rel_ret) (simp_all add: respects_loopD(1) [OF ok])
      have "respects_loop R (st'\<lparr>ls_context := ctx, ls_newMessages := ms\<rparr>)" for ms
        using p Pair respects_loopD [OF ok] by (simp add: respects_loop_def)
      then have "relates R (after_response (st'\<lparr>ls_context := ctx, ls_newMessages := ms\<rparr>) am)
          (\<lambda>r. \<forall>st'. r = TurnNext st' \<longrightarrow> respects_loop R st' \<and> respects_streams R (ls_config st'))" for ms
        by (rule relates_weaken [OF rel_after_response]) (use p(1) s in simp)
      then show ?thesis using stop p(1) Pair by simp
    qed
    done
  done

lemma rel_loop_turns:
  "respects_loop R st \<Longrightarrow> respects_streams R (ls_config st) \<Longrightarrow> relates R (loop_turns fuel st) (\<lambda>_. True)"
proof (induction fuel arbitrary: st)
  case (Suc fuel)
  note d = respects_loopD [OF Suc.prems(1)]
  have turn: "relates R (bindP (run_turn fuel st) (\<lambda>r. case r of TurnStop ms \<Rightarrow> retP ms | TurnNext st' \<Rightarrow> loop_turns fuel st')) (\<lambda>_. True)"
    by (rule rel_bind [OF rel_run_turn [OF Suc.prems]]) (auto intro!: rel_ret Suc.IH split: turn_result.split)
  have fu: "relates R (optional_call (cfg_getFollowUpMessages (ls_config st)) []) (\<lambda>_. True)"
    by (rule rel_optional) (rule respects_hooksD(5) [OF d(1)])
  show ?case
    unfolding loop_turns.simps
    using Suc.prems by (auto intro!: turn rel_seq [OF fu] Suc.IH rel_end_run d)
qed (simp add: rel_hang)

lemma rel_runLoop:
  assumes "respects_hooks R cfg" "respects_updates R cfg" "respects_streams R cfg" "respects_tools R ctx"
  shows "relates R (runLoop fuel cfg ctx new) (\<lambda>_. True)"
  unfolding runLoop_def
  by (intro rel_seq [OF rel_optional] rel_loop_turns respects_hooksD(4) [OF assms(1)])
    (auto simp: respects_loop_def assms)

lemma rel_runAgentLoop:
  assumes "respects_hooks R cfg" "respects_updates R cfg" "respects_streams R cfg" "respects_tools R ctx"
  shows "relates R (runAgentLoop fuel prompts ctx cfg) (\<lambda>_. True)"
  unfolding runAgentLoop_def
  by (intro rel_seq [OF rel_emit] rel_seq [OF rel_for] rel_emit_message rel_runLoop) (simp_all add: assms)

lemma rel_runAgentLoopContinue:
  assumes "respects_hooks R cfg" "respects_updates R cfg" "respects_streams R cfg" "respects_tools R ctx"
  shows "relates R (runAgentLoopContinue fuel ctx cfg) (\<lambda>_. True)"
proof -
  have "relates R (throwP msg) P" for msg and P :: "agent_message list \<Rightarrow> bool"
    by (auto simp: relates_def throwP_def R_refl)
  then show ?thesis
    unfolding runAgentLoopContinue_def
    by (auto intro!: rel_seq [OF rel_emit] rel_runLoop assms)
qed

end

end
