(* ===== verification/AgentRuns.thy ===== *)
theory AgentRuns
  imports AgentTrace AgentRelation
begin

text \<open>
  What a run of the agent loop promises: its events keep the protocol, its transcript is a list of
  turns, the results of tool calls come in the order of the calls however the tools interleave, a
  tool runs only after its checks, one call runs the same in both modes, and a run ends when the
  environment does. The last section has the environment the witnesses use.
\<close>

section \<open>Enough fuel stays enough\<close>

text \<open>\<open>refines m m'\<close>: wherever \<open>m\<close> has an outcome, \<open>m'\<close> has the same one, with the same events.\<close>

definition refines :: "('w, 'a) prog \<Rightarrow> ('w, 'a) prog \<Rightarrow> bool" where
  "refines m m' \<longleftrightarrow> (\<forall>\<sigma>. fst (m \<sigma>) = Hangs \<or> m' \<sigma> = m \<sigma>)"

lemma refines_refl [intro]: "refines m m"
  by (simp add: refines_def)

lemma refines_trans: "refines m1 m2 \<Longrightarrow> refines m2 m3 \<Longrightarrow> refines m1 m3"
  unfolding refines_def by metis

lemma refines_hang: "refines hangP m"
  by (simp add: refines_def hangP_def)

lemma refines_bind:
  assumes m: "refines m m'" and f: "\<And>x. refines (f x) (f' x)"
  shows "refines (bindP m f) (bindP m' f')"
  unfolding refines_def
proof
  fix \<sigma>
  obtain r \<sigma>1 where r: "m \<sigma> = (r, \<sigma>1)" by (metis prod.exhaust)
  show "fst (bindP m f \<sigma>) = Hangs \<or> bindP m' f' \<sigma> = bindP m f \<sigma>"
  proof (cases r)
    case (Done x)
    have "m' \<sigma> = (r, \<sigma>1)" using m r Done unfolding refines_def by (metis fst_conv outcome.distinct(3))
    then show ?thesis using f [of x] r Done unfolding refines_def by (simp add: bindP_def) (metis prod.exhaust)
  next
    case (Threw msg)
    have "m' \<sigma> = (r, \<sigma>1)" using m r Threw unfolding refines_def by (metis fst_conv outcome.distinct(5))
    then show ?thesis using r Threw by (simp add: bindP_def)
  next
    case Hangs
    then show ?thesis using r by (simp add: bindP_def)
  qed
qed

lemma stream_loop_refines: "refines (stream_loop cfg n ms b) (stream_loop cfg (n + k) ms b)"
proof (induction n arbitrary: ms b)
  case (Suc n)
  show ?case
    unfolding stream_loop.simps add_Suc
    by (intro refines_bind refines_refl)
      (auto intro!: refines_bind Suc.IH split: option.split AssistantMessageEvent.split)
qed (simp add: refines_hang)

lemma streamAssistantResponse_refines:
  "refines (streamAssistantResponse cfg n ctx) (streamAssistantResponse cfg (n + k) ctx)"
  unfolding streamAssistantResponse_def
  by (intro refines_bind refines_refl stream_loop_refines)

lemma run_turn_refines: "refines (run_turn n st) (run_turn (n + k) st)"
  unfolding run_turn_def
  by (intro refines_bind refines_refl streamAssistantResponse_refines)

lemma loop_turns_refines: "refines (loop_turns n st) (loop_turns (n + k) st)"
proof (induction n arbitrary: st)
  case (Suc n)
  show ?case
    unfolding loop_turns.simps add_Suc
    by (auto intro!: refines_bind run_turn_refines Suc.IH split: turn_result.split)
qed (simp add: refines_hang)

lemma runLoop_refines: "refines (runLoop n cfg ctx new) (runLoop (n + k) cfg ctx new)"
  unfolding runLoop_def by (intro refines_bind refines_refl loop_turns_refines)

lemma runAgentLoop_refines:
  "refines (runAgentLoop n prompts ctx cfg) (runAgentLoop (n + k) prompts ctx cfg)"
  unfolding runAgentLoop_def by (intro refines_bind refines_refl runLoop_refines)

lemma runAgentLoopContinue_refines:
  "refines (runAgentLoopContinue n ctx cfg) (runAgentLoopContinue (n + k) ctx cfg)"
  unfolding runAgentLoopContinue_def by (auto intro!: refines_bind runLoop_refines)

section \<open>Termination\<close>

text \<open>
  \<open>halts \<mu> m n Q\<close>: from a world of size \<open>n\<close> the program has an outcome, and when it returns \<open>x\<close>
  in a world of size \<open>n'\<close>, then \<open>Q x n'\<close>.
\<close>

definition halts :: "('w \<Rightarrow> nat) \<Rightarrow> ('w, 'a) prog \<Rightarrow> nat \<Rightarrow> ('a \<Rightarrow> nat \<Rightarrow> bool) \<Rightarrow> bool" where
  "halts \<mu> m n Q \<longleftrightarrow>
     (\<forall>w tr r w' tr'. \<mu> w = n \<and> m (w, tr) = (r, w', tr') \<longrightarrow> r \<noteq> Hangs \<and> (\<forall>x. r = Done x \<longrightarrow> Q x (\<mu> w')))"

lemma halts_mono: "halts \<mu> m n P \<Longrightarrow> (\<And>x n'. P x n' \<Longrightarrow> Q x n') \<Longrightarrow> halts \<mu> m n Q"
  unfolding halts_def by blast

lemma halts_ret: "Q x n \<Longrightarrow> halts \<mu> (retP x) n Q"
  by (auto simp: halts_def retP_def)

lemma halts_throw: "halts \<mu> (throwP msg) n Q"
  by (auto simp: halts_def throwP_def)

lemma halts_sum: "(\<And>x. r = Inr x \<Longrightarrow> Q x n) \<Longrightarrow> halts \<mu> (sumP r) n Q"
  by (auto simp: sumP_def intro: halts_ret halts_throw split: sum.split)

lemma halts_seq: "halts \<mu> m n (\<lambda>x n'. halts \<mu> (f x) n' Q) \<Longrightarrow> halts \<mu> (bindP m f) n Q"
  unfolding halts_def bindP_def
  by (auto split: prod.splits outcome.splits) blast+

text \<open>
  The world does not grow and the program has an outcome. The tool calls of a run keep this as
  any relation that composes.
\<close>

definition no_growth :: "('w \<Rightarrow> nat) \<Rightarrow> 'w run_rel" where
  "no_growth \<mu> = (\<lambda>w hangs evs w'. \<not> hangs \<and> \<mu> w' \<le> \<mu> w)"

interpretation growth: run_relation "no_growth \<mu>" for \<mu> :: "'w \<Rightarrow> nat"
  by unfold_locales (auto simp: no_growth_def)

lemma halts_rel: "relates (no_growth \<mu>) m P \<Longrightarrow> (\<And>x n'. n' \<le> n \<Longrightarrow> P x \<Longrightarrow> Q x n') \<Longrightarrow> halts \<mu> m n Q"
  unfolding relates_def halts_def no_growth_def by blast

text \<open>
  An environment that ends: every hook, queue, sink and tool returns or throws, and the stream
  function and the stream use up something of the world, so that there are finitely many requests
  and events.
\<close>

definition finite_streams :: "('w \<Rightarrow> nat) \<Rightarrow> 'w AgentLoopConfig \<Rightarrow> bool" where
  "finite_streams \<mu> cfg \<longleftrightarrow>
     (\<forall>m lc key r w out w'. cfg_stream cfg m lc key r w = (out, w') \<longrightarrow>
        out \<noteq> Hangs \<and> (out = Done () \<longrightarrow> \<mu> w' < \<mu> w)) \<and>
     (\<forall>w out w'. cfg_nextEvent cfg w = (out, w') \<longrightarrow>
        out \<noteq> Hangs \<and> \<mu> w' \<le> \<mu> w \<and> (\<forall>ev. out = Done (Some ev) \<longrightarrow> \<mu> w' < \<mu> w))"

definition finite_environment :: "('w \<Rightarrow> nat) \<Rightarrow> 'w AgentLoopConfig \<Rightarrow> bool" where
  "finite_environment \<mu> cfg \<longleftrightarrow>
     respects_hooks (no_growth \<mu>) cfg \<and> respects_updates (no_growth \<mu>) cfg \<and> finite_streams \<mu> cfg"

lemma stream_loop_halts:
  assumes h: "respects_hooks (no_growth \<mu>) cfg" and s: "finite_streams \<mu> cfg"
  shows "n < fuel \<Longrightarrow> halts \<mu> (stream_loop cfg fuel ms b) n (\<lambda>_ n'. n' \<le> n)"
proof (induction fuel arbitrary: n ms b)
  case (Suc fuel)
  have next_event: "halts \<mu> (callP (cfg_nextEvent cfg)) n (\<lambda>ev n'. n' \<le> n \<and> (ev \<noteq> None \<longrightarrow> n' < n))"
    using s unfolding halts_def callP_def finite_streams_def by (auto split: prod.splits)
  have fin: "n' \<le> n \<Longrightarrow> halts \<mu> (finish_stream cfg ms b) n' (\<lambda>_ k. k \<le> n)" for n' ms b
    by (rule halts_rel [OF growth.rel_finish_stream [OF h]]) simp
  have rest: "n' < n \<Longrightarrow> halts \<mu> (stream_loop cfg fuel ms b) n' (\<lambda>_ k. k \<le> n)" for n' ms b
    by (rule halts_mono [OF Suc.IH]) (use Suc.prems in auto)
  have emit: "n' < n \<Longrightarrow> halts \<mu> (bindP (emit cfg ev) (\<lambda>_. stream_loop cfg fuel ms b)) n' (\<lambda>_ k. k \<le> n)" for n' ev ms b
    by (rule halts_seq, rule halts_rel [OF growth.rel_emit [OF h]]) (simp add: rest)
  show ?case
    unfolding stream_loop.simps
    by (rule halts_seq, rule halts_mono [OF next_event])
      (auto intro: fin rest emit split: option.split AssistantMessageEvent.split)
qed simp

lemma streamAssistantResponse_halts:
  assumes h: "respects_hooks (no_growth \<mu>) cfg" and s: "finite_streams \<mu> cfg" and f: "n \<le> fuel"
  shows "halts \<mu> (streamAssistantResponse cfg fuel ctx) n (\<lambda>r n'. n' < n \<and> ctx_tools (snd r) = ctx_tools ctx)"
proof -
  have req: "halts \<mu> (callP (cfg_stream cfg m lc k r)) n' (\<lambda>_ n''. n'' < n')" for m lc k r n'
    using s unfolding halts_def callP_def finite_streams_def by (auto split: prod.splits)
  show ?thesis
    unfolding streamAssistantResponse_def
    apply (rule halts_seq, rule halts_rel [OF growth.rel_transform [OF h]])
    apply (rule halts_seq, rule halts_rel [OF growth.rel_call [OF respects_hooksD(2) [OF h]]])
    apply (rule halts_seq, rule halts_rel [OF growth.rel_resolve_key [OF h]])
    apply (rule halts_seq, rule halts_mono [OF req])
    apply (rule halts_seq, rule halts_mono [OF stream_loop_halts [OF h s]])
    using f by (auto intro!: halts_ret split: prod.split)
qed

definition state_ok :: "('w \<Rightarrow> nat) \<Rightarrow> 'w loop_state \<Rightarrow> bool" where
  "state_ok \<mu> st \<longleftrightarrow> respects_loop (no_growth \<mu>) st \<and> finite_streams \<mu> (ls_config st)"

lemma finite_streams_settings [simp]:
  "finite_streams \<mu> (cfg\<lparr>cfg_model := m, cfg_reasoning := r\<rparr>) = finite_streams \<mu> cfg"
  by (simp add: finite_streams_def)

lemma after_response_streams:
  assumes "after_response st am \<sigma> = (Done (TurnNext st'), \<sigma>')"
  shows "cfg_stream (ls_config st') = cfg_stream (ls_config st) \<and> cfg_nextEvent (ls_config st') = cfg_nextEvent (ls_config st)"
proof -
  have u: "cfg_stream (ls_config (apply_update u s)) = cfg_stream (ls_config s) \<and>
      cfg_nextEvent (ls_config (apply_update u s)) = cfg_nextEvent (ls_config s)" for u and s :: "'a loop_state"
    by (simp add: apply_update_def split: option.split)
  show ?thesis
    using assms
    by (auto simp: after_response_def bindP_def Let_def u retP_def add_messages_def
        split: prod.splits outcome.splits if_splits)
qed

lemma after_response_halts:
  assumes ok: "state_ok \<mu> st" and k: "k < n"
  shows "halts \<mu> (after_response st am) k (\<lambda>r n'. \<forall>st'. r = TurnNext st' \<longrightarrow> n' < n \<and> state_ok \<mu> st')"
proof -
  have l: "respects_loop (no_growth \<mu>) st" using ok by (simp add: state_ok_def)
  show ?thesis
    unfolding halts_def
  proof (intro allI impI, elim conjE)
    fix w tr out w' tr'
    assume w: "\<mu> w = k" "after_response st am (w, tr) = (out, w', tr')"
    from relatesD [OF growth.rel_after_response [OF l] w(2)] obtain evs where
      e: "no_growth \<mu> w (out = Hangs) evs w'"
        "\<And>x st'. out = Done x \<Longrightarrow> x = TurnNext st' \<Longrightarrow> respects_loop (no_growth \<mu>) st'"
      by metis
    have "state_ok \<mu> st'" if "out = Done (TurnNext st')" for st'
    proof -
      have "cfg_stream (ls_config st') = cfg_stream (ls_config st) \<and> cfg_nextEvent (ls_config st') = cfg_nextEvent (ls_config st)"
        using after_response_streams w(2) that by metis
      then show ?thesis using e(2) [OF that] ok by (simp add: state_ok_def finite_streams_def)
    qed
    moreover have "out \<noteq> Hangs" "\<mu> w' \<le> k" using e(1) w(1) by (simp_all add: no_growth_def)
    ultimately show "out \<noteq> Hangs \<and> (\<forall>x. out = Done x \<longrightarrow> (\<forall>st'. x = TurnNext st' \<longrightarrow> \<mu> w' < n \<and> state_ok \<mu> st'))"
      using k by simp
  qed
qed

lemma run_turn_halts:
  assumes ok: "state_ok \<mu> st" and f: "n \<le> fuel"
  shows "halts \<mu> (run_turn fuel st) n (\<lambda>r n'. \<forall>st'. r = TurnNext st' \<longrightarrow> n' < n \<and> state_ok \<mu> st')"
proof -
  have l: "respects_loop (no_growth \<mu>) st" and s: "finite_streams \<mu> (ls_config st)"
    using ok by (simp_all add: state_ok_def)
  have h: "respects_hooks (no_growth \<mu>) (ls_config st)" by (rule respects_loopD [OF l])
  have stop: "halts \<mu> (bindP (emit (ls_config st) e) (\<lambda>_. bindP (end_run (ls_config st) ms) (\<lambda>ms. retP (TurnStop ms)))) k
      (\<lambda>r n'. \<forall>st'. r = TurnNext st' \<longrightarrow> n' < n \<and> state_ok \<mu> st')" for e ms k
    by (rule halts_seq, rule halts_rel [OF growth.rel_emit [OF h]], rule halts_seq,
        rule halts_rel [OF growth.rel_end_run [OF h]]) (simp add: halts_ret)
  show ?thesis
    unfolding run_turn_def Let_def
    apply (rule halts_seq, rule halts_rel [OF growth.rel_inject [OF l]], elim conjE)
    subgoal for st' n'
      apply (rule halts_seq, rule halts_mono [OF streamAssistantResponse_halts])
      subgoal by (simp add: h)
      subgoal by (simp add: s)
      subgoal using f by simp
      subgoal for r k
      proof (cases r)
        case (Pair am ctx)
        assume a: "n' \<le> n" "respects_loop (no_growth \<mu>) st'" "ls_config st' = ls_config st"
          "k < n' \<and> ctx_tools (snd r) = ctx_tools (ls_context st')"
        then have "state_ok \<mu> (st'\<lparr>ls_context := ctx, ls_newMessages := ms\<rparr>)" for ms
          using Pair s by (simp add: state_ok_def respects_loop_def respects_tools_def)
        then have "halts \<mu> (after_response (st'\<lparr>ls_context := ctx, ls_newMessages := ms\<rparr>) am) k
            (\<lambda>r n'. \<forall>st'. r = TurnNext st' \<longrightarrow> n' < n \<and> state_ok \<mu> st')" for ms
          by (rule after_response_halts) (use a in simp)
        then show ?thesis using stop a Pair by simp
      qed
      done
    done
qed

text \<open>
  A turn takes at least one unit of the world; an iteration that only asks for follow-up messages
  is followed by a turn, hence twice the size and one more.
\<close>

lemma loop_turns_halts:
  assumes "state_ok \<mu> st"
    and "(if ls_hasMoreToolCalls st \<or> ls_pending st \<noteq> [] then 2 * n else 2 * n + 1) < fuel"
  shows "halts \<mu> (loop_turns fuel st) n (\<lambda>_ _. True)"
  using assms
proof (induction fuel arbitrary: n st)
  case (Suc fuel)
  have l: "respects_loop (no_growth \<mu>) st" using Suc.prems(1) by (simp add: state_ok_def)
  show ?case
  proof (cases "ls_hasMoreToolCalls st \<or> ls_pending st \<noteq> []")
    case True
    with Suc.prems(2) have f: "2 * n \<le> fuel" by (simp split: if_splits)
    show ?thesis
      unfolding loop_turns.simps if_P [OF True]
      apply (rule halts_seq, rule halts_mono [OF run_turn_halts [OF Suc.prems(1)]])
      using f apply simp
      subgoal for r n'
        using f by (cases r) (auto intro!: halts_ret Suc.IH split: if_splits)
      done
  next
    case False
    with Suc.prems(2) have f: "2 * n < fuel" by (simp split: if_splits)
    have fu: "relates (no_growth \<mu>) (optional_call (cfg_getFollowUpMessages (ls_config st)) []) (\<lambda>_. True)"
      by (rule growth.rel_optional) (rule respects_hooksD(5) [OF respects_loopD(1) [OF l]])
    have end_ok: "halts \<mu> (end_run (ls_config st) ms) k (\<lambda>_ _. True)" for ms k
      by (rule halts_rel [OF growth.rel_end_run [OF respects_loopD(1) [OF l]]]) simp
    show ?thesis
      unfolding loop_turns.simps if_not_P [OF False]
      apply (rule halts_seq, rule halts_rel [OF fu])
      using f Suc.prems(1) by (auto intro!: Suc.IH end_ok simp: state_ok_def)
  qed
qed simp

lemma runAgentLoop_halts:
  assumes "finite_environment \<mu> cfg" "respects_tools (no_growth \<mu>) ctx" "2 * n < fuel"
  shows "halts \<mu> (runAgentLoop fuel prompts ctx cfg) n (\<lambda>_ _. True)"
proof -
  have h: "respects_hooks (no_growth \<mu>) cfg" using assms(1) by (simp add: finite_environment_def)
  have st: "relates (no_growth \<mu>) (optional_call (cfg_getSteeringMessages cfg) []) (\<lambda>_. True)"
    by (rule growth.rel_optional) (rule respects_hooksD(4) [OF h])
  show ?thesis
    unfolding runAgentLoop_def runLoop_def
    apply (rule halts_seq, rule halts_rel [OF growth.rel_emit [OF h]])
    apply (rule halts_seq, rule halts_rel [OF growth.rel_emit [OF h]])
    apply (rule halts_seq, rule halts_rel [OF growth.rel_for [OF growth.rel_emit_message [OF h]]])
    apply (rule halts_seq, rule halts_rel [OF st])
    apply (rule loop_turns_halts)
    using assms by (simp_all add: state_ok_def respects_loop_def finite_environment_def)
qed

section \<open>An environment\<close>

text \<open>
  The world is the list of responses the provider will give; a stream has a \<open>done\<close> event only when
  there is a response left. The tool \<open>echo\<close> reports one partial result.
\<close>

definition sample_model :: Model where
  "sample_model = \<lparr>mo_id = js ''m'', mo_api = js ''a'', mo_provider = js ''p'', mo_reasoning = False, mo_input = [TextInput],
     mo_contextWindow = 1000, mo_maxTokens = 100\<rparr>"

definition sample_response :: "assistant_block list \<Rightarrow> StopReason \<Rightarrow> AssistantMessage" where
  "sample_response content reason =
     \<lparr>am_content = content, am_api = js ''a'', am_provider = js ''p'', am_model = js ''m'',
      am_responseModel = None, am_responseId = None, am_diagnostics = None, am_usage = None,
      am_stopReason = reason, am_errorMessage = None, am_timestamp = 0\<rparr>"

definition sample_call :: "jstring \<Rightarrow> jstring \<Rightarrow> ToolCall" where
  "sample_call i name = \<lparr>tc_id = i, tc_name = name, tc_arguments = [], tc_thoughtSignature = None\<rparr>"

definition sample_result :: "jstring \<Rightarrow> AgentToolResult" where
  "sample_result t = \<lparr>atr_content = [TextBlock t None], atr_details = None, atr_terminate = None\<rparr>"

definition sample_tool :: "AssistantMessage list AgentTool" where
  "sample_tool =
     \<lparr>at_name = js ''echo'', at_executionMode = None, at_prepareArguments = None,
      at_validate = (\<lambda>a. Inr (JObj a)),
      at_execute = (\<lambda>i args w. (([sample_result (js ''half'')], Done (sample_result (js ''ok''))), w))\<rparr>"

definition sample_context :: "AssistantMessage list AgentContext" where
  "sample_context = \<lparr>ctx_systemPrompt = [], ctx_messages = [], ctx_tools = [sample_tool]\<rparr>"

definition sample_config :: "nat list \<Rightarrow> AssistantMessage list AgentLoopConfig" where
  "sample_config schedule =
     \<lparr>cfg_model = sample_model, cfg_reasoning = None, cfg_apiKey = None,
      cfg_convertToLlm = (\<lambda>ms w. (Done (convertToLlm ms), w)), cfg_transformContext = None,
      cfg_getApiKey = None, cfg_getSteeringMessages = None, cfg_getFollowUpMessages = None,
      cfg_shouldStopAfterTurn = None, cfg_prepareNextTurn = None, cfg_toolExecution = None,
      cfg_beforeToolCall = None, cfg_afterToolCall = None,
      cfg_stream = (\<lambda>m lc key r w. case w of [] \<Rightarrow> (Threw (js ''no response''), w) | _ \<Rightarrow> (Done (), w)),
      cfg_nextEvent = (\<lambda>w. (Done None, w)),
      cfg_result = (\<lambda>w. case w of [] \<Rightarrow> (Threw (js ''no response''), w) | m # ms \<Rightarrow> (Done m, ms)),
      cfg_aborted = (\<lambda>w. False), cfg_now = (\<lambda>w. (0, w)), cfg_schedule = (\<lambda>w. schedule),
      cfg_sink = (\<lambda>ev w. (Done (), w))\<rparr>"

definition sample_two_calls :: AssistantMessage where
  "sample_two_calls = sample_response
     [AToolCall (sample_call (js ''1'') (js ''echo'')), AToolCall (sample_call (js ''2'') (js ''none''))] ToolUse"

definition sample_final :: AssistantMessage where
  "sample_final = sample_response [AText (js ''done'') None] Stop"

lemmas program_eval = bindP_def retP_def throwP_def hangP_def tryP_def callP_def emitP_def sumP_def
  emit_def abortedP_def nowP_def emit_message_def emit_start_def emit_update_def emitToolExecutionEnd_def
  emitToolResultMessage_def createToolResultMessage_def start_call_def settle_def abort_check_def
  optional_call_def end_run_def inject_pending_def add_messages_def apply_update_def after_response_def
  run_turn_def runLoop_def runAgentLoop_def executeToolCalls_def executeToolCallsSequential_def
  executeToolCallsParallel_def finish_call_def step_call_def complete_call_def result_message_def
  run_call_def finalizeExecutedToolCall_def executePreparedToolCall_def prepareToolCall_def
  prepareToolCallArguments_def shouldTerminateToolBatch_def find_tool_def finish_stream_def
  streamAssistantResponse_def resolve_key_def createErrorToolResult_def assistant_msg_def

lemmas sample_eval = sample_model_def sample_response_def sample_call_def sample_result_def sample_tool_def
  sample_context_def sample_config_def sample_two_calls_def sample_final_def

lemma sample_run:
  "\<exists>new tr. runAgentLoop (Suc (Suc (Suc (Suc 0)))) [] sample_context (sample_config [1, 0, 0])
       ([sample_two_calls, sample_final], []) = (Done new, [], tr) \<and> length new = 4"
  by (simp add: program_eval sample_eval Let_def js_eval)

lemma sample_tools:
  "\<exists>results w' tr. executeToolCalls (sample_config [1, 0, 0]) sample_context sample_two_calls ([], []) =
       (Done (results, False), w', tr) \<and> length tr = 9"
  by (simp add: program_eval sample_eval Let_def js_eval)

section \<open>One call runs the same in both modes\<close>

lemma bind_assoc: "bindP (bindP m f) g = bindP m (\<lambda>x. bindP (f x) g)"
  by (rule ext) (simp add: bindP_def split: prod.split outcome.split)

lemma bind_ret [simp]: "bindP (retP x) f = f x" "bindP m retP = m"
  by (rule ext, simp add: bindP_def retP_def split: prod.split outcome.split)+

lemma bind_read: "bindP (callP (\<lambda>w. (Done (f w), w))) (\<lambda>_. m) = m"
  by (rule ext) (simp add: bindP_def callP_def split: prod.split)

lemma bind_aborted: "bindP (abortedP cfg) (\<lambda>_. m) = m"
  unfolding abortedP_def by (rule bind_read)

lemma step_complete: "bindP (step_call cfg ctx am c) (complete_call cfg ctx am) = complete_call cfg ctx am c"
proof (cases c)
  case (Running tc args us out)
  then show ?thesis by (cases us) (simp_all add: step_call_def complete_call_def bind_assoc)
qed (simp_all add: step_call_def complete_call_def bind_assoc split_def)

lemma schedule_complete_one:
  "bindP (run_schedule cfg ctx am is [c]) (mapP (complete_call cfg ctx am)) =
   bindP (complete_call cfg ctx am c) (\<lambda>f. retP [f])"
proof (induction "is" arbitrary: c)
  case (Cons i "is")
  show ?case
  proof (cases "i = 0")
    case True
    then have "bindP (run_schedule cfg ctx am (i # is) [c]) (mapP (complete_call cfg ctx am)) =
        bindP (step_call cfg ctx am c) (\<lambda>c'. bindP (complete_call cfg ctx am c') (\<lambda>f. retP [f]))"
      by (simp add: bind_assoc Cons.IH)
    also have "\<dots> = bindP (bindP (step_call cfg ctx am c) (complete_call cfg ctx am)) (\<lambda>f. retP [f])"
      by (simp add: bind_assoc)
    finally show ?thesis by (simp add: step_complete)
  next
    case False
    then show ?thesis by (simp add: Cons.IH)
  qed
qed simp

lemma parallel_one:
  "executeToolCallsParallel cfg ctx am [tc] =
     bindP (emit_start cfg tc) (\<lambda>_.
     bindP (prepareToolCall cfg ctx am tc) (\<lambda>p.
     bindP (bindP (case p of
              Immediate result isError \<Rightarrow>
                (let finalized = \<lparr>fin_toolCall = tc, fin_result = result, fin_isError = isError\<rparr>
                 in bindP (emitToolExecutionEnd cfg finalized) (\<lambda>_. retP (Finished finalized)))
            | Prepared tc' tool args \<Rightarrow> retP (NotStarted tc' tool args)) (complete_call cfg ctx am)) (\<lambda>f.
     bindP (result_message cfg f) (\<lambda>m. retP ([m], shouldTerminateToolBatch [f])))))"
  (is "_ = bindP ?e (\<lambda>_. bindP ?p (\<lambda>p. bindP (bindP (?c p) _) _))")
proof -
  have one: "bindP (run_schedule cfg ctx am is [c]) (\<lambda>cs. bindP (mapP (complete_call cfg ctx am) cs) g) =
      bindP (complete_call cfg ctx am c) (\<lambda>f. g [f])" for "is" c g
    using arg_cong [OF schedule_complete_one, of "\<lambda>m. bindP m g"] by (simp add: bind_assoc)
  have sch: "bindP (callP (\<lambda>w. (Done (cfg_schedule cfg w), w))) (\<lambda>is.
      bindP (run_schedule cfg ctx am is [c]) (\<lambda>cs. bindP (mapP (complete_call cfg ctx am) cs) g)) =
      bindP (complete_call cfg ctx am c) (\<lambda>f. g [f])" for c g
    by (simp only: one bind_read)
  show ?thesis
    unfolding executeToolCallsParallel_def
    by (simp add: bind_assoc bind_aborted sch cong: if_cong)
qed

lemma sequential_one:
  "executeToolCallsSequential cfg ctx am [tc] =
     bindP (run_call cfg ctx am tc) (\<lambda>r. retP ([snd r], shouldTerminateToolBatch [fst r]))"
  unfolding executeToolCallsSequential_def by (simp add: bind_assoc bind_aborted cong: if_cong)

text \<open>A response with a single tool call runs the same in parallel mode as in
  sequential mode, event for event, whatever the tool, the hooks and the schedule do.\<close>

theorem single_call_same_in_both_modes:
  "executeToolCallsParallel cfg ctx am [tc] = executeToolCallsSequential cfg ctx am [tc]"
proof -
  have "bindP (bindP (case p of
              Immediate result isError \<Rightarrow>
                (let finalized = \<lparr>fin_toolCall = tc, fin_result = result, fin_isError = isError\<rparr>
                 in bindP (emitToolExecutionEnd cfg finalized) (\<lambda>_. retP (Finished finalized)))
            | Prepared tc' tool args \<Rightarrow> retP (NotStarted tc' tool args)) (complete_call cfg ctx am)) g =
     bindP (case p of
              Immediate result isError \<Rightarrow>
                retP \<lparr>fin_toolCall = tc, fin_result = result, fin_isError = isError\<rparr>
            | Prepared tc' tool args \<Rightarrow>
                bindP (executePreparedToolCall cfg tc' tool args)
                  (finalizeExecutedToolCall cfg ctx am tc' args)) (\<lambda>f.
     bindP (emitToolExecutionEnd cfg f) (\<lambda>_. g f))" for p and g :: "_ \<Rightarrow> ('a, ToolResultMessage list \<times> bool) prog"
    by (cases p) (simp_all add: Let_def bind_assoc complete_call_def executePreparedToolCall_def
        finish_call_def split_def)
  then show ?thesis
    unfolding parallel_one sequential_one run_call_def
    by (simp add: bind_assoc result_message_def)
qed

section \<open>What a run promises\<close>

text \<open>Claim C1: the events of a run, whatever its outcome, follow the protocol of
  \<open>phase_step\<close>; a run that returns has ended with \<open>agent_end\<close>, which carries the returned messages,
  and these are exactly the messages that ended during the run, in order.\<close>

theorem agent_run_protocol:
  assumes "runAgentLoop fuel prompts ctx cfg (w, []) = (r, w', tr) \<or>
    runAgentLoopContinue fuel ctx cfg (w, []) = (r, w', tr)"
  shows "\<exists>ph. run_phase PStart tr = Some ph \<and> (\<forall>new. r = Done new \<longrightarrow> ph = PEnd new \<and> ends tr = new)"
  using assms
proof
  assume "runAgentLoop fuel prompts ctx cfg (w, []) = (r, w', tr)"
  from yieldsD [OF runAgentLoop_traces [unfolded traces_def] this] show ?thesis by auto
next
  assume "runAgentLoopContinue fuel ctx cfg (w, []) = (r, w', tr)"
  from yieldsD [OF runAgentLoopContinue_traces [unfolded traces_def] this] show ?thesis by auto
qed

theorem agent_run_protocol_witness:
  "\<exists>new tr. runAgentLoop (Suc (Suc (Suc (Suc 0)))) [] sample_context (sample_config [1, 0, 0])
       ([sample_two_calls, sample_final], []) = (Done new, [], tr) \<and>
     length new = 4 \<and> run_phase PStart tr = Some (PEnd new) \<and> ends tr = new"
proof -
  obtain new tr where r: "runAgentLoop (Suc (Suc (Suc (Suc 0)))) [] sample_context (sample_config [1, 0, 0])
      ([sample_two_calls, sample_final], []) = (Done new, [], tr)" "length new = 4"
    using sample_run by blast
  show ?thesis
    using agent_run_protocol [OF disjI1 [OF r(1)]] r by blast
qed

text \<open>Claim C3: the messages a run returns are the prompts followed by at least one
  turn. A turn is its pending messages, one response and results; the results answer the tool
  calls of the response in order, all of them when the run is never aborted; a failed or aborted
  response can only be in the last turn and has no results; and every further turn has a reason,
  the results of the turn before it or a pending message.\<close>

theorem agent_run_transcript:
  assumes "runAgentLoop fuel prompts ctx cfg (w, []) = (Done new, w', tr)"
  shows "\<exists>ts. ts \<noteq> [] \<and> new = prompts @ run_messages ts \<and> turns_ok cfg ts"
  using yieldsD [OF runAgentLoop_traces [unfolded traces_def] assms] by auto

theorem agent_run_transcript_witness:
  "\<exists>new w' tr ts. runAgentLoop (Suc (Suc (Suc (Suc 0)))) [] sample_context (sample_config [1, 0, 0])
       ([sample_two_calls, sample_final], []) = (Done new, w', tr) \<and>
     length new = 4 \<and> ts \<noteq> [] \<and> new = run_messages ts \<and> turns_ok (sample_config [1, 0, 0]) ts"
proof -
  obtain new tr where r: "runAgentLoop (Suc (Suc (Suc (Suc 0)))) [] sample_context (sample_config [1, 0, 0])
      ([sample_two_calls, sample_final], []) = (Done new, [], tr)" "length new = 4"
    using sample_run by blast
  show ?thesis
    using agent_run_transcript [OF r(1)] r by auto
qed

text \<open>Claim C9: the results of the tool calls of a response are in the order of the
  calls and name the calls they answer, in both modes and for every schedule of the running tools;
  they are the messages that ended meanwhile; without an abort every call has its result.\<close>

theorem tool_results_in_call_order:
  assumes "executeToolCalls cfg ctx am (w, []) = (Done (results, terminate), w', tr)"
  shows "prefix (map result_key results) (map call_key (tool_calls_of (am_content am))) \<and>
    ((\<forall>w. \<not> cfg_aborted cfg w) \<longrightarrow> map result_key results = map call_key (tool_calls_of (am_content am))) \<and>
    ends tr = map tool_result_msg results \<and> run_phase (PTurn {#}) tr = Some (PTurn {#})"
proof -
  from yieldsD [OF executeToolCalls_traces [unfolded traces_def] assms(1)]
  have a: "answers cfg (tool_calls_of (am_content am)) results" "ends tr = map tool_result_msg results"
    "run_phase (PTurn {#}) tr = Some (PTurn {#})"
    by auto
  have "length xs = length ys \<Longrightarrow> prefix xs ys \<Longrightarrow> xs = ys" for xs ys :: "(jstring \<times> jstring) list"
    by (auto simp: prefix_def)
  with a show ?thesis unfolding answers_def by simp
qed

theorem tool_results_in_call_order_witness:
  "\<exists>results terminate w' tr. executeToolCalls (sample_config [1, 0, 0]) sample_context sample_two_calls ([], []) =
       (Done (results, terminate), w', tr) \<and> length tr = 9 \<and>
     map result_key results = [call_key (sample_call (js ''1'') (js ''echo'')), call_key (sample_call (js ''2'') (js ''none''))]"
proof -
  obtain results w' tr where r:
    "executeToolCalls (sample_config [1, 0, 0]) sample_context sample_two_calls ([], []) =
       (Done (results, False), w', tr)" "length tr = 9"
    using sample_tools by blast
  have calls: "tool_calls_of (am_content sample_two_calls) =
      [sample_call (js ''1'') (js ''echo''), sample_call (js ''2'') (js ''none'')]"
    by (simp add: sample_two_calls_def sample_response_def)
  have never: "\<forall>w. \<not> cfg_aborted (sample_config [1, 0, 0]) w" by (simp add: sample_config_def)
  show ?thesis
    using tool_results_in_call_order [OF r(1)] r never calls by auto
qed

text \<open>What must have gone well before a tool runs.\<close>

lemma abort_check_prepared:
  "abort_check cfg p \<sigma> = (Done (Prepared tc' tool args), \<sigma>') \<Longrightarrow>
   p = Prepared tc' tool args \<and> \<sigma>' = \<sigma> \<and> \<not> cfg_aborted cfg (fst \<sigma>)"
  by (auto simp: abort_check_def bindP_def retP_def abortedP_def callP_def split: prod.splits if_splits)

lemma abort_check_immediate:
  "abort_check cfg p \<sigma> = (Done (Immediate r e), \<sigma>') \<Longrightarrow> p = Immediate r e \<or> e"
  by (auto simp: abort_check_def bindP_def retP_def abortedP_def callP_def split: prod.splits if_splits)

lemma prepareToolCall_never_throws:
  "fst (prepareToolCall cfg ctx am tc \<sigma>) \<noteq> Threw msg"
  by (auto simp: prepareToolCall_def tryP_def retP_def split: option.split prod.split outcome.split)

text \<open>Claim C11: a tool call is handed to its tool only after every check: the tool is
  in the context under the name of the call, its arguments were prepared and passed the validation,
  the \<open>beforeToolCall\<close> hook ran on the validated arguments and did not block, and after that the run
  was not aborted. The tool gets the validated arguments as the hook left them; what the hook changes
  in them is not validated again. Preparing emits nothing and never throws; what goes wrong becomes an error result.\<close>

theorem tool_runs_only_after_checks:
  assumes "prepareToolCall cfg ctx am tc (w, tr) = (out, w', tr')"
  shows "(\<forall>msg. out \<noteq> Threw msg) \<and> tr' = tr \<and>
    (\<forall>r e. out = Done (Immediate r e) \<longrightarrow> e) \<and>
    (\<forall>tc' tool args. out = Done (Prepared tc' tool args) \<longrightarrow>
       tc' = tc \<and> tool \<in> set (ctx_tools ctx) \<and> at_name tool = tc_name tc \<and>
       (\<exists>prepared validated. prepareToolCallArguments tool tc = Inr prepared \<and>
          at_validate tool (tc_arguments prepared) = Inr validated \<and>
          (case cfg_beforeToolCall cfg of
             None \<Rightarrow> args = validated \<and> w' = w
           | Some hook \<Rightarrow> \<exists>b. hook am tc validated ctx w = (Done (b, args), w') \<and> (\<forall>x. b = Some x \<longrightarrow> \<not> btr_block x))) \<and>
       \<not> cfg_aborted cfg w')"
proof (intro conjI allI impI)
  show "out \<noteq> Threw msg" for msg
    using prepareToolCall_never_throws [of cfg ctx am tc "(w, tr)" msg] assms by simp
  show "tr' = tr"
    using yieldsD [OF prepareToolCall_silent [unfolded silent_def] assms] by simp
next
  fix r e
  assume "out = Done (Immediate r e)"
  with assms show e
    by (auto simp: prepareToolCall_def tryP_def bindP_def retP_def sumP_def throwP_def callP_def
        dest!: abort_check_immediate
        split: prod.splits outcome.splits option.splits sum.splits if_splits)
next
  fix tc' tool args
  assume out: "out = Done (Prepared tc' tool args)"
  obtain t where t: "find_tool ctx (tc_name tc) = Some t"
    using assms out by (cases "find_tool ctx (tc_name tc)") (auto simp: prepareToolCall_def retP_def)
  have ts: "t \<in> set (ctx_tools ctx)" "at_name t = tc_name tc"
    using t by (auto simp: find_tool_def find_Some_iff)
  show "tc' = tc" "tool \<in> set (ctx_tools ctx)" "at_name tool = tc_name tc"
    "\<exists>prepared validated. prepareToolCallArguments tool tc = Inr prepared \<and>
       at_validate tool (tc_arguments prepared) = Inr validated \<and>
       (case cfg_beforeToolCall cfg of
          None \<Rightarrow> args = validated \<and> w' = w
        | Some hook \<Rightarrow> \<exists>b. hook am tc validated ctx w = (Done (b, args), w') \<and> (\<forall>x. b = Some x \<longrightarrow> \<not> btr_block x))"
    "\<not> cfg_aborted cfg w'"
    using assms out t ts
    by (auto simp: prepareToolCall_def tryP_def bindP_def retP_def sumP_def throwP_def callP_def
        dest!: abort_check_prepared
        split: prod.splits outcome.splits option.splits sum.splits if_splits)
qed

theorem tool_runs_only_after_checks_witness:
  "\<exists>tool args. prepareToolCall (sample_config []) sample_context sample_final (sample_call (js ''1'') (js ''echo'')) ([], []) =
      (Done (Prepared (sample_call (js ''1'') (js ''echo'')) tool args), [], []) \<and>
    tool \<in> set (ctx_tools sample_context) \<and> at_name tool = js ''echo''"
proof -
  have "prepareToolCall (sample_config []) sample_context sample_final (sample_call (js ''1'') (js ''echo'')) ([], []) =
      (Done (Prepared (sample_call (js ''1'') (js ''echo'')) sample_tool (JObj [])), [], [])"
    by (simp add: program_eval sample_eval js_eval)
  from tool_runs_only_after_checks [OF this] this show ?thesis by (auto simp: sample_call_def)
qed

text \<open>Claim C10: a run comes to an end when its environment does: if no hook, queue,
  sink or tool hangs, and the requests and stream events left are bounded by a measure of the world,
  then fuel for twice that measure and one more is enough, and any more fuel gives the same run.\<close>

theorem agent_run_terminates:
  assumes "finite_environment \<mu> cfg" and "respects_tools (no_growth \<mu>) ctx" and "2 * \<mu> w + 1 \<le> fuel"
  shows "fst (runAgentLoop fuel prompts ctx cfg (w, tr)) \<noteq> Hangs \<and>
    runAgentLoop fuel prompts ctx cfg (w, tr) = runAgentLoop (2 * \<mu> w + 1) prompts ctx cfg (w, tr)"
proof -
  have "halts \<mu> (runAgentLoop (2 * \<mu> w + 1) prompts ctx cfg) (\<mu> w) (\<lambda>_ _. True)"
    by (rule runAgentLoop_halts [OF assms(1,2)]) simp
  then have h: "fst (runAgentLoop (2 * \<mu> w + 1) prompts ctx cfg (w, tr)) \<noteq> Hangs"
    unfolding halts_def by (metis prod.collapse)
  have "fuel = (2 * \<mu> w + 1) + (fuel - (2 * \<mu> w + 1))" using assms(3) by simp
  then have "runAgentLoop fuel prompts ctx cfg (w, tr) = runAgentLoop (2 * \<mu> w + 1) prompts ctx cfg (w, tr)"
    using runAgentLoop_refines [of "2 * \<mu> w + 1" prompts ctx cfg "fuel - (2 * \<mu> w + 1)"] h
    unfolding refines_def by metis
  with h show ?thesis by simp
qed

text \<open>An environment with a budget of requests: a request takes one unit, the stream has no events.\<close>

definition budget_config :: "nat AgentLoopConfig" where
  "budget_config =
     \<lparr>cfg_model = sample_model, cfg_reasoning = None, cfg_apiKey = None,
      cfg_convertToLlm = (\<lambda>ms w. (Done (convertToLlm ms), w)), cfg_transformContext = None,
      cfg_getApiKey = None, cfg_getSteeringMessages = None, cfg_getFollowUpMessages = None,
      cfg_shouldStopAfterTurn = None, cfg_prepareNextTurn = None, cfg_toolExecution = Some Sequential,
      cfg_beforeToolCall = None, cfg_afterToolCall = None,
      cfg_stream = (\<lambda>m lc key r w. case w of 0 \<Rightarrow> (Threw (js ''no budget''), 0) | Suc n \<Rightarrow> (Done (), n)),
      cfg_nextEvent = (\<lambda>w. (Done None, w)),
      cfg_result = (\<lambda>w. (Done (sample_response [AToolCall (sample_call (js ''1'') (js ''none''))] ToolUse), w)),
      cfg_aborted = (\<lambda>w. False), cfg_now = (\<lambda>w. (0, w)), cfg_schedule = (\<lambda>w. []),
      cfg_sink = (\<lambda>ev w. (Done (), w))\<rparr>"

theorem agent_run_terminates_witness:
  "fst (runAgentLoop 100 [] \<lparr>ctx_systemPrompt = [], ctx_messages = [], ctx_tools = []\<rparr> budget_config (7, [])) \<noteq> Hangs"
proof -
  have "finite_environment (\<lambda>n. n) budget_config"
    unfolding finite_environment_def respects_hooks_def respects_updates_def finite_streams_def
      respects_call_def no_growth_def budget_config_def
    by (auto split: nat.splits)
  moreover have "respects_tools (no_growth (\<lambda>n. n)) \<lparr>ctx_systemPrompt = [], ctx_messages = [], ctx_tools = []\<rparr>"
    by (simp add: respects_tools_def)
  moreover have "2 * (7::nat) + 1 \<le> 100" by simp
  ultimately show ?thesis by (rule agent_run_terminates [THEN conjunct1])
qed

end
