(* ===== verification/EventStream.thy ===== *)
theory EventStream
  imports Prelude AgentTypes
begin

text \<open>
  \<open>packages/ai/src/utils/event-stream.ts\<close>: the queue between the producer of events and the
  consumers that iterate over it. A consumer is a number; an iterator that waits is in the list
  \<open>waiting\<close>. What the promises of the code deliver is the output of an operation.
\<close>

section \<open>The stream\<close>

record ('a, 'r) EventStream =
  es_queue :: "'a list"
  es_waiting :: "nat list"
  es_done :: bool
  es_result :: "'r option"

definition new_stream :: "('a, 'r) EventStream" where
  "new_stream = \<lparr>es_queue = [], es_waiting = [], es_done = False, es_result = None\<rparr>"

text \<open>\<open>resolveFinalResult\<close>: a promise keeps the first value.\<close>

definition resolve_result :: "'r \<Rightarrow> ('a, 'r) EventStream \<Rightarrow> ('a, 'r) EventStream" where
  "resolve_result r s = (case es_result s of None \<Rightarrow> s\<lparr>es_result := Some r\<rparr> | Some _ \<Rightarrow> s)"

text \<open>What an iterator receives: an event, or the end of the iteration.\<close>

datatype 'a delivery = Deliver nat 'a | Closed nat

definition push ::
    "('a \<Rightarrow> bool) \<Rightarrow> ('a \<Rightarrow> 'r) \<Rightarrow> 'a \<Rightarrow> ('a, 'r) EventStream \<Rightarrow> ('a, 'r) EventStream \<times> 'a delivery list" where
  "push isComplete extractResult e s =
     (if es_done s then (s, [])
      else
        let s1 = (if isComplete e then resolve_result (extractResult e) (s\<lparr>es_done := True\<rparr>) else s)
        in case es_waiting s1 of
             waiter # ws \<Rightarrow> (s1\<lparr>es_waiting := ws\<rparr>, [Deliver waiter e])
           | [] \<Rightarrow> (s1\<lparr>es_queue := es_queue s1 @ [e]\<rparr>, []))"

definition end_stream :: "'r option \<Rightarrow> ('a, 'r) EventStream \<Rightarrow> ('a, 'r) EventStream \<times> 'a delivery list" where
  "end_stream r s =
     (let s1 = s\<lparr>es_done := True\<rparr>;
          s2 = (case r of None \<Rightarrow> s1 | Some x \<Rightarrow> resolve_result x s1)
      in (s2\<lparr>es_waiting := []\<rparr>, map Closed (es_waiting s2)))"

text \<open>One request of an iterator.\<close>

definition next_event :: "nat \<Rightarrow> ('a, 'r) EventStream \<Rightarrow> ('a, 'r) EventStream \<times> 'a delivery list" where
  "next_event c s =
     (case es_queue s of
        e # es \<Rightarrow> (s\<lparr>es_queue := es\<rparr>, [Deliver c e])
      | [] \<Rightarrow> (if es_done s then (s, [Closed c]) else (s\<lparr>es_waiting := es_waiting s @ [c]\<rparr>, [])))"

section \<open>Interleavings\<close>

datatype ('a, 'r) stream_action = Push 'a | End "'r option" | Next nat

text \<open>
  The runs of a stream: the state, the events it accepted and the deliveries so far, after any
  interleaving of the producer and the consumers.
\<close>

inductive stream_run ::
    "('a \<Rightarrow> bool) \<Rightarrow> ('a \<Rightarrow> 'r) \<Rightarrow> ('a, 'r) EventStream \<Rightarrow> 'a list \<Rightarrow> 'a delivery list \<Rightarrow> bool"
  for isComplete :: "'a \<Rightarrow> bool" and extractResult :: "'a \<Rightarrow> 'r" where
  run_new: "stream_run isComplete extractResult new_stream [] []"
| run_push: "stream_run isComplete extractResult s acc ds \<Longrightarrow> push isComplete extractResult e s = (s', ds') \<Longrightarrow>
    stream_run isComplete extractResult s' (if es_done s then acc else acc @ [e]) (ds @ ds')"
| run_end: "stream_run isComplete extractResult s acc ds \<Longrightarrow> end_stream r s = (s', ds') \<Longrightarrow>
    stream_run isComplete extractResult s' acc (ds @ ds')"
| run_next: "stream_run isComplete extractResult s acc ds \<Longrightarrow> next_event c s = (s', ds') \<Longrightarrow>
    stream_run isComplete extractResult s' acc (ds @ ds')"

fun delivered :: "'a delivery list \<Rightarrow> 'a list" where
  "delivered [] = []"
| "delivered (Deliver c e # ds) = e # delivered ds"
| "delivered (Closed c # ds) = delivered ds"

lemma delivered_append [simp]: "delivered (xs @ ys) = delivered xs @ delivered ys"
  by (induction xs rule: delivered.induct) auto

lemma delivered_closed [simp]: "delivered (map Closed cs) = []"
  by (induction cs) auto

lemma resolve_result_simps [simp]:
  "es_queue (resolve_result r s) = es_queue s" "es_waiting (resolve_result r s) = es_waiting s"
  "es_done (resolve_result r s) = es_done s"
  "es_result (resolve_result r s) = Some (case es_result s of None \<Rightarrow> r | Some x \<Rightarrow> x)"
  by (simp_all add: resolve_result_def split: option.split)

lemma push_cases:
  assumes "push isComplete extractResult e s = (s', ds)"
  obtains (ignored) "es_done s" "s' = s" "ds = []"
  | (queued) "\<not> es_done s" "es_waiting s = []" "es_queue s' = es_queue s @ [e]" "es_waiting s' = []"
      "ds = []" "es_done s' = isComplete e"
  | (handed) c ws where "\<not> es_done s" "es_waiting s = c # ws" "es_queue s' = es_queue s" "es_waiting s' = ws"
      "ds = [Deliver c e]" "es_done s' = isComplete e"
  using assms by (cases "es_done s"; cases "es_waiting s"; cases "isComplete e") (auto simp: push_def Let_def)

text \<open>An event waits in the queue only while no consumer waits for one.\<close>

lemma stream_run_order:
  assumes "stream_run isComplete extractResult s acc ds"
  shows "delivered ds @ es_queue s = acc \<and> (es_waiting s = [] \<or> es_queue s = [])"
  using assms
proof (induction rule: stream_run.induct)
  case (run_push s acc ds e s' ds')
  from run_push.hyps(2) show ?case
    by (cases rule: push_cases) (use run_push.IH in auto)
next
  case (run_next s acc ds c s' ds')
  then show ?case by (cases "es_queue s") (auto simp: next_event_def split: if_splits)
qed (auto simp: new_stream_def end_stream_def Let_def split: option.split)

text \<open>Only the last accepted event can be a completing one, and the result is its result.\<close>

lemma stream_run_result:
  assumes "stream_run isComplete extractResult s acc ds"
  shows "(\<forall>e \<in> set (butlast acc). \<not> isComplete e) \<and> (\<not> es_done s \<longrightarrow> es_result s = None) \<and>
    (acc \<noteq> [] \<longrightarrow> isComplete (last acc) \<longrightarrow> es_done s \<and> es_result s = Some (extractResult (last acc)))"
  using assms
proof (induction rule: stream_run.induct)
  case (run_push s acc ds e s' ds')
  have no: "\<not> es_done s \<Longrightarrow> \<forall>e \<in> set acc. \<not> isComplete e"
  proof (cases "acc = []")
    case False
    moreover assume "\<not> es_done s"
    ultimately have "\<not> isComplete (last acc)" using run_push.IH by blast
    moreover have "acc = butlast acc @ [last acc]" using False by simp
    ultimately show ?thesis using run_push.IH by (metis Un_iff empty_iff insert_iff list.set(1,2) set_append)
  qed simp
  show ?case
    using run_push.hyps(2) run_push.IH no
    by (cases "es_done s"; cases "isComplete e"; cases "es_waiting s") (auto simp: push_def Let_def)
qed (auto simp: new_stream_def end_stream_def next_event_def Let_def split: option.splits list.splits if_splits)

text \<open>Claim C16: however the producer and the consumers interleave, the stream delivers
  the events it accepted in order and exactly once, what is not delivered is in the queue, an event
  is never queued while a consumer waits, and only the last accepted event can be a completing one;
  the result is then the one extracted from it, whatever \<open>end\<close> is called with afterwards.\<close>

theorem event_stream_delivers_in_order:
  assumes "stream_run isComplete extractResult s acc ds"
  shows "delivered ds @ es_queue s = acc \<and> (es_waiting s = [] \<or> es_queue s = []) \<and>
    (\<forall>e \<in> set (butlast acc). \<not> isComplete e) \<and>
    (acc \<noteq> [] \<longrightarrow> isComplete (last acc) \<longrightarrow> es_done s \<and> es_result s = Some (extractResult (last acc)))"
  using stream_run_order [OF assms] stream_run_result [OF assms] by blast

theorem event_stream_delivers_in_order_witness:
  "\<exists>s. stream_run (\<lambda>n. n = (9::nat)) (\<lambda>n. n + 1) s [4, 9] [Deliver 0 4, Deliver 0 9, Closed 0] \<and>
     delivered [Deliver 0 4, Deliver 0 9, Closed 0] @ es_queue s = [4, 9] \<and> es_result s = Some 10"
proof -
  let ?run = "stream_run (\<lambda>n. n = (9::nat)) (\<lambda>n. n + 1)"
  have "?run \<lparr>es_queue = [], es_waiting = [0], es_done = False, es_result = None\<rparr> [] ([] @ [])"
    by (rule run_next [OF run_new, where c = 0]) (simp add: next_event_def new_stream_def)
  then have "?run \<lparr>es_queue = [], es_waiting = [], es_done = False, es_result = None\<rparr> [4] ([] @ [Deliver 0 4])"
    using run_push [where e = 4 and ds = "[]" and acc = "[]"] by (fastforce simp: push_def)
  then have "?run \<lparr>es_queue = [9], es_waiting = [], es_done = True, es_result = Some 10\<rparr> [4, 9] ([Deliver 0 4] @ [])"
    using run_push [where e = 9 and ds = "[Deliver 0 4]" and acc = "[4]"]
    by (fastforce simp: push_def resolve_result_def)
  then have "?run \<lparr>es_queue = [], es_waiting = [], es_done = True, es_result = Some 10\<rparr> [4, 9] ([Deliver 0 4] @ [Deliver 0 9])"
    using run_next [where c = 0 and ds = "[Deliver 0 4]"] by (fastforce simp: next_event_def)
  then have r: "?run \<lparr>es_queue = [], es_waiting = [], es_done = True, es_result = Some 10\<rparr> [4, 9] ([Deliver 0 4, Deliver 0 9] @ [Closed 0])"
    using run_next [where c = 0 and ds = "[Deliver 0 4, Deliver 0 9]"] by (fastforce simp: next_event_def)
  let ?s = "\<lparr>es_queue = [], es_waiting = [], es_done = True, es_result = Some 10\<rparr>"
  from r have r2: "?run ?s [4, 9] [Deliver 0 4, Deliver 0 9, Closed 0]" by (simp only: append.simps)
  show ?thesis
    by (intro exI [of _ ?s] conjI r2) (use event_stream_delivers_in_order [OF r2] in simp_all)
qed

section \<open>The stream of a provider\<close>

fun is_final_event :: "AssistantMessageEvent \<Rightarrow> bool" where
  "is_final_event (StreamDone _ _) = True"
| "is_final_event (StreamError _ _) = True"
| "is_final_event _ = False"

text \<open>The branch that throws cannot be reached: the result is extracted from final events only.\<close>

fun final_message :: "AssistantMessageEvent \<Rightarrow> AssistantMessage option" where
  "final_message (StreamDone _ m) = Some m"
| "final_message (StreamError _ m) = Some m"
| "final_message _ = None"

lemma final_message_defined: "is_final_event e \<longleftrightarrow> final_message e \<noteq> None"
  by (cases e) auto

end
