(* ===== verification/AgentStream.thy ===== *)
theory AgentStream
  imports AgentRuns EventStream
begin

text \<open>
  \<open>agentLoop\<close> and \<open>agentLoopContinue\<close> of \<open>packages/agent/src/agent-loop.ts\<close>: the loop with an event
  stream as its sink. The stream is described as it is before a consumer takes events from it;
  what consumers then receive is the subject of \<open>EventStream\<close>.
\<close>

fun is_agent_end :: "AgentEvent \<Rightarrow> bool" where
  "is_agent_end (AgentEnd ms) = True"
| "is_agent_end _ = False"

fun agent_end_messages :: "AgentEvent \<Rightarrow> agent_message list" where
  "agent_end_messages (AgentEnd ms) = ms"
| "agent_end_messages _ = []"

type_synonym agent_stream = "(AgentEvent, agent_message list) EventStream"

definition createAgentStream :: agent_stream where
  "createAgentStream = new_stream"

definition push_event :: "AgentEvent \<Rightarrow> agent_stream \<Rightarrow> agent_stream" where
  "push_event ev s = fst (push is_agent_end agent_end_messages ev s)"

text \<open>The sink of the loop never throws: the events are pushed as they are emitted.\<close>

definition with_stream :: "'w AgentLoopConfig \<Rightarrow> 'w AgentLoopConfig" where
  "with_stream cfg = cfg\<lparr>cfg_sink := (\<lambda>ev w. (Done (), w))\<rparr>"

text \<open>
  \<open>void run.then((messages) => stream.end(messages))\<close>: the stream is ended when the run returns;
  nothing handles a run that throws.
\<close>

definition stream_of_run ::
    "agent_message list outcome \<times> 'w \<times> AgentEvent list \<Rightarrow> agent_stream \<times> 'w" where
  "stream_of_run run =
     (case run of (out, w, evs) \<Rightarrow>
       (let s = fold push_event evs createAgentStream
        in (case out of Done messages \<Rightarrow> fst (end_stream (Some messages) s) | _ \<Rightarrow> s), w))"

definition agentLoop ::
    "nat \<Rightarrow> agent_message list \<Rightarrow> 'w AgentContext \<Rightarrow> 'w AgentLoopConfig \<Rightarrow> 'w \<Rightarrow> agent_stream \<times> 'w" where
  "agentLoop fuel prompts ctx cfg w = stream_of_run (runAgentLoop fuel prompts ctx (with_stream cfg) (w, []))"

definition agentLoopContinue ::
    "nat \<Rightarrow> 'w AgentContext \<Rightarrow> 'w AgentLoopConfig \<Rightarrow> 'w \<Rightarrow> jstring + (agent_stream \<times> 'w)" where
  "agentLoopContinue fuel ctx cfg w =
     (if ctx_messages ctx = [] then Inl (js ''Cannot continue: no messages in context'')
      else if is_assistant (last (ctx_messages ctx))
      then Inl (js ''Cannot continue from message role: assistant'')
      else Inr (stream_of_run (runAgentLoopContinue fuel ctx (with_stream cfg) (w, []))))"

section \<open>Properties\<close>

lemma run_phase_end: "run_phase (PEnd ms) evs = Some ph \<Longrightarrow> evs = []"
  by (cases evs) auto

lemma agent_end_last:
  "run_phase ph evs = Some ph' \<Longrightarrow> \<forall>ev \<in> set (butlast evs). \<not> is_agent_end ev"
proof (induction evs arbitrary: ph)
  case (Cons ev evs)
  from Cons.prems obtain ph1 where p: "phase_step ph ev = Some ph1" "run_phase ph1 evs = Some ph'"
    by (auto split: option.splits)
  show ?case
  proof (cases "is_agent_end ev")
    case True
    then obtain ms where "ev = AgentEnd ms" by (cases ev) auto
    with p(1) have "ph1 = PEnd ms" by (cases ph) auto
    then show ?thesis using p(2) run_phase_end by fastforce
  next
    case False
    then show ?thesis using Cons.IH [OF p(2)] by auto
  qed
qed simp

lemma push_events_queue:
  assumes "es_waiting s = []" "\<not> es_done s" "\<forall>ev \<in> set (butlast evs). \<not> is_agent_end ev"
  shows "es_queue (fold push_event evs s) = es_queue s @ evs \<and> es_waiting (fold push_event evs s) = [] \<and>
    es_done (fold push_event evs s) = (\<exists>ev \<in> set evs. is_agent_end ev) \<and>
    es_result (fold push_event evs s) =
      (case find is_agent_end evs of
         None \<Rightarrow> es_result s | Some ev \<Rightarrow> Some (case es_result s of None \<Rightarrow> agent_end_messages ev | Some r \<Rightarrow> r))"
  using assms
proof (induction evs arbitrary: s)
  case (Cons ev evs)
  show ?case
  proof (cases "evs = []")
    case True
    then show ?thesis using Cons.prems by (cases "is_agent_end ev") (auto simp: push_event_def push_def Let_def)
  next
    case False
    then have n: "\<not> is_agent_end ev" "\<forall>ev \<in> set (butlast evs). \<not> is_agent_end ev" using Cons.prems(3) by simp_all
    have s: "es_waiting (push_event ev s) = []" "\<not> es_done (push_event ev s)"
      "es_queue (push_event ev s) = es_queue s @ [ev]" "es_result (push_event ev s) = es_result s"
      using n(1) Cons.prems(1,2) by (auto simp: push_event_def push_def Let_def)
    from Cons.IH [OF s(1,2) n(2)] show ?thesis unfolding s(3,4) using n(1) by simp
  qed
qed simp

text \<open>The stream of a run that returns holds exactly the events of the run in
  order, is done, and its result is the messages of the run. When the run throws, the events are
  there but the stream is done only if the run had already ended its events: otherwise the result
  stays pending, and a consumer that has read the events waits for ever.\<close>

theorem agent_stream_of_run:
  assumes "runAgentLoop fuel prompts ctx (with_stream cfg) (w, []) = (out, w', evs)"
    and "agentLoop fuel prompts ctx cfg w = (s, w')"
  shows "es_queue s = evs \<and>
    (\<forall>new. out = Done new \<longrightarrow> es_done s \<and> es_result s = Some new) \<and>
    (\<forall>msg. out = Threw msg \<longrightarrow> (\<forall>ev \<in> set evs. \<not> is_agent_end ev) \<longrightarrow>
       \<not> es_done s \<and> es_result s = None \<and>
       (\<forall>c s'. es_queue s' = [] \<and> es_done s' = es_done s \<longrightarrow> snd (next_event c s') = []))"
proof -
  let ?s = "fold push_event evs createAgentStream"
  from yieldsD [OF runAgentLoop_traces [unfolded traces_def] assms(1)] obtain ph where
    ph: "run_phase PStart evs = Some ph" "\<And>new. out = Done new \<Longrightarrow> ph = PEnd new"
    by auto
  note q = push_events_queue [of createAgentStream evs, OF _ _ agent_end_last [OF ph(1)]]
  have qs: "es_queue ?s = evs" "es_waiting ?s = []" "es_done ?s = (\<exists>ev \<in> set evs. is_agent_end ev)"
    "es_result ?s = map_option agent_end_messages (find is_agent_end evs)"
    using q by (auto simp: createAgentStream_def new_stream_def split: option.split)
  have s: "s = (case out of Done messages \<Rightarrow> fst (end_stream (Some messages) ?s) | _ \<Rightarrow> ?s)"
    using assms by (simp add: agentLoop_def stream_of_run_def Let_def)
  have res: "find is_agent_end evs = Some (AgentEnd new)" if new: "out = Done new" for new
  proof -
    have "run_phase PStart evs = Some (PEnd new)" using ph new by simp
    then have "AgentEnd new \<in> set evs"
    proof (induction evs arbitrary: rule: rev_induct)
      case (snoc ev evs)
      then obtain ph1 where "phase_step ph1 ev = Some (PEnd new)"
        by (auto simp: run_phase_append split: option.splits)
      then have "ev = AgentEnd new" by (cases ph1; cases ev) (auto split: if_splits)
      then show ?case by simp
    qed simp
    moreover have "\<forall>ev \<in> set (butlast evs). \<not> is_agent_end ev" by (rule agent_end_last [OF ph(1)])
    ultimately obtain es where "evs = es @ [AgentEnd new]" "\<forall>ev \<in> set es. \<not> is_agent_end ev"
      by (cases evs rule: rev_cases) auto
    then show ?thesis by (induction es arbitrary: evs) auto
  qed
  show ?thesis
    using s qs res
    by (cases out) (auto simp: end_stream_def Let_def next_event_def find_None_iff)
qed

theorem agent_stream_of_run_witness:
  "\<exists>s w'. agentLoop (Suc (Suc 0)) [] sample_context (sample_config []) [] = (s, w') \<and>
     es_queue s = [AgentStart, TurnStart] \<and> \<not> es_done s \<and> es_result s = None"
proof -
  have run: "runAgentLoop (Suc (Suc 0)) [] sample_context (with_stream (sample_config [])) ([], []) =
      (Threw (js ''no response''), [], [AgentStart, TurnStart])"
    by (simp add: with_stream_def program_eval sample_eval Let_def)
  obtain s where s: "agentLoop (Suc (Suc 0)) [] sample_context (sample_config []) [] = (s, [])"
    using run by (simp add: agentLoop_def stream_of_run_def Let_def)
  show ?thesis using agent_stream_of_run [OF run s] s by auto
qed

end
