(* ===== verification/PendingQueue.thy ===== *)
theory PendingQueue
  imports AgentTypes
begin

text \<open>
  The message queues of the agent (\<open>PendingMessageQueue\<close> of \<open>packages/agent/src/agent.ts\<close>) and the
  contract the agent relies on: messages leave in the order they came, none is lost or doubled.
\<close>

section \<open>The contract\<close>

datatype 'm queue_command = Enqueue 'm | Drain

text \<open>A sequence of commands: the batches that were handed out, and the queue that is left.\<close>

fun run_queue ::
    "('m \<Rightarrow> 'q \<Rightarrow> 'q) \<Rightarrow> ('q \<Rightarrow> 'm list \<times> 'q) \<Rightarrow> 'm queue_command list \<Rightarrow> 'q \<Rightarrow> 'm list list \<times> 'q" where
  "run_queue enq drn [] q = ([], q)"
| "run_queue enq drn (Enqueue m # cs) q = run_queue enq drn cs (enq m q)"
| "run_queue enq drn (Drain # cs) q =
     (case drn q of (batch, q') \<Rightarrow> case run_queue enq drn cs q' of (bs, q'') \<Rightarrow> (batch # bs, q''))"

fun enqueued :: "'m queue_command list \<Rightarrow> 'm list" where
  "enqueued [] = []"
| "enqueued (Enqueue m # cs) = m # enqueued cs"
| "enqueued (Drain # cs) = enqueued cs"

locale pending_queue =
  fixes enq :: "'m \<Rightarrow> 'q \<Rightarrow> 'q" and drn :: "'q \<Rightarrow> 'm list \<times> 'q" and items :: "'q \<Rightarrow> 'm list"
  assumes enq_items: "items (enq m q) = items q @ [m]"
    and drn_items: "drn q = (batch, q') \<Longrightarrow> items q = batch @ items q'"
    and drn_progress: "drn q = (batch, q') \<Longrightarrow> items q \<noteq> [] \<Longrightarrow> batch \<noteq> []"
begin

lemma fifo: "run_queue enq drn cs q = (bs, q') \<Longrightarrow> items q @ enqueued cs = concat bs @ items q'"
proof (induction cs arbitrary: q bs rule: enqueued.induct)
  case (2 m cs)
  then show ?case using 2 by (fastforce simp: enq_items)
next
  case (3 cs)
  then show ?case using drn_items by (fastforce split: prod.splits)
qed simp

text \<open>As many drains as there are messages empty the queue.\<close>

lemma drained:
  "length (items q) \<le> n \<Longrightarrow> run_queue enq drn (replicate n Drain) q = (bs, q') \<Longrightarrow> items q' = []"
proof (induction n arbitrary: q bs)
  case (Suc n)
  obtain batch q1 where d: "drn q = (batch, q1)" by (metis prod.exhaust)
  have "length (items q1) \<le> n"
    using Suc.prems(1) drn_items [OF d] drn_progress [OF d] by (cases "items q = []") (auto simp: neq_Nil_conv)
  then show ?case using Suc.IH Suc.prems(2) d by (auto split: prod.splits)
qed simp

end

section \<open>The queue\<close>

record PendingMessageQueue =
  pq_messages :: "agent_message list"
  pq_mode :: QueueMode

definition new_queue :: "QueueMode \<Rightarrow> PendingMessageQueue" where
  "new_queue mode = \<lparr>pq_messages = [], pq_mode = mode\<rparr>"

definition enqueue :: "agent_message \<Rightarrow> PendingMessageQueue \<Rightarrow> PendingMessageQueue" where
  "enqueue m q = q\<lparr>pq_messages := pq_messages q @ [m]\<rparr>"

definition hasItems :: "PendingMessageQueue \<Rightarrow> bool" where
  "hasItems q \<longleftrightarrow> pq_messages q \<noteq> []"

definition drain :: "PendingMessageQueue \<Rightarrow> agent_message list \<times> PendingMessageQueue" where
  "drain q =
     (case pq_mode q of
        QueueAll \<Rightarrow> (pq_messages q, q\<lparr>pq_messages := []\<rparr>)
      | OneAtATime \<Rightarrow>
          (case pq_messages q of
             [] \<Rightarrow> ([], q)
           | first # rest \<Rightarrow> ([first], q\<lparr>pq_messages := rest\<rparr>)))"

definition clear_queue :: "PendingMessageQueue \<Rightarrow> PendingMessageQueue" where
  "clear_queue q = q\<lparr>pq_messages := []\<rparr>"

interpretation message_queue: pending_queue enqueue drain pq_messages
  by unfold_locales (auto simp: enqueue_def drain_def split: QueueMode.splits list.splits)

lemma drain_mode: "drain q = (batch, q') \<Longrightarrow> pq_mode q' = pq_mode q"
  by (auto simp: drain_def split: QueueMode.splits list.splits)

lemma run_queue_one_at_a_time:
  "pq_mode q = OneAtATime \<Longrightarrow> run_queue enqueue drain cs q = (bs, q') \<Longrightarrow> \<forall>b \<in> set bs. length b \<le> 1"
proof (induction cs arbitrary: q bs rule: enqueued.induct)
  case (2 m cs)
  show ?case by (rule "2.IH" [of "enqueue m q"]) (use "2.prems" in \<open>simp_all add: enqueue_def\<close>)
next
  case (3 cs)
  obtain batch q1 where d: "drain q = (batch, q1)" by (metis prod.exhaust)
  obtain bs1 where r: "run_queue enqueue drain cs q1 = (bs1, q')" "bs = batch # bs1"
    using "3.prems"(2) d by (auto split: prod.splits)
  have "length batch \<le> 1" using d "3.prems"(1) by (auto simp: drain_def split: list.splits)
  moreover have "\<forall>b \<in> set bs1. length b \<le> 1"
    by (rule "3.IH" [OF _ r(1)]) (use drain_mode [OF d] "3.prems"(1) in simp)
  ultimately show ?case using r(2) by simp
qed auto

text \<open>Whatever the order of enqueuing and draining, the messages handed out and
  those left are exactly the messages that were there and came in, in that order, in both modes;
  one at a time, no batch has more than one message.\<close>

theorem queue_first_in_first_out:
  assumes "run_queue enqueue drain cs q = (batches, q')"
  shows "pq_messages q @ enqueued cs = concat batches @ pq_messages q' \<and>
    (pq_mode q = OneAtATime \<longrightarrow> (\<forall>b \<in> set batches. length b \<le> 1))"
  using message_queue.fifo [OF assms] run_queue_one_at_a_time [OF _ assms] by simp

theorem queue_first_in_first_out_witness:
  "\<exists>batches q'. run_queue enqueue drain
       [Enqueue (OtherMessage (js ''a'')), Enqueue (OtherMessage (js ''b'')), Drain, Drain] (new_queue OneAtATime) =
       (batches, q') \<and> length batches = 2 \<and>
     [OtherMessage (js ''a''), OtherMessage (js ''b'')] = concat batches @ pq_messages q'"
proof -
  obtain batches q' where r: "run_queue enqueue drain
      [Enqueue (OtherMessage (js ''a'')), Enqueue (OtherMessage (js ''b'')), Drain, Drain] (new_queue OneAtATime) =
      (batches, q')" "length batches = 2"
    by (simp add: new_queue_def enqueue_def drain_def)
  from queue_first_in_first_out [OF r(1)] r show ?thesis by (simp add: new_queue_def)
qed

end
