(* ===== verification/Agent.thy ===== *)
theory Agent
  imports PendingQueue AgentRuns
begin

text \<open>
  The class \<open>Agent\<close> of \<open>packages/agent/src/agent.ts\<close>: the stateful wrapper around the loop, which
  owns the transcript, reduces the events into its state, queues messages and runs one prompt at a
  time.
\<close>

section \<open>State\<close>

text \<open>
  The fields of the class and of its \<open>_state\<close>. Tools and listeners are objects of the caller, so
  the state holds references to them. \<open>ag_activeRun\<close> is the abort flag of the active run, if there is
  one; \<open>ag_skipPoll\<close> is the variable captured by the configuration of a run; \<open>ag_env\<close> is the world
  outside the agent.
\<close>

record 'e Agent =
  ag_systemPrompt :: jstring
  ag_model :: Model
  ag_thinkingLevel :: jstring
  ag_tools :: "nat list"
  ag_messages :: "agent_message list"
  ag_isStreaming :: bool
  ag_streamingMessage :: "agent_message option"
  ag_pendingToolCalls :: "jstring set"
  ag_errorMessage :: "jstring option"
  ag_listeners :: "nat list"
  ag_steeringQueue :: PendingMessageQueue
  ag_followUpQueue :: PendingMessageQueue
  ag_activeRun :: "bool option"
  ag_skipPoll :: bool
  ag_toolExecution :: ToolExecutionMode
  ag_env :: 'e

type_synonym ('e, 'a) agent_callback = "('e Agent, 'a) callback"

text \<open>
  The functions an agent is constructed with, and the objects its references name. They may read
  and change the whole agent: a listener can steer, abort or assign the state.
\<close>

record 'e Runtime =
  rt_convertToLlm :: "(agent_message list \<Rightarrow> ('e, message list) agent_callback) option"
  rt_transformContext :: "(agent_message list \<Rightarrow> ('e, agent_message list) agent_callback) option"
  rt_getApiKey :: "(jstring \<Rightarrow> ('e, jstring option) agent_callback) option"
  rt_beforeToolCall ::
    "(AssistantMessage \<Rightarrow> ToolCall \<Rightarrow> json \<Rightarrow> 'e Agent AgentContext \<Rightarrow> ('e, BeforeToolCallResult option \<times> json) agent_callback) option"
  rt_afterToolCall ::
    "(AssistantMessage \<Rightarrow> ToolCall \<Rightarrow> json \<Rightarrow> AgentToolResult \<Rightarrow> bool \<Rightarrow> 'e Agent AgentContext \<Rightarrow>
      ('e, AfterToolCallResult option) agent_callback) option"
  rt_prepareNextTurn :: "('e, 'e Agent AgentLoopTurnUpdate option) agent_callback option"
  rt_stream :: "Model \<Rightarrow> 'e Agent LlmContext \<Rightarrow> jstring option \<Rightarrow> jstring option \<Rightarrow> ('e, unit) agent_callback"
  rt_nextEvent :: "('e, AssistantMessageEvent option) agent_callback"
  rt_result :: "('e, AssistantMessage) agent_callback"
  rt_now :: "'e Agent \<Rightarrow> int \<times> 'e Agent"
  rt_schedule :: "'e Agent \<Rightarrow> nat list"
  rt_tool :: "nat \<Rightarrow> 'e Agent AgentTool"
  rt_listener :: "nat \<Rightarrow> AgentEvent \<Rightarrow> ('e, unit) agent_callback"

fun is_llm_message :: "agent_message \<Rightarrow> message option" where
  "is_llm_message (Msg m) = Some m"
| "is_llm_message _ = None"

definition defaultConvertToLlm :: "agent_message list \<Rightarrow> message list" where
  "defaultConvertToLlm messages = List.map_filter is_llm_message messages"

definition EMPTY_USAGE :: Usage where
  "EMPTY_USAGE =
     \<lparr>u_input = 0, u_output = 0, u_cacheRead = 0, u_cacheWrite = 0, u_totalTokens = 0,
      u_cost = \<lparr>cost_input = Dec 0 0, cost_output = Dec 0 0, cost_cacheRead = Dec 0 0, cost_cacheWrite = Dec 0 0, cost_total = Dec 0 0\<rparr>\<rparr>"

definition DEFAULT_MODEL :: Model where
  "DEFAULT_MODEL =
     \<lparr>mo_id = js ''unknown'', mo_api = js ''unknown'', mo_provider = js ''unknown'', mo_reasoning = False, mo_input = [],
      mo_contextWindow = 0, mo_maxTokens = 0\<rparr>"

record InitialState =
  is_systemPrompt :: "jstring option"
  is_model :: "Model option"
  is_thinkingLevel :: "jstring option"
  is_tools :: "nat list option"
  is_messages :: "agent_message list option"

definition or_else :: "'a option \<Rightarrow> 'a \<Rightarrow> 'a" where
  "or_else x d = (case x of Some y \<Rightarrow> y | None \<Rightarrow> d)"

definition new_agent ::
    "InitialState \<Rightarrow> QueueMode option \<Rightarrow> QueueMode option \<Rightarrow> ToolExecutionMode option \<Rightarrow> 'e \<Rightarrow> 'e Agent" where
  "new_agent initial steeringMode followUpMode toolExecution env =
     \<lparr>ag_systemPrompt = or_else (is_systemPrompt initial) [],
      ag_model = or_else (is_model initial) DEFAULT_MODEL,
      ag_thinkingLevel = or_else (is_thinkingLevel initial) (js ''off''),
      ag_tools = or_else (is_tools initial) [],
      ag_messages = or_else (is_messages initial) [],
      ag_isStreaming = False, ag_streamingMessage = None, ag_pendingToolCalls = {}, ag_errorMessage = None,
      ag_listeners = [],
      ag_steeringQueue = new_queue (or_else steeringMode OneAtATime),
      ag_followUpQueue = new_queue (or_else followUpMode OneAtATime),
      ag_activeRun = None, ag_skipPoll = False,
      ag_toolExecution = or_else toolExecution Parallel, ag_env = env\<rparr>"

section \<open>Simple operations\<close>

text \<open>A JavaScript set keeps the order of insertion.\<close>

definition subscribe :: "nat \<Rightarrow> 'e Agent \<Rightarrow> 'e Agent" where
  "subscribe l a = a\<lparr>ag_listeners := (if l \<in> set (ag_listeners a) then ag_listeners a else ag_listeners a @ [l])\<rparr>"

definition unsubscribe :: "nat \<Rightarrow> 'e Agent \<Rightarrow> 'e Agent" where
  "unsubscribe l a = a\<lparr>ag_listeners := removeAll l (ag_listeners a)\<rparr>"

definition steer :: "agent_message \<Rightarrow> 'e Agent \<Rightarrow> 'e Agent" where
  "steer m a = a\<lparr>ag_steeringQueue := enqueue m (ag_steeringQueue a)\<rparr>"

definition followUp :: "agent_message \<Rightarrow> 'e Agent \<Rightarrow> 'e Agent" where
  "followUp m a = a\<lparr>ag_followUpQueue := enqueue m (ag_followUpQueue a)\<rparr>"

definition clearSteeringQueue :: "'e Agent \<Rightarrow> 'e Agent" where
  "clearSteeringQueue a = a\<lparr>ag_steeringQueue := clear_queue (ag_steeringQueue a)\<rparr>"

definition clearFollowUpQueue :: "'e Agent \<Rightarrow> 'e Agent" where
  "clearFollowUpQueue a = a\<lparr>ag_followUpQueue := clear_queue (ag_followUpQueue a)\<rparr>"

definition clearAllQueues :: "'e Agent \<Rightarrow> 'e Agent" where
  "clearAllQueues a = clearFollowUpQueue (clearSteeringQueue a)"

definition hasQueuedMessages :: "'e Agent \<Rightarrow> bool" where
  "hasQueuedMessages a \<longleftrightarrow> hasItems (ag_steeringQueue a) \<or> hasItems (ag_followUpQueue a)"

definition set_steeringMode :: "QueueMode \<Rightarrow> 'e Agent \<Rightarrow> 'e Agent" where
  "set_steeringMode mode a = a\<lparr>ag_steeringQueue := (ag_steeringQueue a)\<lparr>pq_mode := mode\<rparr>\<rparr>"

definition set_followUpMode :: "QueueMode \<Rightarrow> 'e Agent \<Rightarrow> 'e Agent" where
  "set_followUpMode mode a = a\<lparr>ag_followUpQueue := (ag_followUpQueue a)\<lparr>pq_mode := mode\<rparr>\<rparr>"

definition abort_run :: "'e Agent \<Rightarrow> 'e Agent" where
  "abort_run a = a\<lparr>ag_activeRun := map_option (\<lambda>_. True) (ag_activeRun a)\<rparr>"

definition reset_agent :: "'e Agent \<Rightarrow> 'e Agent" where
  "reset_agent a =
     clearSteeringQueue (clearFollowUpQueue
       (a\<lparr>ag_messages := [], ag_isStreaming := False, ag_streamingMessage := None,
          ag_pendingToolCalls := {}, ag_errorMessage := None\<rparr>))"

section \<open>Events\<close>

text \<open>The reduction of an event into the state.\<close>

definition reduce_event :: "AgentEvent \<Rightarrow> 'e Agent \<Rightarrow> 'e Agent" where
  "reduce_event ev a =
     (case ev of
        MessageStart m \<Rightarrow> a\<lparr>ag_streamingMessage := Some m\<rparr>
      | MessageUpdate m _ \<Rightarrow> a\<lparr>ag_streamingMessage := Some m\<rparr>
      | MessageEnd m \<Rightarrow> a\<lparr>ag_streamingMessage := None, ag_messages := ag_messages a @ [m]\<rparr>
      | ToolExecutionStart i _ _ \<Rightarrow> a\<lparr>ag_pendingToolCalls := insert i (ag_pendingToolCalls a)\<rparr>
      | ToolExecutionEnd i _ _ _ \<Rightarrow> a\<lparr>ag_pendingToolCalls := ag_pendingToolCalls a - {i}\<rparr>
      | TurnEnd m _ \<Rightarrow>
          (case m of
             Msg (Assistant am) \<Rightarrow>
               (case am_errorMessage am of
                  Some e \<Rightarrow> if e \<noteq> [] then a\<lparr>ag_errorMessage := Some e\<rparr> else a
                | None \<Rightarrow> a)
           | _ \<Rightarrow> a)
      | AgentEnd _ \<Rightarrow> a\<lparr>ag_streamingMessage := None\<rparr>
      | _ \<Rightarrow> a)"

text \<open>The listeners in order; the first that throws ends the dispatch.\<close>

fun notify :: "'e Runtime \<Rightarrow> AgentEvent \<Rightarrow> nat list \<Rightarrow> ('e, unit) agent_callback" where
  "notify rt ev [] a = (Done (), a)"
| "notify rt ev (l # ls) a =
     (case rt_listener rt l ev a of
        (Done _, a') \<Rightarrow> notify rt ev ls a'
      | (Threw msg, a') \<Rightarrow> (Threw msg, a')
      | (Hangs, a') \<Rightarrow> (Hangs, a'))"

text \<open>The listeners are those subscribed when the dispatch starts.\<close>

definition processEvents :: "'e Runtime \<Rightarrow> AgentEvent \<Rightarrow> ('e, unit) agent_callback" where
  "processEvents rt ev a =
     (let a1 = reduce_event ev a
      in if ag_activeRun a1 = None then (Threw (js ''Agent listener invoked outside active run''), a1)
         else notify rt ev (ag_listeners a1) a1)"

section \<open>Runs\<close>

definition createContextSnapshot :: "'e Runtime \<Rightarrow> 'e Agent \<Rightarrow> 'e Agent AgentContext" where
  "createContextSnapshot rt a =
     \<lparr>ctx_systemPrompt = ag_systemPrompt a, ctx_messages = ag_messages a,
      ctx_tools = map (rt_tool rt) (ag_tools a)\<rparr>"

definition poll_steering :: "('e, agent_message list) agent_callback" where
  "poll_steering a =
     (if ag_skipPoll a then (Done [], a\<lparr>ag_skipPoll := False\<rparr>)
      else case drain (ag_steeringQueue a) of (ms, q) \<Rightarrow> (Done ms, a\<lparr>ag_steeringQueue := q\<rparr>))"

definition poll_followUp :: "('e, agent_message list) agent_callback" where
  "poll_followUp a =
     (case drain (ag_followUpQueue a) of (ms, q) \<Rightarrow> (Done ms, a\<lparr>ag_followUpQueue := q\<rparr>))"

definition createLoopConfig :: "'e Runtime \<Rightarrow> 'e Agent \<Rightarrow> 'e Agent AgentLoopConfig" where
  "createLoopConfig rt a =
     \<lparr>cfg_model = ag_model a,
      cfg_reasoning = (if ag_thinkingLevel a = js ''off'' then None else Some (ag_thinkingLevel a)),
      cfg_apiKey = None,
      cfg_convertToLlm =
        (case rt_convertToLlm rt of Some f \<Rightarrow> f | None \<Rightarrow> (\<lambda>ms a. (Done (defaultConvertToLlm ms), a))),
      cfg_transformContext = rt_transformContext rt,
      cfg_getApiKey = rt_getApiKey rt,
      cfg_getSteeringMessages = Some poll_steering,
      cfg_getFollowUpMessages = Some poll_followUp,
      cfg_shouldStopAfterTurn = None,
      cfg_prepareNextTurn = map_option (\<lambda>f _. f) (rt_prepareNextTurn rt),
      cfg_toolExecution = Some (ag_toolExecution a),
      cfg_beforeToolCall = rt_beforeToolCall rt,
      cfg_afterToolCall = rt_afterToolCall rt,
      cfg_stream = rt_stream rt, cfg_nextEvent = rt_nextEvent rt, cfg_result = rt_result rt,
      cfg_aborted = (\<lambda>a. ag_activeRun a = Some True),
      cfg_now = rt_now rt, cfg_schedule = rt_schedule rt,
      cfg_sink = processEvents rt\<rparr>"

definition finishRun :: "'e Agent \<Rightarrow> 'e Agent" where
  "finishRun a =
     a\<lparr>ag_isStreaming := False, ag_streamingMessage := None, ag_pendingToolCalls := {},
       ag_activeRun := None\<rparr>"

definition failure_message :: "Model \<Rightarrow> bool \<Rightarrow> jstring \<Rightarrow> int \<Rightarrow> AssistantMessage" where
  "failure_message model aborted err now =
     \<lparr>am_content = [AText [] None], am_api = mo_api model, am_provider = mo_provider model,
      am_model = mo_id model, am_responseModel = None, am_responseId = None, am_diagnostics = None,
      am_usage = Some EMPTY_USAGE, am_stopReason = (if aborted then Aborted else Error),
      am_errorMessage = Some err, am_timestamp = now\<rparr>"

definition failure_events :: "AssistantMessage \<Rightarrow> AgentEvent list" where
  "failure_events m =
     [MessageStart (assistant_msg m), MessageEnd (assistant_msg m), TurnEnd (assistant_msg m) [],
      AgentEnd [assistant_msg m]]"

definition handleRunFailure :: "'e Runtime \<Rightarrow> jstring \<Rightarrow> ('e Agent, unit) prog" where
  "handleRunFailure rt err =
     bindP (callP (\<lambda>a. (Done (ag_model a, ag_activeRun a = Some True), a))) (\<lambda>(model, aborted).
     bindP (callP (\<lambda>a. case rt_now rt a of (t, a') \<Rightarrow> (Done t, a'))) (\<lambda>now.
       forP (emitP (processEvents rt)) (failure_events (failure_message model aborted err now))))"

text \<open>\<open>try ... finally { finishRun() }\<close>\<close>

definition finallyP :: "('w \<Rightarrow> 'w) \<Rightarrow> ('w, 'a) prog \<Rightarrow> ('w, 'a) prog" where
  "finallyP f m =
     (\<lambda>\<sigma>. case m \<sigma> of (Hangs, \<sigma>') \<Rightarrow> (Hangs, \<sigma>') | (r, w, tr) \<Rightarrow> (r, f w, tr))"

definition update_agent :: "('e Agent \<Rightarrow> 'e Agent) \<Rightarrow> ('e Agent, unit) prog" where
  "update_agent f = callP (\<lambda>a. (Done (), f a))"

definition get_agent :: "('e Agent, 'e Agent) prog" where
  "get_agent = callP (\<lambda>a. (Done a, a))"

definition start_run :: "'e Agent \<Rightarrow> 'e Agent" where
  "start_run a =
     a\<lparr>ag_activeRun := Some False, ag_isStreaming := True, ag_streamingMessage := None,
       ag_errorMessage := None\<rparr>"

definition runWithLifecycle :: "'e Runtime \<Rightarrow> ('e Agent, unit) prog \<Rightarrow> ('e Agent, unit) prog" where
  "runWithLifecycle rt executor =
     bindP get_agent (\<lambda>a.
       if ag_activeRun a \<noteq> None then throwP (js ''Agent is already processing.'')
       else
         bindP (update_agent start_run) (\<lambda>_.
           finallyP finishRun (tryP executor (handleRunFailure rt))))"

definition runPromptMessages ::
    "'e Runtime \<Rightarrow> nat \<Rightarrow> agent_message list \<Rightarrow> bool \<Rightarrow> ('e Agent, unit) prog" where
  "runPromptMessages rt fuel messages skipInitialSteeringPoll =
     runWithLifecycle rt
       (bindP (update_agent (\<lambda>a. a\<lparr>ag_skipPoll := skipInitialSteeringPoll\<rparr>)) (\<lambda>_.
        bindP get_agent (\<lambda>a.
        bindP (runAgentLoop fuel messages (createContextSnapshot rt a) (createLoopConfig rt a)) (\<lambda>_. retP ()))))"

definition runContinuation :: "'e Runtime \<Rightarrow> nat \<Rightarrow> ('e Agent, unit) prog" where
  "runContinuation rt fuel =
     runWithLifecycle rt
       (bindP (update_agent (\<lambda>a. a\<lparr>ag_skipPoll := False\<rparr>)) (\<lambda>_.
        bindP get_agent (\<lambda>a.
        bindP (runAgentLoopContinue fuel (createContextSnapshot rt a) (createLoopConfig rt a)) (\<lambda>_. retP ()))))"

datatype prompt_input = PromptText jstring "user_block list" | PromptMessage agent_message | PromptMessages "agent_message list"

definition normalizePromptInput :: "'e Runtime \<Rightarrow> prompt_input \<Rightarrow> ('e Agent, agent_message list) prog" where
  "normalizePromptInput rt input =
     (case input of
        PromptMessages ms \<Rightarrow> retP ms
      | PromptMessage m \<Rightarrow> retP [m]
      | PromptText t images \<Rightarrow>
          bindP (callP (\<lambda>a. case rt_now rt a of (now, a') \<Rightarrow> (Done now, a'))) (\<lambda>now.
            retP [Msg (User \<lparr>um_content = CBlocks (TextBlock t None # images), um_timestamp = now\<rparr>)]))"

definition prompt :: "'e Runtime \<Rightarrow> nat \<Rightarrow> prompt_input \<Rightarrow> ('e Agent, unit) prog" where
  "prompt rt fuel input =
     bindP get_agent (\<lambda>a.
       if ag_activeRun a \<noteq> None
       then throwP (js ''Agent is already processing a prompt. Use steer() or followUp() to queue messages, or wait for completion.'')
       else bindP (normalizePromptInput rt input) (\<lambda>messages. runPromptMessages rt fuel messages False))"

definition drain_steering :: "('e Agent, agent_message list) prog" where
  "drain_steering = callP (\<lambda>a. case drain (ag_steeringQueue a) of (ms, q) \<Rightarrow> (Done ms, a\<lparr>ag_steeringQueue := q\<rparr>))"

definition drain_followUp :: "('e Agent, agent_message list) prog" where
  "drain_followUp = callP (\<lambda>a. case drain (ag_followUpQueue a) of (ms, q) \<Rightarrow> (Done ms, a\<lparr>ag_followUpQueue := q\<rparr>))"

definition continue_run :: "'e Runtime \<Rightarrow> nat \<Rightarrow> ('e Agent, unit) prog" where
  "continue_run rt fuel =
     bindP get_agent (\<lambda>a.
       if ag_activeRun a \<noteq> None
       then throwP (js ''Agent is already processing. Wait for completion before continuing.'')
       else if ag_messages a = [] then throwP (js ''No messages to continue from'')
       else if is_assistant (last (ag_messages a)) then
         bindP drain_steering (\<lambda>queuedSteering.
           if queuedSteering \<noteq> [] then runPromptMessages rt fuel queuedSteering True
           else bindP drain_followUp (\<lambda>queuedFollowUps.
             if queuedFollowUps \<noteq> [] then runPromptMessages rt fuel queuedFollowUps False
             else throwP (js ''Cannot continue from message role: assistant'')))
       else runContinuation rt fuel)"

end
