(* ===== verification/AgentLifecycle.thy ===== *)
theory AgentLifecycle
  imports Agent
begin

text \<open>
  What the agent promises: it settles after every operation, its transcript and error are the
  reduction of the events of the run, and a prompt adds either the whole turns of a run or a
  failure message.
\<close>

section \<open>The agent settles\<close>

definition idle :: "'e Agent \<Rightarrow> bool" where
  "idle a \<longleftrightarrow>
     ag_activeRun a = None \<and> \<not> ag_isStreaming a \<and> ag_streamingMessage a = None \<and> ag_pendingToolCalls a = {}"

lemma idle_finishRun [simp]: "idle (finishRun a)"
  by (simp add: idle_def finishRun_def)

lemma bindP_get [simp]: "bindP get_agent f (a, tr) = f a (a, tr)"
  by (simp add: bindP_def get_agent_def callP_def)

lemma bindP_update [simp]: "bindP (update_agent g) f (a, tr) = f () (g a, tr)"
  by (simp add: bindP_def update_agent_def callP_def)

lemma bindP_drain_steering [simp]:
  "bindP drain_steering f (a, tr) =
     (case drain (ag_steeringQueue a) of (ms, q) \<Rightarrow> f ms (a\<lparr>ag_steeringQueue := q\<rparr>, tr))"
  by (simp add: bindP_def drain_steering_def callP_def split: prod.split)

lemma bindP_drain_followUp [simp]:
  "bindP drain_followUp f (a, tr) =
     (case drain (ag_followUpQueue a) of (ms, q) \<Rightarrow> f ms (a\<lparr>ag_followUpQueue := q\<rparr>, tr))"
  by (simp add: bindP_def drain_followUp_def callP_def split: prod.split)

lemma finallyP_finishRun:
  "finallyP finishRun m \<sigma> = (r, a', tr') \<Longrightarrow> r \<noteq> Hangs \<Longrightarrow> \<exists>a1. m \<sigma> = (r, a1, tr') \<and> a' = finishRun a1"
  by (auto simp: finallyP_def split: prod.splits outcome.splits)

lemma runWithLifecycle_idle:
  assumes "runWithLifecycle rt m (a, tr) = (r, a', tr')" "r \<noteq> Hangs" "idle a"
  shows "idle a'"
  using assms by (auto simp: runWithLifecycle_def idle_def [of a] throwP_def dest!: finallyP_finishRun split: if_splits)

lemma normalizePromptInput_cases:
  assumes "normalizePromptInput rt input (a, tr) = (r, a', tr')"
  obtains ms where "r = Done ms" "tr' = tr" "a' = a \<or> a' = snd (rt_now rt a)"
  using assms by (auto simp: normalizePromptInput_def retP_def bindP_def callP_def split: prompt_input.splits prod.splits)

text \<open>The operations of the interface; \<open>SetMessages\<close> and \<open>SetTools\<close> are assignments to the state.\<close>

datatype agent_command =
    Prompt prompt_input | Continue | Steer agent_message | FollowUp agent_message | Abort | Reset
  | ClearSteering | ClearFollowUp | ClearAll | Subscribe nat | Unsubscribe nat
  | SetSteeringMode QueueMode | SetFollowUpMode QueueMode
  | SetMessages "agent_message list" | SetTools "nat list" | SetModel Model | SetThinkingLevel jstring

fun run_command :: "'e Runtime \<Rightarrow> nat \<Rightarrow> agent_command \<Rightarrow> ('e Agent, unit) prog" where
  "run_command rt fuel (Prompt input) = prompt rt fuel input"
| "run_command rt fuel Continue = continue_run rt fuel"
| "run_command rt fuel (Steer m) = update_agent (steer m)"
| "run_command rt fuel (FollowUp m) = update_agent (followUp m)"
| "run_command rt fuel Abort = update_agent abort_run"
| "run_command rt fuel Reset = update_agent reset_agent"
| "run_command rt fuel ClearSteering = update_agent clearSteeringQueue"
| "run_command rt fuel ClearFollowUp = update_agent clearFollowUpQueue"
| "run_command rt fuel ClearAll = update_agent clearAllQueues"
| "run_command rt fuel (Subscribe l) = update_agent (subscribe l)"
| "run_command rt fuel (Unsubscribe l) = update_agent (unsubscribe l)"
| "run_command rt fuel (SetSteeringMode mode) = update_agent (set_steeringMode mode)"
| "run_command rt fuel (SetFollowUpMode mode) = update_agent (set_followUpMode mode)"
| "run_command rt fuel (SetMessages ms) = update_agent (\<lambda>a. a\<lparr>ag_messages := ms\<rparr>)"
| "run_command rt fuel (SetTools ts) = update_agent (\<lambda>a. a\<lparr>ag_tools := ts\<rparr>)"
| "run_command rt fuel (SetModel m) = update_agent (\<lambda>a. a\<lparr>ag_model := m\<rparr>)"
| "run_command rt fuel (SetThinkingLevel l) = update_agent (\<lambda>a. a\<lparr>ag_thinkingLevel := l\<rparr>)"

text \<open>A program of a caller that goes on after an operation that throws; \<open>None\<close> if one hangs.\<close>

fun run_commands ::
    "'e Runtime \<Rightarrow> nat \<Rightarrow> agent_command list \<Rightarrow> 'e Agent \<times> AgentEvent list \<Rightarrow> ('e Agent \<times> AgentEvent list) option" where
  "run_commands rt fuel [] \<sigma> = Some \<sigma>"
| "run_commands rt fuel (c # cs) \<sigma> =
     (case run_command rt fuel c \<sigma> of (r, \<sigma>') \<Rightarrow> if r = Hangs then None else run_commands rt fuel cs \<sigma>')"

text \<open>The time may be read through the agent: it must not change the run state of an idle agent.\<close>

definition clock_ok :: "'e Runtime \<Rightarrow> bool" where
  "clock_ok rt \<longleftrightarrow> (\<forall>a. \<exists>t e. rt_now rt a = (t, a\<lparr>ag_env := e\<rparr>))"

lemma clock_idle: "clock_ok rt \<Longrightarrow> idle (snd (rt_now rt a)) = idle a"
  unfolding clock_ok_def
proof -
  assume "\<forall>a. \<exists>t e. rt_now rt a = (t, a\<lparr>ag_env := e\<rparr>)"
  then obtain t e where "rt_now rt a = (t, a\<lparr>ag_env := e\<rparr>)" by blast
  then show ?thesis by (simp add: idle_def)
qed

lemma prompt_idle:
  assumes "prompt rt fuel input (a, tr) = (r, a', tr')" "r \<noteq> Hangs" "idle a" "clock_ok rt"
  shows "idle a'"
proof -
  obtain ms a1 where n: "normalizePromptInput rt input (a, tr) = (Done ms, a1, tr)" "a1 = a \<or> a1 = snd (rt_now rt a)"
    by (metis normalizePromptInput_cases prod_cases3)
  have "idle a1" using n(2) clock_idle assms(3,4) by metis
  moreover have "runPromptMessages rt fuel ms False (a1, tr) = (r, a', tr')"
    using assms(1,3) n(1) by (simp add: prompt_def idle_def bindP_def [of "normalizePromptInput rt input"])
  ultimately show ?thesis
    using assms(2) runWithLifecycle_idle unfolding runPromptMessages_def by blast
qed

lemma continue_idle:
  assumes c: "continue_run rt fuel (a, tr) = (r, a', tr')" and r: "r \<noteq> Hangs" and i: "idle a"
  shows "idle a'"
proof -
  obtain s q where s: "drain (ag_steeringQueue a) = (s, q)" by (metis prod.exhaust)
  obtain f q' where f: "drain (ag_followUpQueue a) = (f, q')" by (metis prod.exhaust)
  have i1: "idle (a\<lparr>ag_steeringQueue := q\<rparr>)" and i2: "idle (a\<lparr>ag_steeringQueue := q, ag_followUpQueue := q'\<rparr>)"
    using i by (simp_all add: idle_def)
  have n: "ag_activeRun a = None" using i by (simp add: idle_def)
  show ?thesis
    using c i i1 i2 s f n runWithLifecycle_idle [OF _ r]
    unfolding continue_run_def runPromptMessages_def runContinuation_def
    by (auto simp: throwP_def split: if_splits)
qed

lemma run_command_idle:
  assumes c: "run_command rt fuel cmd (a, tr) = (r, a', tr')" and r: "r \<noteq> Hangs" and i: "idle a" and k: "clock_ok rt"
  shows "idle a'"
proof -
  have u: "update_agent g (a, tr) = (r, a', tr') \<Longrightarrow> a' = g a" for g
    by (simp add: update_agent_def callP_def)
  show ?thesis
  proof (cases cmd)
    case (Prompt input)
    then show ?thesis using prompt_idle [OF _ r i k] c by simp
  next
    case Continue
    then show ?thesis using continue_idle [OF _ r i] c by simp
  qed (use c i in \<open>auto dest!: u simp: idle_def steer_def followUp_def abort_run_def reset_agent_def
      clearSteeringQueue_def clearFollowUpQueue_def clearAllQueues_def subscribe_def unsubscribe_def
      set_steeringMode_def set_followUpMode_def\<close>)
qed

lemma run_commands_idle:
  "run_commands rt fuel cs (a, tr) = Some (a', tr') \<Longrightarrow> idle a \<Longrightarrow> clock_ok rt \<Longrightarrow> idle a'"
proof (induction cs arbitrary: a tr)
  case (Cons c cs)
  obtain r a1 tr1 where r: "run_command rt fuel c (a, tr) = (r, a1, tr1)" by (metis prod_cases3)
  then show ?case using Cons run_command_idle [OF r] by (auto split: if_splits)
qed simp

lemma refused_when_busy:
  assumes "ag_activeRun a \<noteq> None"
  shows "\<exists>msg. prompt rt fuel input (a, tr) = (Threw msg, a, tr)"
    and "\<exists>msg. continue_run rt fuel (a, tr) = (Threw msg, a, tr)"
  using assms by (auto simp: prompt_def continue_run_def throwP_def)

section \<open>The state is the reduction of the events\<close>

text \<open>What the events determine: transcript, partial message, running calls, error.\<close>

definition core ::
    "'e Agent \<Rightarrow> agent_message list \<times> agent_message option \<times> jstring set \<times> jstring option" where
  "core a = (ag_messages a, ag_streamingMessage a, ag_pendingToolCalls a, ag_errorMessage a)"

lemma core_reduce_cong: "core a = core b \<Longrightarrow> core (reduce_event ev a) = core (reduce_event ev b)"
  by (auto simp: core_def reduce_event_def
      split: AgentEvent.split agent_message.split message.split option.split)

lemma core_fold_cong: "core a = core b \<Longrightarrow> core (fold reduce_event evs a) = core (fold reduce_event evs b)"
  by (induction evs arbitrary: a b) (auto dest: core_reduce_cong)

definition core_rel :: "'e Agent run_rel" where
  "core_rel = (\<lambda>a hangs evs a'. core a' = core (fold reduce_event evs a))"

interpretation core: hanging_run_relation core_rel
proof unfold_locales
  fix w w' w'' :: "'e Agent" and es es' h
  assume "core_rel w False es w'" "core_rel w' h es' w''"
  then show "core_rel w h (es @ es') w''"
    unfolding core_rel_def using core_fold_cong [of w' "fold reduce_event es w" es'] by simp
qed (simp_all add: core_rel_def)

text \<open>
  Hooks, tools and listeners that leave these four fields alone. They may still steer, abort,
  change the tools or the model.
\<close>

definition keeps_core :: "('e, 'a) agent_callback \<Rightarrow> bool" where
  "keeps_core c \<longleftrightarrow> (\<forall>a r a'. c a = (r, a') \<longrightarrow> core a' = core a)"

definition runtime_ok :: "'e Runtime \<Rightarrow> bool" where
  "runtime_ok rt \<longleftrightarrow>
     (\<forall>f ms. rt_convertToLlm rt = Some f \<longrightarrow> keeps_core (f ms)) \<and>
     (\<forall>f ms. rt_transformContext rt = Some f \<longrightarrow> keeps_core (f ms)) \<and>
     (\<forall>f p. rt_getApiKey rt = Some f \<longrightarrow> keeps_core (f p)) \<and>
     (\<forall>f am tc args ctx. rt_beforeToolCall rt = Some f \<longrightarrow> keeps_core (f am tc args ctx)) \<and>
     (\<forall>f am tc args res e ctx. rt_afterToolCall rt = Some f \<longrightarrow> keeps_core (f am tc args res e ctx)) \<and>
     (\<forall>f. rt_prepareNextTurn rt = Some f \<longrightarrow> keeps_core f \<and>
        (\<forall>a u a' ctx. f a = (Done (Some u), a') \<longrightarrow> atu_context u = Some ctx \<longrightarrow> respects_tools core_rel ctx)) \<and>
     (\<forall>m lc key r. keeps_core (rt_stream rt m lc key r)) \<and> keeps_core (rt_nextEvent rt) \<and> keeps_core (rt_result rt) \<and>
     (\<forall>a t a'. rt_now rt a = (t, a') \<longrightarrow> core a' = core a) \<and>
     (\<forall>t i args a us out a'. at_execute (rt_tool rt t) i args a = ((us, out), a') \<longrightarrow> core a' = core a) \<and>
     (\<forall>l ev. keeps_core (rt_listener rt l ev))"

lemma keeps_respects: "keeps_core c \<Longrightarrow> respects_call core_rel c"
  by (auto simp: keeps_core_def respects_call_def core_rel_def)

lemma notify_core:
  assumes "\<And>l. keeps_core (rt_listener rt l ev)" and "notify rt ev ls a = (r, a')"
  shows "core a' = core a"
  using assms(2)
proof (induction ls arbitrary: a)
  case (Cons l ls)
  obtain r1 a1 where l: "rt_listener rt l ev a = (r1, a1)" by (metis prod.exhaust)
  then have "core a1 = core a" using assms(1) by (auto simp: keeps_core_def)
  then show ?case using Cons l by (auto split: outcome.splits)
qed simp

lemma processEvents_core:
  assumes "\<And>l. keeps_core (rt_listener rt l ev)" and "processEvents rt ev a = (r, a')"
  shows "core_rel a (r = Hangs) [ev] a'"
  using assms(2) notify_core [of rt ev "ag_listeners (reduce_event ev a)" "reduce_event ev a" r a', OF assms(1)]
  unfolding processEvents_def core_rel_def Let_def by (auto split: if_splits)

lemma loop_config_respects:
  assumes ok: "runtime_ok rt"
  shows "respects_hooks core_rel (createLoopConfig rt a)" "respects_updates core_rel (createLoopConfig rt a)"
    "respects_streams core_rel (createLoopConfig rt a)" "respects_tools core_rel (createContextSnapshot rt a)"
proof -
  have polls: "keeps_core poll_steering" "keeps_core poll_followUp"
    by (auto simp: keeps_core_def poll_steering_def poll_followUp_def core_def split: prod.splits if_splits)
  have conv: "respects_call core_rel
      ((case rt_convertToLlm rt of Some f \<Rightarrow> f | None \<Rightarrow> (\<lambda>ms a. (Done (defaultConvertToLlm ms), a))) ms)" for ms
    using ok by (cases "rt_convertToLlm rt") (auto simp: runtime_ok_def keeps_core_def respects_call_def core_rel_def)
  show "respects_hooks core_rel (createLoopConfig rt a)"
    using ok polls conv processEvents_core [of rt] unfolding runtime_ok_def
    by (auto simp: respects_hooks_def createLoopConfig_def intro!: keeps_respects) (simp add: core_rel_def)+
  show "respects_updates core_rel (createLoopConfig rt a)"
  proof (cases "rt_prepareNextTurn rt")
    case (Some f)
    with ok have "keeps_core f"
      "\<And>w u w' ctx. f w = (Done (Some u), w') \<Longrightarrow> atu_context u = Some ctx \<Longrightarrow> respects_tools core_rel ctx"
      unfolding runtime_ok_def by metis+
    with Some show ?thesis
      by (auto simp: respects_updates_def createLoopConfig_def intro: keeps_respects)
  qed (simp add: respects_updates_def createLoopConfig_def)
  show "respects_streams core_rel (createLoopConfig rt a)"
    using ok unfolding runtime_ok_def by (auto simp: respects_streams_def createLoopConfig_def intro!: keeps_respects)
  show "respects_tools core_rel (createContextSnapshot rt a)"
    using ok unfolding runtime_ok_def
    by (auto simp: respects_tools_def respects_tool_def createContextSnapshot_def core_rel_def)
qed

lemma handleRunFailure_respects:
  assumes ok: "runtime_ok rt"
  shows "relates core_rel (handleRunFailure rt err) (\<lambda>_. True)"
proof -
  have em: "relates core_rel (emitP (processEvents rt) ev) (\<lambda>_. True)" for ev
    using ok processEvents_core [of rt ev] unfolding runtime_ok_def
    by (auto simp: relates_def emitP_def split: prod.splits)
  have "\<forall>a t a'. rt_now rt a = (t, a') \<longrightarrow> core a' = core a" using ok by (simp add: runtime_ok_def)
  then have clock: "relates core_rel (callP (\<lambda>a. case rt_now rt a of (t, a') \<Rightarrow> (Done t, a'))) (\<lambda>_. True)"
    by (intro core.rel_call) (auto simp: respects_call_def core_rel_def split: prod.splits)
  have get: "relates core_rel (callP (\<lambda>a. (Done (ag_model a, ag_activeRun a = Some True), a))) (\<lambda>_. True)"
    by (rule core.rel_call) (simp add: respects_call_def core_rel_def)
  show ?thesis
    unfolding handleRunFailure_def
    by (rule core.rel_seq [OF get]) (auto intro!: core.rel_seq [OF clock] core.rel_for em)
qed

lemma fold_reduce_messages: "ag_messages (fold reduce_event evs a) = ag_messages a @ ends evs"
proof (induction evs arbitrary: a)
  case (Cons ev evs)
  have "ag_messages (reduce_event ev a) @ ends evs = ag_messages a @ ends (ev # evs)"
    by (cases ev) (auto simp: reduce_event_def split: agent_message.split message.split option.split)
  then show ?case using Cons by simp
qed simp

lemma core_rel_messages: "core_rel a h evs a' \<Longrightarrow> ag_messages a' = ag_messages a @ ends evs"
  by (simp add: core_rel_def core_def fold_reduce_messages)

text \<open>The error is that of the last turn that ended with one.\<close>

fun turn_error :: "AgentEvent \<Rightarrow> jstring option" where
  "turn_error (TurnEnd (Msg (Assistant am)) rs) = am_errorMessage am"
| "turn_error ev = None"

definition errors_of :: "AgentEvent list \<Rightarrow> jstring list" where
  "errors_of evs = filter (\<lambda>e. e \<noteq> []) (List.map_filter turn_error evs)"

lemma errors_of_simps [simp]:
  "errors_of [] = []"
  "errors_of (ev # evs) = (case turn_error ev of Some e \<Rightarrow> if e \<noteq> [] then e # errors_of evs else errors_of evs
     | None \<Rightarrow> errors_of evs)"
  by (simp_all add: errors_of_def List.map_filter_def split: option.split)

lemma fold_reduce_error:
  "ag_errorMessage (fold reduce_event evs a) =
     (if errors_of evs = [] then ag_errorMessage a else Some (last (errors_of evs)))"
proof (induction evs arbitrary: a)
  case (Cons ev evs)
  have "ag_errorMessage (reduce_event ev a) =
      (case turn_error ev of Some e \<Rightarrow> if e \<noteq> [] then Some e else ag_errorMessage a | None \<Rightarrow> ag_errorMessage a)"
    by (cases ev) (auto simp: reduce_event_def split: agent_message.split message.split option.split)
  then show ?case using Cons by (auto split: option.splits)
qed simp

lemma runWithLifecycle_start:
  assumes "idle a"
  shows "runWithLifecycle rt m (a, tr) = finallyP finishRun (tryP m (handleRunFailure rt)) (start_run a, tr)"
  using assms by (simp add: runWithLifecycle_def idle_def)

text \<open>The events of a run determine the transcript and the error of the agent afterwards.\<close>

lemma lifecycle_reduces:
  assumes ok: "runtime_ok rt" and m: "relates core_rel m (\<lambda>_. True)"
    and r: "runWithLifecycle rt m (a, []) = (r, a', evs)" "r \<noteq> Hangs" and a: "idle a"
  shows "ag_messages a' = ag_messages a @ ends evs \<and>
    ag_errorMessage a' = (if errors_of evs = [] then None else Some (last (errors_of evs)))"
proof -
  obtain a1 where a1: "tryP m (handleRunFailure rt) (start_run a, []) = (r, a1, evs)" "a' = finishRun a1"
    using finallyP_finishRun r unfolding runWithLifecycle_start [OF a] by blast
  have e: "core_rel (start_run a) (r = Hangs) evs a1"
    by (rule relatesD [OF core.rel_try [OF m handleRunFailure_respects [OF ok]] a1(1)]) simp
  have "ag_messages a1 = ag_messages (start_run a) @ ends evs" using core_rel_messages [OF e] .
  moreover have "ag_errorMessage a1 = ag_errorMessage (fold reduce_event evs (start_run a))"
    using e by (simp add: core_rel_def core_def)
  ultimately show ?thesis
    using a1(2) by (simp add: finishRun_def start_run_def fold_reduce_error)
qed

lemma executor_respects:
  assumes ok: "runtime_ok rt"
  shows "relates core_rel
      (bindP (update_agent (\<lambda>a. a\<lparr>ag_skipPoll := skip\<rparr>)) (\<lambda>_. bindP get_agent (\<lambda>a.
         bindP (runAgentLoop fuel ms (createContextSnapshot rt a) (createLoopConfig rt a)) (\<lambda>_. retP ())))) (\<lambda>_. True)"
    and "relates core_rel
      (bindP (update_agent (\<lambda>a. a\<lparr>ag_skipPoll := skip\<rparr>)) (\<lambda>_. bindP get_agent (\<lambda>a.
         bindP (runAgentLoopContinue fuel (createContextSnapshot rt a) (createLoopConfig rt a)) (\<lambda>_. retP ())))) (\<lambda>_. True)"
proof -
  have u: "relates core_rel (update_agent (\<lambda>a. a\<lparr>ag_skipPoll := skip\<rparr>)) (\<lambda>_. True)"
    unfolding update_agent_def by (rule core.rel_call) (simp add: respects_call_def core_rel_def core_def)
  have g: "relates core_rel get_agent (\<lambda>_. True)"
    unfolding get_agent_def by (rule core.rel_call) (simp add: respects_call_def core_rel_def)
  note c = loop_config_respects [OF ok]
  show "relates core_rel
      (bindP (update_agent (\<lambda>a. a\<lparr>ag_skipPoll := skip\<rparr>)) (\<lambda>_. bindP get_agent (\<lambda>a.
         bindP (runAgentLoop fuel ms (createContextSnapshot rt a) (createLoopConfig rt a)) (\<lambda>_. retP ())))) (\<lambda>_. True)"
    by (intro core.rel_seq [OF u] core.rel_seq [OF g] core.rel_seq [OF core.rel_runAgentLoop] c core.rel_ret TrueI)
  show "relates core_rel
      (bindP (update_agent (\<lambda>a. a\<lparr>ag_skipPoll := skip\<rparr>)) (\<lambda>_. bindP get_agent (\<lambda>a.
         bindP (runAgentLoopContinue fuel (createContextSnapshot rt a) (createLoopConfig rt a)) (\<lambda>_. retP ())))) (\<lambda>_. True)"
    by (intro core.rel_seq [OF u] core.rel_seq [OF g] core.rel_seq [OF core.rel_runAgentLoopContinue] c core.rel_ret TrueI)
qed

section \<open>The outcome of a prompt\<close>

lemma emit_all_done:
  "forP (emitP sink) evs (a, tr) = (Done (), a', tr') \<Longrightarrow> tr' = tr @ evs"
proof (induction evs arbitrary: a tr)
  case (Cons ev evs)
  from Cons.prems obtain a1 where "forP (emitP sink) evs (a1, tr @ [ev]) = (Done (), a', tr')"
    by (auto simp: bindP_def emitP_def [of sink ev] split: prod.splits outcome.splits)
  from Cons.IH [OF this] show ?case by simp
qed (simp add: retP_def)

lemma handleRunFailure_done:
  assumes "handleRunFailure rt err (a, tr) = (Done (), a', tr')"
  obtains now where "tr' = tr @ failure_events (failure_message (ag_model a) (ag_activeRun a = Some True) err now)"
proof -
  obtain t a1 where n: "rt_now rt a = (t, a1)" by (metis prod.exhaust)
  have "forP (emitP (processEvents rt))
      (failure_events (failure_message (ag_model a) (ag_activeRun a = Some True) err t)) (a1, tr) = (Done (), a', tr')"
    using assms n by (simp add: handleRunFailure_def bindP_def callP_def)
  from that [OF emit_all_done [OF this]] show thesis .
qed

lemma prompt_run_cases:
  assumes "idle a" and "runPromptMessages rt fuel ms skip (a, []) = (Done (), a', evs)"
  obtains (completed) new a1 where
      "runAgentLoop fuel ms (createContextSnapshot rt (start_run a\<lparr>ag_skipPoll := skip\<rparr>))
         (createLoopConfig rt (start_run a\<lparr>ag_skipPoll := skip\<rparr>)) (start_run a\<lparr>ag_skipPoll := skip\<rparr>, []) = (Done new, a1, evs)"
  | (failed) run_evs model aborted err now where "evs = run_evs @ failure_events (failure_message model aborted err now)"
proof -
  let ?a = "start_run a\<lparr>ag_skipPoll := skip\<rparr>"
  let ?run = "runAgentLoop fuel ms (createContextSnapshot rt ?a) (createLoopConfig rt ?a)"
  obtain r1 a1 tr1 where run: "?run (?a, []) = (r1, a1, tr1)" by (metis prod_cases3)
  have "finallyP finishRun (\<lambda>\<sigma>. case bindP ?run (\<lambda>_. retP ()) (?a, []) of
      (Threw msg, \<sigma>') \<Rightarrow> handleRunFailure rt msg \<sigma>' | r \<Rightarrow> r) (start_run a, []) = (Done (), a', evs)"
    using assms unfolding runPromptMessages_def
    by (simp add: runWithLifecycle_start finallyP_def tryP_def)
  then show thesis
    using run completed failed
    by (cases r1) (auto simp: finallyP_def bindP_def retP_def split: prod.splits outcome.splits
        elim!: handleRunFailure_done)
qed

lemma run_outcome:
  assumes "runAgentLoop fuel prompts ctx cfg (w, []) = (Done new, w', evs)"
  shows "\<exists>ts. run_phase PStart evs = Some (PEnd new) \<and> ends evs = new \<and> ts \<noteq> [] \<and>
    new = prompts @ run_messages ts \<and> turns_ok cfg ts"
  using yieldsD [OF runAgentLoop_traces [unfolded traces_def] assms] by auto

section \<open>Properties\<close>

text \<open>Claim C19: whatever sequence of operations a caller performs on a new agent, and
  whatever tools, hooks and listeners do meanwhile, after every operation that returns the agent is
  idle: no active run, not streaming, no partial message, no running tool call. While a run is
  active, prompts and continuations are refused without any change.\<close>

theorem agent_settles:
  assumes "clock_ok rt"
    and "run_commands rt fuel cs (new_agent initial steering followUps mode env, []) = Some (a, tr)"
  shows "idle a \<and>
    (\<forall>b tr input. ag_activeRun b \<noteq> None \<longrightarrow>
       (\<exists>msg. prompt rt fuel input (b, tr) = (Threw msg, b, tr)) \<and>
       (\<exists>msg. continue_run rt fuel (b, tr) = (Threw msg, b, tr)))"
proof -
  have "idle (new_agent initial steering followUps mode env)" by (simp add: idle_def new_agent_def)
  then have "idle a" using run_commands_idle assms by blast
  then show ?thesis using refused_when_busy by blast
qed

text \<open>Claim C4: if hooks, tools and listeners leave the transcript alone, then after a
  prompt or a continuation the transcript is the old one followed by exactly the messages that ended
  in the events of the run, failed runs included, and the error of the agent is that of the last
  turn that ended with one.\<close>

theorem agent_state_reduces_events:
  assumes "runtime_ok rt" and "idle a" and "r \<noteq> Hangs"
    and "runPromptMessages rt fuel ms skip (a, []) = (r, a', evs) \<or> runContinuation rt fuel (a, []) = (r, a', evs)"
  shows "ag_messages a' = ag_messages a @ ends evs \<and>
    ag_errorMessage a' = (if errors_of evs = [] then None else Some (last (errors_of evs)))"
  using assms(4)
proof
  assume "runPromptMessages rt fuel ms skip (a, []) = (r, a', evs)"
  from lifecycle_reduces [OF assms(1) executor_respects(1) [OF assms(1)]
      this [unfolded runPromptMessages_def] assms(3,2)]
  show ?thesis .
next
  assume "runContinuation rt fuel (a, []) = (r, a', evs)"
  from lifecycle_reduces [OF assms(1) executor_respects(2) [OF assms(1)]
      this [unfolded runContinuation_def] assms(3,2)]
  show ?thesis .
qed

text \<open>A prompt that returns has either carried out a run, and then the
  transcript has grown by the prompts and whole turns in which every tool call that was started is
  answered in order, or it has failed, and then the transcript ends with one assistant message that
  carries the error, which is also the error of the agent.\<close>

theorem prompt_outcome:
  assumes "runtime_ok rt" and "idle a" and "prompt rt fuel (PromptMessages ms) (a, []) = (Done (), a', evs)"
  shows "(\<exists>ts. ts \<noteq> [] \<and> turns_ok (createLoopConfig rt a) ts \<and> ag_messages a' = ag_messages a @ ms @ run_messages ts \<and>
            run_phase PStart evs = Some (PEnd (ms @ run_messages ts))) \<or>
    (\<exists>run_evs m e. evs = run_evs @ failure_events m \<and> (am_stopReason m = Error \<or> am_stopReason m = Aborted) \<and>
       am_errorMessage m = Some e \<and> ag_messages a' = ag_messages a @ ends run_evs @ [assistant_msg m] \<and>
       (e \<noteq> [] \<longrightarrow> ag_errorMessage a' = Some e))"
proof -
  have p: "runPromptMessages rt fuel ms False (a, []) = (Done (), a', evs)"
    using assms(2,3) by (simp add: prompt_def normalizePromptInput_def idle_def)
  have "Done () \<noteq> Hangs" by simp
  note m = lifecycle_reduces [OF assms(1) executor_respects(1) [OF assms(1)] p [unfolded runPromptMessages_def] this assms(2)]
  from assms(2) p show ?thesis
  proof (cases rule: prompt_run_cases)
    case (completed new a1)
    let ?cfg = "createLoopConfig rt (start_run a\<lparr>ag_skipPoll := False\<rparr>)"
    obtain ts where t: "run_phase PStart evs = Some (PEnd new)" "ends evs = new" "ts \<noteq> []"
      "new = ms @ run_messages ts" "turns_ok ?cfg ts"
      using run_outcome [OF completed] by blast
    have "ag_messages a' = ag_messages a @ ms @ run_messages ts" using m t(2,4) by simp
    moreover have "turns_ok (createLoopConfig rt a) ts"
      using t(5) turns_ok_cong [of ?cfg "createLoopConfig rt a" ts] by (simp add: createLoopConfig_def)
    ultimately show ?thesis using t(1,3,4) by blast
  next
    case (failed run_evs model aborted err now)
    let ?m = "failure_message model aborted err now"
    have e: "ends evs = ends run_evs @ [assistant_msg ?m]"
      unfolding failed by (simp add: failure_events_def)
    have err: "err \<noteq> [] \<longrightarrow> errors_of evs \<noteq> [] \<and> last (errors_of evs) = err"
      unfolding failed
      by (simp add: failure_events_def errors_of_def List.map_filter_def assistant_msg_def failure_message_def)
    have msgs: "ag_messages a' = ag_messages a @ ends run_evs @ [assistant_msg ?m]"
      using m e by simp
    have "err \<noteq> [] \<longrightarrow> ag_errorMessage a' = Some err"
      using m err by simp
    moreover have "am_stopReason ?m = Error \<or> am_stopReason ?m = Aborted" "am_errorMessage ?m = Some err"
      by (simp_all add: failure_message_def)
    ultimately show ?thesis using failed msgs by blast
  qed
qed


section \<open>Witnesses\<close>

text \<open>A runtime over the list of responses still to come; a request without one throws.\<close>

definition sample_runtime :: "AssistantMessage list Runtime" where
  "sample_runtime =
     \<lparr>rt_convertToLlm = None, rt_transformContext = None, rt_getApiKey = None, rt_beforeToolCall = None,
      rt_afterToolCall = None, rt_prepareNextTurn = None,
      rt_stream = (\<lambda>m lc key r a. case ag_env a of [] \<Rightarrow> (Threw (js ''no response''), a) | _ \<Rightarrow> (Done (), a)),
      rt_nextEvent = (\<lambda>a. (Done None, a)),
      rt_result = (\<lambda>a. case ag_env a of
         [] \<Rightarrow> (Threw (js ''no response''), a) | m # ms \<Rightarrow> (Done m, a\<lparr>ag_env := ms\<rparr>)),
      rt_now = (\<lambda>a. (0, a)), rt_schedule = (\<lambda>a. []),
      rt_tool = (\<lambda>t. \<lparr>at_name = [], at_executionMode = None, at_prepareArguments = None,
         at_validate = (\<lambda>args. Inr (JObj args)),
         at_execute = (\<lambda>i args a. (([], Done (sample_result [])), a))\<rparr>),
      rt_listener = (\<lambda>l ev a. (Done (), a))\<rparr>"

definition sample_agent :: "AssistantMessage list \<Rightarrow> AssistantMessage list Agent" where
  "sample_agent = new_agent \<lparr>is_systemPrompt = None, is_model = None, is_thinkingLevel = None,
     is_tools = None, is_messages = None\<rparr> None None None"

definition sample_user :: agent_message where
  "sample_user = Msg (user_text (js ''hi'') 0)"

lemma sample_runtime_ok: "runtime_ok sample_runtime"
  by (auto simp: runtime_ok_def keeps_core_def sample_runtime_def core_def split: list.splits)

lemma sample_clock: "clock_ok sample_runtime"
  unfolding clock_ok_def
proof
  fix a :: "AssistantMessage list Agent"
  have "rt_now sample_runtime a = (0, a\<lparr>ag_env := ag_env a\<rparr>)" by (simp add: sample_runtime_def)
  then show "\<exists>t e. rt_now sample_runtime a = (t, a\<lparr>ag_env := e\<rparr>)" by blast
qed

lemma sample_idle: "idle (sample_agent rs)"
  by (simp add: sample_agent_def idle_def new_agent_def)

lemmas agent_eval = prompt_def normalizePromptInput_def runPromptMessages_def runWithLifecycle_def
  finallyP_def finishRun_def start_run_def createLoopConfig_def createContextSnapshot_def
  processEvents_def reduce_event_def poll_steering_def poll_followUp_def new_agent_def new_queue_def
  drain_def or_else_def handleRunFailure_def failure_events_def failure_message_def update_agent_def
  get_agent_def drain_steering_def drain_followUp_def defaultConvertToLlm_def List.map_filter_def

lemma sample_prompt:
  "\<exists>a' evs. prompt sample_runtime (Suc (Suc (Suc 0))) (PromptMessages [sample_user]) (sample_agent [sample_final], []) =
     (Done (), a', evs) \<and> ag_messages a' = [sample_user, assistant_msg sample_final]"
  by (simp add: agent_eval program_eval sample_runtime_def sample_agent_def sample_eval Let_def js_eval
      sample_user_def user_text_def)

lemma sample_failure:
  "\<exists>a' evs. runPromptMessages sample_runtime (Suc (Suc (Suc 0))) [sample_user] False (sample_agent [], []) =
     (Done (), a', evs) \<and> length evs = 8"
  by (simp add: agent_eval program_eval sample_runtime_def sample_agent_def sample_eval Let_def js_eval
      sample_user_def user_text_def)

lemma sample_commands:
  "\<exists>a tr. run_commands sample_runtime (Suc (Suc (Suc 0)))
     [Steer sample_user, Prompt (PromptMessages [sample_user]), Continue, Abort]
     (sample_agent [sample_final], []) = Some (a, tr) \<and> length (ag_messages a) = 3"
  by (simp add: agent_eval program_eval sample_runtime_def sample_agent_def sample_eval Let_def js_eval
      sample_user_def user_text_def steer_def enqueue_def abort_run_def continue_run_def)

theorem agent_settles_witness:
  "\<exists>a tr. run_commands sample_runtime (Suc (Suc (Suc 0)))
     [Steer sample_user, Prompt (PromptMessages [sample_user]), Continue, Abort]
     (sample_agent [sample_final], []) = Some (a, tr) \<and> length (ag_messages a) = 3 \<and> idle a"
proof -
  obtain a tr where r: "run_commands sample_runtime (Suc (Suc (Suc 0)))
     [Steer sample_user, Prompt (PromptMessages [sample_user]), Continue, Abort]
     (sample_agent [sample_final], []) = Some (a, tr)" "length (ag_messages a) = 3"
    using sample_commands by blast
  from agent_settles [OF sample_clock r(1) [unfolded sample_agent_def]] r show ?thesis by blast
qed

theorem agent_state_reduces_events_witness:
  "\<exists>a' evs. runPromptMessages sample_runtime (Suc (Suc (Suc 0))) [sample_user] False (sample_agent [], []) =
     (Done (), a', evs) \<and> length evs = 8 \<and> ag_messages a' = ends evs"
proof -
  obtain a' evs where r: "runPromptMessages sample_runtime (Suc (Suc (Suc 0))) [sample_user] False
      (sample_agent [], []) = (Done (), a', evs)" "length evs = 8"
    using sample_failure by blast
  have "ag_messages (sample_agent []) = []" by (simp add: sample_agent_def new_agent_def or_else_def)
  then show ?thesis
    using agent_state_reduces_events [OF sample_runtime_ok sample_idle _ disjI1 [OF r(1)]] r by simp
qed

theorem prompt_outcome_witness:
  "\<exists>a' evs. prompt sample_runtime (Suc (Suc (Suc 0))) (PromptMessages [sample_user]) (sample_agent [sample_final], []) =
     (Done (), a', evs) \<and> ag_messages a' = [sample_user, assistant_msg sample_final] \<and>
     ((\<exists>ts. ts \<noteq> [] \<and> ag_messages a' = sample_user # run_messages ts) \<or>
      (\<exists>run_evs m. evs = run_evs @ failure_events m \<and> ag_messages a' = ends run_evs @ [assistant_msg m]))"
proof -
  obtain a' evs where r: "prompt sample_runtime (Suc (Suc (Suc 0))) (PromptMessages [sample_user])
      (sample_agent [sample_final], []) = (Done (), a', evs)"
      "ag_messages a' = [sample_user, assistant_msg sample_final]"
    using sample_prompt by blast
  have "ag_messages (sample_agent [sample_final]) = []" by (simp add: sample_agent_def new_agent_def or_else_def)
  then have "(\<exists>ts. ts \<noteq> [] \<and> ag_messages a' = sample_user # run_messages ts) \<or>
      (\<exists>run_evs m. evs = run_evs @ failure_events m \<and> ag_messages a' = ends run_evs @ [assistant_msg m])"
    using prompt_outcome [OF sample_runtime_ok sample_idle r(1)] by auto
  with r show ?thesis by blast
qed

end
