(* ===== verification/ToolCallIds.thy ===== *)
theory ToolCallIds
  imports Messages
begin

text \<open>
  The normalisers of tool call identifiers that the providers of \<open>packages/ai/src/providers\<close> hand
  to \<open>transformMessages\<close>, with \<open>shortHash\<close> of \<open>packages/ai/src/utils/hash.ts\<close>. The Mistral
  normaliser keeps two maps; what it promises is that different identifiers stay different.
\<close>

unbundle bit_operations_syntax

section \<open>Characters\<close>

definition is_alnum :: "jchar \<Rightarrow> bool" where
  "is_alnum c \<longleftrightarrow> 97 \<le> c \<and> c \<le> 122 \<or> 65 \<le> c \<and> c \<le> 90 \<or> 48 \<le> c \<and> c \<le> 57"

definition underscore :: jchar where
  "underscore = 95"

text \<open>\<open>[a-zA-Z0-9_-]\<close>\<close>

definition is_id_char :: "jchar \<Rightarrow> bool" where
  "is_id_char c \<longleftrightarrow> is_alnum c \<or> c = underscore \<or> c = 45"

text \<open>\<open>s.replace(/[^a-zA-Z0-9_-]/g, "_")\<close> and \<open>s.replace(/[^a-zA-Z0-9]/g, "")\<close>\<close>

definition sanitize_id :: "jstring \<Rightarrow> jstring" where
  "sanitize_id s = map (\<lambda>c. if is_id_char c then c else underscore) s"

definition only_alnum :: "jstring \<Rightarrow> jstring" where
  "only_alnum s = filter is_alnum s"

section \<open>The hash\<close>

text \<open>\<open>n.toString(36)\<close> of a non-negative integer.\<close>

fun base36 :: "nat \<Rightarrow> jstring" where
  "base36 n =
     (let d = n mod 36; c = (if d < 10 then of_nat (48 + d) else of_nat (87 + d))
      in if n < 36 then [c] else base36 (n div 36) @ [c])"

declare base36.simps [simp del]

text \<open>One turn of the loop on the two halves; \<open>Math.imul\<close> and \<open>^\<close> work on 32 bits.\<close>

definition hash_char :: "jchar \<Rightarrow> 32 word \<times> 32 word \<Rightarrow> 32 word \<times> 32 word" where
  "hash_char ch = (\<lambda>(h1, h2). ((h1 XOR ucast ch) * 2654435761, (h2 XOR ucast ch) * 1597334677))"

definition shortHash :: "jstring \<Rightarrow> jstring" where
  "shortHash str =
     (let (h1, h2) = fold hash_char str (0xdeadbeef, 0x41c6ce57);
          h1' = ((h1 XOR drop_bit 16 h1) * 2246822507) XOR ((h2 XOR drop_bit 13 h2) * 3266489909);
          h2' = ((h2 XOR drop_bit 16 h2) * 2246822507) XOR ((h1' XOR drop_bit 13 h1') * 3266489909)
      in base36 (unat h2') @ base36 (unat h1'))"

lemma base36_not_Nil [simp]: "base36 n \<noteq> []"
  by (subst base36.simps) (simp add: Let_def)

definition is_digit36 :: "jchar \<Rightarrow> bool" where
  "is_digit36 c \<longleftrightarrow> 97 \<le> c \<and> c \<le> 122 \<or> 48 \<le> c \<and> c \<le> 57"

lemma digit36_alnum: "is_digit36 c \<Longrightarrow> is_alnum c"
  by (auto simp: is_digit36_def is_alnum_def)

lemma digit36:
  assumes "d < 36" shows "is_digit36 (if d < 10 then of_nat (48 + d) else of_nat (87 + d))"
proof -
  have "unat (of_nat (48 + d) :: jchar) = 48 + d" "unat (of_nat (87 + d) :: jchar) = 87 + d"
    using assms by (simp_all only: unat_of_nat take_bit_nat_eq_self_iff) simp_all
  then show ?thesis
    using assms by (auto simp: is_digit36_def word_le_nat_alt simp del: of_nat_add)
qed

lemma base36_digits: "\<forall>c \<in> set (base36 n). is_digit36 c"
proof (induction n rule: base36.induct)
  case (1 n)
  have "n mod 36 < 36" by simp
  note d = digit36 [OF this]
  show ?case
    by (subst base36.simps) (use 1 d in \<open>auto simp: Let_def\<close>)
qed

lemma shortHash_not_Nil [simp]: "shortHash s \<noteq> []"
  by (simp add: shortHash_def split_def Let_def)

lemma shortHash_digits: "\<forall>c \<in> set (shortHash s). is_digit36 c"
  using base36_digits by (auto simp: shortHash_def split_def Let_def)

section \<open>Stateless normalisers\<close>

text \<open>Anthropic and Bedrock; Google only for the models that need it.\<close>

definition anthropic_id :: "jstring \<Rightarrow> jstring" where
  "anthropic_id i = take 64 (sanitize_id i)"

definition bedrock_id :: "jstring \<Rightarrow> jstring" where
  "bedrock_id i = (let sanitized = sanitize_id i in if 64 < length sanitized then take 64 sanitized else sanitized)"

text \<open>OpenAI completions.\<close>

definition completions_id :: "Model \<Rightarrow> jstring \<Rightarrow> jstring" where
  "completions_id model i =
     (if 0x7C \<in> set i then take 40 (sanitize_id (hd (split_on 0x7C i)))
      else if mo_provider model = js ''openai'' then (if 40 < length i then take 40 i else i)
      else i)"

text \<open>OpenAI responses.\<close>

definition normalizeIdPart :: "jstring \<Rightarrow> jstring" where
  "normalizeIdPart part =
     (let sanitized = sanitize_id part;
          normalized = (if 64 < length sanitized then take 64 sanitized else sanitized)
      in rev (dropWhile (\<lambda>c. c = underscore) (rev normalized)))"

definition buildForeignResponsesItemId :: "jstring \<Rightarrow> jstring" where
  "buildForeignResponsesItemId itemId =
     (let normalized = js ''fc_'' @ shortHash itemId
      in if 64 < length normalized then take 64 normalized else normalized)"

definition responses_id :: "jstring set \<Rightarrow> Model \<Rightarrow> AssistantMessage \<Rightarrow> jstring \<Rightarrow> jstring" where
  "responses_id allowedToolCallProviders model source i =
     (if mo_provider model \<notin> allowedToolCallProviders then normalizeIdPart i
      else if 0x7C \<notin> set i then normalizeIdPart i
      else
        let parts = split_on 0x7C i; callId = parts ! 0; itemId = parts ! 1;
            foreign = (am_provider source \<noteq> mo_provider model \<or> am_api source \<noteq> mo_api model);
            item = (if foreign then buildForeignResponsesItemId itemId else normalizeIdPart itemId)
        in normalizeIdPart callId @ js ''|'' @
           (if prefix (js ''fc_'') item then item else normalizeIdPart (js ''fc_'' @ item)))"

section \<open>The Mistral normaliser\<close>

definition MISTRAL_TOOL_CALL_ID_LENGTH :: nat where
  "MISTRAL_TOOL_CALL_ID_LENGTH = 9"

definition deriveMistralToolCallId :: "jstring \<Rightarrow> nat \<Rightarrow> jstring" where
  "deriveMistralToolCallId i attempt =
     (let normalized = only_alnum i
      in if attempt = 0 \<and> length normalized = MISTRAL_TOOL_CALL_ID_LENGTH then normalized
         else
           let seedBase = (if normalized \<noteq> [] then normalized else i);
               seed = (if attempt = 0 then seedBase else seedBase @ js '':'' @ show_nat attempt)
           in take MISTRAL_TOOL_CALL_ID_LENGTH (only_alnum (shortHash seed)))"

text \<open>The two maps the normaliser closes over.\<close>

record mistral_ids =
  mi_idMap :: "jstring \<rightharpoonup> jstring"
  mi_reverseMap :: "jstring \<rightharpoonup> jstring"

definition createMistralToolCallIdNormalizer :: mistral_ids where
  "createMistralToolCallIdNormalizer = \<lparr>mi_idMap = Map.empty, mi_reverseMap = Map.empty\<rparr>"

text \<open>A candidate may be taken when it has no owner (an empty string counts as none) or the same one.\<close>

definition may_take :: "mistral_ids \<Rightarrow> jstring \<Rightarrow> jstring \<Rightarrow> bool" where
  "may_take st i candidate \<longleftrightarrow>
     (case mi_reverseMap st candidate of None \<Rightarrow> True | Some owner \<Rightarrow> owner = [] \<or> owner = i)"

partial_function (option) mistral_attempts :: "mistral_ids \<Rightarrow> jstring \<Rightarrow> nat \<Rightarrow> jstring option" where
  "mistral_attempts st i attempt =
     (let candidate = deriveMistralToolCallId i attempt
      in if may_take st i candidate then Some candidate else mistral_attempts st i (Suc attempt))"

definition mistral_id :: "mistral_ids \<Rightarrow> jstring \<Rightarrow> (jstring \<times> mistral_ids) option" where
  "mistral_id st i =
     (case mi_idMap st i of
        Some (c # cs) \<Rightarrow> Some (c # cs, st)
      | _ \<Rightarrow>
          map_option
            (\<lambda>c. (c, st\<lparr>mi_idMap := (mi_idMap st)(i \<mapsto> c), mi_reverseMap := (mi_reverseMap st)(c \<mapsto> i)\<rparr>))
            (mistral_attempts st i 0))"

text \<open>The normaliser on the identifiers of a conversation, in order.\<close>

fun mistral_run :: "mistral_ids \<Rightarrow> jstring list \<Rightarrow> (jstring list \<times> mistral_ids) option" where
  "mistral_run st [] = Some ([], st)"
| "mistral_run st (i # is) =
     (case mistral_id st i of None \<Rightarrow> None
      | Some (c, st') \<Rightarrow> map_option (\<lambda>(cs, st''). (c # cs, st'')) (mistral_run st' is))"

section \<open>Different identifiers stay different\<close>

lemma only_alnum_hash [simp]: "only_alnum (shortHash s) = shortHash s"
  using shortHash_digits [of s] digit36_alnum by (simp add: only_alnum_def filter_id_conv)

lemma derive_ok:
  "deriveMistralToolCallId i n \<noteq> [] \<and> length (deriveMistralToolCallId i n) \<le> 9 \<and>
   (\<forall>c \<in> set (deriveMistralToolCallId i n). is_alnum c)"
  using shortHash_digits digit36_alnum
  by (auto simp: deriveMistralToolCallId_def MISTRAL_TOOL_CALL_ID_LENGTH_def Let_def only_alnum_def [of i]
      dest!: in_set_takeD)

lemma derive_retry_digits: "0 < n \<Longrightarrow> \<forall>c \<in> set (deriveMistralToolCallId i n). is_digit36 c"
  using shortHash_digits by (auto simp: deriveMistralToolCallId_def Let_def dest: in_set_takeD)

text \<open>The loop takes the first candidate that may be taken, and ends when there is one.\<close>

lemma mistral_attempts_Some:
  assumes "mistral_attempts st i n = Some c"
  shows "may_take st i c \<and> (\<exists>k. c = deriveMistralToolCallId i k)"
  by (rule mistral_attempts.raw_induct [OF _ assms, where P = "\<lambda>st i n c. may_take st i c \<and> (\<exists>k. c = deriveMistralToolCallId i k)"])
    (auto simp: Let_def split: if_splits)

lemma mistral_attempts_returns:
  assumes "n \<le> k" "may_take st i (deriveMistralToolCallId i k)"
  shows "\<exists>c. mistral_attempts st i n = Some c"
  using assms
proof (induction "k - n" arbitrary: n)
  case 0
  then show ?case by (subst mistral_attempts.simps) (simp add: Let_def)
next
  case (Suc d)
  then have "\<exists>c. mistral_attempts st i (Suc n) = Some c" by simp
  then show ?case by (subst mistral_attempts.simps) (simp add: Let_def)
qed

text \<open>The two maps are inverse to each other, and hold no empty strings.\<close>

definition mistral_ok :: "mistral_ids \<Rightarrow> bool" where
  "mistral_ok st \<longleftrightarrow>
     (\<forall>i c. mi_idMap st i = Some c \<longleftrightarrow> mi_reverseMap st c = Some i) \<and>
     (\<forall>i c. mi_idMap st i = Some c \<longrightarrow> i \<noteq> [] \<and> (\<exists>k. c = deriveMistralToolCallId i k))"

lemma mistral_ok_init [simp]: "mistral_ok createMistralToolCallIdNormalizer"
  by (simp add: mistral_ok_def createMistralToolCallIdNormalizer_def)

lemma mistral_okD:
  assumes "mistral_ok st" "mi_idMap st i = Some c"
  shows "mi_reverseMap st c = Some i" "\<exists>k. c = deriveMistralToolCallId i k"
  using assms by (auto simp: mistral_ok_def)

lemma mistral_id_ok:
  assumes "mistral_ok st" "i \<noteq> []" "mistral_id st i = Some (c, st')"
  shows "mistral_ok st' \<and> mi_idMap st' = (mi_idMap st)(i \<mapsto> c) \<and> mi_idMap st \<subseteq>\<^sub>m mi_idMap st'"
proof (cases "mi_idMap st i")
  case None
  then obtain a: "mistral_attempts st i 0 = Some c"
    and st': "st' = st\<lparr>mi_idMap := (mi_idMap st)(i \<mapsto> c), mi_reverseMap := (mi_reverseMap st)(c \<mapsto> i)\<rparr>"
    using assms(3) by (auto simp: mistral_id_def)
  note t = mistral_attempts_Some [OF a]
  have "mi_reverseMap st c = None"
  proof (cases "mi_reverseMap st c")
    case (Some owner)
    then have "mi_idMap st owner = Some c" "owner \<noteq> []" using assms(1) by (auto simp: mistral_ok_def)
    with t Some None show ?thesis by (auto simp: may_take_def)
  qed simp
  moreover have "\<forall>d. mi_reverseMap st d \<noteq> Some i"
    using assms(1) None by (metis mistral_ok_def option.distinct(1))
  ultimately show ?thesis
    using assms(1,2) None t unfolding st' mistral_ok_def map_le_def by (auto simp: fun_upd_def)
next
  case (Some e)
  then have "e \<noteq> []" using assms(1) derive_ok by (metis mistral_ok_def)
  with Some assms show ?thesis by (auto simp: mistral_id_def fun_upd_idem neq_Nil_conv map_le_refl)
qed

lemma mistral_id_returns:
  assumes "finite (dom (mi_reverseMap st))" "card (dom (mi_reverseMap st)) < card (deriveMistralToolCallId i ` {..<K})"
  shows "\<exists>c st'. mistral_id st i = Some (c, st') \<and> finite (dom (mi_reverseMap st')) \<and>
    card (dom (mi_reverseMap st')) \<le> Suc (card (dom (mi_reverseMap st)))"
proof -
  have "\<not> deriveMistralToolCallId i ` {..<K} \<subseteq> dom (mi_reverseMap st)"
    using assms card_mono [of "dom (mi_reverseMap st)" "deriveMistralToolCallId i ` {..<K}"] by linarith
  then obtain k where "mi_reverseMap st (deriveMistralToolCallId i k) = None" by auto
  then have "may_take st i (deriveMistralToolCallId i k)" by (simp add: may_take_def)
  from mistral_attempts_returns [OF le0 this] obtain c where a: "mistral_attempts st i 0 = Some c" by blast
  then show ?thesis
    using assms(1) by (auto simp: mistral_id_def card_insert_if split: option.split list.split)
qed

lemma mistral_run_ok:
  assumes "mistral_ok st" "[] \<notin> set is" "finite (dom (mi_reverseMap st))"
    "\<forall>i \<in> set is. card (dom (mi_reverseMap st)) + length is \<le> card (deriveMistralToolCallId i ` {..<K})"
  shows "\<exists>cs st'. mistral_run st is = Some (cs, st') \<and> mistral_ok st' \<and> mi_idMap st \<subseteq>\<^sub>m mi_idMap st' \<and>
    list_all2 (\<lambda>i c. mi_idMap st' i = Some c) is cs"
  using assms
proof (induction "is" arbitrary: st)
  case (Cons i "is")
  have "card (dom (mi_reverseMap st)) < card (deriveMistralToolCallId i ` {..<K})"
    using Cons.prems(4) by simp
  from mistral_id_returns [OF Cons.prems(3) this] obtain c st1 where
    r: "mistral_id st i = Some (c, st1)" "finite (dom (mi_reverseMap st1))"
      "card (dom (mi_reverseMap st1)) \<le> Suc (card (dom (mi_reverseMap st)))" by blast
  have k: "mistral_ok st1" "mi_idMap st1 i = Some c" "mi_idMap st \<subseteq>\<^sub>m mi_idMap st1"
    using mistral_id_ok [OF Cons.prems(1) _ r(1)] Cons.prems(2) by auto
  have "\<forall>i \<in> set is. card (dom (mi_reverseMap st1)) + length is \<le> card (deriveMistralToolCallId i ` {..<K})"
    using Cons.prems(4) r(3) by fastforce
  from Cons.IH [OF k(1) _ r(2) this] Cons.prems(2) obtain cs st2 where
    q: "mistral_run st1 is = Some (cs, st2)" "mistral_ok st2" "mi_idMap st1 \<subseteq>\<^sub>m mi_idMap st2"
      "list_all2 (\<lambda>i c. mi_idMap st2 i = Some c) is cs" by auto
  have "mi_idMap st2 i = Some c" using k(2) q(3) by (metis domI map_le_def)
  then have "mistral_run st (i # is) = Some (c # cs, st2)"
      "list_all2 (\<lambda>i c. mi_idMap st2 i = Some c) (i # is) (c # cs)"
    using r(1) q(1,4) by simp_all
  then show ?case using q(2) map_le_trans [OF k(3) q(3)] by blast
qed (auto simp: map_le_refl)

text \<open>On the identifiers of a conversation, none of them empty, the Mistral normaliser
  returns, provided each has enough different candidates; then equal identifiers, and only those,
  get equal results, and every result has one to nine letters or digits.\<close>

theorem mistral_ids_distinct:
  assumes "[] \<notin> set is" "\<forall>i \<in> set is. length is \<le> card (deriveMistralToolCallId i ` {..<K})"
  shows "\<exists>cs st. mistral_run createMistralToolCallIdNormalizer is = Some (cs, st) \<and>
    length cs = length is \<and>
    (\<forall>j < length is. \<forall>k < length is. cs ! j = cs ! k \<longleftrightarrow> is ! j = is ! k) \<and>
    (\<forall>c \<in> set cs. c \<noteq> [] \<and> length c \<le> 9 \<and> (\<forall>x \<in> set c. is_alnum x))"
proof -
  let ?st = createMistralToolCallIdNormalizer
  have e: "dom (mi_reverseMap ?st) = {}" by (simp add: createMistralToolCallIdNormalizer_def)
  have "finite (dom (mi_reverseMap ?st))"
    "\<forall>i \<in> set is. card (dom (mi_reverseMap ?st)) + length is \<le> card (deriveMistralToolCallId i ` {..<K})"
    unfolding e using assms(2) by simp_all
  from mistral_run_ok [OF mistral_ok_init assms(1) this] obtain cs st where
    r: "mistral_run ?st is = Some (cs, st)" "mistral_ok st" "list_all2 (\<lambda>i c. mi_idMap st i = Some c) is cs"
    by (elim exE conjE)
  have n: "\<And>j. j < length is \<Longrightarrow> mi_idMap st (is ! j) = Some (cs ! j)" and l: "length cs = length is"
    using r(3) by (auto simp: list_all2_conv_all_nth)
  have "cs ! j = cs ! k \<longleftrightarrow> is ! j = is ! k" if "j < length is" "k < length is" for j k
  proof -
    have "mi_reverseMap st (cs ! j) = Some (is ! j)" "mi_reverseMap st (cs ! k) = Some (is ! k)"
      using mistral_okD(1) [OF r(2)] n that by blast+
    moreover have "mi_idMap st (is ! j) = Some (cs ! j)" "mi_idMap st (is ! k) = Some (cs ! k)"
      using n that by blast+
    ultimately show ?thesis by auto
  qed
  moreover have "c \<noteq> [] \<and> length c \<le> 9 \<and> (\<forall>x \<in> set c. is_alnum x)" if c: "c \<in> set cs" for c
  proof -
    obtain j where "j < length is" "c = cs ! j" using c l unfolding in_set_conv_nth by auto
    then have "mi_idMap st (is ! j) = Some c" using n by simp
    from mistral_okD(2) [OF r(2) this] obtain k where "c = deriveMistralToolCallId (is ! j) k" by blast
    then show ?thesis using derive_ok [of "is ! j" k] by simp
  qed
  ultimately show ?thesis using r(1) l by (intro exI [of _ cs] exI [of _ st] conjI allI impI ballI) simp_all
qed

theorem mistral_ids_distinct_witness:
  "\<exists>cs st. mistral_run createMistralToolCallIdNormalizer [js ''CALL_0001x'', js ''CALL_0002x''] = Some (cs, st) \<and>
     length cs = 2 \<and> cs ! 0 \<noteq> cs ! 1"
proof -
  have two: "Suc (Suc 0) \<le> card (deriveMistralToolCallId i ` {..<2})" if "deriveMistralToolCallId i 0 = c # cs" "\<not> is_digit36 c" for i c cs
  proof -
    have "deriveMistralToolCallId i 1 \<noteq> c # cs" using that(2) derive_retry_digits [of 1 i] by auto
    moreover have "{..<2} = {0, 1 :: nat}" by auto
    ultimately show ?thesis using that(1) by (simp add: card_insert_if eq_commute [of "c # cs"])
  qed
  have a: "deriveMistralToolCallId (js ''CALL_0001x'') 0 = js ''CALL0001x''"
    "deriveMistralToolCallId (js ''CALL_0002x'') 0 = js ''CALL0002x''"
    by (simp_all add: deriveMistralToolCallId_def only_alnum_def is_alnum_def js_def MISTRAL_TOOL_CALL_ID_LENGTH_def)
  have "\<not> is_digit36 (of_char CHR ''C'')" by code_simp
  with two a have "\<forall>i \<in> set [js ''CALL_0001x'', js ''CALL_0002x'']. length [js ''CALL_0001x'', js ''CALL_0002x''] \<le> card (deriveMistralToolCallId i ` {..<2})"
    by (simp add: js_def)
  note k = this
  have "[] \<notin> set [js ''CALL_0001x'', js ''CALL_0002x'']" by (auto simp: js_def)
  from mistral_ids_distinct [OF this k] obtain cs st where
    r: "mistral_run createMistralToolCallIdNormalizer [js ''CALL_0001x'', js ''CALL_0002x''] = Some (cs, st)"
      "length cs = length [js ''CALL_0001x'', js ''CALL_0002x'']"
    and d: "\<forall>j < length [js ''CALL_0001x'', js ''CALL_0002x'']. \<forall>k < length [js ''CALL_0001x'', js ''CALL_0002x''].
      cs ! j = cs ! k \<longleftrightarrow> [js ''CALL_0001x'', js ''CALL_0002x''] ! j = [js ''CALL_0001x'', js ''CALL_0002x''] ! k"
    by (elim exE conjE)
  have "js ''CALL_0001x'' \<noteq> js ''CALL_0002x''" by (simp add: js_def)
  then have "cs ! 0 \<noteq> cs ! 1" using d [rule_format, of 0 1] by simp
  with r show ?thesis by (simp del: mistral_run.simps)
qed
end
