(* ===== verification/TransformMessages.thy ===== *)
theory TransformMessages
  imports ToolCallIds
begin

text \<open>
  \<open>packages/ai/src/providers/transform-messages.ts\<close>: the transcript as the next provider can take
  it. The first pass rewrites blocks and identifiers, the second answers tool calls that have no
  result and drops failed responses.
\<close>

section \<open>Images\<close>

definition NON_VISION_USER_IMAGE_PLACEHOLDER :: jstring where
  "NON_VISION_USER_IMAGE_PLACEHOLDER = js ''(image omitted: model does not support images)''"

definition NON_VISION_TOOL_IMAGE_PLACEHOLDER :: jstring where
  "NON_VISION_TOOL_IMAGE_PLACEHOLDER = js ''(tool image omitted: model does not support images)''"

fun placeholder_loop :: "jstring \<Rightarrow> bool \<Rightarrow> user_block list \<Rightarrow> user_block list" where
  "placeholder_loop p prev [] = []"
| "placeholder_loop p prev (ImageBlock d m # bs) =
     (if prev then placeholder_loop p True bs else TextBlock p None # placeholder_loop p True bs)"
| "placeholder_loop p prev (TextBlock t s # bs) = TextBlock t s # placeholder_loop p (t = p) bs"

definition replaceImagesWithPlaceholder :: "user_block list \<Rightarrow> jstring \<Rightarrow> user_block list" where
  "replaceImagesWithPlaceholder content placeholder = placeholder_loop placeholder False content"

fun downgrade_message :: "message \<Rightarrow> message" where
  "downgrade_message (User u) =
     (case um_content u of
        CBlocks bs \<Rightarrow> User (u\<lparr>um_content := CBlocks (replaceImagesWithPlaceholder bs NON_VISION_USER_IMAGE_PLACEHOLDER)\<rparr>)
      | CString t \<Rightarrow> User u)"
| "downgrade_message (ToolResult r) =
     ToolResult (r\<lparr>trm_content := replaceImagesWithPlaceholder (trm_content r) NON_VISION_TOOL_IMAGE_PLACEHOLDER\<rparr>)"
| "downgrade_message (Assistant a) = Assistant a"

definition downgradeUnsupportedImages :: "message list \<Rightarrow> Model \<Rightarrow> message list" where
  "downgradeUnsupportedImages messages model =
     (if ImageInput \<in> set (mo_input model) then messages else map downgrade_message messages)"

section \<open>First pass\<close>

text \<open>
  The optional normaliser of a provider, with the state it may close over; the first pass threads
  that state and the map of renamed identifiers.
\<close>

type_synonym 's normalizer = "'s \<Rightarrow> jstring \<Rightarrow> Model \<Rightarrow> AssistantMessage \<Rightarrow> jstring \<times> 's"

type_synonym 's rename_state = "(jstring \<rightharpoonup> jstring) \<times> 's"

fun is_truthy :: "jstring option \<Rightarrow> bool" where
  "is_truthy (Some s) = (s \<noteq> [])"
| "is_truthy None = False"

definition transform_call ::
    "'s normalizer option \<Rightarrow> Model \<Rightarrow> AssistantMessage \<Rightarrow> bool \<Rightarrow> ToolCall \<Rightarrow> 's rename_state \<Rightarrow> ToolCall \<times> 's rename_state" where
  "transform_call nrm model am same tc = (\<lambda>(ids, s).
     let tc1 = (if \<not> same \<and> is_truthy (tc_thoughtSignature tc) then tc\<lparr>tc_thoughtSignature := None\<rparr> else tc)
     in case nrm of
          None \<Rightarrow> (tc1, ids, s)
        | Some f \<Rightarrow>
            if same then (tc1, ids, s)
            else let (nid, s') = f s (tc_id tc) model am
                 in if nid \<noteq> tc_id tc then (tc1\<lparr>tc_id := nid\<rparr>, ids(tc_id tc \<mapsto> nid), s') else (tc1, ids, s'))"

text \<open>One block of an assistant message: the blocks that replace it.\<close>

fun transform_block ::
    "'s normalizer option \<Rightarrow> Model \<Rightarrow> AssistantMessage \<Rightarrow> bool \<Rightarrow> assistant_block \<Rightarrow> 's rename_state \<Rightarrow>
     assistant_block list \<times> 's rename_state" where
  "transform_block nrm model am same (AThinking t sig redacted) st =
     (if redacted = Some True then (if same then [AThinking t sig redacted] else [], st)
      else if same \<and> is_truthy sig then ([AThinking t sig redacted], st)
      else if t = [] \<or> trim t = [] then ([], st)
      else if same then ([AThinking t sig redacted], st)
      else ([AText t None], st))"
| "transform_block nrm model am same (AText t sig) st =
     ([if same then AText t sig else AText t None], st)"
| "transform_block nrm model am same (AToolCall tc) st =
     (let (tc', st') = transform_call nrm model am same tc st in ([AToolCall tc'], st'))"

fun transform_blocks ::
    "'s normalizer option \<Rightarrow> Model \<Rightarrow> AssistantMessage \<Rightarrow> bool \<Rightarrow> assistant_block list \<Rightarrow> 's rename_state \<Rightarrow>
     assistant_block list \<times> 's rename_state" where
  "transform_blocks nrm model am same [] st = ([], st)"
| "transform_blocks nrm model am same (b # bs) st =
     (let (out, st1) = transform_block nrm model am same b st;
          (outs, st2) = transform_blocks nrm model am same bs st1
      in (out @ outs, st2))"

definition isSameModel :: "Model \<Rightarrow> AssistantMessage \<Rightarrow> bool" where
  "isSameModel model am \<longleftrightarrow>
     am_provider am = mo_provider model \<and> am_api am = mo_api model \<and> am_model am = mo_id model"

fun transform_message ::
    "'s normalizer option \<Rightarrow> Model \<Rightarrow> message \<Rightarrow> 's rename_state \<Rightarrow> message \<times> 's rename_state" where
  "transform_message nrm model (User u) st = (User u, st)"
| "transform_message nrm model (ToolResult r) st =
     (case fst st (trm_toolCallId r) of
        Some n \<Rightarrow> if n \<noteq> [] \<and> n \<noteq> trm_toolCallId r then (ToolResult (r\<lparr>trm_toolCallId := n\<rparr>), st) else (ToolResult r, st)
      | None \<Rightarrow> (ToolResult r, st))"
| "transform_message nrm model (Assistant am) st =
     (let (content, st') = transform_blocks nrm model am (isSameModel model am) (am_content am) st
      in (Assistant (am\<lparr>am_content := content\<rparr>), st'))"

fun transform_pass :: "'s normalizer option \<Rightarrow> Model \<Rightarrow> message list \<Rightarrow> 's rename_state \<Rightarrow> message list" where
  "transform_pass nrm model [] st = []"
| "transform_pass nrm model (m # ms) st =
     (let (m', st') = transform_message nrm model m st in m' # transform_pass nrm model ms st')"

section \<open>Second pass\<close>

record repair_state =
  rp_result :: "message list"
  rp_pending :: "ToolCall list"
  rp_existing :: "jstring set"

text \<open>\<open>now n\<close> is the reading of the clock when the result has \<open>n\<close> messages.\<close>

fun synthetic_results :: "(nat \<Rightarrow> int) \<Rightarrow> nat \<Rightarrow> jstring set \<Rightarrow> ToolCall list \<Rightarrow> message list" where
  "synthetic_results now n existing [] = []"
| "synthetic_results now n existing (tc # tcs) =
     (if tc_id tc \<in> existing then synthetic_results now n existing tcs
      else ToolResult \<lparr>trm_toolCallId = tc_id tc, trm_toolName = tc_name tc,
             trm_content = [TextBlock (js ''No result provided'') None], trm_details = None,
             trm_isError = True, trm_timestamp = now n\<rparr> # synthetic_results now (Suc n) existing tcs)"

definition insertSyntheticToolResults :: "(nat \<Rightarrow> int) \<Rightarrow> repair_state \<Rightarrow> repair_state" where
  "insertSyntheticToolResults now st =
     (if rp_pending st \<noteq> [] then
        \<lparr>rp_result = rp_result st @ synthetic_results now (length (rp_result st)) (rp_existing st) (rp_pending st),
         rp_pending = [], rp_existing = {}\<rparr>
      else st)"

definition push_message :: "message \<Rightarrow> repair_state \<Rightarrow> repair_state" where
  "push_message m st = st\<lparr>rp_result := rp_result st @ [m]\<rparr>"

text \<open>Responses that are not replayed.\<close>

definition skipped :: "AssistantMessage \<Rightarrow> bool" where
  "skipped am \<longleftrightarrow> am_stopReason am = Error \<or> am_stopReason am = Aborted"

fun repair_message :: "(nat \<Rightarrow> int) \<Rightarrow> message \<Rightarrow> repair_state \<Rightarrow> repair_state" where
  "repair_message now (Assistant am) st =
     (let st1 = insertSyntheticToolResults now st; calls = tool_calls_of (am_content am)
      in if skipped am then st1
         else push_message (Assistant am)
                (if calls \<noteq> [] then st1\<lparr>rp_pending := calls, rp_existing := {}\<rparr> else st1))"
| "repair_message now (ToolResult r) st =
     push_message (ToolResult r) (st\<lparr>rp_existing := insert (trm_toolCallId r) (rp_existing st)\<rparr>)"
| "repair_message now (User u) st = push_message (User u) (insertSyntheticToolResults now st)"

definition repair_pass :: "(nat \<Rightarrow> int) \<Rightarrow> message list \<Rightarrow> message list" where
  "repair_pass now ms =
     rp_result (insertSyntheticToolResults now
       (fold (repair_message now) ms \<lparr>rp_result = [], rp_pending = [], rp_existing = {}\<rparr>))"

definition transformMessages ::
    "(nat \<Rightarrow> int) \<Rightarrow> 's \<Rightarrow> message list \<Rightarrow> Model \<Rightarrow> 's normalizer option \<Rightarrow> message list" where
  "transformMessages now s0 messages model nrm =
     repair_pass now (transform_pass nrm model (downgradeUnsupportedImages messages model) (Map.empty, s0))"

section \<open>Every tool call is answered\<close>

definition call_ids :: "AssistantMessage \<Rightarrow> jstring list" where
  "call_ids am = map tc_id (tool_calls_of (am_content am))"

text \<open>The identifiers of the tool results at the head of a list.\<close>

fun leading_results :: "message list \<Rightarrow> jstring set" where
  "leading_results (ToolResult r # ms) = insert (trm_toolCallId r) (leading_results ms)"
| "leading_results _ = {}"

fun only_results :: "message list \<Rightarrow> bool" where
  "only_results [] = True"
| "only_results (ToolResult r # ms) = only_results ms"
| "only_results _ = False"

text \<open>
  What a provider demands: no response is a failed one, and the results right after a response
  answer all its calls.
\<close>

fun calls_answered :: "message list \<Rightarrow> bool" where
  "calls_answered [] = True"
| "calls_answered (Assistant a # ms) =
     (\<not> skipped a \<and> set (call_ids a) \<subseteq> leading_results ms \<and> calls_answered ms)"
| "calls_answered (_ # ms) = calls_answered ms"

lemma leading_results_append: "leading_results ms \<subseteq> leading_results (ms @ ns)"
  by (induction ms rule: leading_results.induct) auto

lemma calls_answered_append:
  "calls_answered ms \<Longrightarrow> calls_answered ns \<Longrightarrow> calls_answered (ms @ ns)"
  using leading_results_append by (induction ms rule: calls_answered.induct) fastforce+

lemma leading_only_results:
  "only_results rs \<Longrightarrow> leading_results (rs @ ms) = leading_results rs \<union> leading_results ms"
  by (induction rs rule: only_results.induct) auto

lemma calls_answered_only_results: "only_results rs \<Longrightarrow> calls_answered rs"
  by (induction rs rule: only_results.induct) auto

lemma calls_answered_replace:
  assumes "calls_answered (ms @ rs)" "only_results rs" "only_results rs'"
    "leading_results rs \<subseteq> leading_results rs'"
  shows "calls_answered (ms @ rs')"
  using assms(1)
proof (induction ms rule: calls_answered.induct)
  case (2 a ms)
  have "leading_results (ms @ rs) \<subseteq> leading_results (ms @ rs')"
    using assms(4) by (induction ms rule: leading_results.induct) auto
  with 2 show ?case by auto
qed (auto simp: assms(3) calls_answered_only_results)

lemma synthetic_results_only [simp]: "only_results (synthetic_results now n ex tcs)"
  by (induction now n ex tcs rule: synthetic_results.induct) auto

lemma synthetic_results_ids: "leading_results (synthetic_results now n ex tcs) = tc_id ` set tcs - ex"
  by (induction now n ex tcs rule: synthetic_results.induct) auto

text \<open>The result so far, with what would be inserted now.\<close>

definition repaired :: "(nat \<Rightarrow> int) \<Rightarrow> repair_state \<Rightarrow> message list" where
  "repaired now st = rp_result st @ synthetic_results now (length (rp_result st)) (rp_existing st) (rp_pending st)"

lemma repaired_insert: "rp_result (insertSyntheticToolResults now st) = repaired now st"
  by (simp add: insertSyntheticToolResults_def repaired_def)

lemma insert_pending [simp]: "rp_pending (insertSyntheticToolResults now st) = []"
  by (simp add: insertSyntheticToolResults_def)

lemma repair_message_answered:
  assumes "calls_answered (repaired now st)"
  shows "calls_answered (repaired now (repair_message now m st))"
proof (cases m)
  case (User u)
  with assms show ?thesis
    by (simp add: push_message_def repaired_def [of now "_\<lparr>rp_result := _\<rparr>"] repaired_insert calls_answered_append)
next
  case (Assistant am)
  let ?rs = "synthetic_results now (Suc (length (repaired now st))) {} (tool_calls_of (am_content am))"
  have "calls_answered ([Assistant am] @ ?rs)" if "\<not> skipped am"
    using that by (simp add: calls_answered_only_results call_ids_def synthetic_results_ids)
  with Assistant assms calls_answered_append show ?thesis
    by (auto simp: push_message_def repaired_def [of now "_\<lparr>rp_result := _\<rparr>"] repaired_insert Let_def
      repaired_def [of now "insertSyntheticToolResults now st"])
next
  case (ToolResult r)
  let ?rs = "ToolResult r # synthetic_results now (Suc (length (rp_result st))) (insert (trm_toolCallId r) (rp_existing st)) (rp_pending st)"
  have "calls_answered (rp_result st @ ?rs)"
    using assms unfolding repaired_def
    by (rule calls_answered_replace)
      (auto simp: synthetic_results_ids)
  with ToolResult show ?thesis by (simp add: push_message_def repaired_def)
qed

lemma repair_pass_answered: "calls_answered (repair_pass now ms)"
proof -
  have "calls_answered (repaired now st) \<Longrightarrow> calls_answered (repaired now (fold (repair_message now) ms st))" for st
    by (induction ms arbitrary: st) (simp_all add: repair_message_answered)
  then show ?thesis by (simp add: repair_pass_def repaired_insert) (simp add: repaired_def)
qed

text \<open>Claim C12: whatever the messages, the model and the normaliser, in what a provider is
  sent no response is a failed or aborted one, and the tool results right after a response answer
  every one of its tool calls.\<close>

theorem transformMessages_answers_calls:
  "calls_answered (transformMessages now s messages model nrm)"
  by (simp add: transformMessages_def repair_pass_answered)

section \<open>A transcript that is paired stays paired\<close>

text \<open>
  \<open>paired ids ms\<close>: the messages begin with the results for \<open>ids\<close>, in order; every response is
  followed by the results of its calls, in order, unless it is a failed one, which has none; there
  are no other results.
\<close>

fun paired :: "jstring list \<Rightarrow> message list \<Rightarrow> bool" where
  "paired is [] = (is = [])"
| "paired is (User u # ms) = (is = [] \<and> paired [] ms)"
| "paired is (Assistant a # ms) = (is = [] \<and> paired (if skipped a then [] else call_ids a) ms)"
| "paired is (ToolResult r # ms) =
     (case is of [] \<Rightarrow> False | i # is' \<Rightarrow> trm_toolCallId r = i \<and> paired is' ms)"

fun kept :: "message \<Rightarrow> bool" where
  "kept (Assistant a) = (\<not> skipped a)"
| "kept _ = True"

fun all_call_ids :: "message list \<Rightarrow> jstring list" where
  "all_call_ids [] = []"
| "all_call_ids (Assistant a # ms) = call_ids a @ all_call_ids ms"
| "all_call_ids (_ # ms) = all_call_ids ms"

text \<open>The second pass only drops the failed responses.\<close>

lemma synthetic_none: "tc_id ` set tcs \<subseteq> ex \<Longrightarrow> synthetic_results now n ex tcs = []"
  by (induction tcs) auto

lemma insert_none:
  "tc_id ` set (rp_pending st) \<subseteq> rp_existing st \<Longrightarrow> rp_result (insertSyntheticToolResults now st) = rp_result st"
  by (simp add: insertSyntheticToolResults_def synthetic_none)

lemma repair_paired:
  assumes "paired is ms" "tc_id ` set (rp_pending st) \<subseteq> rp_existing st \<union> set is"
  shows "repaired now (fold (repair_message now) ms st) = rp_result st @ filter kept ms"
  using assms
proof (induction "is" ms arbitrary: st rule: paired.induct)
  case (1 "is")
  then show ?case by (simp add: repaired_def synthetic_none)
next
  case (2 "is" u ms)
  then show ?case by (simp add: push_message_def insert_none)
next
  case (3 "is" a ms)
  then show ?case
    by (cases "call_ids a = []") (auto simp: push_message_def insert_none Let_def call_ids_def)
next
  case (4 "is" r ms)
  then show ?case by (auto simp: push_message_def split: list.splits)
qed

text \<open>
  What the first pass makes of an identifier, given the map of renamed identifiers; a result that
  maps to the empty string keeps its identifier, so the normaliser must not empty one.
\<close>

definition resolve :: "(jstring \<rightharpoonup> jstring) \<Rightarrow> jstring \<Rightarrow> jstring" where
  "resolve ids i = (case ids i of Some n \<Rightarrow> if n \<noteq> [] then n else i | None \<Rightarrow> i)"

definition never_empty :: "'s normalizer option \<Rightarrow> bool" where
  "never_empty nrm \<longleftrightarrow> (\<forall>f s i model am. nrm = Some f \<longrightarrow> i \<noteq> [] \<longrightarrow> fst (f s i model am) \<noteq> [])"

lemma transform_call_id:
  assumes "never_empty nrm" "transform_call nrm model am same tc (ids, s) = (tc', ids', s')" "tc_id tc \<notin> dom ids"
  shows "tc_id tc' = resolve ids' (tc_id tc) \<and> (\<forall>i. i \<noteq> tc_id tc \<longrightarrow> ids' i = ids i)"
proof (cases nrm)
  case None
  with assms(2,3) show ?thesis by (auto simp: transform_call_def resolve_def Let_def domIff)
next
  case (Some f)
  with assms show ?thesis
    by (auto simp: transform_call_def resolve_def never_empty_def Let_def domIff split_def split: if_splits)
qed

lemma transform_blocks_ids:
  assumes "never_empty nrm" "transform_blocks nrm model am same bs (ids, s) = (outs, ids', s')"
    "distinct (map tc_id (tool_calls_of bs))" "tc_id ` set (tool_calls_of bs) \<inter> dom ids = {}"
  shows "map tc_id (tool_calls_of outs) = map (resolve ids' \<circ> tc_id) (tool_calls_of bs) \<and>
    (\<forall>i. i \<notin> tc_id ` set (tool_calls_of bs) \<longrightarrow> ids' i = ids i)"
  using assms(2-)
proof (induction bs arbitrary: ids s outs)
  case (Cons b bs)
  show ?case
  proof (cases b)
    case (AToolCall tc)
    obtain tc1 ids1 s1 where c: "transform_call nrm model am same tc (ids, s) = (tc1, ids1, s1)"
      by (cases "transform_call nrm model am same tc (ids, s)") auto
    obtain outs1 where r: "transform_blocks nrm model am same bs (ids1, s1) = (outs1, ids', s')" "outs = AToolCall tc1 # outs1"
      using Cons.prems(1) AToolCall c by (auto split: prod.splits)
    have fresh: "tc_id tc \<notin> dom ids" "tc_id tc \<notin> tc_id ` set (tool_calls_of bs)"
      "distinct (map tc_id (tool_calls_of bs))" "tc_id ` set (tool_calls_of bs) \<inter> dom ids = {}"
      using Cons.prems(2,3) AToolCall by auto
    note i1 = transform_call_id [OF assms(1) c fresh(1)]
    have "tc_id ` set (tool_calls_of bs) \<inter> dom ids1 = {}"
      using fresh i1 by (metis (no_types, lifting) disjoint_iff domIff)
    note i2 = Cons.IH [OF r(1) fresh(3) this]
    have "resolve ids' (tc_id tc) = resolve ids1 (tc_id tc)"
      using i2 fresh(2) by (simp add: resolve_def)
    with i1 i2 AToolCall r(2) show ?thesis by auto
  qed (use Cons in \<open>auto split: prod.splits if_splits\<close>)
qed auto

lemma transform_pass_paired:
  assumes "never_empty nrm" "paired is ms" "distinct (all_call_ids ms)" "set (all_call_ids ms) \<inter> dom ids = {}"
  shows "paired (map (resolve ids) is) (transform_pass nrm model ms (ids, s))"
  using assms(2-)
proof (induction "is" ms arbitrary: ids s rule: paired.induct)
  case (3 "is" a ms)
  obtain content ids' s' where c:
    "transform_blocks nrm model a (isSameModel model a) (am_content a) (ids, s) = (content, ids', s')"
    by (cases "transform_blocks nrm model a (isSameModel model a) (am_content a) (ids, s)") auto
  have d: "distinct (map tc_id (tool_calls_of (am_content a)))" "tc_id ` set (tool_calls_of (am_content a)) \<inter> dom ids = {}"
    using 3(3,4) by (auto simp: call_ids_def)
  note i = transform_blocks_ids [OF assms(1) c d]
  have "ids' x = None" if "x \<in> set (all_call_ids ms)" for x
  proof -
    have "x \<notin> tc_id ` set (tool_calls_of (am_content a))" "ids x = None"
      using 3(3,4) that by (auto simp: call_ids_def)
    with i show ?thesis by metis
  qed
  then have "set (all_call_ids ms) \<inter> dom ids' = {}" by auto
  with 3 have "paired (map (resolve ids') (if skipped a then [] else call_ids a)) (transform_pass nrm model ms (ids', s'))"
    by auto
  with c i 3(2) show ?case by (auto simp: call_ids_def skipped_def o_def)
next
  case (4 "is" r ms)
  then show ?case
    by (cases "is") (auto simp: resolve_def split: option.splits if_splits)
qed auto

lemma paired_filter: "paired is ms \<Longrightarrow> paired is (filter kept ms)"
  by (induction "is" ms rule: paired.induct) (auto split: list.splits)

lemma downgrade_paired [simp]:
  "paired is (downgradeUnsupportedImages ms model) = paired is ms"
  "all_call_ids (downgradeUnsupportedImages ms model) = all_call_ids ms"
proof -
  have "paired is (map downgrade_message ms) = paired is ms"
    by (induction "is" ms rule: paired.induct) (auto split: list.splits user_content.splits)
  moreover have "all_call_ids (map downgrade_message ms) = all_call_ids ms"
    by (induction ms rule: all_call_ids.induct) (auto split: user_content.splits)
  ultimately show "paired is (downgradeUnsupportedImages ms model) = paired is ms"
    "all_call_ids (downgradeUnsupportedImages ms model) = all_call_ids ms"
    by (simp_all add: downgradeUnsupportedImages_def)
qed

fun role :: "message \<Rightarrow> jstring" where
  "role (User _) = js ''user''"
| "role (Assistant _) = js ''assistant''"
| "role (ToolResult _) = js ''toolResult''"

lemma downgrade_kind [simp]: "role (downgrade_message m) = role m" "kept (downgrade_message m) = kept m"
  by (cases m; simp split: user_content.split)+

lemma downgrade_roles:
  "map role (filter kept (downgradeUnsupportedImages ms model)) = map role (filter kept ms)"
  by (simp add: downgradeUnsupportedImages_def filter_map o_def)

lemma transform_pass_roles:
  "map role (filter kept (transform_pass nrm model ms st)) = map role (filter kept ms)"
proof (induction ms arbitrary: st)
  case (Cons m ms)
  obtain m' st' where t: "transform_message nrm model m st = (m', st')"
    by (cases "transform_message nrm model m st") auto
  then have "role m' = role m" "kept m' = kept m"
    by (cases m; auto simp: skipped_def split: prod.splits option.splits if_splits)+
  with Cons t show ?case by simp
qed simp

lemma keeps_pairs:
  assumes "paired [] messages" "distinct (all_call_ids messages)" "never_empty nrm"
  shows "paired [] (transformMessages now s messages model nrm) \<and>
    map role (transformMessages now s messages model nrm) = map role (filter kept messages)"
proof -
  let ?p = "transform_pass nrm model (downgradeUnsupportedImages messages model) (Map.empty, s)"
  have p: "paired [] ?p"
    using transform_pass_paired [OF assms(3), of "[]" "downgradeUnsupportedImages messages model" Map.empty] assms
    by simp
  have "transformMessages now s messages model nrm = filter kept ?p"
    using repair_paired [OF p, of "\<lparr>rp_result = [], rp_pending = [], rp_existing = {}\<rparr>" now]
    by (simp add: transformMessages_def repair_pass_def repaired_insert)
  with paired_filter [OF p] show ?thesis by (simp add: transform_pass_roles downgrade_roles)
qed

text \<open>If every response of the transcript is followed by the results of its calls in
  order, failed responses by none, and the identifiers of the calls are distinct, then so it is in
  what the provider is sent: the failed responses are gone, no message is added, and every result
  follows its call under its new identifier. The normaliser may be any that returns no empty
  identifier, with any state.\<close>

theorem transformMessages_keeps_pairs:
  assumes "paired [] messages" "distinct (all_call_ids messages)" "never_empty nrm"
  shows "paired [] (transformMessages now s messages model nrm) \<and>
    map role (transformMessages now s messages model nrm) = map role (filter kept messages)"
  by (rule keeps_pairs [OF assms])

lemma anthropic_never_empty: "never_empty (Some (\<lambda>s i model am. (anthropic_id i, s)))"
  by (simp add: never_empty_def anthropic_id_def sanitize_id_def)

text \<open>A conversation with another model: two calls, a failed response, and a final one.\<close>

definition relay_response :: "assistant_block list \<Rightarrow> StopReason \<Rightarrow> message" where
  "relay_response content reason =
     Assistant \<lparr>am_content = content, am_api = js ''a'', am_provider = js ''p'', am_model = js ''m'',
       am_responseModel = None, am_responseId = None, am_diagnostics = None, am_usage = None,
       am_stopReason = reason, am_errorMessage = None, am_timestamp = 0\<rparr>"

definition relay_call :: "jstring \<Rightarrow> assistant_block" where
  "relay_call i = AToolCall \<lparr>tc_id = i, tc_name = js ''read'', tc_arguments = [], tc_thoughtSignature = Some (js ''s'')\<rparr>"

definition relay_result :: "jstring \<Rightarrow> message" where
  "relay_result i = ToolResult \<lparr>trm_toolCallId = i, trm_toolName = js ''read'', trm_content = [ImageBlock [] []],
     trm_details = None, trm_isError = False, trm_timestamp = 0\<rparr>"

definition relay_messages :: "message list" where
  "relay_messages =
     [user_text (js ''hi'') 0,
      relay_response [AThinking (js ''hm'') None None, relay_call (js ''c|1''), relay_call (js ''c|2'')] ToolUse,
      relay_result (js ''c|1''), relay_result (js ''c|2''),
      relay_response [relay_call (js ''c|3'')] Error, user_text (js ''again'') 0,
      relay_response [AText (js ''done'') None] Stop]"

definition relay_model :: Model where
  "relay_model = \<lparr>mo_id = js ''n'', mo_api = js ''b'', mo_provider = js ''q'', mo_reasoning = False,
     mo_input = [TextInput], mo_contextWindow = 1000, mo_maxTokens = 100\<rparr>"

lemmas relay_eval = relay_messages_def relay_response_def relay_call_def relay_result_def user_text_def
  skipped_def call_ids_def js_def

theorem transformMessages_keeps_pairs_witness:
  "paired [] (transformMessages (\<lambda>_. 7) () relay_messages relay_model (Some (\<lambda>s i model am. (anthropic_id i, s)))) \<and>
   map role (transformMessages (\<lambda>_. 7) () relay_messages relay_model (Some (\<lambda>s i model am. (anthropic_id i, s)))) =
     [js ''user'', js ''assistant'', js ''toolResult'', js ''toolResult'', js ''user'', js ''assistant'']"
proof -
  have "paired [] relay_messages" "distinct (all_call_ids relay_messages)"
    "map role (filter kept relay_messages) =
      [js ''user'', js ''assistant'', js ''toolResult'', js ''toolResult'', js ''user'', js ''assistant'']"
    by (simp_all add: relay_eval)
  with transformMessages_keeps_pairs [OF _ _ anthropic_never_empty] show ?thesis by metis
qed

section \<open>A conversation with one model\<close>

text \<open>Blocks that are replayed to the model they come from.\<close>

fun replayed :: "assistant_block \<Rightarrow> bool" where
  "replayed (AThinking t sig redacted) = (redacted = Some True \<or> is_truthy sig \<or> trim t \<noteq> [])"
| "replayed _ = True"

fun own_message :: "Model \<Rightarrow> message \<Rightarrow> bool" where
  "own_message model (Assistant am) = (isSameModel model am \<and> (\<forall>b \<in> set (am_content am). replayed b))"
| "own_message model _ = True"

lemma transform_blocks_same:
  "\<forall>b \<in> set bs. replayed b \<Longrightarrow> transform_blocks nrm model am True bs st = (bs, st)"
proof (induction bs)
  case (Cons b bs)
  then show ?case by (cases b) (auto simp: transform_call_def split_def split: option.split)
qed simp

lemma transform_pass_same:
  "\<forall>m \<in> set ms. own_message model m \<Longrightarrow> transform_pass nrm model ms (Map.empty, s) = ms"
proof (induction ms)
  case (Cons m ms)
  then show ?case by (cases m) (auto simp: transform_blocks_same)
qed simp

text \<open>A paired conversation in which every response came from the model it is sent to,
  with no blank thinking block, reaches a model that accepts images unchanged, except that failed
  responses are left out.\<close>

theorem transformMessages_same_model:
  assumes "paired [] messages" "\<forall>m \<in> set messages. own_message model m" "ImageInput \<in> set (mo_input model)"
  shows "transformMessages now s messages model nrm = filter kept messages"
  using repair_paired [OF assms(1), of "\<lparr>rp_result = [], rp_pending = [], rp_existing = {}\<rparr>" now] assms
  by (simp add: transformMessages_def repair_pass_def repaired_insert downgradeUnsupportedImages_def transform_pass_same)

theorem transformMessages_same_model_witness:
  "transformMessages (\<lambda>_. 7) () relay_messages
     (relay_model\<lparr>mo_id := js ''m'', mo_api := js ''a'', mo_provider := js ''p'', mo_input := [TextInput, ImageInput]\<rparr>)
     (Some (\<lambda>s i model am. (anthropic_id i, s))) =
   take 4 relay_messages @ drop 5 relay_messages"
proof -
  have "paired [] relay_messages" "filter kept relay_messages = take 4 relay_messages @ drop 5 relay_messages"
    by (simp_all add: relay_eval)
  moreover have "\<forall>m \<in> set relay_messages. own_message
     (relay_model\<lparr>mo_id := js ''m'', mo_api := js ''a'', mo_provider := js ''p'', mo_input := [TextInput, ImageInput]\<rparr>) m"
    by (simp add: relay_eval isSameModel_def trim_def trim_end_def trim_start_def is_js_space_def)
  ultimately show ?thesis
    using transformMessages_same_model [of relay_messages "relay_model\<lparr>mo_id := js ''m'', mo_api := js ''a'',
        mo_provider := js ''p'', mo_input := [TextInput, ImageInput]\<rparr>"]
    by simp
qed
end
