(* ===== verification/CompactionUtils.thy ===== *)
theory CompactionUtils
  imports SessionTree "HOL-Library.List_Lexorder"
begin

text \<open>
  \<open>packages/agent/src/harness/compaction/utils.ts\<close>: the files a conversation touched, and the text
  of a conversation for a summarisation prompt. JavaScript's default sort compares strings by
  their code units, which is the lexicographic order on lists of 16-bit words.
\<close>

section \<open>File operations\<close>

text \<open>A JavaScript \<open>Set\<close>: the elements in insertion order.\<close>

definition set_add :: "'a \<Rightarrow> 'a list \<Rightarrow> 'a list" where
  "set_add x xs = (if x \<in> set xs then xs else xs @ [x])"

lemma set_set_add [simp]: "set (set_add x xs) = insert x (set xs)"
  by (auto simp: set_add_def)

lemma distinct_set_add [simp]: "distinct (set_add x xs) \<longleftrightarrow> distinct xs"
  by (auto simp: set_add_def)

lemma fold_set_add [simp]:
  "set (fold set_add xs acc) = set xs \<union> set acc" "distinct (fold set_add xs acc) \<longleftrightarrow> distinct acc"
  by (induction xs arbitrary: acc) auto

record FileOperations =
  fo_read :: "jstring list"
  fo_written :: "jstring list"
  fo_edited :: "jstring list"

definition createFileOps :: FileOperations where
  "createFileOps = \<lparr>fo_read = [], fo_written = [], fo_edited = []\<rparr>"

definition add_read :: "jstring \<Rightarrow> FileOperations \<Rightarrow> FileOperations" where
  "add_read f ops = ops\<lparr>fo_read := set_add f (fo_read ops)\<rparr>"

definition add_written :: "jstring \<Rightarrow> FileOperations \<Rightarrow> FileOperations" where
  "add_written f ops = ops\<lparr>fo_written := set_add f (fo_written ops)\<rparr>"

definition add_edited :: "jstring \<Rightarrow> FileOperations \<Rightarrow> FileOperations" where
  "add_edited f ops = ops\<lparr>fo_edited := set_add f (fo_edited ops)\<rparr>"

text \<open>\<open>typeof args.path === "string"\<close>, and not empty\<close>

definition path_argument :: "ToolCall \<Rightarrow> jstring option" where
  "path_argument c =
     (case get_prop (js ''path'') (tc_arguments c) of
        Some (JStr p) \<Rightarrow> (if p = [] then None else Some p)
      | _ \<Rightarrow> None)"

definition extract_from_call :: "ToolCall \<Rightarrow> FileOperations \<Rightarrow> FileOperations" where
  "extract_from_call c ops =
     (case path_argument c of
        None \<Rightarrow> ops
      | Some path \<Rightarrow>
          (if tc_name c = js ''read'' then add_read path ops
           else if tc_name c = js ''write'' then add_written path ops
           else if tc_name c = js ''edit'' then add_edited path ops
           else ops))"

definition extractFileOpsFromMessage :: "agent_message \<Rightarrow> FileOperations \<Rightarrow> FileOperations" where
  "extractFileOpsFromMessage m ops =
     (case m of
        Msg (Assistant a) \<Rightarrow> fold extract_from_call (tool_calls_of (am_content a)) ops
      | _ \<Rightarrow> ops)"

definition computeFileLists :: "FileOperations \<Rightarrow> jstring list \<times> jstring list" where
  "computeFileLists ops =
     (let modified = fold set_add (fo_edited ops @ fo_written ops) [];
          readOnly = sort (filter (\<lambda>f. f \<notin> set modified) (fo_read ops));
          modifiedFiles = sort modified
      in (readOnly, modifiedFiles))"

definition formatFileOperations :: "jstring list \<Rightarrow> jstring list \<Rightarrow> jstring" where
  "formatFileOperations readFiles modifiedFiles =
     (let sections =
            (if readFiles \<noteq> [] then
               [js ''<read-files>'' @ [newline] @ join [newline] readFiles @ [newline] @ js ''</read-files>'']
             else []) @
            (if modifiedFiles \<noteq> [] then
               [js ''<modified-files>'' @ [newline] @ join [newline] modifiedFiles @ [newline] @
                js ''</modified-files>'']
             else [])
      in if sections = [] then [] else [newline, newline] @ join [newline, newline] sections)"

text \<open>\<open>details.readFiles\<close> and \<open>details.modifiedFiles\<close> of stored details, when they are arrays\<close>

definition string_array :: "jstring \<Rightarrow> json \<Rightarrow> jstring list" where
  "string_array k details =
     (case details of
        JObj kvs \<Rightarrow>
          (case get_prop k kvs of
             Some (JArr vs) \<Rightarrow> List.map_filter (\<lambda>v. case v of JStr s \<Rightarrow> Some s | _ \<Rightarrow> None) vs
           | _ \<Rightarrow> [])
      | _ \<Rightarrow> [])"

definition add_details :: "json option \<Rightarrow> bool option \<Rightarrow> FileOperations \<Rightarrow> FileOperations" where
  "add_details details fromHook ops =
     (case details of
        None \<Rightarrow> ops
      | Some d \<Rightarrow>
          (if fromHook = Some True then ops
           else fold add_edited (string_array (js ''modifiedFiles'') d)
                  (fold add_read (string_array (js ''readFiles'') d) ops)))"

section \<open>The text of a conversation\<close>

definition TOOL_RESULT_MAX_CHARS :: nat where
  "TOOL_RESULT_MAX_CHARS = 2000"

definition truncateForSummary :: "jstring \<Rightarrow> nat \<Rightarrow> jstring" where
  "truncateForSummary s maxChars =
     (if length s \<le> maxChars then s
      else take maxChars s @ [newline, newline] @ js ''[... '' @ show_nat (length s - maxChars) @
           js '' more characters truncated]'')"

fun assistant_texts :: "assistant_block list \<Rightarrow> jstring list" where
  "assistant_texts [] = []"
| "assistant_texts (AText t _ # bs) = t # assistant_texts bs"
| "assistant_texts (_ # bs) = assistant_texts bs"

fun assistant_thinking :: "assistant_block list \<Rightarrow> jstring list" where
  "assistant_thinking [] = []"
| "assistant_thinking (AThinking t _ _ # bs) = t # assistant_thinking bs"
| "assistant_thinking (_ # bs) = assistant_thinking bs"

definition call_text :: "ToolCall \<Rightarrow> jstring" where
  "call_text c =
     tc_name c @ js ''('' @
     join (js '', '') (map (\<lambda>(k, v). k @ js ''='' @ safeJsonStringify (Some v)) (tc_arguments c)) @
     js '')''"

definition content_text :: "user_content \<Rightarrow> jstring" where
  "content_text c = (case c of CString s \<Rightarrow> s | CBlocks bs \<Rightarrow> join [] (texts_of bs))"

fun message_parts :: "message \<Rightarrow> jstring list" where
  "message_parts (User m) =
     (let content = content_text (um_content m)
      in if content \<noteq> [] then [js ''[User]: '' @ content] else [])"
| "message_parts (Assistant m) =
     (let textParts = assistant_texts (am_content m);
          thinkingParts = assistant_thinking (am_content m);
          toolCalls = map call_text (tool_calls_of (am_content m))
      in (if thinkingParts \<noteq> [] then [js ''[Assistant thinking]: '' @ join [newline] thinkingParts] else []) @
         (if textParts \<noteq> [] then [js ''[Assistant]: '' @ join [newline] textParts] else []) @
         (if toolCalls \<noteq> [] then [js ''[Assistant tool calls]: '' @ join (js ''; '') toolCalls] else []))"
| "message_parts (ToolResult m) =
     (let content = join [] (texts_of (trm_content m))
      in if content \<noteq> []
         then [js ''[Tool result]: '' @ truncateForSummary content TOOL_RESULT_MAX_CHARS] else [])"

definition serializeConversation :: "message list \<Rightarrow> jstring" where
  "serializeConversation messages = join [newline, newline] (concat (map message_parts messages))"

section \<open>Properties\<close>

definition files_of :: "FileOperations \<Rightarrow> jstring set" where
  "files_of ops = set (fo_read ops) \<union> set (fo_written ops) \<union> set (fo_edited ops)"

definition file_ops_ok :: "FileOperations \<Rightarrow> bool" where
  "file_ops_ok ops \<longleftrightarrow> distinct (fo_read ops) \<and> distinct (fo_written ops) \<and> distinct (fo_edited ops)"

lemma file_ops_ok_create [simp]: "file_ops_ok createFileOps"
  by (simp add: file_ops_ok_def createFileOps_def)

lemma file_ops_ok_add [simp]:
  "file_ops_ok (add_read f ops) = file_ops_ok ops"
  "file_ops_ok (add_written f ops) = file_ops_ok ops"
  "file_ops_ok (add_edited f ops) = file_ops_ok ops"
  by (simp_all add: file_ops_ok_def add_read_def add_written_def add_edited_def)

lemma file_ops_ok_fold: "(\<And>x ops. file_ops_ok ops \<Longrightarrow> file_ops_ok (f x ops)) \<Longrightarrow>
    file_ops_ok ops \<Longrightarrow> file_ops_ok (fold f xs ops)"
  by (induction xs arbitrary: ops) auto

lemma file_ops_ok_call: "file_ops_ok ops \<Longrightarrow> file_ops_ok (extract_from_call c ops)"
  by (auto simp: extract_from_call_def split: option.splits)

lemma file_ops_ok_message: "file_ops_ok ops \<Longrightarrow> file_ops_ok (extractFileOpsFromMessage m ops)"
  by (auto simp: extractFileOpsFromMessage_def intro: file_ops_ok_fold file_ops_ok_call
      split: agent_message.splits message.splits)

lemma file_ops_ok_details: "file_ops_ok ops \<Longrightarrow> file_ops_ok (add_details d h ops)"
  by (auto simp: add_details_def intro!: file_ops_ok_fold split: option.splits)

lemma computeFileLists_spec:
  assumes "file_ops_ok ops" and "computeFileLists ops = (readFiles, modifiedFiles)"
  shows "sorted_wrt (<) readFiles \<and> sorted_wrt (<) modifiedFiles \<and>
         set modifiedFiles = set (fo_edited ops) \<union> set (fo_written ops) \<and>
         set readFiles = set (fo_read ops) - set modifiedFiles"
  using assms by (auto simp: computeFileLists_def Let_def strict_sorted_iff file_ops_ok_def)

text \<open>The tool calls of a message, and those that name a file.\<close>

definition calls_of :: "agent_message \<Rightarrow> ToolCall list" where
  "calls_of m = (case m of Msg (Assistant a) \<Rightarrow> tool_calls_of (am_content a) | _ \<Rightarrow> [])"

definition files_called :: "jstring \<Rightarrow> agent_message list \<Rightarrow> jstring set" where
  "files_called name messages =
     {f. \<exists>m \<in> set messages. \<exists>c \<in> set (calls_of m). tc_name c = name \<and> path_argument c = Some f}"

lemma files_called_Nil [simp]: "files_called n [] = {}"
  by (simp add: files_called_def)

lemma extract_call_sets:
  "set (fo_read (extract_from_call c ops)) =
     set (fo_read ops) \<union> {f. tc_name c = js ''read'' \<and> path_argument c = Some f}"
  "set (fo_written (extract_from_call c ops)) =
     set (fo_written ops) \<union> {f. tc_name c = js ''write'' \<and> path_argument c = Some f}"
  "set (fo_edited (extract_from_call c ops)) =
     set (fo_edited ops) \<union> {f. tc_name c = js ''edit'' \<and> path_argument c = Some f}"
  by (auto simp: extract_from_call_def add_read_def add_written_def add_edited_def js_eval
      split: option.splits)

lemma extract_calls_sets:
  "set (fo_read (fold extract_from_call cs ops)) =
     set (fo_read ops) \<union> {f. \<exists>c \<in> set cs. tc_name c = js ''read'' \<and> path_argument c = Some f}"
  "set (fo_written (fold extract_from_call cs ops)) =
     set (fo_written ops) \<union> {f. \<exists>c \<in> set cs. tc_name c = js ''write'' \<and> path_argument c = Some f}"
  "set (fo_edited (fold extract_from_call cs ops)) =
     set (fo_edited ops) \<union> {f. \<exists>c \<in> set cs. tc_name c = js ''edit'' \<and> path_argument c = Some f}"
  by (induction cs arbitrary: ops) (auto simp: extract_call_sets)

lemma extract_message_calls:
  "extractFileOpsFromMessage m ops = fold extract_from_call (calls_of m) ops"
  by (simp add: extractFileOpsFromMessage_def calls_of_def split: agent_message.splits message.splits)

lemma files_called_Cons:
  "files_called n (m # ms) =
     {f. \<exists>c \<in> set (calls_of m). tc_name c = n \<and> path_argument c = Some f} \<union> files_called n ms"
  by (auto simp: files_called_def)

lemma extract_messages_sets:
  "set (fo_read (fold extractFileOpsFromMessage ms ops)) = set (fo_read ops) \<union> files_called (js ''read'') ms"
  "set (fo_written (fold extractFileOpsFromMessage ms ops)) =
     set (fo_written ops) \<union> files_called (js ''write'') ms"
  "set (fo_edited (fold extractFileOpsFromMessage ms ops)) =
     set (fo_edited ops) \<union> files_called (js ''edit'') ms"
  by (induction ms arbitrary: ops)
    (simp_all add: extract_message_calls extract_calls_sets files_called_Cons Un_assoc)

lemma file_ops_ok_messages: "file_ops_ok ops \<Longrightarrow> file_ops_ok (fold extractFileOpsFromMessage ms ops)"
  by (rule file_ops_ok_fold) (auto intro: file_ops_ok_message)

text \<open>
  The file lists of a conversation are sorted without duplicates and disjoint; a file
  is listed as modified exactly when a \<open>write\<close> or \<open>edit\<close> call names it, and as read exactly when a
  \<open>read\<close> call names it and no such call does.
\<close>

theorem computeFileLists_of_messages:
  "case computeFileLists (fold extractFileOpsFromMessage messages createFileOps) of
     (readFiles, modifiedFiles) \<Rightarrow>
       sorted_wrt (<) readFiles \<and> sorted_wrt (<) modifiedFiles \<and>
       set modifiedFiles = files_called (js ''write'') messages \<union> files_called (js ''edit'') messages \<and>
       set readFiles = files_called (js ''read'') messages - set modifiedFiles"
proof -
  let ?ops = "fold extractFileOpsFromMessage messages createFileOps"
  obtain r m where rm: "computeFileLists ?ops = (r, m)" by fastforce
  from computeFileLists_spec [OF file_ops_ok_messages [OF file_ops_ok_create] rm]
  show ?thesis
    unfolding rm by (simp add: extract_messages_sets createFileOps_def Un_commute)
qed

end
