(* ===== verification/Compaction.thy ===== *)
theory Compaction
  imports CompactionUtils Prompts Session
begin

text \<open>
  \<open>packages/agent/src/harness/compaction/compaction.ts\<close>: token estimates, the choice of the cut
  point, the preparation of a compaction and the compaction itself. The language model that
  writes the summaries (\<open>completeSimple\<close>) is a parameter.
\<close>

section \<open>Settings and results\<close>

record CompactionSettings =
  cs_enabled :: bool
  cs_reserveTokens :: nat
  cs_keepRecentTokens :: nat

definition DEFAULT_COMPACTION_SETTINGS :: CompactionSettings where
  "DEFAULT_COMPACTION_SETTINGS =
     \<lparr>cs_enabled = True, cs_reserveTokens = 16384, cs_keepRecentTokens = 20000\<rparr>"

record ContextUsageEstimate =
  cue_tokens :: nat
  cue_usageTokens :: nat
  cue_trailingTokens :: nat
  cue_lastUsageIndex :: "nat option"

text \<open>An index of \<open>-1\<close> is \<open>None\<close>.\<close>

record CutPointResult =
  cp_firstKeptEntryIndex :: nat
  cp_turnStartIndex :: "nat option"
  cp_isSplitTurn :: bool

record CompactionPreparation =
  pr_firstKeptEntryId :: jstring
  pr_messagesToSummarize :: "agent_message list"
  pr_turnPrefixMessages :: "agent_message list"
  pr_isSplitTurn :: bool
  pr_tokensBefore :: nat
  pr_previousSummary :: "jstring option"
  pr_fileOps :: FileOperations
  pr_settings :: CompactionSettings

record CompactionResult =
  cr_summary :: jstring
  cr_firstKeptEntryId :: jstring
  cr_tokensBefore :: nat
  cr_readFiles :: "jstring list"
  cr_modifiedFiles :: "jstring list"

datatype CompactionErrorCode = CAborted | CSummarizationFailed | CInvalidSession | CUnknown

datatype compaction_error = CompactionError CompactionErrorCode jstring

section \<open>Messages of entries\<close>

definition getMessageFromEntry :: "(jstring \<Rightarrow> int) \<Rightarrow> entry \<Rightarrow> agent_message option" where
  "getMessageFromEntry date_ms en =
     (case e_body en of
        MessageE m \<Rightarrow> Some m
      | CustomMessageE c \<Rightarrow>
          Some (Custom (createCustomMessage date_ms (cme_customType c) (cme_content c) (cme_display c)
             (cme_details c) (e_timestamp en)))
      | BranchSummaryE b \<Rightarrow>
          Some (BranchSummary (createBranchSummaryMessage date_ms (be_summary b) (be_fromId b) (e_timestamp en)))
      | CompactionE c \<Rightarrow>
          Some (CompactionSummary (createCompactionSummaryMessage date_ms (ce_summary c)
             (ce_tokensBefore c) (e_timestamp en)))
      | _ \<Rightarrow> None)"

definition getMessageFromEntryForCompaction :: "(jstring \<Rightarrow> int) \<Rightarrow> entry \<Rightarrow> agent_message option" where
  "getMessageFromEntryForCompaction date_ms en =
     (if is_compaction en then None else getMessageFromEntry date_ms en)"

definition extractFileOperations :: "agent_message list \<Rightarrow> entry list \<Rightarrow> nat option \<Rightarrow> FileOperations" where
  "extractFileOperations messages entries prevCompactionIndex =
     (let fileOps =
            (case prevCompactionIndex of
               None \<Rightarrow> createFileOps
             | Some i \<Rightarrow>
                 (case e_body (entries ! i) of
                    CompactionE c \<Rightarrow> add_details (ce_details c) (ce_fromHook c) createFileOps
                  | _ \<Rightarrow> createFileOps))
      in fold extractFileOpsFromMessage messages fileOps)"

section \<open>Token estimates\<close>

definition calculateContextTokens :: "Usage \<Rightarrow> nat" where
  "calculateContextTokens usage =
     (if u_totalTokens usage \<noteq> 0 then u_totalTokens usage
      else u_input usage + u_output usage + u_cacheRead usage + u_cacheWrite usage)"

definition getAssistantUsage :: "agent_message \<Rightarrow> Usage option" where
  "getAssistantUsage m =
     (case m of
        Msg (Assistant a) \<Rightarrow>
          (if am_stopReason a \<noteq> Aborted \<and> am_stopReason a \<noteq> Error then am_usage a else None)
      | _ \<Rightarrow> None)"

fun last_usage :: "entry list \<Rightarrow> nat \<Rightarrow> Usage option" where
  "last_usage entries 0 = None"
| "last_usage entries (Suc i) =
     (case e_body (entries ! i) of
        MessageE m \<Rightarrow>
          (case getAssistantUsage m of Some u \<Rightarrow> Some u | None \<Rightarrow> last_usage entries i)
      | _ \<Rightarrow> last_usage entries i)"

definition getLastAssistantUsage :: "entry list \<Rightarrow> Usage option" where
  "getLastAssistantUsage entries = last_usage entries (length entries)"

fun last_usage_info :: "agent_message list \<Rightarrow> nat \<Rightarrow> (Usage \<times> nat) option" where
  "last_usage_info messages 0 = None"
| "last_usage_info messages (Suc i) =
     (case getAssistantUsage (messages ! i) of
        Some u \<Rightarrow> Some (u, i) | None \<Rightarrow> last_usage_info messages i)"

definition getLastAssistantUsageInfo :: "agent_message list \<Rightarrow> (Usage \<times> nat) option" where
  "getLastAssistantUsageInfo messages = last_usage_info messages (length messages)"

definition ESTIMATED_IMAGE_CHARS :: nat where
  "ESTIMATED_IMAGE_CHARS = 4800"

fun block_chars :: "user_block \<Rightarrow> nat" where
  "block_chars (TextBlock t _) = length t"
| "block_chars (ImageBlock _ _) = ESTIMATED_IMAGE_CHARS"

definition estimateTextAndImageContentChars :: "user_content \<Rightarrow> nat" where
  "estimateTextAndImageContentChars content =
     (case content of CString s \<Rightarrow> length s | CBlocks bs \<Rightarrow> sum_list (map block_chars bs))"

fun assistant_block_chars :: "assistant_block \<Rightarrow> nat" where
  "assistant_block_chars (AText t _) = length t"
| "assistant_block_chars (AThinking t _ _) = length t"
| "assistant_block_chars (AToolCall c) =
     length (tc_name c) + length (safeJsonStringify (Some (JObj (tc_arguments c))))"

text \<open>\<open>Math.ceil(chars / 4)\<close>\<close>

definition ceil4 :: "nat \<Rightarrow> nat" where
  "ceil4 chars = (chars + 3) div 4"

fun estimateTokens :: "agent_message \<Rightarrow> nat" where
  "estimateTokens (Msg (User m)) = ceil4 (estimateTextAndImageContentChars (um_content m))"
| "estimateTokens (Msg (Assistant m)) = ceil4 (sum_list (map assistant_block_chars (am_content m)))"
| "estimateTokens (Msg (ToolResult m)) = ceil4 (estimateTextAndImageContentChars (CBlocks (trm_content m)))"
| "estimateTokens (Custom m) = ceil4 (estimateTextAndImageContentChars (cm_content m))"
| "estimateTokens (BashExecution m) = ceil4 (length (bem_command m) + length (bem_output m))"
| "estimateTokens (BranchSummary m) = ceil4 (length (bsm_summary m))"
| "estimateTokens (CompactionSummary m) = ceil4 (length (csm_summary m))"
| "estimateTokens (OtherMessage _) = 0"

definition estimateContextTokens :: "agent_message list \<Rightarrow> ContextUsageEstimate" where
  "estimateContextTokens messages =
     (case getLastAssistantUsageInfo messages of
        None \<Rightarrow>
          (let estimated = sum_list (map estimateTokens messages)
           in \<lparr>cue_tokens = estimated, cue_usageTokens = 0, cue_trailingTokens = estimated,
               cue_lastUsageIndex = None\<rparr>)
      | Some (usage, index) \<Rightarrow>
          (let usageTokens = calculateContextTokens usage;
               trailingTokens = sum_list (map estimateTokens (drop (Suc index) messages))
           in \<lparr>cue_tokens = usageTokens + trailingTokens, cue_usageTokens = usageTokens,
               cue_trailingTokens = trailingTokens, cue_lastUsageIndex = Some index\<rparr>))"

definition shouldCompact :: "int \<Rightarrow> int \<Rightarrow> CompactionSettings \<Rightarrow> bool" where
  "shouldCompact contextTokens contextWindow settings =
     (if \<not> cs_enabled settings then False
      else contextTokens > contextWindow - int (cs_reserveTokens settings))"

section \<open>The cut point\<close>

text \<open>The two \<open>switch\<close>es: messages of a listed role, branch summaries and custom messages.\<close>

definition is_cut_point :: "entry \<Rightarrow> bool" where
  "is_cut_point en =
     (case e_body en of
        MessageE m \<Rightarrow> (case m of Msg (ToolResult _) \<Rightarrow> False | OtherMessage _ \<Rightarrow> False | _ \<Rightarrow> True)
      | BranchSummaryE _ \<Rightarrow> True
      | CustomMessageE _ \<Rightarrow> True
      | _ \<Rightarrow> False)"

definition findValidCutPoints :: "entry list \<Rightarrow> nat \<Rightarrow> nat \<Rightarrow> nat list" where
  "findValidCutPoints entries startIndex endIndex =
     filter (\<lambda>i. is_cut_point (entries ! i)) [startIndex..<endIndex]"

definition is_turn_start :: "entry \<Rightarrow> bool" where
  "is_turn_start en =
     (case e_body en of
        BranchSummaryE _ \<Rightarrow> True
      | CustomMessageE _ \<Rightarrow> True
      | MessageE m \<Rightarrow> (case m of Msg (User _) \<Rightarrow> True | BashExecution _ \<Rightarrow> True | _ \<Rightarrow> False)
      | _ \<Rightarrow> False)"

text \<open>The loop \<open>for (let i = entryIndex; i >= startIndex; i--)\<close>; the counter is \<open>Suc i\<close>.\<close>

fun turn_start_loop :: "entry list \<Rightarrow> nat \<Rightarrow> nat \<Rightarrow> nat option" where
  "turn_start_loop entries startIndex 0 = None"
| "turn_start_loop entries startIndex (Suc i) =
     (if i < startIndex then None
      else if is_turn_start (entries ! i) then Some i
      else turn_start_loop entries startIndex i)"

definition findTurnStartIndex :: "entry list \<Rightarrow> nat \<Rightarrow> nat \<Rightarrow> nat option" where
  "findTurnStartIndex entries entryIndex startIndex = turn_start_loop entries startIndex (Suc entryIndex)"

text \<open>The backward scan that stops at the entry where the kept budget is reached.\<close>

fun budget_loop :: "entry list \<Rightarrow> nat \<Rightarrow> nat \<Rightarrow> nat \<Rightarrow> nat \<Rightarrow> nat option" where
  "budget_loop entries startIndex keepRecentTokens acc 0 = None"
| "budget_loop entries startIndex keepRecentTokens acc (Suc i) =
     (if i < startIndex then None
      else (case e_body (entries ! i) of
              MessageE m \<Rightarrow>
                (let acc' = acc + estimateTokens m
                 in if acc' \<ge> keepRecentTokens then Some i
                    else budget_loop entries startIndex keepRecentTokens acc' i)
            | _ \<Rightarrow> budget_loop entries startIndex keepRecentTokens acc i))"

text \<open>The first cut point at or after the entry; the earliest one when there is none.\<close>

definition choose_cut :: "nat list \<Rightarrow> nat option \<Rightarrow> nat" where
  "choose_cut cutPoints reached =
     (case reached of
        None \<Rightarrow> hd cutPoints
      | Some i \<Rightarrow> (case find (\<lambda>c. c \<ge> i) cutPoints of Some c \<Rightarrow> c | None \<Rightarrow> hd cutPoints))"

text \<open>Entries that are neither messages nor compactions are kept with what follows them.\<close>

definition is_message :: "entry \<Rightarrow> bool" where
  "is_message en = (e_type en = TMessage)"

fun back_loop :: "entry list \<Rightarrow> nat \<Rightarrow> nat \<Rightarrow> nat" where
  "back_loop entries startIndex 0 = 0"
| "back_loop entries startIndex (Suc i) =
     (if Suc i \<le> startIndex then Suc i
      else if is_compaction (entries ! i) then Suc i
      else if is_message (entries ! i) then Suc i
      else back_loop entries startIndex i)"

definition is_user_message :: "entry \<Rightarrow> bool" where
  "is_user_message en = (case e_body en of MessageE m \<Rightarrow> is_user m | _ \<Rightarrow> False)"

definition findCutPoint :: "entry list \<Rightarrow> nat \<Rightarrow> nat \<Rightarrow> nat \<Rightarrow> CutPointResult" where
  "findCutPoint entries startIndex endIndex keepRecentTokens =
     (let cutPoints = findValidCutPoints entries startIndex endIndex
      in if cutPoints = [] then
           \<lparr>cp_firstKeptEntryIndex = startIndex, cp_turnStartIndex = None, cp_isSplitTurn = False\<rparr>
         else
           (let cutIndex = back_loop entries startIndex
                  (choose_cut cutPoints (budget_loop entries startIndex keepRecentTokens 0 endIndex));
                isUserMessage = is_user_message (entries ! cutIndex);
                turnStartIndex =
                  (if isUserMessage then None else findTurnStartIndex entries cutIndex startIndex)
            in \<lparr>cp_firstKeptEntryIndex = cutIndex, cp_turnStartIndex = turnStartIndex,
                cp_isSplitTurn = (\<not> isUserMessage \<and> turnStartIndex \<noteq> None)\<rparr>))"

section \<open>Preparing a compaction\<close>

text \<open>The last compaction of a path.\<close>

fun last_compaction_index :: "entry list \<Rightarrow> nat \<Rightarrow> nat option" where
  "last_compaction_index entries 0 = None"
| "last_compaction_index entries (Suc i) =
     (if is_compaction (entries ! i) then Some i else last_compaction_index entries i)"

definition compaction_of :: "entry \<Rightarrow> CompactionEntry option" where
  "compaction_of en = (case e_body en of CompactionE c \<Rightarrow> Some c | _ \<Rightarrow> None)"

text \<open>\<open>previousSummary\<close> and \<open>boundaryStart\<close>\<close>

definition previous_compaction :: "entry list \<Rightarrow> nat option \<Rightarrow> jstring option \<times> nat" where
  "previous_compaction pathEntries prevCompactionIndex =
     (case prevCompactionIndex of
        None \<Rightarrow> (None, 0)
      | Some k \<Rightarrow>
          (case compaction_of (pathEntries ! k) of
             None \<Rightarrow> (None, 0)
           | Some c \<Rightarrow>
               (Some (ce_summary c),
                (case find_index (\<lambda>en. e_id en = ce_firstKeptEntryId c) pathEntries of
                   Some i \<Rightarrow> i | None \<Rightarrow> Suc k))))"

text \<open>The messages of the entries from \<open>i\<close> up to \<open>j\<close>.\<close>

definition messages_between :: "(jstring \<Rightarrow> int) \<Rightarrow> entry list \<Rightarrow> nat \<Rightarrow> nat \<Rightarrow> agent_message list" where
  "messages_between date_ms entries i j =
     List.map_filter (getMessageFromEntryForCompaction date_ms) (drop i (take j entries))"

definition no_uuid_error :: compaction_error where
  "no_uuid_error = CompactionError CInvalidSession
     (js ''First kept entry has no UUID - session may need migration'')"

definition prepareCompaction ::
    "(jstring \<Rightarrow> int) \<Rightarrow> entry list \<Rightarrow> CompactionSettings \<Rightarrow>
     compaction_error + CompactionPreparation option" where
  "prepareCompaction date_ms pathEntries settings =
     (if pathEntries = [] \<or> is_compaction (last pathEntries) then Inr None
      else
        (let prevCompactionIndex = last_compaction_index pathEntries (length pathEntries);
             (previousSummary, boundaryStart) = previous_compaction pathEntries prevCompactionIndex;
             tokensBefore = cue_tokens (estimateContextTokens
               (sc_messages (buildSessionContext date_ms pathEntries)));
             cutPoint = findCutPoint pathEntries boundaryStart (length pathEntries)
               (cs_keepRecentTokens settings);
             firstKept = cp_firstKeptEntryIndex cutPoint
         in if firstKept \<ge> length pathEntries \<or> e_id (pathEntries ! firstKept) = []
            then Inl no_uuid_error
            else
              (let historyEnd =
                     (if cp_isSplitTurn cutPoint then the (cp_turnStartIndex cutPoint) else firstKept);
                   messagesToSummarize = messages_between date_ms pathEntries boundaryStart historyEnd;
                   turnPrefixMessages =
                     (if cp_isSplitTurn cutPoint
                      then messages_between date_ms pathEntries (the (cp_turnStartIndex cutPoint)) firstKept
                      else []);
                   fileOps0 = extractFileOperations messagesToSummarize pathEntries prevCompactionIndex;
                   fileOps =
                     (if cp_isSplitTurn cutPoint
                      then fold extractFileOpsFromMessage turnPrefixMessages fileOps0 else fileOps0)
               in Inr (Some
                    \<lparr>pr_firstKeptEntryId = e_id (pathEntries ! firstKept),
                     pr_messagesToSummarize = messagesToSummarize,
                     pr_turnPrefixMessages = turnPrefixMessages,
                     pr_isSplitTurn = cp_isSplitTurn cutPoint,
                     pr_tokensBefore = tokensBefore,
                     pr_previousSummary = previousSummary,
                     pr_fileOps = fileOps,
                     pr_settings = settings\<rparr>))))"

section \<open>The cut point: properties\<close>

definition entry_tokens :: "entry \<Rightarrow> nat" where
  "entry_tokens en = (case e_body en of MessageE m \<Rightarrow> estimateTokens m | _ \<Rightarrow> 0)"

text \<open>The estimated tokens of the messages from \<open>i\<close> up to \<open>j\<close>.\<close>

definition tokens_between :: "entry list \<Rightarrow> nat \<Rightarrow> nat \<Rightarrow> nat" where
  "tokens_between entries i j = sum_list (map entry_tokens (drop i (take j entries)))"

lemma tokens_between_empty [simp]: "j \<le> i \<Longrightarrow> tokens_between entries i j = 0"
  by (simp add: tokens_between_def)

lemma tokens_between_Suc:
  "i < j \<Longrightarrow> j \<le> length entries \<Longrightarrow>
   tokens_between entries i j = entry_tokens (entries ! i) + tokens_between entries (Suc i) j"
  unfolding tokens_between_def by (subst Cons_nth_drop_Suc [symmetric]) auto

lemma tokens_between_mono: "i \<le> i' \<Longrightarrow> tokens_between entries i' j \<le> tokens_between entries i j"
proof -
  assume "i \<le> i'"
  then have "drop i' (take j entries) = drop (i' - i) (drop i (take j entries))" by simp
  then have "map entry_tokens (drop i (take j entries)) =
      take (i' - i) (map entry_tokens (drop i (take j entries))) @ map entry_tokens (drop i' (take j entries))"
    by (metis append_take_drop_id drop_map)
  then have "tokens_between entries i j =
      sum_list (take (i' - i) (map entry_tokens (drop i (take j entries)))) + tokens_between entries i' j"
    unfolding tokens_between_def by (metis sum_list_append)
  then show ?thesis by simp
qed

lemma budget_loop_Some:
  assumes "budget_loop entries s keep (tokens_between entries n e) n = Some i"
    and "e \<le> length entries" and "n \<le> e" and "tokens_between entries n e < keep"
  shows "s \<le> i \<and> i < n \<and> is_message (entries ! i) \<and>
         keep \<le> tokens_between entries i e \<and> tokens_between entries (Suc i) e < keep"
  using assms
proof (induction n)
  case (Suc n)
  have t: "tokens_between entries n e = entry_tokens (entries ! n) + tokens_between entries (Suc n) e"
    using Suc.prems by (simp add: tokens_between_Suc)
  show ?case
  proof (cases "is_message (entries ! n) \<and> keep \<le> tokens_between entries n e")
    case True
    then obtain m where m: "e_body (entries ! n) = MessageE m"
      by (cases "e_body (entries ! n)") (auto simp: is_message_def)
    with True t have "keep \<le> tokens_between entries (Suc n) e + estimateTokens m"
      by (simp add: entry_tokens_def add.commute)
    with Suc.prems m True show ?thesis by (auto simp: Let_def split: if_splits)
  next
    case False
    have "budget_loop entries s keep (tokens_between entries n e) n = Some i"
    proof (cases "is_message (entries ! n)")
      case True
      then obtain m where m: "e_body (entries ! n) = MessageE m"
        by (cases "e_body (entries ! n)") (auto simp: is_message_def)
      have "\<not> keep \<le> tokens_between entries (Suc n) e + estimateTokens m"
        using False True t m by (simp add: entry_tokens_def add.commute)
      then show ?thesis
        using Suc.prems(1) m t by (auto simp: Let_def entry_tokens_def add.commute split: if_splits)
    next
      case nm: False
      then show ?thesis
        using Suc.prems(1) t
        by (cases "e_body (entries ! n)")
          (auto simp: is_message_def entry_tokens_def split: if_splits)
    qed
    moreover have "tokens_between entries n e < keep"
      using False t Suc.prems(4)
      by (cases "e_body (entries ! n)") (auto simp: is_message_def entry_tokens_def)
    ultimately show ?thesis using Suc.IH Suc.prems(2,3) by auto
  qed
qed simp

lemma budget_loop_None:
  assumes "budget_loop entries s keep (tokens_between entries n e) n = None"
    and "e \<le> length entries" and "s \<le> n" and "n \<le> e" and "tokens_between entries n e < keep"
  shows "tokens_between entries s e < keep"
  using assms
proof (induction n)
  case (Suc n)
  show ?case
  proof (cases "s = Suc n")
    case False
    then have sn: "s \<le> n" using Suc.prems(3) by simp
    have t: "tokens_between entries n e = entry_tokens (entries ! n) + tokens_between entries (Suc n) e"
      using Suc.prems by (simp add: tokens_between_Suc)
    have "budget_loop entries s keep (tokens_between entries n e) n = None \<and> tokens_between entries n e < keep"
      using Suc.prems(1,5) sn t
      by (cases "e_body (entries ! n)")
        (auto simp: entry_tokens_def Let_def add.commute split: if_splits)
    then show ?thesis using Suc.IH Suc.prems(2,4) sn by auto
  qed (use Suc.prems in simp)
qed simp

lemma back_loop_spec:
  assumes "s \<le> c"
  shows "s \<le> back_loop entries s c \<and> back_loop entries s c \<le> c \<and>
    (\<forall>k. back_loop entries s c \<le> k \<and> k < c \<longrightarrow> \<not> is_message (entries ! k) \<and> \<not> is_compaction (entries ! k))"
  using assms
proof (induction c)
  case (Suc c)
  show ?case
  proof (cases "Suc c \<le> s \<or> is_compaction (entries ! c) \<or> is_message (entries ! c)")
    case False
    with Suc show ?thesis by (auto simp: less_Suc_eq)
  qed (use Suc.prems in auto)
qed simp

lemma turn_start_loop_Some:
  "turn_start_loop entries s n = Some i \<Longrightarrow>
   s \<le> i \<and> i < n \<and> is_turn_start (entries ! i) \<and> (\<forall>k. i < k \<and> k < n \<longrightarrow> \<not> is_turn_start (entries ! k))"
proof (induction n)
  case (Suc n)
  then show ?case by (auto simp: less_Suc_eq split: if_splits)
qed simp

lemma choose_cut_member: "cutPoints \<noteq> [] \<Longrightarrow> choose_cut cutPoints r \<in> set cutPoints"
  by (auto simp: choose_cut_def find_Some_iff split: option.splits)

lemma cut_points_set:
  "set (findValidCutPoints entries s e) = {i. s \<le> i \<and> i < e \<and> is_cut_point (entries ! i)}"
  by (auto simp: findValidCutPoints_def)

lemma findCutPoint_cut:
  fixes keep :: nat
  assumes "findValidCutPoints entries s e \<noteq> []"
  defines "r \<equiv> findCutPoint entries s e keep"
    and "c \<equiv> choose_cut (findValidCutPoints entries s e) (budget_loop entries s keep 0 e)"
  shows "s \<le> cp_firstKeptEntryIndex r" "cp_firstKeptEntryIndex r \<le> c" "c < e" "is_cut_point (entries ! c)"
    "\<forall>k. cp_firstKeptEntryIndex r \<le> k \<and> k < c \<longrightarrow> \<not> is_message (entries ! k) \<and> \<not> is_compaction (entries ! k)"
    "cp_isSplitTurn r \<longrightarrow> (\<exists>t. cp_turnStartIndex r = Some t \<and> s \<le> t \<and> t \<le> cp_firstKeptEntryIndex r \<and>
       is_turn_start (entries ! t) \<and>
       (\<forall>k. t < k \<and> k \<le> cp_firstKeptEntryIndex r \<longrightarrow> \<not> is_turn_start (entries ! k)))"
proof -
  have c: "s \<le> c" "c < e" "is_cut_point (entries ! c)"
    using choose_cut_member [OF assms(1)] unfolding c_def cut_points_set by auto
  have first: "cp_firstKeptEntryIndex r = back_loop entries s c"
    using assms(1) by (simp add: r_def c_def findCutPoint_def Let_def)
  note b = back_loop_spec [OF c(1), of entries]
  show "s \<le> cp_firstKeptEntryIndex r" "cp_firstKeptEntryIndex r \<le> c" "c < e" "is_cut_point (entries ! c)"
    "\<forall>k. cp_firstKeptEntryIndex r \<le> k \<and> k < c \<longrightarrow> \<not> is_message (entries ! k) \<and> \<not> is_compaction (entries ! k)"
    using b c unfolding first by auto
  show "cp_isSplitTurn r \<longrightarrow> (\<exists>t. cp_turnStartIndex r = Some t \<and> s \<le> t \<and> t \<le> cp_firstKeptEntryIndex r \<and>
       is_turn_start (entries ! t) \<and>
       (\<forall>k. t < k \<and> k \<le> cp_firstKeptEntryIndex r \<longrightarrow> \<not> is_turn_start (entries ! k)))"
    using assms(1) turn_start_loop_Some [of entries s "Suc (back_loop entries s c)"]
    by (auto simp: r_def findCutPoint_def Let_def c_def [symmetric] findTurnStartIndex_def less_Suc_eq_le
        simp del: turn_start_loop.simps)
qed

text \<open>A tool result and the call it answers.\<close>

definition tool_result_id :: "entry \<Rightarrow> jstring option" where
  "tool_result_id en =
     (case e_body en of MessageE (Msg (ToolResult r)) \<Rightarrow> Some (trm_toolCallId r) | _ \<Rightarrow> None)"

definition issues_call :: "entry \<Rightarrow> jstring \<Rightarrow> bool" where
  "issues_call en cid =
     (case e_body en of
        MessageE (Msg (Assistant a)) \<Rightarrow> cid \<in> tc_id ` set (tool_calls_of (am_content a)) | _ \<Rightarrow> False)"

text \<open>
  Every tool result from \<open>lo\<close> up to \<open>hi\<close> answers a call of an assistant message of that range,
  with no user-visible entry in between.
\<close>

definition results_grounded :: "entry list \<Rightarrow> nat \<Rightarrow> nat \<Rightarrow> bool" where
  "results_grounded entries lo hi \<longleftrightarrow>
     (\<forall>k cid. lo \<le> k \<and> k < hi \<and> tool_result_id (entries ! k) = Some cid \<longrightarrow>
        (\<exists>j. lo \<le> j \<and> j < k \<and> issues_call (entries ! j) cid \<and>
             (\<forall>m. j < m \<and> m < k \<longrightarrow> \<not> is_cut_point (entries ! m))))"

lemma tool_result_message: "tool_result_id en = Some cid \<Longrightarrow> is_message en \<and> \<not> is_cut_point en"
  by (auto simp: tool_result_id_def is_message_def is_cut_point_def
      split: entry_body.splits agent_message.splits message.splits)

text \<open>
  Claim C18. The cut never separates a tool result from the assistant message that issued its
  call: if the results of the range are grounded, so are those of the kept part.
\<close>

theorem findCutPoint_keeps_results_grounded:
  assumes "results_grounded entries s e"
  shows "results_grounded entries (cp_firstKeptEntryIndex (findCutPoint entries s e keep)) e"
proof (cases "findValidCutPoints entries s e = []")
  case True
  with assms show ?thesis by (simp add: findCutPoint_def)
next
  case False
  let ?first = "cp_firstKeptEntryIndex (findCutPoint entries s e keep)"
  define c where "c = choose_cut (findValidCutPoints entries s e) (budget_loop entries s keep 0 e)"
  note cut = findCutPoint_cut [OF False, of keep, folded c_def]
  show ?thesis unfolding results_grounded_def
  proof (intro allI impI, elim conjE)
    fix k cid
    assume k: "?first \<le> k" "k < e" "tool_result_id (entries ! k) = Some cid"
    have "s \<le> k" using cut(1) k(1) by simp
    then obtain j where j: "s \<le> j" "j < k" "issues_call (entries ! j) cid"
      "\<forall>m. j < m \<and> m < k \<longrightarrow> \<not> is_cut_point (entries ! m)"
      using assms k(2,3) unfolding results_grounded_def by blast
    have "\<not> k < c" using cut(5) k(1,3) tool_result_message by blast
    moreover have "k \<noteq> c" using cut(4) k(3) tool_result_message by blast
    ultimately have "c < k" by simp
    then have "c \<le> j" using j(4) cut(4) by (meson not_le)
    then have "?first \<le> j" using cut(2) by simp
    with j(2-4) show "\<exists>j. ?first \<le> j \<and> j < k \<and> issues_call (entries ! j) cid \<and>
             (\<forall>m. j < m \<and> m < k \<longrightarrow> \<not> is_cut_point (entries ! m))" by blast
  qed
qed

lemma budget_index_unique:
  assumes "keep \<le> tokens_between entries i e" and "tokens_between entries (Suc i) e < keep"
    and "keep \<le> tokens_between entries i' e" and "tokens_between entries (Suc i') e < keep"
  shows "i = i'"
proof (rule ccontr)
  assume "i \<noteq> i'"
  then consider "Suc i \<le> i'" | "Suc i' \<le> i" by linarith
  then show False
    using tokens_between_mono [of "Suc i" i' entries e] tokens_between_mono [of "Suc i'" i entries e] assms
    by cases linarith+
qed

lemma budget_loop_reached:
  assumes "0 < keep" and "e \<le> length entries" and "s \<le> i" and "i < e"
    and "keep \<le> tokens_between entries i e" and "tokens_between entries (Suc i) e < keep"
  shows "budget_loop entries s keep 0 e = Some i"
proof (cases "budget_loop entries s keep 0 e")
  case None
  have "tokens_between entries s e < keep"
    using budget_loop_None [of entries s keep e e] None assms(1-4) by simp
  with tokens_between_mono [OF assms(3), of entries e] assms(5) show ?thesis by linarith
next
  case (Some i')
  have "keep \<le> tokens_between entries i' e \<and> tokens_between entries (Suc i') e < keep"
    using budget_loop_Some [of entries s keep e e i'] Some assms(1,2) by simp
  then have "i = i'" using budget_index_unique [OF assms(5,6)] by blast
  with Some show ?thesis by simp
qed

lemma tokens_between_no_messages:
  assumes "\<forall>k. i \<le> k \<and> k < c \<longrightarrow> \<not> is_message (entries ! k)" and "i \<le> c" and "c \<le> e" and "e \<le> length entries"
  shows "tokens_between entries i e = tokens_between entries c e"
  using assms
proof (induction "c - i" arbitrary: i)
  case (Suc n)
  then have "entry_tokens (entries ! i) = 0"
    by (auto simp: is_message_def entry_tokens_def split: entry_body.splits)
  moreover have "tokens_between entries (Suc i) e = tokens_between entries c e"
    by (rule Suc.hyps(1)) (use Suc in auto)
  ultimately show ?case using Suc tokens_between_Suc [of i e entries] by simp
qed simp

text \<open>
  The kept part is as small as the budget asks: when the budget is reached at entry
  \<open>i\<close> and a cut point lies at or after it, the kept messages exceed the budget by at most the
  entry at the cut.
\<close>

theorem findCutPoint_budget:
  assumes "0 < keep" and "e \<le> length entries" and "s \<le> i" and "i \<le> d" and "d < e"
    and "is_cut_point (entries ! d)"
    and "keep \<le> tokens_between entries i e" and "tokens_between entries (Suc i) e < keep"
  shows "\<exists>c. i \<le> c \<and> c \<le> d \<and> is_cut_point (entries ! c) \<and>
           cp_firstKeptEntryIndex (findCutPoint entries s e keep) \<le> c \<and>
           tokens_between entries (cp_firstKeptEntryIndex (findCutPoint entries s e keep)) e
             < keep + entry_tokens (entries ! c)"
proof -
  let ?cps = "findValidCutPoints entries s e"
  let ?first = "cp_firstKeptEntryIndex (findCutPoint entries s e keep)"
  have d: "d \<in> set ?cps" using assms(3-6) by (simp add: cut_points_set)
  then have ne: "?cps \<noteq> []" by auto
  have "i < e" using assms(4,5) by simp
  then have b: "budget_loop entries s keep 0 e = Some i"
    using budget_loop_reached assms(1-3,7,8) by blast
  obtain c where c: "find (\<lambda>c. c \<ge> i) ?cps = Some c"
    using d assms(4) by (metis find_None_iff not_Some_eq)
  then obtain n where n: "n < length ?cps" "c \<ge> i" "c = ?cps ! n" "\<forall>j < n. \<not> ?cps ! j \<ge> i"
    by (auto simp: find_Some_iff)
  have "c \<le> d"
  proof -
    obtain m where m: "m < length ?cps" "d = ?cps ! m" using d by (metis in_set_conv_nth)
    then have "n \<le> m" using n(4) assms(4) by (meson not_le)
    moreover have "sorted ?cps" by (simp add: findValidCutPoints_def sorted_wrt_filter)
    ultimately show ?thesis using m n(3) sorted_nth_mono by blast
  qed
  have choose: "choose_cut ?cps (budget_loop entries s keep 0 e) = c"
    by (simp add: b c choose_cut_def)
  note cut = findCutPoint_cut [OF ne, of keep, unfolded choose]
  have "tokens_between entries ?first e = tokens_between entries c e"
    by (rule tokens_between_no_messages) (use cut(2,3,5) assms(2) in auto)
  also have "\<dots> = entry_tokens (entries ! c) + tokens_between entries (Suc c) e"
    using cut(3) assms(2) by (simp add: tokens_between_Suc)
  also have "\<dots> < keep + entry_tokens (entries ! c)"
    using tokens_between_mono [of "Suc i" "Suc c" entries e] n(2) assms(8) by simp
  finally show ?thesis using n(2) \<open>c \<le> d\<close> cut(2,4) by blast
qed

text \<open>
  When the budget is reached inside the tool results at the end of the branch, after
  the last cut point, the scan falls back to the earliest cut point: no user-visible entry of
  the range is cut off, however far the branch exceeds the budget.
\<close>

theorem findCutPoint_oversized_tail:
  assumes "0 < keep" and "e \<le> length entries" and "s \<le> i" and "i < e"
    and "keep \<le> tokens_between entries i e" and "tokens_between entries (Suc i) e < keep"
    and "\<forall>c. i \<le> c \<and> c < e \<longrightarrow> \<not> is_cut_point (entries ! c)"
  shows "\<forall>k. s \<le> k \<and> k < cp_firstKeptEntryIndex (findCutPoint entries s e keep) \<longrightarrow>
           \<not> is_cut_point (entries ! k)"
proof (cases "findValidCutPoints entries s e = []")
  case False
  let ?cps = "findValidCutPoints entries s e"
  have "find (\<lambda>c. c \<ge> i) ?cps = None"
    using assms(7) by (auto simp: find_None_iff cut_points_set)
  then have "choose_cut ?cps (budget_loop entries s keep 0 e) = hd ?cps"
    using budget_loop_reached [OF assms(1-6)] by (simp add: choose_cut_def)
  then have first: "cp_firstKeptEntryIndex (findCutPoint entries s e keep) \<le> hd ?cps"
    and lt: "hd ?cps < e"
    using findCutPoint_cut(2,3) [OF False, of keep] by simp_all
  have "\<not> is_cut_point (entries ! k)" if "s \<le> k" "k < hd ?cps" for k
  proof
    assume "is_cut_point (entries ! k)"
    then have "k \<in> set ?cps" using that lt by (simp add: cut_points_set)
    moreover have "sorted ?cps" by (simp add: findValidCutPoints_def sorted_wrt_filter)
    ultimately have "hd ?cps \<le> k"
      by (cases ?cps) auto
    with that show False by simp
  qed
  with first show ?thesis by auto
qed (auto simp: findCutPoint_def)

section \<open>What a compaction removes and what it keeps\<close>

lemma last_compaction_index_Some:
  "last_compaction_index entries n = Some k \<Longrightarrow>
   k < n \<and> is_compaction (entries ! k) \<and> (\<forall>j. k < j \<and> j < n \<longrightarrow> \<not> is_compaction (entries ! j))"
  by (induction n) (auto simp: less_Suc_eq split: if_splits)

lemma last_compaction_index_None:
  "last_compaction_index entries n = None \<Longrightarrow> \<forall>j < n. \<not> is_compaction (entries ! j)"
  by (induction n) (auto simp: less_Suc_eq split: if_splits)

lemma is_compaction_body: "is_compaction en \<longleftrightarrow> (\<exists>c. e_body en = CompactionE c)"
  by (cases "e_body en") (simp_all add: is_compaction_def)

lemma findCutPoint_range:
  assumes "s < e"
  shows "s \<le> cp_firstKeptEntryIndex (findCutPoint entries s e keep) \<and>
         cp_firstKeptEntryIndex (findCutPoint entries s e keep) < e \<and>
         (cp_isSplitTurn (findCutPoint entries s e keep) \<longrightarrow>
           (\<exists>t. cp_turnStartIndex (findCutPoint entries s e keep) = Some t \<and> s \<le> t \<and>
              t \<le> cp_firstKeptEntryIndex (findCutPoint entries s e keep)))"
proof (cases "findValidCutPoints entries s e = []")
  case True
  with assms show ?thesis by (simp add: findCutPoint_def)
next
  case False
  from findCutPoint_cut [OF False, of keep] show ?thesis by force
qed

lemma messages_between_append:
  assumes "i \<le> t" and "t \<le> j"
  shows "messages_between date_ms entries i t @ messages_between date_ms entries t j =
         messages_between date_ms entries i j"
proof -
  have t: "take t (take j entries) @ drop t (take j entries) = take j entries" by (rule append_take_drop_id)
  have "drop i (take j entries) = drop i (take t entries) @ drop t (take j entries)"
  proof (cases "t \<le> length entries")
    case True
    with t assms show ?thesis
      by (metis drop_append drop0 diff_is_0_eq length_take min.absorb1 min.absorb2 take_take)
  next
    case False
    with assms show ?thesis by simp
  qed
  then show ?thesis by (simp add: messages_between_def List.map_filter_def)
qed

text \<open>What an entry contributes to a context is given to the summary when the entry is removed.\<close>

lemma entry_messages_summarised:
  "entry_messages date_ms en =
     (case getMessageFromEntryForCompaction date_ms en of
        None \<Rightarrow> [] | Some m \<Rightarrow> if entry_messages date_ms en = [] then [] else [m])"
  by (auto simp: entry_messages_def getMessageFromEntryForCompaction_def getMessageFromEntry_def
      is_compaction_def split: entry_body.splits)

lemma subseq_summarised:
  "subseq (concat (map (entry_messages date_ms) ens))
     (List.map_filter (getMessageFromEntryForCompaction date_ms) ens)"
proof (induction ens)
  case (Cons en ens)
  have "subseq (entry_messages date_ms en)
      (case getMessageFromEntryForCompaction date_ms en of None \<Rightarrow> [] | Some m \<Rightarrow> [m])"
    by (subst entry_messages_summarised) (simp split: option.splits)
  moreover have "List.map_filter (getMessageFromEntryForCompaction date_ms) (en # ens) =
      (case getMessageFromEntryForCompaction date_ms en of None \<Rightarrow> [] | Some m \<Rightarrow> [m]) @
      List.map_filter (getMessageFromEntryForCompaction date_ms) ens"
    by (simp add: List.map_filter_def split: option.splits)
  ultimately show ?case using Cons by (simp add: list_emb_append_mono)
qed (simp add: List.map_filter_def)

text \<open>A stored compaction names a first kept entry before itself, or one that is not on the path.\<close>

definition compactions_ok :: "entry list \<Rightarrow> bool" where
  "compactions_ok path \<longleftrightarrow>
     (\<forall>k c i. k < length path \<and> e_body (path ! k) = CompactionE c \<and> i < length path \<and>
        e_id (path ! i) = ce_firstKeptEntryId c \<longrightarrow> i < k)"

lemma dropWhile_find_index:
  assumes "find_index (\<lambda>x. e_id x = fk) xs = Some i"
  shows "dropWhile (\<lambda>x. e_id x \<noteq> fk) xs = drop i xs"
  using assms
proof (induction xs arbitrary: i)
  case (Cons x xs)
  then show ?case by (auto split: if_splits)
qed simp

text \<open>The context of a path is the previous summary followed by the messages from the boundary on.\<close>

lemma context_from_boundary:
  assumes "path \<noteq> []" and "\<not> is_compaction (last path)" and "distinct (map e_id path)"
    and "compactions_ok path"
    and "previous_compaction path (last_compaction_index path (length path)) = (prev, b)"
  shows "b < length path \<and>
    (\<exists>ps. context_messages date_ms path = ps @ concat (map (entry_messages date_ms) (drop b path)) \<and>
       (case prev of None \<Rightarrow> ps = []
        | Some s \<Rightarrow> \<exists>m. ps = [CompactionSummary m] \<and> csm_summary m = s))"
proof (cases "last_compaction_index path (length path)")
  case None
  then have "\<forall>en \<in> set path. \<not> is_compaction en"
    using last_compaction_index_None [OF None] by (metis in_set_conv_nth)
  with assms None context_messages_uncompacted [of path date_ms] show ?thesis
    by (simp add: previous_compaction_def)
next
  case (Some k)
  note k = last_compaction_index_Some [OF Some]
  then obtain c where c: "e_body (path ! k) = CompactionE c" by (auto simp: is_compaction_body)
  have len: "Suc k < length path"
    using k assms(1,2) by (metis Suc_lessI diff_Suc_1 last_conv_nth)
  have split: "path = take k path @ path ! k # drop (Suc k) path"
    using k by (simp add: id_take_nth_drop)
  have post: "\<forall>en \<in> set (drop (Suc k) path). \<not> is_compaction en"
  proof
    fix en assume "en \<in> set (drop (Suc k) path)"
    then obtain n where n: "n < length path - Suc k" "en = path ! (Suc k + n)"
      by (auto simp: in_set_conv_nth)
    then show "\<not> is_compaction en" using k by auto
  qed
  have "distinct (map e_id (take k path @ path ! k # drop (Suc k) path))"
    using assms(3) split by simp
  then have new: "e_id (path ! k) \<notin> e_id ` set (take k path)" by auto
  let ?s = "CompactionSummary (createCompactionSummaryMessage date_ms (ce_summary c) (ce_tokensBefore c)
    (e_timestamp (path ! k)))"
  let ?em = "\<lambda>ens. concat (map (entry_messages date_ms) ens)"
  have ctx: "context_messages date_ms path = [?s] @
      ?em (dropWhile (\<lambda>en. e_id en \<noteq> ce_firstKeptEntryId c) (take k path)) @ ?em (drop (Suc k) path)"
    using context_messages_compacted [OF c post new, of date_ms] split by simp
  have none: "entry_messages date_ms (path ! k) = []" by (simp add: entry_messages_def c)
  have b: "prev = Some (ce_summary c)" "b = (case find_index (\<lambda>en. e_id en = ce_firstKeptEntryId c) path of
      Some i \<Rightarrow> i | None \<Rightarrow> Suc k)"
    using assms(5) Some c by (simp_all add: previous_compaction_def compaction_of_def)
  have "b < length path \<and> ?em (drop b path) =
      ?em (dropWhile (\<lambda>en. e_id en \<noteq> ce_firstKeptEntryId c) (take k path)) @ ?em (drop (Suc k) path)"
  proof (cases "find_index (\<lambda>en. e_id en = ce_firstKeptEntryId c) path")
    case None
    then have "\<forall>en \<in> set (take k path). e_id en \<noteq> ce_firstKeptEntryId c"
      by (auto simp: find_index_None dest: in_set_takeD)
    then have dw: "dropWhile (\<lambda>en. e_id en \<noteq> ce_firstKeptEntryId c) (take k path) = []"
      by (simp add: dropWhile_eq_Nil_conv)
    show ?thesis unfolding dw using b None len by simp
  next
    case i: (Some i)
    note fi = find_index_Some [OF i]
    have ik: "i < k" using assms(4) c fi k unfolding compactions_ok_def by blast
    have "path = take k path @ drop k path" by simp
    then have "find_index (\<lambda>en. e_id en = ce_firstKeptEntryId c) (take k path) = Some i"
      using i ik find_index_append [of "\<lambda>en. e_id en = ce_firstKeptEntryId c" "take k path" "drop k path"] k
      by (auto split: option.splits)
    then have dw: "dropWhile (\<lambda>en. e_id en \<noteq> ce_firstKeptEntryId c) (take k path) = drop i (take k path)"
      by (rule dropWhile_find_index)
    have "drop i path = drop i (take k path) @ path ! k # drop (Suc k) path"
      using ik k by (subst split) (simp add: drop_append)
    then show ?thesis using b i fi dw none by simp
  qed
  with ctx b show ?thesis by (simp add: createCompactionSummaryMessage_def)
qed

text \<open>What \<open>prepareCompaction\<close> returns, when there is something to compact.\<close>

lemma prepareCompaction_result:
  assumes "path \<noteq> []" and "\<not> is_compaction (last path)" and "[] \<notin> e_id ` set path"
    and prev: "previous_compaction path (last_compaction_index path (length path)) = (prev, b)"
    and "b < length path"
  obtains p f where "prepareCompaction date_ms path settings = Inr (Some p)"
    and "b \<le> f" and "f < length path" and "pr_firstKeptEntryId p = e_id (path ! f)"
    and "pr_messagesToSummarize p @ pr_turnPrefixMessages p = messages_between date_ms path b f"
    and "pr_previousSummary p = prev"
proof -
  let ?cp = "findCutPoint path b (length path) (cs_keepRecentTokens settings)"
  let ?f = "cp_firstKeptEntryIndex ?cp"
  note range = findCutPoint_range [OF assms(5), of path "cs_keepRecentTokens settings"]
  have id: "e_id (path ! ?f) \<noteq> []" using assms(3) range by (metis image_eqI nth_mem)
  have nothing: "\<not> (path = [] \<or> is_compaction (last path))"
    and ok: "\<not> (?f \<ge> length path \<or> e_id (path ! ?f) = [])"
    using assms(1,2) range id by auto
  have "\<exists>p. prepareCompaction date_ms path settings = Inr (Some p) \<and>
      pr_firstKeptEntryId p = e_id (path ! ?f) \<and>
      pr_messagesToSummarize p @ pr_turnPrefixMessages p = messages_between date_ms path b ?f \<and>
      pr_previousSummary p = prev"
  proof (cases "cp_isSplitTurn ?cp")
    case True
    then obtain t where t: "cp_turnStartIndex ?cp = Some t" "b \<le> t" "t \<le> ?f" using range by blast
    show ?thesis
      unfolding prepareCompaction_def if_not_P [OF nothing] Let_def prev case_prod_conv if_not_P [OF ok]
      using t True messages_between_append [OF t(2,3), of date_ms path] assms(1,2) by simp
  next
    case False
    then show ?thesis
      unfolding prepareCompaction_def if_not_P [OF nothing] Let_def prev case_prod_conv if_not_P [OF ok]
      using assms(1,2) by simp
  qed
  with range that show thesis by blast
qed

lemma dropWhile_id:
  "distinct (map e_id path) \<Longrightarrow> f < length path \<Longrightarrow>
   dropWhile (\<lambda>en. e_id en \<noteq> e_id (path ! f)) path = drop f path"
proof (induction path arbitrary: f)
  case (Cons en path)
  show ?case
  proof (cases f)
    case (Suc n)
    with Cons.prems have "e_id en \<noteq> e_id (path ! n)" by (metis distinct.simps(2) image_eqI length_Cons
        list.set_map list.simps(9) not_less_eq nth_mem)
    with Suc Cons show ?thesis by simp
  qed simp
qed simp

section \<open>Writing the summary\<close>

record CompletionOptions =
  co_maxTokens :: nat
  co_apiKey :: jstring
  co_headers :: "(jstring \<times> jstring) list option"
  co_reasoning :: "jstring option"

text \<open>
  \<open>completeSimple\<close>: model, system prompt, messages and options; the abort signal is seen by the
  provider only, and a provider reports failures in the message it returns.
\<close>

type_synonym completeSimple =
  "Model \<Rightarrow> jstring \<Rightarrow> message list \<Rightarrow> CompletionOptions \<Rightarrow> world \<Rightarrow> AssistantMessage \<times> world"

text \<open>
  \<open>Math.min(Math.floor(share * reserveTokens), model.maxTokens > 0 ? model.maxTokens : Infinity)\<close>
  for the shares 0.8 and 0.5, with the product taken exactly.
\<close>

definition max_tokens :: "nat \<Rightarrow> nat \<Rightarrow> nat \<Rightarrow> Model \<Rightarrow> nat" where
  "max_tokens num den reserveTokens model =
     (if mo_maxTokens model > 0 then min (num * reserveTokens div den) (mo_maxTokens model)
      else num * reserveTokens div den)"

definition completion_options ::
    "Model \<Rightarrow> nat \<Rightarrow> jstring \<Rightarrow> (jstring \<times> jstring) list option \<Rightarrow> jstring option \<Rightarrow> CompletionOptions" where
  "completion_options model maxTokens apiKey headers thinkingLevel =
     \<lparr>co_maxTokens = maxTokens, co_apiKey = apiKey, co_headers = headers,
      co_reasoning =
        (case thinkingLevel of
           Some l \<Rightarrow> (if mo_reasoning model \<and> l \<noteq> [] \<and> l \<noteq> js ''off'' then Some l else None)
         | None \<Rightarrow> None)\<rparr>"

text \<open>\<open>response.errorMessage || fallback\<close>\<close>

definition error_text :: "AssistantMessage \<Rightarrow> jstring \<Rightarrow> jstring" where
  "error_text response fallback =
     (case am_errorMessage response of Some m \<Rightarrow> (if m \<noteq> [] then m else fallback) | None \<Rightarrow> fallback)"

definition conversation_block :: "agent_message list \<Rightarrow> jstring" where
  "conversation_block messages =
     js ''<conversation>'' @ [newline] @ serializeConversation (convertToLlm messages) @ [newline] @
     js ''</conversation>'' @ [newline, newline]"

text \<open>An optional string that is used only when it is not empty.\<close>

definition given :: "jstring option \<Rightarrow> jstring option" where
  "given x = (case x of Some s \<Rightarrow> (if s \<noteq> [] then Some s else None) | None \<Rightarrow> None)"

definition summary_prompt :: "agent_message list \<Rightarrow> jstring option \<Rightarrow> jstring option \<Rightarrow> jstring" where
  "summary_prompt currentMessages customInstructions previousSummary =
     (let basePrompt0 =
            (if given previousSummary \<noteq> None then UPDATE_SUMMARIZATION_PROMPT else SUMMARIZATION_PROMPT);
          basePrompt =
            (case given customInstructions of
               Some c \<Rightarrow> basePrompt0 @ [newline, newline] @ js ''Additional focus: '' @ c
             | None \<Rightarrow> basePrompt0)
      in conversation_block currentMessages @
         (case given previousSummary of
            Some s \<Rightarrow> js ''<previous-summary>'' @ [newline] @ s @ [newline] @ js ''</previous-summary>'' @
                      [newline, newline]
          | None \<Rightarrow> []) @ basePrompt)"

text \<open>The call to the model and the reading of its answer, shared by the two summaries.\<close>

definition request_summary ::
    "env \<Rightarrow> completeSimple \<Rightarrow> Model \<Rightarrow> jstring \<Rightarrow> CompletionOptions \<Rightarrow> jstring \<Rightarrow> jstring \<Rightarrow> world \<Rightarrow>
     (compaction_error + jstring) \<times> world" where
  "request_summary e llm model promptText options abortedText failedPrefix w =
     (case date_now e w of (now, w1) \<Rightarrow>
       (case llm model SUMMARIZATION_SYSTEM_PROMPT [user_text promptText (int now)] options w1 of
          (response, w2) \<Rightarrow>
            (if am_stopReason response = Aborted
             then (Inl (CompactionError CAborted (error_text response abortedText)), w2)
             else if am_stopReason response = Error
             then (Inl (CompactionError CSummarizationFailed
                     (failedPrefix @ error_text response (js ''Unknown error''))), w2)
             else (Inr (join [newline] (assistant_texts (am_content response))), w2))))"

definition generateSummary ::
    "env \<Rightarrow> completeSimple \<Rightarrow> agent_message list \<Rightarrow> Model \<Rightarrow> nat \<Rightarrow> jstring \<Rightarrow>
     (jstring \<times> jstring) list option \<Rightarrow> jstring option \<Rightarrow> jstring option \<Rightarrow> jstring option \<Rightarrow> world \<Rightarrow>
     (compaction_error + jstring) \<times> world" where
  "generateSummary e llm currentMessages model reserveTokens apiKey headers customInstructions
      previousSummary thinkingLevel w =
     request_summary e llm model (summary_prompt currentMessages customInstructions previousSummary)
       (completion_options model (max_tokens 4 5 reserveTokens model) apiKey headers thinkingLevel)
       (js ''Summarization aborted'') (js ''Summarization failed: '') w"

definition generateTurnPrefixSummary ::
    "env \<Rightarrow> completeSimple \<Rightarrow> agent_message list \<Rightarrow> Model \<Rightarrow> nat \<Rightarrow> jstring \<Rightarrow>
     (jstring \<times> jstring) list option \<Rightarrow> jstring option \<Rightarrow> world \<Rightarrow>
     (compaction_error + jstring) \<times> world" where
  "generateTurnPrefixSummary e llm messages model reserveTokens apiKey headers thinkingLevel w =
     request_summary e llm model (conversation_block messages @ TURN_PREFIX_SUMMARIZATION_PROMPT)
       (completion_options model (max_tokens 1 2 reserveTokens model) apiKey headers thinkingLevel)
       (js ''Turn prefix summarization aborted'') (js ''Turn prefix summarization failed: '') w"

text \<open>
  The summary text of \<open>compact\<close>. The two requests of a split turn run concurrently
  (\<open>Promise.all\<close>); they are started in this order and both are awaited, and the code looks at the
  history result first.
\<close>

definition compaction_summary ::
    "env \<Rightarrow> completeSimple \<Rightarrow> CompactionPreparation \<Rightarrow> Model \<Rightarrow> jstring \<Rightarrow> (jstring \<times> jstring) list option \<Rightarrow>
     jstring option \<Rightarrow> jstring option \<Rightarrow> world \<Rightarrow> (compaction_error + jstring) \<times> world" where
  "compaction_summary e llm p model apiKey headers customInstructions thinkingLevel w =
     (let reserve = cs_reserveTokens (pr_settings p);
          history = generateSummary e llm (pr_messagesToSummarize p) model reserve apiKey headers
                      customInstructions (pr_previousSummary p) thinkingLevel
      in if pr_isSplitTurn p \<and> pr_turnPrefixMessages p \<noteq> [] then
           (case (if pr_messagesToSummarize p \<noteq> [] then history w
                  else (Inr (js ''No prior history.''), w)) of (historyResult, w1) \<Rightarrow>
             (case generateTurnPrefixSummary e llm (pr_turnPrefixMessages p) model reserve apiKey
                     headers thinkingLevel w1 of (turnPrefixResult, w2) \<Rightarrow>
               (case historyResult of
                  Inl err \<Rightarrow> (Inl err, w2)
                | Inr h \<Rightarrow>
                    (case turnPrefixResult of
                       Inl err \<Rightarrow> (Inl err, w2)
                     | Inr t \<Rightarrow>
                         (Inr (h @ [newline, newline] @ js ''---'' @ [newline, newline] @
                               js ''**Turn Context (split turn):**'' @ [newline, newline] @ t), w2)))))
         else history w)"

definition compact ::
    "env \<Rightarrow> completeSimple \<Rightarrow> CompactionPreparation \<Rightarrow> Model \<Rightarrow> jstring \<Rightarrow> (jstring \<times> jstring) list option \<Rightarrow>
     jstring option \<Rightarrow> jstring option \<Rightarrow> world \<Rightarrow> (compaction_error + CompactionResult) \<times> world" where
  "compact e llm p model apiKey headers customInstructions thinkingLevel w =
     (if pr_firstKeptEntryId p = [] then (Inl no_uuid_error, w)
      else
        (case compaction_summary e llm p model apiKey headers customInstructions thinkingLevel w of
           (Inl err, w1) \<Rightarrow> (Inl err, w1)
         | (Inr summary, w1) \<Rightarrow>
             (case computeFileLists (pr_fileOps p) of (readFiles, modifiedFiles) \<Rightarrow>
                (Inr \<lparr>cr_summary = summary @ formatFileOperations readFiles modifiedFiles,
                      cr_firstKeptEntryId = pr_firstKeptEntryId p,
                      cr_tokensBefore = pr_tokensBefore p,
                      cr_readFiles = readFiles, cr_modifiedFiles = modifiedFiles\<rparr>, w1))))"

text \<open>
  The summary of a compaction, as answers of the model: of a request that holds the conversation to be
  summarised and the previous summary, unless there is only the beginning of a split turn, and of one
  that holds that beginning.
\<close>

definition asked :: "completeSimple \<Rightarrow> Model \<Rightarrow> jstring \<Rightarrow> jstring \<Rightarrow> bool" where
  "asked llm model prompt answer \<longleftrightarrow>
     (\<exists>now options w response w'. llm model SUMMARIZATION_SYSTEM_PROMPT [user_text prompt now] options w = (response, w') \<and>
        am_stopReason response \<noteq> Aborted \<and> am_stopReason response \<noteq> Error \<and>
        answer = join [newline] (assistant_texts (am_content response)))"

definition conversation_in :: "agent_message list \<Rightarrow> jstring \<Rightarrow> bool" where
  "conversation_in messages prompt \<longleftrightarrow> sublist (serializeConversation (convertToLlm messages)) prompt"

definition summarises :: "completeSimple \<Rightarrow> Model \<Rightarrow> CompactionPreparation \<Rightarrow> jstring \<Rightarrow> bool" where
  "summarises llm model p summary \<longleftrightarrow>
     (\<exists>history rest. summary = history @ rest \<and>
        (pr_messagesToSummarize p \<noteq> [] \<or> pr_turnPrefixMessages p = [] \<longrightarrow>
           (\<exists>prompt. asked llm model prompt history \<and> conversation_in (pr_messagesToSummarize p) prompt \<and>
              (\<forall>s. pr_previousSummary p = Some s \<longrightarrow> sublist s prompt))) \<and>
        (pr_turnPrefixMessages p \<noteq> [] \<longrightarrow>
           (\<exists>prompt answer. asked llm model prompt answer \<and> conversation_in (pr_turnPrefixMessages p) prompt \<and>
              sublist answer rest)))"

lemma request_summary_asked:
  "request_summary e llm model prompt options a f w = (Inr t, w') \<Longrightarrow> asked llm model prompt t"
  unfolding request_summary_def asked_def by (auto split: prod.splits if_splits) blast

lemma conversation_in_block: "conversation_in ms (conversation_block ms @ rest)"
  unfolding conversation_in_def conversation_block_def sublist_def by (metis append.assoc)

lemma summary_prompt_holds:
  "conversation_in ms (summary_prompt ms custom prev)" "prev = Some s \<Longrightarrow> sublist s (summary_prompt ms custom prev)"
proof -
  show "conversation_in ms (summary_prompt ms custom prev)"
    unfolding summary_prompt_def Let_def by (rule conversation_in_block)
  show "sublist s (summary_prompt ms custom prev)" if "prev = Some s"
  proof (cases "s = []")
    case False
    with that have "\<exists>rest. summary_prompt ms custom prev =
        (conversation_block ms @ js ''<previous-summary>'' @ [newline]) @ s @ rest"
      by (simp add: summary_prompt_def Let_def given_def)
    then show ?thesis unfolding sublist_def by blast
  qed simp
qed

lemma summarises_append:
  assumes "summarises llm model p summary"
  shows "summarises llm model p (summary @ extra)"
proof -
  obtain history rest where s: "summary = history @ rest"
    and h: "pr_messagesToSummarize p \<noteq> [] \<or> pr_turnPrefixMessages p = [] \<longrightarrow>
      (\<exists>prompt. asked llm model prompt history \<and> conversation_in (pr_messagesToSummarize p) prompt \<and>
         (\<forall>s. pr_previousSummary p = Some s \<longrightarrow> sublist s prompt))"
    and t: "pr_turnPrefixMessages p \<noteq> [] \<longrightarrow>
      (\<exists>prompt answer. asked llm model prompt answer \<and> conversation_in (pr_turnPrefixMessages p) prompt \<and> sublist answer rest)"
    using assms unfolding summarises_def by blast
  have "sublist answer (rest @ extra)" if "sublist answer rest" for answer
    using that unfolding sublist_def by (metis append.assoc)
  with t have "pr_turnPrefixMessages p \<noteq> [] \<longrightarrow>
      (\<exists>prompt answer. asked llm model prompt answer \<and> conversation_in (pr_turnPrefixMessages p) prompt \<and> sublist answer (rest @ extra))"
    by blast
  with s h show ?thesis unfolding summarises_def by (intro exI [of _ history] exI [of _ "rest @ extra"]) simp
qed

lemma split_summary:
  assumes "compaction_summary e llm p model apiKey headers custom level w = (Inr summary, w')"
    and "pr_isSplitTurn p" "pr_turnPrefixMessages p \<noteq> []"
  obtains h t between w1 where
    "(if pr_messagesToSummarize p \<noteq> []
      then generateSummary e llm (pr_messagesToSummarize p) model (cs_reserveTokens (pr_settings p)) apiKey headers custom
        (pr_previousSummary p) level w
      else (Inr (js ''No prior history.''), w)) = (Inr h, w1)"
    "generateTurnPrefixSummary e llm (pr_turnPrefixMessages p) model (cs_reserveTokens (pr_settings p)) apiKey headers
      level w1 = (Inr t, w')"
    "summary = h @ between @ t"
proof -
  let ?first = "if pr_messagesToSummarize p \<noteq> []
      then generateSummary e llm (pr_messagesToSummarize p) model (cs_reserveTokens (pr_settings p)) apiKey headers custom
        (pr_previousSummary p) level w
      else (Inr (js ''No prior history.''), w)"
  obtain r1 w1 where 1: "?first = (r1, w1)" by (metis prod.exhaust)
  obtain r2 w2 where 2: "generateTurnPrefixSummary e llm (pr_turnPrefixMessages p) model (cs_reserveTokens (pr_settings p))
      apiKey headers level w1 = (r2, w2)" by (metis prod.exhaust)
  note run = assms(1) [unfolded compaction_summary_def Let_def 1 prod.case 2]
  show thesis
  proof (cases r1)
    case (Inl err)
    with run assms(2,3) show thesis by simp
  next
    case (Inr h)
    show thesis
    proof (cases r2)
      case (Inl err)
      with run assms(2,3) Inr show thesis by simp
    next
      case second: (Inr t)
      let ?between = "[newline, newline] @ js ''---'' @ [newline, newline] @ js ''**Turn Context (split turn):**'' @ [newline, newline]"
      have "summary = h @ ?between @ t" "w2 = w'" using run assms(2,3) Inr second by simp_all
      with 1 2 Inr second show thesis by (intro that [of h w1 t ?between]) simp_all
    qed
  qed
qed

lemma compact_asks:
  assumes "pr_isSplitTurn p \<or> pr_turnPrefixMessages p = []"
    and "compact e llm p model apiKey headers custom level w = (Inr c, w')"
  shows "cr_firstKeptEntryId c = pr_firstKeptEntryId p \<and> summarises llm model p (cr_summary c)"
proof -
  let ?history = "generateSummary e llm (pr_messagesToSummarize p) model (cs_reserveTokens (pr_settings p))
    apiKey headers custom (pr_previousSummary p) level"
  obtain summary w1 where s: "compaction_summary e llm p model apiKey headers custom level w = (Inr summary, w1)"
    and c: "cr_firstKeptEntryId c = pr_firstKeptEntryId p" "prefix summary (cr_summary c)"
    using assms(2) by (auto simp: compact_def split: if_splits prod.splits sum.splits)
  have history: "\<exists>prompt. asked llm model prompt h \<and> conversation_in (pr_messagesToSummarize p) prompt \<and>
      (\<forall>s. pr_previousSummary p = Some s \<longrightarrow> sublist s prompt)" if "?history w2 = (Inr h, w3)" for h w2 w3
    using request_summary_asked [OF that [unfolded generateSummary_def]] summary_prompt_holds by blast
  have "summarises llm model p summary"
  proof (cases "pr_turnPrefixMessages p = []")
    case True
    with s have "?history w = (Inr summary, w1)" by (simp add: compaction_summary_def Let_def)
    from history [OF this] True show ?thesis unfolding summarises_def by (intro exI [of _ summary] exI [of _ "[]"]) simp
  next
    case False
    with assms(1) have "pr_isSplitTurn p" by simp
    from split_summary [OF s this False] obtain h t between w2 where
        h: "(if pr_messagesToSummarize p \<noteq> [] then ?history w else (Inr (js ''No prior history.''), w)) = (Inr h, w2)"
      and t: "generateTurnPrefixSummary e llm (pr_turnPrefixMessages p) model (cs_reserveTokens (pr_settings p)) apiKey
          headers level w2 = (Inr t, w1)"
      and eq: "summary = h @ between @ t"
      by metis
    have "sublist t (between @ t)" by (rule sublist_append_leftI)
    moreover have "\<exists>prompt. asked llm model prompt t \<and> conversation_in (pr_turnPrefixMessages p) prompt"
      using request_summary_asked [OF t [unfolded generateTurnPrefixSummary_def]] conversation_in_block by blast
    moreover have "?history w = (Inr h, w2)" if "pr_messagesToSummarize p \<noteq> []" using h that by simp
    ultimately show ?thesis using history [of w h w2] False eq unfolding summarises_def
      by (intro exI [of _ h] exI [of _ "between @ t"]) auto
  qed
  then have "summarises llm model p (cr_summary c)" using c(2) summarises_append by (auto simp: prefix_def)
  with c(1) show ?thesis by simp
qed

lemma prepareCompaction_split:
  "prepareCompaction date_ms path settings = Inr (Some p) \<Longrightarrow> pr_isSplitTurn p \<or> pr_turnPrefixMessages p = []"
  by (auto simp: prepareCompaction_def Let_def split: if_splits prod.splits)

text \<open>
  Claim C8. Compacting a well-formed branch cuts its context in one place: the preparation succeeds;
  the context is the previous summary, the removed messages and the kept messages; every removed
  message is among those to be summarised, and the conversation of these is in what the model is
  asked when the summary is written. The previous summary is in it too, unless the cut leaves only the
  beginning of a split turn to be summarised: then the model does not see it. With the compaction
  stored, the context is the new summary followed by exactly the kept messages.
\<close>

theorem compaction_preserves_context:
  assumes "path \<noteq> []" and "\<not> is_compaction (last path)" and "distinct (map e_id path)"
    and "[] \<notin> e_id ` set path" and "compactions_ok path"
  shows "\<exists>p prev removed kept. prepareCompaction date_ms path settings = Inr (Some p) \<and>
     context_messages date_ms path = prev @ removed @ kept \<and>
     (case pr_previousSummary p of None \<Rightarrow> prev = []
      | Some s \<Rightarrow> \<exists>m. prev = [CompactionSummary m] \<and> csm_summary m = s) \<and>
     subseq removed (pr_messagesToSummarize p @ pr_turnPrefixMessages p) \<and>
     (\<forall>e llm model apiKey headers custom level w c w'.
        compact e llm p model apiKey headers custom level w = (Inr c, w') \<longrightarrow>
        cr_firstKeptEntryId c = pr_firstKeptEntryId p \<and> summarises llm model p (cr_summary c)) \<and>
     (\<forall>cen c. e_body cen = CompactionE c \<and> ce_firstKeptEntryId c = pr_firstKeptEntryId p \<and>
        e_id cen \<notin> e_id ` set path \<longrightarrow>
        context_messages date_ms (path @ [cen]) =
          CompactionSummary (createCompactionSummaryMessage date_ms (ce_summary c) (ce_tokensBefore c)
            (e_timestamp cen)) # kept)"
proof -
  obtain prev b where pb: "previous_compaction path (last_compaction_index path (length path)) = (prev, b)"
    by fastforce
  note bound = context_from_boundary [OF assms(1,2,3,5) pb, of date_ms]
  then obtain ps where ps: "context_messages date_ms path =
      ps @ concat (map (entry_messages date_ms) (drop b path))"
    "case prev of None \<Rightarrow> ps = [] | Some s \<Rightarrow> \<exists>m. ps = [CompactionSummary m] \<and> csm_summary m = s"
    by blast
  obtain p f where p: "prepareCompaction date_ms path settings = Inr (Some p)"
    "b \<le> f" "f < length path" "pr_firstKeptEntryId p = e_id (path ! f)"
    "pr_messagesToSummarize p @ pr_turnPrefixMessages p = messages_between date_ms path b f"
    "pr_previousSummary p = prev"
    using prepareCompaction_result [OF assms(1,2,4) pb conjunct1 [OF bound]] by metis
  let ?em = "\<lambda>ens. concat (map (entry_messages date_ms) ens)"
  let ?removed = "?em (drop b (take f path))"
  let ?kept = "?em (drop f path)"
  have "drop b path = drop b (take f path) @ drop f path"
    using p(2,3) drop_append [of b "take f path" "drop f path"] by simp
  then have ctx: "context_messages date_ms path = ps @ ?removed @ ?kept" using ps(1) by simp
  have sub: "subseq ?removed (pr_messagesToSummarize p @ pr_turnPrefixMessages p)"
    unfolding p(5) messages_between_def by (rule subseq_summarised)
  have after: "context_messages date_ms (path @ [cen]) =
      CompactionSummary (createCompactionSummaryMessage date_ms (ce_summary c) (ce_tokensBefore c)
        (e_timestamp cen)) # ?kept"
    if "e_body cen = CompactionE c" "ce_firstKeptEntryId c = pr_firstKeptEntryId p"
      "e_id cen \<notin> e_id ` set path" for cen c
  proof -
    have "dropWhile (\<lambda>en. e_id en \<noteq> e_id (path ! f)) path = drop f path"
      by (rule dropWhile_id [OF assms(3) p(3)])
    then show ?thesis
      using context_messages_compacted [OF that(1) _ that(3), of "[]" date_ms] that(2) p(4) by simp
  qed
  show ?thesis
  proof (intro exI conjI)
    show "prepareCompaction date_ms path settings = Inr (Some p)" by (rule p(1))
    show "context_messages date_ms path = ps @ ?removed @ ?kept" by (rule ctx)
    show "case pr_previousSummary p of None \<Rightarrow> ps = []
        | Some s \<Rightarrow> \<exists>m. ps = [CompactionSummary m] \<and> csm_summary m = s"
      using ps(2) p(6) by simp
    show "subseq ?removed (pr_messagesToSummarize p @ pr_turnPrefixMessages p)" by (rule sub)
    show "\<forall>e llm model apiKey headers custom level w c w'.
        compact e llm p model apiKey headers custom level w = (Inr c, w') \<longrightarrow>
        cr_firstKeptEntryId c = pr_firstKeptEntryId p \<and> summarises llm model p (cr_summary c)"
      using compact_asks [OF prepareCompaction_split [OF p(1)]] by simp
    show "\<forall>cen c. e_body cen = CompactionE c \<and> ce_firstKeptEntryId c = pr_firstKeptEntryId p \<and>
        e_id cen \<notin> e_id ` set path \<longrightarrow>
        context_messages date_ms (path @ [cen]) =
          CompactionSummary (createCompactionSummaryMessage date_ms (ce_summary c) (ce_tokensBefore c)
            (e_timestamp cen)) # ?kept"
      using after by simp
  qed
qed

text \<open>
  When the cut splits the first turn after the boundary, so that no whole turn is left
  to summarise, the previous compaction's summary plays no part in the result: two preparations
  that differ in nothing but that summary give the same compaction.
\<close>

theorem compact_split_first_turn_drops_previous_summary:
  assumes "pr_isSplitTurn p" and "pr_messagesToSummarize p = []" and "pr_turnPrefixMessages p \<noteq> []"
  shows "compact e llm (p\<lparr>pr_previousSummary := prev\<rparr>) model apiKey headers custom level w =
         compact e llm p model apiKey headers custom level w"
  using assms by (simp add: compact_def compaction_summary_def Let_def split: prod.split sum.split)

text \<open>Some request to the provider was aborted or failed with the given code.\<close>

definition provider_error :: "completeSimple \<Rightarrow> Model \<Rightarrow> CompactionErrorCode \<Rightarrow> bool" where
  "provider_error llm model code \<longleftrightarrow>
     (\<exists>prompt options w1 response w2.
        llm model SUMMARIZATION_SYSTEM_PROMPT [prompt] options w1 = (response, w2) \<and>
        (am_stopReason response = Aborted \<and> code = CAborted \<or>
         am_stopReason response = Error \<and> code = CSummarizationFailed))"

lemma request_summary_error:
  "request_summary e llm model prompt options abortedText failedPrefix w = (Inl (CompactionError code msg), w') \<Longrightarrow>
   provider_error llm model code"
  unfolding request_summary_def provider_error_def by (auto split: prod.splits if_splits; blast)

lemma compaction_summary_error:
  assumes "compaction_summary e llm p model apiKey headers custom level w = (Inl (CompactionError code msg), w')"
  shows "provider_error llm model code"
proof -
  let ?history = "generateSummary e llm (pr_messagesToSummarize p) model (cs_reserveTokens (pr_settings p))
    apiKey headers custom (pr_previousSummary p) level"
  obtain h wh where h: "(if pr_messagesToSummarize p \<noteq> [] then ?history w
      else (Inr (js ''No prior history.''), w)) = (h, wh)" by fastforce
  obtain t wt where t: "generateTurnPrefixSummary e llm (pr_turnPrefixMessages p) model
      (cs_reserveTokens (pr_settings p)) apiKey headers level wh = (t, wt)" by fastforce
  show ?thesis
  proof (cases "pr_isSplitTurn p \<and> pr_turnPrefixMessages p \<noteq> []")
    case True
    then have "h = Inl (CompactionError code msg) \<or> t = Inl (CompactionError code msg)"
      using assms by (auto simp: compaction_summary_def Let_def h t split: sum.splits)
    with h t show ?thesis
      by (auto simp: generateSummary_def generateTurnPrefixSummary_def split: if_splits
          dest: request_summary_error)
  next
    case False
    with assms have "?history w = (Inl (CompactionError code msg), w')"
      by (simp add: compaction_summary_def Let_def)
    then show ?thesis unfolding generateSummary_def by (rule request_summary_error)
  qed
qed

text \<open>
  A compaction fails only when its preparation names no entry, or with the matching
  code when the provider aborts or fails a request; otherwise it keeps the prepared cut and token
  count, its file lists are those of the prepared file operations, and its summary ends with them.
\<close>

theorem compact_result:
  assumes "compact e llm p model apiKey headers custom level w = (r, w')"
  shows "case r of
      Inr c \<Rightarrow> cr_firstKeptEntryId c = pr_firstKeptEntryId p \<and> cr_tokensBefore c = pr_tokensBefore p \<and>
               (cr_readFiles c, cr_modifiedFiles c) = computeFileLists (pr_fileOps p) \<and>
               suffix (formatFileOperations (cr_readFiles c) (cr_modifiedFiles c)) (cr_summary c)
    | Inl (CompactionError code msg) \<Rightarrow>
        (pr_firstKeptEntryId p = [] \<and> code = CInvalidSession) \<or> provider_error llm model code"
proof (cases "pr_firstKeptEntryId p = []")
  case True
  with assms show ?thesis by (auto simp: compact_def no_uuid_error_def)
next
  case False
  obtain s w1 where s: "compaction_summary e llm p model apiKey headers custom level w = (s, w1)"
    by fastforce
  show ?thesis
  proof (cases s)
    case (Inl err)
    with assms False s compaction_summary_error show ?thesis by (cases err) (auto simp: compact_def)
  next
    case (Inr summary)
    with assms False s show ?thesis by (auto simp: compact_def suffix_def split: prod.splits)
  qed
qed

section \<open>Witnesses\<close>

text \<open>A user message, an assistant message with one tool call, and the result of the call.\<close>

definition demo_assistant :: "assistant_block list \<Rightarrow> StopReason \<Rightarrow> AssistantMessage" where
  "demo_assistant blocks stop =
     \<lparr>am_content = blocks, am_api = [], am_provider = js ''p'', am_model = js ''m'',
      am_responseModel = None, am_responseId = None, am_diagnostics = None, am_usage = None,
      am_stopReason = stop, am_errorMessage = None, am_timestamp = 0\<rparr>"

definition demo_call :: ToolCall where
  "demo_call = \<lparr>tc_id = js ''c'', tc_name = js ''read'', tc_arguments = [], tc_thoughtSignature = None\<rparr>"

definition demo_result :: ToolResultMessage where
  "demo_result = \<lparr>trm_toolCallId = js ''c'', trm_toolName = js ''read'',
     trm_content = [TextBlock (js ''data'') None], trm_details = None, trm_isError = False, trm_timestamp = 0\<rparr>"

definition demo_path :: "entry list" where
  "demo_path =
     [new_entry (js ''u'') None [] (MessageE (Msg (user_text (js ''do it'') 0))),
      new_entry (js ''a'') (Some (js ''u'')) [] (MessageE (Msg (Assistant (demo_assistant [AToolCall demo_call] ToolUse)))),
      new_entry (js ''r'') (Some (js ''a'')) [] (MessageE (Msg (ToolResult demo_result)))]"

lemmas demo_defs = demo_path_def demo_assistant_def demo_call_def demo_result_def user_text_def

lemma demo_path_roles:
  "tool_result_id (demo_path ! 0) = None" "tool_result_id (demo_path ! 1) = None"
  "tool_result_id (demo_path ! 2) = Some (js ''c'')" "issues_call (demo_path ! 1) (js ''c'')"
  by (simp_all add: demo_defs tool_result_id_def issues_call_def)

lemma demo_path_grounded: "results_grounded demo_path 0 3"
  unfolding results_grounded_def
proof (intro allI impI, elim conjE)
  fix k cid assume k: "k < 3" "tool_result_id (demo_path ! k) = Some cid"
  from k(1) consider "k = 0" | "k = 1" | "k = 2" by linarith
  then have "k = 2 \<and> cid = js ''c''" using k(2) demo_path_roles by cases simp_all
  moreover have "\<not> (1 < m \<and> m < (2::nat))" for m by linarith
  ultimately show "\<exists>j \<ge> 0. j < k \<and> issues_call (demo_path ! j) cid \<and>
      (\<forall>m. j < m \<and> m < k \<longrightarrow> \<not> is_cut_point (demo_path ! m))"
    using demo_path_roles(4) by (intro exI [of _ 1]) auto
qed

lemma findCutPoint_keeps_results_grounded_witness:
  "results_grounded demo_path (cp_firstKeptEntryIndex (findCutPoint demo_path 0 3 2)) 3"
  by (rule findCutPoint_keeps_results_grounded [OF demo_path_grounded])

lemma findCutPoint_budget_witness:
  "\<exists>c. 0 \<le> c \<and> c \<le> 0 \<and> is_cut_point (demo_path ! c) \<and>
     cp_firstKeptEntryIndex (findCutPoint demo_path 0 1 2) \<le> c \<and>
     tokens_between demo_path (cp_firstKeptEntryIndex (findCutPoint demo_path 0 1 2)) 1
       < 2 + entry_tokens (demo_path ! c)"
  by (rule findCutPoint_budget [where i = 0])
    (simp_all add: demo_defs is_cut_point_def tokens_between_def entry_tokens_def ceil4_def
      estimateTextAndImageContentChars_def js_eval)

lemma findCutPoint_oversized_tail_witness:
  "{k. k < cp_firstKeptEntryIndex (findCutPoint demo_path 0 3 1) \<and> is_cut_point (demo_path ! k)} = {} \<and>
     is_cut_point (demo_path ! 0)"
proof -
  have "\<forall>k. 0 \<le> k \<and> k < cp_firstKeptEntryIndex (findCutPoint demo_path 0 3 1) \<longrightarrow>
     \<not> is_cut_point (demo_path ! k)"
  proof (rule findCutPoint_oversized_tail [where i = 2])
  show "1 \<le> tokens_between demo_path 2 3"
    by (simp add: demo_defs tokens_between_def entry_tokens_def ceil4_def
        estimateTextAndImageContentChars_def js_eval)
  show "\<forall>c. 2 \<le> c \<and> c < 3 \<longrightarrow> \<not> is_cut_point (demo_path ! c)"
  proof (intro allI impI)
    fix c :: nat assume "2 \<le> c \<and> c < 3"
    then have "c = 2" by simp
    then show "\<not> is_cut_point (demo_path ! c)" by (simp add: demo_defs is_cut_point_def)
  qed
qed (simp_all add: demo_path_def)
  then show ?thesis by (auto simp: demo_defs is_cut_point_def)
qed

lemma compaction_preserves_context_witness:
  "\<exists>p. prepareCompaction (\<lambda>_. 0) demo_path DEFAULT_COMPACTION_SETTINGS = Inr (Some p)"
proof -
  have d: "distinct (map e_id demo_path)" and i: "[] \<notin> e_id ` set demo_path" and n: "demo_path \<noteq> []"
    and l: "\<not> is_compaction (last demo_path)"
    by (simp_all add: demo_path_def js_eval is_compaction_def)
  have "e_body (demo_path ! k) \<noteq> CompactionE c" if "k < length demo_path" for k c
  proof -
    from that consider "k = 0" | "k = 1" | "k = 2" by (fastforce simp: demo_path_def)
    then show ?thesis by cases (simp_all add: demo_path_def)
  qed
  then have "compactions_ok demo_path" by (auto simp: compactions_ok_def)
  from compaction_preserves_context [OF n l d i this, of "\<lambda>_. 0" DEFAULT_COMPACTION_SETTINGS]
  show ?thesis by (elim exE conjE) (rule exI)
qed

text \<open>A model whose every answer is the given stop reason.\<close>

definition demo_model :: Model where
  "demo_model = \<lparr>mo_id = [], mo_api = [], mo_provider = [], mo_reasoning = False, mo_input = [TextInput], mo_contextWindow = 1000, mo_maxTokens = 0\<rparr>"

definition demo_llm :: "StopReason \<Rightarrow> completeSimple" where
  "demo_llm stop = (\<lambda>_ _ _ _ w. (demo_assistant [AText (js ''sum'') None] stop, w))"

definition demo_preparation :: CompactionPreparation where
  "demo_preparation = \<lparr>pr_firstKeptEntryId = js ''u'', pr_messagesToSummarize = [],
     pr_turnPrefixMessages = [OtherMessage []], pr_isSplitTurn = True, pr_tokensBefore = 9,
     pr_previousSummary = None, pr_fileOps = createFileOps, pr_settings = DEFAULT_COMPACTION_SETTINGS\<rparr>"

lemma compact_split_first_turn_drops_previous_summary_witness:
  "compact still_clock (demo_llm Stop) (demo_preparation\<lparr>pr_previousSummary := Some (js ''old'')\<rparr>) demo_model
     [] None None None init_world =
   compact still_clock (demo_llm Stop) demo_preparation demo_model [] None None None init_world"
  by (rule compact_split_first_turn_drops_previous_summary) (simp_all add: demo_preparation_def)

lemma compact_result_witness:
  "case fst (compact still_clock (demo_llm Error) demo_preparation demo_model [] None None None init_world) of
     Inr c \<Rightarrow> False
   | Inl (CompactionError code msg) \<Rightarrow> provider_error (demo_llm Error) demo_model code"
proof -
  obtain r w' where c: "compact still_clock (demo_llm Error) demo_preparation demo_model [] None None None
      init_world = (r, w')" by fastforce
  moreover have "\<exists>msg. r = Inl (CompactionError CSummarizationFailed msg)"
    using c by (auto simp: compact_def compaction_summary_def generateTurnPrefixSummary_def
        request_summary_def demo_preparation_def demo_llm_def demo_assistant_def Let_def
        split: prod.splits)
  moreover have "pr_firstKeptEntryId demo_preparation \<noteq> []" by (simp add: demo_preparation_def js_eval)
  ultimately show ?thesis using compact_result [OF c] by auto
qed

end
