(* ===== verification/BranchSummary.thy ===== *)
theory BranchSummary
  imports Compaction
begin

text \<open>
  \<open>packages/agent/src/harness/compaction/branch-summarization.ts\<close>: the entries of the branch that
  is left behind, the messages of it that fit a token budget, and the request for a summary.
\<close>

section \<open>The entries left behind\<close>

record CollectEntriesResult =
  col_entries :: "entry list"
  col_commonAncestorId :: "jstring option"

text \<open>
  The walk from the old leaf up to the common ancestor. Nothing in the code bounds it, hence the
  option; \<open>acc\<close> holds the entries in the order they are pushed.
\<close>

partial_function (option) collect_loop ::
    "'s SessionStorage \<Rightarrow> jstring option \<Rightarrow> jstring option \<Rightarrow> entry list \<Rightarrow> 's \<times> world \<Rightarrow>
     ((failure + entry list) \<times> 's \<times> world) option" where
  "collect_loop so commonAncestorId current acc \<sigma> =
     (case current of
        None \<Rightarrow> Some (Inr acc, \<sigma>)
      | Some i \<Rightarrow>
          (if i = [] \<or> Some i = commonAncestorId then Some (Inr acc, \<sigma>)
           else (case so_getEntry so i \<sigma> of
                   (Inl err, \<sigma>') \<Rightarrow> Some (Inl err, \<sigma>')
                 | (Inr None, \<sigma>') \<Rightarrow> Some (Inl (SessionError InvalidSession (entry_not_found i)), \<sigma>')
                 | (Inr (Some en), \<sigma>') \<Rightarrow>
                     collect_loop so commonAncestorId (e_parentId en) (acc @ [en]) \<sigma>')))"

definition collectEntriesForBranchSummary ::
    "'s SessionStorage \<Rightarrow> jstring option \<Rightarrow> jstring \<Rightarrow> ('s, CollectEntriesResult) op" where
  "collectEntriesForBranchSummary so oldLeafId targetId =
     (case given oldLeafId of
        None \<Rightarrow> returnS \<lparr>col_entries = [], col_commonAncestorId = None\<rparr>
      | Some old \<Rightarrow>
          bindS (getBranch so (Some old)) (\<lambda>oldEntries.
          bindS (getBranch so (Some targetId)) (\<lambda>targetPath.
            (let oldPath = map e_id oldEntries;
                 commonAncestorId =
                   map_option e_id (find (\<lambda>en. e_id en \<in> set oldPath) (rev targetPath))
             in (\<lambda>\<sigma>. case collect_loop so commonAncestorId (Some old) [] \<sigma> of
                   None \<Rightarrow> (Inl NonTermination, \<sigma>)
                 | Some (Inl err, \<sigma>') \<Rightarrow> (Inl err, \<sigma>')
                 | Some (Inr entries, \<sigma>') \<Rightarrow>
                     (Inr \<lparr>col_entries = rev entries, col_commonAncestorId = commonAncestorId\<rparr>, \<sigma>'))))))"

section \<open>The messages that fit\<close>

record BranchPreparation =
  bp_messages :: "agent_message list"
  bp_fileOps :: FileOperations
  bp_totalTokens :: nat

text \<open>\<open>getMessageFromEntry\<close> of this file: no tool results.\<close>

definition branch_message :: "(jstring \<Rightarrow> int) \<Rightarrow> entry \<Rightarrow> agent_message option" where
  "branch_message date_ms en =
     (case e_body en of
        MessageE m \<Rightarrow> (if is_tool_result m then None else Some m)
      | CustomMessageE c \<Rightarrow>
          Some (Custom (createCustomMessage date_ms (cme_customType c) (cme_content c) (cme_display c)
             (cme_details c) (e_timestamp en)))
      | BranchSummaryE b \<Rightarrow>
          Some (BranchSummary (createBranchSummaryMessage date_ms (be_summary b) (be_fromId b) (e_timestamp en)))
      | CompactionE c \<Rightarrow>
          Some (CompactionSummary (createCompactionSummaryMessage date_ms (ce_summary c)
             (ce_tokensBefore c) (e_timestamp en)))
      | _ \<Rightarrow> None)"

definition add_branch_details :: "entry \<Rightarrow> FileOperations \<Rightarrow> FileOperations" where
  "add_branch_details en ops =
     (case e_body en of BranchSummaryE b \<Rightarrow> add_details (be_details b) (be_fromHook b) ops | _ \<Rightarrow> ops)"

text \<open>The backward loop, over the entries from the last one on.\<close>

fun branch_loop ::
    "(jstring \<Rightarrow> int) \<Rightarrow> int \<Rightarrow> entry list \<Rightarrow> agent_message list \<Rightarrow> FileOperations \<Rightarrow> nat \<Rightarrow> BranchPreparation" where
  "branch_loop date_ms tokenBudget [] messages ops totalTokens =
     \<lparr>bp_messages = messages, bp_fileOps = ops, bp_totalTokens = totalTokens\<rparr>"
| "branch_loop date_ms tokenBudget (en # rest) messages ops totalTokens =
     (case branch_message date_ms en of
        None \<Rightarrow> branch_loop date_ms tokenBudget rest messages ops totalTokens
      | Some m \<Rightarrow>
          (let ops' = extractFileOpsFromMessage m ops;
               tokens = estimateTokens m
           in if tokenBudget > 0 \<and> int (totalTokens + tokens) > tokenBudget then
                (if (e_type en = TCompaction \<or> e_type en = TBranchSummary) \<and>
                    10 * int totalTokens < 9 * tokenBudget
                 then \<lparr>bp_messages = m # messages, bp_fileOps = ops', bp_totalTokens = totalTokens + tokens\<rparr>
                 else \<lparr>bp_messages = messages, bp_fileOps = ops', bp_totalTokens = totalTokens\<rparr>)
              else branch_loop date_ms tokenBudget rest (m # messages) ops' (totalTokens + tokens)))"

definition prepareBranchEntries :: "(jstring \<Rightarrow> int) \<Rightarrow> entry list \<Rightarrow> int \<Rightarrow> BranchPreparation" where
  "prepareBranchEntries date_ms entries tokenBudget =
     branch_loop date_ms tokenBudget (rev entries) [] (fold add_branch_details entries createFileOps) 0"

section \<open>The request\<close>

record GenerateBranchSummaryOptions =
  go_model :: Model
  go_apiKey :: jstring
  go_headers :: "(jstring \<times> jstring) list option"
  go_customInstructions :: "jstring option"
  go_replaceInstructions :: bool
  go_reserveTokens :: "nat option"

record BranchSummaryResult =
  bsr_summary :: jstring
  bsr_readFiles :: "jstring list"
  bsr_modifiedFiles :: "jstring list"

datatype BranchSummaryErrorCode = BAborted | BSummarizationFailed | BInvalidSession

datatype branch_summary_error = BranchSummaryError BranchSummaryErrorCode jstring

definition branch_instructions :: "GenerateBranchSummaryOptions \<Rightarrow> jstring" where
  "branch_instructions options =
     (case given (go_customInstructions options) of
        Some c \<Rightarrow> (if go_replaceInstructions options then c
                   else BRANCH_SUMMARY_PROMPT @ [newline, newline] @ js ''Additional focus: '' @ c)
      | None \<Rightarrow> BRANCH_SUMMARY_PROMPT)"

definition branch_budget :: "GenerateBranchSummaryOptions \<Rightarrow> int" where
  "branch_budget options =
     int (if mo_contextWindow (go_model options) \<noteq> 0 then mo_contextWindow (go_model options) else 128000) -
     int (case go_reserveTokens options of Some r \<Rightarrow> r | None \<Rightarrow> 16384)"

definition generateBranchSummary ::
    "env \<Rightarrow> completeSimple \<Rightarrow> (jstring \<Rightarrow> int) \<Rightarrow> entry list \<Rightarrow> GenerateBranchSummaryOptions \<Rightarrow> world \<Rightarrow>
     (branch_summary_error + BranchSummaryResult) \<times> world" where
  "generateBranchSummary e llm date_ms entries options w =
     (let prep = prepareBranchEntries date_ms entries (branch_budget options)
      in if bp_messages prep = [] then
           (Inr \<lparr>bsr_summary = js ''No content to summarize'', bsr_readFiles = [], bsr_modifiedFiles = []\<rparr>, w)
         else
           (case date_now e w of (now, w1) \<Rightarrow>
             (case llm (go_model options) SUMMARIZATION_SYSTEM_PROMPT
                     [user_text (conversation_block (bp_messages prep) @ branch_instructions options) (int now)]
                     \<lparr>co_maxTokens = 2048, co_apiKey = go_apiKey options, co_headers = go_headers options,
                      co_reasoning = None\<rparr> w1 of (response, w2) \<Rightarrow>
               (if am_stopReason response = Aborted
                then (Inl (BranchSummaryError BAborted
                        (error_text response (js ''Branch summary aborted''))), w2)
                else if am_stopReason response = Error
                then (Inl (BranchSummaryError BSummarizationFailed
                        (js ''Branch summary failed: '' @ error_text response (js ''Unknown error''))), w2)
                else
                  (case computeFileLists (bp_fileOps prep) of (readFiles, modifiedFiles) \<Rightarrow>
                     (let summary = BRANCH_SUMMARY_PREAMBLE @
                            join [newline] (assistant_texts (am_content response)) @
                            formatFileOperations readFiles modifiedFiles
                      in (Inr \<lparr>bsr_summary = (if summary \<noteq> [] then summary else js ''No summary generated''),
                               bsr_readFiles = readFiles, bsr_modifiedFiles = modifiedFiles\<rparr>, w2)))))))"

section \<open>The entries left behind: properties\<close>

lemma find_entry_member: "log_ok ents \<Longrightarrow> en \<in> set ents \<Longrightarrow> find_entry ents (e_id en) = Some en"
proof (induction ents rule: rev_induct)
  case (snoc x ents)
  show ?case
  proof (cases "en = x")
    case False
    with snoc.prems have en: "en \<in> set ents" and ok: "log_ok ents" "appendable ents x" by auto
    then have "e_id en \<noteq> e_id x" unfolding appendable_def log_ids_def by (metis imageI)
    with snoc.IH [OF ok(1) en] show ?thesis by simp
  qed simp
qed simp

text \<open>The path to an entry of a path is a prefix of it.\<close>

lemma path_of_member:
  assumes "log_ok ents" and "valid_target ents t" and "x \<in> set (path_of ents t)"
  shows "prefix (path_of ents (Some (e_id x))) (path_of ents t)"
  using assms
proof (induction ents arbitrary: t rule: rev_induct)
  case (snoc en ents)
  then have ok: "log_ok ents" "appendable ents en" by simp_all
  show ?case
  proof (cases "t = Some (e_id en)")
    case True
    show ?thesis
    proof (cases "x = en")
      case False
      have v: "valid_target ents (e_parentId en)"
        using ok(2) by (simp add: appendable_def valid_target_def)
      have x: "x \<in> set (path_of ents (e_parentId en))"
        using snoc.prems(3) True False by (simp add: path_of_same)
      then have "x \<in> set ents" using path_of_chain [OF ok(1) v] by auto
      then have "e_id x \<in> log_ids ents" by (simp add: log_ids_def)
      then have "path_of (ents @ [en]) (Some (e_id x)) = path_of ents (Some (e_id x))"
        by (rule path_of_old [OF ok(2)])
      with snoc.IH [OF ok(1) v x] True show ?thesis
        by (simp add: path_of_same)
    qed (use True in simp)
  next
    case False
    with snoc.prems(2) have v: "valid_target ents t" by (auto simp: valid_target_def)
    have p: "path_of (ents @ [en]) t = path_of ents t" using False by (simp add: path_of_snoc)
    then have x: "x \<in> set (path_of ents t)" using snoc.prems(3) by simp
    then have "x \<in> set ents" using path_of_chain [OF ok(1) v] by auto
    then have "e_id x \<in> log_ids ents" by (simp add: log_ids_def)
    then have "path_of (ents @ [en]) (Some (e_id x)) = path_of ents (Some (e_id x))"
      by (rule path_of_old [OF ok(2)])
    with snoc.IH [OF ok(1) v x] p show ?thesis by simp
  qed
qed simp

lemma path_of_member_last:
  assumes "log_ok ents" and "x \<in> set ents"
  shows "\<exists>ys. path_of ents (Some (e_id x)) = ys @ [x]"
  using path_of_step [OF assms(1) find_entry_member [OF assms]] by blast

text \<open>The last element of a path that lies on another path ends their longest common prefix.\<close>

lemma last_common:
  assumes "log_ok ents" and "valid_target ents s" and "valid_target ents t"
  defines "p \<equiv> path_of ents s" and "q \<equiv> path_of ents t"
  shows "map_option e_id (find (\<lambda>en. e_id en \<in> set (map e_id p)) (rev q)) =
         last_id None (longest_common_prefix p q)"
proof (cases "find (\<lambda>en. e_id en \<in> set (map e_id p)) (rev q)")
  case None
  have "longest_common_prefix p q = []"
  proof (rule ccontr)
    assume ne: "longest_common_prefix p q \<noteq> []"
    then have "hd (longest_common_prefix p q) \<in> set p \<inter> set q"
      using longest_common_prefix_prefix1 longest_common_prefix_prefix2 by (metis IntI hd_in_set set_mono_prefix subsetD)
    with None show False by (auto simp: find_None_iff)
  qed
  with None show ?thesis by simp
next
  case (Some x)
  then obtain i where i: "i < length q" "x = rev q ! i" "e_id x \<in> set (map e_id p)"
    "\<forall>j < i. e_id (rev q ! j) \<notin> set (map e_id p)"
    by (auto simp: find_Some_iff)
  have xq: "x \<in> set q" using i by (metis length_rev nth_mem set_rev)
  note chp = path_of_chain [OF assms(1,2), folded p_def] and chq = path_of_chain [OF assms(1,3), folded q_def]
  have xe: "x \<in> set ents" using xq chq by auto
  obtain y where y: "y \<in> set p" "e_id y = e_id x" using i(3) by auto
  then have "y \<in> set ents" using chp by auto
  then have "y = x" using find_entry_member [OF assms(1)] xe y(2) by (metis option.inject)
  with y have xp: "x \<in> set p" by simp
  let ?r = "path_of ents (Some (e_id x))"
  have pre: "prefix ?r p" "prefix ?r q"
    using path_of_member [OF assms(1,2)] path_of_member [OF assms(1,3)] xp xq by (simp_all add: p_def q_def)
  obtain ys where ys: "?r = ys @ [x]" using path_of_member_last [OF assms(1) xe] by blast
  have "longest_common_prefix p q = ?r"
  proof -
    let ?l = "longest_common_prefix p q"
    have "prefix ?r ?l" using pre by (simp add: longest_common_prefix_max_prefix)
    then obtain zs where zs: "?l = ?r @ zs" by (auto simp: prefix_def)
    show ?thesis
    proof (cases "zs = []")
      case False
      let ?z = "last zs"
      have lq: "prefix ?l q" and lp: "prefix ?l p"
        by (rule longest_common_prefix_prefix2, rule longest_common_prefix_prefix1)
      have "?z \<in> set ?l" using zs False by simp
      then have zp: "e_id ?z \<in> set (map e_id p)" using lp set_mono_prefix by fastforce
      obtain us where us: "q = (ys @ [x]) @ zs @ us" using lq zs ys by (auto simp: prefix_def)
      have "rev q ! i = x" using i by simp
      have d: "distinct (rev q)" using chq by (simp add: distinct_map)
      have ix: "i = length (rev us) + length zs"
      proof -
        have "rev q = (rev us @ rev zs) @ x # rev ys" using us by simp
        then have "rev q ! (length us + length zs) = x"
          by (metis length_append length_rev nth_append_length)
        moreover have "length us + length zs < length (rev q)" using us by simp
        ultimately show ?thesis using d i(1,2) by (metis length_rev nth_eq_iff_index_eq)
      qed
      have "rev q ! length us = ?z"
      proof -
        have "rev q = rev us @ rev zs @ x # rev ys" using us by simp
        moreover have "rev zs = ?z # rev (butlast zs)" using False
          by (metis append_butlast_last_id rev.simps(2) rev_rev_ident rev_swap)
        ultimately show ?thesis by (simp add: nth_append)
      qed
      moreover have "length us < i" using ix False by simp
      ultimately have False using i(4) zp by auto
      then show ?thesis ..
    qed (use zs in simp)
  qed
  with Some ys show ?thesis by simp
qed


lemma rev_chain_last: "chain_from None (ens @ [en]) \<Longrightarrow> e_parentId en = last_id None ens"
  by (simp add: chain_from_append)

context session_storage begin

text \<open>The walk pushes the part of the path after the common ancestor, from the leaf back.\<close>

lemma collect_loop_path:
  assumes "good s" and "chain_from None (pre @ post)" and "set (pre @ post) \<subseteq> set (logS s)"
    and "distinct (map e_id (pre @ post))" and "ca = last_id None pre"
  shows "collect_loop (ops e) ca (last_id None (pre @ post)) acc (s, w) = Some (Inr (acc @ rev post), s, w)"
  using assms(2-4)
proof (induction post arbitrary: acc rule: rev_induct)
  case Nil
  show ?case
    using assms(5) by (cases "last_id None pre") (simp_all add: collect_loop.simps)
next
  case (snoc en post)
  note log = good_log [OF assms(1)]
  have en: "en \<in> set (logS s)" using snoc.prems(2) by simp
  have ne: "e_id en \<noteq> []" using log_ok_nonempty_ids [OF log] en by (force simp: log_ids_def)
  have ca: "Some (e_id en) \<noteq> ca"
    using snoc.prems(3) assms(5) by (auto simp: last_id_def split: if_splits)
  have par: "e_parentId en = last_id None (pre @ post)"
    using rev_chain_last [of "pre @ post" en] snoc.prems(1) by simp
  have "last_id None (pre @ post @ [en]) = Some (e_id en)"
    using last_id_simps(2) [of None "pre @ post" en] by simp
  then have "collect_loop (ops e) ca (last_id None (pre @ post @ [en])) acc (s, w) =
      collect_loop (ops e) ca (last_id None (pre @ post)) (acc @ [en]) (s, w)"
    using ne ca par getEntry [OF assms(1), of e "e_id en" w] find_entry_member [OF log en]
    by (simp add: collect_loop.simps [of "ops e" ca "Some (e_id en)"])
  then show ?case using snoc.IH [of "acc @ [en]"] snoc.prems by (simp add: chain_from_append)
qed

lemma collectEntries_run:
  assumes "good s" and "old \<in> log_ids (logS s)" and "target \<in> log_ids (logS s)"
  defines "p \<equiv> path_of (logS s) (Some old)" and "q \<equiv> path_of (logS s) (Some target)"
  shows "collectEntriesForBranchSummary (ops e) (Some old) target (s, w) =
     (Inr \<lparr>col_entries = drop (length (longest_common_prefix p q)) p,
           col_commonAncestorId = last_id None (longest_common_prefix p q)\<rparr>, s, w)"
proof -
  let ?l = "longest_common_prefix p q"
  note log = good_log [OF assms(1)]
  have v: "valid_target (logS s) (Some old)" "valid_target (logS s) (Some target)"
    using assms(2,3) by (simp_all add: valid_target_def)
  have given: "given (Some old) = Some old"
    using log_ok_nonempty_ids [OF log] assms(2) by (auto simp: given_def)
  obtain post where post: "p = ?l @ post" using longest_common_prefix_prefix1 by (metis prefixE)
  note ch = path_of_chain [OF log v(1), folded p_def]
  have loop: "collect_loop (ops e) (last_id None ?l) (Some old) [] (s, w) = Some (Inr (rev post), s, w)"
    using collect_loop_path [OF assms(1), of ?l post "last_id None ?l" e "[]" w] ch post by simp
  have g: "getBranch (ops e) (Some old) (s, w) = (Inr p, s, w)"
    "getBranch (ops e) (Some target) (s, w) = (Inr q, s, w)"
    using getPathToRoot [OF assms(1) v(1)] getPathToRoot [OF assms(1) v(2)]
    by (simp_all add: getBranch_def p_def q_def)
  have "map_option e_id (find (\<lambda>en. e_id en \<in> set (map e_id p)) (rev q)) = last_id None ?l"
    using last_common [OF log v] by (simp add: p_def q_def)
  moreover have "drop (length ?l) p = post" using post by (metis append_eq_conv_conj)
  ultimately show ?thesis
    using g loop
    by (simp add: collectEntriesForBranchSummary_def given bindS_def Let_def del: set_map)
qed

end

text \<open>
  The entries collected for a branch summary are exactly those of the old branch after
  its longest common prefix with the branch of the target, in order, and the reported ancestor
  is the last entry of that prefix (none when the branches share nothing).
\<close>

theorem collectEntries_after_common_prefix:
  assumes "mem_good s" and "getBranch (memory_ops e) (Some old) (s, w) = (Inr p, s, w)"
    and "getBranch (memory_ops e) (Some target) (s, w) = (Inr q, s, w)"
  shows "collectEntriesForBranchSummary (memory_ops e) (Some old) target (s, w) =
     (Inr \<lparr>col_entries = drop (length (longest_common_prefix p q)) p,
           col_commonAncestorId = last_id None (longest_common_prefix p q)\<rparr>, s, w)"
proof -
  have v: "valid_target (ms_entries s) (Some old)" "valid_target (ms_entries s) (Some target)"
    using memory.getPathToRoot_missing [OF assms(1), of "Some old" e w]
      memory.getPathToRoot_missing [OF assms(1), of "Some target" e w] assms(2,3)
    by (auto simp: getBranch_def)
  have "p = path_of (ms_entries s) (Some old)" "q = path_of (ms_entries s) (Some target)"
    using memory.getPathToRoot [OF assms(1) v(1), of e w] memory.getPathToRoot [OF assms(1) v(2), of e w]
      assms(2,3) by (simp_all add: getBranch_def)
  with memory.collectEntries_run [OF assms(1), of old target e w] v show ?thesis
    by (simp add: valid_target_def)
qed

section \<open>The messages that fit: properties\<close>

definition total_tokens :: "agent_message list \<Rightarrow> nat" where
  "total_tokens ms = sum_list (map estimateTokens ms)"

lemma total_tokens_simps [simp]:
  "total_tokens [] = 0" "total_tokens (m # ms) = estimateTokens m + total_tokens ms"
  by (simp_all add: total_tokens_def)

definition branch_messages :: "(jstring \<Rightarrow> int) \<Rightarrow> entry list \<Rightarrow> agent_message list" where
  "branch_messages date_ms entries = List.map_filter (branch_message date_ms) entries"

lemma branch_messages_simps [simp]:
  "branch_messages date_ms [] = []"
  "branch_messages date_ms (xs @ ys) = branch_messages date_ms xs @ branch_messages date_ms ys"
  "branch_messages date_ms [en] = (case branch_message date_ms en of None \<Rightarrow> [] | Some m \<Rightarrow> [m])"
  by (simp_all add: branch_messages_def List.map_filter_def split: option.splits)

text \<open>The extra room a summary may take: only from below nine tenths of the budget.\<close>

definition summary_overrun :: "int \<Rightarrow> agent_message list \<Rightarrow> bool" where
  "summary_overrun tokenBudget ms \<longleftrightarrow>
     (\<exists>m rest. ms = m # rest \<and> (\<exists>c. m = CompactionSummary c \<or> (\<exists>b. m = BranchSummary b)) \<and>
        10 * int (total_tokens rest) < 9 * tokenBudget)"

text \<open>What the loop has decided when it stops: \<open>rest\<close> are the entries it left out.\<close>

definition chosen_ok :: "(jstring \<Rightarrow> int) \<Rightarrow> int \<Rightarrow> entry list \<Rightarrow> BranchPreparation \<Rightarrow> bool" where
  "chosen_ok date_ms budget rest r \<longleftrightarrow>
     bp_totalTokens r = total_tokens (bp_messages r) \<and>
     (budget > 0 \<longrightarrow> int (bp_totalTokens r) \<le> budget \<or> summary_overrun budget (bp_messages r)) \<and>
     (rest \<noteq> [] \<longrightarrow> budget > 0 \<and>
        (int (bp_totalTokens r) > budget \<or>
         int (total_tokens (branch_messages date_ms [hd rest] @ bp_messages r)) > budget))"

lemma branch_loop_spec:
  assumes "branch_loop date_ms budget rs msgs ops (total_tokens msgs) = r"
    and "budget > 0 \<longrightarrow> int (total_tokens msgs) \<le> budget"
  shows "\<exists>taken rest. rs = taken @ rest \<and>
     bp_messages r = branch_messages date_ms (rev taken) @ msgs \<and> chosen_ok date_ms budget rest r"
  using assms
proof (induction rs arbitrary: msgs ops)
  case Nil
  then show ?case by (intro exI [of _ "[]"]) (auto simp: chosen_ok_def)
next
  case (Cons en rs)
  show ?case
  proof (cases "branch_message date_ms en")
    case None
    then have "branch_loop date_ms budget rs msgs ops (total_tokens msgs) = r" using Cons.prems(1) by simp
    then obtain taken rest where
      "rs = taken @ rest" "bp_messages r = branch_messages date_ms (rev taken) @ msgs"
      "chosen_ok date_ms budget rest r" using Cons.IH Cons.prems(2) by blast
    with None show ?thesis by (intro exI [of _ "en # taken"] exI [of _ rest]) simp
  next
    case (Some m)
    let ?tokens = "estimateTokens m"
    show ?thesis
    proof (cases "budget > 0 \<and> int (total_tokens msgs + ?tokens) > budget")
      case over: True
      show ?thesis
      proof (cases "(e_type en = TCompaction \<or> e_type en = TBranchSummary) \<and>
          10 * int (total_tokens msgs) < 9 * budget")
        case True
        then have "\<exists>c. m = CompactionSummary c \<or> (\<exists>b. m = BranchSummary b)"
          using Some by (auto simp: branch_message_def split: entry_body.splits)
        with Cons.prems(1) Some over True show ?thesis
          by (intro exI [of _ "[en]"] exI [of _ rs]) (auto simp: summary_overrun_def chosen_ok_def)
      next
        case False
        with Cons.prems Some over show ?thesis
          by (intro exI [of _ "[]"] exI [of _ "en # rs"]) (auto simp: if_not_P [OF False] chosen_ok_def)
      qed
    next
      case False
      then have "branch_loop date_ms budget rs (m # msgs) (extractFileOpsFromMessage m ops)
          (total_tokens (m # msgs)) = r"
        using Cons.prems(1) Some by (auto simp: Let_def add.commute)
      moreover have "budget > 0 \<longrightarrow> int (total_tokens (m # msgs)) \<le> budget"
        using False by auto
      ultimately obtain taken rest where
        "rs = taken @ rest" "bp_messages r = branch_messages date_ms (rev taken) @ m # msgs"
        "chosen_ok date_ms budget rest r" using Cons.IH by blast
      with Some show ?thesis by (intro exI [of _ "en # taken"] exI [of _ rest]) simp
    qed
  qed
qed

text \<open>
  The messages chosen for a branch summary are those of the last entries of the branch,
  in order, with their exact token total; a positive budget is exceeded only by one leading
  summary that began below nine tenths of it; and the choice is maximal: if entries are left
  out, the next one would not have fitted.
\<close>

theorem prepareBranchEntries_fits:
  "let r = prepareBranchEntries date_ms entries budget
   in \<exists>out chosen. entries = out @ chosen \<and>
        bp_messages r = branch_messages date_ms chosen \<and>
        bp_totalTokens r = total_tokens (bp_messages r) \<and>
        (budget > 0 \<longrightarrow> int (bp_totalTokens r) \<le> budget \<or> summary_overrun budget (bp_messages r)) \<and>
        (out \<noteq> [] \<longrightarrow> budget > 0 \<and>
           (int (bp_totalTokens r) > budget \<or>
            int (total_tokens (branch_messages date_ms [last out] @ bp_messages r)) > budget))"
proof -
  let ?r = "prepareBranchEntries date_ms entries budget"
  have "branch_loop date_ms budget (rev entries) [] (fold add_branch_details entries createFileOps)
      (total_tokens []) = ?r" by (simp add: prepareBranchEntries_def)
  from branch_loop_spec [OF this] obtain taken rest where
    t: "rev entries = taken @ rest" "bp_messages ?r = branch_messages date_ms (rev taken)"
    "chosen_ok date_ms budget rest ?r"
    by auto
  have "entries = rev rest @ rev taken" using t(1) by (metis rev_append rev_rev_ident)
  moreover have "rest \<noteq> [] \<Longrightarrow> last (rev rest) = hd rest" by (simp add: last_rev)
  ultimately show ?thesis
    using t(2,3) unfolding Let_def chosen_ok_def by (metis rev_is_Nil_conv)
qed

section \<open>Witness\<close>

lemma collectEntries_after_common_prefix_witness:
  "collectEntriesForBranchSummary (memory_ops still_clock) (Some (js ''a'')) (js ''a'')
     (demo_session, init_world) =
   (Inr \<lparr>col_entries = [], col_commonAncestorId = Some (js ''a'')\<rparr>, demo_session, init_world)"
proof -
  have "valid_target (ms_entries demo_session) (Some (js ''a''))"
    by (simp add: valid_target_def demo_session_def demo_entry_def log_ids_def)
  moreover have "path_of (ms_entries demo_session) (Some (js ''a'')) = [demo_entry]"
    using path_of_snoc [of "[]" demo_entry] by (simp add: demo_session_def demo_entry_def)
  ultimately have b: "getBranch (memory_ops still_clock) (Some (js ''a'')) (demo_session, init_world) =
      (Inr [demo_entry], demo_session, init_world)"
    using memory.getPathToRoot [OF demo_good, of _ still_clock init_world] by (simp add: getBranch_def)
  show ?thesis
    using collectEntries_after_common_prefix [OF demo_good b b]
    by (simp add: last_id_def demo_entry_def)
qed

lemma prepareBranchEntries_fits_witness:
  "\<exists>out chosen. [demo_entry] = out @ chosen \<and>
     bp_messages (prepareBranchEntries (\<lambda>_. 0) [demo_entry] 100) = branch_messages (\<lambda>_. 0) chosen \<and>
     (int (bp_totalTokens (prepareBranchEntries (\<lambda>_. 0) [demo_entry] 100)) \<le> 100 \<or>
      summary_overrun 100 (bp_messages (prepareBranchEntries (\<lambda>_. 0) [demo_entry] 100)))"
proof -
  have "(0::int) < 100" by simp
  with prepareBranchEntries_fits [of "\<lambda>_. 0" "[demo_entry]" 100] show ?thesis
    unfolding Let_def by blast
qed

end
