(* ===== verification/HarnessTypes.thy ===== *)
theory HarnessTypes
  imports Session AgentTypes Compaction BranchSummary "HOL-Library.AList"
begin

text \<open>
  What \<open>packages/agent/src/harness/agent-harness.ts\<close> is built from: errors of the subsystems and
  their normalisation, programs that raise them, the request options with their patches, and the
  checks of tool names.
\<close>

section \<open>Errors\<close>

datatype AgentHarnessErrorCode =
  Busy | InvalidState | InvalidArgument | SessionFailure | Hook | Auth | CompactionFailure | BranchSummaryFailure | UnknownError

text \<open>What can be thrown: the errors of the subsystems, or any other value by its message.\<close>

datatype thrown =
    HarnessThrown AgentHarnessErrorCode jstring
  | SessionThrown SessionErrorCode jstring
  | CompactionThrown CompactionErrorCode jstring
  | BranchSummaryThrown BranchSummaryErrorCode jstring
  | OtherThrown jstring

fun thrown_message :: "thrown \<Rightarrow> jstring" where
  "thrown_message (HarnessThrown _ m) = m"
| "thrown_message (SessionThrown _ m) = m"
| "thrown_message (CompactionThrown _ m) = m"
| "thrown_message (BranchSummaryThrown _ m) = m"
| "thrown_message (OtherThrown m) = m"

fun normalizeHarnessError :: "thrown \<Rightarrow> AgentHarnessErrorCode \<Rightarrow> thrown" where
  "normalizeHarnessError (HarnessThrown c m) fallbackCode = HarnessThrown c m"
| "normalizeHarnessError (SessionThrown c m) fallbackCode = HarnessThrown SessionFailure m"
| "normalizeHarnessError (CompactionThrown c m) fallbackCode = HarnessThrown CompactionFailure m"
| "normalizeHarnessError (BranchSummaryThrown c m) fallbackCode = HarnessThrown BranchSummaryFailure m"
| "normalizeHarnessError (OtherThrown m) fallbackCode = HarnessThrown fallbackCode m"

definition normalizeHookError :: "thrown \<Rightarrow> thrown" where
  "normalizeHookError err = normalizeHarnessError err Hook"

section \<open>Programs\<close>

text \<open>The outcome of a method; \<open>Stuck\<close> is a call that does not return.\<close>

datatype 'a answer = Returns 'a | Raises thrown | Stuck

type_synonym ('h, 'a) hprog = "'h \<Rightarrow> 'a answer \<times> 'h"

definition retH :: "'a \<Rightarrow> ('h, 'a) hprog" where
  "retH x = (\<lambda>h. (Returns x, h))"

definition raiseH :: "thrown \<Rightarrow> ('h, 'a) hprog" where
  "raiseH err = (\<lambda>h. (Raises err, h))"

definition bindH :: "('h, 'a) hprog \<Rightarrow> ('a \<Rightarrow> ('h, 'b) hprog) \<Rightarrow> ('h, 'b) hprog" where
  "bindH m k = (\<lambda>h. case m h of
     (Returns x, h') \<Rightarrow> k x h' | (Raises err, h') \<Rightarrow> (Raises err, h') | (Stuck, h') \<Rightarrow> (Stuck, h'))"

text \<open>\<open>try { m } catch (error) { k }\<close> and \<open>try { m } finally { c }\<close>\<close>

definition catchH :: "('h, 'a) hprog \<Rightarrow> (thrown \<Rightarrow> ('h, 'a) hprog) \<Rightarrow> ('h, 'a) hprog" where
  "catchH m k = (\<lambda>h. case m h of (Raises err, h') \<Rightarrow> k err h' | r \<Rightarrow> r)"

definition finallyH :: "('h, 'a) hprog \<Rightarrow> ('h, unit) hprog \<Rightarrow> ('h, 'a) hprog" where
  "finallyH m c = (\<lambda>h. case m h of
     (Stuck, h') \<Rightarrow> (Stuck, h')
   | (r, h') \<Rightarrow> (case c h' of
        (Returns _, h'') \<Rightarrow> (r, h'') | (Raises err, h'') \<Rightarrow> (Raises err, h'') | (Stuck, h'') \<Rightarrow> (Stuck, h'')))"

definition getH :: "('h \<Rightarrow> 'a) \<Rightarrow> ('h, 'a) hprog" where
  "getH f = (\<lambda>h. (Returns (f h), h))"

definition setH :: "('h \<Rightarrow> 'h) \<Rightarrow> ('h, unit) hprog" where
  "setH f = (\<lambda>h. (Returns (), f h))"

fun for_eachH :: "('a \<Rightarrow> ('h, unit) hprog) \<Rightarrow> 'a list \<Rightarrow> ('h, unit) hprog" where
  "for_eachH f [] = retH ()"
| "for_eachH f (x # xs) = bindH (f x) (\<lambda>_. for_eachH f xs)"

text \<open>What the agent loop is given and gives back carries the message of an error only.\<close>

definition as_callback :: "('h, 'a) hprog \<Rightarrow> ('h, 'a) callback" where
  "as_callback m = (\<lambda>h. case m h of
     (Returns x, h') \<Rightarrow> (Done x, h') | (Raises err, h') \<Rightarrow> (Threw (thrown_message err), h') | (Stuck, h') \<Rightarrow> (Hangs, h'))"

section \<open>Request options\<close>

record AgentHarnessStreamOptions =
  hso_transport :: "jstring option"
  hso_timeoutMs :: "int option"
  hso_maxRetries :: "int option"
  hso_maxRetryDelayMs :: "int option"
  hso_headers :: "(jstring \<times> jstring) list option"
  hso_metadata :: "(jstring \<times> json) list option"
  hso_cacheRetention :: "jstring option"

text \<open>
  A field of a patch is absent, or present with a value that may be undefined; likewise an entry of
  the patch of the headers.
\<close>

record AgentHarnessStreamOptionsPatch =
  hsp_transport :: "jstring option option"
  hsp_timeoutMs :: "int option option"
  hsp_maxRetries :: "int option option"
  hsp_maxRetryDelayMs :: "int option option"
  hsp_headers :: "(jstring \<times> jstring option) list option option"
  hsp_metadata :: "(jstring \<times> json option) list option option"
  hsp_cacheRetention :: "jstring option option"

definition mergeHeaders :: "(jstring \<times> jstring) list option list \<Rightarrow> (jstring \<times> jstring) list option" where
  "mergeHeaders headers =
     (if \<exists>x \<in> set headers. x \<noteq> None
      then Some (fold (\<lambda>x merged. case x of None \<Rightarrow> merged | Some hs \<Rightarrow> fold (\<lambda>(k, v). AList.update k v) hs merged) headers [])
      else None)"

text \<open>\<open>if (Object.hasOwn(patch, name)) result[name] = patch[name]\<close>\<close>

definition patched :: "'a option \<Rightarrow> 'a \<Rightarrow> 'a" where
  "patched p old = (case p of Some v \<Rightarrow> v | None \<Rightarrow> old)"

text \<open>The loop over the entries of a patch of headers or metadata.\<close>

definition patch_entries :: "(jstring \<times> 'v option) list \<Rightarrow> (jstring \<times> 'v) list \<Rightarrow> (jstring \<times> 'v) list" where
  "patch_entries ps base =
     fold (\<lambda>(k, v) m. case v of None \<Rightarrow> AList.delete k m | Some x \<Rightarrow> AList.update k x m) ps base"

definition patch_map ::
    "(jstring \<times> 'v option) list option option \<Rightarrow> (jstring \<times> 'v) list option \<Rightarrow> (jstring \<times> 'v) list option" where
  "patch_map p old =
     (case p of
        None \<Rightarrow> old
      | Some None \<Rightarrow> None
      | Some (Some ps) \<Rightarrow>
          (let m = patch_entries ps (case old of Some xs \<Rightarrow> xs | None \<Rightarrow> []) in if m \<noteq> [] then Some m else None))"

definition applyStreamOptionsPatch ::
    "AgentHarnessStreamOptions \<Rightarrow> AgentHarnessStreamOptionsPatch \<Rightarrow> AgentHarnessStreamOptions" where
  "applyStreamOptionsPatch base p =
     \<lparr>hso_transport = patched (hsp_transport p) (hso_transport base),
      hso_timeoutMs = patched (hsp_timeoutMs p) (hso_timeoutMs base),
      hso_maxRetries = patched (hsp_maxRetries p) (hso_maxRetries base),
      hso_maxRetryDelayMs = patched (hsp_maxRetryDelayMs p) (hso_maxRetryDelayMs base),
      hso_headers = patch_map (hsp_headers p) (hso_headers base),
      hso_metadata = patch_map (hsp_metadata p) (hso_metadata base),
      hso_cacheRetention = patched (hsp_cacheRetention p) (hso_cacheRetention base)\<rparr>"

section \<open>Names of tools\<close>

text \<open>The loop of \<open>findDuplicateNames\<close>; both sets keep the order of insertion.\<close>

fun duplicate_names :: "jstring list \<Rightarrow> jstring list \<Rightarrow> jstring list \<Rightarrow> jstring list" where
  "duplicate_names seen duplicates [] = duplicates"
| "duplicate_names seen duplicates (n # ns) =
     duplicate_names (if n \<in> set seen then seen else seen @ [n])
       (if n \<in> set seen \<and> n \<notin> set duplicates then duplicates @ [n] else duplicates) ns"

definition findDuplicateNames :: "jstring list \<Rightarrow> jstring list" where
  "findDuplicateNames names = duplicate_names [] [] names"

definition validateUniqueNames :: "jstring list \<Rightarrow> string \<Rightarrow> thrown + unit" where
  "validateUniqueNames names message =
     (let duplicates = findDuplicateNames names
      in if duplicates \<noteq> [] then Inl (HarnessThrown InvalidArgument (js message @ js '': '' @ join (js '', '') duplicates))
         else Inr ())"

definition validateToolNames :: "jstring list \<Rightarrow> (jstring \<times> 'a) list \<Rightarrow> thrown + unit" where
  "validateToolNames toolNames tools =
     (case validateUniqueNames toolNames ''Duplicate active tool name(s)'' of
        Inl err \<Rightarrow> Inl err
      | Inr _ \<Rightarrow>
          (let missing = filter (\<lambda>n. n \<notin> fst ` set tools) toolNames
           in if missing \<noteq> [] then Inl (HarnessThrown InvalidArgument (js ''Unknown tool(s): '' @ join (js '', '') missing))
              else Inr ()))"

lemma duplicate_names_Nil:
  "set duplicates \<subseteq> set seen \<Longrightarrow>
     duplicate_names seen duplicates ns = [] \<longleftrightarrow> duplicates = [] \<and> distinct ns \<and> set ns \<inter> set seen = {}"
proof (induction ns arbitrary: seen duplicates)
  case (Cons n ns)
  have "set (if n \<in> set seen \<and> n \<notin> set duplicates then duplicates @ [n] else duplicates) \<subseteq>
      set (if n \<in> set seen then seen else seen @ [n])"
    using Cons.prems by auto
  from Cons.IH [OF this] show ?case using Cons.prems by auto
qed simp

lemma validateUniqueNames_ok: "validateUniqueNames names message = Inr () \<longleftrightarrow> distinct names"
  by (auto simp: validateUniqueNames_def findDuplicateNames_def Let_def duplicate_names_Nil)

lemma validateToolNames_ok: "validateToolNames names tools = Inr () \<longleftrightarrow> distinct names \<and> set names \<subseteq> fst ` set tools"
proof (cases "validateUniqueNames names ''Duplicate active tool name(s)''")
  case (Inl err)
  then have "\<not> distinct names" using validateUniqueNames_ok [of names "''Duplicate active tool name(s)''"] by auto
  with Inl show ?thesis by (simp add: validateToolNames_def)
next
  case (Inr u)
  then have "distinct names" using validateUniqueNames_ok [of names "''Duplicate active tool name(s)''"] by simp
  with Inr show ?thesis
    by (auto simp: validateToolNames_def Let_def filter_empty_conv)
qed

end
