(* ===== verification/Files.thy ===== *)
theory Files
  imports Prelude
begin

text \<open>
  The \<open>FileSystem\<close> interface of \<open>packages/agent/src/harness/types.ts\<close>, as far as the session
  files, skills and prompt templates use it: records of operations on an explicit file system, which
  return their failures. Path helpers of \<open>skills.ts\<close> and \<open>prompt-templates.ts\<close>.
\<close>

section \<open>The file system\<close>

datatype FileErrorCode =
  FileAborted | FileNotFound | PermissionDenied | NotDirectory | IsDirectory | FileInvalid | NotSupported | FileUnknown

record FileError =
  fe_code :: FileErrorCode
  fe_message :: jstring

type_synonym ('fs, 'a) file_op = "'fs \<Rightarrow> (FileError + 'a) \<times> 'fs"

text \<open>The methods of \<open>FileSystem\<close> that the storage picks.\<close>

record 'fs FileSystem =
  fs_readTextFile :: "jstring \<Rightarrow> ('fs, jstring) file_op"
  fs_readTextLines :: "jstring \<Rightarrow> nat option \<Rightarrow> ('fs, jstring list) file_op"
  fs_writeFile :: "jstring \<Rightarrow> jstring \<Rightarrow> ('fs, unit) file_op"
  fs_appendFile :: "jstring \<Rightarrow> jstring \<Rightarrow> ('fs, unit) file_op"

text \<open>What the loaders of skills and prompt templates use as well.\<close>

datatype FileKind = KFile | KDirectory | KSymlink

record FileInfo =
  fi_name :: jstring
  fi_path :: jstring
  fi_kind :: FileKind

record 'fs ResourceFiles = "'fs FileSystem" +
  fs_fileInfo :: "jstring \<Rightarrow> ('fs, FileInfo) file_op"
  fs_listDir :: "jstring \<Rightarrow> ('fs, FileInfo list) file_op"
  fs_canonicalPath :: "jstring \<Rightarrow> ('fs, jstring) file_op"

section \<open>Paths\<close>

abbreviation slash :: jchar where
  "slash \<equiv> 0x2F"

text \<open>\<open>path.replace(/\/+$/, "")\<close> and \<open>path.replace(/^\/+/, "")\<close>\<close>

definition strip_slashes_end :: "jstring \<Rightarrow> jstring" where
  "strip_slashes_end path = rev (dropWhile (\<lambda>c. c = slash) (rev path))"

definition strip_slashes_start :: "jstring \<Rightarrow> jstring" where
  "strip_slashes_start path = dropWhile (\<lambda>c. c = slash) path"

text \<open>\<open>path.lastIndexOf("/")\<close>, \<open>None\<close> for \<open>-1\<close>\<close>

definition last_slash :: "jstring \<Rightarrow> nat option" where
  "last_slash path = map_option (\<lambda>i. length path - Suc i) (find_index (\<lambda>c. c = slash) (rev path))"

definition basenameEnvPath :: "jstring \<Rightarrow> jstring" where
  "basenameEnvPath path =
     (let normalized = strip_slashes_end path
      in case last_slash normalized of None \<Rightarrow> normalized | Some i \<Rightarrow> drop (Suc i) normalized)"

definition dirnameEnvPath :: "jstring \<Rightarrow> jstring" where
  "dirnameEnvPath path =
     (let normalized = strip_slashes_end path
      in case last_slash normalized of
           None \<Rightarrow> [slash]
         | Some i \<Rightarrow> if i = 0 then [slash] else take i normalized)"

definition joinEnvPath :: "jstring \<Rightarrow> jstring \<Rightarrow> jstring" where
  "joinEnvPath base child = strip_slashes_end base @ [slash] @ strip_slashes_start child"

definition relativeEnvPath :: "jstring \<Rightarrow> jstring \<Rightarrow> jstring" where
  "relativeEnvPath rootDir path =
     (let normalizedRoot = strip_slashes_end rootDir; normalizedPath = strip_slashes_end path
      in if normalizedPath = normalizedRoot then []
         else if prefix (normalizedRoot @ [slash]) normalizedPath then drop (length normalizedRoot + 1) normalizedPath
         else strip_slashes_start normalizedPath)"

text \<open>\<open>s.endsWith(".md")\<close> and \<open>s.replace(/\.md$/i, "")\<close>\<close>

definition is_markdown :: "jstring \<Rightarrow> bool" where
  "is_markdown name \<longleftrightarrow> suffix (js ''.md'') name"

definition strip_markdown :: "jstring \<Rightarrow> jstring" where
  "strip_markdown name =
     (case rev name of
        d # m # dot # r \<Rightarrow>
          if d \<in> {0x64, 0x44} \<and> m \<in> {0x6D, 0x4D} \<and> dot = 0x2E then rev r else name
      | _ \<Rightarrow> name)"

section \<open>Front matter\<close>

text \<open>\<open>content.replace(/\r\n/g, "\n").replace(/\r/g, "\n")\<close>\<close>

fun normalize_newlines :: "jstring \<Rightarrow> jstring" where
  "normalize_newlines [] = []"
| "normalize_newlines [c] = [if c = 13 then newline else c]"
| "normalize_newlines (c # d # s) =
     (if c = 13 then newline # normalize_newlines (if d = newline then s else d # s)
      else c # normalize_newlines (d # s))"

text \<open>
  The text between the two lines of dashes, if there are two, and the body. \<open>slice(4, end)\<close> skips
  the opening dashes and the character after them.
\<close>

definition split_frontmatter :: "jstring \<Rightarrow> jstring option \<times> jstring" where
  "split_frontmatter content =
     (let normalized = normalize_newlines content
      in if \<not> prefix (js ''---'') normalized then (None, normalized)
         else (case index_of (newline # js ''---'') (drop 3 normalized) of
             None \<Rightarrow> (None, normalized)
           | Some i \<Rightarrow> (Some (drop 4 (take (i + 3) normalized)), trim (drop (i + 3 + 4) normalized))))"

section \<open>Diagnostics\<close>

datatype DiagnosticCode = FileInfoFailed | ListFailed | ReadFailed | ParseFailed | InvalidMetadata

record Diagnostic =
  dg_code :: DiagnosticCode
  dg_message :: jstring
  dg_path :: jstring

text \<open>A failure other than a missing file is a warning.\<close>

definition unless_missing :: "DiagnosticCode \<Rightarrow> jstring \<Rightarrow> FileError \<Rightarrow> Diagnostic list" where
  "unless_missing code path err =
     (if fe_code err = FileNotFound then []
      else [\<lparr>dg_code = code, dg_message = fe_message err, dg_path = path\<rparr>])"

definition plain_kind :: "FileKind \<Rightarrow> FileKind option" where
  "plain_kind k = (if k = KFile \<or> k = KDirectory then Some k else None)"

text \<open>\<open>resolveKind\<close>: a symbolic link is followed once; \<open>None\<close> is \<open>undefined\<close>.\<close>

definition resolveKind ::
    "('fs, 'b) ResourceFiles_scheme \<Rightarrow> FileInfo \<Rightarrow> 'fs \<Rightarrow> (FileKind option \<times> Diagnostic list) \<times> 'fs" where
  "resolveKind fs info f =
     (if plain_kind (fi_kind info) \<noteq> None then ((plain_kind (fi_kind info), []), f)
      else (case fs_canonicalPath fs (fi_path info) f of
          (Inl err, f1) \<Rightarrow> ((None, unless_missing FileInfoFailed (fi_path info) err), f1)
        | (Inr canonicalPath, f1) \<Rightarrow>
            (case fs_fileInfo fs canonicalPath f1 of
               (Inl err, f2) \<Rightarrow> ((None, unless_missing FileInfoFailed (fi_path info) err), f2)
             | (Inr target, f2) \<Rightarrow> ((plain_kind (fi_kind target), []), f2))))"

text \<open>\<open>entries.sort((a, b) => a.name.localeCompare(b.name))\<close>: a stable sort by the collation of the runtime.\<close>

definition sort_by_name :: "(jstring \<Rightarrow> jstring \<Rightarrow> bool) \<Rightarrow> FileInfo list \<Rightarrow> FileInfo list" where
  "sort_by_name le entries =
     foldr (\<lambda>x xs. takeWhile (\<lambda>y. \<not> le (fi_name x) (fi_name y)) xs @ x #
                   dropWhile (\<lambda>y. \<not> le (fi_name x) (fi_name y)) xs) entries []"

end
