(* ===== verification/Truncate.thy ===== *)
theory Truncate
  imports Prelude
begin

text \<open>
  The truncation of tool output, \<open>packages/agent/src/harness/utils/truncate.ts\<close>: UTF-8
  lengths of UTF-16 strings, repair of unpaired surrogates, truncation from the head by whole
  lines, from the tail by whole lines or by a byte budget, and truncation of one line.
  A reference UTF-8 encoder states what the length is the length of.
\<close>

section \<open>Surrogates and UTF-8 lengths\<close>

text \<open>The loop of \<open>utf8ByteLength\<close> over the code units from the first non-ASCII one on.\<close>

fun utf8_loop :: "nat \<Rightarrow> jstring \<Rightarrow> nat" where
  "utf8_loop bytes [] = bytes"
| "utf8_loop bytes [code] =
     (if code \<le> 0x7f then bytes + 1 else if code \<le> 0x7ff then bytes + 2 else bytes + 3)"
| "utf8_loop bytes (code # next # rest) =
     (if code \<le> 0x7f then utf8_loop (bytes + 1) (next # rest)
      else if code \<le> 0x7ff then utf8_loop (bytes + 2) (next # rest)
      else if is_high code then
        (if is_low next then utf8_loop (bytes + 4) rest
         else utf8_loop (bytes + 3) (next # rest))
      else utf8_loop (bytes + 3) (next # rest))"

text \<open>
  \<open>utf8ByteLength\<close>. The runtime may provide \<open>Buffer.byteLength\<close>, which is a parameter here
  (\<open>None\<close> where the global is missing).
\<close>

definition utf8ByteLength :: "(jstring \<Rightarrow> nat) option \<Rightarrow> jstring \<Rightarrow> nat" where
  "utf8ByteLength runtimeBuffer content =
     (case runtimeBuffer of
        Some byteLength \<Rightarrow> byteLength content
      | None \<Rightarrow>
          (case find_index (\<lambda>c. \<not> c \<le> 0x7f) content of
             None \<Rightarrow> length content
           | Some firstNonAscii \<Rightarrow> utf8_loop firstNonAscii (drop firstNonAscii content)))"

fun replaceUnpairedSurrogates :: "jstring \<Rightarrow> jstring" where
  "replaceUnpairedSurrogates [] = []"
| "replaceUnpairedSurrogates [code] =
     (if is_high code then [0xFFFD] else if is_low code then [0xFFFD] else [code])"
| "replaceUnpairedSurrogates (code # next # rest) =
     (if is_high code then
        (if is_low next then code # next # replaceUnpairedSurrogates rest
         else 0xFFFD # replaceUnpairedSurrogates (next # rest))
      else if is_low code then 0xFFFD # replaceUnpairedSurrogates (next # rest)
      else code # replaceUnpairedSurrogates (next # rest))"

subsection \<open>The reference encoder\<close>

text \<open>
  The code points of a UTF-16 string, an unpaired surrogate read as U+FFFD, and their UTF-8
  bytes: what a runtime's \<open>Buffer.byteLength(s, "utf8")\<close> is documented to count.
\<close>

fun code_points :: "jstring \<Rightarrow> nat list" where
  "code_points [] = []"
| "code_points [c] = [if is_high c \<or> is_low c then 0xFFFD else unat c]"
| "code_points (c # d # cs) =
     (if is_high c \<and> is_low d
      then (0x10000 + (unat c - 0xd800) * 0x400 + (unat d - 0xdc00)) # code_points cs
      else (if is_high c \<or> is_low c then 0xFFFD else unat c) # code_points (d # cs))"

definition utf8_bytes :: "nat \<Rightarrow> 8 word list" where
  "utf8_bytes n =
     (if n < 0x80 then [of_nat n]
      else if n < 0x800 then [of_nat (0xC0 + n div 64), of_nat (0x80 + n mod 64)]
      else if n < 0x10000 then
        [of_nat (0xE0 + n div 4096), of_nat (0x80 + n div 64 mod 64), of_nat (0x80 + n mod 64)]
      else [of_nat (0xF0 + n div 262144), of_nat (0x80 + n div 4096 mod 64),
            of_nat (0x80 + n div 64 mod 64), of_nat (0x80 + n mod 64)])"

definition utf8_encode :: "jstring \<Rightarrow> 8 word list" where
  "utf8_encode s = concat (map utf8_bytes (code_points s))"

definition utf8_len :: "jstring \<Rightarrow> nat" where
  "utf8_len s = length (utf8_encode s)"

text \<open>What the sources rely on of the runtime's \<open>Buffer\<close>, where there is one.\<close>

definition runtime_ok :: "(jstring \<Rightarrow> nat) option \<Rightarrow> bool" where
  "runtime_ok rb \<longleftrightarrow> (\<forall>f. rb = Some f \<longrightarrow> (\<forall>s. f s = utf8_len s))"

section \<open>Options and results\<close>

definition DEFAULT_MAX_LINES :: nat where
  "DEFAULT_MAX_LINES = 2000"

definition DEFAULT_MAX_BYTES :: nat where
  "DEFAULT_MAX_BYTES = 50 * 1024"

definition GREP_MAX_LINE_LENGTH :: nat where
  "GREP_MAX_LINE_LENGTH = 500"

datatype truncated_by = ByLines | ByBytes

record TruncationResult =
  tr_content :: jstring
  tr_truncated :: bool
  tr_truncatedBy :: "truncated_by option"
  tr_totalLines :: nat
  tr_totalBytes :: nat
  tr_outputLines :: nat
  tr_outputBytes :: nat
  tr_lastLinePartial :: bool
  tr_firstLineExceedsLimit :: bool
  tr_maxLines :: nat
  tr_maxBytes :: nat

record TruncationOptions =
  opt_maxLines :: "nat option"
  opt_maxBytes :: "nat option"

definition opt_lines :: "TruncationOptions \<Rightarrow> nat" where
  "opt_lines options = (case opt_maxLines options of Some n \<Rightarrow> n | None \<Rightarrow> DEFAULT_MAX_LINES)"

definition opt_bytes :: "TruncationOptions \<Rightarrow> nat" where
  "opt_bytes options = (case opt_maxBytes options of Some n \<Rightarrow> n | None \<Rightarrow> DEFAULT_MAX_BYTES)"

text \<open>
  \<open>(n / d).toFixed(1)\<close> for a power of two \<open>d\<close>: the quotient is exact in binary floating point,
  and of two equally near one-digit decimals \<open>toFixed\<close> takes the larger.
\<close>

definition to_fixed1 :: "nat \<Rightarrow> nat \<Rightarrow> jstring" where
  "to_fixed1 n d =
     (let tenths = (20 * n + d) div (2 * d)
      in show_nat (tenths div 10) @ js ''.'' @ show_nat (tenths mod 10))"

definition formatSize :: "nat \<Rightarrow> jstring" where
  "formatSize bytes =
     (if bytes < 1024 then show_nat bytes @ js ''B''
      else if bytes < 1024 * 1024 then to_fixed1 bytes 1024 @ js ''KB''
      else to_fixed1 bytes (1024 * 1024) @ js ''MB'')"

section \<open>Truncation from the head\<close>

text \<open>
  The loop collects complete lines; \<open>i\<close> is the index of the next line and \<open>acc\<close> the
  lines collected so far.
\<close>

fun head_loop :: "(jstring \<Rightarrow> nat) option \<Rightarrow> nat \<Rightarrow> nat \<Rightarrow> nat \<Rightarrow> jstring list \<Rightarrow>
    jstring list \<Rightarrow> nat \<Rightarrow> jstring list \<times> nat \<times> truncated_by" where
  "head_loop rb maxLines maxBytes i [] acc count = (acc, count, ByLines)"
| "head_loop rb maxLines maxBytes i (line # rest) acc count =
     (if i < maxLines then
        (let lineBytes = utf8ByteLength rb line + (if i > 0 then 1 else 0)
         in if count + lineBytes > maxBytes then (acc, count, ByBytes)
            else head_loop rb maxLines maxBytes (Suc i) rest (acc @ [line]) (count + lineBytes))
      else (acc, count, ByLines))"

definition truncateHead ::
    "(jstring \<Rightarrow> nat) option \<Rightarrow> jstring \<Rightarrow> TruncationOptions \<Rightarrow> TruncationResult" where
  "truncateHead rb content options =
     (let maxLines = opt_lines options; maxBytes = opt_bytes options;
          totalBytes = utf8ByteLength rb content;
          lines = split_on newline content;
          totalLines = length lines
      in if totalLines \<le> maxLines \<and> totalBytes \<le> maxBytes then
           \<lparr>tr_content = content, tr_truncated = False, tr_truncatedBy = None,
            tr_totalLines = totalLines, tr_totalBytes = totalBytes,
            tr_outputLines = totalLines, tr_outputBytes = totalBytes,
            tr_lastLinePartial = False, tr_firstLineExceedsLimit = False,
            tr_maxLines = maxLines, tr_maxBytes = maxBytes\<rparr>
         else if utf8ByteLength rb (hd lines) > maxBytes then
           \<lparr>tr_content = [], tr_truncated = True, tr_truncatedBy = Some ByBytes,
            tr_totalLines = totalLines, tr_totalBytes = totalBytes,
            tr_outputLines = 0, tr_outputBytes = 0,
            tr_lastLinePartial = False, tr_firstLineExceedsLimit = True,
            tr_maxLines = maxLines, tr_maxBytes = maxBytes\<rparr>
         else
           (case head_loop rb maxLines maxBytes 0 lines [] 0 of (out, count, by0) \<Rightarrow>
              let by1 = (if length out \<ge> maxLines \<and> count \<le> maxBytes then ByLines else by0);
                  outputContent = join [newline] out
              in \<lparr>tr_content = outputContent, tr_truncated = True, tr_truncatedBy = Some by1,
                  tr_totalLines = totalLines, tr_totalBytes = totalBytes,
                  tr_outputLines = length out,
                  tr_outputBytes = utf8ByteLength rb outputContent,
                  tr_lastLinePartial = False, tr_firstLineExceedsLimit = False,
                  tr_maxLines = maxLines, tr_maxBytes = maxBytes\<rparr>))"

section \<open>Truncation from the tail\<close>

text \<open>
  The loop of \<open>truncateStringToBytesFromEnd\<close>: \<open>i\<close> is one past the code unit looked at, the
  result is the start of the kept suffix and whether it holds an unpaired surrogate.
\<close>

definition char_before :: "jstring \<Rightarrow> nat \<Rightarrow> nat \<times> nat \<times> bool" where
  "char_before str i =
     (let characterStart = i - 1; code = str ! characterStart
      in if is_low code \<and> characterStart > 0 then
           (if is_high (str ! (characterStart - 1)) then (characterStart - 1, 4, False)
            else (characterStart, 3, True))
         else if 0xd800 \<le> code \<and> code \<le> 0xdfff then (characterStart, 3, True)
         else (characterStart,
               if code \<le> 0x7f then 1 else if code \<le> 0x7ff then 2 else 3, False))"

lemma char_before_less: "0 < i \<Longrightarrow> fst (char_before str i) < i"
  by (auto simp: char_before_def Let_def)

function from_end_loop :: "jstring \<Rightarrow> nat \<Rightarrow> nat \<Rightarrow> nat \<Rightarrow> nat \<Rightarrow> bool \<Rightarrow> nat \<times> bool" where
  "from_end_loop str maxBytes i outputBytes start needsReplacement =
     (if i = 0 then (start, needsReplacement)
      else (case char_before str i of (characterStart, characterBytes, unpaired) \<Rightarrow>
        if outputBytes + characterBytes > maxBytes then (start, needsReplacement)
        else from_end_loop str maxBytes characterStart (outputBytes + characterBytes)
               characterStart (needsReplacement \<or> unpaired)))"
  by pat_completeness auto
termination
  by (relation "measure (\<lambda>(str, maxBytes, i, _). i)")
    (auto simp: char_before_def Let_def split: if_splits)

declare from_end_loop.simps [simp del]

definition truncateStringToBytesFromEnd :: "jstring \<Rightarrow> nat \<Rightarrow> jstring" where
  "truncateStringToBytesFromEnd str maxBytes =
     (if maxBytes = 0 then []
      else (case from_end_loop str maxBytes (length str) 0 (length str) False of
              (start, needsReplacement) \<Rightarrow>
                let output = drop start str
                in if needsReplacement then replaceUnpairedSurrogates output else output))"

text \<open>
  The loop of \<open>truncateTail\<close> walks the lines backwards: its argument is the reversed list of
  the lines still to look at, and \<open>acc\<close> the lines kept, in order.
\<close>

fun tail_loop :: "(jstring \<Rightarrow> nat) option \<Rightarrow> nat \<Rightarrow> nat \<Rightarrow> jstring list \<Rightarrow>
    jstring list \<Rightarrow> nat \<Rightarrow> jstring list \<times> nat \<times> truncated_by \<times> bool" where
  "tail_loop rb maxLines maxBytes [] acc count = (acc, count, ByLines, False)"
| "tail_loop rb maxLines maxBytes (line # rest) acc count =
     (if length acc < maxLines then
        (let lineBytes = utf8ByteLength rb line + (if length acc > 0 then 1 else 0)
         in if count + lineBytes > maxBytes then
              (if acc = [] then
                 (let truncatedLine = truncateStringToBytesFromEnd line maxBytes
                  in ([truncatedLine], utf8ByteLength rb truncatedLine, ByBytes, True))
               else (acc, count, ByBytes, False))
            else tail_loop rb maxLines maxBytes rest (line # acc) (count + lineBytes))
      else (acc, count, ByLines, False))"

text \<open>The lines of the content: a final newline does not count as an empty last line.\<close>

definition tail_lines :: "jstring \<Rightarrow> jstring list" where
  "tail_lines content =
     (let lines = split_on newline content
      in if length lines > 1 \<and> last lines = [] then butlast lines else lines)"

definition truncateTail ::
    "(jstring \<Rightarrow> nat) option \<Rightarrow> jstring \<Rightarrow> TruncationOptions \<Rightarrow> TruncationResult" where
  "truncateTail rb content options =
     (let maxLines = opt_lines options; maxBytes = opt_bytes options;
          totalBytes = utf8ByteLength rb content;
          lines = tail_lines content;
          totalLines = length lines
      in if totalLines \<le> maxLines \<and> totalBytes \<le> maxBytes then
           \<lparr>tr_content = content, tr_truncated = False, tr_truncatedBy = None,
            tr_totalLines = totalLines, tr_totalBytes = totalBytes,
            tr_outputLines = totalLines, tr_outputBytes = totalBytes,
            tr_lastLinePartial = False, tr_firstLineExceedsLimit = False,
            tr_maxLines = maxLines, tr_maxBytes = maxBytes\<rparr>
         else
           (case tail_loop rb maxLines maxBytes (rev lines) [] 0 of (out, count, by0, partial) \<Rightarrow>
              let by1 = (if length out \<ge> maxLines \<and> count \<le> maxBytes then ByLines else by0);
                  outputContent = join [newline] out
              in \<lparr>tr_content = outputContent, tr_truncated = True, tr_truncatedBy = Some by1,
                  tr_totalLines = totalLines, tr_totalBytes = totalBytes,
                  tr_outputLines = length out,
                  tr_outputBytes = utf8ByteLength rb outputContent,
                  tr_lastLinePartial = partial, tr_firstLineExceedsLimit = False,
                  tr_maxLines = maxLines, tr_maxBytes = maxBytes\<rparr>))"

section \<open>Truncation of one line\<close>

definition truncateLine :: "jstring \<Rightarrow> nat option \<Rightarrow> jstring \<times> bool" where
  "truncateLine line maxCharsOpt =
     (let maxChars = (case maxCharsOpt of Some n \<Rightarrow> n | None \<Rightarrow> GREP_MAX_LINE_LENGTH)
      in if length line \<le> maxChars then (line, False)
         else (take maxChars line @ js ''... [truncated]'', True))"

section \<open>UTF-8 lengths\<close>

definition unit_len :: "jchar \<Rightarrow> nat" where
  "unit_len c = (if c \<le> 0x7f then 1 else if c \<le> 0x7ff then 2 else 3)"

lemma length_utf8_bytes:
  "length (utf8_bytes n) =
     (if n < 0x80 then 1 else if n < 0x800 then 2 else if n < 0x10000 then 3 else 4)"
  by (simp add: utf8_bytes_def)

lemma unit_len_pos [simp]: "0 < unit_len c"
  by (simp add: unit_len_def)

lemma length_unit_bytes:
  "length (utf8_bytes (if is_high c \<or> is_low c then 0xFFFD else unat c)) = unit_len c"
proof -
  have "unat c < 0x10000" using unsigned_less [of c] by simp
  then show ?thesis
    by (auto simp: length_utf8_bytes unit_len_def is_high_def is_low_def word_le_nat_alt)
qed

lemma utf8_len_Nil [simp]: "utf8_len [] = 0"
  by (simp add: utf8_len_def utf8_encode_def)

lemma utf8_len_single: "utf8_len [c] = unit_len c"
  using length_unit_bytes [of c] by (simp add: utf8_len_def utf8_encode_def)

lemma utf8_len_Cons2:
  "utf8_len (c # d # cs) =
     (if is_high c \<and> is_low d then 4 + utf8_len cs else unit_len c + utf8_len (d # cs))"
proof (cases "is_high c \<and> is_low d")
  case True
  then have "0x10000 \<le> 0x10000 + (unat c - 0xd800) * 0x400 + (unat d - 0xdc00)" by simp
  with True show ?thesis
    by (simp add: utf8_len_def utf8_encode_def length_utf8_bytes)
next
  case False
  then show ?thesis
    using length_unit_bytes [of c] by (auto simp: utf8_len_def utf8_encode_def)
qed

lemmas utf8_len_simps = utf8_len_Nil utf8_len_single utf8_len_Cons2

lemma utf8_len_Cons:
  "\<not> (is_high c \<and> s \<noteq> [] \<and> is_low (hd s)) \<Longrightarrow> utf8_len (c # s) = unit_len c + utf8_len s"
  by (cases s) (auto simp: utf8_len_simps)

lemma ascii_not_high: "c \<le> 0x7f \<Longrightarrow> \<not> is_high c"
  and ascii_not_low: "c \<le> 0x7f \<Longrightarrow> \<not> is_low c"
  and short_not_high: "c \<le> 0x7ff \<Longrightarrow> \<not> is_high c"
  by (simp_all add: is_high_def is_low_def word_le_nat_alt)

lemma high_not_short: "is_high c \<Longrightarrow> \<not> c \<le> 0x7f \<and> \<not> c \<le> 0x7ff"
  using ascii_not_high short_not_high by blast

lemma utf8_loop_eq: "utf8_loop bytes s = bytes + utf8_len s"
  by (induction bytes s rule: utf8_loop.induct)
    (auto simp: utf8_len_simps unit_len_def high_not_short dest: ascii_not_high short_not_high)

lemma utf8_len_ascii_append:
  "\<forall>c \<in> set p. c \<le> 0x7f \<Longrightarrow> utf8_len (p @ s) = length p + utf8_len s"
  by (induction p) (auto simp: utf8_len_Cons ascii_not_high unit_len_def)

lemma utf8ByteLength_eq: 
  assumes "runtime_ok rb" shows "utf8ByteLength rb s = utf8_len s"
proof (cases rb)
  case (Some f)
  with assms show ?thesis by (simp add: utf8ByteLength_def runtime_ok_def)
next
  case None
  show ?thesis
  proof (cases "find_index (\<lambda>c. \<not> c \<le> 0x7f) s")
    case f: None
    then have "\<forall>c \<in> set s. c \<le> 0x7f" by (simp add: find_index_None)
    with utf8_len_ascii_append [of s "[]"] None f show ?thesis
      by (simp add: utf8ByteLength_def)
  next
    case f: (Some i)
    then have "\<forall>c \<in> set (take i s). c \<le> 0x7f" and "i < length s"
      using find_index_Some [OF f] by (auto simp: in_set_conv_nth)
    with utf8_len_ascii_append [of "take i s" "drop i s"] None f show ?thesis
      by (simp add: utf8ByteLength_def utf8_loop_eq)
  qed
qed

lemma utf8_len_append:
  "\<not> (a \<noteq> [] \<and> b \<noteq> [] \<and> is_high (last a) \<and> is_low (hd b)) \<Longrightarrow>
   utf8_len (a @ b) = utf8_len a + utf8_len b"
proof (induction a rule: code_points.induct)
  case 1
  then show ?case by simp
next
  case (2 c)
  then show ?case by (auto simp: utf8_len_Cons utf8_len_single)
next
  case (3 c d cs)
  then show ?case
    by (cases "is_high c \<and> is_low d") (cases cs; auto simp: utf8_len_Cons2)+
qed

lemma utf8_len_sep: "utf8_len (a @ newline # b) = utf8_len a + 1 + utf8_len b"
proof -
  have "utf8_len (a @ newline # b) = utf8_len a + utf8_len (newline # b)"
    by (rule utf8_len_append) (simp add: is_low_def)
  then show ?thesis by (simp add: utf8_len_Cons is_high_def unit_len_def)
qed

lemma utf8_len_join_Cons:
  "ls \<noteq> [] \<Longrightarrow> utf8_len (join [newline] (l # ls)) = utf8_len l + 1 + utf8_len (join [newline] ls)"
  by (simp add: join_Cons utf8_len_sep)

lemma utf8_len_join_snoc:
  "utf8_len (join [newline] (ls @ [l])) =
     utf8_len (join [newline] ls) + (if ls = [] then 0 else 1) + utf8_len l"
  by (simp add: join_snoc utf8_len_sep)

lemma utf8_len_join_cons_if:
  "utf8_len (join [newline] (l # ls)) =
     utf8_len (join [newline] ls) + (if ls = [] then 0 else 1) + utf8_len l"
  by (simp add: utf8_len_join_Cons)

lemma utf8_len_join_take_mono:
  "j \<le> k \<Longrightarrow> utf8_len (join [newline] (take j ls)) \<le> utf8_len (join [newline] (take k ls))"
proof (induction k)
  case 0
  then show ?case by simp
next
  case (Suc k)
  show ?case
  proof (cases "j = Suc k \<or> length ls \<le> k")
    case True
    with Suc show ?thesis by (cases "j = Suc k") auto
  next
    case False
    with Suc have "utf8_len (join [newline] (take j ls)) \<le> utf8_len (join [newline] (take k ls))"
      by simp
    with False show ?thesis by (simp add: take_Suc_snoc utf8_len_join_snoc)
  qed
qed

section \<open>Repair of unpaired surrogates\<close>

fun well_formed_utf16 :: "jstring \<Rightarrow> bool" where
  "well_formed_utf16 [] \<longleftrightarrow> True"
| "well_formed_utf16 [c] \<longleftrightarrow> \<not> is_high c \<and> \<not> is_low c"
| "well_formed_utf16 (c # d # cs) \<longleftrightarrow>
     (if is_high c then is_low d \<and> well_formed_utf16 cs
      else \<not> is_low c \<and> well_formed_utf16 (d # cs))"

lemma replacement_char [simp]: "\<not> is_high 0xFFFD" "\<not> is_low 0xFFFD" "unit_len 0xFFFD = 3"
  by (simp_all add: is_high_def is_low_def unit_len_def)

lemma well_formed_Cons:
  "\<not> is_high c \<Longrightarrow> \<not> is_low c \<Longrightarrow> well_formed_utf16 (c # s) \<longleftrightarrow> well_formed_utf16 s"
  by (cases s) auto

lemma well_formed_replace: "well_formed_utf16 (replaceUnpairedSurrogates s)"
  by (induction s rule: replaceUnpairedSurrogates.induct) (auto simp: well_formed_Cons)

lemma replace_well_formed_id: "well_formed_utf16 s \<Longrightarrow> replaceUnpairedSurrogates s = s"
  by (induction s rule: replaceUnpairedSurrogates.induct) (auto split: if_splits)

lemma surrogate_unit_len: "is_high c \<or> is_low c \<Longrightarrow> unit_len c = 3"
  by (auto simp: unit_len_def is_high_def is_low_def word_le_nat_alt)

lemma replace_not_low_hd:
  "s \<noteq> [] \<Longrightarrow> replaceUnpairedSurrogates s \<noteq> [] \<and> \<not> is_low (hd (replaceUnpairedSurrogates s))"
  by (induction s rule: replaceUnpairedSurrogates.induct) auto

lemma utf8_len_replace: "utf8_len (replaceUnpairedSurrogates s) = utf8_len s"
proof (induction s rule: replaceUnpairedSurrogates.induct)
  case (3 c d cs)
  then show ?case
    using replace_not_low_hd [of "d # cs"]
    by (auto simp: utf8_len_Cons2 utf8_len_Cons surrogate_unit_len)
qed (auto simp: utf8_len_single surrogate_unit_len)

section \<open>What the loops compute\<close>

text \<open>The first \<open>k\<close> lines fit both limits.\<close>

definition fits :: "nat \<Rightarrow> nat \<Rightarrow> jstring list \<Rightarrow> nat \<Rightarrow> bool" where
  "fits maxLines maxBytes ls k \<longleftrightarrow>
     k \<le> maxLines \<and> utf8_len (join [newline] (take k ls)) \<le> maxBytes"

definition is_longest :: "nat \<Rightarrow> nat \<Rightarrow> jstring list \<Rightarrow> nat \<Rightarrow> bool" where
  "is_longest maxLines maxBytes ls k \<longleftrightarrow>
     k \<le> length ls \<and> fits maxLines maxBytes ls k \<and>
     (\<forall>j \<le> length ls. fits maxLines maxBytes ls j \<longrightarrow> j \<le> k)"

lemma fits_downward: "fits ml mb ls k \<Longrightarrow> j \<le> k \<Longrightarrow> fits ml mb ls j"
  using utf8_len_join_take_mono [of j k ls] by (auto simp: fits_def)

lemma is_longest_intro:
  assumes "k \<le> length ls" and "fits ml mb ls k"
    and stop: "k < length ls \<Longrightarrow> \<not> fits ml mb ls (Suc k)"
  shows "is_longest ml mb ls k"
proof -
  have "j \<le> k" if "j \<le> length ls" and "fits ml mb ls j" for j
  proof (rule ccontr)
    assume "\<not> j \<le> k"
    then have "Suc k \<le> j" by simp
    with that fits_downward have "fits ml mb ls (Suc k)" by blast
    moreover have "k < length ls" using \<open>Suc k \<le> j\<close> that(1) by simp
    ultimately show False using stop by blast
  qed
  with assms show ?thesis by (simp add: is_longest_def)
qed

lemma head_loop_longest:
  assumes "runtime_ok rb"
    and "head_loop rb ml mb k (drop k ls) (take k ls) (utf8_len (join [newline] (take k ls))) =
           (out, count, by)"
    and "k \<le> length ls" and "fits ml mb ls k"
  shows "\<exists>n. out = take n ls \<and> is_longest ml mb ls n"
  using assms(2-4)
proof (induction "length ls - k" arbitrary: k)
  case 0
  then have "out = take k ls" and "k = length ls" by auto
  with 0 show ?case using is_longest_intro [of k ls ml mb] by blast
next
  case (Suc d)
  then have k: "k < length ls" by simp
  let ?l = "ls ! k"
  let ?n = "utf8_len (join [newline] (take k ls))"
  have next_len: "utf8_len (join [newline] (take (Suc k) ls)) =
      ?n + (utf8_len ?l + (if k > 0 then 1 else 0))"
    using k by (auto simp: take_Suc_snoc utf8_len_join_snoc)
  show ?case
  proof (cases "k < ml \<and> ?n + (utf8_len ?l + (if k > 0 then 1 else 0)) \<le> mb")
    case True
    then have "head_loop rb ml mb (Suc k) (drop (Suc k) ls) (take (Suc k) ls)
        (utf8_len (join [newline] (take (Suc k) ls))) = (out, count, by)"
      using Suc.prems(1) assms(1) k next_len
      by (simp add: drop_nth_Cons [OF k] take_Suc_snoc utf8ByteLength_eq Let_def)
    moreover have "fits ml mb ls (Suc k)" using True next_len by (simp add: fits_def)
    ultimately show ?thesis using Suc.hyps(1) [of "Suc k"] Suc.hyps(2) k by simp
  next
    case False
    then have "out = take k ls"
      using Suc.prems(1) assms(1)
      by (auto simp: drop_nth_Cons [OF k] utf8ByteLength_eq Let_def split: if_splits)
    moreover have "\<not> fits ml mb ls (Suc k)" using False next_len by (auto simp: fits_def)
    ultimately show ?thesis
      using is_longest_intro [of k ls ml mb] Suc.prems k by blast
  qed
qed

lemma is_longest_zero:
  "ls \<noteq> [] \<Longrightarrow> mb < utf8_len (hd ls) \<Longrightarrow> is_longest ml mb ls 0"
  by (rule is_longest_intro) (auto simp: fits_def neq_Nil_conv)

lemma is_longest_all:
  "length ls \<le> ml \<Longrightarrow> utf8_len (join [newline] ls) \<le> mb \<Longrightarrow> is_longest ml mb ls (length ls)"
  by (rule is_longest_intro) (auto simp: fits_def)

lemma truncateHead_spec:
  fixes content :: jstring and options :: TruncationOptions
  assumes "runtime_ok rb"
  defines "ls \<equiv> split_on newline content"
  defines "r \<equiv> truncateHead rb content options"
  shows "tr_content r = join [newline] (take (tr_outputLines r) ls) \<and>
         is_longest (tr_maxLines r) (tr_maxBytes r) ls (tr_outputLines r) \<and>
         tr_outputBytes r = utf8_len (tr_content r) \<and>
         (tr_truncated r \<longleftrightarrow> tr_outputLines r < tr_totalLines r) \<and>
         tr_totalLines r = length ls \<and> \<not> tr_lastLinePartial r"
proof -
  let ?ml = "opt_lines options" and ?mb = "opt_bytes options"
  note len = utf8ByteLength_eq [OF assms(1)]
  note unfold = r_def truncateHead_def Let_def len ls_def [symmetric]
  have content: "join [newline] ls = content" and ne: "ls \<noteq> []" by (simp_all add: ls_def)
  consider (all) "length ls \<le> ?ml \<and> utf8_len content \<le> ?mb"
    | (first) "\<not> (length ls \<le> ?ml \<and> utf8_len content \<le> ?mb)" "utf8_len (hd ls) > ?mb"
    | (loop) "\<not> (length ls \<le> ?ml \<and> utf8_len content \<le> ?mb)" "\<not> utf8_len (hd ls) > ?mb"
    by blast
  then show ?thesis
  proof cases
    case all
    show ?thesis
      unfolding unfold if_P [OF all]
      using all is_longest_all [of ls ?ml ?mb] content by simp
  next
    case first
    show ?thesis
      unfolding unfold if_not_P [OF first(1)] if_P [OF first(2)]
      using is_longest_zero [OF ne first(2)] ne by simp
  next
    case loop
    obtain out count "by" where h: "head_loop rb ?ml ?mb 0 ls [] 0 = (out, count, by)"
      by (cases "head_loop rb ?ml ?mb 0 ls [] 0") auto
    then obtain n where n: "out = take n ls" "is_longest ?ml ?mb ls n"
      using head_loop_longest [OF assms(1), of ?ml ?mb 0 ls out count "by"]
      by (auto simp: fits_def)
    from n(2) have le: "n \<le> length ls" and fit: "fits ?ml ?mb ls n"
      by (simp_all add: is_longest_def)
    have "n \<noteq> length ls"
    proof
      assume "n = length ls"
      with fit content have "length ls \<le> ?ml \<and> utf8_len content \<le> ?mb"
        by (simp add: fits_def)
      with loop(1) show False ..
    qed
    with n(2) le show ?thesis
      unfolding unfold if_not_P [OF loop(1)] if_not_P [OF loop(2)] h n(1) by simp
  qed
qed

text \<open>
  Claim C17. \<open>truncateHead\<close> returns the longest prefix of whole lines that fits both limits, never
  a partial line; the reported counts describe the returned content, and the result is marked
  truncated exactly when lines are missing.
\<close>

theorem truncateHead_longest_prefix:
  assumes "runtime_ok rb"
  shows "let ls = split_on newline content; r = truncateHead rb content options
         in tr_content r = join [newline] (take (tr_outputLines r) ls) \<and>
            is_longest (tr_maxLines r) (tr_maxBytes r) ls (tr_outputLines r) \<and>
            tr_outputBytes r = utf8_len (tr_content r) \<and>
            (tr_truncated r \<longleftrightarrow> tr_outputLines r < tr_totalLines r) \<and>
            tr_totalLines r = length ls \<and> \<not> tr_lastLinePartial r"
  unfolding Let_def by (rule truncateHead_spec [OF assms])


lemma truncateHead_longest_prefix_witness:
  "runtime_ok None \<and>
   is_longest 1 51200 [js ''ab'', js ''cd''] 1 \<and>
   tr_content (truncateHead None (js ''ab'' @ newline # js ''cd'')
      \<lparr>opt_maxLines = Some 1, opt_maxBytes = None\<rparr>) = js ''ab''"
proof -
  let ?s = "js ''ab'' @ newline # js ''cd''"
  let ?r = "truncateHead None ?s \<lparr>opt_maxLines = Some 1, opt_maxBytes = None\<rparr>"
  have ok: "runtime_ok None" by (simp add: runtime_ok_def)
  have "tr_content ?r = js ''ab'' \<and> tr_maxLines ?r = 1 \<and> tr_maxBytes ?r = 51200 \<and>
      tr_outputLines ?r = 1 \<and> split_on newline ?s = [js ''ab'', js ''cd'']"
    by (simp add: truncateHead_def js_eval utf8ByteLength_def opt_lines_def opt_bytes_def
        DEFAULT_MAX_BYTES_def Let_def)
  with ok truncateHead_longest_prefix [OF ok, of ?s
      "\<lparr>opt_maxLines = Some 1, opt_maxBytes = None\<rparr>"]
  show ?thesis by (simp add: Let_def)
qed

lemma utf8_len_join_rev: "utf8_len (join [newline] (rev ls)) = utf8_len (join [newline] ls)"
  by (induction ls) (auto simp: utf8_len_join_snoc utf8_len_join_cons_if)

lemma tail_loop_longest:
  assumes "runtime_ok rb"
    and "tail_loop rb ml mb (drop k rs) (rev (take k rs)) (utf8_len (join [newline] (take k rs))) =
           (out, count, by0, partial)"
    and "k \<le> length rs" and "fits ml mb rs k"
  shows "(\<not> partial \<and> (\<exists>n. out = rev (take n rs) \<and> is_longest ml mb rs n)) \<or>
         (partial \<and> rs \<noteq> [] \<and> 0 < ml \<and> mb < utf8_len (hd rs) \<and>
          out = [truncateStringToBytesFromEnd (hd rs) mb])"
  using assms(2-4)
proof (induction "length rs - k" arbitrary: k)
  case 0
  then have "out = rev (take k rs)" and "k = length rs" and "\<not> partial" by auto
  with 0 show ?case using is_longest_intro [of k rs ml mb] by blast
next
  case (Suc d)
  then have k: "k < length rs" by simp
  let ?l = "rs ! k"
  let ?n = "utf8_len (join [newline] (take k rs))"
  have next_len: "utf8_len (join [newline] (take (Suc k) rs)) =
      ?n + (utf8_len ?l + (if k > 0 then 1 else 0))"
    using k by (auto simp: take_Suc_snoc utf8_len_join_snoc)
  have lt: "length (rev (take k rs)) = k" using k by simp
  consider (more) "k < ml" "?n + (utf8_len ?l + (if k > 0 then 1 else 0)) \<le> mb"
    | (partial) "k < ml" "\<not> ?n + (utf8_len ?l + (if k > 0 then 1 else 0)) \<le> mb" "k = 0"
    | (stop) "k < ml \<longrightarrow> \<not> ?n + (utf8_len ?l + (if k > 0 then 1 else 0)) \<le> mb \<and> k \<noteq> 0"
    by blast
  then show ?case
  proof cases
    case more
    then have "tail_loop rb ml mb (drop (Suc k) rs) (rev (take (Suc k) rs))
        (utf8_len (join [newline] (take (Suc k) rs))) = (out, count, by0, partial)"
      using Suc.prems(1) assms(1) k next_len
      by (simp add: drop_nth_Cons [OF k] take_Suc_snoc utf8ByteLength_eq Let_def lt)
    moreover have "fits ml mb rs (Suc k)" using more next_len by (simp add: fits_def)
    ultimately show ?thesis using Suc.hyps(1) [of "Suc k"] Suc.hyps(2) k by simp
  next
    case partial
    with k obtain r rest where "rs = r # rest" by (cases rs) auto
    with partial Suc.prems(1) assms(1) show ?thesis
      by (auto simp: utf8ByteLength_eq Let_def)
  next
    case stop
    then have "out = rev (take k rs) \<and> \<not> partial"
      using Suc.prems(1) assms(1) lt k
      by (auto simp: drop_nth_Cons [OF k] utf8ByteLength_eq Let_def split: if_splits)
    moreover have "\<not> fits ml mb rs (Suc k)" using stop next_len by (auto simp: fits_def)
    ultimately show ?thesis
      using is_longest_intro [of k rs ml mb] Suc.prems k by blast
  qed
qed

section \<open>The byte budget from the end\<close>

text \<open>Position \<open>i\<close> does not split a surrogate pair.\<close>

definition boundary :: "jstring \<Rightarrow> nat \<Rightarrow> bool" where
  "boundary s i \<longleftrightarrow> \<not> (0 < i \<and> i < length s \<and> is_high (s ! (i - 1)) \<and> is_low (s ! i))"

lemma surrogate_range: "0xd800 \<le> c \<and> c \<le> 0xdfff \<longleftrightarrow> is_high c \<or> is_low c"
  by (auto simp: is_high_def is_low_def word_le_nat_alt)

lemma well_formed_Cons_high:
  "is_high c \<Longrightarrow> \<not> (s \<noteq> [] \<and> is_low (hd s)) \<Longrightarrow> \<not> well_formed_utf16 (c # s)"
  by (cases s) auto

lemma char_before_step:
  assumes "char_before s i = (cs, n, unpaired)" and "0 < i" and "i \<le> length s" and "boundary s i"
  shows "cs < i \<and> boundary s cs \<and> utf8_len (drop cs s) = n + utf8_len (drop i s) \<and>
         (well_formed_utf16 (drop cs s) \<longleftrightarrow> well_formed_utf16 (drop i s) \<and> \<not> unpaired)"
proof -
  let ?c = "s ! (i - 1)"
  have d1: "drop (i - 1) s = ?c # drop i s"
    using assms(2,3) by (metis Suc_diff_1 Suc_le_lessD drop_nth_Cons)
  have hd: "drop i s \<noteq> [] \<Longrightarrow> hd (drop i s) = s ! i"
    by (simp add: hd_drop_conv_nth)
  have bnd: "is_high ?c \<Longrightarrow> \<not> (drop i s \<noteq> [] \<and> is_low (hd (drop i s)))"
    using assms(2-4) hd by (auto simp: boundary_def)
  consider (pair) "is_low ?c" "i - 1 > 0" "is_high (s ! (i - 2))"
    | (low) "is_low ?c" "\<not> (i - 1 > 0 \<and> is_high (s ! (i - 2)))"
    | (high) "is_high ?c" | (plain) "\<not> is_high ?c" "\<not> is_low ?c"
    by argo
  then show ?thesis
  proof cases
    case pair
    then have "Suc (i - 2) = i - 1" and "i - 2 < length s" using assms(3) by simp_all
    then have "drop (i - 2) s = s ! (i - 2) # ?c # drop i s"
      using d1 drop_nth_Cons [of "i - 2" s] by simp
    moreover have "\<not> is_low (s ! (i - 2))" using pair by simp
    ultimately show ?thesis
      using pair assms(1) by (auto simp: char_before_def Let_def utf8_len_Cons2 boundary_def numeral_2_eq_2)
  next
    case low
    then have nh: "\<not> is_high ?c" using low_not_high by blast
    have "cs = i - 1 \<and> n = 3 \<and> unpaired"
      using low assms(1) surrogate_range [of ?c]
      by (auto simp: char_before_def Let_def numeral_2_eq_2 split: if_splits)
    moreover have "boundary s (i - 1)"
      using low by (auto simp: boundary_def numeral_2_eq_2)
    moreover have "\<not> well_formed_utf16 (?c # drop i s)"
      using low(1) nh by (cases "drop i s") auto
    ultimately show ?thesis
      using assms(2) d1 nh low(1) by (simp add: utf8_len_Cons surrogate_unit_len)
  next
    case high
    then have nl: "\<not> is_low ?c" by simp
    have "cs = i - 1 \<and> n = 3 \<and> unpaired"
      using high nl assms(1) surrogate_range [of ?c]
      by (auto simp: char_before_def Let_def split: if_splits)
    moreover have "boundary s (i - 1)" using nl by (simp add: boundary_def)
    moreover have "\<not> well_formed_utf16 (?c # drop i s)"
      using well_formed_Cons_high [OF high] bnd [OF high] by metis
    ultimately show ?thesis
      using assms(2) d1 utf8_len_Cons [of ?c "drop i s"] bnd [OF high] high
      by (simp add: surrogate_unit_len)
  next
    case plain
    have "cs = i - 1 \<and> n = unit_len ?c \<and> \<not> unpaired"
      using plain assms(1) surrogate_range [of ?c]
      by (auto simp: char_before_def Let_def unit_len_def)
    moreover have "boundary s (i - 1)" using plain by (simp add: boundary_def)
    ultimately show ?thesis
      using assms(2) d1 plain by (simp add: utf8_len_Cons well_formed_Cons)
  qed
qed

lemma from_end_loop_spec:
  assumes "from_end_loop s mb i n i needs = (start, needs')"
    and "i \<le> length s" and "boundary s i" and "n = utf8_len (drop i s)" and "n \<le> mb"
    and "needs \<longleftrightarrow> \<not> well_formed_utf16 (drop i s)"
  shows "start \<le> length s \<and> boundary s start \<and> utf8_len (drop start s) \<le> mb \<and>
         (needs' \<longleftrightarrow> \<not> well_formed_utf16 (drop start s)) \<and>
         (0 < start \<longrightarrow> mb < utf8_len (drop (fst (char_before s start)) s))"
  using assms
proof (induction i arbitrary: n needs rule: less_induct)
  case (less i)
  show ?case
  proof (cases "i = 0")
    case True
    with less.prems show ?thesis by (auto simp: from_end_loop.simps)
  next
    case False
    obtain cs k up where cb: "char_before s i = (cs, k, up)" by (metis prod_cases3)
    note step = char_before_step [OF cb _ less.prems(2,3)]
    show ?thesis
    proof (cases "n + k > mb")
      case True
      with less.prems False cb step show ?thesis
        by (auto simp: from_end_loop.simps [of s mb i])
    next
      case more: False
      then have "from_end_loop s mb cs (n + k) cs (needs \<or> up) = (start, needs')"
        using less.prems(1) False cb by (simp add: from_end_loop.simps [of s mb i])
      then show ?thesis
        using less.IH [of cs "n + k" "needs \<or> up"] step less.prems False more by auto
    qed
  qed
qed

lemma truncateStringToBytesFromEnd_spec:
  "\<exists>start \<le> length s. boundary s start \<and>
     truncateStringToBytesFromEnd s mb = replaceUnpairedSurrogates (drop start s) \<and>
     utf8_len (drop start s) \<le> mb \<and>
     (0 < start \<longrightarrow> mb < utf8_len (drop (fst (char_before s start)) s))"
proof (cases "mb = 0")
  case True
  have "mb < utf8_len (drop (fst (char_before s (length s))) s)" if "0 < length s"
  proof -
    obtain cs k up where cb: "char_before s (length s) = (cs, k, up)" by (metis prod_cases3)
    have "0 < k" using cb by (auto simp: char_before_def Let_def split: if_splits)
    with char_before_step [OF cb that] True cb show ?thesis by (simp add: boundary_def)
  qed
  with True show ?thesis
    by (intro exI [of _ "length s"]) (simp add: truncateStringToBytesFromEnd_def boundary_def)
next
  case False
  obtain st nd where l: "from_end_loop s mb (length s) 0 (length s) False = (st, nd)"
    by (cases "from_end_loop s mb (length s) 0 (length s) False") auto
  have "boundary s (length s)" by (simp add: boundary_def)
  with from_end_loop_spec [OF l] have spec: "st \<le> length s" "boundary s st" "utf8_len (drop st s) \<le> mb"
    "nd \<longleftrightarrow> \<not> well_formed_utf16 (drop st s)"
    "0 < st \<longrightarrow> mb < utf8_len (drop (fst (char_before s st)) s)"
    by simp_all
  then have "truncateStringToBytesFromEnd s mb = replaceUnpairedSurrogates (drop st s)"
    using False l replace_well_formed_id [of "drop st s"]
    by (auto simp: truncateStringToBytesFromEnd_def Let_def)
  with spec show ?thesis by blast
qed

text \<open>
  The byte-budget truncation of a single line keeps a suffix within the budget, never
  splits a surrogate pair, returns well-formed UTF-16, and is maximal: the character before the
  kept suffix would not have fitted.
\<close>

theorem truncateStringToBytesFromEnd_maximal:
  "\<exists>start \<le> length s. boundary s start \<and>
     truncateStringToBytesFromEnd s mb = replaceUnpairedSurrogates (drop start s) \<and>
     well_formed_utf16 (truncateStringToBytesFromEnd s mb) \<and>
     utf8_len (truncateStringToBytesFromEnd s mb) \<le> mb \<and>
     (start = 0 \<or> mb < utf8_len (drop (fst (char_before s start)) s))"
  using truncateStringToBytesFromEnd_spec [of s mb] well_formed_replace utf8_len_replace
  by (metis gr0I)

lemma truncateTail_spec:
  fixes content :: jstring and options :: TruncationOptions
  assumes "runtime_ok rb"
  defines "ls \<equiv> tail_lines content"
  defines "r \<equiv> truncateTail rb content options"
  shows "tr_outputBytes r = utf8_len (tr_content r) \<and> tr_outputBytes r \<le> tr_maxBytes r \<and>
         tr_outputLines r \<le> tr_maxLines r \<and> tr_totalLines r = length ls \<and>
         (\<not> tr_truncated r \<longrightarrow> tr_content r = content) \<and>
         (tr_truncated r \<and> \<not> tr_lastLinePartial r \<longrightarrow>
            is_longest (tr_maxLines r) (tr_maxBytes r) (rev ls) (tr_outputLines r) \<and>
            tr_content r = join [newline] (drop (length ls - tr_outputLines r) ls)) \<and>
         (tr_lastLinePartial r \<longrightarrow> tr_maxBytes r < utf8_len (last ls) \<and>
            tr_content r = truncateStringToBytesFromEnd (last ls) (tr_maxBytes r))"
proof -
  let ?ml = "opt_lines options" and ?mb = "opt_bytes options"
  note len = utf8ByteLength_eq [OF assms(1)]
  note unfold = r_def truncateTail_def Let_def len ls_def [symmetric]
  show ?thesis
  proof (cases "length ls \<le> ?ml \<and> utf8_len content \<le> ?mb")
    case True
    then show ?thesis unfolding unfold if_P [OF True] by simp
  next
    case False
    obtain out count by0 partial
      where h: "tail_loop rb ?ml ?mb (rev ls) [] 0 = (out, count, by0, partial)"
      by (metis prod_cases4)
    consider (whole) n where "\<not> partial" "out = rev (take n (rev ls))" "is_longest ?ml ?mb (rev ls) n"
      | (partial) "partial" "ls \<noteq> []" "0 < ?ml" "?mb < utf8_len (last ls)"
          "out = [truncateStringToBytesFromEnd (last ls) ?mb]"
      using tail_loop_longest [OF assms(1), of ?ml ?mb 0 "rev ls"] h
      by (auto simp: fits_def hd_rev)
    then show ?thesis
    proof cases
      case whole
      then have n: "n \<le> length ls" "n \<le> ?ml" "utf8_len (join [newline] (rev (take n (rev ls)))) \<le> ?mb"
        by (simp_all add: is_longest_def fits_def utf8_len_join_rev)
      have out: "out = drop (length ls - n) ls" using whole(2) by (simp add: take_rev)
      with n have "length out = n" by simp
      with n whole out show ?thesis
        unfolding unfold if_not_P [OF False] h by simp
    next
      case partial
      moreover have "utf8_len (truncateStringToBytesFromEnd (last ls) ?mb) \<le> ?mb"
        using truncateStringToBytesFromEnd_spec [of "last ls" ?mb] by (auto simp: utf8_len_replace)
      ultimately show ?thesis unfolding unfold if_not_P [OF False] h by simp
    qed
  qed
qed

text \<open>
  \<open>truncateTail\<close> stays within both limits and reports the length of what it returns; an
  untruncated result is the content itself, a truncated one is the longest run of whole last
  lines that fits, or, when even the last line exceeds the byte limit, its byte-budget suffix.
\<close>

theorem truncateTail_longest_suffix:
  assumes "runtime_ok rb"
  shows "let ls = tail_lines content; r = truncateTail rb content options
         in tr_outputBytes r = utf8_len (tr_content r) \<and> tr_outputBytes r \<le> tr_maxBytes r \<and>
            tr_outputLines r \<le> tr_maxLines r \<and> tr_totalLines r = length ls \<and>
            (\<not> tr_truncated r \<longrightarrow> tr_content r = content) \<and>
            (tr_truncated r \<and> \<not> tr_lastLinePartial r \<longrightarrow>
               is_longest (tr_maxLines r) (tr_maxBytes r) (rev ls) (tr_outputLines r) \<and>
               tr_content r = join [newline] (drop (length ls - tr_outputLines r) ls)) \<and>
            (tr_lastLinePartial r \<longrightarrow> tr_maxBytes r < utf8_len (last ls) \<and>
               tr_content r = truncateStringToBytesFromEnd (last ls) (tr_maxBytes r))"
  unfolding Let_def by (rule truncateTail_spec [OF assms])

lemma truncateTail_longest_suffix_witness:
  "runtime_ok (Some utf8_len) \<and>
   (let r = truncateTail None (js ''aa'' @ newline # js ''bb'' @ [newline])
              \<lparr>opt_maxLines = Some 1, opt_maxBytes = None\<rparr>
    in tr_truncated r \<and> \<not> tr_lastLinePartial r \<and>
       is_longest 1 51200 [js ''bb'', js ''aa''] 1 \<and> tr_content r = js ''bb'')"
proof -
  let ?s = "js ''aa'' @ newline # js ''bb'' @ [newline]"
  let ?o = "\<lparr>opt_maxLines = Some 1, opt_maxBytes = None\<rparr>"
  let ?r = "truncateTail None ?s ?o"
  have ok: "runtime_ok None" "runtime_ok (Some utf8_len)" by (simp_all add: runtime_ok_def)
  have "tr_truncated ?r \<and> \<not> tr_lastLinePartial ?r \<and> tr_maxLines ?r = 1 \<and>
      tr_maxBytes ?r = 51200 \<and> tr_outputLines ?r = 1 \<and> tr_content ?r = js ''bb'' \<and>
      tail_lines ?s = [js ''aa'', js ''bb'']"
    by (simp add: truncateTail_def tail_lines_def js_eval utf8ByteLength_def opt_lines_def
        opt_bytes_def DEFAULT_MAX_BYTES_def Let_def)
  with ok truncateTail_longest_suffix [OF ok(1), of ?s ?o]
  show ?thesis by (simp add: Let_def)
qed

text \<open>
  The hand-written UTF-8 length (the loop that starts at the first non-ASCII code unit)
  equals the number of bytes the reference encoder produces, unpaired surrogates included.
\<close>

theorem utf8ByteLength_is_encoded_length:
  "utf8ByteLength None s = length (utf8_encode s)"
  using utf8ByteLength_eq [of None s] by (simp add: runtime_ok_def utf8_len_def)

end
