(* ===== verification/JsonParse.thy ===== *)
theory JsonParse
  imports Json
begin

text \<open>
  \<open>JSON.parse\<close> of the language, with the ECMAScript order of object properties, and its round trip
  with \<open>JSON.stringify\<close>. Parsers return the value and what is left of the text.
\<close>

section \<open>Objects\<close>

text \<open>
  A property name that is an array index. An object lists those first, in ascending order, then
  the other names in the order they were added; a name that is added again keeps its place.
\<close>

definition is_digit :: "jchar \<Rightarrow> bool" where
  "is_digit c \<longleftrightarrow> 48 \<le> c \<and> c \<le> 57"

definition digits_value :: "jstring \<Rightarrow> nat" where
  "digits_value ds = foldl (\<lambda>a d. 10 * a + (unat d - 48)) 0 ds"

definition is_index :: "jstring \<Rightarrow> bool" where
  "is_index k \<longleftrightarrow> k \<noteq> [] \<and> (\<forall>c \<in> set k. is_digit c) \<and> (hd k = 48 \<longrightarrow> k = [48]) \<and> digits_value k < 2 ^ 32 - 1"

fun put_prop :: "jstring \<Rightarrow> json \<Rightarrow> (jstring \<times> json) list \<Rightarrow> (jstring \<times> json) list" where
  "put_prop k v [] = [(k, v)]"
| "put_prop k v ((k', v') # kvs) =
     (if k = k' then (k, v) # kvs
      else if is_index k \<and> (if is_index k' then digits_value k < digits_value k' else True) then (k, v) # (k', v') # kvs
      else (k', v') # put_prop k v kvs)"

definition make_object :: "(jstring \<times> json) list \<Rightarrow> json" where
  "make_object kvs = JObj (foldl (\<lambda>ps (k, v). put_prop k v ps) [] kvs)"

section \<open>Strings\<close>

definition skip_space :: "jstring \<Rightarrow> jstring" where
  "skip_space s = dropWhile (\<lambda>c. c = 32 \<or> c = 9 \<or> c = 10 \<or> c = 13) s"

text \<open>The rest of the text after white space and a given character.\<close>

definition expect :: "jchar \<Rightarrow> jstring \<Rightarrow> jstring option" where
  "expect c s = (case skip_space s of [] \<Rightarrow> None | d # r \<Rightarrow> if d = c then Some r else None)"

definition hex_value :: "jchar \<Rightarrow> nat option" where
  "hex_value c =
     (if 48 \<le> c \<and> c \<le> 57 then Some (unat c - 48)
      else if 97 \<le> c \<and> c \<le> 102 then Some (unat c - 87)
      else if 65 \<le> c \<and> c \<le> 70 then Some (unat c - 55)
      else None)"

definition hex_code :: "jchar \<Rightarrow> jchar \<Rightarrow> jchar \<Rightarrow> jchar \<Rightarrow> jchar option" where
  "hex_code a b c d =
     (case (hex_value a, hex_value b, hex_value c, hex_value d) of
        (Some w, Some x, Some y, Some z) \<Rightarrow> Some (of_nat (4096 * w + 256 * x + 16 * y + z))
      | _ \<Rightarrow> None)"

definition unescape :: "jchar \<Rightarrow> jchar option" where
  "unescape c =
     (if c = 0x22 \<or> c = 0x5C \<or> c = 0x2F then Some c
      else if c = 98 then Some 8 else if c = 102 then Some 12 else if c = 110 then Some 10
      else if c = 114 then Some 13 else if c = 116 then Some 9 else None)"

text \<open>The text of a string literal after its opening quote.\<close>

fun parse_string :: "jstring \<Rightarrow> (jstring \<times> jstring) option" where
  "parse_string [] = None"
| "parse_string (c # s) =
     (if c = 0x22 then Some ([], s)
      else if c = 0x5C then
        (case s of
           [] \<Rightarrow> None
         | e # t \<Rightarrow>
             if e = 117 then
               (case t of
                  h1 # h2 # h3 # h4 # u \<Rightarrow>
                    (case hex_code h1 h2 h3 h4 of
                       None \<Rightarrow> None
                     | Some x \<Rightarrow> map_option (\<lambda>(str, r). (x # str, r)) (parse_string u))
                | _ \<Rightarrow> None)
             else (case unescape e of
                     None \<Rightarrow> None
                   | Some x \<Rightarrow> map_option (\<lambda>(str, r). (x # str, r)) (parse_string t)))
      else if c < 0x20 then None
      else map_option (\<lambda>(str, r). (c # str, r)) (parse_string s))"

section \<open>Numbers\<close>

fun reduce_decimal :: "int \<Rightarrow> nat \<Rightarrow> decimal" where
  "reduce_decimal m 0 = Dec m 0"
| "reduce_decimal m (Suc k) = (if 10 dvd m then reduce_decimal (m div 10) k else Dec m (Suc k))"

definition make_decimal :: "int \<Rightarrow> int \<Rightarrow> decimal" where
  "make_decimal m scale = (if scale \<le> 0 then Dec (m * 10 ^ nat (- scale)) 0 else reduce_decimal m (nat scale))"

definition take_digits :: "jstring \<Rightarrow> jstring \<times> jstring" where
  "take_digits s = (takeWhile is_digit s, dropWhile is_digit s)"

text \<open>The integer digits: a leading zero stands alone.\<close>

definition parse_integer_part :: "jstring \<Rightarrow> (jstring \<times> jstring) option" where
  "parse_integer_part s =
     (case take_digits s of
        ([], _) \<Rightarrow> None
      | (d # ds, r) \<Rightarrow> if d = 48 then Some ([48], ds @ r) else Some (d # ds, r))"

definition parse_fraction :: "jstring \<Rightarrow> (jstring \<times> jstring) option" where
  "parse_fraction s =
     (case s of
        c # r \<Rightarrow> if c = 46 then (case take_digits r of ([], _) \<Rightarrow> None | (ds, r') \<Rightarrow> Some (ds, r')) else Some ([], s)
      | [] \<Rightarrow> Some ([], s))"

definition parse_exponent :: "jstring \<Rightarrow> (int \<times> jstring) option" where
  "parse_exponent s =
     (case s of
        c # r \<Rightarrow>
          if c = 101 \<or> c = 69 then
            (let (sign, r1) = (case r of x # r' \<Rightarrow> if x = 45 then (- 1, r') else if x = 43 then (1, r') else (1, r)
                              | [] \<Rightarrow> (1, r))
             in case take_digits r1 of ([], _) \<Rightarrow> None | (ds, r2) \<Rightarrow> Some (sign * int (digits_value ds), r2))
          else Some (0, s)
      | [] \<Rightarrow> Some (0, s))"

definition parse_unsigned :: "int \<Rightarrow> jstring \<Rightarrow> (decimal \<times> jstring) option" where
  "parse_unsigned sign s =
     (case parse_integer_part s of None \<Rightarrow> None
      | Some (ds, r1) \<Rightarrow> (case parse_fraction r1 of None \<Rightarrow> None
        | Some (fs, r2) \<Rightarrow> (case parse_exponent r2 of None \<Rightarrow> None
          | Some (ex, r3) \<Rightarrow>
              Some (make_decimal (sign * int (digits_value (ds @ fs))) (int (length fs) - ex), r3))))"

definition parse_number :: "jstring \<Rightarrow> (decimal \<times> jstring) option" where
  "parse_number s =
     (case s of c # r \<Rightarrow> if c = 45 then parse_unsigned (- 1) r else parse_unsigned 1 s | [] \<Rightarrow> None)"

section \<open>Values\<close>

text \<open>The fuel bounds the nesting; twice the length of the text and one more is enough.\<close>

fun parse_value :: "nat \<Rightarrow> jstring \<Rightarrow> (json \<times> jstring) option"
  and parse_elements :: "nat \<Rightarrow> jstring \<Rightarrow> (json list \<times> jstring) option"
  and parse_members :: "nat \<Rightarrow> jstring \<Rightarrow> ((jstring \<times> json) list \<times> jstring) option" where
  "parse_value 0 s = None"
| "parse_value (Suc n) s =
     (case skip_space s of
        [] \<Rightarrow> None
      | c # r \<Rightarrow>
          if c = 0x22 then map_option (\<lambda>(str, t). (JStr str, t)) (parse_string r)
          else if c = 0x5B then
            (case expect 0x5D r of
               Some t \<Rightarrow> Some (JArr [], t)
             | None \<Rightarrow> map_option (\<lambda>(vs, t). (JArr vs, t)) (parse_elements n r))
          else if c = 0x7B then
            (case expect 0x7D r of
               Some t \<Rightarrow> Some (JObj [], t)
             | None \<Rightarrow> map_option (\<lambda>(kvs, t). (make_object kvs, t)) (parse_members n r))
          else if prefix (js ''null'') (c # r) then Some (JNull, drop 4 (c # r))
          else if prefix (js ''true'') (c # r) then Some (JBool True, drop 4 (c # r))
          else if prefix (js ''false'') (c # r) then Some (JBool False, drop 5 (c # r))
          else map_option (\<lambda>(d, t). (JNum d, t)) (parse_number (c # r)))"
| "parse_elements 0 s = None"
| "parse_elements (Suc n) s =
     (case parse_value n s of
        None \<Rightarrow> None
      | Some (v, r) \<Rightarrow>
          (case expect 0x5D r of
             Some t \<Rightarrow> Some ([v], t)
           | None \<Rightarrow>
               (case expect 0x2C r of
                  None \<Rightarrow> None
                | Some t \<Rightarrow> map_option (\<lambda>(vs, u). (v # vs, u)) (parse_elements n t))))"
| "parse_members 0 s = None"
| "parse_members (Suc n) s =
     (case expect 0x22 s of
        None \<Rightarrow> None
      | Some r \<Rightarrow>
          (case parse_string r of
             None \<Rightarrow> None
           | Some (k, r1) \<Rightarrow>
               (case expect 0x3A r1 of
                  None \<Rightarrow> None
                | Some r2 \<Rightarrow>
                    (case parse_value n r2 of
                       None \<Rightarrow> None
                     | Some (v, r3) \<Rightarrow>
                         (case expect 0x7D r3 of
                            Some t \<Rightarrow> Some ([(k, v)], t)
                          | None \<Rightarrow>
                              (case expect 0x2C r3 of
                                 None \<Rightarrow> None
                               | Some t \<Rightarrow> map_option (\<lambda>(kvs, u). ((k, v) # kvs, u)) (parse_members n t)))))))"

text \<open>\<open>JSON.parse(s)\<close>; \<open>None\<close> is the \<open>SyntaxError\<close>.\<close>

definition json_parse :: "jstring \<Rightarrow> json option" where
  "json_parse s =
     (case parse_value (Suc (2 * length s)) s of
        Some (v, r) \<Rightarrow> if skip_space r = [] then Some v else None
      | None \<Rightarrow> None)"

section \<open>Strings survive\<close>

lemma hex_value_digit:
  assumes "d < 16"
  shows "hex_value (if d < 10 then of_nat (48 + d) else of_nat (87 + d)) = Some d"
proof -
  have "unat (of_nat (48 + d) :: jchar) = 48 + d" "unat (of_nat (87 + d) :: jchar) = 87 + d"
    using assms by (simp_all only: unat_of_nat take_bit_nat_eq_self_iff) simp_all
  then show ?thesis
    using assms by (auto simp: hex_value_def word_le_nat_alt simp del: of_nat_add)
qed

lemma hex4_parts:
  obtains h1 h2 h3 h4 where "hex4 c = [h1, h2, h3, h4]" "hex_code h1 h2 h3 h4 = Some c"
proof -
  define d where "d k = unat c div 16 ^ k mod 16" for k
  define h where "h k = (if d k < 10 then of_nat (48 + d k) else of_nat (87 + d k) :: jchar)" for k
  have "hex_value (h k) = Some (d k)" for k
    unfolding h_def by (rule hex_value_digit) (simp add: d_def)
  moreover have "4096 * d 3 + 256 * d 2 + 16 * d 1 + d 0 = unat c"
  proof -
    let ?n = "unat c"
    have "?n < 65536" using unsigned_less [of c] by simp
    then have "d 3 = ?n div 4096" "d 2 = ?n div 256 mod 16" "d 1 = ?n div 16 mod 16" "d 0 = ?n mod 16"
      by (simp_all add: d_def less_mult_imp_div_less)
    moreover have "?n div 16 = ?n div 256 * 16 + ?n div 16 mod 16" "?n div 256 = ?n div 4096 * 16 + ?n div 256 mod 16"
      using div_mult_mod_eq [of "?n div 16" 16] div_mult_mod_eq [of "?n div 256" 16]
      by (simp_all add: div_mult2_eq [symmetric])
    moreover have "?n = ?n div 16 * 16 + ?n mod 16" by simp
    ultimately show ?thesis by linarith
  qed
  moreover have "hex4 c = [h 3, h 2, h 1, h 0]"
    by (simp add: hex4_def h_def d_def Let_def)
  ultimately show thesis using that by (simp add: hex_code_def)
qed

lemma parse_string_hex: "parse_string (0x5C # js ''u'' @ hex4 c @ s) = map_option (\<lambda>(str, r). (c # str, r)) (parse_string s)"
proof -
  obtain h1 h2 h3 h4 where "hex4 c = [h1, h2, h3, h4]" "hex_code h1 h2 h3 h4 = Some c" by (rule hex4_parts)
  then show ?thesis by (simp add: js_def)
qed

lemma parse_string_plain:
  "c \<noteq> 0x22 \<Longrightarrow> c \<noteq> 0x5C \<Longrightarrow> \<not> c < 0x20 \<Longrightarrow>
   parse_string (c # s) = map_option (\<lambda>(str, r). (c # str, r)) (parse_string s)"
  by simp

lemma parse_string_escape: "parse_string (escape_char c @ s) = map_option (\<lambda>(str, r). (c # str, r)) (parse_string s)"
  using parse_string_hex [of c s] by (simp add: escape_char_def js_def unescape_def)

lemma surrogate_plain: "is_high c \<or> is_low c \<Longrightarrow> c \<noteq> 0x22 \<and> c \<noteq> 0x5C \<and> \<not> c < 0x20"
  by (auto simp: is_high_def is_low_def word_le_nat_alt word_less_nat_alt)

lemma parse_escaped: "parse_string (escape_json s @ 0x22 # r) = Some (s, r)"
proof (induction s rule: escape_json.induct)
  case 1
  then show ?case by simp
next
  case (2 c)
  then show ?case
    using parse_string_escape [of c "0x22 # r"] parse_string_hex [of c "0x22 # r"] by auto
next
  case (3 c d cs)
  show ?case
  proof (cases "is_high c \<and> is_low d")
    case True
    have "parse_string (c # d # escape_json cs @ 0x22 # r) = Some (c # d # cs, r)"
      using True surrogate_plain [of c] surrogate_plain [of d] 3(1)
      by (simp add: parse_string_plain del: parse_string.simps)
    with True show ?thesis by simp
  next
    case False
    with 3(2) parse_string_escape [of c "escape_json (d # cs) @ 0x22 # r"]
      parse_string_hex [of c "escape_json (d # cs) @ 0x22 # r"] show ?thesis
      by (auto simp del: parse_string.simps)
  qed
qed

section \<open>Numbers survive\<close>

lemma digits_value_snoc: "digits_value (ds @ [d]) = 10 * digits_value ds + (unat d - 48)"
  by (simp add: digits_value_def)

lemma digit_char: "d < 10 \<Longrightarrow> unat (of_nat (48 + d) :: jchar) = 48 + d"
  by (simp only: unat_of_nat take_bit_nat_eq_self_iff) simp

lemma nat_digits_less: "\<forall>d \<in> set (nat_digits n). d < 10"
  by (induction n rule: nat_digits.induct) (subst nat_digits.simps, auto)

lemma show_nat_digits: "\<forall>c \<in> set (show_nat n). is_digit c"
  using nat_digits_less [of n] digit_char
  by (auto simp: show_nat_def is_digit_def word_le_nat_alt simp del: of_nat_add)

lemma digits_value_show [simp]: "digits_value (show_nat n) = n"
proof (induction n rule: nat_digits.induct)
  case (1 n)
  show ?case
  proof (cases "n < 10")
    case True
    then show ?thesis by (subst show_nat_def, subst nat_digits.simps) (simp add: digits_value_def digit_char del: of_nat_add)
  next
    case False
    have "show_nat n = show_nat (n div 10) @ [of_nat (48 + n mod 10)]"
      using False by (simp add: show_nat_def nat_digits.simps [of n])
    then show ?thesis
      using 1 [OF False] digit_char [of "n mod 10"] by (simp add: digits_value_snoc del: of_nat_add)
  qed
qed

lemma show_nat_hd: "0 < n \<Longrightarrow> hd (show_nat n) \<noteq> 48"
proof (induction n rule: nat_digits.induct)
  case (1 n)
  show ?case
  proof (cases "n < 10")
    case True
    have "unat (of_nat (48 + n) :: jchar) \<noteq> unat (48 :: jchar)"
      using digit_char [OF True] 1(2) by simp
    then have "(of_nat (48 + n) :: jchar) \<noteq> 48" by metis
    with True show ?thesis by (simp add: show_nat_def nat_digits.simps [of n] del: of_nat_add)
  next
    case False
    then show ?thesis using 1 by (simp add: show_nat_def nat_digits.simps [of n] hd_append)
  qed
qed

lemma show_nat_0: "show_nat 0 = [48]"
  by (simp add: show_nat_def nat_digits.simps)

text \<open>Text that does not continue a number.\<close>

definition ends_number :: "jstring \<Rightarrow> bool" where
  "ends_number r \<longleftrightarrow> (case r of [] \<Rightarrow> True | c # _ \<Rightarrow> \<not> is_digit c \<and> c \<noteq> 46 \<and> c \<noteq> 101 \<and> c \<noteq> 69)"

lemma take_digits_append:
  assumes "\<forall>c \<in> set ds. is_digit c" "r = [] \<or> \<not> is_digit (hd r)"
  shows "take_digits (ds @ r) = (ds, r)"
  using assms by (cases r) (auto simp: take_digits_def takeWhile_append2 dropWhile_append2 takeWhile_eq_all_conv)

lemma take_digits_end: "\<forall>c \<in> set ds. is_digit c \<Longrightarrow> ends_number r \<Longrightarrow> take_digits (ds @ r) = (ds, r)"
  by (rule take_digits_append) (auto simp: ends_number_def split: list.splits)

definition fraction_text :: "jstring \<Rightarrow> jstring" where
  "fraction_text fs = (if fs = [] then [] else 46 # fs)"

definition exponent_text :: "nat \<Rightarrow> jstring" where
  "exponent_text n = (if n = 0 then [] else js ''e-'' @ show_nat n)"

lemma not_digit: "\<not> is_digit 46" "\<not> is_digit 101" "\<not> is_digit 45" "\<not> is_digit 0x22" "\<not> is_digit 0x5B" "\<not> is_digit 0x7B"
  by (simp_all add: is_digit_def)

lemma parse_exponent_text: 
  assumes "ends_number r" shows "parse_exponent (exponent_text n @ r) = Some (- int n, r)"
proof (cases "n = 0")
  case True
  with assms show ?thesis by (auto simp: parse_exponent_def exponent_text_def ends_number_def split: list.splits)
next
  case False
  obtain d ds where d: "show_nat n = d # ds" by (cases "show_nat n") auto
  then have "digits_value (d # ds) = n" by (metis digits_value_show)
  with False d take_digits_end [OF show_nat_digits assms, of n] show ?thesis
    by (simp add: parse_exponent_def exponent_text_def js_def)
qed

lemma exponent_text_hd: "ends_number r \<Longrightarrow> exponent_text n @ r = [] \<or> \<not> is_digit (hd (exponent_text n @ r)) \<and> hd (exponent_text n @ r) \<noteq> 46"
  by (auto simp: exponent_text_def js_def ends_number_def not_digit split: list.splits)

lemma parse_fraction_text:
  assumes "\<forall>c \<in> set fs. is_digit c" "t = [] \<or> \<not> is_digit (hd t) \<and> hd t \<noteq> 46"
  shows "parse_fraction (fraction_text fs @ t) = Some (fs, t)"
proof (cases fs)
  case Nil
  then show ?thesis using assms(2) by (cases t) (auto simp: parse_fraction_def fraction_text_def)
next
  case (Cons f fs')
  then show ?thesis
    using take_digits_append [OF assms(1), of t] assms(2) by (auto simp: parse_fraction_def fraction_text_def)
qed

lemma parse_unsigned_text:
  assumes "\<forall>c \<in> set ds. is_digit c" "ds \<noteq> []" "hd ds = 48 \<longrightarrow> ds = [48]" "\<forall>c \<in> set fs. is_digit c" "ends_number r"
  shows "parse_unsigned sg (ds @ fraction_text fs @ exponent_text n @ r) =
    Some (make_decimal (sg * int (digits_value (ds @ fs))) (int (length fs + n)), r)"
proof -
  let ?t = "fraction_text fs @ exponent_text n @ r"
  have "?t = [] \<or> \<not> is_digit (hd ?t)"
    using exponent_text_hd [OF assms(5), of n] by (auto simp: fraction_text_def not_digit)
  from take_digits_append [OF assms(1) this] assms(2,3)
  have "parse_integer_part (ds @ ?t) = Some (ds, ?t)"
    by (cases ds) (auto simp: parse_integer_part_def)
  then show ?thesis
    using parse_fraction_text [OF assms(4) exponent_text_hd [OF assms(5)], of n] parse_exponent_text [OF assms(5), of n]
    by (simp add: parse_unsigned_def)
qed

lemma reduce_canonical: "k = 0 \<or> \<not> 10 dvd m \<Longrightarrow> reduce_decimal m k = Dec m k"
  by (cases k) auto

lemma make_canonical: "k = 0 \<or> \<not> 10 dvd m \<Longrightarrow> make_decimal m (int k) = Dec m k"
  using reduce_canonical by (auto simp: make_decimal_def)

text \<open>What \<open>String\<close> prints of a number, in the parts the parser reads.\<close>

lemma show_decimal_parts:
  assumes "k = 0 \<or> \<not> 10 dvd m"
  obtains ds fs n where
    "show_decimal (Dec m k) = (if m < 0 then js ''-'' else []) @ ds @ fraction_text fs @ exponent_text n"
    "\<forall>c \<in> set ds. is_digit c" "ds \<noteq> []" "hd ds = 48 \<longrightarrow> ds = [48]" "\<forall>c \<in> set fs. is_digit c"
    "digits_value (ds @ fs) = nat \<bar>m\<bar>" "length fs + n = k"
proof -
  define D where "D = show_nat (nat \<bar>m\<bar>)"
  let ?n = "length D"
  have dig: "\<forall>c \<in> set D. is_digit c" "D \<noteq> []" "digits_value D = nat \<bar>m\<bar>"
    by (simp_all add: D_def show_nat_digits)
  have lead: "hd D \<noteq> 48" if "k \<noteq> 0"
    using assms that show_nat_hd [of "nat \<bar>m\<bar>"] unfolding D_def by (cases "m = 0") auto
  note show_k = show_decimal.simps [of m k, unfolded D_def [symmetric] Let_def]
  consider "k = 0" | "k \<noteq> 0" "k < ?n" | "k \<noteq> 0" "?n \<le> k" "k < ?n + 6" | "k \<noteq> 0" "?n + 6 \<le> k" by linarith
  then show thesis
  proof cases
    case 1
    have "hd D = 48 \<longrightarrow> D = [48]"
      unfolding D_def using show_nat_hd [of "nat \<bar>m\<bar>"] show_nat_0 by (cases "m = 0") auto
    moreover have "show_decimal (Dec m k) = (if m < 0 then js ''-'' else []) @ D @ fraction_text [] @ exponent_text 0"
      using 1 unfolding show_k by (simp add: D_def show_int_def fraction_text_def exponent_text_def)
    ultimately show thesis
      using 1 dig by (intro that [of D "[]" 0]) simp_all
  next
    case 2
    have "take (?n - k) D \<noteq> []" "hd (take (?n - k) D) = hd D" using 2 dig(2) by (simp_all add: hd_take)
    moreover have "drop (?n - k) D \<noteq> []" using 2 by simp
    then have "show_decimal (Dec m k) =
        (if m < 0 then js ''-'' else []) @ take (?n - k) D @ fraction_text (drop (?n - k) D) @ exponent_text 0"
      using 2 unfolding show_k by (simp add: fraction_text_def exponent_text_def js_def)
    moreover have "\<forall>c \<in> set (take (?n - k) D). is_digit c" "\<forall>c \<in> set (drop (?n - k) D). is_digit c"
      using dig(1) by (auto dest: in_set_takeD in_set_dropD)
    ultimately show thesis
      using 2 dig(3) lead by (intro that [of "take (?n - k) D" "drop (?n - k) D" 0]) simp_all
  next
    case 3
    have z: "digits_value (replicate z 48 @ ds) = digits_value ds" for z ds
      by (induction z) (simp_all add: digits_value_def)
    have "show_decimal (Dec m k) =
        (if m < 0 then js ''-'' else []) @ [48] @ fraction_text (replicate (k - ?n) 48 @ D) @ exponent_text 0"
      using 3 dig(2) unfolding show_k by (simp add: fraction_text_def exponent_text_def js_def)
    moreover have "digits_value ([48] @ replicate (k - ?n) 48 @ D) = nat \<bar>m\<bar>"
      using z [of "Suc (k - ?n)" D] dig(3) by simp
    ultimately show thesis
      using 3 dig by (intro that [of "[48]" "replicate (k - ?n) 48 @ D" 0]) (auto simp: is_digit_def)
  next
    case 4
    note ne = dig(2)
    have "show_decimal (Dec m k) =
        (if m < 0 then js ''-'' else []) @ [hd D] @ fraction_text (tl D) @ exponent_text (k + 1 - ?n)"
      using 4 unfolding show_k
      by (simp add: fraction_text_def exponent_text_def js_def) (cases D; simp)
    moreover have "\<forall>c \<in> set [hd D]. is_digit c" "\<forall>c \<in> set (tl D). is_digit c"
      using dig hd_in_set [OF ne] by (auto dest: list.set_sel(2) [OF ne])
    moreover have "digits_value ([hd D] @ tl D) = nat \<bar>m\<bar>" using ne dig(3) by simp
    moreover have "length (tl D) + (k + 1 - ?n) = k" using 4 ne by (cases D) auto
    ultimately show thesis
      using lead [OF 4(1)] by (intro that [of "[hd D]" "tl D" "k + 1 - ?n"]) simp_all
  qed
qed

lemma parse_show_decimal:
  assumes "k = 0 \<or> \<not> 10 dvd m" "ends_number r"
  shows "parse_number (show_decimal (Dec m k) @ r) = Some (Dec m k, r)"
proof -
  obtain ds fs n where s: "show_decimal (Dec m k) = (if m < 0 then js ''-'' else []) @ ds @ fraction_text fs @ exponent_text n"
    and p: "\<forall>c \<in> set ds. is_digit c" "ds \<noteq> []" "hd ds = 48 \<longrightarrow> ds = [48]" "\<forall>c \<in> set fs. is_digit c"
    and v: "digits_value (ds @ fs) = nat \<bar>m\<bar>" "length fs + n = k"
    by (rule show_decimal_parts [OF assms(1)])
  define sg :: int where "sg = (if m < 0 then - 1 else 1)"
  have "parse_number (show_decimal (Dec m k) @ r) = parse_unsigned sg (ds @ fraction_text fs @ exponent_text n @ r)"
    using p(1,2) not_digit(3) unfolding s by (cases ds) (auto simp: parse_number_def sg_def js_def)
  also have "\<dots> = Some (make_decimal m (int k), r)"
    using parse_unsigned_text [OF p assms(2), of sg n] v by (simp add: sg_def)
  finally show ?thesis using make_canonical [OF assms(1)] by simp
qed
section \<open>Values survive\<close>

text \<open>
  The values an engine holds: numbers in lowest terms, and objects whose names are distinct and in
  enumeration order.
\<close>

fun canonical :: "json \<Rightarrow> bool" where
  "canonical (JNum (Dec m k)) = (k = 0 \<or> \<not> 10 dvd m)"
| "canonical (JArr vs) = (\<forall>v \<in> set vs. canonical v)"
| "canonical (JObj kvs) = (make_object kvs = JObj kvs \<and> (\<forall>p \<in> set kvs. canonical (snd p)))"
| "canonical _ = True"

definition is_space :: "jchar \<Rightarrow> bool" where
  "is_space c \<longleftrightarrow> c = 32 \<or> c = 9 \<or> c = 10 \<or> c = 13"

lemma skip_space_id [simp]: "\<not> is_space c \<Longrightarrow> skip_space (c # s) = c # s"
  by (simp add: skip_space_def is_space_def)

lemma expect_Cons [simp]: "\<not> is_space d \<Longrightarrow> expect c (d # s) = (if d = c then Some s else None)"
  by (simp add: expect_def)

lemma not_space [simp]:
  "\<not> is_space 0x22" "\<not> is_space 0x5B" "\<not> is_space 0x5D" "\<not> is_space 0x7B" "\<not> is_space 0x7D"
  "\<not> is_space 0x2C" "\<not> is_space 0x3A" "\<not> is_space 45"
  by (simp_all add: is_space_def)

lemma digit_not_space [simp]: "is_digit c \<Longrightarrow> \<not> is_space c"
  by (auto simp: is_digit_def is_space_def)

text \<open>The first character of a number.\<close>

lemma show_decimal_hd:
  assumes "k = 0 \<or> \<not> 10 dvd m"
  obtains c t where "show_decimal (Dec m k) = c # t" "c = 45 \<or> is_digit c"
proof -
  obtain ds fs n where s: "show_decimal (Dec m k) = (if m < 0 then js ''-'' else []) @ ds @ fraction_text fs @ exponent_text n"
    and p: "\<forall>c \<in> set ds. is_digit c" "ds \<noteq> []"
    by (rule show_decimal_parts [OF assms])
  then show thesis by (cases ds; cases "m < 0"; intro that) (auto simp: js_def)
qed

text \<open>The first character of a value is none that would end a list or be skipped.\<close>

lemma stringify_hd:
  assumes "canonical v"
  obtains c t where "stringify v = c # t" "\<not> is_space c" "c \<noteq> 0x5D"
proof (cases v)
  case (JNum d)
  obtain m k where d: "d = Dec m k" by (cases d)
  with JNum assms have k: "k = 0 \<or> \<not> 10 dvd m" by simp
  obtain c t where "show_decimal (Dec m k) = c # t" "c = 45 \<or> is_digit c"
    by (rule show_decimal_hd [OF k])
  with JNum d show thesis by (intro that [of c t]) (auto simp: is_digit_def is_space_def)
next
  case (JBool b)
  then show thesis by (cases b; intro that) (auto simp: js_def is_space_def)
qed (auto simp: js_def quote_json_def is_space_def intro: that)

lemma parse_number_value:
  assumes "canonical (JNum d)" "ends_number r"
  shows "parse_value (Suc n) (stringify (JNum d) @ r) = Some (JNum d, r)"
proof (cases d)
  case (Dec m k)
  with assms(1) have k: "k = 0 \<or> \<not> 10 dvd m" by simp
  obtain c t where c: "show_decimal (Dec m k) = c # t" "c = 45 \<or> is_digit c"
    by (rule show_decimal_hd [OF k])
  then have "c \<noteq> 0x22 \<and> c \<noteq> 0x5B \<and> c \<noteq> 0x7B \<and> c \<noteq> 110 \<and> c \<noteq> 116 \<and> c \<noteq> 102 \<and> \<not> is_space c"
    by (auto simp: is_digit_def is_space_def)
  with parse_show_decimal [OF k assms(2)] c(1) Dec show ?thesis
    by (simp add: js_def)
qed

lemma parse_elements_text:
  assumes "\<And>v n r. v \<in> set vs \<Longrightarrow> 2 * length (stringify v) < n \<Longrightarrow> ends_number r \<Longrightarrow>
      parse_value n (stringify v @ r) = Some (v, r)"
    and "vs \<noteq> []" "2 * length (join (js '','') (map stringify vs)) + 1 < n"
  shows "parse_elements n (join (js '','') (map stringify vs) @ 0x5D # r) = Some (vs, r)"
  using assms
proof (induction vs arbitrary: n)
  case (Cons v vs)
  obtain k where n: "n = Suc k" using Cons.prems(3) by (cases n) auto
  show ?case
  proof (cases "vs = []")
    case True
    with Cons.prems(1) [of v k "0x5D # r"] Cons.prems(3) n show ?thesis
      by (simp add: ends_number_def is_digit_def)
  next
    case False
    let ?rest = "join (js '','') (map stringify vs)"
    have j: "join (js '','') (map stringify (v # vs)) = stringify v @ 0x2C # ?rest"
      using False by (simp add: join_Cons js_def)
    have "parse_value k (stringify v @ 0x2C # ?rest @ 0x5D # r) = Some (v, 0x2C # ?rest @ 0x5D # r)"
      using Cons.prems(1) [of v k] Cons.prems(3) n j by (simp add: ends_number_def is_digit_def)
    moreover have "parse_elements k (?rest @ 0x5D # r) = Some (vs, r)"
      using Cons.IH [of k] Cons.prems(1,3) False n j by simp
    ultimately show ?thesis using n j by simp
  qed
qed simp

lemma parse_members_text:
  assumes "\<And>p n r. p \<in> set kvs \<Longrightarrow> 2 * length (stringify (snd p)) < n \<Longrightarrow> ends_number r \<Longrightarrow>
      parse_value n (stringify (snd p) @ r) = Some (snd p, r)"
    and "kvs \<noteq> []" "2 * length (join (js '','') (map (\<lambda>(k, v). quote_json k @ js '':'' @ stringify v) kvs)) + 1 < n"
  shows "parse_members n (join (js '','') (map (\<lambda>(k, v). quote_json k @ js '':'' @ stringify v) kvs) @ 0x7D # r) =
    Some (kvs, r)"
  using assms
proof (induction kvs arbitrary: n)
  case (Cons p kvs)
  let ?text = "\<lambda>(k, v). quote_json k @ js '':'' @ stringify v"
  obtain k v where p: "p = (k, v)" by (cases p)
  obtain i where n: "n = Suc i" using Cons.prems(3) by (cases n) auto
  show ?case
  proof (cases "kvs = []")
    case True
    with Cons.prems(1) [of p i "0x7D # r"] Cons.prems(3) n p show ?thesis
      by (simp add: ends_number_def is_digit_def quote_json_def parse_escaped js_def del: parse_string.simps)
  next
    case False
    let ?rest = "join (js '','') (map ?text kvs)"
    have j: "join (js '','') (map ?text (p # kvs)) = 0x22 # escape_json k @ 0x22 # 0x3A # stringify v @ 0x2C # ?rest"
      using False p by (simp add: join_Cons js_def quote_json_def)
    have "parse_value i (stringify v @ 0x2C # ?rest @ 0x7D # r) = Some (v, 0x2C # ?rest @ 0x7D # r)"
      using Cons.prems(1) [of p i] Cons.prems(3) n p j by (simp add: ends_number_def is_digit_def)
    moreover have "parse_members i (?rest @ 0x7D # r) = Some (kvs, r)"
      using Cons.IH [of i] Cons.prems(1,3) False n j by simp
    ultimately show ?thesis using n j p by (simp add: parse_escaped del: parse_string.simps)
  qed
qed simp

lemma parse_stringify:
  "canonical v \<Longrightarrow> 2 * length (stringify v) < n \<Longrightarrow> ends_number r \<Longrightarrow> parse_value n (stringify v @ r) = Some (v, r)"
proof (induction v arbitrary: n r)
  case JNull
  then show ?case by (cases n) (auto simp: js_def is_space_def)
next
  case (JBool b)
  then show ?case by (cases n) (auto simp: js_def is_space_def)
next
  case (JNum d)
  then show ?case using parse_number_value [of d r] by (cases n) auto
next
  case (JStr s)
  then show ?case by (cases n) (auto simp: quote_json_def parse_escaped simp del: parse_string.simps)
next
  case (JArr vs)
  obtain i where n: "n = Suc i" using JArr.prems(2) by (cases n) auto
  show ?case
  proof (cases "vs = []")
    case True
    with n show ?thesis by (simp add: js_def)
  next
    case False
    then obtain v vs' where vs: "vs = v # vs'" by (cases vs) auto
    with JArr.prems(1) have "canonical v" by simp
    then obtain c t where c: "stringify v = c # t" "\<not> is_space c" "c \<noteq> 0x5D" by (rule stringify_hd)
    let ?text = "join (js '','') (map stringify vs)"
    obtain t' where t': "?text = c # t'" using c(1) vs by (cases vs') auto
    have ih: "parse_value n (stringify v @ r) = Some (v, r)"
      if "v \<in> set vs" "2 * length (stringify v) < n" "ends_number r" for v n r
      using JArr.IH [OF that(1) _ that(2,3)] JArr.prems(1) that(1) by simp
    have "2 * length ?text + 1 < i" using JArr.prems(2) n by (simp add: js_def)
    from parse_elements_text [OF ih False this, of r]
    have "parse_elements i (?text @ 0x5D # r) = Some (vs, r)" by blast
    moreover have "stringify (JArr vs) @ r = 0x5B # ?text @ 0x5D # r" by (simp add: js_def)
    ultimately show ?thesis using n c(2,3) t' by (simp del: stringify.simps)
  qed
next
  case (JObj kvs)
  let ?text = "join (js '','') (map (\<lambda>(k, v). quote_json k @ js '':'' @ stringify v) kvs)"
  obtain i where n: "n = Suc i" using JObj.prems(2) by (cases n) auto
  show ?case
  proof (cases "kvs = []")
    case True
    with n show ?thesis by (simp add: js_def)
  next
    case False
    then obtain k v kvs' where kvs: "kvs = (k, v) # kvs'" by (cases kvs) auto
    then obtain t' where t': "?text = 0x22 # t'" by (cases kvs') (auto simp: quote_json_def)
    have ih: "parse_value n (stringify (snd p) @ r) = Some (snd p, r)"
      if "p \<in> set kvs" "2 * length (stringify (snd p)) < n" "ends_number r" for p n r
      using JObj.IH [OF that(1) _ _ that(2,3)] JObj.prems(1) that(1) by (cases p) force
    have "2 * length ?text + 1 < i" using JObj.prems(2) n by (simp add: js_def)
    from parse_members_text [OF ih False this, of r]
    have "parse_members i (?text @ 0x7D # r) = Some (kvs, r)" by blast
    moreover have "stringify (JObj kvs) @ r = 0x7B # ?text @ 0x7D # r" by (simp add: js_def)
    moreover have "make_object kvs = JObj kvs" using JObj.prems(1) by simp
    ultimately show ?thesis using n t' by (simp del: stringify.simps)
  qed
qed

theorem json_parse_stringify: "canonical v \<Longrightarrow> json_parse (stringify v) = Some v"
  using parse_stringify [of v "Suc (2 * length (stringify v))" "[]"]
  by (simp add: json_parse_def ends_number_def skip_space_def)
end
