(* ===== verification/SessionJson.thy ===== *)
theory SessionJson
  imports JsonParse SessionTree "HOL-Library.Monad_Syntax"
begin

text \<open>
  Session entries and messages as JSON objects: what \<open>JSON.stringify\<close> writes of them and what a
  parsed object is as a value of the types of \<open>packages/agent/src/harness/types.ts\<close>,
  \<open>messages.ts\<close> and \<open>packages/ai/src/types.ts\<close>. The code casts a parsed object without a check;
  an object that is not of the type has no reading here.
\<close>

section \<open>Object literals\<close>

text \<open>\<open>JSON.stringify\<close> leaves out properties that are \<open>undefined\<close>.\<close>

definition props :: "(string \<times> json option) list \<Rightarrow> (jstring \<times> json) list" where
  "props fs = List.map_filter (\<lambda>(k, v). map_option (Pair (js k)) v) fs"

definition obj :: "(string \<times> json option) list \<Rightarrow> json" where
  "obj fs = JObj (props fs)"

lemma js_inject [simp]: "js s = js t \<longleftrightarrow> s = t"
proof -
  have "inj (of_char :: char \<Rightarrow> jchar)"
  proof (rule injI)
    fix c d :: char
    assume "(of_char c :: jchar) = of_char d"
    then have "unat (of_char c :: jchar) = unat (of_char d :: jchar)" by simp
    moreover have "unat (of_char x :: jchar) = of_char x" for x :: char
    proof -
      have "(of_char x :: nat) < 256" using of_char_mod_256 [of x, where 'a = nat] by (metis mod_less_divisor zero_less_numeral)
      then have "(of_char x :: nat) mod 65536 = of_char x" by (intro mod_less) linarith
      then have "unat (of_nat (of_char x) :: jchar) = of_char x"
        by (simp add: unat_of_nat take_bit_eq_mod del: of_nat_of_char)
      then show ?thesis by (simp only: of_nat_of_char)
    qed
    ultimately show "c = d" by simp
  qed
  then show ?thesis by (simp add: js_def inj_map_eq_map)
qed

lemma props_simps:
  "props [] = []" "props ((k, None) # fs) = props fs" "props ((k, Some v) # fs) = (js k, v) # props fs"
  by (simp_all add: props_def List.map_filter_simps)

lemma get_prop_props:
  "distinct (map fst fs) \<Longrightarrow> get_prop (js k) (props fs) = (case map_of fs k of None \<Rightarrow> None | Some v \<Rightarrow> v)"
proof (induction fs)
  case (Cons f fs)
  have "get_prop (js k) (props fs) = None" if "k \<notin> fst ` set fs"
    using Cons that by (simp add: map_of_eq_None_iff [THEN iffD2])
  with Cons show ?case by (cases f; cases "snd f") (auto simp: get_prop_def props_simps)
qed (simp add: get_prop_def props_simps)

text \<open>An object literal whose names are distinct and no array indices is as the engine has it.\<close>

definition plain_name :: "string \<Rightarrow> bool" where
  "plain_name k \<longleftrightarrow> k \<noteq> [] \<and> \<not> is_digit (of_char (hd k))"

lemma plain_not_index: "plain_name k \<Longrightarrow> \<not> is_index (js k)"
  by (cases k) (auto simp: plain_name_def is_index_def js_def)

lemma put_prop_new: "k \<notin> fst ` set kvs \<Longrightarrow> \<not> is_index k \<Longrightarrow> put_prop k v kvs = kvs @ [(k, v)]"
  by (induction k v kvs rule: put_prop.induct) auto

lemma make_object_plain:
  "distinct (map fst kvs) \<Longrightarrow> \<forall>k \<in> fst ` set kvs. \<not> is_index k \<Longrightarrow> make_object kvs = JObj kvs"
proof -
  have "foldl (\<lambda>ps (k, v). put_prop k v ps) acc kvs = acc @ kvs"
    if "distinct (map fst kvs)" "\<forall>k \<in> fst ` set kvs. \<not> is_index k" "fst ` set acc \<inter> fst ` set kvs = {}" for acc
    using that
  proof (induction kvs arbitrary: acc)
    case (Cons p kvs)
    obtain k v where p: "p = (k, v)" by (cases p)
    have "put_prop k v acc = acc @ [(k, v)]"
      using Cons.prems p by (intro put_prop_new) auto
    moreover have "foldl (\<lambda>ps (k, v). put_prop k v ps) (acc @ [(k, v)]) kvs = (acc @ [(k, v)]) @ kvs"
      using Cons.prems p by (intro Cons.IH) auto
    ultimately show ?case using p by simp
  qed simp
  from this [of "[]"] show "distinct (map fst kvs) \<Longrightarrow> \<forall>k \<in> fst ` set kvs. \<not> is_index k \<Longrightarrow> make_object kvs = JObj kvs"
    by (simp add: make_object_def)
qed

lemma canonical_obj:
  assumes "distinct (map fst fs)" "\<forall>k \<in> fst ` set fs. plain_name k"
  shows "canonical (obj fs) \<longleftrightarrow> (\<forall>f \<in> set fs. case snd f of None \<Rightarrow> True | Some v \<Rightarrow> canonical v)"
proof -
  have sub: "fst ` set (props fs) \<subseteq> js ` fst ` set fs" for fs
  proof (induction fs)
    case (Cons f fs)
    then show ?case by (cases f; cases "snd f") (auto simp: props_simps)
  qed (simp add: props_simps)
  have "distinct (map fst (props fs))"
    using assms(1)
  proof (induction fs)
    case (Cons f fs)
    obtain k v where f: "f = (k, v)" by (cases f)
    have "js k \<notin> fst ` set (props fs)"
    proof
      assume "js k \<in> fst ` set (props fs)"
      then obtain k' where "js k = js k'" "k' \<in> fst ` set fs" using sub by blast
      with Cons.prems f show False by simp
    qed
    with Cons f show ?case by (cases v) (simp_all add: props_simps)
  qed (simp add: props_simps)
  moreover have "\<forall>k \<in> fst ` set (props fs). \<not> is_index k"
  proof
    fix k
    assume "k \<in> fst ` set (props fs)"
    then obtain k' where "k = js k'" "k' \<in> fst ` set fs" using sub by blast
    with bspec [OF assms(2)] plain_not_index show "\<not> is_index k" by blast
  qed
  ultimately have "make_object (props fs) = JObj (props fs)" by (rule make_object_plain)
  moreover have "(\<forall>p \<in> set (props fs). canonical (snd p)) \<longleftrightarrow>
      (\<forall>f \<in> set fs. case snd f of None \<Rightarrow> True | Some v \<Rightarrow> canonical v)"
  proof (induction fs)
    case (Cons f fs)
    then show ?case by (cases f; cases "snd f") (simp_all add: props_simps)
  qed (simp add: props_simps)
  ultimately show ?thesis by (simp add: obj_def)
qed

section \<open>Reading values\<close>

definition jint :: "int \<Rightarrow> json" where
  "jint i = JNum (Dec i 0)"

definition jnat :: "nat \<Rightarrow> json" where
  "jnat n = jint (int n)"

fun as_str :: "json \<Rightarrow> jstring option" where
  "as_str (JStr s) = Some s" | "as_str _ = None"

fun as_bool :: "json \<Rightarrow> bool option" where
  "as_bool (JBool b) = Some b" | "as_bool _ = None"

fun as_num :: "json \<Rightarrow> decimal option" where
  "as_num (JNum d) = Some d" | "as_num _ = None"

fun as_int :: "json \<Rightarrow> int option" where
  "as_int (JNum (Dec i 0)) = Some i" | "as_int _ = None"

definition as_nat :: "json \<Rightarrow> nat option" where
  "as_nat j = (case as_int j of Some i \<Rightarrow> if 0 \<le> i then Some (nat i) else None | None \<Rightarrow> None)"

fun as_list :: "(json \<Rightarrow> 'a option) \<Rightarrow> json \<Rightarrow> 'a list option" where
  "as_list f (JArr vs) = those (map f vs)" | "as_list f _ = None"

fun as_obj :: "json \<Rightarrow> (jstring \<times> json) list option" where
  "as_obj (JObj kvs) = Some kvs" | "as_obj _ = None"

text \<open>\<open>string | null\<close>\<close>

fun jnullable :: "jstring option \<Rightarrow> json" where
  "jnullable None = JNull" | "jnullable (Some s) = JStr s"

fun as_nullable :: "json \<Rightarrow> jstring option option" where
  "as_nullable JNull = Some None" | "as_nullable (JStr s) = Some (Some s)" | "as_nullable _ = None"

text \<open>A required and an optional property.\<close>

definition req :: "(json \<Rightarrow> 'a option) \<Rightarrow> string \<Rightarrow> (jstring \<times> json) list \<Rightarrow> 'a option" where
  "req f k kvs = Option.bind (get_prop (js k) kvs) f"

definition opt :: "(json \<Rightarrow> 'a option) \<Rightarrow> string \<Rightarrow> (jstring \<times> json) list \<Rightarrow> 'a option option" where
  "opt f k kvs = (case get_prop (js k) kvs of None \<Rightarrow> Some None | Some v \<Rightarrow> map_option Some (f v))"

lemma read_int [simp]: "as_int (jint i) = Some i" "as_nat (jnat n) = Some n"
  by (simp_all add: jint_def jnat_def as_nat_def)

lemma read_nullable [simp]: "as_nullable (jnullable x) = Some x"
  by (cases x) simp_all

lemma those_map: "(\<And>x. x \<in> set xs \<Longrightarrow> f (g x) = Some x) \<Longrightarrow> those (map (\<lambda>x. f (g x)) xs) = Some xs"
  by (induction xs) auto

lemma read_list: "(\<And>x. x \<in> set xs \<Longrightarrow> f (g x) = Some x) \<Longrightarrow> as_list f (JArr (map g xs)) = Some xs"
  using those_map [of xs f g] by (simp add: o_def)

lemma canonical_int [simp]: "canonical (jint i)" "canonical (jnat n)"
  by (simp_all add: jint_def jnat_def)

lemma canonical_nullable [simp]: "canonical (jnullable x)"
  by (cases x) simp_all

named_theorems codec \<open>equations of the codec of session entries\<close>

lemma opt_read [codec]:
  "(\<And>y. f (g y) = Some y) \<Longrightarrow> case_option (Some None) ((\<lambda>v. map_option Some (f v)) \<circ> g) x = Some x"
  by (cases x) simp_all

lemmas [codec] = obj_def get_prop_props req_def opt_def

section \<open>Messages\<close>

fun user_block_json :: "user_block \<Rightarrow> json" where
  "user_block_json (TextBlock t sig) =
     obj [(''type'', Some (JStr (js ''text''))), (''text'', Some (JStr t)), (''textSignature'', map_option JStr sig)]"
| "user_block_json (ImageBlock d m) =
     obj [(''type'', Some (JStr (js ''image''))), (''data'', Some (JStr d)), (''mimeType'', Some (JStr m))]"

definition json_user_block :: "json \<Rightarrow> user_block option" where
  "json_user_block j = do {
     kvs \<leftarrow> as_obj j; ty \<leftarrow> req as_str ''type'' kvs;
     if ty = js ''text'' then do { t \<leftarrow> req as_str ''text'' kvs; sig \<leftarrow> opt as_str ''textSignature'' kvs; Some (TextBlock t sig) }
     else if ty = js ''image'' then do { d \<leftarrow> req as_str ''data'' kvs; m \<leftarrow> req as_str ''mimeType'' kvs; Some (ImageBlock d m) }
     else None }"

fun user_content_json :: "user_content \<Rightarrow> json" where
  "user_content_json (CString t) = JStr t"
| "user_content_json (CBlocks bs) = JArr (map user_block_json bs)"

fun json_user_content :: "json \<Rightarrow> user_content option" where
  "json_user_content (JStr t) = Some (CString t)"
| "json_user_content (JArr vs) = map_option CBlocks (those (map json_user_block vs))"
| "json_user_content _ = None"

definition tool_call_fields :: "ToolCall \<Rightarrow> (string \<times> json option) list" where
  "tool_call_fields tc =
     [(''type'', Some (JStr (js ''toolCall''))), (''id'', Some (JStr (tc_id tc))), (''name'', Some (JStr (tc_name tc))),
      (''arguments'', Some (JObj (tc_arguments tc))), (''thoughtSignature'', map_option JStr (tc_thoughtSignature tc))]"

fun assistant_block_json :: "assistant_block \<Rightarrow> json" where
  "assistant_block_json (AText t sig) =
     obj [(''type'', Some (JStr (js ''text''))), (''text'', Some (JStr t)), (''textSignature'', map_option JStr sig)]"
| "assistant_block_json (AThinking t sig redacted) =
     obj [(''type'', Some (JStr (js ''thinking''))), (''thinking'', Some (JStr t)),
          (''thinkingSignature'', map_option JStr sig), (''redacted'', map_option JBool redacted)]"
| "assistant_block_json (AToolCall tc) = obj (tool_call_fields tc)"

definition json_assistant_block :: "json \<Rightarrow> assistant_block option" where
  "json_assistant_block j = do {
     kvs \<leftarrow> as_obj j; ty \<leftarrow> req as_str ''type'' kvs;
     if ty = js ''text'' then do { t \<leftarrow> req as_str ''text'' kvs; sig \<leftarrow> opt as_str ''textSignature'' kvs; Some (AText t sig) }
     else if ty = js ''thinking'' then do {
       t \<leftarrow> req as_str ''thinking'' kvs; sig \<leftarrow> opt as_str ''thinkingSignature'' kvs;
       r \<leftarrow> opt as_bool ''redacted'' kvs; Some (AThinking t sig r) }
     else if ty = js ''toolCall'' then do {
       i \<leftarrow> req as_str ''id'' kvs; n \<leftarrow> req as_str ''name'' kvs; a \<leftarrow> req as_obj ''arguments'' kvs;
       sig \<leftarrow> opt as_str ''thoughtSignature'' kvs;
       Some (AToolCall \<lparr>tc_id = i, tc_name = n, tc_arguments = a, tc_thoughtSignature = sig\<rparr>) }
     else None }"

lemma user_block_codec [simp]: "json_user_block (user_block_json b) = Some b"
  by (cases b) (auto simp: json_user_block_def codec)

lemma user_content_codec [simp]: "json_user_content (user_content_json c) = Some c"
  using read_list [of _ json_user_block user_block_json] by (cases c) simp_all

lemma assistant_block_codec [simp]: "json_assistant_block (assistant_block_json b) = Some b"
  by (cases b) (auto simp: json_assistant_block_def tool_call_fields_def codec)

definition cost_json :: "UsageCost \<Rightarrow> json" where
  "cost_json c =
     obj [(''input'', Some (JNum (cost_input c))), (''output'', Some (JNum (cost_output c))),
          (''cacheRead'', Some (JNum (cost_cacheRead c))), (''cacheWrite'', Some (JNum (cost_cacheWrite c))),
          (''total'', Some (JNum (cost_total c)))]"

definition json_cost :: "json \<Rightarrow> UsageCost option" where
  "json_cost j = do {
     kvs \<leftarrow> as_obj j; i \<leftarrow> req as_num ''input'' kvs; out \<leftarrow> req as_num ''output'' kvs;
     r \<leftarrow> req as_num ''cacheRead'' kvs; w \<leftarrow> req as_num ''cacheWrite'' kvs; t \<leftarrow> req as_num ''total'' kvs;
     Some \<lparr>cost_input = i, cost_output = out, cost_cacheRead = r, cost_cacheWrite = w, cost_total = t\<rparr> }"

definition usage_json :: "Usage \<Rightarrow> json" where
  "usage_json u =
     obj [(''input'', Some (jnat (u_input u))), (''output'', Some (jnat (u_output u))),
          (''cacheRead'', Some (jnat (u_cacheRead u))), (''cacheWrite'', Some (jnat (u_cacheWrite u))),
          (''totalTokens'', Some (jnat (u_totalTokens u))), (''cost'', Some (cost_json (u_cost u)))]"

definition json_usage :: "json \<Rightarrow> Usage option" where
  "json_usage j = do {
     kvs \<leftarrow> as_obj j; i \<leftarrow> req as_nat ''input'' kvs; out \<leftarrow> req as_nat ''output'' kvs;
     r \<leftarrow> req as_nat ''cacheRead'' kvs; w \<leftarrow> req as_nat ''cacheWrite'' kvs; t \<leftarrow> req as_nat ''totalTokens'' kvs;
     c \<leftarrow> req json_cost ''cost'' kvs;
     Some \<lparr>u_input = i, u_output = out, u_cacheRead = r, u_cacheWrite = w, u_totalTokens = t, u_cost = c\<rparr> }"

fun stop_name :: "StopReason \<Rightarrow> string" where
  "stop_name Stop = ''stop''" | "stop_name Length = ''length''" | "stop_name ToolUse = ''toolUse''"
| "stop_name Error = ''error''" | "stop_name Aborted = ''aborted''"

fun json_stop :: "json \<Rightarrow> StopReason option" where
  "json_stop (JStr t) =
     (if t = js ''stop'' then Some Stop else if t = js ''length'' then Some Length
      else if t = js ''toolUse'' then Some ToolUse else if t = js ''error'' then Some Error
      else if t = js ''aborted'' then Some Aborted else None)"
| "json_stop _ = None"

lemma cost_codec [simp]: "json_cost (cost_json c) = Some c"
  by (simp add: json_cost_def cost_json_def codec)

lemma usage_codec [simp]: "json_usage (usage_json u) = Some u"
  by (simp add: json_usage_def usage_json_def codec)

lemma stop_codec [simp]: "json_stop (JStr (js (stop_name r))) = Some r"
  by (cases r) simp_all

declare json_stop.simps [simp del]

text \<open>The messages, by their role.\<close>

fun message_fields :: "message \<Rightarrow> (string \<times> json option) list" where
  "message_fields (User m) =
     [(''role'', Some (JStr (js ''user''))), (''content'', Some (user_content_json (um_content m))),
      (''timestamp'', Some (jint (um_timestamp m)))]"
| "message_fields (Assistant m) =
     [(''role'', Some (JStr (js ''assistant''))), (''content'', Some (JArr (map assistant_block_json (am_content m)))),
      (''api'', Some (JStr (am_api m))), (''provider'', Some (JStr (am_provider m))), (''model'', Some (JStr (am_model m))),
      (''responseModel'', map_option JStr (am_responseModel m)), (''responseId'', map_option JStr (am_responseId m)),
      (''diagnostics'', map_option JArr (am_diagnostics m)), (''usage'', map_option usage_json (am_usage m)),
      (''stopReason'', Some (JStr (js (stop_name (am_stopReason m))))), (''errorMessage'', map_option JStr (am_errorMessage m)),
      (''timestamp'', Some (jint (am_timestamp m)))]"
| "message_fields (ToolResult m) =
     [(''role'', Some (JStr (js ''toolResult''))), (''toolCallId'', Some (JStr (trm_toolCallId m))),
      (''toolName'', Some (JStr (trm_toolName m))), (''content'', Some (JArr (map user_block_json (trm_content m)))),
      (''details'', trm_details m), (''isError'', Some (JBool (trm_isError m))),
      (''timestamp'', Some (jint (trm_timestamp m)))]"

definition json_user :: "(jstring \<times> json) list \<Rightarrow> message option" where
  "json_user kvs = do {
     c \<leftarrow> req json_user_content ''content'' kvs; t \<leftarrow> req as_int ''timestamp'' kvs;
     Some (User \<lparr>um_content = c, um_timestamp = t\<rparr>) }"

definition json_assistant :: "(jstring \<times> json) list \<Rightarrow> message option" where
  "json_assistant kvs = do {
     c \<leftarrow> req (as_list json_assistant_block) ''content'' kvs; a \<leftarrow> req as_str ''api'' kvs;
     p \<leftarrow> req as_str ''provider'' kvs; m \<leftarrow> req as_str ''model'' kvs;
     rm \<leftarrow> opt as_str ''responseModel'' kvs; ri \<leftarrow> opt as_str ''responseId'' kvs;
     d \<leftarrow> opt (as_list Some) ''diagnostics'' kvs; u \<leftarrow> opt json_usage ''usage'' kvs;
     sr \<leftarrow> req json_stop ''stopReason'' kvs; er \<leftarrow> opt as_str ''errorMessage'' kvs;
     t \<leftarrow> req as_int ''timestamp'' kvs;
     Some (Assistant \<lparr>am_content = c, am_api = a, am_provider = p, am_model = m, am_responseModel = rm,
       am_responseId = ri, am_diagnostics = d, am_usage = u, am_stopReason = sr, am_errorMessage = er,
       am_timestamp = t\<rparr>) }"

definition json_tool_result :: "(jstring \<times> json) list \<Rightarrow> message option" where
  "json_tool_result kvs = do {
     i \<leftarrow> req as_str ''toolCallId'' kvs; n \<leftarrow> req as_str ''toolName'' kvs;
     c \<leftarrow> req (as_list json_user_block) ''content'' kvs; d \<leftarrow> opt Some ''details'' kvs;
     er \<leftarrow> req as_bool ''isError'' kvs; t \<leftarrow> req as_int ''timestamp'' kvs;
     Some (ToolResult \<lparr>trm_toolCallId = i, trm_toolName = n, trm_content = c, trm_details = d,
       trm_isError = er, trm_timestamp = t\<rparr>) }"

lemma list_codec [codec]: "(\<And>x. f (g x) = Some x) \<Longrightarrow> those (map (\<lambda>x. f (g x)) xs) = Some xs"
  "(\<And>x. f (g x) = Some x) \<Longrightarrow> those (map (f \<circ> g) xs) = Some xs"
  using those_map [of xs f g] by (simp_all add: o_def)

lemma those_Some [codec]: "those (map Some xs) = Some xs"
  by (induction xs) simp_all

lemma opt_same [codec]: "(case x of None \<Rightarrow> Some None | Some v \<Rightarrow> map_option Some (Some v)) = Some x"
  by (cases x) simp_all

lemma user_codec: "json_user (props (message_fields (User m))) = Some (User m)"
  by (simp add: json_user_def codec)

lemma assistant_codec: "json_assistant (props (message_fields (Assistant m))) = Some (Assistant m)"
proof -
  let ?fs = "message_fields (Assistant m)"
  have d: "distinct (map fst ?fs)" by simp
  note get = get_prop_props [OF d]
  have "req (as_list json_assistant_block) ''content'' (props ?fs) = Some (am_content m)"
    "req as_str ''api'' (props ?fs) = Some (am_api m)" "req as_str ''provider'' (props ?fs) = Some (am_provider m)"
    "req as_str ''model'' (props ?fs) = Some (am_model m)" "req json_stop ''stopReason'' (props ?fs) = Some (am_stopReason m)"
    "req as_int ''timestamp'' (props ?fs) = Some (am_timestamp m)"
    unfolding req_def get by (simp_all add: list_codec)
  moreover have "opt as_str ''responseModel'' (props ?fs) = Some (am_responseModel m)"
    "opt as_str ''responseId'' (props ?fs) = Some (am_responseId m)"
    "opt (as_list Some) ''diagnostics'' (props ?fs) = Some (am_diagnostics m)"
    "opt json_usage ''usage'' (props ?fs) = Some (am_usage m)"
    "opt as_str ''errorMessage'' (props ?fs) = Some (am_errorMessage m)"
    unfolding opt_def get by (simp_all add: opt_read those_Some)
  ultimately show ?thesis by (simp add: json_assistant_def del: message_fields.simps)
qed

lemma tool_result_codec: "json_tool_result (props (message_fields (ToolResult m))) = Some (ToolResult m)"
  by (simp add: json_tool_result_def codec)

text \<open>
  The message kinds of the harness. \<open>exitCode\<close> is \<open>number | undefined\<close>; a false
  \<open>excludeFromContext\<close> is left out. Of a message of another role only the role is modelled.
\<close>

fun agent_message_fields :: "agent_message \<Rightarrow> (string \<times> json option) list" where
  "agent_message_fields (Msg m) = message_fields m"
| "agent_message_fields (BashExecution m) =
     [(''role'', Some (JStr (js ''bashExecution''))), (''command'', Some (JStr (bem_command m))),
      (''output'', Some (JStr (bem_output m))), (''exitCode'', map_option jint (bem_exitCode m)),
      (''cancelled'', Some (JBool (bem_cancelled m))), (''truncated'', Some (JBool (bem_truncated m))),
      (''fullOutputPath'', map_option JStr (bem_fullOutputPath m)), (''timestamp'', Some (jint (bem_timestamp m))),
      (''excludeFromContext'', if bem_excludeFromContext m then Some (JBool True) else None)]"
| "agent_message_fields (Custom m) =
     [(''role'', Some (JStr (js ''custom''))), (''customType'', Some (JStr (cm_customType m))),
      (''content'', Some (user_content_json (cm_content m))), (''display'', Some (JBool (cm_display m))),
      (''details'', cm_details m), (''timestamp'', Some (jint (cm_timestamp m)))]"
| "agent_message_fields (BranchSummary m) =
     [(''role'', Some (JStr (js ''branchSummary''))), (''summary'', Some (JStr (bsm_summary m))),
      (''fromId'', Some (JStr (bsm_fromId m))), (''timestamp'', Some (jint (bsm_timestamp m)))]"
| "agent_message_fields (CompactionSummary m) =
     [(''role'', Some (JStr (js ''compactionSummary''))), (''summary'', Some (JStr (csm_summary m))),
      (''tokensBefore'', Some (jnat (csm_tokensBefore m))), (''timestamp'', Some (jint (csm_timestamp m)))]"
| "agent_message_fields (OtherMessage r) = [(''role'', Some (JStr r))]"

definition message_json :: "agent_message \<Rightarrow> json" where
  "message_json m = obj (agent_message_fields m)"

definition json_bash :: "(jstring \<times> json) list \<Rightarrow> agent_message option" where
  "json_bash kvs = do {
     c \<leftarrow> req as_str ''command'' kvs; out \<leftarrow> req as_str ''output'' kvs; ec \<leftarrow> opt as_int ''exitCode'' kvs;
     ca \<leftarrow> req as_bool ''cancelled'' kvs; tr \<leftarrow> req as_bool ''truncated'' kvs; p \<leftarrow> opt as_str ''fullOutputPath'' kvs;
     t \<leftarrow> req as_int ''timestamp'' kvs; x \<leftarrow> opt as_bool ''excludeFromContext'' kvs;
     Some (BashExecution \<lparr>bem_command = c, bem_output = out, bem_exitCode = ec, bem_cancelled = ca,
       bem_truncated = tr, bem_fullOutputPath = p, bem_timestamp = t, bem_excludeFromContext = (x = Some True)\<rparr>) }"

definition json_custom :: "(jstring \<times> json) list \<Rightarrow> agent_message option" where
  "json_custom kvs = do {
     ct \<leftarrow> req as_str ''customType'' kvs; c \<leftarrow> req json_user_content ''content'' kvs;
     d \<leftarrow> req as_bool ''display'' kvs; de \<leftarrow> opt Some ''details'' kvs; t \<leftarrow> req as_int ''timestamp'' kvs;
     Some (Custom \<lparr>cm_customType = ct, cm_content = c, cm_display = d, cm_details = de, cm_timestamp = t\<rparr>) }"

definition json_message :: "json \<Rightarrow> agent_message option" where
  "json_message j = do {
     kvs \<leftarrow> as_obj j; r \<leftarrow> req as_str ''role'' kvs;
     if r = js ''user'' then map_option Msg (json_user kvs)
     else if r = js ''assistant'' then map_option Msg (json_assistant kvs)
     else if r = js ''toolResult'' then map_option Msg (json_tool_result kvs)
     else if r = js ''bashExecution'' then json_bash kvs
     else if r = js ''custom'' then json_custom kvs
     else if r = js ''branchSummary'' then do {
       s \<leftarrow> req as_str ''summary'' kvs; f \<leftarrow> req as_str ''fromId'' kvs; t \<leftarrow> req as_int ''timestamp'' kvs;
       Some (BranchSummary \<lparr>bsm_summary = s, bsm_fromId = f, bsm_timestamp = t\<rparr>) }
     else if r = js ''compactionSummary'' then do {
       s \<leftarrow> req as_str ''summary'' kvs; n \<leftarrow> req as_nat ''tokensBefore'' kvs; t \<leftarrow> req as_int ''timestamp'' kvs;
       Some (CompactionSummary \<lparr>csm_summary = s, csm_tokensBefore = n, csm_timestamp = t\<rparr>) }
     else Some (OtherMessage r) }"

text \<open>A role an application adds is none of the built-in ones.\<close>

fun own_role :: "agent_message \<Rightarrow> bool" where
  "own_role (OtherMessage r) =
     (r \<notin> js ` {''user'', ''assistant'', ''toolResult'', ''bashExecution'', ''custom'', ''branchSummary'', ''compactionSummary''})"
| "own_role _ = True"

lemma bash_codec: "json_bash (props (agent_message_fields (BashExecution m))) = Some (BashExecution m)"
  by (simp add: json_bash_def codec)

lemma custom_codec: "json_custom (props (agent_message_fields (Custom m))) = Some (Custom m)"
  by (simp add: json_custom_def codec)

lemma role_field: "req as_str ''role'' (props (agent_message_fields m)) =
  Some (case m of Msg (User _) \<Rightarrow> js ''user'' | Msg (Assistant _) \<Rightarrow> js ''assistant'' | Msg (ToolResult _) \<Rightarrow> js ''toolResult''
        | BashExecution _ \<Rightarrow> js ''bashExecution'' | Custom _ \<Rightarrow> js ''custom'' | BranchSummary _ \<Rightarrow> js ''branchSummary''
        | CompactionSummary _ \<Rightarrow> js ''compactionSummary'' | OtherMessage r \<Rightarrow> r)"
  by (cases m; (simp add: codec)?) (rename_tac x, case_tac x; simp add: codec)

lemma message_codec: "own_role m \<Longrightarrow> json_message (message_json m) = Some m"
proof (cases m)
  case (Msg x)
  then show ?thesis
    using role_field [of m]
    by (cases x) (simp_all add: json_message_def message_json_def obj_def user_codec assistant_codec tool_result_codec
        del: message_fields.simps)
next
  case (BashExecution x)
  then show ?thesis
    using role_field [of m] bash_codec [of x]
    by (simp add: json_message_def message_json_def obj_def del: agent_message_fields.simps)
next
  case (Custom x)
  then show ?thesis
    using role_field [of m] custom_codec [of x]
    by (simp add: json_message_def message_json_def obj_def del: agent_message_fields.simps)
next
  case (OtherMessage r)
  moreover assume "own_role m"
  ultimately show ?thesis by (simp add: json_message_def message_json_def codec)
qed (simp_all add: json_message_def message_json_def codec)

section \<open>Entries\<close>

fun type_name :: "entry_body \<Rightarrow> string" where
  "type_name (MessageE _) = ''message''"
| "type_name (ThinkingLevelChangeE _) = ''thinking_level_change''"
| "type_name (ModelChangeE _ _) = ''model_change''"
| "type_name (ActiveToolsChangeE _) = ''active_tools_change''"
| "type_name (CompactionE _) = ''compaction''"
| "type_name (BranchSummaryE _) = ''branch_summary''"
| "type_name (CustomE _ _) = ''custom''"
| "type_name (CustomMessageE _) = ''custom_message''"
| "type_name (LabelE _ _) = ''label''"
| "type_name (SessionInfoE _) = ''session_info''"
| "type_name (LeafE _) = ''leaf''"

fun body_fields :: "entry_body \<Rightarrow> (string \<times> json option) list" where
  "body_fields (MessageE m) = [(''message'', Some (message_json m))]"
| "body_fields (ThinkingLevelChangeE l) = [(''thinkingLevel'', Some (JStr l))]"
| "body_fields (ModelChangeE p m) = [(''provider'', Some (JStr p)), (''modelId'', Some (JStr m))]"
| "body_fields (ActiveToolsChangeE ns) = [(''activeToolNames'', Some (JArr (map JStr ns)))]"
| "body_fields (CompactionE c) =
     [(''summary'', Some (JStr (ce_summary c))), (''firstKeptEntryId'', Some (JStr (ce_firstKeptEntryId c))),
      (''tokensBefore'', Some (jnat (ce_tokensBefore c))), (''details'', ce_details c),
      (''fromHook'', map_option JBool (ce_fromHook c))]"
| "body_fields (BranchSummaryE b) =
     [(''fromId'', Some (JStr (be_fromId b))), (''summary'', Some (JStr (be_summary b))), (''details'', be_details b),
      (''fromHook'', map_option JBool (be_fromHook b))]"
| "body_fields (CustomE t d) = [(''customType'', Some (JStr t)), (''data'', d)]"
| "body_fields (CustomMessageE m) =
     [(''customType'', Some (JStr (cme_customType m))), (''content'', Some (user_content_json (cme_content m))),
      (''display'', Some (JBool (cme_display m))), (''details'', cme_details m)]"
| "body_fields (LabelE t l) = [(''targetId'', Some (JStr t)), (''label'', map_option JStr l)]"
| "body_fields (SessionInfoE n) = [(''name'', map_option JStr n)]"
| "body_fields (LeafE t) = [(''targetId'', Some (jnullable t))]"

definition entry_fields :: "entry \<Rightarrow> (string \<times> json option) list" where
  "entry_fields en =
     [(''type'', Some (JStr (js (type_name (e_body en))))), (''id'', Some (JStr (e_id en))),
      (''parentId'', Some (jnullable (e_parentId en))), (''timestamp'', Some (JStr (e_timestamp en)))] @
     body_fields (e_body en)"

definition entry_json :: "entry \<Rightarrow> json" where
  "entry_json en = obj (entry_fields en)"

text \<open>A parsed object as an entry, by its \<open>type\<close>.\<close>

definition json_body :: "jstring \<Rightarrow> (jstring \<times> json) list \<Rightarrow> entry_body option" where
  "json_body ty kvs =
     (if ty = js ''message'' then map_option MessageE (req json_message ''message'' kvs)
      else if ty = js ''thinking_level_change'' then map_option ThinkingLevelChangeE (req as_str ''thinkingLevel'' kvs)
      else if ty = js ''model_change'' then do {
        p \<leftarrow> req as_str ''provider'' kvs; m \<leftarrow> req as_str ''modelId'' kvs; Some (ModelChangeE p m) }
      else if ty = js ''active_tools_change'' then map_option ActiveToolsChangeE (req (as_list as_str) ''activeToolNames'' kvs)
      else if ty = js ''compaction'' then do {
        s \<leftarrow> req as_str ''summary'' kvs; f \<leftarrow> req as_str ''firstKeptEntryId'' kvs; n \<leftarrow> req as_nat ''tokensBefore'' kvs;
        d \<leftarrow> opt Some ''details'' kvs; h \<leftarrow> opt as_bool ''fromHook'' kvs;
        Some (CompactionE \<lparr>ce_summary = s, ce_firstKeptEntryId = f, ce_tokensBefore = n, ce_details = d, ce_fromHook = h\<rparr>) }
      else if ty = js ''branch_summary'' then do {
        f \<leftarrow> req as_str ''fromId'' kvs; s \<leftarrow> req as_str ''summary'' kvs;
        d \<leftarrow> opt Some ''details'' kvs; h \<leftarrow> opt as_bool ''fromHook'' kvs;
        Some (BranchSummaryE \<lparr>be_fromId = f, be_summary = s, be_details = d, be_fromHook = h\<rparr>) }
      else if ty = js ''custom'' then do {
        c \<leftarrow> req as_str ''customType'' kvs; d \<leftarrow> opt Some ''data'' kvs; Some (CustomE c d) }
      else if ty = js ''custom_message'' then do {
        c \<leftarrow> req as_str ''customType'' kvs; m \<leftarrow> req json_user_content ''content'' kvs; x \<leftarrow> req as_bool ''display'' kvs;
        d \<leftarrow> opt Some ''details'' kvs;
        Some (CustomMessageE \<lparr>cme_customType = c, cme_content = m, cme_details = d, cme_display = x\<rparr>) }
      else if ty = js ''label'' then do {
        t \<leftarrow> req as_str ''targetId'' kvs; l \<leftarrow> opt as_str ''label'' kvs; Some (LabelE t l) }
      else if ty = js ''session_info'' then map_option SessionInfoE (opt as_str ''name'' kvs)
      else if ty = js ''leaf'' then map_option LeafE (req as_nullable ''targetId'' kvs)
      else None)"

definition json_entry :: "json \<Rightarrow> entry option" where
  "json_entry j = do {
     kvs \<leftarrow> as_obj j; ty \<leftarrow> req as_str ''type'' kvs; i \<leftarrow> req as_str ''id'' kvs;
     p \<leftarrow> req as_nullable ''parentId'' kvs; t \<leftarrow> req as_str ''timestamp'' kvs; b \<leftarrow> json_body ty kvs;
     Some \<lparr>e_id = i, e_parentId = p, e_timestamp = t, e_body = b\<rparr> }"

fun own_roles :: "entry_body \<Rightarrow> bool" where
  "own_roles (MessageE m) = own_role m"
| "own_roles _ = True"

lemma distinct_entry_fields: "distinct (map fst (entry_fields en))"
  by (cases "e_body en") (simp_all add: entry_fields_def)

lemma entry_codec:
  assumes "own_roles (e_body en)"
  shows "json_entry (entry_json en) = Some en"
proof -
  let ?fs = "entry_fields en"
  note get = get_prop_props [OF distinct_entry_fields, of _ en]
  have "req as_str ''type'' (props ?fs) = Some (js (type_name (e_body en)))" "req as_str ''id'' (props ?fs) = Some (e_id en)"
    "req as_nullable ''parentId'' (props ?fs) = Some (e_parentId en)"
    "req as_str ''timestamp'' (props ?fs) = Some (e_timestamp en)"
    unfolding req_def get by (simp_all add: entry_fields_def)
  moreover have "json_body (js (type_name (e_body en))) (props ?fs) = Some (e_body en)"
    using assms message_codec unfolding json_body_def req_def opt_def get
    by (cases "e_body en") (simp_all add: entry_fields_def opt_read opt_same list_codec)
  ultimately show ?thesis by (simp add: json_entry_def entry_json_def obj_def)
qed

end
