(* ===== verification/JsonlStorage.thy ===== *)
theory JsonlStorage
  imports Truncate Files Session SessionJson
begin

text \<open>
  \<open>JsonlSessionStorage\<close> of \<open>packages/agent/src/harness/session/jsonl-storage.ts\<close>: a session kept
  in a file, one JSON object per line, over the \<open>FileSystem\<close> interface of \<open>harness/types.ts\<close>;
  and the file operations of \<open>NodeExecutionEnv\<close> (\<open>harness/env/nodejs.ts\<close>) it runs on.
\<close>

section \<open>Errors of the file system\<close>

text \<open>\<open>getFileSystemResultOrThrow\<close>\<close>

definition getFileSystemResultOrThrow :: "FileError + 'a \<Rightarrow> jstring \<Rightarrow> failure + 'a" where
  "getFileSystemResultOrThrow result message =
     (case result of
        Inl err \<Rightarrow> Inl (SessionError (if fe_code err = FileNotFound then NotFound else StorageFailure)
                          (message @ js '': '' @ fe_message err))
      | Inr x \<Rightarrow> Inr x)"

section \<open>Parsing\<close>

record SessionHeader =
  sh_id :: jstring
  sh_timestamp :: jstring
  sh_cwd :: jstring
  sh_parentSession :: "jstring option"

record JsonlSessionMetadata =
  jm_id :: jstring
  jm_createdAt :: jstring
  jm_cwd :: jstring
  jm_path :: jstring
  jm_parentSessionPath :: "jstring option"

definition header_json :: "SessionHeader \<Rightarrow> json" where
  "header_json h =
     obj [(''type'', Some (JStr (js ''session''))), (''version'', Some (jint 3)), (''id'', Some (JStr (sh_id h))),
          (''timestamp'', Some (JStr (sh_timestamp h))), (''cwd'', Some (JStr (sh_cwd h))),
          (''parentSession'', map_option JStr (sh_parentSession h))]"

text \<open>\<open>isRecord\<close>: the properties of an object; an array has none of the names the code asks for.\<close>

fun record_props :: "json \<Rightarrow> (jstring \<times> json) list option" where
  "record_props (JObj kvs) = Some kvs"
| "record_props (JArr vs) = Some []"
| "record_props _ = None"

definition invalidSession :: "jstring \<Rightarrow> string \<Rightarrow> failure" where
  "invalidSession filePath message =
     SessionError InvalidSession (js ''Invalid JSONL session file '' @ filePath @ js '': '' @ js message)"

definition invalidEntry :: "jstring \<Rightarrow> nat \<Rightarrow> string \<Rightarrow> failure" where
  "invalidEntry filePath lineNumber message =
     SessionError InvalidEntry
       (js ''Invalid JSONL session file '' @ filePath @ js '': line '' @ show_nat lineNumber @ js '' '' @ js message)"

text \<open>\<open>typeof v === "string" && v\<close>\<close>

definition nonempty_str :: "json option \<Rightarrow> jstring option" where
  "nonempty_str v = (case v of Some (JStr s) \<Rightarrow> if s \<noteq> [] then Some s else None | _ \<Rightarrow> None)"

definition check_header :: "jstring \<Rightarrow> (jstring \<times> json) list \<Rightarrow> failure + SessionHeader" where
  "check_header filePath kvs =
     (let p = (\<lambda>k. get_prop (js k) kvs)
      in if p ''type'' \<noteq> Some (JStr (js ''session'')) then Inl (invalidSession filePath ''first line is not a valid session header'')
         else if p ''version'' \<noteq> Some (jint 3) then Inl (invalidSession filePath ''unsupported session version'')
         else (case nonempty_str (p ''id'') of
           None \<Rightarrow> Inl (invalidSession filePath ''session header is missing id'')
         | Some i \<Rightarrow> (case nonempty_str (p ''timestamp'') of
             None \<Rightarrow> Inl (invalidSession filePath ''session header is missing timestamp'')
           | Some t \<Rightarrow> (case nonempty_str (p ''cwd'') of
               None \<Rightarrow> Inl (invalidSession filePath ''session header is missing cwd'')
             | Some c \<Rightarrow> (case p ''parentSession'' of
                 None \<Rightarrow> Inr \<lparr>sh_id = i, sh_timestamp = t, sh_cwd = c, sh_parentSession = None\<rparr>
               | Some (JStr s) \<Rightarrow> Inr \<lparr>sh_id = i, sh_timestamp = t, sh_cwd = c, sh_parentSession = Some s\<rparr>
               | Some _ \<Rightarrow> Inl (invalidSession filePath ''session header parentSession must be a string''))))))"

definition parseHeaderLine :: "jstring \<Rightarrow> jstring \<Rightarrow> failure + SessionHeader" where
  "parseHeaderLine line filePath =
     (case Option.bind (json_parse line) record_props of
        None \<Rightarrow> Inl (invalidSession filePath ''first line is not a valid session header'')
      | Some kvs \<Rightarrow> check_header filePath kvs)"

text \<open>
  The checks of \<open>parseEntryLine\<close>. What passes them is cast to \<open>SessionTreeEntry\<close>; \<open>Inr None\<close> is an
  object that passes and is no such entry, which the code goes on with unchecked.
\<close>

definition entry_fault :: "(jstring \<times> json) list \<Rightarrow> string option" where
  "entry_fault kvs =
     (let p = (\<lambda>k. get_prop (js k) kvs)
      in case p ''type'' of
           Some (JStr ty) \<Rightarrow>
             if nonempty_str (p ''id'') = None then Some ''is missing entry id''
             else if Option.bind (p ''parentId'') as_nullable = None then Some ''has invalid parentId''
             else if nonempty_str (p ''timestamp'') = None then Some ''is missing timestamp''
             else if ty = js ''leaf'' \<and> Option.bind (p ''targetId'') as_nullable = None then Some ''has invalid targetId''
             else None
         | _ \<Rightarrow> Some ''is missing entry type'')"

definition parseEntryLine :: "jstring \<Rightarrow> jstring \<Rightarrow> nat \<Rightarrow> failure + entry option" where
  "parseEntryLine line filePath lineNumber =
     (case json_parse line of
        None \<Rightarrow> Inl (invalidEntry filePath lineNumber ''is not valid JSON'')
      | Some j \<Rightarrow>
          (case record_props j of
             None \<Rightarrow> Inl (invalidEntry filePath lineNumber ''is not a valid session entry'')
           | Some kvs \<Rightarrow>
               (case entry_fault kvs of
                  Some message \<Rightarrow> Inl (invalidEntry filePath lineNumber message)
                | None \<Rightarrow> Inr (json_entry j))))"

definition headerToSessionMetadata :: "SessionHeader \<Rightarrow> jstring \<Rightarrow> JsonlSessionMetadata" where
  "headerToSessionMetadata header path =
     \<lparr>jm_id = sh_id header, jm_createdAt = sh_timestamp header, jm_cwd = sh_cwd header, jm_path = path,
      jm_parentSessionPath = sh_parentSession header\<rparr>"

definition nonblank_lines :: "jstring \<Rightarrow> jstring list" where
  "nonblank_lines content = filter (\<lambda>l. trim l \<noteq> []) (split_on newline content)"

text \<open>The loop over the entry lines; the outer option is \<open>None\<close> when an entry is ill-typed.\<close>

fun parse_entries :: "jstring \<Rightarrow> nat \<Rightarrow> jstring list \<Rightarrow> failure + entry list option" where
  "parse_entries filePath n [] = Inr (Some [])"
| "parse_entries filePath n (l # ls) =
     (case parseEntryLine l filePath n of
        Inl err \<Rightarrow> Inl err
      | Inr en \<Rightarrow>
          (case parse_entries filePath (Suc n) ls of
             Inl err \<Rightarrow> Inl err
           | Inr ens \<Rightarrow> Inr (case (en, ens) of (Some x, Some xs) \<Rightarrow> Some (x # xs) | _ \<Rightarrow> None)))"

definition parse_content :: "jstring \<Rightarrow> jstring \<Rightarrow> failure + (SessionHeader \<times> entry list) option" where
  "parse_content filePath content =
     (case nonblank_lines content of
        [] \<Rightarrow> Inl (invalidSession filePath ''missing session header'')
      | l # ls \<Rightarrow>
          (case parseHeaderLine l filePath of
             Inl err \<Rightarrow> Inl err
           | Inr h \<Rightarrow>
               (case parse_entries filePath 2 ls of
                  Inl err \<Rightarrow> Inl err
                | Inr ens \<Rightarrow> Inr (map_option (Pair h) ens))))"

definition loadJsonlStorage ::
    "'fs FileSystem \<Rightarrow> jstring \<Rightarrow> 'fs \<Rightarrow> (failure + (SessionHeader \<times> entry list) option) \<times> 'fs" where
  "loadJsonlStorage fs filePath f =
     (case fs_readTextFile fs filePath f of (r, f') \<Rightarrow>
       (case getFileSystemResultOrThrow r (js ''Failed to read session '' @ filePath) of
          Inl err \<Rightarrow> (Inl err, f')
        | Inr content \<Rightarrow> (parse_content filePath content, f')))"

definition loadJsonlSessionMetadata ::
    "'fs FileSystem \<Rightarrow> jstring \<Rightarrow> 'fs \<Rightarrow> (failure + JsonlSessionMetadata) \<times> 'fs" where
  "loadJsonlSessionMetadata fs filePath f =
     (case fs_readTextLines fs filePath (Some 1) f of (r, f') \<Rightarrow>
       (case getFileSystemResultOrThrow r (js ''Failed to read session header '' @ filePath) of
          Inl err \<Rightarrow> (Inl err, f')
        | Inr lines \<Rightarrow>
            ((case lines of
                line # _ \<Rightarrow>
                  if trim line \<noteq> [] then
                    (case parseHeaderLine line filePath of
                       Inl err \<Rightarrow> Inl err
                     | Inr h \<Rightarrow> Inr (headerToSessionMetadata h filePath))
                  else Inl (invalidSession filePath ''missing session header'')
              | [] \<Rightarrow> Inl (invalidSession filePath ''missing session header'')), f')))"

section \<open>The storage\<close>

record JsonlSessionStorage =
  jl_filePath :: jstring
  jl_metadata :: JsonlSessionMetadata
  jl_entries :: "entry list"
  jl_byId :: "jstring \<rightharpoonup> entry"
  jl_labelsById :: "jstring \<rightharpoonup> jstring"
  jl_currentLeafId :: "jstring option"

definition jl_construct :: "jstring \<Rightarrow> SessionHeader \<Rightarrow> entry list \<Rightarrow> jstring option \<Rightarrow> JsonlSessionStorage" where
  "jl_construct filePath header entries leafId =
     \<lparr>jl_filePath = filePath, jl_metadata = headerToSessionMetadata header filePath, jl_entries = entries,
      jl_byId = foldl (\<lambda>m en. m(e_id en \<mapsto> en)) Map.empty entries, jl_labelsById = buildLabelsById entries,
      jl_currentLeafId = leafId\<rparr>"

text \<open>\<open>open\<close> and \<open>create\<close>; \<open>Inr None\<close> of \<open>open\<close> is a file with an ill-typed entry.\<close>

definition jl_open ::
    "'fs FileSystem \<Rightarrow> jstring \<Rightarrow> 'fs \<Rightarrow> (failure + JsonlSessionStorage option) \<times> 'fs" where
  "jl_open fs filePath f =
     (case loadJsonlStorage fs filePath f of
        (Inl err, f') \<Rightarrow> (Inl err, f')
      | (Inr None, f') \<Rightarrow> (Inr None, f')
      | (Inr (Some (h, ens)), f') \<Rightarrow>
          (Inr (Some (jl_construct filePath h ens (foldl (\<lambda>_ en. leafIdAfterEntry en) None ens))), f'))"

definition jl_create ::
    "'fs FileSystem \<Rightarrow> env \<Rightarrow> jstring \<Rightarrow> jstring \<Rightarrow> jstring \<Rightarrow> jstring option \<Rightarrow> 'fs \<times> world \<Rightarrow>
     (failure + JsonlSessionStorage) \<times> 'fs \<times> world" where
  "jl_create fs e filePath cwd sessionId parentSessionPath = (\<lambda>(f, w).
     (case iso_now e w of (ts, w') \<Rightarrow>
       (let header = \<lparr>sh_id = sessionId, sh_timestamp = ts, sh_cwd = cwd, sh_parentSession = parentSessionPath\<rparr>
        in case fs_writeFile fs filePath (stringify (header_json header) @ [newline]) f of (r, f') \<Rightarrow>
             (case getFileSystemResultOrThrow r (js ''Failed to create session '' @ filePath) of
                Inl err \<Rightarrow> (Inl err, f', w')
              | Inr _ \<Rightarrow> (Inr (jl_construct filePath header [] None), f', w')))))"

text \<open>The state of an operation: the object and the file system.\<close>

type_synonym ('fs, 'a) jl_op = "(JsonlSessionStorage \<times> 'fs, 'a) op"

definition jl_getMetadata :: "('fs, JsonlSessionMetadata) jl_op" where
  "jl_getMetadata = (\<lambda>((s, f), w). (Inr (jl_metadata s), (s, f), w))"

definition jl_getLeafId :: "('fs, jstring option) jl_op" where
  "jl_getLeafId = (\<lambda>((s, f), w).
     if leaf_missing (jl_byId s) (jl_currentLeafId s)
     then (Inl (SessionError InvalidSession (entry_not_found (the (jl_currentLeafId s)))), (s, f), w)
     else (Inr (jl_currentLeafId s), (s, f), w))"

definition entry_line :: "entry \<Rightarrow> jstring" where
  "entry_line en = stringify (entry_json en) @ [newline]"

definition jl_setLeafId :: "'fs FileSystem \<Rightarrow> env \<Rightarrow> jstring option \<Rightarrow> ('fs, unit) jl_op" where
  "jl_setLeafId fs e leafId = (\<lambda>((s, f), w).
     if leaf_missing (jl_byId s) leafId
     then (Inl (SessionError NotFound (entry_not_found (the leafId))), (s, f), w)
     else (case generateEntryId e (\<lambda>i. jl_byId s i \<noteq> None) w of (i, w1) \<Rightarrow>
            (case iso_now e w1 of (ts, w2) \<Rightarrow>
              (let en = new_entry i (jl_currentLeafId s) ts (LeafE leafId)
               in case fs_appendFile fs (jl_filePath s) (entry_line en) f of (r, f') \<Rightarrow>
                 (case getFileSystemResultOrThrow r (js ''Failed to append session leaf '' @ e_id en) of
                    Inl err \<Rightarrow> (Inl err, (s, f'), w2)
                  | Inr _ \<Rightarrow>
                      (Inr (), (s\<lparr>jl_entries := jl_entries s @ [en], jl_byId := (jl_byId s)(e_id en \<mapsto> en),
                                  jl_currentLeafId := leafId\<rparr>, f'), w2))))))"

definition jl_createEntryId :: "env \<Rightarrow> ('fs, jstring) jl_op" where
  "jl_createEntryId e = (\<lambda>((s, f), w).
     (case generateEntryId e (\<lambda>i. jl_byId s i \<noteq> None) w of (i, w1) \<Rightarrow> (Inr i, (s, f), w1)))"

definition jl_appendEntry :: "'fs FileSystem \<Rightarrow> entry \<Rightarrow> ('fs, unit) jl_op" where
  "jl_appendEntry fs en = (\<lambda>((s, f), w).
     (case fs_appendFile fs (jl_filePath s) (entry_line en) f of (r, f') \<Rightarrow>
       (case getFileSystemResultOrThrow r (js ''Failed to append session entry '' @ e_id en) of
          Inl err \<Rightarrow> (Inl err, (s, f'), w)
        | Inr _ \<Rightarrow>
            (Inr (), (s\<lparr>jl_entries := jl_entries s @ [en], jl_byId := (jl_byId s)(e_id en \<mapsto> en),
                        jl_labelsById := updateLabelCache (jl_labelsById s) en,
                        jl_currentLeafId := leafIdAfterEntry en\<rparr>, f'), w))))"

definition jl_getEntry :: "jstring \<Rightarrow> ('fs, entry option) jl_op" where
  "jl_getEntry i = (\<lambda>((s, f), w). (Inr (jl_byId s i), (s, f), w))"

definition jl_findEntries :: "entry_type \<Rightarrow> ('fs, entry list) jl_op" where
  "jl_findEntries ty = (\<lambda>((s, f), w). (Inr (filter (\<lambda>en. e_type en = ty) (jl_entries s)), (s, f), w))"

definition jl_getLabel :: "jstring \<Rightarrow> ('fs, jstring option) jl_op" where
  "jl_getLabel i = (\<lambda>((s, f), w). (Inr (jl_labelsById s i), (s, f), w))"

text \<open>The walk to the root is that of the in-memory storage, line for line.\<close>

definition jl_getPathToRoot :: "jstring option \<Rightarrow> ('fs, entry list) jl_op" where
  "jl_getPathToRoot leafId = (\<lambda>((s, f), w). (getPathToRoot (jl_byId s) leafId, (s, f), w))"

definition jl_getEntries :: "('fs, entry list) jl_op" where
  "jl_getEntries = (\<lambda>((s, f), w). (Inr (jl_entries s), (s, f), w))"

definition jsonl_ops :: "'fs FileSystem \<Rightarrow> env \<Rightarrow> (JsonlSessionStorage \<times> 'fs) SessionStorage" where
  "jsonl_ops fs e =
     \<lparr>so_getLeafId = jl_getLeafId, so_setLeafId = jl_setLeafId fs e, so_createEntryId = jl_createEntryId e,
      so_appendEntry = jl_appendEntry fs, so_getEntry = jl_getEntry, so_findEntries = jl_findEntries,
      so_getLabel = jl_getLabel, so_getPathToRoot = jl_getPathToRoot, so_getEntries = jl_getEntries\<rparr>"

section \<open>The text of a session file\<close>

text \<open>JSON text has no control characters, hence no line breaks, and no unpaired surrogates.\<close>

lemma well_formed_append: "well_formed_utf16 s \<Longrightarrow> well_formed_utf16 t \<Longrightarrow> well_formed_utf16 (s @ t)"
  by (induction s rule: well_formed_utf16.induct) (auto simp: well_formed_Cons split: if_splits)

definition json_text :: "jstring \<Rightarrow> bool" where
  "json_text s \<longleftrightarrow> well_formed_utf16 s \<and> (\<forall>c \<in> set s. \<not> c < 0x20)"

lemma json_text_append: "json_text s \<Longrightarrow> json_text t \<Longrightarrow> json_text (s @ t)"
  by (auto simp: json_text_def well_formed_append)

lemma json_text_Nil [simp]: "json_text []"
  by (simp add: json_text_def)

lemma ascii_Cons: "0x20 \<le> c \<Longrightarrow> c < 0x80 \<Longrightarrow> json_text (c # s) = json_text s"
  by (auto simp: json_text_def well_formed_Cons is_high_def is_low_def word_le_nat_alt word_less_nat_alt)

lemma plain_Cons: "\<not> is_high c \<Longrightarrow> \<not> is_low c \<Longrightarrow> \<not> c < 0x20 \<Longrightarrow> json_text (c # s) = json_text s"
  by (simp add: json_text_def well_formed_Cons)

lemma json_text_ascii: "\<forall>c \<in> set s. 0x20 \<le> c \<and> c < 0x80 \<Longrightarrow> json_text s"
  by (induction s) (auto simp: ascii_Cons)

lemma json_text_concat: "\<forall>s \<in> set ss. json_text s \<Longrightarrow> json_text (concat ss)"
  by (induction ss) (auto intro: json_text_append)

lemma json_text_join: "json_text sep \<Longrightarrow> \<forall>s \<in> set ss. json_text s \<Longrightarrow> json_text (join sep ss)"
  by (induction sep ss rule: join.induct) (auto intro!: json_text_append)

lemma json_text_hex4: "json_text (hex4 c)"
proof -
  define h where "h d = (if d < 10 then of_nat (48 + d) else of_nat (87 + d) :: jchar)" for d
  have h: "0x20 \<le> h d \<and> h d < 0x80" if "d < 16" for d
  proof -
    have "unat (of_nat (48 + d) :: jchar) = 48 + d" "unat (of_nat (87 + d) :: jchar) = 87 + d"
      using that by (simp_all only: unat_of_nat take_bit_nat_eq_self_iff) simp_all
    with that show ?thesis by (auto simp: h_def word_le_nat_alt word_less_nat_alt simp del: of_nat_add)
  qed
  have "hex4 c = map (\<lambda>k. h (unat c div 16 ^ k mod 16)) [3, 2, 1, 0]"
    by (simp add: hex4_def h_def Let_def)
  with h show ?thesis by (intro json_text_ascii) simp
qed

lemma json_text_digits: "\<forall>c \<in> set s. is_digit c \<Longrightarrow> json_text s"
  by (intro json_text_ascii) (auto simp: is_digit_def word_le_nat_alt word_less_nat_alt)

lemma json_text_escape: "json_text (escape_json s)"
proof -
  have u: "json_text ([0x5C] @ js ''u'' @ hex4 c @ t)" if "json_text t" for c t
    using json_text_append [OF json_text_hex4 that, of c] by (simp add: js_def ascii_Cons)
  have ch: "json_text (escape_char c @ t)" if "json_text t" "\<not> (is_high c \<or> is_low c)" for c t
    using u [OF that(1), of c] that by (auto simp: escape_char_def js_def ascii_Cons plain_Cons)
  show ?thesis
  proof (induction s rule: escape_json.induct)
    case (2 c)
    then show ?case using u [of "[]" c] ch [of "[]" c] by simp
  next
    case (3 c d cs)
    show ?case
    proof (cases "is_high c \<and> is_low d")
      case True
      with 3(1) show ?thesis
        by (auto simp: json_text_def is_high_def is_low_def word_le_nat_alt word_less_nat_alt)
    next
      case False
      with 3(2) u [of "escape_json (d # cs)" c] ch [of "escape_json (d # cs)" c] show ?thesis by auto
    qed
  qed simp
qed

lemma json_text_quote: "json_text (quote_json s)"
  using json_text_append [OF json_text_escape, of "[0x22]" s] by (simp add: quote_json_def ascii_Cons)

lemma json_text_show_nat [simp]: "json_text (show_nat n)"
  by (rule json_text_digits) (rule show_nat_digits)

lemma json_text_decimal: "json_text (show_decimal d)"
proof (cases d)
  case (Dec m k)
  let ?D = "show_nat (nat \<bar>m\<bar>)"
  have dig: "json_text (take n ?D)" "json_text (drop n ?D)" "json_text [hd ?D]" "json_text (tl ?D)" for n
    using show_nat_digits [of "nat \<bar>m\<bar>"] show_nat_not_Nil [of "nat \<bar>m\<bar>"]
    by (auto intro!: json_text_digits dest: in_set_takeD in_set_dropD) (meson json_text_digits list.set_sel(2) show_nat_not_Nil)
  have "json_text (js ''-'')" "json_text (js ''.'')" "json_text (js ''0.'')" "json_text (js ''e-'')"
      "json_text (replicate n 48)" for n
    by (auto intro!: json_text_ascii simp: js_def)
  with dig Dec show ?thesis
    by (auto simp: show_decimal.simps Let_def show_int_def simp del: js_Nil append_Cons append_Nil intro!: json_text_append)
qed

lemma json_text_stringify: "json_text (stringify v)"
proof (induction v)
  case (JArr vs)
  have "json_text (join (js '','') (map stringify vs))"
    using JArr by (intro json_text_join) (auto simp: js_def ascii_Cons)
  from json_text_append [OF this, of "js '']''"] show ?case by (simp add: js_def ascii_Cons)
next
  case (JObj kvs)
  have "json_text (quote_json (fst p) @ js '':'' @ stringify (snd p))" if "p \<in> set kvs" for p
    using JObj that by (cases p) (auto intro!: json_text_append json_text_quote simp: js_def ascii_Cons)
  then have "json_text (join (js '','') (map (\<lambda>(k, v). quote_json k @ js '':'' @ stringify v) kvs))"
    by (intro json_text_join) (auto simp: js_def ascii_Cons)
  from json_text_append [OF this, of "js ''}''"] show ?case by (simp add: js_def ascii_Cons)
qed (auto simp: js_def ascii_Cons json_text_quote json_text_decimal)

definition session_file :: "SessionHeader \<Rightarrow> entry list \<Rightarrow> jstring" where
  "session_file h ens = concat (map (\<lambda>l. l @ [newline]) (stringify (header_json h) # map (stringify \<circ> entry_json) ens))"

lemma session_file_snoc: "session_file h (ens @ [en]) = session_file h ens @ entry_line en"
  by (simp add: session_file_def entry_line_def)

lemma stringify_obj_hd: "\<exists>t. stringify (obj fs) = 0x7B # t"
  by (simp add: obj_def js_def)

lemma nonblank_session_file:
  "nonblank_lines (session_file h ens) = stringify (header_json h) # map (stringify \<circ> entry_json) ens"
proof -
  have nl: "newline \<notin> set (stringify v)" for v
    using json_text_stringify [of v] by (auto simp: json_text_def)
  have nb: "trim (stringify (obj fs)) \<noteq> []" for fs
    using stringify_obj_hd [of fs] trim_Cons [of "0x7B"] by (auto simp: is_js_space_def)
  have "split_on newline (session_file h ens) =
      (stringify (header_json h) # map (stringify \<circ> entry_json) ens) @ [[]]"
    unfolding session_file_def by (rule split_on_lines) (auto simp: nl)
  then show ?thesis
    by (auto simp: nonblank_lines_def header_json_def entry_json_def nb filter_id_conv)
qed

text \<open>Headers and entries that a file gives back: values an engine can hold, with the parts the checks ask for.\<close>

definition header_ok :: "SessionHeader \<Rightarrow> bool" where
  "header_ok h \<longleftrightarrow> sh_id h \<noteq> [] \<and> sh_timestamp h \<noteq> [] \<and> sh_cwd h \<noteq> []"

definition storable_body :: "entry_body \<Rightarrow> bool" where
  "storable_body b \<longleftrightarrow> own_roles b \<and> (\<forall>f \<in> set (body_fields b). case snd f of None \<Rightarrow> True | Some v \<Rightarrow> canonical v)"

definition storable :: "entry \<Rightarrow> bool" where
  "storable en \<longleftrightarrow> e_id en \<noteq> [] \<and> e_timestamp en \<noteq> [] \<and> storable_body (e_body en)"

lemma plain_names [simp]: "plain_name (CHR ''t'' # s)" "plain_name (CHR ''i'' # s)" "plain_name (CHR ''p'' # s)" "plain_name (CHR ''v'' # s)"
  "plain_name (CHR ''c'' # s)" "plain_name (CHR ''m'' # s)" "plain_name (CHR ''a'' # s)" "plain_name (CHR ''s'' # s)"
  "plain_name (CHR ''f'' # s)" "plain_name (CHR ''d'' # s)" "plain_name (CHR ''l'' # s)" "plain_name (CHR ''n'' # s)"
  "plain_name (CHR ''r'' # s)" "plain_name (CHR ''u'' # s)" "plain_name (CHR ''o'' # s)" "plain_name (CHR ''e'' # s)"
  by (simp_all add: plain_name_def is_digit_def)

lemma canonical_entry:
  assumes "storable_body (e_body en)"
  shows "canonical (entry_json en)"
proof -
  have "\<forall>k \<in> fst ` set (entry_fields en). plain_name k"
    by (cases "e_body en") (simp_all add: entry_fields_def)
  from canonical_obj [OF distinct_entry_fields this] assms show ?thesis
    by (auto simp: entry_json_def entry_fields_def storable_body_def)
qed

lemma parse_header_text:
  assumes "header_ok h"
  shows "parseHeaderLine (stringify (header_json h)) path = Inr h"
proof -
  have "canonical (header_json h)"
    unfolding header_json_def by (subst canonical_obj) (auto split: option.split)
  then have "json_parse (stringify (header_json h)) = Some (header_json h)" by (rule json_parse_stringify)
  then show ?thesis
    using assms by (cases "sh_parentSession h")
      (simp_all add: parseHeaderLine_def check_header_def header_json_def obj_def get_prop_props nonempty_str_def header_ok_def)
qed

lemma parse_entry_text:
  assumes "storable en"
  shows "parseEntryLine (stringify (entry_json en)) path n = Inr (Some en)"
proof -
  note get = get_prop_props [OF distinct_entry_fields, of _ en]
  have "json_parse (stringify (entry_json en)) = Some (entry_json en)"
    using assms by (intro json_parse_stringify canonical_entry) (simp add: storable_def)
  moreover have "entry_fault (props (entry_fields en)) = None"
    using assms unfolding entry_fault_def Let_def get
    by (cases "e_body en") (simp_all add: entry_fields_def nonempty_str_def storable_def)
  moreover have "json_entry (entry_json en) = Some en"
    using assms by (intro entry_codec) (simp add: storable_def storable_body_def)
  ultimately show ?thesis
    by (simp add: parseEntryLine_def entry_json_def obj_def)
qed

lemma parse_entries_text:
  "\<forall>en \<in> set ens. storable en \<Longrightarrow> parse_entries path n (map (stringify \<circ> entry_json) ens) = Inr (Some ens)"
  by (induction ens arbitrary: n) (simp_all add: parse_entry_text)

lemma parse_session_file:
  "header_ok h \<Longrightarrow> \<forall>en \<in> set ens. storable en \<Longrightarrow> parse_content path (session_file h ens) = Inr (Some (h, ens))"
  by (simp add: parse_content_def nonblank_session_file parse_header_text parse_entries_text)

section \<open>What sessions append\<close>

fun storable_command :: "session_command \<Rightarrow> bool" where
  "storable_command (CMove t (Some (text, details, fromHook))) = (case details of None \<Rightarrow> True | Some v \<Rightarrow> canonical v)"
| "storable_command c = (case plain_body c of None \<Rightarrow> True | Some b \<Rightarrow> storable_body b)"

definition dated :: "env \<Rightarrow> bool" where
  "dated e \<longleftrightarrow> (\<forall>t. env_iso e t \<noteq> [])"

lemma storable_new:
  "dated e \<Longrightarrow> appendable ents en \<Longrightarrow> e_timestamp en \<in> range (env_iso e) \<Longrightarrow> storable_body (e_body en) \<Longrightarrow> storable en"
  by (force simp: dated_def appendable_def storable_def image_iff)

lemma storable_bodies [simp]:
  "storable_body (LeafE t)" "storable_body (LabelE i l)"
  "storable_body (BranchSummaryE \<lparr>be_fromId = f, be_summary = u, be_details = d, be_fromHook = h\<rparr>) \<longleftrightarrow>
     (case d of None \<Rightarrow> True | Some v \<Rightarrow> canonical v)"
  by (auto simp: storable_body_def split: option.splits)

context session_storage begin

text \<open>Every command extends the log by storable entries, or leaves it.\<close>

lemma perform_storable:
  assumes "good s" and "fresh_source e w (logS s)" and "ticks_left 202 w" and "dated e" and "storable_command c"
    and "perform (ops e) e c (s, w) = (r, s', w')"
  shows "\<exists>new. logS s' = logS s @ new \<and> (\<forall>en \<in> set new. storable en)"
proof -
  have t: "ticks_left 100 w" using assms(3) by (simp add: ticks_left_def)
  have app: ?thesis if b: "storable_body body" "\<And>t. body \<noteq> LeafE t"
    and p: "perform (ops e) e c = bindS (appendBody (ops e) e body) (\<lambda>i. returnS (Some i))" for body
  proof -
    obtain en s1 w1 where "appendBody (ops e) e body (s, w) = (Inr (e_id en), s1, w1)"
      "logS s1 = logS s @ [en]" "e_body en = body" "e_timestamp en \<in> range (env_iso e)" "appendable (logS s) en"
      using appendBody_run [OF assms(1,2) t, of body] b(2) by metis
    with assms(4,6) p b(1) storable_new show ?thesis by (auto simp: op_simps)
  qed
  show ?thesis
  proof (cases c)
    case (CLabel i l)
    show ?thesis
    proof (cases "i \<in> log_ids (logS s)")
      case True
      obtain en s1 w1 where "appendBody (ops e) e (LabelE i l) (s, w) = (Inr (e_id en), s1, w1)"
        "logS s1 = logS s @ [en]" "e_body en = LabelE i l" "e_timestamp en \<in> range (env_iso e)" "appendable (logS s) en"
        by (rule appendBody_run [OF assms(1,2) t, of "LabelE i l"]) auto
      with assms(4,6) CLabel appendLabel_found [OF assms(1) True, of e l w] storable_new show ?thesis
        by (auto simp: op_simps)
    next
      case False
      with CLabel appendLabel_missing [OF assms(1) False, of e l w] assms(6) show ?thesis
        by (auto simp: op_simps)
    qed
  next
    case (CMove t' summary)
    show ?thesis
    proof (cases "valid_target (logS s) t'")
      case True
      show ?thesis
      proof (cases summary)
        case None
        obtain en s1 w1 where "moveTo (ops e) e t' None (s, w) = (Inr None, s1, w1)"
          "logS s1 = logS s @ [en]" "e_body en = LeafE t'" "e_timestamp en \<in> range (env_iso e)" "appendable (logS s) en"
          using moveTo_plain [OF assms(1,2) t True] by metis
        with assms(4,6) CMove None storable_new [OF assms(4)] show ?thesis by fastforce
      next
        case (Some x)
        then obtain u details fromHook where x: "summary = Some (u, details, fromHook)" by (cases x) auto
        obtain lf en s1 w1 where m: "moveTo (ops e) e t' (Some (u, details, fromHook)) (s, w) = (Inr (Some (e_id en)), s1, w1)"
          "logS s1 = logS s @ [lf, en]" and lf: "e_body lf = LeafE t'" "e_timestamp lf \<in> range (env_iso e)" "appendable (logS s) lf"
          and en: "e_body en = BranchSummaryE \<lparr>be_fromId = (case t' of Some f \<Rightarrow> f | None \<Rightarrow> js ''root''), be_summary = u,
             be_details = details, be_fromHook = fromHook\<rparr>" "e_timestamp en \<in> range (env_iso e)" "appendable (logS s @ [lf]) en"
          using moveTo_summary [OF assms(1-3) True] by metis
        have "storable lf" using storable_new [OF assms(4) lf(3,2)] lf(1) by simp
        moreover have "storable en" using storable_new [OF assms(4) en(3,2)] en(1) assms(5) CMove x by simp
        ultimately show ?thesis using m assms(6) CMove x by auto
      qed
    next
      case False
      with CMove moveTo_missing [OF assms(1) False, of e summary w] assms(6) show ?thesis by auto
    qed
  qed (use assms(5) in \<open>auto intro!: app simp: append_defs\<close>)
qed

lemma perform_all_storable:
  assumes "good s" and "fresh_source e w (logS s)" and "ticks_left (204 * length cs + 202) w"
    and "dated e" and "\<forall>c \<in> set cs. storable_command c"
    and "perform_all (ops e) e cs (s, w) = (s', w')"
  shows "\<exists>new. logS s' = logS s @ new \<and> (\<forall>en \<in> set new. storable en)"
  using assms
proof (induction cs arbitrary: s w)
  case (Cons c cs)
  obtain r s1 w1 where p: "perform (ops e) e c (s, w) = (r, s1, w1)" by (metis prod_cases3)
  have t: "ticks_left 202 w" using Cons.prems(3) by (simp add: ticks_left_def)
  note step = perform_step [OF Cons.prems(1,2) t p]
  obtain new where new: "logS s1 = logS s @ new" "\<forall>en \<in> set new. storable en"
    using perform_storable [OF Cons.prems(1,2) t Cons.prems(4) _ p] Cons.prems(5) by auto
  have "ticks_left (204 * length cs + 202) w1" using Cons.prems(3) step by (simp add: ticks_left_def)
  moreover have "perform_all (ops e) e cs (s1, w1) = (s', w')" using Cons.prems(6) p by simp
  moreover have "good s1" "fresh_source e w1 (logS s1)" "\<forall>c \<in> set cs. storable_command c"
    using step Cons.prems(5) by simp_all
  ultimately obtain new' where "logS s' = logS s1 @ new'" "\<forall>en \<in> set new'. storable en"
    using Cons.IH Cons.prems(4) by blast
  with new show ?case by auto
qed simp

end
section \<open>What the storage relies on and what it promises\<close>

text \<open>
  The contract of the file system for the file of a session: text without unpaired surrogates is
  read back as it was written, and appended text goes to the end.
\<close>

locale text_files =
  fixes fs :: "'fs FileSystem"
    and content :: "'fs \<Rightarrow> jstring \<Rightarrow> jstring option"
  assumes read_text: "content f p = Some t \<Longrightarrow> fs_readTextFile fs p f = (Inr t, f)"
    and write_text: "well_formed_utf16 t \<Longrightarrow> fs_writeFile fs p t f = (Inr (), f') \<Longrightarrow> content f' p = Some t"
    and append_text: "well_formed_utf16 t \<Longrightarrow> content f p = Some u \<Longrightarrow>
      \<exists>f'. fs_appendFile fs p t f = (Inr (), f') \<and> content f' p = Some (u @ t)"

text \<open>The caches agree with the entries, and the file holds the header and the entries.\<close>

definition jl_good ::
    "('fs \<Rightarrow> jstring \<Rightarrow> jstring option) \<Rightarrow> jstring \<Rightarrow> SessionHeader \<Rightarrow> JsonlSessionStorage \<times> 'fs \<Rightarrow> bool" where
  "jl_good content path h = (\<lambda>(s, f).
     jl_filePath s = path \<and>
     log_ok (jl_entries s) \<and> jl_byId s = find_entry (jl_entries s) \<and> jl_labelsById s = labels_of (jl_entries s) \<and>
     jl_currentLeafId s = leaf_of (jl_entries s) \<and> jl_metadata s = headerToSessionMetadata h path \<and>
     content f path = Some (session_file h (jl_entries s)))"

lemma entry_line_well_formed: "well_formed_utf16 (entry_line en)"
  using json_text_stringify [of "entry_json en"]
  by (auto simp: entry_line_def json_text_def is_high_def is_low_def intro: well_formed_append)

context text_files begin

lemma append_line:
  assumes "jl_good content path h (s, f)"
  shows "\<exists>f'. fs_appendFile fs (jl_filePath s) (entry_line en) f = (Inr (), f') \<and>
    content f' (jl_filePath s) = Some (session_file h (jl_entries s @ [en]))"
  using append_text [OF entry_line_well_formed, of f "jl_filePath s" "session_file h (jl_entries s)" en] assms
  by (simp add: jl_good_def session_file_snoc)

end

sublocale text_files \<subseteq> jl: session_storage "jsonl_ops fs" "\<lambda>\<sigma>. jl_entries (fst \<sigma>)" "jl_good content path h" for path h
proof
  fix \<sigma> w e en t i w' ty
  assume good: "jl_good content path h \<sigma>"
  obtain s f where \<sigma>: "\<sigma> = (s, f)" by (cases \<sigma>)
  from good have log: "log_ok (jl_entries s)" and byId: "jl_byId s = find_entry (jl_entries s)"
    and leaf: "jl_currentLeafId s = leaf_of (jl_entries s)"
    by (simp_all add: jl_good_def \<sigma>)
  have has: "(\<lambda>i. \<exists>y. find_entry (jl_entries s) i = Some y) = (\<lambda>i. i \<in> log_ids (jl_entries s))"
    using find_entry_None_iff [of "jl_entries s"] by (metis not_None_eq)
  show "log_ok (jl_entries (fst \<sigma>))" using log \<sigma> by simp
  show "so_getLeafId (jsonl_ops fs e) (\<sigma>, w) = (Inr (leaf_of (jl_entries (fst \<sigma>))), \<sigma>, w)"
    using valid_leaf [OF log] not_leaf_missing by (simp add: \<sigma> jsonl_ops_def jl_getLeafId_def byId leaf)
  show "so_getEntry (jsonl_ops fs e) i (\<sigma>, w) = (Inr (find_entry (jl_entries (fst \<sigma>)) i), \<sigma>, w)"
    by (simp add: \<sigma> jsonl_ops_def jl_getEntry_def byId)
  show "so_getEntries (jsonl_ops fs e) (\<sigma>, w) = (Inr (jl_entries (fst \<sigma>)), \<sigma>, w)"
    by (simp add: \<sigma> jsonl_ops_def jl_getEntries_def)
  show "so_findEntries (jsonl_ops fs e) ty (\<sigma>, w) =
      (Inr (filter (\<lambda>en. e_type en = ty) (jl_entries (fst \<sigma>))), \<sigma>, w)"
    by (simp add: \<sigma> jsonl_ops_def jl_findEntries_def)
  show "so_getLabel (jsonl_ops fs e) i (\<sigma>, w) = (Inr (labels_of (jl_entries (fst \<sigma>)) i), \<sigma>, w)"
    using good by (simp add: \<sigma> jsonl_ops_def jl_getLabel_def jl_good_def)
  show "so_createEntryId (jsonl_ops fs e) (\<sigma>, w) =
      (Inr (fst (generateEntryId e (\<lambda>i. i \<in> log_ids (jl_entries (fst \<sigma>))) w)), \<sigma>,
       snd (generateEntryId e (\<lambda>i. i \<in> log_ids (jl_entries (fst \<sigma>))) w))"
    by (simp add: \<sigma> jsonl_ops_def jl_createEntryId_def byId has case_prod_beta)
  show "so_getPathToRoot (jsonl_ops fs e) t (\<sigma>, w) = (Inr (path_of (jl_entries (fst \<sigma>)) t), \<sigma>, w)"
    if "valid_target (jl_entries (fst \<sigma>)) t"
    using getPathToRoot_path_of [OF log] that by (simp add: \<sigma> jsonl_ops_def jl_getPathToRoot_def byId)
  show "\<exists>msg. so_getPathToRoot (jsonl_ops fs e) t (\<sigma>, w) = (Inl (SessionError NotFound msg), \<sigma>, w)"
    if "\<not> valid_target (jl_entries (fst \<sigma>)) t"
    using getPathToRoot_missing that by (fastforce simp: \<sigma> jsonl_ops_def jl_getPathToRoot_def byId)
  show "\<exists>\<sigma>'. so_appendEntry (jsonl_ops fs e) en (\<sigma>, w) = (Inr (), \<sigma>', w) \<and> jl_good content path h \<sigma>' \<and>
      jl_entries (fst \<sigma>') = jl_entries (fst \<sigma>) @ [en]" if "appendable (jl_entries (fst \<sigma>)) en"
    using that good append_line [of path h s f en]
    by (auto simp: \<sigma> jsonl_ops_def jl_appendEntry_def jl_good_def getFileSystemResultOrThrow_def)
  show "\<exists>\<sigma>'. so_setLeafId (jsonl_ops fs e) t (\<sigma>, w) = (Inr (), \<sigma>', w'\<lparr>w_ticks := Suc (w_ticks w')\<rparr>) \<and>
      jl_good content path h \<sigma>' \<and> jl_entries (fst \<sigma>') = jl_entries (fst \<sigma>) @
        [new_entry i (leaf_of (jl_entries (fst \<sigma>))) (env_iso e (env_clock e (w_ticks w'))) (LeafE t)]"
    if "valid_target (jl_entries (fst \<sigma>)) t" and g: "generateEntryId e (\<lambda>i. i \<in> log_ids (jl_entries (fst \<sigma>))) w = (i, w')"
      and "i \<noteq> []" and "i \<notin> log_ids (jl_entries (fst \<sigma>))"
  proof -
    let ?en = "new_entry i (leaf_of (jl_entries s)) (env_iso e (env_clock e (w_ticks w'))) (LeafE t)"
    obtain f' where f': "fs_appendFile fs (jl_filePath s) (entry_line ?en) f = (Inr (), f')"
      "content f' (jl_filePath s) = Some (session_file h (jl_entries s @ [?en]))"
      using append_line [of path h s f ?en] good \<sigma> by auto
    show ?thesis
      using that good f' not_leaf_missing [of "jl_entries s" t] log_ok_leaf [OF log]
      by (auto simp: \<sigma> jsonl_ops_def jl_setLeafId_def byId leaf has iso_now_def date_now_def jl_good_def Let_def
          appendable_def valid_target_def leafIdAfterEntry_def updateLabelCache_def getFileSystemResultOrThrow_def)
  qed
  show "\<exists>msg. so_setLeafId (jsonl_ops fs e) t (\<sigma>, w) = (Inl (SessionError NotFound msg), \<sigma>, w)"
    if "\<not> valid_target (jl_entries (fst \<sigma>)) t"
    using that not_leaf_missing [of "jl_entries s" t]
    by (auto simp: \<sigma> jsonl_ops_def jl_setLeafId_def byId)
qed
section \<open>Opening what was written\<close>

context text_files begin

lemma create_good:
  assumes "jl_create fs e path cwd i parent (f, w) = (Inr s, f', w')"
  shows "\<exists>h. jl_good content path h (s, f') \<and> jl_entries s = [] \<and> w' = w\<lparr>w_ticks := Suc (w_ticks w)\<rparr> \<and>
    sh_id h = i \<and> sh_cwd h = cwd \<and> sh_timestamp h \<in> range (env_iso e)"
proof -
  let ?h = "\<lparr>sh_id = i, sh_timestamp = env_iso e (env_clock e (w_ticks w)), sh_cwd = cwd, sh_parentSession = parent\<rparr>"
  have "well_formed_utf16 (stringify (header_json ?h) @ [newline])"
    using json_text_stringify [of "header_json ?h"]
    by (auto simp: json_text_def is_high_def is_low_def intro: well_formed_append)
  from write_text [OF this, of path f f'] assms show ?thesis
    by (intro exI [of _ ?h])
      (auto simp: jl_create_def Let_def iso_now_def date_now_def getFileSystemResultOrThrow_def jl_construct_def
        jl_good_def buildLabelsById_def session_file_def split: sum.splits prod.splits)
qed

lemma open_good:
  assumes "jl_good content path h (s, f)" "header_ok h" "\<forall>en \<in> set (jl_entries s). storable en"
  shows "jl_open fs (jl_filePath s) f = (Inr (Some s), f)"
proof -
  have "content f (jl_filePath s) = Some (session_file h (jl_entries s))"
    using assms(1) by (simp add: jl_good_def)
  then have l: "loadJsonlStorage fs (jl_filePath s) f = (Inr (Some (h, jl_entries s)), f)"
    using read_text parse_session_file [OF assms(2,3)]
    by (simp add: loadJsonlStorage_def getFileSystemResultOrThrow_def)
  have byId: "foldl (\<lambda>m en. m(e_id en \<mapsto> en)) Map.empty ens = find_entry ens" for ens
    by (induction ens rule: rev_induct) simp_all
  have leaf: "foldl (\<lambda>_ en. leafIdAfterEntry en) None ens = leaf_of ens" for ens
    by (induction ens rule: rev_induct) simp_all
  have "jl_construct (jl_filePath s) h (jl_entries s) (leaf_of (jl_entries s)) = s"
    using assms(1) by (simp add: jl_construct_def jl_good_def byId buildLabelsById_def labels_of_def)
  with l leaf show ?thesis by (simp add: jl_open_def)
qed

text \<open>A session that is created, used, and opened again.\<close>

lemma session_reopens:
  assumes "jl_create fs e path cwd i parent (f0, w0) = (Inr s0, f, w)" "clock_ok e" "dated e" "world_ok w0"
    and "i \<noteq> []" "cwd \<noteq> []" "ticks_left (204 * length cs + 203) w0" "\<forall>c \<in> set cs. storable_command c"
    and "perform_all (jsonl_ops fs e) e cs ((s0, f), w) = ((s, f'), w')"
  shows "jl_open fs path f' = (Inr (Some s), f') \<and> log_ok (jl_entries s)"
proof -
  from create_good [OF assms(1)] obtain h where g: "jl_good content path h (s0, f)" "jl_entries s0 = []"
      "w = w0\<lparr>w_ticks := Suc (w_ticks w0)\<rparr>" and h: "sh_id h = i" "sh_cwd h = cwd" "sh_timestamp h \<in> range (env_iso e)"
    by blast
  have w: "fresh_source e w (jl_entries s0)" "ticks_left (204 * length cs + 202) w"
    using assms(2,4,7) g(2,3) by (auto simp: fresh_source_def world_ok_def ticks_left_def)
  have hok: "header_ok h" using h assms(3,5,6) by (force simp: header_ok_def dated_def image_iff)
  have good: "jl_good content path h (s, f')"
    using jl.perform_all_run [of path h "(s0, f)" e w cs "(s, f')" w'] g(1) w assms(9) by simp
  have st: "\<forall>en \<in> set (jl_entries s). storable en"
    using jl.perform_all_storable [of path h "(s0, f)" e w cs "(s, f')" w'] g(1,2) w assms(3,8,9) by auto
  from open_good [OF good hok st] good show ?thesis by (simp add: jl_good_def)
qed

end
section \<open>The files of Node\<close>

text \<open>
  The text files behind \<open>NodeExecutionEnv\<close>, by absolute path: encoding text as UTF-8 replaces
  unpaired surrogates, and parent directories are created. The resolution of a path against the
  working directory and the splitting into lines by \<open>readline\<close> are Node's.
\<close>

type_synonym node_files = "jstring \<rightharpoonup> jstring"

definition not_found_error :: "jstring \<Rightarrow> FileError" where
  "not_found_error path =
     \<lparr>fe_code = FileNotFound, fe_message = js ''ENOENT: no such file or directory, open '' @ [39] @ path @ [39]\<rparr>"

definition env_readTextFile :: "(jstring \<Rightarrow> jstring) \<Rightarrow> jstring \<Rightarrow> (node_files, jstring) file_op" where
  "env_readTextFile resolve path = (\<lambda>files.
     (case files (resolve path) of Some t \<Rightarrow> Inr t | None \<Rightarrow> Inl (not_found_error (resolve path)), files))"

definition env_readTextLines ::
    "(jstring \<Rightarrow> jstring) \<Rightarrow> (jstring \<Rightarrow> jstring list) \<Rightarrow> jstring \<Rightarrow> nat option \<Rightarrow> (node_files, jstring list) file_op" where
  "env_readTextLines resolve readline path maxLines = (\<lambda>files.
     (if maxLines = Some 0 then Inr []
      else case files (resolve path) of
             Some t \<Rightarrow> Inr (case maxLines of Some n \<Rightarrow> take n (readline t) | None \<Rightarrow> readline t)
           | None \<Rightarrow> Inl (not_found_error (resolve path)), files))"

definition env_writeFile :: "(jstring \<Rightarrow> jstring) \<Rightarrow> jstring \<Rightarrow> jstring \<Rightarrow> (node_files, unit) file_op" where
  "env_writeFile resolve path t = (\<lambda>files. (Inr (), files(resolve path \<mapsto> replaceUnpairedSurrogates t)))"

definition env_appendFile :: "(jstring \<Rightarrow> jstring) \<Rightarrow> jstring \<Rightarrow> jstring \<Rightarrow> (node_files, unit) file_op" where
  "env_appendFile resolve path t = (\<lambda>files.
     (Inr (), files(resolve path \<mapsto>
        (case files (resolve path) of Some u \<Rightarrow> u | None \<Rightarrow> []) @ replaceUnpairedSurrogates t)))"

definition node_fs :: "(jstring \<Rightarrow> jstring) \<Rightarrow> (jstring \<Rightarrow> jstring list) \<Rightarrow> node_files FileSystem" where
  "node_fs resolve readline =
     \<lparr>fs_readTextFile = env_readTextFile resolve, fs_readTextLines = env_readTextLines resolve readline,
      fs_writeFile = env_writeFile resolve, fs_appendFile = env_appendFile resolve\<rparr>"

interpretation node: text_files "node_fs resolve readline" "\<lambda>files p. files (resolve p)" for resolve readline
  by unfold_locales
    (auto simp: node_fs_def env_readTextFile_def env_writeFile_def env_appendFile_def replace_well_formed_id)

section \<open>What a session file promises\<close>

text \<open>Claim C6: a session that is created in a file and used by any sequence of session operations,
  failing calls included, is read back from the file exactly as it is in memory: the same entries,
  labels, leaf and metadata. The values in it must be ones an engine can hold (canonical numbers and
  objects), and the dates the clock prints are not empty.\<close>

theorem jsonl_session_reopens:
  assumes "jl_create (node_fs resolve readline) e path cwd i parent (files0, w0) = (Inr s0, files, w)"
    and "clock_ok e" "dated e" "world_ok w0" "i \<noteq> []" "cwd \<noteq> []" "ticks_left (204 * length cs + 203) w0"
    and "\<forall>c \<in> set cs. storable_command c"
    and "perform_all (jsonl_ops (node_fs resolve readline) e) e cs ((s0, files), w) = ((s, files'), w')"
  shows "jl_open (node_fs resolve readline) path files' = (Inr (Some s), files')"
  using node.session_reopens [OF assms] by simp

definition dated_clock :: env where
  "dated_clock = still_clock\<lparr>env_iso := (\<lambda>_. js ''2025-01-01'')\<rparr>"

theorem jsonl_session_reopens_witness:
  "let fs = node_fs id (\<lambda>_. []);
       (r0, files, w) = jl_create fs dated_clock (js ''f'') (js ''/'') (js ''s'') None (Map.empty, init_world)
   in case r0 of Inl _ \<Rightarrow> False
      | Inr s0 \<Rightarrow>
          let ((s, files'), w') = perform_all (jsonl_ops fs dated_clock) dated_clock
                [CMessage (Msg (user_text [0xD800] 0)), CLabel (js ''zz'') None, CMove None None] ((s0, files), w)
          in jl_open fs (js ''f'') files' = (Inr (Some s), files')"
proof -
  let ?fs = "node_fs id (\<lambda>_. [])"
  let ?cs = "[CMessage (Msg (user_text [0xD800] 0)), CLabel (js ''zz'') None, CMove None None]"
  obtain s0 files w where c: "jl_create ?fs dated_clock (js ''f'') (js ''/'') (js ''s'') None (Map.empty, init_world) = (Inr s0, files, w)"
    by (simp add: jl_create_def iso_now_def date_now_def Let_def node_fs_def env_writeFile_def getFileSystemResultOrThrow_def)
  obtain s files' w' where p: "perform_all (jsonl_ops ?fs dated_clock) dated_clock ?cs ((s0, files), w) = ((s, files'), w')"
    by (metis prod.collapse)
  have k: "clock_ok dated_clock" "dated dated_clock"
    using clock_ok_still by (simp_all add: dated_clock_def clock_ok_def dated_def)
  have t: "ticks_left (204 * length ?cs + 203) init_world" by (rule demo_ticks) simp
  have m: "canonical (message_json (Msg (user_text u 0)))" for u
    unfolding message_json_def by (subst canonical_obj) (simp_all add: user_text_def canonical_obj)
  then have st: "\<forall>c \<in> set ?cs. storable_command c"
    by (simp add: storable_body_def)
  from jsonl_session_reopens [OF c k world_ok_init _ _ t st p] show ?thesis
    unfolding Let_def c prod.case sum.case p by simp
qed
end
