(* ===== verification/Digits.thy ===== *)
theory Digits
  imports JsonParse
begin

text \<open>
  Digits in regular expressions: \<open>\d+\<close> at the start of a text and \<open>\d+\<close> for a whole text, as the
  parsers of terminal input and of diffs use them, and that they read what is printed.
\<close>

definition all_digits :: "jstring \<Rightarrow> bool" where
  "all_digits s \<longleftrightarrow> s \<noteq> [] \<and> (\<forall>c \<in> set s. is_digit c)"

text \<open>One or more digits, and what follows them.\<close>

definition some_digits :: "jstring \<Rightarrow> (jstring \<times> jstring) option" where
  "some_digits s =
     (let ds = takeWhile is_digit s in if ds = [] then None else Some (ds, dropWhile is_digit s))"

lemma takeWhile_digits: "s = [] \<or> \<not> is_digit (hd s) \<Longrightarrow> takeWhile is_digit (show_nat n @ s) = show_nat n"
  and dropWhile_digits: "s = [] \<or> \<not> is_digit (hd s) \<Longrightarrow> dropWhile is_digit (show_nat n @ s) = s"
  using show_nat_digits [of n] by (cases s; simp add: takeWhile_append2 dropWhile_append2)+

lemma some_digits_show: "s = [] \<or> \<not> is_digit (hd s) \<Longrightarrow> some_digits (show_nat n @ s) = Some (show_nat n, s)"
  by (simp add: some_digits_def takeWhile_digits dropWhile_digits)

end
