(* ===== verification/PromptTemplates.thy ===== *)
theory PromptTemplates
  imports Files JsonlStorage Digits
begin

text \<open>
  \<open>packages/agent/src/harness/prompt-templates.ts\<close>: loading of prompt templates from files, the
  arguments of a command line, and their substitution for the placeholders of a template. The YAML
  parser and the collation of file names are parameters.
\<close>

section \<open>Loading\<close>

record PromptTemplate =
  pt_name :: jstring
  pt_description :: jstring
  pt_content :: jstring

text \<open>The properties of the parsed front matter; \<open>null\<close> and no front matter have none.\<close>

definition frontmatter_props :: "json \<Rightarrow> (jstring \<times> json) list" where
  "frontmatter_props j = (case record_props j of Some kvs \<Rightarrow> kvs | None \<Rightarrow> [])"

definition string_prop :: "string \<Rightarrow> (jstring \<times> json) list \<Rightarrow> jstring option" where
  "string_prop k kvs = (case get_prop (js k) kvs of Some (JStr s) \<Rightarrow> Some s | _ \<Rightarrow> None)"

definition parseFrontmatter ::
    "(jstring \<Rightarrow> jstring + json) \<Rightarrow> jstring \<Rightarrow> jstring + (jstring \<times> json) list \<times> jstring" where
  "parseFrontmatter yaml content =
     (case split_frontmatter content of
        (None, body) \<Rightarrow> Inr ([], body)
      | (Some yamlString, body) \<Rightarrow>
          (case yaml yamlString of Inl msg \<Rightarrow> Inl msg | Inr j \<Rightarrow> Inr (frontmatter_props j, body)))"

definition template_description :: "(jstring \<times> json) list \<Rightarrow> jstring \<Rightarrow> jstring" where
  "template_description frontmatter body =
     (let description = (case string_prop ''description'' frontmatter of Some d \<Rightarrow> d | None \<Rightarrow> [])
      in if description \<noteq> [] then description
         else (case find (\<lambda>l. trim l \<noteq> []) (split_on newline body) of
             None \<Rightarrow> []
           | Some firstLine \<Rightarrow> take 60 firstLine @ (if length firstLine > 60 then js ''...'' else [])))"

definition loadTemplateFromFile ::
    "(jstring \<Rightarrow> jstring + json) \<Rightarrow> ('fs, 'b) ResourceFiles_scheme \<Rightarrow> jstring \<Rightarrow> 'fs \<Rightarrow>
     (PromptTemplate option \<times> Diagnostic list) \<times> 'fs" where
  "loadTemplateFromFile yaml fs filePath f =
     (case fs_readTextFile fs filePath f of
        (Inl err, f1) \<Rightarrow> ((None, [\<lparr>dg_code = ReadFailed, dg_message = fe_message err, dg_path = filePath\<rparr>]), f1)
      | (Inr rawContent, f1) \<Rightarrow>
          (case parseFrontmatter yaml rawContent of
             Inl msg \<Rightarrow> ((None, [\<lparr>dg_code = ParseFailed, dg_message = msg, dg_path = filePath\<rparr>]), f1)
           | Inr (frontmatter, body) \<Rightarrow>
               ((Some \<lparr>pt_name = strip_markdown (basenameEnvPath filePath),
                       pt_description = template_description frontmatter body, pt_content = body\<rparr>, []), f1)))"

text \<open>The loop over the entries of a directory.\<close>

fun load_template_entries ::
    "(jstring \<Rightarrow> jstring + json) \<Rightarrow> ('fs, 'b) ResourceFiles_scheme \<Rightarrow> FileInfo list \<Rightarrow> 'fs \<Rightarrow>
     (PromptTemplate list \<times> Diagnostic list) \<times> 'fs" where
  "load_template_entries yaml fs [] f = (([], []), f)"
| "load_template_entries yaml fs (en # ens) f =
     (case resolveKind fs en f of ((kind, ds), f1) \<Rightarrow>
       (case (if kind = Some KFile \<and> is_markdown (fi_name en)
              then loadTemplateFromFile yaml fs (fi_path en) f1 else ((None, []), f1)) of ((t, ds'), f2) \<Rightarrow>
         (case load_template_entries yaml fs ens f2 of ((ts, ds''), f3) \<Rightarrow>
           (((case t of Some x \<Rightarrow> [x] | None \<Rightarrow> []) @ ts, ds @ ds' @ ds''), f3))))"

definition loadTemplatesFromDir ::
    "(jstring \<Rightarrow> jstring + json) \<Rightarrow> (jstring \<Rightarrow> jstring \<Rightarrow> bool) \<Rightarrow> ('fs, 'b) ResourceFiles_scheme \<Rightarrow> jstring \<Rightarrow> 'fs \<Rightarrow>
     (PromptTemplate list \<times> Diagnostic list) \<times> 'fs" where
  "loadTemplatesFromDir yaml le fs dir f =
     (case fs_listDir fs dir f of
        (Inl err, f1) \<Rightarrow> (([], [\<lparr>dg_code = ListFailed, dg_message = fe_message err, dg_path = dir\<rparr>]), f1)
      | (Inr entries, f1) \<Rightarrow> load_template_entries yaml fs (sort_by_name le entries) f1)"

definition load_template_path ::
    "(jstring \<Rightarrow> jstring + json) \<Rightarrow> (jstring \<Rightarrow> jstring \<Rightarrow> bool) \<Rightarrow> ('fs, 'b) ResourceFiles_scheme \<Rightarrow> jstring \<Rightarrow> 'fs \<Rightarrow>
     (PromptTemplate list \<times> Diagnostic list) \<times> 'fs" where
  "load_template_path yaml le fs path f =
     (case fs_fileInfo fs path f of
        (Inl err, f1) \<Rightarrow> (([], unless_missing FileInfoFailed path err), f1)
      | (Inr info, f1) \<Rightarrow>
          (case resolveKind fs info f1 of ((kind, ds), f2) \<Rightarrow>
            if kind = Some KDirectory then
              (case loadTemplatesFromDir yaml le fs (fi_path info) f2 of ((ts, ds'), f3) \<Rightarrow> ((ts, ds @ ds'), f3))
            else if kind = Some KFile \<and> is_markdown (fi_name info) then
              (case loadTemplateFromFile yaml fs (fi_path info) f2 of ((t, ds'), f3) \<Rightarrow>
                (((case t of Some x \<Rightarrow> [x] | None \<Rightarrow> []), ds @ ds'), f3))
            else (([], ds), f2)))"

fun loadPromptTemplates ::
    "(jstring \<Rightarrow> jstring + json) \<Rightarrow> (jstring \<Rightarrow> jstring \<Rightarrow> bool) \<Rightarrow> ('fs, 'b) ResourceFiles_scheme \<Rightarrow> jstring list \<Rightarrow> 'fs \<Rightarrow>
     (PromptTemplate list \<times> Diagnostic list) \<times> 'fs" where
  "loadPromptTemplates yaml le fs [] f = (([], []), f)"
| "loadPromptTemplates yaml le fs (path # paths) f =
     (case load_template_path yaml le fs path f of ((ts, ds), f1) \<Rightarrow>
       (case loadPromptTemplates yaml le fs paths f1 of ((ts', ds'), f2) \<Rightarrow> ((ts @ ts', ds @ ds'), f2)))"

fun loadSourcedPromptTemplates ::
    "(jstring \<Rightarrow> jstring + json) \<Rightarrow> (jstring \<Rightarrow> jstring \<Rightarrow> bool) \<Rightarrow> ('fs, 'b) ResourceFiles_scheme \<Rightarrow>
     (PromptTemplate \<Rightarrow> 'source \<Rightarrow> 't) \<Rightarrow> (jstring \<times> 'source) list \<Rightarrow> 'fs \<Rightarrow>
     (('t \<times> 'source) list \<times> (Diagnostic \<times> 'source) list) \<times> 'fs" where
  "loadSourcedPromptTemplates yaml le fs mapPromptTemplate [] f = (([], []), f)"
| "loadSourcedPromptTemplates yaml le fs mapPromptTemplate ((path, source) # inputs) f =
     (case loadPromptTemplates yaml le fs [path] f of ((ts, ds), f1) \<Rightarrow>
       (case loadSourcedPromptTemplates yaml le fs mapPromptTemplate inputs f1 of ((ts', ds'), f2) \<Rightarrow>
         ((map (\<lambda>t. (mapPromptTemplate t source, source)) ts @ ts', map (\<lambda>d. (d, source)) ds @ ds'), f2)))"

section \<open>Arguments\<close>

text \<open>The loop of \<open>parseCommandArgs\<close>: the current argument and the open quote.\<close>

fun parse_args :: "jstring \<Rightarrow> jchar option \<Rightarrow> jstring \<Rightarrow> jstring list" where
  "parse_args current inQuote [] = (if current \<noteq> [] then [current] else [])"
| "parse_args current (Some q) (c # cs) =
     (if c = q then parse_args current None cs else parse_args (current @ [c]) (Some q) cs)"
| "parse_args current None (c # cs) =
     (if c = 0x22 \<or> c = 0x27 then parse_args current (Some c) cs
      else if c = 0x20 \<or> c = 9 then
        (if current \<noteq> [] then current # parse_args [] None cs else parse_args [] None cs)
      else parse_args (current @ [c]) None cs)"

definition parseCommandArgs :: "jstring \<Rightarrow> jstring list" where
  "parseCommandArgs argsString = parse_args [] None argsString"

section \<open>Substitution\<close>

abbreviation dollar :: jchar where
  "dollar \<equiv> 0x24"

text \<open>\<open>args[parseInt(num, 10) - 1] ?? ""\<close>; \<open>digits_value\<close> is \<open>parseInt\<close> on a run of digits.\<close>

definition positional :: "jstring list \<Rightarrow> nat \<Rightarrow> jstring" where
  "positional args n = (if 1 \<le> n \<and> n \<le> length args then args ! (n - 1) else [])"

text \<open>\<open>result.replace(/\$(\d+)/g, ...)\<close>\<close>

function subst_positional :: "jstring list \<Rightarrow> jstring \<Rightarrow> jstring" where
  "subst_positional args [] = []"
| "subst_positional args (c # cs) =
     (if c = dollar \<and> takeWhile is_digit cs \<noteq> []
      then positional args (digits_value (takeWhile is_digit cs)) @ subst_positional args (dropWhile is_digit cs)
      else c # subst_positional args cs)"
  by pat_completeness auto
termination
  by (relation "measure (length \<circ> snd)") (auto simp: le_imp_less_Suc length_dropWhile_le)

text \<open>A match of \<open>\$\{@:(\d+)(?::(\d+))?\}\<close> after its dollar sign: start, length, and the rest.\<close>

definition match_slice :: "jstring \<Rightarrow> (nat \<times> nat option \<times> jstring) option" where
  "match_slice cs =
     (if \<not> prefix (js ''{@:'') cs then None
      else
        (let ds = takeWhile is_digit (drop 3 cs); r = dropWhile is_digit (drop 3 cs)
         in if ds = [] then None
            else (case r of
                c # r' \<Rightarrow>
                  if c = 0x7D then Some (digits_value ds, None, r')
                  else if c = 0x3A \<and> takeWhile is_digit r' \<noteq> [] then
                    (case dropWhile is_digit r' of
                       c' # r'' \<Rightarrow>
                         if c' = 0x7D then Some (digits_value ds, Some (digits_value (takeWhile is_digit r')), r'') else None
                     | [] \<Rightarrow> None)
                  else None
              | [] \<Rightarrow> None)))"

definition slice_args :: "jstring list \<Rightarrow> nat \<Rightarrow> nat option \<Rightarrow> jstring" where
  "slice_args args start len =
     (let from = drop (start - 1) args
      in join (js '' '') (case len of Some l \<Rightarrow> take l from | None \<Rightarrow> from))"

lemma match_slice_shorter: "match_slice cs = Some (n, l, r) \<Longrightarrow> length r < length cs"
proof -
  assume m: "match_slice cs = Some (n, l, r)"
  have dw: "dropWhile is_digit xs = c # t \<Longrightarrow> length t < length xs" for xs c t
    by (metis length_Cons length_dropWhile_le less_eq_Suc_le)
  obtain c t where t: "dropWhile is_digit (drop 3 cs) = c # t" "r = t \<or> (\<exists>c'. dropWhile is_digit t = c' # r)"
    using m unfolding match_slice_def Let_def by (auto split: if_splits list.splits)
  then have "length r \<le> length t" using dw by (metis less_imp_le order_refl)
  with dw [OF t(1)] show ?thesis by simp
qed

function subst_slices :: "jstring list \<Rightarrow> jstring \<Rightarrow> jstring" where
  "subst_slices args [] = []"
| "subst_slices args (c # cs) =
     (if c = dollar then
        (case match_slice cs of
           Some (start, len, r) \<Rightarrow> slice_args args start len @ subst_slices args r
         | None \<Rightarrow> c # subst_slices args cs)
      else c # subst_slices args cs)"
  by pat_completeness auto
termination
  by (relation "measure (length \<circ> snd)") (auto dest: match_slice_shorter)

text \<open>
  \<open>s.replace(/pat/g, template)\<close> for a pattern of plain characters. In the template \<open>$$\<close> stands for a
  dollar sign, \<open>$&\<close> for the match, and \<open>$\<close> before a backquote or a quote for what is before and
  after the match.
\<close>

fun expand_template :: "jstring \<Rightarrow> jstring \<Rightarrow> jstring \<Rightarrow> jstring \<Rightarrow> jstring" where
  "expand_template before matched after (c # d # t) =
     (if c = dollar \<and> d = dollar then dollar # expand_template before matched after t
      else if c = dollar \<and> d = 0x26 then matched @ expand_template before matched after t
      else if c = dollar \<and> d = 0x60 then before @ expand_template before matched after t
      else if c = dollar \<and> d = 0x27 then after @ expand_template before matched after t
      else c # expand_template before matched after (d # t))"
| "expand_template before matched after t = t"

function replace_all :: "jstring \<Rightarrow> jstring \<Rightarrow> jstring \<Rightarrow> jstring \<Rightarrow> jstring" where
  "replace_all pat template before [] = []"
| "replace_all pat template before (c # cs) =
     (if pat \<noteq> [] \<and> prefix pat (c # cs) then
        expand_template before pat (drop (length pat) (c # cs)) template @
        replace_all pat template (before @ pat) (drop (length pat) (c # cs))
      else c # replace_all pat template (before @ [c]) cs)"
  by pat_completeness auto
termination
  by (relation "measure (\<lambda>(pat, template, before, s). length s)") auto

definition substituteArgs :: "jstring \<Rightarrow> jstring list \<Rightarrow> jstring" where
  "substituteArgs content args =
     (let allArgs = join (js '' '') args
      in replace_all (js ''$@'') allArgs []
           (replace_all (js ''$ARGUMENTS'') allArgs []
             (subst_slices args (subst_positional args content))))"

definition formatPromptTemplateInvocation :: "PromptTemplate \<Rightarrow> jstring list \<Rightarrow> jstring" where
  "formatPromptTemplateInvocation template args = substituteArgs (pt_content template) args"

section \<open>Quoted arguments\<close>

text \<open>In double quotes, or in single quotes when there are double quotes in it.\<close>

definition quote_arg :: "jstring \<Rightarrow> jstring" where
  "quote_arg a = (if 0x22 \<in> set a then [0x27] @ a @ [0x27] else [0x22] @ a @ [0x22])"

definition quotable :: "jstring \<Rightarrow> bool" where
  "quotable a \<longleftrightarrow> 0x22 \<notin> set a \<or> 0x27 \<notin> set a"

lemma parse_quoted: "q \<notin> set a \<Longrightarrow> parse_args cur (Some q) (a @ q # s) = parse_args (cur @ a) None s"
  by (induction a arbitrary: cur) auto

lemma parse_quote_arg: "quotable a \<Longrightarrow> parse_args [] None (quote_arg a @ s) = parse_args a None s"
  using parse_quoted [of "0x22" a "[]" s] parse_quoted [of "0x27" a "[]" s] by (auto simp: quote_arg_def quotable_def)

lemma parse_quoted_args:
  "\<forall>a \<in> set args. quotable a \<Longrightarrow>
     parse_args [] None (join (js '' '') (map quote_arg args)) = filter (\<lambda>a. a \<noteq> []) args"
proof (induction args)
  case (Cons a args)
  then show ?case
  proof (cases "args = []")
    case True
    with Cons.prems parse_quote_arg [of a "[]"] show ?thesis by simp
  next
    case False
    with Cons parse_quote_arg [of a] show ?thesis by (simp add: join_Cons js_def)
  qed
qed simp

section \<open>Templates as placeholders\<close>

datatype token = Text jstring | Positional nat | Slice nat "nat option" | AllArguments | AllAt

fun render :: "token \<Rightarrow> jstring" where
  "render (Text t) = t"
| "render (Positional n) = dollar # show_nat n"
| "render (Slice n None) = dollar # js ''{@:'' @ show_nat n @ [0x7D]"
| "render (Slice n (Some l)) = dollar # js ''{@:'' @ show_nat n @ [0x3A] @ show_nat l @ [0x7D]"
| "render AllArguments = js ''$ARGUMENTS''"
| "render AllAt = js ''$@''"

text \<open>
  What the placeholders stand for, by the numbers of the arguments, which begin at 1: the argument
  with that number; the arguments from a number on (0 counts as 1), at most as many as are asked for.
\<close>

definition numbered :: "'a list \<Rightarrow> (nat \<times> 'a) list" where
  "numbered xs = zip [1..<Suc (length xs)] xs"

fun meaning :: "jstring list \<Rightarrow> token \<Rightarrow> jstring" where
  "meaning args (Text t) = t"
| "meaning args (Positional n) = concat (map snd (filter (\<lambda>(i, a). i = n) (numbered args)))"
| "meaning args (Slice n None) = join (js '' '') (map snd (filter (\<lambda>(i, a). n \<le> i) (numbered args)))"
| "meaning args (Slice n (Some k)) =
     join (js '' '') (map snd (filter (\<lambda>(i, a). n \<le> i \<and> i < max n 1 + k) (numbered args)))"
| "meaning args AllArguments = join (js '' '') args"
| "meaning args AllAt = join (js '' '') args"

lemma numbered_nth:
  "map snd (filter (\<lambda>(i, a). i = n) (zip [m..<m + length xs] xs)) = (if m \<le> n \<and> n < m + length xs then [xs ! (n - m)] else [])"
proof (induction xs arbitrary: m)
  case (Cons x xs)
  have "[m..<m + length (x # xs)] = m # [Suc m..<Suc m + length xs]" by (simp add: upt_rec)
  with Cons [of "Suc m"] show ?case by (auto simp: nth_Cons' Suc_diff_le)
qed simp

lemma numbered_slice:
  "map snd (filter (\<lambda>(i, a). p \<le> i \<and> i < q) (zip [m..<m + length xs] xs)) = take (q - max p m) (drop (p - m) xs)"
proof (induction xs arbitrary: m)
  case (Cons x xs)
  have z: "zip [m..<m + length (x # xs)] (x # xs) = (m, x) # zip [Suc m..<Suc m + length xs] xs" by (simp add: upt_rec)
  note IH = Cons [of "Suc m"]
  show ?case
  proof (cases "p \<le> m")
    case True
    then have "max p (Suc m) = Suc m" "p - Suc m = 0" "max p m = m" "p - m = 0" by auto
    moreover have "q - m = Suc (q - Suc m)" if "m < q" using that by simp
    ultimately show ?thesis unfolding z using IH True by (cases "m < q") (simp_all add: max_def)
  next
    case False
    then have "max p (Suc m) = p" "max p m = p" "p - m = Suc (p - Suc m)" by auto
    then show ?thesis unfolding z using IH False by simp
  qed
qed simp

lemma positional_meaning: "positional args n = meaning args (Positional n)"
  using numbered_nth [of n 1 args] by (auto simp: positional_def numbered_def)

lemma slice_meaning: "slice_args args n l = meaning args (Slice n l)"
proof -
  have "filter (\<lambda>(i, a). n \<le> i) (numbered args) = filter (\<lambda>(i, a). n \<le> i \<and> i < Suc (length args)) (numbered args)"
    by (rule filter_cong) (auto simp: numbered_def simp del: upt_Suc dest: set_zip_leftD)
  then have "map snd (filter (\<lambda>(i, a). n \<le> i) (numbered args)) = drop (n - 1) args"
    using numbered_slice [of n "Suc (length args)" 1 args] by (simp add: numbered_def max_def)
  moreover have "map snd (filter (\<lambda>(i, a). n \<le> i \<and> i < max n 1 + k) (numbered args)) = take k (drop (n - 1) args)" for k
    using numbered_slice [of n "max n 1 + k" 1 args] by (simp add: numbered_def)
  ultimately show ?thesis by (cases l) (simp_all add: slice_args_def)
qed

text \<open>Text has no dollar signs, and after a number it is there and begins with no digit.\<close>

fun separated :: "token list \<Rightarrow> bool" where
  "separated (Positional n # Text t # ts) \<longleftrightarrow> t \<noteq> [] \<and> \<not> is_digit (hd t) \<and> separated (Text t # ts)"
| "separated (Text t # ts) \<longleftrightarrow> dollar \<notin> set t \<and> separated ts"
| "separated (t # ts) \<longleftrightarrow> separated ts"
| "separated [] \<longleftrightarrow> True"

lemma first_not_digit: "separated (Positional n # ts) \<Longrightarrow> concat (map render ts) = [] \<or> \<not> is_digit (hd (concat (map render ts)))"
proof (induction ts)
  case (Cons t ts)
  then show ?case
  proof (cases t)
    case (Slice m l)
    then show ?thesis by (cases l) (simp_all add: is_digit_def)
  qed (auto simp: is_digit_def js_def)
qed simp

text \<open>Each pass leaves plain text alone and expands its own placeholders.\<close>

lemma positional_text: "dollar \<notin> set t \<Longrightarrow> subst_positional args (t @ s) = t @ subst_positional args s"
  by (induction t) auto

lemma slices_text: "dollar \<notin> set t \<Longrightarrow> subst_slices args (t @ s) = t @ subst_slices args s"
  by (induction t) auto

lemma expand_plain: "dollar \<notin> set t \<Longrightarrow> expand_template before matched after t = t"
  by (induction before matched after t rule: expand_template.induct) auto

lemma replace_text: "dollar \<notin> set t \<Longrightarrow> replace_all (dollar # pat) tm before (t @ s) = t @ replace_all (dollar # pat) tm (before @ t) s"
  by (induction t arbitrary: before) auto


lemma plain_join: "\<forall>a \<in> set as. dollar \<notin> set a \<Longrightarrow> dollar \<notin> set (join (js '' '') as)"
  by (induction "js '' ''" as rule: join.induct) (auto simp: js_def)

lemma plain_values:
  assumes "\<forall>a \<in> set args. dollar \<notin> set a"
  shows "dollar \<notin> set (positional args n)" "dollar \<notin> set (slice_args args m l)" "dollar \<notin> set (join (js '' '') args)"
  using assms by (auto simp: positional_def slice_args_def Let_def split: option.splits
      dest!: in_set_takeD in_set_dropD intro!: plain_join)

fun expand_positional :: "jstring list \<Rightarrow> token \<Rightarrow> token" where
  "expand_positional args (Positional n) = Text (positional args n)"
| "expand_positional args t = t"

fun expand_slice :: "jstring list \<Rightarrow> token \<Rightarrow> token" where
  "expand_slice args (Slice n l) = Text (slice_args args n l)"
| "expand_slice args t = t"

definition expand_all :: "token \<Rightarrow> jstring list \<Rightarrow> token \<Rightarrow> token" where
  "expand_all k args t = (if t = k then Text (join (js '' '') args) else t)"

definition plain_texts :: "token list \<Rightarrow> bool" where
  "plain_texts ts \<longleftrightarrow> (\<forall>t. Text t \<in> set ts \<longrightarrow> dollar \<notin> set t)"

abbreviation render_all :: "token list \<Rightarrow> jstring" where
  "render_all ts \<equiv> concat (map render ts)"

lemma show_nat_plain: "dollar \<notin> set (show_nat n)"
  using show_nat_digits [of n] by (auto simp: is_digit_def)

lemma pass_positional: "separated ts \<Longrightarrow> subst_positional args (render_all ts) = render_all (map (expand_positional args) ts)"
proof (induction ts)
  case (Cons t ts)
  have sep: "separated ts" using Cons.prems by (cases "t # ts" rule: separated.cases) auto
  note IH = Cons.IH [OF sep]
  show ?case
  proof (cases t)
    case (Text x)
    then have "dollar \<notin> set x" using Cons.prems by simp
    with Text IH show ?thesis by (simp add: positional_text)
  next
    case (Positional n)
    from first_not_digit [OF Cons.prems [unfolded Positional]] IH Positional show ?thesis
      by (simp add: takeWhile_digits dropWhile_digits)
  next
    case (Slice n l)
    have "subst_positional args (dollar # js ''{@:'' @ show_nat n @ r) = dollar # js ''{@:'' @ show_nat n @ subst_positional args r" for r
      using positional_text [OF show_nat_plain] by (simp add: is_digit_def js_def)
    moreover have "subst_positional args ([0x3A] @ show_nat m @ [0x7D] @ r) = [0x3A] @ show_nat m @ [0x7D] @ subst_positional args r" for r m
      using positional_text [OF show_nat_plain] by simp
    ultimately show ?thesis using Slice IH by (cases l) simp_all
  next
    case AllArguments
    then show ?thesis using IH by (simp add: js_def is_digit_def)
  next
    case AllAt
    then show ?thesis using IH by (simp add: js_def is_digit_def)
  qed
qed simp

lemma match_slice_render:
  "match_slice (js ''{@:'' @ show_nat n @ 0x7D # r) = Some (n, None, r)"
  "match_slice (js ''{@:'' @ show_nat n @ 0x3A # show_nat l @ 0x7D # r) = Some (n, Some l, r)"
  by (simp_all add: match_slice_def takeWhile_digits dropWhile_digits is_digit_def js_def)

lemma pass_slices:
  "plain_texts ts \<Longrightarrow> \<forall>n. Positional n \<notin> set ts \<Longrightarrow> subst_slices args (render_all ts) = render_all (map (expand_slice args) ts)"
proof (induction ts)
  case (Cons t ts)
  then have IH: "subst_slices args (render_all ts) = render_all (map (expand_slice args) ts)"
    by (auto simp: plain_texts_def)
  show ?case
  proof (cases t)
    case (Text x)
    with Cons.prems IH show ?thesis by (simp add: plain_texts_def slices_text)
  next
    case (Slice n l)
    with IH show ?thesis by (cases l) (simp_all add: match_slice_render)
  qed (use Cons.prems IH in \<open>auto simp: js_def match_slice_def\<close>)
qed simp

lemma pass_all:
  assumes k: "k = AllArguments \<or> k = AllAt" and pat: "render k = dollar # pat" and args: "\<forall>a \<in> set args. dollar \<notin> set a"
  shows "plain_texts ts \<Longrightarrow> \<forall>n. Positional n \<notin> set ts \<Longrightarrow> \<forall>n l. Slice n l \<notin> set ts \<Longrightarrow>
    replace_all (dollar # pat) (join (js '' '') args) before (render_all ts) = render_all (map (expand_all k args) ts)"
proof (induction ts arbitrary: before)
  case (Cons t ts)
  have IH: "replace_all (dollar # pat) (join (js '' '') args) b (render_all ts) = render_all (map (expand_all k args) ts)" for b
    using Cons by (auto simp: plain_texts_def)
  show ?case
  proof (cases "t = k")
    case True
    have "render_all (t # ts) = dollar # pat @ render_all ts" using True pat by simp
    moreover have "render (expand_all k args t) = join (js '' '') args" using True by (simp add: expand_all_def)
    ultimately show ?thesis using IH expand_plain [OF plain_values(3) [OF args]] by simp
  next
    case False
    then have e: "expand_all k args t = t" by (simp add: expand_all_def)
    show ?thesis
    proof (cases t)
      case (Text x)
      with Cons.prems e IH show ?thesis by (simp add: plain_texts_def replace_text)
    qed (use False k pat IH e Cons.prems in \<open>auto simp: js_def\<close>)
  qed
qed simp

lemma plain_texts_expand:
  assumes "\<forall>a \<in> set args. dollar \<notin> set a" "plain_texts ts"
  shows "plain_texts (map (expand_positional args) ts)" "plain_texts (map (expand_slice args) ts)"
    "plain_texts (map (expand_all k args) ts)"
proof -
  have "t \<in> set ts \<Longrightarrow> expand_positional args t = Text x \<Longrightarrow> dollar \<notin> set x" for t x
    using assms plain_values(1) [OF assms(1)] by (cases t) (auto simp: plain_texts_def)
  then show "plain_texts (map (expand_positional args) ts)" by (force simp: plain_texts_def)
  have "t \<in> set ts \<Longrightarrow> expand_slice args t = Text x \<Longrightarrow> dollar \<notin> set x" for t x
    using assms plain_values(2) [OF assms(1)] by (cases t) (auto simp: plain_texts_def)
  then show "plain_texts (map (expand_slice args) ts)" by (force simp: plain_texts_def)
  have "t \<in> set ts \<Longrightarrow> expand_all k args t = Text x \<Longrightarrow> dollar \<notin> set x" for t x
    using assms plain_values(3) [OF assms(1)] by (auto simp: plain_texts_def expand_all_def split: if_splits)
  then show "plain_texts (map (expand_all k args) ts)" by (force simp: plain_texts_def)
qed

lemma separated_plain: "separated ts \<Longrightarrow> plain_texts ts"
  by (induction ts rule: separated.induct) (auto simp: plain_texts_def)

text \<open>Claim C22: a template that is a sequence of plain text and placeholders becomes the text with
  every placeholder replaced by what it stands for (an argument, a slice of the arguments, all of
  them, or nothing), in one pass, although the code makes four passes over the growing text. This
  takes arguments without dollar signs, text without dollar signs, and no digit right after a
  numbered placeholder.\<close>

theorem substituteArgs_meaning:
  assumes "separated ts" and "\<forall>a \<in> set args. dollar \<notin> set a"
  shows "substituteArgs (concat (map render ts)) args = concat (map (meaning args) ts)"
proof -
  define ts1 where "ts1 = map (expand_positional args) ts"
  define ts2 where "ts2 = map (expand_slice args) ts1"
  define ts3 where "ts3 = map (expand_all AllArguments args) ts2"
  note plain = plain_texts_expand [OF assms(2)]
  have p: "plain_texts ts1" "plain_texts ts2" "plain_texts ts3"
    unfolding ts3_def ts2_def ts1_def by (intro plain separated_plain [OF assms(1)])+
  have n1: "\<forall>n. Positional n \<notin> set ts1"
  proof -
    have "expand_positional args t \<noteq> Positional n" for t n by (cases t) auto
    then show ?thesis by (auto simp: ts1_def) metis
  qed
  have n2: "\<forall>n. Positional n \<notin> set ts2" "\<forall>n l. Slice n l \<notin> set ts2"
  proof -
    have "expand_slice args t = Positional n \<Longrightarrow> t = Positional n" "expand_slice args t \<noteq> Slice n l" for t n l
      by (cases t; simp)+
    then show "\<forall>n. Positional n \<notin> set ts2" "\<forall>n l. Slice n l \<notin> set ts2"
      using n1 by (auto simp: ts2_def) metis+
  qed
  have n3: "\<forall>n. Positional n \<notin> set ts3" "\<forall>n l. Slice n l \<notin> set ts3"
    using n2 by (auto simp: ts3_def expand_all_def split: if_splits)
  have "substituteArgs (render_all ts) args =
      replace_all (js ''$@'') (join (js '' '') args) []
        (replace_all (js ''$ARGUMENTS'') (join (js '' '') args) [] (render_all ts2))"
    using pass_positional [OF assms(1)] pass_slices [OF p(1) n1] unfolding substituteArgs_def Let_def by (simp add: ts1_def ts2_def)
  also have "\<dots> = render_all (map (expand_all AllAt args) ts3)"
    using pass_all [of AllArguments "js ''ARGUMENTS''" args ts2 "[]", OF _ _ assms(2) p(2) n2]
      pass_all [of AllAt "js ''@''" args ts3 "[]", OF _ _ assms(2) p(3) n3]
    by (simp add: ts3_def js_def)
  also have "\<dots> = concat (map (meaning args) ts)"
  proof -
    have "render (expand_all AllAt args (expand_all AllArguments args (expand_slice args (expand_positional args t)))) = meaning args t" for t
      by (cases t) (simp_all add: expand_all_def positional_meaning slice_meaning)
    then show ?thesis by (simp add: ts3_def ts2_def ts1_def o_def cong: map_cong)
  qed
  finally show ?thesis .
qed

theorem substituteArgs_meaning_witness:
  "substituteArgs (js ''say $1 and ${@:2:1}: $@'') [js ''a'', js ''b''] = js ''say a and b: a b''"
proof -
  let ?ts = "[Text (js ''say ''), Positional 1, Text (js '' and ''), Slice 2 (Some 1), Text (js '': ''), AllAt]"
  have "separated ?ts" "\<forall>a \<in> set [js ''a'', js ''b'']. dollar \<notin> set a"
    by (simp_all add: js_def is_digit_def)
  from substituteArgs_meaning [OF this]
  show ?thesis by (simp add: js_def show_nat_def nat_digits.simps numbered_def)
qed

text \<open>The arguments serve as replacement templates: a doubled dollar sign in them is halved.\<close>

theorem substituteArgs_halves_dollars:
  "substituteArgs (js ''$ARGUMENTS'') [js ''a$$b''] = js ''a$b''"
  by (simp add: substituteArgs_def js_def is_digit_def match_slice_def)

text \<open>Claim C23: arguments that are not empty and do not hold both kinds of quotes, each written in quotes
  and separated by blanks, are read back as they were, blanks and the other kind of quotes included.
  Empty arguments are lost: the others close up.\<close>

theorem parseCommandArgs_quoted:
  assumes "\<forall>a \<in> set args. quotable a"
  shows "parseCommandArgs (join (js '' '') (map quote_arg args)) = filter (\<lambda>a. a \<noteq> []) args"
  using assms by (simp add: parseCommandArgs_def parse_quoted_args)

theorem parseCommandArgs_quoted_witness:
  "parseCommandArgs (join (js '' '') (map quote_arg [js ''a b'', [], [0x22]])) = [js ''a b'', [0x22]]"
proof -
  have "\<forall>a \<in> set [js ''a b'', [], [0x22]]. quotable a" by (simp add: js_def quotable_def)
  from parseCommandArgs_quoted [OF this] show ?thesis by simp
qed

text \<open>A quoted empty argument shifts those after it.\<close>

lemma empty_argument_is_lost:
  "positional (parseCommandArgs ([0x22, 0x22] @ js '' b'')) 1 = js ''b''"
  by (simp add: parseCommandArgs_def positional_def js_def)

end
