(* ===== verification/Skills.thy ===== *)
theory Skills
  imports PromptTemplates Compaction
begin

text \<open>
  \<open>packages/agent/src/harness/skills.ts\<close> and \<open>system-prompt.ts\<close>: loading of skills from directories
  with their ignore rules, the checks of their metadata, and the texts that show skills to the
  model. The ignore matcher and the YAML parser are third-party parameters; the recursion into
  directories has fuel, as nothing in the code bounds it when links form a cycle.
\<close>

section \<open>Skills and their texts\<close>

record Skill =
  sk_name :: jstring
  sk_description :: jstring
  sk_content :: jstring
  sk_filePath :: jstring
  sk_disableModelInvocation :: bool

text \<open>A missing or empty \<open>additionalInstructions\<close> adds nothing.\<close>

definition formatSkillInvocation :: "Skill \<Rightarrow> jstring option \<Rightarrow> jstring" where
  "formatSkillInvocation skill additionalInstructions =
     (let skillBlock =
        js ''<skill name='' @ [0x22] @ sk_name skill @ [0x22] @ js '' location='' @ [0x22] @ sk_filePath skill @ [0x22] @
        js ''>'' @ [newline] @ js ''References are relative to '' @ dirnameEnvPath (sk_filePath skill) @ js ''.'' @
        [newline, newline] @ sk_content skill @ [newline] @ js ''</skill>''
      in case given additionalInstructions of
           Some t \<Rightarrow> skillBlock @ [newline, newline] @ t
         | None \<Rightarrow> skillBlock)"

text \<open>The five replacements touch different characters; the first one must be that of the ampersand.\<close>

definition replace_char :: "jchar \<Rightarrow> jstring \<Rightarrow> jstring \<Rightarrow> jstring" where
  "replace_char c t s = concat (map (\<lambda>x. if x = c then t else [x]) s)"

definition escapeXml :: "jstring \<Rightarrow> jstring" where
  "escapeXml value =
     replace_char 0x27 (js ''&apos;'') (replace_char 0x22 (js ''&quot;'') (replace_char 0x3E (js ''&gt;'')
       (replace_char 0x3C (js ''&lt;'') (replace_char 0x26 (js ''&amp;'') value))))"

definition skill_lines :: "Skill \<Rightarrow> jstring list" where
  "skill_lines skill =
     [js ''  <skill>'',
      js ''    <name>'' @ escapeXml (sk_name skill) @ js ''</name>'',
      js ''    <description>'' @ escapeXml (sk_description skill) @ js ''</description>'',
      js ''    <location>'' @ escapeXml (sk_filePath skill) @ js ''</location>'',
      js ''  </skill>'']"

definition formatSkillsForSystemPrompt :: "Skill list \<Rightarrow> jstring" where
  "formatSkillsForSystemPrompt skills =
     (let visibleSkills = filter (\<lambda>s. \<not> sk_disableModelInvocation s) skills
      in if visibleSkills = [] then []
         else join [newline]
           ([js ''The following skills provide specialized instructions for specific tasks.'',
             js ''Read the full skill file when the task matches its description.'',
             js ''When a skill file references a relative path, resolve it against the skill directory (parent of SKILL.md / dirname of the path) and use that absolute path in tool commands.'',
             [],
             js ''<available_skills>''] @
            concat (map skill_lines visibleSkills) @ [js ''</available_skills>'']))"

section \<open>Metadata\<close>

definition MAX_NAME_LENGTH :: nat where "MAX_NAME_LENGTH = 64"
definition MAX_DESCRIPTION_LENGTH :: nat where "MAX_DESCRIPTION_LENGTH = 1024"

definition is_name_char :: "jchar \<Rightarrow> bool" where
  "is_name_char c \<longleftrightarrow> 0x61 \<le> c \<and> c \<le> 0x7A \<or> is_digit c \<or> c = 0x2D"

definition hyphen :: jstring where "hyphen = js ''-''"

definition validateName :: "jstring \<Rightarrow> jstring \<Rightarrow> jstring list" where
  "validateName name parentDirName =
     (if name \<noteq> parentDirName
      then [js ''name '' @ [0x22] @ name @ [0x22] @ js '' does not match parent directory '' @ [0x22] @ parentDirName @ [0x22]]
      else []) @
     (if length name > MAX_NAME_LENGTH
      then [js ''name exceeds '' @ show_nat MAX_NAME_LENGTH @ js '' characters ('' @ show_nat (length name) @ js '')'']
      else []) @
     (if \<not> (name \<noteq> [] \<and> list_all is_name_char name)
      then [js ''name contains invalid characters (must be lowercase a-z, 0-9, hyphens only)''] else []) @
     (if prefix hyphen name \<or> suffix hyphen name then [js ''name must not start or end with a hyphen''] else []) @
     (if index_of (js ''--'') name \<noteq> None then [js ''name must not contain consecutive hyphens''] else [])"

definition validateDescription :: "jstring option \<Rightarrow> jstring list" where
  "validateDescription description =
     (case description of
        None \<Rightarrow> [js ''description is required'']
      | Some d \<Rightarrow>
          if trim d = [] then [js ''description is required'']
          else if length d > MAX_DESCRIPTION_LENGTH
          then [js ''description exceeds '' @ show_nat MAX_DESCRIPTION_LENGTH @ js '' characters ('' @ show_nat (length d) @ js '')'']
          else [])"

definition loadSkillFromFile ::
    "(jstring \<Rightarrow> jstring + json) \<Rightarrow> ('fs, 'b) ResourceFiles_scheme \<Rightarrow> jstring \<Rightarrow> 'fs \<Rightarrow>
     (Skill option \<times> Diagnostic list) \<times> 'fs" where
  "loadSkillFromFile yaml fs filePath f =
     (case fs_readTextFile fs filePath f of
        (Inl err, f1) \<Rightarrow> ((None, [\<lparr>dg_code = ReadFailed, dg_message = fe_message err, dg_path = filePath\<rparr>]), f1)
      | (Inr rawContent, f1) \<Rightarrow>
          (case parseFrontmatter yaml rawContent of
             Inl msg \<Rightarrow> ((None, [\<lparr>dg_code = ParseFailed, dg_message = msg, dg_path = filePath\<rparr>]), f1)
           | Inr (frontmatter, body) \<Rightarrow>
               (let parentDirName = basenameEnvPath (dirnameEnvPath filePath);
                    description = string_prop ''description'' frontmatter;
                    name = (case given (string_prop ''name'' frontmatter) of Some n \<Rightarrow> n | None \<Rightarrow> parentDirName);
                    ds = map (\<lambda>msg. \<lparr>dg_code = InvalidMetadata, dg_message = msg, dg_path = filePath\<rparr>)
                      (validateDescription description @ validateName name parentDirName)
                in case description of
                     None \<Rightarrow> ((None, ds), f1)
                   | Some d \<Rightarrow>
                       if trim d = [] then ((None, ds), f1)
                       else ((Some \<lparr>sk_name = name, sk_description = d, sk_content = body, sk_filePath = filePath,
                                    sk_disableModelInvocation =
                                      (get_prop (js ''disable-model-invocation'') frontmatter = Some (JBool True))\<rparr>,
                              ds), f1))))"

section \<open>Ignore rules\<close>

definition IGNORE_FILE_NAMES :: "jstring list" where
  "IGNORE_FILE_NAMES = [js ''.gitignore'', js ''.ignore'', js ''.fdignore'']"

text \<open>What the code uses of the \<open>ignore\<close> package.\<close>

record 'ig Matcher =
  ig_add :: "jstring list \<Rightarrow> 'ig \<Rightarrow> 'ig"
  ig_ignores :: "'ig \<Rightarrow> jstring \<Rightarrow> bool"

definition prefixIgnorePattern :: "jstring \<Rightarrow> jstring \<Rightarrow> jstring option" where
  "prefixIgnorePattern line pre =
     (let trimmed = trim line
      in if trimmed = [] then None
         else if prefix (js ''#'') trimmed \<and> \<not> prefix [0x5C, 0x23] trimmed then None
         else
           (let (negated, pattern) =
                  (if prefix (js ''!'') line then (True, drop 1 line)
                   else if prefix [0x5C, 0x21] line then (False, drop 1 line) else (False, line));
                pattern' = (if prefix [slash] pattern then drop 1 pattern else pattern);
                prefixed = (if pre \<noteq> [] then pre @ pattern' else pattern')
            in Some (if negated then js ''!'' @ prefixed else prefixed)))"

text \<open>\<open>content.split(/\r?\n/)\<close>\<close>

definition ignore_lines :: "jstring \<Rightarrow> jstring list" where
  "ignore_lines content =
     (let ls = split_on newline content
      in map (\<lambda>l. if l \<noteq> [] \<and> last l = 13 then butlast l else l) (butlast ls) @ [last ls])"

definition add_ignore_file ::
    "('fs, 'b) ResourceFiles_scheme \<Rightarrow> 'ig Matcher \<Rightarrow> jstring \<Rightarrow> jstring \<Rightarrow> jstring \<Rightarrow> 'ig \<times> 'fs \<Rightarrow> Diagnostic list \<times> 'ig \<times> 'fs" where
  "add_ignore_file fs ig dir pre filename = (\<lambda>(m, f).
     (let ignorePath = joinEnvPath dir filename
      in case fs_fileInfo fs ignorePath f of
           (Inl err, f1) \<Rightarrow> (unless_missing FileInfoFailed ignorePath err, m, f1)
         | (Inr info, f1) \<Rightarrow>
             if fi_kind info \<noteq> KFile then ([], m, f1)
             else (case fs_readTextFile fs ignorePath f1 of
                 (Inl err, f2) \<Rightarrow> ([\<lparr>dg_code = ReadFailed, dg_message = fe_message err, dg_path = ignorePath\<rparr>], m, f2)
               | (Inr content, f2) \<Rightarrow>
                   (let patterns = filter (\<lambda>p. p \<noteq> []) (List.map_filter (\<lambda>l. prefixIgnorePattern l pre) (ignore_lines content))
                    in ([], if patterns \<noteq> [] then ig_add ig patterns m else m, f2)))))"

fun add_ignore_files ::
    "('fs, 'b) ResourceFiles_scheme \<Rightarrow> 'ig Matcher \<Rightarrow> jstring \<Rightarrow> jstring \<Rightarrow> jstring list \<Rightarrow> 'ig \<times> 'fs \<Rightarrow> Diagnostic list \<times> 'ig \<times> 'fs" where
  "add_ignore_files fs ig dir pre [] \<sigma> = ([], \<sigma>)"
| "add_ignore_files fs ig dir pre (n # ns) \<sigma> =
     (case add_ignore_file fs ig dir pre n \<sigma> of (ds, \<sigma>1) \<Rightarrow>
       (case add_ignore_files fs ig dir pre ns \<sigma>1 of (ds', \<sigma>2) \<Rightarrow> (ds @ ds', \<sigma>2)))"

definition addIgnoreRules ::
    "('fs, 'b) ResourceFiles_scheme \<Rightarrow> 'ig Matcher \<Rightarrow> jstring \<Rightarrow> jstring \<Rightarrow> 'ig \<times> 'fs \<Rightarrow> Diagnostic list \<times> 'ig \<times> 'fs" where
  "addIgnoreRules fs ig dir rootDir =
     (let relativeDir = relativeEnvPath rootDir dir;
          pre = (if relativeDir \<noteq> [] then relativeDir @ [slash] else [])
      in add_ignore_files fs ig dir pre IGNORE_FILE_NAMES)"

section \<open>Directories\<close>

text \<open>
  The first loop of \<open>loadSkillsFromDirInternal\<close>: the first \<open>SKILL.md\<close> that is a file and not ignored
  ends the search of the directory. The result is the skills of that file if there is one, and the
  diagnostics.
\<close>

fun find_skill_md ::
    "(jstring \<Rightarrow> jstring + json) \<Rightarrow> ('fs, 'b) ResourceFiles_scheme \<Rightarrow> 'ig Matcher \<Rightarrow> jstring \<Rightarrow> FileInfo list \<Rightarrow>
     'ig \<times> 'fs \<Rightarrow> (Skill list option \<times> Diagnostic list) \<times> 'ig \<times> 'fs" where
  "find_skill_md yaml fs ig rootDir [] \<sigma> = ((None, []), \<sigma>)"
| "find_skill_md yaml fs ig rootDir (en # ens) (m, f) =
     (if fi_name en \<noteq> js ''SKILL.md'' then find_skill_md yaml fs ig rootDir ens (m, f)
      else
        (case resolveKind fs en f of ((kind, ds), f1) \<Rightarrow>
          if kind \<noteq> Some KFile \<or> ig_ignores ig m (relativeEnvPath rootDir (fi_path en)) then
            (case find_skill_md yaml fs ig rootDir ens (m, f1) of ((r, ds'), \<sigma>') \<Rightarrow> ((r, ds @ ds'), \<sigma>'))
          else
            (case loadSkillFromFile yaml fs (fi_path en) f1 of ((skill, ds'), f2) \<Rightarrow>
              ((Some (case skill of Some x \<Rightarrow> [x] | None \<Rightarrow> []), ds @ ds'), m, f2))))"

text \<open>
  \<open>load_skills_dir\<close> is \<open>loadSkillsFromDirInternal\<close> and \<open>load_skill_entries\<close> its second loop; the fuel
  bounds the depth of directories and \<open>None\<close> is a search that is not over within it.
\<close>

function (sequential)
  load_skills_dir ::
    "(jstring \<Rightarrow> jstring + json) \<Rightarrow> (jstring \<Rightarrow> jstring \<Rightarrow> bool) \<Rightarrow> ('fs, 'b) ResourceFiles_scheme \<Rightarrow> 'ig Matcher \<Rightarrow>
     jstring \<Rightarrow> nat \<Rightarrow> jstring \<Rightarrow> bool \<Rightarrow> 'ig \<times> 'fs \<Rightarrow> ((Skill list \<times> Diagnostic list) \<times> 'ig \<times> 'fs) option"
  and load_skill_entries ::
    "(jstring \<Rightarrow> jstring + json) \<Rightarrow> (jstring \<Rightarrow> jstring \<Rightarrow> bool) \<Rightarrow> ('fs, 'b) ResourceFiles_scheme \<Rightarrow> 'ig Matcher \<Rightarrow>
     jstring \<Rightarrow> nat \<Rightarrow> FileInfo list \<Rightarrow> bool \<Rightarrow> 'ig \<times> 'fs \<Rightarrow> ((Skill list \<times> Diagnostic list) \<times> 'ig \<times> 'fs) option"
where
  "load_skills_dir yaml le fs ig rootDir 0 dir includeRootFiles \<sigma> = None"
| "load_skills_dir yaml le fs ig rootDir (Suc fuel) dir includeRootFiles (m, f) =
     (case fs_fileInfo fs dir f of
        (Inl err, f1) \<Rightarrow> Some (([], unless_missing FileInfoFailed dir err), m, f1)
      | (Inr dirInfo, f1) \<Rightarrow>
          (case resolveKind fs dirInfo f1 of ((kind, ds), f2) \<Rightarrow>
            if kind \<noteq> Some KDirectory then Some (([], ds), m, f2)
            else
              (case addIgnoreRules fs ig dir rootDir (m, f2) of (ds1, m1, f3) \<Rightarrow>
                (case fs_listDir fs dir f3 of
                   (Inl err, f4) \<Rightarrow>
                     Some (([], ds @ ds1 @ [\<lparr>dg_code = ListFailed, dg_message = fe_message err, dg_path = dir\<rparr>]), m1, f4)
                 | (Inr entries, f4) \<Rightarrow>
                     (case find_skill_md yaml fs ig rootDir entries (m1, f4) of
                        ((Some skills, ds2), \<sigma>') \<Rightarrow> Some ((skills, ds @ ds1 @ ds2), \<sigma>')
                      | ((None, ds2), \<sigma>') \<Rightarrow>
                          (case load_skill_entries yaml le fs ig rootDir fuel (sort_by_name le entries) includeRootFiles \<sigma>' of
                             None \<Rightarrow> None
                           | Some ((skills, ds3), \<sigma>'') \<Rightarrow> Some ((skills, ds @ ds1 @ ds2 @ ds3), \<sigma>'')))))))"
| "load_skill_entries yaml le fs ig rootDir fuel [] includeRootFiles \<sigma> = Some (([], []), \<sigma>)"
| "load_skill_entries yaml le fs ig rootDir fuel (en # ens) includeRootFiles (m, f) =
     (if prefix (js ''.'') (fi_name en) \<or> fi_name en = js ''node_modules''
      then load_skill_entries yaml le fs ig rootDir fuel ens includeRootFiles (m, f)
      else
        (case resolveKind fs en f of ((kind, ds), f1) \<Rightarrow>
          (case (if kind = None \<or>
                    ig_ignores ig m (relativeEnvPath rootDir (fi_path en) @ (if kind = Some KDirectory then [slash] else []))
                 then Some (([], []), m, f1)
                 else if kind = Some KDirectory then load_skills_dir yaml le fs ig rootDir fuel (fi_path en) False (m, f1)
                 else if \<not> includeRootFiles \<or> \<not> is_markdown (fi_name en) then Some (([], []), m, f1)
                 else (case loadSkillFromFile yaml fs (fi_path en) f1 of ((skill, ds'), f2) \<Rightarrow>
                     Some (((case skill of Some x \<Rightarrow> [x] | None \<Rightarrow> []), ds'), m, f2))) of
             None \<Rightarrow> None
           | Some ((skills, ds'), \<sigma>') \<Rightarrow>
               (case load_skill_entries yaml le fs ig rootDir fuel ens includeRootFiles \<sigma>' of
                  None \<Rightarrow> None
                | Some ((skills', ds''), \<sigma>'') \<Rightarrow> Some ((skills @ skills', ds @ ds' @ ds''), \<sigma>'')))))"
  by pat_completeness auto
termination
  by (relation "measures [
      (\<lambda>x. case x of Inl (yaml, le, fs, ig, r, fuel, dir, b, \<sigma>) \<Rightarrow> fuel | Inr (yaml, le, fs, ig, r, fuel, ens, b, \<sigma>) \<Rightarrow> fuel),
      (\<lambda>x. case x of Inl _ \<Rightarrow> 0 | Inr (yaml, le, fs, ig, r, fuel, ens, b, \<sigma>) \<Rightarrow> Suc (length ens))]") auto

fun loadSkills ::
    "(jstring \<Rightarrow> jstring + json) \<Rightarrow> (jstring \<Rightarrow> jstring \<Rightarrow> bool) \<Rightarrow> ('fs, 'b) ResourceFiles_scheme \<Rightarrow> 'ig Matcher \<Rightarrow> 'ig \<Rightarrow>
     nat \<Rightarrow> jstring list \<Rightarrow> 'fs \<Rightarrow> ((Skill list \<times> Diagnostic list) \<times> 'fs) option" where
  "loadSkills yaml le fs ig noRules fuel [] f = Some (([], []), f)"
| "loadSkills yaml le fs ig noRules fuel (dir # dirs) f =
     (case (case fs_fileInfo fs dir f of
              (Inl err, f1) \<Rightarrow> Some (([], unless_missing FileInfoFailed dir err), f1)
            | (Inr rootInfo, f1) \<Rightarrow>
                (case resolveKind fs rootInfo f1 of ((kind, ds), f2) \<Rightarrow>
                  if kind \<noteq> Some KDirectory then Some (([], ds), f2)
                  else
                    (case load_skills_dir yaml le fs ig (fi_path rootInfo) fuel (fi_path rootInfo) True (noRules, f2) of
                       None \<Rightarrow> None
                     | Some ((skills, ds'), m, f3) \<Rightarrow> Some ((skills, ds @ ds'), f3)))) of
        None \<Rightarrow> None
      | Some ((skills, ds), f') \<Rightarrow>
          (case loadSkills yaml le fs ig noRules fuel dirs f' of
             None \<Rightarrow> None
           | Some ((skills', ds'), f'') \<Rightarrow> Some ((skills @ skills', ds @ ds'), f'')))"

fun loadSourcedSkills ::
    "(jstring \<Rightarrow> jstring + json) \<Rightarrow> (jstring \<Rightarrow> jstring \<Rightarrow> bool) \<Rightarrow> ('fs, 'b) ResourceFiles_scheme \<Rightarrow> 'ig Matcher \<Rightarrow> 'ig \<Rightarrow>
     nat \<Rightarrow> (Skill \<Rightarrow> 'source \<Rightarrow> 't) \<Rightarrow> (jstring \<times> 'source) list \<Rightarrow> 'fs \<Rightarrow>
     ((('t \<times> 'source) list \<times> (Diagnostic \<times> 'source) list) \<times> 'fs) option" where
  "loadSourcedSkills yaml le fs ig noRules fuel mapSkill [] f = Some (([], []), f)"
| "loadSourcedSkills yaml le fs ig noRules fuel mapSkill ((path, source) # inputs) f =
     (case loadSkills yaml le fs ig noRules fuel [path] f of
        None \<Rightarrow> None
      | Some ((skills, ds), f') \<Rightarrow>
          (case loadSourcedSkills yaml le fs ig noRules fuel mapSkill inputs f' of
             None \<Rightarrow> None
           | Some ((skills', ds'), f'') \<Rightarrow>
               Some ((map (\<lambda>s. (mapSkill s source, source)) skills @ skills', map (\<lambda>d. (d, source)) ds @ ds'), f'')))"

end
