(* ===== verification/AgentHarness.thy ===== *)
theory AgentHarness
  imports HarnessTypes Skills SessionJson AgentLoop
begin

text \<open>
  The class \<open>AgentHarness\<close> of \<open>packages/agent/src/harness/agent-harness.ts\<close>: it owns a session and a
  configuration, runs prompts through the agent loop, writes the messages of a run and the queued
  writes to the session, and runs compaction and tree navigation. The operations act on the state of
  one harness; hooks, listeners, tools and the provider may read and change all of it.
\<close>

section \<open>State\<close>

datatype AgentHarnessPhase = IdlePhase | TurnPhase | CompactionPhase | BranchSummaryPhase | RetryPhase

text \<open>The types of events a handler can be registered for; \<open>AnyEvent\<close> is the subscriber type \<open>"*"\<close>.\<close>

datatype handler_type =
    AnyEvent | OnBeforeAgentStart | OnContext | OnBeforeProviderRequest | OnBeforeProviderPayload
  | OnAfterProviderResponse | OnToolCall | OnToolResult | OnSessionBeforeCompact | OnSessionCompact
  | OnSessionBeforeTree | OnSessionTree | OnModelUpdate | OnThinkingLevelUpdate | OnResourcesUpdate
  | OnToolsUpdate | OnQueueUpdate | OnSavePoint | OnAbort | OnSettled

record AgentHarnessResources =
  res_promptTemplates :: "PromptTemplate list option"
  res_skills :: "Skill list option"

text \<open>A tool is its name and a reference to the object of the caller.\<close>

type_synonym tool_ref = "jstring \<times> nat"

record AgentHarnessTurnState =
  ts_messages :: "agent_message list"
  ts_resources :: AgentHarnessResources
  ts_streamOptions :: AgentHarnessStreamOptions
  ts_sessionId :: jstring
  ts_systemPrompt :: jstring
  ts_model :: Model
  ts_thinkingLevel :: jstring
  ts_tools :: "tool_ref list"
  ts_activeTools :: "tool_ref list"

text \<open>
  \<open>ah_session\<close> is the storage of the session, \<open>ah_world\<close> the clock and identifier state it shares
  with the harness. \<open>ah_runAbort\<close> is the abort controller of a run with the state of its signal,
  \<open>ah_running\<close> whether there is a run promise, and \<open>ah_turnState\<close> the variable \<open>activeTurnState\<close> that
  the closures of a run share. Tools and handlers keep their order of insertion.
\<close>

record ('s, 'e) AgentHarness =
  ah_session :: 's
  ah_world :: world
  ah_phase :: AgentHarnessPhase
  ah_runAbort :: "bool option"
  ah_running :: bool
  ah_pendingSessionWrites :: "entry_body list"
  ah_model :: Model
  ah_thinkingLevel :: jstring
  ah_streamOptions :: AgentHarnessStreamOptions
  ah_resources :: AgentHarnessResources
  ah_tools :: "tool_ref list"
  ah_activeToolNames :: "jstring list"
  ah_steerQueue :: "agent_message list"
  ah_steeringQueueMode :: QueueMode
  ah_followUpQueue :: "agent_message list"
  ah_followUpQueueMode :: QueueMode
  ah_nextTurnQueue :: "agent_message list"
  ah_handlers :: "handler_type \<Rightarrow> nat list"
  ah_turnState :: AgentHarnessTurnState
  ah_env :: 'e

type_synonym ('s, 'e, 'a) harness_prog = "(('s, 'e) AgentHarness, 'a) hprog"

section \<open>Events and hooks\<close>

datatype harness_event =
    LoopEvent AgentEvent
  | QueueUpdate "agent_message list" "agent_message list" "agent_message list"
  | SavePoint bool
  | AbortEvent "agent_message list" "agent_message list"
  | Settled nat
  | AfterProviderResponse int "(jstring \<times> jstring) list"
  | SessionCompactEvent entry bool
  | SessionTreeEvent "jstring option" "jstring option" "entry option" bool
  | ModelUpdate Model Model
  | ThinkingLevelUpdate jstring jstring
  | ToolsUpdate "jstring list" "jstring list" "jstring list" "jstring list"
  | ResourcesUpdate AgentHarnessResources AgentHarnessResources

record BeforeAgentStartResult =
  bas_messages :: "agent_message list option"
  bas_systemPrompt :: "jstring option"

record CompactResult =
  cpr_summary :: jstring
  cpr_firstKeptEntryId :: jstring
  cpr_tokensBefore :: nat
  cpr_details :: "json option"

record SessionBeforeCompactResult =
  sbc_cancel :: bool
  sbc_compaction :: "CompactResult option"

record TreePreparation =
  tp_targetId :: jstring
  tp_oldLeafId :: "jstring option"
  tp_commonAncestorId :: "jstring option"
  tp_entriesToSummarize :: "entry list"
  tp_userWantsSummary :: bool
  tp_customInstructions :: "jstring option"
  tp_replaceInstructions :: "bool option"
  tp_label :: "jstring option"

record SessionBeforeTreeResult =
  sbt_cancel :: bool
  sbt_summary :: "(jstring \<times> json option) option"
  sbt_customInstructions :: "jstring option"
  sbt_replaceInstructions :: "bool option"
  sbt_label :: "jstring option"

datatype ('s, 'e) system_prompt =
    PromptString jstring
  | PromptFunction "Model \<Rightarrow> jstring \<Rightarrow> tool_ref list \<Rightarrow> AgentHarnessResources \<Rightarrow> ('s, 'e, jstring) harness_prog"

text \<open>
  The options of a harness that do not change, its environment, and the objects the references name:
  tools, listeners, and the handlers of each type of hook. \<open>streamSimple\<close> is the provider, with the
  functions it calls back for the payload and the response; \<open>completeSimple\<close> the one-shot request of
  the compaction modules.
\<close>

record ('s, 'e) HarnessRuntime =
  hr_storage :: "'s SessionStorage"
  hr_metadataId :: "('s, jstring) op"
  hr_clock :: env
  hr_date_ms :: "jstring \<Rightarrow> int"
  hr_systemPrompt :: "('s, 'e) system_prompt option"
  hr_getApiKeyAndHeaders ::
    "(Model \<Rightarrow> ('s, 'e, (jstring \<times> (jstring \<times> jstring) list option) option) harness_prog) option"
  hr_completeSimple :: completeSimple
  hr_streamSimple ::
    "Model \<Rightarrow> ('s, 'e) AgentHarness LlmContext \<Rightarrow> AgentHarnessStreamOptions \<Rightarrow> jstring option \<Rightarrow> jstring \<Rightarrow> jstring option \<Rightarrow>
     (json \<Rightarrow> ('s, 'e, json) harness_prog) \<Rightarrow> (int \<Rightarrow> (jstring \<times> jstring) list \<Rightarrow> ('s, 'e, unit) harness_prog) \<Rightarrow>
     ('s, 'e, unit) harness_prog"
  hr_nextEvent :: "('s, 'e, AssistantMessageEvent option) harness_prog"
  hr_result :: "('s, 'e, AssistantMessage) harness_prog"
  hr_schedule :: "('s, 'e) AgentHarness \<Rightarrow> nat list"
  hr_tool :: "nat \<Rightarrow> ('s, 'e) AgentHarness AgentTool"
  hr_listener :: "nat \<Rightarrow> harness_event \<Rightarrow> ('s, 'e, unit) harness_prog"
  hr_onBeforeAgentStart ::
    "nat \<Rightarrow> jstring \<Rightarrow> user_block list \<Rightarrow> jstring \<Rightarrow> AgentHarnessResources \<Rightarrow> ('s, 'e, BeforeAgentStartResult option) harness_prog"
  hr_onContext :: "nat \<Rightarrow> agent_message list \<Rightarrow> ('s, 'e, agent_message list option) harness_prog"
  hr_onBeforeProviderRequest ::
    "nat \<Rightarrow> Model \<Rightarrow> jstring \<Rightarrow> AgentHarnessStreamOptions \<Rightarrow> ('s, 'e, AgentHarnessStreamOptionsPatch option) harness_prog"
  hr_onBeforeProviderPayload :: "nat \<Rightarrow> Model \<Rightarrow> json \<Rightarrow> ('s, 'e, json option) harness_prog"
  hr_onToolCall :: "nat \<Rightarrow> ToolCall \<Rightarrow> json \<Rightarrow> ('s, 'e, BeforeToolCallResult option \<times> json) harness_prog"
  hr_onToolResult :: "nat \<Rightarrow> ToolCall \<Rightarrow> json \<Rightarrow> AgentToolResult \<Rightarrow> bool \<Rightarrow> ('s, 'e, AfterToolCallResult option) harness_prog"
  hr_onSessionBeforeCompact ::
    "nat \<Rightarrow> CompactionPreparation \<Rightarrow> entry list \<Rightarrow> jstring option \<Rightarrow> ('s, 'e, SessionBeforeCompactResult option) harness_prog"
  hr_onSessionBeforeTree :: "nat \<Rightarrow> TreePreparation \<Rightarrow> ('s, 'e, SessionBeforeTreeResult option) harness_prog"

text \<open>An operation of the session, and the clock.\<close>

definition sessionH :: "('s, 'a) op \<Rightarrow> ('s, 'e, 'a) harness_prog" where
  "sessionH m = (\<lambda>h. case m (ah_session h, ah_world h) of (r, s, w) \<Rightarrow>
     (case r of Inr x \<Rightarrow> Returns x | Inl (SessionError c msg) \<Rightarrow> Raises (SessionThrown c msg) | Inl NonTermination \<Rightarrow> Stuck,
      h\<lparr>ah_session := s, ah_world := w\<rparr>))"

definition nowH :: "('s, 'e) HarnessRuntime \<Rightarrow> ('s, 'e, int) harness_prog" where
  "nowH rt = (\<lambda>h. case date_now (hr_clock rt) (ah_world h) of (t, w) \<Rightarrow> (Returns (int t), h\<lparr>ah_world := w\<rparr>))"

text \<open>The handlers are those registered when an event is dispatched.\<close>

definition notify_listeners :: "('s, 'e) HarnessRuntime \<Rightarrow> harness_event \<Rightarrow> ('s, 'e, unit) harness_prog" where
  "notify_listeners rt ev =
     bindH (getH (\<lambda>h. ah_handlers h AnyEvent)) (\<lambda>listeners.
       for_eachH (\<lambda>l. catchH (hr_listener rt l ev) (\<lambda>err. raiseH (normalizeHookError err))) listeners)"

definition emitOwn :: "('s, 'e) HarnessRuntime \<Rightarrow> harness_event \<Rightarrow> ('s, 'e, unit) harness_prog" where
  "emitOwn rt ev = notify_listeners rt ev"

definition emitAny :: "('s, 'e) HarnessRuntime \<Rightarrow> AgentEvent \<Rightarrow> ('s, 'e, unit) harness_prog" where
  "emitAny rt ev = notify_listeners rt (LoopEvent ev)"

text \<open>The loop of \<open>emitHook\<close>: the last result that is not undefined.\<close>

fun hook_loop :: "(nat \<Rightarrow> ('h, 'r option) hprog) \<Rightarrow> nat list \<Rightarrow> 'r option \<Rightarrow> ('h, 'r option) hprog" where
  "hook_loop handler [] lastResult = retH lastResult"
| "hook_loop handler (n # ns) lastResult =
     bindH (catchH (handler n) (\<lambda>err. raiseH (normalizeHookError err))) (\<lambda>result.
       hook_loop handler ns (case result of Some r \<Rightarrow> Some r | None \<Rightarrow> lastResult))"

definition emitHook :: "handler_type \<Rightarrow> (nat \<Rightarrow> ('s, 'e, 'r option) harness_prog) \<Rightarrow> ('s, 'e, 'r option) harness_prog" where
  "emitHook ty handler = bindH (getH (\<lambda>h. ah_handlers h ty)) (\<lambda>handlers. hook_loop handler handlers None)"

text \<open>
  \<open>emitHook\<close> for a tool call: the handlers get one input object, which each may change.
\<close>

fun tool_call_loop :: "(nat \<Rightarrow> 'v \<Rightarrow> ('h, 'r option \<times> 'v) hprog) \<Rightarrow> nat list \<Rightarrow> 'r option \<Rightarrow> 'v \<Rightarrow> ('h, 'r option \<times> 'v) hprog" where
  "tool_call_loop handler [] lastResult input = retH (lastResult, input)"
| "tool_call_loop handler (n # ns) lastResult input =
     bindH (catchH (handler n input) (\<lambda>err. raiseH (normalizeHookError err))) (\<lambda>(result, changed).
       tool_call_loop handler ns (case result of Some r \<Rightarrow> Some r | None \<Rightarrow> lastResult) changed)"

definition emitToolCall ::
    "('s, 'e) HarnessRuntime \<Rightarrow> ToolCall \<Rightarrow> json \<Rightarrow> ('s, 'e, BeforeToolCallResult option \<times> json) harness_prog" where
  "emitToolCall rt tc args =
     bindH (getH (\<lambda>h. ah_handlers h OnToolCall)) (\<lambda>handlers.
       tool_call_loop (\<lambda>n. hr_onToolCall rt n tc) handlers None args)"

text \<open>The loops that thread a value through the handlers: request options, and the payload.\<close>

fun thread_handlers :: "(nat \<Rightarrow> 'v \<Rightarrow> ('h, 'r option) hprog) \<Rightarrow> ('v \<Rightarrow> 'r \<Rightarrow> 'v) \<Rightarrow> nat list \<Rightarrow> 'v \<Rightarrow> ('h, 'v) hprog" where
  "thread_handlers handler update [] current = retH current"
| "thread_handlers handler update (n # ns) current =
     bindH (catchH (handler n current) (\<lambda>err. raiseH (normalizeHookError err))) (\<lambda>result.
       thread_handlers handler update ns (case result of Some r \<Rightarrow> update current r | None \<Rightarrow> current))"

definition emitBeforeProviderRequest ::
    "('s, 'e) HarnessRuntime \<Rightarrow> Model \<Rightarrow> jstring \<Rightarrow> AgentHarnessStreamOptions \<Rightarrow> ('s, 'e, AgentHarnessStreamOptions) harness_prog" where
  "emitBeforeProviderRequest rt model sessionId streamOptions =
     bindH (getH (\<lambda>h. ah_handlers h OnBeforeProviderRequest)) (\<lambda>handlers.
       thread_handlers (\<lambda>n current. hr_onBeforeProviderRequest rt n model sessionId current) applyStreamOptionsPatch
         handlers streamOptions)"

definition emitBeforeProviderPayload :: "('s, 'e) HarnessRuntime \<Rightarrow> Model \<Rightarrow> json \<Rightarrow> ('s, 'e, json) harness_prog" where
  "emitBeforeProviderPayload rt model payload =
     bindH (getH (\<lambda>h. ah_handlers h OnBeforeProviderPayload)) (\<lambda>handlers.
       thread_handlers (\<lambda>n current. hr_onBeforeProviderPayload rt n model current) (\<lambda>_ p. p) handlers payload)"

definition emitQueueUpdate :: "('s, 'e) HarnessRuntime \<Rightarrow> ('s, 'e, unit) harness_prog" where
  "emitQueueUpdate rt =
     bindH (getH (\<lambda>h. QueueUpdate (ah_steerQueue h) (ah_followUpQueue h) (ah_nextTurnQueue h))) (emitOwn rt)"

section \<open>Turn state\<close>

definition find_tools :: "tool_ref list \<Rightarrow> jstring list \<Rightarrow> tool_ref list" where
  "find_tools tools names = List.map_filter (\<lambda>n. find (\<lambda>t. fst t = n) tools) names"

definition resolve_system_prompt ::
    "('s, 'e) HarnessRuntime \<Rightarrow> Model \<Rightarrow> jstring \<Rightarrow> tool_ref list \<Rightarrow> AgentHarnessResources \<Rightarrow> ('s, 'e, jstring) harness_prog" where
  "resolve_system_prompt rt model level activeTools resources =
     (case hr_systemPrompt rt of
        Some (PromptString t) \<Rightarrow> retH t
      | Some (PromptFunction f) \<Rightarrow> f model level activeTools resources
      | None \<Rightarrow> retH (js ''You are a helpful assistant.''))"

definition createTurnState :: "('s, 'e) HarnessRuntime \<Rightarrow> ('s, 'e, AgentHarnessTurnState) harness_prog" where
  "createTurnState rt =
     bindH (sessionH (buildContext (hr_storage rt) (hr_date_ms rt))) (\<lambda>context.
     bindH (getH ah_resources) (\<lambda>resources.
     bindH (sessionH (hr_metadataId rt)) (\<lambda>sessionId.
     bindH (getH ah_tools) (\<lambda>tools.
     bindH (getH (\<lambda>h. find_tools tools (ah_activeToolNames h))) (\<lambda>activeTools.
     bindH (getH ah_model) (\<lambda>model0.
     bindH (getH ah_thinkingLevel) (\<lambda>level0.
     bindH (resolve_system_prompt rt model0 level0 activeTools resources) (\<lambda>systemPrompt.
     getH (\<lambda>h.
       \<lparr>ts_messages = sc_messages context, ts_resources = resources, ts_streamOptions = ah_streamOptions h,
        ts_sessionId = sessionId, ts_systemPrompt = systemPrompt, ts_model = ah_model h,
        ts_thinkingLevel = ah_thinkingLevel h, ts_tools = tools, ts_activeTools = activeTools\<rparr>)))))))))"

definition createContext ::
    "('s, 'e) HarnessRuntime \<Rightarrow> AgentHarnessTurnState \<Rightarrow> jstring option \<Rightarrow> ('s, 'e) AgentHarness AgentContext" where
  "createContext rt ts systemPrompt =
     \<lparr>ctx_systemPrompt = (case systemPrompt of Some t \<Rightarrow> t | None \<Rightarrow> ts_systemPrompt ts),
      ctx_messages = ts_messages ts,
      ctx_tools = map (\<lambda>(n, r). (hr_tool rt r)\<lparr>at_name := n\<rparr>) (ts_activeTools ts)\<rparr>"

definition get_auth ::
    "('s, 'e) HarnessRuntime \<Rightarrow> Model \<Rightarrow> ('s, 'e, (jstring \<times> (jstring \<times> jstring) list option) option) harness_prog" where
  "get_auth rt model = (case hr_getApiKeyAndHeaders rt of Some f \<Rightarrow> f model | None \<Rightarrow> retH None)"

definition createStreamFn ::
    "('s, 'e) HarnessRuntime \<Rightarrow> Model \<Rightarrow> ('s, 'e) AgentHarness LlmContext \<Rightarrow> jstring option \<Rightarrow> ('s, 'e, unit) harness_prog" where
  "createStreamFn rt model context reasoning =
     bindH (getH ah_turnState) (\<lambda>turnState.
     bindH (get_auth rt model) (\<lambda>auth.
     let options = ts_streamOptions turnState;
         snapshotOptions = options\<lparr>hso_headers := mergeHeaders [hso_headers options, Option.bind auth snd]\<rparr>
     in bindH (emitBeforeProviderRequest rt model (ts_sessionId turnState) snapshotOptions) (\<lambda>requestOptions.
        hr_streamSimple rt model context requestOptions reasoning (ts_sessionId turnState) (map_option fst auth)
          (emitBeforeProviderPayload rt model)
          (\<lambda>status headers. emitOwn rt (AfterProviderResponse status headers)))))"

section \<open>Queues and pending writes\<close>

text \<open>
  \<open>drainQueuedMessages\<close> on one of the queues, given by how it is read and updated; the messages go
  back to the front when the notification fails.
\<close>

definition drainQueuedMessages ::
    "('s, 'e) HarnessRuntime \<Rightarrow> (('s, 'e) AgentHarness \<Rightarrow> agent_message list) \<Rightarrow>
     ((agent_message list \<Rightarrow> agent_message list) \<Rightarrow> ('s, 'e) AgentHarness \<Rightarrow> ('s, 'e) AgentHarness) \<Rightarrow> QueueMode \<Rightarrow>
     ('s, 'e, agent_message list) harness_prog" where
  "drainQueuedMessages rt get update mode =
     bindH (getH get) (\<lambda>queue.
     let n = (if mode = QueueAll then length queue else 1)
     in bindH (setH (update (drop n))) (\<lambda>_.
        if take n queue = [] then retH []
        else catchH (bindH (emitQueueUpdate rt) (\<lambda>_. retH (take n queue)))
          (\<lambda>err. bindH (setH (update (\<lambda>q. take n queue @ q))) (\<lambda>_. raiseH (normalizeHookError err)))))"

definition drain_steerQueue :: "('s, 'e) HarnessRuntime \<Rightarrow> ('s, 'e, agent_message list) harness_prog" where
  "drain_steerQueue rt =
     bindH (getH ah_steeringQueueMode) (drainQueuedMessages rt ah_steerQueue (\<lambda>f h. h\<lparr>ah_steerQueue := f (ah_steerQueue h)\<rparr>))"

definition drain_followUpQueue :: "('s, 'e) HarnessRuntime \<Rightarrow> ('s, 'e, agent_message list) harness_prog" where
  "drain_followUpQueue rt =
     bindH (getH ah_followUpQueueMode) (drainQueuedMessages rt ah_followUpQueue (\<lambda>f h. h\<lparr>ah_followUpQueue := f (ah_followUpQueue h)\<rparr>))"

text \<open>One iteration of \<open>flushPendingSessionWrites\<close>: no branch handles compactions and summaries.\<close>

definition write_pending :: "'s SessionStorage \<Rightarrow> env \<Rightarrow> entry_body \<Rightarrow> ('s, unit) op" where
  "write_pending so e w =
     (case w of
        MessageE m \<Rightarrow> bindS (appendMessage so e m) (\<lambda>_. returnS ())
      | ModelChangeE provider modelId \<Rightarrow> bindS (appendModelChange so e provider modelId) (\<lambda>_. returnS ())
      | ThinkingLevelChangeE level \<Rightarrow> bindS (appendThinkingLevelChange so e level) (\<lambda>_. returnS ())
      | ActiveToolsChangeE names \<Rightarrow> bindS (appendActiveToolsChange so e names) (\<lambda>_. returnS ())
      | CustomE ty data \<Rightarrow> bindS (appendCustomEntry so e ty data) (\<lambda>_. returnS ())
      | CustomMessageE c \<Rightarrow>
          bindS (appendCustomMessageEntry so e (cme_customType c) (cme_content c) (cme_display c) (cme_details c)) (\<lambda>_. returnS ())
      | LabelE t l \<Rightarrow> bindS (appendLabel so e t l) (\<lambda>_. returnS ())
      | SessionInfoE name \<Rightarrow> bindS (appendSessionName so e (case name of Some n \<Rightarrow> n | None \<Rightarrow> [])) (\<lambda>_. returnS ())
      | LeafE t \<Rightarrow> so_setLeafId so t
      | _ \<Rightarrow> returnS ())"

fun flush_loop :: "('s, 'e) HarnessRuntime \<Rightarrow> entry_body list \<Rightarrow> ('s, 'e, unit) harness_prog" where
  "flush_loop rt [] = retH ()"
| "flush_loop rt (w # ws) =
     bindH (sessionH (write_pending (hr_storage rt) (hr_clock rt) w)) (\<lambda>_.
     bindH (setH (\<lambda>h. h\<lparr>ah_pendingSessionWrites := tl (ah_pendingSessionWrites h)\<rparr>)) (\<lambda>_. flush_loop rt ws))"

definition flushPendingSessionWrites :: "('s, 'e) HarnessRuntime \<Rightarrow> ('s, 'e, unit) harness_prog" where
  "flushPendingSessionWrites rt = bindH (getH ah_pendingSessionWrites) (flush_loop rt)"

definition queue_write :: "entry_body \<Rightarrow> ('s, 'e, unit) harness_prog" where
  "queue_write w = setH (\<lambda>h. h\<lparr>ah_pendingSessionWrites := ah_pendingSessionWrites h @ [w]\<rparr>)"

section \<open>A run\<close>

definition prepare_next_turn :: "('s, 'e) HarnessRuntime \<Rightarrow> ('s, 'e, ('s, 'e) AgentHarness AgentLoopTurnUpdate option) harness_prog" where
  "prepare_next_turn rt =
     bindH (flushPendingSessionWrites rt) (\<lambda>_.
     bindH (createTurnState rt) (\<lambda>next.
     bindH (setH (\<lambda>h. h\<lparr>ah_turnState := next\<rparr>)) (\<lambda>_.
       retH (Some \<lparr>atu_context = Some (createContext rt next None), atu_model = Some (ts_model next),
                   atu_thinkingLevel = Some (ts_thinkingLevel next)\<rparr>))))"

definition handleAgentEvent :: "('s, 'e) HarnessRuntime \<Rightarrow> AgentEvent \<Rightarrow> ('s, 'e, unit) harness_prog" where
  "handleAgentEvent rt ev =
     (case ev of
        MessageEnd m \<Rightarrow>
          bindH (sessionH (appendMessage (hr_storage rt) (hr_clock rt) m)) (\<lambda>_. emitAny rt ev)
      | TurnEnd m results \<Rightarrow>
          bindH (catchH (bindH (emitAny rt ev) (\<lambda>_. retH None)) (\<lambda>err. retH (Some err))) (\<lambda>eventError.
          bindH (getH (\<lambda>h. ah_pendingSessionWrites h \<noteq> [])) (\<lambda>hadPendingMutations.
          bindH (flushPendingSessionWrites rt) (\<lambda>_.
            (case eventError of Some err \<Rightarrow> raiseH err | None \<Rightarrow> emitOwn rt (SavePoint hadPendingMutations)))))
      | AgentEnd ms \<Rightarrow>
          bindH (flushPendingSessionWrites rt) (\<lambda>_.
          bindH (setH (\<lambda>h. h\<lparr>ah_phase := IdlePhase\<rparr>)) (\<lambda>_.
          bindH (emitAny rt ev) (\<lambda>_.
          bindH (getH (\<lambda>h. length (ah_nextTurnQueue h))) (\<lambda>n. emitOwn rt (Settled n)))))
      | _ \<Rightarrow> emitAny rt ev)"

definition harnessLoopConfig ::
    "('s, 'e) HarnessRuntime \<Rightarrow> AgentHarnessTurnState \<Rightarrow> ('s, 'e) AgentHarness AgentLoopConfig" where
  "harnessLoopConfig rt ts =
     \<lparr>cfg_model = ts_model ts,
      cfg_reasoning = (if ts_thinkingLevel ts = js ''off'' then None else Some (ts_thinkingLevel ts)),
      cfg_apiKey = None,
      cfg_convertToLlm = (\<lambda>ms h. (Done (convertToLlm ms), h)),
      cfg_transformContext = Some (\<lambda>ms. as_callback
        (bindH (emitHook OnContext (\<lambda>n. hr_onContext rt n ms)) (\<lambda>result.
          retH (case result of Some ms' \<Rightarrow> ms' | None \<Rightarrow> ms)))),
      cfg_getApiKey = None,
      cfg_getSteeringMessages = Some (as_callback (drain_steerQueue rt)),
      cfg_getFollowUpMessages = Some (as_callback (drain_followUpQueue rt)),
      cfg_shouldStopAfterTurn = None,
      cfg_prepareNextTurn = Some (\<lambda>_. as_callback (prepare_next_turn rt)),
      cfg_toolExecution = None,
      cfg_beforeToolCall = Some (\<lambda>am tc args ctx. as_callback (emitToolCall rt tc args)),
      cfg_afterToolCall = Some (\<lambda>am tc args res isError ctx. as_callback
        (emitHook OnToolResult (\<lambda>n. hr_onToolResult rt n tc args res isError))),
      cfg_stream = (\<lambda>model lc key reasoning. as_callback (createStreamFn rt model lc reasoning)),
      cfg_nextEvent = as_callback (hr_nextEvent rt),
      cfg_result = as_callback (hr_result rt),
      cfg_aborted = (\<lambda>h. ah_runAbort h = Some True),
      cfg_now = (\<lambda>h. case date_now (hr_clock rt) (ah_world h) of (t, w) \<Rightarrow> (int t, h\<lparr>ah_world := w\<rparr>)),
      cfg_schedule = hr_schedule rt,
      cfg_sink = (\<lambda>ev. as_callback (handleAgentEvent rt ev))\<rparr>"

definition createUserMessage :: "('s, 'e) HarnessRuntime \<Rightarrow> jstring \<Rightarrow> user_block list \<Rightarrow> ('s, 'e, agent_message) harness_prog" where
  "createUserMessage rt content images =
     bindH (nowH rt) (\<lambda>now.
       retH (Msg (User \<lparr>um_content = CBlocks (TextBlock content None # images), um_timestamp = now\<rparr>)))"

definition createFailureMessage :: "Model \<Rightarrow> jstring \<Rightarrow> bool \<Rightarrow> int \<Rightarrow> AssistantMessage" where
  "createFailureMessage model err aborted now =
     \<lparr>am_content = [AText [] None], am_api = mo_api model, am_provider = mo_provider model,
      am_model = mo_id model, am_responseModel = None, am_responseId = None, am_diagnostics = None,
      am_usage = Some
        \<lparr>u_input = 0, u_output = 0, u_cacheRead = 0, u_cacheWrite = 0, u_totalTokens = 0,
         u_cost = \<lparr>cost_input = Dec 0 0, cost_output = Dec 0 0, cost_cacheRead = Dec 0 0, cost_cacheWrite = Dec 0 0,
                   cost_total = Dec 0 0\<rparr>\<rparr>,
      am_stopReason = (if aborted then Aborted else Error), am_errorMessage = Some err, am_timestamp = now\<rparr>"

definition emitRunFailure :: "('s, 'e) HarnessRuntime \<Rightarrow> jstring \<Rightarrow> (('s, 'e) AgentHarness, agent_message list) prog" where
  "emitRunFailure rt err =
     bindP (callP (as_callback (getH (\<lambda>h. (ts_model (ah_turnState h), ah_runAbort h = Some True))))) (\<lambda>(model, aborted).
     bindP (callP (as_callback (nowH rt))) (\<lambda>now.
     let m = assistant_msg (createFailureMessage model err aborted now)
     in bindP (forP (emitP (\<lambda>ev. as_callback (handleAgentEvent rt ev)))
                [MessageStart m, MessageEnd m, TurnEnd m [], AgentEnd [m]]) (\<lambda>_. retP [m])))"

text \<open>\<open>runResultPromise\<close>: the loop, a report of its failure, or the failure of that.\<close>

definition run_result ::
    "('s, 'e) HarnessRuntime \<Rightarrow> nat \<Rightarrow> AgentHarnessTurnState \<Rightarrow> jstring option \<Rightarrow> agent_message list \<Rightarrow>
     (('s, 'e) AgentHarness, agent_message list) prog" where
  "run_result rt fuel ts systemPrompt messages =
     tryP (runAgentLoop fuel messages (createContext rt ts systemPrompt) (harnessLoopConfig rt ts)) (\<lambda>err.
       tryP (emitRunFailure rt err) (\<lambda>_. throwP (js ''Agent run failed and failure reporting failed'')))"

definition run_result_promise ::
    "('s, 'e) HarnessRuntime \<Rightarrow> nat \<Rightarrow> AgentHarnessTurnState \<Rightarrow> jstring option \<Rightarrow> agent_message list \<Rightarrow>
     ('s, 'e, agent_message list) harness_prog" where
  "run_result_promise rt fuel ts systemPrompt messages = (\<lambda>h.
     case run_result rt fuel ts systemPrompt messages (h, []) of
       (Done ms, h', evs) \<Rightarrow> (Returns ms, h')
     | (Threw msg, h', evs) \<Rightarrow> (Raises (HarnessThrown UnknownError msg), h')
     | (Hangs, h', evs) \<Rightarrow> (Stuck, h'))"

text \<open>The messages queued for the next turn go before the message of the user.\<close>

definition with_next_turn :: "('s, 'e) HarnessRuntime \<Rightarrow> agent_message \<Rightarrow> ('s, 'e, agent_message list) harness_prog" where
  "with_next_turn rt m =
     bindH (getH ah_nextTurnQueue) (\<lambda>queuedMessages.
       if queuedMessages = [] then retH [m]
       else
         bindH (setH (\<lambda>h. h\<lparr>ah_nextTurnQueue := []\<rparr>)) (\<lambda>_.
         bindH (catchH (emitQueueUpdate rt) (\<lambda>err.
            bindH (setH (\<lambda>h. h\<lparr>ah_nextTurnQueue := queuedMessages @ ah_nextTurnQueue h\<rparr>)) (\<lambda>_.
              raiseH (normalizeHookError err)))) (\<lambda>_. retH (queuedMessages @ [m]))))"

definition last_assistant :: "agent_message list \<Rightarrow> AssistantMessage option" where
  "last_assistant ms =
     (case find is_assistant (rev ms) of Some (Msg (Assistant am)) \<Rightarrow> Some am | _ \<Rightarrow> None)"

text \<open>The start of \<open>executeTurn\<close>: the messages of the turn, and the system prompt of a hook.\<close>

definition turn_start ::
    "('s, 'e) HarnessRuntime \<Rightarrow> AgentHarnessTurnState \<Rightarrow> jstring \<Rightarrow> user_block list \<Rightarrow>
     ('s, 'e, agent_message list \<times> jstring option) harness_prog" where
  "turn_start rt turnState content images =
     bindH (setH (\<lambda>h. h\<lparr>ah_turnState := turnState\<rparr>)) (\<lambda>_.
     bindH (createUserMessage rt content images) (\<lambda>m.
     bindH (with_next_turn rt m) (\<lambda>messages.
     bindH (emitHook OnBeforeAgentStart (\<lambda>n.
       hr_onBeforeAgentStart rt n content images (ts_systemPrompt turnState) (ts_resources turnState))) (\<lambda>beforeResult.
       retH (messages @ (case Option.bind beforeResult bas_messages of Some ms \<Rightarrow> ms | None \<Rightarrow> []),
             Option.bind beforeResult bas_systemPrompt)))))"

text \<open>The rest: the run under an abort controller, and the clean-up.\<close>

definition answer_of :: "agent_message list \<Rightarrow> ('s, 'e, AssistantMessage) harness_prog" where
  "answer_of newMessages =
     (case last_assistant newMessages of
        Some am \<Rightarrow> retH am
      | None \<Rightarrow> raiseH (HarnessThrown InvalidState (js ''AgentHarness prompt completed without an assistant message'')))"

definition guarded_run ::
    "('s, 'e) HarnessRuntime \<Rightarrow> nat \<Rightarrow> AgentHarnessTurnState \<Rightarrow> jstring option \<Rightarrow> agent_message list \<Rightarrow>
     ('s, 'e, AssistantMessage) harness_prog" where
  "guarded_run rt fuel turnState systemPrompt messages =
     bindH (setH (\<lambda>h. h\<lparr>ah_runAbort := Some False\<rparr>)) (\<lambda>_.
       finallyH
         (bindH (run_result_promise rt fuel turnState systemPrompt messages) answer_of)
         (finallyH (flushPendingSessionWrites rt) (setH (\<lambda>h. h\<lparr>ah_runAbort := None\<rparr>))))"

definition executeTurn ::
    "('s, 'e) HarnessRuntime \<Rightarrow> nat \<Rightarrow> AgentHarnessTurnState \<Rightarrow> jstring \<Rightarrow> user_block list \<Rightarrow> ('s, 'e, AssistantMessage) harness_prog" where
  "executeTurn rt fuel turnState content images =
     bindH (turn_start rt turnState content images) (\<lambda>(messages, systemPrompt).
       guarded_run rt fuel turnState systemPrompt messages)"

text \<open>What \<open>prompt\<close>, \<open>skill\<close> and \<open>promptFromTemplate\<close> share.\<close>

definition in_turn ::
    "('s, 'e) HarnessRuntime \<Rightarrow> (AgentHarnessTurnState \<Rightarrow> ('s, 'e, AssistantMessage) harness_prog) \<Rightarrow> ('s, 'e, AssistantMessage) harness_prog" where
  "in_turn rt body =
     bindH (getH ah_phase) (\<lambda>phase.
       if phase \<noteq> IdlePhase then raiseH (HarnessThrown Busy (js ''AgentHarness is busy''))
       else
         bindH (setH (\<lambda>h. h\<lparr>ah_phase := TurnPhase, ah_running := True\<rparr>)) (\<lambda>_.
           finallyH
             (catchH (bindH (createTurnState rt) body) (\<lambda>err.
                bindH (setH (\<lambda>h. h\<lparr>ah_phase := IdlePhase\<rparr>)) (\<lambda>_. raiseH (normalizeHarnessError err UnknownError))))
             (setH (\<lambda>h. h\<lparr>ah_running := False\<rparr>))))"

definition harness_prompt :: "('s, 'e) HarnessRuntime \<Rightarrow> nat \<Rightarrow> jstring \<Rightarrow> user_block list \<Rightarrow> ('s, 'e, AssistantMessage) harness_prog" where
  "harness_prompt rt fuel content images = in_turn rt (\<lambda>turnState. executeTurn rt fuel turnState content images)"

definition harness_skill :: "('s, 'e) HarnessRuntime \<Rightarrow> nat \<Rightarrow> jstring \<Rightarrow> jstring option \<Rightarrow> ('s, 'e, AssistantMessage) harness_prog" where
  "harness_skill rt fuel name additionalInstructions = in_turn rt (\<lambda>turnState.
     (case find (\<lambda>s. sk_name s = name) (case res_skills (ts_resources turnState) of Some xs \<Rightarrow> xs | None \<Rightarrow> []) of
        None \<Rightarrow> raiseH (HarnessThrown InvalidArgument (js ''Unknown skill: '' @ name))
      | Some skill \<Rightarrow> executeTurn rt fuel turnState (formatSkillInvocation skill additionalInstructions) []))"

definition harness_promptFromTemplate :: "('s, 'e) HarnessRuntime \<Rightarrow> nat \<Rightarrow> jstring \<Rightarrow> jstring list \<Rightarrow> ('s, 'e, AssistantMessage) harness_prog" where
  "harness_promptFromTemplate rt fuel name args = in_turn rt (\<lambda>turnState.
     (case find (\<lambda>t. pt_name t = name) (case res_promptTemplates (ts_resources turnState) of Some xs \<Rightarrow> xs | None \<Rightarrow> []) of
        None \<Rightarrow> raiseH (HarnessThrown InvalidArgument (js ''Unknown prompt template: '' @ name))
      | Some template \<Rightarrow> executeTurn rt fuel turnState (formatPromptTemplateInvocation template args) []))"

section \<open>Queueing\<close>

definition harness_steer :: "('s, 'e) HarnessRuntime \<Rightarrow> jstring \<Rightarrow> user_block list \<Rightarrow> ('s, 'e, unit) harness_prog" where
  "harness_steer rt content images =
     bindH (getH ah_phase) (\<lambda>phase.
       if phase = IdlePhase then raiseH (HarnessThrown InvalidState (js ''Cannot steer while idle''))
       else bindH (createUserMessage rt content images) (\<lambda>m.
         bindH (setH (\<lambda>h. h\<lparr>ah_steerQueue := ah_steerQueue h @ [m]\<rparr>)) (\<lambda>_. emitQueueUpdate rt)))"

definition harness_followUp :: "('s, 'e) HarnessRuntime \<Rightarrow> jstring \<Rightarrow> user_block list \<Rightarrow> ('s, 'e, unit) harness_prog" where
  "harness_followUp rt content images =
     bindH (getH ah_phase) (\<lambda>phase.
       if phase = IdlePhase then raiseH (HarnessThrown InvalidState (js ''Cannot follow up while idle''))
       else bindH (createUserMessage rt content images) (\<lambda>m.
         bindH (setH (\<lambda>h. h\<lparr>ah_followUpQueue := ah_followUpQueue h @ [m]\<rparr>)) (\<lambda>_. emitQueueUpdate rt)))"

definition harness_nextTurn :: "('s, 'e) HarnessRuntime \<Rightarrow> jstring \<Rightarrow> user_block list \<Rightarrow> ('s, 'e, unit) harness_prog" where
  "harness_nextTurn rt content images =
     bindH (createUserMessage rt content images) (\<lambda>m.
     bindH (setH (\<lambda>h. h\<lparr>ah_nextTurnQueue := ah_nextTurnQueue h @ [m]\<rparr>)) (\<lambda>_. emitQueueUpdate rt))"

text \<open>A write goes to the session when the harness is idle and to the queue of writes otherwise.\<close>

definition write_or_queue :: "('s, jstring) op \<Rightarrow> entry_body \<Rightarrow> ('s, 'e, unit) harness_prog" where
  "write_or_queue direct w =
     bindH (getH ah_phase) (\<lambda>phase.
       if phase = IdlePhase then bindH (sessionH direct) (\<lambda>_. retH ()) else queue_write w)"

definition normalized :: "AgentHarnessErrorCode \<Rightarrow> ('s, 'e, 'a) harness_prog \<Rightarrow> ('s, 'e, 'a) harness_prog" where
  "normalized code m = catchH m (\<lambda>err. raiseH (normalizeHarnessError err code))"

definition harness_appendMessage :: "('s, 'e) HarnessRuntime \<Rightarrow> agent_message \<Rightarrow> ('s, 'e, unit) harness_prog" where
  "harness_appendMessage rt m =
     normalized SessionFailure (write_or_queue (appendMessage (hr_storage rt) (hr_clock rt) m) (MessageE m))"

section \<open>Configuration\<close>

definition harness_setModel :: "('s, 'e) HarnessRuntime \<Rightarrow> Model \<Rightarrow> ('s, 'e, unit) harness_prog" where
  "harness_setModel rt model = normalized SessionFailure
     (bindH (getH ah_model) (\<lambda>previousModel.
      bindH (write_or_queue (appendModelChange (hr_storage rt) (hr_clock rt) (mo_provider model) (mo_id model))
               (ModelChangeE (mo_provider model) (mo_id model))) (\<lambda>_.
      bindH (setH (\<lambda>h. h\<lparr>ah_model := model\<rparr>)) (\<lambda>_. emitOwn rt (ModelUpdate model previousModel)))))"

definition harness_setThinkingLevel :: "('s, 'e) HarnessRuntime \<Rightarrow> jstring \<Rightarrow> ('s, 'e, unit) harness_prog" where
  "harness_setThinkingLevel rt level = normalized SessionFailure
     (bindH (getH ah_thinkingLevel) (\<lambda>previousLevel.
      bindH (write_or_queue (appendThinkingLevelChange (hr_storage rt) (hr_clock rt) level) (ThinkingLevelChangeE level)) (\<lambda>_.
      bindH (setH (\<lambda>h. h\<lparr>ah_thinkingLevel := level\<rparr>)) (\<lambda>_. emitOwn rt (ThinkingLevelUpdate level previousLevel)))))"

definition checkH :: "thrown + unit \<Rightarrow> ('h, unit) hprog" where
  "checkH r = (case r of Inl err \<Rightarrow> raiseH err | Inr _ \<Rightarrow> retH ())"

definition emit_tools_update :: "('s, 'e) HarnessRuntime \<Rightarrow> jstring list \<Rightarrow> jstring list \<Rightarrow> ('s, 'e, unit) harness_prog" where
  "emit_tools_update rt previousToolNames previousActiveToolNames =
     bindH (getH (\<lambda>h. ToolsUpdate (map fst (ah_tools h)) previousToolNames (ah_activeToolNames h) previousActiveToolNames))
       (emitOwn rt)"

definition harness_setTools :: "('s, 'e) HarnessRuntime \<Rightarrow> tool_ref list \<Rightarrow> jstring list option \<Rightarrow> ('s, 'e, unit) harness_prog" where
  "harness_setTools rt tools activeToolNames = normalized InvalidArgument
     (bindH (checkH (validateUniqueNames (map fst tools) ''Duplicate tool name(s)'')) (\<lambda>_.
      bindH (getH (\<lambda>h. case activeToolNames of Some ns \<Rightarrow> ns | None \<Rightarrow> ah_activeToolNames h)) (\<lambda>nextActiveToolNames.
      bindH (checkH (validateToolNames nextActiveToolNames tools)) (\<lambda>_.
      bindH (getH (\<lambda>h. (map fst (ah_tools h), ah_activeToolNames h))) (\<lambda>(previousToolNames, previousActiveToolNames).
      bindH (write_or_queue (appendActiveToolsChange (hr_storage rt) (hr_clock rt) nextActiveToolNames)
               (ActiveToolsChangeE nextActiveToolNames)) (\<lambda>_.
      bindH (setH (\<lambda>h. h\<lparr>ah_tools := tools, ah_activeToolNames := nextActiveToolNames\<rparr>)) (\<lambda>_.
        emit_tools_update rt previousToolNames previousActiveToolNames)))))))"

definition harness_setActiveTools :: "('s, 'e) HarnessRuntime \<Rightarrow> jstring list \<Rightarrow> ('s, 'e, unit) harness_prog" where
  "harness_setActiveTools rt toolNames = normalized InvalidArgument
     (bindH (getH ah_tools) (\<lambda>tools.
      bindH (checkH (validateToolNames toolNames tools)) (\<lambda>_.
      bindH (getH (\<lambda>h. (map fst (ah_tools h), ah_activeToolNames h))) (\<lambda>(previousToolNames, previousActiveToolNames).
      bindH (write_or_queue (appendActiveToolsChange (hr_storage rt) (hr_clock rt) toolNames) (ActiveToolsChangeE toolNames)) (\<lambda>_.
      bindH (setH (\<lambda>h. h\<lparr>ah_activeToolNames := toolNames\<rparr>)) (\<lambda>_.
        emit_tools_update rt previousToolNames previousActiveToolNames))))))"

text \<open>\<open>this.activeToolNames.map((name) => this.tools.get(name)!)\<close>: \<open>None\<close> is an undefined element.\<close>

definition harness_getActiveTools :: "('s, 'e) AgentHarness \<Rightarrow> tool_ref option list" where
  "harness_getActiveTools h = map (\<lambda>n. find (\<lambda>t. fst t = n) (ah_tools h)) (ah_activeToolNames h)"

definition harness_setSteeringMode :: "QueueMode \<Rightarrow> ('s, 'e, unit) harness_prog" where
  "harness_setSteeringMode mode = setH (\<lambda>h. h\<lparr>ah_steeringQueueMode := mode\<rparr>)"

definition harness_setFollowUpMode :: "QueueMode \<Rightarrow> ('s, 'e, unit) harness_prog" where
  "harness_setFollowUpMode mode = setH (\<lambda>h. h\<lparr>ah_followUpQueueMode := mode\<rparr>)"

definition harness_setResources :: "('s, 'e) HarnessRuntime \<Rightarrow> AgentHarnessResources \<Rightarrow> ('s, 'e, unit) harness_prog" where
  "harness_setResources rt resources =
     bindH (getH ah_resources) (\<lambda>previousResources.
     bindH (setH (\<lambda>h. h\<lparr>ah_resources := resources\<rparr>)) (\<lambda>_.
     bindH (getH (\<lambda>h. ResourcesUpdate (ah_resources h) previousResources)) (emitOwn rt)))"

definition harness_setStreamOptions :: "AgentHarnessStreamOptions \<Rightarrow> ('s, 'e, unit) harness_prog" where
  "harness_setStreamOptions options = setH (\<lambda>h. h\<lparr>ah_streamOptions := options\<rparr>)"

text \<open>A set of handlers keeps the order of insertion; the subscriber type is \<open>AnyEvent\<close>.\<close>

definition harness_on :: "handler_type \<Rightarrow> nat \<Rightarrow> ('s, 'e, unit) harness_prog" where
  "harness_on ty n = setH (\<lambda>h. h\<lparr>ah_handlers := (ah_handlers h)(ty :=
     (if n \<in> set (ah_handlers h ty) then ah_handlers h ty else ah_handlers h ty @ [n]))\<rparr>)"

definition harness_off :: "handler_type \<Rightarrow> nat \<Rightarrow> ('s, 'e, unit) harness_prog" where
  "harness_off ty n = setH (\<lambda>h. h\<lparr>ah_handlers := (ah_handlers h)(ty := removeAll n (ah_handlers h ty))\<rparr>)"

text \<open>The constructor: the defaults, and the checks of the names.\<close>

record HarnessOptions =
  ho_tools :: "tool_ref list option"
  ho_resources :: "AgentHarnessResources option"
  ho_streamOptions :: "AgentHarnessStreamOptions option"
  ho_model :: Model
  ho_thinkingLevel :: "jstring option"
  ho_activeToolNames :: "jstring list option"
  ho_steeringMode :: "QueueMode option"
  ho_followUpMode :: "QueueMode option"

definition no_stream_options :: AgentHarnessStreamOptions where
  "no_stream_options =
     \<lparr>hso_transport = None, hso_timeoutMs = None, hso_maxRetries = None, hso_maxRetryDelayMs = None,
      hso_headers = None, hso_metadata = None, hso_cacheRetention = None\<rparr>"

definition no_resources :: AgentHarnessResources where
  "no_resources = \<lparr>res_promptTemplates = None, res_skills = None\<rparr>"

definition or_default :: "'a option \<Rightarrow> 'a \<Rightarrow> 'a" where
  "or_default x d = (case x of Some y \<Rightarrow> y | None \<Rightarrow> d)"

definition new_harness :: "HarnessOptions \<Rightarrow> 's \<Rightarrow> world \<Rightarrow> 'e \<Rightarrow> thrown + ('s, 'e) AgentHarness" where
  "new_harness options session w env =
     (let tools = or_default (ho_tools options) [];
          activeToolNames = or_default (ho_activeToolNames options) (map fst tools);
          streamOptions = or_default (ho_streamOptions options) no_stream_options;
          resources = or_default (ho_resources options) no_resources
      in case validateUniqueNames (map fst tools) ''Duplicate tool name(s)'' of
           Inl err \<Rightarrow> Inl err
         | Inr _ \<Rightarrow>
             (case validateToolNames activeToolNames tools of
                Inl err \<Rightarrow> Inl err
              | Inr _ \<Rightarrow> Inr
                  \<lparr>ah_session = session, ah_world = w, ah_phase = IdlePhase, ah_runAbort = None, ah_running = False,
                   ah_pendingSessionWrites = [], ah_model = ho_model options,
                   ah_thinkingLevel = or_default (ho_thinkingLevel options) (js ''off''),
                   ah_streamOptions = streamOptions, ah_resources = resources, ah_tools = tools,
                   ah_activeToolNames = activeToolNames, ah_steerQueue = [],
                   ah_steeringQueueMode = or_default (ho_steeringMode options) OneAtATime, ah_followUpQueue = [],
                   ah_followUpQueueMode = or_default (ho_followUpMode options) OneAtATime, ah_nextTurnQueue = [],
                   ah_handlers = (\<lambda>_. []),
                   ah_turnState = \<lparr>ts_messages = [], ts_resources = resources, ts_streamOptions = streamOptions,
                     ts_sessionId = [], ts_systemPrompt = [], ts_model = ho_model options,
                     ts_thinkingLevel = or_default (ho_thinkingLevel options) (js ''off''), ts_tools = tools,
                     ts_activeTools = []\<rparr>,
                   ah_env = env\<rparr>))"

section \<open>Compaction\<close>

definition compaction_details_json :: "CompactionResult \<Rightarrow> json" where
  "compaction_details_json r =
     obj [(''readFiles'', Some (JArr (map JStr (cr_readFiles r)))), (''modifiedFiles'', Some (JArr (map JStr (cr_modifiedFiles r))))]"

text \<open>The result of a hook, or of a request to the model, as \<open>compact\<close> of the harness uses it.\<close>

definition compact_with ::
    "('s, 'e) HarnessRuntime \<Rightarrow> CompactionPreparation \<Rightarrow> Model \<Rightarrow> jstring \<times> (jstring \<times> jstring) list option \<Rightarrow> jstring option \<Rightarrow>
     CompactResult option \<Rightarrow> ('s, 'e, CompactResult) harness_prog" where
  "compact_with rt preparation model auth customInstructions provided =
     (case provided of
        Some r \<Rightarrow> retH r
      | None \<Rightarrow> (\<lambda>h.
          case compact (hr_clock rt) (hr_completeSimple rt) preparation model (fst auth) (snd auth) customInstructions
                 (Some (ah_thinkingLevel h)) (ah_world h) of (r, w) \<Rightarrow>
            (case r of
               Inl (CompactionError c msg) \<Rightarrow> Raises (CompactionThrown c msg)
             | Inr x \<Rightarrow> Returns \<lparr>cpr_summary = cr_summary x, cpr_firstKeptEntryId = cr_firstKeptEntryId x,
                 cpr_tokensBefore = cr_tokensBefore x, cpr_details = Some (compaction_details_json x)\<rparr>,
             h\<lparr>ah_world := w\<rparr>)))"

definition require_auth ::
    "('s, 'e) HarnessRuntime \<Rightarrow> Model \<Rightarrow> string \<Rightarrow> ('s, 'e, jstring \<times> (jstring \<times> jstring) list option) harness_prog" where
  "require_auth rt model message =
     bindH (get_auth rt model) (\<lambda>auth.
       case auth of Some a \<Rightarrow> retH a | None \<Rightarrow> raiseH (HarnessThrown Auth (js message)))"

definition prepare_compaction ::
    "('s, 'e) HarnessRuntime \<Rightarrow> entry list \<Rightarrow> ('s, 'e, CompactionPreparation) harness_prog" where
  "prepare_compaction rt branchEntries =
     (case prepareCompaction (hr_date_ms rt) branchEntries DEFAULT_COMPACTION_SETTINGS of
        Inl (CompactionError c msg) \<Rightarrow> raiseH (CompactionThrown c msg)
      | Inr None \<Rightarrow> raiseH (HarnessThrown CompactionFailure (js ''Nothing to compact''))
      | Inr (Some preparation) \<Rightarrow> retH preparation)"

text \<open>From the session entry to the event: what \<open>compact\<close> does with a result.\<close>

definition record_compaction ::
    "('s, 'e) HarnessRuntime \<Rightarrow> CompactResult \<Rightarrow> bool \<Rightarrow> ('s, 'e, CompactResult) harness_prog" where
  "record_compaction rt result fromHook =
     bindH (sessionH (appendCompaction (hr_storage rt) (hr_clock rt) (cpr_summary result) (cpr_firstKeptEntryId result)
              (cpr_tokensBefore result) (cpr_details result) (Some fromHook))) (\<lambda>entryId.
     bindH (sessionH (so_getEntry (hr_storage rt) entryId)) (\<lambda>found.
     bindH (case found of
              Some en \<Rightarrow> if is_compaction en then emitOwn rt (SessionCompactEvent en fromHook) else retH ()
            | None \<Rightarrow> retH ()) (\<lambda>_. retH result)))"

text \<open>Structural operations: only when idle, and idle again afterwards, whatever happens.\<close>

definition in_phase ::
    "AgentHarnessPhase \<Rightarrow> string \<Rightarrow> AgentHarnessErrorCode \<Rightarrow> ('s, 'e, 'a) harness_prog \<Rightarrow> ('s, 'e, 'a) harness_prog" where
  "in_phase phase message fallback body =
     bindH (getH ah_phase) (\<lambda>p.
       if p \<noteq> IdlePhase then raiseH (HarnessThrown Busy (js message))
       else
         bindH (setH (\<lambda>h. h\<lparr>ah_phase := phase\<rparr>)) (\<lambda>_.
           finallyH (normalized fallback body) (setH (\<lambda>h. h\<lparr>ah_phase := IdlePhase\<rparr>))))"

definition compact_body :: "('s, 'e) HarnessRuntime \<Rightarrow> jstring option \<Rightarrow> ('s, 'e, CompactResult) harness_prog" where
  "compact_body rt customInstructions =
     (bindH (getH ah_model) (\<lambda>model.
        bindH (require_auth rt model ''No auth available for compaction'') (\<lambda>auth.
        bindH (sessionH (getBranch (hr_storage rt) None)) (\<lambda>branchEntries.
        bindH (prepare_compaction rt branchEntries) (\<lambda>preparation.
        bindH (emitHook OnSessionBeforeCompact (\<lambda>n.
          hr_onSessionBeforeCompact rt n preparation branchEntries customInstructions)) (\<lambda>hookResult.
        if (case hookResult of Some r \<Rightarrow> sbc_cancel r | None \<Rightarrow> False)
        then raiseH (HarnessThrown CompactionFailure (js ''Compaction cancelled''))
        else let provided = Option.bind hookResult sbc_compaction
             in bindH (compact_with rt preparation model auth customInstructions provided) (\<lambda>result.
                record_compaction rt result (provided \<noteq> None))))))))"

definition harness_compact :: "('s, 'e) HarnessRuntime \<Rightarrow> jstring option \<Rightarrow> ('s, 'e, CompactResult) harness_prog" where
  "harness_compact rt customInstructions =
     in_phase CompactionPhase ''compact() requires idle harness'' CompactionFailure (compact_body rt customInstructions)"

section \<open>Tree navigation\<close>

record NavigateTreeResult =
  ntr_cancelled :: bool
  ntr_editorText :: "jstring option"
  ntr_summaryEntry :: "entry option"

record NavigateOptions =
  nto_summarize :: "bool option"
  nto_customInstructions :: "jstring option"
  nto_replaceInstructions :: "bool option"
  nto_label :: "jstring option"

definition cancelled_result :: "bool \<Rightarrow> NavigateTreeResult" where
  "cancelled_result c = \<lparr>ntr_cancelled = c, ntr_editorText = None, ntr_summaryEntry = None\<rparr>"

text \<open>The new leaf and the text for the editor.\<close>

definition navigation_target :: "entry \<Rightarrow> jstring \<Rightarrow> jstring option \<times> jstring option" where
  "navigation_target targetEntry targetId =
     (case e_body targetEntry of
        MessageE (Msg (User u)) \<Rightarrow> (e_parentId targetEntry, Some (content_text (um_content u)))
      | CustomMessageE c \<Rightarrow> (e_parentId targetEntry, Some (content_text (cme_content c)))
      | _ \<Rightarrow> (Some targetId, None))"

text \<open>
  The summary of the branch that is left: that of the hook, one the user wants from the model, or
  none. The outer option is \<open>None\<close> when the request was aborted.
\<close>

definition branch_summary_for ::
    "('s, 'e) HarnessRuntime \<Rightarrow> entry list \<Rightarrow> SessionBeforeTreeResult option \<Rightarrow> NavigateOptions \<Rightarrow>
     ('s, 'e, (jstring option \<times> json option) option) harness_prog" where
  "branch_summary_for rt entries hookResult options =
     (let provided = Option.bind hookResult sbt_summary
      in if given (map_option fst provided) = None \<and> nto_summarize options = Some True \<and> entries \<noteq> [] then
           bindH (getH ah_model) (\<lambda>model.
           bindH (require_auth rt model ''No auth available for branch summary'') (\<lambda>auth. (\<lambda>h.
             case generateBranchSummary (hr_clock rt) (hr_completeSimple rt) (hr_date_ms rt) entries
                 \<lparr>go_model = model, go_apiKey = fst auth, go_headers = snd auth,
                  go_customInstructions = (case Option.bind hookResult sbt_customInstructions of
                     Some t \<Rightarrow> Some t | None \<Rightarrow> nto_customInstructions options),
                  go_replaceInstructions = or_default (case Option.bind hookResult sbt_replaceInstructions of
                     Some b \<Rightarrow> Some b | None \<Rightarrow> nto_replaceInstructions options) False,
                  go_reserveTokens = None\<rparr> (ah_world h) of (r, w) \<Rightarrow>
               (case r of
                  Inl (BranchSummaryError BAborted msg) \<Rightarrow> Returns None
                | Inl (BranchSummaryError c msg) \<Rightarrow> Raises (HarnessThrown BranchSummaryFailure msg)
                | Inr x \<Rightarrow> Returns (Some (Some (bsr_summary x),
                    Some (obj [(''readFiles'', Some (JArr (map JStr (bsr_readFiles x)))),
                               (''modifiedFiles'', Some (JArr (map JStr (bsr_modifiedFiles x))))]))),
                h\<lparr>ah_world := w\<rparr>))))
         else retH (Some (map_option fst provided, Option.bind provided snd)))"

definition summary_entry :: "('s, 'e) HarnessRuntime \<Rightarrow> jstring option \<Rightarrow> ('s, 'e, entry option) harness_prog" where
  "summary_entry rt summaryId =
     (case given summaryId of
        None \<Rightarrow> retH None
      | Some i \<Rightarrow> bindH (sessionH (so_getEntry (hr_storage rt) i)) (\<lambda>found.
          retH (case found of Some en \<Rightarrow> if e_type en = TBranchSummary then Some en else None | None \<Rightarrow> None)))"

text \<open>The move itself, with the summary if there is a text, and the event.\<close>

definition move_and_report ::
    "('s, 'e) HarnessRuntime \<Rightarrow> entry \<Rightarrow> jstring \<Rightarrow> jstring option \<Rightarrow> jstring option \<times> json option \<Rightarrow> bool \<Rightarrow>
     ('s, 'e, NavigateTreeResult) harness_prog" where
  "move_and_report rt targetEntry targetId oldLeafId summary fromHook =
     (case navigation_target targetEntry targetId of (newLeafId, editorText) \<Rightarrow>
       bindH (sessionH (moveTo (hr_storage rt) (hr_clock rt) newLeafId
                (case given (fst summary) of Some t \<Rightarrow> Some (t, snd summary, Some fromHook) | None \<Rightarrow> None))) (\<lambda>summaryId.
       bindH (summary_entry rt summaryId) (\<lambda>summaryEntry.
       bindH (sessionH (so_getLeafId (hr_storage rt))) (\<lambda>leaf.
       bindH (emitOwn rt (SessionTreeEvent leaf oldLeafId summaryEntry fromHook)) (\<lambda>_.
         retH \<lparr>ntr_cancelled = False, ntr_editorText = editorText, ntr_summaryEntry = summaryEntry\<rparr>)))))"

definition navigate_body ::
    "('s, 'e) HarnessRuntime \<Rightarrow> jstring \<Rightarrow> NavigateOptions \<Rightarrow> ('s, 'e, NavigateTreeResult) harness_prog" where
  "navigate_body rt targetId options =
       (bindH (sessionH (so_getLeafId (hr_storage rt))) (\<lambda>oldLeafId.
        if oldLeafId = Some targetId then retH (cancelled_result False)
        else
          bindH (sessionH (so_getEntry (hr_storage rt) targetId)) (\<lambda>found.
          case found of
            None \<Rightarrow> raiseH (HarnessThrown InvalidArgument (js ''Entry '' @ targetId @ js '' not found''))
          | Some targetEntry \<Rightarrow>
              bindH (sessionH (collectEntriesForBranchSummary (hr_storage rt) oldLeafId targetId)) (\<lambda>collected.
              let preparation =
                    \<lparr>tp_targetId = targetId, tp_oldLeafId = oldLeafId,
                     tp_commonAncestorId = col_commonAncestorId collected,
                     tp_entriesToSummarize = col_entries collected,
                     tp_userWantsSummary = or_default (nto_summarize options) False,
                     tp_customInstructions = nto_customInstructions options,
                     tp_replaceInstructions = nto_replaceInstructions options, tp_label = nto_label options\<rparr>
              in bindH (emitHook OnSessionBeforeTree (\<lambda>n. hr_onSessionBeforeTree rt n preparation)) (\<lambda>hookResult.
                 if (case hookResult of Some r \<Rightarrow> sbt_cancel r | None \<Rightarrow> False) then retH (cancelled_result True)
                 else
                   bindH (branch_summary_for rt (col_entries collected) hookResult options) (\<lambda>summary.
                     (case summary of
                        None \<Rightarrow> retH (cancelled_result True)
                      | Some s \<Rightarrow>
                          move_and_report rt targetEntry targetId oldLeafId s
                            (Option.bind hookResult sbt_summary \<noteq> None))))))))"

definition harness_navigateTree ::
    "('s, 'e) HarnessRuntime \<Rightarrow> jstring \<Rightarrow> NavigateOptions \<Rightarrow> ('s, 'e, NavigateTreeResult) harness_prog" where
  "harness_navigateTree rt targetId options =
     in_phase BranchSummaryPhase ''navigateTree() requires idle harness'' BranchSummaryFailure
       (navigate_body rt targetId options)"

section \<open>Abort\<close>

text \<open>
  \<open>waitForIdle\<close>: the promise of a run resolves when the run is over, so a call from within the run
  that waits for it never returns.
\<close>

definition waitForIdle :: "('s, 'e, unit) harness_prog" where
  "waitForIdle = (\<lambda>h. (if ah_running h then Stuck else Returns (), h))"

definition collect_error :: "thrown list \<Rightarrow> ('s, 'e, unit) harness_prog \<Rightarrow> ('s, 'e, thrown list) harness_prog" where
  "collect_error errs m = catchH (bindH m (\<lambda>_. retH errs)) (\<lambda>err. retH (errs @ [err]))"

definition signal_abort :: "('s, 'e) AgentHarness \<Rightarrow> ('s, 'e) AgentHarness" where
  "signal_abort h = h\<lparr>ah_steerQueue := [], ah_followUpQueue := [], ah_runAbort := map_option (\<lambda>_. True) (ah_runAbort h)\<rparr>"

definition harness_abort ::
    "('s, 'e) HarnessRuntime \<Rightarrow> ('s, 'e, agent_message list \<times> agent_message list) harness_prog" where
  "harness_abort rt =
     bindH (getH (\<lambda>h. (ah_steerQueue h, ah_followUpQueue h))) (\<lambda>(clearedSteer, clearedFollowUp).
     bindH (setH signal_abort) (\<lambda>_.
     bindH (collect_error [] (emitQueueUpdate rt)) (\<lambda>errors1.
     bindH (collect_error errors1 waitForIdle) (\<lambda>errors2.
     bindH (collect_error errors2 (emitOwn rt (AbortEvent clearedSteer clearedFollowUp))) (\<lambda>errors.
       (case errors of
          [] \<Rightarrow> retH (clearedSteer, clearedFollowUp)
        | [err] \<Rightarrow> raiseH (normalizeHarnessError err Hook)
        | _ \<Rightarrow> raiseH (HarnessThrown Hook (js ''Abort completed with errors''))))))))"

end
