(* ===== verification/HarnessRelation.thy ===== *)
theory HarnessRelation
  imports AgentHarness AgentRelation
begin

text \<open>
  Relations between the state of a harness before and after its programs, in the manner of
  \<open>AgentRelation\<close>: if every hook, listener, tool and provider function respects a relation that
  composes, and the few assignments of a run do, then so does every run and every operation.
\<close>

section \<open>Programs that respect a relation\<close>

definition respectsH :: "'h run_rel \<Rightarrow> ('h, 'a) hprog \<Rightarrow> bool" where
  "respectsH R m \<longleftrightarrow> (\<forall>h r h'. m h = (r, h') \<longrightarrow> R h (r = Stuck) [] h')"

lemma respectsHI: "(\<And>h r h'. m h = (r, h') \<Longrightarrow> R h (r = Stuck) [] h') \<Longrightarrow> respectsH R m"
  by (auto simp: respectsH_def)

lemma respectsHD: "respectsH R m \<Longrightarrow> m h = (r, h') \<Longrightarrow> R h (r = Stuck) [] h'"
  by (auto simp: respectsH_def)

lemma respects_as_callback: "respectsH R m \<Longrightarrow> respects_call R (as_callback m)"
  by (fastforce simp: respectsH_def respects_call_def as_callback_def split: prod.splits answer.splits)

lemma respects_tool_name [simp]: "respects_tool R (t\<lparr>at_name := n\<rparr>) = respects_tool R t"
  by (simp add: respects_tool_def)

text \<open>Programs that come to an end, step by step.\<close>

lemma bindH_Returns:
  "bindH m k h = (Returns y, h') \<longleftrightarrow> (\<exists>x h1. m h = (Returns x, h1) \<and> k x h1 = (Returns y, h'))"
  by (auto simp: bindH_def split: prod.splits answer.splits)

lemma bindH_ends:
  assumes "bindH m k h = (r, h')"
  obtains r1 h1 where "m h = (r1, h1)"
    "case r1 of Returns x \<Rightarrow> k x h1 = (r, h') | Raises err \<Rightarrow> r = Raises err \<and> h' = h1 | Stuck \<Rightarrow> r = Stuck \<and> h' = h1"
proof -
  obtain r1 h1 where "m h = (r1, h1)" by (metis prod.exhaust)
  with assms show thesis by (intro that [of r1 h1]) (auto simp: bindH_def split: answer.split)
qed

lemma bindH_apply:
  "m h = (r1, h1) \<Longrightarrow>
     bindH m k h = (case r1 of Returns x \<Rightarrow> k x h1 | Raises err \<Rightarrow> (Raises err, h1) | Stuck \<Rightarrow> (Stuck, h1))"
  by (simp add: bindH_def)

lemma bindH_assoc: "bindH (bindH m k) q = bindH m (\<lambda>x. bindH (k x) q)"
  by (rule ext) (auto simp: bindH_def split: prod.split answer.split)

lemma bindH_steps [simp]:
  "bindH (getH f) k h = k (f h) h" "bindH (setH u) q h = q () (u h)" "bindH (retH x) k h = k x h"
  "bindH (raiseH err) k h = (Raises err, h)"
  by (simp_all add: bindH_def getH_def setH_def retH_def raiseH_def)

lemma finallyH_ends:
  assumes "finallyH m c h = (r, h')" "r \<noteq> Stuck"
  obtains r1 h1 r2 where "m h = (r1, h1)" "r1 \<noteq> Stuck" "c h1 = (r2, h')" "r2 \<noteq> Stuck"
    "r = (case r2 of Raises err \<Rightarrow> Raises err | _ \<Rightarrow> r1)"
proof -
  obtain r1 h1 r2 h2 where m: "m h = (r1, h1)" and c: "c h1 = (r2, h2)" by (metis prod.exhaust)
  show thesis using assms m c by (intro that [of r1 h1 r2]) (auto simp: finallyH_def split: answer.splits)
qed

context run_relation begin

lemma respectsH_ret: "respectsH R (retH x)"
  by (auto simp: respectsH_def retH_def R_refl)

lemma respectsH_raise: "respectsH R (raiseH err)"
  by (auto simp: respectsH_def raiseH_def R_refl)

lemma respectsH_get: "respectsH R (getH f)"
  by (auto simp: respectsH_def getH_def R_refl)

lemma respectsH_set: "(\<And>h. R h False [] (f h)) \<Longrightarrow> respectsH R (setH f)"
  by (auto simp: respectsH_def setH_def)

lemma respectsH_bind:
  assumes "respectsH R m" "\<And>x. respectsH R (k x)"
  shows "respectsH R (bindH m k)"
proof (rule respectsHI)
  fix h r h'
  assume b: "bindH m k h = (r, h')"
  obtain r1 h1 where m: "m h = (r1, h1)" by (metis prod.exhaust)
  have e: "R h (r1 = Stuck) [] h1" using respectsHD [OF assms(1) m] .
  show "R h (r = Stuck) [] h'"
  proof (cases r1)
    case (Returns x)
    with b m have "k x h1 = (r, h')" by (simp add: bindH_def)
    with respectsHD [OF assms(2)] have "R h1 (r = Stuck) [] h'" by blast
    with e Returns show ?thesis using R_trans [of h "[]" h1 "r = Stuck" "[]" h'] by simp
  qed (use b m e in \<open>auto simp: bindH_def\<close>)
qed

lemma respectsH_catch:
  assumes "respectsH R m" "\<And>err. respectsH R (k err)"
  shows "respectsH R (catchH m k)"
proof (rule respectsHI)
  fix h r h'
  assume b: "catchH m k h = (r, h')"
  obtain r1 h1 where m: "m h = (r1, h1)" by (metis prod.exhaust)
  have e: "R h (r1 = Stuck) [] h1" using respectsHD [OF assms(1) m] .
  show "R h (r = Stuck) [] h'"
  proof (cases r1)
    case (Raises err)
    with b m have "k err h1 = (r, h')" by (simp add: catchH_def)
    with respectsHD [OF assms(2)] have "R h1 (r = Stuck) [] h'" by blast
    with e Raises show ?thesis using R_trans [of h "[]" h1 "r = Stuck" "[]" h'] by simp
  qed (use b m e in \<open>auto simp: catchH_def\<close>)
qed

lemma respectsH_finally:
  assumes "respectsH R m" "respectsH R c"
  shows "respectsH R (finallyH m c)"
proof (rule respectsHI)
  fix h r h'
  assume b: "finallyH m c h = (r, h')"
  obtain r1 h1 where m: "m h = (r1, h1)" by (metis prod.exhaust)
  obtain r2 h2 where c: "c h1 = (r2, h2)" by (metis prod.exhaust)
  have e: "R h (r1 = Stuck) [] h1" "R h1 (r2 = Stuck) [] h2"
    using respectsHD [OF assms(1) m] respectsHD [OF assms(2) c] .
  show "R h (r = Stuck) [] h'"
  proof (cases "r1 = Stuck")
    case True
    with b m e show ?thesis by (auto simp: finallyH_def)
  next
    case False
    then have "R h (r2 = Stuck) [] h2" using e R_trans [of h "[]" h1 "r2 = Stuck" "[]" h2] by simp
    moreover have "h' = h2" "(r = Stuck) = (r2 = Stuck)"
      using b m c False by (auto simp: finallyH_def split: answer.splits)
    ultimately show ?thesis by simp
  qed
qed

lemma respectsH_for_each: "(\<And>x. respectsH R (f x)) \<Longrightarrow> respectsH R (for_eachH f xs)"
  by (induction xs) (auto intro: respectsH_ret respectsH_bind)

lemma respectsH_hook_loop: "(\<And>n. respectsH R (f n)) \<Longrightarrow> respectsH R (hook_loop f ns prev)"
  by (induction ns arbitrary: prev)
    (auto intro!: respectsH_ret respectsH_bind respectsH_catch respectsH_raise)

lemma respectsH_thread: "(\<And>n x. respectsH R (f n x)) \<Longrightarrow> respectsH R (thread_handlers f u ns x)"
  by (induction ns arbitrary: x)
    (auto intro!: respectsH_ret respectsH_bind respectsH_catch respectsH_raise)

lemma respectsH_tool_call: "(\<And>n x. respectsH R (f n x)) \<Longrightarrow> respectsH R (tool_call_loop f ns r x)"
  by (induction ns arbitrary: r x)
    (auto intro!: respectsH_ret respectsH_bind respectsH_catch respectsH_raise split: prod.split)

lemmas respectsH_intros = respectsH_ret respectsH_raise respectsH_get respectsH_bind respectsH_catch
  respectsH_finally respectsH_for_each respectsH_thread

end

section \<open>Environments that respect a relation\<close>

text \<open>The provider may use the two functions it is given.\<close>

definition harness_env :: "('s, 'e) AgentHarness run_rel \<Rightarrow> ('s, 'e) HarnessRuntime \<Rightarrow> bool" where
  "harness_env R rt \<longleftrightarrow>
     (\<forall>l ev. respectsH R (hr_listener rt l ev)) \<and>
     (\<forall>n c im sp res. respectsH R (hr_onBeforeAgentStart rt n c im sp res)) \<and>
     (\<forall>n ms. respectsH R (hr_onContext rt n ms)) \<and>
     (\<forall>n m i os. respectsH R (hr_onBeforeProviderRequest rt n m i os)) \<and>
     (\<forall>n m j. respectsH R (hr_onBeforeProviderPayload rt n m j)) \<and>
     (\<forall>n tc args. respectsH R (hr_onToolCall rt n tc args)) \<and>
     (\<forall>n tc args res e. respectsH R (hr_onToolResult rt n tc args res e)) \<and>
     (\<forall>n p ens c. respectsH R (hr_onSessionBeforeCompact rt n p ens c)) \<and>
     (\<forall>n p. respectsH R (hr_onSessionBeforeTree rt n p)) \<and>
     (\<forall>f m l ts res. hr_systemPrompt rt = Some (PromptFunction f) \<longrightarrow> respectsH R (f m l ts res)) \<and>
     (\<forall>f m. hr_getApiKeyAndHeaders rt = Some f \<longrightarrow> respectsH R (f m)) \<and>
     (\<forall>m lc os r i k onPayload onResponse. (\<forall>j. respectsH R (onPayload j)) \<longrightarrow> (\<forall>s hs. respectsH R (onResponse s hs)) \<longrightarrow>
        respectsH R (hr_streamSimple rt m lc os r i k onPayload onResponse)) \<and>
     respectsH R (hr_nextEvent rt) \<and> respectsH R (hr_result rt) \<and>
     (\<forall>t. respects_tool R (hr_tool rt t))"

lemma harness_envD:
  assumes "harness_env R rt"
  shows "respectsH R (hr_listener rt l ev)"
    "respectsH R (hr_onBeforeAgentStart rt n c im sp res)"
    "respectsH R (hr_onContext rt n ms)"
    "respectsH R (hr_onBeforeProviderRequest rt n m i os)"
    "respectsH R (hr_onBeforeProviderPayload rt n m j)"
    "respectsH R (hr_onToolCall rt n tc args)"
    "respectsH R (hr_onToolResult rt n tc args res' e)"
    "respectsH R (hr_onSessionBeforeCompact rt n p ens c')"
    "respectsH R (hr_onSessionBeforeTree rt n p')"
    "hr_systemPrompt rt = Some (PromptFunction f) \<Longrightarrow> respectsH R (f m l' ts res)"
    "hr_getApiKeyAndHeaders rt = Some g \<Longrightarrow> respectsH R (g m)"
    "(\<And>j. respectsH R (onPayload j)) \<Longrightarrow> (\<And>s hs. respectsH R (onResponse s hs)) \<Longrightarrow>
       respectsH R (hr_streamSimple rt m lc os r i k onPayload onResponse)"
    "respectsH R (hr_nextEvent rt)" "respectsH R (hr_result rt)" "respects_tool R (hr_tool rt t)"
  using assms unfolding harness_env_def by (elim conjE; simp)+

section \<open>Runs\<close>

text \<open>
  What a run does to the state itself: it keeps its turn state, drains queues, reads the clock and
  the session, flushes the queued writes, appends the messages that end, and is idle at the end.
\<close>

locale harness_relation = hanging_run_relation R for R :: "('s, 'e) AgentHarness run_rel" +
  fixes rt :: "('s, 'e) HarnessRuntime"
  assumes env: "harness_env R rt"
    and keep_turnState: "R h False [] (h\<lparr>ah_turnState := ts\<rparr>)"
    and keep_steerQueue: "R h False [] (h\<lparr>ah_steerQueue := q\<rparr>)"
    and keep_followUpQueue: "R h False [] (h\<lparr>ah_followUpQueue := q\<rparr>)"
    and keep_idle: "R h False [] (h\<lparr>ah_phase := IdlePhase\<rparr>)"
    and keep_clock: "R h False [] (h\<lparr>ah_world := snd (date_now (hr_clock rt) (ah_world h))\<rparr>)"
    and keep_context: "respectsH R (sessionH (buildContext (hr_storage rt) (hr_date_ms rt)))"
    and keep_metadata: "respectsH R (sessionH (hr_metadataId rt))"
    and keep_flush: "respectsH R (flushPendingSessionWrites rt)"
    and keep_message: "sessionH (appendMessage (hr_storage rt) (hr_clock rt) m) h = (r, h') \<Longrightarrow> R h (r = Stuck) [MessageEnd m] h'"
    and quiet_event: "(\<And>m. ev \<noteq> MessageEnd m) \<Longrightarrow> R h b [] h' \<Longrightarrow> R h b [ev] h'"
begin

lemma respectsH_hook: "(\<And>n. respectsH R (f n)) \<Longrightarrow> respectsH R (emitHook ty f)"
  unfolding emitHook_def by (intro respectsH_bind respectsH_get respectsH_hook_loop)

lemma respectsH_tool_call_hook: "respectsH R (emitToolCall rt tc args)"
  unfolding emitToolCall_def by (intro respectsH_bind respectsH_get respectsH_tool_call harness_envD [OF env])

lemma respectsH_notify: "respectsH R (notify_listeners rt ev)"
  unfolding notify_listeners_def by (intro respectsH_intros harness_envD [OF env])

lemma respectsH_emit: "respectsH R (emitOwn rt ev)" "respectsH R (emitAny rt lev)"
  by (simp_all add: emitOwn_def emitAny_def respectsH_notify)

lemma respectsH_queue_update: "respectsH R (emitQueueUpdate rt)"
  unfolding emitQueueUpdate_def by (intro respectsH_bind respectsH_get respectsH_emit)

lemma respectsH_now: "respectsH R (nowH rt)"
proof (rule respectsHI)
  fix h r h'
  assume "nowH rt h = (r, h')"
  then have "h' = h\<lparr>ah_world := snd (date_now (hr_clock rt) (ah_world h))\<rparr>" "r \<noteq> Stuck"
    by (auto simp: nowH_def split: prod.splits)
  then show "R h (r = Stuck) [] h'" using keep_clock [of h] by simp
qed

lemma respectsH_auth: "respectsH R (get_auth rt model)"
  unfolding get_auth_def
  by (cases "hr_getApiKeyAndHeaders rt") (auto intro: respectsH_ret harness_envD(11) [OF env])

lemma respectsH_turn_state: "respectsH R (createTurnState rt)"
proof -
  have "respectsH R (resolve_system_prompt rt m l ts res)" for m l ts res
    unfolding resolve_system_prompt_def
    by (auto intro!: respectsH_ret harness_envD(10) [OF env] split: option.split system_prompt.split)
  then show ?thesis
    unfolding createTurnState_def by (intro respectsH_bind keep_context keep_metadata respectsH_get)
qed

lemma respectsH_stream: "respectsH R (createStreamFn rt model lc reasoning)"
  unfolding createStreamFn_def emitBeforeProviderRequest_def emitBeforeProviderPayload_def Let_def
  by (intro respectsH_bind respectsH_get respectsH_auth respectsH_thread harness_envD [OF env] respectsH_emit)

lemma respectsH_drain:
  assumes "\<And>f h. R h False [] (update f h)"
  shows "respectsH R (drainQueuedMessages rt get update mode)"
  unfolding drainQueuedMessages_def Let_def
  by (auto intro!: respectsH_intros respectsH_set respectsH_queue_update assms split: if_splits)

lemma respectsH_drains: "respectsH R (drain_steerQueue rt)" "respectsH R (drain_followUpQueue rt)"
  unfolding drain_steerQueue_def drain_followUpQueue_def
  by (intro respectsH_bind respectsH_get respectsH_drain keep_steerQueue keep_followUpQueue)+

lemma respectsH_prepare: "respectsH R (prepare_next_turn rt)"
  unfolding prepare_next_turn_def
  by (intro respectsH_intros keep_flush respectsH_turn_state respectsH_set keep_turnState)

lemma respectsH_turn_end:
  "respectsH R (handleAgentEvent rt (TurnEnd m results))"
proof -
  have raise: "respectsH R (case eo of Some err \<Rightarrow> raiseH err | None \<Rightarrow> emitOwn rt (SavePoint b))" for eo b
    by (cases eo) (auto intro: respectsH_raise respectsH_emit)
  show ?thesis
    unfolding handleAgentEvent_def AgentEvent.case
    by (intro respectsH_intros respectsH_emit keep_flush raise)
qed

lemma respectsH_agent_end: "respectsH R (handleAgentEvent rt (AgentEnd ms))"
  unfolding handleAgentEvent_def AgentEvent.case
  by (intro respectsH_intros respectsH_emit keep_flush respectsH_set keep_idle)

lemma handle_event:
  assumes "handleAgentEvent rt ev h = (r, h')"
  shows "R h (r = Stuck) [ev] h'"
proof (cases "\<exists>m. ev = MessageEnd m")
  case True
  then obtain m where ev: "ev = MessageEnd m" by blast
  obtain r1 h1 where a: "sessionH (appendMessage (hr_storage rt) (hr_clock rt) m) h = (r1, h1)" by (metis prod.exhaust)
  note e = keep_message [OF a]
  show ?thesis
  proof (cases r1)
    case (Returns x)
    with assms a ev have "emitAny rt ev h1 = (r, h')" by (simp add: handleAgentEvent_def bindH_def)
    then have "R h1 (r = Stuck) [] h'" using respectsH_emit(2) by (auto dest: respectsHD)
    with e Returns ev show ?thesis using R_trans [of h "[ev]" h1 "r = Stuck" "[]" h'] by simp
  qed (use assms a e ev in \<open>auto simp: handleAgentEvent_def bindH_def\<close>)
next
  case False
  then have "respectsH R (handleAgentEvent rt ev)"
    using respectsH_turn_end respectsH_agent_end respectsH_emit(2) [of ev]
    by (cases ev) (auto simp: handleAgentEvent_def)
  then have "R h (r = Stuck) [] h'" using assms by (rule respectsHD)
  then show ?thesis using False by (intro quiet_event) auto
qed

lemma sink_event:
  "as_callback (handleAgentEvent rt ev) h = (r, h') \<Longrightarrow> R h (r = Hangs) [ev] h'"
  using handle_event [of ev h]
  by (fastforce simp: as_callback_def split: prod.splits answer.splits)

lemma loop_config:
  "respects_hooks R (harnessLoopConfig rt ts)" "respects_updates R (harnessLoopConfig rt ts)"
  "respects_streams R (harnessLoopConfig rt ts)" "respects_tools R (createContext rt ts' sp)"
proof -
  note h = harness_envD [OF env]
  have ctx: "respectsH R (bindH (emitHook OnContext (\<lambda>n. hr_onContext rt n ms)) (\<lambda>result.
      retH (case result of Some ms' \<Rightarrow> ms' | None \<Rightarrow> ms)))" for ms
    by (intro respectsH_intros respectsH_hook h)
  have clock: "R w False [] w'" if "(case date_now (hr_clock rt) (ah_world w) of (t, v) \<Rightarrow> (int t, w\<lparr>ah_world := v\<rparr>)) = (t, w')" for w t w'
    using that keep_clock [of w] by (auto split: prod.splits)
  have conv: "respects_call R (\<lambda>h. (Done (convertToLlm ms), h))" for ms
    by (auto simp: respects_call_def R_refl)
  show tools: "respects_tools R (createContext rt ts' sp)" for ts' sp
    using h(15) by (auto simp: respects_tools_def createContext_def)
  show "respects_hooks R (harnessLoopConfig rt ts)"
    using clock sink_event
    by (auto simp: respects_hooks_def harnessLoopConfig_def
        intro!: respects_as_callback ctx conv respectsH_drains respectsH_tool_call_hook respectsH_hook h)
  show "respects_streams R (harnessLoopConfig rt ts)"
    by (auto simp: respects_streams_def harnessLoopConfig_def intro!: respects_as_callback respectsH_stream h)
  have "as_callback (prepare_next_turn rt) w = (Done (Some u), w') \<Longrightarrow> atu_context u = Some ctx \<Longrightarrow> respects_tools R ctx" for w u w' ctx
    using tools
    by (auto simp: as_callback_def prepare_next_turn_def bindH_def retH_def split: prod.splits answer.splits)
  then show "respects_updates R (harnessLoopConfig rt ts)"
    by (auto simp: respects_updates_def harnessLoopConfig_def intro!: respects_as_callback respectsH_prepare)
qed

lemma relates_emit: "relates R (emitP (\<lambda>ev. as_callback (handleAgentEvent rt ev)) ev) (\<lambda>_. True)"
  by (auto simp: relates_def emitP_def dest!: sink_event split: prod.splits)

lemma relates_failure: "relates R (emitRunFailure rt err) (\<lambda>_. True)"
proof -
  have "relates R (callP (as_callback (getH f))) (\<lambda>_. True)" for f :: "('s, 'e) AgentHarness \<Rightarrow> 'b"
    by (intro rel_call respects_as_callback respectsH_get)
  moreover have "relates R (callP (as_callback (nowH rt))) (\<lambda>_. True)"
    by (intro rel_call respects_as_callback respectsH_now)
  ultimately show ?thesis
    unfolding emitRunFailure_def Let_def
    by (auto simp del: forP.simps intro!: rel_seq [of "callP _"] rel_seq [OF rel_for] relates_emit rel_ret split: prod.split)
qed

lemma relates_run: "relates R (run_result rt fuel ts sp messages) (\<lambda>_. True)"
proof -
  have "relates R (throwP msg) P" for msg and P :: "agent_message list \<Rightarrow> bool"
    by (auto simp: relates_def throwP_def R_refl)
  then show ?thesis
    unfolding run_result_def by (intro rel_try rel_runAgentLoop loop_config relates_failure)
qed

end

end
