(* ===== verification/HarnessControl.thy ===== *)
theory HarnessControl
  imports HarnessRelation
begin

text \<open>
  The control state of a harness (phase, abort controller, run promise) and its registry of tools:
  every operation leaves the harness idle, and the active tools always exist.
\<close>

section \<open>Relations that ignore the session\<close>

locale config_relation = hanging_run_relation R for R :: "('s, 'e) AgentHarness run_rel" +
  fixes rt :: "('s, 'e) HarnessRuntime"
  assumes config_env: "harness_env R rt"
    and free_session: "R h b [] (h\<lparr>ah_session := s, ah_world := w\<rparr>)"
    and free_pending: "R h False [] (h\<lparr>ah_pendingSessionWrites := ws\<rparr>)"
    and free_turnState: "R h False [] (h\<lparr>ah_turnState := ts\<rparr>)"
    and free_steerQueue: "R h False [] (h\<lparr>ah_steerQueue := q\<rparr>)"
    and free_followUpQueue: "R h False [] (h\<lparr>ah_followUpQueue := q\<rparr>)"
    and free_nextTurnQueue: "R h False [] (h\<lparr>ah_nextTurnQueue := q\<rparr>)"
    and free_idle: "R h False [] (h\<lparr>ah_phase := IdlePhase\<rparr>)"
    and free_abort: "R h False [] (signal_abort h)"
    and free_model: "R h False [] (h\<lparr>ah_model := m\<rparr>)"
    and free_thinkingLevel: "R h False [] (h\<lparr>ah_thinkingLevel := l\<rparr>)"
    and free_steeringMode: "R h False [] (h\<lparr>ah_steeringQueueMode := mode\<rparr>)"
    and free_followUpMode: "R h False [] (h\<lparr>ah_followUpQueueMode := mode\<rparr>)"
    and free_resources: "R h False [] (h\<lparr>ah_resources := res\<rparr>)"
    and free_streamOptions: "R h False [] (h\<lparr>ah_streamOptions := os\<rparr>)"
    and free_handlers: "R h False [] (h\<lparr>ah_handlers := hs\<rparr>)"
    and valid_tools: "distinct (map fst tools) \<Longrightarrow> distinct names \<Longrightarrow> set names \<subseteq> fst ` set tools \<Longrightarrow>
      R h False [] (h\<lparr>ah_tools := tools, ah_activeToolNames := names\<rparr>)"
    and valid_names: "distinct names \<Longrightarrow> set names \<subseteq> fst ` set (ah_tools h) \<Longrightarrow> R h False [] (h\<lparr>ah_activeToolNames := names\<rparr>)"
    and free_events: "R h b es h' \<Longrightarrow> R h b es' h'"
begin

lemma respectsH_session: "respectsH R (sessionH m)"
proof (rule respectsHI)
  fix h h' :: "('s, 'e) AgentHarness" and r
  assume "sessionH m h = (r, h')"
  then obtain s w where "h' = h\<lparr>ah_session := s, ah_world := w\<rparr>" by (auto simp: sessionH_def split: prod.splits)
  then show "R h (r = Stuck) [] h'" using free_session by simp
qed

lemma respectsH_flush: "respectsH R (flushPendingSessionWrites rt)"
proof -
  have "respectsH R (flush_loop rt ws)" for ws
    by (induction ws) (auto intro!: respectsH_intros respectsH_session respectsH_set free_pending)
  then show ?thesis unfolding flushPendingSessionWrites_def by (intro respectsH_intros)
qed

end

sublocale config_relation \<subseteq> harness_relation
proof unfold_locales
  fix h :: "('s, 'e) AgentHarness"
  show "R h False [] (h\<lparr>ah_world := w\<rparr>)" for w
    using free_session [of h False w "ah_session h"] by simp
  show "respectsH R (sessionH (buildContext (hr_storage rt) (hr_date_ms rt)))" "respectsH R (sessionH (hr_metadataId rt))"
    by (rule respectsH_session)+
  show "respectsH R (flushPendingSessionWrites rt)" by (rule respectsH_flush)
  show "R h (r = Stuck) [MessageEnd m] h'" if "sessionH (appendMessage (hr_storage rt) (hr_clock rt) m) h = (r, h')" for m r h'
    using free_events [OF respectsHD [OF respectsH_session that]] .
qed (rule config_env free_turnState free_steerQueue free_followUpQueue free_idle | erule free_events)+

text \<open>Every operation that is not a structural one respects the relation, and so do their bodies.\<close>

context config_relation begin

lemma respectsH_user_message: "respectsH R (createUserMessage rt content images)"
  unfolding createUserMessage_def by (intro respectsH_intros respectsH_now)

lemma respectsH_write: "respectsH R (write_or_queue m w)"
  unfolding write_or_queue_def queue_write_def
  by (auto intro!: respectsH_intros respectsH_session respectsH_set free_pending split: if_splits)

lemma respectsH_normalized: "respectsH R m \<Longrightarrow> respectsH R (normalized code m)"
  unfolding normalized_def by (intro respectsH_intros)

lemma respectsH_queueing:
  "respectsH R (harness_steer rt content images)" "respectsH R (harness_followUp rt content images)"
  "respectsH R (harness_nextTurn rt content images)" "respectsH R (harness_appendMessage rt m)"
  unfolding harness_steer_def harness_followUp_def harness_nextTurn_def harness_appendMessage_def
  by (auto intro!: respectsH_intros respectsH_user_message respectsH_set respectsH_queue_update respectsH_normalized
      respectsH_write free_steerQueue free_followUpQueue free_nextTurnQueue split: if_splits)

lemma respectsH_check_then:
  assumes "r = Inr () \<Longrightarrow> respectsH R m"
  shows "respectsH R (bindH (checkH r) (\<lambda>_. m))"
proof (cases r)
  case (Inl err)
  then show ?thesis by (simp add: checkH_def bindH_def raiseH_def respectsH_def R_refl)
next
  case (Inr u)
  then show ?thesis using assms by (auto simp: checkH_def bindH_def retH_def respectsH_def)
qed

lemma respectsH_setters:
  "respectsH R (harness_setModel rt model)" "respectsH R (harness_setThinkingLevel rt level)"
  "respectsH R (harness_setSteeringMode mode)" "respectsH R (harness_setFollowUpMode mode)"
  "respectsH R (harness_setResources rt resources)" "respectsH R (harness_setStreamOptions options)"
  "respectsH R (harness_on ty n)" "respectsH R (harness_off ty n)"
  unfolding harness_setModel_def harness_setThinkingLevel_def harness_setSteeringMode_def harness_setFollowUpMode_def
    harness_setResources_def harness_setStreamOptions_def harness_on_def harness_off_def
  by (intro respectsH_intros respectsH_normalized respectsH_write respectsH_set respectsH_emit
      free_model free_thinkingLevel free_steeringMode free_followUpMode free_resources free_streamOptions free_handlers)+

lemma respectsH_tools_update: "respectsH R (emit_tools_update rt ns as)"
  unfolding emit_tools_update_def by (intro respectsH_bind respectsH_get respectsH_emit)

lemma respectsH_setTools: "respectsH R (harness_setTools rt tools names)"
  unfolding harness_setTools_def
  by (intro respectsH_normalized respectsH_check_then respectsH_bind [OF respectsH_get] respectsH_bind [OF respectsH_write])
    (auto intro!: respectsH_bind [OF respectsH_get] respectsH_bind [OF respectsH_write] respectsH_bind [OF respectsH_set]
      respectsH_tools_update valid_tools simp: validateUniqueNames_ok validateToolNames_ok)

text \<open>The names are checked against the tools of the state, which the writes leave alone.\<close>

lemma write_keeps_tools: "write_or_queue m w h = (r, h') \<Longrightarrow> ah_tools h' = ah_tools h"
  by (auto simp: write_or_queue_def queue_write_def bindH_def getH_def setH_def sessionH_def retH_def
      split: if_splits prod.splits answer.splits)

lemma respectsH_setActiveTools: "respectsH R (harness_setActiveTools rt names)"
  unfolding harness_setActiveTools_def
proof (intro respectsH_normalized, rule respectsHI)
  fix h r h'
  let ?appended = "write_or_queue (appendActiveToolsChange (hr_storage rt) (hr_clock rt) names) (ActiveToolsChangeE names)"
  assume run: "bindH (getH ah_tools) (\<lambda>tools.
      bindH (checkH (validateToolNames names tools)) (\<lambda>_.
      bindH (getH (\<lambda>h. (map fst (ah_tools h), ah_activeToolNames h))) (\<lambda>(previousToolNames, previousActiveToolNames).
      bindH ?appended (\<lambda>_.
      bindH (setH (\<lambda>h. h\<lparr>ah_activeToolNames := names\<rparr>)) (\<lambda>_.
        emit_tools_update rt previousToolNames previousActiveToolNames))))) h = (r, h')"
  show "R h (r = Stuck) [] h'"
  proof (cases "validateToolNames names (ah_tools h)")
    case (Inl err)
    with run show ?thesis by (auto simp: bindH_def getH_def checkH_def raiseH_def R_refl)
  next
    case (Inr u)
    then have ok: "distinct names" "set names \<subseteq> fst ` set (ah_tools h)" by (simp_all add: validateToolNames_ok)
    obtain r1 h1 where w: "?appended h = (r1, h1)" by (metis prod.exhaust)
    note e = respectsHD [OF respectsH_write w]
    show ?thesis
    proof (cases r1)
      case (Returns x)
      let ?h2 = "h1\<lparr>ah_activeToolNames := names\<rparr>"
      have "emit_tools_update rt (map fst (ah_tools h)) (ah_activeToolNames h) ?h2 = (r, h')"
        using run Inr w Returns by (simp add: bindH_def getH_def checkH_def retH_def setH_def)
      then have "R ?h2 (r = Stuck) [] h'" by (rule respectsHD [OF respectsH_tools_update])
      moreover have "R h1 False [] ?h2" using valid_names ok write_keeps_tools [OF w] by simp
      ultimately show ?thesis
        using e Returns R_trans [of h1 "[]" ?h2 "r = Stuck" "[]" h'] R_trans [of h "[]" h1 "r = Stuck" "[]" h'] by simp
    qed (use run Inr w e in \<open>auto simp: bindH_def getH_def checkH_def retH_def\<close>)
  qed
qed

lemma respectsH_collect: "respectsH R m \<Longrightarrow> respectsH R (collect_error errs m)"
  unfolding collect_error_def by (intro respectsH_intros)

lemma respectsH_abort: "respectsH R (harness_abort rt)"
proof -
  have "respectsH R waitForIdle"
    by (auto simp: respectsH_def waitForIdle_def R_refl R_hang)
  then show ?thesis
    unfolding harness_abort_def
    by (auto intro!: respectsH_intros respectsH_set free_abort respectsH_collect respectsH_queue_update respectsH_emit
        split: list.split prod.split)
qed

lemma free_world: "R h b [] (h\<lparr>ah_world := w\<rparr>)"
  using free_session [of h b w "ah_session h"] by simp

lemma respectsH_turn_start: "respectsH R (turn_start rt ts content images)"
proof -
  have "respectsH R (with_next_turn rt m)" for m
    unfolding with_next_turn_def
    by (auto intro!: respectsH_intros respectsH_set free_nextTurnQueue respectsH_queue_update split: if_splits)
  then show ?thesis
    unfolding turn_start_def
    by (intro respectsH_intros respectsH_set free_turnState respectsH_user_message respectsH_hook harness_envD [OF env])
qed

lemma respectsH_require_auth: "respectsH R (require_auth rt model message)"
  unfolding require_auth_def
  by (auto intro!: respectsH_bind [OF respectsH_auth] respectsH_ret respectsH_raise split: option.split)

lemma respectsH_run: "respectsH R (run_result_promise rt fuel ts sp ms)"
proof (rule respectsHI)
  fix h r h'
  assume run: "run_result_promise rt fuel ts sp ms h = (r, h')"
  obtain o1 h1 evs where e: "run_result rt fuel ts sp ms (h, []) = (o1, h1, evs)" by (metis prod.exhaust)
  from relatesD [OF relates_run e] obtain es where "R h (o1 = Hangs) es h1" by auto
  moreover have "h' = h1" "(r = Stuck) = (o1 = Hangs)"
    using run e by (auto simp: run_result_promise_def split: outcome.splits)
  ultimately show "R h (r = Stuck) [] h'" using free_events by simp
qed

text \<open>The bodies of compaction and navigation.\<close>

lemma respectsH_compact_steps:
  "respectsH R (compact_with rt p model auth custom provided)" "respectsH R (prepare_compaction rt ens)"
  "respectsH R (record_compaction rt result fromHook)"
proof -
  show "respectsH R (compact_with rt p model auth custom provided)"
    unfolding compact_with_def
    by (auto simp: respectsH_def retH_def R_refl free_world split: option.split prod.splits sum.splits)
  show "respectsH R (prepare_compaction rt ens)"
    unfolding prepare_compaction_def
    by (auto intro!: respectsH_raise respectsH_ret split: sum.split compaction_error.split option.split)
  have "respectsH R (case found of Some en \<Rightarrow> if is_compaction en then emitOwn rt (SessionCompactEvent en fromHook) else retH ()
      | None \<Rightarrow> retH ())" for found
    by (auto intro!: respectsH_emit respectsH_ret split: option.split)
  then show "respectsH R (record_compaction rt result fromHook)"
    unfolding record_compaction_def by (intro respectsH_intros respectsH_session)
qed

lemma respectsH_branch_summary: "respectsH R (branch_summary_for rt ens hookResult options)"
proof -
  have "respectsH R (\<lambda>h. case generateBranchSummary e llm d ens os (ah_world h) of (r, w) \<Rightarrow>
      (case r of Inl (BranchSummaryError BAborted msg) \<Rightarrow> Returns None
       | Inl (BranchSummaryError c msg) \<Rightarrow> Raises (HarnessThrown BranchSummaryFailure msg)
       | Inr x \<Rightarrow> Returns (f x), h\<lparr>ah_world := w\<rparr>))" for e llm d os f
    by (auto simp: respectsH_def free_world split: prod.splits sum.splits branch_summary_error.splits BranchSummaryErrorCode.splits)
  then show ?thesis
    unfolding branch_summary_for_def Let_def
    by (auto intro!: respectsH_bind [OF respectsH_get] respectsH_bind [OF respectsH_require_auth] respectsH_ret)
qed

lemma respectsH_move: "respectsH R (move_and_report rt en target old summary fromHook)"
proof -
  have "respectsH R (summary_entry rt i)" for i
    unfolding summary_entry_def by (auto intro!: respectsH_intros respectsH_session split: option.split)
  then show ?thesis
    unfolding move_and_report_def
    by (auto intro!: respectsH_intros respectsH_session respectsH_emit split: prod.split)
qed

lemma respectsH_compact_body: "respectsH R (compact_body rt custom)"
  unfolding compact_body_def Let_def
  by (auto intro!: respectsH_intros respectsH_session respectsH_require_auth respectsH_hook harness_envD [OF env]
      respectsH_compact_steps split: if_splits)

lemma respectsH_navigate_body: "respectsH R (navigate_body rt target options)"
  unfolding navigate_body_def Let_def
  by (auto intro!: respectsH_intros respectsH_session respectsH_hook harness_envD [OF env] respectsH_branch_summary
      respectsH_move split: if_splits option.splits)

end

section \<open>Sequences of operations\<close>

datatype harness_command =
    HPrompt jstring "user_block list" | HSkill jstring "jstring option" | HTemplate jstring "jstring list"
  | HSteer jstring "user_block list" | HFollowUp jstring "user_block list" | HNextTurn jstring "user_block list"
  | HAppendMessage agent_message | HCompact "jstring option" | HNavigate jstring NavigateOptions
  | HSetModel Model | HSetThinkingLevel jstring | HSetTools "tool_ref list" "jstring list option"
  | HSetActiveTools "jstring list" | HSetSteeringMode QueueMode | HSetFollowUpMode QueueMode
  | HSetResources AgentHarnessResources | HSetStreamOptions AgentHarnessStreamOptions
  | HAbort | HOn handler_type nat | HOff handler_type nat

definition ignoreH :: "('h, 'a) hprog \<Rightarrow> ('h, unit) hprog" where
  "ignoreH m = bindH m (\<lambda>_. retH ())"

fun run_harness :: "('s, 'e) HarnessRuntime \<Rightarrow> nat \<Rightarrow> harness_command \<Rightarrow> ('s, 'e, unit) harness_prog" where
  "run_harness rt fuel (HPrompt c im) = ignoreH (harness_prompt rt fuel c im)"
| "run_harness rt fuel (HSkill n a) = ignoreH (harness_skill rt fuel n a)"
| "run_harness rt fuel (HTemplate n as) = ignoreH (harness_promptFromTemplate rt fuel n as)"
| "run_harness rt fuel (HSteer c im) = harness_steer rt c im"
| "run_harness rt fuel (HFollowUp c im) = harness_followUp rt c im"
| "run_harness rt fuel (HNextTurn c im) = harness_nextTurn rt c im"
| "run_harness rt fuel (HAppendMessage m) = harness_appendMessage rt m"
| "run_harness rt fuel (HCompact c) = ignoreH (harness_compact rt c)"
| "run_harness rt fuel (HNavigate t os) = ignoreH (harness_navigateTree rt t os)"
| "run_harness rt fuel (HSetModel m) = harness_setModel rt m"
| "run_harness rt fuel (HSetThinkingLevel l) = harness_setThinkingLevel rt l"
| "run_harness rt fuel (HSetTools ts ns) = harness_setTools rt ts ns"
| "run_harness rt fuel (HSetActiveTools ns) = harness_setActiveTools rt ns"
| "run_harness rt fuel (HSetSteeringMode mode) = harness_setSteeringMode mode"
| "run_harness rt fuel (HSetFollowUpMode mode) = harness_setFollowUpMode mode"
| "run_harness rt fuel (HSetResources res) = harness_setResources rt res"
| "run_harness rt fuel (HSetStreamOptions os) = harness_setStreamOptions os"
| "run_harness rt fuel HAbort = ignoreH (harness_abort rt)"
| "run_harness rt fuel (HOn ty n) = harness_on ty n"
| "run_harness rt fuel (HOff ty n) = harness_off ty n"

text \<open>A caller that goes on after an operation that throws; \<open>None\<close> if one does not return.\<close>

fun run_harness_all :: "('s, 'e) HarnessRuntime \<Rightarrow> nat \<Rightarrow> harness_command list \<Rightarrow> ('s, 'e) AgentHarness \<Rightarrow> ('s, 'e) AgentHarness option" where
  "run_harness_all rt fuel [] h = Some h"
| "run_harness_all rt fuel (c # cs) h =
     (case run_harness rt fuel c h of (Stuck, h') \<Rightarrow> None | (_, h') \<Rightarrow> run_harness_all rt fuel cs h')"

lemma run_harness_all_invariant:
  assumes "\<And>c h r h'. run_harness rt fuel c h = (r, h') \<Longrightarrow> r \<noteq> Stuck \<Longrightarrow> I h \<Longrightarrow> I h'"
  shows "run_harness_all rt fuel cs h = Some h' \<Longrightarrow> I h \<Longrightarrow> I h'"
proof (induction cs arbitrary: h)
  case (Cons c cs)
  obtain r h1 where r: "run_harness rt fuel c h = (r, h1)" by (metis prod.exhaust)
  with Cons assms [OF r] show ?case by (auto split: answer.splits)
qed simp

text \<open>The operations that are not structural respect every such relation.\<close>

definition structural :: "harness_command \<Rightarrow> bool" where
  "structural c \<longleftrightarrow> (\<exists>a b. c = HPrompt a b) \<or> (\<exists>a b. c = HSkill a b) \<or> (\<exists>a b. c = HTemplate a b) \<or>
     (\<exists>a. c = HCompact a) \<or> (\<exists>a b. c = HNavigate a b)"

context config_relation begin

lemma respectsH_ignore: "respectsH R m \<Longrightarrow> respectsH R (ignoreH m)"
  unfolding ignoreH_def by (intro respectsH_intros)

lemma respectsH_plain: "\<not> structural c \<Longrightarrow> respectsH R (run_harness rt fuel c)"
  by (cases c) (auto simp: structural_def respectsH_queueing respectsH_setters respectsH_setTools respectsH_setActiveTools
      intro: respectsH_ignore respectsH_abort)

end

section \<open>Relations that ignore the control state\<close>

locale control_relation = config_relation +
  assumes free_control: "R h False [] (h\<lparr>ah_phase := p, ah_runAbort := a, ah_running := b\<rparr>)"
begin

lemma free_control_fields:
  "R h False [] (h\<lparr>ah_phase := p, ah_running := b\<rparr>)" "R h False [] (h\<lparr>ah_phase := p\<rparr>)"
  "R h False [] (h\<lparr>ah_runAbort := a\<rparr>)" "R h False [] (h\<lparr>ah_running := b\<rparr>)"
  using free_control [of h b "ah_runAbort h" p] free_control [of h "ah_running h" "ah_runAbort h" p]
    free_control [of h "ah_running h" a "ah_phase h"] free_control [of h b "ah_runAbort h" "ah_phase h"]
  by simp_all

lemma respectsH_execute: "respectsH R (executeTurn rt fuel ts c im)"
  unfolding executeTurn_def guarded_run_def answer_of_def
  by (auto intro!: respectsH_bind [OF respectsH_turn_start] respectsH_bind respectsH_set respectsH_finally
      respectsH_run respectsH_flush free_control_fields respectsH_ret respectsH_raise split: option.split)

lemma respectsH_in_turn: "(\<And>ts. respectsH R (body ts)) \<Longrightarrow> respectsH R (in_turn rt body)"
  unfolding in_turn_def
  by (auto intro!: respectsH_bind respectsH_get respectsH_set respectsH_raise respectsH_finally respectsH_catch
      respectsH_turn_state free_control_fields)

lemma respectsH_in_phase: "respectsH R m \<Longrightarrow> respectsH R (in_phase p msg code m)"
  unfolding in_phase_def
  by (auto intro!: respectsH_bind respectsH_get respectsH_set respectsH_raise respectsH_finally respectsH_normalized
      free_control_fields)

lemma respectsH_command: "respectsH R (run_harness rt fuel c)"
proof (cases "structural c")
  case True
  then show ?thesis
    by (auto simp: structural_def harness_prompt_def harness_skill_def harness_promptFromTemplate_def
        harness_compact_def harness_navigateTree_def
        intro!: respectsH_ignore respectsH_in_turn respectsH_execute respectsH_in_phase respectsH_compact_body
          respectsH_navigate_body respectsH_raise split: option.split)
qed (rule respectsH_plain)

end

text \<open>A relation that an environment keeps, as one that every environment keeps.\<close>

definition trusting :: "('s, 'e) HarnessRuntime \<Rightarrow> ('s, 'e) AgentHarness run_rel \<Rightarrow> ('s, 'e) AgentHarness run_rel" where
  "trusting rt R = (\<lambda>h b evs h'. harness_env R rt \<longrightarrow> R h b evs h')"

lemma trusting_env: "harness_env (trusting rt R) rt"
proof (cases "harness_env R rt")
  case True
  then have "trusting rt R = R" by (simp add: trusting_def)
  with True show ?thesis by simp
next
  case False
  then have "trusting rt R = (\<lambda>h b evs h'. True)" by (simp add: trusting_def)
  then show ?thesis by (simp add: harness_env_def respectsH_def respects_tool_def)
qed

section \<open>The active tools exist\<close>

definition tools_ok :: "('s, 'e) AgentHarness \<Rightarrow> bool" where
  "tools_ok h \<longleftrightarrow> distinct (map fst (ah_tools h)) \<and> distinct (ah_activeToolNames h) \<and>
     set (ah_activeToolNames h) \<subseteq> fst ` set (ah_tools h)"

definition tools_rel :: "('s, 'e) AgentHarness run_rel" where
  "tools_rel = (\<lambda>h b evs h'. tools_ok h \<longrightarrow> tools_ok h')"

interpretation tools: control_relation "trusting rt tools_rel" rt for rt :: "('s, 'e) HarnessRuntime"
  by unfold_locales (auto simp: trusting_env, auto simp: trusting_def tools_rel_def tools_ok_def signal_abort_def)

lemma new_harness_tools: "new_harness options s w e = Inr h \<Longrightarrow> tools_ok h"
  by (auto simp: new_harness_def Let_def tools_ok_def validateUniqueNames_ok validateToolNames_ok split: sum.splits)

lemma tools_run:
  assumes env: "harness_env tools_rel rt" and run: "run_harness rt fuel c h = (r, h')" and ok: "tools_ok h"
  shows "tools_ok h'"
  using respectsHD [OF tools.respectsH_command run] env ok by (simp add: trusting_def tools_rel_def)

lemma getActiveTools_ok: "tools_ok h \<Longrightarrow> None \<notin> set (harness_getActiveTools h)"
  by (auto simp: tools_ok_def harness_getActiveTools_def find_None_iff dest!: sym [of None])

section \<open>The last event of a run\<close>

text \<open>What holds of the result and the state of a program that returns.\<close>

definition afterP :: "('w, 'a) prog \<Rightarrow> ('a \<Rightarrow> 'w \<times> AgentEvent list \<Rightarrow> bool) \<Rightarrow> bool" where
  "afterP m Q \<longleftrightarrow> (\<forall>s x s'. m s = (Done x, s') \<longrightarrow> Q x s')"

lemma afterP_ret: "(\<And>s. Q x s) \<Longrightarrow> afterP (retP x) Q"
  by (simp add: afterP_def retP_def)

lemma afterP_any: "afterP m (\<lambda>_ _. True)"
  by (simp add: afterP_def)

lemma afterP_bind: "afterP m P \<Longrightarrow> (\<And>x s. P x s \<Longrightarrow> afterP (k x) Q) \<Longrightarrow> afterP (bindP m k) Q"
  by (fastforce simp: afterP_def bindP_def split: prod.splits outcome.splits)

lemmas afterP_seq = afterP_bind [OF afterP_any]

text \<open>A sink that returned from an \<open>agent_end\<close> event.\<close>

definition ended :: "(AgentEvent \<Rightarrow> 'w \<Rightarrow> unit outcome \<times> 'w) \<Rightarrow> 'w \<times> AgentEvent list \<Rightarrow> bool" where
  "ended sink s \<longleftrightarrow> (\<exists>ms w. sink (AgentEnd ms) w = (Done (), fst s))"

lemma end_run_ended: "afterP (end_run cfg ms) (\<lambda>_. ended (cfg_sink cfg))"
  by (fastforce simp: afterP_def end_run_def emit_def emitP_def bindP_def retP_def ended_def
      split: prod.splits outcome.splits)

lemma apply_update_sink: "cfg_sink (ls_config (apply_update u st)) = cfg_sink (ls_config st)"
  by (simp add: apply_update_def split: option.split)

definition turn_ended :: "'w loop_state \<Rightarrow> 'w turn_result \<Rightarrow> 'w \<times> AgentEvent list \<Rightarrow> bool" where
  "turn_ended st r s \<longleftrightarrow>
     (case r of TurnStop ms \<Rightarrow> ended (cfg_sink (ls_config st)) s
      | TurnNext st' \<Rightarrow> cfg_sink (ls_config st') = cfg_sink (ls_config st))"

lemma stop_ended:
  "cfg_sink cfg = cfg_sink (ls_config st) \<Longrightarrow> afterP (bindP (end_run cfg ms) (\<lambda>ms. retP (TurnStop ms))) (turn_ended st)"
  by (fastforce simp: afterP_def bindP_def retP_def turn_ended_def split: prod.splits outcome.splits
      dest: end_run_ended [unfolded afterP_def, rule_format])

lemma next_ended: "cfg_sink (ls_config st') = cfg_sink (ls_config st) \<Longrightarrow> afterP (retP (TurnNext st')) (turn_ended st)"
  by (rule afterP_ret) (simp add: turn_ended_def)

lemma after_response_ended: "afterP (after_response st am) (turn_ended st)"
  unfolding after_response_def Let_def
  apply (rule afterP_seq)
  apply (clarsimp split: prod.split)
  apply (rule afterP_seq)+
  apply (split if_split, intro conjI impI)
  subgoal by (rule stop_ended) (simp add: apply_update_sink add_messages_def)
  subgoal by (rule afterP_seq, rule next_ended) (simp add: apply_update_sink add_messages_def)
  done

lemma inject_pending_sink: "afterP (inject_pending st) (\<lambda>st' _. cfg_sink (ls_config st') = cfg_sink (ls_config st))"
  unfolding inject_pending_def
  by (rule afterP_seq)+ (auto intro!: afterP_ret simp: add_messages_def)

lemma run_turn_ended: "afterP (run_turn fuel st) (turn_ended st)"
proof -
  have response: "afterP (after_response st' am) (turn_ended st)" if "cfg_sink (ls_config st') = cfg_sink (ls_config st)" for st' am
    using after_response_ended [of st' am] that by (simp add: afterP_def turn_ended_def cong: turn_result.case_cong)
  have failure: "afterP (bindP (emit cfg e) (\<lambda>_. bindP (end_run cfg ms) (\<lambda>ms. retP (TurnStop ms)))) (turn_ended st)"
    if "cfg_sink cfg = cfg_sink (ls_config st)" for cfg e ms
    by (rule afterP_seq) (rule stop_ended [OF that])
  show ?thesis
    unfolding run_turn_def Let_def
    apply (rule afterP_bind [OF inject_pending_sink])
    apply (rule afterP_seq)
    apply (auto simp: response failure split: prod.split)
    done
qed

lemma loop_turns_ended: "afterP (loop_turns fuel st) (\<lambda>_. ended (cfg_sink (ls_config st)))"
proof (induction fuel arbitrary: st)
  case 0
  show ?case by (simp add: afterP_def hangP_def)
next
  case (Suc fuel)
  have turn: "afterP (bindP (run_turn fuel st) (\<lambda>r. case r of TurnStop ms \<Rightarrow> retP ms | TurnNext st' \<Rightarrow> loop_turns fuel st'))
      (\<lambda>_. ended (cfg_sink (ls_config st)))"
    unfolding afterP_def
  proof (intro allI impI)
    fix s x s'
    assume run: "bindP (run_turn fuel st) (\<lambda>r. case r of TurnStop ms \<Rightarrow> retP ms | TurnNext st' \<Rightarrow> loop_turns fuel st') s = (Done x, s')"
    then obtain r s1 where t: "run_turn fuel st s = (Done r, s1)"
        and k: "(case r of TurnStop ms \<Rightarrow> retP ms | TurnNext st' \<Rightarrow> loop_turns fuel st') s1 = (Done x, s')"
      by (auto simp: bindP_def split: prod.splits outcome.splits)
    have e: "turn_ended st r s1" using run_turn_ended t unfolding afterP_def by blast
    show "ended (cfg_sink (ls_config st)) s'"
    proof (cases r)
      case (TurnStop ms)
      with k e show ?thesis by (simp add: turn_ended_def retP_def)
    next
      case (TurnNext st')
      with k have "loop_turns fuel st' s1 = (Done x, s')" by simp
      with Suc.IH [of st'] have "ended (cfg_sink (ls_config st')) s'" unfolding afterP_def by blast
      with TurnNext e show ?thesis by (simp add: turn_ended_def)
    qed
  qed
  have follow: "afterP (if followUp \<noteq> [] then loop_turns fuel (st\<lparr>ls_pending := followUp, ls_hasMoreToolCalls := True\<rparr>)
      else end_run (ls_config st) (ls_newMessages st)) (\<lambda>_. ended (cfg_sink (ls_config st)))" for followUp
    using Suc.IH [of "st\<lparr>ls_pending := followUp, ls_hasMoreToolCalls := True\<rparr>"] by (simp add: end_run_ended)
  show ?case
    unfolding loop_turns.simps by (auto intro!: turn afterP_seq follow)
qed

lemma runAgentLoop_ended: "afterP (runAgentLoop fuel ms ctx cfg) (\<lambda>_. ended (cfg_sink cfg))"
proof -
  have "afterP (loop_turns fuel
      \<lparr>ls_context = c, ls_config = cfg, ls_firstTurn = True, ls_pending = p, ls_hasMoreToolCalls = True, ls_newMessages = n\<rparr>)
      (\<lambda>_. ended (cfg_sink cfg))" for c p n
    using loop_turns_ended [of fuel "\<lparr>ls_context = c, ls_config = cfg, ls_firstTurn = True, ls_pending = p,
        ls_hasMoreToolCalls = True, ls_newMessages = n\<rparr>"] by simp
  then show ?thesis
    unfolding runAgentLoop_def runLoop_def by (intro afterP_seq)
qed

lemma forP_last: "afterP (forP f (xs @ [x])) Q" if "afterP (f x) (\<lambda>_. Q ())"
  using that
  by (induction xs) (auto simp: afterP_def bindP_def retP_def split: prod.splits outcome.splits)

section \<open>Every operation leaves the harness idle\<close>

text \<open>
  The abort controller and the run promise are those of the operation that runs; the phase may
  only become idle.
\<close>

definition control_rel :: "('s, 'e) AgentHarness run_rel" where
  "control_rel = (\<lambda>h b evs h'. (ah_phase h' = ah_phase h \<or> ah_phase h' = IdlePhase) \<and>
     ah_running h' = ah_running h \<and> (ah_runAbort h' = None \<longleftrightarrow> ah_runAbort h = None))"

interpretation control: config_relation "trusting rt control_rel" rt for rt :: "('s, 'e) HarnessRuntime"
  by unfold_locales (auto simp: trusting_env, auto simp: trusting_def control_rel_def signal_abort_def)

definition harness_idle :: "('s, 'e) AgentHarness \<Rightarrow> bool" where
  "harness_idle h \<longleftrightarrow> ah_phase h = IdlePhase \<and> ah_runAbort h = None \<and> \<not> ah_running h"

lemma respects_control:
  assumes "respectsH (trusting rt control_rel) m" "harness_env control_rel rt" "m h = (r, h')"
  shows "ah_phase h' = ah_phase h \<or> ah_phase h' = IdlePhase" "ah_running h' = ah_running h"
    "ah_runAbort h' = None \<longleftrightarrow> ah_runAbort h = None"
  using respectsHD [OF assms(1,3)] assms(2) by (auto simp: trusting_def control_rel_def)

lemma agent_end_idle:
  assumes env: "harness_env control_rel rt" and run: "handleAgentEvent rt (AgentEnd ms) h = (Returns (), h')"
  shows "ah_phase h' = IdlePhase"
proof -
  let ?events = "bindH (emitAny rt (AgentEnd ms)) (\<lambda>_.
      bindH (getH (\<lambda>h. length (ah_nextTurnQueue h))) (\<lambda>n. emitOwn rt (Settled n)))"
  obtain h1 where tail: "?events (h1\<lparr>ah_phase := IdlePhase\<rparr>) = (Returns (), h')"
    using run by (auto simp: handleAgentEvent_def bindH_Returns [of "flushPendingSessionWrites rt"])
  have "respectsH (trusting rt control_rel) ?events"
    by (intro control.respectsH_intros control.respectsH_emit)
  from respects_control(1) [OF this env tail] show ?thesis by simp
qed

lemma ended_idle:
  assumes "harness_env control_rel rt" "ended (\<lambda>ev. as_callback (handleAgentEvent rt ev)) s"
  shows "ah_phase (fst s) = IdlePhase"
proof -
  obtain ms w where "as_callback (handleAgentEvent rt (AgentEnd ms)) w = (Done (), fst s)"
    using assms(2) by (auto simp: ended_def)
  then have "handleAgentEvent rt (AgentEnd ms) w = (Returns (), fst s)"
    by (auto simp: as_callback_def split: prod.splits answer.splits)
  with agent_end_idle [OF assms(1)] show ?thesis .
qed

lemma emitP_ended: "afterP (emitP sink (AgentEnd ms)) (\<lambda>_. ended sink)"
  by (auto simp: afterP_def emitP_def ended_def split: prod.splits)

lemma emitRunFailure_ended: "afterP (emitRunFailure rt err) (\<lambda>_. ended (\<lambda>ev. as_callback (handleAgentEvent rt ev)))"
proof -
  let ?sink = "\<lambda>ev. as_callback (handleAgentEvent rt ev)"
  have "afterP (bindP (forP (emitP ?sink) [a, b, c, AgentEnd ms]) (\<lambda>_. retP [m])) (\<lambda>_. ended ?sink)" for a b c ms m
    using forP_last [of "emitP ?sink" "AgentEnd ms" "\<lambda>_. ended ?sink" "[a, b, c]"] emitP_ended [of ?sink ms]
    by (auto simp: afterP_def bindP_def retP_def simp del: forP.simps split: prod.splits outcome.splits)
  then show ?thesis
    unfolding emitRunFailure_def Let_def
    by (intro afterP_seq, clarsimp simp del: forP.simps split: prod.split) (rule afterP_seq)
qed

lemma run_result_ended:
  "afterP (run_result rt fuel ts sp ms) (\<lambda>_. ended (\<lambda>ev. as_callback (handleAgentEvent rt ev)))"
proof -
  have caught: "afterP m Q \<Longrightarrow> (\<And>msg. afterP (k msg) Q) \<Longrightarrow> afterP (tryP m k) Q"
    for m :: "(('a, 'b) AgentHarness, agent_message list) prog" and k Q
    by (fastforce simp: afterP_def tryP_def split: prod.splits outcome.splits)
  have throw: "afterP (throwP msg) Q" for msg and Q :: "agent_message list \<Rightarrow> ('a, 'b) AgentHarness \<times> AgentEvent list \<Rightarrow> bool"
    by (simp add: afterP_def throwP_def)
  show ?thesis
    unfolding run_result_def
    using runAgentLoop_ended [of fuel ms "createContext rt ts sp" "harnessLoopConfig rt ts"]
    by (intro caught emitRunFailure_ended throw) (simp add: harnessLoopConfig_def)
qed

text \<open>A run is over: no abort controller, and idle when it has an answer.\<close>

lemma guarded_run_settles:
  assumes env: "harness_env control_rel rt" and run: "guarded_run rt fuel ts sp ms h = (r, h')" and r: "r \<noteq> Stuck"
  shows "ah_runAbort h' = None" "ah_running h' = ah_running h" "r = Returns am \<Longrightarrow> ah_phase h' = IdlePhase"
proof -
  let ?h = "h\<lparr>ah_runAbort := Some False\<rparr>"
  let ?main = "bindH (run_result_promise rt fuel ts sp ms) answer_of"
  let ?cleanup = "finallyH (flushPendingSessionWrites rt) (setH (\<lambda>h. h\<lparr>ah_runAbort := None\<rparr>))"
  have fin: "finallyH ?main ?cleanup ?h = (r, h')" using run by (simp add: guarded_run_def)
  obtain r1 h1 r2 where main: "?main ?h = (r1, h1)" and cleanup: "?cleanup h1 = (r2, h')" "r2 \<noteq> Stuck"
      and r1: "r = (case r2 of Raises err \<Rightarrow> Raises err | _ \<Rightarrow> r1)"
    by (rule finallyH_ends [OF fin r])
  obtain r3 h2 r4 where flush: "flushPendingSessionWrites rt h1 = (r3, h2)" and "setH (\<lambda>h. h\<lparr>ah_runAbort := None\<rparr>) h2 = (r4, h')"
    by (rule finallyH_ends [OF cleanup])
  then have h': "h' = h2\<lparr>ah_runAbort := None\<rparr>" by (simp add: setH_def)
  have "respectsH (trusting rt control_rel) ?main"
    by (intro control.respectsH_bind control.respectsH_run) (auto simp: answer_of_def control.respectsH_ret
        control.respectsH_raise split: option.split)
  note keep = respects_control [OF this env main] respects_control [OF control.respectsH_flush env flush]
  then show "ah_runAbort h' = None" "ah_running h' = ah_running h" by (simp_all add: h')
  assume "r = Returns am"
  with r1 cleanup(2) have "r1 = Returns am" by (cases r2) auto
  with main obtain ms' where "run_result_promise rt fuel ts sp ms ?h = (Returns ms', h1)"
    by (auto simp: bindH_Returns answer_of_def retH_def raiseH_def split: option.splits)
  then obtain evs where "run_result rt fuel ts sp ms (?h, []) = (Done ms', h1, evs)"
    by (auto simp: run_result_promise_def split: prod.splits outcome.splits)
  with run_result_ended have "ended (\<lambda>ev. as_callback (handleAgentEvent rt ev)) (h1, evs)" unfolding afterP_def by blast
  with ended_idle [OF env] keep(4) show "ah_phase h' = IdlePhase" by (auto simp: h')
qed

definition settling :: "('s, 'e, AssistantMessage) harness_prog \<Rightarrow> bool" where
  "settling m \<longleftrightarrow> (\<forall>h r h'. m h = (r, h') \<longrightarrow> r \<noteq> Stuck \<longrightarrow> ah_runAbort h = None \<longrightarrow>
     ah_runAbort h' = None \<and> (\<forall>x. r = Returns x \<longrightarrow> ah_phase h' = IdlePhase))"

lemma executeTurn_settles: "harness_env control_rel rt \<Longrightarrow> settling (executeTurn rt fuel ts c im)"
  unfolding settling_def
proof (intro allI impI)
  fix h r h'
  assume env: "harness_env control_rel rt" and run: "executeTurn rt fuel ts c im h = (r, h')"
    and r: "r \<noteq> Stuck" and h: "ah_runAbort h = None"
  obtain r1 h1 where start: "turn_start rt ts c im h = (r1, h1)"
      and go: "case r1 of Returns x \<Rightarrow> (case x of (ms, sp) \<Rightarrow> guarded_run rt fuel ts sp ms) h1 = (r, h')
        | Raises err \<Rightarrow> r = Raises err \<and> h' = h1 | Stuck \<Rightarrow> r = Stuck \<and> h' = h1"
    using run unfolding executeTurn_def by (rule bindH_ends)
  note keep = respects_control(3) [OF control.respectsH_turn_start env start]
  show "ah_runAbort h' = None \<and> (\<forall>x. r = Returns x \<longrightarrow> ah_phase h' = IdlePhase)"
  proof (cases r1)
    case (Returns x)
    with go obtain ms sp where "guarded_run rt fuel ts sp ms h1 = (r, h')" by (cases x) auto
    from guarded_run_settles [OF env this r] show ?thesis by blast
  qed (use go r h keep in auto)
qed

lemma in_turn_settles:
  assumes env: "harness_env control_rel rt" and body: "\<And>ts. settling (body ts)"
    and run: "in_turn rt body h = (r, h')" and r: "r \<noteq> Stuck" and h: "harness_idle h"
  shows "harness_idle h'"
proof -
  let ?h = "h\<lparr>ah_phase := TurnPhase, ah_running := True\<rparr>"
  let ?main = "bindH (createTurnState rt) body"
  let ?report = "\<lambda>err. bindH (setH (\<lambda>h. h\<lparr>ah_phase := IdlePhase\<rparr>)) (\<lambda>_. raiseH (normalizeHarnessError err UnknownError))"
  have "finallyH (catchH ?main ?report) (setH (\<lambda>h. h\<lparr>ah_running := False\<rparr>)) ?h = (r, h')"
    using run h by (simp add: in_turn_def harness_idle_def)
  then obtain r1 h1 r2 where main: "catchH ?main ?report ?h = (r1, h1)" "r1 \<noteq> Stuck"
      and "setH (\<lambda>h. h\<lparr>ah_running := False\<rparr>) h1 = (r2, h')"
    using r by (rule finallyH_ends)
  then have h': "h' = h1\<lparr>ah_running := False\<rparr>" by (simp add: setH_def)
  obtain r3 h2 where b: "?main ?h = (r3, h2)" by (metis prod.exhaust)
  obtain r4 h3 where ts: "createTurnState rt ?h = (r4, h3)"
      and go: "case r4 of Returns x \<Rightarrow> body x h3 = (r3, h2) | Raises err \<Rightarrow> r3 = Raises err \<and> h2 = h3
        | Stuck \<Rightarrow> r3 = Stuck \<and> h2 = h3"
    using b by (rule bindH_ends)
  have r3: "r3 \<noteq> Stuck" using main b by (auto simp: catchH_def)
  have "ah_runAbort h3 = None"
    using respects_control(3) [OF control.respectsH_turn_state env ts] h by (simp add: harness_idle_def)
  then have body': "ah_runAbort h2 = None \<and> (\<forall>x. r3 = Returns x \<longrightarrow> ah_phase h2 = IdlePhase)"
    using body go r3 unfolding settling_def by (cases r4) auto
  show ?thesis
    using main b r3 body' by (cases r3) (auto simp: catchH_def h' harness_idle_def raiseH_def)
qed

lemma in_phase_settles:
  assumes env: "harness_env control_rel rt" and body: "respectsH (trusting rt control_rel) m"
    and run: "in_phase p msg code m h = (r, h')" and r: "r \<noteq> Stuck" and h: "harness_idle h"
  shows "harness_idle h'"
proof -
  have "finallyH (normalized code m) (setH (\<lambda>h. h\<lparr>ah_phase := IdlePhase\<rparr>)) (h\<lparr>ah_phase := p\<rparr>) = (r, h')"
    using run h by (simp add: in_phase_def harness_idle_def)
  then obtain r1 h1 r2 where main: "normalized code m (h\<lparr>ah_phase := p\<rparr>) = (r1, h1)"
      and "setH (\<lambda>h. h\<lparr>ah_phase := IdlePhase\<rparr>) h1 = (r2, h')"
    using r by (rule finallyH_ends)
  then have "h' = h1\<lparr>ah_phase := IdlePhase\<rparr>" by (simp add: setH_def)
  moreover note respects_control [OF control.respectsH_normalized [OF body] env main]
  ultimately show ?thesis using h by (simp add: harness_idle_def)
qed

lemma ignoreH_ends: "ignoreH m h = (r, h') \<Longrightarrow> r \<noteq> Stuck \<Longrightarrow> \<exists>r1. m h = (r1, h') \<and> r1 \<noteq> Stuck"
  by (auto simp: ignoreH_def bindH_def retH_def split: prod.splits answer.splits)

lemma command_settles:
  assumes env: "harness_env control_rel rt" and run: "run_harness rt fuel c h = (r, h')" and r: "r \<noteq> Stuck" and h: "harness_idle h"
  shows "harness_idle h'"
proof (cases "structural c")
  case True
  have raise: "settling (raiseH err)" for err by (simp add: settling_def raiseH_def)
  note turn = in_turn_settles [OF env _ _ _ h] and phase = in_phase_settles [OF env _ _ _ h]
  show ?thesis
    using True run r
    by (auto simp: structural_def harness_prompt_def harness_skill_def harness_promptFromTemplate_def
        harness_compact_def harness_navigateTree_def executeTurn_settles [OF env] raise
        dest!: ignoreH_ends dest: phase [OF control.respectsH_compact_body] phase [OF control.respectsH_navigate_body]
        elim!: turn [rotated 1] split: option.split)
next
  case False
  from respects_control [OF control.respectsH_plain [OF False] env run] h show ?thesis by (simp add: harness_idle_def)
qed

lemma new_harness_idle: "new_harness options s w e = Inr h \<Longrightarrow> harness_idle h"
  by (auto simp: new_harness_def Let_def harness_idle_def split: sum.splits)

end
