(* ===== verification/HarnessSession.thy ===== *)
theory HarnessSession
  imports HarnessControl JsonlStorage AgentTrace
begin

text \<open>
  What a prompt leaves in the session: every message of the run and every write that was queued
  meanwhile, each exactly once and in order, on the branch that the prompt started from; in the
  session file too when the session is kept in one.
\<close>

section \<open>The clock only advances\<close>

definition ticking :: "('s, 'a) op \<Rightarrow> bool" where
  "ticking m \<longleftrightarrow> (\<forall>s w r s' w'. m (s, w) = (r, s', w') \<longrightarrow> w_ticks w \<le> w_ticks w')"

named_theorems ticks \<open>operations that do not turn the clock back\<close>

lemma ticking_return [ticks]: "ticking (returnS x)"
  and ticking_throw [ticks]: "ticking (throwS err)"
  and ticking_timestamp [ticks]: "ticking (timestampS e)"
  by (simp_all add: ticking_def op_simps)

lemma ticking_bind [ticks]:
  assumes "ticking m" "\<And>x. ticking (k x)"
  shows "ticking (bindS m k)"
  unfolding ticking_def
proof (intro allI impI)
  fix s w r s' w'
  assume run: "bindS m k (s, w) = (r, s', w')"
  obtain r1 s1 w1 where m: "m (s, w) = (r1, s1, w1)" by (metis prod.exhaust)
  then have "w_ticks w \<le> w_ticks w1" using assms(1) unfolding ticking_def by blast
  moreover have "w_ticks w1 \<le> w_ticks w'"
  proof (cases r1)
    case (Inl err)
    with run m show ?thesis by (simp add: bindS_def)
  next
    case (Inr x)
    with run m have "k x (s1, w1) = (r, s', w')" by (simp add: bindS_def)
    then show ?thesis using assms(2) unfolding ticking_def by blast
  qed
  ultimately show "w_ticks w \<le> w_ticks w'" by simp
qed

lemma try_entry_id_ticks: "try_entry_id e has n w = (i, w') \<Longrightarrow> w_ticks w \<le> w_ticks w'"
proof (induction n arbitrary: w)
  case 0
  then show ?case by (auto elim: uuidv7_cases)
next
  case (Suc n)
  obtain u w1 where u: "uuidv7 e w = (u, w1)" by (cases "uuidv7 e w")
  then have "w_ticks w \<le> w_ticks w1" by (auto elim: uuidv7_cases)
  with Suc u show ?case by (fastforce simp: Let_def split: if_splits)
qed

lemma generateEntryId_ticks: "generateEntryId e has w = (i, w') \<Longrightarrow> w_ticks w \<le> w_ticks w'"
  by (simp add: generateEntryId_def try_entry_id_ticks)

locale clocked_storage = session_storage +
  assumes ticking_ops [ticks]:
    "ticking (so_getLeafId (ops e))" "ticking (so_setLeafId (ops e) t)" "ticking (so_createEntryId (ops e))"
    "ticking (so_appendEntry (ops e) en)" "ticking (so_getEntry (ops e) i)" "ticking (so_getPathToRoot (ops e) t)"

lemma generateEntryId_set_ticks: "generateEntryId e has w = (i, w1) \<Longrightarrow> w_ticks w \<le> Suc (w_ticks w1)"
  using generateEntryId_ticks [of e has w i w1] by simp

interpretation memory: clocked_storage memory_ops ms_entries mem_good
  by unfold_locales
    (auto simp: ticking_def memory_ops_def mem_getLeafId_def mem_setLeafId_def mem_createEntryId_def mem_appendEntry_def
      mem_getEntry_def mem_getPathToRoot_def iso_now_def date_now_def Let_def
      dest: generateEntryId_ticks generateEntryId_set_ticks split: prod.splits if_splits)

sublocale text_files \<subseteq> jl: clocked_storage "jsonl_ops fs" "\<lambda>\<sigma>. jl_entries (fst \<sigma>)" "jl_good content path h" for path h
  by unfold_locales
    (auto simp: ticking_def jsonl_ops_def jl_getLeafId_def jl_setLeafId_def jl_createEntryId_def jl_appendEntry_def
      jl_getEntry_def jl_getPathToRoot_def iso_now_def date_now_def Let_def
      dest: generateEntryId_ticks generateEntryId_set_ticks split: prod.splits if_splits sum.splits)

context clocked_storage begin

lemma ticking_append:
  "ticking (appendBody (ops e) e body)" "ticking (write_pending (ops e) e body)" "ticking (buildContext (ops e) date_ms)"
proof -
  have "ticking (appendTypedEntry (ops e) en)" for en
    unfolding appendTypedEntry_def by (intro ticks)
  then show *: "ticking (appendBody (ops e) e body)" for body
    unfolding appendBody_def by (intro ticks) auto
  have "ticking (appendLabel (ops e) e t l)" for t l
    unfolding appendLabel_def by (auto intro!: ticks * split: option.split)
  with * show "ticking (write_pending (ops e) e body)"
    unfolding write_pending_def append_defs by (auto intro!: ticks split: entry_body.split)
  show "ticking (buildContext (ops e) date_ms)"
    unfolding buildContext_def getBranch_def by (auto intro!: ticks split: option.split)
qed

end

section \<open>What is written\<close>

lemma Cons_shufflesI: "zs \<in> shuffles xs ys \<Longrightarrow> z # zs \<in> shuffles (z # xs) ys \<and> z # zs \<in> shuffles xs (z # ys)"
  by (simp add: Cons_in_shuffles_leftI Cons_in_shuffles_rightI)

lemma shuffles_append:
  "zs \<in> shuffles xs ys \<Longrightarrow> zs' \<in> shuffles xs' ys' \<Longrightarrow> zs @ zs' \<in> shuffles (xs @ xs') (ys @ ys')"
proof (induction zs arbitrary: xs ys)
  case (Cons z zs)
  from Cons.prems(1) consider
      xs1 where "xs = z # xs1" "zs \<in> shuffles xs1 ys"
    | ys1 where "ys = z # ys1" "zs \<in> shuffles xs ys1"
    by (auto simp: Cons_in_shuffles_iff neq_Nil_conv)
  then show ?case
    by cases (use Cons in \<open>auto simp: Cons_shufflesI\<close>)
qed simp

text \<open>The kinds of entries the harness queues; all of them extend the branch.\<close>

fun queueable :: "entry_body \<Rightarrow> bool" where
  "queueable (MessageE m) = True"
| "queueable (ModelChangeE p m) = True"
| "queueable (ThinkingLevelChangeE l) = True"
| "queueable (ActiveToolsChangeE ns) = True"
| "queueable (CustomE ty d) = True"
| "queueable (CustomMessageE c) = True"
| "queueable _ = False"

lemma write_pending_queueable:
  "queueable body \<Longrightarrow> write_pending so e body = bindS (appendBody so e body) (\<lambda>_. returnS ())"
proof (cases body)
  case (CustomMessageE c)
  then show ?thesis by (cases c) (simp add: write_pending_def append_defs)
qed (simp_all add: write_pending_def append_defs)

lemma queueable_not_leaf: "queueable body \<Longrightarrow> \<forall>t. body \<noteq> LeafE t"
  by auto

definition session_branch :: "('s \<Rightarrow> entry list) \<Rightarrow> ('s, 'e) AgentHarness \<Rightarrow> entry list" where
  "session_branch logS h = path_of (logS (ah_session h)) (leaf_of (logS (ah_session h)))"

definition healthy :: "('s \<Rightarrow> entry list) \<Rightarrow> ('s \<Rightarrow> bool) \<Rightarrow> env \<Rightarrow> ('s, 'e) AgentHarness \<Rightarrow> bool" where
  "healthy logS good e h \<longleftrightarrow> good (ah_session h) \<and> fresh_source e (ah_world h) (logS (ah_session h)) \<and>
     list_all queueable (ah_pendingSessionWrites h)"

text \<open>
  The session grew by the messages \<open>ms\<close> and by writes that were queued, before or meanwhile
  (\<open>queued\<close>); the rest of the queue is as it was.
\<close>

definition written ::
    "('s \<Rightarrow> entry list) \<Rightarrow> agent_message list \<Rightarrow> ('s, 'e) AgentHarness \<Rightarrow> ('s, 'e) AgentHarness \<Rightarrow> bool" where
  "written logS ms h h' \<longleftrightarrow>
     (\<exists>new flushed queued.
        logS (ah_session h') = logS (ah_session h) @ new \<and> session_branch logS h' = session_branch logS h @ new \<and>
        map e_body new \<in> shuffles (map MessageE ms) flushed \<and>
        ah_pendingSessionWrites h @ queued = flushed @ ah_pendingSessionWrites h')"

lemma writtenI:
  assumes "logS (ah_session h') = logS (ah_session h) @ new" "session_branch logS h' = session_branch logS h @ new"
    "map e_body new \<in> shuffles (map MessageE ms) flushed"
    "ah_pendingSessionWrites h @ queued = flushed @ ah_pendingSessionWrites h'"
  shows "written logS ms h h'"
  using assms unfolding written_def by blast

lemma written_trans:
  assumes "written logS ms h h1" "written logS ms' h1 h'"
  shows "written logS (ms @ ms') h h'"
proof -
  obtain new flushed queued where 1: "logS (ah_session h1) = logS (ah_session h) @ new"
      "session_branch logS h1 = session_branch logS h @ new" "map e_body new \<in> shuffles (map MessageE ms) flushed"
      "ah_pendingSessionWrites h @ queued = flushed @ ah_pendingSessionWrites h1"
    using assms(1) unfolding written_def by blast
  obtain new' flushed' queued' where 2: "logS (ah_session h') = logS (ah_session h1) @ new'"
      "session_branch logS h' = session_branch logS h1 @ new'" "map e_body new' \<in> shuffles (map MessageE ms') flushed'"
      "ah_pendingSessionWrites h1 @ queued' = flushed' @ ah_pendingSessionWrites h'"
    using assms(2) unfolding written_def by blast
  have "ah_pendingSessionWrites h @ (queued @ queued') = (flushed @ flushed') @ ah_pendingSessionWrites h'"
    by (metis 1(4) 2(4) append.assoc)
  then show ?thesis
    using 1 2 shuffles_append [OF 1(3) 2(3)]
    by (intro writtenI [of _ _ _ "new @ new'" _ "flushed @ flushed'" "queued @ queued'"]) simp_all
qed

lemma written_same:
  "ah_session h' = ah_session h \<Longrightarrow> ah_pendingSessionWrites h' = ah_pendingSessionWrites h \<Longrightarrow> written logS [] h h'"
  by (rule writtenI [of _ _ _ "[]" _ "[]" "[]"]) (simp_all add: session_branch_def)

lemma ticks_left_mono: "ticks_left k w' \<Longrightarrow> w_ticks w \<le> w_ticks w' \<Longrightarrow> ticks_left k w"
  by (simp add: ticks_left_def)

text \<open>The runtime of a harness on a storage.\<close>

definition runs_on :: "('s, 'e) HarnessRuntime \<Rightarrow> (env \<Rightarrow> 's SessionStorage) \<Rightarrow> bool" where
  "runs_on rt ops \<longleftrightarrow> hr_storage rt = ops (hr_clock rt) \<and> (\<forall>\<sigma>. snd (hr_metadataId rt \<sigma>) = \<sigma>)"

text \<open>As a relation of runs; nothing is said once the clock has come near its bound.\<close>

definition session_rel ::
    "(env \<Rightarrow> 's SessionStorage) \<Rightarrow> ('s \<Rightarrow> entry list) \<Rightarrow> ('s \<Rightarrow> bool) \<Rightarrow> ('s, 'e) HarnessRuntime \<Rightarrow> ('s, 'e) AgentHarness run_rel" where
  "session_rel ops logS good rt = (\<lambda>h b evs h'. runs_on rt ops \<longrightarrow>
     w_ticks (ah_world h) \<le> w_ticks (ah_world h') \<and>
     (healthy logS good (hr_clock rt) h \<longrightarrow> ticks_left 200 (ah_world h') \<longrightarrow>
        healthy logS good (hr_clock rt) h' \<and> written logS (ends evs) h h'))"

lemma session_relI:
  assumes "runs_on rt ops \<Longrightarrow> w_ticks (ah_world h) \<le> w_ticks (ah_world h')"
    "runs_on rt ops \<Longrightarrow> healthy logS good (hr_clock rt) h \<Longrightarrow> ticks_left 200 (ah_world h') \<Longrightarrow>
       healthy logS good (hr_clock rt) h' \<and> written logS (ends evs) h h'"
  shows "session_rel ops logS good rt h b evs h'"
  using assms unfolding session_rel_def by blast

lemma session_relD:
  assumes "session_rel ops logS good rt h b evs h'" "runs_on rt ops"
  shows "w_ticks (ah_world h) \<le> w_ticks (ah_world h')"
    "healthy logS good (hr_clock rt) h \<Longrightarrow> ticks_left 200 (ah_world h') \<Longrightarrow>
       healthy logS good (hr_clock rt) h' \<and> written logS (ends evs) h h'"
  using assms unfolding session_rel_def by blast+

lemma session_rel_same:
  "ah_session h' = ah_session h \<Longrightarrow> ah_world h' = ah_world h \<Longrightarrow> ah_pendingSessionWrites h' = ah_pendingSessionWrites h \<Longrightarrow>
   session_rel ops logS good rt h b [] h'"
  by (rule session_relI) (simp_all add: healthy_def written_same)

lemma session_rel_trans:
  assumes "session_rel ops logS good rt h False es h1" "session_rel ops logS good rt h1 b es' h'"
  shows "session_rel ops logS good rt h b (es @ es') h'"
proof (rule session_relI)
  assume rt: "runs_on rt ops"
  note 1 = session_relD [OF assms(1) rt] and 2 = session_relD [OF assms(2) rt]
  show "w_ticks (ah_world h) \<le> w_ticks (ah_world h')" using 1(1) 2(1) by simp
  assume h: "healthy logS good (hr_clock rt) h" and t: "ticks_left 200 (ah_world h')"
  with 1(2) ticks_left_mono [OF t 2(1)] have "healthy logS good (hr_clock rt) h1" "written logS (ends es) h h1" by simp_all
  with 2(2) t show "healthy logS good (hr_clock rt) h' \<and> written logS (ends (es @ es')) h h'"
    by (simp add: written_trans [of logS "ends es" h h1 "ends es'" h'])
qed

lemma session_rel_ends: "session_rel ops logS good rt h b es h' \<Longrightarrow> ends es = ends es' \<Longrightarrow> session_rel ops logS good rt h b' es' h'"
  by (simp add: session_rel_def)

lemma sessionH_ticks:
  "ticking m \<Longrightarrow> sessionH m h = (r, h') \<Longrightarrow> w_ticks (ah_world h) \<le> w_ticks (ah_world h')"
  by (fastforce simp: sessionH_def ticking_def split: prod.splits)

lemma sessionH_discard: "sessionH (bindS m (\<lambda>_. returnS ())) = bindH (sessionH m) (\<lambda>_. retH ())"
  by (rule ext) (auto simp: sessionH_def bindS_def bindH_def retH_def returnS_def split: prod.split sum.split failure.split)

context clocked_storage begin

lemma session_rel_write:
  assumes rt: "runs_on rt ops" and body: "\<forall>t. body \<noteq> LeafE t"
    and run: "sessionH (appendBody (hr_storage rt) (hr_clock rt) body) h = (r, h')"
  shows "w_ticks (ah_world h) \<le> w_ticks (ah_world h')"
    and "healthy logS good (hr_clock rt) h \<Longrightarrow> ticks_left 200 (ah_world h') \<Longrightarrow>
      \<exists>i en. r = Returns i \<and> ah_pendingSessionWrites h' = ah_pendingSessionWrites h \<and> healthy logS good (hr_clock rt) h' \<and>
        logS (ah_session h') = logS (ah_session h) @ [en] \<and> session_branch logS h' = session_branch logS h @ [en] \<and> e_body en = body"
proof -
  obtain r0 s' w' where run0: "appendBody (ops (hr_clock rt)) (hr_clock rt) body (ah_session h, ah_world h) = (r0, s', w')"
    by (metis prod.exhaust)
  with run rt have h': "h' = h\<lparr>ah_session := s', ah_world := w'\<rparr>" and r: "r0 = Inr i \<Longrightarrow> r = Returns i" for i
    by (auto simp: sessionH_def runs_on_def)
  show mono: "w_ticks (ah_world h) \<le> w_ticks (ah_world h')"
    using ticking_append(1) run0 h' unfolding ticking_def by simp
  assume h: "healthy logS good (hr_clock rt) h" and "ticks_left 200 (ah_world h')"
  with mono have "ticks_left 100 (ah_world h)" by (simp add: ticks_left_def)
  then obtain en s1 w1 where a: "appendBody (ops (hr_clock rt)) (hr_clock rt) body (ah_session h, ah_world h) = (Inr (e_id en), s1, w1)"
      and s1: "good s1" "logS s1 = logS (ah_session h) @ [en]" "e_body en = body" "e_parentId en = leaf_of (logS (ah_session h))"
        "fresh_source (hr_clock rt) w1 (logS s1)"
    using appendBody_run [of "ah_session h" "hr_clock rt" "ah_world h" body] h body unfolding healthy_def by metis
  have "session_branch logS h' = session_branch logS h @ [en]"
    using a run0 h' s1 body branch_after_append [of en "logS (ah_session h)"] by (simp add: session_branch_def)
  then show "\<exists>i en. r = Returns i \<and> ah_pendingSessionWrites h' = ah_pendingSessionWrites h \<and> healthy logS good (hr_clock rt) h' \<and>
      logS (ah_session h') = logS (ah_session h) @ [en] \<and> session_branch logS h' = session_branch logS h @ [en] \<and> e_body en = body"
    using a run0 h h' s1 r by (auto simp: healthy_def)
qed

lemma flush_ticks:
  "runs_on rt ops \<Longrightarrow> flush_loop rt ws h = (r, h') \<Longrightarrow> w_ticks (ah_world h) \<le> w_ticks (ah_world h')"
proof (induction ws arbitrary: h)
  case (Cons body ws)
  obtain r1 h1 where w: "sessionH (write_pending (hr_storage rt) (hr_clock rt) body) h = (r1, h1)"
      and k: "case r1 of
        Returns x \<Rightarrow> bindH (setH (\<lambda>h. h\<lparr>ah_pendingSessionWrites := tl (ah_pendingSessionWrites h)\<rparr>)) (\<lambda>_. flush_loop rt ws) h1 = (r, h')
      | Raises err \<Rightarrow> r = Raises err \<and> h' = h1 | Stuck \<Rightarrow> r = Stuck \<and> h' = h1"
    using Cons.prems(2) unfolding flush_loop.simps by (rule bindH_ends)
  have "ticking (write_pending (hr_storage rt) (hr_clock rt) body)"
    using ticking_append(2) Cons.prems(1) by (simp add: runs_on_def)
  then have "w_ticks (ah_world h) \<le> w_ticks (ah_world h1)" using sessionH_ticks w by blast
  moreover have "w_ticks (ah_world h1) \<le> w_ticks (ah_world h')"
    using k Cons.IH [OF Cons.prems(1), of "h1\<lparr>ah_pendingSessionWrites := tl (ah_pendingSessionWrites h1)\<rparr>"]
    by (cases r1) auto
  ultimately show ?case by simp
qed (simp add: retH_def)

lemma flush_runs:
  assumes rt: "runs_on rt ops"
  shows "flush_loop rt ws h = (r, h') \<Longrightarrow> ah_pendingSessionWrites h = ws @ rest \<Longrightarrow> healthy logS good (hr_clock rt) h \<Longrightarrow>
    ticks_left 200 (ah_world h') \<Longrightarrow>
    r = Returns () \<and> healthy logS good (hr_clock rt) h' \<and> ah_pendingSessionWrites h' = rest \<and>
    (\<exists>new. logS (ah_session h') = logS (ah_session h) @ new \<and> session_branch logS h' = session_branch logS h @ new \<and>
       map e_body new = ws)"
proof (induction ws arbitrary: h)
  case (Cons body ws)
  have q: "queueable body" using Cons.prems(2,3) by (simp add: healthy_def)
  let ?appended = "sessionH (appendBody (hr_storage rt) (hr_clock rt) body)"
  obtain r1 h1 where w: "?appended h = (r1, h1)" by (metis prod.exhaust)
  note grows = session_rel_write [OF rt queueable_not_leaf [OF q] w]
  let ?h2 = "h1\<lparr>ah_pendingSessionWrites := tl (ah_pendingSessionWrites h1)\<rparr>"
  have step: "flush_loop rt (body # ws) h = (case r1 of Returns x \<Rightarrow> flush_loop rt ws ?h2 | Raises err \<Rightarrow> (Raises err, h1) | Stuck \<Rightarrow> (Stuck, h1))"
    by (simp add: write_pending_queueable [OF q] sessionH_discard bindH_assoc bindH_apply [of ?appended h r1 h1] w split: answer.split)
  have "w_ticks (ah_world h1) \<le> w_ticks (ah_world h')"
    using Cons.prems(1) [unfolded step] flush_ticks [OF rt, of ws ?h2 r h'] by (cases r1) auto
  with Cons.prems(4) have "ticks_left 200 (ah_world h1)" by (rule ticks_left_mono)
  then obtain i en where en: "r1 = Returns i" "ah_pendingSessionWrites h1 = body # ws @ rest"
      "healthy logS good (hr_clock rt) h1" "logS (ah_session h1) = logS (ah_session h) @ [en]"
      "session_branch logS h1 = session_branch logS h @ [en]" "e_body en = body"
    using grows(2) Cons.prems(2,3) by auto
  have "flush_loop rt ws ?h2 = (r, h')" using Cons.prems(1) [unfolded step] en by simp
  moreover have "healthy logS good (hr_clock rt) ?h2" using en by (simp add: healthy_def)
  ultimately obtain new where "r = Returns ()" "healthy logS good (hr_clock rt) h'" "ah_pendingSessionWrites h' = rest"
      and new: "logS (ah_session h') = logS (ah_session h1) @ new" "session_branch logS h' = session_branch logS h1 @ new"
        "map e_body new = ws"
    using Cons.IH [of ?h2] Cons.prems(4) en by (clarsimp simp: session_branch_def)
  then show ?case using en by (intro conjI exI [of _ "en # new"]) simp_all
qed (simp add: retH_def)

lemma session_rel_clock: "session_rel ops logS good rt h b [] (h\<lparr>ah_world := snd (date_now (hr_clock rt) (ah_world h))\<rparr>)"
  by (rule session_relI) (auto simp: date_now_def healthy_def intro!: writtenI [of _ _ _ "[]" _ "[]" "[]"] simp: session_branch_def)

lemma session_rel_message:
  assumes run: "sessionH (appendMessage (hr_storage rt) (hr_clock rt) m) h = (r, h')"
  shows "session_rel ops logS good rt h b [MessageEnd m] h'"
proof (rule session_relI)
  assume rt: "runs_on rt ops"
  note grows = session_rel_write [OF rt, of "MessageE m" h r h']
  show "w_ticks (ah_world h) \<le> w_ticks (ah_world h')" using grows(1) run by (simp add: appendMessage_def)
  assume "healthy logS good (hr_clock rt) h" "ticks_left 200 (ah_world h')"
  then obtain en where "ah_pendingSessionWrites h' = ah_pendingSessionWrites h" "healthy logS good (hr_clock rt) h'"
      "logS (ah_session h') = logS (ah_session h) @ [en]" "session_branch logS h' = session_branch logS h @ [en]"
      "e_body en = MessageE m"
    using grows(2) run by (auto simp: appendMessage_def)
  then show "healthy logS good (hr_clock rt) h' \<and> written logS (ends [MessageEnd m]) h h'"
    by (auto intro!: writtenI [of _ _ _ "[en]" _ "[]" "[]"])
qed

lemma session_rel_flush:
  assumes run: "flushPendingSessionWrites rt h = (r, h')"
  shows "session_rel ops logS good rt h b [] h'"
proof (rule session_relI)
  assume rt: "runs_on rt ops"
  have flush: "flush_loop rt (ah_pendingSessionWrites h) h = (r, h')" using run by (simp add: flushPendingSessionWrites_def)
  then show "w_ticks (ah_world h) \<le> w_ticks (ah_world h')" by (rule flush_ticks [OF rt])
  assume "healthy logS good (hr_clock rt) h" "ticks_left 200 (ah_world h')"
  with flush_runs [OF rt flush, of "[]"] obtain new where "healthy logS good (hr_clock rt) h'" "ah_pendingSessionWrites h' = []"
      "logS (ah_session h') = logS (ah_session h) @ new" "session_branch logS h' = session_branch logS h @ new"
      "map e_body new = ah_pendingSessionWrites h"
    by auto
  then show "healthy logS good (hr_clock rt) h' \<and> written logS (ends []) h h'"
    by (auto intro!: writtenI [of _ _ _ new _ "ah_pendingSessionWrites h" "[]"])
qed

lemma session_rel_read:
  assumes "buildContext (hr_storage rt) date_ms (ah_session h, ah_world h) = (r, s', w')"
  shows "session_rel ops logS good rt h b [] (h\<lparr>ah_session := s', ah_world := w'\<rparr>)"
proof (rule session_relI)
  assume rt: "runs_on rt ops"
  have run: "buildContext (ops (hr_clock rt)) date_ms (ah_session h, ah_world h) = (r, s', w')"
    using assms rt by (simp add: runs_on_def)
  then show "w_ticks (ah_world h) \<le> w_ticks (ah_world (h\<lparr>ah_session := s', ah_world := w'\<rparr>))"
    using ticking_append(3) unfolding ticking_def by simp
  assume h: "healthy logS good (hr_clock rt) h"
  then have "s' = ah_session h" "w' = ah_world h"
    using buildContext_run [of "ah_session h" "hr_clock rt" date_ms "ah_world h"] run by (simp_all add: healthy_def)
  with h show "healthy logS good (hr_clock rt) (h\<lparr>ah_session := s', ah_world := w'\<rparr>) \<and>
      written logS (ends []) h (h\<lparr>ah_session := s', ah_world := w'\<rparr>)"
    by (simp add: written_same)
qed

end

lemma ends_quiet: "(\<And>m. ev \<noteq> MessageEnd m) \<Longrightarrow> ends [ev] = []"
  by (cases ev) auto

sublocale clocked_storage \<subseteq> session: harness_relation "trusting rt (session_rel ops logS good rt)" rt for rt :: "('a, 'e) HarnessRuntime"
proof unfold_locales
  let ?R = "session_rel ops logS good rt :: ('a, 'e) AgentHarness run_rel"
  have lift: "?R h b evs h' \<Longrightarrow> trusting rt ?R h b evs h'" for h b evs h' by (simp add: trusting_def)
  fix h h' h'' :: "('a, 'e) AgentHarness" and b es es' m ts q ev
  show "trusting rt ?R h False [] h" "trusting rt ?R h True [] h" by (rule lift, rule session_rel_same; simp)+
  show "trusting rt ?R h b (es @ es') h''" if "trusting rt ?R h False es h'" "trusting rt ?R h' b es' h''"
    using that session_rel_trans unfolding trusting_def by blast
  show "harness_env (trusting rt ?R) rt" by (rule trusting_env)
  show "trusting rt ?R h False [] (h\<lparr>ah_turnState := ts\<rparr>)" by (rule lift, rule session_rel_same) simp_all
  show "trusting rt ?R h False [] (h\<lparr>ah_steerQueue := q\<rparr>)" by (rule lift, rule session_rel_same) simp_all
  show "trusting rt ?R h False [] (h\<lparr>ah_followUpQueue := q\<rparr>)" by (rule lift, rule session_rel_same) simp_all
  show "trusting rt ?R h False [] (h\<lparr>ah_phase := IdlePhase\<rparr>)" by (rule lift, rule session_rel_same) simp_all
  show "trusting rt ?R h False [] (h\<lparr>ah_world := snd (date_now (hr_clock rt) (ah_world h))\<rparr>)"
    by (rule lift) (rule session_rel_clock)
  show "respectsH (trusting rt ?R) (sessionH (buildContext (hr_storage rt) (hr_date_ms rt)))"
    by (rule respectsHI, rule lift) (auto simp: sessionH_def intro: session_rel_read split: prod.splits)
  show "respectsH (trusting rt ?R) (flushPendingSessionWrites rt)"
    by (rule respectsHI, rule lift) (rule session_rel_flush)
  show "trusting rt ?R h (r = Stuck) [MessageEnd m] h'" if "sessionH (appendMessage (hr_storage rt) (hr_clock rt) m) h = (r, h')" for r
    using that by (intro lift) (rule session_rel_message)
  show "trusting rt ?R h b [ev] h'" if "\<And>m. ev \<noteq> MessageEnd m" "trusting rt ?R h b [] h'"
    using that(2) ends_quiet [OF that(1)] by (auto simp: trusting_def elim!: session_rel_ends)
  show "respectsH (trusting rt ?R) (sessionH (hr_metadataId rt))"
  proof (rule respectsHI)
    fix h h' :: "('a, 'e) AgentHarness" and r
    assume run: "sessionH (hr_metadataId rt) h = (r, h')"
    have "?R h (r = Stuck) [] h'"
    proof (cases "runs_on rt ops")
      case True
      then have "snd (hr_metadataId rt (ah_session h, ah_world h)) = (ah_session h, ah_world h)" by (simp add: runs_on_def)
      with run have "h' = h" by (auto simp: sessionH_def split: prod.splits)
      then show ?thesis by (simp add: session_rel_same)
    qed (simp add: session_rel_def)
    then show "trusting rt ?R h (r = Stuck) [] h'" by (rule lift)
  qed
qed

section \<open>The messages of a run\<close>

lemma last_assistant_snoc: "last_assistant (ms @ [assistant_msg am]) = Some am"
  by (simp add: last_assistant_def assistant_msg_def)

lemma failure_stops:
  "am_stopReason (createFailureMessage model err aborted now) = Error \<or> am_stopReason (createFailureMessage model err aborted now) = Aborted"
  by (simp add: createFailureMessage_def)

lemma emitRunFailure_events:
  "emitRunFailure rt err (h, evs) = (Done ms, h', evs') \<Longrightarrow>
     \<exists>am. ms = [assistant_msg am] \<and> am_stopReason am \<in> {Error, Aborted} \<and>
       evs' = evs @ [MessageStart (assistant_msg am), MessageEnd (assistant_msg am), TurnEnd (assistant_msg am) [], AgentEnd ms]"
  by (auto simp: emitRunFailure_def failure_stops assistant_msg_def Let_def bindP_def callP_def emitP_def retP_def as_callback_def
      split: prod.splits outcome.splits answer.splits)

text \<open>
  A run of the harness and its events: either the messages that ended are those the loop returned,
  which begin with the messages of the turn, or the loop failed and its report is the answer.
\<close>

definition run_events ::
    "('s, 'e) HarnessRuntime \<Rightarrow> agent_message list \<Rightarrow> AgentEvent list \<Rightarrow> AssistantMessage \<Rightarrow> bool" where
  "run_events rt messages evs am \<longleftrightarrow>
     (\<exists>fuel ts sp h h' new. run_result rt fuel ts sp messages (h, []) = (Done new, h', evs) \<and>
        last_assistant new = Some am \<and> last_assistant (ends evs) = Some am \<and>
        (ends evs = new \<and> prefix messages new \<or> am_stopReason am \<in> {Error, Aborted}))"

lemma run_result_ends:
  assumes run: "run_result rt fuel ts sp ms (h, []) = (Done new, h', evs)"
  shows "last_assistant (ends evs) = last_assistant new \<and>
    (ends evs = new \<and> prefix ms new \<or> (\<exists>am. new = [assistant_msg am] \<and> am_stopReason am \<in> {Error, Aborted}))"
proof -
  let ?loop = "runAgentLoop fuel ms (createContext rt ts sp) (harnessLoopConfig rt ts)"
  obtain r1 h1 evs1 where l: "?loop (h, []) = (r1, h1, evs1)" by (metis prod.exhaust)
  show ?thesis
  proof (cases r1)
    case (Done x)
    with run l have "x = new" "evs1 = evs" by (simp_all add: run_result_def tryP_def)
    with l Done have "ends evs = new \<and> prefix ms new"
      using runAgentLoop_traces [of fuel ms "createContext rt ts sp" "harnessLoopConfig rt ts", unfolded traces_def yields_def,
          rule_format, OF l] Done by auto
    then show ?thesis by simp
  next
    case (Threw err)
    with run l have "emitRunFailure rt err (h1, evs1) = (Done new, h', evs)"
      by (auto simp: run_result_def tryP_def throwP_def split: prod.splits outcome.splits)
    from emitRunFailure_events [OF this] show ?thesis using last_assistant_snoc [of "[]"] by (fastforce simp: last_assistant_snoc)
  qed (use run l in \<open>simp add: run_result_def tryP_def\<close>)
qed

text \<open>The messages of a turn hold the prompt, after the queued messages and before those of a hook.\<close>

definition has_prompt :: "jstring \<Rightarrow> user_block list \<Rightarrow> agent_message list \<Rightarrow> bool" where
  "has_prompt content images messages \<longleftrightarrow>
     (\<exists>pre now post. messages =
        pre @ Msg (User \<lparr>um_content = CBlocks (TextBlock content None # images), um_timestamp = now\<rparr>) # post)"

lemma turn_start_messages:
  "turn_start rt ts content images h = (Returns (messages, sp), h') \<Longrightarrow> has_prompt content images messages"
  by (fastforce simp: turn_start_def createUserMessage_def with_next_turn_def bindH_Returns retH_def has_prompt_def
      split: if_splits)

definition prompted ::
    "('s, 'e) HarnessRuntime \<Rightarrow> jstring \<Rightarrow> user_block list \<Rightarrow> AgentEvent list \<Rightarrow> AssistantMessage \<Rightarrow> bool" where
  "prompted rt content images evs am \<longleftrightarrow>
     (\<exists>messages. has_prompt content images messages \<and> run_events rt messages evs am)"

text \<open>
  A program that answers with the last message of a run that it wrote; \<open>Q\<close> is known of the events
  of that run and the answer.
\<close>

definition records ::
    "(env \<Rightarrow> 's SessionStorage) \<Rightarrow> ('s \<Rightarrow> entry list) \<Rightarrow> ('s \<Rightarrow> bool) \<Rightarrow> ('s, 'e) HarnessRuntime \<Rightarrow>
     (AgentEvent list \<Rightarrow> AssistantMessage \<Rightarrow> bool) \<Rightarrow> ('s, 'e, AssistantMessage) harness_prog \<Rightarrow> bool" where
  "records ops logS good rt Q m \<longleftrightarrow> (\<forall>h r h'. m h = (r, h') \<longrightarrow>
     (\<exists>evs. session_rel ops logS good rt h False evs h' \<and>
        (\<forall>am. r = Returns am \<longrightarrow> Q evs am \<and>
           (healthy logS good (hr_clock rt) h \<longrightarrow> ticks_left 200 (ah_world h') \<longrightarrow> ah_pendingSessionWrites h' = []))))"

lemma recordsD:
  assumes "records ops logS good rt Q m" "m h = (r, h')"
  obtains evs where "session_rel ops logS good rt h False evs h'"
    "\<forall>am. r = Returns am \<longrightarrow> Q evs am \<and>
       (healthy logS good (hr_clock rt) h \<longrightarrow> ticks_left 200 (ah_world h') \<longrightarrow> ah_pendingSessionWrites h' = [])"
proof -
  from assms(1) [unfolded records_def, rule_format, OF assms(2)] show thesis using that by auto
qed

lemma run_result_promise_ends:
  assumes "bindH (run_result_promise rt fuel ts sp ms) answer_of h = (r, h')"
  obtains o1 evs where "run_result rt fuel ts sp ms (h, []) = (o1, h', evs)"
    "\<forall>am. r = Returns am \<longrightarrow> run_events rt ms evs am"
proof -
  obtain o1 h1 evs where loop: "run_result rt fuel ts sp ms (h, []) = (o1, h1, evs)" by (metis prod.exhaust)
  have keep: "answer_of new h1 = (r, h') \<Longrightarrow> h' = h1 \<and> (\<forall>am. r = Returns am \<longrightarrow> last_assistant new = Some am)" for new
    by (auto simp: answer_of_def retH_def raiseH_def split: option.splits)
  show thesis
  proof (cases o1)
    case (Done new)
    with assms loop have "answer_of new h1 = (r, h')"
      by (simp add: bindH_def run_result_promise_def)
    have run: "run_result rt fuel ts sp ms (h, []) = (Done new, h1, evs)" using loop Done by simp
    have "run_events rt ms evs am" if "r = Returns am" for am
    proof -
      have "last_assistant new = Some am" using keep [OF \<open>answer_of new h1 = (r, h')\<close>] that by simp
      with run_result_ends [OF run] show ?thesis
        unfolding run_events_def using run last_assistant_snoc [of "[]"] by fastforce
    qed
    moreover have "h' = h1" using keep [OF \<open>answer_of new h1 = (r, h')\<close>] by simp
    ultimately have "h' = h1" "\<forall>am. r = Returns am \<longrightarrow> run_events rt ms evs am" by simp_all
    with loop Done show thesis by (intro that) auto
  qed (use assms loop that in \<open>auto simp: bindH_def run_result_promise_def\<close>)
qed

context clocked_storage begin

lemma respectsH_session_rel:
  assumes "respectsH (trusting rt (session_rel ops logS good rt)) m" "harness_env (session_rel ops logS good rt) rt" "m h = (r, h')"
  shows "session_rel ops logS good rt h b [] h'"
  using respectsHD [OF assms(1,3)] assms(2) by (auto simp: trusting_def elim: session_rel_ends)

lemma guarded_run_records:
  assumes rt: "runs_on rt ops" and env: "harness_env (session_rel ops logS good rt) rt"
  shows "records ops logS good rt (run_events rt ms) (guarded_run rt fuel ts sp ms)"
  unfolding records_def
proof (intro allI impI)
  fix h r h'
  assume run: "guarded_run rt fuel ts sp ms h = (r, h')"
  let ?R = "session_rel ops logS good rt"
  let ?h = "h\<lparr>ah_runAbort := Some False\<rparr>"
  let ?main = "bindH (run_result_promise rt fuel ts sp ms) answer_of"
  obtain r1 h1 where main: "?main ?h = (r1, h1)" by (metis prod.exhaust)
  obtain o1 evs where loop: "run_result rt fuel ts sp ms (?h, []) = (o1, h1, evs)"
      and r1: "\<forall>am. r1 = Returns am \<longrightarrow> run_events rt ms evs am"
    using main by (rule run_result_promise_ends)
  have "?R ?h False evs h1"
  proof (rule relatesD [OF session.relates_run loop])
    fix evs'
    assume "evs = [] @ evs'" "trusting rt ?R ?h (o1 = Hangs) evs' h1"
    then show "?R ?h False evs h1" using env session_rel_ends [of ops logS good rt ?h _ evs' h1 evs] by (simp add: trusting_def)
  qed
  then have toh1: "?R h False evs h1"
    using session_rel_trans [of ops logS good rt h "[]" ?h False evs h1] by (simp add: session_rel_same)
  obtain r3 h2 where flush: "flushPendingSessionWrites rt h1 = (r3, h2)" by (metis prod.exhaust)
  have "?R h1 False [] (h2\<lparr>ah_runAbort := None\<rparr>)"
    using session_rel_trans [OF session_rel_flush [OF flush] session_rel_same, of "h2\<lparr>ah_runAbort := None\<rparr>"] by simp
  from session_rel_trans [OF toh1 this] have toh2: "?R h False evs (h2\<lparr>ah_runAbort := None\<rparr>)" by simp
  show "\<exists>evs. ?R h False evs h' \<and> (\<forall>am. r = Returns am \<longrightarrow> run_events rt ms evs am \<and>
      (healthy logS good (hr_clock rt) h \<longrightarrow> ticks_left 200 (ah_world h') \<longrightarrow> ah_pendingSessionWrites h' = []))"
  proof (cases "r1 = Stuck")
    case True
    with run main have "h' = h1" "r = Stuck" by (simp_all add: guarded_run_def finallyH_def [of ?main])
    with toh1 show ?thesis by auto
  next
    case False
    have fin: "r = (case r3 of Returns u \<Rightarrow> r1 | Raises err \<Rightarrow> Raises err | Stuck \<Rightarrow> Stuck)"
        "h' = (if r3 = Stuck then h2 else h2\<lparr>ah_runAbort := None\<rparr>)"
    proof -
      let ?cleanup = "finallyH (flushPendingSessionWrites rt) (setH (\<lambda>h. h\<lparr>ah_runAbort := None\<rparr>))"
      have "finallyH ?main ?cleanup ?h = (r, h')" using run by (simp add: guarded_run_def)
      moreover have "?cleanup h1 = (r3, if r3 = Stuck then h2 else h2\<lparr>ah_runAbort := None\<rparr>)"
        by (cases r3) (simp_all add: finallyH_def flush setH_def)
      ultimately show "r = (case r3 of Returns u \<Rightarrow> r1 | Raises err \<Rightarrow> Raises err | Stuck \<Rightarrow> Stuck)"
          "h' = (if r3 = Stuck then h2 else h2\<lparr>ah_runAbort := None\<rparr>)"
        using main False by (cases r1; cases r3; simp add: finallyH_def)+
    qed
    have "ah_pendingSessionWrites h2 = []" if "healthy logS good (hr_clock rt) h" "ticks_left 200 (ah_world h2)"
    proof -
      have f: "flush_loop rt (ah_pendingSessionWrites h1) h1 = (r3, h2)" using flush by (simp add: flushPendingSessionWrites_def)
      have "healthy logS good (hr_clock rt) h1"
        using session_relD(2) [OF toh1 rt that(1)] ticks_left_mono [OF that(2) flush_ticks [OF rt f]] by simp
      with flush_runs [OF rt f, of "[]"] that(2) show ?thesis by simp
    qed
    moreover have "?R h False evs h'"
      using toh2 fin(2) session_rel_trans [OF toh1 session_rel_flush [OF flush]] by (cases "r3 = Stuck") simp_all
    moreover have "run_events rt ms evs am" if "r = Returns am" for am
      using that fin(1) r1 by (cases r3) auto
    ultimately show ?thesis using fin by auto
  qed
qed

lemma records_after:
  assumes keep: "respectsH (trusting rt (session_rel ops logS good rt)) m" and env: "harness_env (session_rel ops logS good rt) rt"
    and rt: "runs_on rt ops" and k: "\<And>x h h'. m h = (Returns x, h') \<Longrightarrow> records ops logS good rt Q (k x)"
  shows "records ops logS good rt Q (bindH m k)"
  unfolding records_def
proof (intro allI impI)
  fix h r h'
  let ?R = "session_rel ops logS good rt"
  assume "bindH m k h = (r, h')"
  then obtain r1 h1 where m: "m h = (r1, h1)"
      and go: "case r1 of Returns x \<Rightarrow> k x h1 = (r, h') | Raises err \<Rightarrow> r = Raises err \<and> h' = h1 | Stuck \<Rightarrow> r = Stuck \<and> h' = h1"
    by (rule bindH_ends)
  have e: "?R h False [] h1" by (rule respectsH_session_rel [OF keep env m])
  show "\<exists>evs. ?R h False evs h' \<and> (\<forall>am. r = Returns am \<longrightarrow> Q evs am \<and>
      (healthy logS good (hr_clock rt) h \<longrightarrow> ticks_left 200 (ah_world h') \<longrightarrow> ah_pendingSessionWrites h' = []))"
  proof (cases r1)
    case (Returns x)
    with go have "k x h1 = (r, h')" by simp
    with k [OF m [unfolded Returns]] obtain evs where evs: "?R h1 False evs h'"
      "\<forall>am. r = Returns am \<longrightarrow> Q evs am \<and>
         (healthy logS good (hr_clock rt) h1 \<longrightarrow> ticks_left 200 (ah_world h') \<longrightarrow> ah_pendingSessionWrites h' = [])"
      by (rule recordsD)
    have "healthy logS good (hr_clock rt) h1" if "healthy logS good (hr_clock rt) h" "ticks_left 200 (ah_world h')"
      using session_relD(2) [OF e rt that(1)] ticks_left_mono [OF that(2) session_relD(1) [OF evs(1) rt]] by simp
    with evs session_rel_trans [OF e evs(1)] show ?thesis by (intro exI [of _ evs]) auto
  qed (use go e in auto)
qed

lemma respectsH_keep:
  "(\<And>h. ah_session (f h) = ah_session h \<and> ah_world (f h) = ah_world h \<and> ah_pendingSessionWrites (f h) = ah_pendingSessionWrites h) \<Longrightarrow>
   respectsH (trusting rt (session_rel ops logS good rt)) (setH f)"
  by (rule session.respectsH_set) (auto simp: trusting_def intro!: session_rel_same)

lemma respectsH_turn_start: "respectsH (trusting rt (session_rel ops logS good rt)) (turn_start rt ts content images)"
proof -
  have "respectsH (trusting rt (session_rel ops logS good rt)) (with_next_turn rt m)" for m
    unfolding with_next_turn_def
    by (auto intro!: session.respectsH_intros respectsH_keep session.respectsH_queue_update split: if_splits)
  then show ?thesis
    unfolding turn_start_def createUserMessage_def
    by (intro session.respectsH_intros respectsH_keep session.respectsH_now session.respectsH_hook harness_envD [OF trusting_env])
      simp_all
qed

lemma records_mono: "records ops logS good rt P m \<Longrightarrow> (\<And>evs am. P evs am \<Longrightarrow> Q evs am) \<Longrightarrow> records ops logS good rt Q m"
  unfolding records_def by (intro allI impI) (metis (no_types, lifting))

lemma executeTurn_records:
  assumes "runs_on rt ops" "harness_env (session_rel ops logS good rt) rt"
  shows "records ops logS good rt (prompted rt content images) (executeTurn rt fuel ts content images)"
  unfolding executeTurn_def
proof (rule records_after [OF respectsH_turn_start assms(2,1)], clarify)
  fix messages sp h h'
  assume "turn_start rt ts content images h = (Returns (messages, sp), h')"
  then have "has_prompt content images messages" by (rule turn_start_messages)
  then show "records ops logS good rt (prompted rt content images) (guarded_run rt fuel ts sp messages)"
    by (intro records_mono [OF guarded_run_records [OF assms]]) (auto simp: prompted_def)
qed

lemma records_raise: "records ops logS good rt Q (raiseH err)"
  unfolding records_def raiseH_def using session_rel_same by (fastforce intro!: exI [of _ "[]"])

lemma in_turn_records:
  assumes rt: "runs_on rt ops" and env: "harness_env (session_rel ops logS good rt) rt"
    and body: "\<And>ts. records ops logS good rt Q (body ts)"
  shows "records ops logS good rt Q (in_turn rt body)"
  unfolding records_def
proof (intro allI impI)
  fix h r h'
  assume run: "in_turn rt body h = (r, h')"
  let ?R = "session_rel ops logS good rt"
  let ?report = "\<lambda>err. bindH (setH (\<lambda>h. h\<lparr>ah_phase := IdlePhase\<rparr>)) (\<lambda>_. raiseH (normalizeHarnessError err UnknownError))"
  let ?h = "h\<lparr>ah_phase := TurnPhase, ah_running := True\<rparr>"
  show "\<exists>evs. ?R h False evs h' \<and> (\<forall>am. r = Returns am \<longrightarrow> Q evs am \<and>
      (healthy logS good (hr_clock rt) h \<longrightarrow> ticks_left 200 (ah_world h') \<longrightarrow> ah_pendingSessionWrites h' = []))"
  proof (cases "ah_phase h = IdlePhase")
    case True
    obtain r1 h1 where main: "bindH (createTurnState rt) body ?h = (r1, h1)" by (metis prod.exhaust)
    from records_after [OF session.respectsH_turn_state env rt body] main
    obtain evs where evs: "?R ?h False evs h1" "\<forall>am. r1 = Returns am \<longrightarrow> Q evs am \<and>
        (healthy logS good (hr_clock rt) ?h \<longrightarrow> ticks_left 200 (ah_world h1) \<longrightarrow> ah_pendingSessionWrites h1 = [])"
      by (rule recordsD)
    have "finallyH (catchH (bindH (createTurnState rt) body) ?report) (setH (\<lambda>h. h\<lparr>ah_running := False\<rparr>)) ?h = (r, h')"
      using run True by (simp add: in_turn_def)
    then have h': "ah_session h' = ah_session h1" "ah_world h' = ah_world h1"
        "ah_pendingSessionWrites h' = ah_pendingSessionWrites h1" "r = Returns am \<Longrightarrow> r1 = Returns am" for am
      using main by (cases r1; auto simp: finallyH_def catchH_def [of "bindH (createTurnState rt) body"] setH_def [of "\<lambda>h. h\<lparr>ah_running := False\<rparr>"] raiseH_def)+
    have "?R h False evs h'"
      using session_rel_trans [OF session_rel_trans [OF session_rel_same evs(1)] session_rel_same, of h h'] h' by simp
    with evs(2) h' show ?thesis by (intro exI [of _ evs]) (auto simp: healthy_def)
  next
    case False
    with run have "h' = h" "\<forall>am. r \<noteq> Returns am" by (auto simp: in_turn_def raiseH_def)
    then show ?thesis using session_rel_same [of h h] by (intro exI [of _ "[]"]) simp
  qed
qed

lemma prompt_records:
  assumes "runs_on rt ops" "harness_env (session_rel ops logS good rt) rt"
  shows "records ops logS good rt (prompted rt content images) (harness_prompt rt fuel content images)"
    "records ops logS good rt (\<lambda>evs am. \<exists>content. prompted rt content [] evs am) (harness_skill rt fuel name instructions)"
    "records ops logS good rt (\<lambda>evs am. \<exists>content. prompted rt content [] evs am) (harness_promptFromTemplate rt fuel name args)"
proof -
  have "records ops logS good rt (\<lambda>evs am. \<exists>content. prompted rt content [] evs am) (executeTurn rt fuel ts content [])" for ts content
    by (rule records_mono [OF executeTurn_records [OF assms]]) blast
  then show "records ops logS good rt (prompted rt content images) (harness_prompt rt fuel content images)"
    "records ops logS good rt (\<lambda>evs am. \<exists>content. prompted rt content [] evs am) (harness_skill rt fuel name instructions)"
    "records ops logS good rt (\<lambda>evs am. \<exists>content. prompted rt content [] evs am) (harness_promptFromTemplate rt fuel name args)"
    unfolding harness_prompt_def harness_skill_def harness_promptFromTemplate_def
    by (auto intro!: in_turn_records assms executeTurn_records records_raise split: option.split)
qed

text \<open>What a prompt that answers has written.\<close>

lemma records_written:
  assumes rec: "records ops logS good rt Q m" and rt: "runs_on rt ops" and run: "m h = (Returns am, h')"
    and h: "healthy logS good (hr_clock rt) h" and t: "ticks_left 200 (ah_world h')"
  obtains new evs queued where "healthy logS good (hr_clock rt) h'"
    "logS (ah_session h') = logS (ah_session h) @ new" "session_branch logS h' = session_branch logS h @ new"
    "map e_body new \<in> shuffles (map MessageE (ends evs)) (ah_pendingSessionWrites h @ queued)" "Q evs am"
    "ah_pendingSessionWrites h' = []"
proof -
  from rec run obtain evs where "session_rel ops logS good rt h False evs h'"
    "Q evs am" "ah_pendingSessionWrites h' = []"
    by (rule recordsD) (use h t in simp)
  with session_relD(2) [OF _ rt h t] show thesis
    using that unfolding written_def by fastforce
qed

end

end
