(* ===== verification/HarnessPrompt.thy ===== *)
theory HarnessPrompt
  imports HarnessSession
begin

text \<open>
  A prompt to a harness without hooks and a provider that answers, step by step; and the properties
  of the harness: prompts answer, write the session, settle, exclude each other, and the active
  tools exist.
\<close>

section \<open>A prompt gets its answer\<close>

text \<open>No handlers, nothing queued for the run.\<close>

definition quiet_harness :: "('s, 'e) AgentHarness \<Rightarrow> bool" where
  "quiet_harness h \<longleftrightarrow> ah_handlers h = (\<lambda>_. []) \<and> ah_steerQueue h = [] \<and> ah_followUpQueue h = [] \<and> ah_pendingSessionWrites h = []"

text \<open>A provider whose response is one message without tool calls.\<close>

definition answers_with :: "('s, 'e) HarnessRuntime \<Rightarrow> AssistantMessage \<Rightarrow> bool" where
  "answers_with rt am \<longleftrightarrow>
     (\<forall>m lc os r i k f g h. hr_streamSimple rt m lc os r i k f g h = (Returns (), h)) \<and>
     (\<forall>h. hr_nextEvent rt h = (Returns (Some (StreamDone (am_stopReason am) am)), h)) \<and>
     (\<forall>h. hr_result rt h = (Returns am, h)) \<and>
     tool_calls_of (am_content am) = [] \<and> am_stopReason am \<noteq> Error \<and> am_stopReason am \<noteq> Aborted"

definition plain_runtime :: "('s, 'e) HarnessRuntime \<Rightarrow> jstring \<Rightarrow> bool" where
  "plain_runtime rt i \<longleftrightarrow> (\<forall>\<sigma>. hr_metadataId rt \<sigma> = (Inr i, \<sigma>)) \<and> hr_systemPrompt rt = None \<and> hr_getApiKeyAndHeaders rt = None"

lemma raiseH_apply: "raiseH err h = (Raises err, h)"
  by (simp add: raiseH_def)

lemma notify_quiet: "quiet_harness h \<Longrightarrow> notify_listeners rt ev h = (Returns (), h)"
  by (simp add: notify_listeners_def quiet_harness_def retH_def)

lemma hook_quiet: "quiet_harness h \<Longrightarrow> emitHook ty f h = (Returns None, h)"
  by (simp add: emitHook_def quiet_harness_def retH_def)

lemma flush_quiet: "quiet_harness h \<Longrightarrow> flushPendingSessionWrites rt h = (Returns (), h)"
  by (simp add: flushPendingSessionWrites_def quiet_harness_def retH_def)

lemma queue_update_quiet: "quiet_harness h \<Longrightarrow> emitQueueUpdate rt h = (Returns (), h)"
  by (simp add: emitQueueUpdate_def emitOwn_def notify_quiet)

lemma drain_quiet: "quiet_harness h \<Longrightarrow> drain_steerQueue rt h = (Returns [], h)" "quiet_harness h \<Longrightarrow> drain_followUpQueue rt h = (Returns [], h)"
  by (simp_all add: drain_steerQueue_def drain_followUpQueue_def drainQueuedMessages_def quiet_harness_def retH_def Let_def)

lemma event_quiet:
  assumes "quiet_harness h"
  shows "(\<forall>m. ev \<noteq> MessageEnd m) \<Longrightarrow> (\<forall>ms. ev \<noteq> AgentEnd ms) \<Longrightarrow> handleAgentEvent rt ev h = (Returns (), h)"
    and "handleAgentEvent rt (AgentEnd ms) h = (Returns (), h\<lparr>ah_phase := IdlePhase\<rparr>)"
proof -
  note q = notify_quiet [OF assms] flush_quiet [OF assms]
  have "ah_pendingSessionWrites h = []" using assms by (simp add: quiet_harness_def)
  then show "(\<forall>m. ev \<noteq> MessageEnd m) \<Longrightarrow> (\<forall>ms. ev \<noteq> AgentEnd ms) \<Longrightarrow> handleAgentEvent rt ev h = (Returns (), h)"
    by (cases ev) (simp_all add: handleAgentEvent_def emitAny_def emitOwn_def q bindH_def catchH_def retH_def getH_def)
  have "quiet_harness (h\<lparr>ah_phase := IdlePhase\<rparr>)" using assms by (simp add: quiet_harness_def)
  note q' = notify_quiet [OF this]
  show "handleAgentEvent rt (AgentEnd ms) h = (Returns (), h\<lparr>ah_phase := IdlePhase\<rparr>)"
    by (simp add: handleAgentEvent_def emitAny_def emitOwn_def q q' bindH_def setH_def getH_def)
qed

text \<open>The session of \<open>h'\<close> is that of \<open>h\<close> and the messages; the rest of the harness is the same.\<close>

definition grown :: "('s \<Rightarrow> entry list) \<Rightarrow> agent_message list \<Rightarrow> ('s, 'e) AgentHarness \<Rightarrow> ('s, 'e) AgentHarness \<Rightarrow> bool" where
  "grown logS ms h h' \<longleftrightarrow>
     (\<exists>s w new. h' = h\<lparr>ah_session := s, ah_world := w\<rparr> \<and> w_ticks w \<le> w_ticks (ah_world h) + 102 * length ms \<and>
        session_branch logS h' = session_branch logS h @ new \<and> map e_body new = map MessageE ms)"

lemma grown_quiet: "grown logS ms h h' \<Longrightarrow> quiet_harness h' = quiet_harness h"
  by (auto simp: grown_def quiet_harness_def)

lemma harness_config:
  "cfg_transformContext (harnessLoopConfig rt ts) = Some (\<lambda>ms. as_callback
     (bindH (emitHook OnContext (\<lambda>n. hr_onContext rt n ms)) (\<lambda>result. retH (case result of Some ms' \<Rightarrow> ms' | None \<Rightarrow> ms))))"
  "cfg_convertToLlm (harnessLoopConfig rt ts) ms h = (Done (convertToLlm ms), h)"
  "cfg_getApiKey (harnessLoopConfig rt ts) = None"
  "cfg_getSteeringMessages (harnessLoopConfig rt ts) = Some (as_callback (drain_steerQueue rt))"
  "cfg_getFollowUpMessages (harnessLoopConfig rt ts) = Some (as_callback (drain_followUpQueue rt))"
  "cfg_shouldStopAfterTurn (harnessLoopConfig rt ts) = None"
  "cfg_prepareNextTurn (harnessLoopConfig rt ts) = Some (\<lambda>_. as_callback (prepare_next_turn rt))"
  "cfg_stream (harnessLoopConfig rt ts) model lc key reasoning = as_callback (createStreamFn rt model lc reasoning)"
  "cfg_nextEvent (harnessLoopConfig rt ts) = as_callback (hr_nextEvent rt)"
  "cfg_result (harnessLoopConfig rt ts) = as_callback (hr_result rt)"
  "cfg_sink (harnessLoopConfig rt ts) ev = as_callback (handleAgentEvent rt ev)"
  by (simp_all add: harnessLoopConfig_def)

lemma bindP_Done: "m \<sigma> = (Done x, \<sigma>') \<Longrightarrow> bindP m f \<sigma> = f x \<sigma>'"
  by (simp add: bindP_def)

lemma callP_Returns: "m h = (Returns x, h') \<Longrightarrow> callP (as_callback m) (h, evs) = (Done x, h', evs)"
  by (simp add: callP_def as_callback_def)

lemma retP_apply: "retP x \<sigma> = (Done x, \<sigma>)"
  by (simp add: retP_def)

lemma bindP_ret: "bindP (retP x) f \<sigma> = f x \<sigma>"
  by (simp add: bindP_def retP_def)

lemmas run_steps = bindP_ret bindP_Done callP_Returns retP_apply harness_config

context clocked_storage begin

lemma message_end_quiet:
  assumes rt: "runs_on rt ops" and h: "healthy logS good (hr_clock rt) h" "quiet_harness h" "ticks_left 100 (ah_world h)"
  obtains h' where "handleAgentEvent rt (MessageEnd m) h = (Returns (), h')" "healthy logS good (hr_clock rt) h'" "grown logS [m] h h'"
proof -
  obtain en s' w' where a: "appendBody (ops (hr_clock rt)) (hr_clock rt) (MessageE m) (ah_session h, ah_world h) = (Inr (e_id en), s', w')"
      and s': "good s'" "logS s' = logS (ah_session h) @ [en]" "e_body en = MessageE m" "e_parentId en = leaf_of (logS (ah_session h))"
        "fresh_source (hr_clock rt) w' (logS s')" "w_ticks w' \<le> w_ticks (ah_world h) + 102"
    using appendBody_run [of "ah_session h" "hr_clock rt" "ah_world h" "MessageE m"] h unfolding healthy_def by (metis entry_body.distinct)
  let ?h' = "h\<lparr>ah_session := s', ah_world := w'\<rparr>"
  have "notify_listeners rt ev ?h' = (Returns (), ?h')" for ev
    using h(2) by (intro notify_quiet) (simp add: quiet_harness_def)
  then have "handleAgentEvent rt (MessageEnd m) h = (Returns (), ?h')"
    using a rt by (simp add: handleAgentEvent_def emitAny_def bindH_def sessionH_def appendMessage_def runs_on_def)
  moreover have "session_branch logS ?h' = session_branch logS h @ [en]"
    using s' branch_after_append [of en "logS (ah_session h)"] by (simp add: session_branch_def)
  ultimately show thesis
    using that [of ?h'] s' h by (force simp: healthy_def grown_def)
qed

text \<open>Events as the loop emits them.\<close>


lemma emit_quiet:
  "quiet_harness h \<Longrightarrow> (\<forall>m. ev \<noteq> MessageEnd m) \<Longrightarrow> (\<forall>ms. ev \<noteq> AgentEnd ms) \<Longrightarrow>
     emit (harnessLoopConfig rt ts) ev (h, evs) = (Done (), h, evs @ [ev])"
  by (simp add: emit_def emitP_def harnessLoopConfig_def as_callback_def event_quiet(1))

lemma emit_end_quiet:
  assumes "runs_on rt ops" "healthy logS good (hr_clock rt) h" "quiet_harness h" "ticks_left 100 (ah_world h)"
  obtains h' where "emit (harnessLoopConfig rt ts) (MessageEnd m) (h, evs) = (Done (), h', evs @ [MessageEnd m])"
    "healthy logS good (hr_clock rt) h'" "grown logS [m] h h'"
proof -
  obtain h' where "handleAgentEvent rt (MessageEnd m) h = (Returns (), h')" "healthy logS good (hr_clock rt) h'" "grown logS [m] h h'"
    by (rule message_end_quiet [OF assms])
  then show thesis by (intro that [of h']) (simp_all add: emit_def emitP_def harnessLoopConfig_def as_callback_def)
qed

lemma grown_trans:
  assumes "grown logS ms h h1" "grown logS ms' h1 h'"
  shows "grown logS (ms @ ms') h h'"
proof -
  obtain s w new s' w' new' where
    1: "h1 = h\<lparr>ah_session := s, ah_world := w\<rparr>" "w_ticks w \<le> w_ticks (ah_world h) + 102 * length ms"
      "session_branch logS h1 = session_branch logS h @ new" "map e_body new = map MessageE ms" and
    2: "h' = h1\<lparr>ah_session := s', ah_world := w'\<rparr>" "w_ticks w' \<le> w_ticks (ah_world h1) + 102 * length ms'"
      "session_branch logS h' = session_branch logS h1 @ new'" "map e_body new' = map MessageE ms'"
    using assms unfolding grown_def by blast
  then show ?thesis
    unfolding grown_def by (intro exI [of _ s'] exI [of _ w'] exI [of _ "new @ new'"]) simp
qed

lemma messages_quiet:
  "runs_on rt ops \<Longrightarrow> healthy logS good (hr_clock rt) h \<Longrightarrow> quiet_harness h \<Longrightarrow> ticks_left (100 + 102 * length ms) (ah_world h) \<Longrightarrow>
   \<exists>h' evs'. forP (emit_message (harnessLoopConfig rt ts)) ms (h, evs) = (Done (), h', evs') \<and>
     healthy logS good (hr_clock rt) h' \<and> grown logS ms h h'"
proof (induction ms arbitrary: h evs)
  case Nil
  then show ?case by (auto simp: retP_def grown_def intro!: exI [of _ "ah_session h"] exI [of _ "ah_world h"] exI [of _ "[]"])
next
  case (Cons m ms)
  let ?cfg = "harnessLoopConfig rt ts"
  have t: "ticks_left 100 (ah_world h)" using Cons.prems(4) by (simp add: ticks_left_def)
  obtain h1 where e: "emit ?cfg (MessageEnd m) (h, evs @ [MessageStart m]) = (Done (), h1, evs @ [MessageStart m] @ [MessageEnd m])"
      and h1: "healthy logS good (hr_clock rt) h1" "grown logS [m] h h1"
    using emit_end_quiet [OF Cons.prems(1-3) t, of ts m "evs @ [MessageStart m]"] by auto
  have "ticks_left (100 + 102 * length ms) (ah_world h1)"
    using h1(2) Cons.prems(4) by (auto simp: grown_def ticks_left_def)
  then obtain h' evs' where "forP (emit_message ?cfg) ms (h1, evs @ [MessageStart m] @ [MessageEnd m]) = (Done (), h', evs')"
      and "healthy logS good (hr_clock rt) h'" "grown logS ms h1 h'"
    using Cons.IH [OF Cons.prems(1) h1(1)] grown_quiet [OF h1(2)] Cons.prems(3) by blast
  moreover have "emit_message ?cfg m (h, evs) = (Done (), h1, evs @ [MessageStart m] @ [MessageEnd m])"
    using e emit_quiet [OF Cons.prems(3), of "MessageStart m" rt ts evs] by (simp add: emit_message_def bindP_def)
  ultimately show ?case using grown_trans [OF h1(2)] by (force simp: bindP_def)
qed

lemma turn_state_quiet:
  assumes "runs_on rt ops" "plain_runtime rt i" "healthy logS good (hr_clock rt) h"
  shows "\<exists>next. createTurnState rt h = (Returns next, h)"
proof -
  have "sessionH (buildContext (hr_storage rt) (hr_date_ms rt)) h =
      (Returns (buildSessionContext (hr_date_ms rt) (session_branch logS h)), h)"
    using assms(1,3) buildContext_run [of "ah_session h" "hr_clock rt"]
    by (simp add: sessionH_def runs_on_def healthy_def session_branch_def)
  moreover have "sessionH (hr_metadataId rt) h = (Returns i, h)" using assms(2) by (simp add: sessionH_def plain_runtime_def)
  ultimately show ?thesis
    using assms(2) by (simp add: createTurnState_def resolve_system_prompt_def plain_runtime_def bindH_def getH_def retH_def)
qed

lemma response_quiet:
  assumes rt: "runs_on rt ops" "plain_runtime rt i" and am: "answers_with rt am"
    and h: "healthy logS good (hr_clock rt) h" "quiet_harness h" "ticks_left 100 (ah_world h)"
  obtains ctx' h' evs' where "streamAssistantResponse (harnessLoopConfig rt ts) (Suc fuel) ctx (h, evs) = (Done (am, ctx'), h', evs')"
    "healthy logS good (hr_clock rt) h'" "grown logS [assistant_msg am] h h'"
proof -
  let ?cfg = "harnessLoopConfig rt ts"
  obtain h' where e: "emit ?cfg (MessageEnd (assistant_msg am)) (h, evs @ [MessageStart (assistant_msg am)]) =
        (Done (), h', evs @ [MessageStart (assistant_msg am)] @ [MessageEnd (assistant_msg am)])"
      and h': "healthy logS good (hr_clock rt) h'" "grown logS [assistant_msg am] h h'"
    using emit_end_quiet [OF rt(1) h, of ts "assistant_msg am" "evs @ [MessageStart (assistant_msg am)]"] by auto
  have finish: "stream_loop ?cfg (Suc fuel) ms False (h, evs) =
      (Done (am, ms @ [assistant_msg am]), h', evs @ [MessageStart (assistant_msg am)] @ [MessageEnd (assistant_msg am)])" for ms
    using am e emit_quiet [OF h(2), of "MessageStart (assistant_msg am)" rt ts evs]
    by (simp add: answers_with_def finish_stream_def run_steps)
  have request: "createStreamFn rt m lc reasoning h = (Returns (), h)" for m lc reasoning
    using am rt(2) h(2)
    by (simp add: createStreamFn_def get_auth_def plain_runtime_def emitBeforeProviderRequest_def quiet_harness_def
        answers_with_def Let_def bindH_assoc)
  have "streamAssistantResponse ?cfg (Suc fuel) ctx (h, evs) =
      (Done (am, ctx\<lparr>ctx_messages := ctx_messages ctx @ [assistant_msg am]\<rparr>), h',
       evs @ [MessageStart (assistant_msg am)] @ [MessageEnd (assistant_msg am)])"
    unfolding streamAssistantResponse_def
    by (simp add: run_steps resolve_key_def retH_def bindH_apply hook_quiet [OF h(2)] request finish
        callP_def [of "cfg_convertToLlm _ _"] del: stream_loop.simps)
  with h' that show thesis by blast
qed

lemma sink_update: "emit (cfg\<lparr>cfg_model := m, cfg_reasoning := l\<rparr>) = emit cfg"
  by (rule ext) (simp add: emit_def)

lemma add_messages_Nil [simp]: "add_messages [] st = st"
  by (simp add: add_messages_def)

lemma apply_update_hooks:
  "cfg_shouldStopAfterTurn (ls_config (apply_update u st)) = cfg_shouldStopAfterTurn (ls_config st)"
  "cfg_getSteeringMessages (ls_config (apply_update u st)) = cfg_getSteeringMessages (ls_config st)"
  "cfg_getFollowUpMessages (ls_config (apply_update u st)) = cfg_getFollowUpMessages (ls_config st)"
  "ls_newMessages (apply_update u st) = ls_newMessages st"
  "ls_hasMoreToolCalls (apply_update u st) = ls_hasMoreToolCalls st"
  by (simp_all add: apply_update_def split: option.split)

lemma prepare_quiet:
  assumes "runs_on rt ops" "plain_runtime rt i" "healthy logS good (hr_clock rt) h" "quiet_harness h"
  obtains nxt u where "prepare_next_turn rt h = (Returns (Some u), h\<lparr>ah_turnState := nxt\<rparr>)"
proof -
  obtain nxt where "createTurnState rt h = (Returns nxt, h)" using turn_state_quiet [OF assms(1-3)] by blast
  then show thesis
    by (intro that) (simp add: prepare_next_turn_def flush_quiet [OF assms(4)] bindH_apply retH_def)
qed

lemma turn_quiet:
  assumes rt: "runs_on rt ops" "plain_runtime rt i" and am: "answers_with rt am"
    and h: "healthy logS good (hr_clock rt) h" "quiet_harness h" "ticks_left 100 (ah_world h)"
    and st: "ls_config st = harnessLoopConfig rt ts" "ls_firstTurn st" "ls_pending st = []"
  obtains st' h1 h' evs' nxt where "run_turn (Suc fuel) st (h, evs) = (Done (TurnNext st'), h', evs')"
    "healthy logS good (hr_clock rt) h1" "grown logS [assistant_msg am] h h1" "h' = h1\<lparr>ah_turnState := nxt\<rparr>"
    "ls_pending st' = []" "\<not> ls_hasMoreToolCalls st'" "ls_newMessages st' = ls_newMessages st @ [assistant_msg am]"
    "cfg_sink (ls_config st') = cfg_sink (harnessLoopConfig rt ts)"
    "cfg_getFollowUpMessages (ls_config st') = Some (as_callback (drain_followUpQueue rt))"
proof -
  let ?cfg = "harnessLoopConfig rt ts"
  let ?st0 = "st\<lparr>ls_firstTurn := False, ls_pending := []\<rparr>"
  have inject: "inject_pending st (h, evs) = (Done ?st0, h, evs)"
    by (simp add: inject_pending_def st run_steps)
  obtain ctx' h1 evs1 where resp: "streamAssistantResponse ?cfg (Suc fuel) (ls_context st) (h, evs) = (Done (am, ctx'), h1, evs1)"
      and h1: "healthy logS good (hr_clock rt) h1" "grown logS [assistant_msg am] h h1"
    by (rule response_quiet [OF rt am h])
  have q1: "quiet_harness h1" using grown_quiet [OF h1(2)] h(2) by simp
  obtain nxt u where prep: "prepare_next_turn rt h1 = (Returns (Some u), h1\<lparr>ah_turnState := nxt\<rparr>)"
    by (rule prepare_quiet [OF rt h1(1) q1])
  let ?h' = "h1\<lparr>ah_turnState := nxt\<rparr>"
  let ?st1 = "?st0\<lparr>ls_context := ctx', ls_newMessages := ls_newMessages st @ [assistant_msg am], ls_hasMoreToolCalls := False\<rparr>"
  let ?st' = "(apply_update (Some u) ?st1)\<lparr>ls_pending := []\<rparr>"
  have q': "quiet_harness ?h'" using q1 by (simp add: quiet_harness_def)
  have "run_turn (Suc fuel) st (h, evs) = (Done (TurnNext ?st'), ?h', evs1 @ [TurnEnd (assistant_msg am) []])"
    using am
    by (simp add: run_turn_def answers_with_def run_steps inject resp after_response_def Let_def
        emit_quiet [OF q1] prep optional_call_def drain_quiet [OF q'] apply_update_hooks st)
  then show thesis
    by (rule that [OF _ h1])
      (simp_all add: apply_update_hooks apply_update_sink st harness_config(5))
qed

lemma emit_agent_end_quiet:
  "quiet_harness h \<Longrightarrow> emit (harnessLoopConfig rt ts) (AgentEnd ms) (h, evs) = (Done (), h\<lparr>ah_phase := IdlePhase\<rparr>, evs @ [AgentEnd ms])"
  by (simp add: emit_def emitP_def harnessLoopConfig_def as_callback_def event_quiet(2))

lemma runLoop_quiet:
  assumes rt: "runs_on rt ops" "plain_runtime rt i" and am: "answers_with rt am"
    and h: "healthy logS good (hr_clock rt) h" "quiet_harness h" "ticks_left 100 (ah_world h)"
  obtains h1 evs' nxt where
    "runLoop (Suc (Suc (Suc fuel))) (harnessLoopConfig rt ts) ctx ms (h, evs) =
       (Done (ms @ [assistant_msg am]), h1\<lparr>ah_turnState := nxt, ah_phase := IdlePhase\<rparr>, evs')"
    "healthy logS good (hr_clock rt) h1" "grown logS [assistant_msg am] h h1"
proof -
  let ?st = "\<lparr>ls_context = ctx, ls_config = harnessLoopConfig rt ts, ls_firstTurn = True, ls_pending = [],
      ls_hasMoreToolCalls = True, ls_newMessages = ms\<rparr>"
  have "ls_config ?st = harnessLoopConfig rt ts" "ls_firstTurn ?st" "ls_pending ?st = []" by simp_all
  then obtain st' h1 h' evs' nxt where turn: "run_turn (Suc (Suc fuel)) ?st (h, evs) = (Done (TurnNext st'), h', evs')"
      and h1: "healthy logS good (hr_clock rt) h1" "grown logS [assistant_msg am] h h1" and h': "h' = h1\<lparr>ah_turnState := nxt\<rparr>"
      and st': "ls_pending st' = []" "\<not> ls_hasMoreToolCalls st'" "ls_newMessages st' = ls_newMessages ?st @ [assistant_msg am]"
        "cfg_sink (ls_config st') = cfg_sink (harnessLoopConfig rt ts)"
        "cfg_getFollowUpMessages (ls_config st') = Some (as_callback (drain_followUpQueue rt))"
    by (rule turn_quiet [OF rt am h])
  have q': "quiet_harness h'" using grown_quiet [OF h1(2)] h(2) h' by (simp add: quiet_harness_def)
  have "emit (ls_config st') = emit (harnessLoopConfig rt ts)" by (rule ext) (simp add: emit_def st')
  then have stop: "loop_turns (Suc (Suc fuel)) st' (h', evs') =
      (Done (ms @ [assistant_msg am]), h'\<lparr>ah_phase := IdlePhase\<rparr>, evs' @ [AgentEnd (ms @ [assistant_msg am])])"
    by (simp add: st' optional_call_def run_steps drain_quiet [OF q'] end_run_def emit_agent_end_quiet [OF q'])
  have "runLoop (Suc (Suc (Suc fuel))) (harnessLoopConfig rt ts) ctx ms (h, evs) =
      (Done (ms @ [assistant_msg am]), h1\<lparr>ah_turnState := nxt, ah_phase := IdlePhase\<rparr>, evs' @ [AgentEnd (ms @ [assistant_msg am])])"
    using stop [unfolded h'] turn [unfolded h'] by (simp add: runLoop_def optional_call_def run_steps drain_quiet [OF h(2)] loop_turns.simps(2) [of "Suc (Suc fuel)"] h'
        del: loop_turns.simps)
  then show thesis using h1 by (rule that)
qed

lemma loop_quiet:
  assumes rt: "runs_on rt ops" "plain_runtime rt i" and am: "answers_with rt am"
    and h: "healthy logS good (hr_clock rt) h" "quiet_harness h" "ticks_left (300 + 102 * length ms) (ah_world h)"
  obtains h1 evs' nxt where
    "runAgentLoop (Suc (Suc (Suc fuel))) ms ctx (harnessLoopConfig rt ts) (h, []) =
       (Done (ms @ [assistant_msg am]), h1\<lparr>ah_turnState := nxt, ah_phase := IdlePhase\<rparr>, evs')"
    "grown logS (ms @ [assistant_msg am]) h h1"
proof -
  let ?cfg = "harnessLoopConfig rt ts"
  have "ticks_left (100 + 102 * length ms) (ah_world h)" using h(3) by (simp add: ticks_left_def)
  from messages_quiet [OF rt(1) h(1,2) this, of ts "[AgentStart, TurnStart]"]
  obtain h1 evs1 where ms: "forP (emit_message ?cfg) ms (h, [AgentStart, TurnStart]) = (Done (), h1, evs1)"
    and h1: "healthy logS good (hr_clock rt) h1" "grown logS ms h h1" by blast
  have q1: "quiet_harness h1" using grown_quiet [OF h1(2)] h(2) by simp
  have t1: "ticks_left 100 (ah_world h1)" using h1(2) h(3) by (auto simp: grown_def ticks_left_def)
  obtain h2 evs2 nxt where loop: "runLoop (Suc (Suc (Suc fuel))) ?cfg (ctx\<lparr>ctx_messages := ctx_messages ctx @ ms\<rparr>) ms (h1, evs1) =
      (Done (ms @ [assistant_msg am]), h2\<lparr>ah_turnState := nxt, ah_phase := IdlePhase\<rparr>, evs2)"
    and h2: "grown logS [assistant_msg am] h1 h2"
    by (rule runLoop_quiet [OF rt am h1(1) q1 t1])
  have "runAgentLoop (Suc (Suc (Suc fuel))) ms ctx ?cfg (h, []) =
      (Done (ms @ [assistant_msg am]), h2\<lparr>ah_turnState := nxt, ah_phase := IdlePhase\<rparr>, evs2)"
    by (simp add: runAgentLoop_def run_steps emit_quiet [OF h(2)] ms loop)
  then show thesis using grown_trans [OF h1(2) h2] by (rule that)
qed

lemma guarded_run_quiet:
  assumes rt: "runs_on rt ops" "plain_runtime rt i" and am: "answers_with rt am"
    and h: "healthy logS good (hr_clock rt) h" "quiet_harness h" "ticks_left (300 + 102 * length ms) (ah_world h)"
  obtains h1 nxt where "guarded_run rt (Suc (Suc (Suc fuel))) ts sp ms h =
      (Returns am, h1\<lparr>ah_turnState := nxt, ah_phase := IdlePhase, ah_runAbort := None\<rparr>)"
    "grown logS (ms @ [assistant_msg am]) (h\<lparr>ah_runAbort := Some False\<rparr>) h1"
proof -
  let ?h = "h\<lparr>ah_runAbort := Some False\<rparr>"
  have h': "healthy logS good (hr_clock rt) ?h" "quiet_harness ?h" "ticks_left (300 + 102 * length ms) (ah_world ?h)"
    using h by (simp_all add: healthy_def quiet_harness_def)
  obtain h1 evs nxt where loop: "runAgentLoop (Suc (Suc (Suc fuel))) ms (createContext rt ts sp) (harnessLoopConfig rt ts) (?h, []) =
      (Done (ms @ [assistant_msg am]), h1\<lparr>ah_turnState := nxt, ah_phase := IdlePhase\<rparr>, evs)"
    and h1: "grown logS (ms @ [assistant_msg am]) ?h h1"
    by (rule loop_quiet [OF rt am h'])
  let ?h1 = "h1\<lparr>ah_turnState := nxt, ah_phase := IdlePhase\<rparr>"
  have "bindH (run_result_promise rt (Suc (Suc (Suc fuel))) ts sp ms) answer_of ?h = (Returns am, ?h1)"
    by (simp add: bindH_def run_result_promise_def run_result_def tryP_def loop answer_of_def last_assistant_snoc retH_def)
  moreover have "quiet_harness ?h1" using grown_quiet [OF h1] h'(2) by (simp add: quiet_harness_def)
  ultimately have "guarded_run rt (Suc (Suc (Suc fuel))) ts sp ms h =
      (Returns am, h1\<lparr>ah_turnState := nxt, ah_phase := IdlePhase, ah_runAbort := None\<rparr>)"
    by (simp add: guarded_run_def finallyH_def flush_quiet setH_def [of "\<lambda>h. h\<lparr>ah_runAbort := None\<rparr>"])
  then show thesis using h1 by (rule that)
qed

lemma catchH_Returns: "m h = (Returns x, h') \<Longrightarrow> catchH m k h = (Returns x, h')"
  by (simp add: catchH_def)

lemma turn_start_quiet:
  assumes "quiet_harness h" "date_now (hr_clock rt) (ah_world h) = (now, w)"
  shows "turn_start rt ts content images h =
    (Returns (ah_nextTurnQueue h @ [Msg (User \<lparr>um_content = CBlocks (TextBlock content None # images), um_timestamp = int now\<rparr>)], None),
     h\<lparr>ah_turnState := ts, ah_world := w, ah_nextTurnQueue := []\<rparr>)"
proof -
  let ?h = "h\<lparr>ah_turnState := ts, ah_world := w, ah_nextTurnQueue := []\<rparr>"
  have q: "quiet_harness ?h" using assms(1) by (simp add: quiet_harness_def)
  note hk = hook_quiet [OF q] and qu = queue_update_quiet [OF q]
  have next_turn: "with_next_turn rt m (h\<lparr>ah_turnState := ts, ah_world := w\<rparr>) = (Returns (ah_nextTurnQueue h @ [m]), ?h)" for m
    using qu by (cases "ah_nextTurnQueue h = []") (auto simp: with_next_turn_def catchH_Returns bindH_apply retH_def)
  show ?thesis
    using assms(2)
    by (simp add: turn_start_def createUserMessage_def bindH_assoc bindH_apply nowH_def hk next_turn retH_def)
qed

lemma prompt_quiet:
  assumes rt: "runs_on rt ops" "plain_runtime rt i" and am: "answers_with rt am"
    and h: "healthy logS good (hr_clock rt) h" "quiet_harness h" "harness_idle h"
      "ticks_left (500 + 102 * length (ah_nextTurnQueue h)) (ah_world h)"
  shows "\<exists>h' new now. harness_prompt rt (Suc (Suc (Suc fuel))) content images h = (Returns am, h') \<and> harness_idle h' \<and> quiet_harness h' \<and> ticks_left 200 (ah_world h') \<and>
      session_branch logS h' = session_branch logS h @ new \<and> map e_body new = map MessageE (ah_nextTurnQueue h @
        [Msg (User \<lparr>um_content = CBlocks (TextBlock content None # images), um_timestamp = now\<rparr>), assistant_msg am])"
proof -
  let ?h = "h\<lparr>ah_phase := TurnPhase, ah_running := True\<rparr>"
  have h': "healthy logS good (hr_clock rt) ?h" "quiet_harness ?h" using h by (simp_all add: healthy_def quiet_harness_def)
  obtain ts where ts: "createTurnState rt ?h = (Returns ts, ?h)" using turn_state_quiet [OF rt h'(1)] by blast
  obtain now w where now: "date_now (hr_clock rt) (ah_world ?h) = (now, w)" by (metis prod.exhaust)
  then have w: "w = (ah_world h)\<lparr>w_ticks := Suc (w_ticks (ah_world h))\<rparr>" by (simp add: date_now_def)
  let ?m = "Msg (User \<lparr>um_content = CBlocks (TextBlock content None # images), um_timestamp = int now\<rparr>)"
  let ?ms = "ah_nextTurnQueue h @ [?m]"
  let ?h1 = "?h\<lparr>ah_turnState := ts, ah_world := w, ah_nextTurnQueue := []\<rparr>"
  have h1: "healthy logS good (hr_clock rt) ?h1" "quiet_harness ?h1" "ticks_left (300 + 102 * length ?ms) (ah_world ?h1)"
    using h h' w by (simp_all add: healthy_def quiet_harness_def ticks_left_def)
  obtain h2 nxt where run: "guarded_run rt (Suc (Suc (Suc fuel))) ts None ?ms ?h1 =
      (Returns am, h2\<lparr>ah_turnState := nxt, ah_phase := IdlePhase, ah_runAbort := None\<rparr>)"
    and h2: "grown logS (?ms @ [assistant_msg am]) (?h1\<lparr>ah_runAbort := Some False\<rparr>) h2"
    by (rule guarded_run_quiet [OF rt am h1])
  let ?h' = "h2\<lparr>ah_turnState := nxt, ah_phase := IdlePhase, ah_runAbort := None, ah_running := False\<rparr>"
  have "executeTurn rt (Suc (Suc (Suc fuel))) ts content images ?h =
      (Returns am, h2\<lparr>ah_turnState := nxt, ah_phase := IdlePhase, ah_runAbort := None\<rparr>)"
    using run turn_start_quiet [OF h'(2) now, of ts content images] by (simp add: executeTurn_def bindH_apply)
  then have "harness_prompt rt (Suc (Suc (Suc fuel))) content images h = (Returns am, ?h')"
    using h(3) ts
    by (simp add: harness_prompt_def in_turn_def harness_idle_def finallyH_def catchH_def bindH_apply
        setH_def [of "\<lambda>h. h\<lparr>ah_running := False\<rparr>"])
  moreover have "quiet_harness ?h'"
    using grown_quiet [OF h2] h1(2) by (simp add: quiet_harness_def)
  moreover have "ticks_left 200 (ah_world ?h')"
    using h2 h(4) w by (auto simp: grown_def ticks_left_def)
  moreover obtain new where "session_branch logS h2 = session_branch logS (?h1\<lparr>ah_runAbort := Some False\<rparr>) @ new"
      "map e_body new = map MessageE (?ms @ [assistant_msg am])"
    using h2 unfolding grown_def by blast
  ultimately show ?thesis
    by (intro exI [of _ ?h'] exI [of _ new] exI [of _ "int now"]) (simp add: harness_idle_def session_branch_def)
qed

end

section \<open>An example\<close>

text \<open>A provider that always gives one answer; no hooks, no listeners, and tools that fail.\<close>

definition demo_runtime :: "'s SessionStorage \<Rightarrow> env \<Rightarrow> AssistantMessage \<Rightarrow> ('s, unit) HarnessRuntime" where
  "demo_runtime so e am =
     \<lparr>hr_storage = so, hr_metadataId = (\<lambda>\<sigma>. (Inr (js ''s''), \<sigma>)), hr_clock = e, hr_date_ms = (\<lambda>_. 0),
      hr_systemPrompt = None, hr_getApiKeyAndHeaders = None,
      hr_completeSimple = demo_llm Stop,
      hr_streamSimple = (\<lambda>_ _ _ _ _ _ _ _. retH ()),
      hr_nextEvent = retH (Some (StreamDone (am_stopReason am) am)), hr_result = retH am, hr_schedule = (\<lambda>_. []),
      hr_tool = (\<lambda>_. \<lparr>at_name = [], at_executionMode = None, at_prepareArguments = None, at_validate = (\<lambda>as. Inr (JObj as)),
        at_execute = (\<lambda>_ _ w. (([], Threw (js ''no tool'')), w))\<rparr>),
      hr_listener = (\<lambda>_ _. retH ()), hr_onBeforeAgentStart = (\<lambda>_ _ _ _ _. retH None), hr_onContext = (\<lambda>_ _. retH None),
      hr_onBeforeProviderRequest = (\<lambda>_ _ _ _. retH None), hr_onBeforeProviderPayload = (\<lambda>_ _ _. retH None),
      hr_onToolCall = (\<lambda>_ _ args. retH (None, args)), hr_onToolResult = (\<lambda>_ _ _ _ _. retH None),
      hr_onSessionBeforeCompact = (\<lambda>_ _ _ _. retH None), hr_onSessionBeforeTree = (\<lambda>_ _. retH None)\<rparr>"

lemma demo_env: "(\<And>h b. R h b [] h) \<Longrightarrow> harness_env R (demo_runtime so e am)"
  by (simp add: harness_env_def demo_runtime_def respectsH_def respects_tool_def retH_def)

lemma demo_answers: "answers_with (demo_runtime so e (demo_assistant [AText t None] Stop)) (demo_assistant [AText t None] Stop)"
  by (simp add: answers_with_def demo_runtime_def retH_def demo_assistant_def)

lemma demo_runs: "runs_on (demo_runtime (ops e) e am) ops" "plain_runtime (demo_runtime so e am) (js ''s'')"
  by (simp_all add: runs_on_def plain_runtime_def demo_runtime_def)

definition demo_options :: HarnessOptions where
  "demo_options = \<lparr>ho_tools = Some [(js ''read'', 0), (js ''write'', 1)], ho_resources = None, ho_streamOptions = None,
     ho_model = demo_model, ho_thinkingLevel = None, ho_activeToolNames = None, ho_steeringMode = None,
     ho_followUpMode = None\<rparr>"

lemma demo_harness:
  obtains h where "new_harness demo_options session w () = Inr h" "quiet_harness h" "harness_idle h"
    "ah_session h = session" "ah_world h = w" "ah_nextTurnQueue h = []"
proof -
  have "validateUniqueNames (map fst [(js ''read'', 0), (js ''write'', 1)]) msg = Inr ()" for msg
    by (simp add: validateUniqueNames_ok js_eval)
  moreover have "validateToolNames (map fst ts) ts = Inr ()" if "ts = [(js ''read'', 0), (js ''write'', 1)]" for ts :: "tool_ref list"
    using that by (simp add: validateToolNames_ok js_eval)
  ultimately obtain h where h: "new_harness demo_options session w () = Inr h" "h = \<lparr>ah_session = session, ah_world = w, ah_phase = IdlePhase, ah_runAbort = None, ah_running = False,
     ah_pendingSessionWrites = [], ah_model = demo_model, ah_thinkingLevel = js ''off'', ah_streamOptions = no_stream_options,
     ah_resources = no_resources, ah_tools = [(js ''read'', 0), (js ''write'', 1)], ah_activeToolNames = [js ''read'', js ''write''],
     ah_steerQueue = [], ah_steeringQueueMode = OneAtATime, ah_followUpQueue = [], ah_followUpQueueMode = OneAtATime,
     ah_nextTurnQueue = [], ah_handlers = (\<lambda>_. []), ah_turnState = ah_turnState h, ah_env = ()\<rparr>"
    by (auto simp: new_harness_def demo_options_def or_default_def Let_def)
  show thesis
    by (rule that [OF h(1)]) (subst h(2), simp add: quiet_harness_def harness_idle_def)+
qed

text \<open>A prompt, and what goes before and after it.\<close>

abbreviation "demo_answer \<equiv> demo_assistant [AText (js ''hello'') None] Stop"

abbreviation "demo_rt \<equiv> demo_runtime (memory_ops still_clock) still_clock demo_answer"

lemma demo_prompt:
  assumes "new_harness demo_options demo_session init_world () = Inr h" "quiet_harness h" "harness_idle h"
    "ah_session h = demo_session" "ah_world h = init_world" "ah_nextTurnQueue h = []"
  obtains h' where "run_harness demo_rt 3 (HPrompt (js ''hi'') []) h = (Returns (), h')" "quiet_harness h'" "harness_idle h'"
proof -
  have "healthy ms_entries mem_good (hr_clock demo_rt) h"
    using assms demo_good demo_fresh by (simp add: healthy_def quiet_harness_def demo_runtime_def)
  moreover have "ticks_left (500 + 102 * length (ah_nextTurnQueue h)) (ah_world h)" using assms demo_ticks [of 500] by simp
  ultimately obtain h' where "harness_prompt demo_rt 3 (js ''hi'') [] h = (Returns demo_answer, h')" "quiet_harness h'" "harness_idle h'"
    using memory.prompt_quiet [OF demo_runs(1) demo_runs(2) demo_answers [where t = "js ''hello''"] _ assms(2,3),
        where fuel = 0 and content = "js ''hi''" and images = "[]"] by (auto simp: numeral_3_eq_3)
  then show thesis by (intro that) (simp_all add: ignoreH_def bindH_apply retH_def)
qed

lemma abort_quiet:
  assumes "quiet_harness h" "harness_idle h"
  shows "run_harness rt fuel HAbort h = (Returns (), signal_abort h)"
proof -
  have q: "quiet_harness (signal_abort h)" using assms(1) by (simp add: quiet_harness_def signal_abort_def)
  have "waitForIdle (signal_abort h) = (Returns (), signal_abort h)"
    using assms(2) by (simp add: waitForIdle_def signal_abort_def harness_idle_def)
  then show ?thesis
    using assms(1) by (simp add: ignoreH_def harness_abort_def collect_error_def catchH_def bindH_apply retH_def queue_update_quiet [OF q]
        emitOwn_def notify_quiet [OF q])
qed

section \<open>Properties\<close>

text \<open>Claim C14: a prompt to an idle harness that has no hooks and whose provider answers with a message
  without tool calls returns that message. The branch of the session then ends with the messages
  queued for the turn, the message of the user and the answer, and the harness is idle again.\<close>

theorem prompt_answers:
  assumes "runs_on rt memory_ops" "plain_runtime rt i" "answers_with rt am"
    and "healthy ms_entries mem_good (hr_clock rt) h" "quiet_harness h" "harness_idle h"
    and "ticks_left (500 + 102 * length (ah_nextTurnQueue h)) (ah_world h)"
  shows "\<exists>h' new now. harness_prompt rt (Suc (Suc (Suc fuel))) content images h = (Returns am, h') \<and> harness_idle h' \<and>
      session_branch ms_entries h' = session_branch ms_entries h @ new \<and>
      map e_body new = map MessageE (ah_nextTurnQueue h @
        [Msg (User \<lparr>um_content = CBlocks (TextBlock content None # images), um_timestamp = now\<rparr>), assistant_msg am])"
  using memory.prompt_quiet [OF assms] by blast

theorem prompt_answers_witness:
  "\<exists>h h' new. new_harness demo_options demo_session init_world () = Inr h \<and>
     harness_prompt (demo_runtime (memory_ops still_clock) still_clock (demo_assistant [AText (js ''hello'') None] Stop)) 3
       (js ''hi'') [] h = (Returns (demo_assistant [AText (js ''hello'') None] Stop), h') \<and> harness_idle h' \<and>
     session_branch ms_entries h' = session_branch ms_entries h @ new \<and> length new = 2 \<and>
     e_body (last new) = MessageE (assistant_msg (demo_assistant [AText (js ''hello'') None] Stop))"
proof -
  obtain h where h: "new_harness demo_options demo_session init_world () = Inr h" "quiet_harness h" "harness_idle h"
      "ah_session h = demo_session" "ah_world h = init_world" "ah_nextTurnQueue h = []"
    by (rule demo_harness)
  have healthy: "healthy ms_entries mem_good still_clock h"
    using h demo_good demo_fresh by (simp add: healthy_def quiet_harness_def)
  have clock: "hr_clock (demo_runtime so e am) = e" for so e am by (simp add: demo_runtime_def)
  let ?answer = "demo_assistant [AText (js ''hello'') None] Stop"
  have "ticks_left (500 + 102 * length (ah_nextTurnQueue h)) (ah_world h)" using h demo_ticks [of 500] by simp
  from prompt_answers [OF demo_runs(1) demo_runs(2) demo_answers [where t = "js ''hello''"], unfolded clock, OF healthy h(2,3) this,
      where fuel = 0 and content = "js ''hi''" and images = "[]"]
  obtain h' new now where "harness_prompt (demo_runtime (memory_ops still_clock) still_clock ?answer) 3 (js ''hi'') [] h = (Returns ?answer, h')"
    "harness_idle h'" "session_branch ms_entries h' = session_branch ms_entries h @ new"
    and new: "map e_body new = [MessageE (Msg (User \<lparr>um_content = CBlocks [TextBlock (js ''hi'') None], um_timestamp = now\<rparr>)),
        MessageE (assistant_msg ?answer)]"
    using h(6) by (auto simp: numeral_3_eq_3)
  moreover from new have "length new = 2" "e_body (last new) = MessageE (assistant_msg ?answer)"
    by (auto simp: map_eq_Cons_conv)
  ultimately show ?thesis using h(1) by blast
qed

text \<open>A session in a file, by the interpretation for Node's files.\<close>

abbreviation "file_log \<equiv> (\<lambda>\<sigma> :: JsonlSessionStorage \<times> node_files. jl_entries (fst \<sigma>))"

abbreviation "file_good resolve \<equiv> jl_good (\<lambda>files p. files (resolve p))"



text \<open>Claim C7: between operations a harness is idle. Whatever sequence of operations a caller performs
  on a new harness, and whether they return or throw, afterwards the phase is idle and there is neither
  an abort controller nor a run promise left. The environment may call the operations that do not
  run, but not reset the abort controller, the run promise or the phase itself.\<close>

theorem harness_settles:
  assumes "harness_env control_rel rt" and "new_harness options session w env = Inr h0"
    and "run_harness_all rt fuel cs h0 = Some h"
  shows "harness_idle h"
  by (rule run_harness_all_invariant [where I = harness_idle, OF command_settles [OF assms(1)] assms(3) new_harness_idle [OF assms(2)]])

theorem harness_settles_witness:
  "\<exists>h0 h. new_harness demo_options demo_session init_world () = Inr h0 \<and>
     run_harness_all demo_rt 3 [HPrompt (js ''hi'') [], HAbort] h0 = Some h \<and> harness_idle h"
proof -
  obtain h0 where h0: "new_harness demo_options demo_session init_world () = Inr h0" "quiet_harness h0" "harness_idle h0"
      "ah_session h0 = demo_session" "ah_world h0 = init_world" "ah_nextTurnQueue h0 = []"
    by (rule demo_harness)
  obtain h1 where h1: "run_harness demo_rt 3 (HPrompt (js ''hi'') []) h0 = (Returns (), h1)" "quiet_harness h1" "harness_idle h1"
    by (rule demo_prompt [OF h0])
  have "run_harness_all demo_rt 3 [HPrompt (js ''hi'') [], HAbort] h0 = Some (signal_abort h1)"
    using h1(1) abort_quiet [OF h1(2,3), of demo_rt 3] by (simp del: run_harness.simps)
  moreover from harness_settles [OF demo_env h0(1) this] have "harness_idle (signal_abort h1)"
    by (simp add: control_rel_def)
  ultimately show ?thesis using h0(1) by blast
qed

text \<open>Claim C13: the active tools exist. After any sequence of operations, failing ones included, the
  names of the tools and the active names are distinct, and \<open>getActiveTools\<close> finds every active tool.\<close>

theorem active_tools_exist:
  assumes "harness_env tools_rel rt" and "new_harness options session w env = Inr h0"
    and "run_harness_all rt fuel cs h0 = Some h"
  shows "distinct (map fst (ah_tools h)) \<and> distinct (ah_activeToolNames h) \<and> None \<notin> set (harness_getActiveTools h)"
proof -
  have "tools_ok h"
    by (rule run_harness_all_invariant [where I = tools_ok, OF tools_run [OF assms(1)] assms(3) new_harness_tools [OF assms(2)]])
  then show ?thesis
    using getActiveTools_ok by (auto simp: tools_ok_def)
qed

theorem active_tools_exist_witness:
  "\<exists>h0 h. new_harness demo_options demo_session init_world () = Inr h0 \<and>
     run_harness_all demo_rt 3 [HSetActiveTools [js ''edit''], HPrompt (js ''hi'') []] h0 = Some h \<and>
     None \<notin> set (harness_getActiveTools h)"
proof -
  obtain h0 where h0: "new_harness demo_options demo_session init_world () = Inr h0" "quiet_harness h0" "harness_idle h0"
      "ah_session h0 = demo_session" "ah_world h0 = init_world" "ah_nextTurnQueue h0 = []"
    by (rule demo_harness)
  obtain h1 where h1: "run_harness demo_rt 3 (HPrompt (js ''hi'') []) h0 = (Returns (), h1)"
    by (rule demo_prompt [OF h0])
  have tools: "fst ` set (ah_tools h0) = {js ''read'', js ''write''}"
    using h0(1) by (auto simp: new_harness_def demo_options_def Let_def or_default_def split: sum.splits)
  have "validateToolNames [js ''edit''] (ah_tools h0) \<noteq> Inr ()"
    by (simp add: validateToolNames_ok tools js_eval)
  then obtain err where "validateToolNames [js ''edit''] (ah_tools h0) = Inl err" by (cases "validateToolNames [js ''edit''] (ah_tools h0)") auto
  then have "\<exists>err. run_harness demo_rt 3 (HSetActiveTools [js ''edit'']) h0 = (Raises err, h0)"
    by (simp add: harness_setActiveTools_def normalized_def catchH_def checkH_def raiseH_apply)
  then have run: "run_harness_all demo_rt 3 [HSetActiveTools [js ''edit''], HPrompt (js ''hi'') []] h0 = Some h1"
    using h1(1) by (auto simp del: run_harness.simps)
  from active_tools_exist [OF demo_env h0(1) this] h0(1) run show ?thesis
    by (auto simp: tools_rel_def)
qed

text \<open>One operation at a time. While the harness is not idle, a prompt, a skill, a template, a
  compaction and a navigation are refused as busy; while it is idle, there is nothing to steer and
  nothing to follow. A refused operation changes nothing.\<close>

theorem harness_excludes:
  assumes "if ah_phase h = IdlePhase then c = HSteer content images \<or> c = HFollowUp content images else structural c"
  shows "\<exists>msg. run_harness rt fuel c h = (Raises (HarnessThrown (if ah_phase h = IdlePhase then InvalidState else Busy) msg), h)"
  using assms
  by (auto simp: structural_def harness_prompt_def harness_skill_def harness_promptFromTemplate_def in_turn_def
      harness_compact_def harness_navigateTree_def in_phase_def harness_steer_def harness_followUp_def ignoreH_def
      bindH_assoc raiseH_apply split: if_splits)

theorem harness_excludes_witness:
  "\<exists>h msg. new_harness demo_options demo_session init_world () = Inr h \<and>
     run_harness (demo_runtime (memory_ops still_clock) still_clock (demo_assistant [] Stop)) 9 (HSteer (js ''hi'') []) h =
       (Raises (HarnessThrown InvalidState msg), h)"
proof -
  obtain h where h: "new_harness demo_options demo_session init_world () = Inr h" "harness_idle h"
    by (rule demo_harness)
  then have "if ah_phase h = IdlePhase then HSteer (js ''hi'') [] = HSteer (js ''hi'') [] \<or> HSteer (js ''hi'') [] = HFollowUp (js ''hi'') []
      else structural (HSteer (js ''hi'') [])" by (simp add: harness_idle_def)
  from harness_excludes [OF this, of "demo_runtime (memory_ops still_clock) still_clock (demo_assistant [] Stop)" 9] h
  show ?thesis by (auto simp: harness_idle_def)
qed

end
