(* ===== verification/MutationQueue.thy ===== *)
theory MutationQueue
  imports Prelude
begin

text \<open>
  \<open>packages/cli/src/core/tools/file-mutation-queue.ts\<close>: the queues that serialise the operations on
  one file. The calls of \<open>withFileMutationQueue\<close> are numbered in the order they are made. Every
  asynchronous part of a call is a step of its own: the registration, which waits for the ones before
  it; the settling of the promise \<open>chainedQueue\<close>; the start of \<open>fn\<close> once \<open>currentQueue\<close> has settled;
  and the end of \<open>fn\<close>, with the \<open>finally\<close> block. The steps interleave in any order. The theorems are
  about the files that the paths of the calls name, which the queue knows through \<open>realpath\<close> only.
\<close>

section \<open>Keys\<close>

text \<open>An error of \<open>realpath\<close>: its \<open>code\<close>, if it has one.\<close>

type_synonym path_error = "jstring option"

definition isMissingPathError :: "path_error \<Rightarrow> bool" where
  "isMissingPathError err \<longleftrightarrow> err = Some (js ''ENOENT'') \<or> err = Some (js ''ENOTDIR'')"

text \<open>\<open>resolve\<close> and \<open>realpath\<close> of the runtime are parameters; \<open>realpath\<close> depends on the file system
  at the time.\<close>

definition getMutationQueueKey ::
    "(jstring \<Rightarrow> jstring) \<Rightarrow> (jstring \<Rightarrow> path_error + jstring) \<Rightarrow> jstring \<Rightarrow> path_error + jstring" where
  "getMutationQueueKey resolve realpath filePath =
     (let resolvedPath = resolve filePath
      in case realpath resolvedPath of
           Inr p \<Rightarrow> Inr p
         | Inl err \<Rightarrow> if isMissingPathError err then Inr resolvedPath else Inl err)"

section \<open>Calls and queues\<close>

text \<open>
  A call after its registration: rejected with the error of \<open>realpath\<close>, waiting for its
  \<open>currentQueue\<close>, running \<open>fn\<close>, or released. It keeps its \<open>filePath\<close>.
\<close>

datatype call_phase = Rejected path_error | Waiting | Running | Released

text \<open>\<open>currentQueue\<close> is the \<open>chainedQueue\<close> of an earlier call, or the settled promise (\<open>None\<close>).\<close>

record mutation_call =
  mc_path :: jstring
  mc_key :: "jstring option"
  mc_current :: "nat option"
  mc_phase :: call_phase

text \<open>
  \<open>mq_registrations\<close> is the registration queue, the paths of the calls whose registration has not
  run; \<open>mq_queues\<close> is the map \<open>fileMutationQueues\<close>, with the number of a call for its
  \<open>chainedQueue\<close>; \<open>mq_settled\<close> are the \<open>chainedQueue\<close>s that have settled.
\<close>

record mutation_queue =
  mq_registrations :: "jstring list"
  mq_calls :: "mutation_call list"
  mq_queues :: "jstring \<rightharpoonup> nat"
  mq_settled :: "nat set"

definition no_mutations :: mutation_queue where
  "no_mutations = \<lparr>mq_registrations = [], mq_calls = [], mq_queues = Map.empty, mq_settled = {}\<rparr>"

definition key_of :: "mutation_queue \<Rightarrow> nat \<Rightarrow> jstring option" where
  "key_of q i = (if i < length (mq_calls q) then mc_key (mq_calls q ! i) else None)"

definition call_path :: "mutation_queue \<Rightarrow> nat \<Rightarrow> jstring" where
  "call_path q i = (if i < length (mq_calls q) then mc_path (mq_calls q ! i) else [])"

definition phase_of :: "mutation_queue \<Rightarrow> nat \<Rightarrow> call_phase option" where
  "phase_of q i = (if i < length (mq_calls q) then Some (mc_phase (mq_calls q ! i)) else None)"

definition current_of :: "mutation_queue \<Rightarrow> nat \<Rightarrow> nat option" where
  "current_of q i = (if i < length (mq_calls q) then mc_current (mq_calls q ! i) else None)"

definition set_phase :: "nat \<Rightarrow> call_phase \<Rightarrow> mutation_queue \<Rightarrow> mutation_queue" where
  "set_phase i p q = q\<lparr>mq_calls := (mq_calls q)[i := (mq_calls q ! i)\<lparr>mc_phase := p\<rparr>]\<rparr>"

section \<open>The steps\<close>

text \<open>A call of \<open>withFileMutationQueue\<close> puts its registration at the end of the registration queue.\<close>

definition enter_queue :: "jstring \<Rightarrow> mutation_queue \<Rightarrow> mutation_queue" where
  "enter_queue filePath q = q\<lparr>mq_registrations := mq_registrations q @ [filePath]\<rparr>"

text \<open>The first registration of the queue runs; a failed one rejects its call only.\<close>

definition register_call ::
    "(jstring \<Rightarrow> jstring) \<Rightarrow> (jstring \<Rightarrow> path_error + jstring) \<Rightarrow> mutation_queue \<Rightarrow> mutation_queue" where
  "register_call resolve realpath q =
     (case mq_registrations q of
        [] \<Rightarrow> q
      | filePath # rest \<Rightarrow>
          (case getMutationQueueKey resolve realpath filePath of
             Inl err \<Rightarrow>
               q\<lparr>mq_registrations := rest,
                 mq_calls := mq_calls q @ [\<lparr>mc_path = filePath, mc_key = None, mc_current = None, mc_phase = Rejected err\<rparr>]\<rparr>
           | Inr key \<Rightarrow>
               q\<lparr>mq_registrations := rest,
                 mq_calls := mq_calls q @ [\<lparr>mc_path = filePath, mc_key = Some key,
                                    mc_current = mq_queues q key, mc_phase = Waiting\<rparr>],
                 mq_queues := (mq_queues q)(key \<mapsto> length (mq_calls q))\<rparr>))"

definition promise_settled :: "mutation_queue \<Rightarrow> nat option \<Rightarrow> bool" where
  "promise_settled q p = (case p of None \<Rightarrow> True | Some i \<Rightarrow> i \<in> mq_settled q)"

text \<open>\<open>chainedQueue = currentQueue.then(() => nextQueue)\<close> settles after both.\<close>

definition can_settle :: "mutation_queue \<Rightarrow> nat \<Rightarrow> bool" where
  "can_settle q i \<longleftrightarrow> phase_of q i = Some Released \<and> promise_settled q (current_of q i) \<and> i \<notin> mq_settled q"

definition settle_chain :: "nat \<Rightarrow> mutation_queue \<Rightarrow> mutation_queue" where
  "settle_chain i q = q\<lparr>mq_settled := insert i (mq_settled q)\<rparr>"

definition can_start :: "mutation_queue \<Rightarrow> nat \<Rightarrow> bool" where
  "can_start q i \<longleftrightarrow> phase_of q i = Some Waiting \<and> promise_settled q (current_of q i)"

definition start_fn :: "nat \<Rightarrow> mutation_queue \<Rightarrow> mutation_queue" where
  "start_fn i q = set_phase i Running q"

text \<open>The \<open>finally\<close> block: the call releases the next one and forgets its queue if it is the last.\<close>

definition leave_queue :: "nat \<Rightarrow> mutation_queue \<Rightarrow> mutation_queue" where
  "leave_queue i q =
     (let q1 = set_phase i Released q
      in case key_of q i of
           None \<Rightarrow> q1
         | Some key \<Rightarrow>
             if mq_queues q1 key = Some i then q1\<lparr>mq_queues := (mq_queues q1)(key := None)\<rparr> else q1)"

text \<open>A registration carries what \<open>realpath\<close> answers at its time.\<close>

datatype mq_action =
    Enter jstring | Register "jstring \<Rightarrow> path_error + jstring" | Settle nat | Start nat | Leave nat

inductive mq_step :: "(jstring \<Rightarrow> jstring) \<Rightarrow> mutation_queue \<Rightarrow> mq_action \<Rightarrow> mutation_queue \<Rightarrow> bool"
  for resolve :: "jstring \<Rightarrow> jstring" where
  step_enter: "mq_step resolve q (Enter filePath) (enter_queue filePath q)"
| step_register: "mq_registrations q \<noteq> [] \<Longrightarrow> mq_step resolve q (Register realpath) (register_call resolve realpath q)"
| step_settle: "can_settle q i \<Longrightarrow> mq_step resolve q (Settle i) (settle_chain i q)"
| step_start: "can_start q i \<Longrightarrow> mq_step resolve q (Start i) (start_fn i q)"
| step_leave: "phase_of q i = Some Running \<Longrightarrow> mq_step resolve q (Leave i) (leave_queue i q)"

inductive_cases mq_step_cases [consumes 1, case_names enter register settle start leave]:
  "mq_step resolve q a q'"

inductive mq_steps :: "(jstring \<Rightarrow> jstring) \<Rightarrow> mutation_queue \<Rightarrow> mq_action list \<Rightarrow> mutation_queue \<Rightarrow> bool"
  for resolve :: "jstring \<Rightarrow> jstring" where
  steps_none: "mq_steps resolve q [] q"
| steps_more: "mq_steps resolve q as q1 \<Longrightarrow> mq_step resolve q1 a q2 \<Longrightarrow> mq_steps resolve q (as @ [a]) q2"

abbreviation mq_reachable :: "(jstring \<Rightarrow> jstring) \<Rightarrow> mutation_queue \<Rightarrow> bool" where
  "mq_reachable resolve q \<equiv> \<exists>as. mq_steps resolve no_mutations as q"

section \<open>What the steps change\<close>

lemma phase_of_Some: "phase_of q i = Some p \<longleftrightarrow> i < length (mq_calls q) \<and> mc_phase (mq_calls q ! i) = p"
  by (simp add: phase_of_def)

lemma views_set_phase [simp]:
  "key_of (set_phase i p q) j = key_of q j" "call_path (set_phase i p q) j = call_path q j"
  "current_of (set_phase i p q) j = current_of q j"
  "phase_of (set_phase i p q) j = (if i = j \<and> i < length (mq_calls q) then Some p else phase_of q j)"
  "mq_queues (set_phase i p q) = mq_queues q" "mq_settled (set_phase i p q) = mq_settled q"
  "mq_registrations (set_phase i p q) = mq_registrations q"
  "length (mq_calls (set_phase i p q)) = length (mq_calls q)"
  by (cases "i = j"; auto simp: set_phase_def key_of_def call_path_def current_of_def phase_of_def)+

lemma views_enter [simp]:
  "key_of (enter_queue f q) j = key_of q j" "current_of (enter_queue f q) j = current_of q j"
  "phase_of (enter_queue f q) j = phase_of q j" "mq_queues (enter_queue f q) = mq_queues q"
  "mq_settled (enter_queue f q) = mq_settled q" "mq_calls (enter_queue f q) = mq_calls q"
  "call_path (enter_queue f q) j = call_path q j"
  by (auto simp: enter_queue_def key_of_def call_path_def current_of_def phase_of_def)

lemma views_settle [simp]:
  "key_of (settle_chain i q) j = key_of q j" "current_of (settle_chain i q) j = current_of q j"
  "phase_of (settle_chain i q) j = phase_of q j" "mq_queues (settle_chain i q) = mq_queues q"
  "mq_settled (settle_chain i q) = insert i (mq_settled q)" "mq_calls (settle_chain i q) = mq_calls q"
  "mq_registrations (settle_chain i q) = mq_registrations q" "call_path (settle_chain i q) j = call_path q j"
  by (auto simp: settle_chain_def key_of_def call_path_def current_of_def phase_of_def)

lemma views_leave [simp]:
  "key_of (leave_queue i q) j = key_of q j" "current_of (leave_queue i q) j = current_of q j"
  "phase_of (leave_queue i q) j = (if i = j \<and> i < length (mq_calls q) then Some Released else phase_of q j)"
  "mq_settled (leave_queue i q) = mq_settled q" "mq_registrations (leave_queue i q) = mq_registrations q"
  "length (mq_calls (leave_queue i q)) = length (mq_calls q)"
  "mq_queues (leave_queue i q) =
     (if (\<exists>k. key_of q i = Some k \<and> mq_queues q k = Some i)
      then (mq_queues q)(the (key_of q i) := None) else mq_queues q)"
proof -
  have v: "key_of (q\<lparr>mq_queues := m\<rparr>) j = key_of q j" "current_of (q\<lparr>mq_queues := m\<rparr>) j = current_of q j"
    "phase_of (q\<lparr>mq_queues := m\<rparr>) j = phase_of q j" for q m j
    by (auto simp: key_of_def current_of_def phase_of_def)
  show "key_of (leave_queue i q) j = key_of q j" "current_of (leave_queue i q) j = current_of q j"
    "phase_of (leave_queue i q) j = (if i = j \<and> i < length (mq_calls q) then Some Released else phase_of q j)"
    "mq_settled (leave_queue i q) = mq_settled q" "mq_registrations (leave_queue i q) = mq_registrations q"
    "length (mq_calls (leave_queue i q)) = length (mq_calls q)"
    by (auto simp: leave_queue_def Let_def v split: option.split)
  show "mq_queues (leave_queue i q) =
     (if (\<exists>k. key_of q i = Some k \<and> mq_queues q k = Some i)
      then (mq_queues q)(the (key_of q i) := None) else mq_queues q)"
    by (auto simp add: leave_queue_def Let_def split: option.split)
qed

text \<open>A registration rejects its call or puts it behind the last call of its key.\<close>

lemma register_cases:
  assumes "mq_registrations q \<noteq> []"
  obtains (rejected) err where "mc_phase (last (mq_calls (register_call resolve realpath q))) = Rejected err"
      "\<And>j. key_of (register_call resolve realpath q) j = key_of q j"
      "\<And>j. current_of (register_call resolve realpath q) j = current_of q j"
      "\<And>j. phase_of (register_call resolve realpath q) j =
        (if j = length (mq_calls q) then Some (Rejected err) else phase_of q j)"
      "mq_queues (register_call resolve realpath q) = mq_queues q"
  | (queued) key where "getMutationQueueKey resolve realpath (hd (mq_registrations q)) = Inr key"
      "\<And>j. key_of (register_call resolve realpath q) j = (if j = length (mq_calls q) then Some key else key_of q j)"
      "\<And>j. current_of (register_call resolve realpath q) j =
        (if j = length (mq_calls q) then mq_queues q key else current_of q j)"
      "\<And>j. phase_of (register_call resolve realpath q) j =
        (if j = length (mq_calls q) then Some Waiting else phase_of q j)"
      "mq_queues (register_call resolve realpath q) = (mq_queues q)(key \<mapsto> length (mq_calls q))"
proof -
  obtain f rest where r: "mq_registrations q = f # rest" using assms by (cases "mq_registrations q") auto
  show ?thesis
  proof (cases "getMutationQueueKey resolve realpath f")
    case (Inl err)
    show ?thesis
      by (rule rejected [of err]; simp add: register_call_def r Inl)
        (auto simp: key_of_def current_of_def phase_of_def nth_append)
  next
    case (Inr key)
    show ?thesis
      by (rule queued [of key]; simp add: register_call_def r Inr)
        (auto simp: key_of_def current_of_def phase_of_def nth_append)
  qed
qed

lemma views_register [simp]:
  "mq_settled (register_call resolve realpath q) = mq_settled q"
  "mq_registrations q \<noteq> [] \<Longrightarrow> length (mq_calls (register_call resolve realpath q)) = Suc (length (mq_calls q))"
  "mq_registrations (register_call resolve realpath q) = tl (mq_registrations q)"
  by (simp_all add: register_call_def split: list.split sum.split)

lemma call_path_leave [simp]: "call_path (leave_queue i q) j = call_path q j"
proof -
  have "call_path (r\<lparr>mq_queues := m\<rparr>) j = call_path r j" for r m by (simp add: call_path_def)
  then show ?thesis by (auto simp: leave_queue_def Let_def split: option.split)
qed

lemma call_path_register:
  "mq_registrations q \<noteq> [] \<Longrightarrow> call_path (register_call resolve realpath q) j =
     (if j = length (mq_calls q) then hd (mq_registrations q) else call_path q j)"
  by (auto simp: register_call_def call_path_def nth_append split: list.split sum.split)

section \<open>The invariant\<close>

text \<open>
  \<open>earlier q i j\<close>: call \<open>j\<close> was registered before call \<open>i\<close> for the same key. What the queues keep:
  \<open>currentQueue\<close> is the last earlier call of the key, unless all of them are released; the map
  holds, for each key, its last call while that is not released; a call that has started has no
  unreleased earlier call, and neither has a settled promise.
\<close>

definition earlier :: "mutation_queue \<Rightarrow> nat \<Rightarrow> nat \<Rightarrow> bool" where
  "earlier q i j \<longleftrightarrow> j < i \<and> key_of q j \<noteq> None \<and> key_of q j = key_of q i"

definition chains_ok :: "mutation_queue \<Rightarrow> bool" where
  "chains_ok q \<longleftrightarrow>
     (\<forall>i. case current_of q i of
            Some j \<Rightarrow> earlier q i j \<and> (\<forall>m. earlier q i m \<longrightarrow> m \<le> j)
          | None \<Rightarrow> (\<forall>m. earlier q i m \<longrightarrow> phase_of q m = Some Released))"

definition map_ok :: "mutation_queue \<Rightarrow> bool" where
  "map_ok q \<longleftrightarrow>
     (\<forall>k i. mq_queues q k = Some i \<longleftrightarrow>
        key_of q i = Some k \<and> phase_of q i \<noteq> Some Released \<and> (\<forall>m. key_of q m = Some k \<longrightarrow> m \<le> i))"

definition order_ok :: "mutation_queue \<Rightarrow> bool" where
  "order_ok q \<longleftrightarrow>
     (\<forall>i. phase_of q i \<in> {Some Running, Some Released} \<longrightarrow> (\<forall>m. earlier q i m \<longrightarrow> phase_of q m = Some Released)) \<and>
     (\<forall>i \<in> mq_settled q. phase_of q i = Some Released)"

definition keys_ok :: "mutation_queue \<Rightarrow> bool" where
  "keys_ok q \<longleftrightarrow>
     (\<forall>i. key_of q i = None \<longleftrightarrow> (case phase_of q i of Some (Rejected err) \<Rightarrow> True | None \<Rightarrow> True | _ \<Rightarrow> False))"

definition mq_invariant :: "mutation_queue \<Rightarrow> bool" where
  "mq_invariant q \<longleftrightarrow> chains_ok q \<and> map_ok q \<and> order_ok q \<and> keys_ok q"

lemma key_of_bound: "key_of q i = Some k \<Longrightarrow> i < length (mq_calls q)"
  by (simp add: key_of_def split: if_splits)

lemma phase_of_bound: "phase_of q i = Some p \<Longrightarrow> i < length (mq_calls q)"
  by (simp add: phase_of_def split: if_splits)

lemma chains_okD:
  "chains_ok q \<Longrightarrow> current_of q i = Some j \<Longrightarrow> earlier q i j"
  "chains_ok q \<Longrightarrow> current_of q i = Some j \<Longrightarrow> earlier q i m \<Longrightarrow> m \<le> j"
  "chains_ok q \<Longrightarrow> current_of q i = None \<Longrightarrow> earlier q i m \<Longrightarrow> phase_of q m = Some Released"
  by (auto simp: chains_ok_def split: option.splits dest: spec [of _ i])

lemma map_ok_iff:
  "map_ok q \<Longrightarrow> mq_queues q k = Some i \<longleftrightarrow>
     key_of q i = Some k \<and> phase_of q i \<noteq> Some Released \<and> (\<forall>m. key_of q m = Some k \<longrightarrow> m \<le> i)"
  unfolding map_ok_def by blast

lemma order_okI:
  "(\<And>i m. phase_of q i = Some Running \<or> phase_of q i = Some Released \<Longrightarrow> earlier q i m \<Longrightarrow> phase_of q m = Some Released) \<Longrightarrow>
   (\<And>i. i \<in> mq_settled q \<Longrightarrow> phase_of q i = Some Released) \<Longrightarrow> order_ok q"
  unfolding order_ok_def by blast

lemma order_okD:
  "order_ok q \<Longrightarrow> phase_of q i = Some Running \<or> phase_of q i = Some Released \<Longrightarrow> earlier q i m \<Longrightarrow> phase_of q m = Some Released"
  "order_ok q \<Longrightarrow> i \<in> mq_settled q \<Longrightarrow> phase_of q i = Some Released"
  unfolding order_ok_def by blast+

lemma chains_okI:
  "(\<And>i j. current_of q i = Some j \<Longrightarrow> earlier q i j) \<Longrightarrow>
   (\<And>i j m. current_of q i = Some j \<Longrightarrow> earlier q i m \<Longrightarrow> m \<le> j) \<Longrightarrow>
   (\<And>i m. current_of q i = None \<Longrightarrow> earlier q i m \<Longrightarrow> phase_of q m = Some Released) \<Longrightarrow> chains_ok q"
  by (auto simp: chains_ok_def split: option.split)

lemma earlier_bound: "earlier q i m \<Longrightarrow> m < i \<and> i < length (mq_calls q)"
  by (cases "key_of q i") (auto simp: earlier_def dest: key_of_bound)

lemma map_okD:
  "map_ok q \<Longrightarrow> mq_queues q k = Some i \<Longrightarrow>
     key_of q i = Some k \<and> phase_of q i \<noteq> Some Released \<and> (\<forall>m. key_of q m = Some k \<longrightarrow> m \<le> i)"
  using map_ok_iff by blast

text \<open>Where the map has no call, all calls of the key are released.\<close>

lemma map_ok_None:
  assumes "map_ok q" "order_ok q" "mq_queues q k = None" "key_of q m = Some k"
  shows "phase_of q m = Some Released"
proof -
  let ?S = "{i. key_of q i = Some k}"
  have fin: "finite ?S" by (rule finite_subset [of _ "{..<length (mq_calls q)}"]) (auto dest: key_of_bound)
  define i where "i = Max ?S"
  have i: "key_of q i = Some k" using Max_in [OF fin] assms(4) by (auto simp: i_def)
  have le: "j \<le> i" if "key_of q j = Some k" for j using Max_ge [OF fin] that by (simp add: i_def)
  have r: "phase_of q i = Some Released" using map_ok_iff [OF assms(1), of k i] assms(3) i le by auto
  show ?thesis
  proof (cases "m = i")
    case False
    then have "earlier q i m" using le [OF assms(4)] i assms(4) by (simp add: earlier_def)
    then show ?thesis using assms(2) r unfolding order_ok_def by blast
  qed (use r in simp)
qed

lemma mq_invariant_empty: "mq_invariant no_mutations"
  by (simp add: mq_invariant_def chains_ok_def map_ok_def order_ok_def keys_ok_def earlier_def key_of_def phase_of_def
      current_of_def no_mutations_def)

text \<open>Each part of the invariant after a registration that rejects its call, and after one that
  queues it.\<close>

lemma register_rejected_invariant:
  assumes inv: "mq_invariant q" and new: "\<And>j. key_of r j = key_of q j" "\<And>j. current_of r j = current_of q j"
      "\<And>j. phase_of r j = (if j = length (mq_calls q) then Some (Rejected err) else phase_of q j)"
      "mq_queues r = mq_queues q" "mq_settled r = mq_settled q"
  shows "mq_invariant r"
proof -
  have m: "map_ok q" "chains_ok q" "order_ok q" "keys_ok q" using inv by (simp_all add: mq_invariant_def)
  have e: "earlier r i j = earlier q i j" for i j by (simp add: earlier_def new)
  have ph: "phase_of r m = phase_of q m" if "earlier q i m" for i m
    using earlier_bound [OF that] by (simp add: new)
  have beyond: "phase_of q (length (mq_calls q)) = None" "key_of q (length (mq_calls q)) = None"
    by (simp_all add: phase_of_def key_of_def)
  have rel: "phase_of r i = Some Released \<longleftrightarrow> phase_of q i = Some Released" for i
    using beyond by (simp add: new)
  have run: "phase_of r i = Some Running \<longleftrightarrow> phase_of q i = Some Running" for i
    using beyond by (simp add: new)
  have "chains_ok r"
    by (rule chains_okI; simp only: e new(2) rel; blast intro: chains_okD [OF m(2)])
  moreover have "map_ok r" using m(1) unfolding map_ok_def new(1,4) rel .
  moreover have "order_ok r"
    by (rule order_okI; simp only: e rel run new(5); blast intro: order_okD [OF m(3)])
  moreover have "keys_ok r" using m(4) beyond(2) by (simp add: keys_ok_def new(1,3))
  ultimately show ?thesis by (simp add: mq_invariant_def)
qed

lemma register_queued_invariant:
  assumes inv: "mq_invariant q" and n: "n = length (mq_calls q)"
    and new: "\<And>j. key_of r j = (if j = n then Some key else key_of q j)"
      "\<And>j. current_of r j = (if j = n then mq_queues q key else current_of q j)"
      "\<And>j. phase_of r j = (if j = n then Some Waiting else phase_of q j)"
      "mq_queues r = (mq_queues q)(key \<mapsto> n)" "mq_settled r = mq_settled q"
  shows "mq_invariant r"
proof -
  have m: "map_ok q" "chains_ok q" "order_ok q" "keys_ok q" using inv by (simp_all add: mq_invariant_def)
  have beyond: "key_of q n = None" "current_of q n = None" "phase_of q n = None"
    by (simp_all add: n key_of_def current_of_def phase_of_def)
  have lt: "key_of q m = Some k \<Longrightarrow> m < n" for m k unfolding n by (rule key_of_bound)
  have e: "earlier r i j \<longleftrightarrow> (if i = n then key_of q j = Some key else earlier q i j)" for i j
  proof (cases "i = n")
    case False
    have "\<not> (j = n \<and> n < i \<and> key_of q i = Some key)" using lt [of i key] by auto
    moreover have "j \<noteq> n \<or> key_of q j = None" using beyond by simp
    ultimately show ?thesis using False beyond by (auto simp: earlier_def new)
  qed (use lt beyond in \<open>auto simp: earlier_def new\<close>)
  have rel: "phase_of r i = Some Released \<longleftrightarrow> phase_of q i = Some Released" for i
    using beyond(3) by (simp add: new)
  have run: "phase_of r i = Some Running \<longleftrightarrow> phase_of q i = Some Running" for i
    using beyond(3) by (simp add: new)
  have "chains_ok r"
  proof (rule chains_okI)
    fix i j assume c: "current_of r i = Some j"
    show "earlier r i j"
      using c chains_okD(1) [OF m(2)] map_okD [OF m(1)] by (cases "i = n") (auto simp: e new(2))
    fix k assume "earlier r i k"
    then show "k \<le> j"
      using c chains_okD(2) [OF m(2)] map_okD [OF m(1)] by (cases "i = n") (auto simp: e new(2))
  next
    fix i k assume "current_of r i = None" "earlier r i k"
    then have "phase_of q k = Some Released"
      using chains_okD(3) [OF m(2)] map_ok_None [OF m(1,3)] by (cases "i = n") (auto simp: e new(2))
    then show "phase_of r k = Some Released" by (simp add: rel)
  qed
  moreover have "map_ok r"
    unfolding map_ok_def
  proof (intro allI)
    fix k i
    show "mq_queues r k = Some i \<longleftrightarrow>
        key_of r i = Some k \<and> phase_of r i \<noteq> Some Released \<and> (\<forall>m. key_of r m = Some k \<longrightarrow> m \<le> i)"
    proof (cases "k = key")
      case True
      have last: "m \<le> n" if "key_of r m = Some k" for m
        using that lt [of m k] by (cases "m = n") (simp_all add: new(1))
      have "(key_of r i = Some k \<and> phase_of r i \<noteq> Some Released \<and> (\<forall>m. key_of r m = Some k \<longrightarrow> m \<le> i)) \<longleftrightarrow> i = n"
      proof
        assume "key_of r i = Some k \<and> phase_of r i \<noteq> Some Released \<and> (\<forall>m. key_of r m = Some k \<longrightarrow> m \<le> i)"
        then have "i \<le> n" "n \<le> i" using last [of i] by (auto simp: new(1) True)
        then show "i = n" by simp
      qed (use last in \<open>simp add: new(1,3) True\<close>)
      then show ?thesis by (auto simp: new(4) True)
    next
      case False
      have "key_of r m = Some k \<longleftrightarrow> key_of q m = Some k" for m using False beyond(1) by (simp add: new(1))
      then show ?thesis using map_ok_iff [OF m(1), of k i] False by (simp add: rel new(4))
    qed
  qed
  moreover have "order_ok r"
  proof (rule order_okI)
    fix i k assume p: "phase_of r i = Some Running \<or> phase_of r i = Some Released" and "earlier r i k"
    moreover have "i \<noteq> n" using p by (auto simp: new(3))
    ultimately show "phase_of r k = Some Released"
      using order_okD(1) [OF m(3), of i k] by (simp add: e rel run)
  qed (use order_okD(2) [OF m(3)] in \<open>simp add: rel new(5)\<close>)
  moreover have "keys_ok r" using m(4) by (simp add: keys_ok_def new(1,3))
  ultimately show ?thesis by (simp add: mq_invariant_def)
qed

lemma mq_invariant_register:
  assumes inv: "mq_invariant q" and ne: "mq_registrations q \<noteq> []"
  shows "mq_invariant (register_call resolve realpath q)"
  using ne
proof (cases rule: register_cases [where resolve = resolve and realpath = realpath])
  case (rejected err)
  show ?thesis by (rule register_rejected_invariant [OF inv, of _ err]) (simp_all add: rejected)
next
  case (queued key)
  show ?thesis by (rule register_queued_invariant [OF inv refl, of _ key]) (simp_all add: queued)
qed

text \<open>Before a call may start, every earlier call of its key is released.\<close>

lemma can_start_earlier:
  assumes inv: "mq_invariant q" and s: "promise_settled q (current_of q i)" and e: "earlier q i m"
  shows "phase_of q m = Some Released"
proof -
  have m: "chains_ok q" "order_ok q" using inv by (simp_all add: mq_invariant_def)
  show ?thesis
  proof (cases "current_of q i")
    case None
    then show ?thesis using chains_okD(3) [OF m(1)] e by blast
  next
    case (Some j)
    then have j: "phase_of q j = Some Released" "earlier q i j" "m \<le> j"
      using s e order_okD(2) [OF m(2)] chains_okD(1,2) [OF m(1)] by (auto simp: promise_settled_def)
    show ?thesis
    proof (cases "m = j")
      case False
      then have "earlier q j m" using j e unfolding earlier_def by (metis le_neq_implies_less)
      then show ?thesis using order_okD(1) [OF m(2)] j(1) by blast
    qed (use j in simp)
  qed
qed

lemma mq_invariant_start:
  assumes inv: "mq_invariant q" and c: "can_start q i"
  shows "mq_invariant (start_fn i q)"
proof -
  let ?r = "start_fn i q"
  have m: "map_ok q" "chains_ok q" "order_ok q" "keys_ok q" using inv by (simp_all add: mq_invariant_def)
  have w: "phase_of q i = Some Waiting" and b: "i < length (mq_calls q)"
    using c by (auto simp: can_start_def phase_of_Some)
  have view: "key_of ?r j = key_of q j" "current_of ?r j = current_of q j" "mq_queues ?r = mq_queues q"
    "mq_settled ?r = mq_settled q" "phase_of ?r j = (if j = i then Some Running else phase_of q j)" for j
    using b by (auto simp: start_fn_def)
  have e: "earlier ?r j m = earlier q j m" for j m by (simp add: earlier_def view)
  have rel: "phase_of ?r j = Some Released \<longleftrightarrow> phase_of q j = Some Released" for j using w by (simp add: view)
  have "chains_ok ?r"
    by (rule chains_okI; simp only: e view(2) rel; blast intro: chains_okD [OF m(2)])
  moreover have "map_ok ?r" using m(1) unfolding map_ok_def rel view(1,3) .
  moreover have "order_ok ?r"
  proof (rule order_okI)
    fix j k assume p: "phase_of ?r j = Some Running \<or> phase_of ?r j = Some Released" and "earlier ?r j k"
    then have "phase_of q k = Some Released"
      using order_okD(1) [OF m(3), of j k] can_start_earlier [OF inv, of i k] c
      by (cases "j = i") (auto simp: e view can_start_def)
    then show "phase_of ?r k = Some Released" by (simp add: rel)
  qed (use order_okD(2) [OF m(3)] in \<open>simp only: rel view(4)\<close>)
  moreover have "keys_ok ?r"
    using m(4) w by (auto simp: keys_ok_def view)
  ultimately show ?thesis by (simp add: mq_invariant_def)
qed

lemma mq_invariant_leave:
  assumes inv: "mq_invariant q" and run: "phase_of q i = Some Running"
  shows "mq_invariant (leave_queue i q)"
proof -
  let ?r = "leave_queue i q"
  have m: "map_ok q" "chains_ok q" "order_ok q" "keys_ok q" using inv by (simp_all add: mq_invariant_def)
  have b: "i < length (mq_calls q)" using run by (simp add: phase_of_Some)
  obtain key where k: "key_of q i = Some key"
    using m(4) run by (auto simp: keys_ok_def dest: spec [of _ i])
  have view: "key_of ?r j = key_of q j" "current_of ?r j = current_of q j"
    "mq_settled ?r = mq_settled q" "phase_of ?r j = (if j = i then Some Released else phase_of q j)"
    "mq_queues ?r = (if mq_queues q key = Some i then (mq_queues q)(key := None) else mq_queues q)" for j
    using b by (auto simp: k)
  have e: "earlier ?r j m = earlier q j m" for j m by (simp add: earlier_def view)
  have rel: "phase_of ?r j = Some Released \<longleftrightarrow> j = i \<or> phase_of q j = Some Released" for j
    by (cases "j = i") (simp_all only: view(4) if_True if_False simp_thms)
  have "chains_ok ?r"
    by (rule chains_okI; simp only: e view(2) rel; blast intro: chains_okD [OF m(2)])
  moreover have "map_ok ?r"
    unfolding map_ok_def
  proof (intro allI)
    fix k' j
    have q: "mq_queues q k' = Some j \<longleftrightarrow>
      key_of q j = Some k' \<and> phase_of q j \<noteq> Some Released \<and> (\<forall>m. key_of q m = Some k' \<longrightarrow> m \<le> j)"
      by (rule map_ok_iff [OF m(1)])
    have "mq_queues ?r k' = Some j \<longleftrightarrow> mq_queues q k' = Some j \<and> j \<noteq> i"
      using map_okD [OF m(1), of k' i] k by (cases "k' = key") (auto simp: view(5))
    then show "mq_queues ?r k' = Some j \<longleftrightarrow>
        key_of ?r j = Some k' \<and> phase_of ?r j \<noteq> Some Released \<and> (\<forall>m. key_of ?r m = Some k' \<longrightarrow> m \<le> j)"
      unfolding q view(1) rel by blast
  qed
  moreover have "order_ok ?r"
  proof (rule order_okI)
    fix j k assume p: "phase_of ?r j = Some Running \<or> phase_of ?r j = Some Released" and "earlier ?r j k"
    then have "phase_of q k = Some Released"
      using order_okD(1) [OF m(3), of j k] run by (cases "j = i") (auto simp: e view(4))
    then show "phase_of ?r k = Some Released" unfolding rel by blast
  qed (unfold rel view(3), blast intro: order_okD(2) [OF m(3)])
  moreover have "keys_ok ?r"
    unfolding keys_ok_def
  proof
    fix j show "key_of ?r j = None \<longleftrightarrow> (case phase_of ?r j of Some (Rejected err) \<Rightarrow> True | None \<Rightarrow> True | _ \<Rightarrow> False)"
      using m(4) k unfolding keys_ok_def view(1,4) by (cases "j = i") simp_all
  qed
  ultimately show ?thesis by (simp add: mq_invariant_def)
qed

lemma mq_invariant_views:
  assumes "mq_invariant q" "key_of r = key_of q" "current_of r = current_of q" "phase_of r = phase_of q"
    "mq_queues r = mq_queues q" "\<And>i. i \<in> mq_settled r \<Longrightarrow> phase_of q i = Some Released"
  shows "mq_invariant r"
proof -
  have m: "map_ok q" "chains_ok q" "order_ok q" "keys_ok q" using assms(1) by (simp_all add: mq_invariant_def)
  have e: "earlier r = earlier q" by (simp add: fun_eq_iff earlier_def assms)
  have "chains_ok r" using m(2) unfolding chains_ok_def e assms(3,4) .
  moreover have "map_ok r" using m(1) unfolding map_ok_def assms(2,4,5) .
  moreover have "order_ok r"
    by (rule order_okI; simp only: e assms(4); blast intro: order_okD [OF m(3)] assms(6))
  moreover have "keys_ok r" using m(4) unfolding keys_ok_def assms(2,4) .
  ultimately show ?thesis by (simp add: mq_invariant_def)
qed

lemma mq_invariant_settle:
  assumes "mq_invariant q" "can_settle q i"
  shows "mq_invariant (settle_chain i q)"
  by (rule mq_invariant_views [OF assms(1)])
    (use assms order_okD(2) [of q] in \<open>auto simp: fun_eq_iff can_settle_def mq_invariant_def\<close>)

lemma mq_invariant_enter:
  assumes "mq_invariant q"
  shows "mq_invariant (enter_queue f q)"
  by (rule mq_invariant_views [OF assms(1)])
    (use assms order_okD(2) [of q] in \<open>auto simp: fun_eq_iff mq_invariant_def\<close>)

lemmas mq_invariant_steps =
  mq_invariant_enter mq_invariant_register mq_invariant_settle mq_invariant_start mq_invariant_leave

lemma mq_step_invariant: "mq_step resolve q a q' \<Longrightarrow> mq_invariant q \<Longrightarrow> mq_invariant q'"
  by (cases rule: mq_step.cases) (auto intro: mq_invariant_steps)

lemma mq_reachable_invariant: "mq_steps resolve no_mutations as q \<Longrightarrow> mq_invariant q"
  by (induction no_mutations as q rule: mq_steps.induct) (auto intro: mq_invariant_empty mq_step_invariant)

section \<open>Exclusion and order\<close>

text \<open>
  \<open>real p\<close> is the file that the path \<open>p\<close> names. The registrations find the files where every answer
  of \<open>realpath\<close> for a path of a call is its file, and a path whose file is missing is itself the
  path of the file: no link leads to a file that does not exist yet. Other errors reject the call.
\<close>

definition names_files ::
    "(jstring \<Rightarrow> jstring) \<Rightarrow> (jstring \<Rightarrow> jstring) \<Rightarrow> mq_action list \<Rightarrow> bool" where
  "names_files resolve real as \<longleftrightarrow>
     (\<forall>realpath p. Register realpath \<in> set as \<and> Enter p \<in> set as \<longrightarrow>
        (case realpath (resolve p) of
           Inr r \<Rightarrow> r = real p
         | Inl err \<Rightarrow> isMissingPathError err \<longrightarrow> real p = resolve p))"

lemma names_files_prefix: "names_files resolve real (as @ bs) \<Longrightarrow> names_files resolve real as"
  unfolding names_files_def by simp

lemma names_files_keys:
  assumes "mq_steps resolve no_mutations as q" "names_files resolve real as"
  shows "(\<forall>p \<in> set (mq_registrations q). Enter p \<in> set as) \<and>
    (\<forall>i k. key_of q i = Some k \<longrightarrow> k = real (call_path q i))"
  using assms
proof (induction no_mutations as q rule: mq_steps.induct)
  case steps_none
  show ?case by (simp add: no_mutations_def key_of_def)
next
  case (steps_more as q1 a q2)
  then have regs: "\<forall>p \<in> set (mq_registrations q1). Enter p \<in> set as"
    and keys: "\<And>i k. key_of q1 i = Some k \<Longrightarrow> k = real (call_path q1 i)"
    using names_files_prefix by blast+
  show ?case
    using steps_more.hyps(3)
  proof (cases rule: mq_step.cases)
    case (step_enter f)
    have "mq_registrations q2 = mq_registrations q1 @ [f]" by (simp add: step_enter enter_queue_def)
    then show ?thesis using regs keys by (auto simp: step_enter)
  next
    case (step_register realpath)
    let ?f = "hd (mq_registrations q1)"
    have f: "Enter ?f \<in> set as" using regs step_register(3) by simp
    have new: "k = real ?f" if "getMutationQueueKey resolve realpath ?f = Inr k" for k
    proof -
      have "case realpath (resolve ?f) of Inr r \<Rightarrow> r = real ?f
          | Inl err \<Rightarrow> isMissingPathError err \<longrightarrow> real ?f = resolve ?f"
        using steps_more.prems f step_register(1) unfolding names_files_def by simp
      then show ?thesis
        using that by (simp add: getMutationQueueKey_def Let_def split: sum.splits if_splits)
    qed
    have "k = real (call_path q2 i)" if "key_of q2 i = Some k" for i k
      by (rule register_cases [OF step_register(3), of resolve realpath])
        (use that keys new in \<open>auto simp: step_register(2) call_path_register [OF step_register(3)]
           dest: key_of_bound split: if_splits\<close>)
    moreover have "\<forall>p \<in> set (mq_registrations q2). Enter p \<in> set (as @ [a])"
      using regs step_register by (auto dest: list.set_sel(2))
    ultimately show ?thesis by blast
  qed (use regs keys in \<open>auto simp: start_fn_def\<close>)
qed

text \<open>A registered call that was not rejected has the key of its file.\<close>

lemma file_key:
  assumes "mq_steps resolve no_mutations as q" "names_files resolve real as"
    "phase_of q i \<in> {Some Waiting, Some Running, Some Released}"
  shows "key_of q i = Some (real (call_path q i))"
proof -
  have "keys_ok q" using mq_reachable_invariant [OF assms(1)] by (simp add: mq_invariant_def)
  then obtain k where "key_of q i = Some k"
    using assms(3) unfolding keys_ok_def by (cases "key_of q i") auto
  then show ?thesis using names_files_keys [OF assms(1,2)] by blast
qed

lemma earlier_file:
  assumes "mq_steps resolve no_mutations as q" "names_files resolve real as" "earlier q i j"
  shows "j < i \<and> real (call_path q j) = real (call_path q i)"
proof -
  obtain k where "key_of q j = Some k" "key_of q i = Some k"
    using assms(3) by (cases "key_of q j") (auto simp: earlier_def)
  then show ?thesis using names_files_keys [OF assms(1,2)] assms(3) by (auto simp: earlier_def)
qed

text \<open>The same over keys: what the queues give without a condition on the paths.\<close>

lemma keys_exclude_each_other:
  assumes "mq_steps resolve no_mutations as q"
  shows "phase_of q i \<in> {Some Running, Some Released} \<Longrightarrow> j < i \<Longrightarrow> key_of q i = Some k \<Longrightarrow>
           key_of q j = Some k \<Longrightarrow> phase_of q j = Some Released"
    and "phase_of q i = Some Running \<Longrightarrow> phase_of q j = Some Running \<Longrightarrow> key_of q i = Some k \<Longrightarrow>
           key_of q j = Some k \<Longrightarrow> i = j"
    and "phase_of q i = Some Waiting \<Longrightarrow> \<forall>j. earlier q i j \<longrightarrow> j \<in> mq_settled q \<Longrightarrow> can_start q i"
proof -
  have inv: "mq_invariant q" by (rule mq_reachable_invariant [OF assms])
  then have o: "order_ok q" and c: "chains_ok q" by (simp_all add: mq_invariant_def)
  show order: "phase_of q j = Some Released"
    if "phase_of q i \<in> {Some Running, Some Released}" "j < i" "key_of q i = Some k" "key_of q j = Some k"
    for i j k
    using order_okD(1) [OF o, of i j] that by (auto simp: earlier_def)
  show "i = j" if "phase_of q i = Some Running" "phase_of q j = Some Running" "key_of q i = Some k" "key_of q j = Some k"
    using order [of i j k] order [of j i k] that by (cases i j rule: linorder_cases) auto
  show "can_start q i" if "phase_of q i = Some Waiting" "\<forall>j. earlier q i j \<longrightarrow> j \<in> mq_settled q"
    using that chains_okD(1) [OF c, of i] by (auto simp: can_start_def promise_settled_def split: option.split)
qed

text \<open>Claim C28: however the asynchronous parts of the calls interleave, two operations on one
  file never run at the same time, whatever paths name it, and they run in the order of the calls:
  when one has started, every earlier call on its file is released, unless it was rejected. Calls on
  different files do not wait for each other: a call can start when the earlier calls on its file
  have settled or were rejected. The hypothesis \<open>names_files\<close> is on the answers of \<open>realpath\<close>: where an
  answer names another file than the one before, as for a file that is created behind a symbolic
  link, the calls are not serialised (\<open>missing_file_has_two_keys\<close> below).\<close>

theorem mutations_exclude_each_other:
  assumes "mq_steps resolve no_mutations as q" "names_files resolve real as"
  shows "(\<forall>i j. phase_of q i = Some Running \<and> phase_of q j = Some Running \<and>
            real (call_path q i) = real (call_path q j) \<longrightarrow> i = j) \<and>
         (\<forall>i j. phase_of q i \<in> {Some Running, Some Released} \<and> j < i \<and>
            real (call_path q i) = real (call_path q j) \<longrightarrow>
            phase_of q j = Some Released \<or> (\<exists>err. phase_of q j = Some (Rejected err))) \<and>
         (\<forall>i. phase_of q i = Some Waiting \<and>
            (\<forall>j < i. real (call_path q j) = real (call_path q i) \<longrightarrow>
               j \<in> mq_settled q \<or> (\<exists>err. phase_of q j = Some (Rejected err))) \<longrightarrow> can_start q i)"
proof (intro conjI allI impI; (elim conjE)?)
  note key = file_key [OF assms]
  show "i = j" if "phase_of q i = Some Running" "phase_of q j = Some Running"
      "real (call_path q i) = real (call_path q j)" for i j
    using keys_exclude_each_other(2) [OF assms(1) that(1,2)] key [of i] key [of j] that by simp
  show "phase_of q j = Some Released \<or> (\<exists>err. phase_of q j = Some (Rejected err))"
    if i: "phase_of q i \<in> {Some Running, Some Released}" and j: "j < i"
      "real (call_path q i) = real (call_path q j)" for i j
  proof (cases "phase_of q j \<in> {Some Waiting, Some Running, Some Released}")
    case True
    then show ?thesis using keys_exclude_each_other(1) [OF assms(1) i j(1)] key [of i] key [of j] i j by auto
  next
    case False
    have "i < length (mq_calls q)" using i by (auto dest: phase_of_bound)
    then obtain p where "phase_of q j = Some p" using j(1) by (simp add: phase_of_def)
    then show ?thesis using False by (cases p) auto
  qed
  show "can_start q i" if i: "phase_of q i = Some Waiting"
    and before: "\<forall>j < i. real (call_path q j) = real (call_path q i) \<longrightarrow>
      j \<in> mq_settled q \<or> (\<exists>err. phase_of q j = Some (Rejected err))" for i
  proof (rule keys_exclude_each_other(3) [OF assms(1) i], intro allI impI)
    fix j assume e: "earlier q i j"
    have "\<nexists>err. phase_of q j = Some (Rejected err)"
      using mq_reachable_invariant [OF assms(1)] e
      by (auto simp: mq_invariant_def keys_ok_def earlier_def dest!: spec [of _ j])
    then show "j \<in> mq_settled q" using before earlier_file [OF assms e] by blast
  qed
qed

section \<open>The queues drain\<close>

definition call_work :: "mutation_queue \<Rightarrow> nat \<Rightarrow> nat" where
  "call_work q i =
     (case phase_of q i of
        Some Waiting \<Rightarrow> 3
      | Some Running \<Rightarrow> 2
      | Some Released \<Rightarrow> if i \<in> mq_settled q then 0 else 1
      | _ \<Rightarrow> 0)"

definition queue_work :: "mutation_queue \<Rightarrow> nat" where
  "queue_work q = 4 * length (mq_registrations q) + (\<Sum>i < length (mq_calls q). call_work q i)"

lemma sum_less_at:
  fixes f g :: "nat \<Rightarrow> nat"
  assumes "i < n" "f i < g i" "\<And>j. j \<noteq> i \<Longrightarrow> f j = g j"
  shows "(\<Sum>j<n. f j) < (\<Sum>j<n. g j)"
proof (rule sum_strict_mono_ex1)
  show "\<forall>j \<in> {..<n}. f j \<le> g j"
  proof
    fix j show "f j \<le> g j" by (cases "j = i") (use assms in simp_all)
  qed
qed (use assms in auto)

definition is_enter :: "mq_action \<Rightarrow> bool" where
  "is_enter a = (case a of Enter filePath \<Rightarrow> True | _ \<Rightarrow> False)"

lemma mq_step_work:
  assumes "mq_step resolve q a q'" "\<not> is_enter a"
  shows "queue_work q' < queue_work q"
  using assms
proof (cases rule: mq_step.cases)
  case (step_register realpath)
  let ?n = "length (mq_calls q)"
  have calls: "length (mq_calls q') = Suc ?n" and regs: "length (mq_registrations q) = Suc (length (mq_registrations q'))"
    using step_register by simp_all
  have "call_work q' i = call_work q i" if "i < ?n" for i
    using that by (cases rule: register_cases [OF step_register(3), where resolve = resolve and realpath = realpath])
      (simp_all add: step_register(2) call_work_def)
  moreover have "call_work q' ?n \<le> 3" by (auto simp: call_work_def split: option.split call_phase.split)
  ultimately show ?thesis by (simp add: queue_work_def calls regs)
next
  case (step_settle i)
  have "(\<Sum>j < length (mq_calls q). call_work q' j) < (\<Sum>j < length (mq_calls q). call_work q j)"
    by (rule sum_less_at [of i]) (use step_settle in \<open>auto simp: call_work_def can_settle_def phase_of_Some split: option.split\<close>)
  then show ?thesis using step_settle by (simp add: queue_work_def)
next
  case (step_start i)
  have "(\<Sum>j < length (mq_calls q). call_work q' j) < (\<Sum>j < length (mq_calls q). call_work q j)"
    by (rule sum_less_at [of i]) (use step_start in \<open>auto simp: call_work_def can_start_def start_fn_def dest: phase_of_bound\<close>)
  then show ?thesis using step_start by (simp add: queue_work_def start_fn_def)
next
  case (step_leave i)
  have "(\<Sum>j < length (mq_calls q). call_work q' j) < (\<Sum>j < length (mq_calls q). call_work q j)"
    by (rule sum_less_at [of i]) (use step_leave in \<open>auto simp: call_work_def dest: phase_of_bound\<close>)
  then show ?thesis using step_leave by (simp add: queue_work_def)
qed (simp add: is_enter_def)

text \<open>While an operation has not ended, some step other than a new call is possible.\<close>

lemma mq_progress:
  assumes inv: "mq_invariant q"
    and stuck: "\<And>a q'. mq_step resolve q a q' \<Longrightarrow> is_enter a"
  shows "mq_registrations q = [] \<and>
    (\<forall>i < length (mq_calls q). case phase_of q i of
        Some Released \<Rightarrow> i \<in> mq_settled q | Some (Rejected err) \<Rightarrow> True | _ \<Rightarrow> False)"
proof (intro conjI allI impI)
  have o: "order_ok q" and c: "chains_ok q" using inv by (simp_all add: mq_invariant_def)
  show "mq_registrations q = []"
    using stuck [OF step_register [of q resolve "\<lambda>_. Inl None"]] by (auto simp: is_enter_def)
  have no: "\<not> can_settle q i" "\<not> can_start q i" "phase_of q i \<noteq> Some Running" for i
    using stuck [OF step_settle [of q i]] stuck [OF step_start [of q i]] stuck [OF step_leave [of q i]]
    by (auto simp: is_enter_def)
  fix i assume "i < length (mq_calls q)"
  then show "case phase_of q i of
        Some Released \<Rightarrow> i \<in> mq_settled q | Some (Rejected err) \<Rightarrow> True | _ \<Rightarrow> False"
  proof (induction i rule: less_induct)
    case (less i)
    have before: "promise_settled q (current_of q i)"
    proof (cases "current_of q i")
      case (Some j)
      have e: "earlier q i j" by (rule chains_okD(1) [OF c Some])
      then obtain k where k: "key_of q j = Some k" by (cases "key_of q j") (auto simp: earlier_def)
      have "j < i" using e by (simp add: earlier_def)
      then have j: "case phase_of q j of Some Released \<Rightarrow> j \<in> mq_settled q | Some (Rejected err) \<Rightarrow> True | _ \<Rightarrow> False"
        using less by simp
      moreover have "case phase_of q j of Some (Rejected err) \<Rightarrow> False | None \<Rightarrow> False | _ \<Rightarrow> True"
        using inv k by (auto simp: mq_invariant_def keys_ok_def split: option.splits call_phase.splits dest!: spec [of _ j])
      ultimately have "j \<in> mq_settled q" by (simp split: option.splits call_phase.splits)
      then show ?thesis by (simp add: promise_settled_def Some)
    qed (simp add: promise_settled_def)
    obtain p where p: "phase_of q i = Some p" using less.prems by (simp add: phase_of_def)
    show ?case
      using no [of i] before p by (cases p) (auto simp: can_settle_def can_start_def)
  qed
qed

text \<open>Claim C29: the queues drain. Without new calls at most \<open>queue_work\<close> steps remain, and when no
  step is left every registration has run, every operation has ended, every promise has settled and
  the map of queues is empty: no call waits for ever, and no queue is leaked.\<close>

theorem mutation_queues_drain:
  assumes "mq_steps resolve no_mutations as q" "mq_steps resolve q bs q'" "\<forall>a \<in> set bs. \<not> is_enter a"
  shows "length bs + queue_work q' \<le> queue_work q \<and>
    ((\<forall>a q''. mq_step resolve q' a q'' \<longrightarrow> is_enter a) \<longrightarrow>
       mq_registrations q' = [] \<and> mq_queues q' = Map.empty \<and>
       (\<forall>i < length (mq_calls q').
          (\<exists>err. phase_of q' i = Some (Rejected err)) \<or> phase_of q' i = Some Released \<and> i \<in> mq_settled q'))"
proof -
  have steps: "mq_invariant q' \<and> length bs + queue_work q' \<le> queue_work q"
    using assms(2) mq_reachable_invariant [OF assms(1)] assms(3)
  proof (induction rule: mq_steps.induct)
    case (steps_more q as q1 a q2)
    then have "mq_invariant q1 \<and> length as + queue_work q1 \<le> queue_work q" by simp
    moreover have "mq_invariant q2" using mq_step_invariant [OF steps_more.hyps(2)] calculation by simp
    moreover have "queue_work q2 < queue_work q1" using mq_step_work [OF steps_more.hyps(2)] steps_more.prems by simp
    ultimately show ?case by simp
  qed simp
  have "mq_registrations q' = [] \<and> mq_queues q' = Map.empty \<and>
       (\<forall>i < length (mq_calls q').
          (\<exists>err. phase_of q' i = Some (Rejected err)) \<or> phase_of q' i = Some Released \<and> i \<in> mq_settled q')"
    if stuck: "\<forall>a q''. mq_step resolve q' a q'' \<longrightarrow> is_enter a"
  proof -
    have inv: "mq_invariant q'" using steps by simp
    have ended: "(\<exists>err. phase_of q' i = Some (Rejected err)) \<or> phase_of q' i = Some Released \<and> i \<in> mq_settled q'"
      if "i < length (mq_calls q')" for i
      using mq_progress [OF inv, of resolve] stuck that
      by (cases "phase_of q' i"; cases "the (phase_of q' i)") auto
    have "mq_queues q' k = None" for k
    proof (cases "mq_queues q' k")
      case (Some i)
      then have i: "key_of q' i = Some k" "phase_of q' i \<noteq> Some Released"
        using inv map_okD by (auto simp: mq_invariant_def)
      then obtain err where "phase_of q' i = Some (Rejected err)" using ended [OF key_of_bound [OF i(1)]] by blast
      then have "key_of q' i = None" using inv by (auto simp: mq_invariant_def keys_ok_def)
      with i show ?thesis by simp
    qed simp
    moreover have "mq_registrations q' = []" using mq_progress [OF inv, of resolve] stuck by blast
    ultimately show ?thesis using ended by auto
  qed
  with steps show ?thesis by blast
qed

section \<open>A run of two calls\<close>

text \<open>Two calls for the same path, both registered, the first one running.\<close>

definition demo_queue :: mutation_queue where
  "demo_queue =
     start_fn 0 (register_call (\<lambda>p. p) Inr (register_call (\<lambda>p. p) Inr
       (enter_queue (js ''a'') (enter_queue (js ''a'') no_mutations))))"

lemma demo_queue_eq:
  "demo_queue = \<lparr>mq_registrations = [],
     mq_calls = [\<lparr>mc_path = js ''a'', mc_key = Some (js ''a''), mc_current = None, mc_phase = Running\<rparr>,
                 \<lparr>mc_path = js ''a'', mc_key = Some (js ''a''), mc_current = Some 0, mc_phase = Waiting\<rparr>],
     mq_queues = [js ''a'' \<mapsto> 1], mq_settled = {}\<rparr>"
  by (simp add: demo_queue_def enter_queue_def no_mutations_def register_call_def getMutationQueueKey_def start_fn_def
      set_phase_def)

lemma demo_queue_steps:
  "mq_steps (\<lambda>p. p) no_mutations [Enter (js ''a''), Enter (js ''a''), Register Inr, Register Inr, Start 0] demo_queue"
proof -
  let ?q = "register_call (\<lambda>p. p) Inr (register_call (\<lambda>p. p) Inr
       (enter_queue (js ''a'') (enter_queue (js ''a'') no_mutations)))"
  have "can_start ?q 0"
    by (simp add: enter_queue_def no_mutations_def register_call_def getMutationQueueKey_def can_start_def
        phase_of_def current_of_def promise_settled_def)
  then have start: "mq_step (\<lambda>p. p) ?q (Start 0) demo_queue" unfolding demo_queue_def by (rule step_start)
  let ?q2 = "enter_queue (js ''a'') (enter_queue (js ''a'') no_mutations)"
  have "mq_step (\<lambda>p. p) ?q2 (Register Inr) (register_call (\<lambda>p. p) Inr ?q2)"
    by (rule step_register) (simp add: enter_queue_def)
  moreover have "mq_step (\<lambda>p. p) (register_call (\<lambda>p. p) Inr ?q2) (Register Inr) ?q"
    by (rule step_register) (simp add: enter_queue_def no_mutations_def)
  moreover have "mq_steps (\<lambda>p. p) no_mutations (([] @ [Enter (js ''a'')]) @ [Enter (js ''a'')]) ?q2"
    by (rule steps_more [OF steps_more [OF steps_none step_enter] step_enter])
  ultimately have "mq_steps (\<lambda>p. p) no_mutations
      ((((([] @ [Enter (js ''a'')]) @ [Enter (js ''a'')]) @ [Register Inr]) @ [Register Inr]) @ [Start 0]) demo_queue"
    using start by (blast intro: steps_more)
  then show ?thesis by simp
qed

lemma demo_queue_files: "names_files (\<lambda>p. p) (\<lambda>p. p) [Enter (js ''a''), Enter (js ''a''), Register Inr, Register Inr, Start 0]"
  by (simp add: names_files_def)

lemma mutations_exclude_each_other_witness:
  "phase_of demo_queue 0 = Some Running \<and> phase_of demo_queue 1 = Some Waiting \<and>
   call_path demo_queue 0 = call_path demo_queue 1 \<and> \<not> can_start demo_queue 1 \<and> phase_of demo_queue 1 \<noteq> Some Running"
proof -
  have "phase_of demo_queue 0 = Some Running" "call_path demo_queue 0 = call_path demo_queue 1"
    by (simp_all add: demo_queue_eq phase_of_def call_path_def)
  moreover have "phase_of demo_queue 1 \<noteq> Some Running"
    using conjunct1 [OF mutations_exclude_each_other [OF demo_queue_steps demo_queue_files], rule_format, of 0 1] calculation
    by auto
  ultimately show ?thesis
    by (simp add: demo_queue_eq phase_of_def can_start_def current_of_def promise_settled_def)
qed

lemma mutation_queues_drain_witness:
  "queue_work demo_queue = 5 \<and> queue_work (leave_queue 0 demo_queue) < 5 \<and>
   phase_of (leave_queue 0 demo_queue) 0 = Some Released"
proof -
  have w: "queue_work demo_queue = 5"
    by (simp add: queue_work_def call_work_def demo_queue_eq phase_of_def lessThan_Suc)
  have run: "phase_of demo_queue 0 = Some Running" by (simp add: demo_queue_eq phase_of_def)
  have "mq_steps (\<lambda>p. p) demo_queue ([] @ [Leave 0]) (leave_queue 0 demo_queue)"
    by (rule steps_more [OF steps_none step_leave [OF run]])
  then have "length [Leave 0] + queue_work (leave_queue 0 demo_queue) \<le> queue_work demo_queue"
    using mutation_queues_drain [OF demo_queue_steps, of "[Leave 0]" "leave_queue 0 demo_queue"] by (simp add: is_enter_def)
  then show ?thesis using w run by (simp add: phase_of_Some)
qed

section \<open>Operations on the files\<close>

text \<open>
  The tools that edit a file read it, compute its new content and write it, in several asynchronous
  steps. Here call \<open>i\<close> replaces the content of its file by \<open>f i\<close> of it: it reads when it starts and
  writes when it ends, and between the two any other step may happen. The file is the one its path
  names, \<open>real (call_path q i)\<close>; the queue knows only the key. \<open>as\<close> are the steps.
\<close>

inductive file_run ::
    "(jstring \<Rightarrow> jstring) \<Rightarrow> (jstring \<Rightarrow> jstring) \<Rightarrow> (nat \<Rightarrow> 'v \<Rightarrow> 'v) \<Rightarrow> (jstring \<Rightarrow> 'v) \<Rightarrow>
     mq_action list \<Rightarrow> mutation_queue \<Rightarrow> (nat \<Rightarrow> 'v) \<Rightarrow> (jstring \<Rightarrow> 'v) \<Rightarrow> bool"
  for resolve :: "jstring \<Rightarrow> jstring" and real :: "jstring \<Rightarrow> jstring" and f :: "nat \<Rightarrow> 'v \<Rightarrow> 'v"
    and files0 :: "jstring \<Rightarrow> 'v" where
  files_new: "file_run resolve real f files0 [] no_mutations seen files0"
| files_read: "file_run resolve real f files0 as q seen files \<Longrightarrow> mq_step resolve q (Start i) q' \<Longrightarrow>
    file_run resolve real f files0 (as @ [Start i]) q' (seen(i := files (real (call_path q i)))) files"
| files_write: "file_run resolve real f files0 as q seen files \<Longrightarrow> mq_step resolve q (Leave i) q' \<Longrightarrow>
    file_run resolve real f files0 (as @ [Leave i]) q' seen (files(real (call_path q i) := f i (seen i)))"
| files_other: "file_run resolve real f files0 as q seen files \<Longrightarrow> mq_step resolve q a q' \<Longrightarrow>
    (\<forall>i. a \<noteq> Start i \<and> a \<noteq> Leave i) \<Longrightarrow> file_run resolve real f files0 (as @ [a]) q' seen files"

lemma file_run_steps: "file_run resolve real f files0 as q seen files \<Longrightarrow> mq_steps resolve no_mutations as q"
  by (induction rule: file_run.induct) (auto intro: steps_none steps_more)

text \<open>The calls with key \<open>k\<close> that have ended, in the order they were made.\<close>

definition ended_calls :: "mutation_queue \<Rightarrow> jstring \<Rightarrow> nat list" where
  "ended_calls q k =
     filter (\<lambda>i. key_of q i = Some k \<and> phase_of q i = Some Released) [0..<length (mq_calls q)]"

lemma ended_calls_cong:
  assumes "\<And>i. key_of q' i = key_of q i \<or> phase_of q i = None"
    "\<And>i. phase_of q' i = Some Released \<longleftrightarrow> phase_of q i = Some Released"
    "length (mq_calls q) \<le> length (mq_calls q')"
  shows "ended_calls q' k = ended_calls q k"
proof -
  have "[0..<length (mq_calls q')] = [0..<length (mq_calls q)] @ [length (mq_calls q)..<length (mq_calls q')]"
    using assms(3) upt_add_eq_append [of 0 "length (mq_calls q)" "length (mq_calls q') - length (mq_calls q)"] by simp
  moreover have "filter (\<lambda>i. key_of q' i = Some k \<and> phase_of q' i = Some Released)
      [length (mq_calls q)..<length (mq_calls q')] = []"
    unfolding filter_empty_conv assms(2) using phase_of_bound by fastforce
  moreover have "filter (\<lambda>i. key_of q' i = Some k \<and> phase_of q' i = Some Released) [0..<length (mq_calls q)] =
      ended_calls q k"
    unfolding ended_calls_def
  proof (rule filter_cong [OF refl])
    fix i
    show "key_of q' i = Some k \<and> phase_of q' i = Some Released \<longleftrightarrow> key_of q i = Some k \<and> phase_of q i = Some Released"
      using assms(1) [of i] assms(2) [of i] by auto
  qed
  ultimately show ?thesis by (simp add: ended_calls_def)
qed

lemma ended_calls_leave:
  assumes inv: "mq_invariant q" and run: "phase_of q i = Some Running" and k: "key_of q i = Some k"
  shows "ended_calls (leave_queue i q) k' = (if k' = k then ended_calls q k @ [i] else ended_calls q k')"
proof -
  have o: "order_ok q" using inv by (simp add: mq_invariant_def)
  have b: "i < length (mq_calls q)" using k by (rule key_of_bound)
  have P: "key_of (leave_queue i q) j = Some k' \<and> phase_of (leave_queue i q) j = Some Released \<longleftrightarrow>
      key_of q j = Some k' \<and> (j = i \<or> phase_of q j = Some Released)" for j k'
    using b by auto
  have split: "[0..<length (mq_calls q)] = [0..<i] @ i # [Suc i..<length (mq_calls q)]"
    using b upt_add_eq_append [of 0 i "length (mq_calls q) - i"] by (simp add: upt_conv_Cons)
  have later: "\<not> (key_of q j = Some k \<and> phase_of q j = Some Released)" if "i < j" for j
  proof
    assume "key_of q j = Some k \<and> phase_of q j = Some Released"
    then have "phase_of q i = Some Released" using order_okD(1) [OF o, of j i] that k by (simp add: earlier_def)
    then show False using run by simp
  qed
  have rest: "filter (\<lambda>j. key_of q j = Some k \<and> (j = i \<or> phase_of q j = Some Released)) [Suc i..<length (mq_calls q)] = []"
    "filter (\<lambda>j. key_of q j = Some k \<and> phase_of q j = Some Released) [Suc i..<length (mq_calls q)] = []"
    unfolding filter_empty_conv using later by fastforce+
  have before: "filter (\<lambda>j. key_of q j = Some k \<and> (j = i \<or> phase_of q j = Some Released)) [0..<i] =
      filter (\<lambda>j. key_of q j = Some k \<and> phase_of q j = Some Released) [0..<i]"
    by (rule filter_cong) auto
  show ?thesis
  proof (cases "k' = k")
    case True
    show ?thesis
      unfolding ended_calls_def P views_leave(6) True split filter_append filter.simps before rest
      using run k by simp
  next
    case False
    have "filter (\<lambda>j. key_of q j = Some k' \<and> (j = i \<or> phase_of q j = Some Released)) js =
        filter (\<lambda>j. key_of q j = Some k' \<and> phase_of q j = Some Released) js" for js
      by (rule filter_cong) (use k False in auto)
    then show ?thesis
      unfolding ended_calls_def P views_leave(6) using False by simp
  qed
qed

text \<open>The calls on the file \<open>x\<close> that have ended, in the order they were made.\<close>

definition ended_on_file :: "(jstring \<Rightarrow> jstring) \<Rightarrow> mutation_queue \<Rightarrow> jstring \<Rightarrow> nat list" where
  "ended_on_file real q x =
     filter (\<lambda>i. real (call_path q i) = x \<and> phase_of q i = Some Released) [0..<length (mq_calls q)]"

lemma ended_on_file_keys:
  assumes "mq_steps resolve no_mutations as q" "names_files resolve real as"
  shows "ended_on_file real q x = ended_calls q x"
  unfolding ended_on_file_def ended_calls_def
  by (rule filter_cong [OF refl]) (use file_key [OF assms] in fastforce)

text \<open>The steps that neither read nor write leave the running and the ended calls as they are.\<close>

lemma other_step_view:
  assumes "mq_step resolve q a q'" "\<forall>i. a \<noteq> Start i \<and> a \<noteq> Leave i"
  shows "(\<forall>i. key_of q' i = key_of q i \<or> phase_of q i = None) \<and>
    (\<forall>i. phase_of q' i = Some Released \<longleftrightarrow> phase_of q i = Some Released) \<and>
    (\<forall>i. phase_of q' i = Some Running \<longleftrightarrow> phase_of q i = Some Running) \<and>
    length (mq_calls q) \<le> length (mq_calls q')"
  using assms(1)
proof (cases rule: mq_step.cases)
  case (step_register realpath)
  have "phase_of q (length (mq_calls q)) = None" by (simp add: phase_of_def)
  then show ?thesis
    using step_register
    by (cases rule: register_cases [OF step_register(3), where resolve = resolve and realpath = realpath]) auto
qed (use assms(2) in auto)

text \<open>On the keys: every key holds what its ended calls have made, and a running call has seen it.\<close>

lemma file_run_keys:
  assumes "file_run resolve real f files0 as q seen files" "names_files resolve real as"
  shows "mq_invariant q \<and> (\<forall>k. files k = fold f (ended_calls q k) (files0 k)) \<and>
    (\<forall>i k. phase_of q i = Some Running \<and> key_of q i = Some k \<longrightarrow> seen i = files k)"
  using assms
proof (induction rule: file_run.induct)
  case (files_new seen)
  show ?case using mq_invariant_empty by (simp add: ended_calls_def phase_of_def) (simp add: no_mutations_def)
next
  case (files_read as q seen files i q')
  have names: "names_files resolve real as" by (rule names_files_prefix [OF files_read.prems])
  then have inv: "mq_invariant q" using files_read.IH by simp
  have c: "can_start q i" and q': "q' = start_fn i q"
    using files_read.hyps(2) by (auto elim: mq_step_cases)
  have b: "phase_of q i = Some Waiting" "i < length (mq_calls q)"
    using c by (auto simp: can_start_def phase_of_Some)
  have k: "key_of q i = Some (real (call_path q i))"
    using file_key [OF file_run_steps [OF files_read.hyps(1)] names] b by simp
  have "ended_calls q' k' = ended_calls q k'" for k'
    by (rule ended_calls_cong) (use b in \<open>auto simp: q' start_fn_def\<close>)
  moreover have "mq_invariant q'" unfolding q' by (rule mq_invariant_start [OF inv c])
  ultimately show ?case using files_read.IH [OF names] k b by (auto simp: q' start_fn_def)
next
  case (files_write as q seen files i q')
  have names: "names_files resolve real as" by (rule names_files_prefix [OF files_write.prems])
  note IH = files_write.IH [OF names]
  then have inv: "mq_invariant q" by simp
  have run: "phase_of q i = Some Running" and q': "q' = leave_queue i q"
    using files_write.hyps(2) by (auto elim: mq_step_cases)
  define k where "k = real (call_path q i)"
  have k: "key_of q i = Some k"
    using file_key [OF file_run_steps [OF files_write.hyps(1)] names] run by (simp add: k_def)
  have "mq_invariant q'" unfolding q' by (rule mq_invariant_leave [OF inv run])
  moreover have "(files(k := f i (seen i))) k' = fold f (ended_calls q' k') (files0 k')" for k'
    using IH run k by (simp add: q' ended_calls_leave [OF inv run k])
  moreover have "seen j = (files(k := f i (seen i))) k'" if "phase_of q' j = Some Running" "key_of q' j = Some k'" for j k'
  proof (cases "k' = k")
    case True
    have o: "order_ok q" using inv by (simp add: mq_invariant_def)
    have "i = j"
      using order_okD(1) [OF o, of i j] order_okD(1) [OF o, of j i] that run k
      by (cases i j rule: linorder_cases) (auto simp: q' True earlier_def split: if_splits)
    then show ?thesis using that run by (auto simp: q' phase_of_Some)
  qed (use that IH run in \<open>auto simp: q' split: if_splits\<close>)
  ultimately show ?case unfolding k_def by blast
next
  case (files_other as q seen files a q')
  note IH = files_other.IH [OF names_files_prefix [OF files_other.prems]]
  have inv': "mq_invariant q'" by (rule mq_step_invariant [OF files_other.hyps(2)]) (use IH in simp)
  note view = other_step_view [OF files_other.hyps(2,3)]
  then have "ended_calls q' k = ended_calls q k" for k by (intro ended_calls_cong) auto
  moreover have "key_of q i = key_of q' i" if "phase_of q i = Some Running" for i
    using view that by (metis option.distinct(1))
  ultimately show ?case using IH inv' view by metis
qed

text \<open>Claim C30: no update is lost. Operations that read a file, compute and write it in
  separate asynchronous steps, made at any time, through any paths and interleaved in any way, leave
  every file as if the operations on it had been done one after the other in the order of the calls;
  an operation that is still running has seen the current content. The file of an operation is the
  one its path names; the hypothesis \<open>names_files\<close> is that of the exclusion: the registrations find
  the files, so that the key of a call is its file.\<close>

theorem mutations_serialise:
  assumes "file_run resolve real f files0 as q seen files" "names_files resolve real as"
  shows "files x = fold f (ended_on_file real q x) (files0 x) \<and>
    (\<forall>i. phase_of q i = Some Running \<and> real (call_path q i) = x \<longrightarrow> seen i = files x)"
proof -
  note steps = file_run_steps [OF assms(1)]
  show ?thesis
    using file_run_keys [OF assms] file_key [OF steps assms(2)] ended_on_file_keys [OF steps assms(2)] by auto
qed

text \<open>Two calls add one and then ten to the number in a file; the second waits for the first.\<close>

definition demo_update :: "nat \<Rightarrow> nat \<Rightarrow> nat" where
  "demo_update i n = (if i = 0 then n + 1 else n * 10)"

lemma mutations_serialise_witness:
  "\<exists>files. file_run (\<lambda>p. p) (\<lambda>p. p) demo_update (\<lambda>_. 4)
      [Enter (js ''a''), Enter (js ''a''), Register Inr, Register Inr, Start 0, Leave 0] (leave_queue 0 demo_queue) ((\<lambda>_. 0)(0 := 4)) files \<and>
     files (js ''a'') = 5"
proof -
  let ?p = "\<lambda>p. p :: jstring"
  let ?q2 = "enter_queue (js ''a'') (enter_queue (js ''a'') no_mutations)"
  let ?q3 = "register_call ?p Inr ?q2"
  let ?q4 = "register_call ?p Inr ?q3"
  have r3: "mq_step ?p ?q2 (Register Inr) ?q3" by (rule step_register) (simp add: enter_queue_def)
  have r4: "mq_step ?p ?q3 (Register Inr) ?q4" by (rule step_register) (simp add: enter_queue_def no_mutations_def)
  have c: "can_start ?q4 0" "call_path ?q4 0 = js ''a''"
    by (simp_all add: enter_queue_def no_mutations_def register_call_def getMutationQueueKey_def can_start_def
        phase_of_def current_of_def promise_settled_def call_path_def)
  let ?run = "file_run ?p ?p demo_update (\<lambda>_. 4)"
  have "?run ([] @ [Enter (js ''a'')]) (enter_queue (js ''a'') no_mutations) (\<lambda>_. 0) (\<lambda>_. 4)"
    by (rule files_other [OF files_new step_enter]) simp
  from files_other [OF this step_enter [of _ _ "js ''a''"]]
  have "?run [Enter (js ''a''), Enter (js ''a'')] ?q2 (\<lambda>_. 0) (\<lambda>_. 4)" by simp
  from files_other [OF files_other [OF this r3] r4]
  have "?run [Enter (js ''a''), Enter (js ''a''), Register Inr, Register Inr] ?q4 (\<lambda>_. 0) (\<lambda>_. 4)" by simp
  from files_read [OF this step_start [OF c(1)]]
  have "?run [Enter (js ''a''), Enter (js ''a''), Register Inr, Register Inr, Start 0] demo_queue ((\<lambda>_. 0)(0 := 4)) (\<lambda>_. 4)"
    by (simp add: demo_queue_def)
  from files_write [OF this step_leave, of 0]
  have run: "?run [Enter (js ''a''), Enter (js ''a''), Register Inr, Register Inr, Start 0, Leave 0]
      (leave_queue 0 demo_queue) ((\<lambda>_. 0)(0 := 4)) ((\<lambda>_. 4)(js ''a'' := demo_update 0 (((\<lambda>_. 0)(0 := 4)) 0)))"
    by (simp add: demo_queue_eq phase_of_def call_path_def)
  from mutations_serialise [OF this, of "js ''a''"]
  have "((\<lambda>_. 4)(js ''a'' := demo_update 0 (((\<lambda>_. 0)(0 := 4)) 0))) (js ''a'') =
      fold demo_update (ended_on_file ?p (leave_queue 0 demo_queue) (js ''a'')) 4"
    by (simp add: names_files_def)
  also have "ended_on_file ?p (leave_queue 0 demo_queue) (js ''a'') = [0]"
    by (simp add: demo_queue_eq ended_on_file_def leave_queue_def set_phase_def key_of_def call_path_def phase_of_def
        upt_rec Let_def)
  finally show ?thesis using run by (auto simp: demo_update_def)
qed

text \<open>
  The key of a path changes when its file comes into being behind a symbolic link: a call made while
  the file is missing has the unresolved path as its key, one made after it exists has the real one.
  Both operations can run at the same time.
\<close>

lemma missing_file_has_two_keys:
  "\<exists>q as. mq_steps (\<lambda>p. p) no_mutations as q \<and> as = [Enter (js ''/l/a''), Enter (js ''/l/a''),
        Register (\<lambda>_. Inl (Some (js ''ENOENT''))), Register (\<lambda>_. Inr (js ''/r/a'')), Start 0, Start 1] \<and>
     phase_of q 0 = Some Running \<and> phase_of q 1 = Some Running \<and> key_of q 0 \<noteq> key_of q 1"
proof -
  let ?p = "\<lambda>p. p :: jstring"
  let ?missing = "\<lambda>_. Inl (Some (js ''ENOENT'')) :: path_error + jstring" and ?there = "\<lambda>_. Inr (js ''/r/a'') :: path_error + jstring"
  let ?q2 = "enter_queue (js ''/l/a'') (enter_queue (js ''/l/a'') no_mutations)"
  let ?q3 = "register_call ?p ?missing ?q2"
  let ?q4 = "register_call ?p ?there ?q3"
  have r3: "mq_step ?p ?q2 (Register ?missing) ?q3" by (rule step_register) (simp add: enter_queue_def)
  have r4: "mq_step ?p ?q3 (Register ?there) ?q4"
    by (rule step_register) (simp add: enter_queue_def no_mutations_def)
  have q4: "?q4 = \<lparr>mq_registrations = [],
      mq_calls = [\<lparr>mc_path = js ''/l/a'', mc_key = Some (js ''/l/a''), mc_current = None, mc_phase = Waiting\<rparr>,
                  \<lparr>mc_path = js ''/l/a'', mc_key = Some (js ''/r/a''), mc_current = None, mc_phase = Waiting\<rparr>],
      mq_queues = [js ''/l/a'' \<mapsto> 0, js ''/r/a'' \<mapsto> 1], mq_settled = {}\<rparr>"
    by (simp add: enter_queue_def no_mutations_def register_call_def getMutationQueueKey_def isMissingPathError_def js_def)
  have "can_start ?q4 0" "can_start (start_fn 0 ?q4) 1"
    unfolding q4 by (simp_all add: can_start_def start_fn_def set_phase_def phase_of_def current_of_def promise_settled_def)
  from steps_more [OF steps_more [OF steps_more [OF steps_more [OF steps_more [OF steps_more [OF steps_none
    step_enter] step_enter] r3] r4] step_start [OF this(1)]] step_start [OF this(2)]]
  have "mq_steps ?p no_mutations
    ([] @ [Enter (js ''/l/a'')] @ [Enter (js ''/l/a'')] @ [Register ?missing] @ [Register ?there] @ [Start 0] @ [Start 1])
    (start_fn 1 (start_fn 0 ?q4))" by simp
  moreover have "phase_of (start_fn 1 (start_fn 0 ?q4)) 0 = Some Running" "phase_of (start_fn 1 (start_fn 0 ?q4)) 1 = Some Running"
    "key_of (start_fn 1 (start_fn 0 ?q4)) 0 \<noteq> key_of (start_fn 1 (start_fn 0 ?q4)) 1"
    unfolding q4 by (simp_all add: start_fn_def set_phase_def phase_of_def key_of_def js_def)
  ultimately show ?thesis by auto
qed

end
