(* ===== verification/EditDiff.thy ===== *)
theory EditDiff
  imports Prelude Files "HOL-Library.Multiset"
begin

text \<open>
  \<open>packages/cli/src/core/tools/edit-diff.ts\<close>: how the edit tool finds the texts to replace and
  replaces them, with line endings and a byte order mark kept apart, and the diff it shows. The
  normalisation form NFKC of the runtime and the line differ of the package \<open>diff\<close> are parameters.
\<close>

section \<open>Line endings and the byte order mark\<close>

abbreviation carriage :: jchar where
  "carriage \<equiv> 13"

definition crlf :: jstring where
  "crlf = [carriage, newline]"

definition detectLineEnding :: "jstring \<Rightarrow> jstring" where
  "detectLineEnding content =
     (let crlfIdx = index_of crlf content; lfIdx = index_of [newline] content
      in case lfIdx of
           None \<Rightarrow> [newline]
         | Some lf \<Rightarrow>
             (case crlfIdx of
                None \<Rightarrow> [newline]
              | Some cr \<Rightarrow> if cr < lf then crlf else [newline]))"

text \<open>\<open>text.replace(/\r\n/g, "\n").replace(/\r/g, "\n")\<close>\<close>

definition normalizeToLF :: "jstring \<Rightarrow> jstring" where
  "normalizeToLF s = normalize_newlines s"

definition restoreLineEndings :: "jstring \<Rightarrow> jstring \<Rightarrow> jstring" where
  "restoreLineEndings s ending =
     (if ending = crlf then concat (map (\<lambda>c. if c = newline then crlf else [c]) s) else s)"

definition stripBom :: "jstring \<Rightarrow> jstring \<times> jstring" where
  "stripBom content =
     (case content of
        c # cs \<Rightarrow> if c = 0xFEFF then ([0xFEFF], cs) else ([], content)
      | [] \<Rightarrow> ([], content))"

section \<open>Fuzzy matching\<close>

definition ascii_single_quote :: "jchar \<Rightarrow> jchar" where
  "ascii_single_quote c = (if c \<in> {0x2018, 0x2019, 0x201A, 0x201B} then 0x27 else c)"

definition ascii_double_quote :: "jchar \<Rightarrow> jchar" where
  "ascii_double_quote c = (if c \<in> {0x201C, 0x201D, 0x201E, 0x201F} then 0x22 else c)"

definition ascii_dash :: "jchar \<Rightarrow> jchar" where
  "ascii_dash c = (if c \<in> {0x2010, 0x2011, 0x2012, 0x2013, 0x2014, 0x2015, 0x2212} then 0x2D else c)"

definition ascii_space :: "jchar \<Rightarrow> jchar" where
  "ascii_space c =
     (if c = 0xA0 \<or> 0x2002 \<le> c \<and> c \<le> 0x200A \<or> c = 0x202F \<or> c = 0x205F \<or> c = 0x3000 then 0x20 else c)"

text \<open>What \<open>normalizeForFuzzyMatch\<close> does after \<open>normalize("NFKC")\<close>.\<close>

definition fold_to_ascii :: "jstring \<Rightarrow> jstring" where
  "fold_to_ascii s =
     map ascii_space (map ascii_dash (map ascii_double_quote (map ascii_single_quote
       (join [newline] (map trim_end (split_on newline s))))))"

definition normalizeForFuzzyMatch :: "(jstring \<Rightarrow> jstring) \<Rightarrow> jstring \<Rightarrow> jstring" where
  "normalizeForFuzzyMatch nfkc s = fold_to_ascii (nfkc s)"

record FuzzyMatchResult =
  fm_found :: bool
  fm_index :: nat
  fm_matchLength :: nat
  fm_usedFuzzyMatch :: bool
  fm_contentForReplacement :: jstring

text \<open>The index of a result that is not found is \<open>-1\<close> in the code and never read.\<close>

definition fuzzyFindText :: "(jstring \<Rightarrow> jstring) \<Rightarrow> jstring \<Rightarrow> jstring \<Rightarrow> FuzzyMatchResult" where
  "fuzzyFindText nfkc content oldText =
     (case index_of oldText content of
        Some exactIndex \<Rightarrow>
          \<lparr>fm_found = True, fm_index = exactIndex, fm_matchLength = length oldText,
           fm_usedFuzzyMatch = False, fm_contentForReplacement = content\<rparr>
      | None \<Rightarrow>
          (let fuzzyContent = normalizeForFuzzyMatch nfkc content;
               fuzzyOldText = normalizeForFuzzyMatch nfkc oldText
           in case index_of fuzzyOldText fuzzyContent of
                None \<Rightarrow>
                  \<lparr>fm_found = False, fm_index = 0, fm_matchLength = 0,
                   fm_usedFuzzyMatch = False, fm_contentForReplacement = content\<rparr>
              | Some fuzzyIndex \<Rightarrow>
                  \<lparr>fm_found = True, fm_index = fuzzyIndex, fm_matchLength = length fuzzyOldText,
                   fm_usedFuzzyMatch = True, fm_contentForReplacement = fuzzyContent\<rparr>))"

text \<open>\<open>s.split(sep)\<close> for a string; an empty separator splits into the code units.\<close>

function split_string :: "'a list \<Rightarrow> 'a list \<Rightarrow> 'a list list" where
  "split_string sep s =
     (if sep = [] then map (\<lambda>c. [c]) s
      else case index_of sep s of
             None \<Rightarrow> [s]
           | Some i \<Rightarrow> take i s # split_string sep (drop (i + length sep) s))"
  by auto
termination
  by (relation "measure (\<lambda>(sep, s). length s)")
    (auto dest!: index_of_Some_le simp flip: length_greater_0_conv)

declare split_string.simps [simp del]

definition countOccurrences :: "(jstring \<Rightarrow> jstring) \<Rightarrow> jstring \<Rightarrow> jstring \<Rightarrow> int" where
  "countOccurrences nfkc content oldText =
     int (length (split_string (normalizeForFuzzyMatch nfkc oldText) (normalizeForFuzzyMatch nfkc content))) - 1"

section \<open>Edits and their errors\<close>

record Edit =
  ed_oldText :: jstring
  ed_newText :: jstring

record MatchedEdit =
  me_editIndex :: nat
  me_matchIndex :: nat
  me_matchLength :: nat
  me_newText :: jstring

record AppliedEditsResult =
  ae_baseContent :: jstring
  ae_newContent :: jstring

definition edit_name :: "nat \<Rightarrow> jstring" where
  "edit_name i = js ''edits['' @ show_nat i @ js '']''"

definition getNotFoundError :: "jstring \<Rightarrow> nat \<Rightarrow> nat \<Rightarrow> jstring" where
  "getNotFoundError path editIndex totalEdits =
     (if totalEdits = 1 then
        js ''Could not find the exact text in '' @ path @
        js ''. The old text must match exactly including all whitespace and newlines.''
      else js ''Could not find '' @ edit_name editIndex @ js '' in '' @ path @
        js ''. The oldText must match exactly including all whitespace and newlines.'')"

definition getDuplicateError :: "jstring \<Rightarrow> nat \<Rightarrow> nat \<Rightarrow> int \<Rightarrow> jstring" where
  "getDuplicateError path editIndex totalEdits occurrences =
     (if totalEdits = 1 then
        js ''Found '' @ show_int occurrences @ js '' occurrences of the text in '' @ path @
        js ''. The text must be unique. Please provide more context to make it unique.''
      else js ''Found '' @ show_int occurrences @ js '' occurrences of '' @ edit_name editIndex @ js '' in '' @ path @
        js ''. Each oldText must be unique. Please provide more context to make it unique.'')"

definition getEmptyOldTextError :: "jstring \<Rightarrow> nat \<Rightarrow> nat \<Rightarrow> jstring" where
  "getEmptyOldTextError path editIndex totalEdits =
     (if totalEdits = 1 then js ''oldText must not be empty in '' @ path @ js ''.''
      else edit_name editIndex @ js ''.oldText must not be empty in '' @ path @ js ''.'')"

definition getNoChangeError :: "jstring \<Rightarrow> nat \<Rightarrow> jstring" where
  "getNoChangeError path totalEdits =
     (if totalEdits = 1 then
        js ''No changes made to '' @ path @
        js ''. The replacement produced identical content. This might indicate an issue with special characters or the text not existing as expected.''
      else js ''No changes made to '' @ path @ js ''. The replacements produced identical content.'')"

definition overlap_error :: "jstring \<Rightarrow> nat \<Rightarrow> nat \<Rightarrow> jstring" where
  "overlap_error path i j =
     edit_name i @ js '' and '' @ edit_name j @ js '' overlap in '' @ path @
     js ''. Merge them into one edit or target disjoint regions.''"

section \<open>Applying edits\<close>

definition normalize_edit :: "Edit \<Rightarrow> Edit" where
  "normalize_edit e = \<lparr>ed_oldText = normalizeToLF (ed_oldText e), ed_newText = normalizeToLF (ed_newText e)\<rparr>"

text \<open>The loop that refuses empty texts; \<open>i\<close> is the index of the next edit and \<open>n\<close> the number of edits.\<close>

fun check_not_empty :: "jstring \<Rightarrow> nat \<Rightarrow> nat \<Rightarrow> Edit list \<Rightarrow> jstring + unit" where
  "check_not_empty path n i [] = Inr ()"
| "check_not_empty path n i (e # es) =
     (if ed_oldText e = [] then Inl (getEmptyOldTextError path i n) else check_not_empty path n (Suc i) es)"

text \<open>The loop that matches the edits.\<close>

fun match_edits ::
    "(jstring \<Rightarrow> jstring) \<Rightarrow> jstring \<Rightarrow> jstring \<Rightarrow> nat \<Rightarrow> nat \<Rightarrow> Edit list \<Rightarrow> jstring + MatchedEdit list" where
  "match_edits nfkc baseContent path n i [] = Inr []"
| "match_edits nfkc baseContent path n i (e # es) =
     (let matchResult = fuzzyFindText nfkc baseContent (ed_oldText e)
      in if \<not> fm_found matchResult then Inl (getNotFoundError path i n)
         else
           let occurrences = countOccurrences nfkc baseContent (ed_oldText e)
           in if 1 < occurrences then Inl (getDuplicateError path i n occurrences)
              else case match_edits nfkc baseContent path n (Suc i) es of
                     Inl err \<Rightarrow> Inl err
                   | Inr ms \<Rightarrow>
                       Inr (\<lparr>me_editIndex = i, me_matchIndex = fm_index matchResult,
                             me_matchLength = fm_matchLength matchResult, me_newText = ed_newText e\<rparr> # ms))"

text \<open>The loop over the sorted matches that refuses overlaps.\<close>

fun check_overlap :: "jstring \<Rightarrow> MatchedEdit list \<Rightarrow> jstring + unit" where
  "check_overlap path (previous # current # ms) =
     (if me_matchIndex current < me_matchIndex previous + me_matchLength previous
      then Inl (overlap_error path (me_editIndex previous) (me_editIndex current))
      else check_overlap path (current # ms))"
| "check_overlap path ms = Inr ()"

text \<open>The body of the loop that replaces, which goes from the last match to the first.\<close>

definition replace_match :: "MatchedEdit \<Rightarrow> jstring \<Rightarrow> jstring" where
  "replace_match m s =
     take (me_matchIndex m) s @ me_newText m @ drop (me_matchIndex m + me_matchLength m) s"

definition applyEditsToNormalizedContent ::
    "(jstring \<Rightarrow> jstring) \<Rightarrow> jstring \<Rightarrow> Edit list \<Rightarrow> jstring \<Rightarrow> jstring + AppliedEditsResult" where
  "applyEditsToNormalizedContent nfkc normalizedContent edits path =
     (let normalizedEdits = map normalize_edit edits; n = length normalizedEdits
      in case check_not_empty path n 0 normalizedEdits of
           Inl err \<Rightarrow> Inl err
         | Inr _ \<Rightarrow>
             (let initialMatches = map (\<lambda>e. fuzzyFindText nfkc normalizedContent (ed_oldText e)) normalizedEdits;
                  baseContent = (if \<exists>m \<in> set initialMatches. fm_usedFuzzyMatch m
                                 then normalizeForFuzzyMatch nfkc normalizedContent else normalizedContent)
              in case match_edits nfkc baseContent path n 0 normalizedEdits of
                   Inl err \<Rightarrow> Inl err
                 | Inr matched \<Rightarrow>
                     (let matchedEdits = sort_key me_matchIndex matched
                      in case check_overlap path matchedEdits of
                           Inl err \<Rightarrow> Inl err
                         | Inr _ \<Rightarrow>
                             (let newContent = foldr replace_match matchedEdits baseContent
                              in if baseContent = newContent then Inl (getNoChangeError path n)
                                 else Inr \<lparr>ae_baseContent = baseContent, ae_newContent = newContent\<rparr>))))"

section \<open>Folding to ASCII\<close>

definition ascii_char :: "jchar \<Rightarrow> jchar" where
  "ascii_char c = ascii_space (ascii_dash (ascii_double_quote (ascii_single_quote c)))"

lemmas ascii_defs = ascii_char_def ascii_space_def ascii_dash_def ascii_double_quote_def ascii_single_quote_def

lemma fold_to_ascii_eq: "fold_to_ascii s = join [newline] (map (\<lambda>l. map ascii_char (trim_end l)) (split_on newline s))"
proof -
  have a: "map ascii_space (map ascii_dash (map ascii_double_quote (map ascii_single_quote xs))) = map ascii_char xs" for xs
    by (induction xs) (simp_all add: ascii_char_def)
  have nl: "ascii_char newline = newline" by (simp add: ascii_defs)
  have "map ascii_char (join [newline] ls) = join [newline] (map (map ascii_char) ls)" for ls
    by (induction ls rule: induct_list012) (simp_all add: nl)
  then show ?thesis unfolding fold_to_ascii_def a by (simp add: comp_def)
qed

lemma ascii_char_cases: "ascii_char c = c \<or> ascii_char c \<in> {0x27, 0x22, 0x2D, 0x20}"
  by (simp add: ascii_defs)

lemma ascii_char_idem: "ascii_char (ascii_char c) = ascii_char c"
proof -
  have "ascii_char x = x" if "x \<in> {0x27, 0x22, 0x2D, 0x20}" for x
    using that by (elim insertE emptyE) (simp_all add: ascii_defs)
  then show ?thesis using ascii_char_cases [of c] by metis
qed

lemma ascii_char_newline: "ascii_char c = newline \<longleftrightarrow> c = newline"
  by (auto simp: ascii_defs split: if_splits)

lemma ascii_char_space: "is_js_space (ascii_char c) \<longleftrightarrow> is_js_space c"
  using order_trans [of "0x2000" "0x2002" c] by (auto simp: ascii_defs is_js_space_def)

lemma trim_end_map:
  "(\<And>c. is_js_space (g c) = is_js_space c) \<Longrightarrow> trim_end (map g l) = map g (trim_end l)"
  by (simp add: trim_end_def rev_map dropWhile_map comp_def)

lemma set_trim_end: "set (trim_end l) \<subseteq> set l"
  using prefix_trim_end by (rule set_mono_prefix)

lemma fold_to_ascii_idem: "fold_to_ascii (fold_to_ascii s) = fold_to_ascii s"
proof -
  let ?f = "\<lambda>l. map ascii_char (trim_end l)"
  have "split_on newline (join [newline] (map ?f (split_on newline s))) = map ?f (split_on newline s)"
  proof (rule split_on_join)
    show "\<forall>l \<in> set (map ?f (split_on newline s)). newline \<notin> set l"
    proof
      fix l assume "l \<in> set (map ?f (split_on newline s))"
      then obtain k where k: "k \<in> set (split_on newline s)" "l = ?f k" by auto
      have "newline \<notin> set k" using split_on_sep_free [OF k(1)] .
      then show "newline \<notin> set l" using set_trim_end [of k] ascii_char_newline by (auto simp: k(2))
    qed
  qed simp
  moreover have "?f (?f l) = ?f l" for l
    by (simp add: trim_end_map [OF ascii_char_space] ascii_char_idem comp_def)
  ultimately show ?thesis unfolding fold_to_ascii_eq by (simp add: comp_def)
qed

text \<open>
  What the code relies on of \<open>normalize("NFKC")\<close>: text in normal form stays in it when quotes,
  dashes and spaces become ASCII and white space at the ends of lines goes. None of these ASCII
  characters composes with a character after it.
\<close>

definition nfkc_stable :: "(jstring \<Rightarrow> jstring) \<Rightarrow> bool" where
  "nfkc_stable nfkc \<longleftrightarrow> (\<forall>s. nfkc (fold_to_ascii (nfkc s)) = fold_to_ascii (nfkc s))"

lemma normalizeForFuzzyMatch_idem:
  "nfkc_stable nfkc \<Longrightarrow>
   normalizeForFuzzyMatch nfkc (normalizeForFuzzyMatch nfkc s) = normalizeForFuzzyMatch nfkc s"
  by (simp add: nfkc_stable_def normalizeForFuzzyMatch_def fold_to_ascii_idem)

section \<open>Splitting at a string\<close>

lemma split_string_Cons:
  "sep \<noteq> [] \<Longrightarrow> index_of sep s = Some i \<Longrightarrow>
   split_string sep s = take i s # split_string sep (drop (i + length sep) s)"
  by (subst split_string.simps) simp

lemma split_string_single: "sep \<noteq> [] \<Longrightarrow> index_of sep s = None \<Longrightarrow> split_string sep s = [s]"
  by (subst split_string.simps) simp

lemma split_string_join: "sep \<noteq> [] \<Longrightarrow> join sep (split_string sep s) = s"
proof (induction sep s rule: split_string.induct)
  case (1 sep s)
  show ?case
  proof (cases "index_of sep s")
    case None
    then show ?thesis using 1 by (simp add: split_string_single)
  next
    case (Some i)
    have "split_string sep (drop (i + length sep) s) \<noteq> []"
      by (subst split_string.simps) (use 1 in \<open>simp split: option.split\<close>)
    then show ?thesis
      using 1 Some index_of_decomp [OF Some] by (simp add: split_string_Cons join_Cons)
  qed
qed

text \<open>A text that is counted at most once occurs, without overlap, at most once.\<close>

lemma split_string_two:
  assumes "sep \<noteq> []" "s = a @ sep @ b @ sep @ c"
  shows "2 < length (split_string sep s)"
proof -
  obtain i where i: "index_of sep s = Some i" "i \<le> length a"
    using index_of_exists [of sep "length a" s] assms(2) by auto
  let ?r = "drop (i + length sep) s"
  have "prefix sep (drop (length a - i + length b) ?r)"
    using i assms(2) by (simp add: drop_append)
  then obtain j where j: "index_of sep ?r = Some j" using index_of_exists by blast
  have "0 < length (split_string sep (drop (j + length sep) ?r))"
    by (subst split_string.simps) (use assms(1) in \<open>simp split: option.split\<close>)
  then show ?thesis using i j assms(1) by (simp add: split_string_Cons)
qed

section \<open>Replacing disjoint matches\<close>

abbreviation match_end :: "MatchedEdit \<Rightarrow> nat" where
  "match_end m \<equiv> me_matchIndex m + me_matchLength m"

fun disjoint_from :: "nat \<Rightarrow> MatchedEdit list \<Rightarrow> bool" where
  "disjoint_from p [] = True"
| "disjoint_from p (m # ms) = (p \<le> me_matchIndex m \<and> disjoint_from (match_end m) ms)"

lemma check_overlap_disjoint: "check_overlap path (m # ms) = Inr () \<longleftrightarrow> disjoint_from (match_end m) ms"
  by (induction ms arbitrary: m) auto

lemma check_overlap_disjoint_from: "check_overlap path ms = Inr () \<longleftrightarrow> disjoint_from 0 ms"
  by (cases ms) (simp_all add: check_overlap_disjoint)

text \<open>The matches from position \<open>p\<close> on as segments: the text kept before a match, the text that is
  replaced and the text that replaces it.\<close>

type_synonym segment = "jstring \<times> jstring \<times> jstring"

fun segments :: "jstring \<Rightarrow> nat \<Rightarrow> MatchedEdit list \<Rightarrow> segment list" where
  "segments base p [] = []"
| "segments base p (m # ms) =
     (take (me_matchIndex m - p) (drop p base),
      take (me_matchLength m) (drop (me_matchIndex m) base), me_newText m) # segments base (match_end m) ms"

definition rest_after :: "jstring \<Rightarrow> nat \<Rightarrow> MatchedEdit list \<Rightarrow> jstring" where
  "rest_after base p ms = drop (if ms = [] then p else match_end (last ms)) base"

definition before_edit :: "segment list \<Rightarrow> jstring" where
  "before_edit segs = concat (map (\<lambda>(kept, old, new). kept @ old) segs)"

definition after_edit :: "segment list \<Rightarrow> jstring" where
  "after_edit segs = concat (map (\<lambda>(kept, old, new). kept @ new) segs)"

lemma edit_segments_simps [simp]:
  "before_edit [] = []" "before_edit ((kept, old, new) # segs) = kept @ old @ before_edit segs"
  "after_edit [] = []" "after_edit ((kept, old, new) # segs) = kept @ new @ after_edit segs"
  by (simp_all add: before_edit_def after_edit_def)

lemma rest_after_simps [simp]:
  "rest_after base p [] = drop p base" "rest_after base p (m # ms) = rest_after base (match_end m) ms"
  by (simp_all add: rest_after_def)

lemma segments_before:
  "disjoint_from p ms \<Longrightarrow> \<forall>m \<in> set ms. match_end m \<le> length base \<Longrightarrow>
   before_edit (segments base p ms) @ rest_after base p ms = drop p base"
proof (induction ms arbitrary: p)
  case (Cons m ms)
  then have "before_edit (segments base (match_end m) ms) @ rest_after base (match_end m) ms = drop (match_end m) base"
    by simp
  moreover have "take (me_matchLength m) (drop (me_matchIndex m) base) @ drop (match_end m) base = drop (me_matchIndex m) base"
    by (metis add.commute append_take_drop_id drop_drop)
  moreover have "take (me_matchIndex m - p) (drop p base) @ drop (me_matchIndex m) base = drop p base"
    using Cons.prems by (metis append_take_drop_id disjoint_from.simps(2) drop_drop le_add_diff_inverse2)
  ultimately show ?case by simp
qed simp

lemma replace_segments:
  "disjoint_from p ms \<Longrightarrow> \<forall>m \<in> set ms. match_end m \<le> length base \<Longrightarrow>
   foldr replace_match ms base = take p base @ after_edit (segments base p ms) @ rest_after base p ms"
proof (induction ms arbitrary: p)
  case (Cons m ms)
  let ?t = "after_edit (segments base (match_end m) ms) @ rest_after base (match_end m) ms"
  have "foldr replace_match ms base = take (match_end m) base @ ?t"
    using Cons.prems by (simp add: Cons.IH [of "match_end m"])
  then have "foldr replace_match (m # ms) base = replace_match m (take (match_end m) base @ ?t)" by simp
  moreover have "take (me_matchIndex m) base = take p base @ take (me_matchIndex m - p) (drop p base)"
    using Cons.prems by (metis disjoint_from.simps(2) le_add_diff_inverse take_add)
  moreover have "length (take (match_end m) base) = match_end m" using Cons.prems by simp
  then have "replace_match m (take (match_end m) base @ ?t) = take (me_matchIndex m) base @ me_newText m @ ?t"
    by (simp add: replace_match_def min_absorb1)
  ultimately show ?case by simp
qed simp

section \<open>Matching\<close>

text \<open>The text of the base that an edit replaces: its own, or its normal form if that is not there.\<close>

definition found_text :: "(jstring \<Rightarrow> jstring) \<Rightarrow> jstring \<Rightarrow> Edit \<Rightarrow> jstring" where
  "found_text nfkc base e =
     (if index_of (ed_oldText e) base \<noteq> None then ed_oldText e else normalizeForFuzzyMatch nfkc (ed_oldText e))"

definition match_ok :: "(jstring \<Rightarrow> jstring) \<Rightarrow> jstring \<Rightarrow> Edit \<Rightarrow> MatchedEdit \<Rightarrow> bool" where
  "match_ok nfkc base e m \<longleftrightarrow>
     match_end m \<le> length base \<and>
     take (length (found_text nfkc base e)) (drop (me_matchIndex m) base) = found_text nfkc base e \<and>
     me_newText m = ed_newText e \<and> me_matchLength m = length (found_text nfkc base e) \<and>
     countOccurrences nfkc base (ed_oldText e) \<le> 1"

lemma index_of_take: "index_of pat s = Some i \<Longrightarrow> i + length pat \<le> length s \<and> take (length pat) (drop i s) = pat"
  by (metis append_eq_conv_conj index_of_Some_le index_of_Some_prefix prefix_def)

lemma fuzzyFindText_found:
  assumes "fm_found (fuzzyFindText nfkc base old)"
    and "fm_usedFuzzyMatch (fuzzyFindText nfkc base old) \<Longrightarrow> normalizeForFuzzyMatch nfkc base = base"
    and "old = ed_oldText e"
  shows "fm_index (fuzzyFindText nfkc base old) + fm_matchLength (fuzzyFindText nfkc base old) \<le> length base \<and>
    take (length (found_text nfkc base e)) (drop (fm_index (fuzzyFindText nfkc base old)) base) =
      found_text nfkc base e \<and> fm_matchLength (fuzzyFindText nfkc base old) = length (found_text nfkc base e)"
proof (cases "index_of old base")
  case None
  then obtain i where "index_of (normalizeForFuzzyMatch nfkc old) (normalizeForFuzzyMatch nfkc base) = Some i"
    using assms(1) by (auto simp: fuzzyFindText_def Let_def split: option.splits)
  then show ?thesis
    using None assms(2,3) index_of_take by (simp add: fuzzyFindText_def found_text_def Let_def)
next
  case (Some i)
  then show ?thesis using assms(3) index_of_take [OF Some] by (simp add: fuzzyFindText_def found_text_def)
qed

lemma match_edits_ok:
  assumes "match_edits nfkc base path n i es = Inr ms"
    and "\<forall>e \<in> set es. fm_usedFuzzyMatch (fuzzyFindText nfkc base (ed_oldText e)) \<longrightarrow> normalizeForFuzzyMatch nfkc base = base"
  shows "list_all2 (match_ok nfkc base) es ms"
  using assms
proof (induction es arbitrary: i ms)
  case (Cons e es)
  then obtain ms' where ms': "match_edits nfkc base path n (Suc i) es = Inr ms'" and
      found: "fm_found (fuzzyFindText nfkc base (ed_oldText e))" and
      once: "countOccurrences nfkc base (ed_oldText e) \<le> 1" and
      ms: "ms = \<lparr>me_editIndex = i, me_matchIndex = fm_index (fuzzyFindText nfkc base (ed_oldText e)),
          me_matchLength = fm_matchLength (fuzzyFindText nfkc base (ed_oldText e)), me_newText = ed_newText e\<rparr> # ms'"
    by (auto simp: Let_def not_less split: if_splits sum.splits)
  then show ?case
    using Cons fuzzyFindText_found [OF found _ refl] by (simp add: match_ok_def)
qed simp

text \<open>The segments of matched edits replace what was found by the new text.\<close>

lemma segments_pairs:
  "map snd (segments base p ms) = map (\<lambda>m. (take (me_matchLength m) (drop (me_matchIndex m) base), me_newText m)) ms"
  by (induction ms arbitrary: p) simp_all

lemma matched_pairs:
  "list_all2 (match_ok nfkc base) es ms \<Longrightarrow>
   map (\<lambda>m. (take (me_matchLength m) (drop (me_matchIndex m) base), me_newText m)) ms =
   map (\<lambda>e. (found_text nfkc base e, ed_newText e)) es"
  by (induction rule: list_all2_induct) (simp_all add: match_ok_def)

definition base_of :: "(jstring \<Rightarrow> jstring) \<Rightarrow> jstring \<Rightarrow> Edit list \<Rightarrow> jstring" where
  "base_of nfkc content es =
     (if \<exists>e \<in> set es. fm_usedFuzzyMatch (fuzzyFindText nfkc content (ed_oldText e))
      then normalizeForFuzzyMatch nfkc content else content)"

lemma applyEdits_Inr:
  "applyEditsToNormalizedContent nfkc content edits path = Inr r \<longleftrightarrow>
   (\<exists>ms. check_not_empty path (length edits) 0 (map normalize_edit edits) = Inr () \<and>
      match_edits nfkc (base_of nfkc content (map normalize_edit edits)) path (length edits) 0 (map normalize_edit edits) = Inr ms \<and>
      disjoint_from 0 (sort_key me_matchIndex ms) \<and>
      ae_baseContent r = base_of nfkc content (map normalize_edit edits) \<and>
      ae_newContent r = foldr replace_match (sort_key me_matchIndex ms) (ae_baseContent r) \<and>
      ae_newContent r \<noteq> ae_baseContent r)"
proof -
  let ?es = "map normalize_edit edits"
  have base: "(\<exists>m \<in> set (map (\<lambda>e. fuzzyFindText nfkc content (ed_oldText e)) ?es). fm_usedFuzzyMatch m) \<longleftrightarrow>
      (\<exists>e \<in> set ?es. fm_usedFuzzyMatch (fuzzyFindText nfkc content (ed_oldText e)))" by auto
  have r: "Inr \<lparr>ae_baseContent = b, ae_newContent = c\<rparr> = Inr r \<longleftrightarrow> ae_baseContent r = b \<and> ae_newContent r = c" for b c
    by (cases r) auto
  show ?thesis
  proof (cases "match_edits nfkc (base_of nfkc content ?es) path (length edits) 0 ?es")
    case (Inl err)
    then show ?thesis
      unfolding applyEditsToNormalizedContent_def Let_def base base_of_def [symmetric] by (simp split: sum.split)
  next
    case (Inr ms)
    then show ?thesis
      unfolding applyEditsToNormalizedContent_def Let_def base base_of_def [symmetric] check_overlap_disjoint_from [of path, symmetric]
      by (cases "check_not_empty path (length edits) 0 ?es"; cases "check_overlap path (sort_key me_matchIndex ms)")
        (auto simp: r)
  qed
qed

lemma base_of_fuzzy:
  assumes "nfkc_stable nfkc" "e \<in> set es"
  shows "fm_usedFuzzyMatch (fuzzyFindText nfkc (base_of nfkc content es) (ed_oldText e)) \<longrightarrow>
    normalizeForFuzzyMatch nfkc (base_of nfkc content es) = base_of nfkc content es"
  using assms by (auto simp: base_of_def normalizeForFuzzyMatch_idem)

lemma applyEdits_segments:
  assumes ok: "applyEditsToNormalizedContent nfkc content edits path = Inr r" and nfkc: "nfkc_stable nfkc"
  shows "\<exists>segs rest. ae_baseContent r = before_edit segs @ rest \<and> ae_newContent r = after_edit segs @ rest \<and>
    mset (map snd segs) =
      mset (map (\<lambda>e. (found_text nfkc (ae_baseContent r) (normalize_edit e), normalizeToLF (ed_newText e))) edits)"
proof -
  let ?es = "map normalize_edit edits"
  obtain ms where m: "match_edits nfkc (ae_baseContent r) path (length edits) 0 ?es = Inr ms"
      and d: "disjoint_from 0 (sort_key me_matchIndex ms)"
      and base: "ae_baseContent r = base_of nfkc content ?es"
      and new: "ae_newContent r = foldr replace_match (sort_key me_matchIndex ms) (ae_baseContent r)"
    using ok by (auto simp: applyEdits_Inr)
  let ?ms = "sort_key me_matchIndex ms" and ?b = "ae_baseContent r"
  have all: "list_all2 (match_ok nfkc ?b) ?es ms"
    using m base_of_fuzzy [OF nfkc] unfolding base by (intro match_edits_ok) auto
  then have bounds: "\<forall>m \<in> set ?ms. match_end m \<le> length ?b"
    by (auto simp: list_all2_conv_all_nth match_ok_def in_set_conv_nth)
  have pairs: "mset (map snd (segments ?b 0 ?ms)) = mset (map (\<lambda>e. (found_text nfkc ?b e, ed_newText e)) ?es)"
    unfolding matched_pairs [OF all, symmetric]
    by (simp add: segments_pairs)
  show ?thesis
  proof (intro exI conjI)
    show "?b = before_edit (segments ?b 0 ?ms) @ rest_after ?b 0 ?ms"
      using segments_before [OF d bounds] by simp
    show "ae_newContent r = after_edit (segments ?b 0 ?ms) @ rest_after ?b 0 ?ms"
      using replace_segments [OF d bounds] by (simp add: new)
    show "mset (map snd (segments ?b 0 ?ms)) =
        mset (map (\<lambda>e. (found_text nfkc ?b (normalize_edit e), normalizeToLF (ed_newText e))) edits)"
      using pairs by (simp add: comp_def normalize_edit_def)
  qed
qed

section \<open>The order of the edits\<close>

definition unindexed :: "MatchedEdit \<Rightarrow> MatchedEdit" where
  "unindexed m = m\<lparr>me_editIndex := 0\<rparr>"

definition match_of :: "(jstring \<Rightarrow> jstring) \<Rightarrow> jstring \<Rightarrow> Edit \<Rightarrow> MatchedEdit" where
  "match_of nfkc base e =
     (let r = fuzzyFindText nfkc base (ed_oldText e)
      in \<lparr>me_editIndex = 0, me_matchIndex = fm_index r, me_matchLength = fm_matchLength r, me_newText = ed_newText e\<rparr>)"

lemma unindexed_simps [simp]:
  "me_matchIndex (unindexed m) = me_matchIndex m" "me_matchLength (unindexed m) = me_matchLength m"
  "me_newText (unindexed m) = me_newText m"
  by (simp_all add: unindexed_def)

lemma disjoint_from_unindexed: "disjoint_from p (map unindexed ms) = disjoint_from p ms"
  by (induction ms arbitrary: p) simp_all

lemma replace_unindexed: "foldr replace_match (map unindexed ms) base = foldr replace_match ms base"
  by (induction ms) (simp_all add: replace_match_def)

lemma check_not_empty_iff: "check_not_empty path n i es = Inr () \<longleftrightarrow> (\<forall>e \<in> set es. ed_oldText e \<noteq> [])"
  by (induction es arbitrary: i) auto

definition matchable :: "(jstring \<Rightarrow> jstring) \<Rightarrow> jstring \<Rightarrow> Edit \<Rightarrow> bool" where
  "matchable nfkc base e \<longleftrightarrow>
     fm_found (fuzzyFindText nfkc base (ed_oldText e)) \<and> countOccurrences nfkc base (ed_oldText e) \<le> 1"

lemma match_edits_matchable:
  "(\<exists>ms. match_edits nfkc base path n i es = Inr ms) \<longleftrightarrow> (\<forall>e \<in> set es. matchable nfkc base e)"
proof (induction es arbitrary: i)
  case (Cons e es)
  show ?case
    using Cons.IH [of "Suc i"]
    by (cases "match_edits nfkc base path n (Suc i) es") (simp_all add: matchable_def Let_def not_less)
qed simp

lemma match_edits_matches:
  "match_edits nfkc base path n i es = Inr ms \<Longrightarrow> map unindexed ms = map (match_of nfkc base) es"
  by (induction es arbitrary: i ms)
    (auto simp: match_of_def unindexed_def Let_def split: sum.splits if_splits)

lemma disjoint_from_sorted:
  "disjoint_from p ms \<Longrightarrow> \<forall>m \<in> set ms. 0 < me_matchLength m \<Longrightarrow>
   sorted (map me_matchIndex ms) \<and> distinct (map me_matchIndex ms) \<and> (\<forall>m \<in> set ms. p \<le> me_matchIndex m)"
  by (induction ms arbitrary: p) fastforce+

lemma fuzzyFindText_length:
  assumes "fm_found (fuzzyFindText nfkc base old)" "old \<noteq> []" "normalizeForFuzzyMatch nfkc old \<noteq> []"
  shows "0 < fm_matchLength (fuzzyFindText nfkc base old)"
  using assms by (auto simp: fuzzyFindText_def Let_def split: option.splits)

lemma applyEdits_permute:
  assumes ok: "applyEditsToNormalizedContent nfkc content edits path = Inr r"
    and perm: "mset edits' = mset edits"
    and ink: "\<forall>e \<in> set edits. normalizeForFuzzyMatch nfkc (normalizeToLF (ed_oldText e)) \<noteq> []"
  shows "applyEditsToNormalizedContent nfkc content edits' path = Inr r"
proof -
  let ?es = "map normalize_edit edits" and ?es' = "map normalize_edit edits'"
  have sets: "set ?es' = set ?es" using mset_eq_setD [OF perm] by simp
  have bases: "base_of nfkc content ?es' = base_of nfkc content ?es" unfolding base_of_def sets ..
  have len: "length edits' = length edits" using mset_eq_length [OF perm] .
  let ?b = "base_of nfkc content ?es"
  obtain ms where c: "check_not_empty path (length edits) 0 ?es = Inr ()"
      and m: "match_edits nfkc ?b path (length edits) 0 ?es = Inr ms"
      and d: "disjoint_from 0 (sort_key me_matchIndex ms)" and base: "ae_baseContent r = ?b"
      and new: "ae_newContent r = foldr replace_match (sort_key me_matchIndex ms) ?b" "ae_newContent r \<noteq> ?b"
    using ok by (auto simp: applyEdits_Inr)
  have able: "\<forall>e \<in> set ?es. matchable nfkc ?b e" using m match_edits_matchable by blast
  then obtain ms' where m': "match_edits nfkc ?b path (length edits) 0 ?es' = Inr ms'"
    using match_edits_matchable [of nfkc ?b path "length edits" 0 ?es'] sets by blast
  let ?L = "map unindexed (sort_key me_matchIndex ms)" and ?L' = "map unindexed (sort_key me_matchIndex ms')"
  have sorted: "mset (map unindexed (sort_key me_matchIndex xs)) = mset (map unindexed xs)" for xs
    by (simp only: mset_map mset_sort)
  have msets: "mset ?L' = mset ?L"
    unfolding sorted match_edits_matches [OF m] match_edits_matches [OF m'] using perm by simp
  have pos: "\<forall>m \<in> set (sort_key me_matchIndex ms). 0 < me_matchLength m"
  proof
    fix x assume "x \<in> set (sort_key me_matchIndex ms)"
    then have "unindexed x \<in> set (map unindexed ms)" by simp
    then have "unindexed x \<in> match_of nfkc ?b ` set ?es" unfolding match_edits_matches [OF m] by (simp only: set_map)
    then obtain e where e: "e \<in> set ?es" "unindexed x = match_of nfkc ?b e" by blast
    have "0 < fm_matchLength (fuzzyFindText nfkc ?b (ed_oldText e))"
      using e(1) able c ink by (intro fuzzyFindText_length) (auto simp: matchable_def check_not_empty_iff normalize_edit_def)
    then have "0 < me_matchLength (unindexed x)" unfolding e(2) by (simp add: match_of_def Let_def)
    then show "0 < me_matchLength x" by simp
  qed
  have keys: "map me_matchIndex ?L = map me_matchIndex (sort_key me_matchIndex ms)"
    "map me_matchIndex ?L' = map me_matchIndex (sort_key me_matchIndex ms')" by simp_all
  have "distinct (map me_matchIndex ?L)" using disjoint_from_sorted [OF d pos] unfolding keys by blast
  moreover have "distinct (map me_matchIndex ?L')"
    using calculation msets by (metis mset_eq_imp_distinct_iff mset_map)
  moreover have "inj_on me_matchIndex (set ?L)" using calculation(1) by (simp only: distinct_map)
  ultimately have "?L' = ?L"
    using mset_eq_setD [OF msets] by (intro map_sorted_distinct_set_unique [of me_matchIndex]) (simp_all only: keys sorted_sort_key Un_absorb)
  then have "disjoint_from 0 (sort_key me_matchIndex ms')"
    "foldr replace_match (sort_key me_matchIndex ms') ?b = foldr replace_match (sort_key me_matchIndex ms) ?b"
    using d by (metis disjoint_from_unindexed, metis replace_unindexed)
  moreover have "check_not_empty path (length edits) 0 ?es' = Inr ()" using c sets by (simp add: check_not_empty_iff)
  ultimately show ?thesis using m' base new by (auto simp: applyEdits_Inr len bases)
qed

section \<open>Which edits are applied\<close>

text \<open>\<open>pat\<close> occurs at exactly one position of \<open>s\<close>.\<close>

definition occurs_once :: "jstring \<Rightarrow> jstring \<Rightarrow> bool" where
  "occurs_once pat s \<longleftrightarrow> (\<exists>!i. i + length pat \<le> length s \<and> prefix pat (drop i s))"

lemma index_of_once:
  assumes "occurs_once pat s" "i + length pat \<le> length s" "prefix pat (drop i s)"
  shows "index_of pat s = Some i"
proof -
  obtain j where j: "index_of pat s = Some j" using index_of_exists [OF assms(3)] by blast
  then have "j = i"
    using assms index_of_Some_le [OF j] index_of_Some_prefix [OF j] unfolding occurs_once_def by blast
  with j show ?thesis by simp
qed

text \<open>The edits a list of segments asks for, and their matches.\<close>

definition edit_of :: "segment \<Rightarrow> Edit" where
  "edit_of seg = (case seg of (kept, old, new) \<Rightarrow> \<lparr>ed_oldText = old, ed_newText = new\<rparr>)"

lemma edit_of_simps [simp]:
  "ed_oldText (edit_of (kept, old, new)) = old" "ed_newText (edit_of (kept, old, new)) = new"
  by (simp_all add: edit_of_def)

fun matches_of :: "nat \<Rightarrow> nat \<Rightarrow> segment list \<Rightarrow> MatchedEdit list" where
  "matches_of i p [] = []"
| "matches_of i p ((kept, old, new) # segs) =
     \<lparr>me_editIndex = i, me_matchIndex = p + length kept, me_matchLength = length old, me_newText = new\<rparr> #
     matches_of (Suc i) (p + length kept + length old) segs"

lemma match_edits_segments:
  assumes "base = pre @ before_edit segs @ rest" "p = length pre"
    and "\<forall>(kept, old, new) \<in> set segs. occurs_once old base \<and> countOccurrences nfkc base old \<le> 1"
  shows "match_edits nfkc base path n i (map edit_of segs) = Inr (matches_of i p segs)"
  using assms
proof (induction segs arbitrary: i p pre)
  case (Cons seg segs)
  obtain kept old new where seg: "seg = (kept, old, new)" by (cases seg)
  have "index_of old base = Some (p + length kept)"
    by (rule index_of_once) (use Cons.prems seg in auto)
  moreover have "match_edits nfkc base path n (Suc i) (map edit_of segs) = Inr (matches_of (Suc i) (p + length kept + length old) segs)"
    by (rule Cons.IH [of "pre @ kept @ old"]) (use Cons.prems seg in auto)
  ultimately show ?case
    using Cons.prems(3) by (auto simp: seg fuzzyFindText_def Let_def)
qed simp

lemma matches_of_disjoint: "q \<le> p \<Longrightarrow> disjoint_from q (matches_of i p segs)"
  by (induction i p segs arbitrary: q rule: matches_of.induct) auto

lemma matches_of_sorted: "sorted (map me_matchIndex (matches_of i p segs)) \<and> (\<forall>m \<in> set (matches_of i p segs). p \<le> me_matchIndex m)"
  by (induction i p segs rule: matches_of.induct) fastforce+

lemma matches_of_bound:
  "p + length (before_edit segs) \<le> n \<Longrightarrow> \<forall>m \<in> set (matches_of i p segs). match_end m \<le> n"
  by (induction i p segs rule: matches_of.induct) auto

lemma segments_matches_of:
  "base = pre @ before_edit segs @ rest \<Longrightarrow> p = length pre \<Longrightarrow>
   segments base p (matches_of i p segs) = segs \<and> rest_after base p (matches_of i p segs) = rest"
proof (induction i p segs arbitrary: pre rule: matches_of.induct)
  case (2 i p kept old new segs)
  have "segments base (p + length kept + length old) (matches_of (Suc i) (p + length kept + length old) segs) = segs \<and>
      rest_after base (p + length kept + length old) (matches_of (Suc i) (p + length kept + length old) segs) = rest"
    by (rule "2.IH" [of "pre @ kept @ old"]) (use "2.prems" in auto)
  then show ?case using "2.prems" by simp
qed simp

text \<open>Edits of texts that each occur once, at disjoint places, are all applied.\<close>

lemma applyEdits_in_order:
  assumes content: "content = before_edit segs @ rest"
    and segs: "\<forall>(kept, old, new) \<in> set segs. old \<noteq> [] \<and> normalizeToLF old = old \<and> normalizeToLF new = new \<and>
      occurs_once old content \<and> countOccurrences nfkc content old \<le> 1"
    and change: "after_edit segs @ rest \<noteq> content"
  shows "applyEditsToNormalizedContent nfkc content (map edit_of segs) path =
    Inr \<lparr>ae_baseContent = content, ae_newContent = after_edit segs @ rest\<rparr>"
proof -
  let ?es = "map edit_of segs" and ?ms = "matches_of 0 0 segs"
  have es: "map normalize_edit ?es = ?es"
    using segs by (auto simp: edit_of_def normalize_edit_def split: prod.split)
  have m: "match_edits nfkc content path (length segs) 0 ?es = Inr ?ms"
    by (rule match_edits_segments [of _ "[]" _ rest]) (use content segs in auto)
  have exact: "\<not> fm_usedFuzzyMatch (fuzzyFindText nfkc content (ed_oldText e))" if mem: "e \<in> set ?es" for e
  proof -
    obtain seg where seg: "seg \<in> set segs" "e = edit_of seg" using mem unfolding set_map by blast
    obtain kept old new where "seg = (kept, old, new)" by (cases seg)
    with seg have s: "(kept, old, new) \<in> set segs" "e = edit_of (kept, old, new)" by simp_all
    then have "occurs_once old content" using segs by auto
    then obtain i where "i + length old \<le> length content" "prefix old (drop i content)" unfolding occurs_once_def by blast
    then have "index_of old content \<noteq> None" using index_of_exists [of old i content] by auto
    then show ?thesis using s by (auto simp: edit_of_def fuzzyFindText_def)
  qed
  then have base: "base_of nfkc content ?es = content" unfolding base_of_def by (meson exact)
  have sort: "sort_key me_matchIndex ?ms = ?ms" using matches_of_sorted by (intro sort_key_id_if_sorted) blast
  have d: "disjoint_from 0 ?ms" by (rule matches_of_disjoint) simp
  have bounds: "\<forall>m \<in> set ?ms. match_end m \<le> length content" by (rule matches_of_bound) (simp add: content)
  have "foldr replace_match ?ms content = after_edit segs @ rest"
    using replace_segments [OF d bounds] segments_matches_of [of content "[]" segs rest 0 0] content by simp
  moreover have "check_not_empty path (length segs) 0 ?es = Inr ()"
    using segs by (auto simp: check_not_empty_iff edit_of_def)
  ultimately show ?thesis
    unfolding applyEdits_Inr es length_map base using m sort d change by (intro exI [of _ ?ms]) simp
qed

lemma normalizeToLF_no_carriage: "carriage \<notin> set (normalizeToLF s)"
  unfolding normalizeToLF_def by (induction s rule: normalize_newlines.induct) auto

lemma normalizeToLF_id: "carriage \<notin> set s \<Longrightarrow> normalizeToLF s = s"
  unfolding normalizeToLF_def by (induction s rule: normalize_newlines.induct) auto

lemma normalizeToLF_idem: "normalizeToLF (normalizeToLF s) = normalizeToLF s"
  by (rule normalizeToLF_id [OF normalizeToLF_no_carriage])

lemma applyEdits_normalize:
  "applyEditsToNormalizedContent nfkc content (map normalize_edit edits) path =
   applyEditsToNormalizedContent nfkc content edits path"
proof -
  have "map normalize_edit (map normalize_edit edits) = map normalize_edit edits"
    by (simp add: normalize_edit_def normalizeToLF_idem comp_def)
  then show ?thesis by (simp only: applyEditsToNormalizedContent_def length_map)
qed

text \<open>What an edit call promises happens. When the content consists of kept and old texts, each old
  text occurs at one place only and is not repeated in normal form, then the edits that replace the
  old texts by the new ones, given in any order and with any line endings, are all applied at once.\<close>

lemma edits_are_applied:
  assumes "content = before_edit segs @ rest"
    and "\<forall>(kept, old, new) \<in> set segs. normalizeForFuzzyMatch nfkc old \<noteq> [] \<and> old \<noteq> [] \<and>
      occurs_once old content \<and> countOccurrences nfkc content old \<le> 1"
    and "mset (map normalize_edit edits) = mset (map edit_of segs)"
    and "after_edit segs @ rest \<noteq> content"
  shows "applyEditsToNormalizedContent nfkc content edits path =
    Inr \<lparr>ae_baseContent = content, ae_newContent = after_edit segs @ rest\<rparr>"
proof -
  have lf: "normalizeToLF old = old \<and> normalizeToLF new = new" if "(kept, old, new) \<in> set segs" for kept old new
  proof -
    have "edit_of (kept, old, new) \<in> set (map normalize_edit edits)"
      using that mset_eq_setD [OF assms(3)] by (metis imageI set_map)
    then obtain e where "edit_of (kept, old, new) = normalize_edit e" by auto
    then have "old = normalizeToLF (ed_oldText e)" "new = normalizeToLF (ed_newText e)"
      by (simp_all add: edit_of_def normalize_edit_def)
    then show ?thesis by (simp add: normalizeToLF_idem)
  qed
  have ordered: "applyEditsToNormalizedContent nfkc content (map edit_of segs) path =
      Inr \<lparr>ae_baseContent = content, ae_newContent = after_edit segs @ rest\<rparr>"
    by (rule applyEdits_in_order) (use assms lf in auto)
  have "normalizeForFuzzyMatch nfkc (normalizeToLF (ed_oldText e)) \<noteq> []" if mem: "e \<in> set (map edit_of segs)" for e
  proof -
    obtain seg where seg: "seg \<in> set segs" "e = edit_of seg" using mem unfolding set_map by blast
    obtain kept old new where "seg = (kept, old, new)" by (cases seg)
    with seg show ?thesis using assms(2) lf by auto
  qed
  then have "applyEditsToNormalizedContent nfkc content (map normalize_edit edits) path =
      Inr \<lparr>ae_baseContent = content, ae_newContent = after_edit segs @ rest\<rparr>"
    using applyEdits_permute [OF ordered assms(3)] by blast
  then show ?thesis by (simp only: applyEdits_normalize)
qed

text \<open>Claim C31: an edit call does nothing else. When edits are applied, the result is the base
  content with exactly one place replaced for every edit and everything else kept; the base is the
  content itself, or its normal form when some text was not in the content; each replaced text is
  the old text of its edit, or the normal form of it when that does not occur; the result differs from
  the base. Uniqueness is checked on normal forms only: the normal form of the old text, unless it is
  empty, does not occur at two separate places in the normal form of the base.\<close>

theorem applied_edits_replace:
  assumes "applyEditsToNormalizedContent nfkc content edits path = Inr r" "nfkc_stable nfkc"
  shows "(\<exists>segs rest. ae_baseContent r = before_edit segs @ rest \<and> ae_newContent r = after_edit segs @ rest \<and>
      mset (map snd segs) =
        mset (map (\<lambda>e. (found_text nfkc (ae_baseContent r) (normalize_edit e), normalizeToLF (ed_newText e))) edits)) \<and>
    (ae_baseContent r = content \<or>
     ae_baseContent r = normalizeForFuzzyMatch nfkc content \<and>
     (\<exists>e \<in> set edits. index_of (normalizeToLF (ed_oldText e)) content = None)) \<and>
    (\<forall>e \<in> set edits. \<forall>a b c. let t = normalizeForFuzzyMatch nfkc (normalizeToLF (ed_oldText e))
       in t = [] \<or> normalizeForFuzzyMatch nfkc (ae_baseContent r) \<noteq> a @ t @ b @ t @ c) \<and>
    ae_newContent r \<noteq> ae_baseContent r"
proof (intro conjI ballI allI)
  let ?es = "map normalize_edit edits"
  obtain ms where m: "match_edits nfkc (ae_baseContent r) path (length edits) 0 ?es = Inr ms"
      and base: "ae_baseContent r = base_of nfkc content ?es" and "ae_newContent r \<noteq> ae_baseContent r"
    using assms(1) by (auto simp: applyEdits_Inr)
  then show "ae_newContent r \<noteq> ae_baseContent r" by simp
  show "\<exists>segs rest. ae_baseContent r = before_edit segs @ rest \<and> ae_newContent r = after_edit segs @ rest \<and>
      mset (map snd segs) =
        mset (map (\<lambda>e. (found_text nfkc (ae_baseContent r) (normalize_edit e), normalizeToLF (ed_newText e))) edits)"
    by (rule applyEdits_segments [OF assms])
  show "ae_baseContent r = content \<or> ae_baseContent r = normalizeForFuzzyMatch nfkc content \<and>
     (\<exists>e \<in> set edits. index_of (normalizeToLF (ed_oldText e)) content = None)"
    unfolding base base_of_def
    by (auto simp: fuzzyFindText_def normalize_edit_def split: option.splits if_splits)
  fix e a b c assume e: "e \<in> set edits"
  let ?t = "normalizeForFuzzyMatch nfkc (normalizeToLF (ed_oldText e))"
  have "matchable nfkc (ae_baseContent r) (normalize_edit e)"
    using m e match_edits_matchable [of nfkc "ae_baseContent r" path "length edits" 0 ?es] by auto
  then have "\<not> 2 < length (split_string ?t (normalizeForFuzzyMatch nfkc (ae_baseContent r)))"
    by (simp add: matchable_def countOccurrences_def normalize_edit_def)
  then show "let t = ?t in t = [] \<or> normalizeForFuzzyMatch nfkc (ae_baseContent r) \<noteq> a @ t @ b @ t @ c"
    unfolding Let_def using split_string_two by blast
qed

section \<open>Examples\<close>

text \<open>
  The count of normal forms is not that of the texts: a blank has an empty normal form, so one of two
  blanks is replaced; and a text in straight quotes that occurs once is refused when the same text is
  there in curly quotes.
\<close>

lemma repeated_blank_is_replaced:
  "applyEditsToNormalizedContent (\<lambda>s. s) [0x20, 0x20] [\<lparr>ed_oldText = [0x20], ed_newText = [0x78]\<rparr>] (js ''f'') =
     Inr \<lparr>ae_baseContent = [0x20, 0x20], ae_newContent = [0x78, 0x20]\<rparr>"
  by code_simp

lemma unique_text_is_refused:
  "applyEditsToNormalizedContent (\<lambda>s. s) [0x27, 0x78, 0x27, 0x20, 0x2018, 0x78, 0x2019]
     [\<lparr>ed_oldText = [0x27, 0x78, 0x27], ed_newText = [0x79]\<rparr>] (js ''f'') = Inl (getDuplicateError (js ''f'') 0 1 2)"
  by code_simp

text \<open>The file \<open>abc\<close>; one edit replaces \<open>a\<close> by \<open>x\<close>, another one deletes \<open>c\<close>.\<close>

definition demo_segments :: "segment list" where
  "demo_segments = [([], [0x61], [0x78]), ([0x62], [0x63], [])]"

definition demo_edits :: "Edit list" where
  "demo_edits = [\<lparr>ed_oldText = [0x63], ed_newText = []\<rparr>, \<lparr>ed_oldText = [0x61], ed_newText = [0x78]\<rparr>]"

lemma fold_plain:
  "s \<noteq> [] \<Longrightarrow> newline \<notin> set s \<Longrightarrow> \<not> is_js_space (last s) \<Longrightarrow> fold_to_ascii s = map ascii_char s"
  by (simp add: fold_to_ascii_eq split_on_free trim_end_id)

lemma demo_folded:
  "normalizeForFuzzyMatch (\<lambda>s. s) [0x61, 0x62, 0x63] = [0x61, 0x62, 0x63]"
  "normalizeForFuzzyMatch (\<lambda>s. s) [0x61] = [0x61]" "normalizeForFuzzyMatch (\<lambda>s. s) [0x63] = [0x63]"
  by (simp_all add: normalizeForFuzzyMatch_def fold_plain is_js_space_def ascii_defs)

lemma demo_once_a: "occurs_once [0x61] [0x61, 0x62, 0x63]"
  unfolding occurs_once_def by (rule ex1I [of _ 0]) (auto simp: numeral_eq_Suc le_Suc_eq)

lemma demo_once_c: "occurs_once [0x63] [0x61, 0x62, 0x63]"
  unfolding occurs_once_def by (rule ex1I [of _ 2]) (auto simp: numeral_eq_Suc le_Suc_eq)

lemmas demo_once = demo_once_a demo_once_c

lemma demo_counts:
  "countOccurrences (\<lambda>s. s) [0x61, 0x62, 0x63] [0x61] = 1" "countOccurrences (\<lambda>s. s) [0x61, 0x62, 0x63] [0x63] = 1"
  by (simp_all add: countOccurrences_def demo_folded split_string_Cons split_string_single)

lemma edits_are_applied_witness:
  "applyEditsToNormalizedContent (\<lambda>s. s) [0x61, 0x62, 0x63] demo_edits (js ''f'') =
   Inr \<lparr>ae_baseContent = [0x61, 0x62, 0x63], ae_newContent = [0x78, 0x62]\<rparr>"
proof -
  have "applyEditsToNormalizedContent (\<lambda>s. s) [0x61, 0x62, 0x63] demo_edits (js ''f'') =
    Inr \<lparr>ae_baseContent = [0x61, 0x62, 0x63], ae_newContent = after_edit demo_segments @ []\<rparr>"
    by (rule edits_are_applied)
      (auto simp: demo_segments_def demo_edits_def demo_folded demo_once demo_counts normalize_edit_def normalizeToLF_def
        edit_of_def)
  then show ?thesis by (simp add: demo_segments_def)
qed

lemma applied_edits_replace_witness:
  "\<exists>r segs rest. applyEditsToNormalizedContent (\<lambda>s. s) [0x61, 0x62, 0x63] demo_edits (js ''f'') = Inr r \<and>
    ae_baseContent r = before_edit segs @ rest \<and> ae_newContent r = after_edit segs @ rest \<and> length segs = 2"
proof -
  have folds: "nfkc_stable (\<lambda>s. s)" by (simp add: nfkc_stable_def)
  let ?r = "\<lparr>ae_baseContent = [0x61, 0x62, 0x63], ae_newContent = after_edit demo_segments @ []\<rparr>"
  have applied: "applyEditsToNormalizedContent (\<lambda>s. s) [0x61, 0x62, 0x63] demo_edits (js ''f'') = Inr ?r"
    by (rule applyEdits_permute [OF applyEdits_in_order])
      (auto simp: demo_segments_def demo_edits_def demo_folded demo_once demo_counts normalizeToLF_def edit_of_def)
  from conjunct1 [OF applied_edits_replace [OF applied folds]]
  obtain segs rest where segs: "ae_baseContent ?r = before_edit segs @ rest" "ae_newContent ?r = after_edit segs @ rest"
      and m: "mset (map snd segs) =
        mset (map (\<lambda>e. (found_text (\<lambda>s. s) (ae_baseContent ?r) (normalize_edit e), normalizeToLF (ed_newText e))) demo_edits)"
    by (elim exE conjE)
  have "length segs = 2" using mset_eq_length [OF m] by (simp add: demo_edits_def)
  then show ?thesis using applied segs by blast
qed

end
