(* ===== verification/DiffString.thy ===== *)
theory DiffString
  imports EditDiff
begin

text \<open>
  \<open>generateDiffString\<close> of \<open>packages/cli/src/core/tools/edit-diff.ts\<close>: the diff the edit tool shows,
  with line numbers and a few lines of context. The parts come from \<open>diffLines\<close> of the package
  \<open>diff\<close>, which is a parameter.
\<close>

section \<open>The diff\<close>

record diff_part =
  dp_value :: jstring
  dp_added :: bool
  dp_removed :: bool

text \<open>\<open>part.value.split("\n")\<close> without the last piece when it is empty.\<close>

definition part_lines :: "jstring \<Rightarrow> jstring list" where
  "part_lines v = (let raw = split_on newline v in if last raw = [] then butlast raw else raw)"

definition pad_start :: "nat \<Rightarrow> jstring \<Rightarrow> jstring" where
  "pad_start width s = replicate (width - length s) 0x20 @ s"

record diff_state =
  ds_output :: "jstring list"
  ds_oldLineNum :: nat
  ds_newLineNum :: nat
  ds_lastWasChange :: bool
  ds_firstChangedLine :: "nat option"

definition push_added :: "nat \<Rightarrow> jstring \<Rightarrow> diff_state \<Rightarrow> diff_state" where
  "push_added width line s =
     s\<lparr>ds_output := ds_output s @ [js ''+'' @ pad_start width (show_nat (ds_newLineNum s)) @ js '' '' @ line],
       ds_newLineNum := ds_newLineNum s + 1\<rparr>"

definition push_removed :: "nat \<Rightarrow> jstring \<Rightarrow> diff_state \<Rightarrow> diff_state" where
  "push_removed width line s =
     s\<lparr>ds_output := ds_output s @ [js ''-'' @ pad_start width (show_nat (ds_oldLineNum s)) @ js '' '' @ line],
       ds_oldLineNum := ds_oldLineNum s + 1\<rparr>"

definition push_context :: "nat \<Rightarrow> jstring \<Rightarrow> diff_state \<Rightarrow> diff_state" where
  "push_context width line s =
     s\<lparr>ds_output := ds_output s @ [js '' '' @ pad_start width (show_nat (ds_oldLineNum s)) @ js '' '' @ line],
       ds_oldLineNum := ds_oldLineNum s + 1, ds_newLineNum := ds_newLineNum s + 1\<rparr>"

definition push_ellipsis :: "nat \<Rightarrow> diff_state \<Rightarrow> diff_state" where
  "push_ellipsis width s = s\<lparr>ds_output := ds_output s @ [js '' '' @ pad_start width [] @ js '' ...'']\<rparr>"

definition skip_lines :: "nat \<Rightarrow> diff_state \<Rightarrow> diff_state" where
  "skip_lines n s = s\<lparr>ds_oldLineNum := ds_oldLineNum s + n, ds_newLineNum := ds_newLineNum s + n\<rparr>"

definition note_change :: "diff_state \<Rightarrow> diff_state" where
  "note_change s =
     s\<lparr>ds_firstChangedLine := (case ds_firstChangedLine s of None \<Rightarrow> Some (ds_newLineNum s) | Some n \<Rightarrow> Some n)\<rparr>"

definition is_change :: "diff_part \<Rightarrow> bool" where
  "is_change part \<longleftrightarrow> dp_added part \<or> dp_removed part"

text \<open>An unchanged part shows up to \<open>contextLines\<close> lines next to a change.\<close>

definition context_part :: "nat \<Rightarrow> nat \<Rightarrow> bool \<Rightarrow> jstring list \<Rightarrow> diff_state \<Rightarrow> diff_state" where
  "context_part width contextLines nextPartIsChange raw s =
     (if ds_lastWasChange s \<and> nextPartIsChange then
        if length raw \<le> contextLines * 2 then fold (push_context width) raw s
        else
          (let leadingLines = take contextLines raw;
               trailingLines = drop (length raw - contextLines) raw;
               skippedLines = length raw - length leadingLines - length trailingLines
           in fold (push_context width) trailingLines
                (skip_lines skippedLines (push_ellipsis width (fold (push_context width) leadingLines s))))
      else if ds_lastWasChange s then
        (let shownLines = take contextLines raw; skippedLines = length raw - length shownLines;
             s1 = fold (push_context width) shownLines s
         in if 0 < skippedLines then skip_lines skippedLines (push_ellipsis width s1) else s1)
      else if nextPartIsChange then
        (let skippedLines = length raw - contextLines;
             s1 = (if 0 < skippedLines then skip_lines skippedLines (push_ellipsis width s) else s)
         in fold (push_context width) (drop skippedLines raw) s1)
      else skip_lines (length raw) s)"

definition diff_step :: "nat \<Rightarrow> nat \<Rightarrow> bool \<Rightarrow> diff_part \<Rightarrow> diff_state \<Rightarrow> diff_state" where
  "diff_step width contextLines nextPartIsChange part s =
     (let raw = part_lines (dp_value part)
      in if is_change part then
           (fold (if dp_added part then push_added width else push_removed width) raw (note_change s))
             \<lparr>ds_lastWasChange := True\<rparr>
         else (context_part width contextLines nextPartIsChange raw s)\<lparr>ds_lastWasChange := False\<rparr>)"

text \<open>The loop over the parts.\<close>

fun diff_loop :: "nat \<Rightarrow> nat \<Rightarrow> diff_part list \<Rightarrow> diff_state \<Rightarrow> diff_state" where
  "diff_loop width contextLines [] s = s"
| "diff_loop width contextLines (part # parts) s =
     diff_loop width contextLines parts
       (diff_step width contextLines (case parts of [] \<Rightarrow> False | p # _ \<Rightarrow> is_change p) part s)"

record EditDiffResult =
  er_diff :: jstring
  er_firstChangedLine :: "nat option"

definition diff_start :: diff_state where
  "diff_start = \<lparr>ds_output = [], ds_oldLineNum = 1, ds_newLineNum = 1, ds_lastWasChange = False, ds_firstChangedLine = None\<rparr>"

definition line_num_width :: "jstring \<Rightarrow> jstring \<Rightarrow> nat" where
  "line_num_width oldContent newContent =
     length (show_nat (max (length (split_on newline oldContent)) (length (split_on newline newContent))))"

definition generateDiffString ::
    "(jstring \<Rightarrow> jstring \<Rightarrow> diff_part list) \<Rightarrow> jstring \<Rightarrow> jstring \<Rightarrow> nat \<Rightarrow> EditDiffResult" where
  "generateDiffString diffLines oldContent newContent contextLines =
     (let s = diff_loop (line_num_width oldContent newContent) contextLines (diffLines oldContent newContent) diff_start
      in \<lparr>er_diff = join [newline] (ds_output s), er_firstChangedLine = ds_firstChangedLine s\<rparr>)"

section \<open>Rows\<close>

text \<open>What a row of the diff says: a line of the new file, a line of the old one that is removed or
  kept, or that lines are left out.\<close>

datatype row = AddedRow nat jstring | RemovedRow nat jstring | KeptRow nat jstring | Gap

fun render_row :: "nat \<Rightarrow> row \<Rightarrow> jstring" where
  "render_row width (AddedRow n line) = js ''+'' @ pad_start width (show_nat n) @ js '' '' @ line"
| "render_row width (RemovedRow n line) = js ''-'' @ pad_start width (show_nat n) @ js '' '' @ line"
| "render_row width (KeptRow n line) = js '' '' @ pad_start width (show_nat n) @ js '' '' @ line"
| "render_row width Gap = js '' '' @ pad_start width [] @ js '' ...''"

fun number_rows :: "(nat \<Rightarrow> jstring \<Rightarrow> row) \<Rightarrow> nat \<Rightarrow> jstring list \<Rightarrow> row list" where
  "number_rows R n [] = []"
| "number_rows R n (l # ls) = R n l # number_rows R (Suc n) ls"

lemma fold_push_added:
  "fold (push_added width) ls s =
     s\<lparr>ds_output := ds_output s @ map (render_row width) (number_rows AddedRow (ds_newLineNum s) ls),
       ds_newLineNum := ds_newLineNum s + length ls\<rparr>"
  by (induction ls arbitrary: s) (simp_all add: push_added_def)

lemma fold_push_removed:
  "fold (push_removed width) ls s =
     s\<lparr>ds_output := ds_output s @ map (render_row width) (number_rows RemovedRow (ds_oldLineNum s) ls),
       ds_oldLineNum := ds_oldLineNum s + length ls\<rparr>"
  by (induction ls arbitrary: s) (simp_all add: push_removed_def)

lemma fold_push_context:
  "fold (push_context width) ls s =
     s\<lparr>ds_output := ds_output s @ map (render_row width) (number_rows KeptRow (ds_oldLineNum s) ls),
       ds_oldLineNum := ds_oldLineNum s + length ls, ds_newLineNum := ds_newLineNum s + length ls\<rparr>"
  by (induction ls arbitrary: s) (simp_all add: push_context_def)

lemmas fold_push = fold_push_added fold_push_removed fold_push_context

text \<open>A row is right when the line it shows has its number in the file it is from.\<close>

fun row_ok :: "jstring list \<Rightarrow> jstring list \<Rightarrow> row \<Rightarrow> bool" where
  "row_ok olds news (AddedRow n line) = (1 \<le> n \<and> n \<le> length news \<and> news ! (n - 1) = line)"
| "row_ok olds news (RemovedRow n line) = (1 \<le> n \<and> n \<le> length olds \<and> olds ! (n - 1) = line)"
| "row_ok olds news (KeptRow n line) = (1 \<le> n \<and> n \<le> length olds \<and> olds ! (n - 1) = line)"
| "row_ok olds news Gap = True"

fun row_changes :: "row \<Rightarrow> bool" where
  "row_changes (AddedRow n line) = True"
| "row_changes (RemovedRow n line) = True"
| "row_changes (KeptRow n line) = False"
| "row_changes Gap = False"

definition part_old :: "diff_part \<Rightarrow> jstring list" where
  "part_old p = (if dp_added p then [] else part_lines (dp_value p))"

definition part_new :: "diff_part \<Rightarrow> jstring list" where
  "part_new p = (if dp_removed p then [] else part_lines (dp_value p))"

definition change_rows :: "nat \<Rightarrow> nat \<Rightarrow> diff_part \<Rightarrow> row list" where
  "change_rows o' n p =
     (if dp_added p then number_rows AddedRow n (part_lines (dp_value p))
      else if dp_removed p then number_rows RemovedRow o' (part_lines (dp_value p)) else [])"

text \<open>The rows every change must have, when the parts start at the given line numbers.\<close>

fun all_changes :: "nat \<Rightarrow> nat \<Rightarrow> diff_part list \<Rightarrow> row list" where
  "all_changes o' n [] = []"
| "all_changes o' n (p # ps) =
     change_rows o' n p @ all_changes (o' + length (part_old p)) (n + length (part_new p)) ps"

fun first_change :: "nat \<Rightarrow> diff_part list \<Rightarrow> nat option" where
  "first_change n [] = None"
| "first_change n (p # ps) = (if is_change p then Some n else first_change (n + length (part_new p)) ps)"

lemma number_rows_ok:
  "r \<in> set (number_rows R n ls) \<Longrightarrow> \<exists>i < length ls. r = R (n + i) (ls ! i)"
proof (induction ls arbitrary: n)
  case (Cons l ls)
  then consider "r = R n l" | "\<exists>i < length ls. r = R (Suc n + i) (ls ! i)" by fastforce
  then show ?case
  proof cases
    case 2
    then obtain i where "i < length ls" "r = R (Suc n + i) (ls ! i)" by blast
    then show ?thesis by (intro exI [of _ "Suc i"]) simp
  qed (intro exI [of _ 0], simp)
qed simp

lemma kept_rows_ok:
  assumes "r \<in> set (number_rows KeptRow n ls)" "olds = before @ ls @ after" "n = Suc (length before)"
  shows "row_ok olds news r"
  using number_rows_ok [OF assms(1)] assms(2,3) by (auto simp: nth_append)

lemma kept_rows_plain [simp]: "filter row_changes (number_rows KeptRow n ls) = []"
  by (induction ls arbitrary: n) auto

text \<open>What a stretch of kept lines adds to the state.\<close>

definition keeps_lines :: "nat \<Rightarrow> jstring list \<Rightarrow> (diff_state \<Rightarrow> diff_state) \<Rightarrow> bool" where
  "keeps_lines width raw f \<longleftrightarrow> (\<forall>s. \<exists>rows. f s = s\<lparr>ds_output := ds_output s @ map (render_row width) rows,
       ds_oldLineNum := ds_oldLineNum s + length raw, ds_newLineNum := ds_newLineNum s + length raw\<rparr> \<and>
     filter row_changes rows = [] \<and>
     (\<forall>before after news. ds_oldLineNum s = Suc (length before) \<longrightarrow>
        (\<forall>r \<in> set rows. row_ok (before @ raw @ after) news r)))"

lemma keeps_push: "keeps_lines width raw (fold (push_context width) raw)"
  unfolding keeps_lines_def fold_push_context using kept_rows_ok by fastforce

lemma keeps_skip: "keeps_lines width raw (skip_lines (length raw))"
  unfolding keeps_lines_def skip_lines_def by (intro allI exI [of _ "[]"]) simp

lemma keeps_gap: "keeps_lines width raw (\<lambda>s. skip_lines (length raw) (push_ellipsis width s))"
  unfolding keeps_lines_def skip_lines_def push_ellipsis_def by (intro allI exI [of _ "[Gap]"]) simp

lemma keeps_append:
  assumes "keeps_lines width xs f" "keeps_lines width ys g"
  shows "keeps_lines width (xs @ ys) (\<lambda>s. g (f s))"
  unfolding keeps_lines_def
proof
  fix s
  obtain rs where f: "f s = s\<lparr>ds_output := ds_output s @ map (render_row width) rs,
       ds_oldLineNum := ds_oldLineNum s + length xs, ds_newLineNum := ds_newLineNum s + length xs\<rparr>"
     "filter row_changes rs = []"
     "\<forall>before after news. ds_oldLineNum s = Suc (length before) \<longrightarrow> (\<forall>r \<in> set rs. row_ok (before @ xs @ after) news r)"
    using assms(1) unfolding keeps_lines_def by blast
  obtain qs where g: "g (f s) = (f s)\<lparr>ds_output := ds_output (f s) @ map (render_row width) qs,
       ds_oldLineNum := ds_oldLineNum (f s) + length ys, ds_newLineNum := ds_newLineNum (f s) + length ys\<rparr>"
     "filter row_changes qs = []"
     "\<forall>before after news. ds_oldLineNum (f s) = Suc (length before) \<longrightarrow> (\<forall>r \<in> set qs. row_ok (before @ ys @ after) news r)"
    using assms(2) unfolding keeps_lines_def by blast
  have "row_ok (before @ (xs @ ys) @ after) news r"
    if "ds_oldLineNum s = Suc (length before)" "r \<in> set (rs @ qs)" for before after news r
    using f(3) [rule_format, of before r "ys @ after" news] g(3) [rule_format, of "before @ xs" r after news] that
    by (auto simp: f(1))
  moreover have "g (f s) = s\<lparr>ds_output := ds_output s @ map (render_row width) (rs @ qs),
       ds_oldLineNum := ds_oldLineNum s + length (xs @ ys), ds_newLineNum := ds_newLineNum s + length (xs @ ys)\<rparr>"
    unfolding g(1) by (simp add: f(1))
  ultimately show "\<exists>rows. g (f s) = s\<lparr>ds_output := ds_output s @ map (render_row width) rows,
       ds_oldLineNum := ds_oldLineNum s + length (xs @ ys), ds_newLineNum := ds_newLineNum s + length (xs @ ys)\<rparr> \<and>
     filter row_changes rows = [] \<and>
     (\<forall>before after news. ds_oldLineNum s = Suc (length before) \<longrightarrow>
        (\<forall>r \<in> set rows. row_ok (before @ (xs @ ys) @ after) news r))"
    using f(2) g(2) by (intro exI [of _ "rs @ qs"]) auto
qed

lemma context_part_keeps: "\<exists>f. keeps_lines width raw f \<and> context_part width contextLines nextPartIsChange raw s = f s"
proof -
  let ?push = "\<lambda>ls. fold (push_context width) ls"
  let ?gap = "\<lambda>n s. skip_lines n (push_ellipsis width s)"
  let ?c = "contextLines"
  have lead: "keeps_lines width raw (\<lambda>s. ?gap (length (drop ?c raw)) (?push (take ?c raw) s))"
    using keeps_append [OF keeps_push keeps_gap, of width "take ?c raw" "drop ?c raw"] by simp
  have trail: "keeps_lines width raw (\<lambda>s. ?push (drop k raw) (?gap k s))" if "k \<le> length raw" for k
    using keeps_append [OF keeps_gap keeps_push, of width "take k raw" "drop k raw"] that by (simp add: min_absorb2)
  have both: "keeps_lines width raw (\<lambda>s. ?push (drop (length raw - ?c) raw)
      (?gap (length raw - ?c - ?c) (?push (take ?c raw) s)))" if "?c * 2 < length raw"
  proof -
    let ?mid = "take (length raw - ?c - ?c) (drop ?c raw)"
    have "raw = take ?c raw @ ?mid @ drop (length raw - ?c) raw"
      using that by (metis add.commute add_diff_inverse_nat append_take_drop_id drop_drop less_diff_conv mult_2_right
          not_less_iff_gr_or_eq)
    moreover have "length ?mid = length raw - ?c - ?c" by simp
    ultimately show ?thesis
      using keeps_append [OF keeps_append [OF keeps_push keeps_gap] keeps_push, of width "take ?c raw" ?mid "drop (length raw - ?c) raw"]
      by simp
  qed
  consider "ds_lastWasChange s \<and> nextPartIsChange \<and> length raw \<le> ?c * 2" | "ds_lastWasChange s \<and> nextPartIsChange \<and> ?c * 2 < length raw"
    | "ds_lastWasChange s \<and> \<not> nextPartIsChange \<and> ?c < length raw" | "ds_lastWasChange s \<and> \<not> nextPartIsChange \<and> length raw \<le> ?c"
    | "\<not> ds_lastWasChange s \<and> nextPartIsChange \<and> ?c < length raw" | "\<not> ds_lastWasChange s \<and> nextPartIsChange \<and> length raw \<le> ?c"
    | "\<not> ds_lastWasChange s \<and> \<not> nextPartIsChange" by linarith
  then show ?thesis
  proof cases
    case 1
    then have "context_part width ?c nextPartIsChange raw s = ?push raw s" by (simp add: context_part_def)
    with keeps_push show ?thesis by blast
  next
    case 2
    then have "context_part width ?c nextPartIsChange raw s =
        ?push (drop (length raw - ?c) raw) (?gap (length raw - ?c - ?c) (?push (take ?c raw) s))"
      by (simp add: context_part_def Let_def min_def)
    with both 2 show ?thesis by blast
  next
    case 3
    then have "context_part width ?c nextPartIsChange raw s = ?gap (length (drop ?c raw)) (?push (take ?c raw) s)"
      by (simp add: context_part_def Let_def min_def)
    with lead show ?thesis by blast
  next
    case 4
    then have "context_part width ?c nextPartIsChange raw s = ?push raw s" by (simp add: context_part_def Let_def)
    with keeps_push show ?thesis by blast
  next
    case 5
    then have "context_part width ?c nextPartIsChange raw s = ?push (drop (length raw - ?c) raw) (?gap (length raw - ?c) s)"
      by (simp add: context_part_def Let_def)
    with trail [of "length raw - ?c"] show ?thesis by fastforce
  next
    case 6
    then have "context_part width ?c nextPartIsChange raw s = ?push raw s" by (simp add: context_part_def Let_def)
    with keeps_push show ?thesis by blast
  next
    case 7
    then have "context_part width ?c nextPartIsChange raw s = skip_lines (length raw) s" by (simp add: context_part_def)
    with keeps_skip show ?thesis by blast
  qed
qed

section \<open>The rows of a diff\<close>

abbreviation olds_of :: "diff_part list \<Rightarrow> jstring list" where
  "olds_of parts \<equiv> concat (map part_old parts)"

abbreviation news_of :: "diff_part list \<Rightarrow> jstring list" where
  "news_of parts \<equiv> concat (map part_new parts)"

lemma changed_rows_ok:
  "r \<in> set (number_rows AddedRow (Suc (length before)) ls) \<Longrightarrow> row_ok olds (before @ ls @ after) r"
  "r \<in> set (number_rows RemovedRow (Suc (length before)) ls) \<Longrightarrow> row_ok (before @ ls @ after) news r"
  by (auto dest!: number_rows_ok simp: nth_append)

lemma changed_rows_changes: "R = AddedRow \<or> R = RemovedRow \<Longrightarrow> filter row_changes (number_rows R n ls) = number_rows R n ls"
  by (induction ls arbitrary: n) auto

lemma diff_step_rows:
  assumes one: "\<not> (dp_added p \<and> dp_removed p)"
    and o: "ds_oldLineNum s = Suc (length ob)" and n: "ds_newLineNum s = Suc (length nb)"
  obtains rows where "ds_output (diff_step width c nx p s) = ds_output s @ map (render_row width) rows"
    "filter row_changes rows = change_rows (ds_oldLineNum s) (ds_newLineNum s) p"
    "\<And>r oa na. r \<in> set rows \<Longrightarrow> row_ok (ob @ part_old p @ oa) (nb @ part_new p @ na) r"
    "ds_oldLineNum (diff_step width c nx p s) = Suc (length (ob @ part_old p))"
    "ds_newLineNum (diff_step width c nx p s) = Suc (length (nb @ part_new p))"
    "ds_firstChangedLine (diff_step width c nx p s) =
       (if is_change p \<and> ds_firstChangedLine s = None then Some (ds_newLineNum s) else ds_firstChangedLine s)"
proof -
  let ?raw = "part_lines (dp_value p)"
  consider (added) "dp_added p" "\<not> dp_removed p" | (removed) "\<not> dp_added p" "dp_removed p" | (same) "\<not> dp_added p" "\<not> dp_removed p"
    using one by blast
  then show ?thesis
  proof cases
    case added
    show ?thesis
    proof (rule that [of "number_rows AddedRow (ds_newLineNum s) ?raw"])
      fix r oa na assume "r \<in> set (number_rows AddedRow (ds_newLineNum s) ?raw)"
      then show "row_ok (ob @ part_old p @ oa) (nb @ part_new p @ na) r"
        using added changed_rows_ok by (simp add: o n part_old_def part_new_def)
    qed (use added o n in \<open>auto simp: diff_step_def is_change_def fold_push note_change_def change_rows_def part_old_def
        part_new_def changed_rows_changes Let_def split: option.split\<close>)
  next
    case removed
    show ?thesis
    proof (rule that [of "number_rows RemovedRow (ds_oldLineNum s) ?raw"])
      fix r oa na assume "r \<in> set (number_rows RemovedRow (ds_oldLineNum s) ?raw)"
      then show "row_ok (ob @ part_old p @ oa) (nb @ part_new p @ na) r"
        using removed changed_rows_ok by (simp add: o n part_old_def part_new_def)
    qed (use removed o n in \<open>auto simp: diff_step_def is_change_def fold_push note_change_def change_rows_def part_old_def
        part_new_def changed_rows_changes Let_def split: option.split\<close>)
  next
    case same
    obtain f where k: "keeps_lines width ?raw f" and f: "context_part width c nx ?raw s = f s"
      using context_part_keeps by blast
    obtain rows where rows: "f s = s\<lparr>ds_output := ds_output s @ map (render_row width) rows,
       ds_oldLineNum := ds_oldLineNum s + length ?raw, ds_newLineNum := ds_newLineNum s + length ?raw\<rparr>"
     "filter row_changes rows = []"
     "\<forall>before after news. ds_oldLineNum s = Suc (length before) \<longrightarrow> (\<forall>r \<in> set rows. row_ok (before @ ?raw @ after) news r)"
      using k unfolding keeps_lines_def by blast
    show ?thesis
      by (rule that [of rows])
        (use same o n rows in \<open>auto simp: diff_step_def is_change_def f change_rows_def part_old_def part_new_def Let_def\<close>)
  qed
qed

lemma diff_loop_rows:
  assumes "\<forall>p \<in> set parts. \<not> (dp_added p \<and> dp_removed p)"
    and "ds_oldLineNum s = Suc (length ob)" "ds_newLineNum s = Suc (length nb)"
  shows "\<exists>rows. ds_output (diff_loop width c parts s) = ds_output s @ map (render_row width) rows \<and>
    filter row_changes rows = all_changes (ds_oldLineNum s) (ds_newLineNum s) parts \<and>
    (\<forall>r \<in> set rows. row_ok (ob @ olds_of parts) (nb @ news_of parts) r) \<and>
    ds_firstChangedLine (diff_loop width c parts s) =
      (case ds_firstChangedLine s of None \<Rightarrow> first_change (ds_newLineNum s) parts | Some k \<Rightarrow> Some k)"
  using assms
proof (induction parts arbitrary: s ob nb)
  case Nil
  show ?case by (intro exI [of _ "[]"]) (simp split: option.split)
next
  case (Cons p parts)
  let ?nx = "case parts of [] \<Rightarrow> False | p # _ \<Rightarrow> is_change p"
  let ?s = "diff_step width c ?nx p s"
  obtain rows where rows: "ds_output ?s = ds_output s @ map (render_row width) rows"
    "filter row_changes rows = change_rows (ds_oldLineNum s) (ds_newLineNum s) p"
    "\<And>r oa na. r \<in> set rows \<Longrightarrow> row_ok (ob @ part_old p @ oa) (nb @ part_new p @ na) r"
    "ds_oldLineNum ?s = Suc (length (ob @ part_old p))" "ds_newLineNum ?s = Suc (length (nb @ part_new p))"
    "ds_firstChangedLine ?s =
       (if is_change p \<and> ds_firstChangedLine s = None then Some (ds_newLineNum s) else ds_firstChangedLine s)"
    using diff_step_rows [of p s ob nb width c ?nx] Cons.prems by auto
  obtain more where more: "ds_output (diff_loop width c parts ?s) = ds_output ?s @ map (render_row width) more"
    "filter row_changes more = all_changes (ds_oldLineNum ?s) (ds_newLineNum ?s) parts"
    "\<forall>r \<in> set more. row_ok ((ob @ part_old p) @ olds_of parts) ((nb @ part_new p) @ news_of parts) r"
    "ds_firstChangedLine (diff_loop width c parts ?s) =
      (case ds_firstChangedLine ?s of None \<Rightarrow> first_change (ds_newLineNum ?s) parts | Some k \<Rightarrow> Some k)"
    using Cons.IH [OF _ rows(4,5)] Cons.prems(1) by auto
  have nums: "ds_oldLineNum ?s = ds_oldLineNum s + length (part_old p)" "ds_newLineNum ?s = ds_newLineNum s + length (part_new p)"
    using rows(4,5) Cons.prems(2,3) by simp_all
  show ?case
  proof (intro exI conjI)
    show "ds_output (diff_loop width c (p # parts) s) = ds_output s @ map (render_row width) (rows @ more)"
      by (simp add: rows(1) more(1))
    show "filter row_changes (rows @ more) = all_changes (ds_oldLineNum s) (ds_newLineNum s) (p # parts)"
      unfolding filter_append rows(2) more(2) nums by simp
    show "\<forall>r \<in> set (rows @ more). row_ok (ob @ olds_of (p # parts)) (nb @ news_of (p # parts)) r"
      using rows(3) more(3) by auto
    show "ds_firstChangedLine (diff_loop width c (p # parts) s) =
      (case ds_firstChangedLine s of None \<Rightarrow> first_change (ds_newLineNum s) (p # parts) | Some k \<Rightarrow> Some k)"
      unfolding diff_loop.simps more(4) rows(6) nums by (simp split: option.split)
  qed
qed

text \<open>
  What \<open>diffLines\<close> is documented to return: parts that are added, removed or common, whose values
  are made of whole lines, so that the parts of one side give back its text.
\<close>

definition whole_lines :: "jstring list \<Rightarrow> bool" where
  "whole_lines vs \<longleftrightarrow> (\<forall>v \<in> set (butlast vs). v \<noteq> [] \<and> last v = newline)"

definition diff_ok :: "(jstring \<Rightarrow> jstring \<Rightarrow> diff_part list) \<Rightarrow> jstring \<Rightarrow> jstring \<Rightarrow> bool" where
  "diff_ok diffLines oldContent newContent \<longleftrightarrow>
     (let parts = diffLines oldContent newContent;
          oldValues = map dp_value (filter (\<lambda>p. \<not> dp_added p) parts);
          newValues = map dp_value (filter (\<lambda>p. \<not> dp_removed p) parts)
      in (\<forall>p \<in> set parts. \<not> (dp_added p \<and> dp_removed p)) \<and>
         concat oldValues = oldContent \<and> concat newValues = newContent \<and>
         whole_lines oldValues \<and> whole_lines newValues)"

lemma part_lines_newline: "part_lines (v @ [newline]) = split_on newline v"
proof -
  have "split_on newline (v @ [newline]) = split_on newline v @ [[]]"
    by (induction v) (auto split: list.split)
  then show ?thesis by (simp add: part_lines_def)
qed

lemma part_lines_append: "part_lines (v @ [newline] @ w) = part_lines (v @ [newline]) @ part_lines w"
proof -
  have s: "split_on newline (v @ newline # w) = split_on newline v @ split_on newline w"
    by (induction v) (auto split: list.split)
  show ?thesis
    by (simp add: part_lines_newline) (simp add: part_lines_def s Let_def butlast_append)
qed

lemma part_lines_concat: "whole_lines vs \<Longrightarrow> concat (map part_lines vs) = part_lines (concat vs)"
proof (induction vs)
  case Nil
  show ?case by (simp add: part_lines_def)
next
  case (Cons v vs)
  show ?case
  proof (cases "vs = []")
    case False
    then have "v \<noteq> []" "last v = newline" and w: "whole_lines vs" using Cons.prems by (auto simp: whole_lines_def)
    then obtain u where "v = u @ [newline]" by (metis append_butlast_last_id)
    then show ?thesis using Cons.IH [OF w] part_lines_append [of u "concat vs"] by simp
  qed simp
qed

lemma olds_of_eq: "olds_of parts = concat (map part_lines (map dp_value (filter (\<lambda>p. \<not> dp_added p) parts)))"
  by (induction parts) (auto simp: part_old_def)

lemma news_of_eq: "news_of parts = concat (map part_lines (map dp_value (filter (\<lambda>p. \<not> dp_removed p) parts)))"
  by (induction parts) (auto simp: part_new_def)

lemma row_ok_prefix:
  assumes "row_ok olds news r" "prefix olds olds'" "prefix news news'"
  shows "row_ok olds' news' r"
  using assms by (cases r) (auto simp: prefix_def nth_append)

lemma prefix_part_lines: "prefix (part_lines v) (split_on newline v)"
  by (simp add: part_lines_def Let_def prefixeq_butlast)

text \<open>Claim C24: the diff that is shown for an edit is right. Every row carries the number its line
  has in the file it is from; the rows of changes are exactly the lines of the added and removed
  parts, in order and with their numbers, so no change is left out; and the first changed line is
  the line of the new file at which the first change starts.\<close>

theorem diff_rows_right:
  assumes "diff_ok diffLines oldContent newContent"
  shows "\<exists>rows.
    er_diff (generateDiffString diffLines oldContent newContent contextLines) =
      join [newline] (map (render_row (line_num_width oldContent newContent)) rows) \<and>
    (\<forall>r \<in> set rows. row_ok (split_on newline oldContent) (split_on newline newContent) r) \<and>
    filter row_changes rows = all_changes 1 1 (diffLines oldContent newContent) \<and>
    er_firstChangedLine (generateDiffString diffLines oldContent newContent contextLines) =
      first_change 1 (diffLines oldContent newContent)"
proof -
  let ?parts = "diffLines oldContent newContent"
  have ok: "\<forall>p \<in> set ?parts. \<not> (dp_added p \<and> dp_removed p)"
    "olds_of ?parts = part_lines oldContent" "news_of ?parts = part_lines newContent"
    unfolding olds_of_eq news_of_eq using assms
    by (simp_all add: diff_ok_def Let_def part_lines_concat del: map_map)
  obtain rows where rows:
    "ds_output (diff_loop (line_num_width oldContent newContent) contextLines ?parts diff_start) =
      map (render_row (line_num_width oldContent newContent)) rows"
    "filter row_changes rows = all_changes 1 1 ?parts"
    "\<forall>r \<in> set rows. row_ok (part_lines oldContent) (part_lines newContent) r"
    "ds_firstChangedLine (diff_loop (line_num_width oldContent newContent) contextLines ?parts diff_start) = first_change 1 ?parts"
    using diff_loop_rows [OF ok(1), of diff_start "[]" "[]" "line_num_width oldContent newContent" contextLines]
    by (auto simp: diff_start_def ok)
  then show ?thesis
    by (intro exI [of _ rows]) (auto simp: generateDiffString_def Let_def intro: row_ok_prefix prefix_part_lines)
qed

text \<open>The second of two lines changes from \<open>b\<close> to \<open>c\<close>.\<close>

definition demo_diff :: "jstring \<Rightarrow> jstring \<Rightarrow> diff_part list" where
  "demo_diff old new =
     [\<lparr>dp_value = [0x61, newline], dp_added = False, dp_removed = False\<rparr>,
      \<lparr>dp_value = [0x62], dp_added = False, dp_removed = True\<rparr>,
      \<lparr>dp_value = [0x63], dp_added = True, dp_removed = False\<rparr>]"

lemma diff_rows_right_witness:
  "\<exists>rows. er_diff (generateDiffString demo_diff [0x61, newline, 0x62] [0x61, newline, 0x63] 4) =
      join [newline] (map (render_row 1) rows) \<and>
    filter row_changes rows = [RemovedRow 2 [0x62], AddedRow 2 [0x63]]"
proof -
  have "diff_ok demo_diff [0x61, newline, 0x62] [0x61, newline, 0x63]"
    by (simp add: diff_ok_def demo_diff_def whole_lines_def)
  moreover have "line_num_width [0x61, newline, 0x62] [0x61, newline, 0x63] = 1"
    by (simp add: line_num_width_def show_nat_def nat_digits.simps)
  moreover have "all_changes 1 1 (demo_diff [0x61, newline, 0x62] [0x61, newline, 0x63]) =
      [RemovedRow 2 [0x62], AddedRow 2 [0x63]]"
    by (simp add: demo_diff_def change_rows_def part_old_def part_new_def part_lines_def)
  ultimately show ?thesis
    using diff_rows_right [of demo_diff "[0x61, newline, 0x62]" "[0x61, newline, 0x63]" 4] by auto
qed

end
