(* ===== verification/EditTool.thy ===== *)
theory EditTool
  imports DiffString JsonParse
begin

text \<open>
  The tools that write files: \<open>packages/cli/src/core/tools/edit.ts\<close> and \<open>write.ts\<close>, and the preview
  \<open>computeEditsDiff\<close> of \<open>edit-diff.ts\<close>. File operations are pluggable in the code and a record of
  operations on a world here; the abort signal is a predicate on the world, read where the code reads
  it. The bodies run inside the mutation queue of their file. The local files have permissions to read
  and to write, any operation on them may fail, and a write that fails may have emptied the file or
  left a part; the preview uses node's own \<open>access\<close> and \<open>readFile\<close>, which ask for less than the tool.
\<close>

section \<open>Operations that may throw\<close>

text \<open>A thrown error: its message and, for errors of node, its code.\<close>

record node_error =
  ne_message :: jstring
  ne_code :: "jstring option"

type_synonym ('w, 'a) tool_op = "'w \<Rightarrow> (node_error + 'a) \<times> 'w"

definition t_return :: "'a \<Rightarrow> ('w, 'a) tool_op" where
  "t_return x w = (Inr x, w)"

definition t_throw :: "jstring \<Rightarrow> ('w, 'a) tool_op" where
  "t_throw msg w = (Inl \<lparr>ne_message = msg, ne_code = None\<rparr>, w)"

definition t_bind :: "('w, 'a) tool_op \<Rightarrow> ('a \<Rightarrow> ('w, 'b) tool_op) \<Rightarrow> ('w, 'b) tool_op" where
  "t_bind m k w = (case m w of (Inl err, w1) \<Rightarrow> (Inl err, w1) | (Inr x, w1) \<Rightarrow> k x w1)"

definition aborted_error :: node_error where
  "aborted_error = \<lparr>ne_message = js ''Operation aborted'', ne_code = None\<rparr>"

definition throwIfAborted :: "('w \<Rightarrow> bool) \<Rightarrow> ('w, unit) tool_op" where
  "throwIfAborted aborted w = (if aborted w then (Inl aborted_error, w) else (Inr (), w))"

text \<open>\<open>"code" in error ? `Error code: ${error.code}` : String(error)\<close>\<close>

definition describe_error :: "node_error \<Rightarrow> jstring" where
  "describe_error err =
     (case ne_code err of
        Some code \<Rightarrow> js ''Error code: '' @ code
      | None \<Rightarrow> if ne_message err = [] then js ''Error'' else js ''Error: '' @ ne_message err)"

record 'w EditOperations =
  eo_readFile :: "jstring \<Rightarrow> ('w, jstring) tool_op"
  eo_writeFile :: "jstring \<Rightarrow> jstring \<Rightarrow> ('w, unit) tool_op"
  eo_access :: "jstring \<Rightarrow> ('w, unit) tool_op"

text \<open>What the tools use of the runtime and of the package \<open>diff\<close>.\<close>

record edit_runtime =
  rt_nfkc :: "jstring \<Rightarrow> jstring"
  rt_diffLines :: "jstring \<Rightarrow> jstring \<Rightarrow> diff_part list"
  rt_createTwoFilesPatch :: "jstring \<Rightarrow> jstring \<Rightarrow> jstring \<Rightarrow> jstring \<Rightarrow> nat \<Rightarrow> jstring"

definition generateUnifiedPatch :: "edit_runtime \<Rightarrow> jstring \<Rightarrow> jstring \<Rightarrow> jstring \<Rightarrow> nat \<Rightarrow> jstring" where
  "generateUnifiedPatch rt path oldContent newContent contextLines =
     rt_createTwoFilesPatch rt path path oldContent newContent contextLines"

section \<open>Arguments\<close>

definition without_props :: "jstring list \<Rightarrow> (jstring \<times> json) list \<Rightarrow> (jstring \<times> json) list" where
  "without_props ks kvs = filter (\<lambda>(k, v). k \<notin> set ks) kvs"

text \<open>Edits given as a JSON string are parsed when they are an array.\<close>

definition parsed_edits :: "(jstring \<times> json) list \<Rightarrow> (jstring \<times> json) list" where
  "parsed_edits args =
     (case get_prop (js ''edits'') args of
        Some (JStr s) \<Rightarrow>
          (case json_parse s of
             Some (JArr vs) \<Rightarrow> put_prop (js ''edits'') (JArr vs) args
           | _ \<Rightarrow> args)
      | _ \<Rightarrow> args)"

definition prepareEditArguments :: "json \<Rightarrow> json" where
  "prepareEditArguments input =
     (case input of
        JObj args0 \<Rightarrow>
          (let args = parsed_edits args0
           in case (get_prop (js ''oldText'') args, get_prop (js ''newText'') args) of
                (Some (JStr oldText), Some (JStr newText)) \<Rightarrow>
                  (let edits = (case get_prop (js ''edits'') args of Some (JArr vs) \<Rightarrow> vs | _ \<Rightarrow> []) @
                         [JObj [(js ''oldText'', JStr oldText), (js ''newText'', JStr newText)]]
                   in JObj (put_prop (js ''edits'') (JArr edits) (without_props [js ''oldText'', js ''newText''] args)))
              | _ \<Rightarrow> JObj args)
      | _ \<Rightarrow> input)"

record EditToolInput =
  ei_path :: jstring
  ei_edits :: "Edit list"

definition validateEditInput :: "EditToolInput \<Rightarrow> ('w, jstring \<times> Edit list) tool_op" where
  "validateEditInput input =
     (if ei_edits input = [] then t_throw (js ''Edit tool input is invalid. edits must contain at least one replacement.'')
      else t_return (ei_path input, ei_edits input))"

text \<open>The arguments of a preview: \<open>edits\<close> whose texts are strings, or the two legacy texts.\<close>

definition edit_of_json :: "json \<Rightarrow> Edit option" where
  "edit_of_json v =
     (case v of
        JObj kvs \<Rightarrow>
          (case (get_prop (js ''oldText'') kvs, get_prop (js ''newText'') kvs) of
             (Some (JStr old), Some (JStr new)) \<Rightarrow> Some \<lparr>ed_oldText = old, ed_newText = new\<rparr>
           | _ \<Rightarrow> None)
      | _ \<Rightarrow> None)"

definition preview_path :: "(jstring \<times> json) list \<Rightarrow> jstring option" where
  "preview_path args =
     (case get_prop (js ''path'') args of
        Some (JStr p) \<Rightarrow> if p = [] then None else Some p
      | _ \<Rightarrow>
          (case get_prop (js ''file_path'') args of
             Some (JStr p) \<Rightarrow> if p = [] then None else Some p
           | _ \<Rightarrow> None))"

definition getRenderablePreviewInput :: "(jstring \<times> json) list option \<Rightarrow> EditToolInput option" where
  "getRenderablePreviewInput args =
     (case args of
        None \<Rightarrow> None
      | Some kvs \<Rightarrow>
          (case preview_path kvs of
             None \<Rightarrow> None
           | Some path \<Rightarrow>
               (case get_prop (js ''edits'') kvs of
                  Some (JArr vs) \<Rightarrow>
                    if vs \<noteq> [] \<and> (\<forall>v \<in> set vs. edit_of_json v \<noteq> None)
                    then Some \<lparr>ei_path = path, ei_edits = map (the \<circ> edit_of_json) vs\<rparr>
                    else map_option (\<lambda>e. \<lparr>ei_path = path, ei_edits = [e]\<rparr>) (edit_of_json (JObj kvs))
                | _ \<Rightarrow> map_option (\<lambda>e. \<lparr>ei_path = path, ei_edits = [e]\<rparr>) (edit_of_json (JObj kvs)))))"

section \<open>The edit tool\<close>

record EditToolDetails =
  et_diff :: jstring
  et_patch :: jstring
  et_firstChangedLine :: "nat option"

record EditToolResult =
  et_text :: jstring
  et_details :: EditToolDetails

definition check_access :: "'w EditOperations \<Rightarrow> ('w \<Rightarrow> bool) \<Rightarrow> jstring \<Rightarrow> jstring \<Rightarrow> ('w, unit) tool_op" where
  "check_access ops aborted absolutePath path w =
     (case eo_access ops absolutePath w of
        (Inr _, w1) \<Rightarrow> (Inr (), w1)
      | (Inl err, w1) \<Rightarrow>
          t_bind (throwIfAborted aborted)
            (\<lambda>_. t_throw (js ''Could not edit file: '' @ path @ js ''. '' @ describe_error err @ js ''.'')) w1)"

definition apply_edits :: "edit_runtime \<Rightarrow> jstring \<Rightarrow> Edit list \<Rightarrow> jstring \<Rightarrow> ('w, AppliedEditsResult) tool_op" where
  "apply_edits rt content edits path =
     (case applyEditsToNormalizedContent (rt_nfkc rt) content edits path of
        Inl msg \<Rightarrow> t_throw msg
      | Inr r \<Rightarrow> t_return r)"

definition edit_result :: "edit_runtime \<Rightarrow> jstring \<Rightarrow> Edit list \<Rightarrow> AppliedEditsResult \<Rightarrow> EditToolResult" where
  "edit_result rt path edits applied =
     (let diffResult = generateDiffString (rt_diffLines rt) (ae_baseContent applied) (ae_newContent applied) 4
      in \<lparr>et_text = js ''Successfully replaced '' @ show_nat (length edits) @ js '' block(s) in '' @ path @ js ''.'',
          et_details = \<lparr>et_diff = er_diff diffResult,
            et_patch = generateUnifiedPatch rt path (ae_baseContent applied) (ae_newContent applied) 4,
            et_firstChangedLine = er_firstChangedLine diffResult\<rparr>\<rparr>)"

text \<open>The function the edit tool runs in the mutation queue.\<close>

definition edit_body ::
    "edit_runtime \<Rightarrow> 'w EditOperations \<Rightarrow> ('w \<Rightarrow> bool) \<Rightarrow> jstring \<Rightarrow> jstring \<Rightarrow> Edit list \<Rightarrow> ('w, EditToolResult) tool_op" where
  "edit_body rt ops aborted absolutePath path edits =
     t_bind (throwIfAborted aborted) (\<lambda>_.
     t_bind (check_access ops aborted absolutePath path) (\<lambda>_.
     t_bind (throwIfAborted aborted) (\<lambda>_.
     t_bind (eo_readFile ops absolutePath) (\<lambda>rawContent.
     t_bind (throwIfAborted aborted) (\<lambda>_.
       let bom = fst (stripBom rawContent); content = snd (stripBom rawContent);
           originalEnding = detectLineEnding content; normalizedContent = normalizeToLF content
       in t_bind (apply_edits rt normalizedContent edits path) (\<lambda>applied.
          t_bind (throwIfAborted aborted) (\<lambda>_.
            let finalContent = bom @ restoreLineEndings (ae_newContent applied) originalEnding
            in t_bind (eo_writeFile ops absolutePath finalContent) (\<lambda>_.
               t_bind (throwIfAborted aborted) (\<lambda>_.
                 t_return (edit_result rt path edits applied))))))))))"

definition edit_execute ::
    "edit_runtime \<Rightarrow> 'w EditOperations \<Rightarrow> ('w \<Rightarrow> bool) \<Rightarrow> (jstring \<Rightarrow> jstring) \<Rightarrow> EditToolInput \<Rightarrow> ('w, EditToolResult) tool_op" where
  "edit_execute rt ops aborted resolveToCwd input =
     t_bind (validateEditInput input) (\<lambda>(path, edits).
       edit_body rt ops aborted (resolveToCwd path) path edits)"

section \<open>The preview\<close>

text \<open>The preview uses node's own functions: \<open>access\<close> with \<open>R_OK\<close>, and \<open>readFile\<close>.\<close>

record 'w PreviewFiles =
  pf_access :: "jstring \<Rightarrow> ('w, unit) tool_op"
  pf_readFile :: "jstring \<Rightarrow> ('w, jstring) tool_op"

text \<open>The diff, or the error that is shown in its place.\<close>

definition computeEditsDiff ::
    "edit_runtime \<Rightarrow> 'w PreviewFiles \<Rightarrow> (jstring \<Rightarrow> jstring) \<Rightarrow> jstring \<Rightarrow> Edit list \<Rightarrow> 'w \<Rightarrow> (jstring + EditDiffResult) \<times> 'w" where
  "computeEditsDiff rt fs resolveToCwd path edits w =
     (let absolutePath = resolveToCwd path
      in case pf_access fs absolutePath w of
           (Inl err, w1) \<Rightarrow> (Inl (js ''Could not edit file: '' @ path @ js ''. '' @ describe_error err @ js ''.''), w1)
         | (Inr _, w1) \<Rightarrow>
             (case pf_readFile fs absolutePath w1 of
                (Inl err, w2) \<Rightarrow> (Inl (ne_message err), w2)
              | (Inr rawContent, w2) \<Rightarrow>
                  (let content = snd (stripBom rawContent); normalizedContent = normalizeToLF content
                   in case applyEditsToNormalizedContent (rt_nfkc rt) normalizedContent edits path of
                        Inl msg \<Rightarrow> (Inl msg, w2)
                      | Inr applied \<Rightarrow>
                          (Inr (generateDiffString (rt_diffLines rt) (ae_baseContent applied) (ae_newContent applied) 4), w2))))"

definition computeEditDiff ::
    "edit_runtime \<Rightarrow> 'w PreviewFiles \<Rightarrow> (jstring \<Rightarrow> jstring) \<Rightarrow> jstring \<Rightarrow> jstring \<Rightarrow> jstring \<Rightarrow> 'w \<Rightarrow>
     (jstring + EditDiffResult) \<times> 'w" where
  "computeEditDiff rt fs resolveToCwd path oldText newText =
     computeEditsDiff rt fs resolveToCwd path [\<lparr>ed_oldText = oldText, ed_newText = newText\<rparr>]"

record edit_preview =
  ep_preview :: "(jstring + EditDiffResult) option"
  ep_argsKey :: "jstring option"
  ep_pending :: bool

text \<open>\<open>setEditPreview\<close> stores a preview and tells whether it changed.\<close>

definition setEditPreview ::
    "edit_preview \<Rightarrow> jstring + EditDiffResult \<Rightarrow> jstring option \<Rightarrow> bool \<times> edit_preview" where
  "setEditPreview component preview argsKey =
     ((case ep_preview component of
         None \<Rightarrow> True
       | Some (Inl err) \<Rightarrow> (case preview of Inl err' \<Rightarrow> err \<noteq> err' | Inr r \<Rightarrow> True)
       | Some (Inr r) \<Rightarrow>
           (case preview of
              Inl err \<Rightarrow> True
            | Inr r' \<Rightarrow> er_diff r \<noteq> er_diff r' \<or> er_firstChangedLine r \<noteq> er_firstChangedLine r')),
      \<lparr>ep_preview = Some preview, ep_argsKey = argsKey, ep_pending = False\<rparr>)"

section \<open>The write tool\<close>

record 'w WriteOperations =
  wo_writeFile :: "jstring \<Rightarrow> jstring \<Rightarrow> ('w, unit) tool_op"
  wo_mkdir :: "jstring \<Rightarrow> ('w, unit) tool_op"

definition write_body ::
    "'w WriteOperations \<Rightarrow> ('w \<Rightarrow> bool) \<Rightarrow> jstring \<Rightarrow> jstring \<Rightarrow> jstring \<Rightarrow> jstring \<Rightarrow> ('w, jstring) tool_op" where
  "write_body ops aborted absolutePath dir path content =
     t_bind (throwIfAborted aborted) (\<lambda>_.
     t_bind (wo_mkdir ops dir) (\<lambda>_.
     t_bind (throwIfAborted aborted) (\<lambda>_.
     t_bind (wo_writeFile ops absolutePath content) (\<lambda>_.
     t_bind (throwIfAborted aborted) (\<lambda>_.
       t_return (js ''Successfully wrote '' @ show_nat (length content) @ js '' bytes to '' @ path))))))"

definition write_execute ::
    "'w WriteOperations \<Rightarrow> ('w \<Rightarrow> bool) \<Rightarrow> (jstring \<Rightarrow> jstring) \<Rightarrow> (jstring \<Rightarrow> jstring) \<Rightarrow> jstring \<Rightarrow> jstring \<Rightarrow> ('w, jstring) tool_op" where
  "write_execute ops aborted resolveToCwd dirname path content =
     (let absolutePath = resolveToCwd path
      in write_body ops aborted absolutePath (dirname absolutePath) path content)"

section \<open>Files behind the operations\<close>

text \<open>
  What the edit tool needs of its operations: looking at a file and reading it change no file, a file
  that is read has the content that is returned, and writing a file sets its content and touches no
  other file, even when it fails.
\<close>

locale edit_files =
  fixes ops :: "'w EditOperations" and content :: "'w \<Rightarrow> jstring \<Rightarrow> jstring option"
  assumes access_keeps: "eo_access ops p w = (r, w') \<Longrightarrow> content w' = content w"
    and read_keeps: "eo_readFile ops p w = (rs, w') \<Longrightarrow> content w' = content w"
    and read_content: "eo_readFile ops p w = (Inr s, w') \<Longrightarrow> content w p = Some s"
    and write_content: "eo_writeFile ops p s w = (Inr (), w') \<Longrightarrow> content w' = (content w)(p \<mapsto> s)"
    and write_others: "eo_writeFile ops p s w = (r, w') \<Longrightarrow> p' \<noteq> p \<Longrightarrow> content w' p' = content w p'"

text \<open>The content a file gets by an edit.\<close>

definition edited_content :: "jstring \<Rightarrow> AppliedEditsResult \<Rightarrow> jstring" where
  "edited_content raw applied =
     fst (stripBom raw) @ restoreLineEndings (ae_newContent applied) (detectLineEnding (snd (stripBom raw)))"

definition edit_of_file :: "edit_runtime \<Rightarrow> jstring \<Rightarrow> Edit list \<Rightarrow> jstring \<Rightarrow> jstring + AppliedEditsResult" where
  "edit_of_file rt raw edits path =
     applyEditsToNormalizedContent (rt_nfkc rt) (normalizeToLF (snd (stripBom raw))) edits path"

lemma t_bind_Inr: "t_bind m k w = (Inr y, w') \<longleftrightarrow> (\<exists>x w1. m w = (Inr x, w1) \<and> k x w1 = (Inr y, w'))"
  by (auto simp: t_bind_def split: prod.splits sum.splits)

lemma t_bind_Inl:
  "t_bind m k w = (Inl e, w') \<longleftrightarrow> m w = (Inl e, w') \<or> (\<exists>x w1. m w = (Inr x, w1) \<and> k x w1 = (Inl e, w'))"
  by (auto simp: t_bind_def split: prod.splits sum.splits)

lemma throwIfAborted_cases:
  "throwIfAborted aborted w = (Inr u, w') \<longleftrightarrow> w' = w \<and> \<not> aborted w"
  "throwIfAborted aborted w = (Inl e, w') \<longleftrightarrow> w' = w \<and> aborted w \<and> e = aborted_error"
  by (auto simp: throwIfAborted_def)

lemma apply_edits_cases:
  "apply_edits rt c edits path w = (Inr r, w') \<longleftrightarrow> w' = w \<and> applyEditsToNormalizedContent (rt_nfkc rt) c edits path = Inr r"
  "apply_edits rt c edits path w = (Inl e, w') \<longleftrightarrow>
     w' = w \<and> (\<exists>msg. applyEditsToNormalizedContent (rt_nfkc rt) c edits path = Inl msg \<and> e = \<lparr>ne_message = msg, ne_code = None\<rparr>)"
  by (auto simp: apply_edits_def t_throw_def t_return_def split: sum.splits)

lemma check_access_Inr:
  "check_access ops aborted absolutePath path w = (Inr u, w') \<longleftrightarrow> eo_access ops absolutePath w = (Inr (), w')"
  by (auto simp: check_access_def t_bind_def throwIfAborted_def t_throw_def split: prod.splits sum.splits)

context edit_files
begin

lemma check_access_keeps: "check_access ops aborted absolutePath path w = (r, w') \<Longrightarrow> content w' = content w"
  using access_keeps
  by (auto simp: check_access_def t_bind_def throwIfAborted_def t_throw_def split: prod.splits sum.splits if_splits)

lemma edit_body_success:
  assumes "edit_body rt ops aborted absolutePath path edits w = (Inr r, w')"
  obtains raw applied where "content w absolutePath = Some raw" "edit_of_file rt raw edits path = Inr applied"
    "content w' = (content w)(absolutePath \<mapsto> edited_content raw applied)" "r = edit_result rt path edits applied"
proof -
  obtain w1 w2 w3 raw applied where steps: "check_access ops aborted absolutePath path w = (Inr (), w1)"
      "eo_readFile ops absolutePath w1 = (Inr raw, w2)" "edit_of_file rt raw edits path = Inr applied"
      "eo_writeFile ops absolutePath (edited_content raw applied) w2 = (Inr (), w')" "r = edit_result rt path edits applied"
    using assms
    by (auto simp: edit_body_def t_bind_Inr throwIfAborted_cases apply_edits_cases Let_def t_return_def edited_content_def
        edit_of_file_def)
  show ?thesis
  proof (rule that [OF _ steps(3) _ steps(5)])
    show "content w absolutePath = Some raw"
      using read_content [OF steps(2)] check_access_keeps [OF steps(1)] by simp
    show "content w' = (content w)(absolutePath \<mapsto> edited_content raw applied)"
      using write_content [OF steps(4)] read_keeps [OF steps(2)] check_access_keeps [OF steps(1)] by simp
  qed
qed

text \<open>A failed edit has changed nothing, or was aborted after it was done, or failed in the write itself.\<close>

lemma edit_body_failure:
  assumes "edit_body rt ops aborted absolutePath path edits w = (Inl e, w')"
  obtains (unchanged) "content w' = content w"
  | (late) raw applied where "content w absolutePath = Some raw" "edit_of_file rt raw edits path = Inr applied"
      "content w' = (content w)(absolutePath \<mapsto> edited_content raw applied)" "e = aborted_error" "aborted w'"
  | (failed_write) raw applied w1 w2 where "check_access ops aborted absolutePath path w = (Inr (), w1)"
      "eo_readFile ops absolutePath w1 = (Inr raw, w2)" "content w absolutePath = Some raw"
      "edit_of_file rt raw edits path = Inr applied"
      "eo_writeFile ops absolutePath (edited_content raw applied) w2 = (Inl e, w')" "content w2 = content w"
proof -
  consider "w' = w"
    | "check_access ops aborted absolutePath path w = (Inl e, w')"
    | w1 where "check_access ops aborted absolutePath path w = (Inr (), w1)" "w' = w1"
    | w1 where "check_access ops aborted absolutePath path w = (Inr (), w1)" "eo_readFile ops absolutePath w1 = (Inl e, w')"
    | w1 raw where "check_access ops aborted absolutePath path w = (Inr (), w1)" "eo_readFile ops absolutePath w1 = (Inr raw, w')"
    | w1 raw w2 applied where "check_access ops aborted absolutePath path w = (Inr (), w1)" "eo_readFile ops absolutePath w1 = (Inr raw, w2)"
        "edit_of_file rt raw edits path = Inr applied"
        "eo_writeFile ops absolutePath (edited_content raw applied) w2 = (Inl e, w')"
    | w1 raw w2 applied where "check_access ops aborted absolutePath path w = (Inr (), w1)" "eo_readFile ops absolutePath w1 = (Inr raw, w2)"
        "edit_of_file rt raw edits path = Inr applied"
        "eo_writeFile ops absolutePath (edited_content raw applied) w2 = (Inr (), w')" "e = aborted_error" "aborted w'"
    using assms
    by (auto simp: edit_body_def t_bind_Inl throwIfAborted_cases apply_edits_cases Let_def t_return_def edited_content_def
        edit_of_file_def)
  then show ?thesis
  proof cases
    case 1
    then show ?thesis by (intro unchanged) simp
  next
    case 2
    then show ?thesis by (intro unchanged check_access_keeps)
  next
    case 3
    then show ?thesis using check_access_keeps by (intro unchanged) blast
  next
    case 4
    then show ?thesis using check_access_keeps read_keeps by (intro unchanged) metis
  next
    case 5
    then show ?thesis using check_access_keeps read_keeps by (intro unchanged) metis
  next
    case (6 w1 raw w2 applied)
    then have k: "content w1 = content w" "content w2 = content w" using check_access_keeps read_keeps by simp_all
    show ?thesis
      by (rule failed_write [of w1 raw w2 applied]) (use 6 k read_content [OF 6(2)] in simp_all)
  next
    case (7 w1 raw w2 applied)
    then have k: "content w1 = content w" "content w2 = content w" using check_access_keeps read_keeps by simp_all
    show ?thesis
      by (rule late [of raw applied])
        (use 7 k read_content [OF 7(2)] write_content [OF 7(4)] in simp_all)
  qed
qed

end

section \<open>The local file system\<close>

text \<open>
  The default operations on a map of text files that may be readable or writable. Every operation is
  awaited, which takes a tick of a clock; the signal is aborted from some time on, or never. An
  operation may fail for any other reason: a fault of its time gives the error, and for a write what
  it left in the file when it had opened it already.
\<close>

record io_fault =
  iof_error :: node_error
  iof_left :: "jstring option"

record edit_world =
  ew_files :: "jstring \<rightharpoonup> jstring"
  ew_readable :: "jstring \<Rightarrow> bool"
  ew_writable :: "jstring \<Rightarrow> bool"
  ew_faults :: "nat \<rightharpoonup> io_fault"
  ew_clock :: nat

definition tick :: "edit_world \<Rightarrow> edit_world" where
  "tick w = w\<lparr>ew_clock := Suc (ew_clock w)\<rparr>"

definition no_such_file :: "jstring \<Rightarrow> jstring \<Rightarrow> node_error" where
  "no_such_file syscall p =
     \<lparr>ne_message = js ''ENOENT: no such file or directory, '' @ syscall @ [0x20, 0x27] @ p @ [0x27], ne_code = Some (js ''ENOENT'')\<rparr>"

definition not_permitted :: "jstring \<Rightarrow> jstring \<Rightarrow> node_error" where
  "not_permitted syscall p =
     \<lparr>ne_message = js ''EACCES: permission denied, '' @ syscall @ [0x20, 0x27] @ p @ [0x27], ne_code = Some (js ''EACCES'')\<rparr>"

definition fsReadFile :: "jstring \<Rightarrow> (edit_world, jstring) tool_op" where
  "fsReadFile p w =
     ((case ew_faults w (ew_clock w) of
         Some f \<Rightarrow> Inl (iof_error f)
       | None \<Rightarrow>
           (case ew_files w p of
              None \<Rightarrow> Inl (no_such_file (js ''open'') p)
            | Some s \<Rightarrow> if ew_readable w p then Inr s else Inl (not_permitted (js ''open'') p))), tick w)"

definition fsWriteFile :: "jstring \<Rightarrow> jstring \<Rightarrow> (edit_world, unit) tool_op" where
  "fsWriteFile p s w =
     (case ew_faults w (ew_clock w) of
        Some f \<Rightarrow>
          (Inl (iof_error f),
           tick (case iof_left f of None \<Rightarrow> w | Some left \<Rightarrow> w\<lparr>ew_files := (ew_files w)(p \<mapsto> left)\<rparr>))
      | None \<Rightarrow>
          if ew_files w p \<noteq> None \<and> \<not> ew_writable w p then (Inl (not_permitted (js ''open'') p), tick w)
          else (Inr (), tick (w\<lparr>ew_files := (ew_files w)(p \<mapsto> s)\<rparr>)))"

text \<open>\<open>access\<close> with \<open>R_OK\<close>, and with \<open>W_OK\<close> too when \<open>writes\<close>\<close>

definition fsAccess :: "bool \<Rightarrow> jstring \<Rightarrow> (edit_world, unit) tool_op" where
  "fsAccess writes p w =
     ((case ew_faults w (ew_clock w) of
         Some f \<Rightarrow> Inl (iof_error f)
       | None \<Rightarrow>
           (case ew_files w p of
              None \<Rightarrow> Inl (no_such_file (js ''access'') p)
            | Some s \<Rightarrow> if ew_readable w p \<and> (writes \<longrightarrow> ew_writable w p) then Inr () else Inl (not_permitted (js ''access'') p))),
      tick w)"

definition defaultEditOperations :: "edit_world EditOperations" where
  "defaultEditOperations = \<lparr>eo_readFile = fsReadFile, eo_writeFile = fsWriteFile, eo_access = fsAccess True\<rparr>"

definition previewFiles :: "edit_world PreviewFiles" where
  "previewFiles = \<lparr>pf_access = fsAccess False, pf_readFile = fsReadFile\<rparr>"

lemmas local_files_defs = defaultEditOperations_def previewFiles_def fsReadFile_def fsWriteFile_def fsAccess_def

definition aborted_from :: "nat option \<Rightarrow> edit_world \<Rightarrow> bool" where
  "aborted_from t w = (case t of None \<Rightarrow> False | Some n \<Rightarrow> n \<le> ew_clock w)"

lemma tick_files [simp]:
  "ew_files (tick w) = ew_files w" "ew_faults (tick w) = ew_faults w" "ew_readable (tick w) = ew_readable w"
  "ew_writable (tick w) = ew_writable w"
  by (simp_all add: tick_def)

interpretation local_files: edit_files defaultEditOperations ew_files
  by unfold_locales (auto simp: local_files_defs split: option.splits if_splits)

text \<open>Nothing goes wrong but what the files and their permissions say.\<close>

definition no_faults :: "edit_world \<Rightarrow> bool" where
  "no_faults w \<longleftrightarrow> ew_faults w = Map.empty"

text \<open>Looking at a file and reading it keep the faults to come.\<close>

lemma write_failure:
  assumes "eo_writeFile defaultEditOperations p s w = (Inl e, w')"
  shows "ew_files w' = ew_files w \<or>
    (\<exists>f left. ew_faults w (ew_clock w) = Some f \<and> iof_left f = Some left \<and> e = iof_error f \<and> ew_files w' = (ew_files w)(p \<mapsto> left))"
  using assms by (auto simp: local_files_defs split: option.splits if_splits)

lemma access_read_faults:
  "check_access defaultEditOperations aborted p path w = (r, w1) \<Longrightarrow> ew_faults w1 = ew_faults w"
  "eo_readFile defaultEditOperations p w = (rs, w1) \<Longrightarrow> ew_faults w1 = ew_faults w"
  by (auto simp: check_access_def t_bind_def throwIfAborted_def t_throw_def local_files_defs
      split: prod.splits sum.splits if_splits option.splits)

text \<open>Claim C26: an edit is all or nothing up to its write. Whatever the file holds, whatever the edits
  are, whichever operation fails and whenever the call is aborted, afterwards the files are as before
  and the call has failed; or the one file holds the whole edited content, and the call has returned
  its diff or was aborted after its write; or the write itself failed after it had opened the file:
  then the call fails with the error of the write, and the one file holds what the write left.\<close>

theorem edit_all_or_nothing:
  "case edit_execute rt defaultEditOperations (aborted_from t) resolveToCwd input w of (result, w') \<Rightarrow>
     (ew_files w' = ew_files w \<and> (\<exists>e. result = Inl e)) \<or>
     (\<exists>raw applied. ew_files w (resolveToCwd (ei_path input)) = Some raw \<and>
        edit_of_file rt raw (ei_edits input) (ei_path input) = Inr applied \<and>
        (ew_files w' = (ew_files w)(resolveToCwd (ei_path input) \<mapsto> edited_content raw applied) \<and>
           (result = Inr (edit_result rt (ei_path input) (ei_edits input) applied) \<or>
            result = Inl aborted_error \<and> aborted_from t w') \<or>
         (\<exists>n f left. ew_faults w n = Some f \<and> iof_left f = Some left \<and> result = Inl (iof_error f) \<and>
            ew_files w' = (ew_files w)(resolveToCwd (ei_path input) \<mapsto> left))))"
proof -
  obtain result w' where run: "edit_execute rt defaultEditOperations (aborted_from t) resolveToCwd input w = (result, w')"
    by (metis prod.exhaust)
  show ?thesis
  proof (cases "ei_edits input = []")
    case True
    then show ?thesis using run by (auto simp: edit_execute_def validateEditInput_def t_bind_def t_throw_def)
  next
    case False
    then have body: "edit_body rt defaultEditOperations (aborted_from t) (resolveToCwd (ei_path input)) (ei_path input) (ei_edits input) w =
        (result, w')"
      using run by (simp add: edit_execute_def validateEditInput_def t_bind_def t_return_def)
    show ?thesis
    proof (cases result)
      case (Inl e)
      show ?thesis
        unfolding run Inl
      proof (rule local_files.edit_body_failure [OF body [unfolded Inl]], goal_cases)
        case (3 raw applied w1 w2)
        then have "ew_faults w2 = ew_faults w" using access_read_faults by metis
        then show ?case using write_failure [OF 3(5)] 3 by auto
      qed auto
    next
      case (Inr r)
      show ?thesis
        unfolding run Inr by (rule local_files.edit_body_success [OF body [unfolded Inr]]) auto
    qed
  qed
qed

section \<open>Line endings are kept\<close>


lemma crlf_not_lf [simp]: "[newline] \<noteq> crlf" "crlf \<noteq> [newline]"
  by (simp_all add: crlf_def)

lemma restore_lf [simp]: "restoreLineEndings s [newline] = s"
  by (simp add: restoreLineEndings_def)











text \<open>Claim C27: the preview shows what the edit does. On the same files, when no operation fails for
  another reason and the file, if it may be read, may be written too, the preview of an edit is the diff
  the edit reports, with the same first changed line, and an edit that fails has the message of the
  preview. On a file that may be read but not written the edit is refused, while the preview shows
  what it would be if the file could be written.\<close>

theorem preview_matches_edit:
  assumes "ew_files v = ew_files w" "ew_readable v = ew_readable w" "no_faults v" "no_faults w" "edits \<noteq> []"
  shows "fst (computeEditsDiff rt previewFiles resolveToCwd path edits v) =
      (case fst (edit_execute rt defaultEditOperations (aborted_from None) resolveToCwd \<lparr>ei_path = path, ei_edits = edits\<rparr>
          (w\<lparr>ew_writable := (\<lambda>_. True)\<rparr>)) of
         Inl err \<Rightarrow> Inl (ne_message err)
       | Inr result \<Rightarrow> Inr \<lparr>er_diff = et_diff (et_details result), er_firstChangedLine = et_firstChangedLine (et_details result)\<rparr>) \<and>
    (if ew_files w (resolveToCwd path) \<noteq> None \<and> ew_readable w (resolveToCwd path) \<and> \<not> ew_writable w (resolveToCwd path)
     then fst (edit_execute rt defaultEditOperations (aborted_from None) resolveToCwd \<lparr>ei_path = path, ei_edits = edits\<rparr> w) =
       Inl \<lparr>ne_message = js ''Could not edit file: '' @ path @ js ''. Error code: EACCES.'', ne_code = None\<rparr>
     else fst (edit_execute rt defaultEditOperations (aborted_from None) resolveToCwd \<lparr>ei_path = path, ei_edits = edits\<rparr> w) =
       fst (edit_execute rt defaultEditOperations (aborted_from None) resolveToCwd \<lparr>ei_path = path, ei_edits = edits\<rparr>
          (w\<lparr>ew_writable := (\<lambda>_. True)\<rparr>)))"
proof (cases "ew_files w (resolveToCwd path)")
  case None
  then show ?thesis
    using assms
    by (simp add: computeEditsDiff_def edit_execute_def validateEditInput_def edit_body_def t_bind_def t_return_def t_throw_def
        throwIfAborted_def aborted_from_def check_access_def local_files_defs no_faults_def Let_def)
next
  case (Some raw)
  show ?thesis
    using assms Some
    by (cases "edit_of_file rt raw edits path"; cases "ew_readable w (resolveToCwd path)"; cases "ew_writable w (resolveToCwd path)")
      (simp_all add: computeEditsDiff_def edit_execute_def validateEditInput_def edit_body_def t_bind_def t_return_def t_throw_def
        throwIfAborted_def aborted_from_def check_access_def local_files_defs no_faults_def Let_def apply_edits_def edit_of_file_def
        edit_result_def not_permitted_def describe_error_def js_def)
qed

section \<open>Examples\<close>

text \<open>A file with a byte order mark and one Windows line ending; the edit replaces \<open>a\<close> by \<open>x\<close>.\<close>

definition demo_runtime_edit :: edit_runtime where
  "demo_runtime_edit = \<lparr>rt_nfkc = (\<lambda>s. s), rt_diffLines = demo_diff, rt_createTwoFilesPatch = (\<lambda>_ _ _ _ _. [])\<rparr>"

definition demo_world :: edit_world where
  "demo_world = \<lparr>ew_files = [js ''f'' \<mapsto> [0xFEFF, 0x61, carriage, newline, 0x63]], ew_readable = (\<lambda>_. True),
     ew_writable = (\<lambda>_. True), ew_faults = Map.empty, ew_clock = 0\<rparr>"

definition demo_edit :: Edit where
  "demo_edit = \<lparr>ed_oldText = [0x61], ed_newText = [0x78]\<rparr>"

lemma demo_text_once: "occurs_once [0x61] [0x61, newline, 0x63]"
  unfolding occurs_once_def
proof (rule ex1I [of _ 0])
  fix i assume i: "i + length [0x61 :: jchar] \<le> length [0x61, newline, 0x63] \<and> prefix [0x61] (drop i [0x61, newline, 0x63])"
  then have "i = 0 \<or> i = 1 \<or> i = 2" by auto
  with i show "i = 0" by auto
qed simp

lemma demo_text_folded: "normalizeForFuzzyMatch (\<lambda>s. s) [0x61, newline, 0x63] = [0x61, newline, 0x63]"
  by (simp add: normalizeForFuzzyMatch_def fold_to_ascii_eq trim_end_def is_js_space_def ascii_defs)

lemma demo_text_count: "countOccurrences (\<lambda>s. s) [0x61, newline, 0x63] [0x61] = 1"
  by (simp add: countOccurrences_def demo_text_folded demo_folded split_string_Cons split_string_single)


lemma preview_matches_edit_witness:
  "\<exists>d. fst (computeEditsDiff demo_runtime_edit previewFiles (\<lambda>p. p) (js ''f'') [demo_edit] demo_world) = Inr d \<and>
     fst (edit_execute demo_runtime_edit defaultEditOperations (aborted_from None) (\<lambda>p. p)
        \<lparr>ei_path = js ''f'', ei_edits = [demo_edit]\<rparr> demo_world) \<noteq> Inl aborted_error"
proof -
  have w: "demo_world\<lparr>ew_writable := (\<lambda>_. True)\<rparr> = demo_world" by (simp add: demo_world_def)
  have "fst (computeEditsDiff demo_runtime_edit previewFiles (\<lambda>p. p) (js ''f'') [demo_edit] demo_world) =
    (case fst (edit_execute demo_runtime_edit defaultEditOperations (aborted_from None) (\<lambda>p. p)
        \<lparr>ei_path = js ''f'', ei_edits = [demo_edit]\<rparr> demo_world) of
       Inl err \<Rightarrow> Inl (ne_message err)
     | Inr result \<Rightarrow> Inr \<lparr>er_diff = et_diff (et_details result), er_firstChangedLine = et_firstChangedLine (et_details result)\<rparr>)"
    using preview_matches_edit [of demo_world demo_world "[demo_edit]" demo_runtime_edit "\<lambda>p. p" "js ''f''"]
    unfolding w by (auto simp: demo_world_def no_faults_def)
  moreover have "applyEditsToNormalizedContent (\<lambda>s. s) [0x61, newline, 0x63] [demo_edit] (js ''f'') =
      Inr \<lparr>ae_baseContent = [0x61, newline, 0x63], ae_newContent = after_edit [([], [0x61], [0x78])] @ [newline, 0x63]\<rparr>"
    by (rule edits_are_applied)
      (auto simp: demo_edit_def demo_text_once demo_text_count demo_folded normalize_edit_def normalizeToLF_def edit_of_def)
  then have "\<exists>d. fst (computeEditsDiff demo_runtime_edit previewFiles (\<lambda>p. p) (js ''f'') [demo_edit] demo_world) = Inr d"
    by (simp add: computeEditsDiff_def local_files_defs demo_world_def demo_runtime_edit_def stripBom_def normalizeToLF_def)
  ultimately show ?thesis by (auto split: sum.splits)
qed

end
