(* ===== verification/StdinBuffer.thy ===== *)
theory StdinBuffer
  imports Digits
begin

text \<open>
  \<open>packages/tui/src/stdin-buffer.ts\<close>: terminal input arrives in chunks of any size and leaves as
  whole key presses, escape sequences and pasted texts. The state is the record \<open>StdinBuffer\<close>; what
  the code emits is the list of events an operation returns; the timer is a flag and its firing an
  operation. Buffers of bytes are decoded by the runtime, a parameter.
\<close>

section \<open>Escape sequences\<close>

abbreviation ESC :: jchar where
  "ESC \<equiv> 0x1B"

definition BRACKETED_PASTE_START :: jstring where
  "BRACKETED_PASTE_START = [ESC, 0x5B, 0x32, 0x30, 0x30, 0x7E]"

definition BRACKETED_PASTE_END :: jstring where
  "BRACKETED_PASTE_END = [ESC, 0x5B, 0x32, 0x30, 0x31, 0x7E]"

datatype sequence_status = Complete | Incomplete | NotEscape

text \<open>\<open>/^<\d+;\d+;\d+[Mm]$/\<close>\<close>

definition mouse_match :: "jstring \<Rightarrow> bool" where
  "mouse_match payload =
     (case payload of
        [] \<Rightarrow> False
      | c # s \<Rightarrow>
          c = 0x3C \<and>
          (case some_digits s of
             Some (_, d # s1) \<Rightarrow>
               d = 0x3B \<and>
               (case some_digits s1 of
                  Some (_, e # s2) \<Rightarrow>
                    e = 0x3B \<and>
                    (case some_digits s2 of Some (_, [m]) \<Rightarrow> m = 0x4D \<or> m = 0x6D | _ \<Rightarrow> False)
                | _ \<Rightarrow> False)
           | _ \<Rightarrow> False))"

definition isCompleteCsiSequence :: "jstring \<Rightarrow> sequence_status" where
  "isCompleteCsiSequence data =
     (if \<not> prefix [ESC, 0x5B] data then Complete
      else if length data < 3 then Incomplete
      else
        (let payload = drop 2 data; lastChar = last payload
         in if 0x40 \<le> lastChar \<and> lastChar \<le> 0x7E then
              if prefix [0x3C] payload then
                if mouse_match payload then Complete
                else if lastChar = 0x4D \<or> lastChar = 0x6D then
                  (let parts = split_on 0x3B (butlast (tl payload))
                   in if length parts = 3 \<and> list_all all_digits parts then Complete else Incomplete)
                else Incomplete
              else Complete
            else Incomplete))"

definition isCompleteOscSequence :: "jstring \<Rightarrow> sequence_status" where
  "isCompleteOscSequence data =
     (if \<not> prefix [ESC, 0x5D] data then Complete
      else if suffix [ESC, 0x5C] data \<or> suffix [7] data then Complete else Incomplete)"

definition isCompleteDcsSequence :: "jstring \<Rightarrow> sequence_status" where
  "isCompleteDcsSequence data =
     (if \<not> prefix [ESC, 0x50] data then Complete
      else if suffix [ESC, 0x5C] data then Complete else Incomplete)"

definition isCompleteApcSequence :: "jstring \<Rightarrow> sequence_status" where
  "isCompleteApcSequence data =
     (if \<not> prefix [ESC, 0x5F] data then Complete
      else if suffix [ESC, 0x5C] data then Complete else Incomplete)"

definition isCompleteSequence :: "jstring \<Rightarrow> sequence_status" where
  "isCompleteSequence data =
     (if \<not> prefix [ESC] data then NotEscape
      else if length data = 1 then Incomplete
      else
        (let afterEsc = drop 1 data
         in if prefix [0x5B] afterEsc then
              if prefix [0x5B, 0x4D] afterEsc then (if 6 \<le> length data then Complete else Incomplete)
              else isCompleteCsiSequence data
            else if prefix [0x5D] afterEsc then isCompleteOscSequence data
            else if prefix [0x50] afterEsc then isCompleteDcsSequence data
            else if prefix [0x5F] afterEsc then isCompleteApcSequence data
            else if prefix [0x4F] afterEsc then (if 2 \<le> length afterEsc then Complete else Incomplete)
            else Complete))"

section \<open>Splitting a buffer\<close>

text \<open>The end of the sequence at the start of \<open>remaining\<close>: the shortest candidate that is not
  incomplete; \<open>None\<close> when there is none.\<close>

function sequence_end :: "jstring \<Rightarrow> nat \<Rightarrow> nat option" where
  "sequence_end remaining seqEnd =
     (if length remaining < seqEnd then None
      else if isCompleteSequence (take seqEnd remaining) = Incomplete then sequence_end remaining (Suc seqEnd)
      else Some seqEnd)"
  by auto
termination
  by (relation "measure (\<lambda>(remaining, seqEnd). Suc (length remaining) - seqEnd)") auto

declare sequence_end.simps [simp del]

text \<open>The characters that start a new escape sequence after an escape.\<close>

definition starts_sequence :: "jchar \<Rightarrow> bool" where
  "starts_sequence c \<longleftrightarrow> c \<in> {0x5B, 0x5D, 0x4F, 0x50, 0x5F}"

text \<open>The length of the first piece: one character, or an escape sequence, where two escapes before
  the start of another sequence are two pieces.\<close>

definition piece_length :: "jstring \<Rightarrow> nat option" where
  "piece_length remaining =
     (if prefix [ESC] remaining then
        (case sequence_end remaining 1 of
           None \<Rightarrow> None
         | Some seqEnd \<Rightarrow>
             if take seqEnd remaining = [ESC, ESC] \<and> seqEnd < length remaining \<and> starts_sequence (remaining ! seqEnd)
             then Some 1 else Some seqEnd)
      else Some 1)"

lemma sequence_end_bounds: "sequence_end s n = Some k \<Longrightarrow> n \<le> k \<and> k \<le> length s"
  by (induction s n rule: sequence_end.induct) (subst (asm) (2) sequence_end.simps, auto split: if_splits)

lemma piece_length_bounds: "piece_length s = Some k \<Longrightarrow> s \<noteq> [] \<Longrightarrow> 0 < k \<and> k \<le> length s"
  by (auto simp: piece_length_def Suc_le_eq dest!: sequence_end_bounds split: if_splits option.splits)

function extractCompleteSequences :: "jstring \<Rightarrow> jstring list \<times> jstring" where
  "extractCompleteSequences buffer =
     (if buffer = [] then ([], [])
      else case piece_length buffer of
             None \<Rightarrow> ([], buffer)
           | Some k \<Rightarrow>
               (let (sequences, remainder) = extractCompleteSequences (drop k buffer)
                in (take k buffer # sequences, remainder)))"
  by auto
termination
  by (relation "measure length") (auto dest!: piece_length_bounds)

declare extractCompleteSequences.simps [simp del]

section \<open>The buffer\<close>

record StdinBuffer =
  sb_buffer :: jstring
  sb_timeout :: bool
  sb_pasteMode :: bool
  sb_pasteBuffer :: jstring
  sb_pendingKitty :: "nat option"

definition new_stdin_buffer :: StdinBuffer where
  "new_stdin_buffer =
     \<lparr>sb_buffer = [], sb_timeout = False, sb_pasteMode = False, sb_pasteBuffer = [], sb_pendingKitty = None\<rparr>"

datatype stdin_event = Data jstring | Paste jstring

text \<open>\<open>/^\x1b\[(\d+)(?::\d*)?(?::\d+)?u$/\<close>: what may follow the code point.\<close>

definition kitty_tail :: "jstring \<Rightarrow> bool" where
  "kitty_tail s =
     (s = [0x75] \<or>
      (case s of
         [] \<Rightarrow> False
       | c # s1 \<Rightarrow>
           c = 0x3A \<and>
           (let s2 = dropWhile is_digit s1
            in s2 = [0x75] \<or>
               (case s2 of
                  [] \<Rightarrow> False
                | d # s3 \<Rightarrow> d = 0x3A \<and> (case some_digits s3 of Some (_, s4) \<Rightarrow> s4 = [0x75] | None \<Rightarrow> False)))))"

definition parseUnmodifiedKittyPrintableCodepoint :: "jstring \<Rightarrow> nat option" where
  "parseUnmodifiedKittyPrintableCodepoint sequence =
     (if prefix [ESC, 0x5B] sequence then
        (case some_digits (drop 2 sequence) of
           Some (ds, s) \<Rightarrow>
             if kitty_tail s then (let codepoint = digits_value ds in if 32 \<le> codepoint then Some codepoint else None)
             else None
         | None \<Rightarrow> None)
      else None)"

text \<open>A printable key that is reported both as a sequence and as itself is emitted once.\<close>

definition emitDataSequence :: "jstring \<Rightarrow> StdinBuffer \<Rightarrow> stdin_event list \<times> StdinBuffer" where
  "emitDataSequence sequence b =
     (let rawCodepoint = (if length sequence = 1 then Some (unat (hd sequence)) else None)
      in if rawCodepoint \<noteq> None \<and> rawCodepoint = sb_pendingKitty b then ([], b\<lparr>sb_pendingKitty := None\<rparr>)
         else ([Data sequence], b\<lparr>sb_pendingKitty := parseUnmodifiedKittyPrintableCodepoint sequence\<rparr>))"

fun emit_all :: "jstring list \<Rightarrow> StdinBuffer \<Rightarrow> stdin_event list \<times> StdinBuffer" where
  "emit_all [] b = ([], b)"
| "emit_all (s # ss) b =
     (let (es, b1) = emitDataSequence s b; (fs, b2) = emit_all ss b1 in (es @ fs, b2))"

text \<open>The end of a paste in the paste buffer: the text pasted, and what comes after it.\<close>

definition paste_end :: "jstring \<Rightarrow> (jstring \<times> jstring) option" where
  "paste_end pasteBuffer =
     (case index_of BRACKETED_PASTE_END pasteBuffer of
        None \<Rightarrow> None
      | Some endIndex \<Rightarrow> Some (take endIndex pasteBuffer, drop (endIndex + length BRACKETED_PASTE_END) pasteBuffer))"

lemma paste_end_length: "paste_end s = Some (t, rest) \<Longrightarrow> length rest < length s"
  by (auto simp: paste_end_def BRACKETED_PASTE_END_def dest!: index_of_Some_le split: option.splits)

text \<open>\<open>process\<close> for a string; \<open>more\<close> is what is still to be processed.\<close>

function process_string :: "jstring \<Rightarrow> StdinBuffer \<Rightarrow> stdin_event list \<times> StdinBuffer" where
  "process_string str b0 =
     (let b = b0\<lparr>sb_timeout := False\<rparr>
      in if str = [] \<and> sb_buffer b = [] then emitDataSequence [] b
         else
           (let buffer = sb_buffer b @ str
            in if sb_pasteMode b then
                 (let pasteBuffer = sb_pasteBuffer b @ buffer
                  in case paste_end pasteBuffer of
                       None \<Rightarrow> ([], b\<lparr>sb_buffer := [], sb_pasteBuffer := pasteBuffer\<rparr>)
                     | Some (pastedContent, remaining) \<Rightarrow>
                         (let b1 = b\<lparr>sb_buffer := [], sb_pasteMode := False, sb_pasteBuffer := [], sb_pendingKitty := None\<rparr>
                          in if remaining = [] then ([Paste pastedContent], b1)
                             else let (es, b2) = process_string remaining b1 in (Paste pastedContent # es, b2)))
               else
                 (case index_of BRACKETED_PASTE_START buffer of
                    Some startIndex \<Rightarrow>
                      (let (es, b1) = (if 0 < startIndex then emit_all (fst (extractCompleteSequences (take startIndex buffer))) b else ([], b));
                           pasteBuffer = drop (startIndex + length BRACKETED_PASTE_START) buffer
                       in case paste_end pasteBuffer of
                            None \<Rightarrow>
                              (es, b1\<lparr>sb_buffer := [], sb_pasteMode := True, sb_pasteBuffer := pasteBuffer, sb_pendingKitty := None\<rparr>)
                          | Some (pastedContent, remaining) \<Rightarrow>
                              (let b2 = b1\<lparr>sb_buffer := [], sb_pasteMode := False, sb_pasteBuffer := [], sb_pendingKitty := None\<rparr>
                               in if remaining = [] then (es @ [Paste pastedContent], b2)
                                  else let (fs, b3) = process_string remaining b2 in (es @ Paste pastedContent # fs, b3)))
                  | None \<Rightarrow>
                      (let (sequences, remainder) = extractCompleteSequences buffer;
                           (es, b1) = emit_all sequences (b\<lparr>sb_buffer := remainder\<rparr>)
                       in (es, b1\<lparr>sb_timeout := remainder \<noteq> []\<rparr>)))))"
  by auto
termination
  by (relation "measure (\<lambda>(str, b). length str + length (sb_buffer b) + length (sb_pasteBuffer b))")
    (auto dest!: paste_end_length)

declare process_string.simps [simp del]

datatype stdin_data = InputText jstring | InputBytes "8 word list"

definition input_text :: "(8 word list \<Rightarrow> jstring) \<Rightarrow> stdin_data \<Rightarrow> jstring" where
  "input_text bufferToString data =
     (case data of
        InputText s \<Rightarrow> s
      | InputBytes bytes \<Rightarrow>
          (case bytes of
             [b] \<Rightarrow> if 127 < unat b then [ESC, of_nat (unat b - 128)] else bufferToString bytes
           | _ \<Rightarrow> bufferToString bytes))"

definition process :: "(8 word list \<Rightarrow> jstring) \<Rightarrow> stdin_data \<Rightarrow> StdinBuffer \<Rightarrow> stdin_event list \<times> StdinBuffer" where
  "process bufferToString data b = process_string (input_text bufferToString data) b"

definition flush :: "StdinBuffer \<Rightarrow> jstring list \<times> StdinBuffer" where
  "flush b =
     (if sb_buffer b = [] then ([], b\<lparr>sb_timeout := False\<rparr>)
      else ([sb_buffer b], b\<lparr>sb_timeout := False, sb_buffer := [], sb_pendingKitty := None\<rparr>))"

text \<open>The timer fires.\<close>

definition timeout_fires :: "StdinBuffer \<Rightarrow> stdin_event list \<times> StdinBuffer" where
  "timeout_fires b = (let (flushed, b1) = flush b in emit_all flushed b1)"

definition clear :: "StdinBuffer \<Rightarrow> StdinBuffer" where
  "clear b = b\<lparr>sb_timeout := False, sb_buffer := [], sb_pasteMode := False, sb_pasteBuffer := [], sb_pendingKitty := None\<rparr>"

section \<open>How a buffer is split\<close>

lemma extract_Nil [simp]: "extractCompleteSequences [] = ([], [])"
  by (simp add: extractCompleteSequences.simps)

lemma extract_None: "piece_length a = None \<Longrightarrow> extractCompleteSequences a = ([], a)"
  by (subst extractCompleteSequences.simps) simp

lemma extract_Some:
  "piece_length a = Some k \<Longrightarrow> a \<noteq> [] \<Longrightarrow>
   extractCompleteSequences a = (take k a # fst (extractCompleteSequences (drop k a)), snd (extractCompleteSequences (drop k a)))"
  by (subst extractCompleteSequences.simps) (simp add: case_prod_unfold Let_def)

lemma extract_concat: "concat (fst (extractCompleteSequences a)) @ snd (extractCompleteSequences a) = a"
proof (induction a rule: extractCompleteSequences.induct)
  case (1 a)
  show ?case
  proof (cases "a = []")
    case False
    then show ?thesis
      using 1 by (cases "piece_length a") (simp_all add: extract_None extract_Some)
  qed simp
qed

lemma sequence_end_least:
  "sequence_end s n = Some k \<Longrightarrow> isCompleteSequence (take k s) \<noteq> Incomplete \<and>
     (\<forall>j. n \<le> j \<and> j < k \<longrightarrow> isCompleteSequence (take j s) = Incomplete)"
proof (induction s n rule: sequence_end.induct)
  case (1 s n)
  show ?case
  proof (cases "isCompleteSequence (take n s) = Incomplete")
    case True
    then have "sequence_end s (Suc n) = Some k" "\<not> length s < n"
      using "1.prems" by (subst (asm) sequence_end.simps; simp split: if_splits)+
    then show ?thesis using "1.IH" True by (metis Suc_leI le_neq_implies_less)
  next
    case False
    then show ?thesis using "1.prems" by (subst (asm) sequence_end.simps) (auto split: if_splits)
  qed
qed

lemma sequence_end_None:
  "sequence_end s n = None \<Longrightarrow> n \<le> j \<Longrightarrow> j \<le> length s \<Longrightarrow> isCompleteSequence (take j s) = Incomplete"
proof (induction s n rule: sequence_end.induct)
  case (1 s n)
  then have here: "isCompleteSequence (take n s) = Incomplete" and "sequence_end s (Suc n) = None"
    by (subst (asm) (2) sequence_end.simps; simp split: if_splits)+
  then show ?case using 1 by (cases "n = j") (simp_all add: not_less Suc_le_eq)
qed

lemma sequence_end_append: "sequence_end a n = Some k \<Longrightarrow> sequence_end (a @ b) n = Some k"
proof (induction a n rule: sequence_end.induct)
  case (1 a n)
  have n: "n \<le> length a" using sequence_end_bounds [OF "1.prems"] by simp
  show ?case
  proof (cases "isCompleteSequence (take n a) = Incomplete")
    case True
    then have "sequence_end a (Suc n) = Some k" using "1.prems" n by (subst (asm) sequence_end.simps) simp
    then show ?thesis using "1.IH" True n by (subst sequence_end.simps) simp
  next
    case False
    then show ?thesis using "1.prems" n by (subst (asm) sequence_end.simps, subst sequence_end.simps) simp
  qed
qed

lemma piece_length_append:
  assumes "piece_length a = Some k" "a \<noteq> []" "\<not> suffix [ESC, ESC] a \<or> k < length a"
  shows "piece_length (a @ b) = Some k"
proof (cases "prefix [ESC] a")
  case True
  then obtain n where n: "sequence_end a 1 = Some n"
    using assms(1) by (auto simp: piece_length_def split: option.splits)
  have le: "n \<le> length a" using sequence_end_bounds [OF n] by simp
  have "prefix [ESC] (a @ b)" using True by simp
  moreover have "take n (a @ b) = take n a" using le by simp
  moreover have "n < length a \<or> take n a \<noteq> [ESC, ESC]"
  proof (rule ccontr)
    assume "\<not> (n < length a \<or> take n a \<noteq> [ESC, ESC])"
    then have "a = [ESC, ESC]" "n = length a" using le by auto
    then show False using assms(1,3) True n by (simp add: piece_length_def suffix_def)
  qed
  ultimately show ?thesis
    using assms(1) True n sequence_end_append [OF n, of b] by (auto simp: piece_length_def nth_append)
next
  case False
  then show ?thesis using assms(1,2) by (cases a) (auto simp: piece_length_def)
qed

text \<open>A buffer can be split piece by piece as it arrives, unless it is cut right after two escapes,
  where the next character decides.\<close>

lemma extract_append:
  "\<not> suffix [ESC, ESC] a \<Longrightarrow>
   extractCompleteSequences (a @ b) =
     (fst (extractCompleteSequences a) @ fst (extractCompleteSequences (snd (extractCompleteSequences a) @ b)),
      snd (extractCompleteSequences (snd (extractCompleteSequences a) @ b)))"
proof (induction a rule: extractCompleteSequences.induct)
  case (1 a)
  show ?case
  proof (cases "piece_length a")
    case None
    then show ?thesis by (simp add: extract_None)
  next
    case (Some k)
    show ?thesis
    proof (cases "a = []")
      case False
      have k: "k \<le> length a" using piece_length_bounds [OF Some False] by simp
      have "piece_length (a @ b) = Some k" by (rule piece_length_append) (use Some False "1.prems" in auto)
      moreover have "\<not> suffix [ESC, ESC] (drop k a)"
        using "1.prems" suffix_order.trans suffix_drop by blast
      ultimately show ?thesis
        using "1.IH" [OF False Some] Some False k by (simp add: extract_Some)
    qed simp
  qed
qed

section \<open>What the pieces are\<close>

text \<open>
  A whole escape sequence is complete and none of its beginnings is. Where a piece \<open>s\<close> is followed by
  the input \<open>r\<close>, \<open>s\<close> has to be a character other than an escape or a whole sequence; two escapes are
  one piece, Alt and Escape, unless the second one starts a sequence: then the first one is a piece.
\<close>

definition whole_sequence :: "jstring \<Rightarrow> bool" where
  "whole_sequence s \<longleftrightarrow>
     prefix [ESC] s \<and> isCompleteSequence s = Complete \<and>
     (\<forall>j. 1 \<le> j \<and> j < length s \<longrightarrow> isCompleteSequence (take j s) = Incomplete)"

definition goes_on :: "jstring \<Rightarrow> bool" where
  "goes_on r \<longleftrightarrow> r \<noteq> [] \<and> starts_sequence (hd r)"

definition right_piece :: "jstring \<Rightarrow> jstring \<Rightarrow> bool" where
  "right_piece s r \<longleftrightarrow>
     length s = 1 \<and> s \<noteq> [ESC] \<or>
     whole_sequence s \<and> \<not> (s = [ESC, ESC] \<and> goes_on r) \<or>
     s = [ESC] \<and> prefix [ESC] r \<and> goes_on (tl r)"

fun right_pieces :: "jstring list \<Rightarrow> jstring \<Rightarrow> bool" where
  "right_pieces [] r \<longleftrightarrow> True"
| "right_pieces (s # ss) r \<longleftrightarrow> right_piece s (concat ss @ r) \<and> right_pieces ss r"

text \<open>What waits for more input: every beginning of it is an unfinished sequence.\<close>

definition unfinished :: "jstring \<Rightarrow> bool" where
  "unfinished r \<longleftrightarrow> (\<forall>j. 1 \<le> j \<and> j \<le> length r \<longrightarrow> isCompleteSequence (take j r) = Incomplete)"

lemma escape_kinds:
  "isCompleteCsiSequence s \<noteq> NotEscape" "isCompleteOscSequence s \<noteq> NotEscape"
  "isCompleteDcsSequence s \<noteq> NotEscape" "isCompleteApcSequence s \<noteq> NotEscape"
  by (simp_all add: isCompleteCsiSequence_def isCompleteOscSequence_def isCompleteDcsSequence_def isCompleteApcSequence_def Let_def)

lemma not_escape_iff: "isCompleteSequence s = NotEscape \<longleftrightarrow> \<not> prefix [ESC] s"
  unfolding isCompleteSequence_def Let_def using escape_kinds by (simp split: if_split)

lemma sequence_end_iff:
  "sequence_end s n = Some k \<longleftrightarrow> n \<le> k \<and> k \<le> length s \<and> isCompleteSequence (take k s) \<noteq> Incomplete \<and>
     (\<forall>j. n \<le> j \<and> j < k \<longrightarrow> isCompleteSequence (take j s) = Incomplete)"
proof
  assume "sequence_end s n = Some k"
  then show "n \<le> k \<and> k \<le> length s \<and> isCompleteSequence (take k s) \<noteq> Incomplete \<and>
     (\<forall>j. n \<le> j \<and> j < k \<longrightarrow> isCompleteSequence (take j s) = Incomplete)"
    using sequence_end_bounds sequence_end_least by blast
next
  assume k: "n \<le> k \<and> k \<le> length s \<and> isCompleteSequence (take k s) \<noteq> Incomplete \<and>
     (\<forall>j. n \<le> j \<and> j < k \<longrightarrow> isCompleteSequence (take j s) = Incomplete)"
  then obtain k' where k': "sequence_end s n = Some k'" using sequence_end_None by (cases "sequence_end s n") blast+
  have "\<not> k < k'" "\<not> k' < k" using k sequence_end_least [OF k'] sequence_end_bounds [OF k'] by blast+
  then show "sequence_end s n = Some k" using k' by simp
qed

lemma whole_sequence_end:
  assumes "s \<noteq> []" "prefix [ESC] s"
  shows "sequence_end (s @ r) 1 = Some (length s) \<longleftrightarrow> whole_sequence s"
proof -
  have "isCompleteSequence s \<noteq> Incomplete \<longleftrightarrow> isCompleteSequence s = Complete"
    using not_escape_iff assms(2) by (cases "isCompleteSequence s") auto
  moreover have "take j (s @ r) = take j s" if "j < length s" for j using that by simp
  ultimately show ?thesis
    using assms by (auto simp: sequence_end_iff whole_sequence_def Suc_le_eq)
qed

lemma single_escape: "isCompleteSequence [ESC] = Incomplete" "isCompleteSequence [ESC, ESC] = Complete"
  by (simp_all add: isCompleteSequence_def)

lemma piece_length_iff:
  assumes ne: "s \<noteq> []"
  shows "piece_length (s @ r) = Some (length s) \<longleftrightarrow> right_piece s r"
proof (cases "prefix [ESC] s")
  case False
  then have "\<not> prefix [ESC] (s @ r)" using ne by (cases s) auto
  then show ?thesis
    using False by (auto simp: piece_length_def right_piece_def whole_sequence_def)
next
  case True
  then obtain u where s: "s = ESC # u" by (auto simp: prefix_def)
  have p: "prefix [ESC] (s @ r)" using s by simp
  show ?thesis
  proof (cases "u = []")
    case True
    then have s1: "s = [ESC]" by (simp add: s)
    have n: "sequence_end (s @ r) 1 \<noteq> Some 1" by (simp add: sequence_end_iff s1 single_escape)
    have w: "\<not> whole_sequence s" by (simp add: s1 whole_sequence_def single_escape)
    have "piece_length (s @ r) = Some 1 \<longleftrightarrow>
        (\<exists>k. sequence_end (s @ r) 1 = Some k \<and> take k (s @ r) = [ESC, ESC] \<and> k < length (s @ r) \<and> starts_sequence ((s @ r) ! k))"
      using p n by (auto simp: piece_length_def split: option.splits)
    also have "\<dots> \<longleftrightarrow> prefix [ESC] r \<and> goes_on (tl r)"
    proof
      assume "\<exists>k. sequence_end (s @ r) 1 = Some k \<and> take k (s @ r) = [ESC, ESC] \<and> k < length (s @ r) \<and> starts_sequence ((s @ r) ! k)"
      then obtain k where k: "take k (s @ r) = [ESC, ESC]" "k < length (s @ r)" "starts_sequence ((s @ r) ! k)" by blast
      have "length (take k (s @ r)) = 2" using k(1) by simp
      then have "k = 2" using k(2) by simp
      then show "prefix [ESC] r \<and> goes_on (tl r)"
        using k by (cases r; cases "tl r") (auto simp: s1 goes_on_def)
    next
      assume r: "prefix [ESC] r \<and> goes_on (tl r)"
      then obtain c v where v: "r = ESC # c # v" "starts_sequence c"
        by (cases r; cases "tl r") (auto simp: goes_on_def)
      have "sequence_end (s @ r) 1 = Some 2"
        unfolding sequence_end_iff
      proof (intro conjI allI impI)
        fix j :: nat assume "1 \<le> j \<and> j < 2"
        then have "j = 1" by simp
        then show "isCompleteSequence (take j (s @ r)) = Incomplete" by (simp add: s1 single_escape)
      qed (use v in \<open>simp_all add: s1 single_escape\<close>)
      then show "\<exists>k. sequence_end (s @ r) 1 = Some k \<and> take k (s @ r) = [ESC, ESC] \<and> k < length (s @ r) \<and> starts_sequence ((s @ r) ! k)"
        by (intro exI [of _ 2]) (use v in \<open>simp add: s1\<close>)
    qed
    finally show ?thesis using w by (auto simp: right_piece_def s1)
  next
    case False
    have "piece_length (s @ r) = Some (length s) \<longleftrightarrow>
        sequence_end (s @ r) 1 = Some (length s) \<and> \<not> (s = [ESC, ESC] \<and> goes_on r)"
      using p False by (cases r) (auto simp: piece_length_def s goes_on_def nth_append split: option.splits)
    then show ?thesis using whole_sequence_end [OF ne True] False by (auto simp: right_piece_def s)
  qed
qed

lemma unfinished_iff: "unfinished a \<longleftrightarrow> a = [] \<or> piece_length a = None"
proof (cases "prefix [ESC] a")
  case True
  have "piece_length a = None \<longleftrightarrow> sequence_end a 1 = None"
    using True by (auto simp: piece_length_def split: option.splits)
  also have "\<dots> \<longleftrightarrow> unfinished a"
    unfolding unfinished_def using sequence_end_None [of a 1] sequence_end_iff [of a 1]
    by (cases "sequence_end a 1") fastforce+
  finally show ?thesis using True by auto
next
  case False
  have "a \<noteq> [] \<Longrightarrow> \<not> prefix [ESC] (take 1 a)" using False by (cases a) auto
  then have "a \<noteq> [] \<Longrightarrow> \<not> unfinished a"
    unfolding unfinished_def using not_escape_iff [of "take 1 a"] by (cases a) (auto dest: spec [of _ 1])
  then show ?thesis using False by (auto simp: piece_length_def unfinished_def)
qed

lemma extract_pieces:
  "right_pieces (fst (extractCompleteSequences a)) (snd (extractCompleteSequences a)) \<and>
   unfinished (snd (extractCompleteSequences a))"
proof (induction a rule: extractCompleteSequences.induct)
  case (1 a)
  show ?case
  proof (cases "a = []")
    case False
    show ?thesis
    proof (cases "piece_length a")
      case None
      then show ?thesis using unfinished_iff [of a] by (simp add: extract_None)
    next
      case (Some k)
      have k: "0 < k" "k \<le> length a" using piece_length_bounds [OF Some False] by simp_all
      have "length (take k a) = k" "take k a \<noteq> []" using k False by simp_all
      then have "right_piece (take k a) (drop k a)"
        using piece_length_iff [of "take k a" "drop k a"] Some by simp
      then show ?thesis using 1 [OF False Some] Some False extract_concat [of "drop k a"] by (simp add: extract_Some)
    qed
  qed (simp add: unfinished_def)
qed

lemma right_pieces_extract:
  "right_pieces ss r \<Longrightarrow> unfinished r \<Longrightarrow> extractCompleteSequences (concat ss @ r) = (ss, r)"
proof (induction ss)
  case Nil
  then show ?case using extract_None unfinished_iff [of r] by (cases "r = []") auto
next
  case (Cons s ss)
  have ne: "s \<noteq> []" using Cons.prems(1) by (auto simp: right_piece_def whole_sequence_def)
  have "piece_length (s @ concat ss @ r) = Some (length s)"
    using Cons.prems(1) piece_length_iff [OF ne] by simp
  from extract_Some [OF this] show ?case using Cons ne by simp
qed

section \<open>The keys of a terminal\<close>

text \<open>
  The sequences that terminals send, by their grammars: CSI sequences with their parameters and final
  character, mouse reports in the old and the SGR form, OSC strings up to BEL or ST, DCS and APC
  strings up to ST, SS3 keys, and a character with Alt.
\<close>

abbreviation ST :: jstring where
  "ST \<equiv> [ESC, 0x5C]"

definition csi_final :: "jchar \<Rightarrow> bool" where
  "csi_final c \<longleftrightarrow> 0x40 \<le> c \<and> c \<le> 0x7E"

inductive key_sequence :: "jstring \<Rightarrow> bool" where
  key_csi: "\<forall>x \<in> set ps. \<not> csi_final x \<Longrightarrow> csi_final c \<Longrightarrow> \<not> prefix [0x3C] ps \<Longrightarrow> ps \<noteq> [] \<or> c \<noteq> 0x4D \<Longrightarrow>
    key_sequence (ESC # 0x5B # ps @ [c])"
| key_mouse: "key_sequence [ESC, 0x5B, 0x4D, b, x, y]"
| key_sgr_mouse: "all_digits b \<Longrightarrow> all_digits x \<Longrightarrow> all_digits y \<Longrightarrow> m = 0x4D \<or> m = 0x6D \<Longrightarrow>
    key_sequence (ESC # 0x5B # 0x3C # b @ [0x3B] @ x @ [0x3B] @ y @ [m])"
| key_osc_bel: "7 \<notin> set u \<Longrightarrow> index_of ST u = None \<Longrightarrow> key_sequence (ESC # 0x5D # u @ [7])"
| key_osc_st: "7 \<notin> set u \<Longrightarrow> index_of ST (u @ ST) = Some (length u) \<Longrightarrow> key_sequence (ESC # 0x5D # u @ ST)"
| key_dcs: "index_of ST (u @ ST) = Some (length u) \<Longrightarrow> key_sequence (ESC # 0x50 # u @ ST)"
| key_apc: "index_of ST (u @ ST) = Some (length u) \<Longrightarrow> key_sequence (ESC # 0x5F # u @ ST)"
| key_ss3: "key_sequence [ESC, 0x4F, c]"
| key_alt: "\<not> starts_sequence c \<Longrightarrow> key_sequence [ESC, c]"

text \<open>Keys one after the other; Alt and Escape before a key that continues an escape is ambiguous.\<close>

fun typed_keys :: "jstring list \<Rightarrow> bool" where
  "typed_keys [] \<longleftrightarrow> True"
| "typed_keys (k # ks) \<longleftrightarrow>
     ((\<exists>c. k = [c] \<and> c \<noteq> ESC) \<or> key_sequence k) \<and> \<not> (k = [ESC, ESC] \<and> goes_on (concat ks)) \<and> typed_keys ks"

lemma whole_sequenceI:
  assumes "isCompleteSequence (ESC # c # u) = Complete"
    "\<And>j. j < length u \<Longrightarrow> isCompleteSequence (ESC # c # take j u) = Incomplete"
  shows "whole_sequence (ESC # c # u)"
  unfolding whole_sequence_def
proof (intro conjI allI impI)
  fix j assume j: "1 \<le> j \<and> j < length (ESC # c # u)"
  show "isCompleteSequence (take j (ESC # c # u)) = Incomplete"
  proof (cases "j = 1")
    case False
    then obtain i where "j = Suc (Suc i)" using j by (cases j; cases "j - 1") auto
    then show ?thesis using assms(2) [of i] j by simp
  qed (simp add: single_escape)
qed (use assms in simp_all)

lemma st_at: "suffix pat (take m s) \<Longrightarrow> m \<le> length s \<Longrightarrow> prefix pat (drop (m - length pat) s)"
proof -
  assume "suffix pat (take m s)" "m \<le> length s"
  then obtain z where z: "take m s = z @ pat" by (auto simp: suffix_def)
  have "length (take m s) = length z + length pat" by (simp add: z)
  then have "length z = m - length pat" using \<open>m \<le> length s\<close> by simp
  moreover have "s = z @ pat @ drop m s" using append_take_drop_id [of m s] z by simp
  ultimately show ?thesis by (metis append_eq_conv_conj prefixI)
qed

text \<open>A string that ends with its first terminator has none in a part of it.\<close>

lemma no_st_before:
  assumes "index_of ST (u @ ST) = Some (length u)" "j < length u + 2"
  shows "\<not> suffix ST (take j (u @ ST))"
proof
  assume s: "suffix ST (take j (u @ ST))"
  then have "length ST \<le> length (take j (u @ ST))" by (rule suffix_length_le)
  then have "j - 2 < length u" using assms(2) by simp
  then show False using st_at [OF s] index_of_least [OF assms(1)] assms(2) by simp
qed

lemma no_st_inside: "index_of ST u = None \<Longrightarrow> \<not> suffix ST (take j u)"
  using st_at [of ST "min j (length u)" u] index_of_None [of ST u] by (metis min.cobounded2 take_all_iff min_def nat_le_linear)

lemma suffix_two: "c \<noteq> ESC \<Longrightarrow> c \<noteq> 0x5C \<Longrightarrow> suffix ST (e # c # u) \<longleftrightarrow> suffix ST u"
proof
  assume c: "c \<noteq> ESC" "c \<noteq> 0x5C" and "suffix ST (e # c # u)"
  then obtain z where z: "e # c # u = z @ ST" by (auto simp: suffix_def)
  then obtain z' where "z = e # c # z'" using c by (cases z; cases "tl z") auto
  then show "suffix ST u" using z by (simp add: suffix_def)
qed (auto simp: suffix_def)

lemma digit_not_final: "is_digit c \<Longrightarrow> \<not> 0x40 \<le> c"
proof
  assume "is_digit c" "0x40 \<le> c"
  then have "(0x40 :: jchar) \<le> 0x39" unfolding is_digit_def by (meson order_trans)
  then show False by simp
qed

lemma bel_inside: "suffix [7] (e # c # v) \<Longrightarrow> c \<noteq> (7 :: jchar) \<Longrightarrow> 7 \<in> set v"
  by (cases v rule: rev_cases) (auto simp: suffix_def Cons_eq_append_conv)

lemma key_sequence_whole: "key_sequence s \<Longrightarrow> whole_sequence s"
proof (induction rule: key_sequence.induct)
  case (key_csi ps c)
  have m: "\<not> prefix [0x5B, 0x4D] (0x5B # ps @ [c])"
    using key_csi by (cases ps) (auto simp: csi_final_def)
  have lt: "\<not> prefix [0x3C] (ps @ [c])"
    using key_csi(2,3) by (cases ps) (auto simp: csi_final_def)
  show ?case
  proof (rule whole_sequenceI)
    show "isCompleteSequence (ESC # 0x5B # ps @ [c]) = Complete"
      using m lt key_csi(2) by (simp add: isCompleteSequence_def isCompleteCsiSequence_def Let_def csi_final_def)
  next
    fix j assume j: "j < length (ps @ [c])"
    then have t: "take j (ps @ [c]) = take j ps" by simp
    have m': "\<not> prefix [0x4D] (take j ps)"
      using key_csi(1) by (cases ps; cases j) (auto simp: csi_final_def)
    show "isCompleteSequence (ESC # 0x5B # take j (ps @ [c])) = Incomplete"
    proof (cases "take j ps = []")
      case False
      then have "last (take j ps) \<in> set ps" using last_in_set in_set_takeD by metis
      then have "\<not> csi_final (last (take j ps))" using key_csi(1) by blast
      then show ?thesis
        using m' False unfolding t by (auto simp: isCompleteSequence_def isCompleteCsiSequence_def Let_def csi_final_def)
    next
      case True
      show ?thesis unfolding t True by (simp add: isCompleteSequence_def isCompleteCsiSequence_def)
    qed
  qed
next
  case (key_mouse b x y)
  show ?case
  proof (rule whole_sequenceI)
    fix j assume "j < length [0x4D, b, x, y]"
    then have "j = 0 \<or> j = 1 \<or> j = 2 \<or> j = 3" by auto
    then show "isCompleteSequence (ESC # 0x5B # take j [0x4D, b, x, y]) = Incomplete"
      by (elim disjE) (simp_all add: isCompleteSequence_def isCompleteCsiSequence_def)
  qed (simp add: isCompleteSequence_def)
next
  case (key_sgr_mouse b x y m)
  let ?body = "b @ [0x3B] @ x @ [0x3B] @ y"
  have digits: "0x3B \<notin> set b" "0x3B \<notin> set x" "0x3B \<notin> set y"
    using key_sgr_mouse(1-3) by (auto simp: all_digits_def is_digit_def)
  have parts: "split_on 0x3B ?body = [b, x, y]"
    using digits by (simp add: split_on_append_sep split_on_free)
  have small: "\<not> (0x40 \<le> z)" if "z \<in> set (0x3C # ?body)" for z
    using that key_sgr_mouse(1-3) digit_not_final by (auto simp: all_digits_def)
  show ?case
  proof (rule whole_sequenceI)
    have "butlast (?body @ [m]) = ?body" by (rule butlast_snoc)
    then show "isCompleteSequence (ESC # 0x5B # 0x3C # b @ [0x3B] @ x @ [0x3B] @ y @ [m]) = Complete"
      using key_sgr_mouse parts
      by (auto simp: isCompleteSequence_def isCompleteCsiSequence_def Let_def)
  next
    fix j assume j: "j < length (0x3C # b @ [0x3B] @ x @ [0x3B] @ y @ [m])"
    define v where "v = take j (0x3C # ?body)"
    have t: "take j (0x3C # b @ [0x3B] @ x @ [0x3B] @ y @ [m]) = v"
    proof -
      have eq: "0x3C # b @ [0x3B] @ x @ [0x3B] @ y @ [m] = (0x3C # ?body) @ [m]" by simp
      have "j - length (0x3C # ?body) = 0" using j by simp
      then show ?thesis unfolding eq take_append v_def by (simp only: take0 append_Nil2)
    qed
    show "isCompleteSequence (ESC # 0x5B # take j (0x3C # b @ [0x3B] @ x @ [0x3B] @ y @ [m])) = Incomplete"
    proof (cases "v = []")
      case False
      then have "last v \<in> set (0x3C # ?body)" unfolding v_def using last_in_set in_set_takeD by metis
      then have "\<not> 0x40 \<le> last v" by (rule small)
      moreover have "\<not> prefix [0x4D] v" by (cases j) (simp_all add: v_def)
      ultimately show ?thesis
        using False unfolding t by (simp add: isCompleteSequence_def isCompleteCsiSequence_def Let_def)
    qed (simp only: t, simp add: isCompleteSequence_def isCompleteCsiSequence_def)
  qed
next
  case (key_osc_bel u)
  show ?case
  proof (rule whole_sequenceI)
    fix j assume "j < length (u @ [7])"
    then have t: "take j (u @ [7]) = take j u" by simp
    have "\<not> suffix [7] (ESC # 0x5D # take j u)"
      using key_osc_bel(1) in_set_takeD [of 7 j u] by (auto simp: suffix_def Cons_eq_append_conv)
    then show "isCompleteSequence (ESC # 0x5D # take j (u @ [7])) = Incomplete"
      using no_st_inside [OF key_osc_bel(2)] unfolding t
      by (simp add: isCompleteSequence_def isCompleteOscSequence_def suffix_two)
  qed (simp add: isCompleteSequence_def isCompleteOscSequence_def suffix_Cons)
next
  case (key_osc_st u)
  show ?case
  proof (rule whole_sequenceI)
    show "isCompleteSequence (ESC # 0x5D # u @ ST) = Complete"
      using suffixI [of "u @ ST" u ST] by (simp add: isCompleteSequence_def isCompleteOscSequence_def suffix_Cons)
    fix j assume j: "j < length (u @ ST)"
    have "7 \<notin> set (take j (u @ ST))" using key_osc_st(1) in_set_takeD [of 7 j "u @ ST"] by auto
    then have "\<not> suffix [7] (ESC # 0x5D # take j (u @ ST))"
      using bel_inside by fastforce
    then show "isCompleteSequence (ESC # 0x5D # take j (u @ ST)) = Incomplete"
      using no_st_before [OF key_osc_st(2)] j
      by (simp add: isCompleteSequence_def isCompleteOscSequence_def suffix_two del: take_append)
  qed
next
  case (key_dcs u)
  show ?case
  proof (rule whole_sequenceI)
    show "isCompleteSequence (ESC # 0x50 # u @ ST) = Complete"
      using suffixI [of "u @ ST" u ST] by (simp add: isCompleteSequence_def isCompleteDcsSequence_def suffix_Cons)
    fix j assume "j < length (u @ ST)"
    then show "isCompleteSequence (ESC # 0x50 # take j (u @ ST)) = Incomplete"
      using no_st_before [OF key_dcs]
      by (simp add: isCompleteSequence_def isCompleteDcsSequence_def suffix_two del: take_append)
  qed
next
  case (key_apc u)
  show ?case
  proof (rule whole_sequenceI)
    show "isCompleteSequence (ESC # 0x5F # u @ ST) = Complete"
      using suffixI [of "u @ ST" u ST] by (simp add: isCompleteSequence_def isCompleteApcSequence_def suffix_Cons)
    fix j assume "j < length (u @ ST)"
    then show "isCompleteSequence (ESC # 0x5F # take j (u @ ST)) = Incomplete"
      using no_st_before [OF key_apc]
      by (simp add: isCompleteSequence_def isCompleteApcSequence_def suffix_two del: take_append)
  qed
next
  case (key_ss3 c)
  show ?case by (rule whole_sequenceI) (auto simp: isCompleteSequence_def)
next
  case (key_alt c)
  then show ?case by (intro whole_sequenceI) (auto simp: isCompleteSequence_def starts_sequence_def)
qed

lemma unfinished_goes: "unfinished r \<Longrightarrow> \<not> goes_on r"
  unfolding unfinished_def goes_on_def starts_sequence_def
  using not_escape_iff [of "take 1 r"] by (cases r) (auto dest: spec [of _ 1])

lemma goes_on_append: "goes_on (p @ r) \<longleftrightarrow> (if p = [] then goes_on r else goes_on p)"
  by (simp add: goes_on_def)

lemma typed_keys_right: "typed_keys ks \<Longrightarrow> unfinished r \<Longrightarrow> right_pieces ks r"
proof (induction ks)
  case (Cons k ks)
  have "\<not> (k = [ESC, ESC] \<and> goes_on (concat ks @ r))"
    using Cons.prems unfinished_goes unfolding goes_on_append by (simp split: if_splits)
  then have "right_piece k (concat ks @ r)"
    using Cons.prems(1) key_sequence_whole by (auto simp: right_piece_def)
  then show ?case using Cons by simp
qed simp

text \<open>Claim C32: the input is split at the right places, and there only. The result is the one and
  only way to cut the buffer into right pieces (characters other than escape, whole escape sequences,
  and an escape right before another one that starts a sequence) and an unfinished rest; so nothing
  is lost, changed or reordered, and no sequence is cut. Keys of a terminal, by the grammars of their
  sequences, come out one by one as they went in, whatever unfinished sequence follows; only Alt and
  Escape before a character that continues an escape is excluded.\<close>

theorem input_is_split:
  "(extractCompleteSequences buffer = (sequences, remainder) \<longleftrightarrow>
      concat sequences @ remainder = buffer \<and> right_pieces sequences remainder \<and> unfinished remainder) \<and>
   (typed_keys ks \<and> unfinished r \<longrightarrow> extractCompleteSequences (concat ks @ r) = (ks, r))"
proof (intro conjI iffI impI; (elim conjE)?)
  assume x: "extractCompleteSequences buffer = (sequences, remainder)"
  show "concat sequences @ remainder = buffer" using extract_concat [of buffer] x by simp
  show "right_pieces sequences remainder" "unfinished remainder" using extract_pieces [of buffer] x by simp_all
next
  assume "concat sequences @ remainder = buffer" "right_pieces sequences remainder" "unfinished remainder"
  then show "extractCompleteSequences buffer = (sequences, remainder)" using right_pieces_extract by blast
next
  assume "typed_keys ks" "unfinished r"
  then show "extractCompleteSequences (concat ks @ r) = (ks, r)" using right_pieces_extract typed_keys_right by blast
qed

section \<open>Emitting\<close>

text \<open>Emitting changes only the key that is expected to be repeated.\<close>

fun emitted :: "jstring list \<Rightarrow> nat option \<Rightarrow> stdin_event list \<times> nat option" where
  "emitted [] k = ([], k)"
| "emitted (s # ss) k =
     (if length s = 1 \<and> Some (unat (hd s)) = k then emitted ss None
      else let (es, k') = emitted ss (parseUnmodifiedKittyPrintableCodepoint s) in (Data s # es, k'))"

lemma emit_all_eq:
  "emit_all ss b = (fst (emitted ss (sb_pendingKitty b)), b\<lparr>sb_pendingKitty := snd (emitted ss (sb_pendingKitty b))\<rparr>)"
  by (induction ss arbitrary: b) (auto simp: emitDataSequence_def Let_def case_prod_unfold)

lemma emitted_append:
  "emitted (xs @ ys) k = (fst (emitted xs k) @ fst (emitted ys (snd (emitted xs k))), snd (emitted ys (snd (emitted xs k))))"
  by (induction xs arbitrary: k) (auto simp: Let_def case_prod_unfold)

section \<open>Chunks\<close>

fun process_chunks :: "jstring list \<Rightarrow> StdinBuffer \<Rightarrow> stdin_event list \<times> StdinBuffer" where
  "process_chunks [] b = ([], b)"
| "process_chunks (c # cs) b = (let (es, b1) = process_string c b; (fs, b2) = process_chunks cs b1 in (es @ fs, b2))"

lemma process_chunks_snoc:
  "process_chunks (cs @ [c]) b =
     (fst (process_chunks cs b) @ fst (process_string c (snd (process_chunks cs b))), snd (process_string c (snd (process_chunks cs b))))"
  by (induction cs arbitrary: b) (simp_all add: case_prod_unfold Let_def)

lemma process_plain:
  assumes "str \<noteq> []" "\<not> sb_pasteMode b" "index_of BRACKETED_PASTE_START (sb_buffer b @ str) = None"
  shows "process_string str b =
    (let x = extractCompleteSequences (sb_buffer b @ str); e = emitted (fst x) (sb_pendingKitty b)
     in (fst e, b\<lparr>sb_buffer := snd x, sb_timeout := snd x \<noteq> [], sb_pendingKitty := snd e\<rparr>))"
  using assms by (subst process_string.simps) (simp add: case_prod_unfold Let_def emit_all_eq)

lemma index_of_None_append: "index_of pat (a @ b) = None \<Longrightarrow> index_of pat a = None"
proof (rule ccontr)
  assume n: "index_of pat (a @ b) = None" and "index_of pat a \<noteq> None"
  then obtain i where "index_of pat a = Some i" by auto
  from index_of_Some_prefix [OF this] index_of_Some_le [OF this] have "prefix pat (drop i (a @ b))" by simp
  then show False using index_of_None [OF n] by blast
qed

text \<open>Claim C33: how the input is cut into chunks does not matter. As long as no paste starts and no
  chunk ends right after two escapes, processing the chunks one after the other emits the same events
  and leaves the same buffer as processing the whole input at once.\<close>

theorem chunks_do_not_matter:
  assumes "chunks \<noteq> []" "[] \<notin> set chunks" "\<not> sb_pasteMode b"
    and "index_of BRACKETED_PASTE_START (sb_buffer b @ concat chunks) = None"
    and "\<forall>i \<in> {1..<length chunks}. \<not> suffix [ESC, ESC] (sb_buffer b @ concat (take i chunks))"
  shows "process_chunks chunks b = process_string (concat chunks) b"
  using assms
proof (induction chunks rule: rev_nonempty_induct)
  case (single c)
  then show ?case by (simp add: case_prod_unfold Let_def)
next
  case (snoc c cs)
  have none: "index_of BRACKETED_PASTE_START (sb_buffer b @ concat cs @ c) = None" using snoc.prems by simp
  then have none1: "index_of BRACKETED_PASTE_START (sb_buffer b @ concat cs) = None"
    using index_of_None_append [of _ "sb_buffer b @ concat cs" c] by simp
  have cs: "concat cs \<noteq> []" using snoc.hyps snoc.prems(1) by (cases cs; cases "hd cs") auto
  have c: "c \<noteq> []" using snoc.prems(1) by auto
  have "\<forall>i \<in> {1..<length cs}. \<not> suffix [ESC, ESC] (sb_buffer b @ concat (take i cs))"
    using snoc.prems(4) by (auto simp: nth_append)
  then have IH: "process_chunks cs b = process_string (concat cs) b"
    using snoc.IH snoc.prems none1 by auto
  have cut: "\<not> suffix [ESC, ESC] (sb_buffer b @ concat cs)"
    using bspec [OF snoc.prems(4), of "length cs"] snoc.hyps by (auto simp: Suc_le_eq)
  let ?x = "extractCompleteSequences (sb_buffer b @ concat cs)"
  let ?y = "extractCompleteSequences (snd ?x @ c)"
  have whole: "extractCompleteSequences (sb_buffer b @ concat cs @ c) = (fst ?x @ fst ?y, snd ?y)"
    using extract_append [OF cut, of c] by simp
  have "sb_buffer b @ concat cs @ c = concat (fst ?x) @ snd ?x @ c"
    using extract_concat [of "sb_buffer b @ concat cs"] by (metis append.assoc)
  then have none2: "index_of BRACKETED_PASTE_START (snd ?x @ c) = None"
    using none index_of_None [OF none] index_of_Some_prefix
    by (metis append_eq_conv_conj drop_drop not_None_eq)
  show ?case
    unfolding process_chunks_snoc IH
    using process_plain [OF cs snoc.prems(2) none1] process_plain [of "concat cs @ c" b] none none2 c snoc.prems(2)
    by (simp add: Let_def whole process_plain emitted_append)
qed

section \<open>Pastes\<close>

lemma paste_start_pieces:
  "i < 6 \<Longrightarrow> extractCompleteSequences (take i BRACKETED_PASTE_START) = ([], take i BRACKETED_PASTE_START)"
proof -
  assume i: "i < 6"
  have "isCompleteSequence (take j BRACKETED_PASTE_START) = Incomplete" if "1 \<le> j" "j < 6" for j
  proof -
    have "j = 1 \<or> j = 2 \<or> j = 3 \<or> j = 4 \<or> j = 5" using that by auto
    then show ?thesis
      by (elim disjE) (simp_all add: BRACKETED_PASTE_START_def isCompleteSequence_def isCompleteCsiSequence_def)
  qed
  then have none: "sequence_end (take i BRACKETED_PASTE_START) n = None" if "1 \<le> n" for n
    using that i
    by (induction "take i BRACKETED_PASTE_START" n rule: sequence_end.induct)
      (subst sequence_end.simps, simp add: min_def BRACKETED_PASTE_START_def)
  show ?thesis
  proof (cases "i = 0")
    case False
    then have "prefix [ESC] (take i BRACKETED_PASTE_START)" by (cases i) (simp_all add: BRACKETED_PASTE_START_def)
    then show ?thesis using none [of 1] by (intro extract_None) (simp add: piece_length_def)
  qed simp
qed

lemma no_paste_end:
  assumes end_at: "index_of BRACKETED_PASTE_END (t @ BRACKETED_PASTE_END) = Some (length t)"
    and q: "prefix q (t @ BRACKETED_PASTE_END)" "q \<noteq> t @ BRACKETED_PASTE_END"
  shows "paste_end q = None"
proof (cases "index_of BRACKETED_PASTE_END q")
  case (Some i)
  obtain r where r: "t @ BRACKETED_PASTE_END = q @ r" using q(1) by (auto simp: prefix_def)
  have i: "i + length BRACKETED_PASTE_END \<le> length q" by (rule index_of_Some_le [OF Some])
  have "prefix BRACKETED_PASTE_END (drop i (t @ BRACKETED_PASTE_END))"
    using index_of_Some_prefix [OF Some] i by (simp add: r)
  then have "\<not> i < length t" using index_of_least [OF end_at] by blast
  moreover have "length q < length t + length BRACKETED_PASTE_END"
    using q by (metis length_append prefix_length_le not_less r append_eq_append_conv append_Nil2 le_antisym)
  ultimately show ?thesis using i by simp
qed (simp add: paste_end_def)

text \<open>The state after part \<open>p\<close> of a paste.\<close>

definition pasting :: "jstring \<Rightarrow> jstring \<Rightarrow> StdinBuffer \<Rightarrow> bool" where
  "pasting t p b \<longleftrightarrow>
     (if length p < 6 then sb_buffer b = p \<and> \<not> sb_pasteMode b \<and> sb_pasteBuffer b = []
      else if p = BRACKETED_PASTE_START @ t @ BRACKETED_PASTE_END
           then sb_buffer b = [] \<and> \<not> sb_pasteMode b \<and> sb_pasteBuffer b = []
           else sb_buffer b = [] \<and> sb_pasteMode b \<and> sb_pasteBuffer b = drop 6 p)"

lemma length_paste_marks [simp]: "length BRACKETED_PASTE_START = 6" "length BRACKETED_PASTE_END = 6"
  by (simp_all add: BRACKETED_PASTE_START_def BRACKETED_PASTE_END_def)

lemma paste_end_whole:
  "index_of BRACKETED_PASTE_END (t @ BRACKETED_PASTE_END) = Some (length t) \<Longrightarrow>
   paste_end (t @ BRACKETED_PASTE_END) = Some (t, [])"
  by (simp add: paste_end_def)

lemma index_of_short: "length s < length pat \<Longrightarrow> index_of pat s = None"
  using index_of_Some_le by (cases "index_of pat s") fastforce+

lemma index_of_start: "index_of BRACKETED_PASTE_START (BRACKETED_PASTE_START @ q) = Some 0"
  by (simp add: BRACKETED_PASTE_START_def)

lemma prefix_beyond:
  assumes "prefix s (a @ b)" "length a \<le> length s"
  obtains q where "s = a @ q" "prefix q b"
proof -
  have "take (length a) s = a" using assms by (metis append_eq_conv_conj prefix_def take_append take_all_iff diff_is_0_eq take0 append_Nil2)
  then have "s = a @ drop (length a) s" by (metis append_take_drop_id)
  moreover from this have "prefix (drop (length a) s) b" using assms(1) by (metis same_prefix_prefix)
  ultimately show ?thesis by (rule that)
qed

lemma pasting_step:
  assumes end_at: "index_of BRACKETED_PASTE_END (t @ BRACKETED_PASTE_END) = Some (length t)"
    and p: "prefix (p @ c) (BRACKETED_PASTE_START @ t @ BRACKETED_PASTE_END)" and c: "c \<noteq> []"
    and b: "pasting t p b" "length p < 6 \<or> p \<noteq> BRACKETED_PASTE_START @ t @ BRACKETED_PASTE_END"
  shows "fst (process_string c b) = (if p @ c = BRACKETED_PASTE_START @ t @ BRACKETED_PASTE_END then [Paste t] else []) \<and>
    pasting t (p @ c) (snd (process_string c b))"
proof -
  let ?W = "BRACKETED_PASTE_START @ t @ BRACKETED_PASTE_END"
  consider (start) "length (p @ c) < 6" | (enter) "length p < 6" "6 \<le> length (p @ c)" | (inside) "6 \<le> length p"
    by linarith
  then show ?thesis
  proof cases
    case start
    then have st: "sb_buffer b = p" "\<not> sb_pasteMode b" "sb_pasteBuffer b = []" using b(1) by (auto simp: pasting_def)
    have pc: "p @ c = take (length (p @ c)) BRACKETED_PASTE_START"
    proof -
      have "p @ c = take (length (p @ c)) ?W" using p by (metis append_eq_conv_conj prefix_def)
      then show ?thesis using start by simp
    qed
    have x: "extractCompleteSequences (p @ c) = ([], p @ c)" using paste_start_pieces [OF start] pc by simp
    have "index_of BRACKETED_PASTE_START (sb_buffer b @ c) = None" using start by (intro index_of_short) (simp add: st)
    from process_plain [OF c st(2) this] have "process_string c b = ([], b\<lparr>sb_buffer := p @ c, sb_timeout := True\<rparr>)"
      using c by (simp add: st x Let_def)
    moreover have "p @ c \<noteq> ?W"
    proof
      assume "p @ c = ?W"
      then have "length (p @ c) = length ?W" by (rule arg_cong)
      then show False using start by simp
    qed
    ultimately show ?thesis using start st by (simp add: pasting_def)
  next
    case enter
    then have st: "sb_buffer b = p" "\<not> sb_pasteMode b" "sb_pasteBuffer b = []" using b(1) by (auto simp: pasting_def)
    obtain q where q: "p @ c = BRACKETED_PASTE_START @ q" "prefix q (t @ BRACKETED_PASTE_END)"
      using prefix_beyond [OF p] enter(2) by auto
    have i: "index_of BRACKETED_PASTE_START (sb_buffer b @ c) = Some 0" using q(1) index_of_start by (simp add: st)
    have d: "drop 6 (p @ c) = q" using q(1) by simp
    show ?thesis
    proof (cases "q = t @ BRACKETED_PASTE_END")
      case True
      then show ?thesis
        using c st i d q(1) paste_end_whole [OF end_at]
        by (subst process_string.simps, subst (2) process_string.simps) (simp add: Let_def pasting_def)
    next
      case False
      have "paste_end q = None" by (rule no_paste_end [OF end_at q(2) False])
      moreover have "p @ c \<noteq> ?W" using False q(1) by simp
      ultimately show ?thesis
        using c st i d q(1) enter
        by (subst process_string.simps, subst (2) process_string.simps) (simp add: Let_def pasting_def)
    qed
  next
    case inside
    then have st: "sb_buffer b = []" "sb_pasteMode b" "sb_pasteBuffer b = drop 6 p"
      using b by (auto simp: pasting_def)
    obtain q where q: "p = BRACKETED_PASTE_START @ q" "prefix (q @ c) (t @ BRACKETED_PASTE_END)"
    proof (rule prefix_beyond [of p BRACKETED_PASTE_START "t @ BRACKETED_PASTE_END"])
      show "prefix p ?W" using p by (rule append_prefixD)
      fix q assume q: "p = BRACKETED_PASTE_START @ q"
      then have "prefix (q @ c) (t @ BRACKETED_PASTE_END)" using p by simp
      then show ?thesis using q by (rule that [rotated])
    qed (use inside in simp)
    show ?thesis
    proof (cases "q @ c = t @ BRACKETED_PASTE_END")
      case True
      then show ?thesis
        using c st q(1) paste_end_whole [OF end_at]
        by (subst process_string.simps, subst (2) process_string.simps) (simp add: Let_def pasting_def)
    next
      case False
      have "paste_end (q @ c) = None" by (rule no_paste_end [OF end_at q(2) False])
      then show ?thesis
        using c st q(1) False
        by (subst process_string.simps, subst (2) process_string.simps) (simp add: Let_def pasting_def)
    qed
  qed
qed

definition idle_input :: "StdinBuffer \<Rightarrow> bool" where
  "idle_input b \<longleftrightarrow> sb_buffer b = [] \<and> \<not> sb_pasteMode b \<and> sb_pasteBuffer b = []"

lemma paste_chunks:
  assumes "index_of BRACKETED_PASTE_END (t @ BRACKETED_PASTE_END) = Some (length t)"
    and "p @ concat chunks = BRACKETED_PASTE_START @ t @ BRACKETED_PASTE_END" "[] \<notin> set chunks" "pasting t p b"
    and "p \<noteq> BRACKETED_PASTE_START @ t @ BRACKETED_PASTE_END"
  shows "fst (process_chunks chunks b) = [Paste t] \<and>
    pasting t (BRACKETED_PASTE_START @ t @ BRACKETED_PASTE_END) (snd (process_chunks chunks b))"
  using assms
proof (induction chunks arbitrary: p b)
  case (Cons c chunks)
  let ?W = "BRACKETED_PASTE_START @ t @ BRACKETED_PASTE_END"
  have c: "c \<noteq> []" using Cons.prems(3) by auto
  have pc: "prefix (p @ c) ?W" using Cons.prems(2) by (metis append.assoc concat.simps(2) prefixI)
  have step: "fst (process_string c b) = (if p @ c = ?W then [Paste t] else [])" "pasting t (p @ c) (snd (process_string c b))"
    using pasting_step [OF Cons.prems(1) pc c Cons.prems(4)] Cons.prems(5) by simp_all
  show ?case
  proof (cases "p @ c = ?W")
    case True
    have "(p @ c) @ concat chunks = ?W" using Cons.prems(2) by simp
    then have "concat chunks = []" unfolding True by simp
    then have "chunks = []" using Cons.prems(3) by (cases chunks) auto
    then show ?thesis using step True by (simp add: case_prod_unfold Let_def)
  next
    case False
    have "fst (process_chunks chunks (snd (process_string c b))) = [Paste t] \<and>
        pasting t ?W (snd (process_chunks chunks (snd (process_string c b))))"
      by (rule Cons.IH [OF Cons.prems(1) _ _ step(2) False]) (use Cons.prems in auto)
    then show ?thesis using step(1) False by (simp add: case_prod_unfold Let_def)
  qed
qed simp

text \<open>A bracketed paste arrives whole. However the paste is cut into chunks, within its
  start mark, its text or its end mark, the one event it causes is the paste of exactly its text, and
  the buffer is idle again afterwards.\<close>

theorem paste_survives_chunks:
  assumes "concat chunks = BRACKETED_PASTE_START @ t @ BRACKETED_PASTE_END" "[] \<notin> set chunks" "idle_input b"
    and "index_of BRACKETED_PASTE_END (t @ BRACKETED_PASTE_END) = Some (length t)"
  shows "fst (process_chunks chunks b) = [Paste t] \<and> idle_input (snd (process_chunks chunks b))"
proof -
  have "pasting t [] b" using assms(3) by (simp add: pasting_def idle_input_def)
  from paste_chunks [OF assms(4) _ assms(2) this] assms(1)
  have "fst (process_chunks chunks b) = [Paste t] \<and>
    pasting t (BRACKETED_PASTE_START @ t @ BRACKETED_PASTE_END) (snd (process_chunks chunks b))"
    by (simp add: BRACKETED_PASTE_START_def)
  then show ?thesis by (simp add: pasting_def idle_input_def)
qed

section \<open>Examples\<close>

text \<open>The letter a, the arrow up, Alt with b, and a mouse report that has not arrived in full.\<close>

lemma input_is_split_witness:
  "extractCompleteSequences ([0x61] @ [ESC, 0x5B, 0x41] @ [ESC, 0x62] @ [ESC, 0x5B, 0x3C, 0x30]) =
   ([[0x61], [ESC, 0x5B, 0x41], [ESC, 0x62]], [ESC, 0x5B, 0x3C, 0x30])"
proof -
  have up: "key_sequence [ESC, 0x5B, 0x41]"
    using key_csi [of "[]" "0x41"] by (simp add: csi_final_def)
  have alt: "key_sequence [ESC, 0x62]" by (rule key_alt) (simp add: starts_sequence_def)
  have "typed_keys [[0x61], [ESC, 0x5B, 0x41], [ESC, 0x62]]" using up alt by simp
  moreover have "unfinished [ESC, 0x5B, 0x3C, 0x30]"
    unfolding unfinished_def
  proof (intro allI impI)
    fix j assume "1 \<le> j \<and> j \<le> length [ESC, 0x5B, 0x3C, 0x30]"
    then have "j = 1 \<or> j = 2 \<or> j = 3 \<or> j = 4" by auto
    then show "isCompleteSequence (take j [ESC, 0x5B, 0x3C, 0x30]) = Incomplete"
      by (elim disjE) (simp_all add: isCompleteSequence_def isCompleteCsiSequence_def)
  qed
  ultimately show ?thesis
    using conjunct2 [OF input_is_split, of "[[0x61], [ESC, 0x5B, 0x41], [ESC, 0x62]]" "[ESC, 0x5B, 0x3C, 0x30]"] by simp
qed

lemma paste_survives_chunks_witness:
  "fst (process_chunks [[ESC, 0x5B], [0x32, 0x30, 0x30, 0x7E, 0x68, ESC], [0x5B, 0x32, 0x30, 0x31, 0x7E]] new_stdin_buffer) =
   [Paste [0x68]]"
  by (rule conjunct1 [OF paste_survives_chunks])
    (simp_all add: BRACKETED_PASTE_START_def BRACKETED_PASTE_END_def idle_input_def new_stdin_buffer_def)

text \<open>A mouse report in two chunks is one event.\<close>

lemma chunks_do_not_matter_witness:
  "process_chunks [[ESC, 0x5B, 0x3C], [0x30, 0x3B, 0x31, 0x3B, 0x32, 0x4D]] new_stdin_buffer =
   process_string [ESC, 0x5B, 0x3C, 0x30, 0x3B, 0x31, 0x3B, 0x32, 0x4D] new_stdin_buffer"
proof -
  have "process_chunks [[ESC, 0x5B, 0x3C], [0x30, 0x3B, 0x31, 0x3B, 0x32, 0x4D]] new_stdin_buffer =
    process_string (concat [[ESC, 0x5B, 0x3C], [0x30, 0x3B, 0x31, 0x3B, 0x32, 0x4D]]) new_stdin_buffer"
  proof (rule chunks_do_not_matter)
    show "\<forall>i \<in> {1..<length [[ESC, 0x5B, 0x3C], [0x30, 0x3B, 0x31, 0x3B, 0x32, 0x4D]]}.
        \<not> suffix [ESC, ESC] (sb_buffer new_stdin_buffer @ concat (take i [[ESC, 0x5B, 0x3C], [0x30, 0x3B, 0x31, 0x3B, 0x32, 0x4D]]))"
    proof
      fix i assume "i \<in> {1..<length [[ESC, 0x5B, 0x3C], [0x30, 0x3B, 0x31, 0x3B, 0x32, 0x4D]]}"
      then have "i = 1" by auto
      then show "\<not> suffix [ESC, ESC] (sb_buffer new_stdin_buffer @ concat (take i [[ESC, 0x5B, 0x3C], [0x30, 0x3B, 0x31, 0x3B, 0x32, 0x4D]]))"
        by (simp add: new_stdin_buffer_def suffix_to_prefix)
    qed
  qed (simp_all add: new_stdin_buffer_def BRACKETED_PASTE_START_def)
  then show ?thesis by simp
qed

text \<open>An escape key typed right before a paste is lost: the unfinished rest of the input before a
  paste is dropped.\<close>

lemma escape_before_paste_is_lost:
  "fst (process_string ([ESC] @ BRACKETED_PASTE_START @ BRACKETED_PASTE_END) new_stdin_buffer) = [Paste []]"
proof -
  have "extractCompleteSequences [ESC] = ([], [ESC])"
    by (intro extract_None) (simp add: piece_length_def sequence_end.simps isCompleteSequence_def)
  then show ?thesis
    by (subst process_string.simps)
      (simp add: new_stdin_buffer_def BRACKETED_PASTE_START_def BRACKETED_PASTE_END_def paste_end_def Let_def)
qed

text \<open>Cut right after two escapes, a key release is not recognised, while in one piece it is.\<close>

lemma cut_after_two_escapes:
  "fst (extractCompleteSequences [ESC, ESC]) = [[ESC, ESC]]"
  "hd (fst (extractCompleteSequences [ESC, ESC, 0x5B, 0x41])) = [ESC]"
proof -
  have p: "piece_length [ESC, ESC] = Some (Suc (Suc 0))"
    by (simp add: piece_length_def sequence_end.simps isCompleteSequence_def)
  show "fst (extractCompleteSequences [ESC, ESC]) = [[ESC, ESC]]" by (simp add: extract_Some [OF p])
  have "piece_length [ESC, ESC, 0x5B, 0x41] = Some 1"
    by (simp add: piece_length_def sequence_end.simps isCompleteSequence_def starts_sequence_def)
  then show "hd (fst (extractCompleteSequences [ESC, ESC, 0x5B, 0x41])) = [ESC]" by (simp add: extract_Some)
qed

end
