(* ===== verification/JsonlRepo.thy ===== *)
theory JsonlRepo
  imports JsonlStorage MemoryRepo
begin

text \<open>
  \<open>JsonlSessionRepo\<close> of \<open>packages/agent/src/harness/session/jsonl-repo.ts\<close>: sessions as files, in one
  directory for each working directory. The state of an operation is the repository object, which
  caches the resolved root, and the file system. The value of a date is a parameter.
\<close>

section \<open>The file system of a repository\<close>

record 'fs RepoFileSystem = "'fs FileSystem" +
  rf_absolutePath :: "jstring \<Rightarrow> ('fs, jstring) file_op"
  rf_joinPath :: "jstring list \<Rightarrow> ('fs, jstring) file_op"
  rf_listDir :: "jstring \<Rightarrow> ('fs, FileInfo list) file_op"
  rf_exists :: "jstring \<Rightarrow> ('fs, bool) file_op"
  rf_createDir :: "jstring \<Rightarrow> bool \<Rightarrow> ('fs, unit) file_op"
  rf_remove :: "jstring \<Rightarrow> bool \<Rightarrow> ('fs, unit) file_op"

abbreviation text_fs :: "'fs RepoFileSystem \<Rightarrow> 'fs FileSystem" where
  "text_fs fs \<equiv> FileSystem.truncate fs"

record JsonlSessionRepo =
  jr_sessionsRootInput :: jstring
  jr_sessionsRoot :: "jstring option"

type_synonym ('fs, 'a) jr_op = "(JsonlSessionRepo \<times> 'fs, 'a) op"

definition new_jsonl_repo :: "jstring \<Rightarrow> JsonlSessionRepo" where
  "new_jsonl_repo sessionsRoot = \<lparr>jr_sessionsRootInput = sessionsRoot, jr_sessionsRoot = None\<rparr>"

text \<open>A call of the file system whose failure is thrown.\<close>

definition file_step :: "('fs, 'a) file_op \<Rightarrow> jstring \<Rightarrow> ('fs, 'a) jr_op" where
  "file_step m message = (\<lambda>((r, f), w). case m f of (x, f') \<Rightarrow> (getFileSystemResultOrThrow x message, (r, f'), w))"

section \<open>Paths\<close>

abbreviation is_separator :: "jchar \<Rightarrow> bool" where
  "is_separator c \<equiv> c = 0x2F \<or> c = 0x5C"

definition encodeCwd :: "jstring \<Rightarrow> jstring" where
  "encodeCwd cwd =
     (let stripped = (case cwd of c # cs \<Rightarrow> if is_separator c then cs else cwd | [] \<Rightarrow> [])
      in js ''--'' @ map (\<lambda>c. if is_separator c \<or> c = 0x3A then 0x2D else c) stripped @ js ''--'')"

definition getSessionsRoot :: "'fs RepoFileSystem \<Rightarrow> ('fs, jstring) jr_op" where
  "getSessionsRoot fs = (\<lambda>((r, f), w).
     if jr_sessionsRoot r = None \<or> jr_sessionsRoot r = Some [] then
       bindS (file_step (rf_absolutePath fs (jr_sessionsRootInput r))
                (js ''Failed to resolve sessions root '' @ jr_sessionsRootInput r))
         (\<lambda>root. \<lambda>((r, f), w). (Inr root, (r\<lparr>jr_sessionsRoot := Some root\<rparr>, f), w)) ((r, f), w)
     else (Inr (the (jr_sessionsRoot r)), (r, f), w))"

definition getSessionDir :: "'fs RepoFileSystem \<Rightarrow> jstring \<Rightarrow> ('fs, jstring) jr_op" where
  "getSessionDir fs cwd =
     bindS (getSessionsRoot fs) (\<lambda>root.
       file_step (rf_joinPath fs [root, encodeCwd cwd]) (js ''Failed to resolve session directory for '' @ cwd))"

definition session_file_name :: "jstring \<Rightarrow> jstring \<Rightarrow> jstring" where
  "session_file_name sessionId timestamp =
     map (\<lambda>c. if c = 0x3A \<or> c = 0x2E then 0x2D else c) timestamp @ js ''_'' @ sessionId @ js ''.jsonl''"

definition createSessionFilePath :: "'fs RepoFileSystem \<Rightarrow> jstring \<Rightarrow> jstring \<Rightarrow> jstring \<Rightarrow> ('fs, jstring) jr_op" where
  "createSessionFilePath fs cwd sessionId timestamp =
     bindS (getSessionDir fs cwd) (\<lambda>dir.
       file_step (rf_joinPath fs [dir, session_file_name sessionId timestamp])
         (js ''Failed to resolve session file path for '' @ sessionId))"

section \<open>Operations\<close>

record JsonlSessionCreateOptions =
  co_id :: "jstring option"
  co_cwd :: jstring
  co_parentSessionPath :: "jstring option"

text \<open>\<open>options.id ?? createSessionId()\<close>, and the time.\<close>

definition new_session_id :: "env \<Rightarrow> jstring option \<Rightarrow> ('fs, jstring \<times> jstring) jr_op" where
  "new_session_id e idOpt = (\<lambda>(s, w).
     case (case idOpt of Some i \<Rightarrow> (i, w) | None \<Rightarrow> createSessionId e w) of (i, w1) \<Rightarrow>
       (case createTimestamp e w1 of (createdAt, w2) \<Rightarrow> (Inr (i, createdAt), s, w2)))"

text \<open>The steps that \<open>create\<close> and \<open>fork\<close> share: the directory, and a file that holds the header.\<close>

definition create_storage ::
    "'fs RepoFileSystem \<Rightarrow> env \<Rightarrow> jstring option \<Rightarrow> jstring \<Rightarrow> jstring option \<Rightarrow> ('fs, JsonlSessionStorage) jr_op" where
  "create_storage fs e idOpt cwd parentSessionPath =
     bindS (new_session_id e idOpt) (\<lambda>(i, createdAt).
     bindS (getSessionDir fs cwd) (\<lambda>sessionDir.
     bindS (file_step (rf_createDir fs sessionDir True) (js ''Failed to create session directory '' @ sessionDir)) (\<lambda>_.
     bindS (createSessionFilePath fs cwd i createdAt) (\<lambda>filePath.
       (\<lambda>((r, f), w).
          case jl_create (text_fs fs) e filePath cwd i parentSessionPath (f, w) of
            (x, f', w') \<Rightarrow> (x, (r, f'), w'))))))"

definition jr_create :: "'fs RepoFileSystem \<Rightarrow> env \<Rightarrow> JsonlSessionCreateOptions \<Rightarrow> ('fs, JsonlSessionStorage) jr_op" where
  "jr_create fs e options = create_storage fs e (co_id options) (co_cwd options) (co_parentSessionPath options)"

text \<open>\<open>open\<close>; \<open>Inr None\<close> is a file with an ill-typed entry, as for the storage.\<close>

definition jr_open :: "'fs RepoFileSystem \<Rightarrow> JsonlSessionMetadata \<Rightarrow> ('fs, JsonlSessionStorage option) jr_op" where
  "jr_open fs metadata =
     bindS (file_step (rf_exists fs (jm_path metadata)) (js ''Failed to check session '' @ jm_path metadata)) (\<lambda>found.
       if \<not> found then throwS (SessionError NotFound (js ''Session not found: '' @ jm_path metadata))
       else (\<lambda>((r, f), w). case jl_open (text_fs fs) (jm_path metadata) f of (x, f') \<Rightarrow> (x, (r, f'), w)))"

definition listSessionDirs :: "'fs RepoFileSystem \<Rightarrow> ('fs, jstring list) jr_op" where
  "listSessionDirs fs =
     bindS (getSessionsRoot fs) (\<lambda>root.
     bindS (file_step (rf_exists fs root) (js ''Failed to check sessions root '' @ root)) (\<lambda>found.
       if \<not> found then returnS []
       else bindS (file_step (rf_listDir fs root) (js ''Failed to list sessions root '' @ root)) (\<lambda>entries.
              returnS (map fi_path (filter (\<lambda>entry. fi_kind entry = KDirectory) entries)))))"

text \<open>The inner loop of \<open>list\<close>: a file that is no session is passed over, any other failure is thrown.\<close>

fun list_files :: "'fs RepoFileSystem \<Rightarrow> FileInfo list \<Rightarrow> ('fs, JsonlSessionMetadata list) jr_op" where
  "list_files fs [] = returnS []"
| "list_files fs (file # files) = (\<lambda>((r, f), w).
     case loadJsonlSessionMetadata (text_fs fs) (fi_path file) f of
       (Inr metadata, f') \<Rightarrow> bindS (list_files fs files) (\<lambda>sessions. returnS (metadata # sessions)) ((r, f'), w)
     | (Inl (SessionError InvalidSession msg), f') \<Rightarrow> list_files fs files ((r, f'), w)
     | (Inl err, f') \<Rightarrow> (Inl err, (r, f'), w))"

definition is_session_file :: "FileInfo \<Rightarrow> bool" where
  "is_session_file file \<longleftrightarrow> fi_kind file \<noteq> KDirectory \<and> suffix (js ''.jsonl'') (fi_name file)"

fun list_dirs :: "'fs RepoFileSystem \<Rightarrow> jstring list \<Rightarrow> ('fs, JsonlSessionMetadata list) jr_op" where
  "list_dirs fs [] = returnS []"
| "list_dirs fs (dir # dirs) =
     bindS (file_step (rf_exists fs dir) (js ''Failed to check session directory '' @ dir)) (\<lambda>found.
       if \<not> found then list_dirs fs dirs
       else bindS (file_step (rf_listDir fs dir) (js ''Failed to list sessions in '' @ dir)) (\<lambda>files.
            bindS (list_files fs (filter is_session_file files)) (\<lambda>sessions.
            bindS (list_dirs fs dirs) (\<lambda>rest. returnS (sessions @ rest)))))"

text \<open>\<open>list\<close>: newest first; an empty \<open>cwd\<close> counts as none.\<close>

definition jr_list ::
    "'fs RepoFileSystem \<Rightarrow> (jstring \<Rightarrow> int) \<Rightarrow> jstring option \<Rightarrow> ('fs, JsonlSessionMetadata list) jr_op" where
  "jr_list fs date_ms cwd =
     bindS (case cwd of Some c \<Rightarrow> if c = [] then listSessionDirs fs else bindS (getSessionDir fs c) (\<lambda>d. returnS [d])
            | None \<Rightarrow> listSessionDirs fs) (\<lambda>dirs.
     bindS (list_dirs fs dirs) (\<lambda>sessions. returnS (sort_key (\<lambda>m. - date_ms (jm_createdAt m)) sessions)))"

definition jr_delete :: "'fs RepoFileSystem \<Rightarrow> JsonlSessionMetadata \<Rightarrow> ('fs, unit) jr_op" where
  "jr_delete fs metadata =
     file_step (rf_remove fs (jm_path metadata) True) (js ''Failed to delete session '' @ jm_path metadata)"

fun append_entries :: "'fs FileSystem \<Rightarrow> entry list \<Rightarrow> ('fs, unit) jl_op" where
  "append_entries fs [] = returnS ()"
| "append_entries fs (en # ens) = bindS (jl_appendEntry fs en) (\<lambda>_. append_entries fs ens)"

text \<open>An operation on a storage object, within the repository; the object it leaves is the result's.\<close>

definition with_storage ::
    "JsonlSessionStorage \<Rightarrow> ('fs, 'a) jl_op \<Rightarrow> ('fs, 'a \<times> JsonlSessionStorage) jr_op" where
  "with_storage s m = (\<lambda>((r, f), w).
     case m ((s, f), w) of
       (Inl err, (s', f'), w') \<Rightarrow> (Inl err, (r, f'), w')
     | (Inr x, (s', f'), w') \<Rightarrow> (Inr (x, s'), (r, f'), w'))"

definition jr_fork ::
    "'fs RepoFileSystem \<Rightarrow> env \<Rightarrow> JsonlSessionMetadata \<Rightarrow> JsonlSessionCreateOptions \<Rightarrow> jstring option \<Rightarrow>
     fork_position option \<Rightarrow> ('fs, JsonlSessionStorage option) jr_op" where
  "jr_fork fs e sourceMetadata options entryId position =
     bindS (jr_open fs sourceMetadata) (\<lambda>opened.
       case opened of
         None \<Rightarrow> returnS None
       | Some source \<Rightarrow>
           bindS (with_storage source (getEntriesToFork (jsonl_ops (text_fs fs) e) entryId position)) (\<lambda>(forkedEntries, _).
           bindS (create_storage fs e (co_id options) (co_cwd options)
                    (case co_parentSessionPath options of Some p \<Rightarrow> Some p | None \<Rightarrow> Some (jm_path sourceMetadata))) (\<lambda>storage.
           bindS (with_storage storage (append_entries (text_fs fs) forkedEntries)) (\<lambda>(_, storage').
           returnS (Some storage')))))"

section \<open>What a repository relies on\<close>

text \<open>
  The contract of the file system: paths are computed without looking at files, a call leaves the
  files alone it is not for, where \<open>key\<close> is the file a path names, and a removed file is gone.
\<close>

locale session_files = text_files "text_fs fs" content
  for fs :: "'fs RepoFileSystem" and content :: "'fs \<Rightarrow> jstring \<Rightarrow> jstring option" +
  fixes key :: "jstring \<Rightarrow> jstring"
    and absolute :: "jstring \<Rightarrow> jstring"
    and joined :: "jstring list \<Rightarrow> jstring"
    and readline :: "jstring \<Rightarrow> jstring list"
  assumes absolute_path: "rf_absolutePath fs p f = (Inr (absolute p), f)"
    and joined_path: "rf_joinPath fs ps f = (Inr (joined ps), f)"
    and exists_text: "content f p = Some t \<Longrightarrow> rf_exists fs p f = (Inr True, f)"
    and read_lines: "content f p = Some t \<Longrightarrow> fs_readTextLines fs p (Some 1) f = (Inr (take 1 (readline t)), f)"
    and write_keeps: "fs_writeFile fs p t f = (x, f') \<Longrightarrow> key q \<noteq> key p \<Longrightarrow> content f q = Some u \<Longrightarrow> content f' q = Some u"
    and append_keeps: "fs_appendFile fs p t f = (x, f') \<Longrightarrow> key q \<noteq> key p \<Longrightarrow> content f q = Some u \<Longrightarrow> content f' q = Some u"
    and mkdir_keeps: "rf_createDir fs p b f = (x, f') \<Longrightarrow> content f q = Some u \<Longrightarrow> content f' q = Some u"
    and remove_text: "content f p = Some t \<Longrightarrow>
      \<exists>f'. rf_remove fs p True f = (Inr (), f') \<and> rf_exists fs p f' = (Inr False, f')"
    and remove_keeps: "rf_remove fs p b f = (x, f') \<Longrightarrow> key q \<noteq> key p \<Longrightarrow> content f q = Some u \<Longrightarrow> content f' q = Some u"

lemma throw_Inr [simp]: "getFileSystemResultOrThrow (Inr x) m = Inr x"
  by (simp add: getFileSystemResultOrThrow_def)

lemma throw_Inr_iff [simp]: "getFileSystemResultOrThrow x m = Inr y \<longleftrightarrow> x = Inr y"
  by (simp add: getFileSystemResultOrThrow_def split: sum.split)

lemma bindS_eq_Inr:
  "bindS m k \<sigma> = (Inr y, \<sigma>'') \<longleftrightarrow> (\<exists>x \<sigma>'. m \<sigma> = (Inr x, \<sigma>') \<and> k x \<sigma>' = (Inr y, \<sigma>''))"
  by (auto simp: bindS_def split: prod.splits sum.splits)

lemma bindS_InrE:
  assumes "bindS m k \<sigma> = (Inr y, \<sigma>'')"
  obtains x \<sigma>' where "m \<sigma> = (Inr x, \<sigma>')" "k x \<sigma>' = (Inr y, \<sigma>'')"
  using assms by (auto simp: bindS_eq_Inr)

lemma file_step_eq_Inr:
  "file_step m msg ((r, f), w) = (Inr x, (r', f'), w') \<longleftrightarrow> m f = (Inr x, f') \<and> r' = r \<and> w' = w"
  by (auto simp: file_step_def split: prod.splits)

lemma file_step_Inr: "m f = (Inr x, f') \<Longrightarrow> file_step m msg ((r, f), w) = (Inr x, (r, f'), w)"
  by (simp add: file_step_def)

text \<open>The sessions a file can hold and give back.\<close>

definition stored :: "('fs \<Rightarrow> jstring \<Rightarrow> jstring option) \<Rightarrow> 'fs \<Rightarrow> jstring \<Rightarrow> SessionHeader \<Rightarrow> entry list \<Rightarrow> bool" where
  "stored content f p h ens \<longleftrightarrow>
     content f p = Some (session_file h ens) \<and> header_ok h \<and> log_ok ens \<and> (\<forall>en \<in> set ens. storable en)"

text \<open>The entries a fork takes: all of them, or the path to an entry, or the path before a message of the user.\<close>

definition fork_entries :: "entry list \<Rightarrow> jstring option \<Rightarrow> fork_position option \<Rightarrow> entry list option" where
  "fork_entries ens entryId position =
     (if entryId = None \<or> entryId = Some [] then Some ens
      else case find_entry ens (the entryId) of
             None \<Rightarrow> None
           | Some t \<Rightarrow>
               if position = Some At then Some (path_of ens entryId)
               else if is_user_entry t then Some (path_of ens (e_parentId t)) else None)"

definition root_of :: "(jstring \<Rightarrow> jstring) \<Rightarrow> JsonlSessionRepo \<Rightarrow> jstring" where
  "root_of absolute r =
     (if jr_sessionsRoot r = None \<or> jr_sessionsRoot r = Some [] then absolute (jr_sessionsRootInput r)
      else the (jr_sessionsRoot r))"

definition rooted :: "(jstring \<Rightarrow> jstring) \<Rightarrow> JsonlSessionRepo \<Rightarrow> JsonlSessionRepo" where
  "rooted absolute r = r\<lparr>jr_sessionsRoot := Some (root_of absolute r)\<rparr>"

lemma appendEntry_appendable: "log_ok (xs @ en # ys) \<Longrightarrow> appendable xs en"
proof (induction ys rule: rev_induct)
  case (snoc y ys)
  then have "log_ok ((xs @ en # ys) @ [y])" by simp
  then show ?case using snoc.IH by (simp only: log_ok_snoc)
qed (simp add: log_ok_snoc [of xs en, simplified])

definition session_dir :: "(jstring \<Rightarrow> jstring) \<Rightarrow> (jstring list \<Rightarrow> jstring) \<Rightarrow> JsonlSessionRepo \<Rightarrow> jstring \<Rightarrow> jstring" where
  "session_dir absolute joined r cwd = joined [root_of absolute r, encodeCwd cwd]"

definition session_path ::
    "(jstring \<Rightarrow> jstring) \<Rightarrow> (jstring list \<Rightarrow> jstring) \<Rightarrow> JsonlSessionRepo \<Rightarrow> jstring \<Rightarrow> jstring \<Rightarrow> jstring \<Rightarrow> jstring" where
  "session_path absolute joined r cwd i createdAt =
     joined [session_dir absolute joined r cwd, session_file_name i createdAt]"

text \<open>The metadata that a file is listed with.\<close>

definition listed :: "'fs RepoFileSystem \<Rightarrow> 'fs \<Rightarrow> jstring \<Rightarrow> JsonlSessionMetadata option" where
  "listed fs f p =
     (case loadJsonlSessionMetadata (text_fs fs) p f of (Inr m, _) \<Rightarrow> Some m | _ \<Rightarrow> None)"

text \<open>Reading by lines: a line ends at any of these characters, and the first line is found.\<close>

definition line_end :: "jchar \<Rightarrow> bool" where
  "line_end c \<longleftrightarrow> c \<in> {0x0A, 0x0D, 0x2028, 0x2029}"

definition readline_ok :: "(jstring \<Rightarrow> jstring list) \<Rightarrow> bool" where
  "readline_ok readline \<longleftrightarrow> (\<forall>l s. (\<forall>c \<in> set l. \<not> line_end c) \<longrightarrow> take 1 (readline (l @ [newline] @ s)) = [l])"

context session_files begin

lemma getSessionsRoot_run:
  "getSessionsRoot fs ((r, f), w) = (Inr (root_of absolute r), (rooted absolute r, f), w)"
  by (cases r) (auto simp: getSessionsRoot_def bindS_def file_step_def absolute_path root_of_def rooted_def)

lemma getSessionDir_run:
  "getSessionDir fs cwd ((r, f), w) = (Inr (joined [root_of absolute r, encodeCwd cwd]), (rooted absolute r, f), w)"
  by (simp add: getSessionDir_def bindS_def getSessionsRoot_run file_step_def joined_path)

lemma rooted_again [simp]: "root_of absolute (rooted absolute r) = root_of absolute r" "rooted absolute (rooted absolute r) = rooted absolute r"
  by (cases r; auto simp: rooted_def root_of_def)+

lemma session_dir_rooted [simp]: "session_dir absolute joined (rooted absolute r) = session_dir absolute joined r" "session_path absolute joined (rooted absolute r) = session_path absolute joined r"
  by (simp_all add: session_dir_def session_path_def fun_eq_iff)

lemma createSessionFilePath_run:
  "createSessionFilePath fs cwd i ts ((r, f), w) = (Inr (session_path absolute joined r cwd i ts), (rooted absolute r, f), w)"
  by (simp add: createSessionFilePath_def bindS_def getSessionDir_run file_step_def joined_path session_path_def session_dir_def)

lemma create_storage_run:
  assumes "new_session_id e idOpt ((r, f), w) = (Inr (i, ts), (r, f), w1)"
  shows "create_storage fs e idOpt cwd parent ((r, f), w) =
    (case rf_createDir fs (session_dir absolute joined r cwd) True f of (x, f1) \<Rightarrow>
      case getFileSystemResultOrThrow x (js ''Failed to create session directory '' @ session_dir absolute joined r cwd) of
        Inl err \<Rightarrow> (Inl err, (rooted absolute r, f1), w1)
      | Inr _ \<Rightarrow>
          (case jl_create (text_fs fs) e (session_path absolute joined r cwd i ts) cwd i parent (f1, w1) of
             (y, f2, w2) \<Rightarrow> (y, (rooted absolute r, f2), w2)))"
  by (simp add: create_storage_def bindS_def assms getSessionDir_run session_dir_def [symmetric] file_step_def
      createSessionFilePath_run split: prod.split sum.split)

text \<open>A new storage is an empty session in its file; every other session stays.\<close>

lemma create_storage_stored:
  assumes "create_storage fs e idOpt cwd parent ((r, f), w) = (Inr s, (r', f'), w')"
    and "dated e" "cwd \<noteq> []" "new_session_id e idOpt ((r, f), w) = (Inr (i, ts), (r, f), w1)" "i \<noteq> []"
  obtains h where "jl_good content (session_path absolute joined r cwd i ts) h (s, f')" "jl_entries s = []" "header_ok h"
    "jl_filePath s = session_path absolute joined r cwd i ts" "r' = rooted absolute r"
    "sh_id h = i" "sh_cwd h = cwd" "sh_parentSession h = parent"
    "\<And>q u. content f q = Some u \<Longrightarrow> key q \<noteq> key (session_path absolute joined r cwd i ts) \<Longrightarrow> content f' q = Some u"
proof -
  let ?p = "session_path absolute joined r cwd i ts"
  obtain f1 where d: "rf_createDir fs (session_dir absolute joined r cwd) True f = (Inr (), f1)" and r': "r' = rooted absolute r"
    and c: "jl_create (text_fs fs) e ?p cwd i parent (f1, w1) = (Inr s, f', w')"
    using assms(1) unfolding create_storage_run [OF assms(4)] by (auto split: prod.splits sum.splits)
  let ?h = "\<lparr>sh_id = i, sh_timestamp = env_iso e (env_clock e (w_ticks w1)), sh_cwd = cwd, sh_parentSession = parent\<rparr>"
  have wf: "well_formed_utf16 (stringify (header_json ?h) @ [newline])"
    using json_text_stringify [of "header_json ?h"]
    by (auto simp: json_text_def is_high_def is_low_def intro: well_formed_append)
  have wr: "fs_writeFile fs ?p (stringify (header_json ?h) @ [newline]) f1 = (Inr (), f')"
    and s: "s = jl_construct ?p ?h [] None"
    using c by (auto simp: jl_create_def Let_def iso_now_def date_now_def FileSystem.truncate_def
        split: prod.splits sum.splits)
  have "content f' ?p = Some (session_file ?h [])"
    using write_text [OF wf, of ?p f1 f'] wr by (simp add: FileSystem.truncate_def session_file_def)
  then have good: "jl_good content ?p ?h (s, f')"
    by (simp add: s jl_good_def jl_construct_def buildLabelsById_def)
  show ?thesis
  proof (rule that [of ?h])
    show "header_ok ?h" using assms(2,3,5) by (simp add: header_ok_def dated_def)
    show "content f' q = Some u" if "content f q = Some u" "key q \<noteq> key ?p" for q u
      using write_keeps [OF wr that(2)] mkdir_keeps [OF d that(1)] by blast
  qed (use good r' in \<open>simp_all add: s jl_construct_def\<close>)
qed

lemma append_entries_stored:
  assumes "jl_good content p h (s, f)" "log_ok (jl_entries s @ ens)"
  shows "\<exists>s' f'. append_entries (text_fs fs) ens ((s, f), w) = (Inr (), (s', f'), w) \<and>
    jl_good content p h (s', f') \<and> jl_entries s' = jl_entries s @ ens \<and>
    (\<forall>q u. content f q = Some u \<longrightarrow> key q \<noteq> key p \<longrightarrow> content f' q = Some u)"
  using assms
proof (induction ens arbitrary: s f)
  case Nil
  then show ?case by (simp add: returnS_apply)
next
  case (Cons en ens)
  have p: "jl_filePath s = p" using Cons.prems(1) by (simp add: jl_good_def)
  have "appendable (jl_entries s) en" using appendEntry_appendable [OF Cons.prems(2)] .
  from jl.appendEntry [OF Cons.prems(1)] this obtain s1 f1 where a:
    "jl_appendEntry (text_fs fs) en ((s, f), w) = (Inr (), (s1, f1), w)" "jl_good content p h (s1, f1)"
    "jl_entries s1 = jl_entries s @ [en]"
    unfolding jsonl_ops_def by fastforce
  have keeps: "content f1 q = Some u" if "content f q = Some u" "key q \<noteq> key p" for q u
  proof -
    obtain x where "fs_appendFile fs p (entry_line en) f = (x, f1)"
      using a(1) p by (auto simp: jl_appendEntry_def FileSystem.truncate_def split: prod.splits sum.splits)
    then show ?thesis using append_keeps that by blast
  qed
  obtain s' f' where "append_entries (text_fs fs) ens ((s1, f1), w) = (Inr (), (s', f'), w)"
    "jl_good content p h (s', f')" "jl_entries s' = jl_entries s1 @ ens"
    "\<And>q u. content f1 q = Some u \<Longrightarrow> key q \<noteq> key p \<Longrightarrow> content f' q = Some u"
    using Cons.IH [OF a(2)] Cons.prems(2) a(3) by auto
  with a keeps show ?case by (auto simp: bindS_def)
qed

lemma stored_opens:
  assumes "stored content f p h ens"
  shows "\<exists>s. jl_good content p h (s, f) \<and> jl_entries s = ens \<and> jl_open (text_fs fs) p f = (Inr (Some s), f)"
proof -
  let ?s = "jl_construct p h ens (leaf_of ens)"
  have byId: "foldl (\<lambda>m en. m(e_id en \<mapsto> en)) Map.empty ens = find_entry ens" for ens
    by (induction ens rule: rev_induct) simp_all
  have g: "jl_good content p h (?s, f)"
    using assms by (simp add: stored_def jl_good_def jl_construct_def byId buildLabelsById_def labels_of_def)
  have "jl_open (text_fs fs) p f = (Inr (Some ?s), f)"
    using open_good [OF g] assms by (simp add: stored_def jl_construct_def)
  with g show ?thesis by (auto simp: jl_construct_def)
qed

lemma fork_entries_run:
  assumes "jl_good content p h (s, f)"
  shows "getEntriesToFork (jsonl_ops (text_fs fs) e) entryId position ((s, f), w) =
    (case fork_entries (jl_entries s) entryId position of
       Some ens \<Rightarrow> (Inr ens, (s, f), w)
     | None \<Rightarrow> (Inl (SessionError InvalidForkTarget (js ''Entry '' @ the entryId @
         (if find_entry (jl_entries s) (the entryId) = None then js '' not found'' else js '' is not a user message''))), (s, f), w))"
proof (cases "entryId = None \<or> entryId = Some []")
  case True
  then show ?thesis
    using jl.getEntries [OF assms, of e w] by (auto simp: getEntriesToFork_def fork_entries_def)
next
  case False
  then obtain i where i: "entryId = Some i" "i \<noteq> []" by auto
  show ?thesis
    using i jl.getEntriesToFork_missing [OF assms i(2), of e position w]
      jl.getEntriesToFork_At [OF assms i(2), of _ e w] jl.getEntriesToFork_Before [OF assms i(2), of _ position e w]
    by (cases "find_entry (jl_entries s) i"; cases "position = Some At") (auto simp: fork_entries_def entry_not_found_def)
qed

lemma fork_entries_log:
  assumes "log_ok ens" "fork_entries ens entryId position = Some forked"
    and "entryId = None \<or> entryId = Some [] \<or> (\<forall>en \<in> set forked. e_type en \<noteq> TLeaf)"
  shows "log_ok forked" "set forked \<subseteq> set ens"
    "path_of forked (leaf_of forked) = (if entryId = None \<or> entryId = Some [] then path_of ens (leaf_of ens) else forked)"
proof -
  have "log_ok forked \<and> set forked \<subseteq> set ens \<and>
    path_of forked (leaf_of forked) = (if entryId = None \<or> entryId = Some [] then path_of ens (leaf_of ens) else forked)"
  proof (cases "entryId = None \<or> entryId = Some []")
    case True
    then show ?thesis using assms by (auto simp: fork_entries_def)
  next
    case False
    then obtain i t where i: "entryId = Some i" "find_entry ens i = Some t"
      "forked = path_of ens (Some i) \<or> forked = path_of ens (e_parentId t)"
      using assms(2) by (auto simp: fork_entries_def split: option.splits if_splits)
    have "valid_target ens (Some i)" "valid_target ens (e_parentId t)"
      using i(2) find_entry_None_iff [of ens i] find_entry_parent [OF assms(1) i(2)] by (auto simp: valid_target_def)
    from this [THEN path_of_chain [OF assms(1)]] i(3)
    have c: "chain_from None forked" "set forked \<subseteq> set ens" "distinct (map e_id forked)" by auto
    have "[] \<notin> e_id ` set forked" using c(2) log_ok_nonempty_ids [OF assms(1)] by (auto simp: log_ids_def)
    with chain_is_log [OF c(1,3)] assms(3) False c(2) show ?thesis by auto
  qed
  then show "log_ok forked" "set forked \<subseteq> set ens"
    "path_of forked (leaf_of forked) = (if entryId = None \<or> entryId = Some [] then path_of ens (leaf_of ens) else forked)"
    by simp_all
qed

lemma open_run:
  assumes "stored content f (jm_path m) h ens"
  shows "\<exists>s. jl_good content (jm_path m) h (s, f) \<and> jl_entries s = ens \<and> jr_open fs m ((r, f), w) = (Inr (Some s), (r, f), w)"
proof -
  obtain s where s: "jl_good content (jm_path m) h (s, f)" "jl_entries s = ens"
    "jl_open (text_fs fs) (jm_path m) f = (Inr (Some s), f)"
    using stored_opens [OF assms] by auto
  moreover have "rf_exists fs (jm_path m) f = (Inr True, f)"
    using assms exists_text by (simp add: stored_def)
  ultimately show ?thesis by (intro exI [of _ s]) (simp add: jr_open_def bindS_def file_step_def)
qed

lemma stored_of_good:
  assumes "jl_good content p h (s, f)" "header_ok h" "\<forall>en \<in> set (jl_entries s). storable en"
  shows "stored content f p h (jl_entries s)"
  using assms by (simp add: stored_def jl_good_def)

lemma fork_runs:
  assumes "stored content f (jm_path m) h ens" "fork_entries ens entryId position = Some forked"
    and "entryId = None \<or> entryId = Some [] \<or> (\<forall>en \<in> set forked. e_type en \<noteq> TLeaf)"
    and "dated e" "co_cwd options \<noteq> []" "new_session_id e (co_id options) ((r, f), w) = (Inr (i, ts), (r, f), w1)" "i \<noteq> []"
    and "create_storage fs e (co_id options) (co_cwd options)
      (case co_parentSessionPath options of Some p \<Rightarrow> Some p | None \<Rightarrow> Some (jm_path m)) ((r, f), w) = (Inr s0, (r0, f0), w0)"
  shows "\<exists>x \<sigma>. jr_fork fs e m options entryId position ((r, f), w) = (Inr x, \<sigma>)"
proof -
  obtain src where src: "jl_good content (jm_path m) h (src, f)" "jl_entries src = ens"
    "jr_open fs m ((r, f), w) = (Inr (Some src), (r, f), w)"
    using open_run [OF assms(1)] by blast
  have g: "with_storage src (getEntriesToFork (jsonl_ops (text_fs fs) e) entryId position) ((r, f), w) =
      (Inr (forked, src), (r, f), w)"
    using fork_entries_run [OF src(1)] assms(2) src(2) by (simp add: with_storage_def)
  from create_storage_stored [OF assms(8,4,5,6,7)] obtain h' where h':
    "jl_good content (session_path absolute joined r (co_cwd options) i ts) h' (s0, f0)" "jl_entries s0 = []"
    by metis
  have "log_ok forked" using fork_entries_log [OF _ assms(2,3)] assms(1) by (simp add: stored_def)
  then obtain s1 f1 where "append_entries (text_fs fs) forked ((s0, f0), w0) = (Inr (), (s1, f1), w0)"
    using append_entries_stored [OF h'(1), of forked w0] h'(2) by auto
  then show ?thesis
    using src(3) g assms(8) by (simp add: jr_fork_def bindS_def with_storage_def returnS_def)
qed

lemma fork_stored:
  assumes "stored content f (jm_path m) h ens" "fork_entries ens entryId position = Some forked"
    and "entryId = None \<or> entryId = Some [] \<or> (\<forall>en \<in> set forked. e_type en \<noteq> TLeaf)"
    and "dated e" "co_cwd options \<noteq> []" "new_session_id e (co_id options) ((r, f), w) = (Inr (i, ts), (r, f), w1)" "i \<noteq> []"
    and "jr_fork fs e m options entryId position ((r, f), w) = (Inr x, (r', f'), w')"
  obtains s h' where "x = Some s" "jl_entries s = forked" "stored content f' (session_path absolute joined r (co_cwd options) i ts) h' forked"
    "jl_good content (session_path absolute joined r (co_cwd options) i ts) h' (s, f')" "sh_id h' = i"
    "sh_parentSession h' = (case co_parentSessionPath options of Some p \<Rightarrow> Some p | None \<Rightarrow> Some (jm_path m))"
    "\<And>q u. content f q = Some u \<Longrightarrow> key q \<noteq> key (session_path absolute joined r (co_cwd options) i ts) \<Longrightarrow> content f' q = Some u"
proof -
  let ?p = "session_path absolute joined r (co_cwd options) i ts"
  let ?parent = "case co_parentSessionPath options of Some p \<Rightarrow> Some p | None \<Rightarrow> Some (jm_path m)"
  obtain src where src: "jl_good content (jm_path m) h (src, f)" "jl_entries src = ens"
    "jr_open fs m ((r, f), w) = (Inr (Some src), (r, f), w)"
    using open_run [OF assms(1)] by blast
  have g: "with_storage src (getEntriesToFork (jsonl_ops (text_fs fs) e) entryId position) ((r, f), w) =
      (Inr (forked, src), (r, f), w)"
    using fork_entries_run [OF src(1)] assms(2) src(2) by (simp add: with_storage_def)
  have "bindS (create_storage fs e (co_id options) (co_cwd options) ?parent) (\<lambda>storage.
      bindS (with_storage storage (append_entries (text_fs fs) forked)) (\<lambda>(_, storage'). returnS (Some storage'))) ((r, f), w) =
      (Inr x, (r', f'), w')"
    using assms(8) src(3) g by (simp add: jr_fork_def bindS_def)
  then obtain s0 \<sigma> where c': "create_storage fs e (co_id options) (co_cwd options) ?parent ((r, f), w) = (Inr s0, \<sigma>)"
    and a': "bindS (with_storage s0 (append_entries (text_fs fs) forked)) (\<lambda>(_, storage'). returnS (Some storage')) \<sigma> =
      (Inr x, (r', f'), w')"
    by (rule bindS_InrE)
  obtain r0 f0 w0 where \<sigma>: "\<sigma> = ((r0, f0), w0)" by (metis prod_cases3 prod.collapse)
  note c = c' [unfolded \<sigma>] and a = a' [unfolded \<sigma>]
  from create_storage_stored [OF c assms(4,5,6,7)] obtain h' where h': "jl_good content ?p h' (s0, f0)"
    "jl_entries s0 = []" "header_ok h'" "sh_id h' = i" "sh_parentSession h' = ?parent"
    "\<And>q u. content f q = Some u \<Longrightarrow> key q \<noteq> key ?p \<Longrightarrow> content f0 q = Some u"
    by metis
  have log: "log_ok ens" using assms(1) by (simp add: stored_def)
  note fl = fork_entries_log [OF log assms(2,3)]
  obtain s1 f1 where s1: "append_entries (text_fs fs) forked ((s0, f0), w0) = (Inr (), (s1, f1), w0)"
    "jl_good content ?p h' (s1, f1)" "jl_entries s1 = forked"
    "\<And>q u. content f0 q = Some u \<Longrightarrow> key q \<noteq> key ?p \<Longrightarrow> content f1 q = Some u"
    using append_entries_stored [OF h'(1), of forked w0] h'(2) fl(1) by auto
  have x: "x = Some s1" "f' = f1" using a s1(1) by (auto simp: bindS_def with_storage_def returnS_def)
  have st: "\<forall>en \<in> set forked. storable en" using fl(2) assms(1) by (auto simp: stored_def)
  show ?thesis
  proof (rule that [of s1 h'])
    show "stored content f' ?p h' forked" using stored_of_good [OF s1(2) h'(3)] s1(3) st x(2) by simp
    show "content f' q = Some u" if "content f q = Some u" "key q \<noteq> key ?p" for q u
      using s1(4) [OF h'(6) [OF that] that(2)] x(2) by simp
  qed (use x s1 h' in auto)
qed

lemma fork_refused:
  assumes "stored content f (jm_path m) h ens" "fork_entries ens entryId position = None"
  shows "\<exists>msg. jr_fork fs e m options entryId position ((r, f), w) =
    (Inl (SessionError InvalidForkTarget msg), (r, f), w)"
proof -
  obtain src where src: "jl_good content (jm_path m) h (src, f)" "jl_entries src = ens"
    "jr_open fs m ((r, f), w) = (Inr (Some src), (r, f), w)"
    using open_run [OF assms(1)] by blast
  obtain msg where "with_storage src (getEntriesToFork (jsonl_ops (text_fs fs) e) entryId position) ((r, f), w) =
      (Inl (SessionError InvalidForkTarget msg), (r, f), w)"
    using fork_entries_run [OF src(1)] assms(2) src(2) by (simp add: with_storage_def)
  then show ?thesis using src(3) by (auto simp: jr_fork_def bindS_def)
qed

lemma delete_then_open:
  assumes "content f (jm_path m) = Some t"
  shows "\<exists>f'. jr_delete fs m ((r, f), w) = (Inr (), (r, f'), w) \<and>
    (\<forall>m' w'. key (jm_path m') = key (jm_path m) \<longrightarrow> jm_path m' = jm_path m \<longrightarrow>
       jr_open fs m' ((r, f'), w') = (Inl (SessionError NotFound (js ''Session not found: '' @ jm_path m)), (r, f'), w')) \<and>
    (\<forall>q u. content f q = Some u \<longrightarrow> key q \<noteq> key (jm_path m) \<longrightarrow> content f' q = Some u)"
proof -
  obtain f' where f': "rf_remove fs (jm_path m) True f = (Inr (), f')" "rf_exists fs (jm_path m) f' = (Inr False, f')"
    using remove_text [OF assms] by blast
  then show ?thesis
    using remove_keeps [OF f'(1)]
    by (intro exI [of _ f']) (auto simp: jr_delete_def jr_open_def file_step_def bindS_def throwS_def)
qed

lemma parseHeader_invalid: "parseHeaderLine l p = Inl err \<Longrightarrow> \<exists>msg. err = SessionError InvalidSession msg"
  by (auto simp: parseHeaderLine_def check_header_def invalidSession_def Let_def
      split: option.splits if_splits json.splits)

lemma load_text:
  assumes "content f p = Some t"
  shows "\<exists>y. loadJsonlSessionMetadata (text_fs fs) p f = (y, f) \<and>
    (case y of Inr m \<Rightarrow> listed fs f p = Some m | Inl err \<Rightarrow> listed fs f p = None \<and> (\<exists>msg. err = SessionError InvalidSession msg))"
  using read_lines [OF assms]
  by (auto simp: listed_def loadJsonlSessionMetadata_def invalidSession_def FileSystem.truncate_def
      dest!: parseHeader_invalid split: list.split sum.split prod.split)

lemma list_files_run:
  "\<forall>file \<in> set files. content f (fi_path file) \<noteq> None \<Longrightarrow>
   list_files fs files ((r, f), w) = (Inr (List.map_filter (\<lambda>file. listed fs f (fi_path file)) files), (r, f), w)"
proof (induction files)
  case (Cons x files)
  obtain t where "content f (fi_path x) = Some t" using Cons.prems by auto
  then obtain y where y: "loadJsonlSessionMetadata (text_fs fs) (fi_path x) f = (y, f)"
    "case y of Inr m \<Rightarrow> listed fs f (fi_path x) = Some m | Inl err \<Rightarrow> listed fs f (fi_path x) = None \<and> (\<exists>msg. err = SessionError InvalidSession msg)"
    using load_text by blast
  then show ?case
    using Cons by (cases y) (auto simp: bindS_def returnS_def List.map_filter_simps)
qed (simp add: returnS_def List.map_filter_simps)

text \<open>A file that holds a session is listed with the metadata of its header.\<close>

lemma listed_stored:
  assumes "content f p = Some (session_file h ens)" "header_ok h" "readline_ok readline"
    and "\<forall>c \<in> set (stringify (header_json h)). \<not> line_end c"
  shows "listed fs f p = Some (headerToSessionMetadata h p)"
proof -
  have "take 1 (readline (session_file h ens)) = [stringify (header_json h)]"
    using assms(3,4) by (auto simp: readline_ok_def session_file_def)
  moreover have "trim (stringify (header_json h)) \<noteq> []"
  proof -
    obtain s where "stringify (header_json h) = 0x7B # s" unfolding header_json_def using stringify_obj_hd by blast
    then show ?thesis by (simp add: trim_Cons is_js_space_def)
  qed
  ultimately show ?thesis
    using read_lines [OF assms(1)] parse_header_text [OF assms(2)]
    by (simp add: listed_def loadJsonlSessionMetadata_def FileSystem.truncate_def)
qed

text \<open>Listing one working directory: the sessions of its files, newest first.\<close>

lemma list_run:
  assumes "cwd \<noteq> []" "rf_exists fs (session_dir absolute joined r cwd) f = (Inr True, f)" "rf_listDir fs (session_dir absolute joined r cwd) f = (Inr infos, f)"
    and "\<forall>info \<in> set (filter is_session_file infos). content f (fi_path info) \<noteq> None"
  shows "jr_list fs date_ms (Some cwd) ((r, f), w) =
    (Inr (sort_key (\<lambda>m. - date_ms (jm_createdAt m))
       (List.map_filter (\<lambda>info. listed fs f (fi_path info)) (filter is_session_file infos))), (rooted absolute r, f), w)"
  using assms list_files_run [OF assms(4)]
  by (simp add: jr_list_def bindS_def getSessionDir_run session_dir_def [symmetric] file_step_def returnS_def)

end

end
