(* ===== verification/NodeDisk.thy ===== *)
theory NodeDisk
  imports JsonlRepo "HOL-Library.Multiset"
begin

text \<open>
  The files and directories behind \<open>NodeExecutionEnv\<close> (\<open>packages/agent/src/harness/env/nodejs.ts\<close>)
  as the session repository uses them: text files by resolved path and the set of directories. Paths,
  the order in which a directory is read and the splitting into lines are Node's, the record
  \<open>NodePaths\<close>; symbolic links, permissions and abort signals are left out. The theorems on
  \<open>JsonlSessionRepo\<close> are stated over these files.
\<close>

section \<open>The operations\<close>

record node_disk =
  nd_files :: node_files
  nd_dirs :: "jstring set"

text \<open>\<open>np_above\<close>: the directories above a path; \<open>np_readdir\<close>: the names in a directory.\<close>

record NodePaths =
  np_resolve :: "jstring \<Rightarrow> jstring"
  np_join :: "jstring list \<Rightarrow> jstring"
  np_child :: "jstring \<Rightarrow> jstring \<Rightarrow> jstring"
  np_above :: "jstring \<Rightarrow> jstring list"
  np_readline :: "jstring \<Rightarrow> jstring list"
  np_readdir :: "node_disk \<Rightarrow> jstring \<Rightarrow> jstring list"

definition plain_file :: "node_disk \<Rightarrow> jstring \<Rightarrow> bool" where
  "plain_file d p \<longleftrightarrow> p \<notin> nd_dirs d \<and> nd_files d p \<noteq> None"

definition node_error :: "FileErrorCode \<Rightarrow> string \<Rightarrow> jstring \<Rightarrow> FileError" where
  "node_error code message path = \<lparr>fe_code = code, fe_message = js message @ [39] @ path @ [39]\<rparr>"

text \<open>A path that is not there, or that leads through a file.\<close>

definition missing_error :: "NodePaths \<Rightarrow> node_disk \<Rightarrow> jstring \<Rightarrow> FileError" where
  "missing_error P d q =
     (if list_ex (plain_file d) (np_above P q) then node_error NotDirectory ''ENOTDIR: not a directory '' q
      else node_error FileNotFound ''ENOENT: no such file or directory '' q)"

text \<open>\<open>mkdir\<close> with \<open>recursive\<close>.\<close>

definition disk_mkdir :: "NodePaths \<Rightarrow> jstring list \<Rightarrow> node_disk \<Rightarrow> FileError + node_disk" where
  "disk_mkdir P ps d =
     (if list_ex (plain_file d) ps then Inl (node_error NotDirectory ''ENOTDIR: not a directory, mkdir '' (hd ps))
      else Inr (d\<lparr>nd_dirs := nd_dirs d \<union> set ps\<rparr>))"

definition disk_text :: "NodePaths \<Rightarrow> node_disk \<Rightarrow> jstring \<Rightarrow> FileError + jstring" where
  "disk_text P d q =
     (if q \<in> nd_dirs d then Inl (node_error IsDirectory ''EISDIR: illegal operation on a directory, read '' q)
      else if set (np_above P q) \<subseteq> nd_dirs d \<and> nd_files d q \<noteq> None then Inr (the (nd_files d q))
      else Inl (missing_error P d q))"

definition disk_readTextFile :: "NodePaths \<Rightarrow> jstring \<Rightarrow> (node_disk, jstring) file_op" where
  "disk_readTextFile P path = (\<lambda>d. (disk_text P d (np_resolve P path), d))"

definition disk_readTextLines :: "NodePaths \<Rightarrow> jstring \<Rightarrow> nat option \<Rightarrow> (node_disk, jstring list) file_op" where
  "disk_readTextLines P path maxLines = (\<lambda>d.
     (if maxLines = Some 0 then Inr []
      else case disk_text P d (np_resolve P path) of
             Inl err \<Rightarrow> Inl err
           | Inr t \<Rightarrow> Inr (case maxLines of Some n \<Rightarrow> take n (np_readline P t) | None \<Rightarrow> np_readline P t), d))"

text \<open>What \<open>writeFile\<close> and \<open>appendFile\<close> share: the parent directory is made, then the file written.\<close>

definition disk_put :: "NodePaths \<Rightarrow> jstring \<Rightarrow> (jstring option \<Rightarrow> jstring) \<Rightarrow> (node_disk, unit) file_op" where
  "disk_put P path new = (\<lambda>d.
     let q = np_resolve P path
     in case disk_mkdir P (np_above P q) d of
          Inl err \<Rightarrow> (Inl err, d)
        | Inr d1 \<Rightarrow>
            if q \<in> nd_dirs d1 then (Inl (node_error IsDirectory ''EISDIR: illegal operation on a directory, open '' q), d1)
            else (Inr (), d1\<lparr>nd_files := (nd_files d1)(q \<mapsto> new (nd_files d1 q))\<rparr>))"

definition disk_writeFile :: "NodePaths \<Rightarrow> jstring \<Rightarrow> jstring \<Rightarrow> (node_disk, unit) file_op" where
  "disk_writeFile P path t = disk_put P path (\<lambda>_. replaceUnpairedSurrogates t)"

definition disk_appendFile :: "NodePaths \<Rightarrow> jstring \<Rightarrow> jstring \<Rightarrow> (node_disk, unit) file_op" where
  "disk_appendFile P path t =
     disk_put P path (\<lambda>old. (case old of Some u \<Rightarrow> u | None \<Rightarrow> []) @ replaceUnpairedSurrogates t)"

text \<open>\<open>fileInfo\<close> of a resolved path: \<open>lstat\<close> and \<open>fileInfoFromStats\<close>.\<close>

definition disk_stat :: "NodePaths \<Rightarrow> node_disk \<Rightarrow> jstring \<Rightarrow> FileError + FileInfo" where
  "disk_stat P d q =
     (let info = (\<lambda>kind. \<lparr>fi_name = basenameEnvPath q, fi_path = q, fi_kind = kind\<rparr>)
      in if q \<in> nd_dirs d then Inr (info KDirectory)
         else if set (np_above P q) \<subseteq> nd_dirs d \<and> nd_files d q \<noteq> None then Inr (info KFile)
         else Inl (missing_error P d q))"

definition disk_fileInfo :: "NodePaths \<Rightarrow> jstring \<Rightarrow> (node_disk, FileInfo) file_op" where
  "disk_fileInfo P path = (\<lambda>d. (disk_stat P d (np_resolve P path), d))"

definition disk_exists :: "NodePaths \<Rightarrow> jstring \<Rightarrow> (node_disk, bool) file_op" where
  "disk_exists P path = (\<lambda>d.
     (case disk_fileInfo P path d of
        (Inr _, d') \<Rightarrow> (Inr True, d')
      | (Inl err, d') \<Rightarrow> (if fe_code err = FileNotFound then Inr False else Inl err, d')))"

fun stat_all :: "NodePaths \<Rightarrow> node_disk \<Rightarrow> jstring list \<Rightarrow> FileError + FileInfo list" where
  "stat_all P d [] = Inr []"
| "stat_all P d (q # qs) =
     (case disk_stat P d q of
        Inl err \<Rightarrow> Inl err
      | Inr info \<Rightarrow> (case stat_all P d qs of Inl err \<Rightarrow> Inl err | Inr infos \<Rightarrow> Inr (info # infos)))"

definition disk_listDir :: "NodePaths \<Rightarrow> jstring \<Rightarrow> (node_disk, FileInfo list) file_op" where
  "disk_listDir P path = (\<lambda>d.
     let q = np_resolve P path
     in (if q \<in> nd_dirs d then stat_all P d (map (np_child P q) (np_readdir P d q))
         else if set (np_above P q) \<subseteq> nd_dirs d \<and> nd_files d q \<noteq> None
              then Inl (node_error NotDirectory ''ENOTDIR: not a directory, scandir '' q)
         else Inl (missing_error P d q), d))"

definition disk_createDir :: "NodePaths \<Rightarrow> jstring \<Rightarrow> bool \<Rightarrow> (node_disk, unit) file_op" where
  "disk_createDir P path recursive = (\<lambda>d.
     let q = np_resolve P path
     in if recursive then (case disk_mkdir P (q # np_above P q) d of Inl err \<Rightarrow> (Inl err, d) | Inr d1 \<Rightarrow> (Inr (), d1))
        else if \<not> set (np_above P q) \<subseteq> nd_dirs d then (Inl (missing_error P d q), d)
        else if q \<in> nd_dirs d \<or> nd_files d q \<noteq> None then (Inl (node_error FileUnknown ''EEXIST: file already exists, mkdir '' q), d)
        else (Inr (), d\<lparr>nd_dirs := insert q (nd_dirs d)\<rparr>))"

text \<open>\<open>remove\<close> without \<open>recursive\<close>, as the repository calls it: a directory is an error.\<close>

definition disk_remove :: "NodePaths \<Rightarrow> jstring \<Rightarrow> bool \<Rightarrow> (node_disk, unit) file_op" where
  "disk_remove P path force = (\<lambda>d.
     let q = np_resolve P path
     in if q \<in> nd_dirs d then (Inl (node_error FileUnknown ''Path is a directory: rm returned EISDIR '' q), d)
        else if set (np_above P q) \<subseteq> nd_dirs d \<and> nd_files d q \<noteq> None then (Inr (), d\<lparr>nd_files := (nd_files d)(q := None)\<rparr>)
        else if force \<and> fe_code (missing_error P d q) = FileNotFound then (Inr (), d)
        else (Inl (missing_error P d q), d))"

definition node_env :: "NodePaths \<Rightarrow> node_disk RepoFileSystem" where
  "node_env P =
     \<lparr>fs_readTextFile = disk_readTextFile P, fs_readTextLines = disk_readTextLines P, fs_writeFile = disk_writeFile P,
      fs_appendFile = disk_appendFile P, rf_absolutePath = (\<lambda>p d. (Inr (np_resolve P p), d)),
      rf_joinPath = (\<lambda>ps d. (Inr (np_join P ps), d)), rf_listDir = disk_listDir P, rf_exists = disk_exists P,
      rf_createDir = disk_createDir P, rf_remove = disk_remove P\<rparr>"

section \<open>The contract of the files\<close>

definition disk_content :: "NodePaths \<Rightarrow> node_disk \<Rightarrow> jstring \<Rightarrow> jstring option" where
  "disk_content P d p = (case disk_text P d (np_resolve P p) of Inr t \<Rightarrow> Some t | Inl _ \<Rightarrow> None)"

lemma disk_content_Some:
  "disk_content P d p = Some t \<longleftrightarrow>
     np_resolve P p \<notin> nd_dirs d \<and> set (np_above P (np_resolve P p)) \<subseteq> nd_dirs d \<and> nd_files d (np_resolve P p) = Some t"
  by (auto simp: disk_content_def disk_text_def)

lemma mkdir_keeps_text:
  assumes "disk_mkdir P ps d = Inr d1" "disk_content P d q = Some u"
  shows "disk_content P d1 q = Some u"
proof -
  have "d1 = d\<lparr>nd_dirs := nd_dirs d \<union> set ps\<rparr>" "\<forall>a \<in> set ps. \<not> plain_file d a"
    using assms(1) by (auto simp: disk_mkdir_def list_ex_iff split: if_splits)
  then show ?thesis using assms(2) by (auto simp: disk_content_Some plain_file_def)
qed

lemma put_keeps_text:
  assumes "disk_put P p new d = (x, d')" "disk_content P d q = Some u" "np_resolve P q \<noteq> np_resolve P p"
  shows "disk_content P d' q = Some u"
  using assms mkdir_keeps_text
  by (fastforce simp: disk_put_def Let_def disk_content_Some split: sum.splits if_splits)

lemma put_text:
  "disk_put P p new d = (Inr (), d') \<Longrightarrow> disk_content P d' p = Some (new (nd_files d (np_resolve P p)))"
  by (auto simp: disk_put_def disk_mkdir_def Let_def disk_content_Some split: sum.splits if_splits)

lemma put_existing:
  assumes "disk_content P d p = Some u"
  shows "\<exists>d'. disk_put P p new d = (Inr (), d')"
proof -
  have "\<not> list_ex (plain_file d) (np_above P (np_resolve P p))"
    using assms by (auto simp: disk_content_Some plain_file_def list_ex_iff)
  then show ?thesis using assms by (auto simp: disk_put_def disk_mkdir_def Let_def disk_content_Some)
qed

lemma content_not_missing:
  "disk_content P d p = Some t \<Longrightarrow> \<not> list_ex (plain_file d) (np_above P (np_resolve P p))"
  by (auto simp: disk_content_Some plain_file_def list_ex_iff)

interpretation disk: session_files "node_env P" "disk_content P" "np_resolve P" "np_resolve P" "np_join P" "np_readline P" for P
proof unfold_locales
  fix f f' p q ps t u x and b :: bool
  show "fs_readTextFile (text_fs (node_env P)) p f = (Inr t, f)" if "disk_content P f p = Some t"
    using that by (auto simp: node_env_def FileSystem.truncate_def disk_readTextFile_def disk_content_def split: sum.splits)
  show "disk_content P f' p = Some t" if "well_formed_utf16 t" "fs_writeFile (text_fs (node_env P)) p t f = (Inr (), f')"
    using that by (simp add: node_env_def FileSystem.truncate_def disk_writeFile_def put_text replace_well_formed_id)
  show "\<exists>f'. fs_appendFile (text_fs (node_env P)) p t f = (Inr (), f') \<and> disk_content P f' p = Some (u @ t)"
    if "well_formed_utf16 t" "disk_content P f p = Some u"
    using put_existing [OF that(2)] that
    by (fastforce simp: node_env_def FileSystem.truncate_def disk_appendFile_def replace_well_formed_id disk_content_Some
        dest: put_text)
  show "rf_absolutePath (node_env P) p f = (Inr (np_resolve P p), f)" "rf_joinPath (node_env P) ps f = (Inr (np_join P ps), f)"
    by (simp_all add: node_env_def)
  show "rf_exists (node_env P) p f = (Inr True, f)" if "disk_content P f p = Some t"
    using that by (auto simp: node_env_def disk_exists_def disk_fileInfo_def disk_stat_def disk_content_Some)
  show "fs_readTextLines (node_env P) p (Some 1) f = (Inr (take 1 (np_readline P t)), f)" if "disk_content P f p = Some t"
    using that by (auto simp: node_env_def disk_readTextLines_def disk_content_def split: sum.splits)
  show "disk_content P f' q = Some u"
    if "fs_writeFile (node_env P) p t f = (x, f')" "np_resolve P q \<noteq> np_resolve P p" "disk_content P f q = Some u"
    using that put_keeps_text by (auto simp: node_env_def disk_writeFile_def)
  show "disk_content P f' q = Some u"
    if "fs_appendFile (node_env P) p t f = (x, f')" "np_resolve P q \<noteq> np_resolve P p" "disk_content P f q = Some u"
    using that put_keeps_text by (auto simp: node_env_def disk_appendFile_def)
  show "disk_content P f' q = Some u" if "rf_createDir (node_env P) p b f = (x, f')" "disk_content P f q = Some u"
    using that mkdir_keeps_text
    by (fastforce simp: node_env_def disk_createDir_def Let_def disk_content_Some split: if_splits sum.splits)
  show "\<exists>f'. rf_remove (node_env P) p True f = (Inr (), f') \<and> rf_exists (node_env P) p f' = (Inr False, f')"
    if "disk_content P f p = Some t"
    using that content_not_missing [OF that]
    by (auto simp: node_env_def disk_remove_def disk_exists_def disk_fileInfo_def disk_stat_def disk_content_Some missing_error_def
        plain_file_def list_ex_iff node_error_def Let_def split: if_splits)
  show "disk_content P f' q = Some u"
    if "rf_remove (node_env P) p b f = (x, f')" "np_resolve P q \<noteq> np_resolve P p" "disk_content P f q = Some u"
    using that by (auto simp: node_env_def disk_remove_def Let_def disk_content_Some split: if_splits)
qed

section \<open>The repository over these files\<close>

abbreviation node_session_path :: "NodePaths \<Rightarrow> JsonlSessionRepo \<Rightarrow> jstring \<Rightarrow> jstring \<Rightarrow> jstring \<Rightarrow> jstring" where
  "node_session_path P \<equiv> session_path (np_resolve P) (np_join P)"

text \<open>Claim C20: a fork is a session of its own on disk. Forking a stored session, whole, at an entry
  or before a message of the user, gives a session with exactly the entries asked for; opened again
  from its file it is the same session; its branch is the branch of the source, or the path to the
  entry; it names its parent; and the source and every other file keep their content.\<close>

theorem forked_session_reopens:
  assumes "stored (disk_content P) d (jm_path m) h ens" "fork_entries ens entryId position = Some forked"
    and "entryId = None \<or> entryId = Some [] \<or> (\<forall>en \<in> set forked. e_type en \<noteq> TLeaf)"
    and "dated e" "co_cwd options \<noteq> []" "new_session_id e (co_id options) ((r, d), w) = (Inr (i, ts), (r, d), w1)" "i \<noteq> []"
    and "jr_fork (node_env P) e m options entryId position ((r, d), w) = (Inr x, (r', d'), w')"
  shows "\<exists>s. x = Some s \<and> jl_entries s = forked \<and>
    jr_open (node_env P) (jl_metadata s) ((r', d'), w') = (Inr (Some s), (r', d'), w') \<and>
    getBranch (jsonl_ops (text_fs (node_env P)) e) None ((s, d'), w') =
      (Inr (if entryId = None \<or> entryId = Some [] then path_of ens (leaf_of ens) else forked), (s, d'), w') \<and>
    jm_id (jl_metadata s) = i \<and>
    jm_parentSessionPath (jl_metadata s) =
      (case co_parentSessionPath options of Some p \<Rightarrow> Some p | None \<Rightarrow> Some (jm_path m)) \<and>
    (\<forall>q u. np_resolve P q \<noteq> np_resolve P (node_session_path P r (co_cwd options) i ts) \<longrightarrow>
       disk_content P d q = Some u \<longrightarrow> disk_content P d' q = Some u)"
proof -
  from disk.fork_stored [OF assms] obtain s h' where s: "x = Some s" "jl_entries s = forked"
    "stored (disk_content P) d' (node_session_path P r (co_cwd options) i ts) h' forked"
    "jl_good (disk_content P) (node_session_path P r (co_cwd options) i ts) h' (s, d')" "sh_id h' = i"
    "sh_parentSession h' = (case co_parentSessionPath options of Some p \<Rightarrow> Some p | None \<Rightarrow> Some (jm_path m))"
    "\<And>q u. disk_content P d q = Some u \<Longrightarrow>
       np_resolve P q \<noteq> np_resolve P (node_session_path P r (co_cwd options) i ts) \<Longrightarrow> disk_content P d' q = Some u"
    by metis
  have m: "jl_metadata s = headerToSessionMetadata h' (node_session_path P r (co_cwd options) i ts)"
    using s(4) by (simp add: jl_good_def)
  then have p: "jm_path (jl_metadata s) = node_session_path P r (co_cwd options) i ts" "jl_filePath s = jm_path (jl_metadata s)"
    using s(4) by (simp_all add: headerToSessionMetadata_def jl_good_def)
  have "jl_open (text_fs (node_env P)) (jm_path (jl_metadata s)) d' = (Inr (Some s), d')"
    using disk.open_good [OF s(4)] s(2,3) p(2) by (simp add: stored_def)
  then have o: "jr_open (node_env P) (jl_metadata s) ((r', d'), w') = (Inr (Some s), (r', d'), w')"
    using disk.exists_text [of P d' "jm_path (jl_metadata s)"] s(3) p(1)
    by (simp add: jr_open_def bindS_def file_step_def stored_def)
  have log: "log_ok ens" using assms(1) by (simp add: stored_def)
  show ?thesis
    using s o m disk.jl.getBranch_run [OF s(4), of e w'] disk.fork_entries_log(3) [OF log assms(2,3)]
    by (auto simp: headerToSessionMetadata_def)
qed

text \<open>A file that holds no session: its first line is not a header.\<close>

definition no_session :: "NodePaths \<Rightarrow> jstring \<Rightarrow> jstring \<Rightarrow> bool" where
  "no_session P p t \<longleftrightarrow>
     (case take 1 (np_readline P t) of
        [] \<Rightarrow> True
      | l # _ \<Rightarrow> trim l = [] \<or> (case parseHeaderLine l p of Inl _ \<Rightarrow> True | Inr _ \<Rightarrow> False))"

lemma listed_no_session:
  assumes "disk_content P d p = Some t" "no_session P p t"
  shows "listed (node_env P) d p = None"
  using assms disk.read_lines [OF assms(1)]
  by (auto simp: listed_def loadJsonlSessionMetadata_def no_session_def FileSystem.truncate_def
      split: list.splits sum.splits)

text \<open>Claim C21: a repository lists exactly the sessions of a working directory, newest first. When every
  session file in the directory either holds a session or has no header, the list has one item for
  each session, with the identifier, date, directory and parent of its header and the path of its
  file; the files without a header are passed over, and nothing on disk changes.\<close>

theorem sessions_are_listed:
  assumes "cwd \<noteq> []" "readline_ok (np_readline P)"
    and "disk_exists P dir d = (Inr True, d)" "disk_listDir P dir d = (Inr infos, d)"
    and "dir = session_dir (np_resolve P) (np_join P) r cwd"
    and "\<forall>info \<in> set (filter is_session_file infos).
      case sessions (fi_path info) of
        Some (h, ens) \<Rightarrow> disk_content P d (fi_path info) = Some (session_file h ens) \<and> header_ok h \<and>
          list_all (\<lambda>c. \<not> line_end c) (stringify (header_json h))
      | None \<Rightarrow> \<exists>t. disk_content P d (fi_path info) = Some t \<and> no_session P (fi_path info) t"
  shows "\<exists>ms r'. jr_list (node_env P) date_ms (Some cwd) ((r, d), w) = (Inr ms, (r', d), w) \<and>
    sorted_wrt (\<lambda>a b. date_ms (jm_createdAt b) \<le> date_ms (jm_createdAt a)) ms \<and>
    mset ms = mset (List.map_filter
      (\<lambda>info. map_option (\<lambda>(h, ens). headerToSessionMetadata h (fi_path info)) (sessions (fi_path info)))
      (filter is_session_file infos))"
proof -
  let ?fs = "node_env P"
  have l: "listed ?fs d (fi_path info) =
      map_option (\<lambda>(h, ens). headerToSessionMetadata h (fi_path info)) (sessions (fi_path info)) \<and>
      disk_content P d (fi_path info) \<noteq> None" if "info \<in> set (filter is_session_file infos)" for info
    using bspec [OF assms(6) that] disk.listed_stored [of P d "fi_path info"] listed_no_session [of P d "fi_path info"] assms(2)
    by (auto simp: list_all_iff split: option.splits)
  have "jr_list ?fs date_ms (Some cwd) ((r, d), w) =
    (Inr (sort_key (\<lambda>m. - date_ms (jm_createdAt m))
       (List.map_filter (\<lambda>info. listed ?fs d (fi_path info)) (filter is_session_file infos))),
     (rooted (np_resolve P) r, d), w)"
    using assms(3,4) l unfolding assms(5) by (intro disk.list_run [OF assms(1)]) (auto simp: node_env_def)
  moreover have "List.map_filter (\<lambda>info. listed ?fs d (fi_path info)) (filter is_session_file infos) =
    List.map_filter (\<lambda>info. map_option (\<lambda>(h, ens). headerToSessionMetadata h (fi_path info)) (sessions (fi_path info)))
      (filter is_session_file infos)"
    using l by (auto simp: List.map_filter_def intro!: map_cong filter_cong)
  moreover have "sorted_wrt (\<lambda>a b. date_ms (jm_createdAt b) \<le> date_ms (jm_createdAt a)) (sort_key (\<lambda>m. - date_ms (jm_createdAt m)) ms)" for ms
    using sorted_sort_key [of "\<lambda>m. - date_ms (jm_createdAt m)" ms] by (simp add: sorted_map)
  ultimately show ?thesis by auto
qed

text \<open>Working directories that differ only in separators share a directory of sessions, so listing one
  lists the sessions of the other as well.\<close>

lemma working_directories_collide:
  "encodeCwd (js ''/a/b'') = encodeCwd (js ''/a-b'')"
  by (simp add: encodeCwd_def js_def)

section \<open>Examples\<close>

definition sample_paths :: NodePaths where
  "sample_paths =
     \<lparr>np_resolve = id, np_join = join [slash], np_child = (\<lambda>q name. q @ [slash] @ name), np_above = (\<lambda>_. []),
      np_readline = split_on newline, np_readdir = (\<lambda>d q. [js ''a.jsonl'', js ''b.jsonl''])\<rparr>"

definition sample_header :: SessionHeader where
  "sample_header = \<lparr>sh_id = js ''s'', sh_timestamp = js ''t'', sh_cwd = js ''/w'', sh_parentSession = None\<rparr>"

definition sample_entry :: entry where
  "sample_entry = new_entry (js ''e'') None (js ''t'') (LabelE (js ''x'') None)"

definition sample_disk :: node_disk where
  "sample_disk =
     \<lparr>nd_files = [js ''/r/--w--/a.jsonl'' \<mapsto> session_file sample_header [sample_entry], js ''/r/--w--/b.jsonl'' \<mapsto> []],
      nd_dirs = {js ''/r'', js ''/r/--w--''}\<rparr>"

lemma sample_stored:
  "stored (disk_content sample_paths) sample_disk (js ''/r/--w--/a.jsonl'') sample_header [sample_entry]"
proof -
  have "disk_content sample_paths sample_disk (js ''/r/--w--/a.jsonl'') = Some (session_file sample_header [sample_entry])"
    by (simp add: disk_content_Some sample_paths_def sample_disk_def)
  moreover have "log_ok [sample_entry]" "storable sample_entry"
    by (simp_all add: sample_entry_def log_ok_def appendable_def new_entry_def storable_def)
  ultimately show ?thesis
    by (simp add: stored_def header_ok_def sample_header_def)
qed

text \<open>A session is forked whole.\<close>

lemma forked_session_reopens_witness:
  "case jr_fork (node_env sample_paths) dated_clock
      \<lparr>jm_id = js ''s'', jm_createdAt = js ''t'', jm_cwd = js ''/w'', jm_path = js ''/r/--w--/a.jsonl'', jm_parentSessionPath = None\<rparr>
      \<lparr>co_id = Some (js ''n''), co_cwd = js ''/w'', co_parentSessionPath = None\<rparr> None None
      ((new_jsonl_repo (js ''/r''), sample_disk), init_world) of
     (Inr (Some s), (r', d'), w') \<Rightarrow>
       jl_entries s = [sample_entry] \<and> jm_parentSessionPath (jl_metadata s) = Some (js ''/r/--w--/a.jsonl'') \<and>
       jr_open (node_env sample_paths) (jl_metadata s) ((r', d'), w') = (Inr (Some s), (r', d'), w')
   | _ \<Rightarrow> False"
proof -
  let ?m = "\<lparr>jm_id = js ''s'', jm_createdAt = js ''t'', jm_cwd = js ''/w'', jm_path = js ''/r/--w--/a.jsonl'', jm_parentSessionPath = None\<rparr>"
  let ?o = "\<lparr>co_id = Some (js ''n''), co_cwd = js ''/w'', co_parentSessionPath = None\<rparr>"
  let ?\<sigma> = "((new_jsonl_repo (js ''/r''), sample_disk), init_world)"
  have st: "stored (disk_content sample_paths) sample_disk (jm_path ?m) sample_header [sample_entry]"
    using sample_stored by simp
  have fe: "fork_entries [sample_entry] None None = Some [sample_entry]" by (simp add: fork_entries_def)
  have d: "dated dated_clock" by (simp add: dated_def dated_clock_def)
  obtain ts w1 where n: "new_session_id dated_clock (co_id ?o) ?\<sigma> = (Inr (js ''n'', ts), (new_jsonl_repo (js ''/r''), sample_disk), w1)"
    by (simp add: new_session_id_def createTimestamp_def iso_now_def date_now_def)
  obtain s0 r0 f0 w0 where c: "create_storage (node_env sample_paths) dated_clock (co_id ?o) (co_cwd ?o)
      (case co_parentSessionPath ?o of Some p \<Rightarrow> Some p | None \<Rightarrow> Some (jm_path ?m)) ?\<sigma> = (Inr s0, (r0, f0), w0)"
    unfolding disk.create_storage_run [OF n]
    by (simp add: node_env_def disk_createDir_def disk_mkdir_def sample_paths_def Let_def jl_create_def iso_now_def date_now_def
        disk_writeFile_def disk_put_def session_dir_def session_path_def root_of_def new_jsonl_repo_def encodeCwd_def sample_disk_def
        plain_file_def js_def FileSystem.truncate_def session_file_name_def)
  obtain x r' d' w' where f: "jr_fork (node_env sample_paths) dated_clock ?m ?o None None ?\<sigma> = (Inr x, (r', d'), w')"
    using disk.fork_runs [OF st fe _ d _ n _ c] by auto
  from forked_session_reopens [OF st fe _ d _ n _ f] f show ?thesis by auto
qed

lemma sample_dir:
  "session_dir (np_resolve sample_paths) (np_join sample_paths) (new_jsonl_repo (js ''/r'')) (js ''/w'') = js ''/r/--w--''"
  by (simp add: session_dir_def root_of_def new_jsonl_repo_def sample_paths_def encodeCwd_def js_def)

lemma sample_readline: "readline_ok (np_readline sample_paths)"
  unfolding readline_ok_def
proof (intro allI impI)
  fix l s :: jstring assume "\<forall>c \<in> set l. \<not> line_end c"
  then have "newline \<notin> set l" by (auto simp: line_end_def)
  then show "take 1 (np_readline sample_paths (l @ [newline] @ s)) = [l]"
    by (simp add: sample_paths_def split_on_append_sep)
qed

lemma sample_exists: "disk_exists sample_paths (js ''/r/--w--'') sample_disk = (Inr True, sample_disk)"
  by (simp add: disk_exists_def disk_fileInfo_def disk_stat_def sample_paths_def sample_disk_def)

abbreviation sample_info :: "string \<Rightarrow> FileInfo" where
  "sample_info name \<equiv> \<lparr>fi_name = js name, fi_path = js (''/r/--w--/'' @ name), fi_kind = KFile\<rparr>"

lemma basename_child:
  assumes "name \<noteq> []" "slash \<notin> set name"
  shows "basenameEnvPath (dir @ [slash] @ name) = name"
proof -
  have "dropWhile (\<lambda>c. c = slash) (rev (dir @ [slash] @ name)) = rev (dir @ [slash] @ name)"
    using assms by (cases name rule: rev_cases) auto
  then have s: "strip_slashes_end (dir @ [slash] @ name) = dir @ [slash] @ name" by (simp add: strip_slashes_end_def)
  have "find_index (\<lambda>c. c = slash) (rev name) = None" using assms(2) by (auto simp: find_index_None)
  then have "last_slash (dir @ [slash] @ name) = Some (length dir)"
    by (simp add: last_slash_def find_index_append)
  then show ?thesis unfolding basenameEnvPath_def s by (simp add: Let_def)
qed

lemma sample_child: "js ''/r/--w--'' @ [slash] @ js name = js (''/r/--w--/'' @ name)"
  by (simp add: js_def)

lemma sample_list:
  "disk_listDir sample_paths (js ''/r/--w--'') sample_disk = (Inr [sample_info ''a.jsonl'', sample_info ''b.jsonl''], sample_disk)"
proof -
  have base: "basenameEnvPath (js (''/r/--w--/'' @ name)) = js name" if "name \<in> {''a.jsonl'', ''b.jsonl''}" for name
    using basename_child [of "js name" "js ''/r/--w--''"] that unfolding sample_child by (auto simp: js_def)
  have a: "disk_stat sample_paths sample_disk (js (''/r/--w--/'' @ name)) = Inr (sample_info name)"
    if "name \<in> {''a.jsonl'', ''b.jsonl''}" for name
    using base [OF that] that by (auto simp: disk_stat_def sample_paths_def sample_disk_def Let_def)
  show ?thesis
    using a [of "''a.jsonl''"] a [of "''b.jsonl''"] sample_child [of "''a.jsonl''"] sample_child [of "''b.jsonl''"]
    by (simp add: disk_listDir_def sample_paths_def sample_disk_def)
qed

lemma sample_session_files: "is_session_file (sample_info ''a.jsonl'')" "is_session_file (sample_info ''b.jsonl'')"
  by (simp_all add: is_session_file_def js_def suffix_to_prefix)

text \<open>A directory with one session and one empty file.\<close>

lemma sessions_are_listed_witness:
  "\<exists>ms r'. jr_list (node_env sample_paths) (\<lambda>_. 0) (Some (js ''/w'')) ((new_jsonl_repo (js ''/r''), sample_disk), init_world) =
     (Inr ms, (r', sample_disk), init_world) \<and>
   mset ms = {#headerToSessionMetadata sample_header (js ''/r/--w--/a.jsonl'')#}"
proof -
  let ?sessions = "\<lambda>p. if p = js ''/r/--w--/a.jsonl'' then Some (sample_header, [sample_entry]) else None"
  let ?infos = "[sample_info ''a.jsonl'', sample_info ''b.jsonl'']"
  have f: "filter is_session_file ?infos = ?infos" using sample_session_files by simp
  have h: "list_all (\<lambda>c. \<not> line_end c) (stringify (header_json sample_header))"
    by code_simp
  have b: "\<exists>t. disk_content sample_paths sample_disk (js ''/r/--w--/b.jsonl'') = Some t \<and> no_session sample_paths (js ''/r/--w--/b.jsonl'') t"
    by (intro exI [of _ "[]"]) (simp add: disk_content_Some sample_paths_def sample_disk_def no_session_def trim_def trim_start_def trim_end_def)
  have s: "\<forall>info \<in> set (filter is_session_file ?infos).
      case ?sessions (fi_path info) of
        Some (h, ens) \<Rightarrow> disk_content sample_paths sample_disk (fi_path info) = Some (session_file h ens) \<and> header_ok h \<and>
          list_all (\<lambda>c. \<not> line_end c) (stringify (header_json h))
      | None \<Rightarrow> \<exists>t. disk_content sample_paths sample_disk (fi_path info) = Some t \<and> no_session sample_paths (fi_path info) t"
    unfolding f using sample_stored h b by (simp add: stored_def)
  have ne: "js ''/w'' \<noteq> []" by simp
  from sessions_are_listed [OF ne sample_readline sample_exists sample_list sample_dir [symmetric] s, of "\<lambda>_. 0" init_world]
  show ?thesis unfolding f by (auto simp: List.map_filter_simps)
qed

end
