(* ===== verification/DiffParser.thy ===== *)
theory DiffParser
  imports Digits
begin

text \<open>
  \<open>packages/review-agent/src/github/diff-parser.ts\<close>: the diff of a pull request as a list of files
  with the lines that may be commented on, its division into parts of bounded size, and the check of
  a line. Numbers are unbounded.
\<close>

section \<open>Parsing\<close>

datatype diff_status = Added | Modified | Deleted | Renamed

record DiffFile =
  df_filePath :: jstring
  df_originalPath :: "jstring option"
  df_diff :: jstring
  df_reviewableRanges :: "(nat \<times> nat) list"
  df_addedLines :: "nat set"
  df_status :: diff_status

abbreviation diff_git :: jstring where
  "diff_git \<equiv> js ''diff --git ''"

text \<open>The loop of \<open>splitDiffByFile\<close>: the chunks, the current chunk and \<open>inChunk\<close>.\<close>

fun split_loop :: "jstring list \<Rightarrow> jstring list \<Rightarrow> bool \<Rightarrow> jstring list" where
  "split_loop [] currentChunk inChunk = (if currentChunk \<noteq> [] then [join [newline] currentChunk] else [])"
| "split_loop (line # ls) currentChunk inChunk =
     (if prefix diff_git line then
        (if inChunk \<and> currentChunk \<noteq> [] then [join [newline] currentChunk] else []) @ split_loop ls [line] True
      else if inChunk then split_loop ls (currentChunk @ [line]) inChunk
      else split_loop ls currentChunk inChunk)"

definition splitDiffByFile :: "jstring \<Rightarrow> jstring list" where
  "splitDiffByFile diff = split_loop (split_on newline diff) [] False"

text \<open>\<open>/^diff --git a\/(.+?) b\/(.+?)$/\<close>: the first \<open>b/\<close> after a blank and at least one character ends
  the old path; a dot matches no line terminator.\<close>

definition line_terminator :: "jchar \<Rightarrow> bool" where
  "line_terminator c \<longleftrightarrow> c \<in> {0x0A, 0x0D, 0x2028, 0x2029}"

definition git_header :: "jstring \<Rightarrow> (jstring \<times> jstring) option" where
  "git_header line =
     (if prefix (js ''diff --git a/'') line then
        (let rest = drop 13 line
         in if rest = [] \<or> list_ex line_terminator rest then None
            else case index_of (js '' b/'') (tl rest) of
                   None \<Rightarrow> None
                 | Some i \<Rightarrow>
                     (let old = take (Suc i) rest; new = drop (i + 4) rest
                      in if new = [] then None else Some (old, new)))
      else None)"

text \<open>\<open>(?:,(\d+))?\<close>\<close>

definition comma_digits :: "jstring \<Rightarrow> jstring option \<times> jstring" where
  "comma_digits s =
     (case s of
        c # t \<Rightarrow> if c = 0x2C then (case some_digits t of Some (ds, u) \<Rightarrow> (Some ds, u) | None \<Rightarrow> (None, s)) else (None, s)
      | [] \<Rightarrow> (None, s))"

text \<open>\<open>/^@@ -\d+(?:,\d+)? \+(\d+)(?:,(\d+))? @@/\<close>\<close>

definition hunk_header :: "jstring \<Rightarrow> (jstring \<times> jstring option) option" where
  "hunk_header line =
     (if prefix (js ''@@ -'') line then
        (case some_digits (drop 4 line) of
           None \<Rightarrow> None
         | Some (_, s1) \<Rightarrow>
             (let s2 = snd (comma_digits s1)
              in if prefix (js '' +'') s2 then
                   (case some_digits (drop 2 s2) of
                      None \<Rightarrow> None
                    | Some (start, s3) \<Rightarrow>
                        (let (count, s4) = comma_digits s3 in if prefix (js '' @@'') s4 then Some (start, count) else None))
                 else None))
      else None)"

definition hunk_range :: "jstring \<Rightarrow> (nat \<times> nat) option" where
  "hunk_range line =
     (case hunk_header line of
        None \<Rightarrow> None
      | Some (start, count) \<Rightarrow>
          (let newStart = digits_value start; newCount = (case count of Some c \<Rightarrow> digits_value c | None \<Rightarrow> 1)
           in if 0 < newCount then Some (newStart, newStart + newCount - 1) else None))"

text \<open>The second loop: the number of the next line of the new file, once inside a hunk.\<close>

fun added_loop :: "jstring list \<Rightarrow> nat \<Rightarrow> bool \<Rightarrow> nat set" where
  "added_loop [] newLineNum inHunk = {}"
| "added_loop (line # ls) newLineNum inHunk =
     (if prefix (js ''@@'') line then
        (case hunk_header line of
           Some (start, _) \<Rightarrow> added_loop ls (digits_value start) True
         | None \<Rightarrow> added_loop ls newLineNum inHunk)
      else if \<not> inHunk then added_loop ls newLineNum inHunk
      else if prefix [0x2B] line then insert newLineNum (added_loop ls (Suc newLineNum) inHunk)
      else if prefix [0x20] line then added_loop ls (Suc newLineNum) inHunk
      else added_loop ls newLineNum inHunk)"

fun determineStatus :: "jstring list \<Rightarrow> diff_status" where
  "determineStatus [] = Modified"
| "determineStatus (line # ls) =
     (if prefix (js ''new file mode'') line then Added
      else if prefix (js ''deleted file mode'') line then Deleted
      else if prefix (js ''rename from '') line \<or> prefix (js ''rename to '') line then Renamed
      else determineStatus ls)"

definition parseFileChunk :: "jstring \<Rightarrow> DiffFile option" where
  "parseFileChunk chunk =
     (let ls = split_on newline chunk
      in case git_header (hd ls) of
           None \<Rightarrow> None
         | Some (old, new) \<Rightarrow>
             Some \<lparr>df_filePath = new, df_originalPath = (if old \<noteq> new then Some old else None), df_diff = chunk,
                   df_reviewableRanges = List.map_filter hunk_range ls, df_addedLines = added_loop ls 0 False,
                   df_status = determineStatus ls\<rparr>)"

definition parseDiff :: "jstring \<Rightarrow> DiffFile list" where
  "parseDiff diffInput =
     (if trim diffInput = [] then [] else List.map_filter parseFileChunk (splitDiffByFile diffInput))"

section \<open>Chunks of files\<close>

definition CHUNK_TARGET_SIZE :: nat where
  "CHUNK_TARGET_SIZE = 50000"

fun chunk_loop :: "nat \<Rightarrow> DiffFile list \<Rightarrow> DiffFile list \<Rightarrow> nat \<Rightarrow> DiffFile list list" where
  "chunk_loop targetSize [] currentChunk currentSize = (if currentChunk \<noteq> [] then [currentChunk] else [])"
| "chunk_loop targetSize (f # fs) currentChunk currentSize =
     (let fileSize = length (df_diff f)
      in if targetSize < fileSize then
           (if currentChunk \<noteq> [] then [currentChunk, [f]] @ chunk_loop targetSize fs [] 0
            else [f] # chunk_loop targetSize fs currentChunk currentSize)
         else if targetSize < currentSize + fileSize \<and> currentChunk \<noteq> [] then
           currentChunk # chunk_loop targetSize fs [f] fileSize
         else chunk_loop targetSize fs (currentChunk @ [f]) (currentSize + fileSize))"

definition chunkFilesBySize :: "DiffFile list \<Rightarrow> nat \<Rightarrow> DiffFile list list" where
  "chunkFilesBySize files targetSize = chunk_loop targetSize files [] 0"

section \<open>Checking a line\<close>

record LineValidationResult =
  lv_valid :: bool
  lv_reason :: "jstring option"
  lv_hint :: "jstring option"

definition quoted :: "jstring \<Rightarrow> jstring" where
  "quoted s = [0x22] @ s @ [0x22]"

definition formatValidFilesHint :: "DiffFile list \<Rightarrow> jstring" where
  "formatValidFilesHint files =
     (let names = join (js '', '') (map df_filePath files)
      in js ''Files in this PR: '' @ (if names = [] then js ''(empty)'' else names))"

definition range_text :: "nat \<times> nat \<Rightarrow> jstring" where
  "range_text r = show_nat (fst r) @ js ''-'' @ show_nat (snd r)"

definition validateLine :: "jstring \<Rightarrow> nat \<Rightarrow> DiffFile list \<Rightarrow> LineValidationResult" where
  "validateLine filePath line files =
     (case find (\<lambda>f. df_filePath f = filePath) files of
        None \<Rightarrow>
          \<lparr>lv_valid = False, lv_reason = Some (js ''File '' @ quoted filePath @ js '' is not in the PR diff''),
           lv_hint = Some (formatValidFilesHint files)\<rparr>
      | Some f \<Rightarrow>
          if line \<notin> df_addedLines f then
            (let validRanges = map range_text (filter (\<lambda>r. fst r \<le> snd r) (df_reviewableRanges f));
                 ranges = join (js '', '') validRanges
             in \<lparr>lv_valid = False,
                 lv_reason = Some (js ''Line '' @ show_nat line @ js '' in '' @ quoted filePath @ js '' is not in the diff (not an added line)''),
                 lv_hint = Some (js ''Valid line ranges for '' @ quoted filePath @ js '': '' @
                   (if ranges = [] then js ''none'' else ranges))\<rparr>)
          else \<lparr>lv_valid = True, lv_reason = None, lv_hint = None\<rparr>)"

section \<open>Diffs as git prints them\<close>

datatype diff_row = ContextRow jstring | AddedRow jstring | DeletedRow jstring | NoNewlineRow

text \<open>A hunk: its new count is the number of context and added rows.\<close>

record diff_hunk =
  hk_oldStart :: nat
  hk_oldCount :: nat
  hk_newStart :: nat
  hk_heading :: jstring
  hk_rows :: "diff_row list"

text \<open>The difference of a file; \<open>fd_meta\<close> are its other header lines (index, modes, the two names).\<close>

record file_diff =
  fd_old :: jstring
  fd_new :: jstring
  fd_status :: diff_status
  fd_meta :: "jstring list"
  fd_hunks :: "diff_hunk list"

fun row_text :: "diff_row \<Rightarrow> jstring" where
  "row_text (ContextRow t) = 0x20 # t"
| "row_text (AddedRow t) = 0x2B # t"
| "row_text (DeletedRow t) = 0x2D # t"
| "row_text NoNewlineRow = 0x5C # js '' No newline at end of file''"

fun is_new_row :: "diff_row \<Rightarrow> bool" where
  "is_new_row (ContextRow t) = True"
| "is_new_row (AddedRow t) = True"
| "is_new_row _ = False"

definition hk_newCount :: "diff_hunk \<Rightarrow> nat" where
  "hk_newCount h = length (filter is_new_row (hk_rows h))"

definition count_text :: "nat \<Rightarrow> jstring" where
  "count_text c = (if c = 1 then [] else 0x2C # show_nat c)"

definition hunk_text :: "diff_hunk \<Rightarrow> jstring" where
  "hunk_text h =
     js ''@@ -'' @ show_nat (hk_oldStart h) @ count_text (hk_oldCount h) @ js '' +'' @
     show_nat (hk_newStart h) @ count_text (hk_newCount h) @ js '' @@'' @ hk_heading h"

definition status_lines :: "file_diff \<Rightarrow> jstring list" where
  "status_lines f =
     (case fd_status f of
        Added \<Rightarrow> [js ''new file mode 100644'']
      | Deleted \<Rightarrow> [js ''deleted file mode 100644'']
      | Renamed \<Rightarrow> [js ''rename from '' @ fd_old f, js ''rename to '' @ fd_new f]
      | Modified \<Rightarrow> [])"

definition header_line :: "file_diff \<Rightarrow> jstring" where
  "header_line f = js ''diff --git a/'' @ fd_old f @ js '' b/'' @ fd_new f"

definition hunk_lines :: "diff_hunk \<Rightarrow> jstring list" where
  "hunk_lines h = hunk_text h # map row_text (hk_rows h)"

definition file_lines :: "file_diff \<Rightarrow> jstring list" where
  "file_lines f = header_line f # status_lines f @ fd_meta f @ concat (map hunk_lines (fd_hunks f))"

definition diff_text :: "file_diff list \<Rightarrow> jstring" where
  "diff_text fs = concat (map (\<lambda>l. l @ [newline]) (concat (map file_lines fs)))"

text \<open>What the difference says: the numbers in the new file of the added rows.\<close>

fun added_rows :: "diff_row list \<Rightarrow> nat \<Rightarrow> nat set" where
  "added_rows [] n = {}"
| "added_rows (AddedRow t # rows) n = insert n (added_rows rows (Suc n))"
| "added_rows (ContextRow t # rows) n = added_rows rows (Suc n)"
| "added_rows (DeletedRow t # rows) n = added_rows rows n"
| "added_rows (NoNewlineRow # rows) n = added_rows rows n"

definition hunk_span :: "diff_hunk \<Rightarrow> (nat \<times> nat) option" where
  "hunk_span h = (if 0 < hk_newCount h then Some (hk_newStart h, hk_newStart h + hk_newCount h - 1) else None)"

definition diff_file :: "file_diff \<Rightarrow> DiffFile" where
  "diff_file f =
     \<lparr>df_filePath = fd_new f, df_originalPath = (if fd_old f \<noteq> fd_new f then Some (fd_old f) else None), df_diff = [],
      df_reviewableRanges = List.map_filter hunk_span (fd_hunks f),
      df_addedLines = (\<Union>h \<in> set (fd_hunks f). added_rows (hk_rows h) (hk_newStart h)), df_status = fd_status f\<rparr>"

text \<open>The texts that can be read back: no line break within a line, paths without quotes in which the
  new name is not mistaken for the end of the old one, and other header lines that look like no mark.\<close>

definition plain_line :: "jstring \<Rightarrow> bool" where
  "plain_line l \<longleftrightarrow> newline \<notin> set l"

definition status_mark :: "jstring \<Rightarrow> bool" where
  "status_mark l \<longleftrightarrow> prefix (js ''new file mode'') l \<or> prefix (js ''deleted file mode'') l \<or>
     prefix (js ''rename from '') l \<or> prefix (js ''rename to '') l"

definition plain_meta :: "jstring \<Rightarrow> bool" where
  "plain_meta l \<longleftrightarrow> plain_line l \<and> \<not> prefix diff_git l \<and> \<not> prefix (js ''@@'') l \<and> \<not> status_mark l"

definition plain_paths :: "jstring \<Rightarrow> jstring \<Rightarrow> bool" where
  "plain_paths old new \<longleftrightarrow>
     old \<noteq> [] \<and> new \<noteq> [] \<and> list_all (\<lambda>c. \<not> line_terminator c) (old @ new) \<and>
     index_of (js '' b/'') (tl (old @ js '' b/'' @ new)) = Some (length old - 1)"

fun row_body :: "diff_row \<Rightarrow> jstring" where
  "row_body (ContextRow t) = t"
| "row_body (AddedRow t) = t"
| "row_body (DeletedRow t) = t"
| "row_body NoNewlineRow = []"

definition plain_diff :: "file_diff \<Rightarrow> bool" where
  "plain_diff f \<longleftrightarrow> plain_paths (fd_old f) (fd_new f) \<and> list_all plain_meta (fd_meta f) \<and>
     list_all (\<lambda>h. plain_line (hk_heading h) \<and> list_all (plain_line \<circ> row_body) (hk_rows h)) (fd_hunks f)"

section \<open>Reading what was printed\<close>

lemma newline_not_digit: "newline \<notin> set (show_nat n)"
  using show_nat_digits [of n] by (auto simp: is_digit_def)

lemma comma_count:
  assumes "s \<noteq> []" "\<not> is_digit (hd s)" "hd s \<noteq> 0x2C"
  shows "comma_digits (count_text c @ s) = (if c = 1 then None else Some (show_nat c), s)"
  using assms some_digits_show [of s c] by (cases s) (auto simp: comma_digits_def count_text_def)

lemma digits_before_count: "\<not> is_digit (hd (count_text c @ 0x20 # s))"
  by (simp add: count_text_def is_digit_def)

lemma hunk_header_text:
  "hunk_header (hunk_text h) =
     Some (show_nat (hk_newStart h), if hk_newCount h = 1 then None else Some (show_nat (hk_newCount h)))"
proof -
  let ?s3 = "count_text (hk_newCount h) @ js '' @@'' @ hk_heading h"
  let ?s2 = "js '' +'' @ show_nat (hk_newStart h) @ ?s3"
  let ?s1 = "count_text (hk_oldCount h) @ ?s2"
  have t: "hunk_text h = js ''@@ -'' @ show_nat (hk_oldStart h) @ ?s1" by (simp add: hunk_text_def)
  have 1: "some_digits (show_nat (hk_oldStart h) @ ?s1) = Some (show_nat (hk_oldStart h), ?s1)"
    using digits_before_count by (intro some_digits_show) (simp add: js_def)
  have 2: "snd (comma_digits ?s1) = ?s2" by (subst comma_count) (simp_all add: js_def is_digit_def)
  have 3: "some_digits (show_nat (hk_newStart h) @ ?s3) = Some (show_nat (hk_newStart h), ?s3)"
    using digits_before_count by (intro some_digits_show) (simp add: js_def)
  have 4: "comma_digits ?s3 = (if hk_newCount h = 1 then None else Some (show_nat (hk_newCount h)), js '' @@'' @ hk_heading h)"
    by (subst comma_count) (simp_all add: js_def is_digit_def)
  have d: "prefix (js ''@@ -'') (hunk_text h)" "drop 4 (hunk_text h) = show_nat (hk_oldStart h) @ ?s1"
    "prefix (js '' +'') ?s2" "drop 2 ?s2 = show_nat (hk_newStart h) @ ?s3"
    by (simp_all add: t js_def)
  show ?thesis unfolding hunk_header_def using d 1 2 3 4 by (simp add: Let_def)
qed

lemma hunk_range_text: "hunk_range (hunk_text h) = hunk_span h"
  by (simp add: hunk_range_def hunk_header_text hunk_span_def Let_def)

text \<open>No row, hunk or header line is mistaken for another kind of line.\<close>

lemma row_marks [simp]: "\<not> prefix (js ''@@'') (row_text r)" "\<not> prefix diff_git (row_text r)" "\<not> status_mark (row_text r)"
  by (cases r; simp add: js_def status_mark_def)+

lemma hunk_marks [simp]: "prefix (js ''@@'') (hunk_text h)" "\<not> prefix diff_git (hunk_text h)" "\<not> status_mark (hunk_text h)"
  by (simp_all add: hunk_text_def js_def status_mark_def)

lemma header_marks [simp]: "\<not> prefix (js ''@@'') (header_line f)" "prefix diff_git (header_line f)" "\<not> status_mark (header_line f)"
  by (simp_all add: header_line_def js_def status_mark_def)

lemma status_line_marks: "l \<in> set (status_lines f) \<Longrightarrow> \<not> prefix (js ''@@'') l \<and> \<not> prefix diff_git l"
  by (auto simp: status_lines_def js_def split: diff_status.splits)

lemma hunk_header_needs_mark: "\<not> prefix (js ''@@'') l \<Longrightarrow> hunk_header l = None \<and> hunk_range l = None"
  by (auto simp: hunk_header_def hunk_range_def js_def prefix_def)

lemma added_loop_rows:
  "added_loop (map row_text rows @ ls) n True = added_rows rows n \<union> added_loop ls (n + length (filter is_new_row rows)) True"
proof (induction rows arbitrary: n)
  case (Cons r rows)
  then show ?case using row_marks [of r] by (cases r) simp_all
qed simp

lemma added_loop_hunks:
  "added_loop (concat (map hunk_lines hs)) n inHunk = (\<Union>h \<in> set hs. added_rows (hk_rows h) (hk_newStart h))"
proof (induction hs arbitrary: n inHunk)
  case (Cons h hs)
  have "concat (map hunk_lines (h # hs)) = hunk_text h # map row_text (hk_rows h) @ concat (map hunk_lines hs)"
    by (simp add: hunk_lines_def)
  moreover note Cons.IH
  ultimately show ?case by (simp add: hunk_header_text added_loop_rows)
qed simp

lemma added_loop_outside: "\<forall>l \<in> set ls. \<not> prefix (js ''@@'') l \<Longrightarrow> added_loop (ls @ ks) n False = added_loop ks n False"
  by (induction ls) simp_all

lemma added_loop_end: "added_loop (ls @ [[]]) n b = added_loop ls n b"
  by (induction ls arbitrary: n b) (auto simp: js_def split: option.split)

lemma ranges_outside: "\<forall>l \<in> set ls. \<not> prefix (js ''@@'') l \<Longrightarrow> List.map_filter hunk_range ls = []"
  using hunk_header_needs_mark by (induction ls) (auto simp: List.map_filter_simps)

lemma map_filter_append: "List.map_filter f (xs @ ys) = List.map_filter f xs @ List.map_filter f ys"
  by (simp add: List.map_filter_def)

lemma ranges_hunks: "List.map_filter hunk_range (concat (map hunk_lines hs)) = List.map_filter hunk_span hs"
proof (induction hs)
  case (Cons h hs)
  have "List.map_filter hunk_range (map row_text (hk_rows h)) = []" by (intro ranges_outside) auto
  then show ?case
    using Cons by (simp add: hunk_lines_def map_filter_append List.map_filter_simps hunk_range_text split: option.split)
qed (simp add: List.map_filter_simps)

lemma blank_mark [simp]: "\<not> status_mark []"
  by (simp add: status_mark_def js_def)

lemma status_unmarked: "\<forall>l \<in> set ls. \<not> status_mark l \<Longrightarrow> determineStatus ls = Modified"
  by (induction ls) (auto simp: status_mark_def)

lemma status_skip: "\<not> status_mark l \<Longrightarrow> determineStatus (l # ls) = determineStatus ls"
  by (auto simp: status_mark_def)

lemma git_header_line:
  assumes "plain_paths (fd_old f) (fd_new f)"
  shows "git_header (header_line f) = Some (fd_old f, fd_new f)"
proof -
  let ?rest = "fd_old f @ js '' b/'' @ fd_new f"
  obtain n where n: "length (fd_old f) = Suc n" using assms by (cases "fd_old f") (auto simp: plain_paths_def)
  have "\<not> list_ex line_terminator ?rest"
    using assms by (auto simp: plain_paths_def list_ex_iff list_all_iff js_def line_terminator_def)
  moreover have "drop 13 (header_line f) = ?rest" "prefix (js ''diff --git a/'') (header_line f)"
    by (simp_all add: header_line_def js_def)
  moreover have "index_of (js '' b/'') (tl ?rest) = Some n"
  proof -
    have "index_of (js '' b/'') (tl ?rest) = Some (length (fd_old f) - 1)" using assms unfolding plain_paths_def by blast
    then show ?thesis by (simp only: n diff_Suc_1)
  qed
  moreover have "take (Suc n) ?rest = fd_old f" "drop (n + 4) ?rest = fd_new f" using n by (simp_all add: js_def)
  ultimately show ?thesis using assms by (simp add: git_header_def Let_def plain_paths_def)
qed

lemma file_lines_plain:
  assumes "plain_diff f" "l \<in> set (file_lines f)"
  shows "newline \<notin> set l"
proof -
  have p: "newline \<notin> set (fd_old f)" "newline \<notin> set (fd_new f)"
    using assms(1) by (auto simp: plain_diff_def plain_paths_def list_all_iff line_terminator_def)
  have c: "newline \<notin> set (count_text n)" for n using newline_not_digit by (simp add: count_text_def)
  consider "l = header_line f" | "l \<in> set (status_lines f)" | "l \<in> set (fd_meta f)" | h where "h \<in> set (fd_hunks f)" "l = hunk_text h"
    | h r where "h \<in> set (fd_hunks f)" "r \<in> set (hk_rows h)" "l = row_text r"
    using assms(2) by (auto simp: file_lines_def hunk_lines_def)
  then show ?thesis
  proof cases
    case 2
    then show ?thesis using p by (auto simp: status_lines_def js_def split: diff_status.splits)
  next
    case 3
    then show ?thesis using assms(1) by (simp add: plain_diff_def list_all_iff plain_meta_def plain_line_def)
  next
    case (4 h)
    then have "newline \<notin> set (hk_heading h)" using assms(1) by (simp add: plain_diff_def list_all_iff plain_line_def)
    then show ?thesis using 4 c newline_not_digit by (simp add: hunk_text_def js_def)
  next
    case (5 h r)
    then have "newline \<notin> set (row_body r)" using assms(1) by (simp add: plain_diff_def list_all_iff plain_line_def)
    then show ?thesis using 5 by (cases r) (auto simp: js_def)
  qed (use p in \<open>simp add: header_line_def js_def\<close>)
qed

text \<open>The lines of a file, and perhaps the empty line at the end of the diff.\<close>

lemma parse_file:
  assumes "plain_diff f" "e = [] \<or> e = [[]]"
  shows "parseFileChunk (join [newline] (file_lines f @ e)) = Some (diff_file f\<lparr>df_diff := join [newline] (file_lines f @ e)\<rparr>)"
proof -
  have ls: "split_on newline (join [newline] (file_lines f @ e)) = file_lines f @ e"
    using file_lines_plain [OF assms(1)] assms(2) by (intro split_on_join) (auto simp: file_lines_def)
  let ?head = "header_line f # status_lines f @ fd_meta f"
  have m: "\<forall>l \<in> set ?head. \<not> prefix (js ''@@'') l" "\<forall>l \<in> set (fd_meta f). \<not> status_mark l"
    using assms(1) status_line_marks by (auto simp: plain_diff_def list_all_iff plain_meta_def)
  have lines: "file_lines f = ?head @ concat (map hunk_lines (fd_hunks f))" by (simp add: file_lines_def)
  have "added_loop (file_lines f @ e) 0 False = df_addedLines (diff_file f)"
    using assms(2) added_loop_outside [OF m(1)] unfolding lines
    by (auto simp: added_loop_end added_loop_hunks diff_file_def simp del: append_Cons append.append_Cons)
  moreover have "List.map_filter hunk_range (file_lines f @ e) = df_reviewableRanges (diff_file f)"
    using assms(2) ranges_outside [OF m(1)] unfolding lines
    by (auto simp: map_filter_append ranges_hunks diff_file_def List.map_filter_simps hunk_header_needs_mark js_def
        simp del: append_Cons)
  moreover have "determineStatus (file_lines f @ e) = fd_status f"
  proof -
    have "determineStatus (fd_meta f @ concat (map hunk_lines (fd_hunks f)) @ e) = Modified"
      using m(2) assms(2) by (intro status_unmarked) (auto simp: hunk_lines_def)
    then show ?thesis
      unfolding file_lines_def append_Cons append_assoc status_skip [OF header_marks(3)]
      by (cases "fd_status f") (simp_all add: status_lines_def js_def)
  qed
  moreover have "hd (file_lines f @ e) = header_line f" by (simp add: file_lines_def)
  moreover have "git_header (header_line f) = Some (fd_old f, fd_new f)"
    using assms(1) by (intro git_header_line) (simp add: plain_diff_def)
  ultimately show ?thesis by (simp add: parseFileChunk_def ls Let_def diff_file_def)
qed

text \<open>The lines of the chunks of a diff; the last has the empty line at the end.\<close>

fun chunk_lines :: "file_diff list \<Rightarrow> jstring list list" where
  "chunk_lines [] = []"
| "chunk_lines [f] = [file_lines f @ [[]]]"
| "chunk_lines (f # g # fs) = file_lines f # chunk_lines (g # fs)"

lemma blank_git [simp]: "\<not> prefix diff_git []"
  by (simp add: js_def)

lemma split_loop_inside:
  "\<forall>l \<in> set ls. \<not> prefix diff_git l \<Longrightarrow> split_loop (ls @ ks) cur True = split_loop ks (cur @ ls) True"
  by (induction ls arbitrary: cur) simp_all

lemma file_lines_cut:
  assumes "plain_diff f"
  obtains ls where "file_lines f = header_line f # ls" "\<forall>l \<in> set ls. \<not> prefix diff_git l"
proof (rule that)
  show "file_lines f = header_line f # status_lines f @ fd_meta f @ concat (map hunk_lines (fd_hunks f))"
    by (simp add: file_lines_def)
  show "\<forall>l \<in> set (status_lines f @ fd_meta f @ concat (map hunk_lines (fd_hunks f))). \<not> prefix diff_git l"
    using assms status_line_marks by (auto simp: plain_diff_def list_all_iff plain_meta_def hunk_lines_def)
qed

lemma split_loop_files:
  assumes "list_all plain_diff fs" "cur \<noteq> []"
  shows "split_loop (concat (map file_lines fs) @ [[]]) cur True =
    (if fs = [] then [join [newline] (cur @ [[]])] else join [newline] cur # map (join [newline]) (chunk_lines fs))"
  using assms
proof (induction fs arbitrary: cur rule: chunk_lines.induct)
  case 1
  then show ?case by simp
next
  case (2 f)
  then have "plain_diff f" by simp
  then obtain ls where ls: "file_lines f = header_line f # ls" "\<forall>l \<in> set ls. \<not> prefix diff_git l"
    by (rule file_lines_cut)
  then show ?case using 2 split_loop_inside [OF ls(2), of "[[]]" "[header_line f]"] by simp
next
  case (3 f g fs)
  then have "plain_diff f" by simp
  then obtain ls where ls: "file_lines f = header_line f # ls" "\<forall>l \<in> set ls. \<not> prefix diff_git l"
    by (rule file_lines_cut)
  have "split_loop (concat (map file_lines (f # g # fs)) @ [[]]) cur True =
      join [newline] cur # split_loop (ls @ concat (map file_lines (g # fs)) @ [[]]) [header_line f] True"
    using 3(3) by (simp add: ls(1))
  also have "\<dots> = join [newline] cur # split_loop (concat (map file_lines (g # fs)) @ [[]]) (file_lines f) True"
    using split_loop_inside [OF ls(2), of "concat (map file_lines (g # fs)) @ [[]]" "[header_line f]"] ls(1) by simp
  also have "\<dots> = join [newline] cur # join [newline] (file_lines f) # map (join [newline]) (chunk_lines (g # fs))"
    using 3(1) [of "file_lines f"] 3(2) ls(1) by simp
  finally show ?case by simp
qed

lemma split_diff_text:
  assumes "list_all plain_diff fs"
  shows "splitDiffByFile (diff_text fs) = map (join [newline]) (chunk_lines fs)"
proof -
  have lines: "split_on newline (diff_text fs) = concat (map file_lines fs) @ [[]]"
    unfolding diff_text_def using assms file_lines_plain by (intro split_on_lines) (auto simp: list_all_iff)
  show ?thesis
  proof (cases fs)
    case Nil
    then show ?thesis using lines by (simp add: splitDiffByFile_def)
  next
    case (Cons f gs)
    then have "plain_diff f" using assms by simp
    then obtain ls where ls: "file_lines f = header_line f # ls" "\<forall>l \<in> set ls. \<not> prefix diff_git l"
      by (rule file_lines_cut)
    have gs: "list_all plain_diff gs" using assms Cons by simp
    have "splitDiffByFile (diff_text fs) = split_loop (ls @ concat (map file_lines gs) @ [[]]) [header_line f] True"
      using lines by (simp add: splitDiffByFile_def Cons ls(1))
    also have "\<dots> = split_loop (concat (map file_lines gs) @ [[]]) (file_lines f) True"
      using split_loop_inside [OF ls(2), of "concat (map file_lines gs) @ [[]]" "[header_line f]"] ls(1) by simp
    also have "\<dots> = map (join [newline]) (chunk_lines fs)"
      using split_loop_files [OF gs, of "file_lines f"] ls(1) Cons by (cases gs) simp_all
    finally show ?thesis .
  qed
qed

lemma parse_chunks:
  "list_all plain_diff fs \<Longrightarrow>
   map (\<lambda>f. f\<lparr>df_diff := []\<rparr>) (List.map_filter parseFileChunk (map (join [newline]) (chunk_lines fs))) = map diff_file fs \<and>
   map df_diff (List.map_filter parseFileChunk (map (join [newline]) (chunk_lines fs))) = map (join [newline]) (chunk_lines fs)"
proof (induction fs rule: chunk_lines.induct)
  case (2 f)
  then show ?case using parse_file [of f "[[]]"] by (simp add: List.map_filter_simps diff_file_def)
next
  case (3 f g fs)
  then show ?case using parse_file [of f "[]"] by (simp add: List.map_filter_simps diff_file_def)
qed (simp add: List.map_filter_simps)

lemma chunk_lines_concat: "fs \<noteq> [] \<Longrightarrow> concat (chunk_lines fs) = concat (map file_lines fs) @ [[]]"
  by (induction fs rule: chunk_lines.induct) simp_all

lemma chunk_lines_not_Nil: "[] \<notin> set (chunk_lines fs)"
  by (induction fs rule: chunk_lines.induct) (simp_all add: file_lines_def)

lemma join_concat: "[] \<notin> set lss \<Longrightarrow> join [newline] (map (join [newline]) lss) = join [newline] (concat lss)"
proof (induction lss)
  case (Cons ls lss)
  show ?case
  proof (cases "lss = []")
    case False
    then have c: "concat lss \<noteq> []" using Cons.prems by (cases lss) auto
    have "ls \<noteq> []" using Cons.prems by auto
    from join_append [OF this c] show ?thesis using Cons False by (simp add: join_Cons)
  qed simp
qed simp

lemma join_lines: "join [newline] (ls @ [[]]) = concat (map (\<lambda>l. l @ [newline]) ls)"
  by (induction ls) (simp_all add: join_Cons)

lemma parseDiff_text:
  assumes "list_all plain_diff fs"
  shows "parseDiff (diff_text fs) = List.map_filter parseFileChunk (map (join [newline]) (chunk_lines fs))"
proof (cases fs)
  case Nil
  then show ?thesis by (simp add: parseDiff_def diff_text_def trim_def trim_start_def trim_end_def List.map_filter_simps)
next
  case (Cons f gs)
  then obtain s where "diff_text fs = 0x64 # s" by (simp add: diff_text_def file_lines_def header_line_def js_def)
  then have "trim (diff_text fs) \<noteq> []" by (simp add: trim_Cons is_js_space_def)
  then show ?thesis using split_diff_text [OF assms] by (simp add: parseDiff_def)
qed

lemma read_printed:
  assumes "list_all plain_diff fs"
  shows "map (\<lambda>f. f\<lparr>df_diff := []\<rparr>) (parseDiff (diff_text fs)) = map diff_file fs"
    "join [newline] (map df_diff (parseDiff (diff_text fs))) = diff_text fs"
proof -
  have "join [newline] (map (join [newline]) (chunk_lines fs)) = diff_text fs"
  proof (cases "fs = []")
    case False
    show ?thesis
      unfolding join_concat [OF chunk_lines_not_Nil] chunk_lines_concat [OF False] join_lines diff_text_def ..
  qed (simp add: diff_text_def)
  then show "map (\<lambda>f. f\<lparr>df_diff := []\<rparr>) (parseDiff (diff_text fs)) = map diff_file fs"
    "join [newline] (map df_diff (parseDiff (diff_text fs))) = diff_text fs"
    using parse_chunks [OF assms] parseDiff_text [OF assms] by simp_all
qed

text \<open>Claim C34: a diff of files with plain names is read as it was printed. For every list of file
  differences, with any hunks and rows, the parser returns one file for each, with its two names, its
  status, the range of each hunk that has new lines, and as added lines exactly the numbers that the
  added rows have in the new file; and the texts of the files make up the diff again. Plain
  (\<open>plain_diff\<close>) means: the names are not empty, are printed without quotes, contain no line
  terminator and leave no doubt where the old one ends at \<open>b/\<close> after a blank; no line has a line feed
  in it; and no other header line begins like a file header, a hunk header or a status line. Names
  outside of this are dropped or cut (\<open>quoted_path_is_dropped\<close> and \<open>path_is_cut\<close> below).\<close>

theorem printed_diff_is_read:
  assumes "list_all plain_diff fs"
  shows "map (\<lambda>f. f\<lparr>df_diff := []\<rparr>) (parseDiff (diff_text fs)) = map diff_file fs \<and>
    join [newline] (map df_diff (parseDiff (diff_text fs))) = diff_text fs"
  using read_printed [OF assms] by (rule conjI)

section \<open>The lines that may be commented on\<close>

lemma added_rows_iff:
  "n \<in> added_rows rows s \<longleftrightarrow>
     (\<exists>i < length rows. (\<exists>t. rows ! i = AddedRow t) \<and> n = s + length (filter is_new_row (take i rows)))"
proof (induction rows arbitrary: s)
  case (Cons r rows)
  have "n \<in> added_rows (r # rows) s \<longleftrightarrow>
    (\<exists>t. r = AddedRow t) \<and> n = s \<or> n \<in> added_rows rows (if is_new_row r then Suc s else s)"
    by (cases r) auto
  then show ?case by (auto simp: Cons.IH Ex_less_Suc2)
qed simp

lemma added_rows_in_span:
  assumes "n \<in> added_rows (hk_rows h) (hk_newStart h)"
  shows "\<exists>a b. hunk_span h = Some (a, b) \<and> a \<le> n \<and> n \<le> b"
proof -
  obtain i t where i: "i < length (hk_rows h)" "hk_rows h ! i = AddedRow t"
    "n = hk_newStart h + length (filter is_new_row (take i (hk_rows h)))"
    using assms by (auto simp: added_rows_iff)
  have "length (filter is_new_row (take i (hk_rows h))) < hk_newCount h"
  proof -
    have "filter is_new_row (hk_rows h) =
        filter is_new_row (take i (hk_rows h)) @ filter is_new_row (hk_rows h ! i # drop (Suc i) (hk_rows h))"
      using i(1) by (metis filter_append id_take_nth_drop)
    then show ?thesis using i(2) by (simp add: hk_newCount_def)
  qed
  then show ?thesis using i(3) by (auto simp: hunk_span_def)
qed

lemma find_read:
  assumes "list_all plain_diff fs"
  shows "map_option (\<lambda>f. f\<lparr>df_diff := []\<rparr>) (find (\<lambda>f. df_filePath f = p) (parseDiff (diff_text fs))) =
    map_option diff_file (find (\<lambda>f. fd_new f = p) fs)"
proof -
  have 1: "map_option (\<lambda>f. f\<lparr>df_diff := []\<rparr>) (find (\<lambda>f. df_filePath f = p) ds) =
      find (\<lambda>f. df_filePath f = p) (map (\<lambda>f. f\<lparr>df_diff := []\<rparr>) ds)" for ds
    by (induction ds) simp_all
  have 2: "map_option diff_file (find (\<lambda>f. fd_new f = p) fs) = find (\<lambda>f. df_filePath f = p) (map diff_file fs)"
    by (induction fs) (simp_all add: diff_file_def)
  show ?thesis by (simp only: 1 2 read_printed(1) [OF assms])
qed

text \<open>Claim C35: the check of a line is right about a plain diff. A line of a file of the diff is accepted if
  and only if it is the number, in the new file, of an added row; and every line that is accepted
  lies in one of the ranges that are named when a line is refused.\<close>

theorem checked_lines_are_added:
  assumes "list_all plain_diff fs"
  shows "(lv_valid (validateLine p n (parseDiff (diff_text fs))) \<longleftrightarrow>
      (\<exists>f h i t. find (\<lambda>f. fd_new f = p) fs = Some f \<and> h \<in> set (fd_hunks f) \<and> i < length (hk_rows h) \<and>
        hk_rows h ! i = AddedRow t \<and> n = hk_newStart h + length (filter is_new_row (take i (hk_rows h))))) \<and>
    (lv_valid (validateLine p n (parseDiff (diff_text fs))) \<longrightarrow>
      (\<exists>f a b. find (\<lambda>f. df_filePath f = p) (parseDiff (diff_text fs)) = Some f \<and>
        (a, b) \<in> set (df_reviewableRanges f) \<and> a \<le> n \<and> n \<le> b))"
proof (cases "find (\<lambda>f. fd_new f = p) fs")
  case None
  then have "find (\<lambda>f. df_filePath f = p) (parseDiff (diff_text fs)) = None" using find_read [OF assms, of p] by simp
  then show ?thesis using None by (simp add: validateLine_def)
next
  case (Some f)
  then obtain d where d: "find (\<lambda>f. df_filePath f = p) (parseDiff (diff_text fs)) = Some d" "d\<lparr>df_diff := []\<rparr> = diff_file f"
    using find_read [OF assms, of p] by auto
  have "df_addedLines d = df_addedLines (d\<lparr>df_diff := []\<rparr>)" "df_reviewableRanges d = df_reviewableRanges (d\<lparr>df_diff := []\<rparr>)"
    by simp_all
  then have e: "df_addedLines d = (\<Union>h \<in> set (fd_hunks f). added_rows (hk_rows h) (hk_newStart h))"
    "df_reviewableRanges d = List.map_filter hunk_span (fd_hunks f)"
    unfolding d(2) by (simp_all add: diff_file_def)
  have v: "lv_valid (validateLine p n (parseDiff (diff_text fs))) \<longleftrightarrow> n \<in> df_addedLines d"
    by (simp add: validateLine_def d(1) Let_def)
  have r: "\<exists>a b. (a, b) \<in> set (df_reviewableRanges d) \<and> a \<le> n \<and> n \<le> b" if n: "n \<in> df_addedLines d"
  proof -
    obtain h where h: "h \<in> set (fd_hunks f)" "n \<in> added_rows (hk_rows h) (hk_newStart h)" using n e(1) by blast
    obtain a b where ab: "hunk_span h = Some (a, b)" "a \<le> n" "n \<le> b" using added_rows_in_span [OF h(2)] by blast
    then have "(a, b) \<in> set (df_reviewableRanges d)" unfolding e(2) using h(1) by (force simp: List.map_filter_def)
    then show ?thesis using ab by blast
  qed
  show ?thesis unfolding v using r d(1) Some by (auto simp: e(1) added_rows_iff)
qed

section \<open>Chunks\<close>

definition chunk_size :: "DiffFile list \<Rightarrow> nat" where
  "chunk_size c = (\<Sum>f \<leftarrow> c. length (df_diff f))"

abbreviation full_before :: "nat \<Rightarrow> DiffFile list \<Rightarrow> DiffFile list \<Rightarrow> bool" where
  "full_before t c d \<equiv> t < chunk_size c + length (df_diff (hd d))"

abbreviation chunk_fits :: "nat \<Rightarrow> DiffFile list \<Rightarrow> bool" where
  "chunk_fits t c \<equiv> c \<noteq> [] \<and> (length c = 1 \<or> chunk_size c \<le> t)"

lemma chunk_size_simps [simp]: "chunk_size [] = 0" "chunk_size (f # c) = length (df_diff f) + chunk_size c"
  "chunk_size (c @ d) = chunk_size c + chunk_size d"
  by (simp_all add: chunk_size_def)

lemma chunk_loop_fits:
  assumes "sz = chunk_size cur" "sz \<le> t"
  shows "concat (chunk_loop t fs cur sz) = cur @ fs \<and> list_all (chunk_fits t) (chunk_loop t fs cur sz) \<and>
    successively (full_before t) (chunk_loop t fs cur sz) \<and>
    (cur \<noteq> [] \<longrightarrow> chunk_loop t fs cur sz \<noteq> [] \<and> hd (hd (chunk_loop t fs cur sz)) = hd cur)"
  using assms
proof (induction t fs cur sz rule: chunk_loop.induct)
  case (1 t cur sz)
  then show ?case by simp
next
  case (2 t f fs cur sz)
  let ?n = "length (df_diff f)"
  consider (over_after) "t < ?n" "cur \<noteq> []" | (over_first) "t < ?n" "cur = []"
    | (push) "\<not> t < ?n" "t < sz + ?n" "cur \<noteq> []" | (add) "\<not> t < ?n" "\<not> (t < sz + ?n \<and> cur \<noteq> [])"
    by blast
  then show ?case
  proof cases
    case over_after
    with 2 show ?thesis by (simp add: successively_Cons)
  next
    case over_first
    with 2 show ?thesis by (simp add: successively_Cons)
  next
    case push
    have "chunk_loop t (f # fs) cur sz = cur # chunk_loop t fs [f] ?n" using push by simp
    moreover have "concat (chunk_loop t fs [f] ?n) = [f] @ fs \<and> list_all (chunk_fits t) (chunk_loop t fs [f] ?n) \<and>
        successively (full_before t) (chunk_loop t fs [f] ?n) \<and>
        ([f] \<noteq> [] \<longrightarrow> chunk_loop t fs [f] ?n \<noteq> [] \<and> hd (hd (chunk_loop t fs [f] ?n)) = hd [f])"
      by (rule "2.IH"(3)) (use push in auto)
    ultimately show ?thesis using push "2.prems" by (simp add: successively_Cons)
  next
    case add
    have "chunk_loop t (f # fs) cur sz = chunk_loop t fs (cur @ [f]) (sz + ?n)" using add by auto
    moreover have "concat (chunk_loop t fs (cur @ [f]) (sz + ?n)) = (cur @ [f]) @ fs \<and>
        list_all (chunk_fits t) (chunk_loop t fs (cur @ [f]) (sz + ?n)) \<and>
        successively (full_before t) (chunk_loop t fs (cur @ [f]) (sz + ?n)) \<and>
        (cur @ [f] \<noteq> [] \<longrightarrow> chunk_loop t fs (cur @ [f]) (sz + ?n) \<noteq> [] \<and>
           hd (hd (chunk_loop t fs (cur @ [f]) (sz + ?n))) = hd (cur @ [f]))"
      by (rule "2.IH"(4)) (use add "2.prems" in \<open>auto simp: not_less\<close>)
    ultimately show ?thesis by (cases cur) simp_all
  qed
qed

text \<open>Claim C36: files are grouped into chunks completely, within the bound, and as far as possible. The
  chunks in order are the files; none is empty; a chunk above the size that was asked for is a
  single file; and no chunk has room for the first file of the next.\<close>

theorem chunks_fit:
  "concat (chunkFilesBySize files targetSize) = files \<and>
   list_all (\<lambda>c. c \<noteq> [] \<and> (length c = 1 \<or> chunk_size c \<le> targetSize)) (chunkFilesBySize files targetSize) \<and>
   successively (\<lambda>c d. targetSize < chunk_size c + length (df_diff (hd d))) (chunkFilesBySize files targetSize)"
  using chunk_loop_fits [of 0 "[]" targetSize files] by (simp add: chunkFilesBySize_def)

section \<open>Examples\<close>

definition sample_diff :: file_diff where
  "sample_diff =
     \<lparr>fd_old = js ''f'', fd_new = js ''f'', fd_status = Modified, fd_meta = [js ''--- a/f'', js ''+++ b/f''],
      fd_hunks = [\<lparr>hk_oldStart = 1, hk_oldCount = 2, hk_newStart = 1, hk_heading = [],
        hk_rows = [ContextRow (js ''x''), DeletedRow (js ''y''), AddedRow (js ''z'')]\<rparr>]\<rparr>"

lemma plain_sample: "list_all plain_diff [sample_diff]"
  by (simp add: sample_diff_def plain_diff_def plain_paths_def plain_meta_def plain_line_def status_mark_def js_def
      line_terminator_def)

lemma printed_diff_is_read_witness:
  "map (\<lambda>f. f\<lparr>df_diff := []\<rparr>) (parseDiff (diff_text [sample_diff])) =
   [\<lparr>df_filePath = js ''f'', df_originalPath = None, df_diff = [], df_reviewableRanges = [(1, 2)], df_addedLines = {2},
     df_status = Modified\<rparr>]"
  using conjunct1 [OF printed_diff_is_read [OF plain_sample]]
  by (simp add: diff_file_def sample_diff_def hunk_span_def hk_newCount_def List.map_filter_simps)

lemma checked_lines_are_added_witness:
  "lv_valid (validateLine (js ''f'') 2 (parseDiff (diff_text [sample_diff])))"
proof -
  have "\<exists>f h i t. find (\<lambda>f. fd_new f = js ''f'') [sample_diff] = Some f \<and> h \<in> set (fd_hunks f) \<and> i < length (hk_rows h) \<and>
      hk_rows h ! i = AddedRow t \<and> 2 = hk_newStart h + length (filter is_new_row (take i (hk_rows h)))"
    by (intro exI [of _ sample_diff] exI [of _ "hd (fd_hunks sample_diff)"] exI [of _ "2::nat"] exI [of _ "js ''z''"])
      (simp add: sample_diff_def)
  then show ?thesis using conjunct1 [OF checked_lines_are_added [OF plain_sample, of "js ''f''" 2]] by blast
qed

text \<open>A context line lies in the ranges that a refusal names, and is refused itself.\<close>

lemma hinted_line_is_refused:
  "(1, 2) \<in> set (df_reviewableRanges (diff_file sample_diff))" "\<not> lv_valid (validateLine (js ''f'') 1 [diff_file sample_diff])"
  "lv_hint (validateLine (js ''f'') 1 [diff_file sample_diff]) = Some (js ''Valid line ranges for '' @ quoted (js ''f'') @ js '': 1-2'')"
  by (simp_all add: diff_file_def sample_diff_def hunk_span_def hk_newCount_def List.map_filter_simps validateLine_def Let_def
      range_text_def show_nat_def nat_digits.simps js_def)

text \<open>A path that git quotes is not recognised, and a path with \<open>b/\<close> after a blank is cut in the wrong place.\<close>

lemma quoted_path_is_dropped: "git_header (js ''diff --git '' @ quoted (js ''a/x'') @ [0x20] @ quoted (js ''b/x'')) = None"
  by (simp add: git_header_def quoted_def js_def)

lemma path_is_cut: "git_header (js ''diff --git a/x b/y b/x b/y'') = Some (js ''x'', js ''y b/x b/y'')"
  by (simp add: git_header_def js_def Let_def line_terminator_def)

end
