(* ===== verification/TextInput.thy ===== *)
theory TextInput
  imports StdinBuffer
begin

unbundle bit_operations_syntax

text \<open>
  The one-line input of the terminal interface: \<open>packages/tui/src/components/input.ts\<close> without its
  drawing, with \<open>kill-ring.ts\<close>, \<open>undo-stack.ts\<close>, \<open>word-navigation.ts\<close> and \<open>decodeKittyPrintable\<close> of
  \<open>keys.ts\<close>. The segmentation of text into graphemes and words is the runtime's and the key bindings
  are a setting: both are in the record \<open>TextEnv\<close>.
\<close>

section \<open>Positions in a text\<close>

text \<open>The index that \<open>slice\<close> takes for \<open>i\<close>: a negative one counts from the end.\<close>

definition slice_index :: "'a list \<Rightarrow> int \<Rightarrow> nat" where
  "slice_index s i = (if i < 0 then nat (int (length s) + i) else min (nat i) (length s))"

definition slice_to :: "'a list \<Rightarrow> int \<Rightarrow> 'a list" where
  "slice_to s i = take (slice_index s i) s"

definition slice_from :: "'a list \<Rightarrow> int \<Rightarrow> 'a list" where
  "slice_from s i = drop (slice_index s i) s"

definition slice_between :: "'a list \<Rightarrow> int \<Rightarrow> int \<Rightarrow> 'a list" where
  "slice_between s i j = drop (slice_index s i) (take (slice_index s j) s)"

section \<open>Kill ring\<close>

text \<open>The most recent entry is the last.\<close>

definition kill_push :: "jstring \<Rightarrow> bool \<Rightarrow> bool \<Rightarrow> jstring list \<Rightarrow> jstring list" where
  "kill_push text prepend accumulate ring =
     (if text = [] then ring
      else if accumulate \<and> ring \<noteq> [] then butlast ring @ [if prepend then text @ last ring else last ring @ text]
      else ring @ [text])"

definition kill_peek :: "jstring list \<Rightarrow> jstring option" where
  "kill_peek ring = (if ring = [] then None else Some (last ring))"

definition kill_rotate :: "jstring list \<Rightarrow> jstring list" where
  "kill_rotate ring = (if 1 < length ring then last ring # butlast ring else ring)"

section \<open>Words\<close>

definition isWhitespaceChar :: "jstring \<Rightarrow> bool" where
  "isWhitespaceChar s \<longleftrightarrow> list_ex is_js_space s"

definition is_punctuation :: "jchar \<Rightarrow> bool" where
  "is_punctuation c \<longleftrightarrow> c \<in> set (js ''(){}[]<>.,;:!?+-=*/|&%^$#@~'' @ [0x27, 0x22, 0x5C, 0x60])"

text \<open>A segment and \<open>isWordLike\<close>.\<close>

type_synonym segment = "jstring \<times> bool"

definition blank_segment :: "(jstring \<Rightarrow> bool) \<Rightarrow> segment \<Rightarrow> bool" where
  "blank_segment isAtomic s \<longleftrightarrow> \<not> isAtomic (fst s) \<and> isWhitespaceChar (fst s)"

definition mark_segment :: "(jstring \<Rightarrow> bool) \<Rightarrow> segment \<Rightarrow> bool" where
  "mark_segment isAtomic s \<longleftrightarrow> \<not> isAtomic (fst s) \<and> \<not> snd s \<and> \<not> isWhitespaceChar (fst s)"

definition segments_length :: "segment list \<Rightarrow> nat" where
  "segments_length ss = (\<Sum>s \<leftarrow> ss. length (fst s))"

text \<open>The length of the word at the end of a segment, and at its start: up to its punctuation.\<close>

definition last_word_length :: "jstring \<Rightarrow> nat" where
  "last_word_length s = length (takeWhile (\<lambda>c. \<not> is_punctuation c) (rev s))"

definition first_word_length :: "jstring \<Rightarrow> nat" where
  "first_word_length s = length (takeWhile (\<lambda>c. \<not> is_punctuation c) s)"

definition findWordBackward ::
    "(jstring \<Rightarrow> segment list) \<Rightarrow> (jstring \<Rightarrow> bool) \<Rightarrow> jstring \<Rightarrow> int \<Rightarrow> int" where
  "findWordBackward segment isAtomic text cursor =
     (if cursor \<le> 0 then 0
      else
        (let segments = rev (segment (slice_to text cursor));
             blank = takeWhile (blank_segment isAtomic) segments;
             newCursor = cursor - int (segments_length blank)
         in case dropWhile (blank_segment isAtomic) segments of
              [] \<Rightarrow> newCursor
            | s # ss \<Rightarrow>
                if isAtomic (fst s) then newCursor - int (length (fst s))
                else if snd s then newCursor - int (last_word_length (fst s))
                else newCursor - int (segments_length (takeWhile (mark_segment isAtomic) (s # ss)))))"

definition findWordForward ::
    "(jstring \<Rightarrow> segment list) \<Rightarrow> (jstring \<Rightarrow> bool) \<Rightarrow> jstring \<Rightarrow> int \<Rightarrow> int" where
  "findWordForward segment isAtomic text cursor =
     (if int (length text) \<le> cursor then int (length text)
      else
        (let segments = segment (slice_from text cursor);
             blank = takeWhile (blank_segment isAtomic) segments;
             newCursor = cursor + int (segments_length blank)
         in case dropWhile (blank_segment isAtomic) segments of
              [] \<Rightarrow> newCursor
            | s # ss \<Rightarrow>
                if isAtomic (fst s) then newCursor + int (length (fst s))
                else if snd s then newCursor + int (first_word_length (fst s))
                else newCursor + int (segments_length (takeWhile (mark_segment isAtomic) (s # ss)))))"

section \<open>Keys that are characters\<close>

definition KITTY_FUNCTIONAL_KEY_EQUIVALENTS :: "nat \<rightharpoonup> int" where
  "KITTY_FUNCTIONAL_KEY_EQUIVALENTS =
     map_of (zip [57399..<57414] [48, 49, 50, 51, 52, 53, 54, 55, 56, 57, 46, 47, 42, 45, 43] @
       zip [57415..<57427] [61, 44, - 4, - 3, - 1, - 2, - 12, - 13, - 14, - 15, - 11, - 10])"

definition normalizeKittyFunctionalCodepoint :: "nat \<Rightarrow> int" where
  "normalizeKittyFunctionalCodepoint codepoint =
     (case KITTY_FUNCTIONAL_KEY_EQUIVALENTS codepoint of Some n \<Rightarrow> n | None \<Rightarrow> int codepoint)"

text \<open>An optional group: a separator and digits, at least one or, with \<open>star\<close>, any number.\<close>

definition digits_after :: "jchar \<Rightarrow> bool \<Rightarrow> jstring \<Rightarrow> jstring option \<times> jstring" where
  "digits_after separator star s =
     (case s of
        c # t \<Rightarrow>
          if c = separator \<and> (star \<or> takeWhile is_digit t \<noteq> []) then (Some (takeWhile is_digit t), dropWhile is_digit t)
          else (None, s)
      | [] \<Rightarrow> (None, s))"

text \<open>\<open>/^\x1b\[(\d+)(?::(\d*))?(?::(\d+))?(?:;(\d+))?(?::(\d+))?u$/\<close>: the first, second and fourth group.\<close>

definition kitty_csi_u :: "jstring \<Rightarrow> (jstring \<times> jstring option \<times> jstring option) option" where
  "kitty_csi_u data =
     (if prefix [ESC, 0x5B] data then
        (case some_digits (drop 2 data) of
           None \<Rightarrow> None
         | Some (codepoint, s1) \<Rightarrow>
             (let (shifted, s2) = digits_after 0x3A True s1;
                  (base, s3) = digits_after 0x3A False s2;
                  (modifier, s4) = digits_after 0x3B False s3;
                  (event, s5) = digits_after 0x3A False s4
              in if s5 = [0x75] then Some (codepoint, shifted, modifier) else None))
      else None)"

text \<open>\<open>String.fromCodePoint\<close>; \<open>None\<close> is the \<open>RangeError\<close>.\<close>

definition fromCodePoint :: "int \<Rightarrow> jstring option" where
  "fromCodePoint n =
     (if n < 0 \<or> 0x10FFFF < n then None
      else if n < 0x10000 then Some [of_int n]
      else Some [of_int (0xD800 + (n - 0x10000) div 0x400), of_int (0xDC00 + (n - 0x10000) mod 0x400)])"

text \<open>The modifier is a 32-bit number, as \<open>&\<close> takes it: shift is 1, and the lock keys are 192.\<close>

definition decodeKittyPrintable :: "jstring \<Rightarrow> jstring option" where
  "decodeKittyPrintable data =
     (case kitty_csi_u data of
        None \<Rightarrow> None
      | Some (codepoint, shifted, modValue) \<Rightarrow>
          (let shiftedKey = (case shifted of Some ds \<Rightarrow> if ds = [] then None else Some (digits_value ds) | None \<Rightarrow> None);
               modifier = (of_int ((case modValue of Some ds \<Rightarrow> int (digits_value ds) | None \<Rightarrow> 1) - 1) :: 32 word)
           in if and modifier (not 193) \<noteq> 0 then None
              else
                (let effectiveCodepoint = normalizeKittyFunctionalCodepoint
                       (case shiftedKey of
                          Some k \<Rightarrow> if and modifier 1 \<noteq> 0 then k else digits_value codepoint
                        | None \<Rightarrow> digits_value codepoint)
                 in if effectiveCodepoint < 32 then None else fromCodePoint effectiveCodepoint)))"

section \<open>The input\<close>

datatype last_action = Kill | Yank | TypeWord

record Input =
  in_value :: jstring
  in_cursor :: int
  in_pasteBuffer :: jstring
  in_isInPaste :: bool
  in_killRing :: "jstring list"
  in_lastAction :: "last_action option"
  in_undoStack :: "(jstring \<times> int) list"

definition new_input :: Input where
  "new_input =
     \<lparr>in_value = [], in_cursor = 0, in_pasteBuffer = [], in_isInPaste = False, in_killRing = [], in_lastAction = None,
      in_undoStack = []\<rparr>"

datatype keybinding =
    KCancel | KUndo | KSubmit | KDeleteCharBackward | KDeleteCharForward | KDeleteWordBackward | KDeleteWordForward
  | KDeleteToLineStart | KDeleteToLineEnd | KYank | KYankPop | KCursorLeft | KCursorRight | KCursorLineStart
  | KCursorLineEnd | KCursorWordLeft | KCursorWordRight

record TextEnv =
  te_matches :: "jstring \<Rightarrow> keybinding \<Rightarrow> bool"
  te_graphemes :: "jstring \<Rightarrow> jstring list"
  te_words :: "jstring \<Rightarrow> segment list"

datatype input_event = Submitted jstring | Escaped

definition setValue :: "jstring \<Rightarrow> Input \<Rightarrow> Input" where
  "setValue value s = s\<lparr>in_value := value, in_cursor := min (in_cursor s) (int (length value))\<rparr>"

definition pushUndo :: "Input \<Rightarrow> Input" where
  "pushUndo s = s\<lparr>in_undoStack := in_undoStack s @ [(in_value s, in_cursor s)]\<rparr>"

definition input_undo :: "Input \<Rightarrow> Input" where
  "input_undo s =
     (if in_undoStack s = [] then s
      else s\<lparr>in_undoStack := butlast (in_undoStack s), in_value := fst (last (in_undoStack s)),
             in_cursor := snd (last (in_undoStack s)), in_lastAction := None\<rparr>)"

text \<open>\<open>value.slice(0, cursor) + text + value.slice(cursor)\<close>, and the cursor after the text\<close>

definition insert_text :: "jstring \<Rightarrow> Input \<Rightarrow> Input" where
  "insert_text text s =
     s\<lparr>in_value := slice_to (in_value s) (in_cursor s) @ text @ slice_from (in_value s) (in_cursor s),
       in_cursor := in_cursor s + int (length text)\<rparr>"

definition insertCharacter :: "jstring \<Rightarrow> Input \<Rightarrow> Input" where
  "insertCharacter ch s =
     (let s1 = (if isWhitespaceChar ch \<or> in_lastAction s \<noteq> Some TypeWord then pushUndo s else s)
      in insert_text ch (s1\<lparr>in_lastAction := Some TypeWord\<rparr>))"

definition first_length :: "jstring list \<Rightarrow> int" where
  "first_length gs = (case gs of g # _ \<Rightarrow> int (length g) | [] \<Rightarrow> 1)"

definition handleBackspace :: "TextEnv \<Rightarrow> Input \<Rightarrow> Input" where
  "handleBackspace E s0 =
     (let s = s0\<lparr>in_lastAction := None\<rparr>
      in if 0 < in_cursor s then
           (let s1 = pushUndo s; n = first_length (rev (te_graphemes E (slice_to (in_value s1) (in_cursor s1))))
            in s1\<lparr>in_value := slice_to (in_value s1) (in_cursor s1 - n) @ slice_from (in_value s1) (in_cursor s1),
                  in_cursor := in_cursor s1 - n\<rparr>)
         else s)"

definition handleForwardDelete :: "TextEnv \<Rightarrow> Input \<Rightarrow> Input" where
  "handleForwardDelete E s0 =
     (let s = s0\<lparr>in_lastAction := None\<rparr>
      in if in_cursor s < int (length (in_value s)) then
           (let s1 = pushUndo s; n = first_length (te_graphemes E (slice_from (in_value s1) (in_cursor s1)))
            in s1\<lparr>in_value := slice_to (in_value s1) (in_cursor s1) @ slice_from (in_value s1) (in_cursor s1 + n)\<rparr>)
         else s)"

definition deleteToLineStart :: "Input \<Rightarrow> Input" where
  "deleteToLineStart s =
     (if in_cursor s = 0 then s
      else
        (let s1 = pushUndo s
         in s1\<lparr>in_killRing := kill_push (slice_to (in_value s1) (in_cursor s1)) True (in_lastAction s1 = Some Kill) (in_killRing s1),
               in_lastAction := Some Kill, in_value := slice_from (in_value s1) (in_cursor s1), in_cursor := 0\<rparr>))"

definition deleteToLineEnd :: "Input \<Rightarrow> Input" where
  "deleteToLineEnd s =
     (if int (length (in_value s)) \<le> in_cursor s then s
      else
        (let s1 = pushUndo s
         in s1\<lparr>in_killRing := kill_push (slice_from (in_value s1) (in_cursor s1)) False (in_lastAction s1 = Some Kill) (in_killRing s1),
               in_lastAction := Some Kill, in_value := slice_to (in_value s1) (in_cursor s1)\<rparr>))"

definition moveWordBackwards :: "TextEnv \<Rightarrow> Input \<Rightarrow> Input" where
  "moveWordBackwards E s =
     (if in_cursor s = 0 then s
      else s\<lparr>in_lastAction := None, in_cursor := findWordBackward (te_words E) (\<lambda>_. False) (in_value s) (in_cursor s)\<rparr>)"

definition moveWordForwards :: "TextEnv \<Rightarrow> Input \<Rightarrow> Input" where
  "moveWordForwards E s =
     (if int (length (in_value s)) \<le> in_cursor s then s
      else s\<lparr>in_lastAction := None, in_cursor := findWordForward (te_words E) (\<lambda>_. False) (in_value s) (in_cursor s)\<rparr>)"

definition deleteWordBackwards :: "TextEnv \<Rightarrow> Input \<Rightarrow> Input" where
  "deleteWordBackwards E s =
     (if in_cursor s = 0 then s
      else
        (let wasKill = (in_lastAction s = Some Kill);
             s1 = pushUndo s;
             oldCursor = in_cursor s1;
             s2 = moveWordBackwards E s1;
             deleteFrom = in_cursor s2;
             s3 = s2\<lparr>in_cursor := oldCursor\<rparr>
         in s3\<lparr>in_killRing := kill_push (slice_between (in_value s3) deleteFrom (in_cursor s3)) True wasKill (in_killRing s3),
               in_lastAction := Some Kill,
               in_value := slice_to (in_value s3) deleteFrom @ slice_from (in_value s3) (in_cursor s3), in_cursor := deleteFrom\<rparr>))"

definition deleteWordForward :: "TextEnv \<Rightarrow> Input \<Rightarrow> Input" where
  "deleteWordForward E s =
     (if int (length (in_value s)) \<le> in_cursor s then s
      else
        (let wasKill = (in_lastAction s = Some Kill);
             s1 = pushUndo s;
             oldCursor = in_cursor s1;
             s2 = moveWordForwards E s1;
             deleteTo = in_cursor s2;
             s3 = s2\<lparr>in_cursor := oldCursor\<rparr>
         in s3\<lparr>in_killRing := kill_push (slice_between (in_value s3) (in_cursor s3) deleteTo) False wasKill (in_killRing s3),
               in_lastAction := Some Kill,
               in_value := slice_to (in_value s3) (in_cursor s3) @ slice_from (in_value s3) deleteTo\<rparr>))"

definition yank :: "Input \<Rightarrow> Input" where
  "yank s =
     (case kill_peek (in_killRing s) of
        None \<Rightarrow> s
      | Some text \<Rightarrow> if text = [] then s else (insert_text text (pushUndo s))\<lparr>in_lastAction := Some Yank\<rparr>)"

definition yankPop :: "Input \<Rightarrow> Input" where
  "yankPop s =
     (if in_lastAction s \<noteq> Some Yank \<or> length (in_killRing s) \<le> 1 then s
      else
        (let s1 = pushUndo s;
             prevText = (case kill_peek (in_killRing s1) of Some t \<Rightarrow> t | None \<Rightarrow> []);
             s2 = s1\<lparr>in_value := slice_to (in_value s1) (in_cursor s1 - int (length prevText)) @ slice_from (in_value s1) (in_cursor s1),
                     in_cursor := in_cursor s1 - int (length prevText), in_killRing := kill_rotate (in_killRing s1)\<rparr>;
             text = (case kill_peek (in_killRing s2) of Some t \<Rightarrow> t | None \<Rightarrow> [])
         in insert_text text (s2\<lparr>in_lastAction := Some Yank\<rparr>)))"

text \<open>The four replacements of \<open>handlePaste\<close>: carriage returns and newlines go, a tab is four blanks.\<close>

definition clean_paste :: "jstring \<Rightarrow> jstring" where
  "clean_paste t = concat (map (\<lambda>c. if c = 9 then js ''    '' else [c]) (filter (\<lambda>c. c \<noteq> 13 \<and> c \<noteq> 10) t))"

definition handlePaste :: "jstring \<Rightarrow> Input \<Rightarrow> Input" where
  "handlePaste pastedText s = insert_text (clean_paste pastedText) (pushUndo (s\<lparr>in_lastAction := None\<rparr>))"

definition is_control :: "jchar \<Rightarrow> bool" where
  "is_control c \<longleftrightarrow> c < 32 \<or> c = 0x7F \<or> 0x80 \<le> c \<and> c \<le> 0x9F"

definition cursorLeft :: "TextEnv \<Rightarrow> Input \<Rightarrow> Input" where
  "cursorLeft E s =
     (if 0 < in_cursor s
      then s\<lparr>in_lastAction := None,
             in_cursor := in_cursor s - first_length (rev (te_graphemes E (slice_to (in_value s) (in_cursor s))))\<rparr>
      else s\<lparr>in_lastAction := None\<rparr>)"

definition cursorRight :: "TextEnv \<Rightarrow> Input \<Rightarrow> Input" where
  "cursorRight E s =
     (if in_cursor s < int (length (in_value s))
      then s\<lparr>in_lastAction := None,
             in_cursor := in_cursor s + first_length (te_graphemes E (slice_from (in_value s) (in_cursor s)))\<rparr>
      else s\<lparr>in_lastAction := None\<rparr>)"

text \<open>\<open>handleInput\<close> outside a paste: the first binding that matches.\<close>

definition handle_key :: "TextEnv \<Rightarrow> jstring \<Rightarrow> Input \<Rightarrow> input_event list \<times> Input" where
  "handle_key E data s =
     (if te_matches E data KCancel then ([Escaped], s)
      else if te_matches E data KUndo then ([], input_undo s)
      else if te_matches E data KSubmit \<or> data = [newline] then ([Submitted (in_value s)], s)
      else if te_matches E data KDeleteCharBackward then ([], handleBackspace E s)
      else if te_matches E data KDeleteCharForward then ([], handleForwardDelete E s)
      else if te_matches E data KDeleteWordBackward then ([], deleteWordBackwards E s)
      else if te_matches E data KDeleteWordForward then ([], deleteWordForward E s)
      else if te_matches E data KDeleteToLineStart then ([], deleteToLineStart s)
      else if te_matches E data KDeleteToLineEnd then ([], deleteToLineEnd s)
      else if te_matches E data KYank then ([], yank s)
      else if te_matches E data KYankPop then ([], yankPop s)
      else if te_matches E data KCursorLeft then ([], cursorLeft E s)
      else if te_matches E data KCursorRight then ([], cursorRight E s)
      else if te_matches E data KCursorLineStart then ([], s\<lparr>in_lastAction := None, in_cursor := 0\<rparr>)
      else if te_matches E data KCursorLineEnd then ([], s\<lparr>in_lastAction := None, in_cursor := int (length (in_value s))\<rparr>)
      else if te_matches E data KCursorWordLeft then ([], moveWordBackwards E s)
      else if te_matches E data KCursorWordRight then ([], moveWordForwards E s)
      else
        (case decodeKittyPrintable data of
           Some kittyPrintable \<Rightarrow> ([], insertCharacter kittyPrintable s)
         | None \<Rightarrow> ([], if list_ex is_control data then s else insertCharacter data s)))"

text \<open>The start of a paste: the first mark is taken out of the data.\<close>

definition enter_paste :: "jstring \<Rightarrow> Input \<Rightarrow> jstring \<times> Input" where
  "enter_paste data s =
     (case index_of BRACKETED_PASTE_START data of
        None \<Rightarrow> (data, s)
      | Some i \<Rightarrow>
          (take i data @ drop (i + length BRACKETED_PASTE_START) data, s\<lparr>in_isInPaste := True, in_pasteBuffer := []\<rparr>))"

lemma enter_paste_length:
  "enter_paste data s = (data', s') \<Longrightarrow> length data' + length (in_pasteBuffer s') \<le> length data + length (in_pasteBuffer s)"
  by (auto simp: enter_paste_def split: option.splits)

function handleInput :: "TextEnv \<Rightarrow> jstring \<Rightarrow> Input \<Rightarrow> input_event list \<times> Input" where
  "handleInput E data0 s0 =
     (let (data, s) = enter_paste data0 s0
      in if in_isInPaste s then
           (let pasteBuffer = in_pasteBuffer s @ data
            in case paste_end pasteBuffer of
                 None \<Rightarrow> ([], s\<lparr>in_pasteBuffer := pasteBuffer\<rparr>)
               | Some (pasteContent, remaining) \<Rightarrow>
                   (let s1 = (handlePaste pasteContent s)\<lparr>in_isInPaste := False, in_pasteBuffer := []\<rparr>
                    in if remaining \<noteq> [] then handleInput E remaining s1 else ([], s1)))
         else handle_key E data s)"
  by auto
termination
proof (relation "measure (\<lambda>(E, data, s). length data + length (in_pasteBuffer s))", simp, goal_cases)
  case (1 E data0 s0 x data s buffer y content remaining s1)
  have "length remaining < length (in_pasteBuffer s @ data)" using paste_end_length 1 by metis
  moreover have "length data + length (in_pasteBuffer s) \<le> length data0 + length (in_pasteBuffer s0)"
    using enter_paste_length 1 by metis
  ultimately show ?case using 1 by simp
qed

declare handleInput.simps [simp del]

fun handle_all :: "TextEnv \<Rightarrow> jstring list \<Rightarrow> Input \<Rightarrow> input_event list \<times> Input" where
  "handle_all E [] s = ([], s)"
| "handle_all E (d # ds) s = (let (es, s1) = handleInput E d s; (fs, s2) = handle_all E ds s1 in (es @ fs, s2))"

end
