(* ===== verification/Terminal.thy ===== *)
theory Terminal
  imports TextInput
begin

text \<open>
  What \<open>packages/tui/src/terminal.ts\<close> does with its input: the sequences of the splitter go to the input
  handler, except for the answers of the terminal to the query for its keyboard protocol, which may
  arrive in parts; a paste goes there with its marks. The model is of the time between \<open>start\<close> and
  \<open>stop\<close>, while the handler is set; the writes to the terminal are outputs like the inputs passed on.
\<close>

section \<open>The keyboard protocol\<close>

datatype negotiation = KittyFlags nat | DeviceAttributes

text \<open>\<open>/^\x1b\[\?(\d+)u$/\<close> and \<open>/^\x1b\[\?[\d;]*c$/\<close>\<close>

definition digits_or_semicolons :: "jstring \<Rightarrow> bool" where
  "digits_or_semicolons s \<longleftrightarrow> list_all (\<lambda>c. is_digit c \<or> c = 0x3B) s"

definition parseKeyboardProtocolNegotiationSequence :: "jstring \<Rightarrow> negotiation option" where
  "parseKeyboardProtocolNegotiationSequence sequence =
     (if prefix [ESC, 0x5B, 0x3F] sequence then
        (let s = drop 3 sequence; ds = takeWhile is_digit s
         in if ds \<noteq> [] \<and> dropWhile is_digit s = [0x75] then Some (KittyFlags (digits_value ds))
            else if s \<noteq> [] \<and> last s = 0x63 \<and> digits_or_semicolons (butlast s) then Some DeviceAttributes
            else None)
      else None)"

definition isKeyboardProtocolNegotiationSequencePrefix :: "jstring \<Rightarrow> bool" where
  "isKeyboardProtocolNegotiationSequencePrefix sequence \<longleftrightarrow>
     sequence = [ESC, 0x5B] \<or> prefix [ESC, 0x5B, 0x3F] sequence \<and> digits_or_semicolons (drop 3 sequence)"

section \<open>The state of the terminal\<close>

record ProcessTerminal =
  pt_negotiationBuffer :: jstring
  pt_flushTimer :: bool
  pt_kittyProtocolActive :: bool
  pt_modifyOtherKeysActive :: bool

definition new_terminal :: ProcessTerminal where
  "new_terminal =
     \<lparr>pt_negotiationBuffer = [], pt_flushTimer = False, pt_kittyProtocolActive = False, pt_modifyOtherKeysActive = False\<rparr>"

datatype terminal_output = Forwarded jstring | Written jstring

text \<open>Whether this is the terminal of Apple, and whether shift is pressed, which the system tells.\<close>

record terminal_env =
  tv_isAppleTerminalSession :: bool
  tv_isShiftPressed :: bool

definition APPLE_TERMINAL_SHIFT_ENTER_SEQUENCE :: jstring where
  "APPLE_TERMINAL_SHIFT_ENTER_SEQUENCE = ESC # js ''[13;2u''"

definition normalizeAppleTerminalInput :: "jstring \<Rightarrow> bool \<Rightarrow> bool \<Rightarrow> jstring" where
  "normalizeAppleTerminalInput data isAppleTerminal isShiftPressed =
     (if isAppleTerminal \<and> data = [13] \<and> isShiftPressed then APPLE_TERMINAL_SHIFT_ENTER_SEQUENCE else data)"

definition forwardInputSequence :: "terminal_env \<Rightarrow> jstring \<Rightarrow> terminal_output list" where
  "forwardInputSequence V sequence =
     (let isAppleTerminal = (sequence = [13] \<and> tv_isAppleTerminalSession V)
      in [Forwarded (normalizeAppleTerminalInput sequence isAppleTerminal (isAppleTerminal \<and> tv_isShiftPressed V))])"

definition enableModifyOtherKeys :: "ProcessTerminal \<Rightarrow> terminal_output list \<times> ProcessTerminal" where
  "enableModifyOtherKeys t =
     (if pt_kittyProtocolActive t \<or> pt_modifyOtherKeysActive t then ([], t)
      else ([Written (ESC # js ''[>4;2m'')], t\<lparr>pt_modifyOtherKeysActive := True\<rparr>))"

definition disableModifyOtherKeys :: "ProcessTerminal \<Rightarrow> terminal_output list \<times> ProcessTerminal" where
  "disableModifyOtherKeys t =
     (if \<not> pt_modifyOtherKeysActive t then ([], t)
      else ([Written (ESC # js ''[>4;0m'')], t\<lparr>pt_modifyOtherKeysActive := False\<rparr>))"

section \<open>Reading the answers\<close>

definition setKeyboardProtocolNegotiationBuffer :: "jstring \<Rightarrow> ProcessTerminal \<Rightarrow> ProcessTerminal" where
  "setKeyboardProtocolNegotiationBuffer sequence t = t\<lparr>pt_flushTimer := False, pt_negotiationBuffer := sequence\<rparr>"

definition clearKeyboardProtocolNegotiationBuffer :: "ProcessTerminal \<Rightarrow> ProcessTerminal" where
  "clearKeyboardProtocolNegotiationBuffer t = t\<lparr>pt_flushTimer := False, pt_negotiationBuffer := []\<rparr>"

definition flushKeyboardProtocolNegotiationBufferAsInput ::
    "terminal_env \<Rightarrow> ProcessTerminal \<Rightarrow> terminal_output list \<times> ProcessTerminal" where
  "flushKeyboardProtocolNegotiationBufferAsInput V t =
     (if pt_negotiationBuffer t = [] then ([], t)
      else (forwardInputSequence V (pt_negotiationBuffer t), clearKeyboardProtocolNegotiationBuffer t))"

definition scheduleKeyboardProtocolNegotiationBufferFlush :: "ProcessTerminal \<Rightarrow> ProcessTerminal" where
  "scheduleKeyboardProtocolNegotiationBufferFlush t =
     (if pt_negotiationBuffer t = [] \<or> pt_flushTimer t then t else t\<lparr>pt_flushTimer := True\<rparr>)"

text \<open>The timer fires.\<close>

definition negotiation_timer_fires :: "terminal_env \<Rightarrow> ProcessTerminal \<Rightarrow> terminal_output list \<times> ProcessTerminal" where
  "negotiation_timer_fires V t = flushKeyboardProtocolNegotiationBufferAsInput V (t\<lparr>pt_flushTimer := False\<rparr>)"

datatype negotiation_read = Pending | Negotiated negotiation | NoNegotiation

definition readKeyboardProtocolNegotiationSequence ::
    "terminal_env \<Rightarrow> jstring \<Rightarrow> ProcessTerminal \<Rightarrow> terminal_output list \<times> negotiation_read \<times> ProcessTerminal" where
  "readKeyboardProtocolNegotiationSequence V sequence t =
     (let bufferedSequence = pt_negotiationBuffer t @ sequence;
          fresh =
            (let (flushed, t1) = flushKeyboardProtocolNegotiationBufferAsInput V t
             in case parseKeyboardProtocolNegotiationSequence sequence of
                  Some n \<Rightarrow> (flushed, Negotiated n, t1)
                | None \<Rightarrow>
                    if isKeyboardProtocolNegotiationSequencePrefix sequence
                    then (flushed, Pending, setKeyboardProtocolNegotiationBuffer sequence t1)
                    else (flushed, NoNegotiation, t1))
      in if pt_negotiationBuffer t \<noteq> [] then
           (case parseKeyboardProtocolNegotiationSequence bufferedSequence of
              Some n \<Rightarrow> ([], Negotiated n, clearKeyboardProtocolNegotiationBuffer t)
            | None \<Rightarrow>
                if isKeyboardProtocolNegotiationSequencePrefix bufferedSequence
                then ([], Pending, setKeyboardProtocolNegotiationBuffer bufferedSequence t)
                else fresh)
         else fresh)"

text \<open>For an answer; without one nothing is handled.\<close>

definition handleKeyboardProtocolNegotiationSequence ::
    "negotiation \<Rightarrow> ProcessTerminal \<Rightarrow> terminal_output list \<times> ProcessTerminal" where
  "handleKeyboardProtocolNegotiationSequence n t0 =
     (let t = clearKeyboardProtocolNegotiationBuffer t0
      in case n of
           KittyFlags flags \<Rightarrow>
             if flags \<noteq> 0 then
               (let (out, t1) = disableModifyOtherKeys t in (out, t1\<lparr>pt_kittyProtocolActive := True\<rparr>))
             else enableModifyOtherKeys t
         | DeviceAttributes \<Rightarrow> if \<not> pt_kittyProtocolActive t then enableModifyOtherKeys t else ([], t))"

section \<open>The events of the splitter\<close>

fun terminal_event :: "terminal_env \<Rightarrow> stdin_event \<Rightarrow> ProcessTerminal \<Rightarrow> terminal_output list \<times> ProcessTerminal" where
  "terminal_event V (Data sequence) t =
     (let (flushed, r, t1) = readKeyboardProtocolNegotiationSequence V sequence t
      in case r of
           Pending \<Rightarrow> (flushed, scheduleKeyboardProtocolNegotiationBufferFlush t1)
         | Negotiated n \<Rightarrow> (let (out, t2) = handleKeyboardProtocolNegotiationSequence n t1 in (flushed @ out, t2))
         | NoNegotiation \<Rightarrow> (flushed @ forwardInputSequence V sequence, t1))"
| "terminal_event V (Paste content) t = ([Forwarded (BRACKETED_PASTE_START @ content @ BRACKETED_PASTE_END)], t)"

fun terminal_events :: "terminal_env \<Rightarrow> stdin_event list \<Rightarrow> ProcessTerminal \<Rightarrow> terminal_output list \<times> ProcessTerminal" where
  "terminal_events V [] t = ([], t)"
| "terminal_events V (e # es) t =
     (let (out, t1) = terminal_event V e t; (outs, t2) = terminal_events V es t1 in (out @ outs, t2))"

text \<open>What the input handler gets.\<close>

definition inputs :: "terminal_output list \<Rightarrow> jstring list" where
  "inputs outs = List.map_filter (\<lambda>out. case out of Forwarded s \<Rightarrow> Some s | Written s \<Rightarrow> None) outs"

lemma inputs_simps [simp]:
  "inputs [] = []" "inputs (Forwarded s # outs) = s # inputs outs" "inputs (Written s # outs) = inputs outs"
  "inputs (xs @ ys) = inputs xs @ inputs ys"
  by (simp_all add: inputs_def List.map_filter_def)

lemma modifyOtherKeys_inputs [simp]:
  "inputs (fst (enableModifyOtherKeys t)) = []" "inputs (fst (disableModifyOtherKeys t)) = []"
  "pt_negotiationBuffer (snd (enableModifyOtherKeys t)) = pt_negotiationBuffer t"
  "pt_negotiationBuffer (snd (disableModifyOtherKeys t)) = pt_negotiationBuffer t"
  by (simp_all add: enableModifyOtherKeys_def disableModifyOtherKeys_def)

lemma negotiation_inputs [simp]:
  "inputs (fst (handleKeyboardProtocolNegotiationSequence n t)) = []"
  "pt_negotiationBuffer (snd (handleKeyboardProtocolNegotiationSequence n t)) = []"
  by (simp_all add: handleKeyboardProtocolNegotiationSequence_def Let_def case_prod_unfold
      clearKeyboardProtocolNegotiationBuffer_def split: negotiation.split)

text \<open>
  Nothing typed is lost: what was waiting and the new sequence are passed on or wait, in this order,
  except for an answer, which is what waited together with the sequence, or the sequence alone. Where
  the terminal is not Apple's nothing is rewritten either.
\<close>

lemma flush_inputs:
  "\<not> tv_isAppleTerminalSession V \<Longrightarrow>
   concat (inputs (fst (flushKeyboardProtocolNegotiationBufferAsInput V t))) = pt_negotiationBuffer t \<and>
   pt_negotiationBuffer (snd (flushKeyboardProtocolNegotiationBufferAsInput V t)) = []"
  by (simp add: flushKeyboardProtocolNegotiationBufferAsInput_def forwardInputSequence_def normalizeAppleTerminalInput_def
      clearKeyboardProtocolNegotiationBuffer_def)

lemma terminal_keeps_input:
  assumes "\<not> tv_isAppleTerminalSession V" "terminal_event V (Data sequence) t = (out, t')"
  obtains (kept) "concat (inputs out) @ pt_negotiationBuffer t' = pt_negotiationBuffer t @ sequence"
  | (joined) n where "parseKeyboardProtocolNegotiationSequence (pt_negotiationBuffer t @ sequence) = Some n"
      "inputs out = []" "pt_negotiationBuffer t' = []"
  | (alone) n where "parseKeyboardProtocolNegotiationSequence sequence = Some n"
      "concat (inputs out) = pt_negotiationBuffer t" "pt_negotiationBuffer t' = []"
proof -
  obtain early r t1 where read: "readKeyboardProtocolNegotiationSequence V sequence t = (early, r, t1)"
    by (cases "readKeyboardProtocolNegotiationSequence V sequence t") auto
  have forward: "inputs (forwardInputSequence V s) = [s]" for s
    using assms(1) by (simp add: forwardInputSequence_def normalizeAppleTerminalInput_def)
  note flush = flush_inputs [OF assms(1), of t]
  have r: "case r of
      Pending \<Rightarrow> concat (inputs early) @ pt_negotiationBuffer t1 = pt_negotiationBuffer t @ sequence
    | Negotiated n \<Rightarrow>
        parseKeyboardProtocolNegotiationSequence (pt_negotiationBuffer t @ sequence) = Some n \<and> inputs early = [] \<or>
        parseKeyboardProtocolNegotiationSequence sequence = Some n \<and> concat (inputs early) = pt_negotiationBuffer t
    | NoNegotiation \<Rightarrow> concat (inputs early) = pt_negotiationBuffer t \<and> pt_negotiationBuffer t1 = []"
    using read flush
    by (auto simp: readKeyboardProtocolNegotiationSequence_def Let_def case_prod_unfold
        setKeyboardProtocolNegotiationBuffer_def split: if_splits option.splits)
  show ?thesis
  proof (cases r)
    case Pending
    then have "concat (inputs out) @ pt_negotiationBuffer t' = pt_negotiationBuffer t @ sequence"
      using r assms(2) read by (auto simp: scheduleKeyboardProtocolNegotiationBufferFlush_def split: if_splits)
    then show ?thesis by (rule kept)
  next
    case (Negotiated n)
    then have "inputs out = inputs early" "pt_negotiationBuffer t' = []"
      using assms(2) read negotiation_inputs [of n t1] by (auto simp: case_prod_unfold Let_def)
    then show ?thesis using r Negotiated joined alone by auto
  next
    case NoNegotiation
    then have "concat (inputs out) @ pt_negotiationBuffer t' = pt_negotiationBuffer t @ sequence"
      using r assms(2) read forward by auto
    then show ?thesis by (rule kept)
  qed
qed

text \<open>An answer in two parts is handled, not typed; without the second part the first one is typed.\<close>

lemma split_answer:
  "terminal_events V [Data (ESC # js ''[?''), Data (js ''7u'')] new_terminal =
     ([], new_terminal\<lparr>pt_kittyProtocolActive := True\<rparr>)"
  "terminal_event V (Data (ESC # js ''[?'')) new_terminal =
     ([], new_terminal\<lparr>pt_flushTimer := True, pt_negotiationBuffer := ESC # js ''[?''\<rparr>)"
  by code_simp+

end
