(* ===== verification/InputHistory.thy ===== *)
theory InputHistory
  imports Terminal
begin

text \<open>
  What the one-line input promises: the cursor stays inside the text, every edit can be undone, what
  consecutive kills delete is one entry of the kill ring that yanking puts back, and a paste of the
  terminal ends up in the text. What is assumed of the runtime's segmentation is \<open>segments_ok\<close>. Every key is one step of the relation \<open>input_step\<close>; the invariant is
  proved by rule induction.
\<close>

section \<open>What is documented of the segmentation\<close>

text \<open>Segments are not empty and make up the text.\<close>

definition segments_ok :: "TextEnv \<Rightarrow> bool" where
  "segments_ok E \<longleftrightarrow>
     (\<forall>s. concat (te_graphemes E s) = s \<and> [] \<notin> set (te_graphemes E s) \<and>
          concat (map fst (te_words E s)) = s \<and> [] \<notin> fst ` set (te_words E s))"

text \<open>
  A word that neither starts nor ends with punctuation. This is not so for every text: a Hebrew letter
  and an apostrophe are one word. It is asked of the text at hand only, at a position or at all of them.
\<close>

definition plain_word :: "segment \<Rightarrow> bool" where
  "plain_word s \<longleftrightarrow> (snd s \<longrightarrow> \<not> is_punctuation (hd (fst s)) \<and> \<not> is_punctuation (last (fst s)))"

definition plain_at :: "TextEnv \<Rightarrow> jstring \<Rightarrow> nat \<Rightarrow> bool" where
  "plain_at E v k \<longleftrightarrow> list_all plain_word (te_words E (take k v)) \<and> list_all plain_word (te_words E (drop k v))"

definition plain_words :: "TextEnv \<Rightarrow> jstring \<Rightarrow> bool" where
  "plain_words E v \<longleftrightarrow> list_all (plain_at E v) [0..<Suc (length v)]"

lemma plain_words_at: "plain_words E v \<Longrightarrow> k \<le> length v \<Longrightarrow> plain_at E v k"
  by (auto simp: plain_words_def list_all_iff)

lemma slice_nat [simp]: "k \<le> length s \<Longrightarrow> slice_to s (int k) = take k s" "k \<le> length s \<Longrightarrow> slice_from s (int k) = drop k s"
  by (simp_all add: slice_to_def slice_from_def slice_index_def min_def)

lemma slice_between_nat: "i \<le> length s \<Longrightarrow> k \<le> length s \<Longrightarrow> slice_between s (int i) (int k) = drop i (take k s)"
  by (simp add: slice_between_def slice_index_def min_def)

lemma segments_length_simps [simp]:
  "segments_length [] = 0" "segments_length (s # ss) = length (fst s) + segments_length ss"
  "segments_length (ss @ ts) = segments_length ss + segments_length ts" "segments_length (rev ss) = segments_length ss"
  by (simp_all add: segments_length_def rev_map [symmetric] sum_list_rev)

lemma segments_length_concat: "segments_length ss = length (concat (map fst ss))"
  by (induction ss) simp_all

lemma segments_length_takeWhile: "segments_length (takeWhile P ss) + segments_length (dropWhile P ss) = segments_length ss"
  by (induction ss) simp_all

lemma first_grapheme:
  assumes "segments_ok E" "t \<noteq> []"
  shows "1 \<le> first_length (te_graphemes E t) \<and> first_length (te_graphemes E t) \<le> int (length t) \<and>
    1 \<le> first_length (rev (te_graphemes E t)) \<and> first_length (rev (te_graphemes E t)) \<le> int (length t)"
proof -
  let ?gs = "te_graphemes E t"
  have c: "concat ?gs = t" "[] \<notin> set ?gs" using assms(1) by (auto simp: segments_ok_def)
  then have ne: "?gs \<noteq> []" using assms(2) by auto
  have "1 \<le> int (length g) \<and> int (length g) \<le> int (length t)" if "g \<in> set ?gs" for g
  proof -
    have "length g \<le> length (concat ?gs)" using that by (induction ?gs arbitrary: t) (auto dest: split_list)
    then show ?thesis using that c by (auto simp: Suc_le_eq)
  qed
  moreover obtain g gs where "?gs = g # gs" using ne by (cases ?gs) auto
  moreover obtain h hs where "rev ?gs = h # hs" "h \<in> set ?gs" using ne by (cases "rev ?gs") (auto simp: rev_eq_Cons_iff)
  ultimately show ?thesis by (simp add: first_length_def)
qed

text \<open>The first or last word of a list of segments after the blanks: at most all, and at least one
  character where words are not cut to nothing.\<close>

definition word_run :: "(jstring \<Rightarrow> nat) \<Rightarrow> segment list \<Rightarrow> nat" where
  "word_run word_length ss =
     segments_length (takeWhile (blank_segment (\<lambda>_. False)) ss) +
     (case dropWhile (blank_segment (\<lambda>_. False)) ss of
        [] \<Rightarrow> 0
      | s # ts \<Rightarrow>
          if snd s then word_length (fst s) else segments_length (takeWhile (mark_segment (\<lambda>_. False)) (s # ts)))"

lemma word_run_bounds:
  assumes "ss \<noteq> []" "[] \<notin> fst ` set ss"
    and "\<And>t. word_length t \<le> length t"
  shows "word_run word_length ss \<le> segments_length ss \<and>
    ((\<forall>s \<in> set ss. snd s \<longrightarrow> 0 < word_length (fst s)) \<longrightarrow> 0 < word_run word_length ss)"
proof (cases "dropWhile (blank_segment (\<lambda>_. False)) ss")
  case Nil
  then have "word_run word_length ss = segments_length ss"
    using segments_length_takeWhile [of "blank_segment (\<lambda>_. False)" ss] unfolding word_run_def Nil by simp
  moreover have "0 < segments_length ss" using assms(1,2) by (cases ss) auto
  ultimately show ?thesis by simp
next
  case (Cons s ts)
  have sum: "segments_length (takeWhile (blank_segment (\<lambda>_. False)) ss) + segments_length (s # ts) = segments_length ss"
    using segments_length_takeWhile [of "blank_segment (\<lambda>_. False)" ss] Cons by simp
  have s: "s \<in> set ss" using Cons by (metis list.set_intros(1) set_dropWhileD)
  have nb: "\<not> isWhitespaceChar (fst s)"
    using hd_dropWhile [of "blank_segment (\<lambda>_. False)" ss] unfolding Cons by (simp add: blank_segment_def)
  have l: "0 < length (fst s)" using assms(2) s by (metis imageI length_greater_0_conv)
  show ?thesis
  proof (cases "snd s")
    case True
    have "word_length (fst s) \<le> length (fst s)" by (rule assms(3))
    then show ?thesis using sum True Cons s by (auto simp: word_run_def)
  next
    case False
    then have "takeWhile (mark_segment (\<lambda>_. False)) (s # ts) = s # takeWhile (mark_segment (\<lambda>_. False)) ts" using nb by (simp add: mark_segment_def)
    moreover have "segments_length (takeWhile (mark_segment (\<lambda>_. False)) ts) \<le> segments_length ts"
      using segments_length_takeWhile [of "mark_segment (\<lambda>_. False)" ts] by simp
    ultimately show ?thesis using sum l False Cons by (simp add: word_run_def)
  qed
qed

lemma word_length_le: "first_word_length t \<le> length t" "last_word_length t \<le> length t"
  using length_takeWhile_le [of "\<lambda>c. \<not> is_punctuation c" "rev t"]
  by (simp_all add: first_word_length_def last_word_length_def length_takeWhile_le)

lemma plain_word_lengths:
  assumes "list_all plain_word ss" "[] \<notin> fst ` set ss"
  shows "\<forall>s \<in> set ss. snd s \<longrightarrow> 0 < first_word_length (fst s)" "\<forall>s \<in> set ss. snd s \<longrightarrow> 0 < last_word_length (fst s)"
proof -
  have p: "\<not> is_punctuation (hd (fst s))" "\<not> is_punctuation (last (fst s))" "fst s \<noteq> []" if "s \<in> set ss" "snd s" for s
    using assms that by (auto simp: list_all_iff plain_word_def image_iff)
  show "\<forall>s \<in> set ss. snd s \<longrightarrow> 0 < first_word_length (fst s)"
  proof (intro ballI impI)
    fix s assume "s \<in> set ss" "snd s"
    from p(1,3) [OF this] show "0 < first_word_length (fst s)" by (cases "fst s") (simp_all add: first_word_length_def)
  qed
  show "\<forall>s \<in> set ss. snd s \<longrightarrow> 0 < last_word_length (fst s)"
  proof (intro ballI impI)
    fix s assume "s \<in> set ss" "snd s"
    from p(2,3) [OF this] show "0 < last_word_length (fst s)"
      by (cases "fst s" rule: rev_cases) (simp_all add: last_word_length_def)
  qed
qed

lemma word_backward:
  assumes "segments_ok E" "0 < k" "k \<le> length v"
  obtains j where "j \<le> k" "plain_at E v k \<Longrightarrow> j < k" "findWordBackward (te_words E) (\<lambda>_. False) v (int k) = int j"
proof -
  let ?ss = "rev (te_words E (take k v))"
  have c: "concat (map fst (te_words E (take k v))) = take k v" "[] \<notin> fst ` set (te_words E (take k v))"
    using assms(1) by (auto simp: segments_ok_def)
  have len: "segments_length ?ss = k" using c(1) assms(3) unfolding segments_length_simps by (simp add: segments_length_concat)
  then have ne: "?ss \<noteq> []" using assms(2) by auto
  have b: "word_run last_word_length ?ss \<le> k"
    "(\<forall>s \<in> set ?ss. snd s \<longrightarrow> 0 < last_word_length (fst s)) \<Longrightarrow> 0 < word_run last_word_length ?ss"
    using word_run_bounds [OF ne, of last_word_length] c(2) word_length_le len by auto
  have "findWordBackward (te_words E) (\<lambda>_. False) v (int k) = int k - int (word_run last_word_length ?ss)"
    using assms(2,3) by (cases "dropWhile (blank_segment (\<lambda>_. False)) ?ss") (simp_all add: findWordBackward_def word_run_def Let_def del: dropWhile_eq_Nil_conv)
  also have "\<dots> = int (k - word_run last_word_length ?ss)" using b(1) by simp
  finally show ?thesis
  proof (rule that [rotated 2])
    assume "plain_at E v k"
    then have "0 < word_run last_word_length ?ss"
      using b(2) plain_word_lengths(2) [OF _ c(2)] by (simp add: plain_at_def)
    then show "k - word_run last_word_length ?ss < k" using assms(2) by simp
  qed simp
qed

lemma word_forward:
  assumes "segments_ok E" "k < length v"
  obtains j where "k \<le> j" "plain_at E v k \<Longrightarrow> k < j" "j \<le> length v"
    "findWordForward (te_words E) (\<lambda>_. False) v (int k) = int j"
proof -
  let ?ss = "te_words E (drop k v)"
  have c: "concat (map fst ?ss) = drop k v" "[] \<notin> fst ` set ?ss" using assms(1) by (auto simp: segments_ok_def)
  have len: "segments_length ?ss = length v - k" using c(1) by (simp add: segments_length_concat)
  then have ne: "?ss \<noteq> []" using assms(2) by auto
  have b: "word_run first_word_length ?ss \<le> length v - k"
    "(\<forall>s \<in> set ?ss. snd s \<longrightarrow> 0 < first_word_length (fst s)) \<Longrightarrow> 0 < word_run first_word_length ?ss"
    using word_run_bounds [OF ne, of first_word_length] c(2) word_length_le len by auto
  have f: "findWordForward (te_words E) (\<lambda>_. False) v (int k) = int (k + word_run first_word_length ?ss)"
    using assms(2) by (cases "dropWhile (blank_segment (\<lambda>_. False)) ?ss") (simp_all add: findWordForward_def word_run_def Let_def del: dropWhile_eq_Nil_conv)
  have le: "k + word_run first_word_length ?ss \<le> length v" using b(1) assms(2) by simp
  show ?thesis
  proof (rule that [OF _ _ le f])
    assume "plain_at E v k"
    then show "k < k + word_run first_word_length ?ss"
      using b(2) plain_word_lengths(1) [OF _ c(2)] by (simp add: plain_at_def)
  qed simp
qed

section \<open>Steps\<close>

text \<open>A state with a new text, whose old text and cursor can be restored.\<close>

definition edit :: "Input \<Rightarrow> jstring \<Rightarrow> nat \<Rightarrow> jstring list \<Rightarrow> last_action option \<Rightarrow> Input" where
  "edit s v c ring a =
     (pushUndo s)\<lparr>in_value := v, in_cursor := int c, in_killRing := ring, in_lastAction := a\<rparr>"

definition moved :: "Input \<Rightarrow> nat \<Rightarrow> Input" where
  "moved s c = s\<lparr>in_lastAction := None, in_cursor := int c\<rparr>"

definition ring_ok :: "jstring list \<Rightarrow> bool" where
  "ring_ok ring \<longleftrightarrow> [] \<notin> set ring"

text \<open>The text before the cursor ends with the entry that was yanked last.\<close>

definition yanked_ok :: "jstring \<Rightarrow> nat \<Rightarrow> jstring list \<Rightarrow> bool" where
  "yanked_ok v c ring \<longleftrightarrow> ring \<noteq> [] \<and> suffix (last ring) (take c v)"

inductive input_step :: "Input \<Rightarrow> Input \<Rightarrow> bool" where
  stay: "input_step s s"
| move: "c \<le> length (in_value s) \<Longrightarrow> input_step s (moved s c)"
| change: "c \<le> length v \<Longrightarrow> ring_ok ring \<Longrightarrow> (a = Some Yank \<Longrightarrow> yanked_ok v c ring) \<Longrightarrow> input_step s (edit s v c ring a)"
| type: "in_lastAction s = Some TypeWord \<Longrightarrow> input_step s (insert_text ch s)"

definition input_ok :: "Input \<Rightarrow> bool" where
  "input_ok s \<longleftrightarrow>
     0 \<le> in_cursor s \<and> in_cursor s \<le> int (length (in_value s)) \<and> ring_ok (in_killRing s) \<and>
     (in_lastAction s = Some Yank \<longrightarrow> yanked_ok (in_value s) (nat (in_cursor s)) (in_killRing s)) \<and>
     (in_lastAction s = Some TypeWord \<longrightarrow> in_undoStack s \<noteq> []) \<and>
     (\<forall>(v, c) \<in> set (in_undoStack s). 0 \<le> c \<and> c \<le> int (length v)) \<and>
     (case in_undoStack s of [] \<Rightarrow> in_value s = [] | x # _ \<Rightarrow> fst x = [])"

lemma input_ok_cursor:
  assumes "input_ok s"
  obtains k where "in_cursor s = int k" "k \<le> length (in_value s)"
  using assms by (metis input_ok_def nonneg_int_cases of_nat_le_iff)

lemma input_ok_step: "input_step s s' \<Longrightarrow> input_ok s \<Longrightarrow> input_ok s'"
proof (induction rule: input_step.induct)
  case (change c v ring a s)
  then show ?case by (cases "in_undoStack s") (auto simp: input_ok_def edit_def pushUndo_def)
next
  case (type s ch)
  obtain k where k: "in_cursor s = int k" "k \<le> length (in_value s)" using input_ok_cursor type(2) .
  show ?case using type k by (cases "in_undoStack s") (auto simp: input_ok_def insert_text_def)
qed (auto simp: input_ok_def moved_def split: list.splits)

lemma input_ok_undo: "input_ok s \<Longrightarrow> input_ok (input_undo s)"
proof (cases "in_undoStack s" rule: rev_cases)
  case (snoc xs x)
  moreover assume "input_ok s"
  ultimately show ?thesis by (cases xs; cases x) (auto simp: input_ok_def input_undo_def)
qed (simp add: input_undo_def)

lemma input_ok_buffer [simp]: "input_ok (s\<lparr>in_isInPaste := b, in_pasteBuffer := p\<rparr>) = input_ok s"
  by (cases "in_undoStack s") (simp_all add: input_ok_def)

lemma new_input_ok: "input_ok new_input"
  by (simp add: input_ok_def new_input_def ring_ok_def)

section \<open>Every operation is a step\<close>

lemma suffix_take_append: "suffix t (take (k + length t) (take k v @ t @ u))" if "k \<le> length v"
  using that by (simp add: suffix_def min_def)

lemma insertCharacter_step: "input_ok s \<Longrightarrow> input_step s (insertCharacter ch s)"
proof -
  assume ok: "input_ok s"
  then obtain k where k: "in_cursor s = int k" "k \<le> length (in_value s)" by (rule input_ok_cursor)
  show ?thesis
  proof (cases "isWhitespaceChar ch \<or> in_lastAction s \<noteq> Some TypeWord")
    case True
    then have "insertCharacter ch s = edit s (take k (in_value s) @ ch @ drop k (in_value s)) (k + length ch) (in_killRing s) (Some TypeWord)"
      using k by (simp add: insertCharacter_def insert_text_def edit_def pushUndo_def)
    then show ?thesis using k ok by (auto simp: input_ok_def intro!: change)
  next
    case False
    then have "insertCharacter ch s = insert_text ch s" by (cases s) (simp add: insertCharacter_def)
    then show ?thesis using False type [of s ch] by simp
  qed
qed

lemma grapheme_before:
  assumes "segments_ok E" "0 < k" "k \<le> length v"
  obtains j where "j < k" "int k - first_length (rev (te_graphemes E (take k v))) = int j"
proof -
  have "take k v \<noteq> []" using assms(2,3) by auto
  from first_grapheme [OF assms(1) this] assms(2,3)
  have "1 \<le> first_length (rev (te_graphemes E (take k v)))" "first_length (rev (te_graphemes E (take k v))) \<le> int k" by auto
  then show ?thesis by (intro that [of "nat (int k - first_length (rev (te_graphemes E (take k v))))"]) auto
qed

lemma grapheme_after:
  assumes "segments_ok E" "k < length v"
  obtains j where "k < j" "j \<le> length v" "int k + first_length (te_graphemes E (drop k v)) = int j"
proof -
  have "drop k v \<noteq> []" using assms(2) by auto
  from first_grapheme [OF assms(1) this] assms(2)
  have "1 \<le> first_length (te_graphemes E (drop k v))" "first_length (te_graphemes E (drop k v)) \<le> int (length v - k)" by auto
  then show ?thesis using assms(2) by (intro that [of "nat (int k + first_length (te_graphemes E (drop k v)))"]) auto
qed

lemma handleBackspace_step:
  assumes "segments_ok E" "input_ok s"
  shows "input_step s (handleBackspace E s)"
proof -
  obtain k where k: "in_cursor s = int k" "k \<le> length (in_value s)" using input_ok_cursor [OF assms(2)] .
  show ?thesis
  proof (cases "k = 0")
    case True
    then have "handleBackspace E s = moved s 0" using k by (simp add: handleBackspace_def moved_def)
    then show ?thesis by (simp add: move)
  next
    case False
    obtain j where j: "j < k" "int k - first_length (rev (te_graphemes E (take k (in_value s)))) = int j"
      using grapheme_before [OF assms(1) _ k(2)] False by auto
    have "handleBackspace E s = edit s (take j (in_value s) @ drop k (in_value s)) j (in_killRing s) None"
      using k j False by (simp add: handleBackspace_def edit_def pushUndo_def Let_def)
    then show ?thesis using j k assms(2) by (auto simp: input_ok_def intro!: change)
  qed
qed

lemma handleForwardDelete_step:
  assumes "segments_ok E" "input_ok s"
  shows "input_step s (handleForwardDelete E s)"
proof -
  obtain k where k: "in_cursor s = int k" "k \<le> length (in_value s)" using input_ok_cursor [OF assms(2)] .
  show ?thesis
  proof (cases "k < length (in_value s)")
    case False
    then have "handleForwardDelete E s = moved s k" using k by (simp add: handleForwardDelete_def moved_def)
    then show ?thesis using k by (simp add: move)
  next
    case True
    obtain j where j: "k < j" "j \<le> length (in_value s)" "int k + first_length (te_graphemes E (drop k (in_value s))) = int j"
      using grapheme_after [OF assms(1) True] .
    have "handleForwardDelete E s = edit s (take k (in_value s) @ drop j (in_value s)) k (in_killRing s) None"
      using k j True by (simp add: handleForwardDelete_def edit_def pushUndo_def Let_def)
    then show ?thesis using j k assms(2) by (auto simp: input_ok_def intro!: change)
  qed
qed

lemma cursor_steps:
  assumes "segments_ok E" "input_ok s"
  shows "input_step s (cursorLeft E s)" "input_step s (cursorRight E s)"
    "input_step s (moveWordBackwards E s)" "input_step s (moveWordForwards E s)"
    "input_step s (s\<lparr>in_lastAction := None, in_cursor := 0\<rparr>)"
    "input_step s (s\<lparr>in_lastAction := None, in_cursor := int (length (in_value s))\<rparr>)"
proof -
  obtain k where k: "in_cursor s = int k" "k \<le> length (in_value s)" using input_ok_cursor [OF assms(2)] .
  have here: "s\<lparr>in_lastAction := None\<rparr> = moved s k" using k by (simp add: moved_def)
  show "input_step s (cursorLeft E s)"
  proof (cases "k = 0")
    case False
    obtain j where "j < k" "int k - first_length (rev (te_graphemes E (take k (in_value s)))) = int j"
      using grapheme_before [OF assms(1) _ k(2)] False by auto
    then have "cursorLeft E s = moved s j" "j \<le> length (in_value s)" using k False by (simp_all add: cursorLeft_def moved_def)
    then show ?thesis by (simp add: move)
  qed (use k here in \<open>simp add: cursorLeft_def move\<close>)
  show "input_step s (cursorRight E s)"
  proof (cases "k < length (in_value s)")
    case True
    obtain j where "k < j" "j \<le> length (in_value s)" "int k + first_length (te_graphemes E (drop k (in_value s))) = int j"
      using grapheme_after [OF assms(1) True] .
    then have "cursorRight E s = moved s j" "j \<le> length (in_value s)" using k True by (simp_all add: cursorRight_def moved_def)
    then show ?thesis by (simp add: move)
  qed (use k here in \<open>simp add: cursorRight_def move\<close>)
  show "input_step s (moveWordBackwards E s)"
  proof (cases "k = 0")
    case False
    then obtain j where "j \<le> k" "findWordBackward (te_words E) (\<lambda>_. False) (in_value s) (int k) = int j"
      using word_backward [OF assms(1) _ k(2)] by auto
    then have "moveWordBackwards E s = moved s j" "j \<le> length (in_value s)" using k False by (simp_all add: moveWordBackwards_def moved_def)
    then show ?thesis by (simp add: move)
  qed (use k in \<open>simp add: moveWordBackwards_def stay\<close>)
  show "input_step s (moveWordForwards E s)"
  proof (cases "k < length (in_value s)")
    case True
    then obtain j where "j \<le> length (in_value s)" "findWordForward (te_words E) (\<lambda>_. False) (in_value s) (int k) = int j"
      using word_forward [OF assms(1) True] by blast
    then have "moveWordForwards E s = moved s j" using k True by (simp add: moveWordForwards_def moved_def)
    then show ?thesis using \<open>j \<le> _\<close> by (simp add: move)
  qed (use k in \<open>simp add: moveWordForwards_def stay\<close>)
  show "input_step s (s\<lparr>in_lastAction := None, in_cursor := 0\<rparr>)" using move [of 0 s] by (simp add: moved_def)
  show "input_step s (s\<lparr>in_lastAction := None, in_cursor := int (length (in_value s))\<rparr>)"
    using move [of "length (in_value s)" s] by (simp add: moved_def)
qed

section \<open>Kills\<close>

datatype kill_kind = ToLineStart | ToLineEnd | WordBackward | WordForward

fun do_kill :: "TextEnv \<Rightarrow> kill_kind \<Rightarrow> Input \<Rightarrow> Input" where
  "do_kill E ToLineStart s = deleteToLineStart s"
| "do_kill E ToLineEnd s = deleteToLineEnd s"
| "do_kill E WordBackward s = deleteWordBackwards E s"
| "do_kill E WordForward s = deleteWordForward E s"

text \<open>A kill deletes a piece of text before or after the cursor, or does nothing at the ends. The piece is
  not empty where the words at the cursor are plain.\<close>

lemma kill_cases:
  assumes "segments_ok E" "in_cursor s = int k" "k \<le> length (in_value s)"
  obtains (nothing) "do_kill E kind s = s"
  | (backward) j where "j \<le> k" "plain_at E (in_value s) k \<Longrightarrow> j < k"
      "do_kill E kind s = edit s (take j (in_value s) @ drop k (in_value s)) j
      (kill_push (drop j (take k (in_value s))) True (in_lastAction s = Some Kill) (in_killRing s)) (Some Kill)"
  | (forward) j where "k \<le> j" "plain_at E (in_value s) k \<Longrightarrow> k < j" "j \<le> length (in_value s)"
      "do_kill E kind s = edit s (take k (in_value s) @ drop j (in_value s)) k
      (kill_push (drop k (take j (in_value s))) False (in_lastAction s = Some Kill) (in_killRing s)) (Some Kill)"
proof (cases kind)
  case ToLineStart
  show ?thesis
  proof (cases "k = 0")
    case True
    then show ?thesis using ToLineStart assms(2) by - (rule nothing, simp add: deleteToLineStart_def)
  next
    case False
    then show ?thesis using ToLineStart assms(2,3)
      by - (rule backward [of 0], simp_all add: deleteToLineStart_def edit_def pushUndo_def Let_def)
  qed
next
  case ToLineEnd
  show ?thesis
  proof (cases "k < length (in_value s)")
    case False
    then show ?thesis using ToLineEnd assms(2) by - (rule nothing, simp add: deleteToLineEnd_def)
  next
    case True
    then show ?thesis using ToLineEnd assms(2)
      by - (rule forward [of "length (in_value s)"], simp_all add: deleteToLineEnd_def edit_def pushUndo_def Let_def)
  qed
next
  case WordBackward
  show ?thesis
  proof (cases "k = 0")
    case True
    then show ?thesis using WordBackward assms(2) by - (rule nothing, simp add: deleteWordBackwards_def)
  next
    case False
    then obtain j where "j \<le> k" "plain_at E (in_value s) k \<Longrightarrow> j < k"
        "findWordBackward (te_words E) (\<lambda>_. False) (in_value s) (int k) = int j"
      using word_backward [OF assms(1) _ assms(3)] by blast
    then show ?thesis using WordBackward assms(2,3) False
      by - (rule backward [of j], simp_all add: deleteWordBackwards_def moveWordBackwards_def edit_def pushUndo_def Let_def slice_between_nat)
  qed
next
  case WordForward
  show ?thesis
  proof (cases "k < length (in_value s)")
    case False
    then show ?thesis using WordForward assms(2) by - (rule nothing, simp add: deleteWordForward_def)
  next
    case True
    then obtain j where "k \<le> j" "plain_at E (in_value s) k \<Longrightarrow> k < j" "j \<le> length (in_value s)"
        "findWordForward (te_words E) (\<lambda>_. False) (in_value s) (int k) = int j"
      using word_forward [OF assms(1) True] by blast
    then show ?thesis using WordForward assms(2) True
      by - (rule forward [of j], simp_all add: deleteWordForward_def moveWordForwards_def edit_def pushUndo_def Let_def slice_between_nat)
  qed
qed

lemma kill_push_ok: "ring_ok ring \<Longrightarrow> ring_ok (kill_push text p a ring)"
  by (auto simp: ring_ok_def kill_push_def dest: in_set_butlastD)

lemma kill_step:
  assumes "segments_ok E" "input_ok s"
  shows "input_step s (do_kill E kind s)"
proof -
  obtain k where k: "in_cursor s = int k" "k \<le> length (in_value s)" using input_ok_cursor [OF assms(2)] .
  have r: "ring_ok (kill_push t p a (in_killRing s))" for t p a
    using assms(2) by (simp add: input_ok_def kill_push_ok)
  show ?thesis
    by (rule kill_cases [OF assms(1) k, of kind]) (use k r in \<open>auto intro!: stay change\<close>)
qed

section \<open>Yanks and pastes\<close>

lemma yank_eq:
  assumes "in_killRing s \<noteq> []" "ring_ok (in_killRing s)" "in_cursor s = int k" "k \<le> length (in_value s)"
  shows "yank s = edit s (take k (in_value s) @ last (in_killRing s) @ drop k (in_value s)) (k + length (last (in_killRing s)))
    (in_killRing s) (Some Yank)"
proof -
  have "last (in_killRing s) \<noteq> []" using assms(1,2) last_in_set by (fastforce simp: ring_ok_def)
  then show ?thesis using assms by (simp add: yank_def kill_peek_def insert_text_def edit_def pushUndo_def)
qed

lemma yank_step:
  assumes "input_ok s"
  shows "input_step s (yank s)"
proof (cases "in_killRing s = []")
  case True
  then show ?thesis by (simp add: yank_def kill_peek_def stay)
next
  case False
  obtain k where k: "in_cursor s = int k" "k \<le> length (in_value s)" using input_ok_cursor [OF assms] .
  have r: "ring_ok (in_killRing s)" using assms by (simp add: input_ok_def)
  have "yanked_ok (take k (in_value s) @ last (in_killRing s) @ drop k (in_value s)) (k + length (last (in_killRing s))) (in_killRing s)"
    using False k(2) suffix_take_append by (simp only: yanked_ok_def simp_thms)
  then show ?thesis unfolding yank_eq [OF False r k] using k r by (intro change) simp_all
qed

text \<open>Popping puts the other entry in the place of the one yanked last.\<close>

lemma kill_rotate_ok: "1 < length ring \<Longrightarrow> kill_rotate ring \<noteq> [] \<and> set (kill_rotate ring) = set ring"
  by (cases ring rule: rev_cases) (auto simp: kill_rotate_def)

lemma yankPop_eq:
  assumes "in_lastAction s = Some Yank" "1 < length (in_killRing s)" "in_cursor s = int (i + length (last (in_killRing s)))"
    and "i + length (last (in_killRing s)) \<le> length (in_value s)"
  shows "yankPop s =
    edit s (take i (in_value s) @ last (kill_rotate (in_killRing s)) @ drop (i + length (last (in_killRing s))) (in_value s))
      (i + length (last (kill_rotate (in_killRing s)))) (kill_rotate (in_killRing s)) (Some Yank)"
proof -
  have ne: "in_killRing s \<noteq> []" "kill_rotate (in_killRing s) \<noteq> []" using assms(2) kill_rotate_ok by auto
  obtain l where l: "length (last (in_killRing s)) = l" by simp
  have d: "int (i + l) - int l = int i" by simp
  show ?thesis using assms ne unfolding l
    by (simp add: yankPop_def kill_peek_def insert_text_def edit_def pushUndo_def Let_def l d del: of_nat_add)
qed

lemma yankPop_step:
  assumes "input_ok s"
  shows "input_step s (yankPop s)"
proof (cases "in_lastAction s = Some Yank \<and> 1 < length (in_killRing s)")
  case False
  then have "yankPop s = s" by (auto simp: yankPop_def)
  then show ?thesis by (simp add: stay)
next
  case True
  let ?l = "last (in_killRing s)" and ?r = "kill_rotate (in_killRing s)"
  obtain k where k: "in_cursor s = int k" "k \<le> length (in_value s)" using input_ok_cursor [OF assms] .
  have ok: "ring_ok (in_killRing s)" "yanked_ok (in_value s) k (in_killRing s)" using assms True k(1) by (auto simp: input_ok_def)
  then have "length ?l \<le> k" using k(2) suffix_length_le [of ?l "take k (in_value s)"] by (auto simp: yanked_ok_def)
  then obtain i where i: "k = i + length ?l" by (metis add.commute le_Suc_ex)
  have r: "?r \<noteq> []" "ring_ok ?r" using kill_rotate_ok True ok(1) by (auto simp: ring_ok_def)
  have "yanked_ok (take i (in_value s) @ last ?r @ drop (i + length ?l) (in_value s)) (i + length (last ?r)) ?r"
    using r(1) k(2) i suffix_take_append [of i "in_value s"] by (simp only: yanked_ok_def simp_thms)
  moreover have "yankPop s = edit s (take i (in_value s) @ last ?r @ drop (i + length ?l) (in_value s)) (i + length (last ?r)) ?r (Some Yank)"
    using yankPop_eq True k i by auto
  ultimately show ?thesis using r k(2) i by (auto intro!: change)
qed

lemma handlePaste_eq:
  assumes "in_cursor s = int k" "k \<le> length (in_value s)"
  shows "handlePaste t s = edit s (take k (in_value s) @ clean_paste t @ drop k (in_value s)) (k + length (clean_paste t)) (in_killRing s) None"
  using assms by (simp add: handlePaste_def insert_text_def edit_def pushUndo_def)

lemma handlePaste_step: "input_ok s \<Longrightarrow> input_step s (handlePaste t s)"
proof -
  assume ok: "input_ok s"
  obtain k where k: "in_cursor s = int k" "k \<le> length (in_value s)" using input_ok_cursor [OF ok] .
  show ?thesis unfolding handlePaste_eq [OF k] using k ok by (intro change) (simp_all add: input_ok_def)
qed

section \<open>Every input\<close>

lemma handle_key_step:
  assumes "segments_ok E" "input_ok s"
  shows "input_step s (snd (handle_key E d s)) \<or> te_matches E d KUndo \<and> snd (handle_key E d s) = input_undo s"
proof -
  let ?P = "\<lambda>x. input_step s (snd x) \<or> te_matches E d KUndo \<and> snd x = input_undo s"
  have branch: "(c \<Longrightarrow> ?P x) \<Longrightarrow> ?P y \<Longrightarrow> ?P (if c then x else y)" for c x y by simp
  have key: "input_step s s' \<Longrightarrow> ?P (es, s')" for es s' by simp
  have kills: "input_step s (deleteToLineStart s)" "input_step s (deleteToLineEnd s)" "input_step s (deleteWordBackwards E s)"
    "input_step s (deleteWordForward E s)"
    using kill_step [OF assms, of ToLineStart] kill_step [OF assms, of ToLineEnd] kill_step [OF assms, of WordBackward]
      kill_step [OF assms, of WordForward] by simp_all
  have typed: "?P (case decodeKittyPrintable d of Some t \<Rightarrow> ([], insertCharacter t s)
      | None \<Rightarrow> ([], if list_ex is_control d then s else insertCharacter d s))"
    using insertCharacter_step [OF assms(2)] stay by (cases "decodeKittyPrintable d") auto
  show ?thesis unfolding handle_key_def
    by (intro branch typed stay [THEN key] kills [THEN key] handleBackspace_step [OF assms, THEN key]
        handleForwardDelete_step [OF assms, THEN key] cursor_steps [OF assms, THEN key] yank_step [OF assms(2), THEN key]
        yankPop_step [OF assms(2), THEN key]) simp
qed

lemma handle_key_ok: "segments_ok E \<Longrightarrow> input_ok s \<Longrightarrow> input_ok (snd (handle_key E d s))"
  using handle_key_step input_ok_step input_ok_undo by metis

lemma enter_paste_ok: "enter_paste d s = (d', s') \<Longrightarrow> input_ok s' = input_ok s"
  by (auto simp: enter_paste_def split: option.splits)

lemma handleInput_ok: "segments_ok E \<Longrightarrow> input_ok s \<Longrightarrow> input_ok (snd (handleInput E d s))"
proof (induction E d s rule: handleInput.induct)
  case (1 E d0 s0)
  obtain d s where e: "enter_paste d0 s0 = (d, s)" by fastforce
  then have ok: "input_ok s" using enter_paste_ok 1(3) by blast
  note eq = handleInput.simps [of E d0 s0, unfolded e Let_def prod.case]
  show ?case
  proof (cases "in_isInPaste s")
    case False
    then show ?thesis using handle_key_ok [OF 1(2) ok] eq by simp
  next
    case True
    show ?thesis
    proof (cases "paste_end (in_pasteBuffer s @ d)")
      case None
      have "input_ok (s\<lparr>in_pasteBuffer := p\<rparr>)" for p
        using ok input_ok_buffer [of p "in_isInPaste s" s] by simp
      then show ?thesis using True None eq by simp
    next
      case (Some x)
      obtain t r where x: "x = (t, r)" by fastforce
      let ?s = "(handlePaste t s)\<lparr>in_isInPaste := False, in_pasteBuffer := []\<rparr>"
      have ok1: "input_ok ?s" using input_ok_step [OF handlePaste_step [OF ok] ok] by simp
      then show ?thesis
        using 1(1) [OF refl e [symmetric] True refl Some [unfolded x] refl refl _ 1(2) ok1] True Some x eq by simp
    qed
  qed
qed

lemma handle_all_ok: "segments_ok E \<Longrightarrow> input_ok s \<Longrightarrow> input_ok (snd (handle_all E ds s))"
  by (induction ds arbitrary: s) (simp_all add: Let_def case_prod_unfold handleInput_ok)

section \<open>The properties\<close>

text \<open>The runtime's segmentation and a set of bindings, in small: every character is a grapheme and a word.\<close>

definition simple_env :: "(jstring \<times> keybinding) list \<Rightarrow> TextEnv" where
  "simple_env keys =
     \<lparr>te_matches = (\<lambda>d k. (d, k) \<in> set keys), te_graphemes = map (\<lambda>c. [c]),
      te_words = map (\<lambda>c. ([c], \<not> is_punctuation c))\<rparr>"

lemma simple_env_ok: "segments_ok (simple_env keys)"
proof -
  have "concat (map (\<lambda>c. [c]) s) = s" "concat (map (fst \<circ> (\<lambda>c. ([c], \<not> is_punctuation c))) s) = s" for s :: jstring
    by (induction s) simp_all
  then show ?thesis by (auto simp: segments_ok_def simple_env_def)
qed

text \<open>Claim C37: the cursor never leaves the text. Whatever is typed, deleted, killed, yanked, pasted or
  undone, it stays between the start and the end, and so does every cursor that an undo can bring back;
  no entry of the kill ring is empty.\<close>

theorem cursor_stays_in_text:
  assumes "segments_ok E"
  shows "case snd (handle_all E ds new_input) of s \<Rightarrow>
    0 \<le> in_cursor s \<and> in_cursor s \<le> int (length (in_value s)) \<and>
    list_all (\<lambda>(v, c). 0 \<le> c \<and> c \<le> int (length v)) (in_undoStack s) \<and> [] \<notin> set (in_killRing s)"
  using handle_all_ok [OF assms new_input_ok, of ds] by (auto simp: input_ok_def ring_ok_def list_all_iff)

lemma undo_restores:
  assumes "input_step s s'" "in_value s' \<noteq> in_value s"
  shows "(in_lastAction s = Some TypeWord \<and> (\<exists>t. s' = insert_text t s)) \<or>
    (in_value (input_undo s'), in_cursor (input_undo s'), in_undoStack (input_undo s')) = (in_value s, in_cursor s, in_undoStack s)"
  using assms by (cases rule: input_step.cases) (auto simp: moved_def edit_def pushUndo_def input_undo_def)

lemma undo_all: "input_ok s \<Longrightarrow> (in_value ((input_undo ^^ length (in_undoStack s)) s), in_cursor ((input_undo ^^ length (in_undoStack s)) s)) = ([], 0)"
proof (induction "length (in_undoStack s)" arbitrary: s)
  case 0
  then show ?case by (auto simp: input_ok_def)
next
  case (Suc n)
  have "length (in_undoStack (input_undo s)) = n" using Suc.hyps(2) by (auto simp: input_undo_def)
  from Suc.hyps(1) [OF this [symmetric]] input_ok_undo [OF Suc.prems] this Suc.hyps(2) show ?case
    by (metis comp_apply funpow_Suc_right)
qed

text \<open>Claim C38: every edit can be undone. A key other than undo that changes the text either continues a
  word being typed, and then only inserts, or one undo brings back text, cursor and the older undo
  entries exactly; and undoing as often as there are entries leads back to the empty input.\<close>

theorem edits_can_be_undone:
  assumes "segments_ok E" "s = snd (handle_all E ds new_input)"
    and "\<not> te_matches E d KUndo" "s' = snd (handle_key E d s)" "in_value s' \<noteq> in_value s"
  shows "((in_lastAction s = Some TypeWord \<and> (\<exists>t. s' = insert_text t s)) \<or>
      (in_value (input_undo s'), in_cursor (input_undo s'), in_undoStack (input_undo s')) = (in_value s, in_cursor s, in_undoStack s)) \<and>
    (in_value ((input_undo ^^ length (in_undoStack s')) s'), in_cursor ((input_undo ^^ length (in_undoStack s')) s')) = ([], 0)"
proof
  have ok: "input_ok s" using assms(1,2) handle_all_ok new_input_ok by simp
  have "input_step s s'" using handle_key_step [OF assms(1) ok, of d] assms(3,4) by simp
  then show "(in_lastAction s = Some TypeWord \<and> (\<exists>t. s' = insert_text t s)) \<or>
      (in_value (input_undo s'), in_cursor (input_undo s'), in_undoStack (input_undo s')) = (in_value s, in_cursor s, in_undoStack s)"
    using undo_restores assms(5) by blast
  show "(in_value ((input_undo ^^ length (in_undoStack s')) s'), in_cursor ((input_undo ^^ length (in_undoStack s')) s')) = ([], 0)"
    using undo_all handle_key_ok [OF assms(1) ok] assms(4) by blast
qed

section \<open>Kills in a row\<close>

text \<open>The state after kills in a row have removed the text between two positions around the cursor.\<close>

definition killed :: "Input \<Rightarrow> nat \<Rightarrow> nat \<Rightarrow> Input \<Rightarrow> bool" where
  "killed s a b s' \<longleftrightarrow>
     in_value s' = take a (in_value s) @ drop b (in_value s) \<and> in_cursor s' = int a \<and>
     in_killRing s' = in_killRing s @ [drop a (take b (in_value s))] \<and> in_lastAction s' = Some Kill"

lemma drop_take_join: "i \<le> j \<Longrightarrow> j \<le> k \<Longrightarrow> drop i (take j v) @ drop j (take k v) = drop i (take k v)"
proof -
  assume "i \<le> j" "j \<le> k"
  then obtain m n where "j = i + m" "k = j + n" by (metis le_iff_add)
  then show ?thesis by (simp add: drop_take take_add [of m n] add.assoc add.commute [of i m])
qed

lemma killed_step:
  assumes "segments_ok E" "plain_words E (in_value s)" "killed s a b s'"
    and "a < b" "b \<le> length (in_value s)" "in_cursor s = int k" "a \<le> k" "k \<le> b"
  shows "\<exists>a' b'. killed s a' b' (do_kill E kind s') \<and> a' \<le> k \<and> k \<le> b' \<and> a' < b' \<and> b' \<le> length (in_value s)"
proof -
  let ?v = "in_value s"
  have s': "in_value s' = take a ?v @ drop b ?v" "in_cursor s' = int a" "in_lastAction s' = Some Kill"
    "in_killRing s' = in_killRing s @ [drop a (take b ?v)]" using assms(3) by (simp_all add: killed_def)
  have l: "length (in_value s') = a + (length ?v - b)" using s'(1) assms(4,5) by simp
  have "take a (in_value s') = take a ?v" "drop a (in_value s') = drop b ?v" using s'(1) assms(4,5) by simp_all
  then have plain: "plain_at E (in_value s') a"
    using plain_words_at [OF assms(2), of a] plain_words_at [OF assms(2), of b] assms(4,5) by (simp add: plain_at_def)
  have piece: "drop i (take j ?v) \<noteq> []" if "i < j" "j \<le> length ?v" for i j using that by simp
  show ?thesis
  proof (rule kill_cases [OF assms(1) s'(2), of kind])
    show "a \<le> length (in_value s')" using l by simp
  next
    assume "do_kill E kind s' = s'"
    then show ?thesis using assms by auto
  next
    fix j assume "plain_at E (in_value s') a \<Longrightarrow> j < a" and eq: "do_kill E kind s' = edit s' (take j (in_value s') @ drop a (in_value s')) j
      (kill_push (drop j (take a (in_value s'))) True (in_lastAction s' = Some Kill) (in_killRing s')) (Some Kill)"
    then have j: "j < a" using plain by blast
    have t: "take a (in_value s') = take a ?v" "drop a (in_value s') = drop b ?v" "take j (in_value s') = take j ?v"
      using s'(1) j assms(4,5) by simp_all
    have "killed s j b (do_kill E kind s')"
      using eq s' t j piece [of j a] assms(4,5) drop_take_join [of j a b ?v]
      by (simp add: killed_def edit_def kill_push_def)
    then show ?thesis using j assms by (intro exI [of _ j] exI [of _ b]) simp
  next
    fix j assume "plain_at E (in_value s') a \<Longrightarrow> a < j" and j2: "j \<le> length (in_value s')" and eq: "do_kill E kind s' = edit s' (take a (in_value s') @ drop j (in_value s')) a
      (kill_push (drop a (take j (in_value s'))) False (in_lastAction s' = Some Kill) (in_killRing s')) (Some Kill)"
    then have j: "a < j" "j \<le> length (in_value s')" using plain by blast+
    obtain n where n: "j = a + n" using j(1) by (metis less_imp_add_positive)
    have t: "take a (in_value s') = take a ?v" "drop j (in_value s') = drop (b + n) ?v"
      "drop a (take j (in_value s')) = drop b (take (b + n) ?v)"
      using s'(1) n assms(4,5) by (simp_all add: drop_take add.commute)
    have "killed s a (b + n) (do_kill E kind s')"
      using eq s' t j l n piece [of b "b + n"] assms(4,5) drop_take_join [of a b "b + n" ?v]
      by (simp add: killed_def edit_def kill_push_def)
    then show ?thesis using n l j assms by (intro exI [of _ a] exI [of _ "b + n"]) simp
  qed
qed

lemma kills_in_a_row:
  assumes "segments_ok E" "in_cursor s = int k" "k \<le> length (in_value s)" "in_lastAction s \<noteq> Some Kill"
    and "plain_words E (in_value s)"
  shows "fold (do_kill E) kinds s = s \<or>
    (\<exists>a b. killed s a b (fold (do_kill E) kinds s) \<and> a \<le> k \<and> k \<le> b \<and> a < b \<and> b \<le> length (in_value s))"
proof (induction kinds rule: rev_induct)
  case (snoc kind kinds)
  let ?s = "fold (do_kill E) kinds s"
  from snoc show ?case
  proof
    assume "?s = s"
    have plain: "plain_at E (in_value s) k" by (rule plain_words_at [OF assms(5,3)])
    have "do_kill E kind s = s \<or>
      (\<exists>a b. killed s a b (do_kill E kind s) \<and> a \<le> k \<and> k \<le> b \<and> a < b \<and> b \<le> length (in_value s))"
    proof (rule kill_cases [OF assms(1-3), of kind])
      fix j assume "plain_at E (in_value s) k \<Longrightarrow> j < k" and e: "do_kill E kind s = edit s (take j (in_value s) @ drop k (in_value s)) j
        (kill_push (drop j (take k (in_value s))) True (in_lastAction s = Some Kill) (in_killRing s)) (Some Kill)"
      then have j: "j < k" using plain by blast
      then have "killed s j k (do_kill E kind s)" using assms(3,4) e by (simp add: killed_def edit_def kill_push_def)
      then show ?thesis using j assms(3) by auto
    next
      fix j assume "plain_at E (in_value s) k \<Longrightarrow> k < j" and j2: "j \<le> length (in_value s)" and e: "do_kill E kind s = edit s (take k (in_value s) @ drop j (in_value s)) k
        (kill_push (drop k (take j (in_value s))) False (in_lastAction s = Some Kill) (in_killRing s)) (Some Kill)"
      then have j: "k < j" "j \<le> length (in_value s)" using plain by blast+
      then have "killed s k j (do_kill E kind s)" using assms(3,4) e by (simp add: killed_def edit_def kill_push_def)
      then show ?thesis using j by auto
    qed simp
    then show ?thesis using \<open>?s = s\<close> by simp
  next
    assume "\<exists>a b. killed s a b ?s \<and> a \<le> k \<and> k \<le> b \<and> a < b \<and> b \<le> length (in_value s)"
    then show ?thesis using killed_step [OF assms(1,5) _ _ _ assms(2), of _ _ ?s kind] by auto
  qed
qed simp

text \<open>Claim C39: kills in a row are one kill. Deleting to the start, to the end, a word backward or a word
  forward, in any order and number, removes one piece of text around the cursor, adds exactly that
  piece as one entry to the kill ring, in the order of the text, and yanking puts the text back as it
  was; or nothing could be deleted and nothing changes. The text is one in which, before and after
  every position, no word starts or ends with ASCII punctuation (\<open>plain_words\<close>); what happens before
  a Hebrew letter and an apostrophe is \<open>kill_of_nothing\<close> below.\<close>

theorem kills_are_one_entry:
  assumes "segments_ok E" "in_cursor s = int k" "k \<le> length (in_value s)" "in_lastAction s \<noteq> Some Kill"
    and "plain_words E (in_value s)" "s' = fold (do_kill E) kinds s"
  shows "s' = s \<or>
    (\<exists>a b. a \<le> k \<and> k \<le> b \<and> a < b \<and> b \<le> length (in_value s) \<and>
       in_value s' = take a (in_value s) @ drop b (in_value s) \<and> in_cursor s' = int a \<and>
       in_killRing s' = in_killRing s @ [drop a (take b (in_value s))] \<and>
       in_value (yank s') = in_value s \<and> in_cursor (yank s') = int b)"
proof -
  have "in_value (yank s') = in_value s \<and> in_cursor (yank s') = int b"
    if "killed s a b s'" "a < b" "b \<le> length (in_value s)" for a b
  proof -
    have "drop a (take b (in_value s)) \<noteq> []" using that by simp
    moreover have "take a (in_value s) @ drop a (take b (in_value s)) @ drop b (in_value s) = in_value s"
      using that drop_take_join [of 0 a b "in_value s"] by (metis append.assoc append_take_drop_id drop0 less_imp_le zero_le)
    ultimately show ?thesis using that
      by (simp add: killed_def yank_def kill_peek_def insert_text_def pushUndo_def)
  qed
  then show ?thesis using kills_in_a_row [OF assms(1-5), of kinds] unfolding assms(6) [symmetric]
    by (auto simp: killed_def)
qed

section \<open>From the terminal to the text\<close>

lemma handleInput_paste:
  assumes "index_of BRACKETED_PASTE_END (t @ BRACKETED_PASTE_END) = Some (length t)"
  shows "handleInput E (BRACKETED_PASTE_START @ t @ BRACKETED_PASTE_END) s =
    ([], (handlePaste t s)\<lparr>in_isInPaste := False, in_pasteBuffer := []\<rparr>)"
proof -
  have "enter_paste (BRACKETED_PASTE_START @ t @ BRACKETED_PASTE_END) s =
      (t @ BRACKETED_PASTE_END, s\<lparr>in_isInPaste := True, in_pasteBuffer := []\<rparr>)"
    by (simp add: enter_paste_def index_of_start)
  then show ?thesis
    by (subst handleInput.simps)
      (simp add: paste_end_whole [OF assms] Let_def handlePaste_def insert_text_def pushUndo_def)
qed

lemma clean_paste_chars: "set (clean_paste t) \<inter> {9, 10, 13} = {}"
  by (induction t) (auto simp: clean_paste_def js_def split: if_splits)

text \<open>Claim C40: a paste of the terminal ends up in the text. However the bytes of a bracketed paste are
  cut into chunks, the splitter, the terminal and the input together insert its text, cleaned of
  line breaks and tabs, at the cursor, submit nothing, and one undo takes it out again.\<close>

theorem paste_reaches_the_text:
  assumes "concat chunks = BRACKETED_PASTE_START @ t @ BRACKETED_PASTE_END" "[] \<notin> set chunks" "idle_input b"
    and "index_of BRACKETED_PASTE_END (t @ BRACKETED_PASTE_END) = Some (length t)"
    and "in_cursor s = int k" "k \<le> length (in_value s)"
    and "r = handle_all E (inputs (fst (terminal_events V (fst (process_chunks chunks b)) tm))) s"
  shows "fst r = [] \<and> \<not> in_isInPaste (snd r) \<and>
    in_value (snd r) = take k (in_value s) @ clean_paste t @ drop k (in_value s) \<and>
    in_cursor (snd r) = int (k + length (clean_paste t)) \<and> set (clean_paste t) \<inter> {9, 10, 13} = {} \<and>
    in_value (input_undo (snd r)) = in_value s \<and> in_cursor (input_undo (snd r)) = int k"
proof -
  have "pasting t [] b" using assms(3) by (simp add: pasting_def idle_input_def)
  then have "fst (process_chunks chunks b) = [Paste t]"
    using paste_chunks [OF assms(4) _ assms(2), of "[]" b] assms(1) by (simp add: BRACKETED_PASTE_START_def)
  then have r: "r = ([], (handlePaste t s)\<lparr>in_isInPaste := False, in_pasteBuffer := []\<rparr>)"
    using assms(7) by (simp add: handleInput_paste [OF assms(4)])
  show ?thesis unfolding r handlePaste_eq [OF assms(5,6)] using assms(5) clean_paste_chars [of t]
    by (simp add: edit_def pushUndo_def input_undo_def)
qed

section \<open>Examples\<close>

lemma cursor_stays_in_text_witness:
  "case snd (handle_all (simple_env [([27], KUndo)]) [[97], [98], [27]] new_input) of s \<Rightarrow>
    0 \<le> in_cursor s \<and> in_cursor s \<le> int (length (in_value s)) \<and>
    list_all (\<lambda>(v, c). 0 \<le> c \<and> c \<le> int (length v)) (in_undoStack s) \<and> [] \<notin> set (in_killRing s)"
  by (rule cursor_stays_in_text [OF simple_env_ok])

text \<open>After \<open>a\<close> and a blank, undoing the blank and undoing everything.\<close>

lemma edits_can_be_undone_witness:
  "\<exists>s s'. s = snd (handle_all (simple_env []) [[97]] new_input) \<and> s' = snd (handle_key (simple_env []) [32] s) \<and>
    in_value s' = [97, 32] \<and> (in_value ((input_undo ^^ length (in_undoStack s')) s'), in_cursor ((input_undo ^^ length (in_undoStack s')) s')) = ([], 0)"
proof -
  let ?s = "snd (handle_all (simple_env []) [[97]] new_input)"
  let ?t = "snd (handle_key (simple_env []) [32] ?s)"
  have v: "in_value ?s = [97]" "in_value ?t = [97, 32]" by code_simp+
  have "\<not> te_matches (simple_env []) [32] KUndo" by (simp add: simple_env_def)
  from edits_can_be_undone [OF simple_env_ok, where ds = "[[97]]" and d = "[32]", OF refl this refl] v show ?thesis by auto
qed

text \<open>Two words of one character deleted backward, one character after the cursor forward: one entry.\<close>

lemma input_ring_empty: "in_killRing (new_input\<lparr>in_value := v, in_cursor := c\<rparr>) = []"
  by (simp add: new_input_def)

lemma kills_are_one_entry_witness:
  "\<exists>s'. s' = fold (do_kill (simple_env [])) [WordBackward, WordForward, WordBackward]
      (new_input\<lparr>in_value := [97, 98, 99, 100], in_cursor := 3\<rparr>) \<and>
    in_killRing s' = [[98, 99, 100]] \<and> in_value (yank s') = [97, 98, 99, 100]"
proof -
  let ?s = "new_input\<lparr>in_value := [97, 98, 99, 100], in_cursor := 3\<rparr>"
  let ?t = "fold (do_kill (simple_env [])) [WordBackward, WordForward, WordBackward] ?s"
  have r: "in_killRing ?t = [[98, 99, 100]]" by code_simp
  then have ne: "?t \<noteq> ?s" by (metis input_ring_empty list.distinct(1))
  have "in_cursor ?s = int 3" "3 \<le> length (in_value ?s)" "in_lastAction ?s \<noteq> Some Kill" by (simp_all add: new_input_def)
  moreover have "plain_words (simple_env []) (in_value ?s)" by code_simp
  ultimately have a: "in_cursor ?s = int 3" "3 \<le> length (in_value ?s)" "in_lastAction ?s \<noteq> Some Kill"
    "plain_words (simple_env []) (in_value ?s)" by blast+
  from kills_are_one_entry [OF simple_env_ok [of "[]"] a refl, of "[WordBackward, WordForward, WordBackward]"] ne
  have "in_value (yank ?t) = in_value ?s" by blast
  with r show ?thesis by (intro exI [of _ ?t]) simp
qed

lemma paste_reaches_the_text_witness:
  "case handle_all (simple_env []) (inputs (fst (terminal_events \<lparr>tv_isAppleTerminalSession = True, tv_isShiftPressed = True\<rparr>
      (fst (process_chunks [[ESC, 0x5B], [0x32, 0x30, 0x30, 0x7E, 0x68, 10, ESC], [0x5B, 0x32, 0x30, 0x31, 0x7E]] new_stdin_buffer)) new_terminal)))
      (new_input\<lparr>in_value := [97, 98], in_cursor := 1\<rparr>) of r \<Rightarrow>
    in_value (snd r) = [97, 0x68, 98] \<and> in_value (input_undo (snd r)) = [97, 98]"
  using paste_reaches_the_text [of "[[ESC, 0x5B], [0x32, 0x30, 0x30, 0x7E, 0x68, 10, ESC], [0x5B, 0x32, 0x30, 0x31, 0x7E]]"
      "[0x68, 10]" new_stdin_buffer "new_input\<lparr>in_value := [97, 98], in_cursor := 1\<rparr>" 1 _ "simple_env []" "\<lparr>tv_isAppleTerminalSession = True, tv_isShiftPressed = True\<rparr>" new_terminal, OF _ _ _ _ _ _ refl]
  by (simp add: BRACKETED_PASTE_START_def BRACKETED_PASTE_END_def idle_input_def new_stdin_buffer_def clean_paste_def new_input_def)

text \<open>
  A Hebrew letter and an apostrophe are one word (rule WB7a of UAX #29). Deleting it backward deletes
  nothing and makes no entry, but it counts as a kill: the next one is merged with an older entry.
\<close>

definition one_word_env :: TextEnv where
  "one_word_env =
     \<lparr>te_matches = (\<lambda>d k. False), te_graphemes = map (\<lambda>c. [c]), te_words = (\<lambda>s. if s = [] then [] else [(s, True)])\<rparr>"

lemma kill_of_nothing:
  "segments_ok one_word_env \<and>
   (let s = new_input\<lparr>in_value := [0x5D0, 0x27], in_cursor := 2, in_killRing := [[97]]\<rparr>;
        s1 = deleteWordBackwards one_word_env s
    in in_value s1 = in_value s \<and> in_killRing s1 = [[97]] \<and> in_lastAction s1 = Some Kill \<and>
       in_killRing (deleteToLineStart s) = [[97], [0x5D0, 0x27]] \<and>
       in_killRing (deleteToLineStart s1) = [[0x5D0, 0x27, 97]])"
proof
  have "concat (map (\<lambda>c. [c]) s) = s" for s :: jstring by (induction s) simp_all
  then show "segments_ok one_word_env" by (auto simp: segments_ok_def one_word_env_def)
qed code_simp

text \<open>Setting the text between a yank and a pop takes the yanked text from under the cursor.\<close>

lemma set_text_before_pop:
  "in_cursor (yankPop (setValue [] (yank (new_input\<lparr>in_killRing := [[97], [98, 99, 100]]\<rparr>)))) = - 2"
  by code_simp

end
