(* ===== verification/Spec2Isabelle.thy ===== *)
theory Spec2Isabelle
  imports MemoryRepo AgentStream AgentLifecycle TransformMessages HarnessPrompt MutationQueue EditTool StdinBuffer NodeDisk DiffParser InputHistory
begin

text \<open>
  A verification library for the coding agent under src/packages: the agent runtime
  (packages/agent), the parts of the provider layer it stands on (packages/ai), the harness of the
  agent (sessions, compaction, skills, prompt templates and the class that ties them together), the
  tools of the command line application that change files (packages/cli), the reading of terminal
  input (packages/tui), and the diffs of the review agent (packages/review-agent).

  \<^bold>\<open>The parts and how they interact.\<close> A session (\<open>Session\<close>) is a tree of entries kept by a storage;
  its context is the list of messages on the current branch, which compaction (\<open>Compaction\<close>,
  \<open>CompactionUtils\<close>, \<open>Prompts\<close>) and branch summaries (\<open>BranchSummary\<close>) shorten. The agent
  (\<open>Agent\<close>) owns a transcript, queues messages and runs the agent loop (\<open>AgentLoop\<close>), which
  alternates responses of a provider and tool calls and emits events. The agent reduces the events
  into its state; \<open>AgentStream\<close> hands them to consumers through an event stream (\<open>EventStream\<close>).
  The harness (\<open>AgentHarness\<close>) is the other user of the loop: it owns a session and a configuration,
  turns a prompt, a skill or a template (\<open>Skills\<close>, \<open>PromptTemplates\<close>) into a run, writes the messages
  of the run to the session as they end, queues what is written meanwhile, and compacts and
  navigates the session between runs.
  Before a transcript goes to a provider it is converted (\<open>Messages\<close>) and repaired
  (\<open>TransformMessages\<close>, \<open>ToolCallIds\<close>). Sessions are kept by repositories, in memory (\<open>MemoryRepo\<close>) or
  as files (\<open>JsonlRepo\<close>). The tools that edit and write files (\<open>EditTool\<close>) match texts (\<open>EditDiff\<close>), show
  what they changed (\<open>DiffString\<close>) and run one at a time for each file (\<open>MutationQueue\<close>). What is
  typed reaches the application through \<open>StdinBuffer\<close>, which splits it into keys and pastes; the terminal
  takes out the answers about its keyboard protocol (\<open>Terminal\<close>), and the one-line input of the terminal
  interface acts on the rest (\<open>TextInput\<close>). The review agent reads the diff of a pull
  request and checks the lines its comments name (\<open>DiffParser\<close>).

  \<^bold>\<open>Theories and sources.\<close>
    \<^item> \<open>Prelude\<close>, \<open>Json\<close>, \<open>JsonParse\<close>: strings as lists of UTF-16 code units with the JavaScript
      operations the sources use; JSON values, \<open>JSON.stringify\<close>, \<open>JSON.parse\<close>, and that parsing the
      text of a value gives the value.
    \<^item> \<open>Truncate\<close>: packages/agent/src/harness/utils/truncate.ts. \<open>Uuid\<close>: harness/session/uuid.ts.
    \<^item> \<open>Messages\<close>: the message types of packages/ai/src/types.ts and harness/messages.ts.
    \<^item> \<open>SessionTree\<close>: the entries and the \<open>SessionStorage\<close> interface of harness/types.ts, a storage
      as an append-only list of entries in which every parent precedes its children, and the
      locale \<open>session_storage\<close>. \<open>MemoryStorage\<close>: harness/session/memory-storage.ts, which interprets
      the locale. \<open>Session\<close>: harness/session/session.ts over any storage. \<open>MemoryRepo\<close>:
      memory-repo.ts and repo-utils.ts.
    \<^item> \<open>SessionJson\<close>, \<open>JsonlStorage\<close>: the JSON objects of messages and entries, and
      harness/session/jsonl-storage.ts over the file operations of harness/env/nodejs.ts. What it
      needs of a file system is the locale \<open>text_files\<close>, under which it satisfies \<open>session_storage\<close>.
    \<^item> \<open>JsonlRepo\<close>, \<open>NodeDisk\<close>: harness/session/jsonl-repo.ts over any file system, whose contract is the
      locale \<open>session_files\<close>, and the files and directories of harness/env/nodejs.ts, which interpret it.
    \<^item> \<open>CompactionUtils\<close>, \<open>Prompts\<close>, \<open>Compaction\<close>, \<open>BranchSummary\<close>: harness/compaction.
    \<^item> \<open>AgentTypes\<close>, \<open>AgentLoop\<close>: packages/agent/src/types.ts and agent-loop.ts. \<open>AgentTrace\<close>,
      \<open>AgentRelation\<close>, \<open>AgentRuns\<close> hold what is proved of the loop. \<open>EventStream\<close>:
      packages/ai/src/utils/event-stream.ts. \<open>AgentStream\<close>: the two stream functions of agent-loop.ts.
    \<^item> \<open>PendingQueue\<close>, \<open>Agent\<close>, \<open>AgentLifecycle\<close>: packages/agent/src/agent.ts.
    \<^item> \<open>Files\<close>, \<open>PromptTemplates\<close>, \<open>Skills\<close>: the file operations of harness/types.ts,
      harness/prompt-templates.ts, harness/skills.ts and harness/system-prompt.ts.
    \<^item> \<open>HarnessTypes\<close>, \<open>AgentHarness\<close>: harness/agent-harness.ts, its errors and request options, and
      every operation of the class. \<open>HarnessRelation\<close>, \<open>HarnessControl\<close>, \<open>HarnessSession\<close> and
      \<open>HarnessPrompt\<close> hold what is proved of it.
    \<^item> \<open>ToolCallIds\<close>, \<open>TransformMessages\<close>: packages/ai/src/providers/transform-messages.ts and the
      identifier normalisers that the providers give it.
    \<^item> \<open>MutationQueue\<close>: packages/cli/src/core/tools/file-mutation-queue.ts as a step relation on the
      queues and calls. \<open>EditDiff\<close>, \<open>DiffString\<close>: tools/edit-diff.ts. \<open>EditTool\<close>: tools/edit.ts and
      tools/write.ts without their drawing, over the locale \<open>edit_files\<close> of file operations.
    \<^item> \<open>StdinBuffer\<close>: packages/tui/src/stdin-buffer.ts. \<open>TextInput\<close>: components/input.ts of the same
      package without its drawing, kill-ring.ts, undo-stack.ts, word-navigation.ts and the decoding of
      printable keys in keys.ts. \<open>Terminal\<close>: the input side of terminal.ts. \<open>InputHistory\<close> holds what is
      proved of the input. \<open>DiffParser\<close>:
      packages/review-agent/src/github/diff-parser.ts. \<open>Digits\<close>: what their patterns share.

  \<^bold>\<open>How the code is modelled.\<close> Objects are records, unions are datatypes, a \<open>Map\<close> is a partial map
  or, where its order is seen, an association list. A method is a function from the state to a
  result and the new state; an exception is a value of a sum or of \<open>outcome\<close>. Whatever is outside
  src/ or is input and output is an argument: the clock, random bytes, ISO dates, the provider's
  stream, tools, hooks, listeners, the schedule of concurrently running tools. The programs of the
  agent loop run on a world of any type that these arguments read and change.

  \<^bold>\<open>What the lemmas show.\<close> \<open>AgentTrace\<close> states the event protocol as an automaton and proves it by
  triples (\<open>traces\<close>) for each program of the loop, for any schedule; the same triples give the shape
  of the transcript. \<open>AgentRelation\<close> proves once, in a locale, that a run keeps every relation its
  environment keeps; its interpretations give termination (\<open>AgentRuns\<close>) and the reduction of the
  events by the agent (\<open>AgentLifecycle\<close>). \<open>HarnessRelation\<close> carries this over to the programs of the
  harness: a relation that every listener, hook and tool keeps is kept by a run and, if it ignores
  the parts an operation sets, by the operation (\<open>HarnessControl\<close>). Its instances are the control
  state, the registry of tools, and the growth of the session (\<open>HarnessSession\<close>, for any storage
  whose clock does not go back). The session theorems rest on the contract
  \<open>session_storage\<close> and its two interpretations; those on compaction on the built context. The rest are
  functional specifications against reference definitions: longest fitting prefixes, a reference
  UTF-8 encoder, paths to the root, first-in first-out batches. \<open>MutationQueue\<close> proves an invariant by
  rule induction over every interleaving of calls, and from it exclusion, order, that the queues
  drain, and that the result is that of one call after the other. Exclusion and result are stated over
  files, for answers of \<open>realpath\<close> that name them; where a file is created behind a link between two
  calls, they fail, and a lemma shows it. \<open>EditDiff\<close> shows that exactly the
  places matched are replaced, \<open>EditTool\<close> that an edit happens whole or not at all, unless its write fails midway, \<open>DiffString\<close> that
  every row shown carries the right number and text. \<open>StdinBuffer\<close> shows that the input
  is split in the only right way, that the keys of a terminal come out as they went in, and that this
  does not depend on how they arrive. \<open>InputHistory\<close> makes every key a step of a relation and
  proves by cases on the steps that the cursor stays in the text and that edits can be undone; on top
  are the kill ring, for texts without words that end in punctuation, and the way of a paste from the terminal into the text. \<open>DiffParser\<close> prints a diff as git does and shows that
  reading gives back its files, ranges and added lines.

  \<^bold>\<open>Fuel.\<close> A run of the loop takes fuel, one unit for a turn and one for an event of a stream; if
  the environment has a measure that every turn and every event decreases, twice the measure and
  one more is enough, and more fuel changes nothing (\<open>agent_run_terminates\<close>). Three units are
  enough for a prompt that is answered without tools (\<open>prompt_answers\<close>). Walks to the root of a
  session and the search of the Mistral normaliser are partial functions; that they return is
  proved where a theorem needs it.

  \<^bold>\<open>Bounds of the model.\<close> JSON numbers and costs are decimal fractions, not
  doubles. A tool's effects happen
  when it starts and its partial results are reported before its end; a tool or hook that throws
  outside the handlers of the code ends its batch. Listeners are those subscribed when an event is
  dispatched. \<open>runAgentLoopContinue\<close> works on a copy of the caller's message array, where the code
  shares it. The operations of a harness act one at a time on one state: its listeners, hooks and
  tools are arbitrary programs on that state, so they may call every operation back, but two calls
  do not interleave between the steps of one of them, a run started by a listener of agent_end is
  not inside the first, and a queue that abort replaces is still the one a failed notification
  restores. Handlers are those registered when an event is dispatched. The YAML parser, the ignore
  matcher, the collation of names and the resolution of paths are parameters; the depth of a
  directory search is fuel. Unicode normalisation (NFKC), the package diff, \<open>realpath\<close>, the order in
  which a directory is read, the splitting of a file into lines, of a text into graphemes and words, the key
  bindings and the value of a date are parameters too; hypotheses on them, such as \<open>diff_ok\<close>,
  \<open>readline_ok\<close> and \<open>segments_ok\<close>, state what is documented of them. The files
  of sessions have no symbolic links or permissions; those of the editing tools have permissions and
  any operation on them may fail, a write also after it has emptied the file; those of the mutation
  queue may be reached through links. A hook before a tool call may change the arguments of the call, as
  the objects are shared; other objects that are handed to callbacks are not changed by them, and
  neither are its arguments by a tool. The timers of the input buffer and of the terminal are operations
  that may happen whenever they are set.

  \<^bold>\<open>Not modelled.\<close> Providers and their SDKs, login, the drawing of the terminal interface, the command
  line application around its file tools, the cloud service and the web front end are input and output
  or third-party protocols. The accumulator of shell output, the reading tools and the pure helpers of
  the terminal interface can be modelled and are not.
\<close>

section \<open>The transcript of a run, as the next provider gets it\<close>

text \<open>Messages that a user or the application adds.\<close>

definition plain :: "agent_message list \<Rightarrow> bool" where
  "plain ms \<longleftrightarrow> (\<forall>m \<in> set ms. \<not> is_assistant m \<and> \<not> is_tool_result m)"

lemma paired_users: "plain ms \<Longrightarrow> paired [] (convertToLlm ms @ ns) = paired [] ns"
proof (induction ms)
  case (Cons m ms)
  have "paired [] (convertToLlm (m # ms) @ ns) = paired [] (convertToLlm ms @ ns)"
  proof (cases m)
    case (Msg x)
    with Cons.prems show ?thesis by (cases x) (auto simp: plain_def convertToLlm_def List.map_filter_simps)
  qed (auto simp: convertToLlm_def List.map_filter_simps user_text_def)
  with Cons show ?case by (simp add: plain_def)
qed simp

lemma paired_results:
  "map trm_toolCallId rs = is \<Longrightarrow> paired is (map ToolResult rs @ ns) = paired [] ns"
  by (induction rs arbitrary: "is") auto

lemma convert_response [simp]:
  "convertToLlm (assistant_msg am # ms) = Assistant am # convertToLlm ms"
  "convertToLlm (map tool_result_msg rs) = map ToolResult rs"
  using convertToLlm_Msg [of "map ToolResult rs"]
  by (simp_all add: convertToLlm_def assistant_msg_def List.map_filter_simps o_def)

lemma paired_turn:
  assumes "\<forall>w. \<not> cfg_aborted cfg w" "completed_turn cfg t \<or> failed_turn t" "plain (tn_pending t)"
  shows "paired [] (convertToLlm (turn_messages t) @ ns) = paired [] ns"
proof -
  have "map trm_toolCallId (tn_results t) = (if skipped (tn_response t) then [] else call_ids (tn_response t))"
  proof (cases "failed_turn t")
    case True
    then show ?thesis by (simp add: failed_turn_def failed_response_def skipped_def)
  next
    case False
    with assms(1,2) have n: "\<not> skipped (tn_response t)"
      and a: "prefix (map result_key (tn_results t)) (map call_key (tool_calls_of (am_content (tn_response t))))"
        "length (tn_results t) = length (tool_calls_of (am_content (tn_response t)))"
      by (auto simp: completed_turn_def failed_response_def skipped_def answers_def)
    then have "map result_key (tn_results t) = map call_key (tool_calls_of (am_content (tn_response t)))"
      by (metis append_eq_conv_conj length_map prefix_def take_all_iff order_refl)
    then have "map fst (map result_key (tn_results t)) = map fst (map call_key (tool_calls_of (am_content (tn_response t))))"
      by simp
    with n show ?thesis by (simp add: call_ids_def result_key_def call_key_def o_def)
  qed
  from paired_results [OF this] show ?thesis
    by (simp add: turn_messages_def paired_users [OF assms(3)])
qed

lemma run_messages_paired:
  assumes "\<forall>w. \<not> cfg_aborted cfg w" "turns_ok cfg ts" "\<forall>t \<in> set ts. plain (tn_pending t)"
  shows "paired [] (convertToLlm (run_messages ts))"
proof -
  have "\<forall>t \<in> set ts. completed_turn cfg t \<or> failed_turn t"
    using assms(2) by (induction cfg ts rule: turns_ok.induct) auto
  then show ?thesis
    using assms(3) by (induction ts) (simp_all add: paired_turn [OF assms(1)])
qed

lemma call_ids_users: "plain ms \<Longrightarrow> all_call_ids (convertToLlm ms @ ns) = all_call_ids ns"
proof (induction ms)
  case (Cons m ms)
  have "all_call_ids (convertToLlm (m # ms) @ ns) = all_call_ids (convertToLlm ms @ ns)"
  proof (cases m)
    case (Msg x)
    with Cons.prems show ?thesis by (cases x) (auto simp: plain_def convertToLlm_def List.map_filter_simps)
  qed (auto simp: convertToLlm_def List.map_filter_simps user_text_def)
  with Cons show ?case by (simp add: plain_def)
qed simp

text \<open>Claim C15: the messages of a run that is not aborted, prompts and whole turns as every run
  returns them, are sent to whatever provider comes next with nothing added: every result follows
  its call, and only a failed response is left out. This takes prompts and queued messages that are
  neither responses nor results, distinct call identifiers, and a normaliser that empties none.\<close>

theorem run_transcript_stays_paired:
  assumes "\<forall>w. \<not> cfg_aborted cfg w" "turns_ok cfg ts" "\<forall>t \<in> set ts. plain (tn_pending t)" "plain prompts"
    "distinct (all_call_ids (convertToLlm (run_messages ts)))" "never_empty nrm"
  shows "paired [] (transformMessages now s (convertToLlm (prompts @ run_messages ts)) model nrm) \<and>
    map role (transformMessages now s (convertToLlm (prompts @ run_messages ts)) model nrm) =
      map role (filter kept (convertToLlm (prompts @ run_messages ts)))"
proof (rule keeps_pairs [OF _ _ assms(6)])
  show "paired [] (convertToLlm (prompts @ run_messages ts))"
    using run_messages_paired [OF assms(1-3)] by (simp add: paired_users [OF assms(4)])
  show "distinct (all_call_ids (convertToLlm (prompts @ run_messages ts)))"
    using assms(5) by (simp add: call_ids_users [OF assms(4)])
qed

definition sample_turns :: "turn list" where
  "sample_turns =
     [\<lparr>tn_pending = [], tn_response = sample_two_calls, tn_results =
         [\<lparr>trm_toolCallId = js ''1'', trm_toolName = js ''echo'', trm_content = [], trm_details = None,
           trm_isError = False, trm_timestamp = 0\<rparr>,
          \<lparr>trm_toolCallId = js ''2'', trm_toolName = js ''none'', trm_content = [], trm_details = None,
           trm_isError = True, trm_timestamp = 0\<rparr>]\<rparr>,
      \<lparr>tn_pending = [Msg (user_text (js ''go on'') 0)], tn_response = sample_response [] Error, tn_results = []\<rparr>]"

theorem run_transcript_stays_paired_witness:
  "paired [] (transformMessages (\<lambda>_. 0) () (convertToLlm (run_messages sample_turns)) relay_model
      (Some (\<lambda>s i model am. (anthropic_id i, s)))) \<and>
   map role (transformMessages (\<lambda>_. 0) () (convertToLlm (run_messages sample_turns)) relay_model
      (Some (\<lambda>s i model am. (anthropic_id i, s)))) =
     [js ''assistant'', js ''toolResult'', js ''toolResult'', js ''user'']"
proof -
  let ?cfg = "sample_config []"
  have a: "\<forall>w. \<not> cfg_aborted ?cfg w" by (simp add: sample_config_def)
  have t: "turns_ok ?cfg sample_turns"
    by (simp add: sample_turns_def completed_turn_def failed_turn_def failed_response_def answers_def sample_eval
        call_key_def result_key_def)
  have p: "\<forall>t \<in> set sample_turns. plain (tn_pending t)"
    by (simp add: sample_turns_def plain_def user_text_def)
  have q: "plain []" by (simp add: plain_def)
  have m: "convertToLlm (run_messages sample_turns) =
      [Assistant sample_two_calls] @ map ToolResult (tn_results (hd sample_turns)) @
      [user_text (js ''go on'') 0, Assistant (sample_response [] Error)]"
    by (simp add: sample_turns_def turn_messages_def convertToLlm_def List.map_filter_simps assistant_msg_def
        user_text_def)
  have d: "distinct (all_call_ids (convertToLlm (run_messages sample_turns)))"
    unfolding m by (simp add: sample_turns_def sample_eval call_ids_def user_text_def js_def)
  have r: "map role (filter kept (convertToLlm (run_messages sample_turns))) =
      [js ''assistant'', js ''toolResult'', js ''toolResult'', js ''user'']"
    unfolding m by (simp add: sample_turns_def sample_eval user_text_def skipped_def)
  show ?thesis
    by (rule run_transcript_stays_paired [OF a t p q d anthropic_never_empty, unfolded append_Nil r])
qed
end
